(* ===== verification/Prelude.thy ===== *)
theory Prelude
  imports Main "HOL-Library.Word" "HOL-Library.List_Lexorder" "HOL-Library.Multiset"
begin

text \<open>
  Shared vocabulary of the development: the machine integers and byte strings of the Rust
  sources, the checked, saturating and wrapping arithmetic of the standard library, the
  little-endian and hexadecimal encodings, results as sums, and the generic list lemmas the
  components use.  Arrays such as \<open>[u8; 32]\<close> are byte lists; their length is a
  hypothesis where it matters.  Byte lists are ordered lexicographically
  (\<open>List_Lexorder\<close>), as Rust orders arrays and slices.
\<close>

section \<open>Types\<close>

type_synonym u8 = "8 word"
type_synonym u16 = "16 word"
type_synonym u32 = "32 word"
type_synonym u64 = "64 word"
type_synonym u128 = "128 word"
type_synonym bytes = "u8 list"

named_theorems res_simps \<open>equations of the result combinators\<close>
named_theorems params \<open>the protocol constants and per-network parameters\<close>

section \<open>Results\<close>

text \<open>A fallible Rust function returns \<open>Inl\<close> of the error or \<open>Inr\<close> of the value.\<close>

fun res_bind :: "'e + 'a \<Rightarrow> ('a \<Rightarrow> 'e + 'b) \<Rightarrow> 'e + 'b" where
  "res_bind (Inl e) f = Inl e"
| "res_bind (Inr x) f = f x"

fun map_err :: "('e \<Rightarrow> 'f) \<Rightarrow> 'e + 'a \<Rightarrow> 'f + 'a" where
  "map_err g (Inl e) = Inl (g e)"
| "map_err g (Inr x) = Inr x"

definition ok_or :: "'e \<Rightarrow> 'a option \<Rightarrow> 'e + 'a" where
  "ok_or e o' = (case o' of None \<Rightarrow> Inl e | Some x \<Rightarrow> Inr x)"

definition is_ok :: "'e + 'a \<Rightarrow> bool" where
  "is_ok r = (case r of Inl _ \<Rightarrow> False | Inr _ \<Rightarrow> True)"

lemma res_bind_Inr_iff [res_simps]: "res_bind m f = Inr y \<longleftrightarrow> (\<exists>x. m = Inr x \<and> f x = Inr y)"
  by (cases m) auto

lemma res_bind_Inl_iff [res_simps]:
  "res_bind m f = Inl e \<longleftrightarrow> m = Inl e \<or> (\<exists>x. m = Inr x \<and> f x = Inl e)"
  by (cases m) auto

lemma map_err_Inr_iff [res_simps]: "map_err g m = Inr x \<longleftrightarrow> m = Inr x"
  by (cases m) auto

lemma map_err_Inl_iff [res_simps]: "map_err g m = Inl e \<longleftrightarrow> (\<exists>d. m = Inl d \<and> e = g d)"
  by (cases m) auto

lemma ok_or_Inr_iff [res_simps]: "ok_or e o' = Inr x \<longleftrightarrow> o' = Some x"
  by (cases o') (auto simp: ok_or_def)

lemma ok_or_Inl_iff [res_simps]: "ok_or e o' = Inl d \<longleftrightarrow> o' = None \<and> d = e"
  by (cases o') (auto simp: ok_or_def)

lemma is_ok_iff [res_simps]: "is_ok r \<longleftrightarrow> (\<exists>x. r = Inr x)"
  by (cases r) (auto simp: is_ok_def)

text \<open>
  A loop whose body may return early is \<open>for_each\<close>; with a \<open>BTreeSet\<close> of keys
  already seen, tested first, it is \<open>for_fresh\<close>; with an accumulator, \<open>res_fold\<close>.
\<close>

definition ensure :: "'e \<Rightarrow> bool \<Rightarrow> 'e + unit" where
  "ensure e b = (if b then Inr () else Inl e)"

fun for_each :: "('a \<Rightarrow> 'e + unit) \<Rightarrow> 'a list \<Rightarrow> 'e + unit" where
  "for_each f [] = Inr ()"
| "for_each f (x # xs) = res_bind (f x) (\<lambda>_. for_each f xs)"

fun for_fresh ::
    "('a \<Rightarrow> 'k) \<Rightarrow> ('a \<Rightarrow> 'e) \<Rightarrow> ('a \<Rightarrow> 'e + unit) \<Rightarrow> 'k list \<Rightarrow> 'a list \<Rightarrow> 'e + unit" where
  "for_fresh key e f seen [] = Inr ()"
| "for_fresh key e f seen (x # xs) =
     (if key x \<in> set seen then Inl (e x)
      else res_bind (f x) (\<lambda>_. for_fresh key e f (key x # seen) xs))"

fun res_fold :: "('b \<Rightarrow> 'a \<Rightarrow> 'e + 'b) \<Rightarrow> 'b \<Rightarrow> 'a list \<Rightarrow> 'e + 'b" where
  "res_fold f acc [] = Inr acc"
| "res_fold f acc (x # xs) = res_bind (f acc x) (\<lambda>acc'. res_fold f acc' xs)"

lemma ensure_Inr_iff [res_simps]: "ensure e b = Inr u \<longleftrightarrow> b"
  by (simp add: ensure_def)

lemma ensure_Inl_iff [res_simps]: "ensure e b = Inl d \<longleftrightarrow> \<not> b \<and> d = e"
  by (auto simp: ensure_def)

lemma for_each_Inr_iff [res_simps]:
  "for_each f xs = Inr u \<longleftrightarrow> (\<forall>x \<in> set xs. f x = Inr ())"
  by (induction xs) (auto simp: res_bind_Inr_iff)

lemma for_fresh_seen_Inr_iff:
  "for_fresh key e f seen xs = Inr u \<longleftrightarrow>
     distinct (map key xs) \<and> key ` set xs \<inter> set seen = {} \<and> (\<forall>x \<in> set xs. f x = Inr ())"
  by (induction xs arbitrary: seen) (auto simp: res_bind_Inr_iff)

lemma for_fresh_Inr_iff [res_simps]:
  "for_fresh key e f [] xs = Inr u \<longleftrightarrow>
     distinct (map key xs) \<and> (\<forall>x \<in> set xs. f x = Inr ())"
  by (simp add: for_fresh_seen_Inr_iff)

section \<open>Machine arithmetic\<close>

definition checked_add :: "'a::len word \<Rightarrow> 'a word \<Rightarrow> 'a word option" where
  "checked_add a b = (if unat a + unat b < 2 ^ LENGTH('a) then Some (a + b) else None)"

definition checked_sub :: "'a::len word \<Rightarrow> 'a word \<Rightarrow> 'a word option" where
  "checked_sub a b = (if b \<le> a then Some (a - b) else None)"

definition checked_mul :: "'a::len word \<Rightarrow> 'a word \<Rightarrow> 'a word option" where
  "checked_mul a b = (if unat a * unat b < 2 ^ LENGTH('a) then Some (a * b) else None)"

definition sat_add :: "'a::len word \<Rightarrow> 'a word \<Rightarrow> 'a word" where
  "sat_add a b = (case checked_add a b of Some c \<Rightarrow> c | None \<Rightarrow> - 1)"

definition sat_sub :: "'a::len word \<Rightarrow> 'a word \<Rightarrow> 'a word" where
  "sat_sub a b = (if b \<le> a then a - b else 0)"

lemma unat_of_nat_64: "n < 2 ^ 64 \<Longrightarrow> unat (of_nat n :: 64 word) = n"
  by (rule of_nat_inverse [OF refl]) simp

lemma checked_add_Some_iff:
  "checked_add a b = Some c \<longleftrightarrow> unat c = unat a + unat b" for a b c :: "'a::len word"
proof
  assume "checked_add a b = Some c"
  then show "unat c = unat a + unat b"
    by (auto simp: checked_add_def unat_word_ariths split: if_splits)
next
  assume h: "unat c = unat a + unat b"
  then have "unat a + unat b < 2 ^ LENGTH('a)"
    by (metis unsigned_less)
  moreover from this h have "c = a + b"
    by (metis (no_types, lifting) mod_less unat_word_ariths(1) unsigned_word_eqI)
  ultimately show "checked_add a b = Some c"
    by (simp add: checked_add_def)
qed

lemma checked_add_None_iff:
  "checked_add a b = None \<longleftrightarrow> 2 ^ LENGTH('a) \<le> unat a + unat b" for a b :: "'a::len word"
  by (auto simp: checked_add_def)

lemma checked_mul_Some_iff:
  "checked_mul a b = Some c \<longleftrightarrow> unat c = unat a * unat b" for a b c :: "'a::len word"
proof
  assume "checked_mul a b = Some c"
  then show "unat c = unat a * unat b"
    by (auto simp: checked_mul_def unat_word_ariths split: if_splits)
next
  assume h: "unat c = unat a * unat b"
  then have "unat a * unat b < 2 ^ LENGTH('a)"
    by (metis unsigned_less)
  moreover from this h have "c = a * b"
    by (metis (no_types, lifting) mod_less unat_word_ariths(2) unsigned_word_eqI)
  ultimately show "checked_mul a b = Some c"
    by (simp add: checked_mul_def)
qed

lemma unat_sat_sub: "unat (sat_sub a b) = unat a - unat b" for a b :: "'a::len word"
  by (auto simp: sat_sub_def unat_sub_if' word_le_nat_alt)

lemma unat_sat_add:
  "unat (sat_add a b) = min (unat a + unat b) (2 ^ LENGTH('a) - 1)" for a b :: "'a::len word"
proof (cases "unat a + unat b < 2 ^ LENGTH('a)")
  case True
  then show ?thesis
    by (auto simp: sat_add_def checked_add_def unat_word_ariths)
next
  case False
  then show ?thesis
    by (simp add: sat_add_def checked_add_def unsigned_minus_1_eq_mask mask_eq_exp_minus_1)
qed

lemma sat_add_mono: "a \<le> sat_add a b" for a b :: "'a::len word"
proof -
  have "unat a < 2 ^ LENGTH('a)" by (rule unsigned_less)
  then have "unat a \<le> 2 ^ LENGTH('a) - 1" by linarith
  then show ?thesis by (simp add: word_le_nat_alt unat_sat_add)
qed

lemma unat_minus_le: "b \<le> a \<Longrightarrow> unat (a - b) = unat a - unat b" for a b :: "'a::len word"
  by (simp add: unat_sub_if' word_le_nat_alt)

section \<open>Little-endian and big-endian byte strings\<close>

fun le_bytes :: "nat \<Rightarrow> nat \<Rightarrow> bytes" where
  "le_bytes 0 n = []"
| "le_bytes (Suc k) n = of_nat (n mod 256) # le_bytes k (n div 256)"

fun le_nat :: "bytes \<Rightarrow> nat" where
  "le_nat [] = 0"
| "le_nat (b # bs) = unat b + 256 * le_nat bs"

text \<open>\<open>u8::to_le_bytes\<close> and its siblings.\<close>

definition u32_le :: "u32 \<Rightarrow> bytes" where
  "u32_le w = le_bytes 4 (unat w)"

definition u64_le :: "u64 \<Rightarrow> bytes" where
  "u64_le w = le_bytes 8 (unat w)"

text \<open>A byte string read as a big-endian integer.\<close>

definition be_nat :: "bytes \<Rightarrow> nat" where
  "be_nat bs = le_nat (rev bs)"

lemma length_le_bytes [simp]: "length (le_bytes k n) = k"
  by (induction k arbitrary: n) auto

lemma length_u32_le [simp]: "length (u32_le w) = 4"
  by (simp add: u32_le_def)

lemma length_u64_le [simp]: "length (u64_le w) = 8"
  by (simp add: u64_le_def)

lemma le_nat_le_bytes: "le_nat (le_bytes k n) = n mod 256 ^ k"
proof (induction k arbitrary: n)
  case (Suc k)
  have "n mod 256 ^ Suc k = n mod 256 + 256 * (n div 256 mod 256 ^ k)"
    by (metis mod_mult2_eq power_Suc add.commute)
  then show ?case
    using Suc by (simp add: unat_of_nat)
qed simp

lemma le_bytes_inject:
  assumes "m < 256 ^ k" "n < 256 ^ k" "le_bytes k m = le_bytes k n"
  shows "m = n"
  using arg_cong [OF assms(3), of le_nat] assms(1,2) by (simp add: le_nat_le_bytes)

lemma le_nat_append: "le_nat (xs @ ys) = le_nat xs + 256 ^ length xs * le_nat ys"
  by (induction xs) (auto simp: algebra_simps)

lemma le_nat_bound: "le_nat bs < 256 ^ length bs"
proof (induction bs)
  case (Cons b bs)
  have "unat b < 256"
    using unsigned_less [of b, where ?'a = nat] by simp
  with Cons show ?case by simp
qed simp

lemma le_bytes_le_nat: "le_bytes (length bs) (le_nat bs) = bs"
proof (induction bs)
  case (Cons b bs)
  have "unat b < 256"
    using unsigned_less [of b, where ?'a = nat] by simp
  with Cons show ?case by simp
qed simp

lemma u64_le_inject [simp]: "u64_le a = u64_le b \<longleftrightarrow> a = b"
proof
  have bound: "unat w < 256 ^ 8" for w :: u64
    using unsigned_less [of w, where ?'a = nat] by simp
  assume "u64_le a = u64_le b"
  then have "unat a = unat b"
    unfolding u64_le_def by (rule le_bytes_inject [OF bound bound])
  then show "a = b" by (simp add: word_unat_eq_iff)
qed simp

lemma u32_le_inject [simp]: "u32_le a = u32_le b \<longleftrightarrow> a = b"
proof
  have bound: "unat w < 256 ^ 4" for w :: u32
    using unsigned_less [of w, where ?'a = nat] by simp
  assume "u32_le a = u32_le b"
  then have "unat a = unat b"
    unfolding u32_le_def by (rule le_bytes_inject [OF bound bound])
  then show "a = b" by (simp add: word_unat_eq_iff)
qed simp

section \<open>Hexadecimal strings\<close>

definition hex_digit :: "nat \<Rightarrow> char" where
  "hex_digit n = ''0123456789abcdef'' ! n"

definition hex_byte :: "u8 \<Rightarrow> string" where
  "hex_byte b = [hex_digit (unat b div 16), hex_digit (unat b mod 16)]"

text \<open>\<open>hex::encode\<close>.\<close>

definition hex_encode :: "bytes \<Rightarrow> string" where
  "hex_encode bs = concat (map hex_byte bs)"

definition hex_value :: "char \<Rightarrow> nat option" where
  "hex_value c =
     (let n = of_char c :: nat in
      if 48 \<le> n \<and> n \<le> 57 then Some (n - 48)
      else if 97 \<le> n \<and> n \<le> 102 then Some (n - 87)
      else if 65 \<le> n \<and> n \<le> 70 then Some (n - 55)
      else None)"

text \<open>\<open>hex::decode\<close>: \<open>None\<close> on an odd length or a character that is no digit.\<close>

fun hex_decode :: "string \<Rightarrow> bytes option" where
  "hex_decode [] = Some []"
| "hex_decode [c] = None"
| "hex_decode (c # d # cs) =
     (case (hex_value c, hex_value d) of
        (Some h, Some l) \<Rightarrow> map_option (\<lambda>bs. of_nat (16 * h + l) # bs) (hex_decode cs)
      | _ \<Rightarrow> None)"

lemma hex_value_digit: "n < 16 \<Longrightarrow> hex_value (hex_digit n) = Some n"
proof -
  have "\<forall>k \<in> set [0..<16]. hex_value (hex_digit k) = Some k"
    by code_simp
  then show "n < 16 \<Longrightarrow> hex_value (hex_digit n) = Some n" by simp
qed

lemma hex_decode_byte:
  "hex_decode (hex_byte b @ cs) = map_option ((#) b) (hex_decode cs)"
proof -
  have b: "unat b < 256"
    using unsigned_less [of b, where ?'a = nat] by simp
  then have "unat b div 16 < 16" by simp
  moreover have "16 * (unat b div 16) + unat b mod 16 = unat b" by simp
  ultimately show ?thesis
    by (simp add: hex_byte_def hex_value_digit del: of_nat_add of_nat_mult)
qed

lemma hex_decode_encode: "hex_decode (hex_encode bs) = Some bs"
  by (induction bs) (auto simp: hex_encode_def hex_decode_byte)

lemma hex_encode_inject [simp]: "hex_encode a = hex_encode b \<longleftrightarrow> a = b"
  by (metis hex_decode_encode option.inject)

lemma length_hex_encode: "length (hex_encode bs) = 2 * length bs"
  by (induction bs) (auto simp: hex_encode_def hex_byte_def)

section \<open>Text\<close>

text \<open>The bytes of an ASCII literal such as \<open>b"nightfall:tx:v2"\<close>.\<close>

definition str_bytes :: "string \<Rightarrow> bytes" where
  "str_bytes s = map of_char s"

text \<open>Decimal rendering of an unsigned integer, as \<open>{}\<close> formats it.\<close>

fun dec_string :: "nat \<Rightarrow> string" where
  "dec_string n =
     (if n < 10 then [char_of (48 + n)]
      else dec_string (n div 10) @ [char_of (48 + n mod 10)])"

declare dec_string.simps [simp del]

section \<open>Lists\<close>

text \<open>Rust's \<open>iter().try_fold\<close> over options.\<close>

fun try_fold :: "('b \<Rightarrow> 'a \<Rightarrow> 'b option) \<Rightarrow> 'b \<Rightarrow> 'a list \<Rightarrow> 'b option" where
  "try_fold f acc [] = Some acc"
| "try_fold f acc (x # xs) =
     (case f acc x of None \<Rightarrow> None | Some acc' \<Rightarrow> try_fold f acc' xs)"

text \<open>
  A loop that inserts into a \<open>BTreeSet\<close> and stops at the first repetition accepts
  exactly the duplicate-free lists.
\<close>

fun no_repeat :: "'a list \<Rightarrow> 'a list \<Rightarrow> bool" where
  "no_repeat seen [] = True"
| "no_repeat seen (x # xs) = (x \<notin> set seen \<and> no_repeat (x # seen) xs)"

lemma no_repeat_iff: "no_repeat seen xs \<longleftrightarrow> distinct xs \<and> set xs \<inter> set seen = {}"
  by (induction xs arbitrary: seen) auto

lemma find_Some_mem: "List.find P xs = Some x \<Longrightarrow> x \<in> set xs \<and> P x"
  by (auto simp: find_Some_iff)

lemma length_filter_one:
  assumes "length (filter P xs) = 1"
  obtains x where "filter P xs = [x]" "x \<in> set xs" "P x"
proof -
  from assms obtain x where x: "filter P xs = [x]"
    by (metis One_nat_def length_0_conv length_Suc_conv)
  then have "x \<in> set (filter P xs)" by simp
  then have "x \<in> set xs \<and> P x" unfolding set_filter by blast
  with x that show thesis by blast
qed

text \<open>
  Computations that change a state and may fail, as the code that talks to sockets and files
  does: the state reached is kept when the computation fails.
\<close>

type_synonym ('s, 'e, 'a) sr = "'s \<Rightarrow> 's \<times> ('e + 'a)"

definition sr_return :: "'a \<Rightarrow> ('s, 'e, 'a) sr" where "sr_return x s = (s, Inr x)"
definition sr_fail :: "'e \<Rightarrow> ('s, 'e, 'a) sr" where "sr_fail e s = (s, Inl e)"

definition sr_bind :: "('s, 'e, 'a) sr \<Rightarrow> ('a \<Rightarrow> ('s, 'e, 'b) sr) \<Rightarrow> ('s, 'e, 'b) sr" where
  "sr_bind m f s = (case m s of (s', Inl e) \<Rightarrow> (s', Inl e) | (s', Inr x) \<Rightarrow> f x s')"

definition sr_lift :: "'e + 'a \<Rightarrow> ('s, 'e, 'a) sr" where
  "sr_lift r = (case r of Inl e \<Rightarrow> sr_fail e | Inr x \<Rightarrow> sr_return x)"

definition sr_require :: "bool \<Rightarrow> 'e \<Rightarrow> ('s, 'e, unit) sr" where
  "sr_require b e = (if b then sr_return () else sr_fail e)"

definition sr_get :: "('s \<Rightarrow> 'a) \<Rightarrow> ('s, 'e, 'a) sr" where "sr_get f s = (s, Inr (f s))"

lemma sr_bind_assoc: "sr_bind (sr_bind m f) g = sr_bind m (\<lambda>x. sr_bind (f x) g)"
  by (auto simp: sr_bind_def fun_eq_iff split: prod.split sum.split)

text \<open>How each step continues when the whole run succeeds.\<close>

lemma sr_return_step: "sr_return x c = (d, Inr y) \<longleftrightarrow> d = c \<and> y = x"
  by (auto simp: sr_return_def)

lemma sr_fail_step: "sr_fail e c = (d, Inr y) \<longleftrightarrow> False"
  by (simp add: sr_fail_def)

lemma sr_require_step: "sr_bind (sr_require b e) f c = (d, Inr z) \<longleftrightarrow> b \<and> f () c = (d, Inr z)"
  by (simp add: sr_bind_def sr_return_def sr_fail_def sr_require_def)

lemma sr_lift_step:
  "sr_bind (sr_lift r) f c = (d, Inr z) \<longleftrightarrow> (\<exists>v. r = Inr v \<and> f v c = (d, Inr z))"
  by (auto simp: sr_bind_def sr_return_def sr_fail_def sr_lift_def split: sum.splits)

lemma sr_get_step: "sr_bind (sr_get g) f c = f (g c) c"
  by (simp add: sr_bind_def sr_get_def)

lemmas sr_steps = sr_return_step sr_fail_step sr_require_step sr_lift_step sr_get_step

text \<open>How the first step of a run goes.\<close>

lemma sr_bind_simps [simp]:
  "sr_bind (sr_get f) g s = g (f s) s"
  "sr_bind (sr_return x) h s = h x s"
  "sr_bind (sr_lift (Inr y)) k s = k y s"
  "sr_bind (sr_lift (Inl e)) k s = (s, Inl e)"
  "sr_bind (sr_require True e) j s = j () s"
  "sr_bind (sr_require False e) j s = (s, Inl e)"
  by (simp_all add: sr_bind_def sr_get_def sr_return_def sr_lift_def sr_require_def sr_fail_def)

end
