(* ===== verification/Types.thy ===== *)
theory Types
  imports Prelude
begin

text \<open>
  \<open>crates/nightfall-types/src/lib.rs\<close>: protocol constants, the network identifiers and
  their consensus parameters, checkpoints, amounts, hashes, heights and the fair-launch
  genesis check.  \<open>Hash256\<close> is its 32 bytes and \<open>Height\<close> its \<open>u64\<close>
  (both are newtypes); \<open>Amount\<close> keeps its constructor and its derived order.
\<close>

section \<open>Constants\<close>

definition PROTOCOL_VERSION :: u32 where [params]: "PROTOCOL_VERSION = 8"
definition WIRE_VERSION :: u32 where [params]: "WIRE_VERSION = 6"
definition DARKS_PER_NIGHT :: u64 where [params]: "DARKS_PER_NIGHT = 100000000"
definition MAX_SUPPLY_NIGHT :: u64 where [params]: "MAX_SUPPLY_NIGHT = 90000000"
definition MAX_SUPPLY_DARKS :: u64 where
  [params]: "MAX_SUPPLY_DARKS = MAX_SUPPLY_NIGHT * DARKS_PER_NIGHT"
definition INITIAL_BLOCK_REWARD_NIGHT :: u64 where [params]: "INITIAL_BLOCK_REWARD_NIGHT = 6"
definition HALVING_INTERVAL_BLOCKS :: u64 where [params]: "HALVING_INTERVAL_BLOCKS = 7500000"
definition TARGET_BLOCK_TIME_SECS :: u64 where [params]: "TARGET_BLOCK_TIME_SECS = 15"
definition DIFFICULTY_WINDOW :: u64 where [params]: "DIFFICULTY_WINDOW = 90"
definition MIN_DIFFICULTY :: u64 where [params]: "MIN_DIFFICULTY = 2000"
definition BINDING_FORK_HEIGHT_MAINNET :: u64 where
  [params]: "BINDING_FORK_HEIGHT_MAINNET = 500000"
definition MAX_FUTURE_DRIFT_SECS :: u64 where [params]: "MAX_FUTURE_DRIFT_SECS = 120"
definition MTP_WINDOW :: nat where [params]: "MTP_WINDOW = 11"
definition LWMA_MIN_SOLVETIME_FACTOR :: int where [params]: "LWMA_MIN_SOLVETIME_FACTOR = -5"
definition LWMA_MAX_SOLVETIME_FACTOR :: int where [params]: "LWMA_MAX_SOLVETIME_FACTOR = 6"
definition MAX_BLOCK_BYTES :: nat where [params]: "MAX_BLOCK_BYTES = 2 * 1024 * 1024"
definition MAX_MESSAGE_BYTES :: nat where [params]: "MAX_MESSAGE_BYTES = 4 * 1024 * 1024"

definition COIN_NAME :: string where [params]: "COIN_NAME = ''NIGHTFALLCOIN''"
definition TICKER :: string where [params]: "TICKER = ''NIGHT''"
definition PROTOCOL_NAME :: string where [params]: "PROTOCOL_NAME = ''nightfall''"

lemma unat_max_supply: "unat MAX_SUPPLY_DARKS = 9000000000000000"
  by (simp add: params)

section \<open>Checkpoints\<close>

definition CHECKPOINTS :: "(u64 \<times> string) list" where
  "CHECKPOINTS =
     [(25000, ''71c8b97b1e8a20f9f29d9e873110e41223b0c96aa9ce773feaee78c97bdd247e'')]"

definition checkpoint_at :: "u64 \<Rightarrow> string option" where
  "checkpoint_at height = map_option snd (List.find (\<lambda>e. fst e = height) CHECKPOINTS)"

definition highest_checkpoint_height :: u64 where
  "highest_checkpoint_height = fold max (map fst CHECKPOINTS) 0"

lemma highest_checkpoint [params]: "highest_checkpoint_height = 25000"
  by (simp add: highest_checkpoint_height_def CHECKPOINTS_def)

lemma checkpoint_at_highest: "checkpoint_at highest_checkpoint_height \<noteq> None"
  by (simp add: highest_checkpoint checkpoint_at_def CHECKPOINTS_def)

lemma checkpoint_at_le: "checkpoint_at h = Some s \<Longrightarrow> h \<le> highest_checkpoint_height"
  by (auto simp: highest_checkpoint checkpoint_at_def CHECKPOINTS_def split: if_splits)

section \<open>Proof-of-work parameters and networks\<close>

record pow_params =
  memory_kib :: u32
  iterations :: u32
  lanes :: u32

definition memory_bytes :: "pow_params \<Rightarrow> u64" where
  "memory_bytes p = ucast (memory_kib p) * 1024"

datatype network_id = Mainnet | Testnet | Devnet

fun network_as_str :: "network_id \<Rightarrow> string" where
  "network_as_str Mainnet = ''mainnet''"
| "network_as_str Testnet = ''testnet''"
| "network_as_str Devnet = ''devnet''"

fun initial_difficulty :: "network_id \<Rightarrow> u64" where
  "initial_difficulty Devnet = 60"
| "initial_difficulty Testnet = 30000"
| "initial_difficulty Mainnet = 5000"

fun min_difficulty :: "network_id \<Rightarrow> u64" where
  "min_difficulty Devnet = 1"
| "min_difficulty Testnet = 1000"
| "min_difficulty Mainnet = MIN_DIFFICULTY"

fun proof_context :: "network_id \<Rightarrow> bytes" where
  "proof_context Mainnet = str_bytes ''nightfall:mainnet:v8''"
| "proof_context Testnet = str_bytes ''nightfall:testnet:v8''"
| "proof_context Devnet = str_bytes ''nightfall:devnet:v8''"

fun seed_nodes :: "network_id \<Rightarrow> string list" where
  "seed_nodes Mainnet =
     [''seed.nightfallcoin.org:17891'', ''seed2.nightfallcoin.org:17891'',
      ''seed3.nightfallcoin.org:17891'']"
| "seed_nodes Testnet = []"
| "seed_nodes Devnet = []"

fun network_pow_params :: "network_id \<Rightarrow> pow_params" where
  "network_pow_params Mainnet = \<lparr>memory_kib = 32 * 1024, iterations = 1, lanes = 1\<rparr>"
| "network_pow_params Testnet = \<lparr>memory_kib = 8 * 1024, iterations = 1, lanes = 1\<rparr>"
| "network_pow_params Devnet = \<lparr>memory_kib = 1024, iterations = 1, lanes = 1\<rparr>"

fun binding_fork_height :: "network_id \<Rightarrow> u64" where
  "binding_fork_height Mainnet = BINDING_FORK_HEIGHT_MAINNET"
| "binding_fork_height Testnet = 0"
| "binding_fork_height Devnet = 20"

fun default_p2p_port :: "network_id \<Rightarrow> u16" where
  "default_p2p_port Mainnet = 17891"
| "default_p2p_port Testnet = 17892"
| "default_p2p_port Devnet = 17893"

fun default_rpc_port :: "network_id \<Rightarrow> u16" where
  "default_rpc_port Mainnet = 17881"
| "default_rpc_port Testnet = 17882"
| "default_rpc_port Devnet = 17883"

lemma proof_context_inject: "proof_context n = proof_context m \<longleftrightarrow> n = m"
  by (cases n; cases m) (simp_all add: str_bytes_def)

section \<open>Amounts\<close>

datatype amount = Amount (darks: u64)

instantiation amount :: linorder
begin

definition less_eq_amount :: "amount \<Rightarrow> amount \<Rightarrow> bool" where
  "less_eq_amount a b \<longleftrightarrow> darks a \<le> darks b"

definition less_amount :: "amount \<Rightarrow> amount \<Rightarrow> bool" where
  "less_amount a b \<longleftrightarrow> darks a < darks b"

instance
  by standard (auto simp: less_eq_amount_def less_amount_def amount.expand)

end

definition amount_zero :: amount where
  "amount_zero = Amount 0"

definition amount_from_night :: "u64 \<Rightarrow> amount option" where
  "amount_from_night whole = map_option Amount (checked_mul whole DARKS_PER_NIGHT)"

definition amount_checked_add :: "amount \<Rightarrow> amount \<Rightarrow> amount option" where
  "amount_checked_add a b = map_option Amount (checked_add (darks a) (darks b))"

definition amount_checked_sub :: "amount \<Rightarrow> amount \<Rightarrow> amount option" where
  "amount_checked_sub a b = map_option Amount (checked_sub (darks a) (darks b))"

text \<open>\<open>format!("{whole}.{frac:08}")\<close>: the fraction is padded with zeros to eight digits.\<close>

definition decimal_string :: "amount \<Rightarrow> string" where
  "decimal_string a =
     (let whole = unat (darks a) div unat DARKS_PER_NIGHT;
          frac = dec_string (unat (darks a) mod unat DARKS_PER_NIGHT)
      in dec_string whole @ ''.'' @ replicate (8 - length frac) (CHR ''0'') @ frac)"

section \<open>Hashes and heights\<close>

datatype types_error = InvalidHex | InvalidHashLength | PremineForbidden nat
  | IdentityMismatch | SupplyMismatch

definition hash_zero :: bytes where
  "hash_zero = replicate 32 0"

definition hash_to_hex :: "bytes \<Rightarrow> string" where
  "hash_to_hex h = hex_encode h"

definition hash_from_hex :: "string \<Rightarrow> types_error + bytes" where
  "hash_from_hex s =
     (case hex_decode s of
        None \<Rightarrow> Inl InvalidHex
      | Some bs \<Rightarrow> if length bs \<noteq> 32 then Inl InvalidHashLength else Inr bs)"

text \<open>\<open>u8::leading_zeros\<close>.\<close>

definition leading_zeros8 :: "u8 \<Rightarrow> nat" where
  "leading_zeros8 b = length (takeWhile (\<lambda>i. \<not> bit b i) [7, 6, 5, 4, 3, 2, 1, 0])"

fun leading_zero_bits :: "bytes \<Rightarrow> nat" where
  "leading_zero_bits [] = 0"
| "leading_zero_bits (b # bs) =
     (if b = 0 then 8 + leading_zero_bits bs else leading_zeros8 b)"

definition height_next :: "u64 \<Rightarrow> u64" where
  "height_next h = sat_add h 1"

section \<open>Genesis\<close>

record genesis_allocation =
  alloc_label :: string
  alloc_amount :: amount

record genesis_config =
  g_network :: network_id
  g_chain_name :: string
  g_coin_name :: string
  g_ticker :: string
  g_allocations :: "genesis_allocation list"
  g_protocol_version :: u32
  g_max_supply_night :: u64
  g_initial_reward_night :: u64
  g_halving_interval :: u64

definition fair_launch :: "network_id \<Rightarrow> genesis_config" where
  "fair_launch network = \<lparr>g_network = network, g_chain_name = PROTOCOL_NAME,
     g_coin_name = COIN_NAME, g_ticker = TICKER, g_allocations = [],
     g_protocol_version = PROTOCOL_VERSION, g_max_supply_night = MAX_SUPPLY_NIGHT,
     g_initial_reward_night = INITIAL_BLOCK_REWARD_NIGHT,
     g_halving_interval = HALVING_INTERVAL_BLOCKS\<rparr>"

definition assert_fair :: "genesis_config \<Rightarrow> types_error + unit" where
  "assert_fair g =
     (if g_allocations g \<noteq> [] then Inl (PremineForbidden (length (g_allocations g)))
      else if g_coin_name g \<noteq> COIN_NAME \<or> g_ticker g \<noteq> TICKER then Inl IdentityMismatch
      else if g_max_supply_night g \<noteq> MAX_SUPPLY_NIGHT then Inl SupplyMismatch
      else Inr ())"

lemma fair_launch_is_fair [simp]: "assert_fair (fair_launch n) = Inr ()"
  by (simp add: assert_fair_def fair_launch_def)

lemma assert_fair_no_premine: "assert_fair g = Inr () \<Longrightarrow> g_allocations g = []"
  by (auto simp: assert_fair_def split: if_splits)

section \<open>Lemmas\<close>

lemma hash_hex_roundtrip: "length h = 32 \<Longrightarrow> hash_from_hex (hash_to_hex h) = Inr h"
  by (simp add: hash_from_hex_def hash_to_hex_def hex_decode_encode)

lemma unat_height_next: "unat (height_next h) = min (unat h + 1) (2 ^ 64 - 1)"
  by (simp add: height_next_def unat_sat_add)

lemma height_next_Suc: "h \<noteq> - 1 \<Longrightarrow> unat (height_next h) = unat h + 1"
proof -
  assume "h \<noteq> - 1"
  then have "unat h \<noteq> unat (- 1 :: u64)"
    by (simp only: word_unat_eq_iff not_False_eq_True)
  then have "unat h \<noteq> 2 ^ 64 - 1"
    by (simp add: unsigned_minus_1_eq_mask mask_eq_exp_minus_1)
  moreover have "unat h < 2 ^ 64"
    using unsigned_less [of h, where ?'a = nat] by simp
  ultimately show ?thesis by (simp add: unat_height_next)
qed

lemma leading_zeros8_bounds:
  assumes "b \<noteq> 0"
  shows "leading_zeros8 b < 8"
    and "unat b < 2 ^ (8 - leading_zeros8 b)"
    and "2 ^ (7 - leading_zeros8 b) \<le> unat b"
proof -
  have all: "\<forall>n \<in> set [1..<256]. leading_zeros8 (of_nat n) < 8
      \<and> n < 2 ^ (8 - leading_zeros8 (of_nat n)) \<and> 2 ^ (7 - leading_zeros8 (of_nat n)) \<le> n"
    by code_simp
  have "unat b \<in> set [1..<256]"
    using assms unsigned_less [of b, where ?'a = nat] by (simp add: unat_gt_0 Suc_le_eq)
  with all have "leading_zeros8 (of_nat (unat b)) < 8
      \<and> unat b < 2 ^ (8 - leading_zeros8 (of_nat (unat b)))
      \<and> 2 ^ (7 - leading_zeros8 (of_nat (unat b))) \<le> unat b"
    by blast
  then show "leading_zeros8 b < 8" and "unat b < 2 ^ (8 - leading_zeros8 b)"
    and "2 ^ (7 - leading_zeros8 b) \<le> unat b"
    by simp_all
qed

end
