(* ===== verification/Difficulty.thy ===== *)
theory Difficulty
  imports Types
begin

text \<open>
  \<open>crates/nightfall-consensus/src/difficulty.rs\<close>: the LWMA retarget and the
  median-time-past rule.  Timestamps are \<open>u64\<close>; their difference is taken as \<open>i64\<close>, which
  is \<open>sint\<close> of the wrapping difference.  The weighted sum stays within
  \<open>6 * 15 * 90 * 91 / 2\<close>, so \<open>int\<close> is exact for the \<open>i64\<close>; the sum of ninety
  difficulties stays below \<open>2^71\<close>, so \<open>nat\<close> is exact for the \<open>u128\<close>, and the saturating
  multiplications are written out.  \<open>clamp\<close> panics when its lower bound exceeds its upper
  one; \<open>retarget_defined\<close> says when it does not.
\<close>

section \<open>Retarget\<close>

definition clamp_int :: "int \<Rightarrow> int \<Rightarrow> int \<Rightarrow> int" where
  "clamp_int x lo hi = (if x < lo then lo else if hi < x then hi else x)"

definition clamp_nat :: "nat \<Rightarrow> nat \<Rightarrow> nat \<Rightarrow> nat" where
  "clamp_nat x lo hi = (if x < lo then lo else if hi < x then hi else x)"

definition target_secs :: int where
  "target_secs = int (unat TARGET_BLOCK_TIME_SECS)"

definition solvetime :: "u64 \<Rightarrow> u64 \<Rightarrow> int" where
  "solvetime prev this =
     clamp_int (sint (this - prev)) (LWMA_MIN_SOLVETIME_FACTOR * target_secs)
       (LWMA_MAX_SOLVETIME_FACTOR * target_secs)"

definition U128_MAX :: nat where "U128_MAX = 2 ^ 128 - 1"
definition U64_MAX :: nat where "U64_MAX = 2 ^ 64 - 1"

definition weighted_solvetime :: "(u64 \<times> u64) list \<Rightarrow> nat \<Rightarrow> int" where
  "weighted_solvetime window n =
     (\<Sum>i \<leftarrow> [1..<n + 1]. solvetime (fst (window ! (i - 1))) (fst (window ! i)) * int i)"

definition difficulty_sum :: "(u64 \<times> u64) list \<Rightarrow> nat \<Rightarrow> nat" where
  "difficulty_sum window n = (\<Sum>i \<leftarrow> [1..<n + 1]. unat (snd (window ! i)))"

definition weight_total :: "nat \<Rightarrow> int" where
  "weight_total n = int n * (int n + 1) * target_secs div 2"

definition retarget :: "nat \<Rightarrow> int \<Rightarrow> int \<Rightarrow> u64 \<Rightarrow> u64" where
  "retarget avg k weighted floor =
     (let weighted' = (if weighted < k div 10 then k div 10 else weighted);
          next = min U128_MAX (avg * nat k) div nat (max weighted' 1);
          upper = min U128_MAX (avg * 2);
          lower = max (avg div 2) 1;
          clamped = clamp_nat next lower upper
      in max (of_nat (min clamped U64_MAX)) floor)"

definition next_difficulty :: "(u64 \<times> u64) list \<Rightarrow> u64 \<Rightarrow> u64 \<Rightarrow> u64" where
  "next_difficulty history initial floor =
     (let n = unat DIFFICULTY_WINDOW in
      if length history < n + 1 then max initial floor
      else
        (let window = drop (length history - (n + 1)) history
         in retarget (difficulty_sum window n div n) (weight_total n)
              (weighted_solvetime window n) floor))"

text \<open>The precondition of \<open>next.clamp(lower, upper)\<close>.\<close>

definition retarget_defined :: "(u64 \<times> u64) list \<Rightarrow> bool" where
  "retarget_defined history \<longleftrightarrow>
     (let n = unat DIFFICULTY_WINDOW in
      length history < n + 1
      \<or> (let avg = difficulty_sum (drop (length history - (n + 1)) history) n div n
         in max (avg div 2) 1 \<le> min U128_MAX (avg * 2)))"

section \<open>Median time past\<close>

definition median_time_past :: "u64 list \<Rightarrow> u64" where
  "median_time_past ts =
     (if ts = [] then 0
      else
        (let take_n = min MTP_WINDOW (length ts);
             window = sort (drop (length ts - take_n) ts)
         in window ! (length window div 2)))"

section \<open>Lemmas\<close>

lemma unat_window [simp]: "unat DIFFICULTY_WINDOW = 90"
  by (simp add: params)

lemma target_secs_eq [simp]: "target_secs = 15"
  by (simp add: target_secs_def params)

lemma weight_total_90 [simp]: "weight_total 90 = 61425"
  by (simp add: weight_total_def)

lemma solvetime_bounds: "- 75 \<le> solvetime a b" "solvetime a b \<le> 90"
  by (auto simp: solvetime_def clamp_int_def params)

lemma sum_list_bound:
  fixes f :: "'a \<Rightarrow> 'b::ordered_ab_group_add"
  assumes "\<And>x. x \<in> set xs \<Longrightarrow> f x \<le> g x"
  shows "(\<Sum>x \<leftarrow> xs. f x) \<le> (\<Sum>x \<leftarrow> xs. g x)"
  using assms by (induction xs) (auto intro: add_mono)

text \<open>The \<open>i64\<close> accumulator never leaves a few hundred thousand.\<close>

lemma weighted_solvetime_bounds:
  "- 307125 \<le> weighted_solvetime w 90" "weighted_solvetime w 90 \<le> 368550"
proof -
  have u: "(\<Sum>i \<leftarrow> [1..<91]. int i) = 4095" by code_simp
  have "weighted_solvetime w 90 \<le> (\<Sum>i \<leftarrow> [1..<90 + 1]. 90 * int i)"
    unfolding weighted_solvetime_def by (rule sum_list_bound) (simp add: solvetime_bounds)
  also have "\<dots> = 90 * (\<Sum>i \<leftarrow> [1..<91]. int i)"
    by (simp only: sum_list_const_mult add.commute) simp
  finally show "weighted_solvetime w 90 \<le> 368550" by (simp only: u)
  have "(\<Sum>i \<leftarrow> [1..<90 + 1]. (- 75) * int i) \<le> weighted_solvetime w 90"
    unfolding weighted_solvetime_def
    by (rule sum_list_bound) (rule mult_right_mono, simp_all add: solvetime_bounds)
  moreover have "(\<Sum>i \<leftarrow> [1..<90 + 1]. (- 75) * int i) = (- 75) * (\<Sum>i \<leftarrow> [1..<91]. int i)"
    by (simp only: sum_list_const_mult add.commute) simp
  ultimately show "- 307125 \<le> weighted_solvetime w 90" by (simp only: u)
qed

lemma retarget_floor: "floor \<le> retarget avg k weighted floor"
  by (simp only: retarget_def Let_def max.cobounded2)

lemma unat_of_nat_U64: "x \<le> U64_MAX \<Longrightarrow> unat (of_nat x :: u64) = x"
  by (rule of_nat_inverse [OF refl]) (simp add: U64_MAX_def)

lemma clamp_nat_bounds:
  "lo \<le> hi \<Longrightarrow> lo \<le> clamp_nat x lo hi \<and> clamp_nat x lo hi \<le> hi"
  by (simp add: clamp_nat_def)

lemma clamp_nat_id: "lo \<le> x \<Longrightarrow> x \<le> hi \<Longrightarrow> clamp_nat x lo hi = x"
  by (simp add: clamp_nat_def)

lemma max_le_128: "U64_MAX \<le> U128_MAX"
  by (simp add: U64_MAX_def U128_MAX_def)

lemma unat_max: "unat (max a b) = max (unat a) (unat b)" for a b :: "'a::len word"
  by (simp add: max_def word_le_nat_alt)

text \<open>The clamped quotient, as a natural number.\<close>

definition clamped_next :: "nat \<Rightarrow> int \<Rightarrow> int \<Rightarrow> nat" where
  "clamped_next avg k weighted =
     (let weighted' = (if weighted < k div 10 then k div 10 else weighted);
          next = min U128_MAX (avg * nat k) div nat (max weighted' 1);
          upper = min U128_MAX (avg * 2);
          lower = max (avg div 2) 1
      in clamp_nat next lower upper)"

lemma unat_retarget:
  "unat (retarget avg k weighted floor)
    = max (min (clamped_next avg k weighted) U64_MAX) (unat floor)"
proof -
  have "retarget avg k weighted floor
      = max (of_nat (min (clamped_next avg k weighted) U64_MAX)) floor"
    by (simp only: retarget_def clamped_next_def Let_def)
  then show ?thesis
    by (simp only: unat_max unat_of_nat_U64 [OF min.cobounded2])
qed

text \<open>One block moves the difficulty at most by a factor of two, within the floor.\<close>

lemma clamped_next_bounds:
  assumes "1 \<le> avg" "avg \<le> U64_MAX"
  shows "max (avg div 2) 1 \<le> clamped_next avg k weighted"
    and "clamped_next avg k weighted \<le> 2 * avg"
proof -
  have l: "max (avg div 2) 1 \<le> U128_MAX"
    using assms max_le_128 by linarith
  have a: "max (avg div 2) 1 \<le> avg" using assms(1) by linarith
  have u: "max (avg div 2) 1 \<le> min U128_MAX (avg * 2)"
    using l a by linarith
  show "max (avg div 2) 1 \<le> clamped_next avg k weighted"
    unfolding clamped_next_def Let_def by (rule conjunct1 [OF clamp_nat_bounds [OF u]])
  have "clamped_next avg k weighted \<le> min U128_MAX (avg * 2)"
    unfolding clamped_next_def Let_def by (rule conjunct2 [OF clamp_nat_bounds [OF u]])
  then show "clamped_next avg k weighted \<le> 2 * avg" by linarith
qed

lemma retarget_bounds:
  assumes "1 \<le> avg" "avg \<le> U64_MAX"
  shows "max (max (avg div 2) 1) (unat floor) \<le> unat (retarget avg k weighted floor)"
    and "unat (retarget avg k weighted floor) \<le> max (2 * avg) (unat floor)"
proof -
  note c = clamped_next_bounds [OF assms, of k weighted]
  have "max (avg div 2) 1 \<le> U64_MAX" using assms by linarith
  with c show "max (max (avg div 2) 1) (unat floor) \<le> unat (retarget avg k weighted floor)"
    and "unat (retarget avg k weighted floor) \<le> max (2 * avg) (unat floor)"
    unfolding unat_retarget by linarith+
qed

lemma retarget_steady:
  assumes "1 \<le> avg" "avg \<le> U64_MAX"
  shows "unat (retarget avg 61425 61425 floor) = max avg (unat floor)"
proof -
  have "avg * 61425 \<le> U64_MAX * 61425" using assms(2) by (rule mult_le_mono1)
  also have "\<dots> \<le> U128_MAX" by (simp add: U64_MAX_def U128_MAX_def)
  finally have le: "avg * 61425 \<le> U128_MAX" .
  have k: "nat 61425 = 61425" "nat (max 61425 1) = 61425" "\<not> (61425 :: int) < 61425 div 10"
    by simp_all
  have q: "min U128_MAX (avg * 61425) div 61425 = avg"
    using le by (simp add: min_absorb2)
  have a: "max (avg div 2) 1 \<le> avg" using assms(1) by linarith
  have b: "avg \<le> min U128_MAX (avg * 2)" using assms(2) max_le_128 by linarith
  have "clamped_next avg 61425 61425 = avg"
    unfolding clamped_next_def Let_def k if_not_P [OF k(3)] q by (rule clamp_nat_id [OF a b])
  then show ?thesis
    unfolding unat_retarget using assms(2) by linarith
qed

lemma difficulty_sum_bounds:
  assumes "\<forall>i \<in> {1..n}. unat (snd (w ! i)) \<le> u"
  shows "difficulty_sum w n \<le> n * u"
proof -
  have "difficulty_sum w n \<le> (\<Sum>i \<leftarrow> [1..<n + 1]. u)"
    unfolding difficulty_sum_def by (rule sum_list_mono) (use assms in auto)
  then show ?thesis by (simp add: sum_list_triv del: upt_Suc)
qed

lemma difficulty_sum_lower:
  assumes "\<forall>i \<in> {1..n}. l \<le> unat (snd (w ! i))"
  shows "n * l \<le> difficulty_sum w n"
proof -
  have "(\<Sum>i \<leftarrow> [1..<n + 1]. l) \<le> difficulty_sum w n"
    unfolding difficulty_sum_def by (rule sum_list_mono) (use assms in auto)
  then show ?thesis by (simp add: sum_list_triv del: upt_Suc)
qed

lemma average_bounds:
  assumes "\<forall>i \<in> {1..90}. l \<le> unat (snd (w ! i)) \<and> unat (snd (w ! i)) \<le> u"
  shows "l \<le> difficulty_sum w 90 div 90" "difficulty_sum w 90 div 90 \<le> u"
proof -
  have "90 * l \<le> difficulty_sum w 90" by (rule difficulty_sum_lower) (use assms in blast)
  then show "l \<le> difficulty_sum w 90 div 90" by linarith
  have "difficulty_sum w 90 \<le> 90 * u" by (rule difficulty_sum_bounds) (use assms in blast)
  then show "difficulty_sum w 90 div 90 \<le> u" by linarith
qed

lemma window_nth:
  "91 \<le> length h \<Longrightarrow> i \<le> 90 \<Longrightarrow> drop (length h - 91) h ! i \<in> set (drop (length h - 91) h)"
  by (rule nth_mem) simp

lemma difficulty_le_U64: "unat (d :: u64) \<le> U64_MAX"
  using unsigned_less [of d, where ?'a = nat] by (simp add: U64_MAX_def)

lemma next_difficulty_floor: "floor \<le> next_difficulty history initial floor"
  by (simp add: next_difficulty_def Let_def retarget_floor)

lemma average_of_history:
  assumes "91 \<le> length history" "\<forall>e \<in> set history. l \<le> unat (snd e)"
  shows "l \<le> difficulty_sum (drop (length history - 91) history) 90 div 90"
    and "difficulty_sum (drop (length history - 91) history) 90 div 90 \<le> U64_MAX"
proof -
  have w: "\<forall>i \<in> {1..90}. l \<le> unat (snd (drop (length history - 91) history ! i))
      \<and> unat (snd (drop (length history - 91) history ! i)) \<le> U64_MAX"
  proof
    fix i :: nat assume "i \<in> {1..90}"
    then have "drop (length history - 91) history ! i \<in> set history"
      using window_nth [OF assms(1), of i] in_set_dropD by fastforce
    with assms(2) difficulty_le_U64
    show "l \<le> unat (snd (drop (length history - 91) history ! i))
      \<and> unat (snd (drop (length history - 91) history ! i)) \<le> U64_MAX" by blast
  qed
  show "l \<le> difficulty_sum (drop (length history - 91) history) 90 div 90"
    and "difficulty_sum (drop (length history - 91) history) 90 div 90 \<le> U64_MAX"
    using average_bounds [OF w] by auto
qed

lemma retarget_defined_positive:
  assumes "\<forall>e \<in> set history. 1 \<le> unat (snd e)"
  shows "retarget_defined history"
proof (cases "length history < 91")
  case False
  define avg where "avg = difficulty_sum (drop (length history - 91) history) 90 div 90"
  have "1 \<le> avg" "avg \<le> U64_MAX"
    unfolding avg_def using average_of_history [of history 1] assms False by simp_all
  then have "max (avg div 2) 1 \<le> min U128_MAX (avg * 2)"
    using max_le_128 by linarith
  then show ?thesis
    unfolding retarget_defined_def Let_def unat_window avg_def by simp
qed (simp add: retarget_defined_def)

lemma median_time_past_mem: "ts \<noteq> [] \<Longrightarrow> median_time_past ts \<in> set ts"
proof -
  assume ts: "ts \<noteq> []"
  define w where "w = sort (drop (length ts - min MTP_WINDOW (length ts)) ts)"
  have "length w = min MTP_WINDOW (length ts)" by (simp add: w_def)
  then have "0 < length w" using ts by (simp add: params)
  then have "w ! (length w div 2) \<in> set w" by (intro nth_mem) simp
  then have "w ! (length w div 2) \<in> set ts"
    by (auto simp: w_def dest: in_set_dropD)
  then show "median_time_past ts \<in> set ts"
    using ts by (simp add: median_time_past_def Let_def w_def)
qed

text \<open>
  The retarget over whole histories: its bounds around the window's average, and that a
  history on pace keeps its difficulty; the median is a median.
\<close>

definition window_average :: "(u64 \<times> u64) list \<Rightarrow> nat" where
  "window_average history = difficulty_sum (drop (length history - 91) history) 90 div 90"

lemma next_difficulty_full:
  assumes "91 \<le> length history"
  shows "next_difficulty history initial floor
    = retarget (window_average history) 61425
        (weighted_solvetime (drop (length history - 91) history) 90) floor"
  using assms by (simp add: next_difficulty_def window_average_def Let_def)

lemma next_difficulty_bounds:
  fixes floor :: u64
  assumes len: "91 \<le> length history" and pos: "\<forall>e \<in> set history. 1 \<le> unat (snd e)"
  shows "max (window_average history div 2) (unat floor) \<le> unat (next_difficulty history initial floor)"
    and "unat (next_difficulty history initial floor) \<le> max (2 * window_average history) (unat floor)"
proof -
  note a = average_of_history [OF len pos, folded window_average_def]
  note b = retarget_bounds [OF a, where floor = floor and k = 61425 and
      weighted = "weighted_solvetime (drop (length history - 91) history) 90"]
  show "max (window_average history div 2) (unat floor) \<le> unat (next_difficulty history initial floor)"
    and "unat (next_difficulty history initial floor) \<le> max (2 * window_average history) (unat floor)"
    unfolding next_difficulty_full [OF len] using b by linarith+
qed

section \<open>A chain on pace\<close>

definition paced_history :: "u64 \<Rightarrow> u64 \<Rightarrow> nat \<Rightarrow> (u64 \<times> u64) list" where
  "paced_history t0 d n = map (\<lambda>i. (t0 + of_nat i * TARGET_BLOCK_TIME_SECS, d)) [0..<n]"

lemma paced_window:
  assumes "91 \<le> n" "i \<le> 90"
  shows "drop (n - 91) (paced_history t0 d n) ! i
    = (t0 + of_nat (n - 91 + i) * TARGET_BLOCK_TIME_SECS, d)"
proof -
  have n: "n - 91 + i < n" using assms by linarith
  have "drop (n - 91) (paced_history t0 d n) ! i = paced_history t0 d n ! (n - 91 + i)"
    by (rule nth_drop) (use n in \<open>simp add: paced_history_def\<close>)
  also have "\<dots> = (t0 + of_nat ([0..<n] ! (n - 91 + i)) * TARGET_BLOCK_TIME_SECS, d)"
    unfolding paced_history_def by (rule nth_map) (use n in simp)
  also have "[0..<n] ! (n - 91 + i) = n - 91 + i"
    using nth_upt [of 0 "n - 91 + i" n] n by simp
  finally show ?thesis .
qed

lemma paced_solvetime:
  "solvetime (t + of_nat k * TARGET_BLOCK_TIME_SECS) (t + of_nat (Suc k) * TARGET_BLOCK_TIME_SECS) = 15"
proof -
  have "t + of_nat (Suc k) * TARGET_BLOCK_TIME_SECS - (t + of_nat k * TARGET_BLOCK_TIME_SECS) = 15"
    by (simp add: params algebra_simps)
  then show ?thesis by (simp add: solvetime_def clamp_int_def params)
qed

lemma paced_next:
  fixes floor :: u64
  assumes n: "91 \<le> n" and d: "1 \<le> d"
  shows "next_difficulty (paced_history t0 d n) initial floor = max d floor"
proof -
  let ?w = "drop (n - 91) (paced_history t0 d n)"
  have len: "length (paced_history t0 d n) = n" by (simp add: paced_history_def)
  have st: "solvetime (fst (?w ! (i - 1))) (fst (?w ! i)) = 15" if i: "i \<in> set [1..<90 + 1]" for i
  proof -
    from i have i': "1 \<le> i" "i \<le> 90" by auto
    have e: "n - 91 + i = Suc (n - 91 + (i - 1))" using i' by linarith
    have b: "i - 1 \<le> 90" using i' by linarith
    show ?thesis
      unfolding paced_window [OF n i'(2)] paced_window [OF n b] fst_conv unfolding e
      by (rule paced_solvetime)
  qed
  have "weighted_solvetime ?w 90 = (\<Sum>i \<leftarrow> [1..<90 + 1]. 15 * int i)"
    unfolding weighted_solvetime_def
    by (rule arg_cong [where f = sum_list], rule map_cong [OF refl]) (simp only: st)
  also have "\<dots> = 61425" by code_simp
  finally have ws: "weighted_solvetime ?w 90 = 61425" .
  have "difficulty_sum ?w 90 = (\<Sum>i \<leftarrow> [1..<90 + 1]. unat d)"
    unfolding difficulty_sum_def
    by (rule arg_cong [where f = sum_list], rule map_cong [OF refl]) (auto simp: paced_window [OF n])
  also have "\<dots> = 90 * unat d" by (simp only: sum_list_triv length_upt) simp
  finally have av: "window_average (paced_history t0 d n) = unat d"
    by (simp add: window_average_def len)
  have d': "1 \<le> unat d" using d by (simp add: word_le_nat_alt)
  have "unat (next_difficulty (paced_history t0 d n) initial floor) = max (unat d) (unat floor)"
    using next_difficulty_full [of "paced_history t0 d n" initial floor] n
    by (simp add: len av ws retarget_steady [OF d' difficulty_le_U64])
  then show ?thesis by (simp add: word_unat_eq_iff unat_max)
qed

section \<open>The median\<close>

lemma sorted_filter_less:
  fixes m :: "'a::linorder"
  assumes s: "sorted w" and k: "k < length w"
  shows "length (filter (\<lambda>x. x < w ! k) w) \<le> k"
    and "length (filter (\<lambda>x. w ! k < x) w) \<le> length w - Suc k"
proof -
  have "filter (\<lambda>x. x < w ! k) (drop k w) = []"
    by (use k in \<open>auto simp: filter_empty_conv in_set_conv_nth not_less less_diff_conv add.commute
      intro!: sorted_nth_mono [OF s]\<close>)
  then have "filter (\<lambda>x. x < w ! k) w = filter (\<lambda>x. x < w ! k) (take k w)"
    by (metis append_Nil2 append_take_drop_id filter_append)
  also have "length \<dots> \<le> k" using length_filter_le [of "\<lambda>x. x < w ! k" "take k w"] k by simp
  finally show "length (filter (\<lambda>x. x < w ! k) w) \<le> k" .
  have "filter (\<lambda>x. w ! k < x) (take (Suc k) w) = []"
    using k by (auto simp: filter_empty_conv in_set_conv_nth not_less intro!: sorted_nth_mono [OF s])
  then have "filter (\<lambda>x. w ! k < x) w = filter (\<lambda>x. w ! k < x) (drop (Suc k) w)"
    by (metis append_Nil append_take_drop_id filter_append)
  also have "length \<dots> \<le> length w - Suc k" using length_filter_le [of _ "drop (Suc k) w"] by simp
  finally show "length (filter (\<lambda>x. w ! k < x) w) \<le> length w - Suc k" .
qed

lemma median_splits:
  assumes "ts \<noteq> []"
  shows "median_time_past ts \<in> set (drop (length ts - MTP_WINDOW) ts)
    \<and> length (filter (\<lambda>x. x < median_time_past ts) (drop (length ts - MTP_WINDOW) ts)) \<le> MTP_WINDOW div 2
    \<and> length (filter (\<lambda>x. median_time_past ts < x) (drop (length ts - MTP_WINDOW) ts)) \<le> MTP_WINDOW div 2"
proof -
  let ?l = "drop (length ts - MTP_WINDOW) ts"
  have e: "length ts - min MTP_WINDOW (length ts) = length ts - MTP_WINDOW" by simp
  have m: "median_time_past ts = sort ?l ! (length ?l div 2)"
    using assms by (simp add: median_time_past_def Let_def e)
  have len: "0 < length ?l" "length ?l \<le> MTP_WINDOW" using assms by (simp_all add: params)
  have k: "length ?l div 2 < length (sort ?l)" using len(1) by simp
  have "sort ?l ! (length ?l div 2) \<in> set (sort ?l)" using k by (rule nth_mem)
  moreover have f: "length (filter P ?l) = length (filter P (sort ?l))" for P
    by (metis mset_filter mset_sort size_mset)
  moreover note sorted_filter_less [OF sorted_sort k]
  ultimately show ?thesis
    using len unfolding m by (simp add: f) linarith
qed

end
