(* ===== verification/Crypto.thy ===== *)
theory Crypto
  imports Types
begin

text \<open>
  The parts of \<open>crates/nightfall-crypto/src\<close> every other component rests on:
  length-prefixed hashing (\<open>lib.rs\<close>), Pedersen commitments (\<open>commit.rs\<close>), Schnorr
  signatures (\<open>schnorr.rs\<close>), transaction binding (\<open>binding.rs\<close>) and range proofs
  (\<open>rangeproof.rs\<close>).

  The record \<open>crypto\<close> holds what the crate takes from elsewhere: BLAKE3, Argon2id, the
  Ristretto group and its scalar field (curve25519-dalek), Bulletproofs and
  XChaCha20-Poly1305.  Points are any commutative group \<open>'p\<close>, scalars any commutative
  ring \<open>'s\<close>.  \<open>group_ok\<close>, \<open>encoding_ok\<close> and \<open>range_ok\<close> state what their
  documentation promises: the module laws, the round trips of the encodings, and the
  completeness of the range proof.  No soundness assumption (hardness of discrete
  logarithms, collision resistance) is made anywhere.
\<close>

section \<open>What the crate imports\<close>

type_synonym transcript = "bytes \<times> (bytes \<times> bytes) list"

record ('p, 's) crypto =
  blake3 :: "bytes \<Rightarrow> bytes"
  argon2id :: "pow_params \<Rightarrow> bytes \<Rightarrow> bytes \<Rightarrow> bytes"
  decompress :: "bytes \<Rightarrow> 'p option"
  compress :: "'p \<Rightarrow> bytes"
  generator_g :: 'p
  generator_h :: 'p
  pt_mul :: "'s \<Rightarrow> 'p \<Rightarrow> 'p"
  from_canonical_bytes :: "bytes \<Rightarrow> 's option"
  scalar_bytes :: "'s \<Rightarrow> bytes"
  from_wide :: "bytes \<Rightarrow> 's"
  bp_prove_single :: "transcript \<Rightarrow> u64 \<Rightarrow> 's \<Rightarrow> nat \<Rightarrow> (bytes \<times> bytes) option"
  bp_from_bytes :: "bytes \<Rightarrow> bool"
  bp_verify_single :: "bytes \<Rightarrow> transcript \<Rightarrow> bytes \<Rightarrow> nat \<Rightarrow> bool"
  aead_encrypt :: "bytes \<Rightarrow> bytes \<Rightarrow> bytes \<Rightarrow> bytes option"
  aead_decrypt :: "bytes \<Rightarrow> bytes \<Rightarrow> bytes \<Rightarrow> bytes option"

definition group_ok :: "('p::ab_group_add, 's::comm_ring_1) crypto \<Rightarrow> bool" where
  "group_ok C \<longleftrightarrow>
     (\<forall>a b p. pt_mul C (a + b) p = pt_mul C a p + pt_mul C b p)
   \<and> (\<forall>a p q. pt_mul C a (p + q) = pt_mul C a p + pt_mul C a q)
   \<and> (\<forall>a b p. pt_mul C (a * b) p = pt_mul C a (pt_mul C b p))
   \<and> (\<forall>p. pt_mul C 1 p = p)"

definition encoding_ok :: "('p::ab_group_add, 's::comm_ring_1) crypto \<Rightarrow> bool" where
  "encoding_ok C \<longleftrightarrow>
     (\<forall>p. decompress C (compress C p) = Some p \<and> length (compress C p) = 32)
   \<and> (\<forall>s. from_canonical_bytes C (scalar_bytes C s) = Some s
          \<and> length (scalar_bytes C s) = 32)
   \<and> (\<forall>bs. length (blake3 C bs) = 32)"

named_theorems alg \<open>the module and encoding laws of the imported group\<close>

lemma pt_mul_add [alg]: "group_ok C \<Longrightarrow> pt_mul C (a + b) p = pt_mul C a p + pt_mul C b p"
  by (simp add: group_ok_def)

lemma pt_mul_dist [alg]: "group_ok C \<Longrightarrow> pt_mul C a (p + q) = pt_mul C a p + pt_mul C a q"
  by (simp add: group_ok_def)

lemma pt_mul_mul [alg]: "group_ok C \<Longrightarrow> pt_mul C (a * b) p = pt_mul C a (pt_mul C b p)"
  by (simp add: group_ok_def)

lemma pt_mul_zero [alg]: "group_ok C \<Longrightarrow> pt_mul C 0 p = 0"
  by (metis add_cancel_right_left pt_mul_add)

lemma pt_mul_minus [alg]: "group_ok C \<Longrightarrow> pt_mul C (- a) p = - pt_mul C a p"
  by (metis add.right_inverse neg_eq_iff_add_eq_0 pt_mul_add pt_mul_zero)

lemma pt_mul_diff [alg]: "group_ok C \<Longrightarrow> pt_mul C (a - b) p = pt_mul C a p - pt_mul C b p"
  by (metis diff_conv_add_uminus pt_mul_add pt_mul_minus)

lemma decompress_compress [alg]: "encoding_ok C \<Longrightarrow> decompress C (compress C p) = Some p"
  by (simp add: encoding_ok_def)

lemma canonical_scalar [alg]:
  "encoding_ok C \<Longrightarrow> from_canonical_bytes C (scalar_bytes C s) = Some s"
  by (simp add: encoding_ok_def)

section \<open>Hashing: \<open>lib.rs\<close>\<close>

definition DOM_GENESIS :: bytes where "DOM_GENESIS = str_bytes ''nightfall:genesis:v2''"
definition DOM_BLOCK :: bytes where "DOM_BLOCK = str_bytes ''nightfall:block:v2''"
definition DOM_TX :: bytes where "DOM_TX = str_bytes ''nightfall:tx:v2''"
definition DOM_TX_BOUND :: bytes where "DOM_TX_BOUND = str_bytes ''nightfall:tx:bound:v1''"
definition DOM_TXBODY :: bytes where "DOM_TXBODY = str_bytes ''nightfall:txbody:v2''"
definition DOM_TXBODY_BOUND :: bytes where
  "DOM_TXBODY_BOUND = str_bytes ''nightfall:txbody:bound:v1''"
definition DOM_MERKLE :: bytes where "DOM_MERKLE = str_bytes ''nightfall:merkle:v2''"
definition DOM_MERKLE_LEAF :: bytes where
  "DOM_MERKLE_LEAF = str_bytes ''nightfall:merkle:leaf:v2''"
definition DOM_KERNEL :: bytes where "DOM_KERNEL = str_bytes ''nightfall:kernel:v2''"
definition DOM_INPUT :: bytes where "DOM_INPUT = str_bytes ''nightfall:input:v2''"

text \<open>The bytes fed to the hasher: every length is written before its data.\<close>

definition len_prefixed :: "bytes \<Rightarrow> bytes" where
  "len_prefixed p = u64_le (of_nat (length p)) @ p"

definition hash_preimage :: "bytes \<Rightarrow> bytes list \<Rightarrow> bytes" where
  "hash_preimage dm parts =
     len_prefixed dm @ u64_le (of_nat (length parts)) @ concat (map len_prefixed parts)"

definition hash_multi :: "('p, 's) crypto \<Rightarrow> bytes \<Rightarrow> bytes list \<Rightarrow> bytes" where
  "hash_multi C dm parts = blake3 C (hash_preimage dm parts)"

definition hash_domain :: "('p, 's) crypto \<Rightarrow> bytes \<Rightarrow> bytes \<Rightarrow> bytes" where
  "hash_domain C dm data = hash_multi C dm [data]"

definition genesis_commitment :: "('p, 's) crypto \<Rightarrow> bytes \<Rightarrow> bytes" where
  "genesis_commitment C canonical = hash_domain C DOM_GENESIS canonical"

text \<open>Two hashes under \<open>b"0"\<close> and \<open>b"1"\<close>, reduced to a scalar.\<close>

definition wide_scalar :: "('p, 's) crypto \<Rightarrow> bytes \<Rightarrow> bytes list \<Rightarrow> bytes \<Rightarrow> bytes \<Rightarrow> 's" where
  "wide_scalar C dm parts t0 t1 =
     from_wide C (hash_multi C dm (parts @ [t0]) @ hash_multi C dm (parts @ [t1]))"

section \<open>Commitments: \<open>commit.rs\<close>\<close>

definition commitment_identity :: "('p::ab_group_add, 's) crypto \<Rightarrow> bytes" where
  "commitment_identity C = compress C 0"

definition pedersen :: "('p::ab_group_add, 's::comm_ring_1) crypto \<Rightarrow> u64 \<Rightarrow> 's \<Rightarrow> 'p" where
  "pedersen C v b = pt_mul C (of_nat (unat v)) (generator_g C) + pt_mul C b (generator_h C)"

definition commitment_new ::
    "('p::ab_group_add, 's::comm_ring_1) crypto \<Rightarrow> u64 \<Rightarrow> 's \<Rightarrow> bytes" where
  "commitment_new C v b = compress C (pedersen C v b)"

text \<open>\<open>Commitment::point\<close>.\<close>

definition commit_point :: "('p, 's) crypto \<Rightarrow> bytes \<Rightarrow> 'p option" where
  "commit_point C c = decompress C c"

fun commitment_sum_from ::
    "('p::ab_group_add, 's) crypto \<Rightarrow> 'p \<Rightarrow> bytes list \<Rightarrow> 'p option" where
  "commitment_sum_from C acc [] = Some acc"
| "commitment_sum_from C acc (c # cs) =
     (case commit_point C c of
        None \<Rightarrow> None
      | Some p \<Rightarrow> commitment_sum_from C (acc + p) cs)"

definition commitment_sum :: "('p::ab_group_add, 's) crypto \<Rightarrow> bytes list \<Rightarrow> 'p option" where
  "commitment_sum C cs = commitment_sum_from C 0 cs"

definition commit_public_value ::
    "('p::ab_group_add, 's::comm_ring_1) crypto \<Rightarrow> u64 \<Rightarrow> 'p" where
  "commit_public_value C v = pt_mul C (of_nat (unat v)) (generator_g C)"

definition blind_from_bytes :: "('p, 's) crypto \<Rightarrow> bytes \<Rightarrow> bytes \<Rightarrow> 's" where
  "blind_from_bytes C dm material =
     wide_scalar C dm [material] (str_bytes ''0'') (str_bytes ''1'')"

section \<open>Schnorr signatures: \<open>schnorr.rs\<close>\<close>

record schnorr_sig =
  sig_r :: bytes
  sig_s :: bytes

definition SCHNORR_DOMAIN :: bytes where "SCHNORR_DOMAIN = str_bytes ''nightfall:schnorr:v2''"

definition challenge :: "('p, 's) crypto \<Rightarrow> bytes \<Rightarrow> bytes \<Rightarrow> bytes \<Rightarrow> 's" where
  "challenge C r p msg =
     wide_scalar C SCHNORR_DOMAIN [r, p, msg] (str_bytes ''c0'') (str_bytes ''c1'')"

text \<open>\<open>entropy\<close> is what the operating system's generator returned.\<close>

definition schnorr_sign ::
    "('p::ab_group_add, 's::comm_ring_1) crypto \<Rightarrow> bytes \<Rightarrow> 's \<Rightarrow> 'p \<Rightarrow> bytes \<Rightarrow> schnorr_sig" where
  "schnorr_sign C entropy secret gen msg =
     (let public = compress C (pt_mul C secret gen);
          k = wide_scalar C (str_bytes ''nightfall:schnorr:nonce'')
                [scalar_bytes C secret, msg, entropy] (str_bytes ''k0'') (str_bytes ''k1'');
          r_point = compress C (pt_mul C k gen);
          e = challenge C r_point public msg
      in \<lparr>sig_r = r_point, sig_s = scalar_bytes C (k + e * secret)\<rparr>)"

definition schnorr_verify ::
    "('p::ab_group_add, 's::comm_ring_1) crypto \<Rightarrow> 'p \<Rightarrow> 'p \<Rightarrow> bytes \<Rightarrow> schnorr_sig \<Rightarrow> bool" where
  "schnorr_verify C public gen msg sg =
     (case decompress C (sig_r sg) of
        None \<Rightarrow> False
      | Some r_point \<Rightarrow>
          (case from_canonical_bytes C (sig_s sg) of
             None \<Rightarrow> False
           | Some s \<Rightarrow>
               let e = challenge C (sig_r sg) (compress C public) msg
               in pt_mul C s gen = r_point + pt_mul C e public))"

section \<open>Transaction binding: \<open>binding.rs\<close>\<close>

definition input_key_coefficient :: "('p, 's) crypto \<Rightarrow> bytes \<Rightarrow> bytes \<Rightarrow> 's" where
  "input_key_coefficient C input_key output_pk =
     wide_scalar C (str_bytes ''nightfall:input:key:coeff:v1'') [input_key, output_pk]
       (str_bytes ''0'') (str_bytes ''1'')"

definition derive_input_secret :: "('p, 's) crypto \<Rightarrow> bytes \<Rightarrow> 's \<Rightarrow> bytes \<Rightarrow> 's" where
  "derive_input_secret C entropy ko commit =
     wide_scalar C (str_bytes ''nightfall:input:secret:v1'') [scalar_bytes C ko, commit, entropy]
       (str_bytes ''0'') (str_bytes ''1'')"

definition input_bind_message :: "('p, 's) crypto \<Rightarrow> bytes \<Rightarrow> bytes \<Rightarrow> bytes" where
  "input_bind_message C commit input_key =
     hash_multi C (str_bytes ''nightfall:input:bind:v1'') [commit, input_key]"

definition sign_input_key ::
    "('p::ab_group_add, 's::comm_ring_1) crypto \<Rightarrow> bytes \<Rightarrow> 's \<Rightarrow> 's \<Rightarrow> bytes \<Rightarrow> bytes
       \<Rightarrow> bytes \<times> schnorr_sig" where
  "sign_input_key C entropy ki ko commit output_pk =
     (let input_key = compress C (pt_mul C ki (generator_g C));
          h = input_key_coefficient C input_key output_pk;
          combined = ki + h * ko
      in (input_key,
          schnorr_sign C entropy combined (generator_g C)
            (input_bind_message C commit input_key)))"

definition verify_input_key_sig ::
    "('p::ab_group_add, 's::comm_ring_1) crypto \<Rightarrow> bytes \<Rightarrow> bytes \<Rightarrow> bytes \<Rightarrow> schnorr_sig \<Rightarrow> bool" where
  "verify_input_key_sig C commit input_key output_pk sg =
     (case decompress C input_key of
        None \<Rightarrow> False
      | Some ki \<Rightarrow>
          (case decompress C output_pk of
             None \<Rightarrow> False
           | Some ko \<Rightarrow>
               let h = input_key_coefficient C input_key output_pk;
                   combined = ki + pt_mul C h ko
               in schnorr_verify C combined (generator_g C)
                    (input_bind_message C commit input_key) sg))"

definition kernel_stealth_message :: "('p, 's) crypto \<Rightarrow> bytes \<Rightarrow> bytes \<Rightarrow> bytes" where
  "kernel_stealth_message C kernel_message stealth_excess =
     hash_multi C (str_bytes ''nightfall:kernel:stealth:v1'') [kernel_message, stealth_excess]"

section \<open>Range proofs: \<open>rangeproof.rs\<close>\<close>

definition RANGE_BITS :: nat where "RANGE_BITS = 64"

definition range_transcript :: "bytes \<Rightarrow> transcript" where
  "range_transcript extra =
     (str_bytes ''nightfall:rangeproof:v2'', [(str_bytes ''ctx'', extra)])"

definition range_prove ::
    "('p, 's) crypto \<Rightarrow> u64 \<Rightarrow> 's \<Rightarrow> bytes \<Rightarrow> (bytes \<times> bytes) option" where
  "range_prove C v blind ctx = bp_prove_single C (range_transcript ctx) v blind RANGE_BITS"

definition range_verify :: "('p, 's) crypto \<Rightarrow> bytes \<Rightarrow> bytes \<Rightarrow> bytes \<Rightarrow> bool" where
  "range_verify C proof commit ctx \<longleftrightarrow>
     bp_from_bytes C proof \<and> bp_verify_single C proof (range_transcript ctx) commit RANGE_BITS"

text \<open>
  Completeness of Bulletproofs: a proof made for a value is for that value's Pedersen
  commitment, parses and verifies under the same transcript and width.
\<close>

definition range_ok :: "('p::ab_group_add, 's::comm_ring_1) crypto \<Rightarrow> bool" where
  "range_ok C \<longleftrightarrow>
     (\<forall>t v b n prf c. bp_prove_single C t v b n = Some (prf, c) \<longrightarrow>
        c = commitment_new C v b \<and> bp_from_bytes C prf \<and> bp_verify_single C prf t c n)"

section \<open>Lemmas\<close>

text \<open>The length prefixes make the hashed bytes determine the domain and every part.\<close>

lemma len64_eq: "LENGTH(64) = 64"
  by simp

lemma u64_le_len_inject:
  "m < 2 ^ 64 \<Longrightarrow> n < 2 ^ 64 \<Longrightarrow>
    u64_le (of_nat m) = u64_le (of_nat n) \<longleftrightarrow> m = n"
  by (metis len64_eq of_nat_inverse u64_le_inject)

lemma len_prefixed_split:
  assumes "len_prefixed p @ xs = len_prefixed q @ ys"
    and "length p < 2 ^ 64" "length q < 2 ^ 64"
  shows "p = q \<and> xs = ys"
proof -
  have "u64_le (of_nat (length p)) = u64_le (of_nat (length q))
      \<and> p @ xs = q @ ys"
    using assms(1) by (simp add: len_prefixed_def)
  with assms(2,3) show ?thesis
    by (metis append_eq_append_conv u64_le_len_inject)
qed

lemma concat_len_prefixed_inject:
  assumes "concat (map len_prefixed ps) = concat (map len_prefixed qs)"
    and "length ps = length qs"
    and "\<forall>p \<in> set ps. length p < 2 ^ 64" "\<forall>q \<in> set qs. length q < 2 ^ 64"
  shows "ps = qs"
  using assms(2,1,3,4)
proof (induction ps qs rule: list_induct2)
  case (Cons p ps q qs)
  then show ?case
    using len_prefixed_split [of p "concat (map len_prefixed ps)" q] by auto
qed simp

lemma hash_preimage_inject:
  assumes "hash_preimage d ps = hash_preimage e qs"
    and "length d < 2 ^ 64" "length e < 2 ^ 64"
    and "length ps < 2 ^ 64" "length qs < 2 ^ 64"
    and "\<forall>p \<in> set ps. length p < 2 ^ 64" "\<forall>q \<in> set qs. length q < 2 ^ 64"
  shows "d = e \<and> ps = qs"
proof -
  have d: "d = e" and rest: "u64_le (of_nat (length ps)) @ concat (map len_prefixed ps)
      = u64_le (of_nat (length qs)) @ concat (map len_prefixed qs)"
    using len_prefixed_split [OF assms(1) [unfolded hash_preimage_def] assms(2,3)] by auto
  then have "u64_le (of_nat (length ps)) = u64_le (of_nat (length qs))"
    and cc: "concat (map len_prefixed ps) = concat (map len_prefixed qs)"
    by simp_all
  then have "length ps = length qs"
    using u64_le_len_inject assms(4,5) by blast
  with cc d show ?thesis
    using concat_len_prefixed_inject assms(6,7) by blast
qed

text \<open>Sums of commitments.\<close>

text \<open>The total of a list of commitments, a malformed one counting nothing.\<close>

definition point_or_zero :: "('p::ab_group_add, 's) crypto \<Rightarrow> bytes \<Rightarrow> 'p" where
  "point_or_zero C c = (case commit_point C c of None \<Rightarrow> 0 | Some p \<Rightarrow> p)"

definition points_total :: "('p::ab_group_add, 's) crypto \<Rightarrow> bytes list \<Rightarrow> 'p" where
  "points_total C cs = (\<Sum>c \<leftarrow> cs. point_or_zero C c)"

definition all_points :: "('p::ab_group_add, 's) crypto \<Rightarrow> bytes list \<Rightarrow> bool" where
  "all_points C cs \<longleftrightarrow> (\<forall>c \<in> set cs. commit_point C c \<noteq> None)"

lemma points_total_simps [simp]:
  "points_total C [] = 0"
  "points_total C (c # cs) = point_or_zero C c + points_total C cs"
  "points_total C (as @ bs) = points_total C as + points_total C bs"
  by (simp_all add: points_total_def)

lemma all_points_simps [simp]:
  "all_points C []"
  "all_points C (c # cs) \<longleftrightarrow> commit_point C c \<noteq> None \<and> all_points C cs"
  "all_points C (as @ bs) \<longleftrightarrow> all_points C as \<and> all_points C bs"
  by (auto simp: all_points_def)

lemma point_or_zero_Some [simp]: "commit_point C c = Some p \<Longrightarrow> point_or_zero C c = p"
  by (simp add: point_or_zero_def)

lemma commitment_sum_from_eq:
  "commitment_sum_from C acc cs =
     (if all_points C cs then Some (acc + points_total C cs) else None)"
proof (induction cs arbitrary: acc)
  case (Cons c cs)
  show ?case
    by (cases "commit_point C c") (simp_all add: Cons.IH add.assoc)
qed simp

lemma commitment_sum_eq:
  "commitment_sum C cs = (if all_points C cs then Some (points_total C cs) else None)"
  by (simp add: commitment_sum_def commitment_sum_from_eq)

lemma points_total_mset: "mset as = mset bs \<Longrightarrow> points_total C as = points_total C bs"
  unfolding points_total_def by (metis mset_map sum_mset_sum_list)

lemma all_points_mset: "mset as = mset bs \<Longrightarrow> all_points C as = all_points C bs"
  unfolding all_points_def by (metis set_mset_mset)

text \<open>A signature made with the secret verifies against its public point.\<close>

lemma schnorr_sign_verifies:
  assumes "group_ok C" "encoding_ok C"
  shows "schnorr_verify C (pt_mul C secret gen) gen msg (schnorr_sign C entropy secret gen msg)"
  by (simp add: schnorr_verify_def schnorr_sign_def Let_def alg assms)

lemma sign_input_key_verifies:
  assumes "group_ok C" "encoding_ok C"
    and "sign_input_key C entropy ki ko commit output_pk = (input_key, sg)"
    and "decompress C output_pk = Some (pt_mul C ko (generator_g C))"
  shows "verify_input_key_sig C commit input_key output_pk sg"
    and "decompress C input_key = Some (pt_mul C ki (generator_g C))"
proof -
  let ?h = "input_key_coefficient C input_key output_pk"
  have k: "input_key = compress C (pt_mul C ki (generator_g C))"
    and s: "sg = schnorr_sign C entropy (ki + ?h * ko) (generator_g C)
              (input_bind_message C commit input_key)"
    using assms(3) by (auto simp: sign_input_key_def Let_def)
  show d: "decompress C input_key = Some (pt_mul C ki (generator_g C))"
    by (simp add: k alg assms)
  have "pt_mul C ki (generator_g C) + pt_mul C ?h (pt_mul C ko (generator_g C))
      = pt_mul C (ki + ?h * ko) (generator_g C)"
    by (simp add: alg assms)
  then show "verify_input_key_sig C commit input_key output_pk sg"
    by (simp add: verify_input_key_sig_def d assms s Let_def schnorr_sign_verifies)
qed

lemma range_prove_verifies:
  assumes "range_ok C" "range_prove C v b ctx = Some (prf, c)"
  shows "c = commitment_new C v b" "range_verify C prf c ctx"
  using assms unfolding range_ok_def range_prove_def range_verify_def by blast+

end
