(* ===== verification/Kernel.thy ===== *)
theory Kernel
  imports Crypto
begin

text \<open>
  \<open>crates/nightfall-crypto/src/kernel.rs\<close>: transaction kernels, their excess and stealth
  signatures, and the excess the balance equation expects.
\<close>

section \<open>Kernels\<close>

datatype kernel_feature = PlainKernel | CoinbaseKernel

record tx_kernel =
  feature :: kernel_feature
  fee_darks :: u64
  reward_darks :: u64
  lock_height :: u64
  excess :: bytes
  excess_sig :: schnorr_sig
  stealth_excess :: "bytes option"
  stealth_sig :: "schnorr_sig option"

definition signing_message :: "('p, 's) crypto \<Rightarrow> tx_kernel \<Rightarrow> bytes" where
  "signing_message C k =
     hash_multi C DOM_KERNEL
       [[case feature k of PlainKernel \<Rightarrow> 0 | CoinbaseKernel \<Rightarrow> 1],
        u64_le (fee_darks k), u64_le (reward_darks k), u64_le (lock_height k), excess k]"

definition kernel_verify_signature ::
    "('p::ab_group_add, 's::comm_ring_1) crypto \<Rightarrow> tx_kernel \<Rightarrow> bool" where
  "kernel_verify_signature C k =
     (case commit_point C (excess k) of
        None \<Rightarrow> False
      | Some excess_point \<Rightarrow>
          if excess_point = 0 then False
          else schnorr_verify C excess_point (generator_h C) (signing_message C k) (excess_sig k))"

definition attach_stealth ::
    "('p::ab_group_add, 's::comm_ring_1) crypto \<Rightarrow> bytes \<Rightarrow> 's \<Rightarrow> tx_kernel \<Rightarrow> tx_kernel" where
  "attach_stealth C entropy x k =
     (let point = compress C (pt_mul C x (generator_g C));
          msg = kernel_stealth_message C (signing_message C k) point
      in k\<lparr>stealth_excess := Some point,
           stealth_sig := Some (schnorr_sign C entropy x (generator_g C) msg)\<rparr>)"

definition verified_stealth_excess ::
    "('p::ab_group_add, 's::comm_ring_1) crypto \<Rightarrow> tx_kernel \<Rightarrow> 'p option" where
  "verified_stealth_excess C k =
     (case (stealth_excess k, stealth_sig k) of
        (Some point, Some sg) \<Rightarrow>
          (case decompress C point of
             None \<Rightarrow> None
           | Some x \<Rightarrow>
               if schnorr_verify C x (generator_g C)
                    (kernel_stealth_message C (signing_message C k) point) sg
               then Some x else None)
      | _ \<Rightarrow> None)"

definition kernel_strip_binding :: "tx_kernel \<Rightarrow> tx_kernel" where
  "kernel_strip_binding k = k\<lparr>stealth_excess := None, stealth_sig := None\<rparr>"

definition kernel_id :: "('p, 's) crypto \<Rightarrow> tx_kernel \<Rightarrow> bytes" where
  "kernel_id C k = hash_multi C DOM_KERNEL [excess k, sig_r (excess_sig k)]"

datatype kernel_error = RewardOnPlainKernel | FeeOnCoinbaseKernel | MalformedExcess
  | ExcessMismatch | BadSignature

definition kernel_check_shape :: "('p, 's) crypto \<Rightarrow> tx_kernel \<Rightarrow> kernel_error + unit" where
  "kernel_check_shape C k =
     (if feature k = PlainKernel \<and> reward_darks k \<noteq> 0 then Inl RewardOnPlainKernel
      else if feature k = CoinbaseKernel \<and> fee_darks k \<noteq> 0 then Inl FeeOnCoinbaseKernel
      else if commit_point C (excess k) = None then Inl MalformedExcess
      else Inr ())"

text \<open>\<open>\<Sigma> outputs - \<Sigma> inputs + fee\<cdot>G - reward\<cdot>G\<close>.\<close>

definition expected_excess ::
    "('p::ab_group_add, 's::comm_ring_1) crypto \<Rightarrow> bytes list \<Rightarrow> bytes list \<Rightarrow> u64 \<Rightarrow> u64
       \<Rightarrow> 'p option" where
  "expected_excess C ins outs fee reward =
     (case commitment_sum C outs of
        None \<Rightarrow> None
      | Some o' \<Rightarrow>
          (case commitment_sum C ins of
             None \<Rightarrow> None
           | Some i \<Rightarrow> Some (o' - i + commit_public_value C fee - commit_public_value C reward)))"

definition build_kernel ::
    "('p::ab_group_add, 's::comm_ring_1) crypto \<Rightarrow> bytes \<Rightarrow> kernel_feature \<Rightarrow> u64 \<Rightarrow> u64 \<Rightarrow> u64
       \<Rightarrow> 's \<Rightarrow> tx_kernel" where
  "build_kernel C entropy feat fee reward lock secret =
     (let k = \<lparr>feature = feat, fee_darks = fee, reward_darks = reward, lock_height = lock,
               excess = compress C (pt_mul C secret (generator_h C)),
               excess_sig = \<lparr>sig_r = replicate 32 0, sig_s = replicate 32 0\<rparr>,
               stealth_excess = None, stealth_sig = None\<rparr>
      in k\<lparr>excess_sig :=
             schnorr_sign C entropy secret (generator_h C) (signing_message C k)\<rparr>)"

section \<open>Lemmas\<close>

lemma signing_message_upd [simp]:
  "signing_message C (k\<lparr>stealth_excess := x\<rparr>) = signing_message C k"
  "signing_message C (k\<lparr>stealth_sig := s\<rparr>) = signing_message C k"
  "signing_message C (k\<lparr>excess_sig := e\<rparr>) = signing_message C k"
  by (simp_all add: signing_message_def)

lemma kernel_strip_simps [simp]:
  "feature (kernel_strip_binding k) = feature k"
  "fee_darks (kernel_strip_binding k) = fee_darks k"
  "reward_darks (kernel_strip_binding k) = reward_darks k"
  "lock_height (kernel_strip_binding k) = lock_height k"
  "excess (kernel_strip_binding k) = excess k"
  "excess_sig (kernel_strip_binding k) = excess_sig k"
  "stealth_excess (kernel_strip_binding k) = None"
  "stealth_sig (kernel_strip_binding k) = None"
  "signing_message C (kernel_strip_binding k) = signing_message C k"
  "kernel_id C (kernel_strip_binding k) = kernel_id C k"
  "kernel_check_shape C (kernel_strip_binding k) = kernel_check_shape C k"
  "kernel_verify_signature C (kernel_strip_binding k) = kernel_verify_signature C k"
  "kernel_strip_binding (kernel_strip_binding k) = kernel_strip_binding k"
  by (simp_all add: kernel_strip_binding_def kernel_id_def kernel_check_shape_def
      kernel_verify_signature_def split: option.split)

lemma kernel_strip_id:
  "stealth_excess k = None \<Longrightarrow> stealth_sig k = None \<Longrightarrow> kernel_strip_binding k = k"
  by (simp add: kernel_strip_binding_def)

lemma kernel_check_shape_OkD:
  assumes "kernel_check_shape C k = Inr ()"
  shows "feature k = PlainKernel \<Longrightarrow> reward_darks k = 0"
    and "feature k = CoinbaseKernel \<Longrightarrow> fee_darks k = 0"
    and "commit_point C (excess k) \<noteq> None"
  using assms by (auto simp: kernel_check_shape_def split: if_splits)

lemma expected_excess_eq:
  "expected_excess C ins outs fee reward =
     (if all_points C outs \<and> all_points C ins
      then Some (points_total C outs - points_total C ins
                 + commit_public_value C fee - commit_public_value C reward)
      else None)"
  by (simp add: expected_excess_def commitment_sum_eq)

lemma build_kernel_simps [simp]:
  "feature (build_kernel C en feat fee reward lock x) = feat"
  "fee_darks (build_kernel C en feat fee reward lock x) = fee"
  "reward_darks (build_kernel C en feat fee reward lock x) = reward"
  "lock_height (build_kernel C en feat fee reward lock x) = lock"
  "excess (build_kernel C en feat fee reward lock x) = compress C (pt_mul C x (generator_h C))"
  "stealth_excess (build_kernel C en feat fee reward lock x) = None"
  "stealth_sig (build_kernel C en feat fee reward lock x) = None"
  by (simp_all add: build_kernel_def Let_def)

lemma attach_stealth_simps [simp]:
  "feature (attach_stealth C en x k) = feature k"
  "fee_darks (attach_stealth C en x k) = fee_darks k"
  "reward_darks (attach_stealth C en x k) = reward_darks k"
  "lock_height (attach_stealth C en x k) = lock_height k"
  "excess (attach_stealth C en x k) = excess k"
  "excess_sig (attach_stealth C en x k) = excess_sig k"
  "signing_message C (attach_stealth C en x k) = signing_message C k"
  "kernel_verify_signature C (attach_stealth C en x k) = kernel_verify_signature C k"
  "kernel_check_shape C (attach_stealth C en x k) = kernel_check_shape C k"
  by (simp_all add: attach_stealth_def Let_def kernel_verify_signature_def kernel_check_shape_def
      split: option.split)

text \<open>A built kernel carries a valid signature unless its excess is the identity.\<close>

lemma build_kernel_verifies:
  assumes "group_ok C" "encoding_ok C" "pt_mul C x (generator_h C) \<noteq> 0"
  shows "kernel_verify_signature C (build_kernel C en feat fee reward lock x)"
proof -
  let ?k = "build_kernel C en feat fee reward lock x"
  have "excess_sig ?k = schnorr_sign C en x (generator_h C) (signing_message C ?k)"
    by (simp add: build_kernel_def Let_def signing_message_def)
  then show ?thesis
    using assms by (simp add: kernel_verify_signature_def commit_point_def alg
        schnorr_sign_verifies)
qed

lemma build_kernel_shape:
  assumes "encoding_ok C"
    and "feat = PlainKernel \<Longrightarrow> reward = 0" "feat = CoinbaseKernel \<Longrightarrow> fee = 0"
  shows "kernel_check_shape C (build_kernel C en feat fee reward lock x) = Inr ()"
  using assms by (auto simp: kernel_check_shape_def commit_point_def alg)

lemma attach_stealth_verified:
  assumes "group_ok C" "encoding_ok C"
  shows "verified_stealth_excess C (attach_stealth C en x k) = Some (pt_mul C x (generator_g C))"
  using schnorr_sign_verifies [OF assms]
  by (simp add: verified_stealth_excess_def attach_stealth_def Let_def alg assms)

end
