(* ===== verification/Ordered_Map.thy ===== *)
theory Ordered_Map
  imports Prelude
begin

text \<open>
  Rust's \<open>BTreeMap\<close> as a strictly sorted association list: insertion replaces in place,
  removal and lookup are by key, iteration is in key order.  Two ordered maps with the same
  lookups are the same list, which is what lets a rewind be an equation between states.

  The locale \<open>undo_store\<close> is the interface the ledger relies on when it undoes a block:
  a store with lookup, insertion and deletion laws in which equal lookups mean equal stores.
  Its lemma \<open>undo_block\<close> is the round trip of a block's removals and insertions; it is
  interpreted on the ordered map here and on the UTXO set in \<open>Utxo\<close>.
\<close>

section \<open>Ordered maps\<close>

type_synonym ('k, 'v) omap = "('k \<times> 'v) list"

fun om_insert :: "'k::linorder \<Rightarrow> 'v \<Rightarrow> ('k, 'v) omap \<Rightarrow> ('k, 'v) omap" where
  "om_insert k v [] = [(k, v)]"
| "om_insert k v (e # es) =
     (if k < fst e then (k, v) # e # es
      else if k = fst e then (k, v) # es
      else e # om_insert k v es)"

definition om_remove :: "'k \<Rightarrow> ('k, 'v) omap \<Rightarrow> ('k, 'v) omap" where
  "om_remove k es = filter (\<lambda>e. fst e \<noteq> k) es"

definition om_ok :: "('k::linorder, 'v) omap \<Rightarrow> bool" where
  "om_ok es \<longleftrightarrow> sorted_wrt (<) (map fst es)"

lemma om_ok_Nil [simp]: "om_ok []"
  by (simp add: om_ok_def)

lemma om_ok_Cons [simp]:
  "om_ok (e # es) \<longleftrightarrow> om_ok es \<and> (\<forall>k \<in> fst ` set es. fst e < k)"
  by (auto simp: om_ok_def)

lemma om_ok_distinct: "om_ok es \<Longrightarrow> distinct (map fst es)"
  by (simp add: om_ok_def strict_sorted_iff)

lemma om_ok_sorted: "om_ok es \<Longrightarrow> sorted (map fst es)"
  by (simp add: om_ok_def strict_sorted_iff)

lemma set_om_insert: "om_ok es \<Longrightarrow>
  set (om_insert k v es) = insert (k, v) {e \<in> set es. fst e \<noteq> k}"
  by (induction es) (auto simp: image_iff)

lemma keys_om_insert: "fst ` set (om_insert k v es) = insert k (fst ` set es)"
  by (induction es) auto

lemma om_ok_insert [simp]: "om_ok es \<Longrightarrow> om_ok (om_insert k v es)"
  by (induction es) (auto simp: keys_om_insert)

lemma om_ok_remove [simp]: "om_ok es \<Longrightarrow> om_ok (om_remove k es)"
  by (induction es) (auto simp: om_remove_def)

lemma map_of_om_insert: "om_ok es \<Longrightarrow> map_of (om_insert k v es) = (map_of es)(k \<mapsto> v)"
  by (induction es) (auto simp: fun_eq_iff)

lemma map_of_om_remove: "map_of (om_remove k es) = (map_of es)(k := None)"
  by (induction es) (auto simp: om_remove_def fun_eq_iff)

lemma om_ext:
  assumes "om_ok m" "om_ok m'" "map_of m = map_of m'"
  shows "m = m'"
proof (rule map_sorted_distinct_set_unique)
  show "set m = set m'"
    using assms om_ok_distinct map_of_inject_set by blast
  show "inj_on fst (set m \<union> set m')"
    by (metis \<open>set m = set m'\<close> assms(1) distinct_map om_ok_distinct sup.idem)
qed (use assms in \<open>auto simp: om_ok_sorted om_ok_distinct\<close>)

lemma om_remove_absent: "map_of es k = None \<Longrightarrow> om_remove k es = es"
  by (auto simp: om_remove_def map_of_eq_None_iff filter_id_conv)

lemma length_om: "om_ok es \<Longrightarrow> length es = card (dom (map_of es))"
  by (metis dom_map_of_conv_image_fst distinct_card length_map list.set_map om_ok_distinct)

section \<open>The interface of a store that can be rewound\<close>

locale undo_store =
  fixes get :: "'s \<Rightarrow> 'k \<Rightarrow> 'v option"
    and put :: "'k \<Rightarrow> 'v \<Rightarrow> 's \<Rightarrow> 's"
    and del :: "'k \<Rightarrow> 's \<Rightarrow> 's"
    and inv :: "'s \<Rightarrow> bool"
  assumes get_put: "inv s \<Longrightarrow> get (put k v s) = (get s)(k \<mapsto> v)"
    and get_del: "inv s \<Longrightarrow> get (del k s) = (get s)(k := None)"
    and inv_put: "inv s \<Longrightarrow> inv (put k v s)"
    and inv_del: "inv s \<Longrightarrow> inv (del k s)"
    and ext: "inv s \<Longrightarrow> inv t \<Longrightarrow> get s = get t \<Longrightarrow> s = t"
begin

text \<open>Inserting a list of entries, left to right, and deleting a list of keys.\<close>

lemma puts: "inv s \<Longrightarrow> inv (fold (\<lambda>(k, v). put k v) kvs s)
    \<and> get (fold (\<lambda>(k, v). put k v) kvs s) = get s ++ map_of (rev kvs)"
proof (induction kvs arbitrary: s)
  case (Cons e kvs)
  obtain k v where [simp]: "e = (k, v)" by fastforce
  show ?case
    using Cons.IH [OF inv_put [OF Cons.prems, of k v]]
    by (simp add: get_put [OF Cons.prems] map_add_assoc [symmetric] map_add_def fun_eq_iff
          split: option.splits)
qed simp

lemma dels: "inv s \<Longrightarrow> inv (fold del ks s) \<and> get (fold del ks s) = (get s) |` (- set ks)"
proof (induction ks arbitrary: s)
  case (Cons k ks)
  show ?case
    using Cons.IH [OF inv_del [OF Cons.prems, of k]]
    by (auto simp: get_del [OF Cons.prems] restrict_map_def fun_eq_iff)
qed (simp add: restrict_map_def)

text \<open>
  A block removes the entries it spends and inserts fresh ones; removing what it created and
  putting back what it spent is the identity.
\<close>

lemma undo_block:
  assumes "inv s"
    and spent: "\<And>k v. (k, v) \<in> set spent \<Longrightarrow> get s k = Some v"
    and fresh: "\<And>k. k \<in> fst ` set created \<Longrightarrow> get s k = None"
    and same: "set ks = fst ` set spent" "set cs = fst ` set created"
  shows "fold (\<lambda>(k, v). put k v) spent
           (fold del cs (fold (\<lambda>(k, v). put k v) created (fold del ks s))) = s"
    (is "?t = s")
proof -
  let ?s1 = "fold del ks s"
  let ?s2 = "fold (\<lambda>(k, v). put k v) created ?s1"
  let ?s3 = "fold del cs ?s2"
  have i1: "inv ?s1" and g1: "get ?s1 = (get s) |` (- set ks)"
    using dels [OF assms(1), of ks] by auto
  have i2: "inv ?s2" and g2: "get ?s2 = get ?s1 ++ map_of (rev created)"
    using puts [OF i1, of created] by auto
  have i3: "inv ?s3" and g3: "get ?s3 = (get ?s2) |` (- set cs)"
    using dels [OF i2, of cs] by auto
  have i4: "inv ?t" and g4: "get ?t = get ?s3 ++ map_of (rev spent)"
    using puts [OF i3, of spent] by auto
  have "get ?t k = get s k" for k
  proof (cases "k \<in> fst ` set spent")
    case True
    then obtain v where "map_of (rev spent) k = Some v"
      by (metis (no_types, lifting) map_of_eq_None_iff not_Some_eq set_rev)
    then show ?thesis
      using spent [of k v] by (auto simp: g4 dest: map_of_SomeD)
  next
    case False
    then have "map_of (rev spent) k = None"
      by (simp add: map_of_eq_None_iff)
    moreover have "get ?s3 k = get s k"
    proof (cases "k \<in> fst ` set created")
      case True
      then show ?thesis using fresh [OF True] by (simp add: g3 same)
    next
      case nc: False
      then have "map_of (rev created) k = None"
        by (simp add: map_of_eq_None_iff)
      with nc False show ?thesis
        by (simp add: g3 g2 g1 same map_add_def)
    qed
    ultimately show ?thesis by (simp add: g4 map_add_def)
  qed
  then show ?thesis
    using ext [OF i4 assms(1)] by blast
qed

end

interpretation omap: undo_store map_of om_insert om_remove om_ok
  by unfold_locales (auto simp: map_of_om_insert map_of_om_remove om_ext)

end
