(* ===== verification/Utxo.thy ===== *)
theory Utxo
  imports Kernel Ordered_Map
begin

text \<open>
  \<open>crates/nightfall-ledger/src/utxo.rs\<close>: the unspent-output set with its running
  commitment sum, the kernel accumulator, the supply counters and the supply equation.

  \<open>utxo_ok\<close> says what the running fields promise: they describe exactly the entries.  Every
  operation keeps it, under it the constant-time \<open>commitment_sum\<close> is the walking one, and
  two such sets with the same entries are equal, so the set is an \<open>undo_store\<close>.
\<close>

section \<open>The unspent-output set\<close>

record utxo_entry =
  e_output_pk :: bytes
  e_height :: u64
  e_is_coinbase :: bool

definition COINBASE_MATURITY :: u64 where [params]: "COINBASE_MATURITY = 1440"

fun coinbase_maturity_of :: "network_id \<Rightarrow> u64" where
  "coinbase_maturity_of Mainnet = COINBASE_MATURITY"
| "coinbase_maturity_of Testnet = 60"
| "coinbase_maturity_of Devnet = 10"

record 'p utxo_set =
  entries :: "(bytes, utxo_entry) omap"
  us_sum :: 'p
  malformed :: nat
  summed :: nat

definition utxo_new :: "'p::ab_group_add utxo_set" where
  "utxo_new = \<lparr>entries = [], us_sum = 0, malformed = 0, summed = 0\<rparr>"

definition utxo_len :: "'p utxo_set \<Rightarrow> nat" where
  "utxo_len s = length (entries s)"

definition utxo_get :: "'p utxo_set \<Rightarrow> bytes \<Rightarrow> utxo_entry option" where
  "utxo_get s c = map_of (entries s) c"

definition utxo_contains :: "'p utxo_set \<Rightarrow> bytes \<Rightarrow> bool" where
  "utxo_contains s c \<longleftrightarrow> utxo_get s c \<noteq> None"

definition utxo_insert ::
    "('p::ab_group_add, 's) crypto \<Rightarrow> bytes \<Rightarrow> utxo_entry \<Rightarrow> 'p utxo_set \<Rightarrow> 'p utxo_set \<times> bool" where
  "utxo_insert C c e s =
     (let fresh = utxo_get s c = None;
          s' = s\<lparr>entries := om_insert c e (entries s)\<rparr>
      in (if fresh then
            (case commit_point C c of
               Some p \<Rightarrow> s'\<lparr>summed := summed s + 1, us_sum := us_sum s + p\<rparr>
             | None \<Rightarrow> s'\<lparr>summed := summed s + 1, malformed := malformed s + 1\<rparr>)
          else s', fresh))"

definition utxo_remove ::
    "('p::ab_group_add, 's) crypto \<Rightarrow> bytes \<Rightarrow> 'p utxo_set \<Rightarrow> 'p utxo_set \<times> utxo_entry option" where
  "utxo_remove C c s =
     (let gone = utxo_get s c;
          s' = s\<lparr>entries := om_remove c (entries s)\<rparr>
      in (if gone \<noteq> None then
            (case commit_point C c of
               Some p \<Rightarrow> s'\<lparr>summed := summed s - 1, us_sum := us_sum s - p\<rparr>
             | None \<Rightarrow> s'\<lparr>summed := summed s - 1, malformed := malformed s - 1\<rparr>)
          else s', gone))"

text \<open>The two mutations as the ledger calls them, their result discarded.\<close>

definition utxo_put ::
    "('p::ab_group_add, 's) crypto \<Rightarrow> bytes \<Rightarrow> utxo_entry \<Rightarrow> 'p utxo_set \<Rightarrow> 'p utxo_set" where
  "utxo_put C c e s = fst (utxo_insert C c e s)"

definition utxo_del :: "('p::ab_group_add, 's) crypto \<Rightarrow> bytes \<Rightarrow> 'p utxo_set \<Rightarrow> 'p utxo_set" where
  "utxo_del C c s = fst (utxo_remove C c s)"

section \<open>Sums\<close>

definition commitment_sum_by_walking ::
    "('p::ab_group_add, 's) crypto \<Rightarrow> 'p utxo_set \<Rightarrow> 'p option" where
  "commitment_sum_by_walking C s = commitment_sum_from C 0 (map fst (entries s))"

definition utxo_commitment_sum ::
    "('p::ab_group_add, 's) crypto \<Rightarrow> 'p utxo_set \<Rightarrow> 'p option" where
  "utxo_commitment_sum C s =
     (if summed s \<noteq> length (entries s) then commitment_sum_by_walking C s
      else if 0 < malformed s then None
      else Some (us_sum s))"

fun subtract_points :: "('p::ab_group_add, 's) crypto \<Rightarrow> 'p \<Rightarrow> bytes list \<Rightarrow> 'p option" where
  "subtract_points C acc [] = Some acc"
| "subtract_points C acc (c # cs) =
     (case commit_point C c of
        None \<Rightarrow> None
      | Some p \<Rightarrow> subtract_points C (acc - p) cs)"

definition sum_after ::
    "('p::ab_group_add, 's) crypto \<Rightarrow> 'p utxo_set \<Rightarrow> bytes list \<Rightarrow> bytes list \<Rightarrow> 'p option" where
  "sum_after C s removed added =
     (case utxo_commitment_sum C s of
        None \<Rightarrow> None
      | Some tot \<Rightarrow>
          (case subtract_points C tot removed of
             None \<Rightarrow> None
           | Some tot' \<Rightarrow> commitment_sum_from C tot' added))"

fun rebuild_fold ::
    "('p::ab_group_add, 's) crypto \<Rightarrow> 'p \<times> nat \<Rightarrow> bytes list \<Rightarrow> 'p \<times> nat" where
  "rebuild_fold C acc [] = acc"
| "rebuild_fold C (acc, bad) (c # cs) =
     (case commit_point C c of
        Some p \<Rightarrow> rebuild_fold C (acc + p, bad) cs
      | None \<Rightarrow> rebuild_fold C (acc, bad + 1) cs)"

definition rebuild_sum :: "('p::ab_group_add, 's) crypto \<Rightarrow> 'p utxo_set \<Rightarrow> 'p utxo_set" where
  "rebuild_sum C s =
     (let (acc, bad) = rebuild_fold C (0, 0) (map fst (entries s))
      in s\<lparr>us_sum := acc, malformed := bad, summed := length (entries s)\<rparr>)"

section \<open>The Merkle root\<close>

fun merkle_level :: "('p, 's) crypto \<Rightarrow> bytes list \<Rightarrow> bytes list" where
  "merkle_level C [] = []"
| "merkle_level C [a] = [hash_multi C DOM_MERKLE [a, a]]"
| "merkle_level C (a # b # rest) = hash_multi C DOM_MERKLE [a, b] # merkle_level C rest"

lemma length_merkle_level [simp]: "length (merkle_level C hs) = (length hs + 1) div 2"
  by (induction hs rule: induct_list012) auto

function merkle_up :: "('p, 's) crypto \<Rightarrow> bytes list \<Rightarrow> bytes" where
  "merkle_up C hs = (if 1 < length hs then merkle_up C (merkle_level C hs) else hd hs)"
  by auto
termination
  by (relation "measure (\<lambda>(_, hs). length hs)") auto

declare merkle_up.simps [simp del]

definition utxo_leaf :: "('p, 's) crypto \<Rightarrow> bytes \<times> utxo_entry \<Rightarrow> bytes" where
  "utxo_leaf C ce =
     hash_multi C DOM_MERKLE_LEAF
       [fst ce, e_output_pk (snd ce), u64_le (e_height (snd ce))]"

definition utxo_root_of :: "('p, 's) crypto \<Rightarrow> 'p utxo_set \<Rightarrow> bytes" where
  "utxo_root_of C s =
     (if entries s = [] then hash_zero else merkle_up C (map (utxo_leaf C) (entries s)))"

section \<open>Kernel accumulator and supply\<close>

record kernel_accumulator =
  acc_sum :: bytes
  acc_count :: u64

definition accumulator_default :: "('p::ab_group_add, 's) crypto \<Rightarrow> kernel_accumulator" where
  "accumulator_default C = \<lparr>acc_sum = commitment_identity C, acc_count = 0\<rparr>"

definition acc_add ::
    "('p::ab_group_add, 's) crypto \<Rightarrow> kernel_accumulator \<Rightarrow> bytes \<Rightarrow> kernel_accumulator option" where
  "acc_add C a ex =
     (case commit_point C (acc_sum a) of None \<Rightarrow> None | Some p \<Rightarrow>
      (case commit_point C ex of None \<Rightarrow> None | Some e \<Rightarrow>
       Some \<lparr>acc_sum = compress C (p + e), acc_count = acc_count a + 1\<rparr>))"

definition add_offset ::
    "('p::ab_group_add, 's) crypto \<Rightarrow> kernel_accumulator \<Rightarrow> 'p \<Rightarrow> kernel_accumulator option" where
  "add_offset C a off =
     (if off = 0 then Some a
      else
        (case commit_point C (acc_sum a) of
           None \<Rightarrow> None
         | Some p \<Rightarrow> Some (a\<lparr>acc_sum := compress C (p + off)\<rparr>)))"

definition acc_point :: "('p, 's) crypto \<Rightarrow> kernel_accumulator \<Rightarrow> 'p option" where
  "acc_point C a = commit_point C (acc_sum a)"

record supply_state =
  total_minted_darks :: u64
  total_burned_darks :: u64

definition circulating :: "supply_state \<Rightarrow> u64" where
  "circulating s = sat_sub (total_minted_darks s) (total_burned_darks s)"

definition would_exceed_cap :: "supply_state \<Rightarrow> u64 \<Rightarrow> bool" where
  "would_exceed_cap s additional =
     (case checked_add (total_minted_darks s) additional of
        Some t \<Rightarrow> MAX_SUPPLY_DARKS < t
      | None \<Rightarrow> True)"

datatype supply_error = MalformedUtxo | MalformedKernelSum | InvariantViolated | CapExceeded

definition supply_equation_holds ::
    "('p::ab_group_add, 's::comm_ring_1) crypto \<Rightarrow> 'p \<Rightarrow> kernel_accumulator \<Rightarrow> supply_state
       \<Rightarrow> supply_error + unit" where
  "supply_equation_holds C tot ks s =
     (case acc_point C ks of
        None \<Rightarrow> Inl MalformedKernelSum
      | Some k \<Rightarrow>
          if tot - k \<noteq> commit_public_value C (circulating s) then Inl InvariantViolated
          else if MAX_SUPPLY_DARKS < total_minted_darks s then Inl CapExceeded
          else Inr ())"

definition verify_supply_invariant ::
    "('p::ab_group_add, 's::comm_ring_1) crypto \<Rightarrow> 'p utxo_set \<Rightarrow> kernel_accumulator
       \<Rightarrow> supply_state \<Rightarrow> supply_error + unit" where
  "verify_supply_invariant C us ks s =
     (case utxo_commitment_sum C us of
        None \<Rightarrow> Inl MalformedUtxo
      | Some tot \<Rightarrow> supply_equation_holds C tot ks s)"

definition is_mature :: "utxo_entry \<Rightarrow> u64 \<Rightarrow> u64 \<Rightarrow> bool" where
  "is_mature e spend_height maturity =
     (if \<not> e_is_coinbase e then True
      else sat_add (e_height e) maturity \<le> spend_height)"

section \<open>What the running fields promise\<close>

definition bad_points :: "('p, 's) crypto \<Rightarrow> bytes list \<Rightarrow> nat" where
  "bad_points C cs = length (filter (\<lambda>c. commit_point C c = None) cs)"

definition utxo_ok :: "('p::ab_group_add, 's) crypto \<Rightarrow> 'p utxo_set \<Rightarrow> bool" where
  "utxo_ok C s \<longleftrightarrow> om_ok (entries s) \<and> summed s = length (entries s)
     \<and> malformed s = bad_points C (map fst (entries s))
     \<and> us_sum s = points_total C (map fst (entries s))"

lemma bad_points_simps [simp]:
  "bad_points C [] = 0"
  "bad_points C (c # cs) = (if commit_point C c = None then 1 else 0) + bad_points C cs"
  by (simp_all add: bad_points_def)

lemma bad_points_0: "bad_points C cs = 0 \<longleftrightarrow> all_points C cs"
  by (induction cs) auto

lemma point_or_zero_None [simp]: "commit_point C c = None \<Longrightarrow> point_or_zero C c = 0"
  by (simp add: point_or_zero_def)

lemma rebuild_fold_eq:
  "rebuild_fold C (acc, bad) cs = (acc + points_total C cs, bad + bad_points C cs)"
  by (induction cs arbitrary: acc bad) (auto split: option.splits)

lemma subtract_points_eq:
  "subtract_points C acc cs =
     (if all_points C cs then Some (acc - points_total C cs) else None)"
  by (induction cs arbitrary: acc) (auto split: option.splits)

text \<open>A fresh insertion adds one entry to the key list, a removal drops one.\<close>

lemma om_insert_fresh_keys:
  "map_of es k = None \<Longrightarrow> mset (map fst (om_insert k v es)) = add_mset k (mset (map fst es))"
  by (induction es) (auto split: if_splits)

lemma om_insert_present_keys:
  "om_ok es \<Longrightarrow> map_of es k \<noteq> None \<Longrightarrow> map fst (om_insert k v es) = map fst es"
proof (induction es)
  case (Cons e es)
  show ?case
  proof (cases "k = fst e")
    case False
    with Cons.prems have "k \<in> fst ` set es"
      by (auto simp: map_of_eq_None_iff)
    with Cons.prems have "fst e < k" by auto
    with Cons False show ?thesis by auto
  qed simp
qed simp

lemma om_remove_keys:
  "om_ok es \<Longrightarrow> map_of es k \<noteq> None \<Longrightarrow>
     mset (map fst es) = add_mset k (mset (map fst (om_remove k es)))"
proof (induction es)
  case (Cons e es)
  show ?case
  proof (cases "fst e = k")
    case True
    then have "map_of es k = None"
      using Cons.prems by (auto simp: map_of_eq_None_iff)
    then have "om_remove k es = es" by (rule om_remove_absent)
    with True show ?thesis by (simp add: om_remove_def)
  next
    case False
    with Cons show ?thesis by (auto simp: om_remove_def split: if_splits)
  qed
qed simp

lemma points_total_add:
  "mset ks = add_mset k (mset ls) \<Longrightarrow> points_total C ks = point_or_zero C k + points_total C ls"
  by (metis mset.simps(2) points_total_mset points_total_simps(2))

lemma bad_points_add:
  "mset ks = add_mset k (mset ls) \<Longrightarrow>
     bad_points C ks = (if commit_point C k = None then 1 else 0) + bad_points C ls"
  unfolding bad_points_def by (metis (mono_tags, lifting) bad_points_def bad_points_simps(2)
      mset.simps(2) mset_filter size_mset)

lemma length_add: "mset ks = add_mset k (mset ls) \<Longrightarrow> length ks = Suc (length ls)"
  by (metis size_add_mset size_mset)

lemma utxo_new_ok [simp]: "utxo_ok C utxo_new"
  by (simp add: utxo_ok_def utxo_new_def)

lemma entries_utxo_put [simp]: "entries (utxo_put C c e s) = om_insert c e (entries s)"
  by (simp add: utxo_put_def utxo_insert_def Let_def split: option.split)

lemma entries_utxo_del [simp]: "entries (utxo_del C c s) = om_remove c (entries s)"
  by (simp add: utxo_del_def utxo_remove_def Let_def split: option.split)

lemma utxo_put_ok [simp]:
  assumes "utxo_ok C s"
  shows "utxo_ok C (utxo_put C c e s)"
proof (cases "utxo_get s c")
  case None
  let ?ks = "map fst (entries s)" and ?ls = "map fst (om_insert c e (entries s))"
  have m: "mset ?ls = add_mset c (mset ?ks)"
    by (rule om_insert_fresh_keys) (use None in \<open>simp add: utxo_get_def\<close>)
  have "length (om_insert c e (entries s)) = Suc (length (entries s))"
    using length_add [OF m] by simp
  then show ?thesis
    using assms None points_total_add [OF m, of C] bad_points_add [OF m, of C]
    by (auto simp: utxo_ok_def utxo_put_def utxo_insert_def Let_def add.commute
        split: option.splits)
next
  case (Some e')
  then have "map fst (om_insert c e (entries s)) = map fst (entries s)"
    using assms by (simp add: utxo_get_def utxo_ok_def om_insert_present_keys)
  moreover from this have "length (om_insert c e (entries s)) = length (entries s)"
    by (metis length_map)
  ultimately show ?thesis
    using assms Some by (simp add: utxo_ok_def utxo_put_def utxo_insert_def Let_def)
qed

lemma utxo_del_ok [simp]:
  assumes "utxo_ok C s"
  shows "utxo_ok C (utxo_del C c s)"
proof (cases "utxo_get s c")
  case None
  then show ?thesis
    using assms by (simp add: utxo_get_def utxo_ok_def utxo_del_def utxo_remove_def
        om_remove_absent)
next
  case (Some e)
  let ?ks = "map fst (entries s)" and ?ls = "map fst (om_remove c (entries s))"
  have m: "mset ?ks = add_mset c (mset ?ls)"
    by (rule om_remove_keys) (use Some assms in \<open>simp_all add: utxo_get_def utxo_ok_def\<close>)
  have "length (entries s) = Suc (length (om_remove c (entries s)))"
    using length_add [OF m] by simp
  then show ?thesis
    using assms Some points_total_add [OF m, of C] bad_points_add [OF m, of C]
    by (auto simp: utxo_ok_def utxo_del_def utxo_remove_def Let_def
        split: option.splits)
qed

lemma rebuild_sum_ok: "om_ok (entries s) \<Longrightarrow> utxo_ok C (rebuild_sum C s)"
  by (simp add: utxo_ok_def rebuild_sum_def rebuild_fold_eq)

text \<open>The running sum is the walking sum.\<close>

lemma commitment_sum_by_walking_eq:
  "commitment_sum_by_walking C s =
     (if all_points C (map fst (entries s)) then Some (points_total C (map fst (entries s)))
      else None)"
  by (simp add: commitment_sum_by_walking_def commitment_sum_from_eq)

lemma utxo_commitment_sum_eq:
  "utxo_ok C s \<Longrightarrow> utxo_commitment_sum C s = commitment_sum_by_walking C s"
  by (auto simp: utxo_commitment_sum_def commitment_sum_by_walking_eq utxo_ok_def
      simp flip: bad_points_0)

lemma utxo_ext:
  assumes "utxo_ok C s" "utxo_ok C t" "utxo_get s = utxo_get t"
  shows "s = t"
proof -
  have "entries s = entries t"
    using assms by (intro om_ext) (auto simp: utxo_ok_def utxo_get_def fun_eq_iff)
  with assms(1,2) show ?thesis by (simp add: utxo_ok_def)
qed

lemma utxo_get_put: "utxo_ok C s \<Longrightarrow> utxo_get (utxo_put C c e s) = (utxo_get s)(c \<mapsto> e)"
  by (simp add: utxo_get_def fun_eq_iff map_of_om_insert utxo_ok_def)

lemma utxo_get_del: "utxo_get (utxo_del C c s) = (utxo_get s)(c := None)"
  by (simp add: utxo_get_def fun_eq_iff map_of_om_remove)

interpretation utxos: undo_store utxo_get "utxo_put C" "utxo_del C" "utxo_ok C"
  for C :: "('p::ab_group_add, 's) crypto"
  by unfold_locales (auto simp: utxo_get_put utxo_get_del intro: utxo_ext)

section \<open>Supply lemmas\<close>

lemma acc_add_eq:
  assumes "encoding_ok C" "acc_point C a = Some p"
  shows "acc_add C a ex =
     (case commit_point C ex of None \<Rightarrow> None
      | Some e \<Rightarrow> Some \<lparr>acc_sum = compress C (p + e), acc_count = acc_count a + 1\<rparr>)"
    and "acc_add C a ex = Some a' \<Longrightarrow> acc_point C a' = Some (p + point_or_zero C ex)"
  using assms by (auto simp: acc_add_def acc_point_def commit_point_def alg point_or_zero_def
      split: option.splits)

lemma add_offset_point:
  assumes "encoding_ok C" "acc_point C a = Some p"
  obtains a' where "add_offset C a off = Some a'" "acc_point C a' = Some (p + off)"
proof (cases "off = 0")
  case True
  with assms that [of a] show thesis by (simp add: add_offset_def)
next
  case False
  with assms that [of "a\<lparr>acc_sum := compress C (p + off)\<rparr>"] show thesis
    by (simp add: add_offset_def acc_point_def commit_point_def alg)
qed

lemma supply_equation_holds_iff:
  "supply_equation_holds C tot ks s = Inr () \<longleftrightarrow>
     (\<exists>k. acc_point C ks = Some k \<and> tot - k = commit_public_value C (circulating s)
        \<and> total_minted_darks s \<le> MAX_SUPPLY_DARKS)"
  by (auto simp: supply_equation_holds_def split: option.splits)

lemma verify_supply_invariant_iff:
  "verify_supply_invariant C us ks s = Inr () \<longleftrightarrow>
     (\<exists>tot k. utxo_commitment_sum C us = Some tot \<and> acc_point C ks = Some k
        \<and> tot - k = commit_public_value C (circulating s)
        \<and> total_minted_darks s \<le> MAX_SUPPLY_DARKS)"
  by (auto simp: verify_supply_invariant_def supply_equation_holds_iff split: option.splits)

lemma would_exceed_cap_iff:
  "\<not> would_exceed_cap s a \<longleftrightarrow> unat (total_minted_darks s) + unat a \<le> 9000000000000000"
proof (cases "checked_add (total_minted_darks s) a")
  case None
  then have "(2 :: nat) ^ LENGTH(64) \<le> unat (total_minted_darks s) + unat a"
    by (simp only: checked_add_None_iff)
  then have "\<not> unat (total_minted_darks s) + unat a \<le> 9000000000000000" by simp
  with None show ?thesis by (simp add: would_exceed_cap_def)
next
  case (Some t)
  then have "unat t = unat (total_minted_darks s) + unat a"
    by (simp only: checked_add_Some_iff)
  moreover have "MAX_SUPPLY_DARKS < t \<longleftrightarrow> 9000000000000000 < unat t"
    by (simp only: word_less_nat_alt unat_max_supply)
  ultimately show ?thesis
    using Some by (simp add: would_exceed_cap_def not_less)
qed

text \<open>
  Histories of an unspent-output set: any sequence of insertions, removals and rebuilds from
  the empty set.  What the running sum says after it is what walking the entries says, and
  the entries are those of an abstract map under the same sequence.
\<close>

datatype utxo_change = Put bytes utxo_entry | Del bytes | Resum

fun change_set ::
    "('p::ab_group_add, 's) crypto \<Rightarrow> utxo_change \<Rightarrow> 'p utxo_set \<Rightarrow> 'p utxo_set" where
  "change_set C (Put c e) us = utxo_put C c e us"
| "change_set C (Del c) us = utxo_del C c us"
| "change_set C Resum us = rebuild_sum C us"

fun change_map ::
    "utxo_change \<Rightarrow> (bytes \<rightharpoonup> utxo_entry) \<Rightarrow> bytes \<rightharpoonup> utxo_entry" where
  "change_map (Put c e) m = m(c \<mapsto> e)"
| "change_map (Del c) m = m(c := None)"
| "change_map Resum m = m"

lemma rebuild_sum_get [simp]: "utxo_get (rebuild_sum C us) = utxo_get us"
  by (simp add: rebuild_sum_def utxo_get_def fun_eq_iff rebuild_fold_eq)

lemma change_step:
  assumes "utxo_ok C us"
  shows "utxo_ok C (change_set C x us) \<and> utxo_get (change_set C x us) = change_map x (utxo_get us)"
  using assms
  by (cases x) (auto simp: utxo_get_put utxo_get_del utxo_ok_def [of C us] intro: rebuild_sum_ok)

lemma change_history:
  "utxo_ok C us \<Longrightarrow> utxo_ok C (fold (change_set C) xs us)
     \<and> utxo_get (fold (change_set C) xs us) = fold change_map xs (utxo_get us)"
  by (induction xs arbitrary: us) (simp_all add: change_step)

lemma utxo_get_new [simp]: "utxo_get utxo_new = Map.empty"
  by (simp add: utxo_get_def utxo_new_def fun_eq_iff)

text \<open>Two histories that leave the same entries leave the same set, sum and root.\<close>

lemma history_determined:
  assumes "fold change_map xs Map.empty = fold change_map ys Map.empty"
  shows "fold (change_set C) xs utxo_new = fold (change_set C) ys utxo_new"
  using assms change_history [of C utxo_new] by (intro utxo_ext [of C]) simp_all

end
