(* ===== verification/Rust_Text.thy ===== *)
theory Rust_Text
  imports Prelude "HOL-Library.Sublist"
begin

text \<open>
  The parts of Rust's string library the sources use: a string is its UTF-8 bytes, here a
  \<open>string\<close> whose characters are those bytes.  \<open>trim\<close> strips the Unicode
  \<open>White_Space\<close> characters, \<open>from_utf8_lossy\<close> replaces each ill-formed sequence by
  the replacement character, and unsigned integers are parsed and printed in decimal.
\<close>

section \<open>Trimming\<close>

text \<open>The UTF-8 encodings of the characters with the property \<open>White_Space\<close>.\<close>

definition white_space :: "string list" where
  "white_space =
     map (map char_of)
       ([[9], [10], [11], [12], [13], [32], [0xC2, 0x85], [0xC2, 0xA0], [0xE1, 0x9A, 0x80],
         [0xE2, 0x80, 0xA8], [0xE2, 0x80, 0xA9], [0xE2, 0x80, 0xAF], [0xE2, 0x81, 0x9F],
         [0xE3, 0x80, 0x80]]
        @ map (\<lambda>i. [0xE2, 0x80, 0x80 + i]) [0..<11] :: nat list list)"

lemma white_space_nonempty: "w \<in> set white_space \<Longrightarrow> w \<noteq> []"
  by (auto simp: white_space_def)

function trim_start :: "string \<Rightarrow> string" where
  "trim_start s =
     (case List.find (\<lambda>w. prefix w s) white_space of
        None \<Rightarrow> s
      | Some w \<Rightarrow> trim_start (drop (length w) s))"
  by pat_completeness auto
termination
proof (relation "measure length")
  fix s w assume "List.find (\<lambda>w. prefix w s) white_space = Some w"
  then have "w \<in> set white_space" "prefix w s"
    by (auto dest: find_Some_mem)
  then have "w \<noteq> []" "length w \<le> length s"
    using white_space_nonempty prefix_length_le by auto
  then show "(drop (length w) s, s) \<in> measure length"
    by (simp add: length_greater_0_conv [symmetric] del: length_greater_0_conv)
qed simp

declare trim_start.simps [simp del]

function trim_end :: "string \<Rightarrow> string" where
  "trim_end s =
     (case List.find (\<lambda>w. suffix w s) white_space of
        None \<Rightarrow> s
      | Some w \<Rightarrow> trim_end (take (length s - length w) s))"
  by pat_completeness auto
termination
proof (relation "measure length")
  fix s w assume "List.find (\<lambda>w. suffix w s) white_space = Some w"
  then have "w \<in> set white_space" "suffix w s"
    by (auto dest: find_Some_mem)
  then have "w \<noteq> []" "length w \<le> length s"
    using white_space_nonempty suffix_length_le by auto
  then show "(take (length s - length w) s, s) \<in> measure length"
    by (simp add: length_greater_0_conv [symmetric] del: length_greater_0_conv)
qed simp

declare trim_end.simps [simp del]

definition trim :: "string \<Rightarrow> string" where
  "trim s = trim_end (trim_start s)"

text \<open>A character that neither starts nor ends a white-space character.\<close>

definition solid :: "char \<Rightarrow> bool" where
  "solid c \<longleftrightarrow> (\<forall>w \<in> set white_space. hd w \<noteq> c \<and> last w \<noteq> c)"

lemma trim_start_solid:
  assumes "s = [] \<or> solid (hd s)"
  shows "trim_start s = s"
proof -
  have "\<not> prefix w s" if w: "w \<in> set white_space" for w
  proof
    assume "prefix w s"
    moreover have "w \<noteq> []" using w by (rule white_space_nonempty)
    ultimately have "s \<noteq> [] \<and> hd w = hd s"
      by (metis hd_append2 prefix_bot.extremum_unique prefixE)
    with assms w show False by (auto simp: solid_def)
  qed
  then have "List.find (\<lambda>w. prefix w s) white_space = None"
    by (simp add: find_None_iff)
  then show ?thesis by (subst trim_start.simps) simp
qed

lemma trim_end_solid:
  assumes "s = [] \<or> solid (last s)"
  shows "trim_end s = s"
proof -
  have "\<not> suffix w s" if w: "w \<in> set white_space" for w
  proof
    assume "suffix w s"
    moreover have "w \<noteq> []" using w by (rule white_space_nonempty)
    ultimately have "s \<noteq> [] \<and> last w = last s"
      by (metis last_appendR suffix_bot.extremum_unique suffixE)
    with assms w show False by (auto simp: solid_def)
  qed
  then have "List.find (\<lambda>w. suffix w s) white_space = None"
    by (simp add: find_None_iff)
  then show ?thesis by (subst trim_end.simps) simp
qed

lemma trim_solid: "s = [] \<or> solid (hd s) \<and> solid (last s) \<Longrightarrow> trim s = s"
  by (auto simp: trim_def trim_start_solid trim_end_solid)

lemma white_space_ends:
  assumes "w \<in> set white_space"
  shows "(of_char (hd w) :: nat) \<le> 32 \<or> 128 \<le> (of_char (hd w) :: nat)"
    and "(of_char (last w) :: nat) \<le> 32 \<or> 128 \<le> (of_char (last w) :: nat)"
  using assms by (auto simp: white_space_def)

lemma solid_ascii: "32 < (of_char c :: nat) \<Longrightarrow> (of_char c :: nat) < 128 \<Longrightarrow> solid c"
  using white_space_ends by (fastforce simp: solid_def)

lemma hex_digit_mem: "n < 16 \<Longrightarrow> hex_digit n \<in> set ''0123456789abcdef''"
proof -
  have "\<forall>k \<in> set [0..<16]. hex_digit k \<in> set ''0123456789abcdef''"
    by code_simp
  then show "n < 16 \<Longrightarrow> hex_digit n \<in> set ''0123456789abcdef''"
    by (metis atLeastLessThan_iff set_upt zero_le)
qed

lemma hex_encode_chars: "c \<in> set (hex_encode bs) \<Longrightarrow> c \<in> set ''0123456789abcdef''"
proof -
  assume "c \<in> set (hex_encode bs)"
  then obtain b :: u8 where b: "c \<in> set (hex_byte b)"
    by (auto simp: hex_encode_def)
  have "unat b < 256"
    using unsigned_less [of b, where ?'a = nat] by simp
  then have "unat b div 16 < 16" "unat b mod 16 < 16" by auto
  then have "hex_digit (unat b div 16) \<in> set ''0123456789abcdef''"
    "hex_digit (unat b mod 16) \<in> set ''0123456789abcdef''"
    by (blast intro: hex_digit_mem)+
  moreover have "c = hex_digit (unat b div 16) \<or> c = hex_digit (unat b mod 16)"
    using b by (simp add: hex_byte_def)
  ultimately show ?thesis by metis
qed

lemma solid_hex_encode: "c \<in> set (hex_encode bs) \<Longrightarrow> solid c"
  using hex_encode_chars [of c bs] by (auto intro!: solid_ascii)

section \<open>Lossy UTF-8 decoding\<close>

definition cont :: "u8 \<Rightarrow> bool" where
  "cont b \<longleftrightarrow> 0x80 \<le> b \<and> b \<le> 0xBF"

text \<open>
  The length of the next chunk and whether it is a well-formed character; an ill-formed
  chunk is a maximal prefix of a character, as \<open>core::str::Utf8Chunks\<close> delimits it.
\<close>

definition second_ok :: "u8 \<Rightarrow> u8 \<Rightarrow> bool" where
  "second_ok b c \<longleftrightarrow>
     (if b = 0xE0 then 0xA0 \<le> c \<and> c \<le> 0xBF
      else if b = 0xED then 0x80 \<le> c \<and> c \<le> 0x9F
      else if b = 0xF0 then 0x90 \<le> c \<and> c \<le> 0xBF
      else if b = 0xF4 then 0x80 \<le> c \<and> c \<le> 0x8F
      else cont c)"

fun utf8_chunk :: "bytes \<Rightarrow> nat \<times> bool" where
  "utf8_chunk [] = (0, True)"
| "utf8_chunk (b # bs) =
     (if b < 0x80 then (1, True)
      else if 0xC2 \<le> b \<and> b \<le> 0xDF then
        (case bs of c # _ \<Rightarrow> if cont c then (2, True) else (1, False) | [] \<Rightarrow> (1, False))
      else if 0xE0 \<le> b \<and> b \<le> 0xEF then
        (case bs of
           c # d # _ \<Rightarrow> if \<not> second_ok b c then (1, False)
                        else if cont d then (3, True) else (2, False)
         | [c] \<Rightarrow> if second_ok b c then (2, False) else (1, False)
         | [] \<Rightarrow> (1, False))
      else if 0xF0 \<le> b \<and> b \<le> 0xF4 then
        (case bs of
           c # d # e # _ \<Rightarrow> if \<not> second_ok b c then (1, False)
                            else if \<not> cont d then (2, False)
                            else if cont e then (4, True) else (3, False)
         | [c, d] \<Rightarrow> if \<not> second_ok b c then (1, False)
                     else if cont d then (3, False) else (2, False)
         | [c] \<Rightarrow> if second_ok b c then (2, False) else (1, False)
         | [] \<Rightarrow> (1, False))
      else (1, False))"

lemma utf8_chunk_pos: "(n, ok) = utf8_chunk bs \<Longrightarrow> bs \<noteq> [] \<Longrightarrow> 0 < n"
  by (cases bs) (auto split: list.splits if_splits)

function utf8_lossy :: "bytes \<Rightarrow> bytes" where
  "utf8_lossy bs =
     (if bs = [] then []
      else (case utf8_chunk bs of (n, ok) \<Rightarrow>
        (if ok then take n bs else [0xEF, 0xBF, 0xBD]) @ utf8_lossy (drop n bs)))"
  by pat_completeness auto
termination
  by (relation "measure length") (auto dest: utf8_chunk_pos)

declare utf8_lossy.simps [simp del]

text \<open>Well-formed UTF-8.\<close>

function utf8_valid :: "bytes \<Rightarrow> bool" where
  "utf8_valid bs =
     (if bs = [] then True
      else (case utf8_chunk bs of (n, ok) \<Rightarrow> if ok then utf8_valid (drop n bs) else False))"
  by pat_completeness auto
termination
  by (relation "measure length") (auto dest: utf8_chunk_pos)

declare utf8_valid.simps [simp del]

lemma utf8_lossy_valid: "utf8_valid bs \<Longrightarrow> utf8_lossy bs = bs"
proof (induction bs rule: utf8_lossy.induct)
  case (1 bs)
  show ?case
  proof (cases "bs = []")
    case False
    obtain n ok where c: "utf8_chunk bs = (n, ok)" by fastforce
    with "1.prems" False have "ok" "utf8_valid (drop n bs)"
      using utf8_valid.simps [of bs] by (auto split: if_splits)
    with "1.IH" [OF False c [symmetric]] False c show ?thesis
      using utf8_lossy.simps [of bs] by simp
  qed (simp add: utf8_lossy.simps)
qed

lemma utf8_chunk_append:
  "utf8_chunk bs = (n, True) \<Longrightarrow> bs \<noteq> [] \<Longrightarrow> utf8_chunk (bs @ cs) = (n, True)
     \<and> n \<le> length bs"
  by (cases bs) (auto split: if_splits list.splits)

lemma utf8_valid_append:
  "utf8_valid as \<Longrightarrow> utf8_valid bs \<Longrightarrow> utf8_valid (as @ bs)"
proof (induction as rule: utf8_valid.induct)
  case (1 as)
  show ?case
  proof (cases "as = []")
    case False
    obtain n ok where c: "utf8_chunk as = (n, ok)" by fastforce
    with "1.prems" False have ok: "ok" "utf8_valid (drop n as)"
      using utf8_valid.simps [of as] by (auto split: if_splits)
    have "utf8_chunk (as @ bs) = (n, True)" "n \<le> length as"
      using utf8_chunk_append [of as n bs] c ok False by auto
    with "1.IH" [OF False c [symmetric] ok "1.prems"(2)] ok(1) False show ?thesis
      using utf8_valid.simps [of "as @ bs"] by simp
  qed (use "1.prems" in simp)
qed

lemma utf8_valid_zeros: "utf8_valid (replicate n 0)"
proof (induction n)
  case (Suc n)
  then show ?case by (subst utf8_valid.simps) simp
qed (simp add: utf8_valid.simps)

text \<open>\<open>trim_end_matches('\0')\<close>.\<close>

definition trim_zeros :: "bytes \<Rightarrow> bytes" where
  "trim_zeros bs = rev (dropWhile (\<lambda>b. b = 0) (rev bs))"

lemma trim_zeros_padded:
  assumes "bs = [] \<or> last bs \<noteq> 0"
  shows "trim_zeros (bs @ replicate n 0) = bs"
proof -
  have "dropWhile (\<lambda>b. b = 0) (rev bs) = rev bs"
    using assms by (cases bs rule: rev_cases) auto
  then have "dropWhile (\<lambda>b. b = 0) (replicate n 0 @ rev bs) = rev bs"
    by (induction n) auto
  then show ?thesis by (simp add: trim_zeros_def)
qed

end
