(* ===== verification/Keys.thy ===== *)
theory Keys
  imports Crypto Rust_Text
begin

text \<open>
  \<open>crates/nightfall-crypto/src/keys.rs\<close>: the scan/spend key hierarchy, payment addresses
  with their checksum, and view keys.
\<close>

section \<open>Addresses\<close>

datatype crypto_error = Encrypt | Decrypt | BadAddress | BadAddressChecksum | BadViewKey
  | CommitmentMismatch

record address =
  scan_pk :: bytes
  spend_pk :: bytes

definition scan_point :: "('p, 's) crypto \<Rightarrow> address \<Rightarrow> 'p option" where
  "scan_point C a = decompress C (scan_pk a)"

definition spend_point :: "('p, 's) crypto \<Rightarrow> address \<Rightarrow> 'p option" where
  "spend_point C a = decompress C (spend_pk a)"

definition address_checksum :: "('p, 's) crypto \<Rightarrow> bytes \<Rightarrow> bytes" where
  "address_checksum C pay =
     take 4 (hash_multi C (str_bytes ''nightfall:addr:checksum:v2'') [pay])"

definition address_encode :: "('p, 's) crypto \<Rightarrow> address \<Rightarrow> string" where
  "address_encode C a =
     (let pay = scan_pk a @ spend_pk a
      in ''nf1'' @ hex_encode pay @ hex_encode (address_checksum C pay))"

text \<open>\<open>str::strip_prefix\<close>.\<close>

definition strip_prefix :: "'a list \<Rightarrow> 'a list \<Rightarrow> 'a list option" where
  "strip_prefix p s = (if take (length p) s = p then Some (drop (length p) s) else None)"

lemma strip_prefix_append [simp]: "strip_prefix p (p @ s) = Some s"
  by (simp add: strip_prefix_def)

definition address_decode :: "('p, 's) crypto \<Rightarrow> string \<Rightarrow> crypto_error + address" where
  "address_decode C s =
     (case strip_prefix ''nf1'' (trim s) of
        None \<Rightarrow> Inl BadAddress
      | Some body \<Rightarrow>
          (case hex_decode body of
             None \<Rightarrow> Inl BadAddress
           | Some raw \<Rightarrow>
               if length raw \<noteq> 68 then Inl BadAddress
               else if drop 64 raw \<noteq> address_checksum C (take 64 raw)
               then Inl BadAddressChecksum
               else
                 (let addr = \<lparr>scan_pk = take 32 raw, spend_pk = take 32 (drop 32 raw)\<rparr>
                  in if scan_point C addr = None \<or> spend_point C addr = None
                     then Inl BadAddress else Inr addr)))"

section \<open>Wallet keys and view keys\<close>

record 's wallet_keys =
  seed :: bytes
  scan_sk :: 's
  spend_sk :: 's

record 's view_key =
  v_scan_sk :: 's
  v_spend_pk :: bytes

definition scalar_from_seed :: "('p, 's) crypto \<Rightarrow> bytes \<Rightarrow> bytes \<Rightarrow> 's" where
  "scalar_from_seed C dm sd = wide_scalar C dm [sd] (str_bytes ''0'') (str_bytes ''1'')"

definition keys_from_seed :: "('p, 's) crypto \<Rightarrow> bytes \<Rightarrow> 's wallet_keys" where
  "keys_from_seed C sd =
     \<lparr>seed = sd, scan_sk = scalar_from_seed C (str_bytes ''nightfall:derive:scan:v2'') sd,
      spend_sk = scalar_from_seed C (str_bytes ''nightfall:derive:spend:v2'') sd\<rparr>"

definition scan_public :: "('p, 's) crypto \<Rightarrow> 's wallet_keys \<Rightarrow> 'p" where
  "scan_public C k = pt_mul C (scan_sk k) (generator_g C)"

definition spend_public :: "('p, 's) crypto \<Rightarrow> 's wallet_keys \<Rightarrow> 'p" where
  "spend_public C k = pt_mul C (spend_sk k) (generator_g C)"

definition keys_address :: "('p, 's) crypto \<Rightarrow> 's wallet_keys \<Rightarrow> address" where
  "keys_address C k =
     \<lparr>scan_pk = compress C (scan_public C k), spend_pk = compress C (spend_public C k)\<rparr>"

definition keys_view_key :: "('p, 's) crypto \<Rightarrow> 's wallet_keys \<Rightarrow> 's view_key" where
  "keys_view_key C k =
     \<lparr>v_scan_sk = scan_sk k, v_spend_pk = compress C (spend_public C k)\<rparr>"

definition view_address :: "('p, 's) crypto \<Rightarrow> 's view_key \<Rightarrow> address" where
  "view_address C v =
     \<lparr>scan_pk = compress C (pt_mul C (v_scan_sk v) (generator_g C)), spend_pk = v_spend_pk v\<rparr>"

definition view_spend_point :: "('p, 's) crypto \<Rightarrow> 's view_key \<Rightarrow> 'p option" where
  "view_spend_point C v = decompress C (v_spend_pk v)"

definition view_encode :: "('p, 's) crypto \<Rightarrow> 's view_key \<Rightarrow> string" where
  "view_encode C v =
     ''nfview1'' @ hex_encode (scalar_bytes C (v_scan_sk v)) @ hex_encode (v_spend_pk v)"

definition view_decode :: "('p, 's) crypto \<Rightarrow> string \<Rightarrow> crypto_error + 's view_key" where
  "view_decode C s =
     (case strip_prefix ''nfview1'' (trim s) of
        None \<Rightarrow> Inl BadViewKey
      | Some body \<Rightarrow>
          (case hex_decode body of
             None \<Rightarrow> Inl BadViewKey
           | Some raw \<Rightarrow>
               if length raw \<noteq> 64 then Inl BadViewKey
               else (case from_canonical_bytes C (take 32 raw) of
                       None \<Rightarrow> Inl BadViewKey
                     | Some sk \<Rightarrow> Inr \<lparr>v_scan_sk = sk, v_spend_pk = drop 32 raw\<rparr>)))"

section \<open>Round trips\<close>

lemma hex_encode_append: "hex_encode (a @ b) = hex_encode a @ hex_encode b"
  by (simp add: hex_encode_def)

lemma trim_encoded:
  assumes "p \<noteq> []" "\<forall>c \<in> set p. solid c"
  shows "trim (p @ hex_encode bs) = p @ hex_encode bs"
proof (rule trim_solid, rule disjI2, rule conjI)
  have all: "\<forall>c \<in> set (p @ hex_encode bs). solid c"
    using assms(2) solid_hex_encode by auto
  have ne: "p @ hex_encode bs \<noteq> []" using assms(1) by simp
  show "solid (hd (p @ hex_encode bs))" using all hd_in_set [OF ne] by blast
  show "solid (last (p @ hex_encode bs))" using all last_in_set [OF ne] by blast
qed

lemma solid_nf1: "\<forall>c \<in> set ''nf1''. solid c" and solid_nfview1: "\<forall>c \<in> set ''nfview1''. solid c"
  by (auto intro!: solid_ascii)

lemma address_roundtrip:
  assumes "encoding_ok C"
    and "length (scan_pk a) = 32" "length (spend_pk a) = 32"
    and "scan_point C a \<noteq> None" "spend_point C a \<noteq> None"
  shows "address_decode C (address_encode C a) = Inr a"
proof -
  let ?pay = "scan_pk a @ spend_pk a"
  have enc: "address_encode C a = ''nf1'' @ hex_encode (?pay @ address_checksum C ?pay)"
    by (simp only: address_encode_def Let_def hex_encode_append append_assoc)
  have "length (address_checksum C ?pay) = 4"
    using assms(1) by (simp add: address_checksum_def hash_multi_def encoding_ok_def)
  then show ?thesis
    unfolding address_decode_def enc trim_encoded [OF _ solid_nf1, simplified]
    using assms(2-)
    by (simp add: trim_encoded [OF _ solid_nf1, simplified] strip_prefix_def hex_decode_encode
        scan_point_def spend_point_def)
qed

lemma view_key_roundtrip:
  assumes "encoding_ok C" "length (v_spend_pk v) = 32"
  shows "view_decode C (view_encode C v) = Inr v"
proof -
  have enc: "view_encode C v
      = ''nfview1'' @ hex_encode (scalar_bytes C (v_scan_sk v) @ v_spend_pk v)"
    by (simp only: view_encode_def hex_encode_append)
  have "length (scalar_bytes C (v_scan_sk v)) = 32"
    using assms(1) by (simp add: encoding_ok_def)
  then show ?thesis
    unfolding view_decode_def enc using assms
    by (simp add: trim_encoded [OF _ solid_nfview1, simplified] strip_prefix_def hex_decode_encode
        canonical_scalar)
qed

text \<open>The view key's address is the wallet's.\<close>

lemma view_key_address: "view_address C (keys_view_key C k) = keys_address C k"
  by (simp add: view_address_def keys_view_key_def keys_address_def scan_public_def)

lemma keys_address_valid:
  "encoding_ok C \<Longrightarrow> scan_point C (keys_address C k) = Some (scan_public C k)
     \<and> spend_point C (keys_address C k) = Some (spend_public C k)
     \<and> length (scan_pk (keys_address C k)) = 32 \<and> length (spend_pk (keys_address C k)) = 32"
  by (simp add: scan_point_def spend_point_def keys_address_def encoding_ok_def)

end
