(* ===== verification/Stealth.thy ===== *)
theory Stealth
  imports Keys
begin

text \<open>
  \<open>crates/nightfall-crypto/src/stealth.rs\<close>: one-sided outputs.  Random bytes the sender
  draws are arguments.  \<open>aead_ok\<close> is the round trip of XChaCha20-Poly1305.  Memos are
  UTF-8 byte strings.
\<close>

section \<open>Shared secrets\<close>

definition MEMO_LEN :: nat where [params]: "MEMO_LEN = 64"
definition PAYLOAD_LEN :: nat where [params]: "PAYLOAD_LEN = 8 + 32 + MEMO_LEN"

definition shared_secret :: "('p, 's) crypto \<Rightarrow> 'p \<Rightarrow> bytes" where
  "shared_secret C p = hash_multi C (str_bytes ''nightfall:stealth:shared:v2'') [compress C p]"

definition derive_blind :: "('p, 's) crypto \<Rightarrow> bytes \<Rightarrow> 's" where
  "derive_blind C t = blind_from_bytes C (str_bytes ''nightfall:stealth:blind:v2'') t"

definition derive_key_offset :: "('p, 's) crypto \<Rightarrow> bytes \<Rightarrow> 's" where
  "derive_key_offset C t = blind_from_bytes C (str_bytes ''nightfall:stealth:ko:v2'') t"

definition derive_view_tag :: "('p, 's) crypto \<Rightarrow> bytes \<Rightarrow> u8" where
  "derive_view_tag C t = hd (hash_multi C (str_bytes ''nightfall:stealth:viewtag:v3'') [t])"

definition derive_aead :: "('p, 's) crypto \<Rightarrow> bytes \<Rightarrow> bytes \<times> bytes" where
  "derive_aead C t =
     (hash_multi C (str_bytes ''nightfall:stealth:aead:v2'') [t],
      take 24 (hash_multi C (str_bytes ''nightfall:stealth:nonce:v2'') [t]))"

section \<open>Outputs\<close>

datatype output_feature = PlainOutput | CoinbaseOutput

fun feature_byte :: "output_feature \<Rightarrow> u8" where
  "feature_byte PlainOutput = 0"
| "feature_byte CoinbaseOutput = 1"

definition is_coinbase_feature :: "output_feature \<Rightarrow> bool" where
  "is_coinbase_feature f \<longleftrightarrow> f = CoinbaseOutput"

record tx_output =
  features :: output_feature
  out_commit :: bytes
  range_proof :: bytes
  ephemeral_pk :: bytes
  output_pk :: bytes
  view_tag :: u8
  payload :: bytes
  sender_sig :: schnorr_sig

definition output_point :: "('p, 's) crypto \<Rightarrow> tx_output \<Rightarrow> 'p option" where
  "output_point C o' = decompress C (output_pk o')"

definition output_id :: "('p, 's) crypto \<Rightarrow> tx_output \<Rightarrow> bytes" where
  "output_id C o' =
     hash_multi C (str_bytes ''nightfall:output:id:v2'')
       [out_commit o', output_pk o', ephemeral_pk o']"

definition commitment_bytes :: "tx_output \<Rightarrow> bytes" where
  "commitment_bytes o' =
     [feature_byte (features o')] @ out_commit o' @ ephemeral_pk o' @ output_pk o'
       @ [view_tag o'] @ range_proof o' @ payload o'"

definition output_sig_message :: "('p, 's) crypto \<Rightarrow> tx_output \<Rightarrow> bytes" where
  "output_sig_message C o' =
     hash_multi C (str_bytes ''nightfall:output:sig:v2'') [commitment_bytes o']"

definition verify_sender_sig ::
    "('p::ab_group_add, 's::comm_ring_1) crypto \<Rightarrow> tx_output \<Rightarrow> bool" where
  "verify_sender_sig C o' =
     (case decompress C (ephemeral_pk o') of
        None \<Rightarrow> False
      | Some ke \<Rightarrow>
          schnorr_verify C ke (generator_g C) (output_sig_message C o') (sender_sig o'))"

section \<open>Creating an output\<close>

record 's sender_secrets =
  ss_blind :: 's
  ss_value :: u64
  ss_ephemeral :: 's

text \<open>
  \<open>r_bytes\<close> is the 64-byte draw behind the ephemeral secret, \<open>entropy\<close> the draw inside
  the signature; \<open>None\<close> for \<open>r_bytes\<close> is the generator being unavailable.
\<close>

definition output_payload :: "('p, 's) crypto \<Rightarrow> u64 \<Rightarrow> 's \<Rightarrow> bytes \<Rightarrow> bytes" where
  "output_payload C v blind memo =
     (let n = min (length memo) MEMO_LEN
      in u64_le v @ scalar_bytes C blind @ take n memo @ replicate (MEMO_LEN - n) 0)"

definition create_output_with_features ::
    "('p::ab_group_add, 's::comm_ring_1) crypto \<Rightarrow> bytes option \<Rightarrow> bytes \<Rightarrow> address \<Rightarrow> u64
       \<Rightarrow> bytes \<Rightarrow> bytes \<Rightarrow> output_feature \<Rightarrow> crypto_error + tx_output \<times> 's sender_secrets" where
  "create_output_with_features C r_bytes entropy to v memo ctx feat =
     (case scan_point C to of None \<Rightarrow> Inl BadAddress | Some scan_pt \<Rightarrow>
      (case spend_point C to of None \<Rightarrow> Inl BadAddress | Some spend_pt \<Rightarrow>
       (case r_bytes of None \<Rightarrow> Inl Encrypt | Some rb \<Rightarrow>
        (let r = from_wide C rb;
             t = shared_secret C (pt_mul C r scan_pt);
             blind = derive_blind C t;
             offset = derive_key_offset C t
         in case range_prove C v blind ctx of None \<Rightarrow> Inl Encrypt | Some (prf, commit) \<Rightarrow>
          (case aead_encrypt C (fst (derive_aead C t)) (snd (derive_aead C t))
                  (output_payload C v blind memo) of
             None \<Rightarrow> Inl Encrypt
           | Some pay \<Rightarrow>
               (let o' = \<lparr>features = feat, out_commit = commit, range_proof = prf,
                          ephemeral_pk = compress C (pt_mul C r (generator_g C)),
                          output_pk = compress C (spend_pt + pt_mul C offset (generator_g C)),
                          view_tag = derive_view_tag C t, payload = pay,
                          sender_sig = \<lparr>sig_r = replicate 32 0, sig_s = replicate 32 0\<rparr>\<rparr>
                in Inr (o'\<lparr>sender_sig :=
                          schnorr_sign C entropy r (generator_g C) (output_sig_message C o')\<rparr>,
                        \<lparr>ss_blind = blind, ss_value = v, ss_ephemeral = r\<rparr>)))))))"

definition create_output ::
    "('p::ab_group_add, 's::comm_ring_1) crypto \<Rightarrow> bytes option \<Rightarrow> bytes \<Rightarrow> address \<Rightarrow> u64
       \<Rightarrow> bytes \<Rightarrow> bytes \<Rightarrow> crypto_error + tx_output \<times> 's sender_secrets" where
  "create_output C r_bytes entropy to v memo ctx =
     create_output_with_features C r_bytes entropy to v memo ctx PlainOutput"

section \<open>Scanning\<close>

record scan_candidate =
  sc_commit :: bytes
  sc_ephemeral_pk :: bytes
  sc_output_pk :: bytes
  sc_view_tag :: u8
  sc_payload :: bytes

definition candidate_of :: "tx_output \<Rightarrow> scan_candidate" where
  "candidate_of o' = \<lparr>sc_commit = out_commit o', sc_ephemeral_pk = ephemeral_pk o',
     sc_output_pk = output_pk o', sc_view_tag = view_tag o', sc_payload = payload o'\<rparr>"

record 's discovered_output =
  d_value :: u64
  d_blind :: 's
  d_key_offset :: 's
  d_memo :: bytes
  d_commit :: bytes
  d_output_pk :: bytes

definition d_spend_secret :: "'s::comm_ring_1 discovered_output \<Rightarrow> 's wallet_keys \<Rightarrow> 's" where
  "d_spend_secret d keys = spend_sk keys + d_key_offset d"

definition expected_view_tag ::
    "('p, 's) crypto \<Rightarrow> 's view_key \<Rightarrow> bytes \<Rightarrow> u8 option" where
  "expected_view_tag C view epk =
     map_option (\<lambda>ke. derive_view_tag C (shared_secret C (pt_mul C (v_scan_sk view) ke)))
       (decompress C epk)"

definition scan_candidate_with ::
    "('p::ab_group_add, 's::comm_ring_1) crypto \<Rightarrow> 's view_key \<Rightarrow> scan_candidate
       \<Rightarrow> 's discovered_output option" where
  "scan_candidate_with C view cand =
     (case decompress C (sc_ephemeral_pk cand) of None \<Rightarrow> None | Some ke \<Rightarrow>
      (case view_spend_point C view of None \<Rightarrow> None | Some spend_pt \<Rightarrow>
       (let t = shared_secret C (pt_mul C (v_scan_sk view) ke) in
        if derive_view_tag C t \<noteq> sc_view_tag cand then None
        else
          (let offset = derive_key_offset C t in
           if compress C (spend_pt + pt_mul C offset (generator_g C)) \<noteq> sc_output_pk cand
           then None
           else
             (case aead_decrypt C (fst (derive_aead C t)) (snd (derive_aead C t))
                     (sc_payload cand) of
                None \<Rightarrow> None
              | Some plain \<Rightarrow>
                  if length plain \<noteq> PAYLOAD_LEN then None
                  else
                    (let v = of_nat (le_nat (take 8 plain)) in
                     case from_canonical_bytes C (take 32 (drop 8 plain)) of
                       None \<Rightarrow> None
                     | Some blind \<Rightarrow>
                         if commitment_new C v blind \<noteq> sc_commit cand then None
                         else Some \<lparr>d_value = v, d_blind = blind, d_key_offset = offset,
                                    d_memo = trim_zeros (utf8_lossy (drop 40 plain)),
                                    d_commit = sc_commit cand,
                                    d_output_pk = sc_output_pk cand\<rparr>))))))"

definition scan_output ::
    "('p::ab_group_add, 's::comm_ring_1) crypto \<Rightarrow> 's view_key \<Rightarrow> tx_output
       \<Rightarrow> 's discovered_output option" where
  "scan_output C view o' = scan_candidate_with C view (candidate_of o')"

section \<open>Lemmas\<close>

text \<open>Decryption inverts encryption under the same key and nonce.\<close>

definition aead_ok :: "('p, 's) crypto \<Rightarrow> bool" where
  "aead_ok C \<longleftrightarrow> (\<forall>k n m c. aead_encrypt C k n m = Some c \<longrightarrow> aead_decrypt C k n c = Some m)"

lemma output_sig_message_upd [simp]:
  "output_sig_message C (o'\<lparr>sender_sig := s\<rparr>) = output_sig_message C o'"
  by (simp add: output_sig_message_def commitment_bytes_def)

text \<open>What a created output satisfies.\<close>

lemma create_output_OkD:
  assumes "create_output_with_features C r_bytes entropy to v memo ctx feat = Inr (o', sec)"
  obtains scan_pt spend_pt rb t pay where
    "scan_point C to = Some scan_pt" "spend_point C to = Some spend_pt" "r_bytes = Some rb"
    "ss_ephemeral sec = from_wide C rb" "ss_value sec = v"
    "t = shared_secret C (pt_mul C (from_wide C rb) scan_pt)"
    "ss_blind sec = derive_blind C t"
    "range_prove C v (derive_blind C t) ctx = Some (range_proof o', out_commit o')"
    "aead_encrypt C (fst (derive_aead C t)) (snd (derive_aead C t))
       (output_payload C v (derive_blind C t) memo) = Some (payload o')"
    "features o' = feat"
    "ephemeral_pk o' = compress C (pt_mul C (from_wide C rb) (generator_g C))"
    "output_pk o' = compress C (spend_pt + pt_mul C (derive_key_offset C t) (generator_g C))"
    "view_tag o' = derive_view_tag C t"
    "sender_sig o' = schnorr_sign C entropy (from_wide C rb) (generator_g C)
       (output_sig_message C o')"
  using assms
  by (auto simp: create_output_with_features_def Let_def output_sig_message_def
      commitment_bytes_def split: option.splits)

lemma create_output_wf:
  assumes "group_ok C" "encoding_ok C" "range_ok C"
    and "create_output_with_features C r_bytes entropy to v memo ctx feat = Inr (o', sec)"
  shows "out_commit o' = commitment_new C v (ss_blind sec)"
    and "commit_point C (out_commit o') = Some (pedersen C v (ss_blind sec))"
    and "range_verify C (range_proof o') (out_commit o') ctx"
    and "verify_sender_sig C o'"
    and "output_point C o' \<noteq> None"
    and "decompress C (ephemeral_pk o') = Some (pt_mul C (ss_ephemeral sec) (generator_g C))"
    and "features o' = feat"
proof -
  from assms(4) obtain scan_pt spend_pt rb t pay where
    sec: "ss_ephemeral sec = from_wide C rb" "ss_blind sec = derive_blind C t"
    and rp: "range_prove C v (derive_blind C t) ctx = Some (range_proof o', out_commit o')"
    and f: "features o' = feat"
    and epk: "ephemeral_pk o' = compress C (pt_mul C (from_wide C rb) (generator_g C))"
    and opk: "output_pk o'
      = compress C (spend_pt + pt_mul C (derive_key_offset C t) (generator_g C))"
    and sg: "sender_sig o' = schnorr_sign C entropy (from_wide C rb) (generator_g C)
       (output_sig_message C o')"
    by (rule create_output_OkD)
  show c: "out_commit o' = commitment_new C v (ss_blind sec)"
    using range_prove_verifies(1) [OF assms(3) rp] sec(2) by simp
  show "commit_point C (out_commit o') = Some (pedersen C v (ss_blind sec))"
    by (simp add: c commit_point_def commitment_new_def alg assms)
  show "range_verify C (range_proof o') (out_commit o') ctx"
    by (rule range_prove_verifies(2) [OF assms(3) rp])
  show "verify_sender_sig C o'"
    by (simp add: verify_sender_sig_def epk sg alg assms schnorr_sign_verifies)
  show "output_point C o' \<noteq> None"
    by (simp add: output_point_def opk alg assms)
  show "decompress C (ephemeral_pk o') = Some (pt_mul C (ss_ephemeral sec) (generator_g C))"
    by (simp add: epk sec alg assms)
  show "features o' = feat" by (rule f)
qed

lemma output_payload_parts:
  assumes "encoding_ok C"
  shows "length (output_payload C v b memo) = PAYLOAD_LEN"
    and "take 8 (output_payload C v b memo) = u64_le v"
    and "take 32 (drop 8 (output_payload C v b memo)) = scalar_bytes C b"
    and "drop 40 (output_payload C v b memo)
      = take MEMO_LEN memo @ replicate (MEMO_LEN - length memo) 0"
  using assms by (auto simp: output_payload_def Let_def params encoding_ok_def min_def)

lemma u64_le_roundtrip: "of_nat (le_nat (u64_le v)) = (v :: u64)"
proof -
  have "unat v < 256 ^ 8"
    using unsigned_less [of v, where ?'a = nat] by simp
  then show ?thesis
    by (simp add: u64_le_def le_nat_le_bytes)
qed

text \<open>The receiver's wallet finds and opens what was sent to its address.\<close>

lemma scan_created_output:
  assumes laws: "group_ok C" "encoding_ok C" "range_ok C" "aead_ok C"
    and made: "create_output_with_features C r_bytes entropy (keys_address C keys) v memo ctx feat
      = Inr (o', sec)"
    and memo: "utf8_valid memo" "length memo \<le> MEMO_LEN" "memo = [] \<or> last memo \<noteq> 0"
  shows "\<exists>d. scan_output C (keys_view_key C keys) o' = Some d
      \<and> d_value d = v \<and> d_blind d = ss_blind sec \<and> d_memo d = memo
      \<and> d_commit d = out_commit o' \<and> d_output_pk d = output_pk o'
      \<and> output_point C o' = Some (pt_mul C (d_spend_secret d keys) (generator_g C))"
proof -
  from made obtain scan_pt spend_pt rb t pay where
    pts: "scan_point C (keys_address C keys) = Some scan_pt"
      "spend_point C (keys_address C keys) = Some spend_pt"
    and sec: "ss_blind sec = derive_blind C t"
    and t: "t = shared_secret C (pt_mul C (from_wide C rb) scan_pt)"
    and rp: "range_prove C v (derive_blind C t) ctx = Some (range_proof o', out_commit o')"
    and enc: "aead_encrypt C (fst (derive_aead C t)) (snd (derive_aead C t))
       (output_payload C v (derive_blind C t) memo) = Some (payload o')"
    and epk: "ephemeral_pk o' = compress C (pt_mul C (from_wide C rb) (generator_g C))"
    and opk: "output_pk o'
      = compress C (spend_pt + pt_mul C (derive_key_offset C t) (generator_g C))"
    and tag: "view_tag o' = derive_view_tag C t"
    by (rule create_output_OkD)
  have pt: "scan_pt = pt_mul C (scan_sk keys) (generator_g C)"
    "spend_pt = pt_mul C (spend_sk keys) (generator_g C)"
    using pts keys_address_valid [OF laws(2)] by (auto simp: scan_public_def spend_public_def)
  have "pt_mul C (from_wide C rb) scan_pt
      = pt_mul C (scan_sk keys) (pt_mul C (from_wide C rb) (generator_g C))"
    unfolding pt pt_mul_mul [OF laws(1), symmetric] by (simp add: mult.commute)
  then have t': "shared_secret C
      (pt_mul C (scan_sk keys) (pt_mul C (from_wide C rb) (generator_g C))) = t"
    using t by simp
  have dec: "aead_decrypt C (fst (derive_aead C t)) (snd (derive_aead C t)) (payload o')
      = Some (output_payload C v (derive_blind C t) memo)"
    using laws(4) enc by (simp add: aead_ok_def)
  have com: "commitment_new C v (derive_blind C t) = out_commit o'"
    using range_prove_verifies(1) [OF laws(3) rp] by simp
  have mm: "trim_zeros (utf8_lossy (take MEMO_LEN memo @ replicate (MEMO_LEN - length memo) 0))
      = memo"
    using memo by (simp add: utf8_lossy_valid utf8_valid_append utf8_valid_zeros
        trim_zeros_padded)
  have vp: "view_spend_point C (keys_view_key C keys) = Some spend_pt"
    by (simp add: view_spend_point_def keys_view_key_def spend_public_def pt alg laws)
  have vs: "v_scan_sk (keys_view_key C keys) = scan_sk keys"
    by (simp add: keys_view_key_def)
  have "scan_output C (keys_view_key C keys) o'
      = Some \<lparr>d_value = v, d_blind = derive_blind C t, d_key_offset = derive_key_offset C t,
          d_memo = memo, d_commit = out_commit o', d_output_pk = output_pk o'\<rparr>"
    by (simp add: scan_output_def scan_candidate_with_def candidate_of_def epk vp alg laws
        vs t' tag opk dec output_payload_parts [OF laws(2)] u64_le_roundtrip com mm
        Let_def)
  moreover have "output_point C o'
      = Some (pt_mul C (spend_sk keys + derive_key_offset C t) (generator_g C))"
    by (simp add: output_point_def opk pt alg laws)
  ultimately show ?thesis
    by (simp add: sec d_spend_secret_def)
qed

end
