(* ===== verification/Tx.thy ===== *)
theory Tx
  imports Stealth Kernel
begin

text \<open>
  \<open>crates/nightfall-ledger/src/tx.rs\<close>: inputs, transactions, their identifiers, the checks
  that need no chain state, and the two balance equations.  An array that is
  \<open>unwrap_or_default\<close>ed is 32 zero bytes.  \<open>txid\<close> sorts unstably by commitment; the
  model sorts stably, which differs only between inputs spending the same commitment, and
  \<open>check_shape\<close> refuses those.
\<close>

section \<open>Inputs\<close>

record tx_input =
  in_commit :: bytes
  in_sig :: schnorr_sig
  input_key :: "bytes option"
  key_sig :: "schnorr_sig option"

definition input_legacy :: "bytes \<Rightarrow> schnorr_sig \<Rightarrow> tx_input" where
  "input_legacy c s = \<lparr>in_commit = c, in_sig = s, input_key = None, key_sig = None\<rparr>"

definition input_strip_binding :: "tx_input \<Rightarrow> tx_input" where
  "input_strip_binding i = i\<lparr>input_key := None, key_sig := None\<rparr>"

definition has_binding :: "tx_input \<Rightarrow> bool" where
  "has_binding i \<longleftrightarrow> input_key i \<noteq> None \<or> key_sig i \<noteq> None"

definition or_zeros :: "bytes option \<Rightarrow> bytes" where
  "or_zeros o' = (case o' of None \<Rightarrow> replicate 32 0 | Some b \<Rightarrow> b)"

definition input_message :: "('p, 's) crypto \<Rightarrow> bytes \<Rightarrow> bytes" where
  "input_message C commit = hash_multi C DOM_INPUT [commit]"

section \<open>Transactions\<close>

record transaction =
  tx_version :: u32
  tx_inputs :: "tx_input list"
  tx_outputs :: "tx_output list"
  tx_kernels :: "tx_kernel list"
  tx_stealth_offset :: "bytes option"
  tx_kernel_offset :: "bytes option"

definition MAX_INPUTS :: nat where [params]: "MAX_INPUTS = 512"
definition MAX_OUTPUTS :: nat where [params]: "MAX_OUTPUTS = 512"
definition MAX_KERNELS :: nat where [params]: "MAX_KERNELS = 64"
definition MAX_KERNEL_FEE_DARKS :: u64 where [params]: "MAX_KERNEL_FEE_DARKS = MAX_SUPPLY_DARKS"

definition is_coinbase :: "transaction \<Rightarrow> bool" where
  "is_coinbase t \<longleftrightarrow> (\<exists>k \<in> set (tx_kernels t). feature k = CoinbaseKernel)"

text \<open>The wrapping sums over kernels, shared with block bodies.\<close>

definition wrapping_fees :: "tx_kernel list \<Rightarrow> u64" where
  "wrapping_fees ks = fold (\<lambda>k acc. acc + fee_darks k) ks 0"

definition wrapping_rewards :: "tx_kernel list \<Rightarrow> u64" where
  "wrapping_rewards ks = fold (\<lambda>k acc. acc + reward_darks k) ks 0"

definition total_fee :: "transaction \<Rightarrow> u64" where
  "total_fee t = wrapping_fees (tx_kernels t)"

definition total_reward :: "transaction \<Rightarrow> u64" where
  "total_reward t = wrapping_rewards (tx_kernels t)"

definition checked_fee_sum :: "tx_kernel list \<Rightarrow> u64 option" where
  "checked_fee_sum ks =
     try_fold (\<lambda>acc k. if MAX_KERNEL_FEE_DARKS < fee_darks k then None
                       else checked_add acc (fee_darks k)) 0 ks"

definition checked_total_fee :: "transaction \<Rightarrow> u64 option" where
  "checked_total_fee t = checked_fee_sum (tx_kernels t)"

definition has_any_binding :: "transaction \<Rightarrow> bool" where
  "has_any_binding t \<longleftrightarrow>
     tx_stealth_offset t \<noteq> None \<or> tx_kernel_offset t \<noteq> None
   \<or> (\<exists>i \<in> set (tx_inputs t). has_binding i)
   \<or> (\<exists>k \<in> set (tx_kernels t). stealth_excess k \<noteq> None \<or> stealth_sig k \<noteq> None)"

definition has_full_binding :: "transaction \<Rightarrow> bool" where
  "has_full_binding t \<longleftrightarrow>
     (\<forall>i \<in> set (tx_inputs t). input_key i \<noteq> None \<and> key_sig i \<noteq> None)
   \<and> (\<forall>k \<in> set (tx_kernels t). stealth_excess k \<noteq> None \<and> stealth_sig k \<noteq> None)"

definition strip_binding :: "transaction \<Rightarrow> transaction" where
  "strip_binding t =
     t\<lparr>tx_inputs := map input_strip_binding (tx_inputs t),
       tx_kernels := map kernel_strip_binding (tx_kernels t),
       tx_stealth_offset := None, tx_kernel_offset := None\<rparr>"

definition legacy_txid :: "('p, 's) crypto \<Rightarrow> transaction \<Rightarrow> bytes" where
  "legacy_txid C t =
     hash_multi C DOM_TX
       (sort (map in_commit (tx_inputs t))
        @ map commitment_bytes (tx_outputs t)
        @ map (signing_message C) (tx_kernels t))"

definition txid :: "('p, 's) crypto \<Rightarrow> transaction \<Rightarrow> bytes" where
  "txid C t =
     (if \<not> has_any_binding t then legacy_txid C t
      else hash_multi C DOM_TX_BOUND
        (map (\<lambda>i. in_commit i @ or_zeros (input_key i)) (sort_key in_commit (tx_inputs t))
         @ map commitment_bytes (tx_outputs t)
         @ map (\<lambda>k. signing_message C k @ or_zeros (stealth_excess k)) (tx_kernels t)
         @ [or_zeros (tx_stealth_offset t), or_zeros (tx_kernel_offset t)]))"

datatype tx_error = MissingBinding | BadInputKey | BadInputKeySignature | BadStealthExcess
  | KeyImbalance | BadOffset | FeeOutOfRange | KernelOffsetBeforeFork
  | CoinbaseOutputInTransaction | TooManyInputs | TooManyOutputs | NoOutputs | BadKernelCount
  | DuplicateInput | DuplicateOutput | MalformedCommitment | MalformedOutputKey
  | MultipleCoinbaseKernels | CoinbaseWithInputs | BadKernel | BadRangeProof
  | BadKernelSignature | UnbalancedTransaction | BadInputSignature | BadOutputSignature

section \<open>Stateless checks\<close>

definition coinbase_kernel_count :: "tx_kernel list \<Rightarrow> nat" where
  "coinbase_kernel_count ks = length (filter (\<lambda>k. feature k = CoinbaseKernel) ks)"

definition check_output_points :: "('p, 's) crypto \<Rightarrow> tx_output \<Rightarrow> tx_error + unit" where
  "check_output_points C o' =
     (if commit_point C (out_commit o') = None then Inl MalformedCommitment
      else if output_point C o' = None then Inl MalformedOutputKey
      else Inr ())"

definition check_shape :: "('p, 's) crypto \<Rightarrow> transaction \<Rightarrow> tx_error + unit" where
  "check_shape C t =
     (if MAX_INPUTS < length (tx_inputs t) then Inl TooManyInputs
      else if MAX_OUTPUTS < length (tx_outputs t) then Inl TooManyOutputs
      else if tx_kernels t = [] \<or> MAX_KERNELS < length (tx_kernels t) then Inl BadKernelCount
      else if tx_outputs t = [] then Inl NoOutputs
      else
        res_bind (for_fresh in_commit (\<lambda>_. DuplicateInput) (\<lambda>_. Inr ()) [] (tx_inputs t))
         (\<lambda>_. res_bind (for_fresh out_commit (\<lambda>_. DuplicateOutput) (check_output_points C) []
                 (tx_outputs t))
         (\<lambda>_. if 1 < coinbase_kernel_count (tx_kernels t) then Inl MultipleCoinbaseKernels
              else if coinbase_kernel_count (tx_kernels t) = 1 \<and> tx_inputs t \<noteq> []
                then Inl CoinbaseWithInputs
              else if coinbase_kernel_count (tx_kernels t) = 0
                  \<and> (\<exists>o' \<in> set (tx_outputs t). is_coinbase_feature (features o'))
                then Inl CoinbaseOutputInTransaction
              else for_each (\<lambda>k. map_err (\<lambda>_. BadKernel) (kernel_check_shape C k))
                     (tx_kernels t))))"

definition decode_offset ::
    "('p, 's::comm_ring_1) crypto \<Rightarrow> bytes option \<Rightarrow> tx_error + 's" where
  "decode_offset C off =
     (case off of
        None \<Rightarrow> Inr 0
      | Some bs \<Rightarrow> ok_or BadOffset (from_canonical_bytes C bs))"

definition offset_point_h ::
    "('p, 's::comm_ring_1) crypto \<Rightarrow> bytes option \<Rightarrow> tx_error + 'p" where
  "offset_point_h C off =
     res_bind (decode_offset C off) (\<lambda>k. Inr (pt_mul C k (generator_h C)))"

definition offset_scalar :: "('p, 's::comm_ring_1) crypto \<Rightarrow> bytes option \<Rightarrow> 's" where
  "offset_scalar C off =
     (case Option.bind off (from_canonical_bytes C) of None \<Rightarrow> 0 | Some s \<Rightarrow> s)"

definition add_offsets ::
    "('p, 's::comm_ring_1) crypto \<Rightarrow> bytes option \<Rightarrow> bytes option \<Rightarrow> bytes option" where
  "add_offsets C a b =
     (if a = None \<and> b = None then None
      else Some (scalar_bytes C (offset_scalar C a + offset_scalar C b)))"

text \<open>The points the key balance adds up, with the error each raises when it is missing.\<close>

definition input_key_point :: "('p, 's) crypto \<Rightarrow> tx_input \<Rightarrow> tx_error + 'p" where
  "input_key_point C i =
     res_bind (ok_or MissingBinding (input_key i)) (\<lambda>ki. ok_or BadInputKey (decompress C ki))"

definition ephemeral_point :: "('p, 's) crypto \<Rightarrow> tx_output \<Rightarrow> tx_error + 'p" where
  "ephemeral_point C o' = ok_or MalformedOutputKey (decompress C (ephemeral_pk o'))"

definition stealth_point ::
    "('p::ab_group_add, 's::comm_ring_1) crypto \<Rightarrow> tx_kernel \<Rightarrow> tx_error + 'p" where
  "stealth_point C k = ok_or BadStealthExcess (verified_stealth_excess C k)"

definition key_balance ::
    "('p::ab_group_add, 's::comm_ring_1) crypto \<Rightarrow> tx_input list \<Rightarrow> tx_output list
       \<Rightarrow> tx_kernel list \<Rightarrow> bytes option \<Rightarrow> tx_error + unit" where
  "key_balance C ins outs ks off =
     res_bind (res_fold (\<lambda>lhs i. res_bind (input_key_point C i) (\<lambda>p. Inr (lhs + p))) 0 ins)
       (\<lambda>l1.
     res_bind (res_fold (\<lambda>lhs o'. res_bind (ephemeral_point C o') (\<lambda>p. Inr (lhs - p))) l1 outs)
       (\<lambda>lhs.
     res_bind (decode_offset C off) (\<lambda>s.
     res_bind (res_fold (\<lambda>rhs k. res_bind (stealth_point C k) (\<lambda>x. Inr (rhs + x)))
                 (pt_mul C s (generator_g C)) ks) (\<lambda>rhs.
     if lhs \<noteq> rhs then Inl KeyImbalance else Inr ()))))"

definition check_output_proofs ::
    "('p::ab_group_add, 's::comm_ring_1) crypto \<Rightarrow> bytes \<Rightarrow> tx_output \<Rightarrow> tx_error + unit" where
  "check_output_proofs C ctx o' =
     (if \<not> range_verify C (range_proof o') (out_commit o') ctx then Inl BadRangeProof
      else if \<not> verify_sender_sig C o' then Inl BadOutputSignature
      else Inr ())"

definition verify_value_balance ::
    "('p::ab_group_add, 's::comm_ring_1) crypto \<Rightarrow> bytes \<Rightarrow> transaction \<Rightarrow> tx_error + unit" where
  "verify_value_balance C ctx t =
     res_bind (for_each (check_output_proofs C ctx) (tx_outputs t)) (\<lambda>_.
     res_bind (for_each (\<lambda>k. ensure BadKernelSignature (kernel_verify_signature C k))
                (tx_kernels t)) (\<lambda>_.
     res_bind (ok_or MalformedCommitment
                (expected_excess C (map in_commit (tx_inputs t)) (map out_commit (tx_outputs t))
                   (total_fee t) (total_reward t))) (\<lambda>expected.
     res_bind (ok_or MalformedCommitment (commitment_sum C (map excess (tx_kernels t))))
       (\<lambda>excesses.
     res_bind (offset_point_h C (tx_kernel_offset t)) (\<lambda>off.
     if expected \<noteq> excesses + off then Inl UnbalancedTransaction else Inr ())))))"

definition verify_stateless_rules ::
    "('p::ab_group_add, 's::comm_ring_1) crypto \<Rightarrow> bytes \<Rightarrow> bool \<Rightarrow> transaction
       \<Rightarrow> tx_error + unit" where
  "verify_stateless_rules C ctx binding t =
     res_bind (check_shape C t) (\<lambda>_.
       if checked_total_fee t = None then Inl FeeOutOfRange
       else if \<not> binding \<and> tx_kernel_offset t \<noteq> None then Inl KernelOffsetBeforeFork
       else if binding \<and> \<not> has_full_binding t then Inl MissingBinding
       else
         res_bind
           (if binding \<or> has_full_binding t then
              res_bind (for_each (\<lambda>k. ensure BadStealthExcess
                                        (verified_stealth_excess C k \<noteq> None)) (tx_kernels t))
                (\<lambda>_. key_balance C (tx_inputs t) (tx_outputs t) (tx_kernels t)
                       (tx_stealth_offset t))
            else Inr ())
           (\<lambda>_. verify_value_balance C ctx t))"

definition verify_stateless ::
    "('p::ab_group_add, 's::comm_ring_1) crypto \<Rightarrow> bytes \<Rightarrow> transaction \<Rightarrow> tx_error + unit" where
  "verify_stateless C ctx t = verify_stateless_rules C ctx False t"

definition verify_input_key ::
    "('p::ab_group_add, 's::comm_ring_1) crypto \<Rightarrow> tx_input \<Rightarrow> bytes \<Rightarrow> bool" where
  "verify_input_key C i out_pk =
     (case (input_key i, key_sig i) of
        (Some ki, Some sg) \<Rightarrow> verify_input_key_sig C (in_commit i) ki out_pk sg
      | _ \<Rightarrow> False)"

definition verify_input_signature ::
    "('p::ab_group_add, 's::comm_ring_1) crypto \<Rightarrow> tx_input \<Rightarrow> bytes \<Rightarrow> bool" where
  "verify_input_signature C i out_pk =
     (case decompress C out_pk of
        None \<Rightarrow> False
      | Some ko \<Rightarrow>
          schnorr_verify C ko (generator_g C) (input_message C (in_commit i)) (in_sig i))"

section \<open>Lemmas: stripping the binding fields\<close>

lemma input_strip_simps [simp]:
  "in_commit (input_strip_binding i) = in_commit i"
  "in_sig (input_strip_binding i) = in_sig i"
  "input_key (input_strip_binding i) = None"
  "key_sig (input_strip_binding i) = None"
  "\<not> has_binding (input_strip_binding i)"
  by (simp_all add: input_strip_binding_def has_binding_def)

lemma input_strip_id: "\<not> has_binding i \<Longrightarrow> input_strip_binding i = i"
  by (simp add: input_strip_binding_def has_binding_def)

lemma strip_simps [simp]:
  "tx_inputs (strip_binding t) = map input_strip_binding (tx_inputs t)"
  "tx_outputs (strip_binding t) = tx_outputs t"
  "tx_kernels (strip_binding t) = map kernel_strip_binding (tx_kernels t)"
  "tx_stealth_offset (strip_binding t) = None"
  "tx_kernel_offset (strip_binding t) = None"
  "tx_version (strip_binding t) = tx_version t"
  by (simp_all add: strip_binding_def)

lemma comp_strip [simp]:
  "in_commit \<circ> input_strip_binding = in_commit"
  "signing_message C \<circ> kernel_strip_binding = signing_message C"
  "excess \<circ> kernel_strip_binding = excess"
  "fee_darks \<circ> kernel_strip_binding = fee_darks"
  "reward_darks \<circ> kernel_strip_binding = reward_darks"
  by (simp_all add: fun_eq_iff signing_message_def kernel_strip_binding_def)

lemma has_any_binding_strip [simp]: "\<not> has_any_binding (strip_binding t)"
  by (simp add: has_any_binding_def)

lemma strip_id: "\<not> has_any_binding t \<Longrightarrow> strip_binding t = t"
  by (cases t) (auto simp: has_any_binding_def strip_binding_def map_idI input_strip_id
      kernel_strip_id)

lemma legacy_txid_strip: "legacy_txid C (strip_binding t) = legacy_txid C t"
  by (simp add: legacy_txid_def)

section \<open>Lemmas: fees and rewards\<close>

lemma fold_plus_word: "fold (\<lambda>k acc. acc + f k) ks (a :: u64) = a + (\<Sum>k \<leftarrow> ks. f k)"
  by (induction ks arbitrary: a) (simp_all add: add.assoc)

lemma wrapping_fees_eq: "wrapping_fees ks = (\<Sum>k \<leftarrow> ks. fee_darks k)"
  by (simp add: wrapping_fees_def fold_plus_word)

lemma wrapping_rewards_eq: "wrapping_rewards ks = (\<Sum>k \<leftarrow> ks. reward_darks k)"
  by (simp add: wrapping_rewards_def fold_plus_word)

lemma wrapping_strip [simp]:
  "wrapping_fees (map kernel_strip_binding ks) = wrapping_fees ks"
  "wrapping_rewards (map kernel_strip_binding ks) = wrapping_rewards ks"
  by (simp_all add: wrapping_fees_eq wrapping_rewards_eq)

lemma sum_list_mset_cong:
  "mset as = mset bs \<Longrightarrow> (\<Sum>x \<leftarrow> as. f x) = (\<Sum>x \<leftarrow> bs. f x :: 'a::comm_monoid_add)"
  by (metis mset_map sum_mset_sum_list)

lemma checked_fee_fold:
  "try_fold (\<lambda>acc k. if MAX_KERNEL_FEE_DARKS < fee_darks k then None
       else checked_add acc (fee_darks k)) a ks = Some s \<longleftrightarrow>
     (\<forall>k \<in> set ks. fee_darks k \<le> MAX_KERNEL_FEE_DARKS)
     \<and> unat s = unat a + (\<Sum>k \<leftarrow> ks. unat (fee_darks k))"
proof (induction ks arbitrary: a)
  case Nil
  show ?case by (auto simp: word_unat_eq_iff)
next
  case (Cons k ks)
  show ?case
  proof (cases "checked_add a (fee_darks k)")
    case None
    then have "(2 :: nat) ^ 64 \<le> unat a + unat (fee_darks k)"
      by (simp add: checked_add_None_iff)
    moreover have "unat s < 2 ^ 64"
      using unsigned_less [of s, where ?'a = nat] by simp
    ultimately show ?thesis using None by auto
  next
    case (Some a')
    then have "unat a' = unat a + unat (fee_darks k)" by (simp add: checked_add_Some_iff)
    with Some Cons.IH [of a'] show ?thesis by (auto simp: not_less)
  qed
qed

lemma checked_fee_sum_Some_iff:
  "checked_fee_sum ks = Some s \<longleftrightarrow>
     (\<forall>k \<in> set ks. fee_darks k \<le> MAX_KERNEL_FEE_DARKS)
     \<and> unat s = (\<Sum>k \<leftarrow> ks. unat (fee_darks k))"
  by (simp add: checked_fee_sum_def checked_fee_fold)

lemma unat_sum_list:
  "(\<Sum>k \<leftarrow> ks. unat (f k)) < 2 ^ 64 \<Longrightarrow> unat (\<Sum>k \<leftarrow> ks. f k :: u64) = (\<Sum>k \<leftarrow> ks. unat (f k))"
proof (induction ks)
  case (Cons k ks)
  then have "unat (\<Sum>k \<leftarrow> ks. f k) = (\<Sum>k \<leftarrow> ks. unat (f k))" by simp
  with Cons.prems show ?case by (simp add: unat_word_ariths)
qed simp

text \<open>When the checked sum exists it is the wrapping sum, and the wrapping sum did not wrap.\<close>

lemma checked_fee_sum_wrapping:
  assumes "checked_fee_sum ks = Some s"
  shows "wrapping_fees ks = s" and "unat s = (\<Sum>k \<leftarrow> ks. unat (fee_darks k))"
proof -
  show u: "unat s = (\<Sum>k \<leftarrow> ks. unat (fee_darks k))"
    using assms by (simp add: checked_fee_sum_Some_iff)
  have "unat s < 2 ^ 64"
    using unsigned_less [of s, where ?'a = nat] by simp
  with u have "unat (wrapping_fees ks) = unat s"
    by (simp add: wrapping_fees_eq unat_sum_list)
  then show "wrapping_fees ks = s" by (simp add: word_unat_eq_iff)
qed

section \<open>Lemmas: the two balances\<close>

text \<open>A folded sum of results succeeds when every summand does.\<close>

definition ok_value :: "'e + 'p::ab_group_add \<Rightarrow> 'p" where
  "ok_value r = (case r of Inl _ \<Rightarrow> 0 | Inr p \<Rightarrow> p)"

lemma ok_value_Inr [simp]: "ok_value (Inr p) = p"
  by (simp add: ok_value_def)

lemma res_fold_add:
  "res_fold (\<lambda>acc x. res_bind (g x) (\<lambda>p. Inr (acc + p))) a xs = Inr r \<longleftrightarrow>
     (\<forall>x \<in> set xs. is_ok (g x)) \<and> r = a + (\<Sum>x \<leftarrow> xs. ok_value (g x))"
proof (induction xs arbitrary: a)
  case (Cons x xs)
  show ?case by (cases "g x") (auto simp: Cons.IH is_ok_def add.assoc)
qed auto

lemma res_fold_diff:
  "res_fold (\<lambda>acc x. res_bind (g x) (\<lambda>p. Inr (acc - p))) a xs = Inr r \<longleftrightarrow>
     (\<forall>x \<in> set xs. is_ok (g x)) \<and> r = a - (\<Sum>x \<leftarrow> xs. ok_value (g x))"
proof (induction xs arbitrary: a)
  case (Cons x xs)
  show ?case by (cases "g x") (auto simp: Cons.IH is_ok_def algebra_simps)
qed auto

definition keys_present ::
    "('p::ab_group_add, 's::comm_ring_1) crypto \<Rightarrow> tx_input list \<Rightarrow> tx_output list
       \<Rightarrow> tx_kernel list \<Rightarrow> bool" where
  "keys_present C ins outs ks \<longleftrightarrow>
     (\<forall>i \<in> set ins. is_ok (input_key_point C i)) \<and> (\<forall>o' \<in> set outs. is_ok (ephemeral_point C o'))
     \<and> (\<forall>k \<in> set ks. is_ok (stealth_point C k))"

text \<open>\<open>\<Sigma> Ki - \<Sigma> Ke - \<Sigma> X\<close>, which the offset has to match.\<close>

definition key_total ::
    "('p::ab_group_add, 's::comm_ring_1) crypto \<Rightarrow> tx_input list \<Rightarrow> tx_output list
       \<Rightarrow> tx_kernel list \<Rightarrow> 'p" where
  "key_total C ins outs ks =
     (\<Sum>i \<leftarrow> ins. ok_value (input_key_point C i)) - (\<Sum>o' \<leftarrow> outs. ok_value (ephemeral_point C o'))
     - (\<Sum>k \<leftarrow> ks. ok_value (stealth_point C k))"

lemma key_balance_iff:
  "key_balance C ins outs ks off = Inr () \<longleftrightarrow>
     keys_present C ins outs ks
     \<and> (\<exists>s. decode_offset C off = Inr s \<and> key_total C ins outs ks = pt_mul C s (generator_g C))"
proof -
  have "(a - b = c + d) = (a - b - d = c)" for a b c d :: 'a
    by (metis add_diff_cancel_right' diff_add_cancel)
  then show ?thesis
    by (auto simp: key_balance_def res_simps res_fold_add res_fold_diff keys_present_def
        key_total_def split: if_splits)
qed

text \<open>\<open>\<Sigma> outputs - \<Sigma> inputs + fee\<cdot>G - reward\<cdot>G\<close> against \<open>\<Sigma> excesses + k\<cdot>H\<close>.\<close>

definition value_points ::
    "('p::ab_group_add, 's) crypto \<Rightarrow> tx_input list \<Rightarrow> tx_output list \<Rightarrow> tx_kernel list \<Rightarrow> bool" where
  "value_points C ins outs ks \<longleftrightarrow> all_points C (map in_commit ins)
     \<and> all_points C (map out_commit outs) \<and> all_points C (map excess ks)"

definition value_total ::
    "('p::ab_group_add, 's) crypto \<Rightarrow> tx_input list \<Rightarrow> tx_output list \<Rightarrow> tx_kernel list \<Rightarrow> 'p" where
  "value_total C ins outs ks = points_total C (map out_commit outs)
     - points_total C (map in_commit ins) - points_total C (map excess ks)"

lemma verify_value_balance_iff:
  "verify_value_balance C ctx t = Inr () \<longleftrightarrow>
     (\<forall>o' \<in> set (tx_outputs t). range_verify C (range_proof o') (out_commit o') ctx
        \<and> verify_sender_sig C o')
     \<and> (\<forall>k \<in> set (tx_kernels t). kernel_verify_signature C k)
     \<and> value_points C (tx_inputs t) (tx_outputs t) (tx_kernels t)
     \<and> (\<exists>k. decode_offset C (tx_kernel_offset t) = Inr k
          \<and> value_total C (tx_inputs t) (tx_outputs t) (tx_kernels t)
            = commit_public_value C (total_reward t) - commit_public_value C (total_fee t)
              + pt_mul C k (generator_h C))"
proof -
  have "(a - b + c - d = e + f) = (a - b - e = d - c + f)" for a b c d e f :: 'a
    by (auto simp: algebra_simps)
  then show ?thesis
    by (auto simp: verify_value_balance_def res_simps check_output_proofs_def expected_excess_eq
        commitment_sum_eq offset_point_h_def value_points_def value_total_def split: if_splits)
qed

lemma check_shape_OkD:
  assumes "check_shape C t = Inr ()"
  shows "length (tx_inputs t) \<le> MAX_INPUTS" "length (tx_outputs t) \<le> MAX_OUTPUTS"
    "length (tx_kernels t) \<le> MAX_KERNELS" "tx_kernels t \<noteq> []" "tx_outputs t \<noteq> []"
    "distinct (map in_commit (tx_inputs t))" "distinct (map out_commit (tx_outputs t))"
    "all_points C (map out_commit (tx_outputs t))"
    "\<forall>o' \<in> set (tx_outputs t). output_point C o' \<noteq> None"
    "coinbase_kernel_count (tx_kernels t) \<le> 1"
    "is_coinbase t \<Longrightarrow> tx_inputs t = []"
    "\<forall>k \<in> set (tx_kernels t). kernel_check_shape C k = Inr ()"
proof -
  have cc: "is_coinbase t \<longleftrightarrow> coinbase_kernel_count (tx_kernels t) \<noteq> 0"
    by (auto simp: is_coinbase_def coinbase_kernel_count_def filter_empty_conv)
  show "length (tx_inputs t) \<le> MAX_INPUTS" "length (tx_outputs t) \<le> MAX_OUTPUTS"
    "length (tx_kernels t) \<le> MAX_KERNELS" "tx_kernels t \<noteq> []" "tx_outputs t \<noteq> []"
    "distinct (map in_commit (tx_inputs t))" "distinct (map out_commit (tx_outputs t))"
    "all_points C (map out_commit (tx_outputs t))"
    "\<forall>o' \<in> set (tx_outputs t). output_point C o' \<noteq> None"
    "coinbase_kernel_count (tx_kernels t) \<le> 1"
    "\<forall>k \<in> set (tx_kernels t). kernel_check_shape C k = Inr ()"
    using assms
    by (auto simp: check_shape_def res_simps check_output_points_def all_points_def
        split: if_splits)
  show "is_coinbase t \<Longrightarrow> tx_inputs t = []"
    using assms cc by (auto simp: check_shape_def res_simps split: if_splits)
qed

lemma verify_stateless_rules_OkD:
  assumes "verify_stateless_rules C ctx binding t = Inr ()"
  shows "check_shape C t = Inr ()" "checked_total_fee t \<noteq> None"
    "verify_value_balance C ctx t = Inr ()"
    "\<not> binding \<Longrightarrow> tx_kernel_offset t = None" "binding \<Longrightarrow> has_full_binding t"
    "binding \<or> has_full_binding t \<Longrightarrow>
       key_balance C (tx_inputs t) (tx_outputs t) (tx_kernels t) (tx_stealth_offset t) = Inr ()"
  using assms by (auto simp: verify_stateless_rules_def res_simps split: if_splits)

end
