(* ===== verification/Aggregate.thy ===== *)
theory Aggregate
  imports Tx
begin

text \<open>
  \<open>crates/nightfall-ledger/src/aggregate.rs\<close>: block bodies, the canonical order, the
  aggregation of transactions and the body hash.  \<open>sort_by_key\<close> is stable, as
  \<open>sort_key\<close> is.
\<close>

definition MAX_BLOCK_INPUTS :: nat where [params]: "MAX_BLOCK_INPUTS = 4096"
definition MAX_BLOCK_OUTPUTS :: nat where [params]: "MAX_BLOCK_OUTPUTS = 4096"
definition MAX_BLOCK_KERNELS :: nat where [params]: "MAX_BLOCK_KERNELS = 1024"

record block_body =
  b_inputs :: "tx_input list"
  b_outputs :: "tx_output list"
  b_kernels :: "tx_kernel list"
  b_stealth_offset :: "bytes option"
  b_kernel_offset :: "bytes option"

definition body_default :: block_body where
  "body_default = \<lparr>b_inputs = [], b_outputs = [], b_kernels = [], b_stealth_offset = None,
     b_kernel_offset = None\<rparr>"

definition exceeds_size_limits :: "block_body \<Rightarrow> bool" where
  "exceeds_size_limits b \<longleftrightarrow> MAX_BLOCK_INPUTS < length (b_inputs b)
     \<or> MAX_BLOCK_OUTPUTS < length (b_outputs b) \<or> MAX_BLOCK_KERNELS < length (b_kernels b)"

definition canonicalise :: "('p, 's) crypto \<Rightarrow> block_body \<Rightarrow> block_body" where
  "canonicalise C b =
     b\<lparr>b_inputs := sort_key in_commit (b_inputs b),
       b_outputs := sort_key out_commit (b_outputs b),
       b_kernels := sort_key (kernel_id C) (b_kernels b)\<rparr>"

definition aggregate_step ::
    "('p, 's::comm_ring_1) crypto \<Rightarrow> transaction \<Rightarrow> block_body \<Rightarrow> block_body" where
  "aggregate_step C t b =
     \<lparr>b_inputs = b_inputs b @ tx_inputs t, b_outputs = b_outputs b @ tx_outputs t,
      b_kernels = b_kernels b @ tx_kernels t,
      b_stealth_offset = add_offsets C (b_stealth_offset b) (tx_stealth_offset t),
      b_kernel_offset = add_offsets C (b_kernel_offset b) (tx_kernel_offset t)\<rparr>"

definition aggregate ::
    "('p, 's::comm_ring_1) crypto \<Rightarrow> transaction list \<Rightarrow> block_body" where
  "aggregate C txs = canonicalise C (fold (aggregate_step C) txs body_default)"

definition body_strip_binding :: "block_body \<Rightarrow> block_body" where
  "body_strip_binding b =
     b\<lparr>b_inputs := map input_strip_binding (b_inputs b),
       b_kernels := map kernel_strip_binding (b_kernels b),
       b_stealth_offset := None, b_kernel_offset := None\<rparr>"

definition body_has_any_binding :: "block_body \<Rightarrow> bool" where
  "body_has_any_binding b \<longleftrightarrow>
     b_stealth_offset b \<noteq> None \<or> b_kernel_offset b \<noteq> None
   \<or> (\<exists>i \<in> set (b_inputs b). has_binding i)
   \<or> (\<exists>k \<in> set (b_kernels b). stealth_excess k \<noteq> None \<or> stealth_sig k \<noteq> None)"

definition is_canonical :: "('p, 's) crypto \<Rightarrow> block_body \<Rightarrow> bool" where
  "is_canonical C b \<longleftrightarrow> canonicalise C b = b"

definition body_total_fee :: "block_body \<Rightarrow> u64" where
  "body_total_fee b = wrapping_fees (b_kernels b)"

definition body_total_reward :: "block_body \<Rightarrow> u64" where
  "body_total_reward b = wrapping_rewards (b_kernels b)"

definition body_coinbase_kernels :: "block_body \<Rightarrow> nat" where
  "body_coinbase_kernels b = coinbase_kernel_count (b_kernels b)"

definition coinbase_commit :: "transaction \<Rightarrow> bytes option" where
  "coinbase_commit t = (case tx_outputs t of [] \<Rightarrow> None | o' # _ \<Rightarrow> Some (out_commit o'))"

definition sig_or_zeros :: "schnorr_sig option \<Rightarrow> bytes" where
  "sig_or_zeros s =
     (case s of None \<Rightarrow> replicate 64 0 | Some sg \<Rightarrow> sig_r sg @ sig_s sg)"

definition input_part :: "bool \<Rightarrow> tx_input \<Rightarrow> bytes" where
  "input_part bound i =
     in_commit i @ sig_r (in_sig i) @ sig_s (in_sig i)
     @ (if bound then or_zeros (input_key i) @ sig_or_zeros (key_sig i) else [])"

definition output_part :: "tx_output \<Rightarrow> bytes" where
  "output_part o' = commitment_bytes o' @ sig_r (sender_sig o') @ sig_s (sender_sig o')"

definition kernel_part :: "('p, 's) crypto \<Rightarrow> bool \<Rightarrow> tx_kernel \<Rightarrow> bytes" where
  "kernel_part C bound k =
     signing_message C k @ sig_r (excess_sig k) @ sig_s (excess_sig k)
     @ (if bound then or_zeros (stealth_excess k) @ sig_or_zeros (stealth_sig k) else [])"

definition body_hash :: "('p, 's) crypto \<Rightarrow> block_body \<Rightarrow> bytes" where
  "body_hash C b =
     (let bound = body_has_any_binding b;
          parts = map (input_part bound) (b_inputs b) @ map output_part (b_outputs b)
            @ map (kernel_part C bound) (b_kernels b)
      in if bound then
           hash_multi C DOM_TXBODY_BOUND
             (parts @ [or_zeros (b_stealth_offset b), or_zeros (b_kernel_offset b)])
         else hash_multi C DOM_TXBODY parts)"

definition kernel_excess_sum ::
    "('p::ab_group_add, 's) crypto \<Rightarrow> block_body \<Rightarrow> bytes option" where
  "kernel_excess_sum C b =
     map_option (compress C) (commitment_sum C (map excess (b_kernels b)))"

section \<open>Lemmas: the canonical order\<close>

lemma sort_key_eq_self_iff: "sort_key f xs = xs \<longleftrightarrow> sorted (map f xs)"
  by (metis sorted_sort_key sort_key_id_if_sorted)

lemma is_canonical_iff:
  "is_canonical C b \<longleftrightarrow> sorted (map in_commit (b_inputs b))
     \<and> sorted (map out_commit (b_outputs b)) \<and> sorted (map (kernel_id C) (b_kernels b))"
  by (cases b) (auto simp: is_canonical_def canonicalise_def sort_key_eq_self_iff)

lemma canonicalise_simps [simp]:
  "b_inputs (canonicalise C b) = sort_key in_commit (b_inputs b)"
  "b_outputs (canonicalise C b) = sort_key out_commit (b_outputs b)"
  "b_kernels (canonicalise C b) = sort_key (kernel_id C) (b_kernels b)"
  "b_stealth_offset (canonicalise C b) = b_stealth_offset b"
  "b_kernel_offset (canonicalise C b) = b_kernel_offset b"
  by (simp_all add: canonicalise_def)

lemma canonicalise_canonical: "is_canonical C (canonicalise C b)"
  by (simp add: is_canonical_iff)

lemma body_strip_simps [simp]:
  "b_inputs (body_strip_binding b) = map input_strip_binding (b_inputs b)"
  "b_outputs (body_strip_binding b) = b_outputs b"
  "b_kernels (body_strip_binding b) = map kernel_strip_binding (b_kernels b)"
  "b_stealth_offset (body_strip_binding b) = None"
  "b_kernel_offset (body_strip_binding b) = None"
  "\<not> body_has_any_binding (body_strip_binding b)"
  by (auto simp: body_strip_binding_def body_has_any_binding_def)

lemma body_strip_id: "\<not> body_has_any_binding b \<Longrightarrow> body_strip_binding b = b"
  by (cases b) (auto simp: body_has_any_binding_def body_strip_binding_def map_idI
      input_strip_id kernel_strip_id)

lemma body_strip_idem [simp]: "body_strip_binding (body_strip_binding b) = body_strip_binding b"
  by (simp add: body_strip_id)

section \<open>Lemmas: aggregation\<close>

lemma offset_scalar_simps [simp]:
  "offset_scalar C None = 0"
  "from_canonical_bytes C bs = Some s \<Longrightarrow> offset_scalar C (Some bs) = s"
  by (simp_all add: offset_scalar_def)

lemma offset_scalar_canonical:
  "encoding_ok C \<Longrightarrow> offset_scalar C (Some (scalar_bytes C s)) = s"
  by (simp add: alg)

lemma add_offsets_scalar:
  "encoding_ok C \<Longrightarrow> offset_scalar C (add_offsets C a b) = offset_scalar C a + offset_scalar C b"
  by (simp add: add_offsets_def offset_scalar_canonical)

lemma add_offsets_decodes:
  "encoding_ok C \<Longrightarrow> decode_offset C (add_offsets C a b)
     = Inr (offset_scalar C a + offset_scalar C b)"
  by (auto simp: add_offsets_def decode_offset_def ok_or_def alg)

lemma decode_offset_scalar: "decode_offset C off = Inr s \<Longrightarrow> offset_scalar C off = s"
  by (auto simp: decode_offset_def res_simps split: option.splits)

text \<open>What the fold has collected, part by part.\<close>

lemma aggregate_fold:
  "b_inputs (fold (aggregate_step C) txs b) = b_inputs b @ concat (map tx_inputs txs)"
  "b_outputs (fold (aggregate_step C) txs b) = b_outputs b @ concat (map tx_outputs txs)"
  "b_kernels (fold (aggregate_step C) txs b) = b_kernels b @ concat (map tx_kernels txs)"
  "b_stealth_offset (fold (aggregate_step C) txs b)
     = fold (\<lambda>t off. add_offsets C off (tx_stealth_offset t)) txs (b_stealth_offset b)"
  "b_kernel_offset (fold (aggregate_step C) txs b)
     = fold (\<lambda>t off. add_offsets C off (tx_kernel_offset t)) txs (b_kernel_offset b)"
  by (induction txs arbitrary: b) (simp_all add: aggregate_step_def)

lemma fold_offsets:
  assumes "encoding_ok C"
  shows "fold (\<lambda>t off. add_offsets C off (f t)) ts a =
     (if ts = [] then a
      else if a = None \<and> (\<forall>t \<in> set ts. f t = None) then None
      else Some (scalar_bytes C (offset_scalar C a + (\<Sum>t \<leftarrow> ts. offset_scalar C (f t)))))"
proof (induction ts arbitrary: a)
  case (Cons t ts)
  show ?case
  proof (cases "ts = []")
    case True
    then show ?thesis by (simp add: add_offsets_def)
  next
    case False
    have "add_offsets C a (f t) = None \<longleftrightarrow> a = None \<and> f t = None"
      by (simp add: add_offsets_def)
    with False show ?thesis
      by (simp add: Cons.IH add_offsets_scalar assms add.assoc)
  qed
qed simp

lemma fold_offsets_scalar:
  assumes "encoding_ok C"
  shows "decode_offset C (fold (\<lambda>t off. add_offsets C off (f t)) ts None)
    = Inr (\<Sum>t \<leftarrow> ts. offset_scalar C (f t))"
proof -
  have "\<forall>t \<in> set ts. f t = None \<Longrightarrow> (\<Sum>t \<leftarrow> ts. offset_scalar C (f t)) = 0"
    by (induction ts) auto
  then show ?thesis
    by (auto simp: fold_offsets assms decode_offset_def ok_or_def alg)
qed

lemma fold_offsets_mset:
  assumes "encoding_ok C" "mset ts = mset us"
  shows "fold (\<lambda>t off. add_offsets C off (f t)) ts None
    = fold (\<lambda>t off. add_offsets C off (f t)) us None"
proof -
  have "set ts = set us" using assms(2) by (metis set_mset_mset)
  moreover have "ts = [] \<longleftrightarrow> us = []" using assms(2) by (metis mset_zero_iff)
  ultimately show ?thesis
    using sum_list_mset_cong [OF assms(2), of "\<lambda>t. offset_scalar C (f t)"]
    by (simp add: fold_offsets assms(1))
qed

lemma aggregate_simps:
  "b_inputs (aggregate C txs) = sort_key in_commit (concat (map tx_inputs txs))"
  "b_outputs (aggregate C txs) = sort_key out_commit (concat (map tx_outputs txs))"
  "b_kernels (aggregate C txs) = sort_key (kernel_id C) (concat (map tx_kernels txs))"
  "b_stealth_offset (aggregate C txs)
     = fold (\<lambda>t off. add_offsets C off (tx_stealth_offset t)) txs None"
  "b_kernel_offset (aggregate C txs)
     = fold (\<lambda>t off. add_offsets C off (tx_kernel_offset t)) txs None"
  by (simp_all add: aggregate_def aggregate_fold body_default_def)

lemma sort_key_mset_cong:
  assumes "mset xs = mset ys" "distinct (map f xs)"
  shows "sort_key f xs = sort_key f ys"
proof (rule sort_key_inj_key_eq)
  show "mset xs = mset (sort_key f ys)" using assms(1) by simp
  show "inj_on f (set xs)" using assms(2) by (simp add: distinct_map)
qed simp

lemma mset_concat_map: "mset xs = mset ys \<Longrightarrow> mset (concat (map f xs)) = mset (concat (map f ys))"
  by (metis mset_concat mset_map sum_mset_sum_list)

text \<open>The order in which transactions are handed over leaves no trace in the block.\<close>

lemma aggregate_mset_cong:
  assumes "encoding_ok C" "mset ts = mset us"
    and "distinct (map in_commit (concat (map tx_inputs ts)))"
    and "distinct (map out_commit (concat (map tx_outputs ts)))"
    and "distinct (map (kernel_id C) (concat (map tx_kernels ts)))"
  shows "aggregate C ts = aggregate C us"
proof (rule block_body.equality)
  note m = mset_concat_map [OF assms(2)]
  show "b_inputs (aggregate C ts) = b_inputs (aggregate C us)"
    "b_outputs (aggregate C ts) = b_outputs (aggregate C us)"
    "b_kernels (aggregate C ts) = b_kernels (aggregate C us)"
    using sort_key_mset_cong [OF m assms(3)] sort_key_mset_cong [OF m assms(4)]
      sort_key_mset_cong [OF m assms(5)]
    by (simp_all add: aggregate_simps)
  show "b_stealth_offset (aggregate C ts) = b_stealth_offset (aggregate C us)"
    "b_kernel_offset (aggregate C ts) = b_kernel_offset (aggregate C us)"
    by (simp_all only: aggregate_simps fold_offsets_mset [OF assms(1,2)])
qed simp

section \<open>Lemmas: the balances of an aggregate\<close>

lemma value_total_mset:
  "mset is = mset is' \<Longrightarrow> mset os = mset os' \<Longrightarrow> mset ks = mset ks' \<Longrightarrow>
     value_total C is os ks = value_total C is' os' ks'"
  unfolding value_total_def points_total_def map_map
  using sum_list_mset_cong [of "is" is' "point_or_zero C \<circ> in_commit"]
    sum_list_mset_cong [of os os' "point_or_zero C \<circ> out_commit"]
    sum_list_mset_cong [of ks ks' "point_or_zero C \<circ> excess"]
  by (simp only:)

lemma key_total_mset:
  "mset is = mset is' \<Longrightarrow> mset os = mset os' \<Longrightarrow> mset ks = mset ks' \<Longrightarrow>
     key_total C is os ks = key_total C is' os' ks'"
  unfolding key_total_def
  using sum_list_mset_cong [of "is" is' "\<lambda>i. ok_value (input_key_point C i)"]
    sum_list_mset_cong [of os os' "\<lambda>o'. ok_value (ephemeral_point C o')"]
    sum_list_mset_cong [of ks ks' "\<lambda>k. ok_value (stealth_point C k)"]
  by (simp only:)

lemma value_total_concat:
  "value_total C (concat (map tx_inputs ts)) (concat (map tx_outputs ts))
     (concat (map tx_kernels ts))
   = (\<Sum>t \<leftarrow> ts. value_total C (tx_inputs t) (tx_outputs t) (tx_kernels t))"
proof (induction ts)
  case Nil
  show ?case by (simp add: value_total_def)
next
  case (Cons t ts)
  have "value_total C (a @ a') (b @ b') (c @ c') = value_total C a b c + value_total C a' b' c'"
    for a a' b b' c c' by (simp add: value_total_def algebra_simps)
  with Cons show ?case by simp
qed

lemma key_total_concat:
  "key_total C (concat (map tx_inputs ts)) (concat (map tx_outputs ts))
     (concat (map tx_kernels ts))
   = (\<Sum>t \<leftarrow> ts. key_total C (tx_inputs t) (tx_outputs t) (tx_kernels t))"
proof (induction ts)
  case Nil
  show ?case by (simp add: key_total_def)
next
  case (Cons t ts)
  have "key_total C (a @ a') (b @ b') (c @ c') = key_total C a b c + key_total C a' b' c'"
    for a a' b b' c c' by (simp add: key_total_def algebra_simps)
  with Cons show ?case by simp
qed

lemma pt_mul_sum_list:
  "group_ok C \<Longrightarrow> (\<Sum>t \<leftarrow> ts. pt_mul C (f t) p) = pt_mul C (\<Sum>t \<leftarrow> ts. f t) p"
  by (induction ts) (simp_all add: alg)

lemma aggregate_value_total:
  "value_total C (b_inputs (aggregate C ts)) (b_outputs (aggregate C ts))
     (b_kernels (aggregate C ts))
   = (\<Sum>t \<leftarrow> ts. value_total C (tx_inputs t) (tx_outputs t) (tx_kernels t))"
proof -
  have "value_total C (b_inputs (aggregate C ts)) (b_outputs (aggregate C ts))
      (b_kernels (aggregate C ts))
    = value_total C (concat (map tx_inputs ts)) (concat (map tx_outputs ts))
      (concat (map tx_kernels ts))"
    by (rule value_total_mset) (simp_all add: aggregate_simps)
  then show ?thesis by (simp add: value_total_concat)
qed

lemma aggregate_key_total:
  "key_total C (b_inputs (aggregate C ts)) (b_outputs (aggregate C ts))
     (b_kernels (aggregate C ts))
   = (\<Sum>t \<leftarrow> ts. key_total C (tx_inputs t) (tx_outputs t) (tx_kernels t))"
proof -
  have "key_total C (b_inputs (aggregate C ts)) (b_outputs (aggregate C ts))
      (b_kernels (aggregate C ts))
    = key_total C (concat (map tx_inputs ts)) (concat (map tx_outputs ts))
      (concat (map tx_kernels ts))"
    by (rule key_total_mset) (simp_all add: aggregate_simps)
  then show ?thesis by (simp add: key_total_concat)
qed

text \<open>Transactions whose key balances hold aggregate to a body whose key balance holds.\<close>

lemma aggregate_key_balance:
  assumes C: "group_ok C" "encoding_ok C"
    and tx: "\<And>t. t \<in> set ts \<Longrightarrow>
      key_balance C (tx_inputs t) (tx_outputs t) (tx_kernels t) (tx_stealth_offset t) = Inr ()"
  shows "key_balance C (b_inputs (aggregate C ts)) (b_outputs (aggregate C ts))
    (b_kernels (aggregate C ts)) (b_stealth_offset (aggregate C ts)) = Inr ()"
proof -
  have one: "key_total C (tx_inputs t) (tx_outputs t) (tx_kernels t)
      = pt_mul C (offset_scalar C (tx_stealth_offset t)) (generator_g C)"
    if "t \<in> set ts" for t
    using tx [OF that] by (auto simp: key_balance_iff dest: decode_offset_scalar)
  have "keys_present C (b_inputs (aggregate C ts)) (b_outputs (aggregate C ts))
      (b_kernels (aggregate C ts))"
    using tx by (auto simp: keys_present_def key_balance_iff aggregate_simps)
  moreover have "key_total C (b_inputs (aggregate C ts)) (b_outputs (aggregate C ts))
      (b_kernels (aggregate C ts))
    = pt_mul C (\<Sum>t \<leftarrow> ts. offset_scalar C (tx_stealth_offset t)) (generator_g C)"
    unfolding aggregate_key_total pt_mul_sum_list [OF C(1), symmetric]
    by (rule arg_cong [of _ _ sum_list]) (simp add: one)
  ultimately show ?thesis
    by (simp add: key_balance_iff aggregate_simps fold_offsets_scalar [OF C(2)])
qed

end
