(* ===== verification/Ledger.thy ===== *)
theory Ledger
  imports Utxo Aggregate
begin

text \<open>
  \<open>crates/nightfall-ledger/src/lib.rs\<close>: the ledger state and its transition.  A method on
  \<open>&mut self\<close> returns the state it leaves behind together with its result, so that what a
  rejected block does to the state is part of the model.  \<open>apply_block\<close> is
  \<open>validate_block\<close> (stage 1, pure), \<open>commit_block\<close> (stage 2) and the re-check of the
  supply with its rollback.
\<close>

section \<open>State\<close>

record 'p ledger_state =
  l_height :: u64
  l_utxos :: "'p utxo_set"
  l_kernels :: kernel_accumulator
  l_supply :: supply_state
  l_tx_count :: u64
  l_maturity :: u64
  l_binding_height :: u64

definition genesis_state :: "('p::ab_group_add, 's) crypto \<Rightarrow> 'p ledger_state" where
  "genesis_state C =
     \<lparr>l_height = 0, l_utxos = utxo_new, l_kernels = accumulator_default C,
      l_supply = \<lparr>total_minted_darks = 0, total_burned_darks = 0\<rparr>, l_tx_count = 0,
      l_maturity = COINBASE_MATURITY, l_binding_height = 0\<rparr>"

definition state_for_network ::
    "('p::ab_group_add, 's) crypto \<Rightarrow> network_id \<Rightarrow> 'p ledger_state" where
  "state_for_network C n =
     (genesis_state C)\<lparr>l_maturity := coinbase_maturity_of n,
                       l_binding_height := binding_fork_height n\<rparr>"

definition with_binding_height :: "'p ledger_state \<Rightarrow> u64 \<Rightarrow> 'p ledger_state" where
  "with_binding_height S h = S\<lparr>l_binding_height := h\<rparr>"

definition binding_active :: "'p ledger_state \<Rightarrow> u64 \<Rightarrow> bool" where
  "binding_active S h \<longleftrightarrow> l_binding_height S \<le> h"

definition ledger_utxo_root :: "('p, 's) crypto \<Rightarrow> 'p ledger_state \<Rightarrow> bytes" where
  "ledger_utxo_root C S = utxo_root_of C (l_utxos S)"

definition verify_supply ::
    "('p::ab_group_add, 's::comm_ring_1) crypto \<Rightarrow> 'p ledger_state \<Rightarrow> supply_error + unit" where
  "verify_supply C S = verify_supply_invariant C (l_utxos S) (l_kernels S) (l_supply S)"

record state_undo =
  u_spent :: "(bytes \<times> utxo_entry) list"
  u_created :: "bytes list"
  u_kernels :: kernel_accumulator
  u_supply :: supply_state
  u_tx_count :: u64
  u_height :: u64

text \<open>The constructors \<open>Tx\<close>, \<open>Supply\<close> and \<open>Binding\<close> carry the suffix \<open>Err\<close>.\<close>

datatype ledger_error = EmptyBlock | MissingCoinbase | CoinbaseNotFirst | MultipleCoinbase
  | CoinbaseInMempool | WrongReward u64 u64 | SupplyCapExceeded | UnknownInput string
  | DoubleSpendWithinBlock | DuplicateCommitment string | ImmatureCoinbaseSpend u64 u64
  | KernelLocked u64 | MalformedKernelExcess | NonCanonicalOrder | BlockTooLarge
  | MalformedOutput | BadRangeProof | BadKernel | BadKernelSignature | BadOutputSignature
  | BadInputSignature | UnbalancedBlock | CoinbaseHeightMismatch u64 u64
  | BadCoinbaseOutputCount nat | ArithmeticOverflow | TxErr nat tx_error
  | SupplyErr supply_error | BindingErr tx_error | BadInputKeySignature | BadCoinbaseOpening
  | FeeOutOfRange

section \<open>Undo\<close>

definition capture_undo ::
    "'p ledger_state \<Rightarrow> block_body \<Rightarrow> ledger_error + state_undo" where
  "capture_undo S body =
     res_bind (for_fresh in_commit (\<lambda>_. DoubleSpendWithinBlock)
                 (\<lambda>i. ensure (UnknownInput (hex_encode (in_commit i)))
                        (utxo_contains (l_utxos S) (in_commit i))) [] (b_inputs body))
       (\<lambda>_. Inr \<lparr>u_spent = map (\<lambda>i. (in_commit i, the (utxo_get (l_utxos S) (in_commit i))))
                            (b_inputs body),
                u_created = map out_commit (b_outputs body),
                u_kernels = l_kernels S, u_supply = l_supply S,
                u_tx_count = l_tx_count S, u_height = l_height S\<rparr>)"

definition rewind ::
    "('p::ab_group_add, 's) crypto \<Rightarrow> state_undo \<Rightarrow> 'p ledger_state \<Rightarrow> 'p ledger_state" where
  "rewind C u S =
     S\<lparr>l_utxos := fold (\<lambda>(c, e). utxo_put C c e) (u_spent u)
                   (fold (utxo_del C) (u_created u) (l_utxos S)),
       l_kernels := u_kernels u, l_supply := u_supply u, l_tx_count := u_tx_count u,
       l_height := u_height u\<rparr>"

section \<open>Stage 1: validation\<close>

text \<open>The body as the rules of its height see it.\<close>

definition body_at :: "'p ledger_state \<Rightarrow> u64 \<Rightarrow> block_body \<Rightarrow> block_body" where
  "body_at S height body =
     (if \<not> binding_active S height \<and> body_has_any_binding body then body_strip_binding body
      else body)"

text \<open>The tests up to the kernels; the coinbase kernel is the result.\<close>

definition check_block_structure ::
    "('p, 's) crypto \<Rightarrow> 'p ledger_state \<Rightarrow> bool \<Rightarrow> block_body \<Rightarrow> u64 \<Rightarrow> u64
       \<Rightarrow> ledger_error + tx_kernel" where
  "check_block_structure C S binding body height reward =
     (if b_outputs body = [] then Inl EmptyBlock
      else if b_kernels body = [] then Inl MissingCoinbase
      else if \<not> is_canonical C body then Inl NonCanonicalOrder
      else if exceeds_size_limits body then Inl BlockTooLarge
      else if body_coinbase_kernels body \<noteq> 1 then Inl MissingCoinbase
      else
        (case List.find (\<lambda>k. feature k = CoinbaseKernel) (b_kernels body) of
           None \<Rightarrow> Inl MissingCoinbase
         | Some coinbase \<Rightarrow>
             (let due = if 0 < reward then reward else body_total_fee body in
              if reward_darks coinbase \<noteq> due then Inl (WrongReward (reward_darks coinbase) due)
              else if lock_height coinbase \<noteq> height
                then Inl (CoinbaseHeightMismatch (lock_height coinbase) height)
              else if would_exceed_cap (l_supply S) reward then Inl SupplyCapExceeded
              else if binding \<and> checked_fee_sum (b_kernels body) = None then Inl FeeOutOfRange
              else Inr coinbase)))"

definition check_block_kernel ::
    "('p::ab_group_add, 's::comm_ring_1) crypto \<Rightarrow> u64 \<Rightarrow> tx_kernel \<Rightarrow> ledger_error + unit" where
  "check_block_kernel C height k =
     (case kernel_check_shape C k of
        Inl _ \<Rightarrow> Inl BadKernel
      | Inr _ \<Rightarrow>
          if \<not> kernel_verify_signature C k then Inl BadKernelSignature
          else if feature k = PlainKernel \<and> height < lock_height k
            then Inl (KernelLocked (lock_height k))
          else Inr ())"

fun check_block_outputs ::
    "('p::ab_group_add, 's::comm_ring_1) crypto \<Rightarrow> 'p utxo_set \<Rightarrow> bytes \<Rightarrow> bytes list
       \<Rightarrow> tx_output list \<Rightarrow> ledger_error + unit" where
  "check_block_outputs C us ctx created [] = Inr ()"
| "check_block_outputs C us ctx created (o' # os) =
     (if commit_point C (out_commit o') = None \<or> output_point C o' = None then Inl MalformedOutput
      else if \<not> range_verify C (range_proof o') (out_commit o') ctx then Inl BadRangeProof
      else if \<not> verify_sender_sig C o' then Inl BadOutputSignature
      else if out_commit o' \<in> set created
        then Inl (DuplicateCommitment (hex_encode (out_commit o')))
      else if utxo_contains us (out_commit o')
        then Inl (DuplicateCommitment (hex_encode (out_commit o')))
      else check_block_outputs C us ctx (out_commit o' # created) os)"

text \<open>One input against the set: exists, mature, signed.  Shared with the mempool check.\<close>

definition check_spend ::
    "('p::ab_group_add, 's::comm_ring_1) crypto \<Rightarrow> 'p ledger_state \<Rightarrow> u64 \<Rightarrow> bool \<Rightarrow> tx_input
       \<Rightarrow> ledger_error + unit" where
  "check_spend C S height keys i =
     (case utxo_get (l_utxos S) (in_commit i) of
        None \<Rightarrow> Inl (UnknownInput (hex_encode (in_commit i)))
      | Some e \<Rightarrow>
          if \<not> is_mature e height (l_maturity S)
            then Inl (ImmatureCoinbaseSpend (e_height e) height)
          else if \<not> verify_input_signature C i (e_output_pk e) then Inl BadInputSignature
          else if keys \<and> \<not> verify_input_key C i (e_output_pk e) then Inl BadInputKeySignature
          else Inr ())"

text \<open>The balance equation of the whole body; the offset point is the result.\<close>

definition check_block_balance ::
    "('p::ab_group_add, 's::comm_ring_1) crypto \<Rightarrow> block_body \<Rightarrow> ledger_error + 'p" where
  "check_block_balance C body =
     res_bind (ok_or MalformedOutput
       (expected_excess C (map in_commit (b_inputs body)) (map out_commit (b_outputs body))
          (body_total_fee body) (body_total_reward body))) (\<lambda>expected.
     res_bind (ok_or MalformedKernelExcess (kernel_excess_sum C body)) (\<lambda>sum_bytes.
     res_bind (map_err BindingErr (offset_point_h C (b_kernel_offset body))) (\<lambda>off.
     res_bind (ok_or MalformedKernelExcess (commit_point C sum_bytes)) (\<lambda>p.
     if expected \<noteq> p + off then Inl UnbalancedBlock else Inr off))))"

definition check_coinbase_output ::
    "('p::ab_group_add, 's::comm_ring_1) crypto \<Rightarrow> bool \<Rightarrow> block_body \<Rightarrow> tx_kernel
       \<Rightarrow> ledger_error + unit" where
  "check_coinbase_output C binding body coinbase =
     (let n = length (filter (\<lambda>o'. is_coinbase_feature (features o')) (b_outputs body)) in
      if n \<noteq> 1 then Inl (BadCoinbaseOutputCount n)
      else if binding then
        (case Option.bind
                (List.find (\<lambda>o'. is_coinbase_feature (features o')) (b_outputs body))
                (\<lambda>o'. commit_point C (out_commit o')) of
           None \<Rightarrow> Inl MalformedOutput
         | Some flagged \<Rightarrow>
             if Some (flagged - commit_public_value C (reward_darks coinbase))
                  \<noteq> commit_point C (excess coinbase)
             then Inl BadCoinbaseOpening else Inr ())
      else Inr ())"

text \<open>The accumulator and the counters after a block, shared with the replay path.\<close>

definition add_kernels ::
    "('p::ab_group_add, 's) crypto \<Rightarrow> tx_kernel list \<Rightarrow> kernel_accumulator
       \<Rightarrow> ledger_error + kernel_accumulator" where
  "add_kernels C ks acc =
     res_fold (\<lambda>a k. ok_or MalformedKernelExcess (acc_add C a (excess k))) acc ks"

definition next_supply :: "supply_state \<Rightarrow> u64 \<Rightarrow> u64 \<Rightarrow> ledger_error + supply_state" where
  "next_supply s reward fees =
     (if 0 < reward then
        (case checked_add (total_minted_darks s) reward of
           None \<Rightarrow> Inl ArithmeticOverflow
         | Some m \<Rightarrow>
             (case checked_add (total_burned_darks s) fees of
                None \<Rightarrow> Inl ArithmeticOverflow
              | Some b \<Rightarrow> Inr \<lparr>total_minted_darks = m, total_burned_darks = b\<rparr>))
      else Inr s)"

text \<open>A \<open>BTreeSet\<close> of the spent commitments, in the order it iterates.\<close>

definition spent_set :: "block_body \<Rightarrow> bytes list" where
  "spent_set body = sort (remdups (map in_commit (b_inputs body)))"

definition validate_block ::
    "('p::ab_group_add, 's::comm_ring_1) crypto \<Rightarrow> 'p ledger_state \<Rightarrow> block_body \<Rightarrow> u64 \<Rightarrow> u64
       \<Rightarrow> bytes \<Rightarrow> ledger_error + kernel_accumulator \<times> supply_state \<times> state_undo" where
  "validate_block C S body height reward ctx =
     (let binding = binding_active S height in
      res_bind (check_block_structure C S binding body height reward) (\<lambda>coinbase.
      res_bind (for_each (check_block_kernel C height) (b_kernels body)) (\<lambda>_.
      res_bind (check_block_outputs C (l_utxos S) ctx [] (b_outputs body)) (\<lambda>_.
      res_bind (for_fresh in_commit (\<lambda>_. DoubleSpendWithinBlock)
                  (check_spend C S height binding) [] (b_inputs body)) (\<lambda>_.
      res_bind (if binding then
                  map_err BindingErr (key_balance C (b_inputs body) (b_outputs body)
                    (b_kernels body) (b_stealth_offset body))
                else Inr ()) (\<lambda>_.
      res_bind (check_block_balance C body) (\<lambda>off.
      res_bind (check_coinbase_output C binding body coinbase) (\<lambda>_.
      res_bind (add_kernels C (b_kernels body) (l_kernels S)) (\<lambda>ks.
      res_bind (ok_or MalformedKernelExcess (add_offset C ks off)) (\<lambda>new_kernels.
      res_bind (next_supply (l_supply S) reward (body_total_fee body)) (\<lambda>new_supply.
      res_bind (ok_or (SupplyErr MalformedUtxo)
                  (sum_after C (l_utxos S) (spent_set body) (map out_commit (b_outputs body))))
        (\<lambda>projected.
      res_bind (map_err SupplyErr (supply_equation_holds C projected new_kernels new_supply))
        (\<lambda>_.
      res_bind (capture_undo S body) (\<lambda>undo.
        Inr (new_kernels, new_supply, undo)))))))))))))))"

section \<open>Stage 2: commit\<close>

definition utxo_entry_of :: "u64 \<Rightarrow> tx_output \<Rightarrow> utxo_entry" where
  "utxo_entry_of height o' =
     \<lparr>e_output_pk = output_pk o', e_height = height,
      e_is_coinbase = is_coinbase_feature (features o')\<rparr>"

definition commit_block ::
    "('p::ab_group_add, 's) crypto \<Rightarrow> block_body \<Rightarrow> u64 \<Rightarrow> kernel_accumulator \<Rightarrow> supply_state
       \<Rightarrow> 'p ledger_state \<Rightarrow> 'p ledger_state" where
  "commit_block C body height new_kernels new_supply S =
     S\<lparr>l_utxos := fold (\<lambda>o'. utxo_put C (out_commit o') (utxo_entry_of height o'))
                   (b_outputs body) (fold (utxo_del C) (spent_set body) (l_utxos S)),
       l_kernels := new_kernels, l_supply := new_supply,
       l_tx_count := l_tx_count S + of_nat (length (b_kernels body)),
       l_height := height\<rparr>"

definition apply_block ::
    "('p::ab_group_add, 's::comm_ring_1) crypto \<Rightarrow> 'p ledger_state \<Rightarrow> block_body \<Rightarrow> u64 \<Rightarrow> u64
       \<Rightarrow> bytes \<Rightarrow> 'p ledger_state \<times> (ledger_error + unit)" where
  "apply_block C S body height reward ctx =
     (let body' = body_at S height body in
      case validate_block C S body' height reward ctx of
        Inl e \<Rightarrow> (S, Inl e)
      | Inr (new_kernels, new_supply, undo) \<Rightarrow>
          (let S' = commit_block C body' height new_kernels new_supply S in
           case verify_supply C S' of
             Inl e \<Rightarrow> (rewind C undo S', Inl (SupplyErr e))
           | Inr _ \<Rightarrow> (S', Inr ())))"

section \<open>Replay of the node's own blocks\<close>

definition apply_block_state_only ::
    "('p::ab_group_add, 's::comm_ring_1) crypto \<Rightarrow> 'p ledger_state \<Rightarrow> block_body \<Rightarrow> u64 \<Rightarrow> u64
       \<Rightarrow> 'p ledger_state \<times> (ledger_error + unit)" where
  "apply_block_state_only C S body height reward =
     (case
        (if b_outputs body = [] \<or> b_kernels body = [] then Inl EmptyBlock
         else if body_coinbase_kernels body \<noteq> 1 then Inl MissingCoinbase
         else if would_exceed_cap (l_supply S) reward then Inl SupplyCapExceeded
         else
           res_bind (for_fresh in_commit (\<lambda>_. DoubleSpendWithinBlock)
                       (\<lambda>i. ensure (UnknownInput (hex_encode (in_commit i)))
                              (utxo_contains (l_utxos S) (in_commit i))) [] (b_inputs body)) (\<lambda>_.
           res_bind (add_kernels C (b_kernels body) (l_kernels S)) (\<lambda>ks.
           res_bind (if binding_active S height then
                       res_bind (map_err BindingErr (offset_point_h C (b_kernel_offset body)))
                         (\<lambda>off. ok_or MalformedKernelExcess (add_offset C ks off))
                     else Inr ks) (\<lambda>new_kernels.
           res_bind (next_supply (l_supply S) reward (body_total_fee body)) (\<lambda>new_supply.
             Inr (new_kernels, new_supply)))))) of
        Inl e \<Rightarrow> (S, Inl e)
      | Inr (new_kernels, new_supply) \<Rightarrow>
          (commit_block C body height new_kernels new_supply S, Inr ()))"

section \<open>Admission to the mempool\<close>

definition check_tx_acceptable ::
    "('p::ab_group_add, 's::comm_ring_1) crypto \<Rightarrow> 'p ledger_state \<Rightarrow> transaction \<Rightarrow> u64 \<Rightarrow> bytes
       \<Rightarrow> ledger_error + unit" where
  "check_tx_acceptable C S t next_height ctx =
     (if is_coinbase t then Inl CoinbaseInMempool
      else
        (let binding = binding_active S next_height in
         res_bind (map_err (TxErr 0) (verify_stateless_rules C ctx binding t)) (\<lambda>_.
         res_bind (for_fresh in_commit (\<lambda>_. DoubleSpendWithinBlock)
                     (check_spend C S next_height (binding \<or> has_full_binding t)) []
                     (tx_inputs t)) (\<lambda>_.
         res_bind (for_each (\<lambda>o'. ensure (DuplicateCommitment (hex_encode (out_commit o')))
                               (\<not> utxo_contains (l_utxos S) (out_commit o'))) (tx_outputs t)) (\<lambda>_.
         for_each (\<lambda>k. ensure CoinbaseInMempool (feature k \<noteq> CoinbaseKernel))
           (tx_kernels t))))))"

end
