(* ===== verification/Pow.thy ===== *)
theory Pow
  imports Crypto
begin

text \<open>
  \<open>crates/nightfall-crypto/src/pow.rs\<close>: the Nighthash-v2 proof of work, the 320-bit
  difficulty comparison on 64-bit limbs, and the miners.  A miner's loop may run forever, so
  \<open>mine_loop\<close> is a partial function whose value \<open>None\<close> means that it never returns;
  the \<open>n\<close>-th answer of the \<open>should_stop\<close> callback is \<open>stop n\<close>.  The parallel
  miner is a step relation over the workers' program counters, the shared \<open>found\<close> flag
  and the result slot, so that every interleaving is covered.
\<close>

section \<open>The hash\<close>

definition salt_for :: "('p, 's) crypto \<Rightarrow> bytes \<Rightarrow> bytes" where
  "salt_for C pre = take 16 (hash_multi C (str_bytes ''nightfall:nighthash:salt:v2'') [pre])"

definition nighthash :: "('p, 's) crypto \<Rightarrow> bytes \<Rightarrow> u64 \<Rightarrow> pow_params \<Rightarrow> bytes" where
  "nighthash C pre nonce ps = argon2id C ps (pre @ u64_le nonce) (salt_for C pre)"

section \<open>Difficulty\<close>

text \<open>Big-endian bytes to little-endian 64-bit limbs.\<close>

definition hash_limbs :: "bytes \<Rightarrow> u64 list" where
  "hash_limbs h = map (\<lambda>i. of_nat (be_nat (take 8 (drop (32 - i * 8 - 8) h)))) [0..<4]"

fun limb_carry :: "u64 \<Rightarrow> u128 \<Rightarrow> u64 list \<Rightarrow> u128" where
  "limb_carry d carry [] = carry"
| "limb_carry d carry (limb # limbs) =
     limb_carry d (drop_bit 64 (ucast limb * ucast d + carry)) limbs"

definition meets_difficulty :: "bytes \<Rightarrow> u64 \<Rightarrow> bool" where
  "meets_difficulty h d \<longleftrightarrow> d = 0 \<or> limb_carry d 0 (hash_limbs h) = 0"

definition block_work :: "u64 \<Rightarrow> u128" where
  "block_work d = ucast (max d 1)"

subsection \<open>The limb loop computes a 256-bit product\<close>

fun limbs_nat :: "u64 list \<Rightarrow> nat" where
  "limbs_nat [] = 0"
| "limbs_nat (l # ls) = unat l + 2 ^ 64 * limbs_nat ls"

lemma unat_ucast_128: "unat (ucast (x :: u64) :: u128) = unat x"
proof -
  have "unat x < 2 ^ 128"
    using unsigned_less [of x, where ?'a = nat] by simp
  then show ?thesis
    by (simp add: unsigned_ucast_eq take_bit_nat_eq_self)
qed

lemma unat_block_work: "unat (block_work d) = max (unat d) 1"
  by (simp add: block_work_def unat_ucast_128 max_def word_le_nat_alt)

lemma limb_step:
  fixes l d :: u64 and c :: u128
  assumes "unat c < 2 ^ 64"
  shows "unat (drop_bit 64 (ucast l * ucast d + c)) = (unat l * unat d + unat c) div 2 ^ 64"
    and "unat (drop_bit 64 (ucast l * ucast d + c)) < 2 ^ 64"
proof -
  have l: "unat l \<le> 2 ^ 64 - 1" and d: "unat d \<le> 2 ^ 64 - 1"
    using unsigned_less [of l, where ?'a = nat] unsigned_less [of d, where ?'a = nat] by simp_all
  have "unat l * unat d \<le> (2 ^ 64 - 1) * (2 ^ 64 - 1)"
    using mult_le_mono [OF l d] .
  then have b: "unat l * unat d + unat c < 2 ^ 128"
    using assms by simp
  then have m: "unat l * unat d < 2 ^ 128" by simp
  have "unat (ucast l * ucast d :: u128) = unat l * unat d"
    using m by (simp add: unat_word_ariths unat_ucast_128)
  then have s: "unat (ucast l * ucast d + c) = unat l * unat d + unat c"
    using b by (simp add: unat_word_ariths)
  show *: "unat (drop_bit 64 (ucast l * ucast d + c)) = (unat l * unat d + unat c) div 2 ^ 64"
    using s by (simp add: drop_bit_eq_div unat_div)
  show "unat (drop_bit 64 (ucast l * ucast d + c)) < 2 ^ 64"
    unfolding * using b by (simp add: less_mult_imp_div_less)
qed

lemma limb_carry_value:
  "unat c < 2 ^ 64 \<Longrightarrow>
    unat (limb_carry d c ls) = (limbs_nat ls * unat d + unat c) div 2 ^ (64 * length ls)"
proof (induction ls arbitrary: c)
  case (Cons l ls)
  let ?p = "unat l * unat d + unat c" and ?B = "2 ^ 64 :: nat"
  have "unat (limb_carry d c (l # ls))
      = (limbs_nat ls * unat d + ?p div ?B) div 2 ^ (64 * length ls)"
    using Cons.IH [OF limb_step(2) [OF Cons.prems]] limb_step(1) [OF Cons.prems] by simp
  also have "limbs_nat ls * unat d + ?p div ?B = (limbs_nat ls * unat d * ?B + ?p) div ?B"
    by simp
  also have "\<dots> div 2 ^ (64 * length ls)
      = (limbs_nat ls * unat d * ?B + ?p) div 2 ^ (64 * length (l # ls))"
    by (simp add: div_mult2_eq power_add)
  also have "limbs_nat ls * unat d * ?B + ?p = limbs_nat (l # ls) * unat d + unat c"
    by (simp add: algebra_simps)
  finally show ?case .
qed simp

lemma be_nat_append: "be_nat (xs @ ys) = be_nat xs * 256 ^ length ys + be_nat ys"
  by (simp add: be_nat_def le_nat_append)

lemma be_nat_bound: "be_nat bs < 256 ^ length bs"
  by (metis be_nat_def le_nat_bound length_rev)

lemma unat_of_be: "length bs = 8 \<Longrightarrow> unat (of_nat (be_nat bs) :: u64) = be_nat bs"
  using be_nat_bound [of bs] by (simp add: unat_of_nat)

lemma split_32:
  assumes "length h = 32"
  shows "h = take 8 h @ take 8 (drop 8 h) @ take 8 (drop 16 h) @ take 8 (drop 24 h)"
proof -
  have "take 8 (drop 24 h) = drop 24 h"
    using assms by simp
  moreover have "take 8 (drop 16 h) @ drop 24 h = drop 16 h"
    using append_take_drop_id [of 8 "drop 16 h"] by simp
  moreover have "take 8 (drop 8 h) @ drop 16 h = drop 8 h"
    using append_take_drop_id [of 8 "drop 8 h"] by simp
  ultimately show ?thesis by simp
qed

lemma hash_limbs_value:
  assumes "length h = 32"
  shows "limbs_nat (hash_limbs h) = be_nat h" and "length (hash_limbs h) = 4"
proof -
  let ?a = "take 8 h" and ?b = "take 8 (drop 8 h)"
    and ?c = "take 8 (drop 16 h)" and ?d = "take 8 (drop 24 h)"
  have len: "length ?a = 8" "length ?b = 8" "length ?c = 8" "length ?d = 8"
    using assms by simp_all
  have "hash_limbs h = map (\<lambda>bs. of_nat (be_nat bs)) [?d, ?c, ?b, ?a]"
    by (simp add: hash_limbs_def upt_rec)
  then have "limbs_nat (hash_limbs h)
      = be_nat ?d + 2 ^ 64 * (be_nat ?c + 2 ^ 64 * (be_nat ?b + 2 ^ 64 * be_nat ?a))"
    using assms by (simp add: unat_of_be)
  also have "\<dots> = be_nat (?a @ ?b @ ?c @ ?d)"
    unfolding be_nat_append using len by (simp add: algebra_simps)
  finally show "limbs_nat (hash_limbs h) = be_nat h"
    using split_32 [OF assms] by simp
  show "length (hash_limbs h) = 4"
    by (simp add: hash_limbs_def)
qed

lemma meets_difficulty_iff:
  assumes "length h = 32"
  shows "meets_difficulty h d \<longleftrightarrow> be_nat h * unat d < 2 ^ 256"
proof -
  have "unat (limb_carry d 0 (hash_limbs h)) = (be_nat h * unat d) div 2 ^ 256"
    using limb_carry_value [of 0 d "hash_limbs h"] hash_limbs_value [OF assms] by simp
  then have "limb_carry d 0 (hash_limbs h) = 0 \<longleftrightarrow> be_nat h * unat d < 2 ^ 256"
    by (simp add: word_unat_eq_iff div_eq_0_iff)
  then show ?thesis
    by (auto simp: meets_difficulty_def)
qed

section \<open>The sequential miner\<close>

definition CHECK_INTERVAL :: u32 where [params]: "CHECK_INTERVAL = 8"

text \<open>
  The value is the answer and the number of hashes computed; \<open>since\<close> counts hashes since
  the last poll and \<open>polls\<close> the polls made so far.
\<close>

partial_function (option) mine_loop ::
    "(u64 \<Rightarrow> bytes) \<Rightarrow> u64 \<Rightarrow> (nat \<Rightarrow> bool) \<Rightarrow> u64 \<Rightarrow> u32 \<Rightarrow> nat \<Rightarrow> nat
       \<Rightarrow> ((u64 \<times> bytes) option \<times> nat) option" where
  "mine_loop hash d stop nonce since polls tries =
     (let h = hash nonce in
      if meets_difficulty h d then Some (Some (nonce, h), Suc tries)
      else if CHECK_INTERVAL \<le> since + 1 then
        (if stop polls then Some (None, Suc tries)
         else mine_loop hash d stop (nonce + 1) 0 (Suc polls) (Suc tries))
      else mine_loop hash d stop (nonce + 1) (since + 1) polls (Suc tries))"

definition mine_counted ::
    "('p, 's) crypto \<Rightarrow> bytes \<Rightarrow> u64 \<Rightarrow> u64 \<Rightarrow> pow_params \<Rightarrow> (nat \<Rightarrow> bool)
       \<Rightarrow> ((u64 \<times> bytes) option \<times> nat) option" where
  "mine_counted C pre d start ps stop =
     mine_loop (\<lambda>n. nighthash C pre n ps) d stop start 0 0 0"

definition mine_interruptible ::
    "('p, 's) crypto \<Rightarrow> bytes \<Rightarrow> u64 \<Rightarrow> u64 \<Rightarrow> pow_params \<Rightarrow> (nat \<Rightarrow> bool)
       \<Rightarrow> (u64 \<times> bytes) option option" where
  "mine_interruptible C pre d start ps stop =
     map_option fst (mine_counted C pre d start ps stop)"

text \<open>The state of the loop before attempt \<open>i\<close>.\<close>

definition mine_at ::
    "(u64 \<Rightarrow> bytes) \<Rightarrow> u64 \<Rightarrow> (nat \<Rightarrow> bool) \<Rightarrow> u64 \<Rightarrow> nat
       \<Rightarrow> ((u64 \<times> bytes) option \<times> nat) option" where
  "mine_at hash d stop start i =
     mine_loop hash d stop (start + of_nat i) (of_nat (i mod 8)) (i div 8) i"

lemma since_mod:
  fixes i :: nat
  shows "CHECK_INTERVAL \<le> (of_nat (i mod 8) :: u32) + 1 \<longleftrightarrow> i mod 8 = 7"
proof -
  have "i mod 8 \<in> {0, 1, 2, 3, 4, 5, 6, 7}" by auto
  then show ?thesis
    by (auto simp: params word_le_nat_alt)
qed

lemma mine_at_step:
  "mine_at hash d stop start i =
     (let h = hash (start + of_nat i) in
      if meets_difficulty h d then Some (Some (start + of_nat i, h), Suc i)
      else if i mod 8 = 7 \<and> stop (i div 8) then Some (None, Suc i)
      else mine_at hash d stop start (Suc i))"
proof -
  have "Suc i mod 8 = (if i mod 8 = 7 then 0 else Suc (i mod 8))"
    and "Suc i div 8 = (if i mod 8 = 7 then Suc (i div 8) else i div 8)"
    by (auto simp: mod_Suc div_Suc)
  then show ?thesis
    unfolding mine_at_def
    by (subst mine_loop.simps) (simp add: Let_def since_mod add.assoc add.commute [of 1])
qed

text \<open>Attempts before \<open>k\<close> neither hit the target nor met a stop.\<close>

definition quiet_until :: "(u64 \<Rightarrow> bytes) \<Rightarrow> u64 \<Rightarrow> (nat \<Rightarrow> bool) \<Rightarrow> u64 \<Rightarrow> nat \<Rightarrow> bool" where
  "quiet_until hash d stop start k \<longleftrightarrow>
     (\<forall>j < k. \<not> meets_difficulty (hash (start + of_nat j)) d
        \<and> \<not> (j mod 8 = 7 \<and> stop (j div 8)))"

lemma mine_at_quiet:
  "quiet_until hash d stop start k \<Longrightarrow> mine_at hash d stop start 0 = mine_at hash d stop start k"
proof (induction k)
  case (Suc k)
  then have "mine_at hash d stop start 0 = mine_at hash d stop start k"
    by (simp add: quiet_until_def)
  also have "\<dots> = mine_at hash d stop start (Suc k)"
    using Suc.prems by (subst mine_at_step) (auto simp: quiet_until_def Let_def)
  finally show ?case .
qed simp

lemma mine_counted_at:
  "mine_counted C pre d start ps stop = mine_at (\<lambda>n. nighthash C pre n ps) d stop start 0"
  by (simp add: mine_counted_def mine_at_def)

lemma mine_counted_hit:
  assumes "quiet_until (\<lambda>n. nighthash C pre n ps) d stop start k"
    and "meets_difficulty (nighthash C pre (start + of_nat k) ps) d"
  shows "mine_counted C pre d start ps stop =
    Some (Some (start + of_nat k, nighthash C pre (start + of_nat k) ps), Suc k)"
  using mine_at_quiet [OF assms(1)] assms(2)
  by (simp add: mine_counted_at mine_at_step [of _ d stop start k] Let_def)

lemma mine_counted_stopped:
  assumes "quiet_until (\<lambda>n. nighthash C pre n ps) d stop start k"
    and "\<not> meets_difficulty (nighthash C pre (start + of_nat k) ps) d"
    and "k mod 8 = 7" "stop (k div 8)"
  shows "mine_counted C pre d start ps stop = Some (None, Suc k)"
  using mine_at_quiet [OF assms(1)] assms(2-4)
  by (simp add: mine_counted_at mine_at_step [of _ d stop start k] Let_def)

text \<open>Whatever the loop returns is a hit.\<close>

lemma mine_loop_sound:
  assumes "mine_loop hash d stop nonce since polls tries = Some r"
  shows "\<forall>n h. fst r = Some (n, h) \<longrightarrow> h = hash n \<and> meets_difficulty h d"
proof (rule mine_loop.raw_induct
    [where P = "\<lambda>hash d stop nonce since polls tries r.
       \<forall>n h. fst r = Some (n, h) \<longrightarrow> h = hash n \<and> meets_difficulty h d", OF _ assms])
  fix rec :: "(u64 \<Rightarrow> bytes) \<Rightarrow> u64 \<Rightarrow> (nat \<Rightarrow> bool) \<Rightarrow> u64 \<Rightarrow> u32 \<Rightarrow> nat \<Rightarrow> nat
       \<Rightarrow> ((u64 \<times> bytes) option \<times> nat) option"
    and hash d stop nonce since polls tries r
  assume ih: "\<And>hash d stop nonce since polls tries r.
      rec hash d stop nonce since polls tries = Some r \<Longrightarrow>
      \<forall>n h. fst r = Some (n, h) \<longrightarrow> h = hash n \<and> meets_difficulty h d"
    and eq: "(let h = hash nonce in
      if meets_difficulty h d then Some (Some (nonce, h), Suc tries)
      else if CHECK_INTERVAL \<le> since + 1 then
        (if stop polls then Some (None, Suc tries)
         else rec hash d stop (nonce + 1) 0 (Suc polls) (Suc tries))
      else rec hash d stop (nonce + 1) (since + 1) polls (Suc tries)) = Some r"
  from eq show "\<forall>n h. fst r = Some (n, h) \<longrightarrow> h = hash n \<and> meets_difficulty h d"
    by (auto simp: Let_def split: if_splits dest: ih)
qed

section \<open>The parallel miner\<close>

text \<open>
  A worker hashes, or has won the \<open>swap\<close> on the shared flag and is about to write the
  result slot, or has returned.  The swap and the write are separate steps, as in the code.
\<close>

datatype worker_pc = Hashing | Won u64 bytes | Returned

record worker =
  w_nonce :: u64
  w_since :: u32
  w_pc :: worker_pc

record par_state =
  p_workers :: "worker list"
  p_found :: bool
  p_slot :: "(u64 \<times> bytes) option"

definition par_init :: "u64 \<Rightarrow> nat \<Rightarrow> par_state" where
  "par_init start threads =
     \<lparr>p_workers = map (\<lambda>i. \<lparr>w_nonce = start + of_nat i, w_since = 0, w_pc = Hashing\<rparr>) [0..<threads],
      p_found = False, p_slot = None\<rparr>"

definition set_worker :: "nat \<Rightarrow> worker \<Rightarrow> par_state \<Rightarrow> par_state" where
  "set_worker i w s = s\<lparr>p_workers := (p_workers s)[i := w]\<rparr>"

text \<open>
  \<open>may_stop\<close> says whether the \<open>should_stop\<close> callback may answer true when it is
  polled; the flag is read in the same condition.
\<close>

inductive par_step ::
    "(u64 \<Rightarrow> bytes) \<Rightarrow> u64 \<Rightarrow> nat \<Rightarrow> bool \<Rightarrow> par_state \<Rightarrow> par_state \<Rightarrow> bool"
  for hash :: "u64 \<Rightarrow> bytes" and d :: u64 and threads :: nat and may_stop :: bool where
  par_miss: "\<lbrakk>i < length (p_workers s); w = p_workers s ! i; w_pc w = Hashing;
      \<not> meets_difficulty (hash (w_nonce w)) d; \<not> CHECK_INTERVAL \<le> w_since w + 1\<rbrakk> \<Longrightarrow>
    par_step hash d threads may_stop s
      (set_worker i (w\<lparr>w_nonce := w_nonce w + of_nat threads, w_since := w_since w + 1\<rparr>) s)"
| par_poll: "\<lbrakk>i < length (p_workers s); w = p_workers s ! i; w_pc w = Hashing;
      \<not> meets_difficulty (hash (w_nonce w)) d; CHECK_INTERVAL \<le> w_since w + 1; \<not> p_found s\<rbrakk> \<Longrightarrow>
    par_step hash d threads may_stop s
      (set_worker i (w\<lparr>w_nonce := w_nonce w + of_nat threads, w_since := 0\<rparr>) s)"
| par_quit: "\<lbrakk>i < length (p_workers s); w = p_workers s ! i; w_pc w = Hashing;
      \<not> meets_difficulty (hash (w_nonce w)) d; CHECK_INTERVAL \<le> w_since w + 1;
      p_found s \<or> may_stop\<rbrakk> \<Longrightarrow>
    par_step hash d threads may_stop s
      (set_worker i
        (w\<lparr>w_nonce := w_nonce w + of_nat threads, w_since := 0, w_pc := Returned\<rparr>) s)"
| par_win: "\<lbrakk>i < length (p_workers s); w = p_workers s ! i; w_pc w = Hashing;
      meets_difficulty (hash (w_nonce w)) d; \<not> p_found s\<rbrakk> \<Longrightarrow>
    par_step hash d threads may_stop s
      (set_worker i (w\<lparr>w_pc := Won (w_nonce w) (hash (w_nonce w))\<rparr>) (s\<lparr>p_found := True\<rparr>))"
| par_late: "\<lbrakk>i < length (p_workers s); w = p_workers s ! i; w_pc w = Hashing;
      meets_difficulty (hash (w_nonce w)) d; p_found s\<rbrakk> \<Longrightarrow>
    par_step hash d threads may_stop s (set_worker i (w\<lparr>w_pc := Returned\<rparr>) s)"
| par_record: "\<lbrakk>i < length (p_workers s); w = p_workers s ! i; w_pc w = Won n h\<rbrakk> \<Longrightarrow>
    par_step hash d threads may_stop s
      (set_worker i (w\<lparr>w_pc := Returned\<rparr>) (s\<lparr>p_slot := Some (n, h)\<rparr>))"

definition par_reach ::
    "(u64 \<Rightarrow> bytes) \<Rightarrow> u64 \<Rightarrow> nat \<Rightarrow> bool \<Rightarrow> u64 \<Rightarrow> par_state \<Rightarrow> bool" where
  "par_reach hash d threads may_stop start s \<longleftrightarrow>
     (par_step hash d threads may_stop)\<^sup>*\<^sup>* (par_init start threads) s"

text \<open>
  \<open>mine_parallel\<close> returns what the slot holds once every worker has returned; with one
  thread it is the sequential loop.
\<close>

definition par_done :: "par_state \<Rightarrow> bool" where
  "par_done s \<longleftrightarrow> (\<forall>w \<in> set (p_workers s). w_pc w = Returned)"

definition winners :: "par_state \<Rightarrow> nat set" where
  "winners s = {i. i < length (p_workers s) \<and> (\<exists>n h. w_pc (p_workers s ! i) = Won n h)}"

definition par_inv ::
    "(u64 \<Rightarrow> bytes) \<Rightarrow> u64 \<Rightarrow> nat \<Rightarrow> bool \<Rightarrow> u64 \<Rightarrow> par_state \<Rightarrow> bool" where
  "par_inv hash d threads may_stop start s \<longleftrightarrow>
     length (p_workers s) = threads
   \<and> (\<forall>i < threads. \<exists>k. w_nonce (p_workers s ! i) = start + of_nat (i + k * threads))
   \<and> (\<forall>i < threads. \<forall>n h. w_pc (p_workers s ! i) = Won n h \<longrightarrow>
        h = hash n \<and> meets_difficulty h d \<and> p_found s \<and> p_slot s = None)
   \<and> (\<forall>i < threads. \<forall>j < threads. i \<in> winners s \<longrightarrow> j \<in> winners s \<longrightarrow> i = j)
   \<and> (\<forall>n h. p_slot s = Some (n, h) \<longrightarrow> h = hash n \<and> meets_difficulty h d \<and> p_found s)
   \<and> (p_found s \<longrightarrow> p_slot s \<noteq> None \<or> winners s \<noteq> {})
   \<and> (\<not> may_stop \<longrightarrow> (\<forall>i < threads. w_pc (p_workers s ! i) = Returned \<longrightarrow> p_found s))"

lemma par_inv_init: "par_inv hash d threads may_stop start (par_init start threads)"
  by (auto simp: par_inv_def par_init_def winners_def intro!: exI [of _ 0])

lemma set_worker_simps [simp]:
  "length (p_workers (set_worker i w s)) = length (p_workers s)"
  "p_found (set_worker i w s) = p_found s"
  "p_slot (set_worker i w s) = p_slot s"
  by (simp_all add: set_worker_def)

lemma set_worker_nth:
  "i < length (p_workers s) \<Longrightarrow>
    p_workers (set_worker i w s) ! j = (if j = i then w else p_workers s ! j)"
  by (simp add: set_worker_def)

text \<open>What the shared state says about the workers, without their nonces.\<close>

lemma par_step_nonces:
  assumes "par_step hash d threads may_stop s t" "length (p_workers s) = threads"
    and "\<forall>i < threads. \<exists>k. w_nonce (p_workers s ! i) = start + of_nat (i + k * threads)"
  shows "\<forall>i < threads. \<exists>k. w_nonce (p_workers t ! i) = start + of_nat (i + k * threads)"
proof (intro allI impI)
  fix i assume i: "i < threads"
  then obtain k where k: "w_nonce (p_workers s ! i) = start + of_nat (i + k * threads)"
    using assms(3) by blast
  then have k': "w_nonce (p_workers s ! i) + of_nat threads = start + of_nat (i + Suc k * threads)"
    by (simp add: algebra_simps)
  have "w_nonce (p_workers t ! i) \<in>
      {w_nonce (p_workers s ! i), w_nonce (p_workers s ! i) + of_nat threads}"
    using assms(1) by (cases rule: par_step.cases) (auto simp: set_worker_nth)
  with k k' show "\<exists>k. w_nonce (p_workers t ! i) = start + of_nat (i + k * threads)"
    by (metis insertE singletonD)
qed

lemma par_step_inv:
  assumes "par_step hash d threads may_stop s t" "par_inv hash d threads may_stop start s"
  shows "par_inv hash d threads may_stop start t"
proof -
  have len: "length (p_workers s) = threads"
    using assms(2) by (simp add: par_inv_def)
  have non: "\<forall>i < threads. \<exists>k. w_nonce (p_workers t ! i) = start + of_nat (i + k * threads)"
    using par_step_nonces [OF assms(1) len] assms(2) by (simp add: par_inv_def)
  from assms(1) show ?thesis
  proof (cases rule: par_step.cases)
    case (par_miss i w)
    then have "winners t = winners s"
      by (auto simp: winners_def set_worker_nth split: if_splits)
    with par_miss non assms(2) show ?thesis
      unfolding par_inv_def by (auto simp: set_worker_nth)
  next
    case (par_poll i w)
    then have "winners t = winners s"
      by (auto simp: winners_def set_worker_nth split: if_splits)
    with par_poll non assms(2) show ?thesis
      unfolding par_inv_def by (auto simp: set_worker_nth)
  next
    case (par_quit i w)
    then have "winners t = winners s"
      by (auto simp: winners_def set_worker_nth split: if_splits)
    with par_quit non assms(2) show ?thesis
      unfolding par_inv_def by (auto simp: set_worker_nth)
  next
    case (par_win i w)
    have none: "winners s = {}" "p_slot s = None"
      using assms(2) par_win(6) len by (auto simp: par_inv_def winners_def not_Some_eq [symmetric])
    have "length (p_workers (s\<lparr>p_found := True\<rparr>)) = threads" by (simp add: len)
    then have nth: "p_workers t ! j =
        (if j = i then w\<lparr>w_pc := Won (w_nonce w) (hash (w_nonce w))\<rparr> else p_workers s ! j)" for j
      using par_win by (simp add: set_worker_nth)
    have "winners t = {i}"
      using none(1) par_win(1,2) nth by (auto simp: winners_def split: if_splits)
    with par_win non assms(2) none nth show ?thesis
      unfolding par_inv_def by auto
  next
    case (par_late i w)
    then have "winners t = winners s"
      by (auto simp: winners_def set_worker_nth split: if_splits)
    with par_late non assms(2) show ?thesis
      unfolding par_inv_def by (auto simp: set_worker_nth)
  next
    case (par_record i w n h)
    have nth: "p_workers t ! j = (if j = i then w\<lparr>w_pc := Returned\<rparr> else p_workers s ! j)" for j
      using par_record by (simp add: set_worker_def)
    have i: "i \<in> winners s" "i < threads"
      using par_record len by (auto simp: winners_def)
    have only: "\<forall>j < threads. j \<in> winners s \<longrightarrow> j = i"
      using assms(2) i by (simp add: par_inv_def)
    then have "winners t = {}"
      using par_record(1) nth len by (auto simp: winners_def split: if_splits)
    moreover have "h = hash n \<and> meets_difficulty h d \<and> p_found s"
      using assms(2) par_record(3,4) i(2) by (auto simp: par_inv_def)
    moreover have "w_pc (p_workers t ! j) \<noteq> Won n' h'" if "j < threads" for j n' h'
      using \<open>winners t = {}\<close> that par_record(1) len by (auto simp: winners_def)
    ultimately show ?thesis
      using par_record(1) non nth assms(2) len unfolding par_inv_def by auto
  qed
qed

lemma par_reach_inv:
  assumes "par_reach hash d threads may_stop start s"
  shows "par_inv hash d threads may_stop start s"
  using assms unfolding par_reach_def
  by (induction rule: rtranclp_induct) (auto intro: par_inv_init par_step_inv)

lemma par_slot_stable:
  assumes "par_step hash d threads may_stop s t" "par_inv hash d threads may_stop start s"
    and "p_slot s = Some r"
  shows "p_slot t = Some r"
  using assms by (cases rule: par_step.cases) (auto simp: par_inv_def)

lemma par_reach_sound:
  assumes "par_reach hash d threads may_stop start s"
  shows "(\<forall>n h. p_slot s = Some (n, h) \<longrightarrow> h = hash n \<and> meets_difficulty h d)
    \<and> (\<forall>t r. par_step hash d threads may_stop s t \<longrightarrow> p_slot s = Some r \<longrightarrow> p_slot t = Some r)
    \<and> (\<not> may_stop \<longrightarrow> 0 < threads \<longrightarrow> (\<forall>w \<in> set (p_workers s). w_pc w = Returned)
         \<longrightarrow> p_slot s \<noteq> None)"
proof (intro conjI allI impI)
  note inv = par_reach_inv [OF assms]
  show "h = hash n" "meets_difficulty h d" if "p_slot s = Some (n, h)" for n h
    using inv that unfolding par_inv_def by blast+
  show "p_slot t = Some r" if "par_step hash d threads may_stop s t" "p_slot s = Some r" for t r
    by (rule par_slot_stable [OF that(1) inv that(2)])
  assume n: "\<not> may_stop" "0 < threads" and r: "\<forall>w \<in> set (p_workers s). w_pc w = Returned"
  have "length (p_workers s) = threads" using inv by (simp add: par_inv_def)
  with r have pc: "\<forall>i < threads. w_pc (p_workers s ! i) = Returned" by simp
  then have "winners s = {}" using inv by (auto simp: winners_def par_inv_def)
  moreover have "p_found s" using inv n pc by (auto simp: par_inv_def)
  ultimately show "p_slot s \<noteq> None" using inv by (simp add: par_inv_def)
qed

end
