(* ===== verification/Blocks.thy ===== *)
theory Blocks
  imports Ledger Pow Difficulty
begin

text \<open>
  \<open>crates/nightfall-consensus/src/lib.rs\<close>, first half: the emission schedule, block
  headers with their two hashes, blocks, templates and compact headers.
\<close>

section \<open>Emission\<close>

record emission_schedule =
  initial_reward_darks :: u64
  halving_interval :: u64
  max_supply_darks :: u64

definition locked_mainnet :: emission_schedule where
  "locked_mainnet =
     \<lparr>initial_reward_darks = INITIAL_BLOCK_REWARD_NIGHT * DARKS_PER_NIGHT,
      halving_interval = HALVING_INTERVAL_BLOCKS, max_supply_darks = MAX_SUPPLY_DARKS\<rparr>"

definition theoretical_reward_at :: "emission_schedule \<Rightarrow> u64 \<Rightarrow> amount" where
  "theoretical_reward_at em height =
     (if initial_reward_darks em = 0 \<or> halving_interval em = 0 then amount_zero
      else
        (let halvings = height div halving_interval em in
         if 64 \<le> halvings then amount_zero
         else Amount (drop_bit (unat halvings) (initial_reward_darks em))))"

definition reward_at :: "emission_schedule \<Rightarrow> u64 \<Rightarrow> u64 \<Rightarrow> amount" where
  "reward_at em height total_minted =
     (if max_supply_darks em \<le> total_minted then amount_zero
      else Amount (min (darks (theoretical_reward_at em height))
                     (max_supply_darks em - total_minted)))"

section \<open>Headers and blocks\<close>

record block_header =
  h_version :: u32
  h_height :: u64
  h_prev_hash :: bytes
  h_utxo_root :: bytes
  h_kernel_sum :: bytes
  h_body_root :: bytes
  h_timestamp :: u64
  h_difficulty :: u64
  h_nonce :: u64
  h_reward :: u64

definition pow_preimage :: "('p, 's) crypto \<Rightarrow> block_header \<Rightarrow> bytes" where
  "pow_preimage C h =
     hash_multi C DOM_BLOCK
       [u32_le (h_version h), u64_le (h_height h), h_prev_hash h, h_utxo_root h,
        h_kernel_sum h, h_body_root h, u64_le (h_timestamp h), u64_le (h_difficulty h),
        u64_le (h_reward h)]"

definition pow_hash :: "('p, 's) crypto \<Rightarrow> block_header \<Rightarrow> pow_params \<Rightarrow> bytes" where
  "pow_hash C h params = nighthash C (pow_preimage C h) (h_nonce h) params"

definition header_hash :: "('p, 's) crypto \<Rightarrow> block_header \<Rightarrow> bytes" where
  "header_hash C h = hash_multi C DOM_BLOCK [pow_preimage C h, u64_le (h_nonce h)]"

record block =
  blk_header :: block_header
  blk_body :: block_body

definition block_hash :: "('p, 's) crypto \<Rightarrow> block \<Rightarrow> bytes" where
  "block_hash C b = header_hash C (blk_header b)"

definition blk_work :: "block \<Rightarrow> u128" where
  "blk_work b = block_work (h_difficulty (blk_header b))"

definition pow_is_valid :: "('p, 's) crypto \<Rightarrow> block \<Rightarrow> pow_params \<Rightarrow> bool" where
  "pow_is_valid C b params \<longleftrightarrow>
     meets_difficulty (pow_hash C (blk_header b) params) (h_difficulty (blk_header b))"

record block_template =
  t_header :: block_header
  t_body :: block_body
  t_built_on :: bytes

definition seal :: "block_template \<Rightarrow> u64 \<Rightarrow> block" where
  "seal t nonce = \<lparr>blk_header = (t_header t)\<lparr>h_nonce := nonce\<rparr>, blk_body = t_body t\<rparr>"

record compact_header =
  c_height :: u64
  c_hash :: bytes
  c_prev_hash :: bytes
  c_timestamp :: u64
  c_difficulty :: u64

definition compact_of :: "('p, 's) crypto \<Rightarrow> block \<Rightarrow> compact_header" where
  "compact_of C b =
     \<lparr>c_height = h_height (blk_header b), c_hash = block_hash C b,
      c_prev_hash = h_prev_hash (blk_header b), c_timestamp = h_timestamp (blk_header b),
      c_difficulty = h_difficulty (blk_header b)\<rparr>"

definition compact_work :: "compact_header \<Rightarrow> u128" where
  "compact_work h = block_work (c_difficulty h)"

definition block_strip_binding :: "block \<Rightarrow> block" where
  "block_strip_binding b = b\<lparr>blk_body := body_strip_binding (blk_body b)\<rparr>"

section \<open>Lemmas\<close>

lemma block_strip_simps [simp]:
  "blk_header (block_strip_binding b) = blk_header b"
  "block_hash C (block_strip_binding b) = block_hash C b"
  "blk_work (block_strip_binding b) = blk_work b"
  "compact_of C (block_strip_binding b) = compact_of C b"
  "block_strip_binding (block_strip_binding b) = block_strip_binding b"
  by (simp_all add: block_strip_binding_def block_hash_def blk_work_def compact_of_def)

lemma compact_simps [simp]:
  "c_height (compact_of C b) = h_height (blk_header b)"
  "c_hash (compact_of C b) = block_hash C b"
  "c_prev_hash (compact_of C b) = h_prev_hash (blk_header b)"
  "c_timestamp (compact_of C b) = h_timestamp (blk_header b)"
  "c_difficulty (compact_of C b) = h_difficulty (blk_header b)"
  "compact_work (compact_of C b) = blk_work b"
  by (simp_all add: compact_of_def compact_work_def blk_work_def)

text \<open>The payable reward never takes the minted total past the cap.\<close>

lemma reward_at_cap:
  assumes "minted \<le> max_supply_darks em"
  shows "unat minted + unat (darks (reward_at em height minted)) \<le> unat (max_supply_darks em)"
proof (cases "max_supply_darks em \<le> minted")
  case True
  with assms show ?thesis
    by (simp add: reward_at_def amount_zero_def word_le_nat_alt)
next
  case False
  have "darks (reward_at em height minted) \<le> max_supply_darks em - minted"
    using False by (simp add: reward_at_def)
  then have "unat (darks (reward_at em height minted)) \<le> unat (max_supply_darks em - minted)"
    by (simp add: word_le_nat_alt)
  also have "\<dots> = unat (max_supply_darks em) - unat minted"
    using assms by (rule unat_minus_le)
  finally show ?thesis using assms by (simp add: word_le_nat_alt)
qed

lemma theoretical_le:
  "unat (darks (theoretical_reward_at em height)) \<le> unat (initial_reward_darks em)"
proof -
  have "unat (drop_bit n w) \<le> unat w" for n and w :: u64
    by (simp only: unat_drop_bit_eq) (simp only: drop_bit_eq_div div_le_dividend)
  then show ?thesis
    by (simp add: theoretical_reward_at_def amount_zero_def Let_def)
qed

lemma reward_at_not_exceed:
  assumes "total_minted_darks s \<le> MAX_SUPPLY_DARKS"
  shows "\<not> would_exceed_cap s (darks (reward_at locked_mainnet height (total_minted_darks s)))"
  using reward_at_cap [of "total_minted_darks s" locked_mainnet height] assms
  by (simp add: would_exceed_cap_iff locked_mainnet_def unat_max_supply)

lemma unat_blk_work: "unat (blk_work b) = max (unat (h_difficulty (blk_header b))) 1"
  by (simp add: blk_work_def unat_block_work)

end
