(* ===== verification/Builder.thy ===== *)
theory Builder
  imports Tx
begin

text \<open>
  \<open>crates/nightfall-ledger/src/builder.rs\<close>: the wallet's construction of coinbases and
  transfers.  What the code draws from the operating system's generator is a record of draws,
  indexed by the output or the input being made.
\<close>

definition TX_VERSION :: u32 where [params]: "TX_VERSION = 2"

record 's spendable =
  sp_commit :: bytes
  sp_value :: u64
  sp_blind :: 's
  sp_secret :: 's

record payment =
  pay_to :: address
  pay_amount :: u64
  pay_memo :: bytes

record 's draws =
  dr_output :: "nat \<Rightarrow> bytes option \<times> bytes"
  dr_input :: "nat \<Rightarrow> bytes \<times> bytes \<times> bytes"
  dr_kernel_sig :: bytes
  dr_kernel_offset :: 's
  dr_stealth_offset :: 's
  dr_stealth_sig :: bytes

section \<open>The block subsidy\<close>

definition build_coinbase ::
    "('p::ab_group_add, 's::comm_ring_1) crypto \<Rightarrow> 's draws \<Rightarrow> address \<Rightarrow> u64 \<Rightarrow> u64 \<Rightarrow> bytes
       \<Rightarrow> tx_error + transaction" where
  "build_coinbase C dr miner reward height ctx =
     (case create_output_with_features C (fst (dr_output dr 0)) (snd (dr_output dr 0)) miner
             reward [] ctx CoinbaseOutput of
        Inl _ \<Rightarrow> Inl MalformedCommitment
      | Inr (o', secrets) \<Rightarrow>
          (let k = build_kernel C (dr_kernel_sig dr) CoinbaseKernel 0 reward height
                     (ss_blind secrets);
               s = dr_stealth_offset dr;
               k' = attach_stealth C (dr_stealth_sig dr) (- ss_ephemeral secrets - s) k
           in Inr \<lparr>tx_version = TX_VERSION, tx_inputs = [], tx_outputs = [o'],
                   tx_kernels = [k'], tx_stealth_offset = Some (scalar_bytes C s),
                   tx_kernel_offset = None\<rparr>))"

section \<open>Transfers\<close>

record build_rules =
  r_kernel_offset :: bool

definition build_rules_default :: build_rules where
  "build_rules_default = \<lparr>r_kernel_offset = False\<rparr>"

definition rules_for_height :: "network_id \<Rightarrow> u64 \<Rightarrow> build_rules" where
  "rules_for_height n next_height = \<lparr>r_kernel_offset = binding_fork_height n \<le> next_height\<rparr>"

datatype build_error = NoInputs | InsufficientFunds u64 u64 | AmountOverflow | OutputFailed
  | BuildTx tx_error

text \<open>
  The loop over the payments: the outputs with the sums of their blinds and ephemeral secrets.
\<close>

fun build_outputs ::
    "('p::ab_group_add, 's::comm_ring_1) crypto \<Rightarrow> 's draws \<Rightarrow> bytes \<Rightarrow> nat \<Rightarrow> payment list
       \<Rightarrow> tx_output list \<times> 's \<times> 's \<Rightarrow> build_error + tx_output list \<times> 's \<times> 's" where
  "build_outputs C dr ctx i [] acc = Inr acc"
| "build_outputs C dr ctx i (p # ps) (outs, blinds, ephemerals) =
     (case create_output C (fst (dr_output dr i)) (snd (dr_output dr i)) (pay_to p)
             (pay_amount p) (pay_memo p) ctx of
        Inl _ \<Rightarrow> Inl OutputFailed
      | Inr (o', s) \<Rightarrow>
          build_outputs C dr ctx (i + 1) ps
            (outs @ [o'], blinds + ss_blind s, ephemerals + ss_ephemeral s))"

text \<open>One input: the output signature, the input key and its signature, and the key's secret.\<close>

definition build_input ::
    "('p::ab_group_add, 's::comm_ring_1) crypto \<Rightarrow> bytes \<times> bytes \<times> bytes \<Rightarrow> 's spendable
       \<Rightarrow> tx_input \<times> 's" where
  "build_input C dr s =
     (let (e_ki, e_key, e_sig) = dr;
          msg = input_message C (sp_commit s);
          out_pk = compress C (pt_mul C (sp_secret s) (generator_g C));
          ki = derive_input_secret C e_ki (sp_secret s) (sp_commit s);
          (ik, ks) = sign_input_key C e_key ki (sp_secret s) (sp_commit s) out_pk
      in (\<lparr>in_commit = sp_commit s,
           in_sig = schnorr_sign C e_sig (sp_secret s) (generator_g C) msg,
           input_key = Some ik, key_sig = Some ks\<rparr>, ki))"

fun build_inputs ::
    "('p::ab_group_add, 's::comm_ring_1) crypto \<Rightarrow> 's draws \<Rightarrow> nat \<Rightarrow> 's spendable list
       \<Rightarrow> (tx_input \<times> 's) list" where
  "build_inputs C dr i [] = []"
| "build_inputs C dr i (s # ss) = build_input C (dr_input dr i) s # build_inputs C dr (i + 1) ss"

definition build_transfer_with ::
    "('p::ab_group_add, 's::comm_ring_1) crypto \<Rightarrow> 's draws \<Rightarrow> 's spendable list \<Rightarrow> payment list
       \<Rightarrow> u64 \<Rightarrow> address \<Rightarrow> u64 \<Rightarrow> bytes \<Rightarrow> build_rules \<Rightarrow> build_error + transaction" where
  "build_transfer_with C dr spendables payments fee change_to lock ctx rules =
     (if spendables = [] then Inl NoInputs
      else if MAX_INPUTS < length spendables then Inl (BuildTx TooManyInputs)
      else if MAX_OUTPUTS < length payments + 1 then Inl (BuildTx TooManyOutputs)
      else
        (let in_sum = (\<Sum>s \<leftarrow> spendables. sp_value s);
             pay_sum = (\<Sum>p \<leftarrow> payments. pay_amount p) in
         case checked_add pay_sum fee of
           None \<Rightarrow> Inl AmountOverflow
         | Some needed \<Rightarrow>
             if in_sum < needed then Inl (InsufficientFunds in_sum needed)
             else
               res_bind (build_outputs C dr ctx 0 payments ([], 0, 0))
                 (\<lambda>(outs, blinds, ephemerals).
               (case create_output C (fst (dr_output dr (length payments)))
                       (snd (dr_output dr (length payments))) change_to (in_sum - needed) [] ctx of
                  Inl _ \<Rightarrow> Inl OutputFailed
                | Inr (change_out, cs) \<Rightarrow>
                    (let out_blind_sum = blinds + ss_blind cs;
                         out_ephemeral_sum = ephemerals + ss_ephemeral cs;
                         in_blind_sum = (\<Sum>s \<leftarrow> spendables. sp_blind s);
                         k_off = (if r_kernel_offset rules then Some (dr_kernel_offset dr)
                                  else None);
                         excess_secret = out_blind_sum - in_blind_sum
                           - (case k_off of None \<Rightarrow> 0 | Some k \<Rightarrow> k);
                         ins = build_inputs C dr 0 spendables;
                         in_key_sum = (\<Sum>x \<leftarrow> ins. snd x);
                         kernel = build_kernel C (dr_kernel_sig dr) PlainKernel fee 0 lock
                                    excess_secret;
                         so = dr_stealth_offset dr;
                         kernel' = attach_stealth C (dr_stealth_sig dr)
                                     (in_key_sum - out_ephemeral_sum - so) kernel;
                         tx = \<lparr>tx_version = TX_VERSION, tx_inputs = map fst ins,
                               tx_outputs = outs @ [change_out], tx_kernels = [kernel'],
                               tx_stealth_offset = Some (scalar_bytes C so),
                               tx_kernel_offset = map_option (scalar_bytes C) k_off\<rparr>
                     in res_bind (map_err BuildTx (check_shape C tx)) (\<lambda>_. Inr tx))))))"

definition build_transfer ::
    "('p::ab_group_add, 's::comm_ring_1) crypto \<Rightarrow> 's draws \<Rightarrow> 's spendable list \<Rightarrow> payment list
       \<Rightarrow> u64 \<Rightarrow> address \<Rightarrow> u64 \<Rightarrow> bytes \<Rightarrow> build_error + transaction" where
  "build_transfer C dr spendables payments fee change_to lock ctx =
     build_transfer_with C dr spendables payments fee change_to lock ctx build_rules_default"

section \<open>Coinbases verify\<close>

lemma stealth_point_attach:
  "group_ok C \<Longrightarrow> encoding_ok C \<Longrightarrow>
     stealth_point C (attach_stealth C en x k) = Inr (pt_mul C x (generator_g C))"
  by (simp add: stealth_point_def attach_stealth_verified ok_or_def)

lemma build_coinbase_OkD:
  assumes "build_coinbase C dr miner reward height ctx = Inr t"
  obtains o' secrets where
    "create_output_with_features C (fst (dr_output dr 0)) (snd (dr_output dr 0)) miner
       reward [] ctx CoinbaseOutput = Inr (o', secrets)"
    "t = \<lparr>tx_version = TX_VERSION, tx_inputs = [], tx_outputs = [o'],
       tx_kernels = [attach_stealth C (dr_stealth_sig dr)
         (- ss_ephemeral secrets - dr_stealth_offset dr)
         (build_kernel C (dr_kernel_sig dr) CoinbaseKernel 0 reward height (ss_blind secrets))],
       tx_stealth_offset = Some (scalar_bytes C (dr_stealth_offset dr)),
       tx_kernel_offset = None\<rparr>"
  using assms by (auto simp: build_coinbase_def Let_def split: sum.splits)

lemma build_coinbase_fields:
  assumes "build_coinbase C dr miner reward height ctx = Inr t"
  obtains k o' where "tx_inputs t = []" "tx_outputs t = [o']" "tx_kernels t = [k]"
    "feature k = CoinbaseKernel" "reward_darks k = reward" "fee_darks k = 0"
    "lock_height k = height" "tx_kernel_offset t = None" "features o' = CoinbaseOutput"
    "is_coinbase t"
proof -
  from assms obtain o' secrets where
    mk: "create_output_with_features C (fst (dr_output dr 0)) (snd (dr_output dr 0)) miner
       reward [] ctx CoinbaseOutput = Inr (o', secrets)"
    and t: "t = \<lparr>tx_version = TX_VERSION, tx_inputs = [], tx_outputs = [o'],
       tx_kernels = [attach_stealth C (dr_stealth_sig dr)
         (- ss_ephemeral secrets - dr_stealth_offset dr)
         (build_kernel C (dr_kernel_sig dr) CoinbaseKernel 0 reward height (ss_blind secrets))],
       tx_stealth_offset = Some (scalar_bytes C (dr_stealth_offset dr)),
       tx_kernel_offset = None\<rparr>"
    by (rule build_coinbase_OkD)
  from mk have "features o' = CoinbaseOutput"
    by (auto elim!: create_output_OkD)
  with t that show thesis by (simp add: is_coinbase_def)
qed

text \<open>
  A built coinbase passes every stateless check under the rules on either side of the fork,
  and its kernel opens its output to the reward.
\<close>

lemma build_coinbase_verifies:
  assumes laws: "group_ok C" "encoding_ok C" "range_ok C"
    and made: "build_coinbase C dr miner reward height ctx = Inr t"
    and nz: "\<And>k. k \<in> set (tx_kernels t) \<Longrightarrow> commit_point C (excess k) \<noteq> Some 0"
  shows "verify_stateless_rules C ctx binding t = Inr ()"
    and "\<exists>o' k p. tx_outputs t = [o'] \<and> tx_kernels t = [k]
      \<and> commit_point C (out_commit o') = Some p
      \<and> Some (p - commit_public_value C reward) = commit_point C (excess k)"
proof -
  from made obtain o' sec where
    mk: "create_output_with_features C (fst (dr_output dr 0)) (snd (dr_output dr 0)) miner
       reward [] ctx CoinbaseOutput = Inr (o', sec)"
    and t: "t = \<lparr>tx_version = TX_VERSION, tx_inputs = [], tx_outputs = [o'],
       tx_kernels = [attach_stealth C (dr_stealth_sig dr)
         (- ss_ephemeral sec - dr_stealth_offset dr)
         (build_kernel C (dr_kernel_sig dr) CoinbaseKernel 0 reward height (ss_blind sec))],
       tx_stealth_offset = Some (scalar_bytes C (dr_stealth_offset dr)),
       tx_kernel_offset = None\<rparr>"
    by (rule build_coinbase_OkD)
  note wf = create_output_wf [OF laws mk]
  let ?b = "ss_blind sec" and ?r = "ss_ephemeral sec" and ?s = "dr_stealth_offset dr"
  let ?G = "generator_g C" and ?H = "generator_h C"
  let ?k0 = "build_kernel C (dr_kernel_sig dr) CoinbaseKernel 0 reward height ?b"
  let ?k = "attach_stealth C (dr_stealth_sig dr) (- ?r - ?s) ?k0"
  have ex: "commit_point C (excess ?k) = Some (pt_mul C ?b ?H)"
    by (simp add: commit_point_def alg laws)
  then have nzk: "pt_mul C ?b ?H \<noteq> 0"
    using nz [of ?k] t by auto
  have sg: "kernel_verify_signature C ?k"
    using build_kernel_verifies [OF laws(1,2) nzk] by simp
  have sh: "kernel_check_shape C ?k = Inr ()"
    by (simp, rule build_kernel_shape [OF laws(2)]) auto
  have shape: "check_shape C t = Inr ()"
    using wf sh by (simp add: t check_shape_def check_output_points_def coinbase_kernel_count_def
        params)
  have ep: "ephemeral_point C o' = Inr (pt_mul C ?r ?G)"
    using wf(6) by (simp add: ephemeral_point_def ok_or_def)
  have sp: "stealth_point C ?k = Inr (pt_mul C (- ?r - ?s) ?G)"
    by (simp add: stealth_point_attach laws)
  have kb: "key_balance C (tx_inputs t) (tx_outputs t) (tx_kernels t) (tx_stealth_offset t)
      = Inr ()"
    by (simp add: t key_balance_iff keys_present_def key_total_def ep sp is_ok_def
        decode_offset_def ok_or_def alg laws)
  have se: "verified_stealth_excess C ?k \<noteq> None"
    by (simp add: attach_stealth_verified laws)
  have fee: "checked_total_fee t \<noteq> None"
    by (simp add: t checked_total_fee_def checked_fee_sum_def checked_add_def params)
  have full: "has_full_binding t"
    by (simp add: t has_full_binding_def attach_stealth_def Let_def)
  have pt: "commit_point C (out_commit o') = Some (pedersen C reward ?b)" by (rule wf(2))
  have vb: "verify_value_balance C ctx t = Inr ()"
    using wf(3,4) sg pt ex
    by (simp add: t verify_value_balance_iff value_points_def value_total_def total_fee_def
        total_reward_def wrapping_fees_eq wrapping_rewards_eq decode_offset_def pedersen_def
        commit_public_value_def pt_mul_zero [OF laws(1)])
  show "verify_stateless_rules C ctx binding t = Inr ()"
    using shape fee full kb vb se
    by (simp add: verify_stateless_rules_def t ensure_def)
  show "\<exists>o' k p. tx_outputs t = [o'] \<and> tx_kernels t = [k]
      \<and> commit_point C (out_commit o') = Some p
      \<and> Some (p - commit_public_value C reward) = commit_point C (excess k)"
    using pt ex by (simp add: t pedersen_def commit_public_value_def)
qed

section \<open>Transfers verify\<close>

text \<open>What every output of the builder satisfies.\<close>

definition built_output ::
    "('p::ab_group_add, 's::comm_ring_1) crypto \<Rightarrow> bytes \<Rightarrow> tx_output \<Rightarrow> bool" where
  "built_output C ctx o' \<longleftrightarrow> range_verify C (range_proof o') (out_commit o') ctx
     \<and> verify_sender_sig C o' \<and> commit_point C (out_commit o') \<noteq> None
     \<and> is_ok (ephemeral_point C o') \<and> features o' = PlainOutput"

lemma create_output_built:
  assumes laws: "group_ok C" "encoding_ok C" "range_ok C"
    and mk: "create_output C rb en to v memo ctx = Inr (o', sec)"
  shows "built_output C ctx o'"
    and "point_or_zero C (out_commit o')
      = pt_mul C (of_nat (unat v)) (generator_g C) + pt_mul C (ss_blind sec) (generator_h C)"
    and "ok_value (ephemeral_point C o') = pt_mul C (ss_ephemeral sec) (generator_g C)"
proof -
  note wf = create_output_wf [OF laws mk [unfolded create_output_def]]
  show "built_output C ctx o'"
    using wf by (simp add: built_output_def ephemeral_point_def ok_or_def is_ok_def)
  show "point_or_zero C (out_commit o')
      = pt_mul C (of_nat (unat v)) (generator_g C) + pt_mul C (ss_blind sec) (generator_h C)"
    using wf(2) by (simp add: pedersen_def)
  show "ok_value (ephemeral_point C o') = pt_mul C (ss_ephemeral sec) (generator_g C)"
    using wf(6) by (simp add: ephemeral_point_def ok_or_def)
qed

lemma build_outputs_spec:
  assumes laws: "group_ok C" "encoding_ok C" "range_ok C"
    and made: "build_outputs C dr ctx i ps (outs, b, e) = Inr (outs', b', e')"
  shows "\<exists>news. outs' = outs @ news \<and> length news = length ps
    \<and> (\<forall>o' \<in> set news. built_output C ctx o')
    \<and> points_total C (map out_commit news)
      = pt_mul C (of_nat (\<Sum>p \<leftarrow> ps. unat (pay_amount p))) (generator_g C)
        + pt_mul C (b' - b) (generator_h C)
    \<and> (\<Sum>o' \<leftarrow> news. ok_value (ephemeral_point C o')) = pt_mul C (e' - e) (generator_g C)"
  using made
proof (induction ps arbitrary: i outs b e)
  case Nil
  then show ?case by (simp add: pt_mul_zero [OF laws(1)])
next
  case (Cons p ps)
  from Cons.prems obtain o' s where
    mk: "create_output C (fst (dr_output dr i)) (snd (dr_output dr i)) (pay_to p)
      (pay_amount p) (pay_memo p) ctx = Inr (o', s)"
    and rest: "build_outputs C dr ctx (i + 1) ps
      (outs @ [o'], b + ss_blind s, e + ss_ephemeral s) = Inr (outs', b', e')"
    by (auto split: sum.splits)
  note o = create_output_built [OF laws mk]
  from Cons.IH [OF rest] obtain news where
    n: "outs' = (outs @ [o']) @ news" "length news = length ps"
      "\<forall>o' \<in> set news. built_output C ctx o'"
    and v: "points_total C (map out_commit news)
      = pt_mul C (of_nat (\<Sum>p \<leftarrow> ps. unat (pay_amount p))) (generator_g C)
        + pt_mul C (b' - (b + ss_blind s)) (generator_h C)"
    and k: "(\<Sum>o' \<leftarrow> news. ok_value (ephemeral_point C o'))
      = pt_mul C (e' - (e + ss_ephemeral s)) (generator_g C)"
    by blast
  show ?case
    by (rule exI [of _ "o' # news"]) (use n v k o in \<open>simp add: alg laws algebra_simps\<close>)
qed

definition opens :: "('p::ab_group_add, 's::comm_ring_1) crypto \<Rightarrow> 's spendable \<Rightarrow> bool" where
  "opens C s \<longleftrightarrow> sp_commit s = commitment_new C (sp_value s) (sp_blind s)"

lemma build_input_simps [simp]:
  "in_commit (fst (build_input C dr s)) = sp_commit s"
  "\<exists>y. input_key (fst (build_input C dr s)) = Some y"
  "\<exists>y. key_sig (fst (build_input C dr s)) = Some y"
  by (auto simp: build_input_def Let_def split: prod.splits)

lemma build_input_key:
  assumes "group_ok C" "encoding_ok C"
  shows "input_key_point C (fst (build_input C dr s))
    = Inr (pt_mul C (snd (build_input C dr s)) (generator_g C))"
  using assms
  by (auto simp: build_input_def input_key_point_def Let_def sign_input_key_def ok_or_def alg
      split: prod.splits)

text \<open>Each built input carries signatures that verify against the key it spends.\<close>

lemma build_input_signatures:
  assumes "group_ok C" "encoding_ok C"
  shows "verify_input_signature C (fst (build_input C dr s))
           (compress C (pt_mul C (sp_secret s) (generator_g C)))"
    and "verify_input_key C (fst (build_input C dr s))
           (compress C (pt_mul C (sp_secret s) (generator_g C)))"
proof -
  obtain e1 e2 e3 where [simp]: "dr = (e1, e2, e3)" by (cases dr)
  let ?pk = "compress C (pt_mul C (sp_secret s) (generator_g C))"
  obtain ik sg where
    sk: "sign_input_key C e2 (derive_input_secret C e1 (sp_secret s) (sp_commit s)) (sp_secret s)
      (sp_commit s) ?pk = (ik, sg)" by fastforce
  show "verify_input_signature C (fst (build_input C dr s)) ?pk"
    using schnorr_sign_verifies [OF assms]
    by (simp add: verify_input_signature_def build_input_def Let_def sk alg assms)
  have "verify_input_key_sig C (sp_commit s) ik ?pk sg"
    by (rule sign_input_key_verifies(1) [OF assms sk]) (simp add: alg assms)
  then show "verify_input_key C (fst (build_input C dr s)) ?pk"
    by (simp add: verify_input_key_def build_input_def Let_def sk)
qed

lemma build_inputs_spec:
  assumes laws: "group_ok C" "encoding_ok C"
  shows "map in_commit (map fst (build_inputs C dr i ss)) = map sp_commit ss"
    and "\<forall>j \<in> set (map fst (build_inputs C dr i ss)).
      is_ok (input_key_point C j) \<and> input_key j \<noteq> None \<and> key_sig j \<noteq> None"
    and "(\<Sum>j \<leftarrow> map fst (build_inputs C dr i ss). ok_value (input_key_point C j))
      = pt_mul C (\<Sum>x \<leftarrow> build_inputs C dr i ss. snd x) (generator_g C)"
  by (induction ss arbitrary: i)
    (simp_all add: build_input_key laws is_ok_def alg)

lemma opens_points:
  assumes "group_ok C" "encoding_ok C" "\<forall>s \<in> set ss. opens C s"
  shows "all_points C (map sp_commit ss)"
    and "points_total C (map sp_commit ss)
      = pt_mul C (of_nat (\<Sum>s \<leftarrow> ss. unat (sp_value s))) (generator_g C)
        + pt_mul C (\<Sum>s \<leftarrow> ss. sp_blind s) (generator_h C)"
proof -
  have p: "commit_point C (commitment_new C v b) = Some (pedersen C v b)" for v b
    using assms(2) by (simp add: commit_point_def commitment_new_def alg)
  show "all_points C (map sp_commit ss)"
    using assms(3) by (auto simp: all_points_def opens_def p)
  show "points_total C (map sp_commit ss)
      = pt_mul C (of_nat (\<Sum>s \<leftarrow> ss. unat (sp_value s))) (generator_g C)
        + pt_mul C (\<Sum>s \<leftarrow> ss. sp_blind s) (generator_h C)"
    using assms(3)
    by (induction ss) (simp_all add: pt_mul_zero [OF assms(1)] opens_def p pedersen_def alg
        assms(1) algebra_simps)
qed

lemma build_transfer_with_OkD:
  assumes "build_transfer_with C dr ss ps fee change_to lock ctx rules = Inr t"
  obtains needed outs b e co cs k_off so where
    "ss \<noteq> []" "checked_add (\<Sum>p \<leftarrow> ps. pay_amount p) fee = Some needed"
    "needed \<le> (\<Sum>s \<leftarrow> ss. sp_value s)"
    "build_outputs C dr ctx 0 ps ([], 0, 0) = Inr (outs, b, e)"
    "create_output C (fst (dr_output dr (length ps))) (snd (dr_output dr (length ps))) change_to
       ((\<Sum>s \<leftarrow> ss. sp_value s) - needed) [] ctx = Inr (co, cs)"
    "k_off = (if r_kernel_offset rules then dr_kernel_offset dr else 0)"
    "tx_kernel_offset t
       = (if r_kernel_offset rules then Some (scalar_bytes C k_off) else None)"
    "so = dr_stealth_offset dr" "tx_stealth_offset t = Some (scalar_bytes C so)"
    "tx_inputs t = map fst (build_inputs C dr 0 ss)" "tx_outputs t = outs @ [co]"
    "tx_kernels t = [attach_stealth C (dr_stealth_sig dr)
       ((\<Sum>x \<leftarrow> build_inputs C dr 0 ss. snd x) - (e + ss_ephemeral cs) - so)
       (build_kernel C (dr_kernel_sig dr) PlainKernel fee 0 lock
          (b + ss_blind cs - (\<Sum>s \<leftarrow> ss. sp_blind s) - k_off))]"
    "check_shape C t = Inr ()"
proof -
  from assms obtain needed where
    a: "ss \<noteq> []" "checked_add (\<Sum>p \<leftarrow> ps. pay_amount p) fee = Some needed"
      "needed \<le> (\<Sum>s \<leftarrow> ss. sp_value s)"
    by (auto simp: build_transfer_with_def Let_def not_less split: if_splits option.splits)
  have nl: "\<not> (\<Sum>s \<leftarrow> ss. sp_value s) < needed"
    using a(3) by (simp add: not_less)
  have "\<exists>outs b e. build_outputs C dr ctx 0 ps ([], 0, 0) = Inr (outs, b, e)"
    using assms a by (cases "build_outputs C dr ctx 0 ps ([], 0, 0)")
      (auto simp: build_transfer_with_def Let_def nl split: if_splits)
  moreover have "\<exists>co cs. create_output C (fst (dr_output dr (length ps)))
      (snd (dr_output dr (length ps))) change_to ((\<Sum>s \<leftarrow> ss. sp_value s) - needed) [] ctx
      = Inr (co, cs)"
    using assms a calculation by (cases "create_output C (fst (dr_output dr (length ps)))
      (snd (dr_output dr (length ps))) change_to ((\<Sum>s \<leftarrow> ss. sp_value s) - needed) [] ctx")
      (auto simp: build_transfer_with_def Let_def nl split: if_splits)
  ultimately obtain outs b e co cs where
    c: "build_outputs C dr ctx 0 ps ([], 0, 0) = Inr (outs, b, e)"
      "create_output C (fst (dr_output dr (length ps))) (snd (dr_output dr (length ps))) change_to
       ((\<Sum>s \<leftarrow> ss. sp_value s) - needed) [] ctx = Inr (co, cs)"
    by blast
  show thesis
    by (rule that [OF a c refl _ refl])
      (use assms a c in \<open>auto simp: build_transfer_with_def Let_def nl res_simps
         split: if_splits\<close>)
qed

lemma build_transfer_balances:
  assumes laws: "group_ok C" "encoding_ok C" "range_ok C"
    and made: "build_transfer_with C dr ss ps fee change_to lock ctx rules = Inr t"
    and opened: "\<forall>s \<in> set ss. opens C s"
    and room: "(\<Sum>s \<leftarrow> ss. unat (sp_value s)) < 2 ^ 64"
      "(\<Sum>p \<leftarrow> ps. unat (pay_amount p)) < 2 ^ 64"
    and fee: "fee \<le> MAX_KERNEL_FEE_DARKS"
    and nz: "\<And>k. k \<in> set (tx_kernels t) \<Longrightarrow> commit_point C (excess k) \<noteq> Some 0"
    and off: "r_kernel_offset rules \<Longrightarrow> binding"
  shows "verify_stateless_rules C ctx binding t = Inr ()"
proof -
  from made obtain needed outs b e co cs ko so where
    a: "checked_add (\<Sum>p \<leftarrow> ps. pay_amount p) fee = Some needed"
      "needed \<le> (\<Sum>s \<leftarrow> ss. sp_value s)"
    and outs: "build_outputs C dr ctx 0 ps ([], 0, 0) = Inr (outs, b, e)"
    and co: "create_output C (fst (dr_output dr (length ps))) (snd (dr_output dr (length ps)))
       change_to ((\<Sum>s \<leftarrow> ss. sp_value s) - needed) [] ctx = Inr (co, cs)"
    and ko: "ko = (if r_kernel_offset rules then dr_kernel_offset dr else 0)"
      "tx_kernel_offset t = (if r_kernel_offset rules then Some (scalar_bytes C ko) else None)"
    and so: "so = dr_stealth_offset dr" "tx_stealth_offset t = Some (scalar_bytes C so)"
    and ti: "tx_inputs t = map fst (build_inputs C dr 0 ss)" and to: "tx_outputs t = outs @ [co]"
    and tk: "tx_kernels t = [attach_stealth C (dr_stealth_sig dr)
       ((\<Sum>x \<leftarrow> build_inputs C dr 0 ss. snd x) - (e + ss_ephemeral cs) - so)
       (build_kernel C (dr_kernel_sig dr) PlainKernel fee 0 lock
          (b + ss_blind cs - (\<Sum>s \<leftarrow> ss. sp_blind s) - ko))]"
    and shape: "check_shape C t = Inr ()"
    by (rule build_transfer_with_OkD)
  let ?G = "generator_g C" and ?H = "generator_h C"
  let ?x = "b + ss_blind cs - (\<Sum>s \<leftarrow> ss. sp_blind s) - ko"
  let ?ki = "\<Sum>x \<leftarrow> build_inputs C dr 0 ss. snd x"
  let ?k0 = "build_kernel C (dr_kernel_sig dr) PlainKernel fee 0 lock ?x"
  let ?k = "attach_stealth C (dr_stealth_sig dr) (?ki - (e + ss_ephemeral cs) - so) ?k0"
  let ?change = "(\<Sum>s \<leftarrow> ss. sp_value s) - needed"
  obtain news where
    n: "outs = news" "\<forall>o' \<in> set news. built_output C ctx o'"
    and nv: "points_total C (map out_commit news)
      = pt_mul C (of_nat (\<Sum>p \<leftarrow> ps. unat (pay_amount p))) ?G + pt_mul C b ?H"
    and nk: "(\<Sum>o' \<leftarrow> news. ok_value (ephemeral_point C o')) = pt_mul C e ?G"
    using build_outputs_spec [OF laws outs] by auto
  note c = create_output_built [OF laws co]
  note i = build_inputs_spec [OF laws(1,2), of dr 0 ss]
  have iv: "points_total C (map in_commit (tx_inputs t))
      = pt_mul C (of_nat (\<Sum>s \<leftarrow> ss. unat (sp_value s))) ?G + pt_mul C (\<Sum>s \<leftarrow> ss. sp_blind s) ?H"
    "all_points C (map in_commit (tx_inputs t))"
    using opens_points [OF laws(1,2) opened] unfolding ti i(1) by auto
  text \<open>the amounts, as natural numbers\<close>
  have us: "unat (\<Sum>s \<leftarrow> ss. sp_value s) = (\<Sum>s \<leftarrow> ss. unat (sp_value s))"
    "unat (\<Sum>p \<leftarrow> ps. pay_amount p) = (\<Sum>p \<leftarrow> ps. unat (pay_amount p))"
    using room by (simp_all add: unat_sum_list)
  have "unat needed = (\<Sum>p \<leftarrow> ps. unat (pay_amount p)) + unat fee"
    using a(1) us(2) by (simp add: checked_add_Some_iff)
  then have sums: "(\<Sum>s \<leftarrow> ss. unat (sp_value s))
      = (\<Sum>p \<leftarrow> ps. unat (pay_amount p)) + unat ?change + unat fee"
    using a(2) us(1) by (simp add: unat_minus_le word_le_nat_alt)
  have exc: "commit_point C (excess ?k) = Some (pt_mul C ?x ?H)"
    by (simp add: commit_point_def alg laws)
  then have nzk: "pt_mul C ?x ?H \<noteq> 0"
    using nz [of ?k] tk by auto
  have sg: "kernel_verify_signature C ?k"
    using build_kernel_verifies [OF laws(1,2) nzk] by simp
  have dk: "decode_offset C (tx_kernel_offset t) = Inr ko"
    using ko by (simp add: decode_offset_def ok_or_def alg laws)
  have vb: "verify_value_balance C ctx t = Inr ()"
    unfolding verify_value_balance_iff
  proof (intro conjI)
    show "\<forall>o' \<in> set (tx_outputs t). range_verify C (range_proof o') (out_commit o') ctx
        \<and> verify_sender_sig C o'"
      using n c(1) by (auto simp: to built_output_def)
    show "\<forall>k \<in> set (tx_kernels t). kernel_verify_signature C k"
      using sg by (simp add: tk)
    show "value_points C (tx_inputs t) (tx_outputs t) (tx_kernels t)"
      using iv(2) n c(1) exc
      by (auto simp: value_points_def to tk built_output_def all_points_def)
    obtain k where k: "tx_kernels t = [k]" "point_or_zero C (excess k) = pt_mul C ?x ?H"
      "fee_darks k = fee" "reward_darks k = 0"
      using tk exc by simp
    have "value_total C (tx_inputs t) (tx_outputs t) (tx_kernels t)
        = commit_public_value C (total_reward t) - commit_public_value C (total_fee t)
          + pt_mul C ko ?H"
      using sums
      by (simp add: value_total_def iv(1) to n(1) k nv c(2) total_reward_def total_fee_def
          wrapping_fees_eq wrapping_rewards_eq commit_public_value_def alg laws algebra_simps
          pt_mul_zero [OF laws(1)])
    then show "\<exists>k. decode_offset C (tx_kernel_offset t) = Inr k
        \<and> value_total C (tx_inputs t) (tx_outputs t) (tx_kernels t)
          = commit_public_value C (total_reward t) - commit_public_value C (total_fee t)
            + pt_mul C k ?H"
      using dk by blast
  qed
  have stp: "stealth_point C ?k = Inr (pt_mul C (?ki - (e + ss_ephemeral cs) - so) ?G)"
    by (simp add: stealth_point_attach laws)
  have kb: "key_balance C (tx_inputs t) (tx_outputs t) (tx_kernels t) (tx_stealth_offset t)
      = Inr ()"
    unfolding key_balance_iff
  proof (intro conjI exI)
    show "keys_present C (tx_inputs t) (tx_outputs t) (tx_kernels t)"
      using i(2) n c(1) stp
      by (auto simp: keys_present_def ti to tk built_output_def is_ok_def)
    show "decode_offset C (tx_stealth_offset t) = Inr so"
      by (simp add: so decode_offset_def ok_or_def alg laws)
    show "key_total C (tx_inputs t) (tx_outputs t) (tx_kernels t) = pt_mul C so ?G"
      unfolding key_total_def ti i(3)
      by (simp add: to tk n(1) nk c(3) stp alg laws)
  qed
  have full: "has_full_binding t"
    using i(2) by (auto simp: has_full_binding_def ti tk attach_stealth_def Let_def)
  have se: "verified_stealth_excess C ?k \<noteq> None"
    by (simp add: attach_stealth_verified laws)
  have cf: "checked_total_fee t \<noteq> None"
    using fee checked_fee_sum_Some_iff [of "tx_kernels t" fee]
    by (simp add: checked_total_fee_def tk)
  show ?thesis
    using shape cf full kb vb se off ko
    by (auto simp: verify_stateless_rules_def tk for_each_Inr_iff ensure_def split: if_splits)
qed

end
