(* ===== verification/Chain.thy ===== *)
theory Chain
  imports Blocks Builder
begin

text \<open>
  \<open>crates/nightfall-consensus/src/lib.rs\<close>: the chain and its operations up to pruning and
  rebuilding.  Operations on \<open>&mut self\<close> return the chain they leave with their result.
  \<open>ConsensusError::Ledger\<close> and \<open>Tx\<close> hold a rendered string in the code; here they hold
  the error itself.  \<open>json\<close> is what \<open>serde_json::to_vec\<close> makes of a genesis
  configuration.
\<close>

section \<open>Errors and state\<close>

datatype consensus_error = UnfairGenesis types_error | Codec | CTxErr tx_error
  | CTxFeeOutOfRange | LedgerErr ledger_error | BadVersion u32 u32 | BadTxCount | BadPow
  | CheckpointMismatch u64 string string | BadDifficulty u64 u64 | BadPrev | BadHeight
  | BadReward | BadTxRoot | BadUtxoRoot | BadKernelSum | TimestampTooFarAhead
  | TimestampBeforeMedian | ReorgTooDeep | MiningAborted

definition MAX_REORG_DEPTH :: nat where [params]: "MAX_REORG_DEPTH = 500"
definition MAX_TXS_PER_BLOCK :: nat where [params]: "MAX_TXS_PER_BLOCK = 512"
definition PRUNE_KEEP_BLOCKS :: nat where [params]: "PRUNE_KEEP_BLOCKS = MAX_REORG_DEPTH"

record tip_undo =
  tu_work :: u128
  tu_state :: state_undo

record 'p pruned_base =
  pb_first_height :: u64
  pb_horizon :: "'p ledger_state"
  pb_horizon_work :: u128
  pb_headers :: "compact_header list"

record 'p chain =
  network :: network_id
  genesis :: genesis_config
  genesis_hash :: bytes
  emission :: emission_schedule
  ledger :: "'p ledger_state"
  blocks :: "block list"
  headers :: "compact_header list"
  first_height :: u64
  horizon :: "'p ledger_state option"
  horizon_work :: u128
  total_work :: u128
  undos :: "tip_undo list"

definition new_fair ::
    "('p::ab_group_add, 's) crypto \<Rightarrow> (genesis_config \<Rightarrow> bytes option) \<Rightarrow> network_id
       \<Rightarrow> consensus_error + 'p chain" where
  "new_fair C json n =
     res_bind (map_err UnfairGenesis (assert_fair (fair_launch n))) (\<lambda>_.
     res_bind (ok_or Codec (json (fair_launch n))) (\<lambda>bs.
       Inr \<lparr>network = n, genesis = fair_launch n, genesis_hash = genesis_commitment C bs,
            emission = locked_mainnet, ledger = state_for_network C n, blocks = [],
            headers = [], first_height = 0, horizon = None, horizon_work = 0,
            total_work = 0, undos = []\<rparr>))"

section \<open>Queries\<close>

definition proof_ctx :: "'p chain \<Rightarrow> bytes" where
  "proof_ctx ch = proof_context (network ch)"

definition binding_active_at :: "'p chain \<Rightarrow> u64 \<Rightarrow> bool" where
  "binding_active_at ch h \<longleftrightarrow> binding_fork_height (network ch) \<le> h"

definition chain_pow_params :: "'p chain \<Rightarrow> pow_params" where
  "chain_pow_params ch = network_pow_params (network ch)"

definition last_opt :: "'a list \<Rightarrow> 'a option" where
  "last_opt xs = (if xs = [] then None else Some (last xs))"

definition tip_height :: "'p chain \<Rightarrow> u64 option" where
  "tip_height ch =
     (case last_opt (headers ch) of
        Some h \<Rightarrow> Some (c_height h)
      | None \<Rightarrow> map_option (\<lambda>b. h_height (blk_header b)) (last_opt (blocks ch)))"

definition next_height :: "'p chain \<Rightarrow> u64" where
  "next_height ch =
     (case tip_height ch of Some h \<Rightarrow> height_next h | None \<Rightarrow> first_height ch)"

definition block_count :: "'p chain \<Rightarrow> u64" where
  "block_count ch =
     (if headers ch \<noteq> [] then of_nat (length (headers ch))
      else first_height ch + of_nat (length (blocks ch)))"

definition is_pruned :: "'p chain \<Rightarrow> bool" where
  "is_pruned ch \<longleftrightarrow> 0 < first_height ch"

definition tip_hash :: "('p, 's) crypto \<Rightarrow> 'p chain \<Rightarrow> bytes" where
  "tip_hash C ch =
     (case last_opt (headers ch) of
        Some h \<Rightarrow> c_hash h
      | None \<Rightarrow>
          (case last_opt (blocks ch) of
             Some b \<Rightarrow> block_hash C b
           | None \<Rightarrow> genesis_hash ch))"

definition block_by_height :: "'p chain \<Rightarrow> u64 \<Rightarrow> block option" where
  "block_by_height ch height =
     (case checked_sub height (first_height ch) of
        None \<Rightarrow> None
      | Some i \<Rightarrow>
          if unat i < length (blocks ch)
             \<and> h_height (blk_header (blocks ch ! unat i)) = height
          then Some (blocks ch ! unat i) else None)"

definition hash_at :: "('p, 's) crypto \<Rightarrow> 'p chain \<Rightarrow> u64 \<Rightarrow> bytes option" where
  "hash_at C ch height =
     (if unat height < length (headers ch) then Some (c_hash (headers ch ! unat height))
      else map_option (block_hash C) (block_by_height ch height))"

definition hash_chain :: "('p, 's) crypto \<Rightarrow> 'p chain \<Rightarrow> bytes list" where
  "hash_chain C ch =
     (if headers ch \<noteq> [] then map c_hash (headers ch) else map (block_hash C) (blocks ch))"

definition pruned_base_of :: "'p chain \<Rightarrow> 'p pruned_base option" where
  "pruned_base_of ch =
     (if first_height ch = 0 then None
      else map_option (\<lambda>hz. \<lparr>pb_first_height = first_height ch, pb_horizon = hz,
             pb_horizon_work = horizon_work ch,
             pb_headers = take (unat (first_height ch)) (headers ch)\<rparr>) (horizon ch))"

definition total_minted :: "'p chain \<Rightarrow> u64" where
  "total_minted ch = total_minted_darks (l_supply (ledger ch))"

definition blocks_from :: "'p chain \<Rightarrow> u64 \<Rightarrow> nat \<Rightarrow> block list" where
  "blocks_from ch start limit =
     (if start < first_height ch then []
      else take limit (drop (unat (start - first_height ch)) (blocks ch)))"

definition bodies_through :: "'p chain \<Rightarrow> u64 \<Rightarrow> block list option" where
  "bodies_through ch height =
     (if first_height ch = 0
      then Some (take (min (unat height + 1) (length (blocks ch))) (blocks ch))
      else
        (let before_first = first_height ch - 1 in
         if height < before_first then None
         else if height = before_first then Some []
         else
           (case checked_sub height (first_height ch) of
              None \<Rightarrow> None
            | Some i \<Rightarrow>
                if length (blocks ch) \<le> unat i then None
                else Some (take (unat i + 1) (blocks ch)))))"

definition difficulty_history :: "'p chain \<Rightarrow> (u64 \<times> u64) list" where
  "difficulty_history ch =
     (if headers ch \<noteq> [] then map (\<lambda>h. (c_timestamp h, c_difficulty h)) (headers ch)
      else map (\<lambda>b. (h_timestamp (blk_header b), h_difficulty (blk_header b))) (blocks ch))"

definition chain_next_difficulty :: "'p chain \<Rightarrow> u64" where
  "chain_next_difficulty ch =
     next_difficulty (difficulty_history ch) (initial_difficulty (network ch))
       (min_difficulty (network ch))"

definition chain_median_time_past :: "'p chain \<Rightarrow> u64" where
  "chain_median_time_past ch =
     median_time_past
       (if headers ch \<noteq> [] then map c_timestamp (headers ch)
        else map (\<lambda>b. h_timestamp (blk_header b)) (blocks ch))"

definition chain_subsidy :: "'p chain \<Rightarrow> u64 \<Rightarrow> u64" where
  "chain_subsidy ch height =
     darks (reward_at (emission ch) height (total_minted_darks (l_supply (ledger ch))))"

section \<open>Applying blocks\<close>

definition sat_work :: "u128 \<Rightarrow> u128 \<Rightarrow> u128" where
  "sat_work a b = sat_add a b"

definition push_block :: "('p, 's) crypto \<Rightarrow> block \<Rightarrow> 'p chain \<Rightarrow> 'p chain" where
  "push_block C b ch =
     ch\<lparr>headers := headers ch @ [compact_of C b], blocks := blocks ch @ [b]\<rparr>"

text \<open>The \<open>VecDeque\<close> pops its front until it holds at most \<open>MAX_REORG_DEPTH\<close> undos.\<close>

definition trim_undos :: "tip_undo list \<Rightarrow> tip_undo list" where
  "trim_undos us = drop (length us - MAX_REORG_DEPTH) us"

definition remember_undo :: "state_undo \<Rightarrow> u128 \<Rightarrow> 'p chain \<Rightarrow> 'p chain" where
  "remember_undo st work ch =
     ch\<lparr>undos := trim_undos (undos ch @ [\<lparr>tu_work = work, tu_state = st\<rparr>])\<rparr>"

definition shape_block :: "'p chain \<Rightarrow> block \<Rightarrow> block" where
  "shape_block ch b =
     (if \<not> binding_active_at ch (h_height (blk_header b)) then block_strip_binding b else b)"

definition check_pin :: "('p, 's) crypto \<Rightarrow> block \<Rightarrow> consensus_error + unit" where
  "check_pin C b =
     (case checkpoint_at (h_height (blk_header b)) of
        None \<Rightarrow> Inr ()
      | Some pinned \<Rightarrow>
          if hash_to_hex (block_hash C b) \<noteq> pinned
          then Inl (CheckpointMismatch (h_height (blk_header b)) pinned
                      (hash_to_hex (block_hash C b)))
          else Inr ())"

text \<open>Everything \<open>apply_block_inner\<close> tests before it touches the ledger.\<close>

definition check_block ::
    "('p, 's) crypto \<Rightarrow> 'p chain \<Rightarrow> block \<Rightarrow> u64 \<Rightarrow> bool \<Rightarrow> consensus_error + unit" where
  "check_block C ch b now verify_pow =
     (let h = blk_header b in
      if h_version h \<noteq> PROTOCOL_VERSION then Inl (BadVersion (h_version h) PROTOCOL_VERSION)
      else if b_outputs (blk_body b) = [] \<or> b_kernels (blk_body b) = [] then Inl BadTxCount
      else if exceeds_size_limits (blk_body b) then Inl (LedgerErr BlockTooLarge)
      else if h_height h \<noteq> next_height ch then Inl BadHeight
      else if h_prev_hash h \<noteq> tip_hash C ch then Inl BadPrev
      else
        res_bind (check_pin C b) (\<lambda>_.
          if verify_pow \<and> sat_add now MAX_FUTURE_DRIFT_SECS < h_timestamp h
            then Inl TimestampTooFarAhead
          else if 0 < block_count ch \<and> h_timestamp h \<le> chain_median_time_past ch
            then Inl TimestampBeforeMedian
          else if h_difficulty h \<noteq> chain_next_difficulty ch
            then Inl (BadDifficulty (h_difficulty h) (chain_next_difficulty ch))
          else if verify_pow \<and> \<not> pow_is_valid C b (chain_pow_params ch) then Inl BadPow
          else
            (let subsidy = chain_subsidy ch (h_height h);
                 due = (if 0 < subsidy then subsidy else body_total_fee (blk_body b)) in
             if h_reward h \<noteq> due then Inl BadReward
             else if body_hash C (blk_body b) \<noteq> h_body_root h then Inl BadTxRoot
             else Inr ())))"

definition apply_block_inner ::
    "('p::ab_group_add, 's::comm_ring_1) crypto \<Rightarrow> 'p chain \<Rightarrow> block \<Rightarrow> u64 \<Rightarrow> bool
       \<Rightarrow> 'p chain \<times> (consensus_error + unit)" where
  "apply_block_inner C ch block now verify_pow =
     (let b = shape_block ch block; h = blk_header b in
      case check_block C ch b now verify_pow of
        Inl e \<Rightarrow> (ch, Inl e)
      | Inr _ \<Rightarrow>
         (let subsidy = chain_subsidy ch (h_height h) in
          case capture_undo (ledger ch) (blk_body b) of
            Inl e \<Rightarrow> (ch, Inl (LedgerErr e))
          | Inr undo \<Rightarrow>
             (case Ledger.apply_block C (ledger ch) (blk_body b) (h_height h) subsidy
                     (proof_ctx ch) of
                (S', Inl e) \<Rightarrow> (ch\<lparr>ledger := S'\<rparr>, Inl (LedgerErr e))
              | (S', Inr _) \<Rightarrow>
                  if ledger_utxo_root C S' \<noteq> h_utxo_root h
                    then (ch\<lparr>ledger := rewind C undo S'\<rparr>, Inl BadUtxoRoot)
                  else if acc_sum (l_kernels S') \<noteq> h_kernel_sum h
                    then (ch\<lparr>ledger := rewind C undo S'\<rparr>, Inl BadKernelSum)
                  else
                    (remember_undo undo (blk_work b)
                       (push_block C b
                         (ch\<lparr>ledger := S', total_work := sat_work (total_work ch) (blk_work b)\<rparr>)),
                     Inr ()))))"

definition chain_apply_block ::
    "('p::ab_group_add, 's::comm_ring_1) crypto \<Rightarrow> 'p chain \<Rightarrow> block \<Rightarrow> u64
       \<Rightarrow> 'p chain \<times> (consensus_error + unit)" where
  "chain_apply_block C ch b now = apply_block_inner C ch b now True"

definition apply_block_locally_trusted ::
    "('p::ab_group_add, 's::comm_ring_1) crypto \<Rightarrow> 'p chain \<Rightarrow> block \<Rightarrow> u64
       \<Rightarrow> 'p chain \<times> (consensus_error + unit)" where
  "apply_block_locally_trusted C ch b now = apply_block_inner C ch b now False"

definition apply_block_from_own_disk ::
    "('p::ab_group_add, 's::comm_ring_1) crypto \<Rightarrow> 'p chain \<Rightarrow> block
       \<Rightarrow> 'p chain \<times> (consensus_error + unit)" where
  "apply_block_from_own_disk C ch block =
     (let b = shape_block ch block; h = blk_header b in
      if h_version h \<noteq> PROTOCOL_VERSION
        then (ch, Inl (BadVersion (h_version h) PROTOCOL_VERSION))
      else if h_height h \<noteq> next_height ch then (ch, Inl BadHeight)
      else if h_prev_hash h \<noteq> tip_hash C ch then (ch, Inl BadPrev)
      else
        (case check_pin C b of
           Inl e \<Rightarrow> (ch, Inl e)
         | Inr _ \<Rightarrow>
            (let subsidy = chain_subsidy ch (h_height h) in
             case capture_undo (ledger ch) (blk_body b) of
               Inl e \<Rightarrow> (ch, Inl (LedgerErr e))
             | Inr undo \<Rightarrow>
                (case apply_block_state_only C (ledger ch) (blk_body b) (h_height h) subsidy of
                   (S', Inl e) \<Rightarrow> (ch\<lparr>ledger := S'\<rparr>, Inl (LedgerErr e))
                 | (S', Inr _) \<Rightarrow>
                     (remember_undo undo (blk_work b)
                        (push_block C b
                          (ch\<lparr>ledger := S',
                              total_work := sat_work (total_work ch) (blk_work b)\<rparr>)),
                      Inr ())))))"

text \<open>Extending the tip, stopping at the first block that does not connect.\<close>

fun ingest_from ::
    "('p::ab_group_add, 's::comm_ring_1) crypto \<Rightarrow> nat \<Rightarrow> 'p chain \<Rightarrow> block list \<Rightarrow> u64
       \<Rightarrow> 'p chain \<times> (consensus_error + nat)" where
  "ingest_from C applied ch [] now = (ch, Inr applied)"
| "ingest_from C applied ch (b # bs) now =
     (case chain_apply_block C ch b now of
        (ch', Inr _) \<Rightarrow> ingest_from C (applied + 1) ch' bs now
      | (ch', Inl e) \<Rightarrow>
          if e = BadPrev \<or> e = BadHeight \<or> 0 < applied then (ch', Inr applied)
          else (ch', Inl e))"

definition try_ingest_blocks ::
    "('p::ab_group_add, 's::comm_ring_1) crypto \<Rightarrow> 'p chain \<Rightarrow> block list \<Rightarrow> u64
       \<Rightarrow> 'p chain \<times> (consensus_error + nat)" where
  "try_ingest_blocks C ch bs now = ingest_from C 0 ch bs now"

section \<open>Pruning\<close>

definition rewound_work :: "'p chain \<Rightarrow> nat \<Rightarrow> u128 option" where
  "rewound_work ch n =
     (if length (undos ch) < n then None
      else Some (\<Sum>u \<leftarrow> take n (rev (undos ch)). tu_work u))"

text \<open>The loop over the dropped bodies, on the horizon ledger and its work.\<close>

fun replay_bodies ::
    "('p::ab_group_add, 's::comm_ring_1) crypto \<Rightarrow> emission_schedule \<Rightarrow> 'p ledger_state \<times> u128
       \<Rightarrow> block list \<Rightarrow> ('p ledger_state \<times> u128) \<times> (ledger_error + unit)" where
  "replay_bodies C em acc [] = (acc, Inr ())"
| "replay_bodies C em (S, w) (b # bs) =
     (let subsidy = darks (reward_at em (h_height (blk_header b))
                             (total_minted_darks (l_supply S))) in
      case apply_block_state_only C S (blk_body b) (h_height (blk_header b)) subsidy of
        (S', Inl e) \<Rightarrow> ((S', w), Inl e)
      | (S', Inr _) \<Rightarrow> replay_bodies C em (S', sat_work w (blk_work b)) bs)"

definition prune_keep ::
    "('p::ab_group_add, 's::comm_ring_1) crypto \<Rightarrow> 'p chain \<Rightarrow> nat
       \<Rightarrow> 'p chain \<times> (consensus_error + nat)" where
  "prune_keep C ch keep0 =
     (let keep = max keep0 1 in
      if length (blocks ch) \<le> keep then (ch, Inr 0)
      else
        (let drop_n = length (blocks ch) - keep;
             (hz, hw) = (case horizon ch of
                           None \<Rightarrow> (state_for_network C (network ch), 0)
                         | Some hz \<Rightarrow> (hz, horizon_work ch)) in
         case replay_bodies C (emission ch) (hz, hw) (take drop_n (blocks ch)) of
           ((hz', hw'), Inl e) \<Rightarrow>
             (ch\<lparr>horizon := Some hz', horizon_work := hw'\<rparr>, Inl (LedgerErr e))
         | ((hz', hw'), Inr _) \<Rightarrow>
             (ch\<lparr>horizon := Some hz', horizon_work := hw',
                 blocks := drop drop_n (blocks ch),
                 first_height := first_height ch + of_nat drop_n\<rparr>, Inr drop_n)))"

section \<open>Rebuilding\<close>

definition check_tip_roots :: "('p, 's) crypto \<Rightarrow> 'p chain \<Rightarrow> consensus_error + unit" where
  "check_tip_roots C ch =
     (case last_opt (blocks ch) of
        None \<Rightarrow> Inr ()
      | Some tip \<Rightarrow>
          if ledger_utxo_root C (ledger ch) \<noteq> h_utxo_root (blk_header tip) then Inl BadUtxoRoot
          else if acc_sum (l_kernels (ledger ch)) \<noteq> h_kernel_sum (blk_header tip)
            then Inl BadKernelSum
          else Inr ())"

definition state_result :: "'a \<times> (consensus_error + unit) \<Rightarrow> consensus_error + 'a" where
  "state_result r = (case snd r of Inl e \<Rightarrow> Inl e | Inr _ \<Rightarrow> Inr (fst r))"

text \<open>The loop of both rebuilds: the trusted prefix from disk, the rest in full.\<close>

fun rebuild_from ::
    "('p::ab_group_add, 's::comm_ring_1) crypto \<Rightarrow> nat \<Rightarrow> u64 \<Rightarrow> nat \<Rightarrow> 'p chain \<Rightarrow> block list
       \<Rightarrow> consensus_error + 'p chain" where
  "rebuild_from C trusted now i ch [] = Inr ch"
| "rebuild_from C trusted now i ch (b # bs) =
     (if i < trusted then
        res_bind (state_result (apply_block_from_own_disk C ch b))
          (\<lambda>ch'. rebuild_from C trusted now (i + 1) ch' bs)
      else
        res_bind (if i = trusted \<and> 0 < trusted then check_tip_roots C ch else Inr ())
          (\<lambda>_. res_bind (state_result (chain_apply_block C ch b now))
                 (\<lambda>ch'. rebuild_from C trusted now (i + 1) ch' bs)))"

text \<open>
  \<open>no_assume\<close> says that the environment variable \<open>NIGHTFALL_NO_ASSUME_VALID\<close> is set.
\<close>

definition assume_valid_to :: "bool \<Rightarrow> network_id \<Rightarrow> nat \<Rightarrow> nat" where
  "assume_valid_to no_assume n len =
     (if n = Mainnet \<and> 0 < highest_checkpoint_height
         \<and> highest_checkpoint_height < (of_nat len :: u64) \<and> \<not> no_assume
      then unat (highest_checkpoint_height + 1) else 0)"

definition rebuild_from_blocks_trusted_prefix ::
    "('p::ab_group_add, 's::comm_ring_1) crypto \<Rightarrow> (genesis_config \<Rightarrow> bytes option) \<Rightarrow> bool
       \<Rightarrow> network_id \<Rightarrow> block list \<Rightarrow> nat \<Rightarrow> u64 \<Rightarrow> consensus_error + 'p chain" where
  "rebuild_from_blocks_trusted_prefix C json no_assume n bs trusted0 now =
     (let trusted = max trusted0 (assume_valid_to no_assume n (length bs)) in
      res_bind (new_fair C json n) (\<lambda>ch0.
      res_bind (rebuild_from C trusted now 0 ch0 bs) (\<lambda>ch.
      res_bind (if 0 < trusted \<and> unat (block_count ch) \<le> trusted then check_tip_roots C ch
                else Inr ()) (\<lambda>_. Inr ch))))"

definition rebuild_from_blocks ::
    "('p::ab_group_add, 's::comm_ring_1) crypto \<Rightarrow> (genesis_config \<Rightarrow> bytes option) \<Rightarrow> bool
       \<Rightarrow> network_id \<Rightarrow> block list \<Rightarrow> u64 \<Rightarrow> consensus_error + 'p chain" where
  "rebuild_from_blocks C json no_assume n bs now =
     rebuild_from_blocks_trusted_prefix C json no_assume n bs 0 now"

section \<open>Mempool admission and supply\<close>

definition precheck_tx_typed ::
    "('p::ab_group_add, 's::comm_ring_1) crypto \<Rightarrow> 'p chain \<Rightarrow> transaction
       \<Rightarrow> ledger_error + unit" where
  "precheck_tx_typed C ch t = check_tx_acceptable C (ledger ch) t (next_height ch) (proof_ctx ch)"

definition chain_verify_supply ::
    "('p::ab_group_add, 's::comm_ring_1) crypto \<Rightarrow> 'p chain \<Rightarrow> consensus_error + unit" where
  "chain_verify_supply C ch =
     map_err (LedgerErr \<circ> SupplyErr) (verify_supply C (ledger ch))"

end
