(* ===== verification/Mempool.thy ===== *)
theory Mempool
  imports Chain "HOL-Library.Char_ord" "HOL-Library.Product_Lexorder"
begin

text \<open>
  \<open>crates/nightfall-consensus/src/lib.rs\<close>: block templates and the mempool.
\<close>

section \<open>Block templates\<close>

text \<open>
  \<open>crates/nightfall-consensus/src/lib.rs\<close>: block templates.  \<open>dr\<close> are the draws of the
  coinbase builder; \<open>build_template_filtering\<close> may build three times and takes three.
\<close>

definition template_txs :: "'p chain \<Rightarrow> u64 \<Rightarrow> transaction list \<Rightarrow> transaction list" where
  "template_txs ch height extra =
     (let kept = take (MAX_TXS_PER_BLOCK - 1) extra
      in if binding_active_at ch height then kept else map strip_binding kept)"

definition template_fees :: "bool \<Rightarrow> transaction list \<Rightarrow> u64 option" where
  "template_fees binding txs =
     (if binding then
        try_fold (\<lambda>acc t. Option.bind (checked_total_fee t) (checked_add acc)) 0 txs
      else Some (fold (\<lambda>t acc. acc + total_fee t) txs 0))"

definition build_template ::
    "('p::ab_group_add, 's::comm_ring_1) crypto \<Rightarrow> 's draws \<Rightarrow> 'p chain \<Rightarrow> address
       \<Rightarrow> transaction list \<Rightarrow> u64 \<Rightarrow> consensus_error + block_template" where
  "build_template C dr ch miner extra timestamp =
     (let height = next_height ch;
          difficulty = chain_next_difficulty ch;
          subsidy = chain_subsidy ch height;
          binding = binding_active_at ch height;
          txs = template_txs ch height extra in
      res_bind (ok_or CTxFeeOutOfRange (template_fees binding txs)) (\<lambda>fees.
      (let coinbase_darks = (if 0 < subsidy then subsidy else fees) in
      res_bind (map_err CTxErr (build_coinbase C dr miner coinbase_darks height (proof_ctx ch)))
        (\<lambda>coinbase0.
      (let coinbase = (if binding then coinbase0 else strip_binding coinbase0);
           body = aggregate C (coinbase # txs) in
       case Ledger.apply_block C (ledger ch) body height subsidy (proof_ctx ch) of
         (_, Inl e) \<Rightarrow> Inl (LedgerErr e)
       | (trial, Inr _) \<Rightarrow>
           Inr \<lparr>t_header =
                  \<lparr>h_version = PROTOCOL_VERSION, h_height = height, h_prev_hash = tip_hash C ch,
                   h_utxo_root = ledger_utxo_root C trial,
                   h_kernel_sum = acc_sum (l_kernels trial), h_body_root = body_hash C body,
                   h_timestamp = max timestamp (sat_add (chain_median_time_past ch) 1),
                   h_difficulty = difficulty, h_nonce = 0, h_reward = coinbase_darks\<rparr>,
                t_body = body, t_built_on = tip_hash C ch\<rparr>)))))"

definition acceptable_at ::
    "('p::ab_group_add, 's::comm_ring_1) crypto \<Rightarrow> 'p chain \<Rightarrow> transaction \<Rightarrow> bool" where
  "acceptable_at C ch t \<longleftrightarrow>
     is_ok (check_tx_acceptable C (ledger ch) t (next_height ch) (proof_ctx ch))"

definition build_template_filtering ::
    "('p::ab_group_add, 's::comm_ring_1) crypto \<Rightarrow> 's draws \<times> 's draws \<times> 's draws \<Rightarrow> 'p chain
       \<Rightarrow> address \<Rightarrow> transaction list \<Rightarrow> u64
       \<Rightarrow> consensus_error + block_template \<times> string list" where
  "build_template_filtering C drs ch miner extra timestamp =
     (case build_template C (fst drs) ch miner extra timestamp of
        Inr t \<Rightarrow> Inr (t, [])
      | Inl _ \<Rightarrow>
          (let keep = filter (acceptable_at C ch) extra;
               dropped = map (\<lambda>t. hash_to_hex (txid C t))
                           (filter (\<lambda>t. \<not> acceptable_at C ch t) extra) in
           case build_template C (fst (snd drs)) ch miner keep timestamp of
             Inr t \<Rightarrow> Inr (t, dropped)
           | Inl _ \<Rightarrow>
               res_bind (build_template C (snd (snd drs)) ch miner [] timestamp)
                 (\<lambda>t. Inr (t, dropped))))"

text \<open>
  \<open>mine_block\<close> mines with \<open>mine_parallel\<close>, whose result is an argument: the nonce a
  worker found, or \<open>None\<close>.
\<close>

definition mine_block ::
    "('p::ab_group_add, 's::comm_ring_1) crypto \<Rightarrow> 's draws
       \<Rightarrow> (bytes \<Rightarrow> u64 \<Rightarrow> u64 \<Rightarrow> pow_params \<Rightarrow> (u64 \<times> bytes) option) \<Rightarrow> 'p chain \<Rightarrow> address
       \<Rightarrow> transaction list \<Rightarrow> u64 \<Rightarrow> 'p chain \<times> (consensus_error + block)" where
  "mine_block C dr mine ch miner extra timestamp =
     (case build_template C dr ch miner extra timestamp of
        Inl e \<Rightarrow> (ch, Inl e)
      | Inr t \<Rightarrow>
          (case mine (pow_preimage C (t_header t)) (h_difficulty (t_header t)) 0
                  (chain_pow_params ch) of
             None \<Rightarrow> (ch, Inl MiningAborted)
           | Some (nonce, _) \<Rightarrow>
               (case chain_apply_block C ch (seal t nonce) timestamp of
                  (ch', Inl e) \<Rightarrow> (ch', Inl e)
                | (ch', Inr _) \<Rightarrow> (ch', Inr (seal t nonce)))))"

text \<open>
  \<open>crates/nightfall-consensus/src/lib.rs\<close>: the mempool.  The two \<open>HashMap\<close>s are ordered
  maps here, which fixes the iteration order the code leaves open; no result depends on it
  except the order of the list \<open>unacceptable_ids\<close> returns.  Operations on \<open>&mut self\<close>
  return the pool they leave with their result.

  \<open>mempool_ok\<close>: the entries are filed under their ids, the timestamp index has the same
  ids, no two entries spend the same output, and the pool is within its cap.
\<close>

section \<open>The state of the mempool\<close>

datatype insert_outcome = Added | Known | Conflict | Full

record mempool =
  pool_txs :: "(string, transaction) omap"
  pool_seen :: "(string, u64) omap"

definition mempool_default :: mempool where
  "mempool_default = \<lparr>pool_txs = [], pool_seen = []\<rparr>"

definition MAX_ENTRIES :: nat where [params]: "MAX_ENTRIES = 10000"
definition MAX_AGE_SECS :: u64 where [params]: "MAX_AGE_SECS = 6 * 3600"

section \<open>Operations\<close>

definition in_commits :: "transaction \<Rightarrow> bytes set" where
  "in_commits t = set (map in_commit (tx_inputs t))"

definition spends_any :: "bytes set \<Rightarrow> transaction \<Rightarrow> bool" where
  "spends_any cs t \<longleftrightarrow> (\<exists>i \<in> set (tx_inputs t). in_commit i \<in> cs)"

definition expire :: "u64 \<Rightarrow> mempool \<Rightarrow> mempool \<times> nat" where
  "expire now p =
     (let cutoff = sat_sub now MAX_AGE_SECS;
          txs' = filter (\<lambda>(id, _). case map_of (pool_seen p) id of None \<Rightarrow> True | Some t \<Rightarrow> cutoff < t)
                   (pool_txs p);
          seen' = filter (\<lambda>(k, _). k \<in> fst ` set txs') (pool_seen p)
      in (\<lparr>pool_txs = txs', pool_seen = seen'\<rparr>, length (pool_txs p) - length txs'))"

definition upgrades :: "('p, 's) crypto \<Rightarrow> transaction \<Rightarrow> transaction \<Rightarrow> bool" where
  "upgrades C held t \<longleftrightarrow>
     \<not> has_full_binding held \<and> has_full_binding t \<and> legacy_txid C held = legacy_txid C t"

definition insert_room ::
    "('p, 's) crypto \<Rightarrow> transaction \<Rightarrow> u64 \<Rightarrow> mempool \<Rightarrow> mempool \<times> insert_outcome" where
  "insert_room C t now p =
     (let id = hash_to_hex (txid C t) in
      if map_of (pool_txs p) id \<noteq> None then (p, Known)
      else
        (let wanted = in_commits t;
             conflicts = map fst (filter (\<lambda>(_, held). spends_any wanted held) (pool_txs p)) in
         case conflicts of
           [] \<Rightarrow>
             (\<lparr>pool_txs = om_insert id t (pool_txs p),
               pool_seen = (case map_of (pool_seen p) id of
                              None \<Rightarrow> om_insert id now (pool_seen p)
                            | Some _ \<Rightarrow> pool_seen p)\<rparr>, Added)
         | c # rest \<Rightarrow>
             (case map_of (pool_txs p) c of
                None \<Rightarrow> (p, Conflict)
              | Some held \<Rightarrow>
                  if rest = [] \<and> upgrades C held t then
                    (let first = (case map_of (pool_seen p) c of None \<Rightarrow> now | Some s \<Rightarrow> s) in
                     (\<lparr>pool_txs = om_insert id t (om_remove c (pool_txs p)),
                       pool_seen = om_insert id first (om_remove c (pool_seen p))\<rparr>, Added))
                  else (p, Conflict))))"

definition insert_checked ::
    "('p, 's) crypto \<Rightarrow> transaction \<Rightarrow> u64 \<Rightarrow> mempool \<Rightarrow> mempool \<times> insert_outcome" where
  "insert_checked C t now p =
     (if MAX_ENTRIES \<le> length (pool_txs p) then
        (let p' = fst (expire now p) in
         if MAX_ENTRIES \<le> length (pool_txs p') then (p', Full) else insert_room C t now p')
      else insert_room C t now p)"

definition mempool_insert ::
    "('p, 's) crypto \<Rightarrow> transaction \<Rightarrow> u64 \<Rightarrow> mempool \<Rightarrow> mempool \<times> bool" where
  "mempool_insert C t now p =
     (let (p', r) = insert_checked C t now p in (p', r = Added))"

definition first_seen :: "mempool \<Rightarrow> string \<Rightarrow> u64 option" where
  "first_seen p k = map_of (pool_seen p) k"

definition remove_included :: "block \<Rightarrow> mempool \<Rightarrow> mempool" where
  "remove_included b p =
     (let spent = set (map in_commit (b_inputs (blk_body b)));
          created = set (map out_commit (b_outputs (blk_body b)));
          txs' = filter (\<lambda>(_, t). \<not> spends_any spent t
                   \<and> \<not> (\<exists>o' \<in> set (tx_outputs t). out_commit o' \<in> created)) (pool_txs p)
      in \<lparr>pool_txs = txs', pool_seen = filter (\<lambda>(k, _). k \<in> fst ` set txs') (pool_seen p)\<rparr>)"

definition drop_ids :: "string list \<Rightarrow> mempool \<Rightarrow> mempool \<times> nat" where
  "drop_ids ids p =
     (let p' = fold (\<lambda>id q. \<lparr>pool_txs = om_remove id (pool_txs q),
                            pool_seen = om_remove id (pool_seen q)\<rparr>) ids p
      in (p', length (pool_txs p) - length (pool_txs p')))"

definition unacceptable_ids :: "(transaction \<Rightarrow> bool) \<Rightarrow> mempool \<Rightarrow> string list" where
  "unacceptable_ids acceptable p = map fst (filter (\<lambda>(_, t). \<not> acceptable t) (pool_txs p))"

text \<open>Highest fee first, ties by txid; an unchecked fee counts as zero.\<close>

definition pool_fee :: "transaction \<Rightarrow> u64" where
  "pool_fee t = (case checked_total_fee t of None \<Rightarrow> 0 | Some f \<Rightarrow> f)"

definition pool_rank :: "('p, 's) crypto \<Rightarrow> transaction \<Rightarrow> int \<times> bytes" where
  "pool_rank C t = (- int (unat (pool_fee t)), txid C t)"

fun choose_from ::
    "nat \<Rightarrow> transaction list \<Rightarrow> bytes set \<Rightarrow> transaction list \<Rightarrow> transaction list" where
  "choose_from limit chosen spent [] = chosen"
| "choose_from limit chosen spent (t # ts) =
     (if limit \<le> length chosen then chosen
      else if spends_any spent t then choose_from limit chosen spent ts
      else choose_from limit (chosen @ [t]) (spent \<union> in_commits t) ts)"

definition select_for_block :: "('p, 's) crypto \<Rightarrow> mempool \<Rightarrow> nat \<Rightarrow> transaction list" where
  "select_for_block C p limit =
     choose_from limit [] {} (sort_key (pool_rank C) (map snd (pool_txs p)))"

section \<open>The invariant\<close>

definition apart :: "string \<times> transaction \<Rightarrow> string \<times> transaction \<Rightarrow> bool" where
  "apart e e' \<longleftrightarrow> fst e = fst e' \<or> in_commits (snd e) \<inter> in_commits (snd e') = {}"

definition mempool_ok :: "('p, 's) crypto \<Rightarrow> mempool \<Rightarrow> bool" where
  "mempool_ok C p \<longleftrightarrow> om_ok (pool_txs p) \<and> om_ok (pool_seen p)
     \<and> fst ` set (pool_txs p) = fst ` set (pool_seen p)
     \<and> (\<forall>e \<in> set (pool_txs p). fst e = hash_to_hex (txid C (snd e)))
     \<and> (\<forall>e \<in> set (pool_txs p). \<forall>e' \<in> set (pool_txs p). apart e e')
     \<and> length (pool_txs p) \<le> MAX_ENTRIES"

lemma spends_any_iff: "spends_any cs t \<longleftrightarrow> in_commits t \<inter> cs \<noteq> {}"
  by (auto simp: spends_any_def in_commits_def)

lemma om_ok_filter: "om_ok m \<Longrightarrow> om_ok (filter P m)"
  by (induction m) auto

lemma mempool_ok_default: "mempool_ok C mempool_default"
  by (simp add: mempool_ok_def mempool_default_def)

lemma keys_index: "A \<subseteq> fst ` set m \<Longrightarrow> fst ` set (filter (\<lambda>(k, _). k \<in> A) m) = A"
  by (fastforce simp: image_iff subset_iff)

lemma mempool_okD:
  assumes "mempool_ok C p"
  shows "om_ok (pool_txs p)" "om_ok (pool_seen p)"
    "fst ` set (pool_txs p) = fst ` set (pool_seen p)"
    "e \<in> set (pool_txs p) \<Longrightarrow> fst e = hash_to_hex (txid C (snd e))"
    "e \<in> set (pool_txs p) \<Longrightarrow> e' \<in> set (pool_txs p) \<Longrightarrow> apart e e'"
    "length (pool_txs p) \<le> MAX_ENTRIES"
  using assms unfolding mempool_ok_def by blast+

lemma mempool_ok_sub:
  assumes "mempool_ok C p" "om_ok txs'" "set txs' \<subseteq> set (pool_txs p)"
    "length txs' \<le> length (pool_txs p)" "om_ok seen'" "fst ` set txs' = fst ` set seen'"
  shows "mempool_ok C \<lparr>pool_txs = txs', pool_seen = seen'\<rparr>"
proof -
  note d = mempool_okD [OF assms(1)]
  have "length txs' \<le> MAX_ENTRIES" using d(6) assms(4) by linarith
  moreover have "\<forall>e \<in> set txs'. fst e = hash_to_hex (txid C (snd e))"
    using d(4) assms(3) by blast
  moreover have "\<forall>e \<in> set txs'. \<forall>e' \<in> set txs'. apart e e'" using d(5) assms(3) by blast
  ultimately show ?thesis using assms(2,5,6) by (simp add: mempool_ok_def)
qed

lemma mempool_ok_filter:
  assumes "mempool_ok C p"
  shows "mempool_ok C \<lparr>pool_txs = filter P (pool_txs p),
    pool_seen = filter (\<lambda>(k, _). k \<in> fst ` set (filter P (pool_txs p))) (pool_seen p)\<rparr>"
proof (rule mempool_ok_sub [OF assms])
  have "fst ` set (filter P (pool_txs p)) \<subseteq> fst ` set (pool_seen p)"
    using mempool_okD(3) [OF assms] by auto
  then show "fst ` set (filter P (pool_txs p))
      = fst ` set (filter (\<lambda>(k, _). k \<in> fst ` set (filter P (pool_txs p))) (pool_seen p))"
    by (simp only: keys_index)
qed (use mempool_okD(1,2) [OF assms] in \<open>auto simp: om_ok_filter length_filter_le\<close>)

lemma expire_ok: "mempool_ok C p \<Longrightarrow> mempool_ok C (fst (expire now p))"
  using mempool_ok_filter [of C p] by (simp add: expire_def Let_def)

lemma remove_included_ok: "mempool_ok C p \<Longrightarrow> mempool_ok C (remove_included b p)"
  using mempool_ok_filter [of C p] by (simp add: remove_included_def Let_def)


lemma keys_om_remove: "fst ` set (om_remove k m) = fst ` set m - {k}"
  by (auto simp: om_remove_def)

lemma remove_entry_ok:
  assumes "mempool_ok C q"
  shows "mempool_ok C \<lparr>pool_txs = om_remove k (pool_txs q), pool_seen = om_remove k (pool_seen q)\<rparr>"
  by (rule mempool_ok_sub [OF assms])
    (use mempool_okD(1-3) [OF assms] in
      \<open>simp_all add: keys_om_remove, auto simp: om_remove_def length_filter_le\<close>)

lemma drop_ids_ok:
  assumes "mempool_ok C p"
  shows "mempool_ok C (fst (drop_ids ids p))"
proof -
  have "mempool_ok C (fold (\<lambda>k q. \<lparr>pool_txs = om_remove k (pool_txs q),
      pool_seen = om_remove k (pool_seen q)\<rparr>) ids p)"
    using assms by (induction ids arbitrary: p) (simp_all add: remove_entry_ok)
  then show ?thesis by (simp add: drop_ids_def Let_def)
qed

lemma map_of_mem: "om_ok m \<Longrightarrow> map_of m k = Some v \<longleftrightarrow> (k, v) \<in> set m"
  by (simp add: om_ok_distinct map_of_eq_Some_iff)

lemma conflict_mem:
  assumes "om_ok m"
  shows "k \<in> set (map fst (filter (\<lambda>(_, held). spends_any W held) m))
    \<longleftrightarrow> (\<exists>t. map_of m k = Some t \<and> in_commits t \<inter> W \<noteq> {})"
  by (force simp: map_of_mem [OF assms] spends_any_iff)

lemma length_om_insert: "length (om_insert k v m) \<le> Suc (length m)"
  by (induction m) auto

lemma insert_entry_ok:
  assumes ok: "mempool_ok C p" and room: "length (pool_txs p) < MAX_ENTRIES"
    and free: "\<And>k t'. map_of (pool_txs p) k = Some t' \<Longrightarrow> in_commits t' \<inter> in_commits t = {}"
    and s: "om_ok seen'" "fst ` set seen' = insert (hash_to_hex (txid C t)) (fst ` set (pool_seen p))"
  shows "mempool_ok C \<lparr>pool_txs = om_insert (hash_to_hex (txid C t)) t (pool_txs p),
    pool_seen = seen'\<rparr>"
proof -
  let ?k = "hash_to_hex (txid C t)" and ?m = "pool_txs p"
  note d = mempool_okD [OF ok]
  have new: "set (om_insert ?k t ?m) \<subseteq> insert (?k, t) (set ?m)"
    by (auto simp: set_om_insert [OF d(1)])
  have f: "in_commits (snd e) \<inter> in_commits t = {}" if "e \<in> set ?m" for e
    using free [of "fst e" "snd e"] that by (simp add: map_of_mem [OF d(1)])
  have "apart e e'" if "e \<in> insert (?k, t) (set ?m)" "e' \<in> insert (?k, t) (set ?m)" for e e'
    using that d(5) [of e e'] f [of e] f [of e'] by (auto simp: apart_def)
  then have "\<forall>e \<in> set (om_insert ?k t ?m). \<forall>e' \<in> set (om_insert ?k t ?m). apart e e'"
    using new by blast
  moreover have "\<forall>e \<in> set (om_insert ?k t ?m). fst e = hash_to_hex (txid C (snd e))"
    using new d(4) by auto
  moreover have "length (om_insert ?k t ?m) \<le> MAX_ENTRIES"
    using length_om_insert [of ?k t ?m] room by linarith
  ultimately show ?thesis
    using s d(1,3) by (simp add: mempool_ok_def keys_om_insert cong del: image_cong_simp)
qed


text \<open>
  What becomes of a transaction that arrives: known, taken, taken in place of the same spend
  without its binding fields, or refused because something held spends its inputs.
\<close>

lemma insert_room_cases:
  assumes ok: "mempool_ok C p" and i: "insert_room C t now p = (p', r)"
  obtains (known) t' where "map_of (pool_txs p) (hash_to_hex (txid C t)) = Some t'" "p' = p"
      "r = Known"
  | (fresh) "map_of (pool_txs p) (hash_to_hex (txid C t)) = None"
      "\<And>k t'. map_of (pool_txs p) k = Some t' \<Longrightarrow> in_commits t' \<inter> in_commits t = {}"
      "p' = \<lparr>pool_txs = om_insert (hash_to_hex (txid C t)) t (pool_txs p),
        pool_seen = om_insert (hash_to_hex (txid C t)) now (pool_seen p)\<rparr>" "r = Added"
  | (upgrade) c held s where "map_of (pool_txs p) (hash_to_hex (txid C t)) = None"
      "map_of (pool_txs p) c = Some held" "map_of (pool_seen p) c = Some s" "upgrades C held t"
      "\<And>k t'. map_of (pool_txs p) k = Some t' \<Longrightarrow> k \<noteq> c \<Longrightarrow> in_commits t' \<inter> in_commits t = {}"
      "p' = \<lparr>pool_txs = om_insert (hash_to_hex (txid C t)) t (om_remove c (pool_txs p)),
        pool_seen = om_insert (hash_to_hex (txid C t)) s (om_remove c (pool_seen p))\<rparr>" "r = Added"
  | (refused) k held where "map_of (pool_txs p) k = Some held"
      "in_commits held \<inter> in_commits t \<noteq> {}" "p' = p" "r = Conflict"
proof -
  note d = mempool_okD [OF ok]
  let ?k = "hash_to_hex (txid C t)"
  define cs where "cs = map fst (filter (\<lambda>(_, held). spends_any (in_commits t) held) (pool_txs p))"
  have mem: "k \<in> set cs \<longleftrightarrow> (\<exists>t'. map_of (pool_txs p) k = Some t' \<and> in_commits t' \<inter> in_commits t \<noteq> {})"
    for k unfolding cs_def by (rule conflict_mem [OF d(1)])
  note i' = i [unfolded insert_room_def Let_def, folded cs_def]
  show thesis
  proof (cases "map_of (pool_txs p) ?k")
    case (Some t')
    then have "p' = p" "r = Known" using i' by auto
    then show thesis by (rule known [OF Some])
  next
    case None
    then have k: "?k \<notin> fst ` set (pool_seen p)"
      unfolding d(3) [symmetric] map_of_eq_None_iff .
    then have sn: "map_of (pool_seen p) ?k = None" by (simp add: map_of_eq_None_iff)
    show thesis
    proof (cases cs)
      case Nil
      then have "in_commits t' \<inter> in_commits t = {}" if "map_of (pool_txs p) k = Some t'" for k t'
        using mem [of k] that by auto
      moreover have "p' = \<lparr>pool_txs = om_insert ?k t (pool_txs p),
          pool_seen = om_insert ?k now (pool_seen p)\<rparr>" "r = Added"
        using i' None sn Nil by auto
      ultimately show thesis by (rule fresh [OF None])
    next
      case (Cons c rest)
      then obtain held where held: "map_of (pool_txs p) c = Some held"
        "in_commits held \<inter> in_commits t \<noteq> {}"
        using mem [of c] by (auto simp only: Cons list.set insert_iff simp_thms)
      show thesis
      proof (cases "rest = [] \<and> upgrades C held t")
        case False
        then have "p' = p" "r = Conflict" using i' None Cons held(1) by auto
        then show thesis by (rule refused [OF held])
      next
        case True
        have "c \<in> fst ` set (pool_seen p)"
          unfolding d(3) [symmetric] using map_of_SomeD [OF held(1)] by force
        then obtain s where s: "map_of (pool_seen p) c = Some s"
          by (metis map_of_eq_None_iff not_None_eq)
        have "in_commits t' \<inter> in_commits t = {}" if "map_of (pool_txs p) k = Some t'" "k \<noteq> c" for k t'
          using mem [of k] that True Cons by auto
        moreover have "p' = \<lparr>pool_txs = om_insert ?k t (om_remove c (pool_txs p)),
            pool_seen = om_insert ?k s (om_remove c (pool_seen p))\<rparr>" "r = Added"
          using i' None Cons held(1) True s by auto
        ultimately show thesis using True by (intro upgrade [OF None held(1) s]) auto
      qed
    qed
  qed
qed

lemma insert_room_ok:
  assumes ok: "mempool_ok C p" and room: "length (pool_txs p) < MAX_ENTRIES"
    and i: "insert_room C t now p = (p', r)"
  shows "mempool_ok C p'"
proof (rule insert_room_cases [OF ok i])
  assume f: "\<And>k t'. map_of (pool_txs p) k = Some t' \<Longrightarrow> in_commits t' \<inter> in_commits t = {}"
    and p': "p' = \<lparr>pool_txs = om_insert (hash_to_hex (txid C t)) t (pool_txs p),
        pool_seen = om_insert (hash_to_hex (txid C t)) now (pool_seen p)\<rparr>"
  show ?thesis
    unfolding p'
    by (rule insert_entry_ok [OF ok room f]) (simp_all add: mempool_okD(2) [OF ok] keys_om_insert)
next
  fix c held s
  assume f: "\<And>k t'. map_of (pool_txs p) k = Some t' \<Longrightarrow> k \<noteq> c \<Longrightarrow> in_commits t' \<inter> in_commits t = {}"
    and p': "p' = \<lparr>pool_txs = om_insert (hash_to_hex (txid C t)) t (om_remove c (pool_txs p)),
        pool_seen = om_insert (hash_to_hex (txid C t)) s (om_remove c (pool_seen p))\<rparr>"
  note q = remove_entry_ok [OF ok, of c]
  have "length (om_remove c (pool_txs p)) < MAX_ENTRIES"
    using room by (simp add: om_remove_def) (meson le_less_trans length_filter_le)
  moreover have "in_commits t' \<inter> in_commits t = {}" if "map_of (om_remove c (pool_txs p)) k = Some t'"
    for k t'
    using that f by (auto simp: map_of_om_remove split: if_splits)
  ultimately show ?thesis
    unfolding p' using mempool_okD(2) [OF ok]
    by (intro insert_entry_ok [OF q, simplified]) (simp_all add: keys_om_insert)
qed (use ok in simp_all)

lemma insert_checked_ok:
  assumes ok: "mempool_ok C p"
  shows "mempool_ok C (fst (insert_checked C t now p))"
proof -
  have r: "mempool_ok C (fst (insert_room C t now q))"
    if "mempool_ok C q" "length (pool_txs q) < MAX_ENTRIES" for q
    using insert_room_ok [OF that] by (metis prod.collapse)
  show ?thesis
    using ok expire_ok [OF ok] r by (simp add: insert_checked_def Let_def not_le)
qed

end
