(* ===== verification/Ledger_Facts.thy ===== *)
theory Ledger_Facts
  imports Ledger
begin

text \<open>
  What the ledger's operations guarantee: how a block changes the unspent set, that a
  rejected block changes nothing, that the projected supply equation is the equation of the
  set that is then written, that a rewind is exact, and that the replay path computes the
  state the full validation computes.
\<close>

section \<open>Well-formed ledgers\<close>

definition ledger_ok ::
    "('p::ab_group_add, 's::comm_ring_1) crypto \<Rightarrow> 'p ledger_state \<Rightarrow> bool" where
  "ledger_ok C S \<longleftrightarrow> utxo_ok C (l_utxos S) \<and> verify_supply C S = Inr ()"

definition out_entries :: "u64 \<Rightarrow> tx_output list \<Rightarrow> (bytes \<times> utxo_entry) list" where
  "out_entries height outs = map (\<lambda>o'. (out_commit o', utxo_entry_of height o')) outs"

lemma map_fst_out_entries [simp]: "map fst (out_entries h outs) = map out_commit outs"
  by (simp add: out_entries_def o_def)

lemma fst_set_out_entries [simp]: "fst ` set (out_entries h outs) = out_commit ` set outs"
  by (auto simp: out_entries_def image_iff)

lemma fold_put_out_entries:
  "fold (\<lambda>o'. utxo_put C (out_commit o') (utxo_entry_of h o')) outs us
   = fold (\<lambda>(c, e). utxo_put C c e) (out_entries h outs) us"
  by (induction outs arbitrary: us) (simp_all add: out_entries_def)

lemma spent_set_simps [simp]:
  "set (spent_set body) = in_commit ` set (b_inputs body)"
  "distinct (spent_set body)"
  by (simp_all add: spent_set_def)

lemma spent_set_mset:
  "distinct (map in_commit (b_inputs body)) \<Longrightarrow>
     mset (spent_set body) = mset (map in_commit (b_inputs body))"
  by (simp add: spent_set_def distinct_remdups_id)

lemma body_at_simps [simp]:
  "map in_commit (b_inputs (body_at S h body)) = map in_commit (b_inputs body)"
  "b_outputs (body_at S h body) = b_outputs body"
  "length (b_kernels (body_at S h body)) = length (b_kernels body)"
  "spent_set (body_at S h body) = spent_set body"
  by (simp_all add: body_at_def spent_set_def)

section \<open>The unspent set of a committed block\<close>

abbreviation commit_utxos ::
    "('p::ab_group_add, 's) crypto \<Rightarrow> block_body \<Rightarrow> u64 \<Rightarrow> 'p utxo_set \<Rightarrow> 'p utxo_set" where
  "commit_utxos C body height us \<equiv>
     fold (\<lambda>(c, e). utxo_put C c e) (out_entries height (b_outputs body))
       (fold (utxo_del C) (spent_set body) us)"

lemma commit_block_simps [simp]:
  "l_utxos (commit_block C body h ks su S) = commit_utxos C body h (l_utxos S)"
  "l_kernels (commit_block C body h ks su S) = ks"
  "l_supply (commit_block C body h ks su S) = su"
  "l_tx_count (commit_block C body h ks su S) = l_tx_count S + of_nat (length (b_kernels body))"
  "l_height (commit_block C body h ks su S) = h"
  "l_maturity (commit_block C body h ks su S) = l_maturity S"
  "l_binding_height (commit_block C body h ks su S) = l_binding_height S"
  by (simp_all add: commit_block_def fold_put_out_entries)

lemma commit_utxos_facts:
  assumes "utxo_ok C us"
  shows "utxo_ok C (commit_utxos C body h us)"
    and "utxo_get (commit_utxos C body h us)
      = (utxo_get us |` (- in_commit ` set (b_inputs body)))
          ++ map_of (rev (out_entries h (b_outputs body)))"
proof -
  note d = utxos.dels [OF assms, of "spent_set body"]
  note p = utxos.puts [OF conjunct1 [OF d], of "out_entries h (b_outputs body)"]
  from p show "utxo_ok C (commit_utxos C body h us)" by simp
  from p d show "utxo_get (commit_utxos C body h us)
      = (utxo_get us |` (- in_commit ` set (b_inputs body)))
          ++ map_of (rev (out_entries h (b_outputs body)))"
    by simp
qed

section \<open>Sums of a changed set\<close>

lemma utxo_sum_del:
  assumes "utxo_ok C us" "utxo_get us c \<noteq> None" "utxo_commitment_sum C us = Some t"
    and "commit_point C c = Some p"
  shows "utxo_commitment_sum C (utxo_del C c us) = Some (t - p)"
proof -
  let ?ks = "map fst (entries us)" and ?ls = "map fst (om_remove c (entries us))"
  have m: "mset ?ks = mset (c # ?ls)"
    using om_remove_keys [of "entries us" c] assms(1,2)
    by (simp add: utxo_ok_def utxo_get_def)
  have "all_points C ?ks" "t = points_total C ?ks"
    using assms(1,3) by (auto simp: utxo_commitment_sum_eq commitment_sum_by_walking_eq
        split: if_splits)
  with all_points_mset [OF m, of C] points_total_mset [OF m, of C] assms(4) show ?thesis
    using utxo_del_ok [OF assms(1), of c]
    by (simp add: utxo_commitment_sum_eq commitment_sum_by_walking_eq)
qed

lemma utxo_sum_put:
  assumes "utxo_ok C us" "utxo_get us c = None" "utxo_commitment_sum C us = Some t"
    and "commit_point C c = Some p"
  shows "utxo_commitment_sum C (utxo_put C c e us) = Some (t + p)"
proof -
  let ?ks = "map fst (entries us)" and ?ls = "map fst (om_insert c e (entries us))"
  have m: "mset ?ls = mset (c # ?ks)"
    using om_insert_fresh_keys [of "entries us" c e] assms(2)
    by (simp add: utxo_get_def)
  have "all_points C ?ks" "t = points_total C ?ks"
    using assms(1,3) by (auto simp: utxo_commitment_sum_eq commitment_sum_by_walking_eq
        split: if_splits)
  with all_points_mset [OF m, of C] points_total_mset [OF m, of C] assms(4) show ?thesis
    using utxo_put_ok [OF assms(1), of c e]
    by (simp add: utxo_commitment_sum_eq commitment_sum_by_walking_eq add.commute)
qed

lemma fold_del_sum:
  assumes "utxo_ok C us" "distinct cs" "\<forall>c \<in> set cs. utxo_get us c \<noteq> None"
    and "utxo_commitment_sum C us = Some t" "subtract_points C t cs = Some t'"
  shows "utxo_commitment_sum C (fold (utxo_del C) cs us) = Some t'"
  using assms
proof (induction cs arbitrary: us t)
  case (Cons c cs)
  then obtain p where p: "commit_point C c = Some p" "subtract_points C (t - p) cs = Some t'"
    by (auto split: option.splits)
  have "utxo_commitment_sum C (utxo_del C c us) = Some (t - p)"
    by (rule utxo_sum_del) (use Cons.prems p in auto)
  moreover have "\<forall>d \<in> set cs. utxo_get (utxo_del C c us) d \<noteq> None"
    using Cons.prems(2,3) by (auto simp: utxo_get_del)
  ultimately show ?case
    using Cons.IH [of "utxo_del C c us" "t - p"] Cons.prems p by simp
qed simp

lemma fold_put_sum:
  assumes "utxo_ok C us" "distinct (map fst kes)" "\<forall>c \<in> fst ` set kes. utxo_get us c = None"
    and "utxo_commitment_sum C us = Some t"
    and "commitment_sum_from C t (map fst kes) = Some t'"
  shows "utxo_commitment_sum C (fold (\<lambda>(c, e). utxo_put C c e) kes us) = Some t'"
  using assms
proof (induction kes arbitrary: us t)
  case (Cons ke kes)
  obtain c e where [simp]: "ke = (c, e)" by fastforce
  from Cons.prems(5) obtain p where
    p: "commit_point C c = Some p" "commitment_sum_from C (t + p) (map fst kes) = Some t'"
    by (auto split: option.splits)
  have "utxo_commitment_sum C (utxo_put C c e us) = Some (t + p)"
    by (rule utxo_sum_put) (use Cons.prems p in auto)
  moreover have "\<forall>d \<in> fst ` set kes. utxo_get (utxo_put C c e us) d = None"
    using Cons.prems(1,2,3) by (auto simp: utxo_get_put image_iff)
  ultimately show ?case
    using Cons.IH [of "utxo_put C c e us" "t + p"] Cons.prems p by simp
qed simp

text \<open>The sum projected before the commit is the sum of the committed set.\<close>

lemma sum_after_commit:
  assumes "utxo_ok C us" "\<forall>i \<in> set (b_inputs body). utxo_get us (in_commit i) \<noteq> None"
    and "distinct (map out_commit (b_outputs body))"
    and "\<forall>o' \<in> set (b_outputs body). utxo_get us (out_commit o') = None"
    and "sum_after C us (spent_set body) (map out_commit (b_outputs body)) = Some t"
  shows "utxo_commitment_sum C (commit_utxos C body h us) = Some t"
proof -
  from assms(5) obtain t0 t1 where
    t: "utxo_commitment_sum C us = Some t0" "subtract_points C t0 (spent_set body) = Some t1"
      "commitment_sum_from C t1 (map out_commit (b_outputs body)) = Some t"
    by (auto simp: sum_after_def split: option.splits)
  let ?us1 = "fold (utxo_del C) (spent_set body) us"
  have s1: "utxo_commitment_sum C ?us1 = Some t1"
    by (rule fold_del_sum [OF assms(1) _ _ t(1,2)]) (use assms(2) in auto)
  have ok1: "utxo_ok C ?us1" and g1: "utxo_get ?us1 = utxo_get us |` (- set (spent_set body))"
    using utxos.dels [OF assms(1), of "spent_set body"] by auto
  show ?thesis
    by (rule fold_put_sum [OF ok1 _ _ s1]) (use assms(3,4) g1 t(3) in \<open>auto simp: restrict_map_def\<close>)
qed

section \<open>What validation establishes\<close>

lemma capture_undo_Inr_iff:
  "capture_undo S body = Inr u \<longleftrightarrow>
     distinct (map in_commit (b_inputs body))
   \<and> (\<forall>i \<in> set (b_inputs body). utxo_get (l_utxos S) (in_commit i) \<noteq> None)
   \<and> u = \<lparr>u_spent = map (\<lambda>i. (in_commit i, the (utxo_get (l_utxos S) (in_commit i))))
                       (b_inputs body),
           u_created = map out_commit (b_outputs body),
           u_kernels = l_kernels S, u_supply = l_supply S,
           u_tx_count = l_tx_count S, u_height = l_height S\<rparr>"
  by (auto simp: capture_undo_def res_simps utxo_contains_def)

lemma check_block_outputs_Inr:
  "check_block_outputs C us ctx created outs = Inr u \<longleftrightarrow>
     distinct (map out_commit outs) \<and> out_commit ` set outs \<inter> set created = {}
   \<and> (\<forall>o' \<in> set outs. commit_point C (out_commit o') \<noteq> None \<and> output_point C o' \<noteq> None
        \<and> range_verify C (range_proof o') (out_commit o') ctx \<and> verify_sender_sig C o'
        \<and> utxo_get us (out_commit o') = None)"
  by (induction outs arbitrary: created) (auto simp: utxo_contains_def)

lemma check_spend_Inr_iff:
  "check_spend C S height keys i = Inr u \<longleftrightarrow>
     (\<exists>e. utxo_get (l_utxos S) (in_commit i) = Some e \<and> is_mature e height (l_maturity S)
        \<and> verify_input_signature C i (e_output_pk e)
        \<and> (keys \<longrightarrow> verify_input_key C i (e_output_pk e)))"
  by (auto simp: check_spend_def split: option.splits)

lemma check_block_balance_Inr_iff:
  assumes "encoding_ok C"
  shows "check_block_balance C body = Inr off \<longleftrightarrow>
     value_points C (b_inputs body) (b_outputs body) (b_kernels body)
   \<and> (\<exists>k. decode_offset C (b_kernel_offset body) = Inr k \<and> off = pt_mul C k (generator_h C)
        \<and> value_total C (b_inputs body) (b_outputs body) (b_kernels body)
          = commit_public_value C (body_total_reward body)
            - commit_public_value C (body_total_fee body) + off)"
proof -
  have e: "(a - b + c - d = e + f) = (a - b - e = d - c + f)" for a b c d e f :: 'a
    by (auto simp: algebra_simps)
  have "commit_point C (compress C p) = Some p" for p
    using assms by (simp add: commit_point_def alg)
  then show ?thesis
    by (auto simp: check_block_balance_def res_simps expected_excess_eq commitment_sum_eq
        kernel_excess_sum_def offset_point_h_def value_points_def value_total_def e
        split: if_splits)
qed

lemma check_block_structure_OkD:
  assumes "check_block_structure C S binding body height reward = Inr coinbase"
  shows "b_outputs body \<noteq> []" "is_canonical C body" "\<not> exceeds_size_limits body"
    "body_coinbase_kernels body = 1" "coinbase \<in> set (b_kernels body)"
    "feature coinbase = CoinbaseKernel"
    "reward_darks coinbase = (if 0 < reward then reward else body_total_fee body)"
    "lock_height coinbase = height" "\<not> would_exceed_cap (l_supply S) reward"
    "binding \<Longrightarrow> checked_fee_sum (b_kernels body) \<noteq> None"
  using assms
  by (auto simp: check_block_structure_def Let_def dest!: find_Some_mem
      split: if_splits option.splits)

lemma validate_block_OkD:
  assumes "validate_block C S body height reward ctx = Inr (nk, ns, undo)"
  obtains coinbase off ks projected where
    "check_block_structure C S (binding_active S height) body height reward = Inr coinbase"
    "\<forall>k \<in> set (b_kernels body). check_block_kernel C height k = Inr ()"
    "check_block_outputs C (l_utxos S) ctx [] (b_outputs body) = Inr ()"
    "distinct (map in_commit (b_inputs body))"
    "\<forall>i \<in> set (b_inputs body). check_spend C S height (binding_active S height) i = Inr ()"
    "binding_active S height \<Longrightarrow> key_balance C (b_inputs body) (b_outputs body)
       (b_kernels body) (b_stealth_offset body) = Inr ()"
    "check_block_balance C body = Inr off"
    "check_coinbase_output C (binding_active S height) body coinbase = Inr ()"
    "add_kernels C (b_kernels body) (l_kernels S) = Inr ks" "add_offset C ks off = Some nk"
    "next_supply (l_supply S) reward (body_total_fee body) = Inr ns"
    "sum_after C (l_utxos S) (spent_set body) (map out_commit (b_outputs body))
       = Some projected"
    "supply_equation_holds C projected nk ns = Inr ()"
    "capture_undo S body = Inr undo"
  using assms that by (auto simp: validate_block_def Let_def res_simps split: if_splits)

text \<open>The converse, for blocks that are built to be valid.\<close>

lemma validate_blockI:
  assumes
    "check_block_structure C S (binding_active S height) body height reward = Inr coinbase"
    "\<forall>k \<in> set (b_kernels body). check_block_kernel C height k = Inr ()"
    "check_block_outputs C (l_utxos S) ctx [] (b_outputs body) = Inr ()"
    "distinct (map in_commit (b_inputs body))"
    "\<forall>i \<in> set (b_inputs body). check_spend C S height (binding_active S height) i = Inr ()"
    "binding_active S height \<Longrightarrow> key_balance C (b_inputs body) (b_outputs body)
       (b_kernels body) (b_stealth_offset body) = Inr ()"
    "check_block_balance C body = Inr off"
    "check_coinbase_output C (binding_active S height) body coinbase = Inr ()"
    "add_kernels C (b_kernels body) (l_kernels S) = Inr ks" "add_offset C ks off = Some nk"
    "next_supply (l_supply S) reward (body_total_fee body) = Inr ns"
    "sum_after C (l_utxos S) (spent_set body) (map out_commit (b_outputs body))
       = Some projected"
    "supply_equation_holds C projected nk ns = Inr ()"
  shows "\<exists>undo. validate_block C S body height reward ctx = Inr (nk, ns, undo)"
proof -
  have "for_each (check_block_kernel C height) (b_kernels body) = Inr ()"
    "for_fresh in_commit (\<lambda>_. DoubleSpendWithinBlock)
       (check_spend C S height (binding_active S height)) [] (b_inputs body) = Inr ()"
    using assms(2,4,5) by (simp_all add: res_simps)
  moreover obtain undo where "capture_undo S body = Inr undo"
    using assms(4,5) by (auto simp: capture_undo_Inr_iff check_spend_Inr_iff)
  ultimately show ?thesis
    using assms(1,3,6-) by (simp add: validate_block_def ok_or_def)
qed

section \<open>Rewinding\<close>

lemma rewind_commit:
  assumes ok: "utxo_ok C (l_utxos S)" and u: "capture_undo S body = Inr u"
    and fresh: "\<forall>o' \<in> set (b_outputs body). utxo_get (l_utxos S) (out_commit o') = None"
  shows "rewind C u (commit_block C body height ks su S) = S"
proof -
  have us: "fold (\<lambda>(c, e). utxo_put C c e) (u_spent u)
      (fold (utxo_del C) (u_created u) (commit_utxos C body height (l_utxos S))) = l_utxos S"
  proof (rule utxos.undo_block [OF ok])
    show "utxo_get (l_utxos S) k = Some v" if "(k, v) \<in> set (u_spent u)" for k v
      using that u by (auto simp: capture_undo_Inr_iff)
    show "utxo_get (l_utxos S) k = None"
      if "k \<in> fst ` set (out_entries height (b_outputs body))" for k
      using that fresh by auto
    show "set (spent_set body) = fst ` set (u_spent u)"
      using u by (auto simp: capture_undo_Inr_iff image_iff)
    show "set (u_created u) = fst ` set (out_entries height (b_outputs body))"
      using u by (auto simp: capture_undo_Inr_iff)
  qed
  show ?thesis
    using u us by (cases S) (simp add: rewind_def capture_undo_Inr_iff commit_block_def
        fold_put_out_entries)
qed

section \<open>Applying a block\<close>

lemma for_fresh_map:
  "for_fresh key e f seen (map g xs) = for_fresh (key \<circ> g) (e \<circ> g) (f \<circ> g) seen xs"
  by (induction xs arbitrary: seen) simp_all

lemma capture_undo_body_at [simp]: "capture_undo S (body_at S' h body) = capture_undo S body"
  by (simp add: body_at_def capture_undo_def for_fresh_map o_def)

text \<open>
  Once the stages before it have passed, the final check of the written set passes: the
  rollback branch is never taken.
\<close>

lemma committed_supply:
  assumes ok: "utxo_ok C (l_utxos S)"
    and v: "validate_block C S body height reward ctx = Inr (nk, ns, undo)"
  shows "verify_supply C (commit_block C body height nk ns S) = Inr ()"
proof -
  from v obtain projected where
    o: "check_block_outputs C (l_utxos S) ctx [] (b_outputs body) = Inr ()"
    and sp: "\<forall>i \<in> set (b_inputs body). check_spend C S height (binding_active S height) i = Inr ()"
    and pr: "sum_after C (l_utxos S) (spent_set body) (map out_commit (b_outputs body))
       = Some projected"
    and eq: "supply_equation_holds C projected nk ns = Inr ()"
    by (rule validate_block_OkD)
  have "utxo_commitment_sum C (commit_utxos C body height (l_utxos S)) = Some projected"
  proof (rule sum_after_commit [OF ok _ _ _ pr])
    show "\<forall>i \<in> set (b_inputs body). utxo_get (l_utxos S) (in_commit i) \<noteq> None"
      using sp by (auto simp: check_spend_Inr_iff)
    show "distinct (map out_commit (b_outputs body))"
      "\<forall>o' \<in> set (b_outputs body). utxo_get (l_utxos S) (out_commit o') = None"
      using o by (auto simp: check_block_outputs_Inr)
  qed
  with eq show ?thesis by (simp add: verify_supply_def verify_supply_invariant_def)
qed

lemma apply_block_cases:
  assumes "utxo_ok C (l_utxos S)"
  shows "apply_block C S body height reward ctx =
    (case validate_block C S (body_at S height body) height reward ctx of
       Inl e \<Rightarrow> (S, Inl e)
     | Inr (nk, ns, undo) \<Rightarrow> (commit_block C (body_at S height body) height nk ns S, Inr ()))"
  using committed_supply [OF assms]
  by (auto simp: apply_block_def Let_def split: sum.splits)

lemma apply_block_OkD:
  assumes "utxo_ok C (l_utxos S)" "apply_block C S body height reward ctx = (S', Inr ())"
  obtains nk ns undo where
    "validate_block C S (body_at S height body) height reward ctx = Inr (nk, ns, undo)"
    "S' = commit_block C (body_at S height body) height nk ns S"
  using assms by (auto simp: apply_block_cases split: sum.splits)

text \<open>The effect on the coins: inputs spent once, outputs new, the rest untouched.\<close>

lemma apply_block_effect:
  assumes ok: "utxo_ok C (l_utxos S)" and a: "apply_block C S body height reward ctx = (S', Inr ())"
  shows "distinct (map in_commit (b_inputs body)) \<and> distinct (map out_commit (b_outputs body))
    \<and> (\<forall>i \<in> set (b_inputs body). utxo_get (l_utxos S) (in_commit i) \<noteq> None)
    \<and> (\<forall>o' \<in> set (b_outputs body). utxo_get (l_utxos S) (out_commit o') = None
         \<and> utxo_get (l_utxos S') (out_commit o') = Some (utxo_entry_of height o'))
    \<and> (\<forall>c. c \<notin> out_commit ` set (b_outputs body) \<longrightarrow>
         utxo_get (l_utxos S') c
         = (if c \<in> in_commit ` set (b_inputs body) then None else utxo_get (l_utxos S) c))"
proof -
  let ?b = "body_at S height body"
  obtain nk ns undo where v: "validate_block C S ?b height reward ctx = Inr (nk, ns, undo)"
    and S': "S' = commit_block C ?b height nk ns S"
    by (rule apply_block_OkD [OF ok a])
  have oc: "check_block_outputs C (l_utxos S) ctx [] (b_outputs body) = Inr ()"
    and di: "distinct (map in_commit (b_inputs body))"
    and ic: "\<forall>i \<in> set (b_inputs ?b).
      check_spend C S height (binding_active S height) i = Inr ()"
    using v by (auto elim!: validate_block_OkD)
  have do: "distinct (map out_commit (b_outputs body))"
    and fresh: "\<forall>o' \<in> set (b_outputs body). utxo_get (l_utxos S) (out_commit o') = None"
    using oc by (simp_all add: check_block_outputs_Inr)
  have "\<forall>c \<in> in_commit ` set (b_inputs ?b). utxo_get (l_utxos S) c \<noteq> None"
    using ic by (auto simp: check_spend_Inr_iff)
  moreover have im: "in_commit ` set (b_inputs ?b) = in_commit ` set (b_inputs body)"
    using arg_cong [OF body_at_simps(1), of set] by (simp only: list.set_map)
  ultimately have un: "\<forall>i \<in> set (b_inputs body). utxo_get (l_utxos S) (in_commit i) \<noteq> None"
    by blast
  have g: "utxo_get (l_utxos S') = (utxo_get (l_utxos S) |` (- in_commit ` set (b_inputs body)))
      ++ map_of (rev (out_entries height (b_outputs body)))"
    by (simp add: S' commit_utxos_facts(2) [OF ok] im)
  have d: "distinct (map fst (rev (out_entries height (b_outputs body))))"
    using do by (simp flip: rev_map)
  have "utxo_get (l_utxos S') (out_commit o') = Some (utxo_entry_of height o')"
    if "o' \<in> set (b_outputs body)" for o'
  proof -
    have "(out_commit o', utxo_entry_of height o') \<in> set (rev (out_entries height (b_outputs body)))"
      using that by (auto simp: out_entries_def)
    with d show ?thesis unfolding g by (simp only: map_add_Some_iff map_of_eq_Some_iff simp_thms)
  qed
  moreover have "utxo_get (l_utxos S') c
      = (if c \<in> in_commit ` set (b_inputs body) then None else utxo_get (l_utxos S) c)"
    if "c \<notin> out_commit ` set (b_outputs body)" for c
  proof -
    have "map_of (rev (out_entries height (b_outputs body))) c = None"
      using that by (simp add: map_of_eq_None_iff fst_set_out_entries)
    then show ?thesis unfolding g by (simp add: map_add_def restrict_map_def)
  qed
  ultimately show ?thesis using di do un fresh by blast
qed

lemma apply_block_ErrD:
  assumes "utxo_ok C (l_utxos S)" "apply_block C S body height reward ctx = (S', Inl e)"
  shows "S' = S" "validate_block C S (body_at S height body) height reward ctx = Inl e"
  using assms by (auto simp: apply_block_cases split: sum.splits)

lemma apply_block_ledger_ok:
  assumes "ledger_ok C S" "apply_block C S body height reward ctx = (S', r)"
  shows "ledger_ok C S'"
proof (cases r)
  case (Inl e)
  with assms apply_block_ErrD [of C S body height reward ctx S' e] show ?thesis
    by (simp add: ledger_ok_def)
next
  case (Inr u)
  with assms obtain nk ns undo where
    v: "validate_block C S (body_at S height body) height reward ctx = Inr (nk, ns, undo)"
      "S' = commit_block C (body_at S height body) height nk ns S"
    by (auto simp: ledger_ok_def elim: apply_block_OkD)
  with assms committed_supply [OF _ v(1)] show ?thesis
    by (simp add: ledger_ok_def commit_utxos_facts)
qed

lemma apply_block_rewind:
  assumes "utxo_ok C (l_utxos S)" "apply_block C S body height reward ctx = (S', Inr ())"
  shows "\<exists>u. capture_undo S body = Inr u \<and> rewind C u S' = S"
proof -
  from assms obtain nk ns undo where
    v: "validate_block C S (body_at S height body) height reward ctx = Inr (nk, ns, undo)"
    and S': "S' = commit_block C (body_at S height body) height nk ns S"
    by (rule apply_block_OkD)
  from v have u: "capture_undo S (body_at S height body) = Inr undo"
    and o: "check_block_outputs C (l_utxos S) ctx [] (b_outputs (body_at S height body)) = Inr ()"
    by (auto elim: validate_block_OkD)
  have "rewind C undo S' = S"
    unfolding S'
    by (rule rewind_commit [OF assms(1) u]) (use o in \<open>simp add: check_block_outputs_Inr\<close>)
  with u show ?thesis by simp
qed

section \<open>The replay path\<close>

lemma state_only_OkD:
  assumes "apply_block_state_only C S body height reward = (S', Inr ())"
  obtains nk ns where "S' = commit_block C body height nk ns S"
    "distinct (map in_commit (b_inputs body))"
    "\<forall>i \<in> set (b_inputs body). utxo_get (l_utxos S) (in_commit i) \<noteq> None"
    "next_supply (l_supply S) reward (body_total_fee body) = Inr ns"
  using assms
  by (auto simp: apply_block_state_only_def res_simps utxo_contains_def
      split: if_splits sum.splits prod.splits)

text \<open>A block that carries no binding fields below the fork, as stored blocks do.\<close>

definition stored_shape :: "'p ledger_state \<Rightarrow> u64 \<Rightarrow> block_body \<Rightarrow> bool" where
  "stored_shape S height body \<longleftrightarrow> binding_active S height \<or> \<not> body_has_any_binding body"

lemma body_at_stored: "stored_shape S height body \<Longrightarrow> body_at S height body = body"
  by (auto simp: body_at_def stored_shape_def)

lemma state_only_agrees:
  assumes ok: "utxo_ok C (l_utxos S)" and C: "encoding_ok C" "group_ok C"
    and shape: "stored_shape S height body"
    and a: "apply_block C S body height reward ctx = (S', Inr ())"
  shows "apply_block_state_only C S body height reward = (S', Inr ())"
proof -
  from a obtain nk ns undo where
    v: "validate_block C S body height reward ctx = Inr (nk, ns, undo)"
    and S': "S' = commit_block C body height nk ns S"
    by (rule apply_block_OkD [OF ok]) (simp add: body_at_stored [OF shape])
  from v obtain coinbase off ks projected where
    st: "check_block_structure C S (binding_active S height) body height reward = Inr coinbase"
    and sp: "\<forall>i \<in> set (b_inputs body). check_spend C S height (binding_active S height) i = Inr ()"
    and d: "distinct (map in_commit (b_inputs body))"
    and bal: "check_block_balance C body = Inr off"
    and ks: "add_kernels C (b_kernels body) (l_kernels S) = Inr ks" "add_offset C ks off = Some nk"
    and ns: "next_supply (l_supply S) reward (body_total_fee body) = Inr ns"
    by (rule validate_block_OkD)
  have off: "offset_point_h C (b_kernel_offset body) = Inr off"
    using bal unfolding check_block_balance_Inr_iff [OF C(1)]
    by (auto simp: offset_point_h_def)
  have k: "(if binding_active S height then
        res_bind (map_err BindingErr (offset_point_h C (b_kernel_offset body)))
          (\<lambda>off. ok_or MalformedKernelExcess (add_offset C ks off))
      else Inr ks) = Inr nk"
  proof (cases "binding_active S height")
    case True
    then show ?thesis using ks(2) by (simp add: off ok_or_def)
  next
    case False
    with shape have "b_kernel_offset body = None"
      by (auto simp: stored_shape_def body_has_any_binding_def)
    then have "off = 0"
      using off by (simp add: offset_point_h_def decode_offset_def pt_mul_zero [OF C(2)])
    with ks(2) False show ?thesis by (simp add: add_offset_def)
  qed
  have f: "for_fresh in_commit (\<lambda>_. DoubleSpendWithinBlock)
      (\<lambda>i. ensure (UnknownInput (hex_encode (in_commit i)))
             (utxo_contains (l_utxos S) (in_commit i))) [] (b_inputs body) = Inr ()"
    using sp d by (auto simp: res_simps utxo_contains_def check_spend_Inr_iff)
  have "b_kernels body \<noteq> []"
    using check_block_structure_OkD(5) [OF st] by auto
  then show ?thesis
    using check_block_structure_OkD [OF st] f ks(1) k ns
    by (simp add: apply_block_state_only_def S')
qed

end
