(* ===== verification/Chain_Facts.thy ===== *)
theory Chain_Facts
  imports Ledger_Facts Chain
begin

text \<open>
  The invariant \<open>chain_ok\<close> of a chain and its preservation by block application; that a
  rejected block leaves the chain as it was; that the replay of one's own file computes the
  same chain as full validation; and that a run of blocks is described by its undo log.
\<close>

text \<open>
  The interface between the chain and a state it can step back: a step yields the next state
  and an undo, and the undo leads back.  Any number of undos taken along a run, applied last
  first, lead back to its start.  The interpretation is on the ledger, stepped by a block of
  a network; its laws are the exactness of \<open>rewind\<close> and the ledger invariant.
\<close>

section \<open>Runs\<close>

fun run_log :: "('b \<Rightarrow> 's \<Rightarrow> ('s \<times> 'u) option) \<Rightarrow> 'b list \<Rightarrow> 's \<Rightarrow> ('s \<times> 'u list) option" where
  "run_log step [] s = Some (s, [])"
| "run_log step (b # bs) s =
     (case step b s of
        None \<Rightarrow> None
      | Some (s', u) \<Rightarrow> map_option (\<lambda>(t, us). (t, u # us)) (run_log step bs s'))"

lemma run_log_append:
  "run_log step (as @ bs) s =
     (case run_log step as s of
        None \<Rightarrow> None
      | Some (s1, us) \<Rightarrow> map_option (\<lambda>(t, vs). (t, us @ vs)) (run_log step bs s1))"
proof (induction as arbitrary: s)
  case Nil
  show ?case by (cases "run_log step bs s") auto
next
  case (Cons a as)
  show ?case
    by (cases "step a s") (auto simp: Cons.IH map_option_case split: option.splits prod.splits)
qed

lemma run_log_length: "run_log step bs s = Some (s', us) \<Longrightarrow> length us = length bs"
  by (induction bs arbitrary: s s' us) (auto split: option.splits)

locale undo_log =
  fixes step :: "'b \<Rightarrow> 's \<Rightarrow> ('s \<times> 'u) option"
    and undo :: "'u \<Rightarrow> 's \<Rightarrow> 's"
    and inv :: "'s \<Rightarrow> bool"
  assumes undo_step: "inv s \<Longrightarrow> step b s = Some (s', u) \<Longrightarrow> undo u s' = s"
    and inv_step: "inv s \<Longrightarrow> step b s = Some (s', u) \<Longrightarrow> inv s'"
begin

lemma inv_run: "inv s \<Longrightarrow> run_log step bs s = Some (s', us) \<Longrightarrow> inv s'"
  by (induction bs arbitrary: s us) (auto split: option.splits dest: inv_step)

lemma undo_run:
  "inv s \<Longrightarrow> run_log step bs s = Some (s', us) \<Longrightarrow> fold undo (rev us) s' = s"
proof (induction bs arbitrary: s us)
  case (Cons b bs)
  then obtain s1 u us1 where 1: "step b s = Some (s1, u)" "run_log step bs s1 = Some (s', us1)"
    "us = u # us1"
    by (auto split: option.splits)
  then have "fold undo (rev us1) s' = s1"
    using Cons.IH Cons.prems(1) inv_step by blast
  with 1 Cons.prems(1) show ?case by (simp add: undo_step)
qed simp

end

section \<open>The ledger stepped by a block\<close>

definition ledger_step ::
    "('p::ab_group_add, 's::comm_ring_1) crypto \<Rightarrow> network_id \<Rightarrow> block \<Rightarrow> 'p ledger_state
       \<Rightarrow> ('p ledger_state \<times> state_undo) option" where
  "ledger_step C n b S =
     (let h = h_height (blk_header b);
          subsidy = darks (reward_at locked_mainnet h (total_minted_darks (l_supply S))) in
      case capture_undo S (blk_body b) of
        Inl _ \<Rightarrow> None
      | Inr u \<Rightarrow>
          (case apply_block C S (blk_body b) h subsidy (proof_context n) of
             (_, Inl _) \<Rightarrow> None
           | (S', Inr _) \<Rightarrow> Some (S', u)))"

lemma ledger_step_SomeD:
  assumes "ledger_step C n b S = Some (S', u)"
  shows "capture_undo S (blk_body b) = Inr u"
    and "apply_block C S (blk_body b) (h_height (blk_header b))
      (darks (reward_at locked_mainnet (h_height (blk_header b))
        (total_minted_darks (l_supply S)))) (proof_context n) = (S', Inr ())"
  using assms by (auto simp: ledger_step_def Let_def split: sum.splits prod.splits)

interpretation ledger_log: undo_log "ledger_step C n" "rewind C" "ledger_ok C"
  for C :: "('p::ab_group_add, 's::comm_ring_1) crypto" and n
proof unfold_locales
  fix S b S' u assume ok: "ledger_ok C S" and s: "ledger_step C n b S = Some (S', u)"
  note d = ledger_step_SomeD [OF s]
  show "rewind C u S' = S"
    using apply_block_rewind [OF _ d(2)] ok d(1) by (auto simp: ledger_ok_def)
  show "ledger_ok C S'"
    by (rule apply_block_ledger_ok [OF ok d(2)])
qed

section \<open>The invariant\<close>

text \<open>Heights count up from genesis, saturating as \<open>Height::next\<close> does.\<close>

definition heights_ok :: "compact_header list \<Rightarrow> bool" where
  "heights_ok hs \<longleftrightarrow> (\<forall>i < length hs. unat (c_height (hs ! i)) = min i (2 ^ 64 - 1))"

fun links_ok :: "bytes \<Rightarrow> compact_header list \<Rightarrow> bool" where
  "links_ok prev [] = True"
| "links_ok prev (h # hs) \<longleftrightarrow> c_prev_hash h = prev \<and> links_ok (c_hash h) hs"

definition pins_ok :: "compact_header list \<Rightarrow> bool" where
  "pins_ok hs \<longleftrightarrow>
     (\<forall>h \<in> set hs. \<forall>p. checkpoint_at (c_height h) = Some p \<longrightarrow> hash_to_hex (c_hash h) = p)"

definition work_ok :: "u128 \<Rightarrow> compact_header list \<Rightarrow> bool" where
  "work_ok w hs \<longleftrightarrow> unat w = min U128_MAX (\<Sum>h \<leftarrow> hs. unat (compact_work h))"

definition base_state :: "('p::ab_group_add, 's) crypto \<Rightarrow> 'p chain \<Rightarrow> 'p ledger_state" where
  "base_state C ch =
     (case horizon ch of None \<Rightarrow> state_for_network C (network ch) | Some hz \<Rightarrow> hz)"

definition base_work :: "'p chain \<Rightarrow> u128" where
  "base_work ch = (case horizon ch of None \<Rightarrow> 0 | Some _ \<Rightarrow> horizon_work ch)"

text \<open>The kept bodies are the last headers' blocks, and replaying them gives the ledger.\<close>

definition bodies_ok ::
    "('p::ab_group_add, 's::comm_ring_1) crypto \<Rightarrow> 'p chain \<Rightarrow> bool" where
  "bodies_ok C ch \<longleftrightarrow>
     (\<exists>pre. headers ch = pre @ map (compact_of C) (blocks ch)
        \<and> first_height ch = of_nat (length pre))
   \<and> (horizon ch = None \<longleftrightarrow> length (headers ch) = length (blocks ch))
   \<and> replay_bodies C (emission ch) (base_state C ch, base_work ch) (blocks ch)
       = ((ledger ch, total_work ch), Inr ())"

definition chain_core ::
    "('p::ab_group_add, 's::comm_ring_1) crypto \<Rightarrow> 'p chain \<Rightarrow> bool" where
  "chain_core C ch \<longleftrightarrow> ledger_ok C (ledger ch)
     \<and> l_binding_height (ledger ch) = binding_fork_height (network ch)
     \<and> emission ch = locked_mainnet
     \<and> heights_ok (headers ch) \<and> links_ok (genesis_hash ch) (headers ch)
     \<and> pins_ok (headers ch) \<and> work_ok (total_work ch) (headers ch)
     \<and> length (undos ch) \<le> MAX_REORG_DEPTH \<and> length (undos ch) \<le> length (headers ch)
     \<and> (headers ch = [] \<longrightarrow> blocks ch = [] \<and> first_height ch = 0)
     \<and> (\<forall>h \<in> set (headers ch). min_difficulty (network ch) \<le> c_difficulty h)"

definition chain_ok ::
    "('p::ab_group_add, 's::comm_ring_1) crypto \<Rightarrow> 'p chain \<Rightarrow> bool" where
  "chain_ok C ch \<longleftrightarrow> chain_core C ch \<and> bodies_ok C ch"

section \<open>Elementary facts\<close>

lemma last_opt_simps [simp]:
  "last_opt [] = None" "last_opt (xs @ [x]) = Some x"
  "last_opt xs = None \<longleftrightarrow> xs = []"
  "xs \<noteq> [] \<Longrightarrow> last_opt xs = Some (last xs)"
  by (auto simp: last_opt_def)

lemma trim_undos_trim: "trim_undos (trim_undos xs @ ys) = trim_undos (xs @ ys)"
  by (cases "length xs \<le> MAX_REORG_DEPTH") (simp_all add: trim_undos_def add.commute)

lemma length_trim_undos: "length (trim_undos us) = min (length us) MAX_REORG_DEPTH"
  by (simp add: trim_undos_def)

lemma trim_undos_last:
  assumes "length bs \<le> MAX_REORG_DEPTH"
  shows "length bs \<le> length (trim_undos (as @ bs))"
    and "take (length bs) (rev (trim_undos (as @ bs))) = rev bs"
proof -
  have d: "trim_undos (as @ bs) = drop (length as + length bs - MAX_REORG_DEPTH) as @ bs"
    using assms by (simp add: trim_undos_def)
  then show "length bs \<le> length (trim_undos (as @ bs))"
    and "take (length bs) (rev (trim_undos (as @ bs))) = rev bs" by simp_all
qed

lemma sat_work_nat: "unat (sat_work a b) = min U128_MAX (unat a + unat b)"
  by (simp add: sat_work_def unat_sat_add U128_MAX_def min.commute)

lemma work_ok_snoc:
  "work_ok w hs \<Longrightarrow> compact_work h = x \<Longrightarrow> work_ok (sat_work w x) (hs @ [h])"
  by (auto simp: work_ok_def sat_work_nat)

lemma links_ok_snoc:
  "links_ok g (hs @ [h]) \<longleftrightarrow>
     links_ok g hs \<and> c_prev_hash h = (if hs = [] then g else c_hash (last hs))"
  by (induction hs arbitrary: g) auto

lemma heights_ok_snoc:
  assumes "heights_ok hs"
    and "c_height h = (if hs = [] then 0 else height_next (c_height (last hs)))"
  shows "heights_ok (hs @ [h])"
proof -
  have "unat (c_height h) = min (length hs) (2 ^ 64 - 1)"
  proof (cases "hs = []")
    case False
    then have "unat (c_height (last hs)) = min (length hs - 1) (2 ^ 64 - 1)"
      using assms(1) by (simp add: heights_ok_def last_conv_nth)
    moreover have "0 < length hs" using False by simp
    ultimately have "min (unat (c_height (last hs)) + 1) (2 ^ 64 - 1) = min (length hs) (2 ^ 64 - 1)"
      by linarith
    with assms(2) False show ?thesis by (simp only: if_False unat_height_next)
  qed (use assms(2) in simp)
  with assms(1) show ?thesis
    by (auto simp: heights_ok_def nth_append less_Suc_eq)
qed

lemma shape_block_simps [simp]:
  "blk_header (shape_block ch b) = blk_header b"
  "block_hash C (shape_block ch b) = block_hash C b"
  "blk_work (shape_block ch b) = blk_work b"
  "compact_of C (shape_block ch b) = compact_of C b"
  by (simp_all add: shape_block_def)

lemma shape_block_idem: "network ch = network ch' \<Longrightarrow>
    shape_block ch' (shape_block ch b) = shape_block ch b"
  by (simp add: shape_block_def binding_active_at_def)

lemma min_difficulty_pos: "1 \<le> min_difficulty n"
  by (cases n) (simp_all add: params word_le_nat_alt)

lemma push_remember_simps [simp]:
  "network (remember_undo u w (push_block C b ch)) = network ch"
  "genesis (remember_undo u w (push_block C b ch)) = genesis ch"
  "genesis_hash (remember_undo u w (push_block C b ch)) = genesis_hash ch"
  "emission (remember_undo u w (push_block C b ch)) = emission ch"
  "ledger (remember_undo u w (push_block C b ch)) = ledger ch"
  "blocks (remember_undo u w (push_block C b ch)) = blocks ch @ [b]"
  "headers (remember_undo u w (push_block C b ch)) = headers ch @ [compact_of C b]"
  "first_height (remember_undo u w (push_block C b ch)) = first_height ch"
  "horizon (remember_undo u w (push_block C b ch)) = horizon ch"
  "horizon_work (remember_undo u w (push_block C b ch)) = horizon_work ch"
  "total_work (remember_undo u w (push_block C b ch)) = total_work ch"
  "undos (remember_undo u w (push_block C b ch))
     = trim_undos (undos ch @ [\<lparr>tu_work = w, tu_state = u\<rparr>])"
  by (simp_all add: remember_undo_def push_block_def)

section \<open>What a successful block application did\<close>

definition applied ::
    "('p::ab_group_add, 's) crypto \<Rightarrow> 'p chain \<Rightarrow> block \<Rightarrow> 'p ledger_state \<Rightarrow> state_undo \<Rightarrow> 'p chain"
where
  "applied C ch b S' undo =
     remember_undo undo (blk_work b)
       (push_block C b
         (ch\<lparr>ledger := S', total_work := sat_work (total_work ch) (blk_work b)\<rparr>))"

lemma applied_simps [simp]:
  "network (applied C ch b S' u) = network ch"
  "genesis (applied C ch b S' u) = genesis ch"
  "genesis_hash (applied C ch b S' u) = genesis_hash ch"
  "emission (applied C ch b S' u) = emission ch"
  "ledger (applied C ch b S' u) = S'"
  "blocks (applied C ch b S' u) = blocks ch @ [b]"
  "headers (applied C ch b S' u) = headers ch @ [compact_of C b]"
  "first_height (applied C ch b S' u) = first_height ch"
  "horizon (applied C ch b S' u) = horizon ch"
  "horizon_work (applied C ch b S' u) = horizon_work ch"
  "total_work (applied C ch b S' u) = sat_work (total_work ch) (blk_work b)"
  "undos (applied C ch b S' u)
     = trim_undos (undos ch @ [\<lparr>tu_work = blk_work b, tu_state = u\<rparr>])"
  by (simp_all add: applied_def)

lemma check_block_OkD:
  assumes "check_block C ch b now v = Inr ()"
  shows "h_version (blk_header b) = PROTOCOL_VERSION" "h_height (blk_header b) = next_height ch"
    "h_prev_hash (blk_header b) = tip_hash C ch" "check_pin C b = Inr ()"
    "h_difficulty (blk_header b) = chain_next_difficulty ch"
    "0 < block_count ch \<Longrightarrow> chain_median_time_past ch < h_timestamp (blk_header b)"
    "v \<Longrightarrow> pow_is_valid C b (chain_pow_params ch)"
    "v \<Longrightarrow> h_timestamp (blk_header b) \<le> sat_add now MAX_FUTURE_DRIFT_SECS"
    "body_hash C (blk_body b) = h_body_root (blk_header b)"
  using assms
  by (auto simp: check_block_def Let_def res_simps not_less not_le split: if_splits)

lemma apply_inner_OkD:
  assumes ok: "utxo_ok C (l_utxos (ledger ch))"
    and a: "apply_block_inner C ch b now v = (ch', Inr ())"
  obtains S' undo where
    "check_block C ch (shape_block ch b) now v = Inr ()"
    "capture_undo (ledger ch) (blk_body (shape_block ch b)) = Inr undo"
    "apply_block C (ledger ch) (blk_body (shape_block ch b)) (h_height (blk_header b))
       (chain_subsidy ch (h_height (blk_header b))) (proof_ctx ch) = (S', Inr ())"
    "ledger_utxo_root C S' = h_utxo_root (blk_header b)"
    "acc_sum (l_kernels S') = h_kernel_sum (blk_header b)"
    "ch' = applied C ch (shape_block ch b) S' undo"
  using a by (auto simp: apply_block_inner_def Let_def applied_def
      split: sum.splits prod.splits if_splits)

text \<open>A rejected block leaves the chain exactly as it was.\<close>

lemma apply_inner_Err:
  assumes ok: "utxo_ok C (l_utxos (ledger ch))"
    and a: "apply_block_inner C ch b now v = (ch', Inl e)"
  shows "ch' = ch"
proof (cases "check_block C ch (shape_block ch b) now v")
  case (Inl d)
  with a show ?thesis by (simp add: apply_block_inner_def)
next
  case (Inr u)
  let ?b = "blk_body (shape_block ch b)"
  let ?h = "h_height (blk_header b)"
  show ?thesis
  proof (cases "capture_undo (ledger ch) ?b")
    case (Inl d)
    with a Inr show ?thesis by (simp add: apply_block_inner_def)
  next
    case u: (Inr undo)
    obtain S' r where A: "apply_block C (ledger ch) ?b ?h (chain_subsidy ch ?h) (proof_ctx ch)
        = (S', r)" by fastforce
    show ?thesis
    proof (cases r)
      case (Inl d)
      with A have "S' = ledger ch" using apply_block_ErrD(1) [OF ok] by blast
      with a Inr u A Inl show ?thesis by (simp add: apply_block_inner_def)
    next
      case r: (Inr u')
      with A have A': "apply_block C (ledger ch) ?b ?h (chain_subsidy ch ?h) (proof_ctx ch)
        = (S', Inr ())" by simp
      have "rewind C undo S' = ledger ch"
        using apply_block_rewind [OF ok A'] u by auto
      with a Inr u A' show ?thesis
        by (auto simp: apply_block_inner_def Let_def split: if_splits)
    qed
  qed
qed

text \<open>The pin applies whatever the network: a different block at its height is refused.\<close>

lemma pinned_block:
  assumes "utxo_ok C (l_utxos (ledger ch))"
    and "checkpoint_at (h_height (blk_header b)) = Some pinned"
    and "hash_to_hex (block_hash C b) \<noteq> pinned"
  shows "\<exists>e. apply_block_inner C ch b now v = (ch, Inl e)"
proof -
  obtain ch' r where a: "apply_block_inner C ch b now v = (ch', r)" by fastforce
  show ?thesis
  proof (cases r)
    case (Inl e)
    with a have "ch' = ch" using apply_inner_Err [OF assms(1)] by blast
    with a Inl show ?thesis by simp
  next
    case (Inr x)
    with a have "apply_block_inner C ch b now v = (ch', Inr ())" by simp
    then have "check_block C ch (shape_block ch b) now v = Inr ()"
      by (rule apply_inner_OkD [OF assms(1)])
    from check_block_OkD(4) [OF this] assms(2,3) show ?thesis by (simp add: check_pin_def)
  qed
qed

section \<open>The invariant is kept\<close>

lemma tip_of_core:
  assumes "chain_core C ch"
  shows "next_height ch
      = (if headers ch = [] then 0 else height_next (c_height (last (headers ch))))"
    and "tip_hash C ch = (if headers ch = [] then genesis_hash ch else c_hash (last (headers ch)))"
  using assms by (auto simp: chain_core_def next_height_def tip_height_def tip_hash_def)

lemma core_step:
  assumes core: "chain_core C ch"
    and b: "h_height (blk_header b) = next_height ch" "h_prev_hash (blk_header b) = tip_hash C ch"
      "check_pin C b = Inr ()" "min_difficulty (network ch) \<le> h_difficulty (blk_header b)"
    and S': "ledger_ok C S'" "l_binding_height S' = l_binding_height (ledger ch)"
  shows "chain_core C (applied C ch b S' u)"
proof -
  note t = tip_of_core [OF core]
  have "heights_ok (headers ch @ [compact_of C b])"
    by (rule heights_ok_snoc) (use core b(1) t(1) in \<open>auto simp: chain_core_def\<close>)
  moreover have "links_ok (genesis_hash ch) (headers ch @ [compact_of C b])"
    using core b(2) t(2) by (auto simp: links_ok_snoc chain_core_def)
  moreover have "pins_ok (headers ch @ [compact_of C b])"
    using core b(3) by (auto simp: pins_ok_def chain_core_def check_pin_def split: if_splits)
  moreover have "work_ok (sat_work (total_work ch) (blk_work b)) (headers ch @ [compact_of C b])"
    using core by (intro work_ok_snoc) (simp_all add: chain_core_def)
  moreover have "length (undos ch) \<le> length (headers ch)"
    using core by (simp add: chain_core_def)
  ultimately show ?thesis
    using core b(4) S' by (auto simp: chain_core_def length_trim_undos)
qed

lemma apply_block_keeps_binding:
  assumes "utxo_ok C (l_utxos S)" "apply_block C S body h r ctx = (S', Inr ())"
  shows "l_binding_height S' = l_binding_height S"
  using assms by (auto elim!: apply_block_OkD)

lemma stored_shape_shaped:
  assumes "chain_core C ch"
  shows "stored_shape (ledger ch) (h_height (blk_header b)) (blk_body (shape_block ch b))"
  using assms
  by (simp add: stored_shape_def shape_block_def binding_active_def binding_active_at_def
      chain_core_def block_strip_binding_def)

lemma replay_bodies_append:
  "replay_bodies C em acc (as @ bs) =
     (case replay_bodies C em acc as of
        (acc', Inl e) \<Rightarrow> (acc', Inl e)
      | (acc', Inr _) \<Rightarrow> replay_bodies C em acc' bs)"
proof (induction as arbitrary: acc)
  case Nil
  show ?case by simp
next
  case (Cons a as)
  obtain S w where [simp]: "acc = (S, w)" by fastforce
  show ?case by (simp add: Let_def Cons.IH split: sum.split prod.split)
qed

lemma bodies_step:
  assumes bodies: "bodies_ok C ch"
    and s: "apply_block_state_only C (ledger ch) (blk_body b) (h_height (blk_header b))
      (chain_subsidy ch (h_height (blk_header b))) = (S', Inr ())"
  shows "bodies_ok C (applied C ch b S' u)"
proof -
  have b: "base_state C (applied C ch b S' u) = base_state C ch"
    "base_work (applied C ch b S' u) = base_work ch"
    by (simp_all add: base_state_def base_work_def split: option.split)
  have "replay_bodies C (emission ch) (base_state C ch, base_work ch) (blocks ch @ [b])
      = ((S', sat_work (total_work ch) (blk_work b)), Inr ())"
    using bodies s by (simp add: bodies_ok_def replay_bodies_append chain_subsidy_def)
  with bodies b show ?thesis
    by (auto simp: bodies_ok_def)
qed

lemma apply_inner_ledger:
  assumes core: "chain_core C ch" and C: "encoding_ok C" "group_ok C"
    and a: "apply_block_inner C ch b now v = (ch', Inr ())"
  obtains S' undo where
    "ch' = applied C ch (shape_block ch b) S' undo"
    "check_block C ch (shape_block ch b) now v = Inr ()"
    "capture_undo (ledger ch) (blk_body (shape_block ch b)) = Inr undo"
    "ledger_step C (network ch) (shape_block ch b) (ledger ch) = Some (S', undo)"
    "apply_block_state_only C (ledger ch) (blk_body (shape_block ch b)) (h_height (blk_header b))
       (chain_subsidy ch (h_height (blk_header b))) = (S', Inr ())"
    "ledger_ok C S'" "l_binding_height S' = l_binding_height (ledger ch)"
    "ledger_utxo_root C S' = h_utxo_root (blk_header b)"
    "acc_sum (l_kernels S') = h_kernel_sum (blk_header b)"
proof -
  have lok: "ledger_ok C (ledger ch)" and ok: "utxo_ok C (l_utxos (ledger ch))"
    and em: "emission ch = locked_mainnet"
    using core by (simp_all add: chain_core_def ledger_ok_def)
  obtain S' undo where d: "check_block C ch (shape_block ch b) now v = Inr ()"
    "capture_undo (ledger ch) (blk_body (shape_block ch b)) = Inr undo"
    and A: "apply_block C (ledger ch) (blk_body (shape_block ch b)) (h_height (blk_header b))
       (chain_subsidy ch (h_height (blk_header b))) (proof_ctx ch) = (S', Inr ())"
    and roots: "ledger_utxo_root C S' = h_utxo_root (blk_header b)"
    "acc_sum (l_kernels S') = h_kernel_sum (blk_header b)"
    and ch': "ch' = applied C ch (shape_block ch b) S' undo"
    by (rule apply_inner_OkD [OF ok a])
  have "ledger_step C (network ch) (shape_block ch b) (ledger ch) = Some (S', undo)"
    using d(2) A by (simp add: ledger_step_def chain_subsidy_def em proof_ctx_def)
  moreover note state_only_agrees [OF ok C stored_shape_shaped [OF core] A]
  moreover note apply_block_ledger_ok [OF lok A]
  moreover note apply_block_keeps_binding [OF ok A]
  ultimately show thesis using that d ch' roots by blast
qed

lemma next_difficulty_min: "min_difficulty (network ch) \<le> chain_next_difficulty ch"
  by (simp add: chain_next_difficulty_def next_difficulty_floor)

lemma apply_inner_core:
  assumes core: "chain_core C ch" and C: "encoding_ok C" "group_ok C"
    and a: "apply_block_inner C ch b now v = (ch', Inr ())"
  shows "chain_core C ch'"
proof -
  obtain S' undo where ch': "ch' = applied C ch (shape_block ch b) S' undo"
    and d: "check_block C ch (shape_block ch b) now v = Inr ()"
    and S': "ledger_ok C S'" "l_binding_height S' = l_binding_height (ledger ch)"
    by (rule apply_inner_ledger [OF core C a])
  note k = check_block_OkD [OF d]
  show ?thesis
    unfolding ch'
    by (rule core_step [OF core])
      (use k S' next_difficulty_min [of ch] in simp_all)
qed

lemma apply_inner_chain_ok:
  assumes ok: "chain_ok C ch" and C: "encoding_ok C" "group_ok C"
    and a: "apply_block_inner C ch b now v = (ch', r)"
  shows "chain_ok C ch'"
proof (cases r)
  case (Inl e)
  have "utxo_ok C (l_utxos (ledger ch))"
    using ok by (simp add: chain_ok_def chain_core_def ledger_ok_def)
  with a Inl have "ch' = ch" using apply_inner_Err by blast
  with ok show ?thesis by simp
next
  case (Inr u)
  have core: "chain_core C ch" and bodies: "bodies_ok C ch"
    using ok by (simp_all add: chain_ok_def)
  from a Inr have a': "apply_block_inner C ch b now v = (ch', Inr ())" by simp
  obtain S' undo where ch': "ch' = applied C ch (shape_block ch b) S' undo"
    and s: "apply_block_state_only C (ledger ch) (blk_body (shape_block ch b))
      (h_height (blk_header b)) (chain_subsidy ch (h_height (blk_header b))) = (S', Inr ())"
    by (rule apply_inner_ledger [OF core C a'])
  have "bodies_ok C ch'"
    unfolding ch' by (rule bodies_step [OF bodies]) (use s in simp)
  with apply_inner_core [OF core C a'] show ?thesis by (simp add: chain_ok_def)
qed

lemma new_fair_ok:
  assumes C: "encoding_ok C" "group_ok C" and a: "new_fair C json n = Inr ch"
  shows "chain_ok C ch" and "network ch = n" and "headers ch = []"
proof -
  from a obtain bs where ch: "ch = \<lparr>network = n, genesis = fair_launch n,
      genesis_hash = genesis_commitment C bs, emission = locked_mainnet,
      ledger = state_for_network C n, blocks = [], headers = [], first_height = 0,
      horizon = None, horizon_work = 0, total_work = 0, undos = []\<rparr>"
    by (auto simp: new_fair_def res_simps)
  have z: "commit_public_value C 0 = 0"
    by (simp add: commit_public_value_def pt_mul_zero [OF C(2)])
  have "ledger_ok C (state_for_network C n)"
    using C by (simp add: ledger_ok_def state_for_network_def genesis_state_def verify_supply_def
      verify_supply_invariant_iff utxo_commitment_sum_def utxo_new_def utxo_ok_def acc_point_def
      accumulator_default_def commit_point_def commitment_identity_def alg circulating_def
      sat_sub_def z params)
  then show "chain_ok C ch"
    by (simp add: ch chain_ok_def chain_core_def bodies_ok_def heights_ok_def pins_ok_def
        work_ok_def base_state_def base_work_def state_for_network_def)
  show "network ch = n" "headers ch = []" by (simp_all add: ch)
qed

section \<open>Replaying one's own file\<close>

lemma own_disk_agrees:
  assumes core: "chain_core C ch" and C: "encoding_ok C" "group_ok C"
    and a: "apply_block_inner C ch b now v = (ch', Inr ())"
  shows "apply_block_from_own_disk C ch b = (ch', Inr ())"
proof -
  obtain S' undo where ch': "ch' = applied C ch (shape_block ch b) S' undo"
    and d: "check_block C ch (shape_block ch b) now v = Inr ()"
    and u: "capture_undo (ledger ch) (blk_body (shape_block ch b)) = Inr undo"
    and s: "apply_block_state_only C (ledger ch) (blk_body (shape_block ch b))
      (h_height (blk_header b)) (chain_subsidy ch (h_height (blk_header b))) = (S', Inr ())"
    by (rule apply_inner_ledger [OF core C a])
  note k = check_block_OkD [OF d]
  show ?thesis
    using k u s by (simp add: apply_block_from_own_disk_def ch' applied_def)
qed

end
