(* ===== verification/Reorg.thy ===== *)
theory Reorg
  imports Chain
begin

text \<open>
  \<open>crates/nightfall-consensus/src/lib.rs\<close>: leaving a fork.  The suffix path (trial at the
  common ancestor, verification of the new blocks, splice) and the path that rebuilds a
  whole candidate chain, each with its commit step that compares work again.
\<close>

section \<open>Shared prefixes\<close>

fun reorg_common_prefix :: "('p, 's) crypto \<Rightarrow> bytes list \<Rightarrow> block list \<Rightarrow> nat" where
  "reorg_common_prefix C (h # hs) (b # bs) =
     (if block_hash C b = h then Suc (reorg_common_prefix C hs bs) else 0)"
| "reorg_common_prefix C hs bs = 0"

definition reorg_rewind :: "('p, 's) crypto \<Rightarrow> bytes list \<Rightarrow> block list \<Rightarrow> nat" where
  "reorg_rewind C our_hashes candidate =
     length our_hashes - reorg_common_prefix C our_hashes candidate"

section \<open>The suffix path\<close>

record 'p suffix_trial =
  st_trial :: "'p chain"
  st_based_on :: bytes
  st_rewind :: nat
  st_our_work :: u128

record 'p suffix_reorg =
  sr_ledger :: "'p ledger_state"
  sr_headers :: "compact_header list"
  sr_suffix :: "block list"
  sr_undos :: "tip_undo list"
  sr_total_work :: u128
  sr_rewind :: nat
  sr_based_on :: bytes

definition prepare_suffix_trial ::
    "('p::ab_group_add, 's) crypto \<Rightarrow> (genesis_config \<Rightarrow> bytes option) \<Rightarrow> 'p chain \<Rightarrow> u64
       \<Rightarrow> consensus_error + 'p suffix_trial" where
  "prepare_suffix_trial C json ch ancestor_height =
     (let our_tip = (case tip_height ch of None \<Rightarrow> 0 | Some h \<Rightarrow> h) in
      if our_tip < ancestor_height then Inl BadHeight
      else
        (let n = unat (our_tip - ancestor_height) in
         if MAX_REORG_DEPTH < n \<or> length (undos ch) < n then Inl ReorgTooDeep
         else if length (headers ch) \<le> unat ancestor_height then Inl BadHeight
         else
           res_bind (ok_or ReorgTooDeep (rewound_work ch n)) (\<lambda>rewind_work.
           res_bind (ok_or ReorgTooDeep (checked_sub (total_work ch) rewind_work))
             (\<lambda>ancestor_work.
           res_bind (new_fair C json (network ch)) (\<lambda>fresh.
             Inr \<lparr>st_trial = fresh\<lparr>
                     ledger := fold (\<lambda>u S. rewind C (tu_state u) S) (take n (rev (undos ch)))
                                 (ledger ch),
                     total_work := ancestor_work,
                     headers := take (unat ancestor_height + 1) (headers ch),
                     blocks := [], undos := [], first_height := 0, horizon := None,
                     horizon_work := 0\<rparr>,
                   st_based_on = tip_hash C ch, st_rewind = n,
                   st_our_work = total_work ch\<rparr>)))))"

text \<open>Applying a list of blocks, every one of which has to be accepted.\<close>

fun apply_suffix ::
    "('p::ab_group_add, 's::comm_ring_1) crypto \<Rightarrow> 'p chain \<Rightarrow> block list \<Rightarrow> u64
       \<Rightarrow> consensus_error + 'p chain" where
  "apply_suffix C ch [] now = Inr ch"
| "apply_suffix C ch (b # bs) now =
     res_bind (state_result (chain_apply_block C ch b now)) (\<lambda>ch'. apply_suffix C ch' bs now)"

definition finish_suffix ::
    "('p::ab_group_add, 's::comm_ring_1) crypto \<Rightarrow> 'p suffix_trial \<Rightarrow> block list \<Rightarrow> u64
       \<Rightarrow> consensus_error + 'p suffix_reorg option" where
  "finish_suffix C t sfx now =
     (if sfx = [] then Inr None
      else if sat_work (total_work (st_trial t)) (\<Sum>b \<leftarrow> sfx. blk_work b) \<le> st_our_work t
        then Inr None
      else
        res_bind (apply_suffix C (st_trial t) sfx now) (\<lambda>ch.
          if total_work ch \<le> st_our_work t then Inr None
          else Inr (Some \<lparr>sr_ledger = ledger ch, sr_headers = headers ch,
                          sr_suffix = blocks ch, sr_undos = undos ch,
                          sr_total_work = total_work ch, sr_rewind = st_rewind t,
                          sr_based_on = st_based_on t\<rparr>)))"

definition splice_suffix ::
    "('p, 's) crypto \<Rightarrow> 'p chain \<Rightarrow> 'p suffix_reorg \<Rightarrow> 'p chain \<times> bool" where
  "splice_suffix C ch r =
     (if tip_hash C ch \<noteq> sr_based_on r \<or> sr_total_work r \<le> total_work ch then (ch, False)
      else if length (blocks ch) < sr_rewind r \<or> length (undos ch) < sr_rewind r then (ch, False)
      else
        (ch\<lparr>blocks := take (length (blocks ch) - sr_rewind r) (blocks ch) @ sr_suffix r,
            headers := sr_headers r, ledger := sr_ledger r, total_work := sr_total_work r,
            undos := trim_undos (take (length (undos ch) - sr_rewind r) (undos ch)
                                   @ sr_undos r)\<rparr>, True))"

section \<open>The rebuild path\<close>

definition rebuild_from_pruned_base ::
    "('p::ab_group_add, 's::comm_ring_1) crypto \<Rightarrow> (genesis_config \<Rightarrow> bytes option) \<Rightarrow> network_id
       \<Rightarrow> 'p pruned_base \<Rightarrow> block list \<Rightarrow> nat \<Rightarrow> u64 \<Rightarrow> consensus_error + 'p chain" where
  "rebuild_from_pruned_base C json n base bs trusted now =
     res_bind (new_fair C json n) (\<lambda>fresh.
       (let hz = with_binding_height (pb_horizon base) (binding_fork_height n);
            ch0 = fresh\<lparr>ledger := hz, horizon := Some hz, horizon_work := pb_horizon_work base,
                        first_height := pb_first_height base, headers := pb_headers base,
                        total_work := pb_horizon_work base\<rparr>
        in res_bind (rebuild_from C trusted now 0 ch0 bs) (\<lambda>ch.
           res_bind (if 0 < trusted \<and> length (blocks ch) \<le> trusted then check_tip_roots C ch
                     else Inr ()) (\<lambda>_. Inr ch))))"

definition evaluate_reorg_at ::
    "('p::ab_group_add, 's::comm_ring_1) crypto \<Rightarrow> (genesis_config \<Rightarrow> bytes option) \<Rightarrow> bool
       \<Rightarrow> network_id \<Rightarrow> u128 \<Rightarrow> bytes list \<Rightarrow> 'p pruned_base option \<Rightarrow> block list \<Rightarrow> u64
       \<Rightarrow> consensus_error + 'p chain option" where
  "evaluate_reorg_at C json no_assume n our_work our_hashes base bs now =
     (case bs of
        [] \<Rightarrow> Inr None
      | first # _ \<Rightarrow>
          (let start = (case base of None \<Rightarrow> 0 | Some b \<Rightarrow> pb_first_height b) in
           if h_height (blk_header first) \<noteq> start then Inl BadHeight
           else
             (let claimed = (case base of None \<Rightarrow> 0 | Some b \<Rightarrow> pb_horizon_work b)
                              + (\<Sum>b \<leftarrow> bs. blk_work b) in
              if claimed \<le> our_work then Inr None
              else if length our_hashes < unat start then Inl ReorgTooDeep
              else
                (let window_common = reorg_common_prefix C (drop (unat start) our_hashes) bs;
                     common = unat start + window_common in
                 if MAX_REORG_DEPTH < length our_hashes - common then Inl ReorgTooDeep
                 else
                   res_bind
                     (case base of
                        Some pb \<Rightarrow> rebuild_from_pruned_base C json n pb bs window_common now
                      | None \<Rightarrow>
                          rebuild_from_blocks_trusted_prefix C json no_assume n bs common now)
                     (\<lambda>candidate.
                   res_bind (chain_verify_supply C candidate) (\<lambda>_.
                     if our_work < total_work candidate then Inr (Some candidate)
                     else Inr None))))))"

definition evaluate_reorg ::
    "('p::ab_group_add, 's::comm_ring_1) crypto \<Rightarrow> (genesis_config \<Rightarrow> bytes option) \<Rightarrow> bool
       \<Rightarrow> network_id \<Rightarrow> u128 \<Rightarrow> bytes list \<Rightarrow> block list \<Rightarrow> u64
       \<Rightarrow> consensus_error + 'p chain option" where
  "evaluate_reorg C json no_assume n our_work our_hashes bs now =
     evaluate_reorg_at C json no_assume n our_work our_hashes None bs now"

definition adopt_reorg :: "'p chain \<Rightarrow> 'p chain \<Rightarrow> 'p chain \<times> bool" where
  "adopt_reorg ch candidate =
     (if total_work ch < total_work candidate then (candidate, True) else (ch, False))"

definition maybe_reorg_to ::
    "('p::ab_group_add, 's::comm_ring_1) crypto \<Rightarrow> (genesis_config \<Rightarrow> bytes option) \<Rightarrow> bool
       \<Rightarrow> 'p chain \<Rightarrow> block list \<Rightarrow> u64 \<Rightarrow> 'p chain \<times> (consensus_error + bool)" where
  "maybe_reorg_to C json no_assume ch bs now =
     (case evaluate_reorg_at C json no_assume (network ch) (total_work ch) (hash_chain C ch)
             (pruned_base_of ch) bs now of
        Inl e \<Rightarrow> (ch, Inl e)
      | Inr None \<Rightarrow> (ch, Inr False)
      | Inr (Some candidate) \<Rightarrow>
          (let (ch', ok) = adopt_reorg ch candidate in (ch', Inr ok)))"

end
