(* ===== verification/Reorg_Facts.thy ===== *)
theory Reorg_Facts
  imports Chain_Facts Reorg
begin

text \<open>
  Correctness of leaving a fork: the trial at the common ancestor is the chain that stood
  there, and the spliced chain is the chain that would have resulted from applying the new
  blocks to the ancestor.  The undo window of the spliced chain may be shorter, since the
  undos it had to give up are not taken again.
\<close>

section \<open>Runs of blocks\<close>

lemma apply_innerI:
  assumes "check_block C ch (shape_block ch b) now v = Inr ()"
    "capture_undo (ledger ch) (blk_body (shape_block ch b)) = Inr undo"
    "apply_block C (ledger ch) (blk_body (shape_block ch b)) (h_height (blk_header b))
       (chain_subsidy ch (h_height (blk_header b))) (proof_ctx ch) = (S', Inr ())"
    "ledger_utxo_root C S' = h_utxo_root (blk_header b)"
    "acc_sum (l_kernels S') = h_kernel_sum (blk_header b)"
  shows "apply_block_inner C ch b now v = (applied C ch (shape_block ch b) S' undo, Inr ())"
  using assms by (simp add: apply_block_inner_def applied_def)

lemma state_result_Inr_iff: "state_result r = Inr x \<longleftrightarrow> r = (x, Inr ())"
  by (cases r) (auto simp: state_result_def split: sum.splits)

lemma apply_suffix_Cons_Inr:
  "apply_suffix C ch (b # bs) now = Inr ch'' \<longleftrightarrow>
     (\<exists>ch'. apply_block_inner C ch b now True = (ch', Inr ()) \<and> apply_suffix C ch' bs now = Inr ch'')"
  by (simp add: res_simps state_result_Inr_iff chain_apply_block_def)

lemma apply_suffix_ok:
  assumes "encoding_ok C" "group_ok C"
  shows "chain_ok C ch \<Longrightarrow> apply_suffix C ch bs now = Inr ch' \<Longrightarrow> chain_ok C ch'"
proof (induction bs arbitrary: ch)
  case (Cons b bs)
  from Cons.prems(2) obtain ch1 where "apply_block_inner C ch b now True = (ch1, Inr ())"
    and rest: "apply_suffix C ch1 bs now = Inr ch'"
    unfolding apply_suffix_Cons_Inr by blast
  then have "chain_ok C ch1" using apply_inner_chain_ok [OF Cons.prems(1) assms] by blast
  then show ?case by (rule Cons.IH [OF _ rest])
qed simp

text \<open>What a run adds to a chain, and that its undos lead back.\<close>

lemma apply_suffix_run:
  assumes C: "encoding_ok C" "group_ok C"
  shows "chain_core C ch \<Longrightarrow> apply_suffix C ch bs now = Inr ch' \<Longrightarrow>
    \<exists>bs' us. run_log (ledger_step C (network ch)) bs' (ledger ch)
        = Some (ledger ch', map tu_state us)
      \<and> blocks ch' = blocks ch @ bs' \<and> headers ch' = headers ch @ map (compact_of C) bs'
      \<and> undos ch' = trim_undos (undos ch @ us) \<and> map tu_work us = map blk_work bs'
      \<and> map blk_work bs' = map blk_work bs \<and> network ch' = network ch
      \<and> total_work ch' = fold (\<lambda>b w. sat_work w (blk_work b)) bs (total_work ch)
      \<and> chain_core C ch'"
proof (induction bs arbitrary: ch)
  case Nil
  then have "length (undos ch) \<le> MAX_REORG_DEPTH" by (simp add: chain_core_def)
  with Nil show ?case by (intro exI [of _ "[]"]) (auto simp: trim_undos_def)
next
  case (Cons b bs)
  from Cons.prems(2) obtain ch1 where a: "apply_block_inner C ch b now True = (ch1, Inr ())"
    and rest: "apply_suffix C ch1 bs now = Inr ch'"
    by (auto simp: apply_suffix_Cons_Inr simp del: apply_suffix.simps(2))
  obtain S' undo where ch1: "ch1 = applied C ch (shape_block ch b) S' undo"
    and st: "ledger_step C (network ch) (shape_block ch b) (ledger ch) = Some (S', undo)"
    by (rule apply_inner_ledger [OF Cons.prems(1) C a])
  from Cons.IH [OF apply_inner_core [OF Cons.prems(1) C a] rest] obtain bs' us where
    r: "run_log (ledger_step C (network ch)) bs' S' = Some (ledger ch', map tu_state us)"
      "blocks ch' = blocks ch @ shape_block ch b # bs'"
      "headers ch' = headers ch @ map (compact_of C) (shape_block ch b # bs')"
      "undos ch' = trim_undos (trim_undos (undos ch @ [\<lparr>tu_work = blk_work b, tu_state = undo\<rparr>]) @ us)"
      "map tu_work us = map blk_work bs'" "map blk_work bs' = map blk_work bs"
      "network ch' = network ch" "chain_core C ch'"
      "total_work ch' = fold (\<lambda>b w. sat_work w (blk_work b)) (b # bs) (total_work ch)"
    by (auto simp: ch1)
  show ?case
    by (rule exI [of _ "shape_block ch b # bs'"],
        rule exI [of _ "\<lparr>tu_work = blk_work b, tu_state = undo\<rparr> # us"])
      (use r st in \<open>simp add: trim_undos_trim\<close>)
qed

lemma apply_suffix_undo:
  assumes C: "encoding_ok C" "group_ok C" and core: "chain_core C ch"
    and a: "apply_suffix C ch bs now = Inr ch'" and len: "length bs \<le> MAX_REORG_DEPTH"
  shows "length bs \<le> length (undos ch')"
    and "fold (\<lambda>u S. rewind C (tu_state u) S) (take (length bs) (rev (undos ch'))) (ledger ch')
      = ledger ch"
    and "map tu_work (take (length bs) (rev (undos ch'))) = rev (map blk_work bs)"
proof -
  from apply_suffix_run [OF C core a] obtain bs' us where
    r: "run_log (ledger_step C (network ch)) bs' (ledger ch) = Some (ledger ch', map tu_state us)"
    and u: "undos ch' = trim_undos (undos ch @ us)"
    and w: "map tu_work us = map blk_work bs'" "map blk_work bs' = map blk_work bs"
    by blast
  have l: "length us = length bs" using w by (metis length_map)
  have lok: "ledger_ok C (ledger ch)" using core by (simp add: chain_core_def)
  note t = trim_undos_last [of us "undos ch"]
  show "length bs \<le> length (undos ch')" using t(1) len l u by simp
  have tk: "take (length bs) (rev (undos ch')) = rev us" using t(2) len l u by simp
  show "map tu_work (take (length bs) (rev (undos ch'))) = rev (map blk_work bs)"
    by (simp only: tk rev_map [symmetric] w)
  have "fold (\<lambda>u S. rewind C (tu_state u) S) (rev us) (ledger ch')
      = fold (rewind C) (rev (map tu_state us)) (ledger ch')"
    by (simp add: fold_map rev_map o_def)
  also have "\<dots> = ledger ch"
    by (rule ledger_log.undo_run [OF lok r])
  finally show "fold (\<lambda>u S. rewind C (tu_state u) S) (take (length bs) (rev (undos ch'))) (ledger ch')
      = ledger ch" by (simp add: tk)
qed

section \<open>Work without saturation\<close>

lemma compact_work_bound: "unat (compact_work h) \<le> 2 ^ 64 - 1"
proof -
  have "unat (c_difficulty h) < 2 ^ 64"
    using unsigned_less [of "c_difficulty h", where ?'a = nat] by simp
  then have "unat (c_difficulty h) \<le> 2 ^ 64 - 1" by linarith
  then show ?thesis unfolding compact_work_def unat_block_work by simp
qed

lemma work_sum_bound:
  assumes "length hs \<le> 2 ^ 64"
  shows "(\<Sum>h \<leftarrow> hs. unat (compact_work h)) \<le> U128_MAX"
proof -
  have "(\<Sum>h \<leftarrow> hs. unat (compact_work h)) \<le> (\<Sum>h \<leftarrow> hs. 2 ^ 64 - 1)"
    by (rule sum_list_mono) (rule compact_work_bound)
  also have "\<dots> = length hs * (2 ^ 64 - 1)" by (simp only: sum_list_triv) simp
  also have "\<dots> \<le> 2 ^ 64 * (2 ^ 64 - 1)" by (rule mult_le_mono1 [OF assms])
  also have "\<dots> \<le> U128_MAX" by (simp add: U128_MAX_def)
  finally show ?thesis .
qed

lemma work_exact:
  assumes "chain_core C ch" "length (headers ch) \<le> 2 ^ 64"
  shows "unat (total_work ch) = (\<Sum>h \<leftarrow> headers ch. unat (compact_work h))"
  using assms(1) work_sum_bound [OF assms(2)] by (simp add: chain_core_def work_ok_def)

lemma unat_sum_list_128:
  "(\<Sum>k \<leftarrow> ks. unat (f k)) \<le> U128_MAX \<Longrightarrow> unat (\<Sum>k \<leftarrow> ks. f k :: u128) = (\<Sum>k \<leftarrow> ks. unat (f k))"
proof (induction ks)
  case (Cons k ks)
  then have "unat (\<Sum>k \<leftarrow> ks. f k) = (\<Sum>k \<leftarrow> ks. unat (f k))" by simp
  moreover have "unat (f k) + (\<Sum>k \<leftarrow> ks. unat (f k)) < 2 ^ 128"
    using Cons.prems by (simp add: U128_MAX_def)
  ultimately show ?case by (simp add: unat_word_ariths)
qed simp

text \<open>The work a run adds, as words and as numbers.\<close>

lemma run_work:
  assumes C: "encoding_ok C" "group_ok C" and core: "chain_core C ch"
    and a: "apply_suffix C ch bs now = Inr ch'" and len: "length (headers ch') \<le> 2 ^ 64"
  shows "unat (\<Sum>b \<leftarrow> bs. blk_work b) = (\<Sum>b \<leftarrow> bs. unat (blk_work b))"
    and "unat (total_work ch') = unat (total_work ch) + unat (\<Sum>b \<leftarrow> bs. blk_work b)"
    and "length (headers ch') = length (headers ch) + length bs"
    and "take (length (headers ch)) (headers ch') = headers ch"
proof -
  from apply_suffix_run [OF C core a] obtain bs' where
    h: "headers ch' = headers ch @ map (compact_of C) bs'"
    and w: "map blk_work bs' = map blk_work bs" and core': "chain_core C ch'"
    by blast
  have l: "length bs' = length bs" using w by (metis length_map)
  show "length (headers ch') = length (headers ch) + length bs" by (simp add: h l)
  then have len0: "length (headers ch) \<le> 2 ^ 64" using len by linarith
  show "take (length (headers ch)) (headers ch') = headers ch" by (simp add: h)
  have "(\<Sum>b \<leftarrow> bs'. unat (compact_work (compact_of C b))) = (\<Sum>x \<leftarrow> map blk_work bs'. unat x)"
    by (simp add: o_def)
  also have "\<dots> = (\<Sum>b \<leftarrow> bs. unat (blk_work b))" by (simp only: w) (simp add: o_def)
  finally have s: "(\<Sum>h \<leftarrow> headers ch'. unat (compact_work h))
      = (\<Sum>h \<leftarrow> headers ch. unat (compact_work h)) + (\<Sum>b \<leftarrow> bs. unat (blk_work b))"
    by (simp add: h o_def)
  then have "(\<Sum>b \<leftarrow> bs. unat (blk_work b)) \<le> U128_MAX"
    using work_sum_bound [OF len] by linarith
  then show e: "unat (\<Sum>b \<leftarrow> bs. blk_work b) = (\<Sum>b \<leftarrow> bs. unat (blk_work b))"
    by (rule unat_sum_list_128)
  show "unat (total_work ch') = unat (total_work ch) + unat (\<Sum>b \<leftarrow> bs. blk_work b)"
    by (simp only: work_exact [OF core' len] work_exact [OF core len0] s e)
qed

lemma tip_height_core:
  assumes "chain_core C ch" "headers ch \<noteq> []" "length (headers ch) \<le> 2 ^ 64"
  obtains h where "tip_height ch = Some h" "unat h = length (headers ch) - 1"
proof -
  have n: "length (headers ch) - 1 < length (headers ch)" using assms(2) by simp
  have "tip_height ch = Some (c_height (last (headers ch)))"
    using assms(2) by (simp add: tip_height_def)
  moreover have "unat (c_height (headers ch ! (length (headers ch) - 1)))
      = min (length (headers ch) - 1) (2 ^ 64 - 1)"
    using assms(1) n unfolding chain_core_def heights_ok_def by blast
  moreover have "last (headers ch) = headers ch ! (length (headers ch) - 1)"
    by (rule last_conv_nth [OF assms(2)])
  moreover have "min (length (headers ch) - 1) (2 ^ 64 - 1) = length (headers ch) - 1"
    using assms(3) by linarith
  ultimately show thesis using that by metis
qed

section \<open>The trial at the ancestor\<close>

text \<open>
  Rewinding a chain to a block it was built on gives back the ledger, the work and the
  headers of that time.
\<close>

lemma prepare_restores:
  assumes C: "encoding_ok C" "group_ok C" and core: "chain_core C ch0"
    and ne: "headers ch0 \<noteq> []" and ours: "apply_suffix C ch0 ours now = Inr ch"
    and len: "length ours \<le> MAX_REORG_DEPTH" "length (headers ch) \<le> 2 ^ 64"
    and fresh: "new_fair C json (network ch0) = Inr fresh"
    and anc: "tip_height ch0 = Some anc"
  shows "prepare_suffix_trial C json ch anc = Inr
    \<lparr>st_trial = fresh\<lparr>ledger := ledger ch0, total_work := total_work ch0,
        headers := headers ch0, blocks := [], undos := [], first_height := 0,
        horizon := None, horizon_work := 0\<rparr>,
     st_based_on = tip_hash C ch, st_rewind = length ours, st_our_work = total_work ch\<rparr>"
proof -
  from apply_suffix_run [OF C core ours] have core': "chain_core C ch" and net: "network ch = network ch0"
    by blast+
  note w = run_work [OF C core ours len(2)]
  note u = apply_suffix_undo [OF C core ours len(1)]
  have ne': "headers ch \<noteq> []" using ne w(3) by auto
  have l0: "length (headers ch0) \<le> 2 ^ 64" using len(2) w(3) by linarith
  obtain tip where tip: "tip_height ch = Some tip" "unat tip = length (headers ch) - 1"
    by (rule tip_height_core [OF core' ne' len(2)])
  have ua: "unat anc = length (headers ch0) - 1"
    using tip_height_core [OF core ne l0] anc by auto
  have p0: "0 < length (headers ch0)" using ne by simp
  have le: "anc \<le> tip" using tip(2) ua w(3) p0 by (simp add: word_le_nat_alt)
  have d: "unat (tip - anc) = length ours"
    using unat_minus_le [OF le] tip(2) ua w(3) p0 by linarith
  have idx: "Suc (unat anc) = length (headers ch0)" "\<not> length (headers ch) \<le> unat anc"
    using ua w(3) p0 by linarith+
  have "(\<Sum>x \<leftarrow> take (length ours) (rev (undos ch)). tu_work x) = (\<Sum>b \<leftarrow> ours. blk_work b)"
    by (simp only: u(3) sum_list_rev)
  then have rw: "rewound_work ch (length ours) = Some (\<Sum>b \<leftarrow> ours. blk_work b)"
    using u(1) by (simp add: rewound_work_def)
  have sub: "checked_sub (total_work ch) (\<Sum>b \<leftarrow> ours. blk_work b) = Some (total_work ch0)"
  proof -
    have "(\<Sum>b \<leftarrow> ours. blk_work b) \<le> total_work ch"
      using w(2) by (simp add: word_le_nat_alt)
    moreover from unat_minus_le [OF this]
    have "total_work ch - (\<Sum>b \<leftarrow> ours. blk_work b) = total_work ch0"
      using w(2) by (simp add: word_unat_eq_iff)
    ultimately show ?thesis by (simp add: checked_sub_def)
  qed
  show ?thesis
    using u(1) len(1) le
    by (simp add: prepare_suffix_trial_def tip(1) d idx rw sub fresh net w(4) u(2) ok_or_def
        not_less)
qed

end
