(* ===== verification/Splice.thy ===== *)
theory Splice
  imports Reorg_Facts
begin

text \<open>
  The splice of a verified suffix is the chain that results from applying the same blocks to
  the common ancestor.  Application reads a chain only through its view, so the trial and the
  ancestor run alike; the undo windows of the two results end alike, and the spliced one may
  be shorter.
\<close>

section \<open>Chains that look alike\<close>

text \<open>
  Block application reads a non-empty chain only through its network, emission, ledger,
  headers and work; kept bodies, undos and the pruning horizon do not influence it.
\<close>

definition same_view :: "'p chain \<Rightarrow> 'p chain \<Rightarrow> bool" where
  "same_view ch t \<longleftrightarrow> headers ch \<noteq> [] \<and> headers t = headers ch \<and> network t = network ch
     \<and> emission t = emission ch \<and> ledger t = ledger ch \<and> total_work t = total_work ch"

lemma same_view_queries:
  assumes "same_view ch t"
  shows "shape_block t = shape_block ch" "check_block C t = check_block C ch"
    "chain_subsidy t = chain_subsidy ch" "proof_ctx t = proof_ctx ch"
proof -
  have h: "headers ch \<noteq> []" "headers t = headers ch" "network t = network ch"
    "emission t = emission ch" "ledger t = ledger ch"
    using assms by (simp_all add: same_view_def)
  show s: "chain_subsidy t = chain_subsidy ch" by (simp add: fun_eq_iff chain_subsidy_def h)
  show "shape_block t = shape_block ch"
    by (simp add: fun_eq_iff shape_block_def binding_active_at_def h)
  show "proof_ctx t = proof_ctx ch" by (simp add: proof_ctx_def h)
  have "next_height t = next_height ch" "tip_hash C t = tip_hash C ch"
    "block_count t = block_count ch" "chain_median_time_past t = chain_median_time_past ch"
    "chain_next_difficulty t = chain_next_difficulty ch" "chain_pow_params t = chain_pow_params ch"
    using h by (simp_all add: next_height_def tip_height_def tip_hash_def block_count_def
        chain_median_time_past_def chain_next_difficulty_def difficulty_history_def
        chain_pow_params_def)
  with s show "check_block C t = check_block C ch" by (intro ext) (simp only: check_block_def)
qed

lemma same_view_apply:
  assumes v: "same_view ch t" and ok: "utxo_ok C (l_utxos (ledger ch))"
    and a: "apply_block_inner C ch b now p = (ch1, Inr ())"
  obtains b' S' u where "ch1 = applied C ch b' S' u"
    "apply_block_inner C t b now p = (applied C t b' S' u, Inr ())"
    "same_view ch1 (applied C t b' S' u)" "blk_work b' = blk_work b"
proof -
  obtain S' u where d: "check_block C ch (shape_block ch b) now p = Inr ()"
    "capture_undo (ledger ch) (blk_body (shape_block ch b)) = Inr u"
    "apply_block C (ledger ch) (blk_body (shape_block ch b)) (h_height (blk_header b))
       (chain_subsidy ch (h_height (blk_header b))) (proof_ctx ch) = (S', Inr ())"
    "ledger_utxo_root C S' = h_utxo_root (blk_header b)"
    "acc_sum (l_kernels S') = h_kernel_sum (blk_header b)"
    and ch1: "ch1 = applied C ch (shape_block ch b) S' u"
    by (rule apply_inner_OkD [OF ok a])
  note q = same_view_queries [OF v]
  have l: "ledger t = ledger ch" using v by (simp add: same_view_def)
  have "apply_block_inner C t b now p = (applied C t (shape_block t b) S' u, Inr ())"
    by (rule apply_innerI) (use d in \<open>simp_all only: q l\<close>)
  then have t: "apply_block_inner C t b now p = (applied C t (shape_block ch b) S' u, Inr ())"
    by (simp only: q(1))
  show thesis
    by (rule that [OF ch1 t]) (use v in \<open>simp_all add: same_view_def ch1\<close>)
qed

lemma same_view_sym: "same_view ch t \<Longrightarrow> same_view t ch"
  by (simp add: same_view_def)

lemma same_view_run:
  assumes C: "encoding_ok C" "group_ok C"
  shows "chain_core C ch \<or> chain_core C t \<Longrightarrow> same_view ch t \<Longrightarrow>
      length (undos ch) \<le> MAX_REORG_DEPTH \<Longrightarrow> length (undos t) \<le> MAX_REORG_DEPTH \<Longrightarrow>
      apply_suffix C ch bs now = Inr ch1 \<Longrightarrow>
    \<exists>t1 bs' us. apply_suffix C t bs now = Inr t1 \<and> same_view ch1 t1
      \<and> blocks ch1 = blocks ch @ bs' \<and> blocks t1 = blocks t @ bs'
      \<and> undos ch1 = trim_undos (undos ch @ us) \<and> undos t1 = trim_undos (undos t @ us)"
proof (induction bs arbitrary: ch t)
  case Nil
  then show ?case by (intro exI [of _ t] exI [of _ "[]"]) (simp add: trim_undos_def)
next
  case (Cons b bs)
  from Cons.prems(5) obtain c where a: "apply_block_inner C ch b now True = (c, Inr ())"
    and rest: "apply_suffix C c bs now = Inr ch1"
    unfolding apply_suffix_Cons_Inr by blast
  have ok: "utxo_ok C (l_utxos (ledger ch))"
    using Cons.prems(1,2) by (auto simp: chain_core_def ledger_ok_def same_view_def)
  obtain b' S' u where c: "c = applied C ch b' S' u"
    and t: "apply_block_inner C t b now True = (applied C t b' S' u, Inr ())"
    and v: "same_view c (applied C t b' S' u)"
    by (rule same_view_apply [OF Cons.prems(2) ok a])
  have len: "length (undos c) \<le> MAX_REORG_DEPTH"
      "length (undos (applied C t b' S' u)) \<le> MAX_REORG_DEPTH"
    by (simp_all add: c length_trim_undos)
  have core: "chain_core C c \<or> chain_core C (applied C t b' S' u)"
    using Cons.prems(1) apply_inner_core [OF _ C a] apply_inner_core [OF _ C t] by blast
  from Cons.IH [OF core v len rest] obtain t1 bs' us where
    r: "apply_suffix C (applied C t b' S' u) bs now = Inr t1" "same_view ch1 t1"
      "blocks ch1 = blocks ch @ b' # bs'" "blocks t1 = blocks t @ b' # bs'"
      "undos ch1 = trim_undos (undos ch @ \<lparr>tu_work = blk_work b', tu_state = u\<rparr> # us)"
      "undos t1 = trim_undos (undos t @ \<lparr>tu_work = blk_work b', tu_state = u\<rparr> # us)"
    by (auto simp: c trim_undos_trim)
  from t r(1) have "apply_suffix C t (b # bs) now = Inr t1"
    unfolding apply_suffix_Cons_Inr by blast
  with r(2-) show ?case by blast
qed

lemma run_frame:
  assumes C: "encoding_ok C" "group_ok C"
  shows "chain_core C ch \<Longrightarrow> apply_suffix C ch bs now = Inr ch1 \<Longrightarrow>
    network ch1 = network ch \<and> genesis ch1 = genesis ch \<and> genesis_hash ch1 = genesis_hash ch \<and> emission ch1 = emission ch
      \<and> first_height ch1 = first_height ch \<and> horizon ch1 = horizon ch \<and> horizon_work ch1 = horizon_work ch"
proof (induction bs arbitrary: ch)
  case (Cons b bs)
  from Cons.prems(2) obtain c where a: "apply_block_inner C ch b now True = (c, Inr ())"
    and rest: "apply_suffix C c bs now = Inr ch1"
    unfolding apply_suffix_Cons_Inr by blast
  obtain S' u where c: "c = applied C ch (shape_block ch b) S' u"
    by (rule apply_inner_ledger [OF Cons.prems(1) C a])
  note core = apply_inner_core [OF Cons.prems(1) C a]
  from Cons.IH [OF core rest] show ?case
    by (simp add: c)
qed simp

section \<open>The splice\<close>

lemma trim_undos_append_trim: "trim_undos (xs @ trim_undos ys) = trim_undos (xs @ ys)"
  by (cases "length ys \<le> MAX_REORG_DEPTH") (simp_all add: trim_undos_def)

lemma undo_window:
  assumes "length us \<le> MAX_REORG_DEPTH" "undos0 = trim_undos (U @ us)"
  shows "\<exists>k. trim_undos (take (length undos0 - length us) undos0 @ trim_undos vs)
    = drop k (trim_undos (U @ vs))"
proof -
  define d where "d = length U + length us - MAX_REORG_DEPTH"
  have d: "d \<le> length U" using assms(1) by (simp add: d_def)
  then have u: "undos0 = drop d U @ us" using assms(2) by (simp add: trim_undos_def d_def)
  have "trim_undos (take (length undos0 - length us) undos0 @ trim_undos vs)
      = trim_undos (drop d U @ vs)"
    by (simp add: u trim_undos_append_trim)
  also have "\<dots> = drop (max d (length U + length vs - MAX_REORG_DEPTH)) (U @ vs)"
  proof -
    have "drop d U @ vs = drop d (U @ vs)" using d by simp
    moreover have "length U + length vs - d - MAX_REORG_DEPTH + d
        = max d (length U + length vs - MAX_REORG_DEPTH)" using d by linarith
    ultimately show ?thesis
      by (simp only: trim_undos_def length_drop length_append drop_drop)
  qed
  also have "\<dots> = drop (max d (length U + length vs - MAX_REORG_DEPTH)
      - (length U + length vs - MAX_REORG_DEPTH)) (trim_undos (U @ vs))"
    by (simp only: trim_undos_def length_append drop_drop) (simp only: max_def, simp)
  finally show ?thesis by blast
qed

lemma splice_is_rebuild:
  assumes C: "encoding_ok C" "group_ok C" and core: "chain_core C ch0"
    and ne: "headers ch0 \<noteq> []"
    and ours: "apply_suffix C ch0 ours now = Inr ch"
    and theirs: "apply_suffix C ch0 theirs now' = Inr ch2"
    and len: "length ours \<le> MAX_REORG_DEPTH" "length (headers ch) \<le> 2 ^ 64"
      "length (headers ch2) \<le> 2 ^ 64"
    and heavier: "total_work ch < total_work ch2"
    and fresh: "new_fair C json (network ch0) = Inr fresh"
    and anc: "tip_height ch0 = Some anc"
  obtains t r ch' where "prepare_suffix_trial C json ch anc = Inr t"
    "finish_suffix C t theirs now' = Inr (Some r)" "splice_suffix C ch r = (ch', True)"
    "ch'\<lparr>undos := undos ch2\<rparr> = ch2" "\<exists>k. undos ch' = drop k (undos ch2)"
proof -
  note t = prepare_restores [OF C core ne ours len(1,2) fresh anc]
  let ?t = "fresh\<lparr>ledger := ledger ch0, total_work := total_work ch0,
        headers := headers ch0, blocks := [], undos := [], first_height := 0,
        horizon := None, horizon_work := 0\<rparr>"
  have em: "emission ch0 = locked_mainnet" using core by (simp add: chain_core_def)
  have fr: "network fresh = network ch0" "emission fresh = locked_mainnet"
    using new_fair_ok [OF C fresh] by (simp_all add: chain_ok_def chain_core_def)
  have v: "same_view ch0 ?t" by (simp add: same_view_def ne em fr)
  obtain t1 bs' us where r: "apply_suffix C ?t theirs now' = Inr t1" "same_view ch2 t1"
    "blocks ch2 = blocks ch0 @ bs'" "blocks t1 = bs'"
    "undos ch2 = trim_undos (undos ch0 @ us)" "undos t1 = trim_undos us"
    using same_view_run [OF C disjI1 [OF core] v _ _ theirs] core
    by (auto simp: chain_core_def)
  have v2: "headers t1 = headers ch2" "ledger t1 = ledger ch2" "total_work t1 = total_work ch2"
    using r(2) by (simp_all add: same_view_def)
  note w = run_work [OF C core theirs len(3)] and w1 = run_work [OF C core ours len(2)]
  have ge: "unat (total_work ch0) \<le> unat (total_work ch)" using w1(2) by linarith
  have "sat_work (total_work ch0) (\<Sum>b \<leftarrow> theirs. blk_work b) = total_work ch2"
  proof -
    have "unat (total_work ch2) \<le> U128_MAX"
      using unsigned_less [of "total_work ch2", where ?'a = nat] by (simp add: U128_MAX_def)
    then show ?thesis using w(2) by (simp add: word_unat_eq_iff sat_work_nat)
  qed
  moreover have "theirs \<noteq> []"
    using heavier ge theirs by (auto simp: word_less_nat_alt)
  ultimately have fin: "finish_suffix C \<lparr>st_trial = ?t, st_based_on = tip_hash C ch,
      st_rewind = length ours, st_our_work = total_work ch\<rparr> theirs now' = Inr (Some
      \<lparr>sr_ledger = ledger ch2, sr_headers = headers ch2, sr_suffix = bs',
       sr_undos = trim_undos us, sr_total_work = total_work ch2, sr_rewind = length ours,
       sr_based_on = tip_hash C ch\<rparr>)"
    using heavier r v2 by (simp add: finish_suffix_def not_le)
  from apply_suffix_run [OF C core ours] obtain bs1 us1 where
    o: "blocks ch = blocks ch0 @ bs1" "undos ch = trim_undos (undos ch0 @ us1)"
      "length bs1 = length ours" "length us1 = length ours"
    by (metis length_map)
  obtain k where k: "trim_undos (take (length (undos ch) - length ours) (undos ch) @ trim_undos us)
      = drop k (undos ch2)"
    using undo_window [OF _ o(2), of us] o(4) len(1) r(5) by auto
  note f = run_frame [OF C core ours] run_frame [OF C core theirs]
  let ?ch' = "ch\<lparr>blocks := blocks ch0 @ bs', headers := headers ch2, ledger := ledger ch2,
      total_work := total_work ch2, undos := drop k (undos ch2)\<rparr>"
  have sp: "splice_suffix C ch \<lparr>sr_ledger = ledger ch2, sr_headers = headers ch2, sr_suffix = bs',
       sr_undos = trim_undos us, sr_total_work = total_work ch2, sr_rewind = length ours,
       sr_based_on = tip_hash C ch\<rparr> = (?ch', True)"
    using heavier o(1,3) apply_suffix_undo(1) [OF C core ours len(1)]
    by (simp add: splice_suffix_def k not_le not_less)
  have "?ch'\<lparr>undos := undos ch2\<rparr> = ch2"
    by (rule chain.equality) (simp_all add: f r(3))
  with that [OF t fin sp] show thesis by auto
qed

end
