(* ===== verification/Rewind_Facts.thy ===== *)
theory Rewind_Facts
  imports Splice
begin

text \<open>
  Chains a node can reach: started, extended, pruned and spliced in any order.  Their
  invariant looks back: not only is the chain well formed, every rewind that the kept undos
  and bodies allow gives a well-formed chain again.  That is what makes a splice onto a
  rewound chain sound.
\<close>

section \<open>Rewinding a chain\<close>

definition rewound :: "('p::ab_group_add, 's) crypto \<Rightarrow> 'p chain \<Rightarrow> nat \<Rightarrow> 'p chain" where
  "rewound C ch n =
     ch\<lparr>ledger := fold (\<lambda>u S. rewind C (tu_state u) S) (take n (rev (undos ch))) (ledger ch),
        total_work := total_work ch - (\<Sum>u \<leftarrow> take n (rev (undos ch)). tu_work u),
        headers := take (length (headers ch) - n) (headers ch),
        blocks := take (length (blocks ch) - n) (blocks ch),
        undos := take (length (undos ch) - n) (undos ch)\<rparr>"

definition deep_ok :: "('p::ab_group_add, 's::comm_ring_1) crypto \<Rightarrow> 'p chain \<Rightarrow> bool" where
  "deep_ok C ch \<longleftrightarrow> length (headers ch) \<le> 2 ^ 64
     \<and> (\<forall>n \<le> min (length (undos ch)) (length (blocks ch)). chain_ok C (rewound C ch n))"

lemma rewound_0 [simp]: "rewound C ch 0 = ch"
  by (simp add: rewound_def)

lemma deep_okD: "deep_ok C ch \<Longrightarrow> chain_ok C ch"
  using rewound_0 [of C ch] by (force simp: deep_ok_def)

lemma rewound_sizes [simp]:
  "length (headers (rewound C ch n)) = length (headers ch) - n"
  "length (blocks (rewound C ch n)) = length (blocks ch) - n"
  "length (undos (rewound C ch n)) = length (undos ch) - n"
  "network (rewound C ch n) = network ch"
  by (simp_all add: rewound_def)

lemma rewound_add:
  assumes "m + n \<le> length (undos ch)"
  shows "rewound C (rewound C ch n) m = rewound C ch (n + m)"
proof -
  have t: "take m (rev (take (length (undos ch) - n) (undos ch)))
      = take m (drop n (rev (undos ch)))"
    using assms by (simp add: rev_take)
  have a: "take (n + m) (rev (undos ch)) = take n (rev (undos ch)) @ take m (drop n (rev (undos ch)))"
    by (rule take_add)
  have w: "x - sum_list (map tu_work us) - sum_list (map tu_work vs)
      = x - sum_list (map tu_work (us @ vs))" for x us vs by (simp add: diff_diff_eq)
  have f: "fold f vs (fold f us S) = fold f (us @ vs) S" for f :: "'u \<Rightarrow> 'v \<Rightarrow> 'v" and us vs S
    by simp
  show ?thesis
    by (simp add: rewound_def) (simp only: t w f a)
qed

lemma chain_ok_fewer_undos:
  assumes "chain_ok C ch" "length us \<le> length (undos ch)"
  shows "chain_ok C (ch\<lparr>undos := us\<rparr>)"
  using assms
  by (auto simp: chain_ok_def chain_core_def bodies_ok_def base_state_def base_work_def)

section \<open>Extending\<close>

lemma rewound_applied:
  assumes "n \<le> length (undos ch)" "Suc n \<le> MAX_REORG_DEPTH"
    and w: "sat_work (total_work ch) (blk_work b) - blk_work b = total_work ch"
    and u: "rewind C undo S' = ledger ch"
  shows "\<exists>us. length us \<le> length (undos (rewound C ch n))
    \<and> rewound C (applied C ch b S' undo) (Suc n) = (rewound C ch n)\<lparr>undos := us\<rparr>"
proof -
  let ?d = "Suc (length (undos ch)) - MAX_REORG_DEPTH"
  let ?u = "\<lparr>tu_work = blk_work b, tu_state = undo\<rparr>"
  have d: "?d \<le> length (undos ch) - n" using assms(1,2) by linarith
  then have un: "trim_undos (undos ch @ [?u]) = drop ?d (undos ch) @ [?u]"
    by (simp add: trim_undos_def)
  have t: "take (Suc n) (rev (drop ?d (undos ch) @ [?u])) = ?u # take n (rev (undos ch))"
    using d assms(1) by (simp add: rev_drop min_def)
  have w': "sat_work (total_work ch) (blk_work b) - (blk_work b + x) = total_work ch - x" for x
    using w by (metis diff_diff_eq)
  show ?thesis
    by (rule exI [of _ "take (length (undos ch) - ?d - n) (drop ?d (undos ch))"])
      (simp add: rewound_def un t w' u del: rev_append)
qed

lemma sat_work_exact:
  assumes core: "chain_core C ch" and core': "chain_core C (applied C ch b S' u)"
    and len: "length (headers (applied C ch b S' u)) \<le> 2 ^ 64"
  shows "sat_work (total_work ch) (blk_work b) - blk_work b = total_work ch"
proof -
  have l: "length (headers ch) \<le> 2 ^ 64" using len by simp
  have "unat (sat_work (total_work ch) (blk_work b)) = unat (total_work ch) + unat (blk_work b)"
    using work_exact [OF core' len] work_exact [OF core l] by simp
  then have "unat (sat_work (total_work ch) (blk_work b) - blk_work b) = unat (total_work ch)"
    using unat_minus_le [of "blk_work b" "sat_work (total_work ch) (blk_work b)"]
    by (simp add: word_le_nat_alt)
  then show ?thesis by (simp add: word_unat_eq_iff)
qed

lemma deep_extend:
  assumes C: "encoding_ok C" "group_ok C" and deep: "deep_ok C ch"
    and a: "apply_block_inner C ch b now v = (ch', r)" and len: "length (headers ch') \<le> 2 ^ 64"
  shows "deep_ok C ch'"
proof (cases r)
  case (Inl e)
  have "utxo_ok C (l_utxos (ledger ch))"
    using deep_okD [OF deep] by (simp add: chain_ok_def chain_core_def ledger_ok_def)
  with a Inl have "ch' = ch" using apply_inner_Err by blast
  with deep show ?thesis by simp
next
  case (Inr x)
  with a have a': "apply_block_inner C ch b now v = (ch', Inr ())" by simp
  have ok: "chain_ok C ch" by (rule deep_okD [OF deep])
  then have core: "chain_core C ch" by (simp add: chain_ok_def)
  obtain S' u where ch': "ch' = applied C ch (shape_block ch b) S' u"
    and st: "ledger_step C (network ch) (shape_block ch b) (ledger ch) = Some (S', u)"
    by (rule apply_inner_ledger [OF core C a'])
  have ok': "chain_ok C ch'" by (rule apply_inner_chain_ok [OF ok C a])
  have rw: "rewind C u S' = ledger ch"
    using ledger_log.undo_step [OF _ st] core by (simp add: chain_core_def)
  have w: "sat_work (total_work ch) (blk_work (shape_block ch b)) - blk_work (shape_block ch b)
      = total_work ch"
    by (rule sat_work_exact [OF core])
      (use ok' len in \<open>simp_all only: ch' chain_ok_def\<close>)
  have "chain_ok C (rewound C ch' n)"
    if n: "n \<le> length (undos ch')" "n \<le> length (blocks ch')" for n
  proof (cases n)
    case 0
    with ok' show ?thesis by simp
  next
    case (Suc k)
    with n have k: "k \<le> length (undos ch)" "Suc k \<le> MAX_REORG_DEPTH" "k \<le> length (blocks ch)"
      by (simp_all add: ch' length_trim_undos)
    obtain us where "length us \<le> length (undos (rewound C ch k))"
      "rewound C ch' (Suc k) = (rewound C ch k)\<lparr>undos := us\<rparr>"
      using rewound_applied [OF k(1,2) w rw] unfolding ch' by blast
    moreover have "chain_ok C (rewound C ch k)" using deep k by (simp add: deep_ok_def)
    ultimately show ?thesis using chain_ok_fewer_undos Suc by metis
  qed
  with len show ?thesis by (simp add: deep_ok_def)
qed

lemma deep_run:
  assumes C: "encoding_ok C" "group_ok C"
  shows "deep_ok C ch \<Longrightarrow> apply_suffix C ch bs now = Inr ch' \<Longrightarrow> length (headers ch') \<le> 2 ^ 64
    \<Longrightarrow> deep_ok C ch'"
proof (induction bs arbitrary: ch)
  case (Cons b bs)
  from Cons.prems(2) obtain c where a: "apply_block_inner C ch b now True = (c, Inr ())"
    and rest: "apply_suffix C c bs now = Inr ch'"
    unfolding apply_suffix_Cons_Inr by blast
  have "chain_core C c"
    using apply_inner_core [OF _ C a] deep_okD [OF Cons.prems(1)] by (simp add: chain_ok_def)
  then have "length (headers c) \<le> 2 ^ 64"
    using run_work(3) [OF C _ rest Cons.prems(3)] Cons.prems(3) by linarith
  then have "deep_ok C c" by (rule deep_extend [OF C Cons.prems(1) a])
  then show ?case by (rule Cons.IH [OF _ rest Cons.prems(3)])
qed simp

section \<open>Pruning\<close>

definition advanced :: "'p chain \<Rightarrow> nat \<Rightarrow> 'p ledger_state \<Rightarrow> u128 \<Rightarrow> 'p chain" where
  "advanced ch d hz hw =
     ch\<lparr>horizon := Some hz, horizon_work := hw, blocks := drop d (blocks ch),
        first_height := first_height ch + of_nat d\<rparr>"

lemma replay_take:
  assumes "replay_bodies C em acc bs = (end, Inr ())"
  obtains mid where "replay_bodies C em acc (take d bs) = (mid, Inr ())"
    "replay_bodies C em mid (drop d bs) = (end, Inr ())"
  using assms replay_bodies_append [of C em acc "take d bs" "drop d bs"]
  by (auto split: prod.splits sum.splits)

lemma advanced_ok:
  assumes ok: "chain_ok C ch" and d: "0 < d" "d \<le> length (blocks ch)"
    and r: "replay_bodies C (emission ch) (base_state C ch, base_work ch) (take d (blocks ch))
      = ((hz, hw), Inr ())"
  shows "chain_ok C (advanced ch d hz hw)"
proof -
  have ne: "headers ch \<noteq> []" using ok d by (auto simp: chain_ok_def chain_core_def)
  then have core: "chain_core C (advanced ch d hz hw)"
    using ok by (auto simp: chain_ok_def chain_core_def advanced_def)
  from ok obtain pre where pre: "headers ch = pre @ map (compact_of C) (blocks ch)"
      "first_height ch = of_nat (length pre)"
    and rb: "replay_bodies C (emission ch) (base_state C ch, base_work ch) (blocks ch)
       = ((ledger ch, total_work ch), Inr ())"
    by (auto simp: chain_ok_def bodies_ok_def)
  have "headers ch = (pre @ map (compact_of C) (take d (blocks ch)))
      @ map (compact_of C) (drop d (blocks ch))"
    by (simp add: pre(1) flip: map_append)
  moreover have "first_height ch + of_nat d
      = of_nat (length (pre @ map (compact_of C) (take d (blocks ch))))"
    using d by (simp add: pre(2) min_def)
  moreover have "replay_bodies C (emission ch) (hz, hw) (drop d (blocks ch))
      = ((ledger ch, total_work ch), Inr ())"
    using replay_take [OF rb, of d] r by (metis prod.inject)
  moreover have "length (headers ch) \<noteq> length (drop d (blocks ch))"
    using d by (simp add: pre(1))
  ultimately have "bodies_ok C (advanced ch d hz hw)"
    unfolding bodies_ok_def advanced_def base_state_def base_work_def by auto
  with core show ?thesis by (simp add: chain_ok_def)
qed

lemma prune_keep_cases:
  assumes ok: "chain_ok C ch" and p: "prune_keep C ch k = (ch', r)"
  obtains (kept) "length (blocks ch) \<le> max k 1" "ch' = ch" "r = Inr 0"
  | (pruned) d hz hw where "d = length (blocks ch) - max k 1" "0 < d" "d < length (blocks ch)"
      "replay_bodies C (emission ch) (base_state C ch, base_work ch) (take d (blocks ch))
        = ((hz, hw), Inr ())"
      "ch' = advanced ch d hz hw" "r = Inr d"
proof (cases "length (blocks ch) \<le> max k 1")
  case True
  with p show thesis by (intro kept) (auto simp: prune_keep_def)
next
  case False
  define d where "d = length (blocks ch) - max k 1"
  have d: "0 < d" "d < length (blocks ch)" using False by (auto simp: d_def)
  have "replay_bodies C (emission ch) (base_state C ch, base_work ch) (blocks ch)
       = ((ledger ch, total_work ch), Inr ())"
    using ok by (simp add: chain_ok_def bodies_ok_def)
  then obtain mid where "replay_bodies C (emission ch) (base_state C ch, base_work ch)
      (take d (blocks ch)) = (mid, Inr ())"
    by (rule replay_take)
  then obtain hz hw where m: "replay_bodies C (emission ch) (base_state C ch, base_work ch)
      (take d (blocks ch)) = ((hz, hw), Inr ())" by (cases mid) auto
  have b: "(case horizon ch of None \<Rightarrow> (state_for_network C (network ch), 0)
      | Some hz \<Rightarrow> (hz, horizon_work ch)) = (base_state C ch, base_work ch)"
    by (simp add: base_state_def base_work_def split: option.split)
  have "ch' = advanced ch d hz hw" "r = Inr d"
    using p False m unfolding prune_keep_def Let_def b d_def [symmetric]
    by (auto simp: advanced_def)
  with d m show thesis by (intro pruned [OF d_def])
qed

lemma prune_keep_effect:
  assumes ok: "chain_ok C ch" and p: "prune_keep C ch k = (ch', r)"
  shows "r = Inr (length (blocks ch) - max k 1) \<and> chain_ok C ch'
    \<and> blocks ch' = drop (length (blocks ch) - max k 1) (blocks ch)
    \<and> ledger ch' = ledger ch \<and> headers ch' = headers ch \<and> total_work ch' = total_work ch
    \<and> undos ch' = undos ch"
proof (rule prune_keep_cases [OF ok p])
  fix d hz hw
  assume d: "d = length (blocks ch) - max k 1" "0 < d" "d < length (blocks ch)"
    and r: "replay_bodies C (emission ch) (base_state C ch, base_work ch) (take d (blocks ch))
        = ((hz, hw), Inr ())"
    and ch': "ch' = advanced ch d hz hw" "r = Inr d"
  have "chain_ok C ch'" unfolding ch' by (rule advanced_ok [OF ok d(2) _ r]) (use d(3) in simp)
  then show ?thesis by (simp add: ch' advanced_def d(1))
qed (use ok in simp)

lemma rewound_advanced:
  "rewound C (advanced ch d hz hw) n = advanced (rewound C ch n) d hz hw"
  by (simp add: rewound_def advanced_def drop_take diff_commute add.commute)

lemma base_rewound [simp]:
  "base_state C (rewound C ch n) = base_state C ch" "base_work (rewound C ch n) = base_work ch"
  "emission (rewound C ch n) = emission ch"
  by (simp_all add: rewound_def base_state_def base_work_def split: option.split)

lemma deep_prune:
  assumes deep: "deep_ok C ch" and p: "prune_keep C ch k = (ch', r)"
  shows "deep_ok C ch'"
proof (rule prune_keep_cases [OF deep_okD [OF deep] p])
  assume "ch' = ch"
  with deep show ?thesis by simp
next
  fix d hz hw
  assume d: "0 < d" "d < length (blocks ch)"
    and r: "replay_bodies C (emission ch) (base_state C ch, base_work ch) (take d (blocks ch))
        = ((hz, hw), Inr ())"
    and ch': "ch' = advanced ch d hz hw"
  have "chain_ok C (rewound C ch' n)" if "n \<le> length (undos ch')" "n \<le> length (blocks ch')" for n
  proof -
    have n: "n \<le> length (undos ch)" "d \<le> length (blocks ch) - n" "n \<le> length (blocks ch)"
      using that d by (simp_all add: ch' advanced_def)
    then have "chain_ok C (rewound C ch n)" using deep by (simp add: deep_ok_def)
    then have "chain_ok C (advanced (rewound C ch n) d hz hw)"
      by (rule advanced_ok)
        (use n d r in \<open>simp_all add: min_def, simp_all add: rewound_def min_def\<close>)
    then show ?thesis by (simp add: ch' rewound_advanced)
  qed
  then show ?thesis using deep by (simp add: deep_ok_def ch' advanced_def)
qed

lemma deep_rewound:
  assumes deep: "deep_ok C ch" and n: "n \<le> length (undos ch)" "n \<le> length (blocks ch)"
  shows "deep_ok C (rewound C ch n)"
proof -
  have "chain_ok C (rewound C (rewound C ch n) m)"
    if "m \<le> length (undos ch) - n" "m \<le> length (blocks ch) - n" for m
  proof -
    have "m + n \<le> length (undos ch)" "n + m \<le> length (undos ch)" "n + m \<le> length (blocks ch)"
      using that n by linarith+
    then show ?thesis using deep by (simp add: rewound_add deep_ok_def)
  qed
  with deep show ?thesis by (auto simp: deep_ok_def)
qed

section \<open>Splicing is rewinding and extending\<close>

lemma prune_keeps_view:
  assumes "chain_ok C ch" "prune_keep C ch k = (ch', r)"
  shows "network ch' = network ch" "emission ch' = emission ch" "ledger ch' = ledger ch"
    "total_work ch' = total_work ch" "headers ch' = headers ch" "undos ch' = undos ch"
  by (rule prune_keep_cases [OF assms], simp_all add: advanced_def)+

lemma prepare_InrD:
  assumes "prepare_suffix_trial C json ch anc = Inr t"
  obtains fresh w where "anc \<le> (case tip_height ch of None \<Rightarrow> 0 | Some h \<Rightarrow> h)"
    "st_rewind t = unat ((case tip_height ch of None \<Rightarrow> 0 | Some h \<Rightarrow> h) - anc)"
    "st_rewind t \<le> length (undos ch)" "unat anc < length (headers ch)"
    "new_fair C json (network ch) = Inr fresh" "st_our_work t = total_work ch"
    "st_based_on t = tip_hash C ch"
    "st_trial t = fresh\<lparr>ledger := fold (\<lambda>u S. rewind C (tu_state u) S)
          (take (st_rewind t) (rev (undos ch))) (ledger ch),
        total_work := total_work ch - (\<Sum>u \<leftarrow> take (st_rewind t) (rev (undos ch)). tu_work u),
        headers := take (unat anc + 1) (headers ch), blocks := [], undos := [],
        first_height := 0, horizon := None, horizon_work := 0\<rparr>"
  using assms
  by (auto simp: prepare_suffix_trial_def Let_def res_simps rewound_work_def checked_sub_def not_less
      not_le split: if_splits)

text \<open>What pruning leaves alone.\<close>

definition pruned_view :: "'p chain \<Rightarrow> 'p chain \<Rightarrow> bool" where
  "pruned_view ch ch1 \<longleftrightarrow> network ch1 = network ch \<and> emission ch1 = emission ch \<and> ledger ch1 = ledger ch
     \<and> total_work ch1 = total_work ch \<and> headers ch1 = headers ch \<and> undos ch1 = undos ch"

lemma splice_rewinds_view:
  assumes C: "encoding_ok C" "group_ok C" and deep: "deep_ok C ch" and deep1: "deep_ok C ch1"
    and view1: "pruned_view ch ch1"
    and t: "prepare_suffix_trial C json ch anc = Inr t"
    and r: "finish_suffix C t sfx now = Inr (Some r)"
    and s: "splice_suffix C ch1 r = (ch', True)"
  shows "apply_suffix C (rewound C ch1 (st_rewind t)) sfx now = Inr ch'"
    and "total_work ch1 < total_work ch'"
    and "st_rewind t \<le> length (undos ch1)" "st_rewind t \<le> length (blocks ch1)"
proof -
  obtain fresh where le: "anc \<le> (case tip_height ch of None \<Rightarrow> 0 | Some h \<Rightarrow> h)"
    and n: "st_rewind t = unat ((case tip_height ch of None \<Rightarrow> 0 | Some h \<Rightarrow> h) - anc)"
    and nu: "st_rewind t \<le> length (undos ch)" and ah: "unat anc < length (headers ch)"
    and fresh: "new_fair C json (network ch) = Inr fresh"
    and T: "st_trial t = fresh\<lparr>ledger := fold (\<lambda>u S. rewind C (tu_state u) S)
          (take (st_rewind t) (rev (undos ch))) (ledger ch),
        total_work := total_work ch - (\<Sum>u \<leftarrow> take (st_rewind t) (rev (undos ch)). tu_work u),
        headers := take (unat anc + 1) (headers ch), blocks := [], undos := [],
        first_height := 0, horizon := None, horizon_work := 0\<rparr>"
    by (rule prepare_InrD [OF t])
  have ok: "chain_ok C ch" by (rule deep_okD [OF deep])
  from view1 have v: "network ch1 = network ch" "emission ch1 = emission ch" "ledger ch1 = ledger ch"
    "total_work ch1 = total_work ch" "headers ch1 = headers ch" "undos ch1 = undos ch"
    by (simp_all add: pruned_view_def)
  let ?n = "st_rewind t" and ?A = "rewound C ch1 (st_rewind t)"
  have ne: "headers ch \<noteq> []" using ah by auto
  have "length (headers ch) \<le> 2 ^ 64" using deep by (simp add: deep_ok_def)
  then obtain tip where tip: "tip_height ch = Some tip" "unat tip = length (headers ch) - 1"
    using tip_height_core [OF _ ne] ok by (auto simp: chain_ok_def)
  have "?n = unat tip - unat anc" using n le tip(1) by (simp add: unat_minus_le)
  then have hn: "Suc (unat anc) = length (headers ch) - ?n" using tip(2) ah by linarith
  have hn_lt: "\<not> length (headers ch) \<le> ?n" using hn by linarith
  from r obtain t1 where t1: "apply_suffix C (st_trial t) sfx now = Inr t1"
    and r': "r = \<lparr>sr_ledger = ledger t1, sr_headers = headers t1, sr_suffix = blocks t1,
       sr_undos = undos t1, sr_total_work = total_work t1, sr_rewind = ?n,
       sr_based_on = st_based_on t\<rparr>"
    by (auto simp: finish_suffix_def res_simps split: if_splits)
  from s r' have b: "?n \<le> length (blocks ch1)" "?n \<le> length (undos ch1)"
    and w: "total_work ch1 < total_work t1"
    and ch': "ch' = ch1\<lparr>blocks := take (length (blocks ch1) - ?n) (blocks ch1) @ blocks t1,
        headers := headers t1, ledger := ledger t1, total_work := total_work t1,
        undos := trim_undos (take (length (undos ch1) - ?n) (undos ch1) @ undos t1)\<rparr>"
    by (auto simp: splice_suffix_def not_le not_less split: if_splits)
  show "?n \<le> length (undos ch1)" "?n \<le> length (blocks ch1)" by (rule b)+
  have "chain_ok C ?A"
    using deep1 b by (simp add: deep_ok_def)
  then have core: "chain_core C ?A" by (simp add: chain_ok_def)
  have view: "same_view (st_trial t) ?A"
    using new_fair_ok [OF C fresh] ok ne hn_lt
    by (simp add: same_view_def T rewound_def v hn chain_ok_def chain_core_def)
  have lens: "length (undos (st_trial t)) \<le> MAX_REORG_DEPTH" "length (undos ?A) \<le> MAX_REORG_DEPTH"
    using core by (simp_all add: T chain_core_def)
  obtain A1 bs' us where A1: "apply_suffix C ?A sfx now = Inr A1" "same_view t1 A1"
    "blocks t1 = bs'" "blocks A1 = blocks ?A @ bs'"
    "undos t1 = trim_undos us" "undos A1 = trim_undos (undos ?A @ us)"
    using same_view_run [OF C disjI2 [OF core] view lens t1] by (auto simp: T)
  have "ch' = A1"
    by (rule chain.equality)
      (use run_frame [OF C core A1(1)] A1(2-) in
        \<open>simp_all add: ch' same_view_def rewound_def trim_undos_append_trim\<close>)
  with A1(1) show "apply_suffix C ?A sfx now = Inr ch'" by simp
  show "total_work ch1 < total_work ch'" using w by (simp add: ch')
qed

lemma splice_keeps_deep:
  assumes C: "encoding_ok C" "group_ok C" and deep: "deep_ok C ch" and deep1: "deep_ok C ch1"
    and view1: "pruned_view ch ch1"
    and t: "prepare_suffix_trial C json ch anc = Inr t"
    and r: "finish_suffix C t sfx now = Inr (Some r)"
    and s: "splice_suffix C ch1 r = (ch', True)" and len: "length (headers ch') \<le> 2 ^ 64"
  shows "deep_ok C ch'"
proof -
  note w = splice_rewinds_view [OF C deep deep1 view1 t r s]
  have "deep_ok C (rewound C ch1 (st_rewind t))" by (rule deep_rewound [OF deep1 w(3,4)])
  then show ?thesis by (rule deep_run [OF C _ w(1) len])
qed

lemma splice_rewinds:
  assumes C: "encoding_ok C" "group_ok C" and deep: "deep_ok C ch"
    and t: "prepare_suffix_trial C json ch anc = Inr t"
    and r: "finish_suffix C t sfx now = Inr (Some r)"
    and p: "prune_keep C ch k = (ch1, pr)"
    and s: "splice_suffix C ch1 r = (ch', True)"
  shows "apply_suffix C (rewound C ch1 (st_rewind t)) sfx now = Inr ch'"
    and "total_work ch1 < total_work ch'"
    and "st_rewind t \<le> length (undos ch1)" "st_rewind t \<le> length (blocks ch1)"
proof -
  have "pruned_view ch ch1"
    unfolding pruned_view_def using prune_keeps_view [OF deep_okD [OF deep] p] by simp
  note w = splice_rewinds_view [OF C deep deep_prune [OF deep p] this t r s]
  show "apply_suffix C (rewound C ch1 (st_rewind t)) sfx now = Inr ch'"
    and "total_work ch1 < total_work ch'"
    and "st_rewind t \<le> length (undos ch1)" "st_rewind t \<le> length (blocks ch1)" by (rule w)+
qed

section \<open>Reachable chains\<close>

text \<open>
  What a node does to its chain, in any order: it starts, applies a block (checked in full
  or from a local miner), prunes, and replaces a suffix, where the chain may have been
  pruned between the trial and the splice.  Heights are \<open>u64\<close>, so a chain holds at most
  \<open>2 ^ 64\<close> headers.
\<close>

inductive reachable ::
    "('p::ab_group_add, 's::comm_ring_1) crypto \<Rightarrow> (genesis_config \<Rightarrow> bytes option)
       \<Rightarrow> 'p chain \<Rightarrow> bool" for C json where
  Start: "new_fair C json n = Inr ch \<Longrightarrow> reachable C json ch"
| Extend: "reachable C json ch \<Longrightarrow> apply_block_inner C ch b now v = (ch', r)
    \<Longrightarrow> length (headers ch') \<le> 2 ^ 64 \<Longrightarrow> reachable C json ch'"
| Prune: "reachable C json ch \<Longrightarrow> prune_keep C ch k = (ch', pr) \<Longrightarrow> reachable C json ch'"
| Splice: "reachable C json ch \<Longrightarrow> prepare_suffix_trial C json ch anc = Inr t
    \<Longrightarrow> finish_suffix C t sfx now = Inr (Some r) \<Longrightarrow> prune_keep C ch k = (ch1, pr)
    \<Longrightarrow> splice_suffix C ch1 r = (ch', ok) \<Longrightarrow> length (headers ch') \<le> 2 ^ 64
    \<Longrightarrow> reachable C json ch'"

inductive_cases reachable_cases: "reachable C json ch"

lemma splice_False: "splice_suffix C ch r = (ch', False) \<Longrightarrow> ch' = ch"
  by (auto simp: splice_suffix_def split: if_splits)

lemma reachable_deep:
  assumes C: "encoding_ok C" "group_ok C"
  shows "reachable C json ch \<Longrightarrow> deep_ok C ch"
proof (induction rule: reachable.induct)
  case (Start n ch)
  have "undos ch = []" using Start by (auto simp: new_fair_def res_simps)
  with new_fair_ok [OF C Start] show ?case by (simp add: deep_ok_def)
next
  case (Extend ch b now v ch' r)
  then show ?case using deep_extend [OF C] by blast
next
  case (Prune ch k ch' pr)
  then show ?case using deep_prune by blast
next
  case (Splice ch anc t sfx now r k ch1 pr ch' ok)
  have d1: "deep_ok C ch1" by (rule deep_prune [OF Splice.IH Splice.hyps(4)])
  show ?case
  proof (cases ok)
    case False
    then have "splice_suffix C ch1 r = (ch', False)" using Splice.hyps(5) by simp
    then have "ch' = ch1" by (rule splice_False)
    with d1 show ?thesis by simp
  next
    case True
    then have s: "splice_suffix C ch1 r = (ch', True)" using Splice.hyps(5) by simp
    have "pruned_view ch ch1"
      unfolding pruned_view_def using prune_keeps_view [OF deep_okD [OF Splice.IH] Splice.hyps(4)] by simp
    then show ?thesis by (rule splice_keeps_deep [OF C Splice.IH d1 _ Splice.hyps(2,3) s Splice.hyps(6)])
  qed
qed

end
