(* ===== verification/Rebuild_Facts.thy ===== *)
theory Rebuild_Facts
  imports Rewind_Facts
begin

text \<open>
  Starting from a file: blocks that full validation accepts are rebuilt to the same chain,
  whatever part of them is trusted.  Ingesting blocks applies a prefix of them.  A competing
  chain replaces the current one only when it is strictly heavier.
\<close>

section \<open>Rebuilding\<close>

lemma applied_tip_roots:
  assumes "ledger_utxo_root C S' = h_utxo_root (blk_header b)"
    "acc_sum (l_kernels S') = h_kernel_sum (blk_header b)"
  shows "check_tip_roots C (applied C ch b S' u) = Inr ()"
  using assms by (simp add: check_tip_roots_def)

lemma rebuild_from_agrees:
  assumes C: "encoding_ok C" "group_ok C"
  shows "chain_core C ch \<Longrightarrow> check_tip_roots C ch = Inr () \<Longrightarrow> apply_suffix C ch bs now = Inr ch'
    \<Longrightarrow> rebuild_from C k now i ch bs = Inr ch' \<and> check_tip_roots C ch' = Inr ()"
proof (induction bs arbitrary: ch i)
  case (Cons b bs)
  from Cons.prems(3) obtain c where a: "apply_block_inner C ch b now True = (c, Inr ())"
    and rest: "apply_suffix C c bs now = Inr ch'"
    unfolding apply_suffix_Cons_Inr by blast
  obtain S' u where c: "c = applied C ch (shape_block ch b) S' u"
    and roots: "ledger_utxo_root C S' = h_utxo_root (blk_header b)"
      "acc_sum (l_kernels S') = h_kernel_sum (blk_header b)"
    by (rule apply_inner_ledger [OF Cons.prems(1) C a])
  have "check_tip_roots C c = Inr ()" unfolding c by (rule applied_tip_roots) (simp_all add: roots)
  from Cons.IH [OF apply_inner_core [OF Cons.prems(1) C a] this rest]
  show ?case
    by (simp add: a own_disk_agrees [OF Cons.prems(1) C a] chain_apply_block_def state_result_def
        Cons.prems(2))
qed simp

lemma rebuild_agrees:
  assumes C: "encoding_ok C" "group_ok C" and n: "new_fair C json n = Inr ch0"
    and a: "apply_suffix C ch0 bs now = Inr ch"
  shows "rebuild_from_blocks_trusted_prefix C json no_assume n bs k now = Inr ch"
proof -
  have core: "chain_core C ch0" using new_fair_ok(1) [OF C n] by (simp add: chain_ok_def)
  have t: "check_tip_roots C ch0 = Inr ()"
    using n by (auto simp: new_fair_def res_simps check_tip_roots_def)
  show ?thesis
    using rebuild_from_agrees [OF C core t a]
    by (simp add: rebuild_from_blocks_trusted_prefix_def n Let_def)
qed

section \<open>Ingesting\<close>

lemma ingest_prefix:
  assumes C: "encoding_ok C" "group_ok C"
  shows "chain_core C ch \<Longrightarrow> ingest_from C k ch bs now = (ch', r) \<Longrightarrow>
    \<exists>m \<le> length bs. apply_suffix C ch (take m bs) now = Inr ch' \<and> (\<forall>j. r = Inr j \<longrightarrow> j = k + m)
      \<and> (\<forall>e. r = Inl e \<longrightarrow> m = 0 \<and> k = 0)"
proof (induction bs arbitrary: ch k)
  case (Cons b bs)
  have ok: "utxo_ok C (l_utxos (ledger ch))"
    using Cons.prems(1) by (simp add: chain_core_def ledger_ok_def)
  obtain c x where a: "apply_block_inner C ch b now True = (c, x)" by fastforce
  show ?case
  proof (cases x)
    case (Inl e)
    with a have "c = ch" using apply_inner_Err [OF ok] by blast
    with Cons.prems(2) a Inl show ?thesis
      by (intro exI [of _ 0]) (auto simp: chain_apply_block_def split: if_splits)
  next
    case (Inr y)
    with a have a': "apply_block_inner C ch b now True = (c, Inr ())" by simp
    with Cons.prems(2) have "ingest_from C (k + 1) c bs now = (ch', r)"
      by (simp add: chain_apply_block_def)
    from Cons.IH [OF apply_inner_core [OF Cons.prems(1) C a'] this] obtain m where
      m: "m \<le> length bs" "apply_suffix C c (take m bs) now = Inr ch'"
        "\<forall>j. r = Inr j \<longrightarrow> j = k + 1 + m" "\<forall>e. r \<noteq> Inl e"
      by auto
    have "apply_suffix C ch (b # take m bs) now = Inr ch'"
      using a' m(2) unfolding apply_suffix_Cons_Inr by blast
    with m show ?thesis by (intro exI [of _ "Suc m"]) auto
  qed
qed auto

section \<open>Fork choice\<close>

lemma maybe_reorg_work:
  assumes "maybe_reorg_to C json na ch bs now = (ch', r)"
  shows "(ch' = ch \<and> r \<noteq> Inr True) \<or> (total_work ch < total_work ch' \<and> r = Inr True
    \<and> chain_verify_supply C ch' = Inr ())"
proof (cases "evaluate_reorg_at C json na (network ch) (total_work ch) (hash_chain C ch)
    (pruned_base_of ch) bs now")
  case (Inr x)
  show ?thesis
  proof (cases x)
    case (Some cand)
    with Inr have "chain_verify_supply C cand = Inr ()"
      by (cases bs) (auto simp: evaluate_reorg_at_def Let_def res_simps split: if_splits)
    with Inr Some assms show ?thesis
      by (auto simp: maybe_reorg_to_def adopt_reorg_def split: if_splits)
  qed (use Inr assms in \<open>auto simp: maybe_reorg_to_def\<close>)
qed (use assms in \<open>auto simp: maybe_reorg_to_def\<close>)

section \<open>Consequences of reachability\<close>

lemma reachable_ok:
  assumes "encoding_ok C" "group_ok C" "reachable C json ch"
  shows "chain_ok C ch"
  by (rule deep_okD [OF reachable_deep [OF assms]])

lemma reachable_supply:
  assumes "encoding_ok C" "group_ok C" "reachable C json ch"
  shows "chain_verify_supply C ch = Inr ()"
  using reachable_ok [OF assms]
  by (simp add: chain_ok_def chain_core_def ledger_ok_def chain_verify_supply_def)

end
