(* ===== verification/Ledger_Accept.thy ===== *)
theory Ledger_Accept
  imports Ledger_Facts Builder
begin

text \<open>
  Acceptance: the balance equation of a block implies the supply equation of the set it
  leads to, and a block aggregated from a built coinbase and transactions the ledger admits
  is accepted by \<open>apply_block\<close>.
\<close>

section \<open>Balance implies the supply equation\<close>

lemma add_kernels_point:
  assumes "encoding_ok C" "acc_point C a = Some p" "all_points C (map excess ks)"
  shows "\<exists>a'. add_kernels C ks a = Inr a'
    \<and> acc_point C a' = Some (p + points_total C (map excess ks))
    \<and> acc_count a' = acc_count a + of_nat (length ks)"
  using assms(2,3)
proof (induction ks arbitrary: a p)
  case Nil
  then show ?case by (simp add: add_kernels_def)
next
  case (Cons k ks)
  then obtain e where e: "commit_point C (excess k) = Some e" by auto
  then obtain a1 where a1: "acc_add C a (excess k) = Some a1"
    "acc_count a1 = acc_count a + 1"
    using acc_add_eq(1) [OF assms(1) Cons.prems(1), of "excess k"] by auto
  then have "acc_point C a1 = Some (p + e)"
    using acc_add_eq(2) [OF assms(1) Cons.prems(1)] e by simp
  from Cons.IH [OF this] Cons.prems(2) obtain a' where
    "add_kernels C ks a1 = Inr a'"
    "acc_point C a' = Some (p + e + points_total C (map excess ks))"
    "acc_count a' = acc_count a1 + of_nat (length ks)"
    by auto
  with a1 e show ?case
    by (simp add: add_kernels_def ok_or_def add.assoc)
qed

lemma next_supply_Inr:
  assumes "next_supply s reward fees = Inr s'" "0 < reward"
  shows "unat (total_minted_darks s') = unat (total_minted_darks s) + unat reward"
    and "unat (total_burned_darks s') = unat (total_burned_darks s) + unat fees"
  using assms by (auto simp: next_supply_def checked_add_Some_iff split: option.splits)

lemma circulating_nat:
  "total_burned_darks s \<le> total_minted_darks s \<Longrightarrow>
     unat (circulating s) = unat (total_minted_darks s) - unat (total_burned_darks s)"
  by (simp add: circulating_def unat_sat_sub)

text \<open>The public value of the circulating supply moves by the reward less the fees.\<close>

lemma commit_circulating:
  assumes C: "group_ok C"
    and ns: "next_supply s reward fees = Inr s'"
    and le: "total_burned_darks s \<le> total_minted_darks s"
      "total_burned_darks s' \<le> total_minted_darks s'"
    and due: "due = (if 0 < reward then reward else fees)"
  shows "commit_public_value C (circulating s')
    = commit_public_value C (circulating s) + commit_public_value C due
      - commit_public_value C fees"
proof (cases "0 < reward")
  case True
  note n = next_supply_Inr [OF ns True]
  have "unat (circulating s') + unat fees = unat (circulating s) + unat reward"
    using le n by (simp add: circulating_nat word_le_nat_alt)
  then have "(of_nat (unat (circulating s')) :: 'b) + of_nat (unat fees)
      = of_nat (unat (circulating s)) + of_nat (unat reward)"
    by (metis of_nat_add)
  then have "pt_mul C (of_nat (unat (circulating s'))) (generator_g C)
      + pt_mul C (of_nat (unat fees)) (generator_g C)
      = pt_mul C (of_nat (unat (circulating s))) (generator_g C)
        + pt_mul C (of_nat (unat reward)) (generator_g C)"
    by (metis C pt_mul_add)
  with True due show ?thesis
    by (simp add: commit_public_value_def eq_diff_eq)
next
  case False
  with ns due show ?thesis by (simp add: next_supply_def)
qed

lemma sum_after_eq:
  assumes "utxo_ok C us" "distinct (map in_commit (b_inputs body))"
    and "all_points C (map in_commit (b_inputs body))" "all_points C outs"
    and "utxo_commitment_sum C us = Some t"
  shows "sum_after C us (spent_set body) outs
    = Some (t - points_total C (map in_commit (b_inputs body)) + points_total C outs)"
  using assms(3,4,5) points_total_mset [OF spent_set_mset [OF assms(2)], of C]
    all_points_mset [OF spent_set_mset [OF assms(2)], of C]
  by (simp add: sum_after_def subtract_points_eq commitment_sum_from_eq)

lemma balance_projects:
  assumes C: "group_ok C" "encoding_ok C"
    and S: "ledger_ok C S" "total_burned_darks (l_supply S) \<le> total_minted_darks (l_supply S)"
    and bal: "check_block_balance C body = Inr off"
    and dist: "distinct (map in_commit (b_inputs body))"
    and due: "body_total_reward body = (if 0 < reward then reward else body_total_fee body)"
    and cap: "\<not> would_exceed_cap (l_supply S) reward"
    and ns: "next_supply (l_supply S) reward (body_total_fee body) = Inr ns"
    and burn: "total_burned_darks ns \<le> total_minted_darks ns"
  shows "\<exists>ks nk projected. add_kernels C (b_kernels body) (l_kernels S) = Inr ks
    \<and> add_offset C ks off = Some nk
    \<and> sum_after C (l_utxos S) (spent_set body) (map out_commit (b_outputs body))
      = Some projected
    \<and> supply_equation_holds C projected nk ns = Inr ()"
proof -
  from S(1) have us: "utxo_ok C (l_utxos S)" and vs: "verify_supply C S = Inr ()"
    by (auto simp: ledger_ok_def)
  from vs obtain t k where t: "utxo_commitment_sum C (l_utxos S) = Some t"
    and k: "acc_point C (l_kernels S) = Some k"
    and eq: "t - k = commit_public_value C (circulating (l_supply S))"
    and minted: "total_minted_darks (l_supply S) \<le> MAX_SUPPLY_DARKS"
    by (auto simp: verify_supply_def verify_supply_invariant_iff)
  from bal have vp: "value_points C (b_inputs body) (b_outputs body) (b_kernels body)"
    and vt: "value_total C (b_inputs body) (b_outputs body) (b_kernels body)
      = commit_public_value C (body_total_reward body)
        - commit_public_value C (body_total_fee body) + off"
    by (auto simp: check_block_balance_Inr_iff [OF C(2)])
  let ?I = "points_total C (map in_commit (b_inputs body))"
  let ?O = "points_total C (map out_commit (b_outputs body))"
  let ?E = "points_total C (map excess (b_kernels body))"
  from vp have "all_points C (map excess (b_kernels body))"
    by (simp add: value_points_def)
  from add_kernels_point [OF C(2) k this] obtain ks where
    ks: "add_kernels C (b_kernels body) (l_kernels S) = Inr ks"
      "acc_point C ks = Some (k + ?E)" by blast
  obtain nk where nk: "add_offset C ks off = Some nk" "acc_point C nk = Some (k + ?E + off)"
    by (rule add_offset_point [OF C(2) ks(2)])
  have pr: "sum_after C (l_utxos S) (spent_set body) (map out_commit (b_outputs body))
      = Some (t - ?I + ?O)"
    using vp by (intro sum_after_eq [OF us dist _ _ t]) (simp_all add: value_points_def)
  have "?O - ?I - ?E = commit_public_value C (body_total_reward body)
        - commit_public_value C (body_total_fee body) + off"
    using vt by (simp add: value_total_def)
  then have d: "?O = commit_public_value C (body_total_reward body)
        - commit_public_value C (body_total_fee body) + off + ?E + ?I"
    by (simp add: diff_eq_eq)
  have "t - ?I + ?O - (k + ?E + off) = (t - k) + commit_public_value C (body_total_reward body)
      - commit_public_value C (body_total_fee body)"
    unfolding d by (simp add: algebra_simps)
  also have "\<dots> = commit_public_value C (circulating ns)"
    unfolding eq by (rule commit_circulating [OF C(1) ns S(2) burn due, symmetric])
  finally have fin: "t - ?I + ?O - (k + ?E + off) = commit_public_value C (circulating ns)" .
  have "total_minted_darks ns \<le> MAX_SUPPLY_DARKS"
  proof (cases "0 < reward")
    case True
    show ?thesis
      using cap next_supply_Inr(1) [OF ns True]
      by (simp add: word_le_nat_alt would_exceed_cap_iff unat_max_supply)
  next
    case False
    with ns minted show ?thesis by (simp add: next_supply_def)
  qed
  with fin nk(2) have "supply_equation_holds C (t - ?I + ?O) nk ns = Inr ()"
    unfolding supply_equation_holds_iff by blast
  with ks(1) nk(1) pr show ?thesis by blast
qed

section \<open>The assembled block\<close>

text \<open>What a miner puts together: a coinbase for the due amount and admitted transactions.\<close>

definition assembled ::
    "('p::ab_group_add, 's::comm_ring_1) crypto \<Rightarrow> 'p ledger_state \<Rightarrow> u64 \<Rightarrow> u64 \<Rightarrow> bytes
       \<Rightarrow> transaction \<Rightarrow> transaction list \<Rightarrow> bool" where
  "assembled C S height reward ctx cb ts \<longleftrightarrow>
     (\<forall>t \<in> set ts. check_tx_acceptable C S t height ctx = Inr ())
   \<and> (\<forall>t \<in> set ts. \<forall>k \<in> set (tx_kernels t). lock_height k \<le> height)
   \<and> distinct (map in_commit (concat (map tx_inputs ts)))
   \<and> distinct (map out_commit (concat (map tx_outputs (cb # ts))))
   \<and> (\<forall>o' \<in> set (tx_outputs cb). utxo_get (l_utxos S) (out_commit o') = None)
   \<and> length (concat (map tx_inputs ts)) \<le> MAX_BLOCK_INPUTS
   \<and> length (concat (map tx_outputs (cb # ts))) \<le> MAX_BLOCK_OUTPUTS
   \<and> length (concat (map tx_kernels (cb # ts))) \<le> MAX_BLOCK_KERNELS
   \<and> checked_fee_sum (concat (map tx_kernels (cb # ts))) \<noteq> None"

lemma check_tx_acceptable_OkD:
  assumes "check_tx_acceptable C S t height ctx = Inr ()"
  shows "\<not> is_coinbase t"
    and "verify_stateless_rules C ctx (binding_active S height) t = Inr ()"
    and "\<forall>i \<in> set (tx_inputs t). check_spend C S height (binding_active S height) i = Inr ()"
    and "\<forall>o' \<in> set (tx_outputs t). utxo_get (l_utxos S) (out_commit o') = None"
  using assms
  by (auto simp: check_tx_acceptable_def Let_def res_simps utxo_contains_def check_spend_Inr_iff
      split: if_splits)

lemma not_coinbase_features:
  fixes C :: "('p::ab_group_add, 's::comm_ring_1) crypto"
  assumes "check_shape C t = Inr ()" "\<not> is_coinbase t"
  shows "filter (\<lambda>o'. is_coinbase_feature (features o')) (tx_outputs t) = []"
    and "coinbase_kernel_count (tx_kernels t) = 0"
    and "\<forall>k \<in> set (tx_kernels t). feature k = PlainKernel \<and> reward_darks k = 0"
proof -
  have pl: "feature k = PlainKernel" if "k \<in> set (tx_kernels t)" for k
    using assms(2) that by (cases "feature k") (auto simp: is_coinbase_def)
  then show z: "coinbase_kernel_count (tx_kernels t) = 0"
    by (auto simp: coinbase_kernel_count_def filter_empty_conv)
  show "filter (\<lambda>o'. is_coinbase_feature (features o')) (tx_outputs t) = []"
    using assms(1) z
    by (auto simp: check_shape_def res_simps filter_empty_conv split: if_splits)
  show "\<forall>k \<in> set (tx_kernels t). feature k = PlainKernel \<and> reward_darks k = 0"
    using pl check_shape_OkD(12) [OF assms(1)] kernel_check_shape_OkD(1) by blast
qed

text \<open>Stripping changes neither the spends below the fork nor the kernels' checks.\<close>

lemma check_spend_strip:
  "check_spend C S height False (input_strip_binding i) = check_spend C S height False i"
  by (simp add: check_spend_def verify_input_signature_def split: option.splits)

lemma value_strip [simp]:
  "value_points C (map input_strip_binding is) os (map kernel_strip_binding ks)
     = value_points C is os ks"
  "value_total C (map input_strip_binding is) os (map kernel_strip_binding ks)
     = value_total C is os ks"
  by (simp_all add: value_points_def value_total_def)

lemma is_canonical_strip [simp]: "is_canonical C (body_strip_binding b) = is_canonical C b"
proof -
  have "kernel_id C \<circ> kernel_strip_binding = kernel_id C"
    by (simp add: fun_eq_iff kernel_id_def kernel_strip_binding_def)
  then show ?thesis by (simp add: is_canonical_iff)
qed

lemma coinbase_count_mset:
  "mset xs = mset ys \<Longrightarrow> coinbase_kernel_count xs = coinbase_kernel_count ys"
  unfolding coinbase_kernel_count_def by (metis mset_filter size_mset)

lemma coinbase_count_simps [simp]:
  "coinbase_kernel_count [] = 0"
  "coinbase_kernel_count (xs @ ys) = coinbase_kernel_count xs + coinbase_kernel_count ys"
  "coinbase_kernel_count (map kernel_strip_binding xs) = coinbase_kernel_count xs"
  by (simp_all add: coinbase_kernel_count_def filter_map o_def)

lemma wrapping_mset:
  "mset xs = mset ys \<Longrightarrow> wrapping_fees xs = wrapping_fees ys"
  "mset xs = mset ys \<Longrightarrow> wrapping_rewards xs = wrapping_rewards ys"
  unfolding wrapping_fees_eq wrapping_rewards_eq
  by (metis sum_list_mset_cong)+

lemma wrapping_append [simp]:
  "wrapping_fees (xs @ ys) = wrapping_fees xs + wrapping_fees ys"
  "wrapping_rewards (xs @ ys) = wrapping_rewards xs + wrapping_rewards ys"
  by (simp_all add: wrapping_fees_eq wrapping_rewards_eq)

lemma rewards_none:
  "\<forall>k \<in> set ks. reward_darks k = 0 \<Longrightarrow> wrapping_rewards ks = 0"
  unfolding wrapping_rewards_eq by (induction ks) auto

lemma of_nat_fees:
  assumes "checked_fee_sum ks \<noteq> None"
  shows "(unsigned (wrapping_fees ks) :: 's::comm_ring_1) = (\<Sum>k \<leftarrow> ks. unsigned (fee_darks k))"
proof -
  from assms obtain y where y: "checked_fee_sum ks = Some y" by auto
  have d: "(of_nat (\<Sum>k \<leftarrow> ks. unat (fee_darks k)) :: 's) = (\<Sum>k \<leftarrow> ks. unsigned (fee_darks k))"
    by (induction ks) simp_all
  have "(unsigned (wrapping_fees ks) :: 's) = of_nat (unat y)"
    by (simp add: checked_fee_sum_wrapping(1) [OF y])
  also have "\<dots> = of_nat (\<Sum>k \<leftarrow> ks. unat (fee_darks k))"
    by (simp only: checked_fee_sum_wrapping(2) [OF y])
  finally show ?thesis by (simp only: d)
qed

text \<open>The parts of the body of an assembled block, at the height it is applied.\<close>

definition shaped :: "'p ledger_state \<Rightarrow> u64 \<Rightarrow> block_body \<Rightarrow> block_body" where
  "shaped S height b = (if binding_active S height then b else body_strip_binding b)"

lemma body_at_shaped: "body_at S height b = shaped S height b"
  by (simp add: body_at_def shaped_def body_strip_id)

lemma shaped_simps [simp]:
  "map in_commit (b_inputs (shaped S h b)) = map in_commit (b_inputs b)"
  "b_outputs (shaped S h b) = b_outputs b"
  "map excess (b_kernels (shaped S h b)) = map excess (b_kernels b)"
  "length (b_kernels (shaped S h b)) = length (b_kernels b)"
  "length (b_inputs (shaped S h b)) = length (b_inputs b)"
  "is_canonical C (shaped S h b) = is_canonical C b"
  "body_total_fee (shaped S h b) = body_total_fee b"
  "body_total_reward (shaped S h b) = body_total_reward b"
  "body_coinbase_kernels (shaped S h b) = body_coinbase_kernels b"
  "value_points C (b_inputs (shaped S h b)) (b_outputs b) (b_kernels (shaped S h b))
     = value_points C (b_inputs b) (b_outputs b) (b_kernels b)"
  "value_total C (b_inputs (shaped S h b)) (b_outputs b) (b_kernels (shaped S h b))
     = value_total C (b_inputs b) (b_outputs b) (b_kernels b)"
  by (simp_all add: shaped_def body_total_fee_def body_total_reward_def
      body_coinbase_kernels_def)

lemma checked_fee_sum_strip:
  "checked_fee_sum (map kernel_strip_binding ks) = None \<longleftrightarrow> checked_fee_sum ks = None"
proof -
  have "checked_fee_sum (map kernel_strip_binding ks) = Some s \<longleftrightarrow> checked_fee_sum ks = Some s" for s
    by (simp add: checked_fee_sum_Some_iff o_def)
  then show ?thesis by (metis not_None_eq)
qed

lemma checked_fee_sum_mset:
  assumes "mset xs = mset ys"
  shows "checked_fee_sum xs = None \<longleftrightarrow> checked_fee_sum ys = None"
proof -
  have "set xs = set ys" using assms by (metis set_mset_mset)
  then have "checked_fee_sum xs = Some s \<longleftrightarrow> checked_fee_sum ys = Some s" for s
    using sum_list_mset_cong [OF assms, of "\<lambda>k. unat (fee_darks k)"]
    by (simp add: checked_fee_sum_Some_iff)
  then show ?thesis by (metis not_None_eq)
qed

text \<open>The facts about a transaction a block is assembled from.\<close>

definition part_ok ::
    "('p::ab_group_add, 's::comm_ring_1) crypto \<Rightarrow> 'p ledger_state \<Rightarrow> u64 \<Rightarrow> bytes \<Rightarrow> transaction
       \<Rightarrow> bool" where
  "part_ok C S height ctx t \<longleftrightarrow> verify_stateless_rules C ctx (binding_active S height) t = Inr ()
     \<and> (\<forall>i \<in> set (tx_inputs t). check_spend C S height (binding_active S height) i = Inr ())
     \<and> (\<forall>o' \<in> set (tx_outputs t). utxo_get (l_utxos S) (out_commit o') = None)
     \<and> (\<forall>k \<in> set (tx_kernels t). feature k = PlainKernel \<longrightarrow> lock_height k \<le> height)"

lemma part_ok_balance:
  assumes C: "group_ok C" and part: "part_ok C S height ctx t"
  shows "value_points C (tx_inputs t) (tx_outputs t) (tx_kernels t)"
    and "value_total C (tx_inputs t) (tx_outputs t) (tx_kernels t)
      = commit_public_value C (total_reward t)
        - (\<Sum>k \<leftarrow> tx_kernels t. commit_public_value C (fee_darks k))
        + pt_mul C (offset_scalar C (tx_kernel_offset t)) (generator_h C)"
    and "\<not> binding_active S height \<Longrightarrow> tx_kernel_offset t = None"
proof -
  from part have v: "verify_stateless_rules C ctx (binding_active S height) t = Inr ()"
    by (simp add: part_ok_def)
  note d = verify_stateless_rules_OkD [OF v]
  show "value_points C (tx_inputs t) (tx_outputs t) (tx_kernels t)"
    using d(3) by (simp add: verify_value_balance_iff)
  show "\<not> binding_active S height \<Longrightarrow> tx_kernel_offset t = None" by (rule d(4))
  have "commit_public_value C (total_fee t)
      = (\<Sum>k \<leftarrow> tx_kernels t. commit_public_value C (fee_darks k))"
    using of_nat_fees [of "tx_kernels t", where 's = 'b] d(2)
    by (simp add: commit_public_value_def total_fee_def checked_total_fee_def
        pt_mul_sum_list [OF C])
  then show "value_total C (tx_inputs t) (tx_outputs t) (tx_kernels t)
      = commit_public_value C (total_reward t)
        - (\<Sum>k \<leftarrow> tx_kernels t. commit_public_value C (fee_darks k))
        + pt_mul C (offset_scalar C (tx_kernel_offset t)) (generator_h C)"
    using d(3) by (auto simp: verify_value_balance_iff dest: decode_offset_scalar)
qed

text \<open>The value balance of the aggregate is the sum of the balances of its parts.\<close>

lemma aggregate_balance:
  assumes C: "group_ok C" "encoding_ok C"
    and parts: "\<And>t. t \<in> set ts \<Longrightarrow> part_ok C S height ctx t"
    and fees: "checked_fee_sum (concat (map tx_kernels ts)) \<noteq> None"
    and rewards: "(\<Sum>t \<leftarrow> ts. commit_public_value C (total_reward t))
      = commit_public_value C (body_total_reward (aggregate C ts))"
  shows "\<exists>off. check_block_balance C (shaped S height (aggregate C ts)) = Inr off"
proof -
  let ?A = "aggregate C ts"
  let ?k = "\<Sum>t \<leftarrow> ts. offset_scalar C (tx_kernel_offset t)"
  note b = part_ok_balance [OF C(1) parts]
  have vp: "value_points C (b_inputs ?A) (b_outputs ?A) (b_kernels ?A)"
    using b(1) by (auto simp: value_points_def all_points_def aggregate_simps)
  have sum1: "(\<Sum>t \<leftarrow> ts. value_total C (tx_inputs t) (tx_outputs t) (tx_kernels t))
      = (\<Sum>t \<leftarrow> ts. commit_public_value C (total_reward t))
        - (\<Sum>k \<leftarrow> concat (map tx_kernels ts). commit_public_value C (fee_darks k))
        + pt_mul C ?k (generator_h C)"
    using b(2)
    by (induction ts) (simp_all add: alg C algebra_simps pt_mul_zero [OF C(1)])
  have "wrapping_fees (b_kernels ?A) = wrapping_fees (concat (map tx_kernels ts))"
    by (rule wrapping_mset) (simp add: aggregate_simps)
  then have "commit_public_value C (body_total_fee ?A)
      = pt_mul C (\<Sum>k \<leftarrow> concat (map tx_kernels ts). unsigned (fee_darks k)) (generator_g C)"
    by (simp only: commit_public_value_def body_total_fee_def of_nat_unat of_nat_fees [OF fees])
  also have "\<dots> = (\<Sum>k \<leftarrow> concat (map tx_kernels ts). commit_public_value C (fee_darks k))"
    by (simp only: commit_public_value_def of_nat_unat pt_mul_sum_list [OF C(1)])
  finally have f: "(\<Sum>k \<leftarrow> concat (map tx_kernels ts). commit_public_value C (fee_darks k))
      = commit_public_value C (body_total_fee ?A)" by simp
  have off: "decode_offset C (b_kernel_offset (shaped S height ?A)) = Inr ?k"
  proof (cases "binding_active S height")
    case True
    then show ?thesis by (simp add: shaped_def aggregate_simps fold_offsets_scalar [OF C(2)])
  next
    case False
    with b(3) have "?k = 0" by (induction ts) auto
    with False show ?thesis by (simp add: shaped_def decode_offset_def)
  qed
  show ?thesis
    unfolding check_block_balance_Inr_iff [OF C(2)]
    using vp off by (simp add: aggregate_value_total sum1 f rewards)
qed

text \<open>A coinbase the builder made, as a part of a block.\<close>

lemma coinbase_part:
  assumes laws: "group_ok C" "encoding_ok C" "range_ok C"
    and made: "build_coinbase C dr miner due height ctx = Inr cb"
    and nz: "\<And>k. k \<in> set (tx_kernels cb) \<Longrightarrow> commit_point C (excess k) \<noteq> Some 0"
    and fresh: "\<forall>o' \<in> set (tx_outputs cb). utxo_get (l_utxos S) (out_commit o') = None"
  shows "part_ok C S height ctx cb"
proof -
  obtain k o' where "tx_inputs cb = []" "tx_kernels cb = [k]" "feature k = CoinbaseKernel"
    by (rule build_coinbase_fields [OF made])
  with build_coinbase_verifies(1) [OF laws made nz] fresh show ?thesis
    by (simp add: part_ok_def)
qed

lemma kernel_checked:
  assumes "part_ok C S height ctx t" "k \<in> set (tx_kernels t)"
  shows "check_block_kernel C height k = Inr ()"
    and "check_block_kernel C height (kernel_strip_binding k) = Inr ()"
proof -
  have v: "verify_stateless_rules C ctx (binding_active S height) t = Inr ()"
    using assms(1) by (simp add: part_ok_def)
  note d = verify_stateless_rules_OkD [OF v]
  have "kernel_check_shape C k = Inr ()" "kernel_verify_signature C k"
    using check_shape_OkD(12) [OF d(1)] d(3) assms(2) by (auto simp: verify_value_balance_iff)
  moreover have "feature k = PlainKernel \<longrightarrow> lock_height k \<le> height"
    using assms by (simp add: part_ok_def)
  ultimately show "check_block_kernel C height k = Inr ()"
    and "check_block_kernel C height (kernel_strip_binding k) = Inr ()"
    by (auto simp: check_block_kernel_def not_less)
qed

lemma shaped_kernel_mem:
  assumes "k \<in> set (b_kernels (shaped S h (aggregate C ts)))"
  obtains t k' where "t \<in> set ts" "k' \<in> set (tx_kernels t)" "k = k' \<or> k = kernel_strip_binding k'"
  using assms by (auto simp: shaped_def aggregate_simps split: if_splits)

lemma shaped_input_spend:
  assumes parts: "\<And>t. t \<in> set ts \<Longrightarrow> part_ok C S height ctx t"
    and "i \<in> set (b_inputs (shaped S height (aggregate C ts)))"
  shows "check_spend C S height (binding_active S height) i = Inr ()"
proof (cases "binding_active S height")
  case True
  with assms show ?thesis by (auto simp: shaped_def aggregate_simps part_ok_def)
next
  case False
  with assms(2) obtain t j where j: "t \<in> set ts" "j \<in> set (tx_inputs t)"
    "i = input_strip_binding j"
    by (auto simp: shaped_def aggregate_simps)
  with parts [OF j(1)] False show ?thesis
    by (simp add: part_ok_def check_spend_strip)
qed

lemma mset_kernels_aggregate:
  "mset (b_kernels (aggregate C ts)) = mset (concat (map tx_kernels ts))"
  by (simp add: aggregate_simps)

lemma assembled_outputs:
  assumes parts: "\<And>t. t \<in> set ts \<Longrightarrow> part_ok C S height ctx t"
    and "distinct (map out_commit (concat (map tx_outputs ts)))"
  shows "check_block_outputs C (l_utxos S) ctx [] (b_outputs (aggregate C ts)) = Inr ()"
proof -
  have "commit_point C (out_commit o') \<noteq> None \<and> output_point C o' \<noteq> None
      \<and> range_verify C (range_proof o') (out_commit o') ctx \<and> verify_sender_sig C o'
      \<and> utxo_get (l_utxos S) (out_commit o') = None"
    if t: "t \<in> set ts" and o: "o' \<in> set (tx_outputs t)" for t o'
  proof -
    have v: "verify_stateless_rules C ctx (binding_active S height) t = Inr ()"
      using parts [OF t] by (simp add: part_ok_def)
    note d = verify_stateless_rules_OkD [OF v]
    from check_shape_OkD(8,9) [OF d(1)] d(3) parts [OF t] o show ?thesis
      by (auto simp: verify_value_balance_iff part_ok_def all_points_def)
  qed
  moreover have "distinct (map out_commit (b_outputs (aggregate C ts)))"
  proof -
    have "mset (map out_commit (b_outputs (aggregate C ts)))
        = mset (map out_commit (concat (map tx_outputs ts)))"
      by (simp add: aggregate_simps)
    with assms(2) show ?thesis by (metis mset_eq_imp_distinct_iff)
  qed
  ultimately show ?thesis
    by (auto simp: check_block_outputs_Inr aggregate_simps)
qed

section \<open>An assembled block is accepted\<close>

lemma assembled_coinbase_kernel:
  assumes made: "build_coinbase C dr miner due height ctx = Inr cb"
    and plain: "\<forall>t \<in> set ts. \<forall>k \<in> set (tx_kernels t). feature k = PlainKernel"
    and k: "k \<in> set (b_kernels (shaped S h (aggregate C (cb # ts))))"
      "feature k = CoinbaseKernel"
  shows "reward_darks k = due" "lock_height k = height"
    and "\<exists>k' \<in> set (tx_kernels cb). excess k = excess k'"
proof -
  obtain c o' where c: "tx_kernels cb = [c]" "reward_darks c = due" "lock_height c = height"
    by (rule build_coinbase_fields [OF made])
  obtain t k' where "t \<in> set (cb # ts)" "k' \<in> set (tx_kernels t)"
    "k = k' \<or> k = kernel_strip_binding k'"
    by (rule shaped_kernel_mem [OF k(1)])
  with plain k(2) c show "reward_darks k = due" "lock_height k = height"
    "\<exists>k' \<in> set (tx_kernels cb). excess k = excess k'"
    by auto
qed

lemma find_Some_of:
  assumes "x \<in> set xs" "P x"
  obtains y where "List.find P xs = Some y" "y \<in> set xs" "P y"
proof (cases "List.find P xs")
  case None
  with assms show thesis by (auto simp: find_None_iff)
next
  case (Some y)
  with that find_Some_mem show thesis by metis
qed

lemma assembled_structure:
  assumes made: "build_coinbase C dr miner due height ctx = Inr cb"
    and asm: "assembled C S height reward ctx cb ts"
    and plain: "\<forall>t \<in> set ts. \<forall>k \<in> set (tx_kernels t). feature k = PlainKernel"
    and due: "due = (if 0 < reward then reward else body_total_fee (aggregate C (cb # ts)))"
    and cap: "\<not> would_exceed_cap (l_supply S) reward"
  obtains coinbase where
    "check_block_structure C S (binding_active S height)
       (shaped S height (aggregate C (cb # ts))) height reward = Inr coinbase"
    "reward_darks coinbase = due"
    "\<exists>k' \<in> set (tx_kernels cb). excess coinbase = excess k'"
proof -
  let ?B = "shaped S height (aggregate C (cb # ts))"
  obtain c o' where c: "tx_inputs cb = []" "tx_outputs cb = [o']" "tx_kernels cb = [c]"
    "feature c = CoinbaseKernel"
    by (rule build_coinbase_fields [OF made])
  have canon: "is_canonical C ?B"
    by (simp add: aggregate_def canonicalise_canonical)
  have count: "body_coinbase_kernels ?B = 1"
  proof -
    have "coinbase_kernel_count (concat (map tx_kernels ts)) = 0"
      using plain by (auto simp: coinbase_kernel_count_def filter_empty_conv)
    moreover have "coinbase_kernel_count [c] = 1"
      using c(4) by (simp add: coinbase_kernel_count_def)
    moreover have "concat (map tx_kernels (cb # ts)) = [c] @ concat (map tx_kernels ts)"
      by (simp add: c(3))
    ultimately have "coinbase_kernel_count (concat (map tx_kernels (cb # ts))) = 1"
      by (simp only: coinbase_count_simps(2))
    then show ?thesis
      using coinbase_count_mset [OF mset_kernels_aggregate, of C "cb # ts"]
      unfolding shaped_simps(9) by (simp only: body_coinbase_kernels_def)
  qed
  have sizes: "\<not> exceeds_size_limits ?B"
    using asm c by (simp add: assembled_def exceeds_size_limits_def aggregate_simps)
  have "\<exists>k \<in> set (b_kernels ?B). feature k = CoinbaseKernel"
    using c by (auto simp: shaped_def aggregate_simps set_insort_key)
  then obtain k where k: "List.find (\<lambda>k. feature k = CoinbaseKernel) (b_kernels ?B) = Some k"
    "k \<in> set (b_kernels ?B)" "feature k = CoinbaseKernel"
    by (auto elim: find_Some_of)
  note f = assembled_coinbase_kernel [OF made plain k(2,3)]
  have "checked_fee_sum (concat (map tx_kernels (cb # ts))) \<noteq> None"
    using asm by (simp add: assembled_def)
  then have fee: "checked_fee_sum (b_kernels ?B) \<noteq> None"
    using checked_fee_sum_mset [OF mset_kernels_aggregate, of C "cb # ts"]
      checked_fee_sum_strip [of "b_kernels (aggregate C (cb # ts))"]
    by (cases "binding_active S height") (simp_all add: shaped_def del: not_None_eq)
  have ne: "b_outputs ?B \<noteq> []" "b_kernels ?B \<noteq> []"
    using c k(2) by (auto simp: aggregate_simps simp flip: length_0_conv)
  have "check_block_structure C S (binding_active S height) ?B height reward = Inr k"
    using ne canon sizes count k f cap fee due
    by (simp add: check_block_structure_def)
  with f that show thesis by blast
qed

lemma assembled_coinbase_output:
  assumes laws: "group_ok C" "encoding_ok C" "range_ok C"
    and made: "build_coinbase C dr miner due height ctx = Inr cb"
    and nz: "\<And>k. k \<in> set (tx_kernels cb) \<Longrightarrow> commit_point C (excess k) \<noteq> Some 0"
    and none: "\<forall>t \<in> set ts. filter (\<lambda>o'. is_coinbase_feature (features o')) (tx_outputs t) = []"
    and k: "reward_darks coinbase = due"
      "\<exists>k' \<in> set (tx_kernels cb). excess coinbase = excess k'"
  shows "check_coinbase_output C binding (shaped S h (aggregate C (cb # ts))) coinbase = Inr ()"
proof -
  let ?P = "\<lambda>o'. is_coinbase_feature (features o')"
  let ?os = "b_outputs (aggregate C (cb # ts))"
  obtain o' c p where o: "tx_outputs cb = [o']" "tx_kernels cb = [c]"
    and p: "commit_point C (out_commit o') = Some p"
      "Some (p - commit_public_value C due) = commit_point C (excess c)"
    using build_coinbase_verifies(2) [OF laws made nz] by blast
  have fo: "?P o'"
    using o by (auto intro: build_coinbase_fields [OF made] simp: is_coinbase_feature_def)
  have "filter ?P (concat (map tx_outputs ts)) = []"
    using none by (auto simp: filter_concat filter_empty_conv)
  then have "filter ?P (concat (map tx_outputs (cb # ts))) = [o']"
    by (simp add: o fo)
  moreover have "mset ?os = mset (concat (map tx_outputs (cb # ts)))"
    by (simp only: aggregate_simps mset_sort)
  ultimately have "mset (filter ?P ?os) = {#o'#}"
    by (metis mset_filter mset_single_iff)
  then have one: "filter ?P ?os = [o']" by (metis mset_single_iff)
  have "o' \<in> set (filter ?P ?os)" by (simp add: one)
  then have "o' \<in> set ?os" by simp
  then obtain y where y: "List.find ?P ?os = Some y" "y \<in> set ?os" "?P y"
    by (rule find_Some_of) (rule fo)
  then have "y \<in> set (filter ?P ?os)" by simp
  then have "y = o'" by (simp add: one)
  with y have fd: "List.find ?P ?os = Some o'" by simp
  from k o have "excess coinbase = excess c" by simp
  with p k(1) show ?thesis
    by (simp add: check_coinbase_output_def one fd)
qed

text \<open>
  Assembling a coinbase for the due amount with transactions the ledger admits, none of which
  conflict, gives a block the ledger accepts.
\<close>

lemma assembled_block_accepted:
  assumes laws: "group_ok C" "encoding_ok C" "range_ok C"
    and S: "ledger_ok C S" "total_burned_darks (l_supply S) \<le> total_minted_darks (l_supply S)"
    and asm: "assembled C S height reward ctx cb ts"
    and made: "build_coinbase C dr miner due height ctx = Inr cb"
    and nz: "\<And>k. k \<in> set (tx_kernels cb) \<Longrightarrow> commit_point C (excess k) \<noteq> Some 0"
    and fees: "fees = wrapping_fees (concat (map tx_kernels ts))"
    and due: "due = (if 0 < reward then reward else fees)"
    and cap: "\<not> would_exceed_cap (l_supply S) reward"
    and burn: "unat (total_burned_darks (l_supply S)) + unat fees
      \<le> unat (total_minted_darks (l_supply S)) + unat reward"
  shows "\<exists>S'. apply_block C S (aggregate C (cb # ts)) height reward ctx = (S', Inr ())"
proof -
  let ?A = "aggregate C (cb # ts)"
  let ?B = "shaped S height ?A"
  obtain c o' where c: "tx_inputs cb = []" "tx_outputs cb = [o']" "tx_kernels cb = [c]"
    "reward_darks c = due" "fee_darks c = 0"
    by (rule build_coinbase_fields [OF made])
  have acc: "check_tx_acceptable C S t height ctx = Inr ()" if "t \<in> set ts" for t
    using asm that by (simp add: assembled_def)
  note a = check_tx_acceptable_OkD [OF acc]
  note sh = verify_stateless_rules_OkD(1) [OF a(2)]
  note np = not_coinbase_features [OF sh a(1)]
  have plain: "\<forall>t \<in> set ts. \<forall>k \<in> set (tx_kernels t). feature k = PlainKernel"
    and none: "\<forall>t \<in> set ts. filter (\<lambda>o'. is_coinbase_feature (features o')) (tx_outputs t) = []"
    using np by blast+
  have cbp: "part_ok C S height ctx cb"
    by (rule coinbase_part [OF laws made nz]) (use asm in \<open>simp_all add: assembled_def\<close>)
  have parts: "part_ok C S height ctx t" if "t \<in> set (cb # ts)" for t
  proof (cases "t = cb")
    case False
    with that have t: "t \<in> set ts" by simp
    have "\<forall>k \<in> set (tx_kernels t). lock_height k \<le> height"
      using asm t by (auto simp: assembled_def)
    then show ?thesis
      using a [OF t] by (simp add: part_ok_def)
  qed (use cbp in simp)
  have fee_all: "checked_fee_sum (concat (map tx_kernels (cb # ts))) \<noteq> None"
    using asm by (simp add: assembled_def)
  have "wrapping_fees (b_kernels ?A) = wrapping_fees (concat (map tx_kernels (cb # ts)))"
    by (rule wrapping_mset) (rule mset_kernels_aggregate)
  then have bf: "body_total_fee ?A = fees"
    by (simp add: body_total_fee_def c fees wrapping_fees_eq)
  have "wrapping_rewards (concat (map tx_kernels ts)) = 0"
    using np(3) by (intro rewards_none) auto
  moreover have "wrapping_rewards (b_kernels ?A) = wrapping_rewards (concat (map tx_kernels (cb # ts)))"
    by (rule wrapping_mset) (rule mset_kernels_aggregate)
  ultimately have br: "body_total_reward ?A = due"
    by (simp add: body_total_reward_def c wrapping_rewards_eq)
  have zero: "commit_public_value C 0 = 0"
    by (simp add: commit_public_value_def pt_mul_zero [OF laws(1)])
  have tr: "total_reward t = 0" if "t \<in> set ts" for t
    using np(3) [OF that that] by (simp add: total_reward_def rewards_none)
  then have "(\<Sum>t \<leftarrow> ts. commit_public_value C (total_reward t)) = 0"
    by (induction ts) (simp_all add: zero)
  then have rw: "(\<Sum>t \<leftarrow> cb # ts. commit_public_value C (total_reward t))
      = commit_public_value C (body_total_reward ?A)"
    by (simp add: br total_reward_def c wrapping_rewards_eq)
  obtain off where bal: "check_block_balance C ?B = Inr off"
    using aggregate_balance [OF laws(1,2) parts fee_all rw] by blast
  have dist: "distinct (map in_commit (b_inputs ?B))"
  proof -
    have "mset (map in_commit (b_inputs ?A)) = mset (map in_commit (concat (map tx_inputs ts)))"
      by (simp add: aggregate_simps c)
    moreover have "distinct (map in_commit (concat (map tx_inputs ts)))"
      using asm by (simp add: assembled_def)
    ultimately show ?thesis by (metis mset_eq_imp_distinct_iff shaped_simps(1))
  qed
  have capn: "unat (total_minted_darks (l_supply S)) + unat reward \<le> 9000000000000000"
    using cap by (simp add: would_exceed_cap_iff)
  obtain ns where ns: "next_supply (l_supply S) reward (body_total_fee ?B) = Inr ns"
    "total_burned_darks ns \<le> total_minted_darks ns"
  proof (cases "0 < reward")
    case True
    have "checked_add (total_minted_darks (l_supply S)) reward \<noteq> None"
      "checked_add (total_burned_darks (l_supply S)) fees \<noteq> None"
      using capn burn by (simp_all add: checked_add_None_iff)
    then obtain m b where mb: "checked_add (total_minted_darks (l_supply S)) reward = Some m"
      "checked_add (total_burned_darks (l_supply S)) fees = Some b" by auto
    then have "b \<le> m" using burn by (simp add: checked_add_Some_iff word_le_nat_alt)
    with mb that [of "\<lparr>total_minted_darks = m, total_burned_darks = b\<rparr>"] True bf show thesis
      by (simp add: next_supply_def)
  next
    case False
    with that [of "l_supply S"] S(2) show thesis by (simp add: next_supply_def)
  qed
  obtain coinbase where st: "check_block_structure C S (binding_active S height) ?B height reward
      = Inr coinbase" "reward_darks coinbase = due"
      "\<exists>k' \<in> set (tx_kernels cb). excess coinbase = excess k'"
    by (rule assembled_structure [OF made asm plain _ cap]) (use due bf in simp)
  have due': "body_total_reward ?B = (if 0 < reward then reward else body_total_fee ?B)"
    using due by (simp add: br bf)
  obtain ks nk projected where
    pr: "add_kernels C (b_kernels ?B) (l_kernels S) = Inr ks" "add_offset C ks off = Some nk"
      "sum_after C (l_utxos S) (spent_set ?B) (map out_commit (b_outputs ?B)) = Some projected"
      "supply_equation_holds C projected nk ns = Inr ()"
    using balance_projects [OF laws(1,2) S bal dist due' cap ns] by blast
  have kb: "key_balance C (b_inputs ?B) (b_outputs ?B) (b_kernels ?B) (b_stealth_offset ?B)
      = Inr ()" if "binding_active S height"
  proof -
    have "key_balance C (tx_inputs t) (tx_outputs t) (tx_kernels t) (tx_stealth_offset t)
        = Inr ()" if "t \<in> set (cb # ts)" for t
      using verify_stateless_rules_OkD(6) [of C ctx "binding_active S height" t] parts [OF that]
        \<open>binding_active S height\<close>
      by (simp add: part_ok_def)
    from aggregate_key_balance [OF laws(1,2) this, of "cb # ts"] that show ?thesis
      by (simp add: shaped_def)
  qed
  have kc: "\<forall>k \<in> set (b_kernels ?B). check_block_kernel C height k = Inr ()"
    using kernel_checked [OF parts] by (auto elim!: shaped_kernel_mem)
  have oc: "check_block_outputs C (l_utxos S) ctx [] (b_outputs ?B) = Inr ()"
    using assembled_outputs [OF parts, of "cb # ts"] asm
    by (simp only: assembled_def shaped_simps(2) simp_thms)
  have ic: "\<forall>i \<in> set (b_inputs ?B). check_spend C S height (binding_active S height) i = Inr ()"
    using shaped_input_spend [OF parts] by blast
  have co: "check_coinbase_output C (binding_active S height) ?B coinbase = Inr ()"
    by (rule assembled_coinbase_output [OF laws made nz none st(2,3)])
  have "\<exists>undo. validate_block C S ?B height reward ctx = Inr (nk, ns, undo)"
    by (rule validate_blockI [OF st(1) kc oc dist ic kb bal co pr(1,2) ns(1) pr(3,4)])
  then show ?thesis
    using apply_block_cases [of C S ?A height reward ctx] S(1)
    by (auto simp: body_at_shaped ledger_ok_def)
qed

end
