(* ===== verification/Template_Facts.thy ===== *)
theory Template_Facts
  imports Mempool Rebuild_Facts Ledger_Accept
begin

text \<open>
  What a miner assembles: the fees it claims are the fees of the transactions, a template
  that was built is accepted once its nonce is found, and admitted transactions that do not
  conflict give a template.
\<close>

section \<open>Fees\<close>

lemma fees_fold:
  "try_fold (\<lambda>acc t. Option.bind (checked_total_fee t) (checked_add acc)) a txs = Some s \<longleftrightarrow>
     (\<forall>k \<in> set (concat (map tx_kernels txs)). fee_darks k \<le> MAX_KERNEL_FEE_DARKS)
     \<and> unat s = unat a + (\<Sum>k \<leftarrow> concat (map tx_kernels txs). unat (fee_darks k))"
proof (induction txs arbitrary: a)
  case Nil
  show ?case by (auto simp: word_unat_eq_iff)
next
  case (Cons t txs)
  have s: "unat s < 2 ^ 64" using unsigned_less [of s, where ?'a = nat] by simp
  show ?case
  proof (cases "checked_total_fee t")
    case None
    then have n: "checked_fee_sum (tx_kernels t) = None" by (simp add: checked_total_fee_def)
    have "\<not> ((\<forall>k \<in> set (tx_kernels t). fee_darks k \<le> MAX_KERNEL_FEE_DARKS)
      \<and> (\<Sum>k \<leftarrow> tx_kernels t. unat (fee_darks k)) < 2 ^ 64)"
    proof
      assume a: "(\<forall>k \<in> set (tx_kernels t). fee_darks k \<le> MAX_KERNEL_FEE_DARKS)
        \<and> (\<Sum>k \<leftarrow> tx_kernels t. unat (fee_darks k)) < 2 ^ 64"
      then have "checked_fee_sum (tx_kernels t) = Some (\<Sum>k \<leftarrow> tx_kernels t. fee_darks k)"
        by (simp add: checked_fee_sum_Some_iff unat_sum_list)
      with n show False by simp
    qed
    with None s show ?thesis by auto
  next
    case (Some f)
    then have f: "\<forall>k \<in> set (tx_kernels t). fee_darks k \<le> MAX_KERNEL_FEE_DARKS"
      "unat f = (\<Sum>k \<leftarrow> tx_kernels t. unat (fee_darks k))"
      by (simp_all add: checked_total_fee_def checked_fee_sum_Some_iff)
    show ?thesis
    proof (cases "checked_add a f")
      case None
      then have "(2 :: nat) ^ 64 \<le> unat a + unat f" by (simp add: checked_add_None_iff)
      with None Some f s show ?thesis by auto
    next
      case a': (Some a')
      then have "unat a' = unat a + unat f" by (simp add: checked_add_Some_iff)
      with Some a' f Cons.IH [of a'] show ?thesis by auto
    qed
  qed
qed

lemma template_fees_checked: "template_fees True txs = checked_fee_sum (concat (map tx_kernels txs))"
proof -
  have "template_fees True txs = Some s \<longleftrightarrow> checked_fee_sum (concat (map tx_kernels txs)) = Some s"
    for s by (simp add: template_fees_def fees_fold checked_fee_sum_Some_iff)
  then show ?thesis by (metis option.exhaust)
qed

lemma template_fees_wrapping:
  assumes "template_fees binding txs = Some fees"
  shows "fees = wrapping_fees (concat (map tx_kernels txs))"
proof (cases binding)
  case True
  with assms have c: "checked_fee_sum (concat (map tx_kernels txs)) = Some fees"
    by (simp add: template_fees_checked)
  show ?thesis by (rule checked_fee_sum_wrapping(1) [OF c, symmetric])
next
  case False
  have "fold (\<lambda>t acc. acc + total_fee t) txs a = a + wrapping_fees (concat (map tx_kernels txs))"
    for a by (induction txs arbitrary: a) (simp_all add: total_fee_def wrapping_fees_eq add.assoc)
  with False assms show ?thesis by (simp add: template_fees_def)
qed

section \<open>Stripped parts\<close>

lemma sort_key_map_same: "(\<And>x. f (g x) = f x) \<Longrightarrow> sort_key f (map g xs) = map g (sort_key f xs)"
proof (induction xs)
  case (Cons x xs)
  have "insort_key f (g x) (map g ys) = map g (insort_key f x ys)" for ys
    by (induction ys) (simp_all add: Cons.prems)
  with Cons show ?case by (simp add: sort_key_def)
qed simp

lemma kernel_id_strip: "kernel_id C (kernel_strip_binding k) = kernel_id C k"
  by (simp add: kernel_id_def kernel_strip_binding_def)

lemma fold_no_offsets:
  "(\<And>t. t \<in> set ts \<Longrightarrow> f t = None) \<Longrightarrow> fold (\<lambda>t off. add_offsets C off (f t)) ts None = None"
  by (induction ts) (simp_all add: add_offsets_def)

lemma aggregate_strip:
  "aggregate C (map strip_binding ts) = body_strip_binding (aggregate C ts)"
proof (rule block_body.equality)
  have k: "concat (map (tx_kernels \<circ> strip_binding) ts)
      = map kernel_strip_binding (concat (map tx_kernels ts))"
    by (simp add: map_concat o_def)
  have i: "concat (map (tx_inputs \<circ> strip_binding) ts)
      = map input_strip_binding (concat (map tx_inputs ts))"
    by (simp add: map_concat o_def)
  show "b_inputs (aggregate C (map strip_binding ts)) = b_inputs (body_strip_binding (aggregate C ts))"
    "b_kernels (aggregate C (map strip_binding ts))
       = b_kernels (body_strip_binding (aggregate C ts))"
    by (simp_all add: aggregate_simps i k sort_key_map_same
        sort_key_map_same [where f = "kernel_id C" and g = kernel_strip_binding, OF kernel_id_strip])
  show "b_outputs (aggregate C (map strip_binding ts))
       = b_outputs (body_strip_binding (aggregate C ts))"
    by (simp add: aggregate_simps o_def)
  show "b_stealth_offset (aggregate C (map strip_binding ts))
       = b_stealth_offset (body_strip_binding (aggregate C ts))"
    "b_kernel_offset (aggregate C (map strip_binding ts))
       = b_kernel_offset (body_strip_binding (aggregate C ts))"
    by (simp_all add: aggregate_simps fold_map o_def fold_no_offsets)
qed simp


lemma template_body_shape:
  assumes "\<not> binding_active_at ch height"
  shows "body_strip_binding (aggregate C (strip_binding cb # template_txs ch height extra))
    = aggregate C (strip_binding cb # template_txs ch height extra)"
proof -
  let ?kept = "take (MAX_TXS_PER_BLOCK - 1) extra"
  have "strip_binding cb # template_txs ch height extra = map strip_binding (cb # ?kept)"
    using assms by (simp add: template_txs_def)
  then show ?thesis by (simp only: aggregate_strip body_strip_idem)
qed

section \<open>A built template is a valid block\<close>

lemma build_template_InrD:
  assumes "build_template C dr ch miner extra ts = Inr t"
  obtains fees due cb0 cb trial where
    "template_fees (binding_active_at ch (next_height ch)) (template_txs ch (next_height ch) extra)
       = Some fees"
    "due = (if 0 < chain_subsidy ch (next_height ch) then chain_subsidy ch (next_height ch) else fees)"
    "build_coinbase C dr miner due (next_height ch) (proof_ctx ch) = Inr cb0"
    "cb = (if binding_active_at ch (next_height ch) then cb0 else strip_binding cb0)"
    "apply_block C (ledger ch) (aggregate C (cb # template_txs ch (next_height ch) extra))
       (next_height ch) (chain_subsidy ch (next_height ch)) (proof_ctx ch) = (trial, Inr ())"
    "t = \<lparr>t_header = \<lparr>h_version = PROTOCOL_VERSION, h_height = next_height ch,
         h_prev_hash = tip_hash C ch, h_utxo_root = ledger_utxo_root C trial,
         h_kernel_sum = acc_sum (l_kernels trial),
         h_body_root = body_hash C (aggregate C (cb # template_txs ch (next_height ch) extra)),
         h_timestamp = max ts (sat_add (chain_median_time_past ch) 1),
         h_difficulty = chain_next_difficulty ch, h_nonce = 0, h_reward = due\<rparr>,
       t_body = aggregate C (cb # template_txs ch (next_height ch) extra),
       t_built_on = tip_hash C ch\<rparr>"
proof -
  let ?h = "next_height ch"
  let ?txs = "template_txs ch ?h extra" and ?s = "chain_subsidy ch ?h"
  from assms obtain fees where f: "template_fees (binding_active_at ch ?h) ?txs = Some fees"
    by (cases "template_fees (binding_active_at ch ?h) ?txs")
      (simp_all add: build_template_def Let_def ok_or_def)
  define due where "due = (if 0 < ?s then ?s else fees)"
  from assms f obtain cb0 where mk: "build_coinbase C dr miner due ?h (proof_ctx ch) = Inr cb0"
    by (cases "build_coinbase C dr miner due ?h (proof_ctx ch)")
      (simp_all add: build_template_def Let_def ok_or_def flip: due_def)
  define cb where "cb = (if binding_active_at ch ?h then cb0 else strip_binding cb0)"
  obtain trial r where A: "apply_block C (ledger ch) (aggregate C (cb # ?txs)) ?h ?s (proof_ctx ch)
      = (trial, r)" by fastforce
  have t: "(case (trial, r) of (_, Inl e) \<Rightarrow> Inl (LedgerErr e)
     | (trial, Inr _) \<Rightarrow> Inr \<lparr>t_header = \<lparr>h_version = PROTOCOL_VERSION, h_height = ?h,
         h_prev_hash = tip_hash C ch, h_utxo_root = ledger_utxo_root C trial,
         h_kernel_sum = acc_sum (l_kernels trial),
         h_body_root = body_hash C (aggregate C (cb # ?txs)),
         h_timestamp = max ts (sat_add (chain_median_time_past ch) 1),
         h_difficulty = chain_next_difficulty ch, h_nonce = 0, h_reward = due\<rparr>,
       t_body = aggregate C (cb # ?txs), t_built_on = tip_hash C ch\<rparr>) = Inr t"
    using assms f mk A by (simp add: build_template_def Let_def ok_or_def flip: due_def cb_def)
  then obtain "r = Inr ()" by (cases r) auto
  with t show thesis by (intro that [OF f due_def mk cb_def]) (auto simp: A)
qed

lemma template_fee_total:
  assumes "template_fees b txs = Some fees" "build_coinbase C dr miner due h ctx = Inr cb0"
    and "cb = cb0 \<or> cb = strip_binding cb0"
  shows "body_total_fee (aggregate C (cb # txs)) = fees"
proof -
  obtain k where "tx_kernels cb0 = [k]" "fee_darks k = 0"
    by (rule build_coinbase_fields [OF assms(2)])
  with assms(3) have "wrapping_fees (tx_kernels cb) = 0" by (auto simp: wrapping_fees_eq)
  moreover have "wrapping_fees (b_kernels (aggregate C (cb # txs)))
      = wrapping_fees (concat (map tx_kernels (cb # txs)))"
    by (rule wrapping_mset) (rule mset_kernels_aggregate)
  ultimately show ?thesis
    by (simp add: body_total_fee_def template_fees_wrapping [OF assms(1)])
qed

lemma unat_less_max: "w \<noteq> - 1 \<Longrightarrow> unat w < 2 ^ 64 - 1" for w :: u64
proof -
  assume "w \<noteq> - 1"
  then have "w < - 1" by (metis word_order.extremum_strict word_order.not_eq_extremum)
  then have "unat w < unat (- 1 :: u64)" by (simp only: word_less_nat_alt)
  also have "unat (- 1 :: u64) = 2 ^ 64 - 1"
    by (simp add: unsigned_minus_1_eq_mask mask_eq_exp_minus_1)
  finally show ?thesis .
qed

lemma template_accepted:
  assumes C: "encoding_ok C" "group_ok C" and core: "chain_core C ch"
    and t: "build_template C dr ch miner extra ts = Inr t"
    and pow: "pow_is_valid C (seal t nonce) (chain_pow_params ch)"
    and future: "h_timestamp (t_header t) \<le> sat_add now MAX_FUTURE_DRIFT_SECS"
    and pin: "checkpoint_at (next_height ch) = None"
    and clock: "chain_median_time_past ch \<noteq> - 1"
  shows "\<exists>ch'. chain_apply_block C ch (seal t nonce) now = (ch', Inr ())"
proof -
  obtain fees due cb0 cb trial where
    f: "template_fees (binding_active_at ch (next_height ch))
        (template_txs ch (next_height ch) extra) = Some fees"
    and due: "due = (if 0 < chain_subsidy ch (next_height ch) then chain_subsidy ch (next_height ch)
        else fees)"
    and mk: "build_coinbase C dr miner due (next_height ch) (proof_ctx ch) = Inr cb0"
    and cb: "cb = (if binding_active_at ch (next_height ch) then cb0 else strip_binding cb0)"
    and A: "apply_block C (ledger ch) (aggregate C (cb # template_txs ch (next_height ch) extra))
       (next_height ch) (chain_subsidy ch (next_height ch)) (proof_ctx ch) = (trial, Inr ())"
    and teq: "t = \<lparr>t_header = \<lparr>h_version = PROTOCOL_VERSION, h_height = next_height ch,
         h_prev_hash = tip_hash C ch, h_utxo_root = ledger_utxo_root C trial,
         h_kernel_sum = acc_sum (l_kernels trial),
         h_body_root = body_hash C (aggregate C (cb # template_txs ch (next_height ch) extra)),
         h_timestamp = max ts (sat_add (chain_median_time_past ch) 1),
         h_difficulty = chain_next_difficulty ch, h_nonce = 0, h_reward = due\<rparr>,
       t_body = aggregate C (cb # template_txs ch (next_height ch) extra),
       t_built_on = tip_hash C ch\<rparr>"
    by (rule build_template_InrD [OF t])
  let ?b = "seal t nonce"
  let ?body = "aggregate C (cb # template_txs ch (next_height ch) extra)"
  have sl [simp]: "blk_header ?b = (t_header t)\<lparr>h_nonce := nonce\<rparr>" "blk_body ?b = ?body"
    by (simp_all add: seal_def teq)
  have hs: "h_version (t_header t) = PROTOCOL_VERSION" "h_height (t_header t) = next_height ch"
    "h_prev_hash (t_header t) = tip_hash C ch" "h_difficulty (t_header t) = chain_next_difficulty ch"
    "h_reward (t_header t) = due" "h_body_root (t_header t) = body_hash C ?body"
    "h_utxo_root (t_header t) = ledger_utxo_root C trial"
    "h_kernel_sum (t_header t) = acc_sum (l_kernels trial)"
    by (simp_all add: teq)
  have fee: "body_total_fee ?body = fees"
    by (rule template_fee_total [OF f mk]) (simp add: cb)
  have shape: "shape_block ch ?b = ?b"
    using template_body_shape [of ch "next_height ch" C cb0 extra] cb
    by (cases ?b) (auto simp: shape_block_def block_strip_binding_def seal_def teq)
  have ok: "utxo_ok C (l_utxos (ledger ch))"
    using core by (simp add: chain_core_def ledger_ok_def)
  obtain nk ns undo where v: "validate_block C (ledger ch)
      (body_at (ledger ch) (next_height ch) ?body) (next_height ch)
      (chain_subsidy ch (next_height ch)) (proof_ctx ch) = Inr (nk, ns, undo)"
    by (rule apply_block_OkD [OF ok A])
  obtain u where u: "capture_undo (ledger ch) ?body = Inr u"
    using apply_block_rewind [OF ok A] by blast
  have "\<not> (h_timestamp (t_header t) \<le> chain_median_time_past ch)"
  proof -
    have "unat (chain_median_time_past ch) < 2 ^ 64 - 1"
      by (rule unat_less_max [OF clock])
    then have "chain_median_time_past ch < sat_add (chain_median_time_past ch) 1"
      by (simp add: word_less_nat_alt unat_sat_add)
    then show ?thesis by (simp add: teq not_le less_max_iff_disj)
  qed
  moreover have "b_outputs ?body \<noteq> []" "b_kernels ?body \<noteq> []" "\<not> exceeds_size_limits ?body"
  proof -
    obtain coinbase where "check_block_structure C (ledger ch)
        (binding_active (ledger ch) (next_height ch)) (shaped (ledger ch) (next_height ch) ?body)
        (next_height ch) (chain_subsidy ch (next_height ch)) = Inr coinbase"
      by (rule validate_block_OkD [OF v [unfolded body_at_shaped]])
    note k = check_block_structure_OkD [OF this]
    show "b_outputs ?body \<noteq> []" using k(1) by simp
    show "b_kernels ?body \<noteq> []"
      using k(5) by (auto simp: shaped_def split: if_splits)
    show "\<not> exceeds_size_limits ?body" using k(3) by (simp add: exceeds_size_limits_def)
  qed
  ultimately have chk: "check_block C ch ?b now True = Inr ()"
    using future pin pow
    by (simp add: check_block_def hs fee due check_pin_def not_less Let_def)
  have "apply_block_inner C ch ?b now True
      = (applied C ch (shape_block ch ?b) trial u, Inr ())"
    by (rule apply_innerI) (simp_all add: shape chk u A hs)
  then show ?thesis by (auto simp: chain_apply_block_def)
qed


section \<open>Admitted transactions give a template\<close>

lemma apply_block_aggregate_strip:
  assumes "\<not> binding_active S height" "utxo_ok C (l_utxos S)"
  shows "apply_block C S (aggregate C (map strip_binding ts)) height reward ctx
    = apply_block C S (aggregate C ts) height reward ctx"
proof -
  have "body_at S height (aggregate C (map strip_binding ts)) = body_at S height (aggregate C ts)"
    using assms(1) by (simp add: body_at_shaped shaped_def aggregate_strip)
  then show ?thesis by (simp only: apply_block_cases [OF assms(2)])
qed

lemma wrapping_fees_strip_concat:
  "wrapping_fees (concat (map tx_kernels (map strip_binding ts)))
    = wrapping_fees (concat (map tx_kernels ts))"
  by (induction ts) simp_all

lemma checked_fee_sum_tail:
  assumes "checked_fee_sum (ks @ ls) = Some s"
  shows "\<exists>r. checked_fee_sum ls = Some r"
proof -
  have a: "\<forall>k \<in> set ls. fee_darks k \<le> MAX_KERNEL_FEE_DARKS"
    and s: "unat s = (\<Sum>k \<leftarrow> ks. unat (fee_darks k)) + (\<Sum>k \<leftarrow> ls. unat (fee_darks k))"
    using assms by (simp_all add: checked_fee_sum_Some_iff)
  have "unat s < 2 ^ 64" using unsigned_less [of s, where ?'a = nat] by simp
  then have "(\<Sum>k \<leftarrow> ls. unat (fee_darks k)) < 2 ^ 64" using s by linarith
  then have "checked_fee_sum ls = Some (\<Sum>k \<leftarrow> ls. fee_darks k)"
    using a by (simp add: checked_fee_sum_Some_iff unat_sum_list)
  then show ?thesis ..
qed

lemma template_builds:
  assumes laws: "group_ok C" "encoding_ok C" "range_ok C" and core: "chain_core C ch"
    and small: "length extra < MAX_TXS_PER_BLOCK"
    and asm: "assembled C (ledger ch) (next_height ch) (chain_subsidy ch (next_height ch))
      (proof_ctx ch) cb extra"
    and fees: "fees = wrapping_fees (concat (map tx_kernels extra))"
    and due: "due = (if 0 < chain_subsidy ch (next_height ch) then chain_subsidy ch (next_height ch)
      else fees)"
    and made: "build_coinbase C dr miner due (next_height ch) (proof_ctx ch) = Inr cb"
    and nz: "\<And>k. k \<in> set (tx_kernels cb) \<Longrightarrow> commit_point C (excess k) \<noteq> Some 0"
    and minted: "total_minted_darks (l_supply (ledger ch)) \<le> MAX_SUPPLY_DARKS"
    and burn: "unat (total_burned_darks (l_supply (ledger ch))) + unat fees
      \<le> unat (total_minted_darks (l_supply (ledger ch)))"
  shows "\<exists>t. build_template C dr ch miner extra ts = Inr t"
proof -
  let ?h = "next_height ch" and ?S = "ledger ch"
  let ?r = "chain_subsidy ch ?h" and ?bd = "binding_active_at ch ?h"
  have bd: "binding_active ?S ?h = ?bd"
    using core by (simp add: binding_active_def binding_active_at_def chain_core_def)
  have lok: "ledger_ok C ?S" and ok: "utxo_ok C (l_utxos ?S)"
    using core by (simp_all add: chain_core_def ledger_ok_def)
  have cap: "\<not> would_exceed_cap (l_supply ?S) ?r"
    using reward_at_not_exceed [OF minted] core by (simp add: chain_subsidy_def chain_core_def)
  have burned: "total_burned_darks (l_supply ?S) \<le> total_minted_darks (l_supply ?S)"
    using burn by (simp add: word_le_nat_alt)
  obtain S' where A: "apply_block C ?S (aggregate C (cb # extra)) ?h ?r (proof_ctx ch) = (S', Inr ())"
    using assembled_block_accepted [OF laws lok burned asm made nz fees due cap] burn by auto
  have txs: "template_txs ch ?h extra = (if ?bd then extra else map strip_binding extra)"
    using small by (simp add: template_txs_def)
  have f: "template_fees ?bd (template_txs ch ?h extra) = Some fees"
  proof (cases ?bd)
    case True
    have "checked_fee_sum (concat (map tx_kernels (cb # extra))) \<noteq> None"
      using asm by (simp add: assembled_def)
    then obtain s where "checked_fee_sum (concat (map tx_kernels extra)) = Some s"
      by (auto dest!: checked_fee_sum_tail)
    then show ?thesis using True template_fees_wrapping [of True extra s] fees
      by (simp add: txs template_fees_checked)
  next
    case False
    then obtain f where f: "template_fees ?bd (template_txs ch ?h extra) = Some f"
      by (simp add: template_fees_def)
    from template_fees_wrapping [OF f] False have "f = fees"
      by (simp only: txs fees wrapping_fees_strip_concat if_False)
    with f show ?thesis by simp
  qed
  let ?cb = "if ?bd then cb else strip_binding cb"
  have "apply_block C ?S (aggregate C (?cb # template_txs ch ?h extra)) ?h ?r (proof_ctx ch)
      = (S', Inr ())"
  proof (cases ?bd)
    case False
    then have "?cb # template_txs ch ?h extra = map strip_binding (cb # extra)"
      by (simp add: txs)
    moreover have "\<not> binding_active ?S ?h" using False bd by simp
    ultimately show ?thesis
      using A by (simp only: apply_block_aggregate_strip [OF _ ok] simp_thms)
  qed (use A in \<open>simp add: txs\<close>)
  then show ?thesis
    using f made by (simp add: build_template_def Let_def ok_or_def flip: due)
qed

end
