(* ===== verification/Mempool_Facts.thy ===== *)
theory Mempool_Facts
  imports Mempool Template_Facts
begin

text \<open>
  What the mempool promises: every history of its operations keeps the invariant, selection
  takes the best-paying transactions and, under the invariant, never has to skip one.
  Selection looks at inputs only: transactions that create the same output are taken
  together, and the block assembled from them is refused.
\<close>

section \<open>Histories\<close>

datatype pool_op = Insert transaction u64 | Expire u64 | Included block | Drop "string list"

fun pool_step :: "('p, 's) crypto \<Rightarrow> pool_op \<Rightarrow> mempool \<Rightarrow> mempool" where
  "pool_step C (Insert t now) p = fst (insert_checked C t now p)"
| "pool_step C (Expire now) p = fst (expire now p)"
| "pool_step C (Included b) p = remove_included b p"
| "pool_step C (Drop ids) p = fst (drop_ids ids p)"

lemma pool_step_ok: "mempool_ok C p \<Longrightarrow> mempool_ok C (pool_step C x p)"
  by (cases x) (simp_all add: insert_checked_ok expire_ok remove_included_ok drop_ids_ok)

lemma pool_run_ok: "mempool_ok C (fold (pool_step C) xs mempool_default)"
proof -
  have "mempool_ok C p \<Longrightarrow> mempool_ok C (fold (pool_step C) xs p)" for p
    by (induction xs arbitrary: p) (simp_all add: pool_step_ok)
  then show ?thesis by (simp add: mempool_ok_default)
qed

section \<open>Selection\<close>

abbreviation (input) unrelated :: "transaction \<Rightarrow> transaction \<Rightarrow> bool" where
  "unrelated a b \<equiv> in_commits a \<inter> in_commits b = {}"

lemma choose_from_facts:
  assumes "spent = (\<Union>t \<in> set chosen. in_commits t)" "length chosen \<le> limit"
    "sorted_wrt unrelated chosen"
  shows "sorted_wrt unrelated (choose_from limit chosen spent ts)
    \<and> length (choose_from limit chosen spent ts) \<le> limit
    \<and> set (choose_from limit chosen spent ts) \<subseteq> set chosen \<union> set ts"
  using assms
proof (induction ts arbitrary: chosen spent)
  case (Cons t ts)
  show ?case
  proof (cases "limit \<le> length chosen \<or> spends_any spent t")
    case True
    with Cons.IH [OF Cons.prems] Cons.prems show ?thesis by auto
  next
    case False
    then have "sorted_wrt unrelated (chosen @ [t])"
      using Cons.prems by (auto simp: sorted_wrt_append spends_any_iff)
    moreover have "spent \<union> in_commits t = (\<Union>t \<in> set (chosen @ [t]). in_commits t)"
      using Cons.prems(1) by auto
    moreover have "length (chosen @ [t]) \<le> limit" using False by simp
    moreover have "choose_from limit chosen spent (t # ts)
        = choose_from limit (chosen @ [t]) (spent \<union> in_commits t) ts"
      using False by simp
    ultimately show ?thesis
      using Cons.IH [of "spent \<union> in_commits t" "chosen @ [t]"] by auto
  qed
qed simp

lemma choose_from_all:
  assumes "spent = (\<Union>t \<in> set chosen. in_commits t)" "length chosen \<le> limit"
    "sorted_wrt unrelated (chosen @ ts)"
  shows "choose_from limit chosen spent ts = take limit (chosen @ ts)"
  using assms
proof (induction ts arbitrary: chosen spent)
  case (Cons t ts)
  show ?case
  proof (cases "limit \<le> length chosen")
    case False
    have "\<not> spends_any spent t"
      using Cons.prems(1,3) by (fastforce simp: spends_any_iff sorted_wrt_append)
    moreover have "choose_from limit (chosen @ [t]) (spent \<union> in_commits t) ts
        = take limit ((chosen @ [t]) @ ts)"
      by (rule Cons.IH) (use Cons.prems False in auto)
    ultimately show ?thesis using False by simp
  qed (use Cons.prems(2) in simp)
qed simp

lemma sorted_wrt_of_distinct:
  "distinct xs \<Longrightarrow> (\<And>x y. x \<in> set xs \<Longrightarrow> y \<in> set xs \<Longrightarrow> x \<noteq> y \<Longrightarrow> R x y) \<Longrightarrow> sorted_wrt R xs"
  by (induction xs) auto

lemma pool_txs_distinct:
  assumes "mempool_ok C p"
  shows "distinct (map snd (pool_txs p))"
proof -
  note d = mempool_okD [OF assms]
  have "map fst (pool_txs p) = map (\<lambda>t. hash_to_hex (txid C t)) (map snd (pool_txs p))"
    using d(4) by simp
  then show ?thesis using om_ok_distinct [OF d(1)] by (metis distinct_map)
qed

lemma pool_unrelated:
  assumes "mempool_ok C p" "mset ts = mset (map snd (pool_txs p))"
  shows "sorted_wrt unrelated ts"
proof (rule sorted_wrt_of_distinct)
  show "distinct ts" using pool_txs_distinct [OF assms(1)] assms(2) by (metis mset_eq_imp_distinct_iff)
  fix x y assume xy: "x \<in> set ts" "y \<in> set ts" "x \<noteq> y"
  have "set ts = snd ` set (pool_txs p)" using assms(2) by (metis set_map set_mset_mset)
  then obtain k l where kl: "(k, x) \<in> set (pool_txs p)" "(l, y) \<in> set (pool_txs p)"
    using xy by auto
  have "map_of (pool_txs p) k = Some x" "map_of (pool_txs p) l = Some y"
    using kl by (simp_all add: map_of_mem [OF mempool_okD(1) [OF assms(1)]])
  then have "k \<noteq> l" using xy(3) by auto
  then show "unrelated x y" using mempool_okD(5) [OF assms(1) kl] by (auto simp: apart_def)
qed

text \<open>The greedy loop is the plain prefix of the ranking: nothing held ever conflicts.\<close>

lemma select_is_prefix:
  assumes "mempool_ok C p"
  shows "select_for_block C p n = take n (sort_key (pool_rank C) (map snd (pool_txs p)))"
  unfolding select_for_block_def
  by (subst choose_from_all) (use pool_unrelated [OF assms, of "sort_key (pool_rank C) (map snd (pool_txs p))"] in auto)

lemma rank_fee: "pool_rank C a \<le> pool_rank C b \<Longrightarrow> pool_fee b \<le> pool_fee a"
  by (auto simp: pool_rank_def less_eq_prod_def less_prod_def word_le_def word_less_def
      simp flip: uint_nat split: if_splits)

lemma select_best:
  assumes ok: "mempool_ok C p" and s: "s \<in> set (select_for_block C p n)"
    and t: "t \<in> snd ` set (pool_txs p)" "t \<notin> set (select_for_block C p n)"
  shows "pool_fee t \<le> pool_fee s" and "length (select_for_block C p n) = n"
proof -
  let ?xs = "sort_key (pool_rank C) (map snd (pool_txs p))"
  note e = select_is_prefix [OF ok, of n]
  have "t \<in> set ?xs" using t(1) by auto
  then have d: "t \<in> set (drop n ?xs)" using t(2) e by (metis UnE append_take_drop_id set_append)
  have "sorted (map (pool_rank C) (take n ?xs @ drop n ?xs))" by simp
  then have "pool_rank C s \<le> pool_rank C t"
    using s d by (simp only: e map_append sorted_append) auto
  then show "pool_fee t \<le> pool_fee s" by (rule rank_fee)
  have "n < length ?xs" using d by (cases "n < length ?xs") auto
  then show "length (select_for_block C p n) = n" by (simp add: e)
qed


section \<open>Outputs are not looked at\<close>

text \<open>A body that creates one commitment twice is refused and changes nothing.\<close>

lemma duplicate_outputs_refused:
  assumes ok: "utxo_ok C (l_utxos S)"
    and dup: "\<not> distinct (map out_commit (b_outputs body))"
  obtains e where "apply_block C S body height reward ctx = (S, Inl e)"
proof -
  obtain S' r where a: "apply_block C S body height reward ctx = (S', r)" by fastforce
  have "r \<noteq> Inr ()"
  proof
    assume "r = Inr ()"
    with a have "apply_block C S body height reward ctx = (S', Inr ())" by simp
    then obtain nk ns undo where
      "validate_block C S (body_at S height body) height reward ctx = Inr (nk, ns, undo)"
      by (rule apply_block_OkD [OF ok])
    then have "check_block_outputs C (l_utxos S) ctx [] (b_outputs (body_at S height body)) = Inr ()"
      by (rule validate_block_OkD)
    then show False using dup by (simp add: check_block_outputs_Inr)
  qed
  then obtain e where "r = Inl e" by (cases r) auto
  with a apply_block_ErrD(1) [OF ok] that show thesis by blast
qed

lemma template_txs_outputs:
  "length extra < MAX_TXS_PER_BLOCK
    \<Longrightarrow> concat (map tx_outputs (template_txs ch h extra)) = concat (map tx_outputs extra)"
  by (simp add: template_txs_def o_def)

lemma shared_output_no_template:
  assumes core: "chain_core C ch" and small: "length extra < MAX_TXS_PER_BLOCK"
    and dup: "\<not> distinct (map out_commit (concat (map tx_outputs extra)))"
  shows "\<exists>e. build_template C dr ch miner extra ts = Inl e"
proof (rule ccontr)
  assume "\<not> ?thesis"
  then obtain t where "build_template C dr ch miner extra ts = Inr t"
    by (cases "build_template C dr ch miner extra ts") auto
  then obtain cb trial where A: "apply_block C (ledger ch)
      (aggregate C (cb # template_txs ch (next_height ch) extra))
      (next_height ch) (chain_subsidy ch (next_height ch)) (proof_ctx ch) = (trial, Inr ())"
    by (rule build_template_InrD)
  let ?b = "aggregate C (cb # template_txs ch (next_height ch) extra)"
  have "mset (map out_commit (b_outputs ?b))
      = mset (map out_commit (tx_outputs cb @ concat (map tx_outputs extra)))"
    using template_txs_outputs [OF small, of ch "next_height ch"] by (simp add: aggregate_simps)
  then have "\<not> distinct (map out_commit (b_outputs ?b))"
    using dup mset_eq_imp_distinct_iff by fastforce
  then obtain e where "apply_block C (ledger ch) ?b (next_height ch)
      (chain_subsidy ch (next_height ch)) (proof_ctx ch) = (ledger ch, Inl e)"
    using duplicate_outputs_refused core unfolding chain_core_def ledger_ok_def by metis
  with A show False by simp
qed

text \<open>
  Two transactions, each acceptable on its own, that share an output: the filter keeps both,
  the second attempt fails like the first, and the block is built without any transaction.
\<close>

lemma shared_output_empties_block:
  assumes core: "chain_core C ch" and small: "length extra < MAX_TXS_PER_BLOCK"
    and dup: "\<not> distinct (map out_commit (concat (map tx_outputs extra)))"
    and each: "\<forall>t \<in> set extra. acceptable_at C ch t"
  shows "build_template_filtering C drs ch miner extra ts
    = res_bind (build_template C (snd (snd drs)) ch miner [] ts) (\<lambda>t. Inr (t, []))"
proof -
  obtain e e' where "build_template C (fst drs) ch miner extra ts = Inl e"
    "build_template C (fst (snd drs)) ch miner extra ts = Inl e'"
    using shared_output_no_template [OF core small dup] by blast
  moreover have "filter (acceptable_at C ch) extra = extra"
    "filter (\<lambda>t. \<not> acceptable_at C ch t) extra = []"
    using each by (simp_all add: filter_id_conv filter_empty_conv)
  ultimately show ?thesis by (simp add: build_template_filtering_def Let_def)
qed

end
