(* ===== verification/Example.thy ===== *)
theory Example
  imports Ledger_Accept Pow
begin


text \<open>
  A concrete instance of the imported cryptography and a concrete first block, on which the
  witnesses evaluate the model.  Points and scalars are 64-bit words, \<open>G = 1\<close>,
  \<open>H = 3\<close>; the hash adds up its bytes; proof of work always succeeds.  The instance
  satisfies \<open>group_ok\<close>, \<open>encoding_ok\<close>, \<open>range_ok\<close> and \<open>aead_ok\<close>.
\<close>

definition toy_hash :: "bytes \<Rightarrow> bytes" where
  "toy_hash bs = u64_le (fold (\<lambda>b acc. acc + ucast b) bs 7) @ replicate 24 0"

definition toy_decode :: "bytes \<Rightarrow> u64 option" where
  "toy_decode bs =
     (if length bs = 32 \<and> drop 8 bs = replicate 24 0 then Some (of_nat (le_nat (take 8 bs)))
      else None)"

definition toy_encode :: "u64 \<Rightarrow> bytes" where
  "toy_encode w = u64_le w @ replicate 24 0"

definition toy :: "(u64, u64) crypto" where
  "toy = \<lparr>blake3 = toy_hash, argon2id = \<lambda>_ _ _. replicate 32 0,
     decompress = toy_decode, compress = toy_encode, generator_g = 1, generator_h = 3,
     pt_mul = (*), from_canonical_bytes = toy_decode, scalar_bytes = toy_encode,
     from_wide = \<lambda>bs. 2 * of_nat (le_nat (take 8 bs)) + 1,
     bp_prove_single = \<lambda>_ v b _. Some ([], toy_encode (v + b * 3)),
     bp_from_bytes = \<lambda>_. True, bp_verify_single = \<lambda>_ _ _ _. True,
     aead_encrypt = \<lambda>_ _ m. Some m, aead_decrypt = \<lambda>_ _ c. Some c\<rparr>"

lemma toy_group [simp]: "group_ok toy"
  by (simp add: group_ok_def toy_def algebra_simps)

lemma toy_decode_encode [simp]: "toy_decode (toy_encode w) = Some w"
  by (simp add: toy_decode_def toy_encode_def u64_le_roundtrip)

lemma toy_encoding [simp]: "encoding_ok toy"
  by (simp add: encoding_ok_def toy_def toy_hash_def) (simp add: toy_encode_def)

lemma toy_range [simp]: "range_ok toy"
  by (simp add: range_ok_def toy_def commitment_new_def pedersen_def)

lemma toy_aead [simp]: "aead_ok toy"
  by (simp add: aead_ok_def toy_def)

section \<open>A wallet and a first block\<close>

definition toy_keys :: "u64 wallet_keys" where
  "toy_keys = keys_from_seed toy (replicate 32 1)"

definition toy_draws :: "u64 draws" where
  "toy_draws = \<lparr>dr_output = \<lambda>i. (Some (replicate 63 0 @ [of_nat i + 5]), [of_nat i]),
     dr_input = \<lambda>i. ([of_nat i], [2], [3]), dr_kernel_sig = [1], dr_kernel_offset = 11,
     dr_stealth_offset = 13, dr_stealth_sig = [4]\<rparr>"

definition toy_ctx :: bytes where "toy_ctx = proof_context Devnet"
definition toy_reward :: u64 where "toy_reward = 600000000"
definition toy_state :: "u64 ledger_state" where "toy_state = state_for_network toy Devnet"

definition toy_coinbase :: transaction where
  "toy_coinbase =
     (case build_coinbase toy toy_draws (keys_address toy toy_keys) toy_reward 1 toy_ctx of
        Inr t \<Rightarrow> t)"

definition toy_body :: block_body where
  "toy_body = aggregate toy [toy_coinbase]"

lemma toy_state_ok [simp]: "ledger_ok toy toy_state"
  by (simp add: ledger_ok_def toy_state_def state_for_network_def genesis_state_def verify_supply_def
      verify_supply_invariant_iff utxo_commitment_sum_def utxo_new_def utxo_ok_def acc_point_def
      accumulator_default_def commit_point_def commitment_identity_def alg circulating_def
      commit_public_value_def sat_sub_def params)

lemma toy_utxos_ok [simp]: "utxo_ok toy (l_utxos toy_state)"
  using toy_state_ok by (simp only: ledger_ok_def)

text \<open>The coinbase exists and its excess is not the identity: every blind is odd.\<close>

lemma toy_address:
  "scan_point toy (keys_address toy ks) = Some (scan_public toy ks)"
  "spend_point toy (keys_address toy ks) = Some (spend_public toy ks)"
  using keys_address_valid [of toy ks] by simp_all

lemma toy_makes_output:
  "\<exists>o' sec. create_output_with_features toy (Some rb) en (keys_address toy ks) v memo ctx feat
     = Inr (o', sec)"
  by (simp add: create_output_with_features_def toy_address range_prove_def Let_def)
    (simp add: toy_def)

lemma toy_coinbase_made:
  assumes "fst (dr_output dr 0) \<noteq> None"
  shows "\<exists>t. build_coinbase toy dr (keys_address toy ks) reward height ctx = Inr t"
proof -
  from assms obtain rb where "fst (dr_output dr 0) = Some rb" by auto
  then show ?thesis
    using toy_makes_output [of rb "snd (dr_output dr 0)" ks reward "[]" ctx CoinbaseOutput]
    by (auto simp: build_coinbase_def Let_def)
qed

lemma toy_blind_odd: "odd (derive_blind toy t)"
  by (simp add: derive_blind_def blind_from_bytes_def wide_scalar_def) (simp add: toy_def)

lemma toy_excess_nonzero:
  assumes "build_coinbase toy dr miner reward height ctx = Inr t" "k \<in> set (tx_kernels t)"
  shows "commit_point toy (excess k) \<noteq> Some 0"
proof -
  from assms(1) obtain o' sec where
    mk: "create_output_with_features toy (fst (dr_output dr 0)) (snd (dr_output dr 0)) miner
       reward [] ctx CoinbaseOutput = Inr (o', sec)"
    and k: "tx_kernels t = [attach_stealth toy (dr_stealth_sig dr)
         (- ss_ephemeral sec - dr_stealth_offset dr)
         (build_kernel toy (dr_kernel_sig dr) CoinbaseKernel 0 reward height (ss_blind sec))]"
    by (auto elim!: build_coinbase_OkD)
  from mk have "odd (ss_blind sec)"
    by (auto elim!: create_output_OkD simp: toy_blind_odd)
  then have "odd (ss_blind sec * 3)" by simp
  then have "ss_blind sec * 3 \<noteq> 0" by (metis even_zero)
  with assms(2) k show ?thesis
    by (auto simp: commit_point_def alg) (auto simp: toy_def)
qed

lemma toy_coinbase_eq:
  "build_coinbase toy toy_draws (keys_address toy toy_keys) toy_reward 1 toy_ctx
    = Inr toy_coinbase"
proof -
  have "fst (dr_output toy_draws 0) \<noteq> None" by (simp add: toy_draws_def)
  from toy_coinbase_made [OF this] show ?thesis
    unfolding toy_coinbase_def by (metis sum.simps(6))
qed

lemma toy_assembled: "assembled toy toy_state 1 toy_reward toy_ctx toy_coinbase []"
proof -
  obtain k o' where cb: "tx_inputs toy_coinbase = []" "tx_outputs toy_coinbase = [o']"
    "tx_kernels toy_coinbase = [k]" "fee_darks k = 0"
    by (rule build_coinbase_fields [OF toy_coinbase_eq])
  have "checked_fee_sum [k] = Some 0"
    by (simp add: checked_fee_sum_Some_iff cb(4))
  then show ?thesis
    by (simp add: assembled_def cb params toy_state_def state_for_network_def genesis_state_def
        utxo_new_def utxo_get_def)
qed

lemma toy_apply:
  "apply_block toy toy_state toy_body 1 toy_reward toy_ctx
    = (fst (apply_block toy toy_state toy_body 1 toy_reward toy_ctx), Inr ())"
proof -
  have "\<exists>S'. apply_block toy toy_state (aggregate toy [toy_coinbase]) 1 toy_reward toy_ctx
      = (S', Inr ())"
  proof (rule assembled_block_accepted [OF toy_group toy_encoding toy_range toy_state_ok _ toy_assembled
        toy_coinbase_eq toy_excess_nonzero [OF toy_coinbase_eq]])
    show "0 = wrapping_fees (concat (map tx_kernels []))" by (simp add: wrapping_fees_def)
    show "toy_reward = (if 0 < toy_reward then toy_reward else 0)" by (simp add: toy_reward_def)
    show "\<not> would_exceed_cap (l_supply toy_state) toy_reward"
      by (simp add: would_exceed_cap_iff toy_state_def state_for_network_def genesis_state_def
          toy_reward_def)
  qed (simp_all add: toy_state_def state_for_network_def genesis_state_def)
  then show ?thesis by (auto simp: toy_body_def)
qed

lemma toy_apply_pair:
  "apply_block toy toy_state toy_body 1 toy_reward toy_ctx
    = (fst (apply_block toy toy_state toy_body 1 toy_reward toy_ctx),
       snd (apply_block toy toy_state toy_body 1 toy_reward toy_ctx))"
  by simp

text \<open>
  A transfer of the instance \<open>toy\<close>: one coin of 1000 darks is spent with a fee of 100 and
  the rest goes back to the same wallet.
\<close>

definition toy_coin :: "u64 spendable" where
  "toy_coin = \<lparr>sp_commit = commitment_new toy 1000 2, sp_value = 1000, sp_blind = 2, sp_secret = 9\<rparr>"

definition toy_transfer :: transaction where
  "toy_transfer =
     (case build_transfer_with toy toy_draws [toy_coin] [] 100 (keys_address toy toy_keys) 0 toy_ctx
             build_rules_default of Inr t \<Rightarrow> t)"

lemma toy_coin_opens: "opens toy toy_coin"
  by (simp add: opens_def toy_coin_def)

lemma toy_coin_value: "sp_value toy_coin = 1000" "r_kernel_offset build_rules_default = False"
  by (simp_all add: toy_coin_def build_rules_default_def)

lemma toy_change:
  obtains rb en o' sec where "dr_output toy_draws 0 = (Some rb, en)"
    "create_output toy (Some rb) en (keys_address toy toy_keys) 900 [] toy_ctx = Inr (o', sec)"
proof -
  obtain rb en where d: "dr_output toy_draws 0 = (Some rb, en)" by (simp add: toy_draws_def)
  show ?thesis
    using toy_makes_output [of rb en toy_keys 900 "[]" toy_ctx PlainOutput] that [OF d]
    by (auto simp: create_output_def)
qed

lemma toy_transfer_eq:
  "build_transfer_with toy toy_draws [toy_coin] [] 100 (keys_address toy toy_keys) 0 toy_ctx
     build_rules_default = Inr toy_transfer"
proof -
  obtain rb en o' sec where d: "dr_output toy_draws 0 = (Some rb, en)"
    "create_output toy (Some rb) en (keys_address toy toy_keys) 900 [] toy_ctx = Inr (o', sec)"
    by (rule toy_change)
  note w = create_output_wf [OF toy_group toy_encoding toy_range d(2) [unfolded create_output_def]]
  have k: "kernel_check_shape toy (build_kernel toy e PlainKernel 100 0 0 x) = Inr ()" for e x
    by (rule build_kernel_shape) simp_all
  have s: "build_inputs toy toy_draws 0 [toy_coin] = [build_input toy (dr_input toy_draws 0) toy_coin]"
    by simp
  have "\<exists>t. build_transfer_with toy toy_draws [toy_coin] [] 100 (keys_address toy toy_keys) 0
      toy_ctx build_rules_default = Inr t"
    using d w
    by (simp add: build_transfer_with_def Let_def params checked_add_def toy_coin_def [THEN arg_cong, of sp_value]
        build_rules_default_def s check_shape_def check_output_points_def coinbase_kernel_count_def
        is_coinbase_feature_def k)
  then show ?thesis unfolding toy_transfer_def by (metis sum.simps(6))
qed

lemma toy_transfer_excess:
  assumes "k \<in> set (tx_kernels toy_transfer)"
  shows "commit_point toy (excess k) \<noteq> Some 0"
  using toy_transfer_eq
proof (rule build_transfer_with_OkD)
  fix needed outs b e co cs k_off so
  assume b: "build_outputs toy toy_draws toy_ctx 0 [] ([], 0, 0) = Inr (outs, b, e)"
    and c: "create_output toy (fst (dr_output toy_draws (length [])))
      (snd (dr_output toy_draws (length []))) (keys_address toy toy_keys)
      ((\<Sum>s \<leftarrow> [toy_coin]. sp_value s) - needed) [] toy_ctx = Inr (co, cs)"
    and o: "k_off = (if r_kernel_offset build_rules_default then dr_kernel_offset toy_draws else 0)"
    and ks: "tx_kernels toy_transfer = [attach_stealth toy (dr_stealth_sig toy_draws)
       ((\<Sum>x \<leftarrow> build_inputs toy toy_draws 0 [toy_coin]. snd x) - (e + ss_ephemeral cs) - so)
       (build_kernel toy (dr_kernel_sig toy_draws) PlainKernel 100 0 0
          (b + ss_blind cs - (\<Sum>s \<leftarrow> [toy_coin]. sp_blind s) - k_off))]"
  from c have "odd (ss_blind cs)"
    by (auto simp: create_output_def elim!: create_output_OkD simp: toy_blind_odd)
  then have "odd ((ss_blind cs - 2) * 3)" by simp
  then have "(ss_blind cs - 2) * 3 \<noteq> 0" by (metis even_zero)
  with assms ks b o show ?thesis
    by (auto simp: commit_point_def alg build_rules_default_def toy_coin_def) (auto simp: toy_def)
qed

section \<open>A ledger that holds a coin\<close>

text \<open>The coin that \<open>toy_transfer\<close> spends is unspent; the kernels so far add up to its blinding factor.\<close>

definition toy_funded :: "u64 ledger_state" where
  "toy_funded = toy_state\<lparr>
     l_utxos := \<lparr>entries = [(toy_encode 1006, \<lparr>e_output_pk = toy_encode 9, e_height = 0, e_is_coinbase = False\<rparr>)],
                us_sum = 1006, malformed = 0, summed = 1\<rparr>,
     l_kernels := \<lparr>acc_sum = toy_encode 6, acc_count = 1\<rparr>,
     l_supply := \<lparr>total_minted_darks = 1000, total_burned_darks = 0\<rparr>\<rparr>"

lemma toy_points: "compress toy w = toy_encode w" "decompress toy (toy_encode w) = Some w" "generator_g toy = 1"
  "generator_h toy = 3" "pt_mul toy a b = a * b"
  by (simp_all add: toy_def)

lemma toy_encode_inject: "toy_encode v = toy_encode w \<longleftrightarrow> v = w"
  using toy_decode_encode by (metis option.inject)

lemma toy_funded_ok: "ledger_ok toy toy_funded" "utxo_ok toy (l_utxos toy_funded)"
  by (simp_all add: ledger_ok_def toy_funded_def verify_supply_def verify_supply_invariant_iff utxo_commitment_sum_def
      utxo_ok_def acc_point_def commit_point_def circulating_def commit_public_value_def sat_sub_def params
      toy_points points_total_def bad_points_def)

lemma toy_funded_supply: "l_supply toy_funded = \<lparr>total_minted_darks = 1000, total_burned_darks = 0\<rparr>"
  by (simp add: toy_funded_def)

lemma toy_funded_get:
  "utxo_get (l_utxos toy_funded) c
    = (if c = toy_encode 1006 then Some \<lparr>e_output_pk = toy_encode 9, e_height = 0, e_is_coinbase = False\<rparr> else None)"
  by (simp add: toy_funded_def utxo_get_def)

text \<open>The blinding factors that outputs get are odd, and so are their commitments when the value is even.\<close>

lemma toy_commit_odd:
  assumes "create_output_with_features toy rb en to v memo ctx feat = Inr (o', sec)" "even v"
  shows "out_commit o' = toy_encode (v + ss_blind sec * 3)" "out_commit o' \<noteq> toy_encode 1006"
proof -
  show c: "out_commit o' = toy_encode (v + ss_blind sec * 3)"
    using create_output_wf [OF toy_group toy_encoding toy_range assms(1)]
    by (simp add: commitment_new_def pedersen_def toy_points)
  have "odd (ss_blind sec)" using assms(1) by (auto elim!: create_output_OkD simp: toy_blind_odd)
  then have "odd (v + ss_blind sec * 3)" using assms(2) by simp
  moreover have "even (1006 :: u64)" by simp
  ultimately show "out_commit o' \<noteq> toy_encode 1006" unfolding c toy_encode_inject by metis
qed

lemma toy_transfer_shape:
  obtains k co cs where "tx_inputs toy_transfer = [fst (build_input toy (dr_input toy_draws 0) toy_coin)]"
    "tx_outputs toy_transfer = [co]" "tx_kernels toy_transfer = [k]"
    "feature k = PlainKernel" "fee_darks k = 100" "lock_height k = 0" "reward_darks k = 0"
    "create_output_with_features toy (fst (dr_output toy_draws 0)) (snd (dr_output toy_draws 0)) (keys_address toy toy_keys)
       900 [] toy_ctx PlainOutput = Inr (co, cs)"
  using toy_transfer_eq
proof (rule build_transfer_with_OkD)
  fix needed outs b e co cs k_off so
  assume n: "checked_add (\<Sum>p \<leftarrow> []. pay_amount p) 100 = Some needed"
    and b: "build_outputs toy toy_draws toy_ctx 0 [] ([], 0, 0) = Inr (outs, b, e)"
    and c: "create_output toy (fst (dr_output toy_draws (length []))) (snd (dr_output toy_draws (length [])))
      (keys_address toy toy_keys) ((\<Sum>s \<leftarrow> [toy_coin]. sp_value s) - needed) [] toy_ctx = Inr (co, cs)"
    and t: "tx_inputs toy_transfer = map fst (build_inputs toy toy_draws 0 [toy_coin])" "tx_outputs toy_transfer = outs @ [co]"
      "tx_kernels toy_transfer = [attach_stealth toy (dr_stealth_sig toy_draws)
       ((\<Sum>x \<leftarrow> build_inputs toy toy_draws 0 [toy_coin]. snd x) - (e + ss_ephemeral cs) - so)
       (build_kernel toy (dr_kernel_sig toy_draws) PlainKernel 100 0 0
          (b + ss_blind cs - (\<Sum>s \<leftarrow> [toy_coin]. sp_blind s) - k_off))]"
  have "needed = 100" using n by (simp add: checked_add_def)
  then have "create_output toy (fst (dr_output toy_draws 0)) (snd (dr_output toy_draws 0))
      (keys_address toy toy_keys) 900 [] toy_ctx = Inr (co, cs)"
    using c by (simp add: toy_coin_value)
  then show thesis
    by (intro that [OF _ _ t(3)]) (use b t(1,2) in \<open>simp_all add: create_output_def attach_stealth_def build_kernel_def Let_def\<close>)
qed

lemma toy_transfer_acceptable: "check_tx_acceptable toy toy_funded toy_transfer h toy_ctx = Inr ()"
proof -
  obtain k co cs where t: "tx_inputs toy_transfer = [fst (build_input toy (dr_input toy_draws 0) toy_coin)]"
    "tx_outputs toy_transfer = [co]" "tx_kernels toy_transfer = [k]" "feature k = PlainKernel"
    and o': "create_output_with_features toy (fst (dr_output toy_draws 0)) (snd (dr_output toy_draws 0))
      (keys_address toy toy_keys) 900 [] toy_ctx PlainOutput = Inr (co, cs)"
    by (rule toy_transfer_shape)
  have v: "verify_stateless_rules toy toy_ctx b toy_transfer = Inr ()" for b
    by (rule build_transfer_balances [OF toy_group toy_encoding toy_range toy_transfer_eq _ _ _ _ toy_transfer_excess])
      (simp_all add: toy_coin_opens toy_coin_value params)
  let ?i = "fst (build_input toy (dr_input toy_draws 0) toy_coin)"
  have "compress toy (pt_mul toy (sp_secret toy_coin) (generator_g toy)) = toy_encode 9" "sp_commit toy_coin = toy_encode 1006"
    by (simp_all add: toy_coin_def toy_points commitment_new_def pedersen_def)
  then have "check_spend toy toy_funded h keys ?i = Inr ()" for keys
    using build_input_signatures [OF toy_group toy_encoding, of "dr_input toy_draws 0" toy_coin]
    by (simp add: check_spend_Inr_iff toy_funded_get is_mature_def)
  then show ?thesis
    using toy_commit_odd(2) [OF o']
    by (simp add: check_tx_acceptable_def is_coinbase_def t v Let_def utxo_contains_def toy_funded_get ensure_def)
qed

lemma toy_funded_assembled: "assembled toy toy_funded 1 toy_reward toy_ctx toy_coinbase [toy_transfer]"
proof -
  obtain k co cs where t: "tx_inputs toy_transfer = [fst (build_input toy (dr_input toy_draws 0) toy_coin)]"
    "tx_outputs toy_transfer = [co]" "tx_kernels toy_transfer = [k]" "fee_darks k = 100" "lock_height k = 0"
    and co: "create_output_with_features toy (fst (dr_output toy_draws 0)) (snd (dr_output toy_draws 0))
      (keys_address toy toy_keys) 900 [] toy_ctx PlainOutput = Inr (co, cs)"
    by (rule toy_transfer_shape)
  obtain k' where cb: "tx_kernels toy_coinbase = [k']" "fee_darks k' = 0"
    by (rule build_coinbase_fields [OF toy_coinbase_eq])
  obtain o' sec where o': "create_output_with_features toy (fst (dr_output toy_draws 0)) (snd (dr_output toy_draws 0))
      (keys_address toy toy_keys) toy_reward [] toy_ctx CoinbaseOutput = Inr (o', sec)" "tx_outputs toy_coinbase = [o']"
    using build_coinbase_OkD [OF toy_coinbase_eq] by (metis transaction.select_convs(3))
  have "ss_blind sec = ss_blind cs"
    using co o'(1) by (auto elim!: create_output_OkD)
  then have "out_commit o' \<noteq> out_commit co"
    using toy_commit_odd(1) [OF co] toy_commit_odd(1) [OF o'(1)] by (simp add: toy_reward_def toy_encode_inject)
  moreover have "utxo_get (l_utxos toy_funded) (out_commit o') = None"
    using toy_commit_odd(2) [OF o'(1)] by (simp add: toy_reward_def toy_funded_get)
  moreover have "checked_fee_sum [k', k] = Some 100"
    by (simp add: checked_fee_sum_Some_iff cb t(4) params)
  ultimately show ?thesis
    by (simp add: assembled_def t cb o'(2) toy_transfer_acceptable params)
qed

lemma toy_funded_fees: "wrapping_fees (concat (map tx_kernels [toy_transfer])) = 100"
proof -
  obtain k where "tx_kernels toy_transfer = [k]" "fee_darks k = 100" by (rule toy_transfer_shape)
  then show ?thesis by (simp add: wrapping_fees_def)
qed

definition toy_spending :: block_body where
  "toy_spending = body_at toy_funded 1 (aggregate toy [toy_coinbase, toy_transfer])"

lemma toy_spending_valid:
  obtains nk ns undo where "validate_block toy toy_funded toy_spending 1 toy_reward toy_ctx = Inr (nk, ns, undo)"
proof -
  have "\<exists>S'. apply_block toy toy_funded (aggregate toy [toy_coinbase, toy_transfer]) 1 toy_reward toy_ctx = (S', Inr ())"
    by (rule assembled_block_accepted [OF toy_group toy_encoding toy_range toy_funded_ok(1) _ toy_funded_assembled
        toy_coinbase_eq toy_excess_nonzero [OF toy_coinbase_eq] toy_funded_fees [symmetric]])
      (simp_all add: toy_funded_supply toy_reward_def would_exceed_cap_iff)
  then show ?thesis
    using that unfolding toy_spending_def by (blast elim: apply_block_OkD [OF toy_funded_ok(2)])
qed

lemma toy_spending_sums: "body_total_reward toy_spending = toy_reward" "body_total_fee toy_spending = 100"
  "map in_commit (b_inputs toy_spending) = [toy_encode 1006]"
proof -
  obtain k where t: "tx_inputs toy_transfer = [fst (build_input toy (dr_input toy_draws 0) toy_coin)]"
    "tx_kernels toy_transfer = [k]" "feature k = PlainKernel" "fee_darks k = 100" "reward_darks k = 0"
    by (rule toy_transfer_shape)
  obtain k' where cb: "tx_inputs toy_coinbase = []" "tx_kernels toy_coinbase = [k']" "fee_darks k' = 0" "reward_darks k' = toy_reward"
    by (rule build_coinbase_fields [OF toy_coinbase_eq])
  let ?A = "aggregate toy [toy_coinbase, toy_transfer]"
  have ks: "mset (b_kernels ?A) = mset [k', k]"
    using mset_kernels_aggregate [of toy "[toy_coinbase, toy_transfer]"] by (simp add: t cb)
  have "body_total_reward ?A = toy_reward" "body_total_fee ?A = 100"
    unfolding body_total_reward_def body_total_fee_def wrapping_mset [OF ks]
    by (simp_all add: t cb wrapping_fees_def wrapping_rewards_def)
  then show "body_total_reward toy_spending = toy_reward" "body_total_fee toy_spending = 100"
    by (simp_all add: toy_spending_def body_at_shaped)
  have "sp_commit toy_coin = toy_encode 1006"
    by (simp add: toy_coin_def toy_points commitment_new_def pedersen_def)
  then show "map in_commit (b_inputs toy_spending) = [toy_encode 1006]"
    by (simp add: toy_spending_def body_at_shaped aggregate_simps t cb)
qed

section \<open>A run of the parallel miner\<close>

lemma par_example:
  obtains s where "par_reach (\<lambda>_. replicate 32 0) 3 1 False 7 s"
    "p_slot s = Some (7, replicate 32 0)"
proof -
  let ?h = "\<lambda>_ :: u64. replicate 32 (0 :: u8)"
  have "le_nat (replicate n 0) = 0" for n by (induction n) simp_all
  then have m: "meets_difficulty (replicate 32 0) 3" by (simp add: meets_difficulty_iff be_nat_def)
  let ?w = "p_workers (par_init 7 1) ! 0"
  let ?s1 = "set_worker 0 (?w\<lparr>w_pc := Won (w_nonce ?w) (?h (w_nonce ?w))\<rparr>)
    ((par_init 7 1)\<lparr>p_found := True\<rparr>)"
  have 1: "par_step ?h 3 1 False (par_init 7 1) ?s1"
    by (rule par_win) (simp_all add: par_init_def m)
  let ?v = "p_workers ?s1 ! 0"
  let ?s2 = "set_worker 0 (?v\<lparr>w_pc := Returned\<rparr>) (?s1\<lparr>p_slot := Some (7, replicate 32 0)\<rparr>)"
  have 2: "par_step ?h 3 1 False ?s1 ?s2"
    by (rule par_record) (simp_all add: par_init_def set_worker_def)
  have "par_reach ?h 3 1 False 7 ?s2"
    unfolding par_reach_def using 1 2 by (meson converse_rtranclp_into_rtranclp rtranclp.rtrancl_refl)
  then show ?thesis by (rule that) simp
qed

end
