(* ===== verification/Example_Chain.thy ===== *)
theory Example_Chain
  imports Example Template_Facts
begin

text \<open>
  Concrete chains of the instance \<open>toy\<close>: the empty devnet chain, a chain with one header
  to fork from, and the block that extends each of them.
\<close>

definition toy_json :: "genesis_config \<Rightarrow> bytes option" where "toy_json = (\<lambda>_. Some [])"

definition toy_chain :: "u64 chain" where
  "toy_chain = \<lparr>network = Devnet, genesis = fair_launch Devnet,
     genesis_hash = genesis_commitment toy [], emission = locked_mainnet, ledger = toy_state,
     blocks = [], headers = [], first_height = 0, horizon = None, horizon_work = 0,
     total_work = 0, undos = []\<rparr>"

definition toy_header :: compact_header where
  "toy_header = \<lparr>c_height = 0, c_hash = [], c_prev_hash = genesis_commitment toy [],
     c_timestamp = 5, c_difficulty = min_difficulty Devnet\<rparr>"

definition toy_fork :: "u64 chain" where
  "toy_fork = toy_chain\<lparr>headers := [toy_header], total_work := compact_work toy_header,
     first_height := 1, horizon := Some toy_state, horizon_work := compact_work toy_header\<rparr>"

definition toy_miner :: address where "toy_miner = keys_address toy toy_keys"

definition toy_next :: "u64 chain \<Rightarrow> block" where
  "toy_next ch =
     (case build_template toy toy_draws ch toy_miner [] 1 of Inr t \<Rightarrow> seal t 0)"

definition toy_after :: "u64 chain \<Rightarrow> u64 chain" where
  "toy_after ch = fst (chain_apply_block toy ch (toy_next ch) 10)"

lemma toy_new: "new_fair toy toy_json Devnet = Inr toy_chain"
  by (simp add: new_fair_def toy_json_def toy_chain_def toy_state_def ok_or_def)

lemma toy_chain_ok [simp]: "chain_ok toy toy_chain"
  by (rule new_fair_ok(1) [OF toy_encoding toy_group toy_new])

lemma toy_core [simp]: "chain_core toy toy_chain"
  using toy_chain_ok by (simp only: chain_ok_def)

lemma toy_fork_core [simp]: "chain_core toy toy_fork"
proof -
  have "unat (compact_work toy_header) \<le> U128_MAX"
    using compact_work_bound [of toy_header] by (simp add: U128_MAX_def)
  then have w: "work_ok (compact_work toy_header) [toy_header]" by (simp add: work_ok_def)
  have "heights_ok [toy_header]" by (simp add: heights_ok_def toy_header_def)
  moreover have "links_ok (genesis_commitment toy []) [toy_header]" by (simp add: toy_header_def)
  moreover have "pins_ok [toy_header]"
    by (simp add: pins_ok_def toy_header_def checkpoint_at_def CHECKPOINTS_def)
  ultimately show ?thesis
    using toy_core w
    by (simp add: toy_fork_def chain_core_def toy_chain_def) (simp add: toy_header_def)
qed

lemma toy_fork_ok [simp]: "chain_ok toy toy_fork"
proof -
  have "bodies_ok toy toy_fork"
    by (simp add: bodies_ok_def toy_fork_def toy_chain_def base_state_def base_work_def)
  then show ?thesis by (simp add: chain_ok_def)
qed

lemma toy_fork_deep [simp]: "deep_ok toy toy_fork"
proof -
  have "undos toy_fork = []" "length (headers toy_fork) = 1"
    by (simp_all add: toy_fork_def toy_chain_def)
  then show ?thesis by (simp add: deep_ok_def)
qed

lemma toy_pow: "pow_is_valid toy b ps"
proof -
  have "argon2id toy p m s = replicate 32 0" for p m s by (simp add: toy_def)
  moreover have "meets_difficulty (replicate 32 0) d" for d
  proof -
    have "le_nat (replicate n 0) = 0" for n by (induction n) simp_all
    then have "be_nat (replicate 32 0) = 0" by (simp add: be_nat_def)
    then show ?thesis by (simp add: meets_difficulty_iff)
  qed
  ultimately show ?thesis by (simp add: pow_is_valid_def pow_hash_def nighthash_def)
qed

section \<open>The next block\<close>

definition toy_ready :: "u64 chain \<Rightarrow> bool" where
  "toy_ready ch \<longleftrightarrow> chain_core toy ch \<and> ledger ch = toy_state \<and> network ch = Devnet
     \<and> next_height ch \<in> {0, 1} \<and> chain_median_time_past ch \<le> 5"

lemma toy_chain_ready: "toy_ready toy_chain"
  by (simp add: toy_ready_def)
    (simp add: toy_chain_def next_height_def tip_height_def chain_median_time_past_def
      median_time_past_def)

lemma toy_fork_ready: "toy_ready toy_fork"
  by (simp add: toy_ready_def)
    (simp add: toy_fork_def toy_chain_def toy_header_def next_height_def tip_height_def
      chain_median_time_past_def median_time_past_def height_next_def sat_add_def checked_add_def params)

lemma toy_subsidy:
  assumes "toy_ready ch"
  shows "chain_subsidy ch (next_height ch) = 600000000"
proof -
  have "emission ch = locked_mainnet" "total_minted_darks (l_supply (ledger ch)) = 0"
    using assms by (simp_all add: toy_ready_def chain_core_def toy_state_def state_for_network_def
        genesis_state_def)
  moreover have "next_height ch = 0 \<or> next_height ch = 1" using assms by (simp add: toy_ready_def)
  ultimately show ?thesis
    by (auto simp: chain_subsidy_def reward_at_def theoretical_reward_at_def locked_mainnet_def
        params)
qed

lemma toy_template:
  assumes "toy_ready ch"
  shows "\<exists>t. build_template toy toy_draws ch toy_miner [] ts = Inr t"
proof -
  let ?h = "next_height ch"
  have l: "ledger ch = toy_state" and core: "chain_core toy ch"
    using assms by (simp_all add: toy_ready_def)
  note s = toy_subsidy [OF assms]
  have "fst (dr_output toy_draws 0) \<noteq> None" by (simp add: toy_draws_def)
  then obtain cb where cb: "build_coinbase toy toy_draws toy_miner 600000000 ?h (proof_ctx ch) = Inr cb"
    using toy_coinbase_made unfolding toy_miner_def by blast
  obtain k o' where f: "tx_inputs cb = []" "tx_outputs cb = [o']" "tx_kernels cb = [k]" "fee_darks k = 0"
    by (rule build_coinbase_fields [OF cb])
  have "checked_fee_sum [k] = Some 0" by (simp add: checked_fee_sum_Some_iff f(4))
  then have asm: "assembled toy (ledger ch) ?h (chain_subsidy ch ?h) (proof_ctx ch) cb []"
    by (simp add: assembled_def f params l toy_state_def state_for_network_def genesis_state_def
        utxo_new_def utxo_get_def)
  show ?thesis
  proof (rule template_builds [OF toy_group toy_encoding toy_range core _ asm refl refl])
    show "build_coinbase toy toy_draws toy_miner
        (if 0 < chain_subsidy ch ?h then chain_subsidy ch ?h
         else wrapping_fees (concat (map tx_kernels []))) ?h (proof_ctx ch) = Inr cb"
      by (simp add: s cb)
    show "commit_point toy (excess k) \<noteq> Some 0" if "k \<in> set (tx_kernels cb)" for k
      by (rule toy_excess_nonzero [OF cb that])
  qed (simp_all add: params l toy_state_def state_for_network_def genesis_state_def
      wrapping_fees_def)
qed

lemma toy_next_eq:
  assumes "toy_ready ch"
  obtains t where "build_template toy toy_draws ch toy_miner [] 1 = Inr t" "toy_next ch = seal t 0"
  using toy_template [OF assms, of 1] that by (auto simp: toy_next_def)

lemma toy_conditions:
  assumes "toy_ready ch" "build_template toy toy_draws ch toy_miner [] 1 = Inr t"
  shows "h_timestamp (t_header t) \<le> sat_add 10 MAX_FUTURE_DRIFT_SECS"
    and "checkpoint_at (next_height ch) = None" and "chain_median_time_past ch \<noteq> - 1"
proof -
  have m: "chain_median_time_past ch \<le> 5" using assms(1) by (simp add: toy_ready_def)
  show "checkpoint_at (next_height ch) = None"
    using assms(1) by (auto simp: toy_ready_def checkpoint_at_def CHECKPOINTS_def)
  have u: "unat (chain_median_time_past ch) \<le> 5" using m by (simp add: word_le_nat_alt)
  show "chain_median_time_past ch \<noteq> - 1"
  proof
    assume "chain_median_time_past ch = - 1"
    then have "unat (- 1 :: u64) \<le> 5" using u by simp
    then show False by (simp add: unsigned_minus_1_eq_mask mask_eq_exp_minus_1)
  qed
  have "h_timestamp (t_header t) = max 1 (sat_add (chain_median_time_past ch) 1)"
    using assms(2) by (auto elim!: build_template_InrD)
  moreover have "unat (sat_add (chain_median_time_past ch) 1) \<le> 6"
    using u by (simp add: unat_sat_add)
  moreover have "unat (sat_add 10 MAX_FUTURE_DRIFT_SECS) \<ge> 10"
    by (simp add: unat_sat_add params)
  ultimately show "h_timestamp (t_header t) \<le> sat_add 10 MAX_FUTURE_DRIFT_SECS"
    by (simp add: word_le_nat_alt max_def)
qed

lemma toy_accepted:
  assumes "toy_ready ch"
  shows "chain_apply_block toy ch (toy_next ch) 10 = (toy_after ch, Inr ())"
proof -
  obtain t where t: "build_template toy toy_draws ch toy_miner [] 1 = Inr t" "toy_next ch = seal t 0"
    by (rule toy_next_eq [OF assms])
  have core: "chain_core toy ch" using assms by (simp add: toy_ready_def)
  from template_accepted [OF toy_encoding toy_group core t(1) toy_pow toy_conditions [OF assms t(1)], of 0]
  show ?thesis by (auto simp: toy_after_def t(2))
qed

lemma toy_suffix:
  assumes "toy_ready ch"
  shows "apply_suffix toy ch [toy_next ch] 10 = Inr (toy_after ch)"
  using toy_accepted [OF assms] by (simp add: state_result_def)


section \<open>Facts about the two extensions\<close>

lemma toy_after_core:
  assumes "toy_ready ch"
  shows "chain_core toy (toy_after ch)"
  using assms toy_accepted [OF assms] apply_inner_core [OF _ toy_encoding toy_group]
  unfolding toy_ready_def chain_apply_block_def by blast

lemma toy_after_reachable: "reachable toy toy_json (toy_after toy_chain)"
proof (rule reachable.Extend [OF reachable.Start [OF toy_new]])
  show "apply_block_inner toy toy_chain (toy_next toy_chain) 10 True = (toy_after toy_chain, Inr ())"
    using toy_accepted [OF toy_chain_ready] by (simp add: chain_apply_block_def)
  obtain S' u where "toy_after toy_chain
      = applied toy toy_chain (shape_block toy_chain (toy_next toy_chain)) S' u"
    by (rule apply_inner_ledger [OF toy_core toy_encoding toy_group
          toy_accepted [OF toy_chain_ready, unfolded chain_apply_block_def]])
  then show "length (headers (toy_after toy_chain)) \<le> 2 ^ 64"
    by (simp add: toy_chain_def)
qed

lemma toy_fork_grows:
  "length (headers (toy_after toy_fork)) = 2"
  "total_work toy_fork < total_work (toy_after toy_fork)"
proof -
  have a: "apply_block_inner toy toy_fork (toy_next toy_fork) 10 True = (toy_after toy_fork, Inr ())"
    using toy_accepted [OF toy_fork_ready] by (simp add: chain_apply_block_def)
  obtain S' u where "toy_after toy_fork
      = applied toy toy_fork (shape_block toy_fork (toy_next toy_fork)) S' u"
    by (rule apply_inner_ledger [OF toy_fork_core toy_encoding toy_group a])
  then show l: "length (headers (toy_after toy_fork)) = 2" by (simp add: toy_fork_def)
  have "unat (total_work (toy_after toy_fork))
      = unat (total_work toy_fork) + unat (\<Sum>b \<leftarrow> [toy_next toy_fork]. blk_work b)"
    by (rule run_work(2) [OF toy_encoding toy_group toy_fork_core toy_suffix [OF toy_fork_ready]])
      (simp add: l)
  then show "total_work toy_fork < total_work (toy_after toy_fork)"
    by (simp add: word_less_nat_alt unat_blk_work)
qed

section \<open>A reorganisation\<close>

lemma toy_prune_fork: "prune_keep toy toy_fork 1 = (toy_fork, Inr 0)"
  by (simp add: prune_keep_def toy_fork_def toy_chain_def)

lemma toy_fork_tip: "tip_height toy_fork = Some 0"
  by (simp add: tip_height_def toy_fork_def toy_header_def)

lemma toy_fork_new: "new_fair toy toy_json (network toy_fork) = Inr toy_chain"
  using toy_new by (simp add: toy_fork_def) (simp add: toy_chain_def)

lemma toy_fork_sizes: "length (headers toy_fork) \<le> 2 ^ 64" "headers toy_fork \<noteq> []"
  "length (headers (toy_after toy_fork)) \<le> 2 ^ 64"
  by (simp_all add: toy_fork_grows(1)) (simp_all add: toy_fork_def)

lemma toy_splice:
  obtains t r ch' where "prepare_suffix_trial toy toy_json toy_fork 0 = Inr t"
    "finish_suffix toy t [toy_next toy_fork] 10 = Inr (Some r)"
    "splice_suffix toy toy_fork r = (ch', True)"
proof -
  have ours: "apply_suffix toy toy_fork [] 10 = Inr toy_fork" by simp
  show ?thesis
    by (rule splice_is_rebuild [OF toy_encoding toy_group toy_fork_core toy_fork_sizes(2) ours
          toy_suffix [OF toy_fork_ready] _ toy_fork_sizes(1,3) toy_fork_grows(2) toy_fork_new
          toy_fork_tip])
      (simp, rule that)
qed


section \<open>Refused blocks\<close>

definition toy_wrong :: block where
  "toy_wrong = \<lparr>blk_header = \<lparr>h_version = PROTOCOL_VERSION, h_height = 25000, h_prev_hash = [],
     h_utxo_root = [], h_kernel_sum = [], h_body_root = [], h_timestamp = 0, h_difficulty = 0,
     h_nonce = 0, h_reward = 0\<rparr>, blk_body = body_default\<rparr>"

lemma toy_wrong_refused: "apply_block_inner toy toy_chain toy_wrong now v = (toy_chain, Inl BadTxCount)"
  by (simp add: apply_block_inner_def check_block_def shape_block_def block_strip_binding_def
      toy_wrong_def body_default_def body_strip_binding_def)

lemma toy_wrong_hash: "last (hash_to_hex (block_hash toy toy_wrong)) = CHR ''0''"
proof -
  obtain bs where "block_hash toy toy_wrong = toy_hash bs"
    by (simp add: block_hash_def header_hash_def hash_multi_def) (simp add: toy_def)
  moreover have "replicate 24 (0 :: u8) = replicate 23 0 @ [0]" by (simp add: numeral_eq_Suc)
  ultimately have "block_hash toy toy_wrong
      = (u64_le (fold (\<lambda>b acc. acc + ucast b) bs 7) @ replicate 23 0) @ [0]"
    by (simp add: toy_hash_def)
  then show ?thesis
    by (simp add: hash_to_hex_def hex_encode_def hex_byte_def hex_digit_def)
qed

end
