(* ===== verification/Rust_Parse.thy ===== *)
theory Rust_Parse
  imports Rust_Text
begin

text \<open>
  More of Rust's \<open>str\<close>: splitting at the first or last occurrence of a pattern, searching,
  parsing unsigned integers and ASCII classes.  As in \<open>Rust_Text\<close>, a string is its bytes.
\<close>

section \<open>Splitting\<close>

text \<open>\<open>str::split_once\<close>: around the first occurrence of the pattern.\<close>

fun split_once :: "'a list \<Rightarrow> 'a list \<Rightarrow> ('a list \<times> 'a list) option" where
  "split_once p [] = (if p = [] then Some ([], []) else None)"
| "split_once p (c # cs) =
     (if prefix p (c # cs) then Some ([], drop (length p) (c # cs))
      else map_option (apfst ((#) c)) (split_once p cs))"

definition rsplit_once :: "'a list \<Rightarrow> 'a list \<Rightarrow> ('a list \<times> 'a list) option" where
  "rsplit_once p s = map_option (\<lambda>(a, b). (rev b, rev a)) (split_once (rev p) (rev s))"

definition contains :: "'a list \<Rightarrow> 'a list \<Rightarrow> bool" where
  "contains p s \<longleftrightarrow> split_once p s \<noteq> None"

lemma split_once_Some: "split_once p s = Some (a, b) \<Longrightarrow> s = a @ p @ b"
proof (induction s arbitrary: a)
  case (Cons c cs)
  show ?case
  proof (cases "prefix p (c # cs)")
    case True
    then have "c # cs = p @ drop (length p) (c # cs)"
      by (metis append_eq_conv_conj prefixE)
    with Cons.prems True show ?thesis by simp
  qed (use Cons in \<open>auto simp: apfst_def\<close>)
qed (auto split: if_splits)

lemma split_once_char: "c \<notin> set a \<Longrightarrow> split_once [c] (a @ c # b) = Some (a, b)"
  by (induction a) auto

lemma split_once_char_None: "split_once [c] s = None \<longleftrightarrow> c \<notin> set s"
  by (induction s) auto

lemma split_once_char_clean: "split_once [c] s = Some (a, b) \<Longrightarrow> c \<notin> set a"
proof (induction s arbitrary: a)
  case (Cons d s)
  then show ?case by (cases "d = c") auto
qed simp

lemma rsplit_once_char: "c \<notin> set b \<Longrightarrow> rsplit_once [c] (a @ c # b) = Some (a, b)"
  using split_once_char [of c "rev b" "rev a"] by (simp add: rsplit_once_def)

lemma rsplit_once_Some:
  assumes "rsplit_once p s = Some (a, b)"
  shows "s = a @ p @ b"
proof -
  from assms have "split_once (rev p) (rev s) = Some (rev b, rev a)"
    by (auto simp: rsplit_once_def)
  then have "rev s = rev b @ rev p @ rev a" by (rule split_once_Some)
  then have "rev (rev s) = rev (rev b @ rev p @ rev a)" by (rule arg_cong)
  then show ?thesis by simp
qed

lemma split_once_found: "split_once p (a @ p @ b) \<noteq> None"
proof (induction a)
  case Nil
  have "prefix p (p @ b)" by simp
  then show ?case by (cases "p @ b") auto
qed auto

lemma contains_iff: "contains p s \<longleftrightarrow> sublist p s"
proof
  assume "contains p s"
  then obtain a b where "split_once p s = Some (a, b)" by (auto simp: contains_def)
  then show "sublist p s" unfolding sublist_def using split_once_Some by blast
next
  assume "sublist p s"
  then show "contains p s"
    unfolding contains_def sublist_def using split_once_found by metis
qed

section \<open>Numbers\<close>

definition is_digit :: "char \<Rightarrow> bool" where
  "is_digit c \<longleftrightarrow> 48 \<le> (of_char c :: nat) \<and> (of_char c :: nat) \<le> 57"

definition digit_value :: "char \<Rightarrow> nat" where "digit_value c = of_char c - 48"

definition dec_value :: "string \<Rightarrow> nat option" where
  "dec_value s =
     try_fold (\<lambda>acc c. if is_digit c then Some (10 * acc + digit_value c) else None) 0 s"

text \<open>
  \<open>from_str\<close> of the unsigned type with \<open>w\<close> bits: one leading plus sign is allowed, the rest
  must be digits and at least one, and a value that does not fit is an error.
\<close>

definition parse_unsigned :: "nat \<Rightarrow> string \<Rightarrow> nat option" where
  "parse_unsigned w s =
     (let ds = (if s \<noteq> [] \<and> hd s = CHR ''+'' then tl s else s) in
      if ds = [] then None
      else (case dec_value ds of
              None \<Rightarrow> None
            | Some n \<Rightarrow> if n < 2 ^ w then Some n else None))"

lemma try_fold_append:
  "try_fold f a (xs @ ys) = (case try_fold f a xs of None \<Rightarrow> None | Some b \<Rightarrow> try_fold f b ys)"
  by (induction xs arbitrary: a) (auto split: option.split)

lemma digit_char: "d < 10 \<Longrightarrow> is_digit (char_of (48 + d :: nat)) \<and> digit_value (char_of (48 + d)) = d"
  by (simp add: is_digit_def digit_value_def)

lemma dec_string_digits: "c \<in> set (dec_string n) \<Longrightarrow> is_digit c"
proof (induction n rule: dec_string.induct)
  case (1 n)
  then show ?case
    using digit_char [of n] digit_char [of "n mod 10"]
    by (subst (asm) dec_string.simps) (auto split: if_splits)
qed

lemma dec_string_nonempty: "dec_string n \<noteq> []"
  by (subst dec_string.simps) simp

lemma dec_value_string: "dec_value (dec_string n) = Some n"
proof (induction n rule: dec_string.induct)
  case (1 n)
  show ?case
  proof (cases "n < 10")
    case True
    then show ?thesis
      using digit_char [of n] by (subst dec_string.simps) (simp add: dec_value_def)
  next
    case False
    then have "dec_string n = dec_string (n div 10) @ [char_of (48 + n mod 10)]"
      by (subst dec_string.simps) simp
    then show ?thesis
      using 1 [OF False] digit_char [of "n mod 10"]
      by (simp add: dec_value_def try_fold_append)
  qed
qed

lemma digit_not_plus: "is_digit c \<Longrightarrow> c \<noteq> CHR ''+''"
  by (auto simp: is_digit_def)

lemma parse_unsigned_string: "n < 2 ^ w \<Longrightarrow> parse_unsigned w (dec_string n) = Some n"
proof -
  have "hd (dec_string n) \<noteq> CHR ''+''"
    using dec_string_digits [of "hd (dec_string n)" n] dec_string_nonempty [of n] digit_not_plus
    by auto
  then show "n < 2 ^ w \<Longrightarrow> ?thesis"
    by (simp add: parse_unsigned_def dec_string_nonempty dec_value_string)
qed

lemma parse_unsigned_bound: "parse_unsigned w s = Some n \<Longrightarrow> n < 2 ^ w"
  by (auto simp: parse_unsigned_def Let_def split: if_splits option.splits)

lemma solid_digit: "is_digit c \<Longrightarrow> solid c"
  by (rule solid_ascii) (auto simp: is_digit_def)

section \<open>ASCII classes\<close>

definition is_ascii_lower :: "char \<Rightarrow> bool" where
  "is_ascii_lower c \<longleftrightarrow> 97 \<le> (of_char c :: nat) \<and> (of_char c :: nat) \<le> 122"

definition is_ascii_upper :: "char \<Rightarrow> bool" where
  "is_ascii_upper c \<longleftrightarrow> 65 \<le> (of_char c :: nat) \<and> (of_char c :: nat) \<le> 90"

definition is_ascii_alphanumeric :: "char \<Rightarrow> bool" where
  "is_ascii_alphanumeric c \<longleftrightarrow> is_digit c \<or> is_ascii_lower c \<or> is_ascii_upper c"

definition to_ascii_lowercase :: "string \<Rightarrow> string" where
  "to_ascii_lowercase s =
     map (\<lambda>c. if is_ascii_upper c then char_of ((of_char c :: nat) + 32) else c) s"

section \<open>Bytes and lines\<close>

text \<open>Bytes as the characters of a string.\<close>

definition text_of :: "bytes \<Rightarrow> string" where
  "text_of bs = map (\<lambda>b. char_of (unat b)) bs"

text \<open>
  The lines of \<open>BufRead::lines\<close> before they are checked to be UTF-8: each ends at a newline
  or at the end of the input, without its newline and a carriage return before it.
\<close>

definition strip_cr :: "bytes \<Rightarrow> bytes" where
  "strip_cr l = (if l \<noteq> [] \<and> last l = 13 then butlast l else l)"

fun raw_lines :: "bytes \<Rightarrow> bytes \<Rightarrow> bytes list" where
  "raw_lines acc [] = (if acc = [] then [] else [acc])"
| "raw_lines acc (b # bs) = (if b = 10 then strip_cr acc # raw_lines [] bs else raw_lines (acc @ [b]) bs)"

definition lines_of :: "bytes \<Rightarrow> bytes list" where "lines_of s = raw_lines [] s"

lemma raw_lines_line: "10 \<notin> set a \<Longrightarrow> raw_lines acc (a @ 10 # rest) = strip_cr (acc @ a) # raw_lines [] rest"
  by (induction a arbitrary: acc) auto

lemma lines_of_line:
  "10 \<notin> set a \<Longrightarrow> a \<noteq> [] \<Longrightarrow> last a \<noteq> 13 \<Longrightarrow> lines_of (a @ 10 # rest) = a # lines_of rest"
  by (simp add: lines_of_def raw_lines_line strip_cr_def)

lemma lines_of_Nil [simp]: "lines_of [] = []"
  by (simp add: lines_of_def)

end
