(* ===== verification/Rust_Net.thy ===== *)
theory Rust_Net
  imports Rust_Parse
begin

text \<open>
  \<open>std::net\<close> as the sources use it: IP addresses, their parser (\<open>core::net::parser\<close>, a
  recursive descent over the characters that leaves its input untouched when it fails), their
  classes and their textual form.
\<close>

type_synonym u16 = "16 word"

datatype ip_addr = V4 "u8 list" | V6 "u16 list"

record socket_addr =
  sa_ip :: ip_addr
  sa_port :: u16

section \<open>Parsing\<close>

type_synonym 'a parser = "string \<Rightarrow> ('a \<times> string) option"

text \<open>\<open>read_number\<close>: digits of the radix up to the first other character.\<close>

definition digit_of :: "nat \<Rightarrow> char \<Rightarrow> nat option" where
  "digit_of radix c =
     (case hex_value c of None \<Rightarrow> None | Some d \<Rightarrow> if d < radix then Some d else None)"

definition digits_value :: "nat \<Rightarrow> string \<Rightarrow> nat" where
  "digits_value radix ds = foldl (\<lambda>acc c. acc * radix + the (digit_of radix c)) 0 ds"

definition read_number ::
    "nat \<Rightarrow> nat option \<Rightarrow> bool \<Rightarrow> nat \<Rightarrow> nat parser" where
  "read_number radix max_digits zero_prefix bits s =
     (let ds = takeWhile (\<lambda>c. digit_of radix c \<noteq> None) s in
      if ds = [] \<or> (case max_digits of None \<Rightarrow> False | Some m \<Rightarrow> m < length ds)
        \<or> 2 ^ bits \<le> digits_value radix ds
        \<or> (\<not> zero_prefix \<and> hd ds = CHR ''0'' \<and> 1 < length ds)
      then None
      else Some (digits_value radix ds, drop (length ds) s))"

definition read_char :: "char \<Rightarrow> unit parser" where
  "read_char c s = (case s of [] \<Rightarrow> None | d # ds \<Rightarrow> if d = c then Some ((), ds) else None)"

definition read_separated :: "char \<Rightarrow> nat \<Rightarrow> 'a parser \<Rightarrow> 'a parser" where
  "read_separated sep index inner s =
     (if 0 < index then (case read_char sep s of None \<Rightarrow> None | Some (_, s') \<Rightarrow> inner s')
      else inner s)"

fun read_octets :: "nat \<Rightarrow> nat \<Rightarrow> u8 list parser" where
  "read_octets i 0 s = Some ([], s)"
| "read_octets i (Suc n) s =
     (case read_separated CHR ''.'' i (read_number 10 (Some 3) False 8) s of
        None \<Rightarrow> None
      | Some (v, s') \<Rightarrow>
          (case read_octets (i + 1) n s' of
             None \<Rightarrow> None
           | Some (vs, s'') \<Rightarrow> Some (of_nat v # vs, s'')))"

definition read_ipv4 :: "u8 list parser" where "read_ipv4 = read_octets 0 4"

definition pair_group :: "u8 \<Rightarrow> u8 \<Rightarrow> u16" where
  "pair_group a b = ucast a * 256 + ucast b"

text \<open>
  \<open>read_groups\<close> with room for \<open>limit\<close> groups, \<open>i\<close> of them read: the groups and whether they
  end in an embedded IPv4 address.
\<close>

function read_groups :: "nat \<Rightarrow> nat \<Rightarrow> string \<Rightarrow> (u16 list \<times> bool) \<times> string" where
  "read_groups limit i s =
     (if limit \<le> i then (([], False), s)
      else
        (case (if i + 1 < limit then read_separated CHR '':'' i read_ipv4 s else None) of
           Some (os, s') \<Rightarrow>
             (([pair_group (os ! 0) (os ! 1), pair_group (os ! 2) (os ! 3)], True), s')
         | None \<Rightarrow>
             (case read_separated CHR '':'' i (read_number 16 (Some 4) True 16) s of
                None \<Rightarrow> (([], False), s)
              | Some (g, s') \<Rightarrow>
                  (case read_groups limit (i + 1) s' of
                     ((gs, v4), s'') \<Rightarrow> ((of_nat g # gs, v4), s'')))))"
  by pat_completeness auto
termination by (relation "measure (\<lambda>(limit, i, _). limit - i)") auto

declare read_groups.simps [simp del]

definition read_ipv6 :: "u16 list parser" where
  "read_ipv6 s =
     (case read_groups 8 0 s of ((front, v4), s1) \<Rightarrow>
        if length front = 8 then Some (front, s1)
        else if v4 then None
        else
          (case read_char CHR '':'' s1 of None \<Rightarrow> None | Some (_, s2) \<Rightarrow>
           (case read_char CHR '':'' s2 of None \<Rightarrow> None | Some (_, s3) \<Rightarrow>
            (case read_groups (8 - (length front + 1)) 0 s3 of ((back, _), s4) \<Rightarrow>
               Some (front @ replicate (8 - length front - length back) 0 @ back, s4)))))"

definition whole :: "'a parser \<Rightarrow> string \<Rightarrow> 'a option" where
  "whole p s = (case p s of Some (x, []) \<Rightarrow> Some x | _ \<Rightarrow> None)"

definition parse_ipv4 :: "string \<Rightarrow> u8 list option" where
  "parse_ipv4 s = (if 15 < length s then None else whole read_ipv4 s)"

definition parse_ipv6 :: "string \<Rightarrow> u16 list option" where
  "parse_ipv6 s = whole read_ipv6 s"

definition read_port :: "u16 parser" where
  "read_port s =
     (case read_char CHR '':'' s of
        None \<Rightarrow> None
      | Some (_, s') \<Rightarrow>
          (case read_number 10 None True 16 s' of
             None \<Rightarrow> None
           | Some (n, s'') \<Rightarrow> Some (of_nat n, s'')))"

text \<open>An optional scope identifier, then the closing bracket.\<close>

definition read_scope :: "unit parser" where
  "read_scope s =
     (case read_char CHR ''%'' s of
        None \<Rightarrow> Some ((), s)
      | Some (_, s') \<Rightarrow>
          (case read_number 10 None True 32 s' of
             None \<Rightarrow> Some ((), s)
           | Some (_, s'') \<Rightarrow> Some ((), s'')))"

definition read_socket_v4 :: "socket_addr parser" where
  "read_socket_v4 s =
     (case read_ipv4 s of None \<Rightarrow> None | Some (ip, s1) \<Rightarrow>
      (case read_port s1 of None \<Rightarrow> None | Some (p, s2) \<Rightarrow>
         Some (\<lparr>sa_ip = V4 ip, sa_port = p\<rparr>, s2)))"

definition read_socket_v6 :: "socket_addr parser" where
  "read_socket_v6 s =
     (case read_char CHR ''['' s of None \<Rightarrow> None | Some (_, s1) \<Rightarrow>
      (case read_ipv6 s1 of None \<Rightarrow> None | Some (ip, s2) \<Rightarrow>
      (case read_scope s2 of None \<Rightarrow> None | Some (_, s3) \<Rightarrow>
      (case read_char CHR '']'' s3 of None \<Rightarrow> None | Some (_, s4) \<Rightarrow>
      (case read_port s4 of None \<Rightarrow> None | Some (p, s5) \<Rightarrow>
         Some (\<lparr>sa_ip = V6 ip, sa_port = p\<rparr>, s5))))))"

definition parse_socket_addr :: "string \<Rightarrow> socket_addr option" where
  "parse_socket_addr s =
     whole (\<lambda>s. case read_socket_v4 s of Some r \<Rightarrow> Some r | None \<Rightarrow> read_socket_v6 s) s"

section \<open>Classes\<close>

fun is_unspecified :: "ip_addr \<Rightarrow> bool" where
  "is_unspecified (V4 os) \<longleftrightarrow> os = [0, 0, 0, 0]"
| "is_unspecified (V6 gs) \<longleftrightarrow> gs = [0, 0, 0, 0, 0, 0, 0, 0]"

fun is_loopback :: "ip_addr \<Rightarrow> bool" where
  "is_loopback (V4 os) \<longleftrightarrow> os ! 0 = 127"
| "is_loopback (V6 gs) \<longleftrightarrow> gs = [0, 0, 0, 0, 0, 0, 0, 1]"

fun is_multicast :: "ip_addr \<Rightarrow> bool" where
  "is_multicast (V4 os) \<longleftrightarrow> 224 \<le> os ! 0 \<and> os ! 0 \<le> 239"
| "is_multicast (V6 gs) \<longleftrightarrow> drop_bit 8 (gs ! 0) = 0xFF"

definition is_private :: "u8 list \<Rightarrow> bool" where
  "is_private os \<longleftrightarrow> os ! 0 = 10 \<or> (os ! 0 = 172 \<and> 16 \<le> os ! 1 \<and> os ! 1 \<le> 31)
     \<or> (os ! 0 = 192 \<and> os ! 1 = 168)"

definition is_link_local :: "u8 list \<Rightarrow> bool" where
  "is_link_local os \<longleftrightarrow> os ! 0 = 169 \<and> os ! 1 = 254"

definition is_broadcast :: "u8 list \<Rightarrow> bool" where
  "is_broadcast os \<longleftrightarrow> os = [255, 255, 255, 255]"

definition is_documentation :: "u8 list \<Rightarrow> bool" where
  "is_documentation os \<longleftrightarrow> take 3 os = [192, 0, 2] \<or> take 3 os = [198, 51, 100]
     \<or> take 3 os = [203, 0, 113]"

section \<open>Display\<close>

fun join :: "string \<Rightarrow> string list \<Rightarrow> string" where
  "join sep [] = []"
| "join sep [s] = s"
| "join sep (s # t # ts) = s @ sep @ join sep (t # ts)"

definition show_ipv4 :: "u8 list \<Rightarrow> string" where
  "show_ipv4 os = join ''.'' (map (\<lambda>b. dec_string (unat b)) os)"

fun hex_string :: "nat \<Rightarrow> string" where
  "hex_string n =
     (if n < 16 then [hex_digit n] else hex_string (n div 16) @ [hex_digit (n mod 16)])"

declare hex_string.simps [simp del]

definition show_groups :: "u16 list \<Rightarrow> string" where
  "show_groups gs = join '':'' (map (\<lambda>g. hex_string (unat g)) gs)"

text \<open>The first of the longest runs of zero groups: its start and length.\<close>

fun longest_zeros :: "nat \<Rightarrow> nat \<times> nat \<Rightarrow> nat \<times> nat \<Rightarrow> u16 list \<Rightarrow> nat \<times> nat" where
  "longest_zeros i longest current [] = longest"
| "longest_zeros i longest (st, n) (g # gs) =
     (if g = 0 then
        (let current = (if n = 0 then (i, 1) else (st, n + 1)) in
         longest_zeros (i + 1) (if snd longest < snd current then current else longest) current gs)
      else longest_zeros (i + 1) longest (0, 0) gs)"

definition show_ipv6 :: "u16 list \<Rightarrow> string" where
  "show_ipv6 gs =
     (if take 6 gs = [0, 0, 0, 0, 0, 0xFFFF] then
        ''::ffff:'' @ show_ipv4 [ucast (drop_bit 8 (gs ! 6)), ucast (gs ! 6),
                                ucast (drop_bit 8 (gs ! 7)), ucast (gs ! 7)]
      else
        (case longest_zeros 0 (0, 0) (0, 0) gs of (st, n) \<Rightarrow>
           if 1 < n then show_groups (take st gs) @ ''::'' @ show_groups (drop (st + n) gs)
           else show_groups gs))"

end
