(* ===== verification/Socks.thy ===== *)
theory Socks
  imports Rust_Net Prelude
begin

text \<open>
  \<open>crates/nightfall-p2p/src/socks.rs\<close>: dial targets and the SOCKS5 client.  A connection is
  what the other side is going to send and what was sent to it; \<open>read_exact\<close> fails when the
  stream ends early, having consumed what was there.
\<close>

section \<open>Connections\<close>

datatype io_kind =
    UnexpectedEof | InvalidData | InvalidInput | PermissionDenied | AddrNotAvailable
  | OtherKind

record io_error =
  io_kind :: io_kind
  io_text :: string

definition io_err :: "io_kind \<Rightarrow> string \<Rightarrow> io_error" where
  "io_err k s = \<lparr>io_kind = k, io_text = s\<rparr>"

record conn =
  c_in :: bytes
  c_out :: bytes

type_synonym 'a io = "(conn, io_error, 'a) sr"

definition write_all :: "bytes \<Rightarrow> unit io" where
  "write_all bs c = (c\<lparr>c_out := c_out c @ bs\<rparr>, Inr ())"

definition read_exact :: "nat \<Rightarrow> bytes io" where
  "read_exact n c =
     (if length (c_in c) < n
      then (c\<lparr>c_in := []\<rparr>, Inl (io_err UnexpectedEof ''failed to fill whole buffer''))
      else (c\<lparr>c_in := drop n (c_in c)\<rparr>, Inr (take n (c_in c))))"

section \<open>Dial targets\<close>

definition port_ok :: "string \<Rightarrow> bool" where
  "port_ok p = (case parse_unsigned 16 p of None \<Rightarrow> False | Some n \<Rightarrow> 0 < n)"

definition looks_like_dial_target :: "string \<Rightarrow> bool" where
  "looks_like_dial_target addr =
     (let a = trim addr in
      if a = [] \<or> prefix '':'' a then False
      else if prefix ''['' a then
        (case split_once '']:'' (tl a) of
           None \<Rightarrow> False
         | Some (host, port) \<Rightarrow> host \<noteq> [] \<and> port_ok port)
      else
        (case rsplit_once '':'' a of
           Some (host, port) \<Rightarrow> host \<noteq> [] \<and> port_ok port
         | None \<Rightarrow> False))"

definition port_of :: "string \<Rightarrow> string \<Rightarrow> io_error + string \<times> u16" where
  "port_of host p =
     (case parse_unsigned 16 p of
        None \<Rightarrow> Inl (io_err InvalidInput ''bad port'')
      | Some n \<Rightarrow> if n = 0 then Inl (io_err InvalidInput ''port must be non-zero'')
                 else Inr (host, of_nat n))"

definition split_host_port :: "string \<Rightarrow> io_error + string \<times> u16" where
  "split_host_port addr =
     (let a = trim addr in
      if prefix ''['' a then
        (case split_once '']:'' (tl a) of
           None \<Rightarrow> Inl (io_err InvalidInput ''bad IPv6 dial target'')
         | Some (host, p) \<Rightarrow> port_of host p)
      else
        (case split_once '':'' a of
           Some (host, p) \<Rightarrow>
             if host = [] then Inl (io_err InvalidInput ''dial target must be host:port'')
             else port_of host p
         | None \<Rightarrow> Inl (io_err InvalidInput ''dial target must be host:port'')))"

definition strip_scheme :: "string \<Rightarrow> string" where
  "strip_scheme s =
     (case List.find (\<lambda>p. prefix p s) [''socks5h://'', ''socks5://'', ''socks://''] of
        None \<Rightarrow> s
      | Some p \<Rightarrow> drop (length p) s)"

definition proxy_parse :: "string \<Rightarrow> io_error + string" where
  "proxy_parse s =
     (let a = trim (strip_scheme (trim s)) in
      if looks_like_dial_target a then Inr a
      else Inl (io_err InvalidInput
                  ''proxy must be host:port (Tor default is 127.0.0.1:9050)''))"

section \<open>The handshake\<close>

definition be_u16 :: "u16 \<Rightarrow> bytes" where
  "be_u16 w = [ucast (drop_bit 8 w), ucast w]"

definition socks_address :: "string \<Rightarrow> io_error + bytes" where
  "socks_address host =
     (case parse_ipv4 host of
        Some os \<Rightarrow> Inr (0x01 # os)
      | None \<Rightarrow>
          (case parse_ipv6 host of
             Some gs \<Rightarrow> Inr (0x04 # concat (map be_u16 gs))
           | None \<Rightarrow>
               if 255 < length host
               then Inl (io_err InvalidInput ''hostname too long for SOCKS5'')
               else Inr (0x03 # of_nat (length host) # str_bytes host)))"

definition consume_bind_addr :: "u8 \<Rightarrow> unit io" where
  "consume_bind_addr atyp =
     (if atyp = 0x01 then sr_bind (read_exact 6) (\<lambda>_. sr_return ())
      else if atyp = 0x04 then sr_bind (read_exact 18) (\<lambda>_. sr_return ())
      else if atyp = 0x03 then
        sr_bind (read_exact 1) (\<lambda>len.
        sr_bind (read_exact (unat (len ! 0) + 2)) (\<lambda>_. sr_return ()))
      else sr_fail (io_err InvalidData ''unknown SOCKS5 address type''))"

definition socks5_connect :: "string \<Rightarrow> unit io" where
  "socks5_connect dest =
     sr_bind (write_all [0x05, 0x01, 0x00]) (\<lambda>_.
     sr_bind (read_exact 2) (\<lambda>greet.
     sr_bind (sr_require (greet ! 0 = 0x05 \<and> greet ! 1 = 0x00)
       (io_err InvalidData ''SOCKS5 proxy refused unauthenticated CONNECT'')) (\<lambda>_.
     sr_bind (sr_lift (split_host_port dest)) (\<lambda>(host, port).
     sr_bind (sr_lift (socks_address host)) (\<lambda>address.
     sr_bind (write_all ([0x05, 0x01, 0x00] @ address @ be_u16 port)) (\<lambda>_.
     sr_bind (read_exact 4) (\<lambda>head.
     sr_bind (sr_require (head ! 0 = 0x05) (io_err InvalidData ''not a SOCKS5 reply'')) (\<lambda>_.
     sr_bind (sr_require (head ! 2 = 0x00)
       (io_err InvalidData ''SOCKS5 reply has a nonzero reserved byte'')) (\<lambda>_.
     sr_bind (sr_require (head ! 1 = 0x00)
       (io_err OtherKind (''SOCKS5 CONNECT failed (code '' @ dec_string (unat (head ! 1)) @ '')'')))
       (\<lambda>_. consume_bind_addr (head ! 3)))))))))))"

section \<open>What a successful handshake exchanged\<close>

lemma io_write_step: "sr_bind (write_all bs) f c = f () (c\<lparr>c_out := c_out c @ bs\<rparr>)"
  by (simp add: sr_bind_def write_all_def)

lemma io_read_step:
  "sr_bind (read_exact n) f c = (d, Inr z) \<longleftrightarrow>
     (\<exists>x rest. length x = n \<and> c_in c = x @ rest \<and> f x (c\<lparr>c_in := rest\<rparr>) = (d, Inr z))"
proof (cases "length (c_in c) < n")
  case True
  then show ?thesis by (auto simp: sr_bind_def read_exact_def)
next
  case False
  then have "sr_bind (read_exact n) f c = f (take n (c_in c)) (c\<lparr>c_in := drop n (c_in c)\<rparr>)"
    by (simp add: sr_bind_def read_exact_def)
  moreover have "length x = n \<and> c_in c = x @ rest \<longleftrightarrow>
      x = take n (c_in c) \<and> rest = drop n (c_in c)" for x rest
    using False by auto
  ultimately show ?thesis by auto
qed

lemma io_read_bytes:
  "sr_bind (read_exact (Suc 0)) f c = (d, Inr z) \<longleftrightarrow>
     (\<exists>b rest. c_in c = b # rest \<and> f [b] (c\<lparr>c_in := rest\<rparr>) = (d, Inr z))"
  "sr_bind (read_exact 2) f c = (d, Inr z) \<longleftrightarrow>
     (\<exists>a b rest. c_in c = a # b # rest \<and> f [a, b] (c\<lparr>c_in := rest\<rparr>) = (d, Inr z))"
  "sr_bind (read_exact 4) f c = (d, Inr z) \<longleftrightarrow>
     (\<exists>w x y v rest. c_in c = w # x # y # v # rest
        \<and> f [w, x, y, v] (c\<lparr>c_in := rest\<rparr>) = (d, Inr z))"
  by (auto simp: sr_bind_def read_exact_def not_less Suc_le_length_iff numeral_eq_Suc
      neq_Nil_conv)

lemmas io_steps = sr_steps io_write_step

definition bind_reply :: "u8 \<Rightarrow> bytes \<Rightarrow> bool" where
  "bind_reply atyp bs \<longleftrightarrow> (atyp = 0x01 \<and> length bs = 6) \<or> (atyp = 0x04 \<and> length bs = 18)
     \<or> (atyp = 0x03 \<and> (\<exists>n rest. bs = [n] @ rest \<and> length rest = unat n + 2))"

lemma consume_bind_success:
  "consume_bind_addr atyp c = (d, Inr x) \<longleftrightarrow>
     (\<exists>bs rest. bind_reply atyp bs \<and> c_in c = bs @ rest \<and> d = c\<lparr>c_in := rest\<rparr>)"
proof (cases "atyp = 3")
  case True
  have "consume_bind_addr 3 c = (d, Inr x) \<longleftrightarrow>
      (\<exists>n xs rest. c_in c = n # xs @ rest \<and> length xs = unat n + 2 \<and> d = c\<lparr>c_in := rest\<rparr>)"
    unfolding consume_bind_addr_def
    by (simp add: io_read_bytes(1)) (auto simp: io_steps io_read_step)
  also have "\<dots> \<longleftrightarrow> (\<exists>bs rest. bind_reply 3 bs \<and> c_in c = bs @ rest \<and> d = c\<lparr>c_in := rest\<rparr>)"
    by (fastforce simp: bind_reply_def)
  finally show ?thesis by (simp only: True)
qed (auto simp: consume_bind_addr_def bind_reply_def io_steps io_read_step)

text \<open>
  The exchange of a successful connect: both sides sent exactly the messages of the protocol,
  and nothing behind the reply was taken from the stream.
\<close>

lemma socks5_success:
  "socks5_connect dest c = (d, Inr ()) \<longleftrightarrow>
     (\<exists>host port address atyp bs rest.
        split_host_port dest = Inr (host, port) \<and> socks_address host = Inr address
      \<and> bind_reply atyp bs \<and> c_in c = [5, 0, 5, 0, 0, atyp] @ bs @ rest
      \<and> d = \<lparr>c_in = rest, c_out = c_out c @ [5, 1, 0] @ [5, 1, 0] @ address @ be_u16 port\<rparr>)"
  unfolding socks5_connect_def
  by (auto simp: io_steps io_read_bytes consume_bind_success) (force | metis)+

end
