(* ===== verification/Peer_Address.thy ===== *)
theory Peer_Address
  imports Socks Types
begin

text \<open>
  \<open>crates/nightfall-p2p/src/lib.rs\<close>, the address policy: which addresses are dialled, which
  are handed to strangers, and how a connection is made under the privacy lockdown.
\<close>

section \<open>Addresses\<close>

definition dialable_addr :: "string \<Rightarrow> u16 \<Rightarrow> string option" where
  "dialable_addr observed advertised_port =
     (if advertised_port = 0 then None
      else
        (case parse_socket_addr observed of
           None \<Rightarrow> None
         | Some sock \<Rightarrow>
             if is_unspecified (sa_ip sock) \<or> is_multicast (sa_ip sock) then None
             else
               Some
                 (case sa_ip sock of
                    V4 os \<Rightarrow> show_ipv4 os @ '':'' @ dec_string (unat advertised_port)
                  | V6 gs \<Rightarrow> ''['' @ show_ipv6 gs @ '']:'' @ dec_string (unat advertised_port))))"

definition is_unique_local_v6 :: "u16 list \<Rightarrow> bool" where
  "is_unique_local_v6 gs \<longleftrightarrow> and (ucast (drop_bit 8 (gs ! 0)) :: u8) 0xFE = 0xFC"

fun ip_is_globally_reachable :: "ip_addr \<Rightarrow> bool" where
  "ip_is_globally_reachable (V4 os) \<longleftrightarrow>
     \<not> is_unspecified (V4 os) \<and> \<not> is_loopback (V4 os) \<and> \<not> is_private os \<and> \<not> is_link_local os
     \<and> \<not> is_broadcast os \<and> \<not> is_multicast (V4 os) \<and> \<not> is_documentation os
     \<and> (os ! 0 \<noteq> 100 \<or> and (os ! 1) 0xC0 \<noteq> 0x40)"
| "ip_is_globally_reachable (V6 gs) \<longleftrightarrow>
     \<not> is_unspecified (V6 gs) \<and> \<not> is_loopback (V6 gs) \<and> \<not> is_multicast (V6 gs)
     \<and> \<not> is_unique_local_v6 gs"

definition is_directory_addr :: "string \<Rightarrow> bool" where
  "is_directory_addr address =
     (let addr = trim address in
      if addr = [] \<or> \<not> looks_like_dial_target addr then False
      else if contains ''.onion'' addr then False
      else
        (case parse_socket_addr addr of
           Some sock \<Rightarrow> ip_is_globally_reachable (sa_ip sock) \<and> sa_port sock \<noteq> 0
         | None \<Rightarrow>
             if prefix ''['' addr then
               (case split_once '']:'' (tl addr) of
                  None \<Rightarrow> False
                | Some (host, _) \<Rightarrow>
                    (case parse_ipv6 host of
                       Some ip \<Rightarrow> ip_is_globally_reachable (V6 ip)
                     | None \<Rightarrow> False))
             else
               (case rsplit_once '':'' addr of
                  None \<Rightarrow> False
                | Some (host, _) \<Rightarrow>
                    (case parse_ipv4 host of
                       Some ip \<Rightarrow> ip_is_globally_reachable (V4 ip)
                     | None \<Rightarrow>
                         host \<noteq> [] \<and> CHR ''.'' \<in> set host
                         \<and> (\<forall>c \<in> set host. is_ascii_alphanumeric c \<or> c = CHR ''.''
                              \<or> c = CHR ''-'')))))"

fun network_magic :: "network_id \<Rightarrow> bytes" where
  "network_magic Mainnet = str_bytes ''NFL2''"
| "network_magic Testnet = str_bytes ''NFT2''"
| "network_magic Devnet = str_bytes ''NFD2''"

definition default_listen_addr :: "network_id \<Rightarrow> string" where
  "default_listen_addr n = ''0.0.0.0:'' @ dec_string (unat (default_p2p_port n))"

section \<open>Outbound connections\<close>

text \<open>The flag's raw value is absent or a string.\<close>

definition privacy_flag_enabled :: "string option \<Rightarrow> bool" where
  "privacy_flag_enabled raw =
     (case raw of
        None \<Rightarrow> False
      | Some v \<Rightarrow>
          v \<noteq> [] \<and> to_ascii_lowercase (trim v) \<notin> {''0'', ''false'', ''off''})"

text \<open>
  \<open>via p\<close> is what connecting through the proxy \<open>p\<close> gives and \<open>direct\<close> what a direct
  connection gives; the flag of the result says whether the proxy was used.
\<close>

definition connect_peer_via_policy ::
    "('proxy \<Rightarrow> io_error + 'stream) \<Rightarrow> (io_error + 'stream) \<Rightarrow> string \<Rightarrow> 'proxy option \<Rightarrow> bool
       \<Rightarrow> io_error + 'stream \<times> bool" where
  "connect_peer_via_policy via direct addr proxy require_proxy =
     (if require_proxy \<and> proxy = None
      then Inl (io_err PermissionDenied ''outbound P2P requires SOCKS5; no proxy configured'')
      else
        (let onion = contains ''.onion'' addr;
             fallback =
               (if onion
                then Inl (io_err AddrNotAvailable ''onion destinations require SOCKS5'')
                else res_bind direct (\<lambda>s. Inr (s, False)))
         in case proxy of
              None \<Rightarrow> fallback
            | Some p \<Rightarrow>
                (case via p of
                   Inr s \<Rightarrow> Inr (s, True)
                 | Inl e \<Rightarrow> if onion \<or> require_proxy then Inl e else fallback)))"

section \<open>Lemmas\<close>

text \<open>Under lockdown, and for onion names always, a connection goes through the proxy or fails.\<close>

lemma no_clearnet_leak:
  assumes "connect_peer_via_policy via direct addr proxy lockdown = Inr (s, used)"
    and "lockdown \<or> contains ''.onion'' addr"
  obtains p where "proxy = Some p" "via p = Inr s" "used"
  using assms
  by (auto simp: connect_peer_via_policy_def Let_def split: if_splits option.splits sum.splits)

text \<open>Whether a direct connection would work is not even looked at there.\<close>

lemma direct_not_consulted:
  assumes "lockdown \<or> contains ''.onion'' addr"
  shows "connect_peer_via_policy via d addr proxy lockdown
    = connect_peer_via_policy via d' addr proxy lockdown"
  using assms
  by (auto simp: connect_peer_via_policy_def Let_def split: option.splits sum.splits)

lemma read_number_bound:
  "read_number radix m z bits s = Some (v, s') \<Longrightarrow> v < 2 ^ bits \<and> (\<exists>ds. s = ds @ s')"
  by (auto simp: read_number_def Let_def split: if_splits)
    (metis append_take_drop_id length_takeWhile_le takeWhile_eq_take)+

lemma directory_addr_literal:
  assumes "is_directory_addr addr" "parse_socket_addr (trim addr) = Some sock"
  shows "ip_is_globally_reachable (sa_ip sock)" "sa_port sock \<noteq> 0"
  using assms by (auto simp: is_directory_addr_def Let_def split: if_splits)

text \<open>
  The last branch takes for a name everything that is no complete IP literal: short forms of
  IPv4 addresses, which resolvers expand to \<open>127.0.0.1\<close>, and names with empty labels.
\<close>

lemma directory_takes_names:
  assumes "trim a = a" "looks_like_dial_target a" "\<not> contains ''.onion'' a"
    "parse_socket_addr a = None" "\<not> prefix ''['' a" "rsplit_once '':'' a = Some (host, p)"
    "parse_ipv4 host = None" "CHR ''.'' \<in> set host"
    "\<forall>c \<in> set host. is_ascii_alphanumeric c \<or> c = CHR ''.'' \<or> c = CHR ''-''"
  shows "is_directory_addr a"
proof -
  have "a \<noteq> []" using assms(2) by (auto simp: looks_like_dial_target_def assms(1))
  then show ?thesis using assms by (auto simp: is_directory_addr_def Let_def)
qed

lemmas parse_unfold = parse_socket_addr_def whole_def read_socket_v4_def read_socket_v6_def
  read_ipv4_def parse_ipv4_def read_separated_def read_number_def Let_def digits_value_def
  read_char_def digit_of_def hex_value_def

lemma directory_accepts_short_ipv4: "is_directory_addr ''127.1:17891''"
proof (rule directory_takes_names)
  show t: "trim ''127.1:17891'' = ''127.1:17891''" by (rule trim_solid) (simp add: solid_ascii)
  show r: "rsplit_once '':'' ''127.1:17891'' = Some (''127.1'', ''17891'')"
    by (simp add: rsplit_once_def)
  show "looks_like_dial_target ''127.1:17891''"
    by (simp add: looks_like_dial_target_def Let_def t rsplit_once_def port_ok_def
        parse_unsigned_def dec_value_def is_digit_def digit_value_def)
  show "parse_socket_addr ''127.1:17891'' = None"
    by (simp add: parse_unfold numeral_eq_Suc)
  show "parse_ipv4 ''127.1'' = None"
    by (simp add: parse_unfold numeral_eq_Suc)
qed (simp_all add: contains_def is_ascii_alphanumeric_def is_digit_def)

end
