(* ===== verification/Wire.thy ===== *)
theory Wire
  imports Blocks Peer_Address
begin

text \<open>
  \<open>crates/nightfall-p2p/src/lib.rs\<close>, the wire: messages as lines of JSON, bounded on both
  sides, the handshake and the paginated block request.

  The JSON library is a parameter: \<open>chunks m\<close> are the pieces \<open>serde_json::to_writer\<close> hands
  to its sink for the message \<open>m\<close>, \<open>parse\<close> is \<open>from_str\<close> with its error text.
  \<open>framed J m\<close> is what the code relies on for one message: reading back gives the message,
  the text is UTF-8 without a newline, and it starts and ends with a character that is no
  white space.  A stream is the bytes the peer is going to send.
\<close>

datatype peer_msg =
    Hello (hl_wire: u32) (hl_network: network_id) (hl_genesis: string) (hl_height: u64)
      (hl_tip: string) (hl_agent: string) (hl_listen_port: u16) (hl_pruned: bool)
      (hl_first_height: u64)
  | HelloOk (ok_wire: u32) (ok_network: network_id) (ok_genesis: string) (ok_height: u64)
      (ok_tip: string) (ok_listen_port: u16) (ok_pruned: bool) (ok_first_height: u64)
  | GetPeers
  | Peers "string list"
  | Ping u64
  | Pong u64
  | GetBlocks u64 nat
  | BlocksMsg "block list"
  | InvBlock string u64
  | GetBlock string
  | BlockMsg block
  | TxMsg transaction
  | GetStatus
  | StatusMsg u64 string u32 nat nat
  | ErrorMsg string

record json =
  chunks :: "peer_msg \<Rightarrow> bytes list"
  parse :: "string \<Rightarrow> string + peer_msg"

definition MAX_BLOCKS_PER_REQUEST :: nat where [params]: "MAX_BLOCKS_PER_REQUEST = 128"
definition MAX_WIRE_PAYLOAD_BYTES :: nat where
  [params]: "MAX_WIRE_PAYLOAD_BYTES = MAX_MESSAGE_BYTES - 1"
definition MAX_INTERLEAVED :: nat where [params]: "MAX_INTERLEAVED = 64"

definition em_dash :: string where "em_dash = map char_of [0xE2, 0x80, 0x94 :: nat]"

definition exceeds_text :: string where
  "exceeds_text = ''peer message exceeds '' @ dec_string MAX_MESSAGE_BYTES @ '' bytes''"

section \<open>Writing\<close>

definition bounded_write :: "nat \<Rightarrow> bytes \<Rightarrow> bytes \<Rightarrow> io_error + bytes" where
  "bounded_write limit acc buf =
     (if 2 ^ 64 \<le> length acc + length buf
      then Inl (io_err InvalidData ''peer message size overflow'')
      else if limit < length acc + length buf then Inl (io_err InvalidData exceeds_text)
      else Inr (acc @ buf))"

definition encode_wire_line :: "json \<Rightarrow> peer_msg \<Rightarrow> io_error + bytes" where
  "encode_wire_line J m =
     res_bind (res_fold (bounded_write MAX_WIRE_PAYLOAD_BYTES) [] (chunks J m))
       (\<lambda>out. Inr (out @ [10]))"

definition fits_wire :: "json \<Rightarrow> peer_msg \<Rightarrow> bool" where
  "fits_wire J m = is_ok (res_fold (bounded_write MAX_WIRE_PAYLOAD_BYTES) [] (chunks J m))"

function fit_loop :: "(nat \<Rightarrow> bool) \<Rightarrow> nat \<Rightarrow> nat \<Rightarrow> nat" where
  "fit_loop fits low high =
     (if low < high then
        (let mid = low + (high - low + 1) div 2 in
         if fits mid then fit_loop fits mid high else fit_loop fits low (mid - 1))
      else low)"
  by pat_completeness auto
termination by (relation "measure (\<lambda>(_, low, high). high - low)") auto

declare fit_loop.simps [simp del]

definition largest_fitting_prefix :: "nat \<Rightarrow> (nat \<Rightarrow> bool) \<Rightarrow> nat" where
  "largest_fitting_prefix len fits = fit_loop fits 0 len"

definition fit_blocks_response :: "json \<Rightarrow> block list \<Rightarrow> io_error + block list" where
  "fit_blocks_response J bs =
     (if bs = [] then Inr bs
      else
        (let keep = largest_fitting_prefix (length bs)
                      (\<lambda>n. fits_wire J (BlocksMsg (take n bs)))
         in if keep = 0
            then Inl (io_err InvalidData ''single block exceeds the P2P message limit'')
            else Inr (take keep bs)))"

definition write_msg :: "json \<Rightarrow> peer_msg \<Rightarrow> unit io" where
  "write_msg J m = sr_bind (sr_lift (encode_wire_line J m)) write_all"

section \<open>Reading\<close>

text \<open>\<open>read_until\<close> a newline on a stream limited to \<open>limit\<close> bytes: the line and the rest.\<close>

definition read_line :: "nat \<Rightarrow> bytes \<Rightarrow> bytes \<times> bytes" where
  "read_line limit s =
     (let w = take limit s;
          before = takeWhile (\<lambda>b. b \<noteq> 10) w;
          line = (if length before < length w then before @ [10] else before)
      in (line, drop (length line) s))"

definition decode_line :: "json \<Rightarrow> bytes \<Rightarrow> io_error + peer_msg" where
  "decode_line J buf =
     (if buf = [] then Inl (io_err UnexpectedEof ''peer closed'')
      else if MAX_MESSAGE_BYTES < length buf
        then Inl (io_err InvalidData (exceeds_text @ '' '' @ em_dash @ '' disconnecting''))
      else if last buf \<noteq> 10 then Inl (io_err InvalidData ''message truncated or oversized'')
      else if \<not> utf8_valid buf then Inl (io_err InvalidData ''non-utf8 message'')
      else map_err (io_err InvalidData) (parse J (trim (text_of buf))))"

definition read_msg :: "json \<Rightarrow> peer_msg io" where
  "read_msg J c =
     (case read_line (MAX_MESSAGE_BYTES + 1) (c_in c) of
        (buf, rest) \<Rightarrow> (c\<lparr>c_in := rest\<rparr>, decode_line J buf))"

definition is_unparseable_line :: "io_error \<Rightarrow> bool" where
  "is_unparseable_line e \<longleftrightarrow> io_kind e = InvalidData
     \<and> \<not> (contains ''exceeds'' (io_text e) \<or> contains ''truncated'' (io_text e)
          \<or> contains ''non-utf8'' (io_text e))"

section \<open>Handshake\<close>

record peer_intro =
  pi_height :: u64
  pi_tip :: string
  pi_pruned :: bool
  pi_first_height :: u64

definition intro_is_archive :: "peer_intro \<Rightarrow> bool" where
  "intro_is_archive p \<longleftrightarrow> \<not> pi_pruned p \<and> pi_first_height p = 0"

definition wire_mismatch_text :: "u32 \<Rightarrow> string" where
  "wire_mismatch_text w =
     ''wire version mismatch '' @ em_dash @ '' peer speaks v'' @ dec_string (unat w)
       @ '', we speak v'' @ dec_string (unat WIRE_VERSION)
       @ ''. One of us needs the current release from https://nightfallcoin.org''"

definition check_intro :: "network_id \<Rightarrow> bytes \<Rightarrow> peer_msg \<Rightarrow> io_error + peer_intro" where
  "check_intro net gen m =
     (case m of
        HelloOk w n g h t _ p f \<Rightarrow>
          if w \<noteq> WIRE_VERSION then Inl (io_err InvalidData (wire_mismatch_text w))
          else if n \<noteq> net then Inl (io_err InvalidData ''network mismatch'')
          else if g \<noteq> hash_to_hex gen then Inl (io_err InvalidData ''genesis mismatch'')
          else Inr \<lparr>pi_height = h, pi_tip = t, pi_pruned = p, pi_first_height = f\<rparr>
      | ErrorMsg s \<Rightarrow> Inl (io_err OtherKind s)
      | _ \<Rightarrow> Inl (io_err InvalidData ''expected hello_ok''))"

definition handshake ::
    "json \<Rightarrow> string \<Rightarrow> network_id \<Rightarrow> bytes \<Rightarrow> u64 \<Rightarrow> bytes \<Rightarrow> u16 \<Rightarrow> bool \<Rightarrow> u64 \<Rightarrow> peer_intro io" where
  "handshake J version net gen height tip listen_port pruned first_height =
     sr_bind (write_msg J (Hello WIRE_VERSION net (hash_to_hex gen) height (hash_to_hex tip)
                             (''nightfalld/'' @ version) listen_port pruned first_height)) (\<lambda>_.
     sr_bind (read_msg J) (\<lambda>m. sr_lift (check_intro net gen m)))"

section \<open>Requesting blocks\<close>

text \<open>At most \<open>n\<close> messages are read while waiting for the reply.\<close>

fun await_blocks :: "json \<Rightarrow> nat \<Rightarrow> block list option io" where
  "await_blocks J 0 c = (c, Inr None)"
| "await_blocks J (Suc n) c =
     (case read_msg J c of
        (c', Inr m) \<Rightarrow>
          (case m of
             BlocksMsg bs \<Rightarrow> (c', Inr (Some bs))
           | ErrorMsg s \<Rightarrow> (c', Inl (io_err OtherKind s))
           | _ \<Rightarrow> await_blocks J n c')
      | (c', Inl e) \<Rightarrow> if is_unparseable_line e then await_blocks J n c' else (c', Inl e))"

fun check_heights :: "u64 \<Rightarrow> nat \<Rightarrow> block list \<Rightarrow> io_error + unit" where
  "check_heights next offset [] = Inr ()"
| "check_heights next offset (b # bs) =
     (case checked_add next (of_nat offset) of
        None \<Rightarrow> Inl (io_err InvalidData ''block response height overflow'')
      | Some expected \<Rightarrow>
          if h_height (blk_header b) \<noteq> expected
          then Inl (io_err InvalidData
                 (''unexpected block height '' @ dec_string (unat (h_height (blk_header b)))
                  @ '', expected '' @ dec_string (unat expected)))
          else check_heights next (offset + 1) bs)"

function request_loop :: "json \<Rightarrow> nat \<Rightarrow> block list \<Rightarrow> u64 \<Rightarrow> block list io" where
  "request_loop J target sofar next_height c =
     (if target \<le> length sofar then (c, Inr sofar)
      else
        (let remaining = target - length sofar in
         case sr_bind (write_msg J (GetBlocks next_height remaining))
                (\<lambda>_. await_blocks J MAX_INTERLEAVED) c of
           (c', Inl e) \<Rightarrow> (c', Inl e)
         | (c', Inr None) \<Rightarrow> (c', Inl (io_err InvalidData ''expected blocks''))
         | (c', Inr (Some batch)) \<Rightarrow>
             if batch = [] then (c', Inr sofar)
             else if remaining < length batch
               then (c', Inl (io_err InvalidData ''peer returned more blocks than requested''))
             else
               (case check_heights next_height 0 batch of
                  Inl e \<Rightarrow> (c', Inl e)
                | Inr _ \<Rightarrow>
                    if target \<le> length sofar + length batch then (c', Inr (sofar @ batch))
                    else
                      (case checked_add next_height (of_nat (length batch)) of
                         Some h \<Rightarrow> request_loop J target (sofar @ batch) h c'
                       | None \<Rightarrow> (c', Inr (sofar @ batch))))))"
  by pat_completeness auto
termination
  by (relation "measure (\<lambda>(_, target, sofar, _, _). target - length sofar)")
    (auto simp flip: length_greater_0_conv)

declare request_loop.simps [simp del]

definition request_blocks :: "json \<Rightarrow> u64 \<Rightarrow> nat \<Rightarrow> block list io" where
  "request_blocks J from_height limit =
     (let target = min limit MAX_BLOCKS_PER_REQUEST in
      if target = 0 then sr_return [] else request_loop J target [] from_height)"

section \<open>Announcements\<close>

definition broadcast_block :: "('p, 's) crypto \<Rightarrow> json \<Rightarrow> block \<Rightarrow> unit io" where
  "broadcast_block C J b =
     sr_bind (write_msg J (InvBlock (hash_to_hex (block_hash C b)) (h_height (blk_header b))))
       (\<lambda>_. write_msg J (BlockMsg b))"

definition broadcast_tx :: "json \<Rightarrow> transaction \<Rightarrow> unit io" where
  "broadcast_tx J t = write_msg J (TxMsg t)"

end
