(* ===== verification/Wire_Facts.thy ===== *)
theory Wire_Facts
  imports Wire
begin

text \<open>
  The wire's promises: frames written are read back one by one and nothing else is taken from
  the stream, a reader never takes more than the limit, block responses are cut at the largest
  prefix that fits, and a block request returns consecutive blocks, not more than asked for,
  whatever the peer sends.
\<close>

section \<open>Bounded output\<close>

lemma bounded_write_fold:
  assumes "limit < 2 ^ 64" "length acc \<le> limit"
  shows "res_fold (bounded_write limit) acc cs = Inr out \<longleftrightarrow>
    out = acc @ concat cs \<and> length (acc @ concat cs) \<le> limit"
  using assms(2)
proof (induction cs arbitrary: acc)
  case (Cons b cs)
  show ?case
  proof (cases "length acc + length b \<le> limit")
    case True
    then have "bounded_write limit acc b = Inr (acc @ b)"
      using assms(1) by (simp add: bounded_write_def)
    then show ?thesis using Cons.IH [of "acc @ b"] True by auto
  next
    case False
    then have "\<exists>e. bounded_write limit acc b = Inl e" by (simp add: bounded_write_def)
    then show ?thesis using False by auto
  qed
qed auto

lemma payload_limit: "MAX_WIRE_PAYLOAD_BYTES < 2 ^ 64" "Suc MAX_WIRE_PAYLOAD_BYTES = MAX_MESSAGE_BYTES"
  by (simp_all add: params)

lemma encode_wire_line_Inr:
  "encode_wire_line J m = Inr line \<longleftrightarrow>
     line = concat (chunks J m) @ [10] \<and> length (concat (chunks J m)) \<le> MAX_WIRE_PAYLOAD_BYTES"
  by (auto simp: encode_wire_line_def res_bind_Inr_iff bounded_write_fold [OF payload_limit(1)])

lemma fits_wire_iff:
  "fits_wire J m \<longleftrightarrow> length (concat (chunks J m)) \<le> MAX_WIRE_PAYLOAD_BYTES"
  by (auto simp: fits_wire_def is_ok_iff bounded_write_fold [OF payload_limit(1)])

section \<open>Frames\<close>

definition framed :: "json \<Rightarrow> peer_msg \<Rightarrow> bool" where
  "framed J m \<longleftrightarrow>
     (let a = concat (chunks J m) in
      a \<noteq> [] \<and> 10 \<notin> set a \<and> utf8_valid a
      \<and> solid (hd (text_of a)) \<and> solid (last (text_of a)) \<and> parse J (text_of a) = Inr m)"

lemma newline_find:
  "List.find (\<lambda>w. suffix w (s @ [char_of (10 :: nat)])) white_space = Some [char_of (10 :: nat)]"
  by (simp add: white_space_def suffix_def)

lemma trim_line:
  assumes "s \<noteq> []" "solid (hd s)" "solid (last s)"
  shows "trim (s @ [char_of (10 :: nat)]) = s"
proof -
  have "trim_end (s @ [char_of (10 :: nat)]) = trim_end s"
    by (subst trim_end.simps) (simp only: newline_find option.simps length_append, simp)
  also have "\<dots> = s" by (rule trim_end_solid) (use assms in simp)
  finally show ?thesis
    using assms by (simp add: trim_def trim_start_solid)
qed

lemma read_line_frame:
  assumes "10 \<notin> set a" "length a < limit"
  shows "read_line limit (a @ 10 # rest) = (a @ [10], rest)"
proof -
  define r where "r = take (limit - Suc (length a)) rest"
  have w: "take limit (a @ 10 # rest) = a @ 10 # r"
    using assms(2) by (simp add: take_Cons' Suc_diff_Suc r_def)
  have t: "takeWhile (\<lambda>b. b \<noteq> 10) (a @ 10 # r) = a"
    using assms(1) by (induction a) auto
  show ?thesis unfolding read_line_def Let_def w t by simp
qed

lemma read_line_bound:
  assumes "read_line limit s = (line, rest)"
  shows "s = line @ rest \<and> length line \<le> limit"
proof -
  define w where "w = take limit s"
  define b where "b = takeWhile (\<lambda>b. b \<noteq> 10) w"
  have l: "line = (if length b < length w then b @ [10] else b)" "rest = drop (length line) s"
    using assms by (auto simp: read_line_def Let_def w_def b_def)
  have d: "w = b @ dropWhile (\<lambda>b. b \<noteq> 10) w" by (simp add: b_def)
  have "\<exists>r. w = line @ r"
  proof (cases "dropWhile (\<lambda>b. b \<noteq> 10) w")
    case Nil
    have "w = b @ []" using d unfolding Nil .
    then show ?thesis using l(1) by simp
  next
    case (Cons x xs)
    then have x: "x = 10" using hd_dropWhile [of "\<lambda>b. b \<noteq> 10" w] by auto
    have w: "w = b @ 10 # xs" using d unfolding Cons x .
    then have "length b < length w" by simp
    then have "line = b @ [10]" using l(1) by simp
    then show ?thesis using w by simp
  qed
  then obtain r where r: "w = line @ r" by blast
  have s: "s = line @ (r @ drop limit s)"
    by (metis append.assoc append_take_drop_id r w_def)
  then have "drop (length line) s = r @ drop limit s" by (metis append_eq_conv_conj)
  moreover have "length line \<le> limit" using arg_cong [OF r, of length] by (simp add: w_def)
  ultimately show ?thesis using s l(2) by metis
qed

lemma utf8_newline: "utf8_valid [10]"
  by (subst utf8_valid.simps) (simp add: utf8_valid.simps)

lemma decode_frame:
  assumes "framed J m" "fits_wire J m"
  shows "decode_line J (concat (chunks J m) @ [10]) = Inr m"
proof -
  let ?a = "concat (chunks J m)"
  have f: "?a \<noteq> []" "utf8_valid ?a" "solid (hd (text_of ?a))" "solid (last (text_of ?a))"
    "parse J (text_of ?a) = Inr m"
    using assms(1) by (simp_all add: framed_def Let_def)
  have "text_of (?a @ [10]) = text_of ?a @ [char_of (10 :: nat)]" by (simp add: text_of_def)
  moreover have "text_of ?a \<noteq> []" using f(1) by (simp add: text_of_def)
  ultimately have "trim (text_of (?a @ [10])) = text_of ?a" using f trim_line by simp
  moreover have "length (?a @ [10]) \<le> MAX_MESSAGE_BYTES"
    using assms(2) payload_limit(2) by (simp add: fits_wire_iff)
  moreover have "utf8_valid (?a @ [10])" by (rule utf8_valid_append [OF f(2) utf8_newline])
  ultimately show ?thesis by (simp add: decode_line_def f(5) del: length_append)
qed

lemma frame_roundtrip:
  assumes "framed J m" "encode_wire_line J m = Inr line"
  shows "read_msg J (c\<lparr>c_in := line @ rest\<rparr>) = (c\<lparr>c_in := rest\<rparr>, Inr m)"
proof -
  have l: "line = concat (chunks J m) @ [10]"
    and fit: "fits_wire J m"
    using assms(2) by (simp_all add: encode_wire_line_Inr fits_wire_iff)
  have "length (concat (chunks J m)) < MAX_MESSAGE_BYTES + 1"
    using fit payload_limit(2) by (simp add: fits_wire_iff)
  moreover have "10 \<notin> set (concat (chunks J m))" using assms(1) by (simp add: framed_def Let_def)
  ultimately have "read_line (MAX_MESSAGE_BYTES + 1) (line @ rest) = (line, rest)"
    using read_line_frame [of "concat (chunks J m)"] by (simp add: l)
  then show ?thesis using decode_frame [OF assms(1) fit] by (simp add: read_msg_def l)
qed

text \<open>Sequences of messages.\<close>

fun send_all :: "json \<Rightarrow> peer_msg list \<Rightarrow> unit io" where
  "send_all J [] = sr_return ()"
| "send_all J (m # ms) = sr_bind (write_msg J m) (\<lambda>_. send_all J ms)"

fun receive :: "json \<Rightarrow> nat \<Rightarrow> peer_msg list io" where
  "receive J 0 = sr_return []"
| "receive J (Suc n) = sr_bind (read_msg J) (\<lambda>m. sr_bind (receive J n) (\<lambda>ms. sr_return (m # ms)))"

lemma send_all_Inr:
  "send_all J ms c = (d, Inr ()) \<Longrightarrow>
     \<exists>lines. length lines = length ms \<and> d = c\<lparr>c_out := c_out c @ concat lines\<rparr>
       \<and> (\<forall>i < length ms. encode_wire_line J (ms ! i) = Inr (lines ! i))"
proof (induction ms arbitrary: c)
  case (Cons m ms)
  from Cons.prems obtain line where l: "encode_wire_line J m = Inr line"
    and s: "send_all J ms (c\<lparr>c_out := c_out c @ line\<rparr>) = (d, Inr ())"
    by (auto simp: write_msg_def sr_bind_assoc sr_lift_step io_write_step)
  from Cons.IH [OF s] obtain lines where "length lines = length ms"
    "d = c\<lparr>c_out := c_out c @ concat (line # lines)\<rparr>"
    "\<forall>i < length ms. encode_wire_line J (ms ! i) = Inr (lines ! i)"
    by auto
  then show ?case using l by (intro exI [of _ "line # lines"]) (auto simp: less_Suc_eq_0_disj)
qed (auto simp: sr_return_def)

lemma receive_lines:
  "length lines = length ms \<Longrightarrow> \<forall>i < length ms. encode_wire_line J (ms ! i) = Inr (lines ! i)
    \<Longrightarrow> \<forall>m \<in> set ms. framed J m \<Longrightarrow>
   receive J (length ms) (c\<lparr>c_in := concat lines @ rest\<rparr>) = (c\<lparr>c_in := rest\<rparr>, Inr ms)"
proof (induction ms arbitrary: lines)
  case (Cons m ms)
  obtain line ls where l: "lines = line # ls" "length ls = length ms"
    using Cons.prems(1) by (cases lines) auto
  have "encode_wire_line J ((m # ms) ! i) = Inr (lines ! i)" if "i < Suc (length ms)" for i
    using Cons.prems(2) that by simp
  from this [of 0] this [of "Suc j" for j] have ls: "lines = line # ls" "length ls = length ms"
    "encode_wire_line J m = Inr line" "\<forall>i < length ms. encode_wire_line J (ms ! i) = Inr (ls ! i)"
    using l by auto
  have f: "framed J m" "\<forall>m \<in> set ms. framed J m" using Cons.prems(3) by simp_all
  have "read_msg J (c\<lparr>c_in := line @ (concat ls @ rest)\<rparr>) = (c\<lparr>c_in := concat ls @ rest\<rparr>, Inr m)"
    by (rule frame_roundtrip [OF f(1) ls(3)])
  then show ?case
    using Cons.IH [OF ls(2,4) f(2)] by (simp add: ls(1) sr_bind_def sr_return_def)
qed (simp add: sr_return_def)

lemma stream_roundtrip:
  assumes "send_all J ms (\<lparr>c_in = i, c_out = []\<rparr>) = (d, Inr ())" "\<forall>m \<in> set ms. framed J m"
  shows "receive J (length ms) \<lparr>c_in = c_out d @ rest, c_out = o'\<rparr>
    = (\<lparr>c_in = rest, c_out = o'\<rparr>, Inr ms)"
proof -
  obtain lines where "length lines = length ms" "c_out d = concat lines"
    "\<forall>i < length ms. encode_wire_line J (ms ! i) = Inr (lines ! i)"
    using send_all_Inr [OF assms(1)] by auto
  then show ?thesis
    using receive_lines [where c = "\<lparr>c_in = [], c_out = o'\<rparr>" and lines = lines] assms(2) by simp
qed

text \<open>A reader takes at most one byte more than the limit, and a message is a whole line.\<close>

lemma read_msg_bounded:
  assumes "read_msg J c = (d, r)"
  shows "\<exists>buf. c_in c = buf @ c_in d \<and> length buf \<le> MAX_MESSAGE_BYTES + 1 \<and> c_out d = c_out c
    \<and> (is_ok r \<longrightarrow> length buf \<le> MAX_MESSAGE_BYTES \<and> last buf = 10)"
proof -
  obtain buf rest where b: "read_line (MAX_MESSAGE_BYTES + 1) (c_in c) = (buf, rest)"
    by fastforce
  with assms have "d = c\<lparr>c_in := rest\<rparr>" "r = decode_line J buf" by (simp_all add: read_msg_def)
  moreover have "is_ok (decode_line J buf) \<longrightarrow> length buf \<le> MAX_MESSAGE_BYTES \<and> last buf = 10"
    by (auto simp: decode_line_def is_ok_def)
  ultimately show ?thesis using read_line_bound [OF b] by auto
qed

section \<open>The largest prefix that fits\<close>

lemma fit_loop_spec:
  "low \<le> high \<Longrightarrow> low = 0 \<or> fits low \<Longrightarrow> high = len \<or> \<not> fits (Suc high) \<Longrightarrow> r = fit_loop fits low high \<Longrightarrow>
     low \<le> r \<and> r \<le> high \<and> (r = 0 \<or> fits r) \<and> (r = len \<or> \<not> fits (Suc r))"
proof (induction fits low high rule: fit_loop.induct)
  case (1 fits low high)
  show ?case
  proof (cases "low < high")
    case False
    then show ?thesis using 1 by (subst (asm) (2) fit_loop.simps) auto
  next
    case True
    define mid where "mid = low + (high - low + 1) div 2"
    have m: "low < mid" "mid \<le> high" using True by (auto simp: mid_def)
    have r: "r = (if fits mid then fit_loop fits mid high else fit_loop fits low (mid - 1))"
      using True 1(6) by (subst (asm) fit_loop.simps) (simp add: mid_def Let_def)
    show ?thesis
    proof (cases "fits mid")
      case t: True
      then have i: "mid \<le> r \<and> r \<le> high \<and> (r = 0 \<or> fits r) \<and> (r = len \<or> \<not> fits (Suc r))"
        using 1(1) [OF True mid_def t m(2)] 1(5) r by simp
      then have "low \<le> r" using m by linarith
      then show ?thesis using i by blast
    next
      case f: False
      then have i: "low \<le> r \<and> r \<le> mid - 1 \<and> (r = 0 \<or> fits r) \<and> (r = len \<or> \<not> fits (Suc r))"
        using 1(2) [OF True mid_def f] m 1(4) r by simp
      then have "r \<le> high" using m by linarith
      then show ?thesis using i by blast
    qed
  qed
qed

lemma largest_fitting_prefix_spec:
  assumes "r = largest_fitting_prefix len fits"
  shows "r \<le> len \<and> (r = 0 \<or> fits r) \<and> (r = len \<or> \<not> fits (Suc r))"
  using fit_loop_spec [of 0 len fits len r] assms by (simp add: largest_fitting_prefix_def)

lemma largest_fitting_prefix_max:
  assumes mono: "\<And>a b. a \<le> b \<Longrightarrow> fits b \<Longrightarrow> fits a" and n: "n \<le> len" "fits n"
  shows "n \<le> largest_fitting_prefix len fits"
proof -
  let ?r = "largest_fitting_prefix len fits"
  have "?r = len \<or> \<not> fits (Suc ?r)" using largest_fitting_prefix_spec [OF refl] by blast
  then show ?thesis using n mono by (metis not_less_eq_eq)
qed

lemma fit_blocks_spec:
  assumes "fit_blocks_response J bs = Inr out"
  shows "\<exists>k. out = take k bs \<and> k \<le> length bs \<and> (bs \<noteq> [] \<longrightarrow> 0 < k \<and> fits_wire J (BlocksMsg out)
    \<and> (k = length bs \<or> \<not> fits_wire J (BlocksMsg (take (Suc k) bs))))"
proof (cases "bs = []")
  case False
  let ?k = "largest_fitting_prefix (length bs) (\<lambda>n. fits_wire J (BlocksMsg (take n bs)))"
  have "out = take ?k bs" "?k \<noteq> 0"
    using assms False by (auto simp: fit_blocks_response_def Let_def split: if_splits)
  moreover note largest_fitting_prefix_spec [where len = "length bs"
      and fits = "\<lambda>n. fits_wire J (BlocksMsg (take n bs))" and r = ?k, OF refl]
  ultimately show ?thesis by (intro exI [of _ ?k]) auto
qed (use assms in \<open>auto simp: fit_blocks_response_def\<close>)

section \<open>Block requests\<close>

definition consecutive :: "u64 \<Rightarrow> block list \<Rightarrow> bool" where
  "consecutive from_height bs \<longleftrightarrow>
     (\<forall>i < length bs. unat (h_height (blk_header (bs ! i))) = unat from_height + i)"

lemma check_heights_Inr:
  assumes "check_heights next k bs = Inr ()" "k + length bs < 2 ^ 64"
  shows "\<forall>i < length bs. unat (h_height (blk_header (bs ! i))) = unat next + k + i"
  using assms
proof (induction bs arbitrary: k)
  case (Cons b bs)
  from Cons.prems obtain e where e: "checked_add next (of_nat k) = Some e"
    "h_height (blk_header b) = e" "check_heights next (k + 1) bs = Inr ()"
    by (auto split: option.splits if_splits)
  have "unat (of_nat k :: u64) = k" using Cons.prems(2) by (simp add: unat_of_nat_64)
  then have b: "unat (h_height (blk_header b)) = unat next + k"
    using e(1,2) by (simp add: checked_add_Some_iff)
  have "\<forall>i < length bs. unat (h_height (blk_header (bs ! i))) = unat next + (k + 1) + i"
    by (rule Cons.IH [OF e(3)]) (use Cons.prems(2) in simp)
  then show ?case using b by (auto simp: nth_Cons split: nat.split)
qed simp

lemma consecutive_append:
  assumes "consecutive f as" "consecutive g bs" "unat g = unat f + length as"
  shows "consecutive f (as @ bs)"
  using assms by (auto simp: consecutive_def nth_append)

lemma request_loop_spec:
  "request_loop J target sofar next c = (d, Inr out) \<Longrightarrow> target < 2 ^ 64 \<Longrightarrow>
     consecutive f sofar \<Longrightarrow> length sofar \<le> target \<Longrightarrow> unat next = unat f + length sofar \<Longrightarrow>
   length out \<le> target \<and> consecutive f out"
proof (induction J target sofar "next" c arbitrary: d rule: request_loop.induct)
  case (1 J target sofar "next" c)
  show ?case
  proof (cases "target \<le> length sofar")
    case True
    then show ?thesis using 1(2-) by (subst (asm) request_loop.simps) auto
  next
    case False
    note u = 1(2) [unfolded request_loop.simps [of J target sofar "next" c]]
    obtain c' r where q: "sr_bind (write_msg J (GetBlocks next (target - length sofar)))
        (\<lambda>_. await_blocks J MAX_INTERLEAVED) c = (c', r)" by fastforce
    from u False q obtain batch where r: "r = Inr (Some batch)"
      by (auto simp: Let_def split: sum.splits option.splits)
    show ?thesis
    proof (cases "batch = []")
      case True
      then show ?thesis using u False q r 1(4,5) by (simp add: Let_def)
    next
      case ne: False
      from u False q r ne have len: "length batch \<le> target - length sofar"
        and chk: "check_heights next 0 batch = Inr ()"
        by (auto simp: Let_def split: if_splits sum.splits)
      have "length batch < 2 ^ 64" using len 1(3) by linarith
      then have b: "consecutive next batch"
        using check_heights_Inr [OF chk] by (simp add: consecutive_def)
      have a: "consecutive f (sofar @ batch)" by (rule consecutive_append [OF 1(4) b 1(6)])
      have l: "length (sofar @ batch) \<le> target" using len False by simp
      show ?thesis
      proof (cases "target \<le> length sofar + length batch
          \<or> checked_add next (of_nat (length batch)) = None")
        case True
        then have "out = sofar @ batch"
          using u False q r ne len chk by (auto simp: Let_def split: if_splits option.splits)
        then show ?thesis using a l by simp
      next
        case go: False
        then obtain h where h: "checked_add next (of_nat (length batch)) = Some h" by auto
        have rec: "request_loop J target (sofar @ batch) h c' = (d, Inr out)"
          using u False q r ne len chk h go by (simp add: Let_def)
        have "unat (of_nat (length batch) :: u64) = length batch"
          using \<open>length batch < 2 ^ 64\<close> by (simp add: unat_of_nat_64)
        then have nx: "unat h = unat f + length (sofar @ batch)"
          using h 1(6) by (simp add: checked_add_Some_iff)
        show ?thesis
          using 1(1) [OF False refl q [symmetric] r refl ne _ chk _ h rec 1(3) a l nx] len go
          by simp
      qed
    qed
  qed
qed

lemma request_blocks_spec:
  assumes "request_blocks J from_height limit c = (d, Inr out)"
  shows "length out \<le> min limit MAX_BLOCKS_PER_REQUEST \<and> consecutive from_height out"
proof (cases "min limit MAX_BLOCKS_PER_REQUEST = 0")
  case True
  then show ?thesis using assms by (auto simp: request_blocks_def sr_return_def consecutive_def)
next
  case False
  note assms [unfolded request_blocks_def Let_def if_not_P [OF False]]
  then show ?thesis
    by (rule request_loop_spec) (simp_all add: params consecutive_def)
qed

section \<open>Handshake\<close>

lemma handshake_agrees:
  assumes "handshake J version net gen height tip port pruned first c = (d, Inr p)"
  shows "\<exists>h t q w f line. encode_wire_line J (Hello WIRE_VERSION net (hash_to_hex gen) height
        (hash_to_hex tip) (''nightfalld/'' @ version) port pruned first) = Inr line
    \<and> read_msg J (c\<lparr>c_out := c_out c @ line\<rparr>)
        = (d, Inr (HelloOk WIRE_VERSION net (hash_to_hex gen) h t w q f))
    \<and> p = \<lparr>pi_height = h, pi_tip = t, pi_pruned = q, pi_first_height = f\<rparr>"
proof -
  from assms obtain line m where l: "encode_wire_line J (Hello WIRE_VERSION net (hash_to_hex gen)
        height (hash_to_hex tip) (''nightfalld/'' @ version) port pruned first) = Inr line"
    and m: "read_msg J (c\<lparr>c_out := c_out c @ line\<rparr>) = (d, Inr m)"
    and i: "check_intro net gen m = Inr p"
    by (auto simp: handshake_def write_msg_def sr_bind_assoc sr_lift_step io_write_step)
      (auto simp: sr_bind_def sr_lift_def sr_return_def sr_fail_def split: prod.splits sum.splits)
  from i m l show ?thesis
    by (cases m) (auto simp: check_intro_def split: if_splits)
qed

text \<open>
  A one-byte encoding of messages, enough for a stream that carries one kind of message, and a
  reply to a request for the block at height 5.
\<close>

definition tiny_json :: "peer_msg \<Rightarrow> json" where
  "tiny_json m = \<lparr>chunks = \<lambda>_. [[88]], parse = \<lambda>_. Inr m\<rparr>"

definition tiny_block :: block where
  "tiny_block = \<lparr>blk_header = \<lparr>h_version = PROTOCOL_VERSION, h_height = 5, h_prev_hash = [],
     h_utxo_root = [], h_kernel_sum = [], h_body_root = [], h_timestamp = 0, h_difficulty = 0,
     h_nonce = 0, h_reward = 0\<rparr>, blk_body = body_default\<rparr>"

lemma tiny_text: "text_of [88] = ''X''" "utf8_valid [88]"
proof -
  show "text_of [88] = ''X''" by (simp add: text_of_def char_of_def bit_Suc_0_iff)
  show "utf8_valid [88]" by (subst utf8_valid.simps) (simp add: utf8_valid.simps)
qed

lemma tiny_framed: "framed (tiny_json m) m"
  by (simp add: framed_def tiny_json_def tiny_text solid_ascii)

lemma tiny_line: "encode_wire_line (tiny_json m) m' = Inr [88, 10]"
  by (simp add: encode_wire_line_Inr tiny_json_def params)

lemma tiny_fits: "fits_wire (tiny_json m) m'"
  by (simp add: fits_wire_iff tiny_json_def params)

lemma tiny_sent:
  "send_all (tiny_json m) [m, m] \<lparr>c_in = [], c_out = []\<rparr>
    = (\<lparr>c_in = [], c_out = [88, 10, 88, 10]\<rparr>, Inr ())"
  by (simp add: write_msg_def tiny_line sr_bind_def sr_lift_def sr_return_def write_all_def)

lemma tiny_read:
  "read_msg (tiny_json m) (\<lparr>c_in = 88 # 10 # rest, c_out = o'\<rparr>) = (\<lparr>c_in = rest, c_out = o'\<rparr>, Inr m)"
  using frame_roundtrip [OF tiny_framed tiny_line, where c = "\<lparr>c_in = [], c_out = o'\<rparr>" and rest = rest]
  by simp

lemma tiny_request:
  "request_blocks (tiny_json (BlocksMsg [tiny_block])) 5 1 \<lparr>c_in = [88, 10], c_out = []\<rparr>
    = (\<lparr>c_in = [], c_out = [88, 10]\<rparr>, Inr [tiny_block])"
proof -
  let ?J = "tiny_json (BlocksMsg [tiny_block])"
  have a: "await_blocks ?J MAX_INTERLEAVED \<lparr>c_in = [88, 10], c_out = [88, 10]\<rparr>
      = (\<lparr>c_in = [], c_out = [88, 10]\<rparr>, Inr (Some [tiny_block]))"
  proof -
    have "MAX_INTERLEAVED = Suc 63" by (simp add: params)
    show ?thesis unfolding \<open>MAX_INTERLEAVED = Suc 63\<close> await_blocks.simps tiny_read by simp
  qed
  have "sr_bind (write_msg ?J (GetBlocks 5 1)) (\<lambda>_. await_blocks ?J MAX_INTERLEAVED)
      \<lparr>c_in = [88, 10], c_out = []\<rparr> = (\<lparr>c_in = [], c_out = [88, 10]\<rparr>, Inr (Some [tiny_block]))"
    by (simp add: write_msg_def tiny_line sr_bind_assoc)
      (simp add: sr_bind_def sr_lift_def sr_return_def write_all_def a)
  moreover have "min 1 MAX_BLOCKS_PER_REQUEST = 1" by (simp add: params)
  moreover have "checked_add (5 :: u64) 0 = Some 5" by (simp add: checked_add_def)
  moreover have "h_height (blk_header tiny_block) = 5" by (simp add: tiny_block_def)
  ultimately show ?thesis
    by (simp add: request_blocks_def request_loop.simps [of ?J "Suc 0"])
qed

end
