(* ===== verification/Codec.thy ===== *)
theory Codec
  imports Blocks Rust_Parse
begin

text \<open>
  \<open>crates/nightfall-storage/src/codec.rs\<close>: the records of the chain file, in the binary and
  in the JSON encoding, and the layout that 1.0.x wrote.

  \<open>bincode\<close> and \<open>serde_json\<close> are parameters; \<open>codec_for K bs\<close> is what the code relies on
  for the blocks \<open>bs\<close>: reading back what was written gives the value, the legacy layout
  starts with the version of the header in little-endian order, and a JSON object is one
  line of UTF-8.  The file is the sequence of bytes it holds.
\<close>

section \<open>The legacy layout\<close>

record legacy_input =
  li_commit :: bytes
  li_sig :: schnorr_sig

record legacy_kernel =
  lk_feature :: kernel_feature
  lk_fee :: u64
  lk_reward :: u64
  lk_lock :: u64
  lk_excess :: bytes
  lk_sig :: schnorr_sig

record legacy_block =
  lb_header :: block_header
  lb_inputs :: "legacy_input list"
  lb_outputs :: "tx_output list"
  lb_kernels :: "legacy_kernel list"

definition legacy_from_current :: "block \<Rightarrow> legacy_block" where
  "legacy_from_current b =
     \<lparr>lb_header = blk_header b,
      lb_inputs = map (\<lambda>i. \<lparr>li_commit = in_commit i, li_sig = in_sig i\<rparr>) (b_inputs (blk_body b)),
      lb_outputs = b_outputs (blk_body b),
      lb_kernels = map (\<lambda>k. \<lparr>lk_feature = feature k, lk_fee = fee_darks k,
          lk_reward = reward_darks k, lk_lock = lock_height k, lk_excess = excess k,
          lk_sig = excess_sig k\<rparr>) (b_kernels (blk_body b))\<rparr>"

definition block_from_legacy :: "legacy_block \<Rightarrow> block" where
  "block_from_legacy l =
     \<lparr>blk_header = lb_header l,
      blk_body = \<lparr>b_inputs = map (\<lambda>i. input_legacy (li_commit i) (li_sig i)) (lb_inputs l),
        b_outputs = lb_outputs l,
        b_kernels = map (\<lambda>k. \<lparr>feature = lk_feature k, fee_darks = lk_fee k,
            reward_darks = lk_reward k, lock_height = lk_lock k, excess = lk_excess k,
            excess_sig = lk_sig k, stealth_excess = None, stealth_sig = None\<rparr>) (lb_kernels l),
        b_stealth_offset = None, b_kernel_offset = None\<rparr>\<rparr>"

section \<open>Records\<close>

datatype file_format = Json | Binary

definition BLOCKS_BIN :: string where "BLOCKS_BIN = ''blocks.bin''"
definition BLOCKS_JSONL :: string where "BLOCKS_JSONL = ''blocks.jsonl''"
definition MAX_RECORD_BYTES :: nat where [params]: "MAX_RECORD_BYTES = 8 * 1024 * 1024"

definition RECORD_V2_MAGIC :: bytes where
  [params]: "RECORD_V2_MAGIC = [0xFF, 0x4E, 0x46, 0x42, 0x4C, 0x4B, 0x02, 0x00]"

fun format_file_name :: "file_format \<Rightarrow> string" where
  "format_file_name Json = BLOCKS_JSONL"
| "format_file_name Binary = BLOCKS_BIN"

text \<open>\<open>has\<close> says which files the directory has.\<close>

definition detect :: "(string \<Rightarrow> bool) \<Rightarrow> file_format" where
  "detect has =
     (if has BLOCKS_BIN then Binary else if has BLOCKS_JSONL then Json else Binary)"

record codec =
  bin_ser :: "block \<Rightarrow> bytes"
  bin_de :: "bytes \<Rightarrow> string + block"
  leg_ser :: "legacy_block \<Rightarrow> bytes"
  leg_de :: "bytes \<Rightarrow> string + legacy_block"
  json_ser :: "block \<Rightarrow> bytes"
  json_de :: "string \<Rightarrow> string + block"

datatype codec_error =
    TooLarge nat
  | JsonInBinary
  | BadLength nat nat
  | TruncatedLength nat
  | TruncatedRecord nat
  | CorruptRecord nat string
  | NotUtf8

definition decode_binary_record :: "codec \<Rightarrow> bytes \<Rightarrow> string + block" where
  "decode_binary_record K buf =
     (if take 8 buf = RECORD_V2_MAGIC then bin_de K (drop 8 buf)
      else res_bind (leg_de K buf) (\<lambda>l. Inr (block_from_legacy l)))"

definition record_bytes :: "codec \<Rightarrow> block \<Rightarrow> bytes" where
  "record_bytes K b =
     (if body_has_any_binding (blk_body b) then RECORD_V2_MAGIC @ bin_ser K b
      else leg_ser K (legacy_from_current b))"

definition write_block :: "codec \<Rightarrow> file_format \<Rightarrow> block \<Rightarrow> codec_error + bytes" where
  "write_block K fmt b =
     (case fmt of
        Json \<Rightarrow> Inr (json_ser K b @ [10])
      | Binary \<Rightarrow>
          (let bs = record_bytes K b in
           if 2 ^ 32 \<le> length bs \<or> MAX_RECORD_BYTES < length bs then Inl (TooLarge (length bs))
           else Inr (le_bytes 4 (length bs) @ bs)))"

text \<open>
  The binary reader before record \<open>i\<close>; \<open>first\<close> is set until a length prefix was read.
\<close>

function read_binary :: "codec \<Rightarrow> nat \<Rightarrow> bool \<Rightarrow> bytes \<Rightarrow> codec_error + block list" where
  "read_binary K i first s =
     (if s = [] then Inr []
      else if length s < 4 then Inl (TruncatedLength i)
      else if first \<and> take 2 s = [0x7B, 0x22] then Inl JsonInBinary
      else
        (let len = le_nat (take 4 s); rest = drop 4 s in
         if len = 0 \<or> MAX_RECORD_BYTES < len then Inl (BadLength i len)
         else if length rest < len then Inl (TruncatedRecord i)
         else
           (case decode_binary_record K (take len rest) of
              Inl e \<Rightarrow> Inl (CorruptRecord i e)
            | Inr b \<Rightarrow> res_bind (read_binary K (i + 1) False (drop len rest)) (\<lambda>bs. Inr (b # bs)))))"
  by pat_completeness auto
termination
  by (relation "measure (\<lambda>(_, _, _, s). length s)") auto

declare read_binary.simps [simp del]

fun read_json :: "codec \<Rightarrow> nat \<Rightarrow> bytes list \<Rightarrow> codec_error + block list" where
  "read_json K i [] = Inr []"
| "read_json K i (l # ls) =
     (if \<not> utf8_valid l then Inl NotUtf8
      else if trim (text_of l) = [] then read_json K (i + 1) ls
      else
        (case json_de K (text_of l) of
           Inl e \<Rightarrow> Inl (CorruptRecord i e)
         | Inr b \<Rightarrow> res_bind (read_json K (i + 1) ls) (\<lambda>bs. Inr (b # bs))))"

definition read_blocks :: "codec \<Rightarrow> file_format \<Rightarrow> bytes \<Rightarrow> codec_error + block list" where
  "read_blocks K fmt s =
     (case fmt of Json \<Rightarrow> read_json K 0 (lines_of s) | Binary \<Rightarrow> read_binary K 0 True s)"

text \<open>The writers' loop over the blocks of a chain.\<close>

definition write_all_blocks :: "codec \<Rightarrow> file_format \<Rightarrow> block list \<Rightarrow> codec_error + bytes" where
  "write_all_blocks K fmt bs =
     res_fold (\<lambda>acc b. res_bind (write_block K fmt b) (\<lambda>w. Inr (acc @ w))) [] bs"

section \<open>What the library promises\<close>

definition codec_for :: "codec \<Rightarrow> block list \<Rightarrow> bool" where
  "codec_for K bs \<longleftrightarrow>
     (\<forall>b \<in> set bs.
        bin_de K (bin_ser K b) = Inr b
      \<and> leg_de K (leg_ser K (legacy_from_current b)) = Inr (legacy_from_current b)
      \<and> take 4 (leg_ser K (legacy_from_current b)) = u32_le (h_version (blk_header b))
      \<and> json_de K (text_of (json_ser K b)) = Inr b
      \<and> json_ser K b \<noteq> [] \<and> 10 \<notin> set (json_ser K b) \<and> last (json_ser K b) \<noteq> 13
      \<and> utf8_valid (json_ser K b) \<and> trim (text_of (json_ser K b)) \<noteq> [])"

text \<open>The blocks this version writes: protocol version 8.\<close>

definition current_version :: "block list \<Rightarrow> bool" where
  "current_version bs \<longleftrightarrow> (\<forall>b \<in> set bs. h_version (blk_header b) = PROTOCOL_VERSION)"

section \<open>Lemmas\<close>

lemma legacy_roundtrip:
  assumes "\<not> body_has_any_binding (blk_body b)"
  shows "block_from_legacy (legacy_from_current b) = b"
proof -
  have i: "input_legacy (in_commit i) (in_sig i) = i" if "i \<in> set (b_inputs (blk_body b))" for i
    using assms that by (cases i) (auto simp: body_has_any_binding_def has_binding_def input_legacy_def)
  have k: "\<lparr>feature = feature k, fee_darks = fee_darks k, reward_darks = reward_darks k,
      lock_height = lock_height k, excess = excess k, excess_sig = excess_sig k,
      stealth_excess = None, stealth_sig = None\<rparr> = k" if "k \<in> set (b_kernels (blk_body b))" for k
    using assms that by (cases k) (auto simp: body_has_any_binding_def)
  have "b_stealth_offset (blk_body b) = None" "b_kernel_offset (blk_body b) = None"
    using assms by (auto simp: body_has_any_binding_def)
  then show ?thesis
    by (cases b, cases "blk_body b")
      (simp add: block_from_legacy_def legacy_from_current_def o_def i k map_idI)
qed

lemma le_bytes_4:
  "le_bytes 4 n = [of_nat (n mod 256), of_nat (n div 256 mod 256),
     of_nat (n div 256 div 256 mod 256), of_nat (n div 256 div 256 div 256 mod 256)]"
proof -
  have "(4 :: nat) = Suc (Suc (Suc (Suc 0)))" by simp
  then show ?thesis by (simp only: le_bytes.simps)
qed

lemma u32_le_version: "u32_le PROTOCOL_VERSION = [8, 0, 0, 0]"
  by (simp add: u32_le_def params le_bytes_4)

lemma decode_record:
  assumes K: "codec_for K [b]" and v: "current_version [b]"
  shows "decode_binary_record K (record_bytes K b) = Inr b" "record_bytes K b \<noteq> []"
proof -
  let ?l = "leg_ser K (legacy_from_current b)"
  have l: "take 4 ?l = [8, 0, 0, 0]"
    using K v by (simp add: codec_for_def current_version_def u32_le_version)
  have "take 4 (take 8 ?l) \<noteq> take 4 RECORD_V2_MAGIC"
    using l by (simp add: params)
  then have m: "take 8 ?l \<noteq> RECORD_V2_MAGIC" by metis
  show "decode_binary_record K (record_bytes K b) = Inr b"
    using K m legacy_roundtrip [of b]
    by (auto simp: decode_binary_record_def record_bytes_def codec_for_def)
      (simp_all add: params)
  show "record_bytes K b \<noteq> []"
    using l by (auto simp: record_bytes_def params)
qed

lemma write_block_binary:
  assumes "write_block K Binary b = Inr w"
  shows "w = le_bytes 4 (length (record_bytes K b)) @ record_bytes K b"
    and "length (record_bytes K b) \<le> MAX_RECORD_BYTES"
  using assms by (auto simp: write_block_def Let_def split: if_splits)

lemma le_nat_record: "n \<le> MAX_RECORD_BYTES \<Longrightarrow> le_nat (le_bytes 4 n) = n"
  by (simp add: le_nat_le_bytes params)

text \<open>A length prefix that starts with the two characters of a JSON object.\<close>

definition looks_json :: "bytes \<Rightarrow> bool" where
  "looks_json s \<longleftrightarrow> take 2 s = [0x7B, 0x22]"

lemma read_binary_record:
  assumes K: "codec_for K [b]" and v: "current_version [b]"
    and w: "write_block K Binary b = Inr w" and j: "first \<Longrightarrow> \<not> looks_json w"
  shows "read_binary K i first (w @ rest)
    = res_bind (read_binary K (i + 1) False rest) (\<lambda>bs. Inr (b # bs))"
proof -
  let ?r = "record_bytes K b"
  note w' = write_block_binary [OF w]
  note d = decode_record [OF K v]
  have len: "length ?r \<noteq> 0" using d(2) by simp
  have t: "take 4 (w @ rest) = le_bytes 4 (length ?r)" "drop 4 (w @ rest) = ?r @ rest"
    by (simp_all add: w'(1))
  have "take 2 (w @ rest) = take 2 w" by (simp add: w'(1))
  then have j': "\<not> (first \<and> take 2 (w @ rest) = [0x7B, 0x22])"
    using j by (auto simp: looks_json_def)
  have "4 \<le> length w" by (simp add: w'(1))
  then have ne: "w @ rest \<noteq> []" "\<not> length (w @ rest) < 4" by auto
  have fits: "\<not> (length ?r = 0 \<or> MAX_RECORD_BYTES < length ?r)"
    "\<not> length (?r @ rest) < length ?r" "take (length ?r) (?r @ rest) = ?r"
    "drop (length ?r) (?r @ rest) = rest" using len w'(2) by auto
  show ?thesis
    by (subst read_binary.simps)
      (simp only: ne j' if_False t Let_def le_nat_record [OF w'(2)] fits d(1) sum.case)
qed

lemma write_all_Cons:
  "write_all_blocks K fmt (b # bs) = Inr s \<longleftrightarrow>
     (\<exists>w s'. write_block K fmt b = Inr w \<and> write_all_blocks K fmt bs = Inr s' \<and> s = w @ s')"
proof -
  have acc: "res_fold (\<lambda>acc b. res_bind (write_block K fmt b) (\<lambda>w. Inr (acc @ w))) a bs = Inr s
    \<longleftrightarrow> (\<exists>t. res_fold (\<lambda>acc b. res_bind (write_block K fmt b) (\<lambda>w. Inr (acc @ w))) [] bs = Inr t
          \<and> s = a @ t)" for a s
  proof (induction bs arbitrary: a s)
    case (Cons b bs)
    show ?case
    proof (cases "write_block K fmt b")
      case (Inr w)
      then show ?thesis using Cons.IH [of "a @ w"] Cons.IH [of w] by auto
    qed auto
  qed auto
  show ?thesis
  proof (cases "write_block K fmt b")
    case (Inr w)
    then show ?thesis using acc [of w s] by (auto simp: write_all_blocks_def)
  qed (simp add: write_all_blocks_def)
qed

lemma codec_for_Cons: "codec_for K (b # bs) \<longleftrightarrow> codec_for K [b] \<and> codec_for K bs"
  by (auto simp: codec_for_def)

lemma read_binary_rest:
  "codec_for K bs \<Longrightarrow> current_version bs \<Longrightarrow> write_all_blocks K Binary bs = Inr s \<Longrightarrow>
     read_binary K i False (s @ rest)
       = res_bind (read_binary K (i + length bs) False rest) (\<lambda>cs. Inr (bs @ cs))"
proof (induction bs arbitrary: i s)
  case Nil
  then show ?case
    by (cases "read_binary K i False rest") (auto simp: write_all_blocks_def)
next
  case (Cons b bs)
  from Cons.prems(3) obtain w s' where w: "write_block K Binary b = Inr w"
    "write_all_blocks K Binary bs = Inr s'" "s = w @ s'" by (auto simp: write_all_Cons)
  have K: "codec_for K [b]" "codec_for K bs" using Cons.prems(1) codec_for_Cons by blast+
  have v: "current_version [b]" "current_version bs"
    using Cons.prems(2) by (simp_all add: current_version_def)
  show ?case
    using read_binary_record [OF K(1) v(1) w(1), of False i "s' @ rest"]
      Cons.IH [OF K(2) v(2) w(2), of "i + 1"]
    by (cases "read_binary K (i + length (b # bs)) False rest") (simp_all add: w(3))
qed

lemma read_binary_file:
  assumes "codec_for K bs" "current_version bs" "write_all_blocks K Binary bs = Inr s"
    and "\<not> looks_json s"
  shows "read_binary K i True (s @ rest)
    = (if bs = [] then read_binary K i True rest
       else res_bind (read_binary K (i + length bs) False rest) (\<lambda>cs. Inr (bs @ cs)))"
proof (cases bs)
  case Nil
  then show ?thesis using assms by (simp add: write_all_blocks_def)
next
  case (Cons b cs)
  from assms(3) obtain w s' where w: "write_block K Binary b = Inr w"
    "write_all_blocks K Binary cs = Inr s'" "s = w @ s'" by (auto simp: write_all_Cons Cons)
  have K: "codec_for K [b]" "codec_for K cs" using assms(1) codec_for_Cons Cons by blast+
  have v: "current_version [b]" "current_version cs"
    using assms(2) by (simp_all add: current_version_def Cons)
  have "take 2 s = take 2 w" using write_block_binary(1) [OF w(1)] by (simp add: w(3))
  then have "\<not> looks_json w" using assms(4) by (simp add: looks_json_def)
  then show ?thesis
    using read_binary_record [OF K(1) v(1) w(1), of True i "s' @ rest"]
      read_binary_rest [OF K(2) v(2) w(2), of "i + 1" rest]
    by (cases "read_binary K (i + length bs) False rest") (simp_all add: w(3) Cons)
qed

lemma read_json_rest:
  "codec_for K bs \<Longrightarrow> write_all_blocks K Json bs = Inr s \<Longrightarrow> read_json K i (lines_of s) = Inr bs"
proof (induction bs arbitrary: i s)
  case (Cons b bs)
  from Cons.prems(2) obtain s' where s: "write_all_blocks K Json bs = Inr s'"
    "s = json_ser K b @ 10 # s'" by (auto simp: write_all_Cons write_block_def)
  have K: "codec_for K [b]" "codec_for K bs" using Cons.prems(1) codec_for_Cons by blast+
  have "lines_of s = json_ser K b # lines_of s'"
    unfolding s(2) by (rule lines_of_line) (use K(1) in \<open>auto simp: codec_for_def\<close>)
  then show ?case using K(1) Cons.IH [OF K(2) s(1)] by (simp add: codec_for_def)
qed (simp add: write_all_blocks_def)

text \<open>What was written is read back, in either format.\<close>

lemma file_roundtrip:
  assumes "codec_for K bs" "current_version bs" "write_all_blocks K fmt bs = Inr s"
    and "fmt = Binary \<Longrightarrow> \<not> looks_json s"
  shows "read_blocks K fmt s = Inr bs"
proof (cases fmt)
  case Json
  then show ?thesis using read_json_rest [OF assms(1)] assms(3) by (simp add: read_blocks_def)
next
  case Binary
  have "read_binary K i f [] = Inr []" for i f by (simp add: read_binary.simps)
  then show ?thesis
    using read_binary_file [of K bs s 0 "[]"] assms Binary by (simp add: read_blocks_def)
qed

text \<open>A binary file cut inside a record is refused.\<close>

lemma read_binary_cut:
  assumes w: "write_block K Binary b = Inr w" and k: "0 < k" "k < length w"
  shows "\<exists>e. read_binary K i False (take k w) = Inl e"
proof -
  note w' = write_block_binary [OF w]
  have lw: "length w = 4 + length (record_bytes K b)" by (simp add: w'(1))
  show ?thesis
  proof (cases "k < 4")
    case True
    then show ?thesis using k by (subst read_binary.simps) auto
  next
    case False
    then have t: "take 4 (take k w) = le_bytes 4 (length (record_bytes K b))"
      by (simp add: w'(1) min_def)
    have "length (drop 4 (take k w)) < length (record_bytes K b)" using k False lw by simp
    moreover have "take k w \<noteq> []" "\<not> length (take k w) < 4" using k False by auto
    ultimately show ?thesis
      by (subst read_binary.simps)
        (simp only: if_False Let_def t le_nat_record [OF w'(2)], auto)
  qed
qed

lemma cut_file_refused:
  assumes K: "codec_for K bs" "current_version bs" and s: "write_all_blocks K Binary bs = Inr s"
    and ne: "bs \<noteq> []" "\<not> looks_json s"
    and w: "write_block K Binary b = Inr w" and k: "0 < k" "k < length w"
  shows "\<exists>e. read_blocks K Binary (s @ take k w) = Inl e"
proof -
  obtain e where "read_binary K (length bs) False (take k w) = Inl e"
    using read_binary_cut [OF w k] by blast
  then show ?thesis
    using read_binary_file [OF K s ne(2), of 0 "take k w"] ne(1) by (simp add: read_blocks_def)
qed

text \<open>
  A file that starts with a record whose length reads as the characters of a JSON object is
  taken for JSON and refused: 8827 is the least such length.
\<close>

lemma record_taken_for_json:
  assumes "write_block K Binary b = Inr w" "length (record_bytes K b) mod 65536 = 8827"
  shows "read_blocks K Binary (w @ rest) = Inl JsonInBinary"
proof -
  let ?n = "length (record_bytes K b)"
  note w' = write_block_binary(1) [OF assms(1)]
  define q where "q = ?n div 65536"
  have n: "?n = 256 * (256 * q + 34) + 123"
    using div_mult_mod_eq [of ?n 65536] assms(2) by (simp add: q_def)
  have "?n mod 256 = 123" by (simp only: n mod_mult_self4) simp
  moreover have "?n div 256 = 256 * q + 34" by (simp add: n)
  ultimately have "?n mod 256 = 123" "?n div 256 mod 256 = 34" by simp_all
  then have t: "take 2 (w @ rest) = [0x7B, 0x22]"
    by (simp add: w' le_bytes_4)
  have "4 \<le> length w" by (simp add: w')
  then have "w @ rest \<noteq> []" "\<not> length (w @ rest) < 4" by auto
  then show ?thesis
    unfolding read_blocks_def file_format.case
    by (subst read_binary.simps) (simp only: t if_False if_True simp_thms)
qed

end
