(* ===== verification/Store.thy ===== *)
theory Store
  imports Codec Chain Prelude Rust_Net
begin

text \<open>
  \<open>crates/nightfall-storage/src/lib.rs\<close>: the data directory of a node.

  A directory maps file names to contents.  Operations on files are steps: a rename, a
  removal and a change of length are atomic, a write goes through the empty file and every
  prefix of the new contents, an append through every prefix of what is added.  The state of
  a computation is the directory with all the directories it went through, so a crash of the
  process leaves any of them.  Reads and writes themselves do not fail here; what fails is
  what the code decides to refuse.  \<open>sync_all\<close> matters for a crash of the machine only.

  \<open>serde_json\<close> for the metadata, the headers and the horizon is a parameter like the codec,
  and so is the seed that the identifier of a new installation is made from.
\<close>

section \<open>Files\<close>

type_synonym dir = "string \<rightharpoonup> bytes"

record disk =
  dir_now :: dir
  dir_past :: "dir list"

datatype store_error =
    InterruptedRecovery
  | LegacyChain
  | WrongNetwork network_id
  | UntrustedPruned
  | MissingFile string
  | Undecodable codec_error
  | CorruptHeader nat string
  | CorruptHorizon string
  | BadHorizon string
  | MissingHorizon
  | HeaderPrefix nat u64
  | StoredBlockFailed nat consensus_error
  | TipMismatch string string
  | RootMismatch
  | KernelSumMismatch
  | SupplyViolated consensus_error
  | CountMismatch u64 u64
  | ChainErr consensus_error
  | AlreadyBinary
  | EmptyChainFile
  | ConvertedCount nat nat
  | ConvertedBlock nat
  | PrunedSnapshot
  | NoMetadata
  | SnapshotNetwork network_id
  | SnapshotTip string string
  | SnapshotGenesis string string
  | SliceOutOfRange

type_synonym 'a store = "(disk, store_error, 'a) sr"

definition touch :: "dir list \<Rightarrow> dir \<Rightarrow> unit store" where
  "touch between d s = (\<lparr>dir_now = d, dir_past = dir_past s @ dir_now s # between\<rparr>, Inr ())"

definition file_write :: "string \<Rightarrow> bytes \<Rightarrow> unit store" where
  "file_write f bs s =
     touch (map (\<lambda>k. (dir_now s)(f \<mapsto> take k bs)) [0..<length bs]) ((dir_now s)(f \<mapsto> bs)) s"

definition file_append :: "string \<Rightarrow> bytes \<Rightarrow> unit store" where
  "file_append f bs s =
     (let old = (case dir_now s f of None \<Rightarrow> [] | Some b \<Rightarrow> b) in
      touch (map (\<lambda>k. (dir_now s)(f \<mapsto> old @ take k bs)) [0..<length bs])
        ((dir_now s)(f \<mapsto> old @ bs)) s)"

definition file_rename :: "string \<Rightarrow> string \<Rightarrow> unit store" where
  "file_rename f g s =
     (case dir_now s f of
        None \<Rightarrow> (s, Inl (MissingFile f))
      | Some bs \<Rightarrow> touch [] ((dir_now s)(f := None, g \<mapsto> bs)) s)"

definition file_remove :: "string \<Rightarrow> unit store" where
  "file_remove f s = touch [] ((dir_now s)(f := None)) s"

definition file_truncate :: "string \<Rightarrow> nat \<Rightarrow> unit store" where
  "file_truncate f n s =
     (case dir_now s f of
        None \<Rightarrow> (s, Inl (MissingFile f))
      | Some bs \<Rightarrow> touch [] ((dir_now s)(f \<mapsto> take n bs @ replicate (n - length bs) 0)) s)"

definition file_read :: "string \<Rightarrow> bytes store" where
  "file_read f s =
     (case dir_now s f of None \<Rightarrow> (s, Inl (MissingFile f)) | Some bs \<Rightarrow> (s, Inr bs))"

definition file_len :: "dir \<Rightarrow> string \<Rightarrow> u64" where
  "file_len d f = (case d f of None \<Rightarrow> 0 | Some bs \<Rightarrow> of_nat (length bs))"

text \<open>\<open>read_to_string(..).ok()\<close>.\<close>

definition read_text :: "dir \<Rightarrow> string \<Rightarrow> string option" where
  "read_text d f =
     (case d f of None \<Rightarrow> None | Some bs \<Rightarrow> if utf8_valid bs then Some (text_of bs) else None)"

section \<open>Metadata\<close>

record chain_meta =
  m_network :: network_id
  m_genesis_hash :: string
  m_block_count :: u64
  m_protocol_version :: u32
  m_validated_by :: string
  m_validated_tip :: string
  m_validated_bytes :: u64
  m_first_height :: u64
  m_pruned :: bool
  m_horizon_work :: string
  m_validated_horizon_bytes :: u64
  m_validated_headers_bytes :: u64

record horizon_utxo =
  hu_commit :: string
  hu_output_pk :: string
  hu_height :: u64
  hu_is_coinbase :: bool

record horizon_file =
  hf_height :: u64
  hf_minted :: u64
  hf_burned :: u64
  hf_tx_count :: u64
  hf_maturity :: u64
  hf_kernel_sum :: string
  hf_kernel_count :: u64
  hf_utxos :: "horizon_utxo list"

record snapshot_manifest =
  sm_v :: u32
  sm_network :: network_id
  sm_genesis :: string
  sm_tip :: string
  sm_blocks :: u64
  sm_format :: string

record store_lib =
  lib_codec :: codec
  meta_ser :: "chain_meta \<Rightarrow> bytes"
  meta_de :: "string \<Rightarrow> chain_meta option"
  header_ser :: "compact_header \<Rightarrow> bytes"
  header_de :: "string \<Rightarrow> string + compact_header"
  horizon_ser :: "horizon_file \<Rightarrow> bytes"
  horizon_de :: "bytes \<Rightarrow> string + horizon_file"
  manifest_ser :: "snapshot_manifest \<Rightarrow> bytes"
  manifest_de :: "string \<Rightarrow> snapshot_manifest option"
  id_seed :: u64

definition HEADERS_FILE :: string where "HEADERS_FILE = ''headers.jsonl''"
definition HORIZON_FILE :: string where "HORIZON_FILE = ''utxo-horizon.json''"
definition META_FILE :: string where "META_FILE = ''chain-meta.json''"
definition META_TMP :: string where "META_TMP = ''chain-meta.json.tmp''"
definition LEGACY_FILE :: string where "LEGACY_FILE = ''chain.json''"
definition INSTALL_ID :: string where "INSTALL_ID = ''install-id''"
definition RECOVERY_JOURNAL :: string where "RECOVERY_JOURNAL = ''.recovery-journal.json''"

lemmas file_names = BLOCKS_BIN_def BLOCKS_JSONL_def HEADERS_FILE_def HORIZON_FILE_def META_FILE_def
  META_TMP_def LEGACY_FILE_def INSTALL_ID_def RECOVERY_JOURNAL_def

definition format_of :: "dir \<Rightarrow> file_format" where
  "format_of d = detect (\<lambda>f. d f \<noteq> None)"

definition blocks_path :: "dir \<Rightarrow> string" where
  "blocks_path d = format_file_name (format_of d)"

definition read_meta :: "store_lib \<Rightarrow> dir \<Rightarrow> chain_meta option" where
  "read_meta L d = Option.bind (read_text d META_FILE) (meta_de L)"

definition stored_block_count :: "store_lib \<Rightarrow> dir \<Rightarrow> u64" where
  "stored_block_count L d = (case read_meta L d of None \<Rightarrow> 0 | Some m \<Rightarrow> m_block_count m)"

definition stored_tip :: "store_lib \<Rightarrow> dir \<Rightarrow> string option" where
  "stored_tip L d =
     (case read_meta L d of
        None \<Rightarrow> None
      | Some m \<Rightarrow> if m_validated_tip m \<noteq> [] then Some (m_validated_tip m) else None)"

definition peek_meta :: "store_lib \<Rightarrow> dir \<Rightarrow> (u64 \<times> string \<times> string) option" where
  "peek_meta L d =
     (case read_meta L d of
        None \<Rightarrow> None
      | Some m \<Rightarrow>
          if m_validated_tip m = [] then None
          else Some (m_block_count m, m_validated_tip m, m_genesis_hash m))"

text \<open>The stored identifier, if it can be read and is not blank.\<close>

definition stored_id :: "dir \<Rightarrow> string option" where
  "stored_id d =
     (case read_text d INSTALL_ID of
        None \<Rightarrow> None
      | Some s \<Rightarrow> if trim s \<noteq> [] then Some (trim s) else None)"

text \<open>\<open>getrandom_bytes\<close> from the seed it hashed together, and the identifier made of 16 such bytes.\<close>

fun spread_seed :: "nat \<Rightarrow> u64 \<Rightarrow> bytes" where
  "spread_seed 0 x = []"
| "spread_seed (Suc n) x =
     (let x1 = xor x (drop_bit 12 x); x2 = xor x1 (push_bit 25 x1); x3 = xor x2 (drop_bit 27 x2)
      in ucast (drop_bit 32 (x3 * 0x2545F4914F6CDD1D)) # spread_seed n x3)"

definition fresh_id :: "store_lib \<Rightarrow> string" where
  "fresh_id L = hex_encode (spread_seed 16 (id_seed L))"

definition install_id :: "store_lib \<Rightarrow> string store" where
  "install_id L s =
     (case stored_id (dir_now s) of
        Some i \<Rightarrow> (s, Inr i)
      | None \<Rightarrow> sr_bind (file_write INSTALL_ID (str_bytes (fresh_id L)))
                  (\<lambda>_. sr_return (fresh_id L)) s)"

definition publish_meta :: "store_lib \<Rightarrow> chain_meta \<Rightarrow> unit store" where
  "publish_meta L m =
     sr_bind (file_write META_TMP (meta_ser L m)) (\<lambda>_. file_rename META_TMP META_FILE)"

definition write_meta :: "('p, 's) crypto \<Rightarrow> store_lib \<Rightarrow> 'p chain \<Rightarrow> unit store" where
  "write_meta C L ch =
     sr_bind (sr_get dir_now) (\<lambda>d.
     sr_bind (install_id L) (\<lambda>i.
       publish_meta L
         \<lparr>m_network = network ch, m_genesis_hash = hash_to_hex (genesis_hash ch),
          m_block_count = block_count ch, m_protocol_version = PROTOCOL_VERSION,
          m_validated_by = i, m_validated_tip = hash_to_hex (tip_hash C ch),
          m_validated_bytes = file_len d (blocks_path d), m_first_height = first_height ch,
          m_pruned = is_pruned ch, m_horizon_work = dec_string (unat (horizon_work ch)),
          m_validated_horizon_bytes = file_len d HORIZON_FILE,
          m_validated_headers_bytes = file_len d HEADERS_FILE\<rparr>))"

definition is_own_file_trusted :: "store_lib \<Rightarrow> bool store" where
  "is_own_file_trusted L =
     sr_bind (sr_get dir_now) (\<lambda>d.
     (case read_meta L d of
        None \<Rightarrow> sr_return False
      | Some m \<Rightarrow>
          if m_validated_tip m = [] then sr_return False
          else if m_validated_by m = [] then sr_return False
          else
            sr_bind (install_id L) (\<lambda>i.
            sr_bind (sr_get dir_now) (\<lambda>d.
              sr_return
                (let n = file_len d (blocks_path d);
                     hz = file_len d HORIZON_FILE; hd = file_len d HEADERS_FILE in
                 if m_validated_by m \<noteq> i then False
                 else if m_validated_bytes m \<noteq> n \<or> n = 0 then False
                 else if \<not> m_pruned m \<and> m_first_height m = 0 then True
                 else m_validated_horizon_bytes m = hz \<and> 0 < hz
                   \<and> m_validated_headers_bytes m = hd \<and> 0 < hd)))))"

section \<open>Writing\<close>

text \<open>What a loop of \<open>write_block\<close> leaves in the file when it stops at the first refusal.\<close>

fun written :: "codec \<Rightarrow> file_format \<Rightarrow> block list \<Rightarrow> bytes \<times> (codec_error + unit)" where
  "written K fmt [] = ([], Inr ())"
| "written K fmt (b # bs) =
     (case write_block K fmt b of
        Inl e \<Rightarrow> ([], Inl e)
      | Inr w \<Rightarrow> (case written K fmt bs of (s, r) \<Rightarrow> (w @ s, r)))"

definition write_blocks ::
    "(bytes \<Rightarrow> unit store) \<Rightarrow> codec \<Rightarrow> file_format \<Rightarrow> block list \<Rightarrow> unit store" where
  "write_blocks put K fmt bs =
     (case written K fmt bs of (s, r) \<Rightarrow>
        sr_bind (put s) (\<lambda>_. sr_lift (map_err Undecodable r)))"

definition tmp_of :: "file_format \<Rightarrow> string" where
  "tmp_of fmt = format_file_name fmt @ ''.tmp''"

definition write_headers :: "store_lib \<Rightarrow> 'p chain \<Rightarrow> unit store" where
  "write_headers L ch =
     sr_bind (file_write (HEADERS_FILE @ ''.tmp'')
                (concat (map (\<lambda>h. header_ser L h @ [10]) (headers ch))))
       (\<lambda>_. file_rename (HEADERS_FILE @ ''.tmp'') HEADERS_FILE)"

definition horizon_to_file :: "'p ledger_state \<Rightarrow> horizon_file" where
  "horizon_to_file S =
     \<lparr>hf_height = l_height S, hf_minted = total_minted_darks (l_supply S),
      hf_burned = total_burned_darks (l_supply S), hf_tx_count = l_tx_count S,
      hf_maturity = l_maturity S, hf_kernel_sum = hash_to_hex (acc_sum (l_kernels S)),
      hf_kernel_count = acc_count (l_kernels S),
      hf_utxos = map (\<lambda>(k, e). \<lparr>hu_commit = hash_to_hex k, hu_output_pk = hash_to_hex (e_output_pk e),
          hu_height = e_height e, hu_is_coinbase = e_is_coinbase e\<rparr>) (entries (l_utxos S))\<rparr>"

definition write_horizon :: "store_lib \<Rightarrow> 'p chain \<Rightarrow> unit store" where
  "write_horizon L ch =
     (case horizon ch of
        None \<Rightarrow> sr_fail MissingHorizon
      | Some hz \<Rightarrow>
          sr_bind (file_write (HORIZON_FILE @ ''.tmp'') (horizon_ser L (horizon_to_file hz)))
            (\<lambda>_. file_rename (HORIZON_FILE @ ''.tmp'') HORIZON_FILE))"

definition rewrite_bodies :: "store_lib \<Rightarrow> 'p chain \<Rightarrow> unit store" where
  "rewrite_bodies L ch =
     sr_bind (sr_get (\<lambda>s. format_of (dir_now s))) (\<lambda>fmt.
     sr_bind (write_blocks (file_write (tmp_of fmt)) (lib_codec L) fmt (blocks ch)) (\<lambda>_.
     sr_bind (sr_get (\<lambda>s. blocks_path (dir_now s))) (\<lambda>p. file_rename (tmp_of fmt) p)))"

definition rewrite_all :: "('p, 's) crypto \<Rightarrow> store_lib \<Rightarrow> 'p chain \<Rightarrow> unit store" where
  "rewrite_all C L ch =
     (if is_pruned ch then
        sr_bind (write_headers L ch) (\<lambda>_. sr_bind (write_horizon L ch) (\<lambda>_.
        sr_bind (rewrite_bodies L ch) (\<lambda>_. write_meta C L ch)))
      else sr_bind (rewrite_bodies L ch) (\<lambda>_. write_meta C L ch))"

definition save_pruned :: "('p, 's) crypto \<Rightarrow> store_lib \<Rightarrow> 'p chain \<Rightarrow> unit store" where
  "save_pruned C L ch =
     sr_bind (sr_get dir_now) (\<lambda>d.
     (let meta = read_meta L d;
          stored_first = (case meta of None \<Rightarrow> 0 | Some m \<Rightarrow> m_first_height m);
          stored_count = (case meta of None \<Rightarrow> 0 | Some m \<Rightarrow> m_block_count m);
          tip = (case meta of None \<Rightarrow> [] | Some m \<Rightarrow> m_validated_tip m);
          ancestor_ok = (stored_count = 0 \<or>
            (case hash_at C ch (stored_count - 1) of None \<Rightarrow> False | Some h \<Rightarrow> hash_to_hex h = tip));
          rewrite = (d (blocks_path d) = None \<or> stored_first \<noteq> first_height ch
            \<or> block_count ch < stored_count \<or> \<not> ancestor_ok)
      in sr_bind (write_headers L ch) (\<lambda>_.
         sr_bind (write_horizon L ch) (\<lambda>_.
         sr_bind
           (if rewrite then rewrite_bodies L ch
            else if stored_count < block_count ch then
              sr_bind (sr_get dir_now) (\<lambda>d.
                write_blocks (file_append (blocks_path d)) (lib_codec L) (format_of d)
                  (drop (unat (sat_sub stored_count (first_height ch))) (blocks ch)))
            else sr_return ()) (\<lambda>_. write_meta C L ch)))))"

definition save :: "('p, 's) crypto \<Rightarrow> store_lib \<Rightarrow> 'p chain \<Rightarrow> unit store" where
  "save C L ch =
     (if is_pruned ch then save_pruned C L ch
      else
        sr_bind (sr_get dir_now) (\<lambda>d.
        (let on_disk = stored_block_count L d; have' = block_count ch;
             matches = (case (hash_at C ch (on_disk - 1), stored_tip L d) of
               (Some h, Some t) \<Rightarrow> hash_to_hex h = t
             | _ \<Rightarrow> False)
         in if have' < on_disk \<or> d (blocks_path d) = None then rewrite_all C L ch
            else if 0 < on_disk \<and> \<not> matches then rewrite_all C L ch
            else if on_disk = have' then write_meta C L ch
            else if length (blocks ch) < unat on_disk then sr_fail SliceOutOfRange
            else
              sr_bind (write_blocks (file_append (blocks_path d)) (lib_codec L) (format_of d)
                         (drop (unat on_disk) (blocks ch)))
                (\<lambda>_. write_meta C L ch))))"

end
