(* ===== verification/Store_Load.thy ===== *)
theory Store_Load
  imports Store
begin

text \<open>
  \<open>crates/nightfall-storage/src/lib.rs\<close>, reading: loading a chain, the repair of an append
  that its metadata does not cover, migration to the binary format and snapshots.
\<close>

section \<open>The horizon and the headers\<close>

fun add_horizon_utxos ::
    "('p::ab_group_add, 's) crypto \<Rightarrow> 'p utxo_set \<Rightarrow> horizon_utxo list \<Rightarrow> store_error + 'p utxo_set" where
  "add_horizon_utxos C us [] = Inr us"
| "add_horizon_utxos C us (u # rest) =
     (case hash_from_hex (hu_commit u) of
        Inl _ \<Rightarrow> Inl (BadHorizon ''commit'')
      | Inr c \<Rightarrow>
          (case hash_from_hex (hu_output_pk u) of
             Inl _ \<Rightarrow> Inl (BadHorizon ''output_pk'')
           | Inr pk \<Rightarrow>
               add_horizon_utxos C
                 (utxo_put C c \<lparr>e_output_pk = pk, e_height = hu_height u,
                                e_is_coinbase = hu_is_coinbase u\<rparr> us) rest))"

definition load_horizon_file ::
    "('p::ab_group_add, 's) crypto \<Rightarrow> store_lib \<Rightarrow> 'p ledger_state store" where
  "load_horizon_file C L =
     sr_bind (file_read HORIZON_FILE) (\<lambda>bs.
     sr_bind (sr_lift (map_err CorruptHorizon (horizon_de L bs))) (\<lambda>f.
     sr_bind (sr_lift (add_horizon_utxos C utxo_new (hf_utxos f))) (\<lambda>us.
     sr_bind (sr_lift (map_err (\<lambda>_. BadHorizon ''kernel_sum'') (hash_from_hex (hf_kernel_sum f)))) (\<lambda>k.
       sr_return
         \<lparr>l_height = hf_height f, l_utxos = us,
          l_kernels = \<lparr>acc_sum = k, acc_count = hf_kernel_count f\<rparr>,
          l_supply = \<lparr>total_minted_darks = hf_minted f, total_burned_darks = hf_burned f\<rparr>,
          l_tx_count = hf_tx_count f, l_maturity = hf_maturity f,
          l_binding_height = binding_fork_height Mainnet\<rparr>))))"

fun read_headers :: "store_lib \<Rightarrow> nat \<Rightarrow> bytes list \<Rightarrow> store_error + compact_header list" where
  "read_headers L i [] = Inr []"
| "read_headers L i (l # ls) =
     (if \<not> utf8_valid l then Inl (Undecodable NotUtf8)
      else if trim (text_of l) = [] then read_headers L (i + 1) ls
      else
        (case header_de L (text_of l) of
           Inl e \<Rightarrow> Inl (CorruptHeader i e)
         | Inr h \<Rightarrow> res_bind (read_headers L (i + 1) ls) (\<lambda>hs. Inr (h # hs))))"

definition load_jsonl_headers :: "store_lib \<Rightarrow> compact_header list store" where
  "load_jsonl_headers L =
     sr_bind (file_read HEADERS_FILE) (\<lambda>bs. sr_lift (read_headers L 0 (lines_of bs)))"

section \<open>Refusal and repair\<close>

definition refuse_if_interrupted_recovery :: "unit store" where
  "refuse_if_interrupted_recovery =
     sr_bind (sr_get dir_now) (\<lambda>d. sr_require (d RECOVERY_JOURNAL = None) InterruptedRecovery)"

text \<open>Full validation of a list of blocks from genesis; what is kept of a failure is that it failed.\<close>

definition prefix_matches ::
    "('p::ab_group_add, 's::comm_ring_1) crypto \<Rightarrow> (genesis_config \<Rightarrow> bytes option) \<Rightarrow> chain_meta
       \<Rightarrow> block list \<Rightarrow> u64 \<Rightarrow> bool" where
  "prefix_matches C json m bs now =
     (case new_fair C json (m_network m) of
        Inl _ \<Rightarrow> False
      | Inr ch0 \<Rightarrow>
          (case res_fold (\<lambda>ch b. state_result (chain_apply_block C ch b now)) ch0 bs of
             Inl _ \<Rightarrow> False
           | Inr ch \<Rightarrow> is_ok (chain_verify_supply C ch) \<and> block_count ch = m_block_count m
               \<and> hash_to_hex (tip_hash C ch) = m_validated_tip m
               \<and> hash_to_hex (genesis_hash ch) = m_genesis_hash m))"

definition recover_uncommitted_archive_tail ::
    "('p::ab_group_add, 's::comm_ring_1) crypto \<Rightarrow> (genesis_config \<Rightarrow> bytes option) \<Rightarrow> store_lib
       \<Rightarrow> network_id \<Rightarrow> u64 \<Rightarrow> unit store" where
  "recover_uncommitted_archive_tail C json L n now =
     sr_bind (sr_get dir_now) (\<lambda>d.
     (case read_meta L d of
        None \<Rightarrow> sr_return ()
      | Some m \<Rightarrow>
          if m_network m \<noteq> n \<or> (case new_fair C json n of Inl _ \<Rightarrow> True
               | Inr ch \<Rightarrow> hash_to_hex (genesis_hash ch) \<noteq> m_genesis_hash m)
            then sr_return ()
          else if m_pruned m \<or> m_first_height m \<noteq> 0 \<or> m_validated_bytes m = 0
              \<or> m_validated_tip m = [] \<or> m_validated_by m = []
            then sr_return ()
          else
            sr_bind (install_id L) (\<lambda>i.
            if m_validated_by m \<noteq> i then sr_return ()
            else
              sr_bind (sr_get dir_now) (\<lambda>d.
              (case d (blocks_path d) of
                 None \<Rightarrow> sr_return ()
               | Some bs \<Rightarrow>
                   if (of_nat (length bs) :: u64) \<le> m_validated_bytes m then sr_return ()
                   else
                     (case read_blocks (lib_codec L) (format_of d)
                             (take (unat (m_validated_bytes m)) bs) of
                        Inl _ \<Rightarrow> sr_return ()
                      | Inr blks \<Rightarrow>
                          if prefix_matches C json m blks now
                          then file_truncate (blocks_path d) (unat (m_validated_bytes m))
                          else sr_return ()))))))"

section \<open>Loading\<close>

definition load_pruned_base ::
    "('p::ab_group_add, 's) crypto \<Rightarrow> store_lib \<Rightarrow> network_id \<Rightarrow> chain_meta \<Rightarrow> 'p chain \<Rightarrow> 'p chain store" where
  "load_pruned_base C L n m ch =
     (let work = (case parse_unsigned 128 (m_horizon_work m) of None \<Rightarrow> 0 | Some w \<Rightarrow> of_nat w) in
      sr_bind (load_horizon_file C L) (\<lambda>hz0.
      sr_bind (load_jsonl_headers L) (\<lambda>hs.
      (let hz = with_binding_height hz0 (binding_fork_height n);
           kept = filter (\<lambda>h. c_height h < m_first_height m) hs in
       sr_bind (sr_require ((of_nat (length kept) :: u64) = m_first_height m)
                  (HeaderPrefix (length kept) (m_first_height m))) (\<lambda>_.
         sr_return (ch\<lparr>first_height := m_first_height m, horizon_work := work, ledger := hz,
                       horizon := Some hz, total_work := work, headers := kept\<rparr>))))))"

fun replay_stored ::
    "('p::ab_group_add, 's::comm_ring_1) crypto \<Rightarrow> bool \<Rightarrow> u64 \<Rightarrow> nat \<Rightarrow> 'p chain \<Rightarrow> block list
       \<Rightarrow> store_error + 'p chain" where
  "replay_stored C trusted now i ch [] = Inr ch"
| "replay_stored C trusted now i ch (b # bs) =
     (case (if trusted then apply_block_from_own_disk C ch b else chain_apply_block C ch b now) of
        (ch', Inl e) \<Rightarrow> Inl (StoredBlockFailed i e)
      | (ch', Inr _) \<Rightarrow> replay_stored C trusted now (i + 1) ch' bs)"

text \<open>The record of a trusted replay must describe what was rebuilt.\<close>

definition check_record ::
    "('p, 's) crypto \<Rightarrow> chain_meta option \<Rightarrow> 'p chain \<Rightarrow> store_error + unit" where
  "check_record C meta ch =
     res_bind (case meta of
         None \<Rightarrow> Inr ()
       | Some m \<Rightarrow> ensure (TipMismatch (m_validated_tip m) (hash_to_hex (tip_hash C ch)))
                     (m_validated_tip m = hash_to_hex (tip_hash C ch))) (\<lambda>_.
     (case last_opt (blocks ch) of
        None \<Rightarrow> Inr ()
      | Some tip \<Rightarrow>
          res_bind (ensure RootMismatch (ledger_utxo_root C (ledger ch) = h_utxo_root (blk_header tip)))
            (\<lambda>_. ensure KernelSumMismatch
                    (acc_sum (l_kernels (ledger ch)) = h_kernel_sum (blk_header tip)))))"

definition load_existing ::
    "('p::ab_group_add, 's::comm_ring_1) crypto \<Rightarrow> (genesis_config \<Rightarrow> bytes option) \<Rightarrow> store_lib
       \<Rightarrow> network_id \<Rightarrow> u64 \<Rightarrow> 'p chain store" where
  "load_existing C json L n now =
     sr_bind (sr_get (\<lambda>s. read_meta L (dir_now s))) (\<lambda>meta.
     (let pruned = (case meta of None \<Rightarrow> False | Some m \<Rightarrow> m_pruned m \<or> 0 < m_first_height m);
          expected = (case meta of None \<Rightarrow> 0 | Some m \<Rightarrow> m_block_count m) in
      sr_bind (is_own_file_trusted L) (\<lambda>trusted.
      sr_bind (sr_require (pruned \<longrightarrow> trusted) UntrustedPruned) (\<lambda>_.
      sr_bind (sr_lift (map_err ChainErr (new_fair C json n))) (\<lambda>ch0.
      sr_bind (if pruned then load_pruned_base C L n (the meta) ch0 else sr_return ch0) (\<lambda>ch1.
      sr_bind (sr_get dir_now) (\<lambda>d.
      sr_bind (file_read (blocks_path d)) (\<lambda>bs.
      sr_bind (sr_lift (map_err Undecodable (read_blocks (lib_codec L) (format_of d) bs))) (\<lambda>stored.
      sr_bind (sr_lift (replay_stored C trusted now 0 ch1 stored)) (\<lambda>ch.
      sr_bind (if trusted then sr_lift (check_record C meta ch) else sr_return ()) (\<lambda>_.
      sr_bind (sr_lift (map_err SupplyViolated (chain_verify_supply C ch))) (\<lambda>_.
      sr_bind (sr_require (\<not> (pruned \<and> 0 < expected \<and> block_count ch \<noteq> expected))
                 (CountMismatch (block_count ch) expected)) (\<lambda>_.
        sr_return ch)))))))))))))"

definition load_or_new ::
    "('p::ab_group_add, 's::comm_ring_1) crypto \<Rightarrow> (genesis_config \<Rightarrow> bytes option) \<Rightarrow> store_lib
       \<Rightarrow> network_id \<Rightarrow> u64 \<Rightarrow> 'p chain store" where
  "load_or_new C json L n now =
     sr_bind refuse_if_interrupted_recovery (\<lambda>_.
     sr_bind (sr_get dir_now) (\<lambda>d.
     if d LEGACY_FILE \<noteq> None \<and> d (blocks_path d) = None then sr_fail LegacyChain
     else if d (blocks_path d) = None then sr_lift (map_err ChainErr (new_fair C json n))
     else
       sr_bind (case read_meta L d of
           None \<Rightarrow> sr_return ()
         | Some m \<Rightarrow> sr_require (m_network m = n) (WrongNetwork (m_network m))) (\<lambda>_.
       sr_bind (recover_uncommitted_archive_tail C json L n now) (\<lambda>_.
         load_existing C json L n now))))"

section \<open>Migration and snapshots\<close>

definition convert_check ::
    "('p, 's) crypto \<Rightarrow> block list \<Rightarrow> block list \<Rightarrow> store_error + unit" where
  "convert_check C bs back =
     (if length back \<noteq> length bs then Inl (ConvertedCount (length back) (length bs))
      else
        (case List.find (\<lambda>i. block_hash C (bs ! i) \<noteq> block_hash C (back ! i)) [0..<length bs] of
           None \<Rightarrow> Inr ()
         | Some i \<Rightarrow> Inl (ConvertedBlock i)))"

definition migrate_to_binary :: "('p, 's) crypto \<Rightarrow> store_lib \<Rightarrow> (u64 \<times> u64) store" where
  "migrate_to_binary C L =
     (let tmp = ''blocks.bin.tmp''; K = lib_codec L in
      sr_bind refuse_if_interrupted_recovery (\<lambda>_.
      sr_bind (sr_get dir_now) (\<lambda>d.
      sr_bind (sr_require (format_of d \<noteq> Binary) AlreadyBinary) (\<lambda>_.
      sr_bind (file_read BLOCKS_JSONL) (\<lambda>src.
      sr_bind (sr_lift (map_err Undecodable (read_blocks K Json src))) (\<lambda>bs.
      sr_bind (sr_require (bs \<noteq> []) EmptyChainFile) (\<lambda>_.
      sr_bind (write_blocks (file_write tmp) K Binary bs) (\<lambda>_.
      sr_bind (file_read tmp) (\<lambda>bin.
      sr_bind (sr_lift (map_err Undecodable (read_blocks K Binary bin))) (\<lambda>back.
      sr_bind (case convert_check C bs back of
          Inr _ \<Rightarrow> sr_return ()
        | Inl e \<Rightarrow> sr_bind (file_remove tmp) (\<lambda>_. sr_fail e)) (\<lambda>_.
      sr_bind (file_rename tmp BLOCKS_BIN) (\<lambda>_.
      sr_bind (file_rename BLOCKS_JSONL ''blocks.jsonl.pre-binary'') (\<lambda>_.
      sr_bind (sr_get (\<lambda>s. read_meta L (dir_now s))) (\<lambda>meta.
      sr_bind (case meta of
          None \<Rightarrow> sr_return ()
        | Some m \<Rightarrow> publish_meta L (m\<lparr>m_validated_bytes := of_nat (length bin)\<rparr>)) (\<lambda>_.
        sr_return (of_nat (length src), of_nat (length bin)))))))))))))))))"

text \<open>\<open>export_snapshot\<close> gives the files it writes to the other directory.\<close>

definition export_snapshot :: "store_lib \<Rightarrow> (snapshot_manifest \<times> (string \<times> bytes) list) store" where
  "export_snapshot L =
     sr_bind refuse_if_interrupted_recovery (\<lambda>_.
     sr_bind (sr_get dir_now) (\<lambda>d.
     sr_bind (sr_require (case read_meta L d of None \<Rightarrow> True
         | Some m \<Rightarrow> \<not> (m_pruned m \<or> 0 < m_first_height m)) PrunedSnapshot) (\<lambda>_.
     sr_bind (file_read (blocks_path d)) (\<lambda>bs.
     (case read_meta L d of
        None \<Rightarrow> sr_fail NoMetadata
      | Some m \<Rightarrow>
          (let snap = \<lparr>sm_v = 1, sm_network = m_network m, sm_genesis = m_genesis_hash m,
                       sm_tip = m_validated_tip m, sm_blocks = m_block_count m,
                       sm_format = (case format_of d of Json \<Rightarrow> ''json'' | Binary \<Rightarrow> ''binary'')\<rparr>
           in sr_return (snap, [(blocks_path d, bs), (''snapshot.json'', manifest_ser L snap)])))))))"

text \<open>The blocks file a snapshot holds: a file named by the caller, or the one of a directory.\<close>

datatype snapshot_source = FromFile string bytes | FromDir dir

definition source_file :: "snapshot_source \<Rightarrow> store_error + bytes \<times> file_format" where
  "source_file src =
     (case src of
        FromFile name bs \<Rightarrow>
          Inr (bs, if suffix ''.bin'' name \<and> 4 < length name then Binary else Json)
      | FromDir d \<Rightarrow>
          (case d BLOCKS_BIN of
             Some bs \<Rightarrow> Inr (bs, Binary)
           | None \<Rightarrow>
               (case d BLOCKS_JSONL of
                  Some bs \<Rightarrow> Inr (bs, Json)
                | None \<Rightarrow> Inl (MissingFile BLOCKS_JSONL))))"

definition source_manifest :: "store_lib \<Rightarrow> snapshot_source \<Rightarrow> snapshot_manifest option" where
  "source_manifest L src =
     (case src of
        FromFile _ _ \<Rightarrow> None
      | FromDir d \<Rightarrow> Option.bind (read_text d ''snapshot.json'') (manifest_de L))"

definition import_snapshot ::
    "('p::ab_group_add, 's::comm_ring_1) crypto \<Rightarrow> (genesis_config \<Rightarrow> bytes option) \<Rightarrow> store_lib
       \<Rightarrow> snapshot_source \<Rightarrow> network_id \<Rightarrow> u64 \<Rightarrow> 'p chain store" where
  "import_snapshot C json L src n now =
     (let K = lib_codec L; man = source_manifest L src in
      sr_bind refuse_if_interrupted_recovery (\<lambda>_.
      sr_bind (sr_lift (source_file src)) (\<lambda>(bs, fmt).
      sr_bind (case man of None \<Rightarrow> sr_return ()
        | Some m \<Rightarrow> sr_require (sm_network m = n) (SnapshotNetwork (sm_network m))) (\<lambda>_.
      sr_bind (sr_get dir_now) (\<lambda>d.
      sr_bind (if fmt = format_of d then file_write (blocks_path d) bs
        else sr_bind (sr_lift (map_err Undecodable (read_blocks K fmt bs)))
               (\<lambda>blks. write_blocks (file_write (blocks_path d)) K (format_of d) blks)) (\<lambda>_.
      sr_bind (file_write META_FILE (meta_ser L
          \<lparr>m_network = n, m_genesis_hash = (case man of None \<Rightarrow> [] | Some m \<Rightarrow> sm_genesis m),
           m_block_count = (case man of None \<Rightarrow> 0 | Some m \<Rightarrow> sm_blocks m),
           m_protocol_version = PROTOCOL_VERSION, m_validated_by = [], m_validated_tip = [],
           m_validated_bytes = 0, m_first_height = 0, m_pruned = False, m_horizon_work = [],
           m_validated_horizon_bytes = 0, m_validated_headers_bytes = 0\<rparr>)) (\<lambda>_.
      sr_bind (load_or_new C json L n now) (\<lambda>ch.
      sr_bind (sr_lift (map_err SupplyViolated (chain_verify_supply C ch))) (\<lambda>_.
      sr_bind (case man of None \<Rightarrow> sr_return ()
        | Some m \<Rightarrow>
            sr_bind (sr_require (sm_tip m = [] \<or> hash_to_hex (tip_hash C ch) = sm_tip m)
              (SnapshotTip (hash_to_hex (tip_hash C ch)) (sm_tip m))) (\<lambda>_.
            sr_require (sm_genesis m = [] \<or> hash_to_hex (genesis_hash ch) = sm_genesis m)
              (SnapshotGenesis (hash_to_hex (genesis_hash ch)) (sm_genesis m)))) (\<lambda>_.
      sr_bind (save C L ch) (\<lambda>_. sr_return ch)))))))))))"

end
