(* ===== verification/Store_Facts.thy ===== *)
theory Store_Facts
  imports Store_Load Rebuild_Facts
begin

text \<open>
  What the data directory promises for an archive: after a save, loading gives the chain that
  was saved; a crash anywhere while new blocks are appended loses at most those blocks; a
  crash while the file is rewritten leaves a directory that loads unless the new file has
  exactly the size of the old one, in which case it is refused.

  \<open>grown C json now ch\<close>: the chain is its own blocks, validated one by one from genesis.
  \<open>committed\<close>: the directory holds its records and the metadata that describe them.
\<close>

section \<open>Chains grown from genesis\<close>

definition grown ::
    "('p::ab_group_add, 's::comm_ring_1) crypto \<Rightarrow> (genesis_config \<Rightarrow> bytes option) \<Rightarrow> u64
       \<Rightarrow> 'p chain \<Rightarrow> bool" where
  "grown C json now ch \<longleftrightarrow>
     (\<exists>ch0. new_fair C json (network ch) = Inr ch0 \<and> apply_suffix C ch0 (blocks ch) now = Inr ch)"

lemma apply_shaped:
  "apply_block_inner C ch (shape_block ch b) now v = apply_block_inner C ch b now v"
proof -
  have "shape_block ch (shape_block ch b) = shape_block ch b" by (rule shape_block_idem) (rule refl)
  then show ?thesis by (simp only: apply_block_inner_def)
qed

lemma own_disk_shaped:
  "apply_block_from_own_disk C ch (shape_block ch b) = apply_block_from_own_disk C ch b"
proof -
  have "shape_block ch (shape_block ch b) = shape_block ch b" by (rule shape_block_idem) (rule refl)
  then show ?thesis by (simp only: apply_block_from_own_disk_def)
qed

text \<open>One accepted block, as the runs below need it.\<close>

lemma accepted_step:
  assumes C: "encoding_ok C" "group_ok C" and core: "chain_core C ch"
    and a: "state_result (chain_apply_block C ch b now) = Inr ch1"
  shows "chain_core C ch1" "blocks ch1 = blocks ch @ [shape_block ch b]"
    "state_result (chain_apply_block C ch (shape_block ch b) now) = Inr ch1"
    "apply_block_from_own_disk C ch (shape_block ch b) = (ch1, Inr ())"
    "h_version (blk_header (shape_block ch b)) = PROTOCOL_VERSION"
    "check_tip_roots C ch1 = Inr ()"
    "network ch1 = network ch" "genesis_hash ch1 = genesis_hash ch"
    "headers ch1 = headers ch @ [compact_of C (shape_block ch b)]" "first_height ch1 = first_height ch"
    "horizon ch1 = horizon ch"
proof -
  have i: "apply_block_inner C ch b now True = (ch1, Inr ())"
    using a by (auto simp: chain_apply_block_def state_result_def prod_eq_iff split: sum.splits)
  show "chain_core C ch1" by (rule apply_inner_core [OF core C i])
  obtain S' u where s: "ch1 = applied C ch (shape_block ch b) S' u"
      "check_block C ch (shape_block ch b) now True = Inr ()"
      "ledger_utxo_root C S' = h_utxo_root (blk_header b)"
      "acc_sum (l_kernels S') = h_kernel_sum (blk_header b)"
    by (rule apply_inner_ledger [OF core C i])
  then show "blocks ch1 = blocks ch @ [shape_block ch b]" "network ch1 = network ch"
    "genesis_hash ch1 = genesis_hash ch" "first_height ch1 = first_height ch"
    "horizon ch1 = horizon ch"
    "headers ch1 = headers ch @ [compact_of C (shape_block ch b)]"
    by simp_all
  show "check_tip_roots C ch1 = Inr ()"
    unfolding s(1) by (rule applied_tip_roots) (simp_all add: s(3,4))
  show "h_version (blk_header (shape_block ch b)) = PROTOCOL_VERSION"
    using check_block_OkD(1) [OF s(2)] .
  show "state_result (chain_apply_block C ch (shape_block ch b) now) = Inr ch1"
    using i by (simp add: chain_apply_block_def apply_shaped state_result_def)
  show "apply_block_from_own_disk C ch (shape_block ch b) = (ch1, Inr ())"
    unfolding own_disk_shaped by (rule own_disk_agrees [OF core C i])
qed

lemma run_own_blocks:
  assumes C: "encoding_ok C" "group_ok C"
  shows "chain_core C ch \<Longrightarrow> apply_suffix C ch bs now = Inr ch' \<Longrightarrow> check_tip_roots C ch = Inr () \<Longrightarrow>
    \<exists>own. blocks ch' = blocks ch @ own \<and> length own = length bs
      \<and> headers ch' = headers ch @ map (compact_of C) own
      \<and> apply_suffix C ch own now = Inr ch' \<and> (\<forall>i. replay_stored C True now i ch own = Inr ch')
      \<and> current_version own \<and> check_tip_roots C ch' = Inr () \<and> chain_core C ch'
      \<and> network ch' = network ch \<and> genesis_hash ch' = genesis_hash ch
      \<and> first_height ch' = first_height ch \<and> horizon ch' = horizon ch"
proof (induction bs arbitrary: ch)
  case (Cons b bs)
  from Cons.prems(2) obtain ch1 where ch1: "state_result (chain_apply_block C ch b now) = Inr ch1"
    "apply_suffix C ch1 bs now = Inr ch'" by (auto simp: res_bind_Inr_iff)
  note s = accepted_step [OF C Cons.prems(1) ch1(1)]
  obtain own where own: "blocks ch' = blocks ch1 @ own" "length own = length bs"
    "headers ch' = headers ch1 @ map (compact_of C) own"
    "apply_suffix C ch1 own now = Inr ch'" "\<forall>i. replay_stored C True now i ch1 own = Inr ch'"
    "current_version own" "check_tip_roots C ch' = Inr ()" "chain_core C ch'"
    "network ch' = network ch1" "genesis_hash ch' = genesis_hash ch1"
    "first_height ch' = first_height ch1" "horizon ch' = horizon ch1"
    using Cons.IH [OF s(1) ch1(2) s(6)] by blast
  show ?case
    by (rule exI [of _ "shape_block ch b # own"])
      (use s own in \<open>auto simp: current_version_def\<close>)
qed (auto simp: current_version_def)

lemma grown_facts:
  assumes C: "encoding_ok C" "group_ok C" and g: "grown C json now ch"
  shows "current_version (blocks ch)" "check_tip_roots C ch = Inr ()" "chain_core C ch"
    "first_height ch = 0" "headers ch = map (compact_of C) (blocks ch)"
    "block_count ch = of_nat (length (blocks ch))" "chain_verify_supply C ch = Inr ()"
    "\<exists>ch0. new_fair C json (network ch) = Inr ch0 \<and> genesis_hash ch = genesis_hash ch0
       \<and> apply_suffix C ch0 (blocks ch) now = Inr ch
       \<and> (\<forall>i. replay_stored C True now i ch0 (blocks ch) = Inr ch)"
proof -
  obtain ch0 where n: "new_fair C json (network ch) = Inr ch0"
    and a: "apply_suffix C ch0 (blocks ch) now = Inr ch"
    using g by (auto simp: grown_def)
  note ok = new_fair_ok [OF C n]
  have core: "chain_core C ch0" using ok(1) by (simp add: chain_ok_def)
  have b0: "blocks ch0 = []" "first_height ch0 = 0"
    using core ok(3) by (simp_all add: chain_core_def)
  have tr: "check_tip_roots C ch0 = Inr ()" by (simp add: check_tip_roots_def b0)
  obtain own where own: "blocks ch = blocks ch0 @ own"
    "headers ch = headers ch0 @ map (compact_of C) own"
    "\<forall>i. replay_stored C True now i ch0 own = Inr ch"
    "current_version own" "check_tip_roots C ch = Inr ()" "chain_core C ch"
    "genesis_hash ch = genesis_hash ch0" "first_height ch = first_height ch0"
    using run_own_blocks [OF C core a tr] by blast
  have e: "own = blocks ch" using own(1) b0 by simp
  have h: "headers ch = map (compact_of C) (blocks ch)" using own(2) ok(3) e by simp
  have bc: "block_count ch = of_nat (length (blocks ch))"
    using own(8) b0 by (simp add: block_count_def h)
  have v: "chain_verify_supply C ch = Inr ()"
    using own(6) by (simp add: chain_core_def ledger_ok_def chain_verify_supply_def)
  show "current_version (blocks ch)" "check_tip_roots C ch = Inr ()" "chain_core C ch"
    "first_height ch = 0" "headers ch = map (compact_of C) (blocks ch)"
    "block_count ch = of_nat (length (blocks ch))" "chain_verify_supply C ch = Inr ()"
    using own e h bc v b0 by auto
  show "\<exists>ch0. new_fair C json (network ch) = Inr ch0 \<and> genesis_hash ch = genesis_hash ch0
       \<and> apply_suffix C ch0 (blocks ch) now = Inr ch
       \<and> (\<forall>i. replay_stored C True now i ch0 (blocks ch) = Inr ch)"
    using n a own e by blast
qed

section \<open>Running store computations\<close>

lemma sr_bind_read [simp]:
  "dir_now s f = Some bs \<Longrightarrow> sr_bind (file_read f) g s = g bs s"
  by (simp add: sr_bind_def file_read_def)

lemma sr_bind_install [simp]:
  "stored_id (dir_now s) = Some i \<Longrightarrow> sr_bind (install_id L) g s = g i s"
  by (simp add: sr_bind_def install_id_def)

section \<open>Committed directories\<close>

definition meta_of ::
    "('p, 's) crypto \<Rightarrow> dir \<Rightarrow> 'p chain \<Rightarrow> string \<Rightarrow> chain_meta" where
  "meta_of C d ch i =
     \<lparr>m_network = network ch, m_genesis_hash = hash_to_hex (genesis_hash ch),
      m_block_count = block_count ch, m_protocol_version = PROTOCOL_VERSION,
      m_validated_by = i, m_validated_tip = hash_to_hex (tip_hash C ch),
      m_validated_bytes = file_len d (blocks_path d), m_first_height = first_height ch,
      m_pruned = is_pruned ch, m_horizon_work = dec_string (unat (horizon_work ch)),
      m_validated_horizon_bytes = file_len d HORIZON_FILE,
      m_validated_headers_bytes = file_len d HEADERS_FILE\<rparr>"

definition meta_reads :: "store_lib \<Rightarrow> chain_meta \<Rightarrow> bool" where
  "meta_reads L m \<longleftrightarrow> utf8_valid (meta_ser L m) \<and> meta_de L (text_of (meta_ser L m)) = Some m"

text \<open>The directory holds the records of \<open>bs\<close>, and nothing marks it as unfinished.\<close>

definition holds_blocks :: "store_lib \<Rightarrow> dir \<Rightarrow> string \<Rightarrow> block list \<Rightarrow> bytes \<Rightarrow> bool" where
  "holds_blocks L d i bs s \<longleftrightarrow> d RECOVERY_JOURNAL = None \<and> stored_id d = Some i
     \<and> d (blocks_path d) = Some s \<and> write_all_blocks (lib_codec L) (format_of d) bs = Inr s
     \<and> codec_for (lib_codec L) bs \<and> (format_of d = Binary \<longrightarrow> \<not> looks_json s)
     \<and> length s < 2 ^ 64"

definition records :: "store_lib \<Rightarrow> dir \<Rightarrow> chain_meta \<Rightarrow> bool" where
  "records L d m \<longleftrightarrow> d META_FILE = Some (meta_ser L m) \<and> meta_reads L m"

lemma read_meta_records: "records L d m \<Longrightarrow> read_meta L d = Some m"
  by (simp add: records_def read_meta_def read_text_def meta_reads_def)

lemma stored_id_nonempty: "stored_id d = Some i \<Longrightarrow> i \<noteq> []"
  by (auto simp: stored_id_def split: option.splits if_splits)

lemma tip_text:
  assumes C: "encoding_ok C" "group_ok C" and g: "grown C json now ch"
  shows "hash_to_hex (tip_hash C ch) \<noteq> []"
proof -
  have l: "length (blake3 C bs) = 32" for bs using C(1) by (simp add: encoding_ok_def)
  obtain ch0 where f: "new_fair C json (network ch) = Inr ch0" "genesis_hash ch = genesis_hash ch0"
    using grown_facts(8) [OF C g] by blast
  have gh: "length (genesis_hash ch) = 32"
    using f(1) l unfolding f(2)
    by (auto simp: new_fair_def res_simps genesis_commitment_def hash_domain_def hash_multi_def)
  have ch: "length (c_hash (compact_of C b)) = 32" for b
    using l by (simp add: block_hash_def header_hash_def hash_multi_def)
  have "length (tip_hash C ch) = 32"
    using grown_facts(5) [OF C g] gh ch
    by (cases "blocks ch = []") (auto simp: tip_hash_def last_map)
  then show ?thesis by (metis hash_to_hex_def length_0_conv length_hex_encode mult_eq_0_iff zero_neq_numeral)
qed

lemma stored_read:
  assumes "holds_blocks L d i bs s" "current_version bs"
  shows "read_blocks (lib_codec L) (format_of d) s = Inr bs"
  using assms by (auto simp: holds_blocks_def intro!: file_roundtrip)

lemma record_bytes_cover:
  assumes "holds_blocks L d i bs s"
  shows "unat (file_len d (blocks_path d)) = length s" "file_len d (blocks_path d) = 0 \<longleftrightarrow> s = []"
proof -
  have l: "file_len d (blocks_path d) = of_nat (length s)" "length s < 2 ^ 64"
    using assms by (simp_all add: holds_blocks_def file_len_def)
  then show u: "unat (file_len d (blocks_path d)) = length s"
    by (simp add: unat_of_nat_64)
  then show "file_len d (blocks_path d) = 0 \<longleftrightarrow> s = []"
    by (metis length_0_conv unat_0 unat_eq_zero)
qed

lemma written_nonempty:
  assumes "write_all_blocks K fmt bs = Inr s" "codec_for K bs" "current_version bs" "bs \<noteq> []"
  shows "s \<noteq> []"
proof -
  obtain b cs where b: "bs = b # cs" using assms(4) by (cases bs) auto
  from assms(1) obtain w s' where w: "write_block K fmt b = Inr w" "s = w @ s'"
    by (auto simp: b write_all_Cons)
  have "w \<noteq> []"
  proof (cases fmt)
    case Json then show ?thesis using w(1) by (auto simp: write_block_def)
  next
    case Binary
    have "4 \<le> length w" using write_block_binary(1) w(1) Binary by fastforce
    then show ?thesis by auto
  qed
  then show ?thesis using w(2) by simp
qed

lemma replay_full:
  "apply_suffix C ch bs now = Inr ch' \<Longrightarrow> replay_stored C False now i ch bs = Inr ch'"
proof (induction bs arbitrary: i ch)
  case (Cons b bs)
  show ?case
  proof (cases "chain_apply_block C ch b now")
    case (Pair ch1 r)
    then show ?thesis using Cons by (cases r) (auto simp: state_result_def)
  qed
qed simp

section \<open>Loading a committed directory\<close>

lemma trusted_eq:
  assumes "records L (dir_now st) m" "stored_id (dir_now st) = Some i"
    and "m_validated_tip m \<noteq> []" "m_validated_by m \<noteq> []" "\<not> m_pruned m" "m_first_height m = 0"
  shows "is_own_file_trusted L st = (st, Inr (m_validated_by m = i
    \<and> m_validated_bytes m = file_len (dir_now st) (blocks_path (dir_now st))
    \<and> file_len (dir_now st) (blocks_path (dir_now st)) \<noteq> 0))"
  using assms
  by (simp add: is_own_file_trusted_def read_meta_records Let_def) (simp add: sr_return_def)

lemma load_replays:
  assumes C: "encoding_ok C" "group_ok C" and g: "grown C json now ch"
    and d: "holds_blocks L (dir_now st) i (blocks ch) s" and m: "records L (dir_now st) m"
    and arch: "\<not> m_pruned m" "m_first_height m = 0"
    and t: "is_own_file_trusted L st = (st, Inr trusted)"
    and tip: "trusted \<longrightarrow> m_validated_tip m = hash_to_hex (tip_hash C ch)"
  shows "load_existing C json L (network ch) now st = (st, Inr ch)"
proof -
  note h = grown_facts [OF C g]
  obtain ch0 where f: "new_fair C json (network ch) = Inr ch0"
    "apply_suffix C ch0 (blocks ch) now = Inr ch"
    "\<forall>i. replay_stored C True now i ch0 (blocks ch) = Inr ch"
    using h(8) by blast
  have r: "replay_stored C trusted now 0 ch0 (blocks ch) = Inr ch"
    using f(3) replay_full [OF f(2)] by (cases trusted) auto
  have c: "trusted \<Longrightarrow> check_record C (Some m) ch = Inr ()"
    using h(2) tip
    by (auto simp: check_record_def check_tip_roots_def ensure_def split: option.splits if_splits)
  have "sr_bind (is_own_file_trusted L) k st = k trusted st" for k :: "bool \<Rightarrow> 'a chain store"
    by (simp add: sr_bind_def t)
  moreover have "dir_now st (blocks_path (dir_now st)) = Some s"
    using d by (simp add: holds_blocks_def)
  ultimately show ?thesis
    using arch f(1) h(7) r c stored_read [OF d h(1)] read_meta_records [OF m]
    by (cases trusted) (simp_all add: load_existing_def Let_def, simp_all add: sr_return_def)
qed

lemma load_committed:
  assumes C: "encoding_ok C" "group_ok C" and g: "grown C json now ch"
    and d: "holds_blocks L (dir_now st) i (blocks ch) s"
    and m: "records L (dir_now st) (meta_of C (dir_now st) ch i)"
  shows "load_or_new C json L (network ch) now st = (st, Inr ch)"
proof -
  let ?d = "dir_now st" and ?m = "meta_of C (dir_now st) ch i"
  have id: "stored_id ?d = Some i" "dir_now st (blocks_path ?d) = Some s"
    "dir_now st RECOVERY_JOURNAL = None" using d by (simp_all add: holds_blocks_def)
  note tip = tip_text [OF C g]
  have arch: "\<not> m_pruned ?m" "m_first_height ?m = 0" by (simp_all add: meta_of_def is_pruned_def grown_facts(4) [OF C g])
  have rec: "recover_uncommitted_archive_tail C json L (network ch) now st = (st, Inr ())"
  proof -
    have "m_validated_bytes ?m = of_nat (length s)"
      using id by (simp add: meta_of_def file_len_def)
    then show ?thesis
      using read_meta_records [OF m] id
      by (simp add: recover_uncommitted_archive_tail_def) (auto simp: sr_return_def)
  qed
  have t: "is_own_file_trusted L st = (st, Inr (file_len ?d (blocks_path ?d) \<noteq> 0))"
    using trusted_eq [OF m id(1)] arch tip stored_id_nonempty [OF id(1)] by (simp add: meta_of_def)
  have l: "load_existing C json L (network ch) now st = (st, Inr ch)"
    by (rule load_replays [OF C g d m arch t]) (simp add: meta_of_def)
  show ?thesis
    using id read_meta_records [OF m] l rec
    by (simp add: load_or_new_def refuse_if_interrupted_recovery_def sr_bind_assoc)
      (simp add: sr_bind_def sr_require_def sr_return_def meta_of_def)
qed

end
