(* ===== verification/Store_Crash.thy ===== *)
theory Store_Crash
  imports Store_Facts
begin

text \<open>
  What a crash leaves behind.  Every directory an append goes through, up to and including the
  one it ends in, loads as the chain that was stored or as the chain that was being saved;
  a rewrite has no such promise: a new file of exactly the old size beside the old metadata
  is taken for the file the metadata describe and then refused.
\<close>

section \<open>Updates of a directory\<close>

lemma names_differ [simp]:
  "BLOCKS_BIN \<noteq> META_TMP" "BLOCKS_JSONL \<noteq> META_TMP" "META_FILE \<noteq> META_TMP" "INSTALL_ID \<noteq> META_TMP"
  "RECOVERY_JOURNAL \<noteq> META_TMP" "LEGACY_FILE \<noteq> META_TMP" "HEADERS_FILE \<noteq> META_TMP"
  "HORIZON_FILE \<noteq> META_TMP" "META_TMP \<noteq> META_FILE"
  "BLOCKS_BIN \<noteq> META_FILE" "BLOCKS_JSONL \<noteq> META_FILE" "INSTALL_ID \<noteq> META_FILE"
  "RECOVERY_JOURNAL \<noteq> META_FILE" "HEADERS_FILE \<noteq> META_FILE" "HORIZON_FILE \<noteq> META_FILE"
  by (simp_all add: file_names)

lemma blocks_path_cases: "blocks_path d = BLOCKS_BIN \<or> blocks_path d = BLOCKS_JSONL"
  by (cases "format_of d") (simp_all add: blocks_path_def)

lemma blocks_path_differs [simp]:
  "blocks_path d \<noteq> META_TMP" "blocks_path d \<noteq> META_FILE" "blocks_path d \<noteq> INSTALL_ID"
  "blocks_path d \<noteq> RECOVERY_JOURNAL" "blocks_path d \<noteq> HEADERS_FILE" "blocks_path d \<noteq> HORIZON_FILE"
  "META_FILE \<noteq> blocks_path d" "INSTALL_ID \<noteq> blocks_path d" "RECOVERY_JOURNAL \<noteq> blocks_path d"
  "HEADERS_FILE \<noteq> blocks_path d" "HORIZON_FILE \<noteq> blocks_path d"
  using blocks_path_cases [of d] by (auto simp: file_names)

lemma format_other [simp]:
  "format_of (d(META_TMP := x)) = format_of d" "format_of (d(META_FILE := x)) = format_of d"
  by (simp_all add: format_of_def detect_def)

lemma path_other [simp]:
  "blocks_path (d(META_TMP := x)) = blocks_path d" "blocks_path (d(META_FILE := x)) = blocks_path d"
  by (simp_all add: blocks_path_def)

lemma format_same [simp]:
  assumes "d (blocks_path d) \<noteq> None"
  shows "format_of (d(blocks_path d \<mapsto> s)) = format_of d"
    "blocks_path (d(blocks_path d \<mapsto> s)) = blocks_path d"
proof -
  show f: "format_of (d(blocks_path d \<mapsto> s)) = format_of d"
    using assms
    by (cases "format_of d") (auto simp: format_of_def detect_def blocks_path_def file_names split: if_splits)
  then show "blocks_path (d(blocks_path d \<mapsto> s)) = blocks_path d" by (simp add: blocks_path_def)
qed

lemma stored_id_other [simp]:
  "stored_id (d(META_TMP := x)) = stored_id d" "stored_id (d(META_FILE := x)) = stored_id d"
  "stored_id (d(blocks_path e := x)) = stored_id d"
  by (simp_all add: stored_id_def read_text_def)

lemma file_len_other [simp]: "f \<noteq> g \<Longrightarrow> file_len (d(g := x)) f = file_len d f"
  by (simp add: file_len_def)

lemma holds_blocks_other [simp]:
  "holds_blocks L (d(META_TMP := x)) i bs s = holds_blocks L d i bs s"
  "holds_blocks L (d(META_FILE := x)) i bs s = holds_blocks L d i bs s"
  by (simp_all add: holds_blocks_def)

lemma meta_of_other [simp]:
  "meta_of C (d(META_TMP := x)) ch i = meta_of C d ch i"
  "meta_of C (d(META_FILE := x)) ch i = meta_of C d ch i"
  by (simp_all add: meta_of_def)

lemma records_other [simp]:
  "records L (d(META_TMP := x)) m = records L d m"
  "records L (d(blocks_path e := x)) m = records L d m"
  by (simp_all add: records_def)

section \<open>Committed and extended directories\<close>

definition committed ::
    "('p::ab_group_add, 's::comm_ring_1) crypto \<Rightarrow> store_lib \<Rightarrow> dir \<Rightarrow> string \<Rightarrow> 'p chain \<Rightarrow> bytes \<Rightarrow> bool" where
  "committed C L d i ch s \<longleftrightarrow>
     holds_blocks L d i (blocks ch) s \<and> records L d (meta_of C d ch i)"

lemma committed_other [simp]:
  "committed C L (d(META_TMP := x)) i ch s = committed C L d i ch s"
  by (simp add: committed_def)

text \<open>The bytes \<open>t\<close> were appended and the metadata do not cover them.\<close>

definition extended ::
    "('p::ab_group_add, 's::comm_ring_1) crypto \<Rightarrow> store_lib \<Rightarrow> dir \<Rightarrow> string \<Rightarrow> 'p chain \<Rightarrow> bytes
       \<Rightarrow> bytes \<Rightarrow> bool" where
  "extended C L d i ch s t \<longleftrightarrow>
     d (blocks_path d) = Some (s @ t) \<and> t \<noteq> [] \<and> length (s @ t) < 2 ^ 64
     \<and> committed C L (d(blocks_path d \<mapsto> s)) i ch s"

lemma extended_other [simp]: "extended C L (d(META_TMP := x)) i ch s t = extended C L d i ch s t"
proof -
  have "blocks_path d \<noteq> META_TMP" by simp
  then have "(d(META_TMP := x))(blocks_path d \<mapsto> s) = (d(blocks_path d \<mapsto> s))(META_TMP := x)"
    by (simp add: fun_upd_twist)
  then show ?thesis by (simp add: extended_def)
qed

lemma committed_extends:
  assumes "committed C L d i ch s" "t \<noteq> []" "length (s @ t) < 2 ^ 64"
  shows "extended C L (d(blocks_path d \<mapsto> s @ t)) i ch s t"
proof -
  have d: "d (blocks_path d) = Some s" using assms(1) by (simp add: committed_def holds_blocks_def)
  then have "d(blocks_path d \<mapsto> s) = d" by (simp add: fun_upd_idem)
  then show ?thesis using assms d by (simp add: extended_def)
qed

lemma extended_facts:
  assumes "extended C L d i ch s t"
  shows "stored_id d = Some i" "d RECOVERY_JOURNAL = None" "records L d (meta_of C (d(blocks_path d \<mapsto> s)) ch i)"
    "holds_blocks L (d(blocks_path d \<mapsto> s)) i (blocks ch) s"
    "format_of (d(blocks_path d \<mapsto> s)) = format_of d"
    "blocks_path (d(blocks_path d \<mapsto> s)) = blocks_path d"
  using assms by (auto simp: extended_def committed_def holds_blocks_def)

lemma apply_suffix_fold:
  "apply_suffix C ch bs now = res_fold (\<lambda>ch b. state_result (chain_apply_block C ch b now)) ch bs"
  by (induction bs arbitrary: ch) simp_all

lemma apply_suffix_append:
  "apply_suffix C ch (xs @ ys) now
    = res_bind (apply_suffix C ch xs now) (\<lambda>ch1. apply_suffix C ch1 ys now)"
proof (induction xs arbitrary: ch)
  case (Cons x xs)
  then show ?case by (cases "state_result (chain_apply_block C ch x now)") simp_all
qed simp

lemma prefix_matches_own:
  assumes C: "encoding_ok C" "group_ok C" and g: "grown C json now ch"
  shows "prefix_matches C json (meta_of C d ch i) (blocks ch) now"
proof -
  obtain ch0 where f: "new_fair C json (network ch) = Inr ch0" "apply_suffix C ch0 (blocks ch) now = Inr ch"
    using grown_facts(8) [OF C g] by blast
  have "res_fold (\<lambda>ch b. state_result (chain_apply_block C ch b now)) ch0 (blocks ch) = Inr ch"
    using f(2) by (simp add: apply_suffix_fold)
  then show ?thesis
    using f(1) grown_facts(7) [OF C g] by (simp add: prefix_matches_def meta_of_def is_ok_def)
qed

text \<open>The repair cuts the file back to what the metadata cover, and the load goes on from there.\<close>

lemma recover_extended:
  assumes C: "encoding_ok C" "group_ok C" and g: "grown C json now ch" and ne: "blocks ch \<noteq> []"
    and x: "extended C L d i ch s t"
  shows "recover_uncommitted_archive_tail C json L (network ch) now \<lparr>dir_now = d, dir_past = p\<rparr>
    = (\<lparr>dir_now = d(blocks_path d \<mapsto> s), dir_past = p @ [d]\<rparr>, Inr ())"
proof -
  let ?c = "d(blocks_path d \<mapsto> s)" and ?m = "meta_of C (d(blocks_path d \<mapsto> s)) ch i"
  note e = extended_facts [OF x]
  have d: "d (blocks_path d) = Some (s @ t)" "t \<noteq> []" "length (s @ t) < 2 ^ 64"
    using x by (simp_all add: extended_def)
  obtain ch0 where n: "new_fair C json (network ch) = Inr ch0" "genesis_hash ch = genesis_hash ch0"
    using grown_facts(8) [OF C g] by blast
  have vb: "m_validated_bytes ?m = file_len ?c (blocks_path ?c)" by (simp add: meta_of_def)
  note cover = record_bytes_cover [OF e(4)]
  have s: "s \<noteq> []"
    using written_nonempty [OF _ _ grown_facts(1) [OF C g] ne] e(4) by (auto simp: holds_blocks_def)
  have longer: "\<not> (of_nat (length (s @ t)) :: u64) \<le> m_validated_bytes ?m"
    unfolding word_le_nat_alt unat_of_nat_64 [OF d(3)] vb cover(1) using d(2) by simp
  have read: "read_blocks (lib_codec L) (format_of d) (take (unat (m_validated_bytes ?m)) (s @ t)) = Inr (blocks ch)"
    using stored_read [OF e(4) grown_facts(1) [OF C g]] cover(1) e(5) by (simp add: vb)
  have cut: "file_truncate (blocks_path d) (unat (m_validated_bytes ?m)) \<lparr>dir_now = d, dir_past = p\<rparr>
      = (\<lparr>dir_now = ?c, dir_past = p @ [d]\<rparr>, Inr ())"
    using cover(1) d(1) by (simp add: file_truncate_def touch_def vb)
  have m: "m_network ?m = network ch" "m_genesis_hash ?m = hash_to_hex (genesis_hash ch)"
    "\<not> m_pruned ?m" "m_first_height ?m = 0" "m_validated_tip ?m = hash_to_hex (tip_hash C ch)"
    "m_validated_by ?m = i"
    using grown_facts(4) [OF C g] by (simp_all add: meta_of_def is_pruned_def)
  have "m_validated_bytes ?m \<noteq> 0" using s cover(2) by (simp add: vb)
  then show ?thesis
    using n m tip_text [OF C g] stored_id_nonempty [OF e(1)] e(1) d(1) longer read cut
      prefix_matches_own [OF C g] read_meta_records [OF e(3)]
    by (simp add: recover_uncommitted_archive_tail_def del: append_assoc)
qed

lemma load_extended:
  assumes C: "encoding_ok C" "group_ok C" and g: "grown C json now ch" and ne: "blocks ch \<noteq> []"
    and x: "extended C L d i ch s t"
  shows "load_or_new C json L (network ch) now \<lparr>dir_now = d, dir_past = p\<rparr>
    = (\<lparr>dir_now = d(blocks_path d \<mapsto> s), dir_past = p @ [d]\<rparr>, Inr ch)"
proof -
  let ?c = "d(blocks_path d \<mapsto> s)" and ?m = "meta_of C (d(blocks_path d \<mapsto> s)) ch i"
  let ?st = "\<lparr>dir_now = ?c, dir_past = p @ [d]\<rparr>"
  note e = extended_facts [OF x]
  have arch: "\<not> m_pruned ?m" "m_first_height ?m = 0"
    using grown_facts(4) [OF C g] by (simp_all add: meta_of_def is_pruned_def)
  have id: "stored_id (dir_now ?st) = Some i" using e(1) by simp
  have m: "records L (dir_now ?st) ?m" using e(3) by simp
  have t: "is_own_file_trusted L ?st = (?st, Inr (file_len ?c (blocks_path ?c) \<noteq> 0))"
    using trusted_eq [OF m id] arch tip_text [OF C g] stored_id_nonempty [OF e(1)]
    by (simp add: meta_of_def)
  have l: "load_existing C json L (network ch) now ?st = (?st, Inr ch)"
    by (rule load_replays [OF C g _ m arch t]) (use e(4) in \<open>simp_all add: meta_of_def\<close>)
  have d: "d (blocks_path d) = Some (s @ t)" using x by (simp add: extended_def)
  have m0: "read_meta L d = Some ?m" by (rule read_meta_records) (rule e(3))
  show ?thesis
    using d e(2) m0 l recover_extended [OF C g ne x, of p]
    by (simp add: load_or_new_def refuse_if_interrupted_recovery_def sr_bind_assoc)
      (simp add: sr_bind_def sr_require_def sr_return_def meta_of_def)
qed

section \<open>Appending\<close>

lemma write_meta_run:
  assumes "stored_id (dir_now st) = Some i"
  shows "\<exists>st'. write_meta C L ch st = (st', Inr ())
    \<and> dir_now st' = (dir_now st)(META_TMP := None, META_FILE \<mapsto> meta_ser L (meta_of C (dir_now st) ch i))
    \<and> set (dir_past st') \<subseteq> set (dir_past st) \<union> {dir_now st} \<union> range (\<lambda>x. (dir_now st)(META_TMP \<mapsto> x))"
proof -
  let ?d = "dir_now st" and ?b = "meta_ser L (meta_of C (dir_now st) ch i)"
  have "?d(META_TMP \<mapsto> ?b, META_TMP := None, META_FILE \<mapsto> ?b)
      = ?d(META_TMP := None, META_FILE \<mapsto> ?b)" by simp
  then show ?thesis
    using assms
    by (auto simp: write_meta_def publish_meta_def sr_bind_def [of "file_write _ _"] file_write_def
        touch_def file_rename_def meta_of_def)
qed

lemma write_blocks_run:
  assumes "d = dir_now st" "d p = Some s" "written K fmt bs = (t, r)"
  shows "write_blocks (file_append p) K fmt bs st
    = (\<lparr>dir_now = d(p \<mapsto> s @ t),
        dir_past = dir_past st @ d # map (\<lambda>k. d(p \<mapsto> s @ take k t)) [0..<length t]\<rparr>,
       map_err Undecodable r)"
  using assms
  by (cases r) (simp_all add: write_blocks_def sr_bind_def file_append_def touch_def sr_lift_def
      sr_return_def sr_fail_def)

lemma written_all:
  "written K fmt bs = (t, Inr ()) \<Longrightarrow> write_all_blocks K fmt bs = Inr t"
proof (induction bs arbitrary: t)
  case (Cons b bs)
  then show ?case
    by (auto simp: write_all_Cons split: sum.splits prod.splits)
qed (simp add: write_all_blocks_def)

lemma write_all_append:
  "write_all_blocks K fmt xs = Inr s \<Longrightarrow> write_all_blocks K fmt ys = Inr t \<Longrightarrow>
    write_all_blocks K fmt (xs @ ys) = Inr (s @ t)"
proof (induction xs arbitrary: s)
  case (Cons x xs)
  then show ?case by (auto simp: write_all_Cons)
qed (simp add: write_all_blocks_def)

text \<open>A chain that continues a stored one.\<close>

lemma continued:
  assumes C: "encoding_ok C" "group_ok C" and g: "grown C json now ch"
    and new: "apply_suffix C ch new now = Inr ch'"
  shows "grown C json now ch'" "network ch' = network ch"
    "\<exists>own. blocks ch' = blocks ch @ own \<and> length own = length new \<and> (new = [] \<longrightarrow> ch' = ch)"
proof -
  note h = grown_facts [OF C g]
  obtain own where own: "blocks ch' = blocks ch @ own" "length own = length new"
    "apply_suffix C ch own now = Inr ch'" "network ch' = network ch"
    using run_own_blocks [OF C h(3) new h(2)] by blast
  obtain ch0 where ch0: "new_fair C json (network ch) = Inr ch0"
    "apply_suffix C ch0 (blocks ch) now = Inr ch" using h(8) by blast
  have "apply_suffix C ch0 (blocks ch') now = Inr ch'"
    using ch0(2) own(3) by (simp add: own(1) apply_suffix_append)
  then show "grown C json now ch'" using ch0(1) own(4) by (auto simp: grown_def)
  show "network ch' = network ch" by (rule own(4))
  show "\<exists>own. blocks ch' = blocks ch @ own \<and> length own = length new \<and> (new = [] \<longrightarrow> ch' = ch)"
    using own(1,2) new by auto
qed

lemma save_appends:
  assumes C: "encoding_ok C" "group_ok C" and g: "grown C json now ch" and ne: "blocks ch \<noteq> []"
    and com: "committed C L d i ch s" and new: "apply_suffix C ch new now = Inr ch'"
    and big: "length (blocks ch') < 2 ^ 64"
  shows "save C L ch' \<lparr>dir_now = d, dir_past = p\<rparr>
    = (if new = [] then write_meta C L ch'
       else sr_bind (write_blocks (file_append (blocks_path d)) (lib_codec L) (format_of d)
              (drop (length (blocks ch)) (blocks ch'))) (\<lambda>_. write_meta C L ch'))
      \<lparr>dir_now = d, dir_past = p\<rparr>"
proof -
  note c = continued [OF C g new]
  note h = grown_facts [OF C g] and h' = grown_facts [OF C c(1)]
  obtain own where own: "blocks ch' = blocks ch @ own" "length own = length new" using c(3) by blast
  let ?n = "length (blocks ch)"
  have len: "?n < 2 ^ 64" using big own(1) by simp
  have n: "unat (block_count ch) = ?n" "unat (block_count ch') = length (blocks ch')"
    unfolding h(6) h'(6) by (rule unat_of_nat_64 [OF len], rule unat_of_nat_64 [OF big])
  have pos: "0 < ?n" using ne by simp
  have m: "read_meta L d = Some (meta_of C d ch i)"
    using com by (intro read_meta_records) (simp add: committed_def)
  have count: "stored_block_count L d = block_count ch"
    and tip: "stored_tip L d = Some (hash_to_hex (tip_hash C ch))"
    using m tip_text [OF C g] by (simp_all add: stored_block_count_def stored_tip_def meta_of_def)
  have "unat (block_count ch - 1) = ?n - 1"
    using n(1) pos by (metis One_nat_def Suc_pred' unat_eq_zero unat_minus_one nat_less_le diff_Suc_1 unat_0)
  then have "hash_at C ch' (block_count ch - 1) = Some (tip_hash C ch)"
    using h(5) h'(5) ne own(1)
    by (cases "blocks ch" rule: rev_cases) (auto simp: hash_at_def tip_hash_def nth_append)
  moreover have "(block_count ch = block_count ch') = (new = [])"
    using n own by (metis add_cancel_right_right length_append length_0_conv word_unat_eq_iff)
  moreover have "\<not> block_count ch' < block_count ch" "\<not> length (blocks ch') < unat (block_count ch)"
    using n own(1) by (simp_all add: word_less_nat_alt)
  moreover have "d (blocks_path d) = Some s"
    using com by (simp add: committed_def holds_blocks_def)
  ultimately show ?thesis
    using h'(4) count tip n(1) by (simp add: save_def is_pruned_def Let_def)
qed

lemma looks_json_append:
  assumes "write_all_blocks K Binary bs = Inr s" "bs \<noteq> []"
  shows "looks_json (s @ t) = looks_json s"
proof -
  obtain b cs where b: "bs = b # cs" using assms(2) by (cases bs) auto
  from assms(1) obtain w s' where w: "write_block K Binary b = Inr w" "s = w @ s'"
    by (auto simp: b write_all_Cons)
  have "4 \<le> length w" using write_block_binary(1) [OF w(1)] by simp
  then show ?thesis by (simp add: looks_json_def w(2))
qed

text \<open>Which directories a save by appending goes through.\<close>

lemma append_states:
  assumes C: "encoding_ok C" "group_ok C" and g: "grown C json now ch" and ne: "blocks ch \<noteq> []"
    and com: "committed C L d i ch s" and new: "apply_suffix C ch new now = Inr ch'"
    and w: "written (lib_codec L) (format_of d) (drop (length (blocks ch)) (blocks ch')) = (t, r)"
    and big: "length (blocks ch') < 2 ^ 64" "length (s @ t) < 2 ^ 64"
    and codec: "codec_for (lib_codec L) (blocks ch')"
    and meta: "meta_reads L (meta_of C (d(blocks_path d \<mapsto> s @ t)) ch' i)"
    and run: "save C L ch' \<lparr>dir_now = d, dir_past = []\<rparr> = (st', r')"
    and e: "e = dir_now st' \<or> e \<in> set (dir_past st')"
  shows "committed C L e i ch s \<or> (\<exists>u. extended C L e i ch s u) \<or> committed C L e i ch' (s @ t)"
    "r' = Inr () \<Longrightarrow> committed C L (dir_now st') i ch' (s @ t)"
proof -
  let ?st = "\<lparr>dir_now = d, dir_past = []\<rparr>" and ?dt = "d(blocks_path d \<mapsto> s @ t)"
  let ?fin = "?dt(META_TMP := None, META_FILE \<mapsto> meta_ser L (meta_of C ?dt ch' i))"
  note c = continued [OF C g new]
  obtain own where own: "blocks ch' = blocks ch @ own" "length own = length new" "new = [] \<longrightarrow> ch' = ch"
    using c(3) by blast
  have d: "d (blocks_path d) = Some s" "stored_id d = Some i"
    and hold: "holds_blocks L d i (blocks ch) s"
    using com by (simp_all add: committed_def holds_blocks_def)
  have dt: "stored_id ?dt = Some i" using d(2) by simp
  note save = run [unfolded save_appends [OF C g ne com new big(1)]]
  have "committed C L ?fin i ch' (s @ t)" if r: "r = Inr ()"
  proof -
    have "write_all_blocks (lib_codec L) (format_of d) (blocks ch') = Inr (s @ t)"
      using write_all_append [of "lib_codec L" "format_of d" "blocks ch" s "drop (length (blocks ch)) (blocks ch')" t]
        written_all [OF w [unfolded r]] hold own(1) by (simp add: holds_blocks_def)
    moreover have "format_of d = Binary \<longrightarrow> \<not> looks_json (s @ t)"
      using hold looks_json_append [OF _ ne] by (auto simp: holds_blocks_def)
    ultimately have "holds_blocks L ?dt i (blocks ch') (s @ t)"
      using hold dt d(1) codec big(2) by (simp add: holds_blocks_def)
    then show ?thesis using meta by (simp add: committed_def records_def)
  qed
  note fin = this
  have mid: "committed C L (d(blocks_path d \<mapsto> s @ take k t)) i ch s
      \<or> (\<exists>u. extended C L (d(blocks_path d \<mapsto> s @ take k t)) i ch s u)" for k
  proof (cases "take k t = []")
    case True
    then show ?thesis using com d(1) by (simp add: fun_upd_idem)
  next
    case False
    moreover have "length (s @ take k t) < 2 ^ 64" using big(2) by simp
    ultimately show ?thesis using committed_extends [OF com] by blast
  qed
  have whole: "committed C L ?dt i ch s \<or> (\<exists>u. extended C L ?dt i ch s u)"
    using mid [of "length t"] by simp
  have both: "(e = ?fin \<and> r = Inr () \<or> (\<exists>k. e = d(blocks_path d \<mapsto> s @ take k t)) \<or> e = ?dt
      \<or> (\<exists>x. e = ?dt(META_TMP \<mapsto> x))) \<and> (r' = Inr () \<longrightarrow> dir_now st' = ?fin \<and> r = Inr ())"
  proof (cases "new = []")
    case True
    then have t: "t = []" "r = Inr ()" "?dt = d" using own w d(1) by (auto simp: fun_upd_idem)
    obtain st1 where st1: "write_meta C L ch' ?st = (st1, Inr ())" "dir_now st1 = ?fin"
      "set (dir_past st1) \<subseteq> {d} \<union> range (\<lambda>x. d(META_TMP \<mapsto> x))"
      using write_meta_run [of ?st i C L ch'] d(2) t(3) by auto
    then show ?thesis using save e True t by auto
  next
    case False
    let ?st1 = "\<lparr>dir_now = ?dt, dir_past = d # map (\<lambda>k. d(blocks_path d \<mapsto> s @ take k t)) [0..<length t]\<rparr>"
    have past: "x = d \<or> (\<exists>k. x = d(blocks_path d \<mapsto> s @ take k t))" if "x \<in> set (dir_past ?st1)" for x
      using that by auto
    have d0: "\<exists>k. d = d(blocks_path d \<mapsto> s @ take k t)"
      using d(1) by (intro exI [of _ 0]) (simp add: fun_upd_idem)
    have wb: "write_blocks (file_append (blocks_path d)) (lib_codec L) (format_of d)
        (drop (length (blocks ch)) (blocks ch')) ?st = (?st1, map_err Undecodable r)"
      using write_blocks_run [of d ?st "blocks_path d" s, OF _ d(1) w] by simp
    show ?thesis
    proof (cases r)
      case (Inl x)
      then have "st' = ?st1" "r' \<noteq> Inr ()" using save False wb by (auto simp: sr_bind_def)
      then show ?thesis using e past d0 by auto
    next
      case (Inr u)
      obtain st2 where st2: "write_meta C L ch' ?st1 = (st2, Inr ())" "dir_now st2 = ?fin"
        "set (dir_past st2) \<subseteq> set (dir_past ?st1) \<union> {?dt} \<union> range (\<lambda>x. ?dt(META_TMP \<mapsto> x))"
        using write_meta_run [of ?st1 i C L ch'] dt by auto
      have st': "st' = st2" using save False wb Inr st2(1) by (auto simp: sr_bind_def)
      have "e = ?fin \<or> e \<in> set (dir_past ?st1) \<or> e = ?dt \<or> (\<exists>x. e = ?dt(META_TMP \<mapsto> x))"
      proof (rule disjE [OF e])
        assume "e \<in> set (dir_past st')"
        then have "e \<in> set (dir_past ?st1) \<union> {?dt} \<union> range (\<lambda>x. ?dt(META_TMP \<mapsto> x))"
          using st2(3) unfolding st' by (rule subsetD [rotated])
        then show ?thesis by blast
      qed (simp add: st' st2(2))
      moreover have "r = Inr ()" using Inr by simp
      moreover have "dir_now st' = ?fin" by (simp only: st' st2(2))
      ultimately show ?thesis using past [of e] d0 by metis
    qed
  qed
  show "committed C L e i ch s \<or> (\<exists>u. extended C L e i ch s u) \<or> committed C L e i ch' (s @ t)"
  proof -
    let ?P = "\<lambda>e. committed C L e i ch s \<or> (\<exists>u. extended C L e i ch s u) \<or> committed C L e i ch' (s @ t)"
    have "?P ?fin" if "r = Inr ()" using fin [OF that] by blast
    moreover have "?P (d(blocks_path d \<mapsto> s @ take k t))" for k using mid [of k] by blast
    moreover have "?P ?dt" using whole by blast
    moreover have "?P (?dt(META_TMP \<mapsto> x))" for x using whole unfolding committed_other extended_other by blast
    ultimately show ?thesis using both by metis
  qed
  show "r' = Inr () \<Longrightarrow> committed C L (dir_now st') i ch' (s @ t)"
    using both fin by simp
qed

text \<open>Where such a directory leads on the next start.\<close>

lemma committed_loads:
  assumes C: "encoding_ok C" "group_ok C" and g: "grown C json now ch" and c: "committed C L d i ch s"
  shows "load_or_new C json L (network ch) now \<lparr>dir_now = d, dir_past = p\<rparr>
    = (\<lparr>dir_now = d, dir_past = p\<rparr>, Inr ch)"
  by (rule load_committed [OF C g, of L _ i s]) (use c in \<open>simp_all add: committed_def\<close>)

lemma load_after_crash:
  assumes C: "encoding_ok C" "group_ok C" and g: "grown C json now ch" and ne: "blocks ch \<noteq> []"
    and g': "grown C json now ch'" and n: "network ch' = network ch"
    and e: "committed C L e i ch s \<or> (\<exists>u. extended C L e i ch s u) \<or> committed C L e i ch' s'"
  shows "snd (load_or_new C json L (network ch) now \<lparr>dir_now = e, dir_past = []\<rparr>) \<in> {Inr ch, Inr ch'}"
  using e
proof (elim disjE exE)
  assume "committed C L e i ch s"
  then show ?thesis by (simp add: committed_loads [OF C g])
next
  fix u assume "extended C L e i ch s u"
  then show ?thesis using load_extended [OF C g ne] by simp
next
  assume "committed C L e i ch' s'"
  then show ?thesis by (simp add: committed_loads [OF C g', unfolded n])
qed

section \<open>Rewriting\<close>

text \<open>
  The new file is in place, the metadata still describe the old one, and the sizes agree: the
  file is trusted for what it is not, and the load ends in a refusal.
\<close>

lemma same_size_rewrite:
  assumes C: "encoding_ok C" "group_ok C" and g: "grown C json now ch"
    and g': "grown C json now ch'" and n: "network ch' = network ch"
    and com: "committed C L d i ch s" and w: "write_all_blocks (lib_codec L) (format_of d) (blocks ch') = Inr s'"
    and K: "codec_for (lib_codec L) (blocks ch')" "format_of d = Binary \<longrightarrow> \<not> looks_json s'"
    and len: "length s' = length s" and ne: "s \<noteq> []" and tip: "hash_to_hex (tip_hash C ch') \<noteq> hash_to_hex (tip_hash C ch)"
  shows "snd (load_or_new C json L (network ch) now \<lparr>dir_now = d(blocks_path d \<mapsto> s'), dir_past = []\<rparr>)
    = Inl (TipMismatch (hash_to_hex (tip_hash C ch)) (hash_to_hex (tip_hash C ch')))"
proof -
  let ?e = "d(blocks_path d \<mapsto> s')" and ?m = "meta_of C d ch i"
  let ?st = "\<lparr>dir_now = ?e, dir_past = []\<rparr>"
  note h = grown_facts [OF C g] and h' = grown_facts [OF C g']
  have hold: "holds_blocks L d i (blocks ch) s" using com by (simp add: committed_def)
  then have d: "d (blocks_path d) = Some s" "stored_id d = Some i" "length s < 2 ^ 64"
    by (simp_all add: holds_blocks_def)
  have e: "holds_blocks L ?e i (blocks ch') s'"
    using hold w K len d by (simp add: holds_blocks_def)
  have m: "records L ?e ?m" using com by (simp add: committed_def)
  have vb: "m_validated_bytes ?m = file_len ?e (blocks_path ?e)"
    using d len by (simp add: meta_of_def file_len_def)
  have pos: "file_len ?e (blocks_path ?e) \<noteq> 0" using record_bytes_cover(2) [OF e] len ne by auto
  have arch: "\<not> m_pruned ?m" "m_first_height ?m = 0" "m_validated_tip ?m = hash_to_hex (tip_hash C ch)"
    "m_network ?m = network ch" "m_validated_by ?m = i"
    using h(4) by (simp_all add: meta_of_def is_pruned_def)
  have t: "is_own_file_trusted L ?st = (?st, Inr True)"
    using trusted_eq [of L ?st ?m i] m d(2) arch tip_text [OF C g] stored_id_nonempty [OF d(2)] vb pos by simp
  have rec: "recover_uncommitted_archive_tail C json L (network ch) now ?st = (?st, Inr ())"
    using read_meta_records [OF m] d vb
    by (simp add: recover_uncommitted_archive_tail_def file_len_def) (auto simp: sr_return_def)
  obtain ch0 where f: "new_fair C json (network ch) = Inr ch0"
    "\<forall>i. replay_stored C True now i ch0 (blocks ch') = Inr ch'"
    using h'(8) n by auto
  have "check_record C (Some ?m) ch' = Inl (TipMismatch (hash_to_hex (tip_hash C ch)) (hash_to_hex (tip_hash C ch')))"
    using tip arch(3) by (auto simp: check_record_def ensure_def)
  moreover have "?e (blocks_path ?e) = Some s'" using d by simp
  moreover have "sr_bind (is_own_file_trusted L) k ?st = k True ?st" for k :: "bool \<Rightarrow> 'a chain store"
    by (simp add: sr_bind_def t)
  ultimately have l: "snd (load_existing C json L (network ch) now ?st)
    = Inl (TipMismatch (hash_to_hex (tip_hash C ch)) (hash_to_hex (tip_hash C ch')))"
    using arch f stored_read [OF e h'(1)] read_meta_records [OF m]
    by (simp add: load_existing_def Let_def)
  have "?e RECOVERY_JOURNAL = None" using e by (simp add: holds_blocks_def)
  then show ?thesis
    using d read_meta_records [OF m] l rec arch(4)
    by (simp add: load_or_new_def refuse_if_interrupted_recovery_def sr_bind_assoc)
      (simp add: sr_bind_def sr_require_def sr_return_def)
qed

end
