(* ===== verification/Node_Recovery.thy ===== *)
theory Node_Recovery
  imports Store_Load
begin

text \<open>
  \<open>crates/nightfall-node/src/recovery.rs\<close>: resetting the chain of a directory whose node is stuck
  on a dead fork.  A subdirectory is the part of the file map below its name; \<open>within\<close> runs an
  operation of the store in one.  What is in the directory but is no regular file, such as a
  link, is \<open>special\<close>.  The JSON of the journal and the two fields read from the metadata are
  parameters.  The flushes, and the faults that tests inject, are left out.
\<close>

section \<open>Files\<close>

definition CHAIN_FILES :: "string list" where
  "CHAIN_FILES = [BLOCKS_BIN, BLOCKS_JSONL, HEADERS_FILE, HORIZON_FILE, META_FILE, LEGACY_FILE,
     ''blocks.jsonl.pre-binary'']"

definition BACKUP_PREFIX :: string where "BACKUP_PREFIX = ''recovery-backup-''"
definition STAGING_PREFIX :: string where "STAGING_PREFIX = ''.recovery-staging-''"

datatype entry = Absent | Regular | Directory | Symlink | Special

datatype recover_error =
    NeedsNetwork | NeedsDatadir | NeedsForce | NoDatadir | DatadirLink | NotADirectory | LockIsLink
  | MixedFormats | IrregularFile string | NoChain | JournalPresent | NoChainMeta | BadIdentity
  | ChainOfNetwork network_id | ForeignGenesis string string | NoUniqueName
  | NotBuilt recover_error | WrongStaging | NotVerified | Stored store_error

type_synonym 'a recovery = "(disk, recover_error, 'a) sr"

definition stored :: "'a store \<Rightarrow> 'a recovery" where
  "stored m = (\<lambda>s. case m s of (s', r) \<Rightarrow> (s', map_err Stored r))"

definition below :: "string \<Rightarrow> string \<Rightarrow> string" where "below sub f = sub @ ''/'' @ f"

definition embed :: "string \<Rightarrow> dir \<Rightarrow> dir \<Rightarrow> dir" where
  "embed sub outer inner =
     (\<lambda>f. if prefix (below sub []) f then inner (drop (length (below sub [])) f) else outer f)"

definition within :: "string \<Rightarrow> 'a recovery \<Rightarrow> 'a recovery" where
  "within sub m s =
     (case m \<lparr>dir_now = (\<lambda>f. dir_now s (below sub f)), dir_past = []\<rparr> of
        (s', r) \<Rightarrow>
          (\<lparr>dir_now = embed sub (dir_now s) (dir_now s'),
            dir_past = dir_past s @ map (embed sub (dir_now s)) (dir_past s')\<rparr>, r))"

definition remove_below :: "string \<Rightarrow> unit store" where
  "remove_below sub s = touch [] (embed sub (dir_now s) (\<lambda>_. None)) s"

section \<open>Checks\<close>

definition precheck :: "bool \<Rightarrow> bool \<Rightarrow> bool \<Rightarrow> entry \<Rightarrow> entry \<Rightarrow> recover_error + unit" where
  "precheck network_explicit datadir_explicit force datadir lock =
     (if \<not> network_explicit then Inl NeedsNetwork
      else if \<not> datadir_explicit then Inl NeedsDatadir
      else if \<not> force then Inl NeedsForce
      else if datadir = Absent then Inl NoDatadir
      else if datadir = Symlink then Inl DatadirLink
      else if datadir \<noteq> Directory then Inl NotADirectory
      else if lock = Symlink then Inl LockIsLink
      else Inr ())"

fun present_files :: "(string \<Rightarrow> bool) \<Rightarrow> dir \<Rightarrow> string list \<Rightarrow> recover_error + string list" where
  "present_files special d [] = Inr []"
| "present_files special d (f # fs) =
     (if special f then Inl (IrregularFile f)
      else res_bind (present_files special d fs) (\<lambda>rest. Inr (if d f \<noteq> None then f # rest else rest)))"

definition present_chain_files :: "(string \<Rightarrow> bool) \<Rightarrow> dir \<Rightarrow> recover_error + string list" where
  "present_chain_files special d = present_files special d CHAIN_FILES"

definition network_named :: "string \<Rightarrow> network_id option" where
  "network_named s =
     (if s = ''mainnet'' then Some Mainnet else if s = ''testnet'' then Some Testnet
      else if s = ''devnet'' then Some Devnet else None)"

text \<open>\<open>idents\<close> gives the two fields of the metadata's JSON that are strings.\<close>

definition read_meta_identity ::
    "(string \<Rightarrow> (string option \<times> string option) option) \<Rightarrow> dir \<Rightarrow> recover_error + network_id \<times> string" where
  "read_meta_identity idents d =
     (case Option.bind (read_text d META_FILE) idents of
        Some (Some n, g) \<Rightarrow>
          (case network_named n of
             None \<Rightarrow> Inl BadIdentity
           | Some net \<Rightarrow>
               (case g of
                  None \<Rightarrow> Inl BadIdentity
                | Some h \<Rightarrow> if h = [] then Inl BadIdentity else Inr (net, h)))
      | _ \<Rightarrow> Inl BadIdentity)"

text \<open>
  The directory \<open>unique_dir\<close> makes and the counter after it: \<open>clock\<close> is the time at each attempt,
  \<open>k\<close> of which are left.
\<close>

fun unique_dir :: "(string \<Rightarrow> bool) \<Rightarrow> string \<Rightarrow> (nat \<Rightarrow> nat) \<Rightarrow> nat \<Rightarrow> nat \<Rightarrow> recover_error + string \<times> nat" where
  "unique_dir taken pre clock counter 0 = Inl NoUniqueName"
| "unique_dir taken pre clock counter (Suc k) =
     (let path = pre @ dec_string (clock counter) @ ''-'' @ dec_string counter in
      if taken path then unique_dir taken pre clock (counter + 1) k else Inr (path, counter + 1))"

section \<open>The reset\<close>

definition build_and_verify_fresh ::
    "('p::ab_group_add, 's::comm_ring_1) crypto \<Rightarrow> (genesis_config \<Rightarrow> bytes option) \<Rightarrow> store_lib
       \<Rightarrow> network_id \<Rightarrow> file_format \<Rightarrow> bytes option \<Rightarrow> u64 \<Rightarrow> string recovery" where
  "build_and_verify_fresh C json L n fmt id_file now =
     sr_bind (stored (case id_file of None \<Rightarrow> sr_return () | Some bs \<Rightarrow> file_write INSTALL_ID bs)) (\<lambda>_.
     sr_bind (stored (if fmt = Json then file_write BLOCKS_JSONL [] else sr_return ())) (\<lambda>_.
     sr_bind (sr_get (\<lambda>s. format_of (dir_now s))) (\<lambda>got.
     sr_bind (sr_require (got = fmt) WrongStaging) (\<lambda>_.
     sr_bind (sr_lift (map_err (\<lambda>e. Stored (ChainErr e)) (new_fair C json n))) (\<lambda>fresh.
     sr_bind (stored (save C L fresh)) (\<lambda>_.
     sr_bind (stored (load_or_new C json L n now)) (\<lambda>ch.
     sr_bind (sr_require (network ch = n \<and> block_count ch = 0) WrongStaging) (\<lambda>_.
     sr_bind (sr_get (\<lambda>s. format_of (dir_now s))) (\<lambda>got.
     sr_bind (sr_require (got = fmt) WrongStaging) (\<lambda>_.
       sr_return (hash_to_hex (genesis_hash fresh))))))))))))"

definition prepare_fresh ::
    "('p::ab_group_add, 's::comm_ring_1) crypto \<Rightarrow> (genesis_config \<Rightarrow> bytes option) \<Rightarrow> store_lib
       \<Rightarrow> network_id \<Rightarrow> file_format \<Rightarrow> string \<Rightarrow> u64 \<Rightarrow> string recovery" where
  "prepare_fresh C json L n fmt staging now s =
     (case within staging (build_and_verify_fresh C json L n fmt (dir_now s INSTALL_ID) now) s of
        (s', Inr g) \<Rightarrow> (s', Inr g)
      | (s', Inl e) \<Rightarrow> (fst (remove_below staging s'), Inl (NotBuilt e)))"

definition write_journal :: "bytes \<Rightarrow> unit recovery" where
  "write_journal body =
     sr_bind (sr_get (\<lambda>s. dir_now s RECOVERY_JOURNAL)) (\<lambda>old.
     sr_bind (sr_require (old = None) JournalPresent) (\<lambda>_. stored (file_write RECOVERY_JOURNAL body)))"

fun move_files :: "(string \<Rightarrow> string) \<Rightarrow> (string \<Rightarrow> string) \<Rightarrow> string list \<Rightarrow> unit store" where
  "move_files src dst [] = sr_return ()"
| "move_files src dst (f # fs) = sr_bind (file_rename (src f) (dst f)) (\<lambda>_. move_files src dst fs)"

definition verified_fresh :: "store_lib \<Rightarrow> string \<Rightarrow> file_format \<Rightarrow> dir \<Rightarrow> bool" where
  "verified_fresh L expected fmt d \<longleftrightarrow>
     (case peek_meta L d of
        None \<Rightarrow> False
      | Some (n_blocks, tip, gen) \<Rightarrow> n_blocks = 0 \<and> gen = expected \<and> format_of d = fmt)"

record recover_report =
  rr_backup :: string
  rr_format :: file_format
  rr_previous_height :: u64
  rr_previous_tip :: "string option"
  rr_genesis :: string
  rr_files :: "string list"

text \<open>From the journal on: what was there goes to the backup, what was staged takes its place.\<close>

definition swap_in ::
    "store_lib \<Rightarrow> bytes \<Rightarrow> string \<Rightarrow> string \<Rightarrow> string list \<Rightarrow> string \<Rightarrow> file_format \<Rightarrow> unit recovery" where
  "swap_in L journal backup staging present expected fmt =
     sr_bind (write_journal journal) (\<lambda>_.
     sr_bind (stored (move_files (\<lambda>f. f) (below backup) present)) (\<lambda>_.
     sr_bind (sr_get (\<lambda>s. \<lambda>f. dir_now s (below staging f))) (\<lambda>inner.
     sr_bind (sr_lift (present_chain_files (\<lambda>_. False) inner)) (\<lambda>staged.
     sr_bind (stored (move_files (below staging) (\<lambda>f. f) staged)) (\<lambda>_.
     sr_bind (stored (remove_below staging)) (\<lambda>_.
     sr_bind (sr_get dir_now) (\<lambda>d.
     sr_bind (sr_require (verified_fresh L expected fmt d) NotVerified) (\<lambda>_.
       stored (file_remove RECOVERY_JOURNAL)))))))))"

text \<open>The node's own checks, made again under the lock: the files, the format, the genesis.\<close>

definition recoverable ::
    "('p::ab_group_add, 's) crypto \<Rightarrow> (genesis_config \<Rightarrow> bytes option)
       \<Rightarrow> (string \<Rightarrow> (string option \<times> string option) option) \<Rightarrow> (string \<Rightarrow> bool) \<Rightarrow> network_id \<Rightarrow> bool \<Rightarrow> dir
       \<Rightarrow> recover_error + string list \<times> string" where
  "recoverable C json idents special n force d =
     (if \<not> force then Inl NeedsForce
      else if d BLOCKS_BIN \<noteq> None \<and> \<not> special BLOCKS_BIN \<and> d BLOCKS_JSONL \<noteq> None \<and> \<not> special BLOCKS_JSONL
        then Inl MixedFormats
      else
        res_bind (present_chain_files special d) (\<lambda>present.
        if present = [] then Inl NoChain
        else if special RECOVERY_JOURNAL \<or> d RECOVERY_JOURNAL \<noteq> None then Inl JournalPresent
        else if d META_FILE = None then Inl NoChainMeta
        else
          res_bind (read_meta_identity idents d) (\<lambda>(net, gen).
          if net \<noteq> n then Inl (ChainOfNetwork net)
          else
            (case new_fair C json n of
               Inl e \<Rightarrow> Inl (Stored (ChainErr e))
             | Inr fresh \<Rightarrow>
                 if gen \<noteq> hash_to_hex (genesis_hash fresh)
                 then Inl (ForeignGenesis gen (hash_to_hex (genesis_hash fresh)))
                 else Inr (present, hash_to_hex (genesis_hash fresh))))))"

definition recover_stalled_fork ::
    "('p::ab_group_add, 's::comm_ring_1) crypto \<Rightarrow> (genesis_config \<Rightarrow> bytes option) \<Rightarrow> store_lib
       \<Rightarrow> (string \<Rightarrow> (string option \<times> string option) option) \<Rightarrow> (string \<Rightarrow> network_id \<Rightarrow> u64 \<Rightarrow> bytes)
       \<Rightarrow> (string \<Rightarrow> bool) \<Rightarrow> (string \<Rightarrow> bool) \<Rightarrow> (nat \<Rightarrow> nat) \<Rightarrow> nat \<Rightarrow> network_id \<Rightarrow> bool \<Rightarrow> u64
       \<Rightarrow> recover_report recovery" where
  "recover_stalled_fork C json L idents journal special taken clock counter n force now =
     sr_bind (sr_get dir_now) (\<lambda>d.
     sr_bind (sr_lift (recoverable C json idents special n force d)) (\<lambda>(present, expected).
     sr_bind (sr_lift (unique_dir taken BACKUP_PREFIX clock counter 10000)) (\<lambda>(backup, counter').
     sr_bind (sr_lift (unique_dir taken STAGING_PREFIX clock counter' 10000)) (\<lambda>(staging, _).
     sr_bind (prepare_fresh C json L n (format_of d) staging now) (\<lambda>g.
     sr_bind (swap_in L (journal backup n now) backup staging present expected (format_of d)) (\<lambda>_.
       sr_return
         \<lparr>rr_backup = backup, rr_format = format_of d,
          rr_previous_height = (case peek_meta L d of Some (h, tip, _) \<Rightarrow> h | None \<Rightarrow> 0),
          rr_previous_tip = (case peek_meta L d of Some (h, tip, _) \<Rightarrow> Some tip | None \<Rightarrow> None),
          rr_genesis = g, rr_files = present\<rparr>))))))"

section \<open>What a run goes through\<close>

text \<open>From \<open>P\<close>, every directory on the way satisfies \<open>I\<close>, and a result leaves one with \<open>Q\<close>.\<close>

definition runs :: "(dir \<Rightarrow> bool) \<Rightarrow> (dir \<Rightarrow> bool) \<Rightarrow> (disk, 'e, 'a) sr \<Rightarrow> ('a \<Rightarrow> dir \<Rightarrow> bool) \<Rightarrow> bool" where
  "runs P I m Q \<longleftrightarrow>
     (\<forall>s. P (dir_now s) \<longrightarrow>
        (\<exists>ds. dir_past (fst (m s)) = dir_past s @ ds \<and> (\<forall>d \<in> set ds. I d)) \<and> I (dir_now (fst (m s)))
        \<and> (\<forall>x. snd (m s) = Inr x \<longrightarrow> Q x (dir_now (fst (m s)))))"

lemma runsI:
  assumes "\<And>s. P (dir_now s) \<Longrightarrow>
      (\<exists>ds. dir_past (fst (m s)) = dir_past s @ ds \<and> (\<forall>d \<in> set ds. I d)) \<and> I (dir_now (fst (m s)))
        \<and> (\<forall>x. snd (m s) = Inr x \<longrightarrow> Q x (dir_now (fst (m s))))"
  shows "runs P I m Q"
  using assms by (simp add: runs_def)

lemma runs_bind:
  assumes m: "runs P I m Q" and f: "\<And>x. runs (Q x) I (f x) R"
  shows "runs P I (sr_bind m f) R"
proof (rule runsI)
  fix s :: disk
  assume "P (dir_now s)"
  obtain s1 r where e: "m s = (s1, r)" by fastforce
  from m [unfolded runs_def, rule_format, OF \<open>P (dir_now s)\<close>] e
  obtain ds where ds: "dir_past s1 = dir_past s @ ds" "\<forall>d \<in> set ds. I d" "I (dir_now s1)"
    and q: "\<And>x. r = Inr x \<Longrightarrow> Q x (dir_now s1)" by auto
  show "(\<exists>ds. dir_past (fst (sr_bind m f s)) = dir_past s @ ds \<and> (\<forall>d \<in> set ds. I d))
      \<and> I (dir_now (fst (sr_bind m f s)))
      \<and> (\<forall>x. snd (sr_bind m f s) = Inr x \<longrightarrow> R x (dir_now (fst (sr_bind m f s))))"
  proof (cases r)
    case Inl
    with e ds show ?thesis by (auto simp: sr_bind_def)
  next
    case (Inr x)
    from f [of x, unfolded runs_def, rule_format, OF q [OF Inr]]
    obtain es where es: "dir_past (fst (f x s1)) = dir_past s1 @ es" "\<forall>d \<in> set es. I d"
      and rest: "I (dir_now (fst (f x s1)))" "\<forall>y. snd (f x s1) = Inr y \<longrightarrow> R y (dir_now (fst (f x s1)))"
      by blast
    have "\<exists>ds. dir_past (fst (f x s1)) = dir_past s @ ds \<and> (\<forall>d \<in> set ds. I d)"
      by (intro exI [of _ "ds @ es"]) (use es ds in auto)
    with rest show ?thesis by (simp add: sr_bind_def e Inr)
  qed
qed

lemma runs_return: "(\<And>d. P d \<Longrightarrow> I d \<and> Q x d) \<Longrightarrow> runs P I (sr_return x) Q"
  by (simp add: runs_def sr_return_def)

lemma runs_require: "(\<And>d. P d \<Longrightarrow> I d) \<Longrightarrow> (\<And>d. P d \<Longrightarrow> b \<Longrightarrow> Q () d) \<Longrightarrow> runs P I (sr_require b e) Q"
  by (simp add: runs_def sr_require_def sr_return_def sr_fail_def)

lemma runs_lift: "(\<And>d. P d \<Longrightarrow> I d) \<Longrightarrow> (\<And>d x. P d \<Longrightarrow> r = Inr x \<Longrightarrow> Q x d) \<Longrightarrow> runs P I (sr_lift r) Q"
  by (auto simp: runs_def sr_lift_def sr_return_def sr_fail_def split: sum.split)

lemma runs_get: "(\<And>d. P d \<Longrightarrow> I d) \<Longrightarrow> runs P I (sr_get (\<lambda>s. h (dir_now s))) (\<lambda>x d. P d \<and> x = h d)"
  by (auto simp: runs_def sr_get_def)

lemma runs_stored: "runs P I m Q \<Longrightarrow> runs P I (stored m) Q"
  unfolding runs_def stored_def by (auto simp: case_prod_beta map_err_Inr_iff)

lemma runs_weaken: "runs P I m Q \<Longrightarrow> (\<And>d. P' d \<Longrightarrow> P d) \<Longrightarrow> (\<And>d. I d \<Longrightarrow> I' d) \<Longrightarrow> (\<And>x d. Q x d \<Longrightarrow> Q' x d)
    \<Longrightarrow> runs P' I' m Q'"
  unfolding runs_def by (meson)

lemma runs_rename:
  assumes "\<And>d. P d \<Longrightarrow> I d" and "\<And>d bs. P d \<Longrightarrow> d f = Some bs \<Longrightarrow> I (d(f := None, g \<mapsto> bs)) \<and> Q () (d(f := None, g \<mapsto> bs))"
  shows "runs P I (file_rename f g) Q"
  using assms by (auto simp: runs_def file_rename_def touch_def split: option.split)

section \<open>No chain is lost\<close>

lemma below_names: "below sub f = below sub [] @ f" "below sub f = below sub g \<longleftrightarrow> f = g" "prefix (below sub []) (below sub f)"
  by (simp_all add: below_def)

lemma embed_outside: "\<not> prefix (below sub []) f \<Longrightarrow> embed sub d e f = d f"
  by (simp add: embed_def)

text \<open>No name of a chain file lies below a backup or a staging directory.\<close>

lemma chain_names:
  assumes "f \<in> set CHAIN_FILES"
  shows "\<not> prefix (below (BACKUP_PREFIX @ x) []) f" "\<not> prefix (below (STAGING_PREFIX @ x) []) f" "f \<noteq> RECOVERY_JOURNAL"
  using assms by (auto simp: CHAIN_FILES_def file_names below_def BACKUP_PREFIX_def STAGING_PREFIX_def)

lemma other_names:
  "\<not> prefix (below (BACKUP_PREFIX @ x) []) (below (STAGING_PREFIX @ y) f)"
  "\<not> prefix (below (STAGING_PREFIX @ y) []) (below (BACKUP_PREFIX @ x) f)"
  "\<not> prefix (below (BACKUP_PREFIX @ x) []) RECOVERY_JOURNAL" "\<not> prefix (below (STAGING_PREFIX @ y) []) RECOVERY_JOURNAL"
  by (auto simp: file_names below_def BACKUP_PREFIX_def STAGING_PREFIX_def)

lemma unique_dir_name: "unique_dir taken pre clock counter k = Inr (path, c) \<Longrightarrow> \<exists>x. path = pre @ x"
  by (induction k arbitrary: counter) (auto simp: Let_def split: if_splits)

lemma present_files_Inr: "present_files special d fs = Inr ps \<Longrightarrow> ps = filter (\<lambda>f. d f \<noteq> None) fs"
  by (induction fs arbitrary: ps) (auto simp: res_bind_Inr_iff split: if_splits)

text \<open>
  \<open>kept d0 backup todo d\<close>: the chain files of \<open>d0\<close> named in \<open>todo\<close> are in place, the others in the
  backup.  \<open>elsewhere\<close>: nothing but the chain files, the journal and the two new directories changed.
\<close>

definition kept :: "dir \<Rightarrow> string \<Rightarrow> string list \<Rightarrow> dir \<Rightarrow> bool" where
  "kept d0 backup todo d \<longleftrightarrow>
     (\<forall>f \<in> set CHAIN_FILES. d0 f \<noteq> None \<longrightarrow> (if f \<in> set todo then d f = d0 f else d (below backup f) = d0 f))"

definition elsewhere :: "dir \<Rightarrow> string \<Rightarrow> string \<Rightarrow> dir \<Rightarrow> bool" where
  "elsewhere d0 backup staging d \<longleftrightarrow>
     (\<forall>f. f \<notin> set CHAIN_FILES \<longrightarrow> f \<noteq> RECOVERY_JOURNAL \<longrightarrow> \<not> prefix (below backup []) f
        \<longrightarrow> \<not> prefix (below staging []) f \<longrightarrow> d f = d0 f)"

definition untouched_but :: "dir \<Rightarrow> string \<Rightarrow> dir \<Rightarrow> bool" where
  "untouched_but d0 staging d \<longleftrightarrow> (\<forall>f. \<not> prefix (below staging []) f \<longrightarrow> d f = d0 f)"

definition going :: "dir \<Rightarrow> string \<Rightarrow> string \<Rightarrow> string list \<Rightarrow> dir \<Rightarrow> bool" where
  "going d0 backup staging todo d \<longleftrightarrow>
     d RECOVERY_JOURNAL \<noteq> None \<and> kept d0 backup todo d \<and> elsewhere d0 backup staging d"

definition reset_done :: "store_lib \<Rightarrow> string \<Rightarrow> file_format \<Rightarrow> dir \<Rightarrow> string \<Rightarrow> string \<Rightarrow> dir \<Rightarrow> bool" where
  "reset_done L expected fmt d0 backup staging d \<longleftrightarrow>
     d RECOVERY_JOURNAL = None \<and> kept d0 backup [] d \<and> elsewhere d0 backup staging d
     \<and> verified_fresh L expected fmt d"

definition recovering :: "store_lib \<Rightarrow> string \<Rightarrow> file_format \<Rightarrow> dir \<Rightarrow> string \<Rightarrow> string \<Rightarrow> dir \<Rightarrow> bool" where
  "recovering L expected fmt d0 backup staging d \<longleftrightarrow>
     untouched_but d0 staging d \<or> (\<exists>todo. going d0 backup staging todo d)
     \<or> reset_done L expected fmt d0 backup staging d"

lemma going_recovering: "going d0 backup staging todo d \<Longrightarrow> recovering L expected fmt d0 backup staging d"
  by (auto simp: recovering_def)

lemma prepare_fresh_runs:
  "runs (untouched_but d0 staging) (untouched_but d0 staging) (prepare_fresh C json L n fmt staging now)
     (\<lambda>_. untouched_but d0 staging)"
proof (rule runsI)
  fix s :: disk
  let ?m = "build_and_verify_fresh C json L n fmt (dir_now s INSTALL_ID) now"
  assume u: "untouched_but d0 staging (dir_now s)"
  have e: "untouched_but d0 staging (embed staging (dir_now s) d)"
      "untouched_but d0 staging (embed staging (embed staging (dir_now s) d) d')" for d d'
    using u by (simp_all add: untouched_but_def embed_outside)
  obtain s1 r where w: "?m \<lparr>dir_now = (\<lambda>f. dir_now s (below staging f)), dir_past = []\<rparr> = (s1, r)" by fastforce
  show "(\<exists>ds. dir_past (fst (prepare_fresh C json L n fmt staging now s)) = dir_past s @ ds
        \<and> (\<forall>d \<in> set ds. untouched_but d0 staging d))
      \<and> untouched_but d0 staging (dir_now (fst (prepare_fresh C json L n fmt staging now s)))
      \<and> (\<forall>x. snd (prepare_fresh C json L n fmt staging now s) = Inr x \<longrightarrow>
           untouched_but d0 staging (dir_now (fst (prepare_fresh C json L n fmt staging now s))))"
    using e by (cases r) (auto simp: prepare_fresh_def within_def w remove_below_def touch_def)
qed

text \<open>The originals move one by one; what is staged takes their place.\<close>

lemma move_out_runs:
  assumes b: "backup = BACKUP_PREFIX @ x"
  shows "distinct fs \<Longrightarrow> set fs \<subseteq> {f \<in> set CHAIN_FILES. d0 f \<noteq> None}
    \<Longrightarrow> runs (going d0 backup staging fs) (recovering L expected fmt d0 backup staging)
          (move_files (\<lambda>f. f) (below backup) fs) (\<lambda>_. going d0 backup staging [])"
proof (induction fs)
  case Nil
  show ?case by (simp add: runs_return going_recovering)
next
  case (Cons f fs)
  have f: "f \<in> set CHAIN_FILES" "d0 f \<noteq> None" "f \<notin> set fs" "set fs \<subseteq> set CHAIN_FILES" using Cons.prems by auto
  note nf = chain_names(1) [OF f(1), of x, folded b] chain_names(3) [OF f(1)]
  have step: "going d0 backup staging fs (d(f := None, below backup f \<mapsto> bs))"
    if g: "going d0 backup staging (f # fs) d" and bs: "d f = Some bs" for d bs
  proof -
    have k: "kept d0 backup fs (d(f := None, below backup f \<mapsto> bs))"
      unfolding kept_def
    proof (intro ballI impI)
      fix g'
      assume g': "g' \<in> set CHAIN_FILES" "d0 g' \<noteq> None"
      have n: "\<not> prefix (below backup []) g'" using chain_names(1) [OF g'(1), of x] by (simp add: b)
      then have "g' \<noteq> below backup f" "below backup g' \<noteq> f" using nf(1) by (auto simp: below_names(3))
      moreover have "if g' \<in> set (f # fs) then d g' = d0 g' else d (below backup g') = d0 g'"
        using g g' unfolding going_def kept_def by blast
      ultimately show "if g' \<in> set fs then (d(f := None, below backup f \<mapsto> bs)) g' = d0 g'
          else (d(f := None, below backup f \<mapsto> bs)) (below backup g') = d0 g'"
        using bs f(3) by (auto simp: below_names(2))
    qed
    have "RECOVERY_JOURNAL \<noteq> below backup f" using other_names(3) [of x] below_names(3) [of backup f] b by metis
    then show ?thesis using g k nf(2) f(1) by (auto simp: going_def elsewhere_def below_names(3))
  qed
  show ?case
    unfolding move_files.simps
  proof (rule runs_bind)
    show "runs (going d0 backup staging (f # fs)) (recovering L expected fmt d0 backup staging)
        (file_rename f (below backup f)) (\<lambda>_. going d0 backup staging fs)"
      by (rule runs_rename) (use going_recovering step in blast)+
    show "runs (going d0 backup staging fs) (recovering L expected fmt d0 backup staging)
        (move_files (\<lambda>f. f) (below backup) fs) (\<lambda>_. going d0 backup staging [])"
      by (rule Cons.IH) (use Cons.prems in auto)
  qed
qed

lemma move_in_runs:
  assumes b: "backup = BACKUP_PREFIX @ x" "staging = STAGING_PREFIX @ y"
  shows "set fs \<subseteq> set CHAIN_FILES
    \<Longrightarrow> runs (going d0 backup staging []) (recovering L expected fmt d0 backup staging)
          (move_files (below staging) (\<lambda>f. f) fs) (\<lambda>_. going d0 backup staging [])"
proof (induction fs)
  case Nil
  show ?case by (simp add: runs_return going_recovering)
next
  case (Cons f fs)
  have f: "f \<in> set CHAIN_FILES" using Cons.prems by simp
  have step: "going d0 backup staging [] (d(below staging f := None, f \<mapsto> bs))"
    if g: "going d0 backup staging [] d" for d bs
  proof -
    have "below backup g' \<noteq> below staging f" "below backup g' \<noteq> f" for g'
      using other_names(2) [of y x g'] chain_names(1) [OF f, of x] by (auto simp: b below_names(3))
    then have "kept d0 backup [] (d(below staging f := None, f \<mapsto> bs))"
      using g by (simp add: going_def kept_def)
    moreover have "RECOVERY_JOURNAL \<noteq> below staging f" using other_names(4) [of y] below_names(3) [of staging f] b(2) by metis
    ultimately show ?thesis
      using g f chain_names(3) [OF f] by (auto simp: going_def elsewhere_def below_names(3))
  qed
  show ?case
    unfolding move_files.simps
  proof (rule runs_bind)
    show "runs (going d0 backup staging []) (recovering L expected fmt d0 backup staging)
        (file_rename (below staging f) f) (\<lambda>_. going d0 backup staging [])"
      by (rule runs_rename) (use going_recovering step in blast)+
  qed (use Cons in simp)
qed

lemma write_journal_runs:
  assumes s: "staging = STAGING_PREFIX @ y"
    and todo: "\<And>f. f \<in> set CHAIN_FILES \<Longrightarrow> d0 f \<noteq> None \<Longrightarrow> f \<in> set todo"
  shows "runs (untouched_but d0 staging) (recovering L expected fmt d0 backup staging) (write_journal body)
    (\<lambda>_. going d0 backup staging todo)"
proof -
  have g: "going d0 backup staging todo (d(RECOVERY_JOURNAL \<mapsto> bs))" if "untouched_but d0 staging d" for d bs
    using that todo chain_names(2,3)
    by (auto simp: going_def kept_def elsewhere_def untouched_but_def s)
  have "runs (untouched_but d0 staging) (recovering L expected fmt d0 backup staging)
      (file_write RECOVERY_JOURNAL body) (\<lambda>_. going d0 backup staging todo)"
    using g going_recovering by (auto simp: runs_def file_write_def touch_def recovering_def)
  then show ?thesis
    unfolding write_journal_def
    by (intro runs_bind [OF runs_get [where h = "\<lambda>d. d RECOVERY_JOURNAL"]]
        runs_bind [OF runs_require [where Q = "\<lambda>_. untouched_but d0 staging"]] runs_stored)
      (auto simp: recovering_def)
qed

lemma verified_fresh_journal: "verified_fresh L expected fmt (d(RECOVERY_JOURNAL := b)) = verified_fresh L expected fmt d"
proof -
  have "RECOVERY_JOURNAL \<noteq> META_FILE" "RECOVERY_JOURNAL \<noteq> BLOCKS_BIN" "RECOVERY_JOURNAL \<noteq> BLOCKS_JSONL"
    by (simp_all add: file_names)
  then have "format_of (d(RECOVERY_JOURNAL := b)) = format_of d" "peek_meta L (d(RECOVERY_JOURNAL := b)) = peek_meta L d"
    by (simp_all add: format_of_def detect_def peek_meta_def read_meta_def read_text_def)
  then show ?thesis by (simp add: verified_fresh_def split: option.split)
qed

lemma swap_in_runs:
  assumes b: "backup = BACKUP_PREFIX @ x" and s: "staging = STAGING_PREFIX @ y"
    and present: "present = filter (\<lambda>f. d0 f \<noteq> None) CHAIN_FILES"
  shows "runs (untouched_but d0 staging) (recovering L expected fmt d0 backup staging)
    (swap_in L journal backup staging present expected fmt) (\<lambda>_. reset_done L expected fmt d0 backup staging)"
proof -
  have d: "distinct CHAIN_FILES" by (simp add: CHAIN_FILES_def file_names)
  have out: "runs (going d0 backup staging present) (recovering L expected fmt d0 backup staging)
      (move_files (\<lambda>f. f) (below backup) present) (\<lambda>_. going d0 backup staging [])"
    by (rule move_out_runs [OF b]) (use d in \<open>auto simp: present\<close>)
  have clear: "runs (going d0 backup staging []) (recovering L expected fmt d0 backup staging)
      (remove_below staging) (\<lambda>_. going d0 backup staging [])"
  proof -
    have "going d0 backup staging [] (embed staging d (\<lambda>_. None))" if "going d0 backup staging [] d" for d
    proof -
      have "\<not> prefix (below staging []) (below backup f)" for f using other_names(2) by (simp add: b s)
      then show ?thesis using that other_names(4) [of y] by (simp add: going_def kept_def elsewhere_def embed_outside s)
    qed
    then show ?thesis by (auto simp: runs_def remove_below_def touch_def intro: going_recovering)
  qed
  have final: "runs (\<lambda>d. going d0 backup staging [] d \<and> verified_fresh L expected fmt d)
      (recovering L expected fmt d0 backup staging) (file_remove RECOVERY_JOURNAL)
      (\<lambda>_. reset_done L expected fmt d0 backup staging)"
  proof -
    have "reset_done L expected fmt d0 backup staging (d(RECOVERY_JOURNAL := None))"
      if g: "going d0 backup staging [] d" and v: "verified_fresh L expected fmt d" for d
    proof -
      have "below backup f \<noteq> RECOVERY_JOURNAL" for f using other_names(3) [of x] below_names(3) [of backup f] b by metis
      then show ?thesis using g v by (simp add: reset_done_def going_def kept_def elsewhere_def verified_fresh_journal)
    qed
    then show ?thesis using going_recovering by (auto simp: runs_def file_remove_def touch_def recovering_def)
  qed
  have staged: "set fs \<subseteq> set CHAIN_FILES" if "present_chain_files (\<lambda>_. False) inner = Inr fs" for fs inner
    using present_files_Inr [OF that [unfolded present_chain_files_def]] by auto
  show ?thesis
    unfolding swap_in_def
  proof (rule runs_bind [OF write_journal_runs [OF s, where todo = present]])
    show "f \<in> set present" if "f \<in> set CHAIN_FILES" "d0 f \<noteq> None" for f using that by (simp add: present)
  next
    fix u :: unit
    show "runs (going d0 backup staging present) (recovering L expected fmt d0 backup staging)
      (sr_bind (stored (move_files (\<lambda>f. f) (below backup) present)) (\<lambda>_.
       sr_bind (sr_get (\<lambda>s. \<lambda>f. dir_now s (below staging f))) (\<lambda>inner.
       sr_bind (sr_lift (present_chain_files (\<lambda>_. False) inner)) (\<lambda>staged.
       sr_bind (stored (move_files (below staging) (\<lambda>f. f) staged)) (\<lambda>_.
       sr_bind (stored (remove_below staging)) (\<lambda>_.
       sr_bind (sr_get dir_now) (\<lambda>d.
       sr_bind (sr_require (verified_fresh L expected fmt d) NotVerified) (\<lambda>_.
         stored (file_remove RECOVERY_JOURNAL)))))))))
      (\<lambda>_. reset_done L expected fmt d0 backup staging)"
    proof (rule runs_bind [OF runs_stored [OF out]], rule runs_bind [OF runs_get], rule going_recovering, assumption,
        rule runs_bind [where Q = "\<lambda>fs d. going d0 backup staging [] d \<and> set fs \<subseteq> set CHAIN_FILES"])
      fix u :: unit and inner
      show "runs (\<lambda>d. going d0 backup staging [] d \<and> inner = (\<lambda>f. d (below staging f)))
          (recovering L expected fmt d0 backup staging) (sr_lift (present_chain_files (\<lambda>_. False) inner))
          (\<lambda>fs d. going d0 backup staging [] d \<and> set fs \<subseteq> set CHAIN_FILES)"
        by (rule runs_lift) (use going_recovering staged in auto)
    next
      fix fs
      show "runs (\<lambda>d. going d0 backup staging [] d \<and> set fs \<subseteq> set CHAIN_FILES) (recovering L expected fmt d0 backup staging)
        (sr_bind (stored (move_files (below staging) (\<lambda>f. f) fs)) (\<lambda>_.
         sr_bind (stored (remove_below staging)) (\<lambda>_.
         sr_bind (sr_get dir_now) (\<lambda>d.
         sr_bind (sr_require (verified_fresh L expected fmt d) NotVerified) (\<lambda>_.
           stored (file_remove RECOVERY_JOURNAL))))))
        (\<lambda>_. reset_done L expected fmt d0 backup staging)"
      proof (rule runs_bind [OF runs_stored])
        show "runs (\<lambda>d. going d0 backup staging [] d \<and> set fs \<subseteq> set CHAIN_FILES) (recovering L expected fmt d0 backup staging)
            (move_files (below staging) (\<lambda>f. f) fs) (\<lambda>_. going d0 backup staging [])"
          using move_in_runs [OF b s, of fs] by (cases "set fs \<subseteq> set CHAIN_FILES") (auto simp: runs_def)
      next
        fix u :: unit
        show "runs (going d0 backup staging []) (recovering L expected fmt d0 backup staging)
          (sr_bind (stored (remove_below staging)) (\<lambda>_.
           sr_bind (sr_get dir_now) (\<lambda>d.
           sr_bind (sr_require (verified_fresh L expected fmt d) NotVerified) (\<lambda>_.
             stored (file_remove RECOVERY_JOURNAL)))))
          (\<lambda>_. reset_done L expected fmt d0 backup staging)"
        proof (rule runs_bind [OF runs_stored [OF clear]], rule runs_bind [OF runs_get [where h = "\<lambda>d. d"]],
            rule going_recovering, assumption,
            rule runs_bind [where Q = "\<lambda>_ d. going d0 backup staging [] d \<and> verified_fresh L expected fmt d"])
          fix u :: unit
          show "runs (\<lambda>d. going d0 backup staging [] d \<and> verified_fresh L expected fmt d)
              (recovering L expected fmt d0 backup staging) (stored (file_remove RECOVERY_JOURNAL))
              (\<lambda>_. reset_done L expected fmt d0 backup staging)"
            by (rule runs_stored [OF final])
        next
          fix d
          show "runs (\<lambda>e. going d0 backup staging [] e \<and> d = e) (recovering L expected fmt d0 backup staging)
              (sr_require (verified_fresh L expected fmt d) NotVerified)
              (\<lambda>_ e. going d0 backup staging [] e \<and> verified_fresh L expected fmt e)"
            by (rule runs_require) (use going_recovering in auto)
        qed
      qed
    qed
  qed
qed

lemma recoverable_present:
  assumes "recoverable C json idents special n force d = Inr (present, expected)"
  shows "present = filter (\<lambda>f. d f \<noteq> None) CHAIN_FILES"
proof -
  obtain ps where ps: "present_chain_files special d = Inr ps"
    using assms by (auto simp: recoverable_def res_bind_Inr_iff split: if_splits)
  have "present = ps"
    using assms
    by (cases "new_fair C json n") (auto simp: recoverable_def ps res_bind_Inr_iff split: if_splits prod.splits)
  then show ?thesis using present_files_Inr [OF ps [unfolded present_chain_files_def]] by simp
qed

text \<open>Every directory a reset goes through, from the one it starts in.\<close>

lemma recovery_states:
  assumes r: "recover_stalled_fork C json L idents journal special taken clock counter n force now s = (s', r)"
  shows "\<exists>x y expected ds. dir_past s' = dir_past s @ ds
    \<and> (\<forall>d \<in> set ds \<union> {dir_now s'}.
         recovering L expected (format_of (dir_now s)) (dir_now s) (BACKUP_PREFIX @ x) (STAGING_PREFIX @ y) d)
    \<and> (\<forall>v. r = Inr v \<longrightarrow> rr_backup v = BACKUP_PREFIX @ x
         \<and> reset_done L expected (format_of (dir_now s)) (dir_now s) (BACKUP_PREFIX @ x) (STAGING_PREFIX @ y) (dir_now s'))"
proof -
  define d0 where "d0 = dir_now s"
  have same: "untouched_but d0 st d0" for st by (simp add: untouched_but_def)
  show ?thesis
  proof (cases "\<exists>present expected backup c staging c'. recoverable C json idents special n force d0 = Inr (present, expected)
      \<and> unique_dir taken BACKUP_PREFIX clock counter 10000 = Inr (backup, c)
      \<and> unique_dir taken STAGING_PREFIX clock c 10000 = Inr (staging, c')")
    case False
    then have "s' = s \<and> (\<exists>e. r = Inl e)"
      using r unfolding recover_stalled_fork_def
      by (auto simp: sr_bind_def sr_get_def sr_lift_def sr_fail_def sr_return_def d0_def split: sum.splits)
    then show ?thesis using same [of "STAGING_PREFIX @ []"]
      by (intro exI [of _ "[]"] exI [of _ "[]"] exI [of _ "[]"] exI [of _ "[]"]) (auto simp: recovering_def d0_def)
  next
    case True
    then obtain present expected backup c staging c' where ok: "recoverable C json idents special n force d0 = Inr (present, expected)"
      and bu: "unique_dir taken BACKUP_PREFIX clock counter 10000 = Inr (backup, c)"
      and su: "unique_dir taken STAGING_PREFIX clock c 10000 = Inr (staging, c')" by blast
    obtain x y where b: "backup = BACKUP_PREFIX @ x" and st: "staging = STAGING_PREFIX @ y"
      using unique_dir_name [OF bu] unique_dir_name [OF su] by blast
    have present: "present = filter (\<lambda>f. d0 f \<noteq> None) CHAIN_FILES"
      by (rule recoverable_present [OF ok])
    define rest where "rest g = sr_bind (swap_in L (journal backup n now) backup staging present expected (format_of d0)) (\<lambda>_.
       sr_return
         \<lparr>rr_backup = backup, rr_format = format_of d0,
          rr_previous_height = (case peek_meta L d0 of Some (h, tip, _) \<Rightarrow> h | None \<Rightarrow> 0),
          rr_previous_tip = (case peek_meta L d0 of Some (h, tip, _) \<Rightarrow> Some tip | None \<Rightarrow> None),
          rr_genesis = g, rr_files = present\<rparr>)" for g
    let ?I = "recovering L expected (format_of d0) d0 backup staging"
    have "runs (untouched_but d0 staging) ?I (rest g)
        (\<lambda>v d. rr_backup v = backup \<and> reset_done L expected (format_of d0) d0 backup staging d)" for g
      unfolding rest_def
      by (rule runs_bind [OF swap_in_runs [OF b st present]], rule runs_return) (simp add: recovering_def)
    then have "runs (untouched_but d0 staging) ?I (sr_bind (prepare_fresh C json L n (format_of d0) staging now) rest)
        (\<lambda>v d. rr_backup v = backup \<and> reset_done L expected (format_of d0) d0 backup staging d)"
      by (intro runs_bind [where Q = "\<lambda>_. untouched_but d0 staging", OF runs_weaken [OF prepare_fresh_runs]])
        (auto simp: recovering_def)
    moreover have "sr_bind (prepare_fresh C json L n (format_of d0) staging now) rest s = (s', r)"
      using r unfolding recover_stalled_fork_def rest_def [abs_def]
      by (simp add: sr_bind_def [of "sr_get dir_now"] sr_bind_def [of "sr_lift _"] sr_get_def sr_lift_def sr_return_def
          d0_def [symmetric] ok bu su)
    ultimately have "(\<exists>ds. dir_past s' = dir_past s @ ds \<and> (\<forall>d \<in> set ds. ?I d)) \<and> ?I (dir_now s')
        \<and> (\<forall>v. r = Inr v \<longrightarrow> rr_backup v = backup \<and> reset_done L expected (format_of d0) d0 backup staging (dir_now s'))"
      using same [of staging] unfolding runs_def by (metis d0_def fst_conv snd_conv)
    then obtain ds where "dir_past s' = dir_past s @ ds" "\<forall>d \<in> set ds \<union> {dir_now s'}. ?I d"
      "\<forall>v. r = Inr v \<longrightarrow> rr_backup v = backup \<and> reset_done L expected (format_of d0) d0 backup staging (dir_now s')"
      by blast
    then show ?thesis unfolding b st d0_def by blast
  qed
qed

text \<open>What such a directory means: where the chain is, and what the next start makes of it.\<close>

lemma journal_refuses:
  "d RECOVERY_JOURNAL \<noteq> None
    \<Longrightarrow> snd (load_or_new C json L n now \<lparr>dir_now = d, dir_past = []\<rparr>) = Inl InterruptedRecovery"
  by (auto simp: load_or_new_def refuse_if_interrupted_recovery_def sr_bind_def sr_get_def sr_require_def sr_fail_def)

lemma recovering_safe:
  assumes "recovering L expected fmt d0 (BACKUP_PREFIX @ x) (STAGING_PREFIX @ y) d"
  shows "(f \<in> set CHAIN_FILES \<longrightarrow> d0 f \<noteq> None \<longrightarrow> d f = d0 f \<or> d (below (BACKUP_PREFIX @ x) f) = d0 f)
    \<and> ((\<forall>f \<in> set CHAIN_FILES. d f = d0 f)
       \<or> snd (load_or_new C json L n now \<lparr>dir_now = d, dir_past = []\<rparr>) = Inl InterruptedRecovery
       \<or> verified_fresh L expected fmt d)
    \<and> elsewhere d0 (BACKUP_PREFIX @ x) (STAGING_PREFIX @ y) d"
proof -
  from assms consider (start) "untouched_but d0 (STAGING_PREFIX @ y) d"
    | (middle) todo where "going d0 (BACKUP_PREFIX @ x) (STAGING_PREFIX @ y) todo d"
    | (over) "reset_done L expected fmt d0 (BACKUP_PREFIX @ x) (STAGING_PREFIX @ y) d"
    by (auto simp: recovering_def)
  then show ?thesis
  proof cases
    case start
    then have "d f = d0 f" if "f \<in> set CHAIN_FILES" for f
      using chain_names(2) [OF that, of y] by (simp add: untouched_but_def)
    with start show ?thesis by (simp add: untouched_but_def elsewhere_def)
  next
    case middle
    then show ?thesis using journal_refuses [of d C json L n now] by (auto simp: going_def kept_def split: if_splits)
  next
    case over
    then show ?thesis by (auto simp: reset_done_def kept_def)
  qed
qed

end
