(* ===== verification/Example_Store.thy ===== *)
theory Example_Store
  imports Example_Chain Store_Crash Node_Recovery
begin

text \<open>
  A data directory of the instance \<open>toy\<close>: one block in the JSON format, with the metadata
  that cover it.  The serialisers are constant, which is enough for one block.  At the end, a reset
  of that directory that succeeds.
\<close>

definition toy_block :: block where
  "toy_block = hd (blocks (toy_after toy_chain))"

definition toy_codec :: codec where
  "toy_codec = \<lparr>bin_ser = \<lambda>_. [], bin_de = \<lambda>_. Inr toy_block,
     leg_ser = \<lambda>_. u32_le PROTOCOL_VERSION, leg_de = \<lambda>_. Inr (legacy_from_current toy_block),
     json_ser = \<lambda>_. [88], json_de = \<lambda>_. Inr toy_block\<rparr>"

definition toy_dir :: dir where
  "toy_dir = [BLOCKS_JSONL \<mapsto> [88, 10], INSTALL_ID \<mapsto> [105], META_FILE \<mapsto> [77]]"

definition toy_lib :: store_lib where
  "toy_lib = \<lparr>lib_codec = toy_codec, meta_ser = \<lambda>_. [77],
     meta_de = \<lambda>_. Some (meta_of toy toy_dir (toy_after toy_chain) ''i''),
     header_ser = \<lambda>_. [], header_de = \<lambda>_. Inl [], horizon_ser = \<lambda>_. [], horizon_de = \<lambda>_. Inl [],
     manifest_ser = \<lambda>_. [], manifest_de = \<lambda>_. None, id_seed = 1\<rparr>"

lemma toy_blocks: "blocks (toy_after toy_chain) = [toy_block]" "network (toy_after toy_chain) = Devnet"
  "h_version (blk_header toy_block) = PROTOCOL_VERSION"
proof -
  have a: "state_result (chain_apply_block toy toy_chain (toy_next toy_chain) 10) = Inr (toy_after toy_chain)"
    using toy_accepted [OF toy_chain_ready] by (simp add: state_result_def)
  note s = accepted_step [OF toy_encoding toy_group toy_core a]
  show b: "blocks (toy_after toy_chain) = [toy_block]"
    using s(2) by (simp add: toy_block_def) (simp add: toy_chain_def)
  show "network (toy_after toy_chain) = Devnet" using s(7) by (simp add: toy_chain_def)
  have "toy_block = shape_block toy_chain (toy_next toy_chain)"
    using b s(2) by (simp add: toy_chain_def)
  then show "h_version (blk_header toy_block) = PROTOCOL_VERSION" using s(5) by simp
qed

lemma toy_grown: "grown toy toy_json 10 (toy_after toy_chain)"
proof -
  have a: "state_result (chain_apply_block toy toy_chain (toy_next toy_chain) 10) = Inr (toy_after toy_chain)"
    using toy_accepted [OF toy_chain_ready] by (simp add: state_result_def)
  note s = accepted_step [OF toy_encoding toy_group toy_core a]
  have "[toy_block] = [shape_block toy_chain (toy_next toy_chain)]"
    using toy_blocks(1) s(2) by (simp add: toy_chain_def)
  then show ?thesis
    using toy_new toy_blocks s(3) by (auto simp: grown_def)
qed

lemma toy_path: "format_of toy_dir = Json" "blocks_path toy_dir = BLOCKS_JSONL"
  by (simp_all add: blocks_path_def format_of_def detect_def toy_dir_def file_names)

lemma toy_files: "toy_dir BLOCKS_JSONL = Some [88, 10]" "toy_dir INSTALL_ID = Some [105]"
  "toy_dir META_FILE = Some [77]" "toy_dir RECOVERY_JOURNAL = None"
  by (simp_all add: toy_dir_def file_names)

lemma utf8_ascii: "b < 0x80 \<Longrightarrow> utf8_valid [b]"
  by (subst utf8_valid.simps) (simp add: utf8_valid.simps)

lemma text_ascii: "text_of [88] = ''X''" "text_of [105] = ''i''" "text_of [77] = ''M''"
  by (simp_all add: text_of_def char_of_def bit_Suc_0_iff)

lemma trim_ascii: "trim ''X'' = ''X''" "trim ''i'' = ''i''"
  by (rule trim_solid, simp add: solid_ascii)+

lemma toy_codec_for: "codec_for toy_codec [toy_block]"
  by (simp add: codec_for_def toy_codec_def toy_blocks legacy_from_current_def utf8_ascii text_ascii
      trim_ascii)

lemma toy_id: "stored_id toy_dir = Some ''i''"
  by (simp add: stored_id_def read_text_def toy_files utf8_ascii text_ascii trim_ascii)

lemma toy_reads: "meta_reads toy_lib (meta_of toy toy_dir (toy_after toy_chain) ''i'')"
  by (simp add: meta_reads_def toy_lib_def utf8_ascii)

lemma toy_committed: "committed toy toy_lib toy_dir ''i'' (toy_after toy_chain) [88, 10]"
proof -
  have "write_all_blocks toy_codec Json [toy_block] = Inr [88, 10]"
    by (simp add: write_all_blocks_def write_block_def toy_codec_def)
  then have "holds_blocks toy_lib toy_dir ''i'' [toy_block] [88, 10]"
    using toy_codec_for
    by (simp add: holds_blocks_def toy_files toy_id toy_path) (simp add: toy_lib_def)
  moreover have "records toy_lib toy_dir (meta_of toy toy_dir (toy_after toy_chain) ''i'')"
    using toy_reads by (simp add: records_def toy_files) (simp add: toy_lib_def)
  ultimately show ?thesis by (simp add: committed_def toy_blocks)
qed

lemma toy_unchanged: "toy_dir(blocks_path toy_dir \<mapsto> [88, 10] @ []) = toy_dir"
  using toy_files(1) toy_path(2) by (simp add: fun_upd_idem)

lemma toy_nothing_new:
  "written (lib_codec toy_lib) (format_of toy_dir)
     (drop (length (blocks (toy_after toy_chain))) (blocks (toy_after toy_chain))) = ([], Inr ())"
  by simp

lemma toy_lib_codec: "codec_for (lib_codec toy_lib) (blocks (toy_after toy_chain))"
  using toy_codec_for by (simp add: toy_blocks toy_lib_def)

lemma toy_saves:
  "snd (save toy toy_lib (toy_after toy_chain) \<lparr>dir_now = toy_dir, dir_past = []\<rparr>) = Inr ()"
proof -
  obtain st where "write_meta toy toy_lib (toy_after toy_chain) \<lparr>dir_now = toy_dir, dir_past = []\<rparr> = (st, Inr ())"
    using write_meta_run [of "\<lparr>dir_now = toy_dir, dir_past = []\<rparr>" "''i''"] toy_id by fastforce
  then show ?thesis
    using save_appends [OF toy_encoding toy_group toy_grown _ toy_committed, of "[]" "toy_after toy_chain" "[]"]
    by (simp add: toy_blocks)
qed

section \<open>A reset\<close>

definition toy_staged :: dir where
  "toy_staged = [INSTALL_ID \<mapsto> [105], BLOCKS_JSONL \<mapsto> [], META_FILE \<mapsto> [70]]"

definition toy_fresh_meta :: chain_meta where
  "toy_fresh_meta = meta_of toy toy_staged toy_chain ''i''"

definition toy_reset_lib :: store_lib where
  "toy_reset_lib = toy_lib\<lparr>meta_ser := \<lambda>m. if m_block_count m = 0 then [70] else [77],
     meta_de := \<lambda>s. if s = ''F'' then Some toy_fresh_meta else meta_de toy_lib s\<rparr>"

definition toy_identity :: "string \<Rightarrow> (string option \<times> string option) option" where
  "toy_identity s = Some (Some ''devnet'', Some (hash_to_hex (genesis_hash toy_chain)))"

text \<open>A computation that takes one directory to another.\<close>

definition yields :: "(disk, 'e, 'a) sr \<Rightarrow> dir \<Rightarrow> dir \<Rightarrow> 'a \<Rightarrow> bool" where
  "yields m d d' x \<longleftrightarrow> (\<forall>p. \<exists>p'. m \<lparr>dir_now = d, dir_past = p\<rparr> = (\<lparr>dir_now = d', dir_past = p'\<rparr>, Inr x))"

lemma yields_bind: "yields m d d1 x \<Longrightarrow> yields (f x) d1 d2 y \<Longrightarrow> yields (sr_bind m f) d d2 y"
  unfolding yields_def sr_bind_def by (metis (no_types, lifting) old.prod.case old.sum.simps(6))

lemma yields_basic:
  "yields (sr_return x) d d x" "yields (sr_get (\<lambda>s. h (dir_now s))) d d (h d)"
  "b \<Longrightarrow> yields (sr_require b e) d d ()" "r = Inr x \<Longrightarrow> yields (sr_lift r) d d x"
  "yields (file_write f bs) d (d(f \<mapsto> bs)) ()" "yields (file_remove f) d (d(f := None)) ()"
  "d f = Some bs \<Longrightarrow> yields (file_rename f g) d (d(f := None, g \<mapsto> bs)) ()"
  "d f = Some bs \<Longrightarrow> yields (file_read f) d d bs"
  "yields (remove_below sub) d (embed sub d (\<lambda>_. None)) ()"
  by (auto simp: yields_def sr_return_def sr_get_def sr_require_def sr_lift_def file_write_def file_remove_def
      file_rename_def file_read_def touch_def remove_below_def)

lemma yields_stored:
  assumes "yields m d d' x" shows "yields (stored m) d d' x"
  unfolding yields_def
proof
  fix p
  from assms obtain p' where "m \<lparr>dir_now = d, dir_past = p\<rparr> = (\<lparr>dir_now = d', dir_past = p'\<rparr>, Inr x)"
    by (auto simp: yields_def)
  then show "\<exists>p'. stored m \<lparr>dir_now = d, dir_past = p\<rparr> = (\<lparr>dir_now = d', dir_past = p'\<rparr>, Inr x)"
    by (simp add: stored_def)
qed

lemma yields_within:
  assumes "yields m (\<lambda>f. d (below sub f)) e x"
  shows "yields (within sub m) d (embed sub d e) x"
  unfolding yields_def
proof
  fix p
  from assms obtain p' where "m \<lparr>dir_now = \<lambda>f. d (below sub f), dir_past = []\<rparr> = (\<lparr>dir_now = e, dir_past = p'\<rparr>, Inr x)"
    by (auto simp: yields_def)
  then show "\<exists>p'. within sub m \<lparr>dir_now = d, dir_past = p\<rparr> = (\<lparr>dir_now = embed sub d e, dir_past = p'\<rparr>, Inr x)"
    by (simp add: within_def)
qed

lemma toy_fresh_grown: "grown toy toy_json 5 toy_chain"
  using toy_new by (simp add: grown_def) (simp add: toy_chain_def)

lemma toy_fresh_tip: "hash_to_hex (tip_hash toy toy_chain) \<noteq> []" "hash_to_hex (genesis_hash toy_chain) \<noteq> []"
proof -
  show t: "hash_to_hex (tip_hash toy toy_chain) \<noteq> []" by (rule tip_text [OF toy_encoding toy_group toy_fresh_grown])
  then show "hash_to_hex (genesis_hash toy_chain) \<noteq> []" by (simp add: tip_hash_def last_opt_def toy_chain_def)
qed

lemma toy_staged_files: "toy_staged BLOCKS_JSONL = Some []" "toy_staged INSTALL_ID = Some [105]" "toy_staged META_FILE = Some [70]"
  "toy_staged BLOCKS_BIN = None" "toy_staged RECOVERY_JOURNAL = None" "toy_staged LEGACY_FILE = None"
  by (simp_all add: toy_staged_def file_names)

lemma toy_staged_path: "format_of toy_staged = Json" "blocks_path toy_staged = BLOCKS_JSONL"
  by (simp_all add: toy_staged_def file_names format_of_def detect_def blocks_path_def)

definition toy_fresh_dir :: dir where "toy_fresh_dir = [INSTALL_ID \<mapsto> [105], BLOCKS_JSONL \<mapsto> []]"

lemma toy_fresh_files: "toy_fresh_dir BLOCKS_JSONL = Some []" "toy_fresh_dir INSTALL_ID = Some [105]" "toy_fresh_dir META_FILE = None"
  "format_of toy_fresh_dir = Json" "blocks_path toy_fresh_dir = BLOCKS_JSONL" "toy_fresh_dir(META_TMP := None, META_FILE \<mapsto> [70]) = toy_staged"
  by (simp_all add: toy_fresh_dir_def toy_staged_def file_names format_of_def detect_def blocks_path_def fun_eq_iff)

lemma toy_fresh_id: "stored_id toy_fresh_dir = Some ''i''" "stored_id toy_staged = Some ''i''"
  by (simp_all add: stored_id_def read_text_def toy_fresh_files toy_staged_files utf8_ascii text_ascii trim_ascii)

lemma toy_fresh_saved: "yields (save toy toy_reset_lib toy_chain) toy_fresh_dir toy_staged ()"
  unfolding yields_def
proof
  fix p
  obtain st where st: "write_meta toy toy_reset_lib toy_chain \<lparr>dir_now = toy_fresh_dir, dir_past = p\<rparr> = (st, Inr ())"
    and d: "dir_now st = toy_fresh_dir(META_TMP := None, META_FILE \<mapsto> meta_ser toy_reset_lib (meta_of toy toy_fresh_dir toy_chain ''i''))"
    using write_meta_run [of "\<lparr>dir_now = toy_fresh_dir, dir_past = p\<rparr>" "''i''" toy toy_reset_lib toy_chain] toy_fresh_id by auto
  have "block_count toy_chain = 0" by (simp add: block_count_def toy_chain_def)
  then have "meta_ser toy_reset_lib (meta_of toy toy_fresh_dir toy_chain ''i'') = [70]"
    by (simp add: toy_reset_lib_def meta_of_def)
  with d have d': "dir_now st = toy_staged" by (simp add: toy_fresh_files)
  have "stored_block_count toy_reset_lib toy_fresh_dir = 0"
    by (simp add: stored_block_count_def read_meta_def read_text_def toy_fresh_files)
  moreover have "\<not> is_pruned toy_chain" by (simp add: is_pruned_def toy_chain_def)
  ultimately show "\<exists>p'. save toy toy_reset_lib toy_chain \<lparr>dir_now = toy_fresh_dir, dir_past = p\<rparr>
      = (\<lparr>dir_now = toy_staged, dir_past = p'\<rparr>, Inr ())"
    using st d' \<open>block_count toy_chain = 0\<close>
    by (intro exI [of _ "dir_past st"]) (simp add: save_def sr_bind_def sr_get_def toy_fresh_files Let_def)
qed

lemma toy_fresh_facts: "network toy_chain = Devnet" "block_count toy_chain = 0" "blocks toy_chain = []"
  by (simp_all add: block_count_def toy_chain_def)

lemma text_F: "text_of [70] = ''F''"
  by (simp add: text_of_def char_of_def bit_Suc_0_iff)

lemma toy_fresh_meta_facts: "m_block_count toy_fresh_meta = 0" "m_validated_tip toy_fresh_meta \<noteq> []"
  "m_genesis_hash toy_fresh_meta = hash_to_hex (genesis_hash toy_chain)" "m_network toy_fresh_meta = Devnet"
  by (simp_all add: toy_fresh_meta_def meta_of_def toy_fresh_facts toy_fresh_tip)

lemma toy_reset_lib_facts: "meta_ser toy_reset_lib toy_fresh_meta = [70]" "meta_de toy_reset_lib ''F'' = Some toy_fresh_meta"
  "lib_codec toy_reset_lib = toy_codec"
  using toy_fresh_meta_facts by (simp_all add: toy_reset_lib_def) (simp add: toy_lib_def)

lemma toy_fresh_committed: "committed toy toy_reset_lib toy_staged ''i'' toy_chain []"
proof -
  have "codec_for toy_codec []" by (simp add: codec_for_def)
  then have "holds_blocks toy_reset_lib toy_staged ''i'' [] []"
    by (simp add: holds_blocks_def toy_staged_files toy_staged_path toy_fresh_id toy_reset_lib_facts write_all_blocks_def)
  moreover have "records toy_reset_lib toy_staged toy_fresh_meta"
    by (simp add: records_def toy_staged_files meta_reads_def toy_reset_lib_facts text_F utf8_ascii)
  ultimately show ?thesis by (simp add: committed_def toy_fresh_facts toy_fresh_meta_def [symmetric])
qed

lemma toy_fresh_loads: "yields (load_or_new toy toy_json toy_reset_lib Devnet 5) toy_staged toy_staged toy_chain"
  using committed_loads [OF toy_encoding toy_group toy_fresh_grown toy_fresh_committed]
  by (simp add: yields_def toy_fresh_facts)

lemma toy_build:
  "yields (build_and_verify_fresh toy toy_json toy_reset_lib Devnet Json (Some [105]) 5) (\<lambda>_. None) toy_staged
     (hash_to_hex (genesis_hash toy_chain))"
proof -
  let ?m = "\<lambda>d. \<lambda>_. d"
  have f: "((\<lambda>_. None)(INSTALL_ID \<mapsto> [105]))(BLOCKS_JSONL \<mapsto> []) = toy_fresh_dir"
    by (simp add: toy_fresh_dir_def)
  show ?thesis
    unfolding build_and_verify_fresh_def option.case
    by (rule yields_bind, rule yields_stored, rule yields_basic,
        rule yields_bind, rule yields_stored, simp, rule yields_basic, unfold f,
        rule yields_bind, rule yields_basic,
        rule yields_bind, rule yields_basic, simp add: toy_fresh_files,
        rule yields_bind, rule yields_basic, simp add: toy_new,
        rule yields_bind, rule yields_stored, rule toy_fresh_saved,
        rule yields_bind, rule yields_stored, rule toy_fresh_loads,
        rule yields_bind, rule yields_basic, simp add: toy_fresh_facts,
        rule yields_bind, rule yields_basic,
        rule yields_bind, rule yields_basic, simp add: toy_staged_path,
        rule yields_basic)
qed

definition toy_backup :: string where "toy_backup = ''recovery-backup-0-0''"
definition toy_staging :: string where "toy_staging = ''.recovery-staging-0-1''"

lemma toy_unique:
  "unique_dir (\<lambda>_. False) BACKUP_PREFIX (\<lambda>_. 0) 0 10000 = Inr (toy_backup, 1)"
  "unique_dir (\<lambda>_. False) STAGING_PREFIX (\<lambda>_. 0) 1 10000 = Inr (toy_staging, 2)"
proof -
  have u: "unique_dir (\<lambda>_. False) pre (\<lambda>_. 0) c 10000 = Inr (pre @ dec_string 0 @ ''-'' @ dec_string c, c + 1)" for pre c
    using unique_dir.simps(2) [of "\<lambda>_. False" pre "\<lambda>_. 0" c 9999] by simp
  have "dec_string 0 = ''0''" "dec_string 1 = ''1''" by (simp_all add: dec_string.simps char_of_def bit_Suc_0_iff)
  then show "unique_dir (\<lambda>_. False) BACKUP_PREFIX (\<lambda>_. 0) 0 10000 = Inr (toy_backup, 1)"
    "unique_dir (\<lambda>_. False) STAGING_PREFIX (\<lambda>_. 0) 1 10000 = Inr (toy_staging, 2)"
    by (simp_all add: u toy_backup_def toy_staging_def BACKUP_PREFIX_def STAGING_PREFIX_def)
qed

lemma toy_text: "read_text toy_dir META_FILE = Some ''M''"
  by (simp add: read_text_def toy_files utf8_ascii text_ascii)

lemma toy_recoverable:
  "recoverable toy toy_json toy_identity (\<lambda>_. False) Devnet True toy_dir
    = Inr ([BLOCKS_JSONL, META_FILE], hash_to_hex (genesis_hash toy_chain))"
proof -
  have "present_chain_files (\<lambda>_. False) toy_dir = Inr [BLOCKS_JSONL, META_FILE]"
    by (simp add: present_chain_files_def CHAIN_FILES_def toy_dir_def file_names)
  moreover have "toy_dir BLOCKS_BIN = None" by (simp add: toy_dir_def file_names)
  moreover have "read_meta_identity toy_identity toy_dir = Inr (Devnet, hash_to_hex (genesis_hash toy_chain))"
    by (simp add: read_meta_identity_def toy_text toy_identity_def network_named_def toy_fresh_tip)
  ultimately show ?thesis
    by (simp add: recoverable_def toy_files toy_new)
qed

definition toy_reset_at :: dir where "toy_reset_at = embed toy_staging toy_dir toy_staged"

lemma toy_prepared:
  "yields (prepare_fresh toy toy_json toy_reset_lib Devnet Json toy_staging 5) toy_dir toy_reset_at
     (hash_to_hex (genesis_hash toy_chain))"
proof -
  have "(\<lambda>f. toy_dir (below toy_staging f)) = (\<lambda>_. None)"
    by (simp add: fun_eq_iff toy_dir_def file_names below_def toy_staging_def)
  then have "yields (within toy_staging (build_and_verify_fresh toy toy_json toy_reset_lib Devnet Json (Some [105]) 5))
      toy_dir toy_reset_at (hash_to_hex (genesis_hash toy_chain))"
    unfolding toy_reset_at_def by (intro yields_within) (simp add: toy_build)
  then show ?thesis
    unfolding yields_def prepare_fresh_def by (simp add: toy_files) (metis (no_types, lifting) old.prod.case old.sum.simps(6))
qed

lemmas toy_names = toy_dir_def toy_staged_def file_names below_def toy_staging_def toy_backup_def embed_def

lemma toy_swapped:
  "\<exists>e. yields (swap_in toy_reset_lib j toy_backup toy_staging [BLOCKS_JSONL, META_FILE]
     (hash_to_hex (genesis_hash toy_chain)) Json) toy_reset_at e ()"
proof -
  let ?d2 = "toy_reset_at(RECOVERY_JOURNAL \<mapsto> j)"
  let ?d3 = "?d2(BLOCKS_JSONL := None, below toy_backup BLOCKS_JSONL \<mapsto> [88, 10])"
  let ?d4 = "?d3(META_FILE := None, below toy_backup META_FILE \<mapsto> [77])"
  let ?d5 = "?d4(below toy_staging BLOCKS_JSONL := None, BLOCKS_JSONL \<mapsto> [])"
  let ?d6 = "?d5(below toy_staging META_FILE := None, META_FILE \<mapsto> [70])"
  let ?d7 = "embed toy_staging ?d6 (\<lambda>_. None)"
  have 1: "yields (write_journal j) toy_reset_at ?d2 ()"
    unfolding write_journal_def
    by (rule yields_bind, rule yields_basic, rule yields_bind, rule yields_basic)
      (simp add: toy_reset_at_def toy_names, rule yields_stored, rule yields_basic)
  have 2: "yields (move_files (\<lambda>f. f) (below toy_backup) [BLOCKS_JSONL, META_FILE]) ?d2 ?d4 ()"
    unfolding move_files.simps
    by (rule yields_bind, rule yields_basic(7) [where bs = "[88, 10]"],
        simp add: toy_reset_at_def toy_names,
        rule yields_bind, rule yields_basic(7) [where bs = "[77]"],
        simp add: toy_reset_at_def toy_names,
        rule yields_basic)
  have 3: "present_chain_files (\<lambda>_. False) (\<lambda>f. ?d4 (below toy_staging f)) = Inr [BLOCKS_JSONL, META_FILE]"
    by (simp add: present_chain_files_def CHAIN_FILES_def toy_reset_at_def toy_names)
  have 4: "yields (move_files (below toy_staging) (\<lambda>f. f) [BLOCKS_JSONL, META_FILE]) ?d4 ?d6 ()"
    unfolding move_files.simps
    by (rule yields_bind, rule yields_basic(7) [where bs = "[]"],
        simp add: toy_reset_at_def toy_names,
        rule yields_bind, rule yields_basic(7) [where bs = "[70]"],
        simp add: toy_reset_at_def toy_names,
        rule yields_basic)
  have "?d7 META_FILE = Some [70]" "?d7 BLOCKS_BIN = None" "?d7 BLOCKS_JSONL = Some []"
    by (simp_all add: toy_reset_at_def toy_names)
  then have 5: "verified_fresh toy_reset_lib (hash_to_hex (genesis_hash toy_chain)) Json ?d7"
    by (simp add: verified_fresh_def peek_meta_def read_meta_def read_text_def utf8_ascii text_F toy_reset_lib_facts
        toy_fresh_meta_facts format_of_def detect_def)
  show ?thesis
    unfolding swap_in_def
    by (rule exI,
        rule yields_bind, rule 1,
        rule yields_bind, rule yields_stored, rule 2,
        rule yields_bind, rule yields_basic(2),
        rule yields_bind, rule yields_basic(4), rule 3,
        rule yields_bind, rule yields_stored, rule 4,
        rule yields_bind, rule yields_stored, rule yields_basic,
        rule yields_bind, rule yields_basic(2),
        rule yields_bind, rule yields_basic(3), rule 5,
        rule yields_stored, rule yields_basic)
qed

lemma toy_reset:
  "\<exists>v. snd (recover_stalled_fork toy toy_json toy_reset_lib toy_identity (\<lambda>_ _ _. j) (\<lambda>_. False) (\<lambda>_. False) (\<lambda>_. 0) 0
     Devnet True 5 \<lparr>dir_now = toy_dir, dir_past = []\<rparr>) = Inr v \<and> rr_files v = [BLOCKS_JSONL, META_FILE]"
proof -
  obtain e where e: "yields (swap_in toy_reset_lib j toy_backup toy_staging [BLOCKS_JSONL, META_FILE]
     (hash_to_hex (genesis_hash toy_chain)) Json) toy_reset_at e ()" using toy_swapped by blast
  have "\<exists>v. yields (recover_stalled_fork toy toy_json toy_reset_lib toy_identity (\<lambda>_ _ _. j) (\<lambda>_. False) (\<lambda>_. False) (\<lambda>_. 0) 0
     Devnet True 5) toy_dir e v \<and> rr_files v = [BLOCKS_JSONL, META_FILE]"
    unfolding recover_stalled_fork_def
    by (rule exI, rule conjI,
        rule yields_bind, rule yields_basic(2) [where h = "\<lambda>d. d"],
        rule yields_bind, rule yields_basic(4), rule toy_recoverable, unfold prod.case,
        rule yields_bind, rule yields_basic(4), rule toy_unique(1), unfold prod.case,
        rule yields_bind, rule yields_basic(4), rule toy_unique(2), unfold prod.case,
        rule yields_bind, unfold toy_path, rule toy_prepared,
        rule yields_bind, rule e,
        rule yields_basic,
        simp)
  then show ?thesis unfolding yields_def by (metis snd_conv)
qed

end
