(* ===== verification/Rust_Url.thy ===== *)
theory Rust_Url
  imports Rust_Parse
begin

text \<open>
  Text as the wallet reads it from people and links: splitting at every occurrence of a
  character, counting characters of UTF-8, padding with zeros, and the percent encoding of
  \<open>crates/nightfall-wallet/src/payment_request.rs\<close>.
\<close>

section \<open>Splitting, counting, padding\<close>

text \<open>\<open>str::split\<close> of a character: always one part more than occurrences.\<close>

fun split_all :: "'a \<Rightarrow> 'a list \<Rightarrow> 'a list list" where
  "split_all c [] = [[]]"
| "split_all c (x # xs) =
     (if x = c then [] # split_all c xs
      else (case split_all c xs of [] \<Rightarrow> [[x]] | p # ps \<Rightarrow> (x # p) # ps))"

lemma split_all_nonempty: "split_all c xs \<noteq> []"
  by (induction xs) (auto split: list.splits)

lemma split_all_part: "c \<notin> set a \<Longrightarrow> split_all c a = [a]"
  by (induction a) auto

lemma split_all_sep: "c \<notin> set a \<Longrightarrow> split_all c (a @ c # b) = a # split_all c b"
  by (induction a) auto

text \<open>\<open>chars().count()\<close> of a well-formed string.\<close>

definition char_count :: "string \<Rightarrow> nat" where
  "char_count s = length (filter (\<lambda>c. \<not> cont (of_char c)) s)"

definition zero_pad :: "nat \<Rightarrow> string \<Rightarrow> string" where
  "zero_pad w s = replicate (w - length s) (CHR ''0'') @ s"

lemma nat_of_char_u8: "unat (of_char c :: u8) = of_char c"
proof -
  have "(of_char c :: nat) < 256" by (rule nat_of_char_less_256)
  then have "unat (of_nat (of_char c) :: u8) = of_char c" by (simp add: unat_of_nat take_bit_eq_mod)
  then show ?thesis by (simp add: of_nat_of_char)
qed

lemma text_of_bytes: "text_of (str_bytes s) = s"
  by (simp add: text_of_def str_bytes_def nat_of_char_u8 comp_def)

section \<open>Trimming twice\<close>

lemma trim_start_clean: "w \<in> set white_space \<Longrightarrow> \<not> prefix w (trim_start s)"
proof (induction s rule: trim_start.induct)
  case (1 s)
  show ?case
  proof (cases "List.find (\<lambda>w. prefix w s) white_space")
    case None
    then have "trim_start s = s" by (subst trim_start.simps) simp
    then show ?thesis using None 1(2) by (simp add: find_None_iff)
  next
    case (Some v)
    then have "trim_start s = trim_start (drop (length v) s)" by (subst trim_start.simps) simp
    then show ?thesis using 1(1) [OF Some 1(2)] by simp
  qed
qed

lemma trim_end_clean: "w \<in> set white_space \<Longrightarrow> \<not> suffix w (trim_end s)"
proof (induction s rule: trim_end.induct)
  case (1 s)
  show ?case
  proof (cases "List.find (\<lambda>w. suffix w s) white_space")
    case None
    then have "trim_end s = s" by (subst trim_end.simps) simp
    then show ?thesis using None 1(2) by (simp add: find_None_iff)
  next
    case (Some v)
    then have "trim_end s = trim_end (take (length s - length v) s)" by (subst trim_end.simps) simp
    then show ?thesis using 1(1) [OF Some 1(2)] by simp
  qed
qed

lemma trim_end_prefix: "prefix (trim_end s) s"
proof (induction s rule: trim_end.induct)
  case (1 s)
  show ?case
  proof (cases "List.find (\<lambda>w. suffix w s) white_space")
    case (Some w)
    then have "prefix (trim_end (take (length s - length w) s)) (take (length s - length w) s)"
      by (rule 1)
    then show ?thesis
      using Some by (subst trim_end.simps) (auto intro: prefix_order.trans take_is_prefix)
  qed (subst trim_end.simps, simp)
qed

lemma trim_idem: "trim (trim s) = trim s"
proof -
  have "\<not> prefix w (trim s)" if "w \<in> set white_space" for w
    using trim_start_clean [OF that, of s] trim_end_prefix [of "trim_start s"]
    by (auto simp: trim_def dest: prefix_order.trans)
  then have "trim_start (trim s) = trim s"
    by (subst trim_start.simps) (simp add: find_None_iff [THEN iffD2])
  moreover have "trim_end (trim s) = trim s"
    using trim_end_clean [of _ "trim_start s"]
    by (subst trim_end.simps) (simp add: find_None_iff [THEN iffD2] trim_def)
  ultimately show ?thesis by (simp add: trim_def [of "trim s"])
qed

lemma length_trim: "length (trim s) \<le> length s"
proof -
  have "length (trim_start s) \<le> length s"
  proof (induction s rule: trim_start.induct)
    case (1 s)
    show ?case
    proof (cases "List.find (\<lambda>w. prefix w s) white_space")
      case (Some w)
      then show ?thesis using 1 [OF Some] by (subst trim_start.simps) simp
    qed (subst trim_start.simps, simp)
  qed
  then show ?thesis
    using prefix_length_le [OF trim_end_prefix, of "trim_start s"] by (simp add: trim_def)
qed

section \<open>Percent encoding\<close>

definition upper_hex_digit :: "nat \<Rightarrow> char" where
  "upper_hex_digit n = ''0123456789ABCDEF'' ! n"

definition unreserved :: "char \<Rightarrow> bool" where
  "unreserved c \<longleftrightarrow> is_ascii_alphanumeric c \<or> c \<in> {CHR ''-'', CHR ''.'', CHR ''_'', CHR ''~''}"

definition encode_char :: "char \<Rightarrow> string" where
  "encode_char c =
     (if unreserved c then [c]
      else [CHR ''%'', upper_hex_digit (of_char c div 16), upper_hex_digit (of_char c mod 16)])"

definition encode_component :: "string \<Rightarrow> string" where
  "encode_component s = concat (map encode_char s)"

text \<open>
  \<open>u8::from_str_radix(text, 16)\<close> of two characters: a plus sign in front is taken.  Two bytes
  that are no UTF-8 fail the check before it, with the same error as characters that are no
  digits.
\<close>

definition hex_pair :: "char \<Rightarrow> char \<Rightarrow> nat option" where
  "hex_pair a b =
     (if a = CHR ''+'' then hex_value b
      else
        (case (hex_value a, hex_value b) of
           (Some h, Some l) \<Rightarrow> Some (16 * h + l)
         | _ \<Rightarrow> None))"

fun percent_bytes :: "string \<Rightarrow> string option" where
  "percent_bytes [] = Some []"
| "percent_bytes (c # cs) =
     (if c = CHR ''%'' then
        (case cs of
           a # b # rest \<Rightarrow>
             (case hex_pair a b of
                None \<Rightarrow> None
              | Some n \<Rightarrow> map_option ((#) (char_of n)) (percent_bytes rest))
         | _ \<Rightarrow> None)
      else map_option ((#) c) (percent_bytes cs))"

definition percent_decode :: "string \<Rightarrow> string option" where
  "percent_decode raw =
     (case percent_bytes raw of
        None \<Rightarrow> None
      | Some out \<Rightarrow> if utf8_valid (str_bytes out) then Some out else None)"

lemma upper_hex:
  "n < 16 \<Longrightarrow> hex_value (upper_hex_digit n) = Some n \<and> upper_hex_digit n \<noteq> CHR ''+''
     \<and> is_ascii_alphanumeric (upper_hex_digit n)"
proof -
  have "\<forall>k \<in> set [0..<16]. hex_value (upper_hex_digit k) = Some k \<and> upper_hex_digit k \<noteq> CHR ''+''
     \<and> is_ascii_alphanumeric (upper_hex_digit k)" by code_simp
  then show "n < 16 \<Longrightarrow> hex_value (upper_hex_digit n) = Some n \<and> upper_hex_digit n \<noteq> CHR ''+''
     \<and> is_ascii_alphanumeric (upper_hex_digit n)" by simp
qed

lemma unreserved_not_percent: "unreserved c \<Longrightarrow> c \<noteq> CHR ''%''"
  by (auto simp: unreserved_def is_ascii_alphanumeric_def is_digit_def is_ascii_lower_def is_ascii_upper_def)

lemma percent_bytes_encode: "percent_bytes (encode_component s) = Some s"
proof (induction s)
  case (Cons c s)
  show ?case
  proof (cases "unreserved c")
    case True
    then show ?thesis using Cons unreserved_not_percent [OF True]
      by (simp add: encode_component_def encode_char_def)
  next
    case False
    define n where "n = (of_char c :: nat)"
    have n: "n < 256" "char_of n = c" by (simp_all add: n_def nat_of_char_less_256)
    then have "n div 16 < 16" "n mod 16 < 16" by auto
    note h = this [THEN upper_hex]
    have "hex_pair (upper_hex_digit (n div 16)) (upper_hex_digit (n mod 16)) = Some n"
      using h by (simp add: hex_pair_def)
    then show ?thesis
      using Cons False n(2) by (simp add: encode_component_def encode_char_def n_def)
  qed
qed (simp add: encode_component_def)

lemma percent_decode_encode:
  "utf8_valid (str_bytes s) \<Longrightarrow> percent_decode (encode_component s) = Some s"
  by (simp add: percent_decode_def percent_bytes_encode)

lemma encoded_chars:
  assumes "c \<in> set (encode_component s)"
  shows "unreserved c \<or> c = CHR ''%''"
proof -
  obtain d where d: "c \<in> set (encode_char d)" using assms by (auto simp: encode_component_def)
  define n where "n = (of_char d :: nat)"
  have "n < 256" by (simp add: n_def nat_of_char_less_256)
  then have "n div 16 < 16" "n mod 16 < 16" by auto
  then have "is_ascii_alphanumeric (upper_hex_digit (n div 16))"
    "is_ascii_alphanumeric (upper_hex_digit (n mod 16))" using upper_hex by blast+
  then show ?thesis
    using d by (auto simp: encode_char_def n_def [symmetric] unreserved_def split: if_splits)
qed

lemma length_encode: "length (encode_component s) \<le> 3 * length s"
  by (induction s) (auto simp: encode_component_def encode_char_def)

section \<open>UTF-8 of ASCII text, and how long a text of few characters is\<close>

definition ascii :: "string \<Rightarrow> bool" where
  "ascii s \<longleftrightarrow> (\<forall>c \<in> set s. (of_char c :: nat) < 128)"

lemma utf8_ascii_text: "ascii s \<Longrightarrow> utf8_valid (str_bytes s)"
proof (induction s)
  case (Cons c s)
  have "of_char c < (0x80 :: u8)"
    using Cons.prems by (simp add: ascii_def word_less_nat_alt nat_of_char_u8)
  moreover have "utf8_valid (str_bytes s)" using Cons by (simp add: ascii_def)
  ultimately show ?case by (subst utf8_valid.simps) (simp add: str_bytes_def)
qed (simp add: str_bytes_def utf8_valid.simps)

lemma chunk_short: "utf8_chunk bs = (n, True) \<Longrightarrow> bs \<noteq> [] \<Longrightarrow> n \<le> 4 \<and> n \<le> length bs \<and> 0 < n \<and> \<not> cont (hd bs)"
  by (cases bs) (auto simp: cont_def word_le_nat_alt word_less_nat_alt split: if_splits list.splits)

lemma utf8_length: "utf8_valid bs \<Longrightarrow> length bs \<le> 4 * length (filter (\<lambda>b. \<not> cont b) bs)"
proof (induction bs rule: utf8_valid.induct)
  case (1 bs)
  show ?case
  proof (cases "bs = []")
    case False
    obtain n ok where c: "utf8_chunk bs = (n, ok)" by fastforce
    with "1.prems" False have ok: "ok" "utf8_valid (drop n bs)"
      using utf8_valid.simps [of bs] by (auto split: if_splits)
    note ch = chunk_short [OF c [unfolded ok(1) [THEN eqTrueI]] False]
    obtain m where "n = Suc m" using ch gr0_implies_Suc by blast
    then have "1 \<le> length (filter (\<lambda>b. \<not> cont b) (take n bs))"
      using ch False by (cases bs) auto
    moreover have "length (filter (\<lambda>b. \<not> cont b) bs)
        = length (filter (\<lambda>b. \<not> cont b) (take n bs)) + length (filter (\<lambda>b. \<not> cont b) (drop n bs))"
      by (metis append_take_drop_id filter_append length_append)
    moreover have "length (drop n bs) \<le> 4 * length (filter (\<lambda>b. \<not> cont b) (drop n bs))"
      by (rule "1.IH" [OF False c [symmetric] ok])
    moreover have "length (drop n bs) = length bs - n" by simp
    ultimately show ?thesis using ch by linarith
  qed simp
qed

lemma char_count_length:
  assumes "utf8_valid (str_bytes s)"
  shows "length s \<le> 4 * char_count s"
proof -
  have "length (filter (\<lambda>b. \<not> cont b) (str_bytes s)) = char_count s"
    by (simp add: str_bytes_def char_count_def filter_map comp_def)
  then show ?thesis using utf8_length [OF assms] by (simp add: str_bytes_def)
qed

lemma length_dec_string: "n < 10 ^ k \<Longrightarrow> 0 < k \<Longrightarrow> length (dec_string n) \<le> k"
proof (induction n arbitrary: k rule: dec_string.induct)
  case (1 n)
  show ?case
  proof (cases "n < 10")
    case True
    then show ?thesis using 1 by (subst dec_string.simps) simp
  next
    case False
    then obtain j where k: "k = Suc j" "0 < j"
      using 1(2,3) by (metis gr0_implies_Suc gr0I power_one_right One_nat_def)
    have "n div 10 < 10 ^ j" using 1(2) k(1) by (simp add: less_mult_imp_div_less mult.commute)
    then have "length (dec_string (n div 10)) \<le> j" using 1(1) [OF False] k(2) by blast
    then show ?thesis using False k(1) by (subst dec_string.simps) simp
  qed
qed

end
