(* ===== verification/Amount_Input.thy ===== *)
theory Amount_Input
  imports Rust_Url Types
begin

text \<open>
  \<open>crates/nightfall-wallet/src/amount_input.rs\<close>: an amount typed by a person, as a number of
  darks.  \<open>parse_night_value\<close> says what an accepted text means, \<open>parse_night_display\<close> that
  every payable amount is read back from the way it is displayed.
\<close>

definition DECIMALS :: nat where [params]: "DECIMALS = 8"

datatype amount_error =
    AmountEmpty | Negative | Signed | NotDigits | TwoPoints | TooPrecise | ZeroAmount | TooMuch

definition all_digits :: "string \<Rightarrow> bool" where "all_digits s = list_all is_digit s"

definition normalise_amount :: "string \<Rightarrow> string" where
  "normalise_amount text = map (\<lambda>c. if c = CHR '','' then CHR ''.'' else c) (trim text)"

definition amount_parts :: "string \<Rightarrow> string \<times> string" where
  "amount_parts s = (case split_once ''.'' s of None \<Rightarrow> (s, []) | Some parts \<Rightarrow> parts)"

text \<open>The value of the two parts; eight digits always fit, so the second parse cannot fail.\<close>

definition amount_value :: "string \<Rightarrow> string \<Rightarrow> amount_error + u64" where
  "amount_value whole frac =
     res_bind
       (if whole = [] then Inr 0
        else (case parse_unsigned 64 whole of None \<Rightarrow> Inl TooMuch | Some w \<Rightarrow> Inr (of_nat w)))
       (\<lambda>w :: u64.
         (let f = of_nat (the (parse_unsigned 64 (frac @ replicate (DECIMALS - length frac) (CHR ''0''))))
          in case Option.bind (checked_mul w DARKS_PER_NIGHT) (\<lambda>d. checked_add d f) of
               None \<Rightarrow> Inl TooMuch
             | Some d \<Rightarrow>
                 if d = 0 then Inl ZeroAmount
                 else if MAX_SUPPLY_DARKS < d then Inl TooMuch
                 else Inr d))"

definition parse_night :: "string \<Rightarrow> amount_error + u64" where
  "parse_night text =
     (let s = normalise_amount text in
      if s = [] then Inl AmountEmpty
      else if hd s = CHR ''-'' then Inl Negative
      else if hd s = CHR ''+'' then Inl Signed
      else
        (case amount_parts s of (whole, frac) \<Rightarrow>
           if contains ''.'' frac then Inl TwoPoints
           else if whole = [] \<and> frac = [] then Inl NotDigits
           else if \<not> all_digits whole \<or> \<not> all_digits frac then Inl NotDigits
           else if DECIMALS < length frac then Inl TooPrecise
           else amount_value whole frac))"

section \<open>Values of digit strings\<close>

definition digits_nat :: "string \<Rightarrow> nat" where
  "digits_nat s = foldl (\<lambda>acc c. 10 * acc + digit_value c) 0 s"

lemma digits_nat_acc: "foldl (\<lambda>acc c. 10 * acc + digit_value c) a s = a * 10 ^ length s + digits_nat s"
proof (induction s arbitrary: a)
  case (Cons c s)
  show ?case
    using Cons [of "10 * a + digit_value c"] Cons [of "digit_value c"]
    by (simp add: digits_nat_def algebra_simps)
qed (simp add: digits_nat_def)

lemma digits_nat_append: "digits_nat (s @ t) = digits_nat s * 10 ^ length t + digits_nat t"
  using digits_nat_acc [of "digits_nat s" t] by (simp add: digits_nat_def)

lemma digits_nat_zeros: "digits_nat (replicate n (CHR ''0'')) = 0"
proof (induction n)
  case (Suc n)
  have "replicate (Suc n) (CHR ''0'') = ''0'' @ replicate n (CHR ''0'')" by simp
  then show ?case
    using Suc digits_nat_append [of "''0''" "replicate n (CHR ''0'')"]
    by (simp add: digits_nat_def digit_value_def)
qed (simp add: digits_nat_def)

lemma digits_nat_bound: "all_digits s \<Longrightarrow> digits_nat s < 10 ^ length s"
proof (induction s rule: rev_induct)
  case (snoc c s)
  have "digit_value c < 10" using snoc.prems by (auto simp: all_digits_def is_digit_def digit_value_def)
  moreover have "digits_nat s < 10 ^ length s" using snoc by (simp add: all_digits_def)
  ultimately show ?case using digits_nat_append [of s "[c]"] by (simp add: digits_nat_def)
qed (simp add: digits_nat_def)

lemma dec_value_digits: "all_digits s \<Longrightarrow> dec_value s = Some (digits_nat s)"
proof -
  have "all_digits s \<Longrightarrow> try_fold (\<lambda>acc c. if is_digit c then Some (10 * acc + digit_value c) else None) a s
      = Some (foldl (\<lambda>acc c. 10 * acc + digit_value c) a s)" for a
    by (induction s arbitrary: a) (simp_all add: all_digits_def)
  then show "all_digits s \<Longrightarrow> dec_value s = Some (digits_nat s)"
    by (simp add: dec_value_def digits_nat_def)
qed

lemma parse_unsigned_digits:
  assumes "all_digits s" "s \<noteq> []"
  shows "parse_unsigned w s = (if digits_nat s < 2 ^ w then Some (digits_nat s) else None)"
proof -
  have "is_digit (hd s)" using assms by (cases s) (auto simp: all_digits_def)
  then have "hd s \<noteq> CHR ''+''" by (rule digit_not_plus)
  then show ?thesis using assms dec_value_digits [OF assms(1)] by (simp add: parse_unsigned_def)
qed

lemma all_digits_dec: "all_digits (dec_string n)" "digits_nat (dec_string n) = n"
proof -
  show a: "all_digits (dec_string n)"
    using dec_string_digits by (auto simp: all_digits_def list_all_iff)
  show "digits_nat (dec_string n) = n"
    using dec_value_digits [OF a] dec_value_string [of n] by simp
qed

section \<open>What an accepted amount means\<close>

lemma darks_per_night: "unat DARKS_PER_NIGHT = 10 ^ 8" by (simp add: params)

lemma padded_fraction:
  assumes "all_digits frac" "length frac \<le> 8"
  shows "parse_unsigned 64 (frac @ replicate (8 - length frac) (CHR ''0''))
      = Some (digits_nat frac * 10 ^ (8 - length frac))"
    and "digits_nat frac * 10 ^ (8 - length frac) < 10 ^ 8"
proof -
  let ?p = "frac @ replicate (8 - length frac) (CHR ''0'')"
  have d: "all_digits ?p" using assms(1) by (auto simp: all_digits_def list_all_iff is_digit_def)
  have v: "digits_nat ?p = digits_nat frac * 10 ^ (8 - length frac)"
    by (simp add: digits_nat_append digits_nat_zeros)
  have l: "length ?p = 8" using assms(2) by simp
  then have b: "digits_nat ?p < 10 ^ 8" using digits_nat_bound [OF d] by simp
  then show "digits_nat frac * 10 ^ (8 - length frac) < 10 ^ 8" by (simp add: v)
  have "?p \<noteq> []" using l by auto
  then show "parse_unsigned 64 ?p = Some (digits_nat frac * 10 ^ (8 - length frac))"
    using parse_unsigned_digits [OF d] b v by simp
qed

lemma amount_value_iff:
  assumes "all_digits whole" "all_digits frac" "length frac \<le> 8"
  shows "amount_value whole frac = Inr d \<longleftrightarrow>
    unat d = digits_nat whole * 10 ^ 8 + digits_nat frac * 10 ^ (8 - length frac)
    \<and> 0 < unat d \<and> unat d \<le> unat MAX_SUPPLY_DARKS"
proof -
  define f where "f = digits_nat frac * 10 ^ (8 - length frac)"
  let ?w = "digits_nat whole"
  note pf = padded_fraction [OF assms(2,3), folded f_def]
  have uf: "unat (of_nat f :: u64) = f"
    by (rule unat_of_nat_64) (use pf(2) in simp)
  have "(if whole = [] then Inr 0 else (case parse_unsigned 64 whole of None \<Rightarrow> Inl TooMuch
      | Some w \<Rightarrow> Inr (of_nat w :: u64))) = (if ?w < 2 ^ 64 then Inr (of_nat ?w) else Inl TooMuch)"
    using parse_unsigned_digits [OF assms(1)] by (cases "whole = []") (simp_all add: digits_nat_def)
  note w = this
  have "amount_value whole frac = Inr d \<longleftrightarrow>
      unat d = ?w * 10 ^ 8 + f \<and> 0 < unat d \<and> unat d \<le> unat MAX_SUPPLY_DARKS"
  proof (cases "?w < 2 ^ 64")
    case False
    then have "\<not> unat d = ?w * 10 ^ 8 + f"
      using unsigned_less [of d, where ?'a = nat] by (simp add: not_less)
    then show ?thesis using False by (simp add: amount_value_def w)
  next
    case True
    then have uw: "unat (of_nat ?w :: u64) = ?w" by (simp add: unat_of_nat_64)
    have "unat d = ?w * 10 ^ 8 + f \<longleftrightarrow>
        Option.bind (checked_mul (of_nat ?w) DARKS_PER_NIGHT) (\<lambda>d. checked_add d (of_nat f)) = Some d"
    proof (cases "?w * 10 ^ 8 < 2 ^ 64")
      case False
      then show ?thesis
        using unsigned_less [of d, where ?'a = nat]
        by (auto simp: checked_mul_def uw darks_per_night)
    next
      case t: True
      then have m: "checked_mul (of_nat ?w) DARKS_PER_NIGHT = Some (of_nat ?w * DARKS_PER_NIGHT)"
        "unat (of_nat ?w * DARKS_PER_NIGHT) = ?w * 10 ^ 8"
        by (simp_all add: checked_mul_def uw darks_per_night unat_word_ariths)
      show ?thesis by (auto simp: m uf checked_add_Some_iff)
    qed
    moreover have "0 < unat d \<longleftrightarrow> d \<noteq> 0" by (simp add: unat_gt_0)
    moreover have "unat d \<le> unat MAX_SUPPLY_DARKS \<longleftrightarrow> \<not> MAX_SUPPLY_DARKS < d"
      by (simp add: word_less_nat_alt not_less)
    moreover have "(the (parse_unsigned 64 (frac @ replicate (DECIMALS - length frac) (CHR ''0'')))) = f"
      using pf(1) by (simp add: params)
    ultimately show ?thesis
      using True by (auto simp: amount_value_def w Let_def split: option.splits if_splits)
  qed
  then show ?thesis by (simp only: f_def)
qed

text \<open>What an accepted text means: the digits before the point and up to eight behind it.\<close>

lemma parse_night_value:
  assumes "parse_night text = Inr d"
  obtains whole frac where "all_digits whole" "all_digits frac" "length frac \<le> 8" "whole @ frac \<noteq> []"
    "normalise_amount text = whole \<and> frac = [] \<or> normalise_amount text = whole @ ''.'' @ frac"
    "unat d = digits_nat whole * 10 ^ 8 + digits_nat frac * 10 ^ (8 - length frac)"
    "0 < unat d" "unat d \<le> unat MAX_SUPPLY_DARKS"
proof -
  let ?s = "normalise_amount text"
  obtain whole frac where p: "amount_parts ?s = (whole, frac)" by fastforce
  with assms have ok: "\<not> (whole = [] \<and> frac = [])" "all_digits whole" "all_digits frac"
    "length frac \<le> 8" "amount_value whole frac = Inr d"
    by (auto simp: parse_night_def Let_def params not_less split: if_splits)
  have parts: "?s = whole \<and> frac = [] \<or> ?s = whole @ ''.'' @ frac"
    using p split_once_Some [of "''.''" ?s] by (auto simp: amount_parts_def split: option.splits)
  show ?thesis
    using that [OF ok(2,3,4) _ parts] ok(1) ok(5) [unfolded amount_value_iff [OF ok(2-4)]] by auto
qed

text \<open>Every payable amount is read back from its display.\<close>

lemma parse_night_display:
  assumes "0 < unat d" "unat d \<le> unat MAX_SUPPLY_DARKS"
  shows "parse_night (decimal_string (Amount d)) = Inr d"
proof -
  define w where "w = dec_string (unat d div 10 ^ 8)"
  define f where "f = zero_pad 8 (dec_string (unat d mod 10 ^ 8))"
  have s: "decimal_string (Amount d) = w @ ''.'' @ f"
    by (simp only: decimal_string_def Let_def amount.sel darks_per_night w_def f_def zero_pad_def)
  have lf: "length f = 8"
    using length_dec_string [of "unat d mod 10 ^ 8" 8] by (simp add: f_def zero_pad_def)
  have dw: "all_digits w" "digits_nat w = unat d div 10 ^ 8" "w \<noteq> []"
    by (simp_all add: w_def all_digits_dec dec_string_nonempty)
  have df: "all_digits f" "digits_nat f = unat d mod 10 ^ 8"
    using all_digits_dec [of "unat d mod 10 ^ 8"]
    by (auto simp: f_def zero_pad_def digits_nat_append digits_nat_zeros all_digits_def list_all_iff is_digit_def)
  have fd: "is_digit c" if "c \<in> set w \<union> set f" for c
    using that dw(1) df(1) by (auto simp: all_digits_def list_all_iff)
  have nodot: "CHR ''.'' \<notin> set w" "CHR ''.'' \<notin> set f"
    using fd by (force simp: is_digit_def)+
  have nocomma: "map (\<lambda>c. if c = CHR '','' then CHR ''.'' else c) (w @ ''.'' @ f) = w @ ''.'' @ f"
    using fd [of "CHR '',''"] by (auto intro!: map_idI simp: is_digit_def)
  have ne: "f \<noteq> []" using lf by auto
  have "solid (hd w)" "solid (last f)" using fd dw(3) ne by (simp_all add: solid_digit)
  then have "trim (w @ ''.'' @ f) = w @ ''.'' @ f"
    using dw(3) ne by (intro trim_solid) simp
  then have n: "normalise_amount (decimal_string (Amount d)) = w @ ''.'' @ f"
    using nocomma by (simp only: normalise_amount_def s)
  have h: "is_digit (hd w)" using fd dw(3) by simp
  have "amount_parts (w @ ''.'' @ f) = (w, f)"
    using split_once_char [OF nodot(1), of f] by (simp add: amount_parts_def)
  moreover have "\<not> contains ''.'' f" using nodot(2) by (simp add: contains_def split_once_char_None)
  moreover have "amount_value w f = Inr d"
    using assms by (simp add: amount_value_iff [OF dw(1) df(1)] lf dw(2) df(2))
  moreover have "hd w \<noteq> CHR ''-''" "hd w \<noteq> CHR ''+''" using h by (auto simp: is_digit_def)
  ultimately show ?thesis using dw df(1) lf by (simp add: parse_night_def n params)
qed

end
