(* ===== verification/Payment_Request.thy ===== *)
theory Payment_Request
  imports Amount_Input Keys
begin

text \<open>
  \<open>crates/nightfall-wallet/src/payment_request.rs\<close>: the payment request, a line of text that
  names an address, a network and optionally an amount, a memo, a reference and a deadline.
  Every request within the limits that is written out is read back as the same request.
\<close>

definition SCHEME :: string where "SCHEME = ''nightfall''"
definition MAX_LEN :: nat where [params]: "MAX_LEN = 2048"
definition SHARE_PREFIX :: string where
  "SHARE_PREFIX = ''https://wallet.nightfallcoin.org/#pay=''"
definition MAX_SHARE_LEN :: nat where "MAX_SHARE_LEN = length SHARE_PREFIX + MAX_LEN * 3"
definition MAX_MEMO :: nat where [params]: "MAX_MEMO = 64"
definition MAX_INVOICE :: nat where [params]: "MAX_INVOICE = 64"

datatype request_error =
    TooLong | NotARequest | BadRequestAddress | MissingNetwork | UnknownNetwork string
  | WrongNetworkFor network_id network_id | BadAmount | AmountTooLarge | MemoTooLong
  | InvoiceTooLong | BadExpiry | UnknownParameter string | RepeatedParameter string | BadEncoding

record payment_request =
  pr_address :: address
  pr_network :: network_id
  pr_amount :: "u64 option"
  pr_memo :: string
  pr_invoice :: string
  pr_expires :: "u64 option"

section \<open>Values\<close>

definition request_u64 :: "string \<Rightarrow> u64 option" where
  "request_u64 v =
     (if v = [] \<or> \<not> all_digits v then None
      else if 1 < length v \<and> hd v = CHR ''0'' then None
      else map_option of_nat (parse_unsigned 64 v))"

definition parse_darks :: "string \<Rightarrow> request_error + u64" where
  "parse_darks v =
     res_bind (case request_u64 v of None \<Rightarrow> Inl BadAmount | Some d \<Rightarrow> Inr d)
       (\<lambda>d. if MAX_SUPPLY_DARKS < d then Inl AmountTooLarge else Inr d)"

definition decode_component :: "string \<Rightarrow> request_error + string" where
  "decode_component raw =
     (case percent_decode raw of None \<Rightarrow> Inl BadEncoding | Some s \<Rightarrow> Inr s)"

definition parse_network :: "string \<Rightarrow> request_error + network_id" where
  "parse_network v =
     (if v = ''mainnet'' then Inr Mainnet
      else if v = ''testnet'' then Inr Testnet
      else if v = ''devnet'' then Inr Devnet
      else Inl (UnknownNetwork v))"

section \<open>Parsing\<close>

text \<open>The optional values collected so far.\<close>

record request_fields =
  rf_network :: "network_id option"
  rf_amount :: "u64 option"
  rf_memo :: "string option"
  rf_invoice :: "string option"
  rf_expires :: "u64 option"

definition no_fields :: request_fields where
  "no_fields = \<lparr>rf_network = None, rf_amount = None, rf_memo = None, rf_invoice = None,
     rf_expires = None\<rparr>"

definition set_field :: "request_fields \<Rightarrow> string \<Rightarrow> string \<Rightarrow> request_error + request_fields" where
  "set_field f key v =
     (if key = ''network'' then
        (if rf_network f \<noteq> None then Inl (RepeatedParameter key)
         else res_bind (parse_network v) (\<lambda>n. Inr (f\<lparr>rf_network := Some n\<rparr>)))
      else if key = ''amount'' then
        (if rf_amount f \<noteq> None then Inl (RepeatedParameter key)
         else res_bind (parse_darks v) (\<lambda>d. Inr (f\<lparr>rf_amount := Some d\<rparr>)))
      else if key = ''memo'' then
        (if rf_memo f \<noteq> None then Inl (RepeatedParameter key)
         else if MAX_MEMO < char_count v then Inl MemoTooLong
         else Inr (f\<lparr>rf_memo := Some v\<rparr>))
      else if key = ''id'' then
        (if rf_invoice f \<noteq> None then Inl (RepeatedParameter key)
         else if MAX_INVOICE < char_count v then Inl InvoiceTooLong
         else Inr (f\<lparr>rf_invoice := Some v\<rparr>))
      else if key = ''expires'' then
        (if rf_expires f \<noteq> None then Inl (RepeatedParameter key)
         else (case request_u64 v of
                 None \<Rightarrow> Inl BadExpiry
               | Some e \<Rightarrow> Inr (f\<lparr>rf_expires := Some e\<rparr>)))
      else Inl (UnknownParameter key))"

definition add_param :: "request_fields \<Rightarrow> string \<Rightarrow> request_error + request_fields" where
  "add_param f pair =
     (case (case split_once ''='' pair of None \<Rightarrow> (pair, []) | Some kv \<Rightarrow> kv) of
        (key, raw) \<Rightarrow> res_bind (decode_component raw) (set_field f key))"

definition unwrap_share :: "string \<Rightarrow> request_error + string" where
  "unwrap_share text =
     (case strip_prefix SHARE_PREFIX text of
        None \<Rightarrow> Inr text
      | Some fragment \<Rightarrow>
          if MAX_SHARE_LEN < length text then Inl TooLong
          else
            res_bind (decode_component fragment) (\<lambda>decoded.
              if encode_component decoded \<noteq> fragment then Inl BadEncoding else Inr decoded))"

definition split_scheme :: "string \<Rightarrow> string option" where
  "split_scheme text =
     (case split_once '':'' text of
        None \<Rightarrow> None
      | Some (scheme, rest) \<Rightarrow>
          if to_ascii_lowercase scheme = to_ascii_lowercase SCHEME then Some rest else None)"

definition parse_request :: "('p, 's) crypto \<Rightarrow> string \<Rightarrow> request_error + payment_request" where
  "parse_request C text0 =
     res_bind (unwrap_share (trim text0)) (\<lambda>text.
       if MAX_LEN < length text then Inl TooLong
       else
         (case split_scheme text of
            None \<Rightarrow> Inl NotARequest
          | Some rest \<Rightarrow>
              (case (case split_once ''?'' rest of None \<Rightarrow> (rest, []) | Some aq \<Rightarrow> aq) of
                 (address_part, query) \<Rightarrow>
                   res_bind (map_err (\<lambda>_. BadRequestAddress) (address_decode C (trim address_part))) (\<lambda>a.
                   res_bind (res_fold add_param no_fields (filter (\<lambda>p. p \<noteq> []) (split_all (CHR ''&'') query))) (\<lambda>f.
                   (case rf_network f of
                      None \<Rightarrow> Inl MissingNetwork
                    | Some n \<Rightarrow>
                        Inr \<lparr>pr_address = a, pr_network = n, pr_amount = rf_amount f,
                             pr_memo = (case rf_memo f of None \<Rightarrow> [] | Some m \<Rightarrow> m),
                             pr_invoice = (case rf_invoice f of None \<Rightarrow> [] | Some i \<Rightarrow> i),
                             pr_expires = rf_expires f\<rparr>))))))"

definition require_network :: "payment_request \<Rightarrow> network_id \<Rightarrow> request_error + unit" where
  "require_network r wallet =
     (if pr_network r = wallet then Inr () else Inl (WrongNetworkFor (pr_network r) wallet))"

definition request_is_expired :: "payment_request \<Rightarrow> u64 \<Rightarrow> bool" where
  "request_is_expired r now \<longleftrightarrow>
     (case pr_expires r of None \<Rightarrow> False | Some deadline \<Rightarrow> deadline < now)"

section \<open>Writing\<close>

definition to_uri :: "('p, 's) crypto \<Rightarrow> payment_request \<Rightarrow> string" where
  "to_uri C r =
     SCHEME @ '':'' @ address_encode C (pr_address r)
     @ ''?network='' @ network_as_str (pr_network r)
     @ (case pr_amount r of None \<Rightarrow> [] | Some d \<Rightarrow> ''&amount='' @ dec_string (unat d))
     @ (if pr_memo r = [] then [] else ''&memo='' @ encode_component (pr_memo r))
     @ (if pr_invoice r = [] then [] else ''&id='' @ encode_component (pr_invoice r))
     @ (case pr_expires r of None \<Rightarrow> [] | Some e \<Rightarrow> ''&expires='' @ dec_string (unat e))"

definition to_share_link :: "('p, 's) crypto \<Rightarrow> payment_request \<Rightarrow> string" where
  "to_share_link C r = SHARE_PREFIX @ encode_component (to_uri C r)"

definition is_candidate :: "string \<Rightarrow> bool" where
  "is_candidate text0 \<longleftrightarrow>
     (let text = trim text0 in prefix SHARE_PREFIX text \<or> split_scheme text \<noteq> None)"

definition amount_text :: "payment_request \<Rightarrow> string" where
  "amount_text r =
     (case pr_amount r of
        None \<Rightarrow> ''any amount '' @ map char_of [0xE2, 0x80, 0x94 :: nat] @ '' you choose''
      | Some d \<Rightarrow>
          dec_string (unat d div unat DARKS_PER_NIGHT) @ ''.''
            @ zero_pad 8 (dec_string (unat d mod unat DARKS_PER_NIGHT)) @ '' NIGHT'')"

section \<open>Values read back\<close>

lemma dec_string_lead: "0 < n \<Longrightarrow> hd (dec_string n) \<noteq> CHR ''0''"
proof (induction n rule: dec_string.induct)
  case (1 n)
  show ?case
  proof (cases "n < 10")
    case True
    then have "n \<in> {1, 2, 3, 4, 5, 6, 7, 8, 9}" using 1(2) by auto
    then show ?thesis by (subst dec_string.simps) (auto simp: char_of_def bit_Suc_0_iff)
  next
    case False
    then have "hd (dec_string (n div 10)) \<noteq> CHR ''0''" using 1 by simp
    moreover have "dec_string n = dec_string (n div 10) @ [char_of (48 + n mod 10)]"
      using False by (subst dec_string.simps) simp
    ultimately show ?thesis using dec_string_nonempty [of "n div 10"] by simp
  qed
qed

lemma request_u64_string: "n < 2 ^ 64 \<Longrightarrow> request_u64 (dec_string n) = Some (of_nat n)"
proof -
  assume n: "n < 2 ^ 64"
  have "\<not> (1 < length (dec_string n) \<and> hd (dec_string n) = CHR ''0'')"
  proof (cases "n = 0")
    case True
    then show ?thesis by (subst dec_string.simps) simp
  qed (use dec_string_lead [of n] in simp)
  then show ?thesis
    using n parse_unsigned_string [of n 64] all_digits_dec dec_string_nonempty
    by (simp add: request_u64_def)
qed

lemma encode_plain: "\<forall>c \<in> set s. unreserved c \<Longrightarrow> encode_component s = s"
  by (induction s) (auto simp: encode_component_def encode_char_def)

definition visible :: "string \<Rightarrow> bool" where
  "visible s \<longleftrightarrow> (\<forall>c \<in> set s. 32 < (of_char c :: nat) \<and> (of_char c :: nat) < 128)"

lemma visible_append [simp]: "visible (s @ t) \<longleftrightarrow> visible s \<and> visible t"
  by (auto simp: visible_def)

lemma visible_ascii: "visible s \<Longrightarrow> ascii s"
  by (auto simp: visible_def ascii_def)

lemma visible_trim: "visible s \<Longrightarrow> trim s = s"
  by (rule trim_solid) (auto simp: visible_def intro!: solid_ascii)

lemma visible_unreserved: "unreserved c \<Longrightarrow> 32 < (of_char c :: nat) \<and> (of_char c :: nat) < 128"
  by (auto simp: unreserved_def is_ascii_alphanumeric_def is_digit_def is_ascii_lower_def is_ascii_upper_def)

lemma visible_encoded: "visible (encode_component s)"
  using encoded_chars visible_unreserved by (fastforce simp: visible_def)

lemma digits_plain: "c \<in> set (dec_string n) \<Longrightarrow> unreserved c"
  using dec_string_digits by (auto simp: unreserved_def is_ascii_alphanumeric_def)

lemma network_plain: "c \<in> set (network_as_str n) \<Longrightarrow> unreserved c"
proof -
  have "list_all unreserved (network_as_str Mainnet)" "list_all unreserved (network_as_str Testnet)"
    "list_all unreserved (network_as_str Devnet)" by code_simp+
  then have "list_all unreserved (network_as_str n)" by (cases n) simp_all
  then show "c \<in> set (network_as_str n) \<Longrightarrow> unreserved c" by (simp add: list_all_iff)
qed

lemma visible_plain: "\<forall>c \<in> set s. unreserved c \<Longrightarrow> visible s"
  using visible_unreserved by (auto simp: visible_def)

lemma decode_encoded: "utf8_valid (str_bytes s) \<Longrightarrow> decode_component (encode_component s) = Inr s"
  by (simp add: decode_component_def percent_decode_encode)

lemma decode_plain: "\<forall>c \<in> set s. unreserved c \<Longrightarrow> decode_component s = Inr s"
  using decode_encoded [of s] encode_plain [of s] utf8_ascii_text [OF visible_ascii [OF visible_plain]]
  by simp

section \<open>Parameters read back\<close>

definition amount_params :: "payment_request \<Rightarrow> string list" where
  "amount_params r = (case pr_amount r of None \<Rightarrow> [] | Some d \<Rightarrow> [''amount='' @ dec_string (unat d)])"

definition text_params :: "string \<Rightarrow> string \<Rightarrow> string list" where
  "text_params key v = (if v = [] then [] else [key @ ''='' @ encode_component v])"

definition expiry_params :: "payment_request \<Rightarrow> string list" where
  "expiry_params r = (case pr_expires r of None \<Rightarrow> [] | Some d \<Rightarrow> [''expires='' @ dec_string (unat d)])"

definition request_params :: "payment_request \<Rightarrow> string list" where
  "request_params r = amount_params r @ text_params ''memo'' (pr_memo r)
     @ text_params ''id'' (pr_invoice r) @ expiry_params r"

lemma add_param_key:
  "CHR ''='' \<notin> set key \<Longrightarrow>
     add_param f (key @ CHR ''='' # raw) = res_bind (decode_component raw) (set_field f key)"
  by (simp add: add_param_def split_once_char)

lemma add_network:
  assumes "rf_network f = None"
  shows "add_param f (''network='' @ network_as_str n) = Inr (f\<lparr>rf_network := Some n\<rparr>)"
proof -
  have "decode_component (network_as_str n) = Inr (network_as_str n)"
    by (rule decode_plain) (auto dest: network_plain)
  moreover have "parse_network (network_as_str n) = Inr n" by (cases n) (simp_all add: parse_network_def)
  ultimately show ?thesis
    using assms add_param_key [of "''network''" f "network_as_str n"] by (simp add: set_field_def)
qed

lemma decode_number: "decode_component (dec_string n) = Inr (dec_string n)"
  by (rule decode_plain) (auto dest: digits_plain)

lemma unat_below: "unat (d :: u64) < 2 ^ 64"
  using unsigned_less [of d, where ?'a = nat] by simp

lemma add_amount:
  assumes "rf_amount f = None" "\<forall>d. pr_amount r = Some d \<longrightarrow> d \<le> MAX_SUPPLY_DARKS"
  shows "res_fold add_param f (amount_params r) = Inr (f\<lparr>rf_amount := pr_amount r\<rparr>)"
proof (cases "pr_amount r")
  case None
  then show ?thesis using assms(1) by (simp add: amount_params_def)
next
  case (Some d)
  then have "parse_darks (dec_string (unat d)) = Inr d"
    using assms(2) request_u64_string [OF unat_below, of d] by (simp add: parse_darks_def not_less)
  then show ?thesis
    using Some assms(1) add_param_key [of "''amount''" f "dec_string (unat d)"]
    by (simp add: amount_params_def decode_number set_field_def)
qed

lemma add_expiry:
  assumes "rf_expires f = None"
  shows "res_fold add_param f (expiry_params r) = Inr (f\<lparr>rf_expires := pr_expires r\<rparr>)"
proof (cases "pr_expires r")
  case None
  then show ?thesis using assms by (simp add: expiry_params_def)
next
  case (Some d)
  then show ?thesis
    using assms add_param_key [of "''expires''" f "dec_string (unat d)"]
      request_u64_string [OF unat_below, of d]
    by (simp add: expiry_params_def decode_number set_field_def)
qed

lemma add_memo:
  assumes "rf_memo f = None" "utf8_valid (str_bytes v)" "char_count v \<le> MAX_MEMO"
  shows "res_fold add_param f (text_params ''memo'' v)
    = Inr (f\<lparr>rf_memo := (if v = [] then None else Some v)\<rparr>)"
  using assms add_param_key [of "''memo''" f "encode_component v"]
  by (simp add: text_params_def decode_encoded set_field_def)

lemma add_invoice_field:
  assumes "rf_invoice f = None" "utf8_valid (str_bytes v)" "char_count v \<le> MAX_INVOICE"
  shows "res_fold add_param f (text_params ''id'' v)
    = Inr (f\<lparr>rf_invoice := (if v = [] then None else Some v)\<rparr>)"
  using assms add_param_key [of "''id''" f "encode_component v"]
  by (simp add: text_params_def decode_encoded set_field_def)

lemma res_fold_append:
  "res_fold f a (xs @ ys) = res_bind (res_fold f a xs) (\<lambda>b. res_fold f b ys)"
proof (induction xs arbitrary: a)
  case (Cons x xs)
  then show ?case by (cases "f a x") simp_all
qed simp

lemma split_all_join:
  "\<forall>p \<in> set (x # ps). c \<notin> set p \<Longrightarrow> split_all c (x @ concat (map ((#) c) ps)) = x # ps"
proof (induction ps arbitrary: x)
  case (Cons p ps)
  then show ?case using split_all_sep [of c x] by simp
qed (simp add: split_all_part)

section \<open>Requests read back\<close>

text \<open>A request within the limits: a valid address, a payable amount and texts that fit.\<close>

definition text_fits :: "nat \<Rightarrow> string \<Rightarrow> bool" where
  "text_fits n s \<longleftrightarrow> utf8_valid (str_bytes s) \<and> char_count s \<le> n"

definition request_ok :: "('p, 's) crypto \<Rightarrow> payment_request \<Rightarrow> bool" where
  "request_ok C r \<longleftrightarrow>
     length (scan_pk (pr_address r)) = 32 \<and> length (spend_pk (pr_address r)) = 32
     \<and> scan_point C (pr_address r) \<noteq> None \<and> spend_point C (pr_address r) \<noteq> None
     \<and> (\<forall>d. pr_amount r = Some d \<longrightarrow> d \<le> MAX_SUPPLY_DARKS)
     \<and> text_fits MAX_MEMO (pr_memo r) \<and> text_fits MAX_INVOICE (pr_invoice r)"

definition query_of :: "payment_request \<Rightarrow> string" where
  "query_of r = ''network='' @ network_as_str (pr_network r)
     @ concat (map ((#) (CHR ''&'')) (request_params r))"

lemma to_uri_parts:
  "to_uri C r = ''nightfall'' @ CHR '':'' # (address_encode C (pr_address r) @ CHR ''?'' # query_of r)"
  by (simp add: to_uri_def query_of_def request_params_def amount_params_def text_params_def
      expiry_params_def SCHEME_def split: option.split)

lemma params_plain:
  assumes "p \<in> set ((''network='' @ network_as_str n) # request_params r)"
  shows "CHR ''&'' \<notin> set p" "p \<noteq> []" "visible p"
proof -
  have plain: "CHR ''&'' \<notin> set s \<and> visible s" if "\<forall>c \<in> set s. unreserved c \<or> c = CHR ''%''" for s
  proof -
    have "\<not> unreserved (CHR ''&'')" by code_simp
    then have "CHR ''&'' \<notin> set s" using that by fastforce
    moreover have "visible s" using that visible_unreserved by (fastforce simp: visible_def)
    ultimately show ?thesis by blast
  qed
  have n: "CHR ''&'' \<notin> set (network_as_str n) \<and> visible (network_as_str n)" for n
    by (rule plain) (auto dest: network_plain)
  have d: "CHR ''&'' \<notin> set (dec_string k) \<and> visible (dec_string k)" for k
    by (rule plain) (auto dest: digits_plain)
  have e: "CHR ''&'' \<notin> set (encode_component v) \<and> visible (encode_component v)" for v
    by (rule plain) (auto dest: encoded_chars)
  have k: "visible ''network=''" "visible ''amount=''" "visible ''memo=''" "visible ''id=''" "visible ''expires=''"
    by (simp_all add: visible_def)
  have "(\<exists>v. p = ''network='' @ network_as_str v) \<or> (\<exists>j. p = ''amount='' @ dec_string j)
      \<or> (\<exists>v. p = ''memo='' @ encode_component v) \<or> (\<exists>v. p = ''id='' @ encode_component v)
      \<or> (\<exists>j. p = ''expires='' @ dec_string j)"
    using assms by (auto simp: request_params_def amount_params_def text_params_def expiry_params_def
        split: option.splits if_splits)
  then have "\<exists>key v. p = key @ v \<and> key \<noteq> [] \<and> CHR ''&'' \<notin> set key \<and> visible key
      \<and> CHR ''&'' \<notin> set v \<and> visible v"
  proof (elim disjE exE)
    fix v assume "p = ''network='' @ network_as_str v"
    then show ?thesis using n [of v] k by (intro exI [of _ "''network=''"] exI [of _ "network_as_str v"]) simp
  next
    fix v assume "p = ''amount='' @ dec_string v"
    then show ?thesis using d [of v] k by (intro exI [of _ "''amount=''"] exI [of _ "dec_string v"]) simp
  next
    fix v assume "p = ''memo='' @ encode_component v"
    then show ?thesis using e [of v] k by (intro exI [of _ "''memo=''"] exI [of _ "encode_component v"]) simp
  next
    fix v assume "p = ''id='' @ encode_component v"
    then show ?thesis using e [of v] k by (intro exI [of _ "''id=''"] exI [of _ "encode_component v"]) simp
  next
    fix v assume "p = ''expires='' @ dec_string v"
    then show ?thesis using d [of v] k by (intro exI [of _ "''expires=''"] exI [of _ "dec_string v"]) simp
  qed
  then show "CHR ''&'' \<notin> set p" "p \<noteq> []" "visible p" by auto
qed

lemma query_split:
  "filter (\<lambda>p. p \<noteq> []) (split_all (CHR ''&'') (query_of r))
    = (''network='' @ network_as_str (pr_network r)) # request_params r"
proof -
  let ?x = "''network='' @ network_as_str (pr_network r)"
  have "split_all (CHR ''&'') (?x @ concat (map ((#) (CHR ''&'')) (request_params r)))
      = ?x # request_params r"
    by (rule split_all_join) (use params_plain in blast)
  moreover have "filter (\<lambda>p. p \<noteq> []) (?x # request_params r) = ?x # request_params r"
    by (rule filter_True) (use params_plain in blast)
  ultimately show ?thesis by (simp only: query_of_def append_assoc)
qed

lemma fields_read:
  assumes "request_ok C r"
  shows "res_fold add_param no_fields ((''network='' @ network_as_str (pr_network r)) # request_params r)
    = Inr \<lparr>rf_network = Some (pr_network r), rf_amount = pr_amount r,
           rf_memo = (if pr_memo r = [] then None else Some (pr_memo r)),
           rf_invoice = (if pr_invoice r = [] then None else Some (pr_invoice r)),
           rf_expires = pr_expires r\<rparr>"
proof -
  have "add_param no_fields (''network='' @ network_as_str (pr_network r))
      = Inr (no_fields\<lparr>rf_network := Some (pr_network r)\<rparr>)"
    by (rule add_network) (simp add: no_fields_def)
  then show ?thesis
    using assms
    by (simp add: request_params_def res_fold_append add_amount add_memo add_invoice_field add_expiry
        request_ok_def text_fits_def no_fields_def del: append_Cons append.simps)
qed

lemma visible_address: "visible (address_encode C a)"
proof -
  have h: "visible (hex_encode bs)" for bs
    using hex_encode_chars by (fastforce simp: visible_def)
  have "visible ''nf1''" by (simp add: visible_def)
  then show ?thesis
    using h visible_append [of "''nf1''"] by (simp only: address_encode_def Let_def visible_append simp_thms)
qed

lemma visible_uri: "visible (to_uri C r)"
proof -
  have "visible p" if "p \<in> set (request_params r)" for p
    using params_plain(3) [of p "pr_network r" r] that by simp
  then have "visible (concat (map ((#) (CHR ''&'')) (request_params r)))"
    by (auto simp: visible_def)
  moreover have "visible (''network='' @ network_as_str (pr_network r))"
    by (rule params_plain(3) [of _ "pr_network r" r]) simp
  ultimately have "visible (query_of r)"
    unfolding query_of_def append_assoc [symmetric] by (simp only: visible_append simp_thms)
  then show ?thesis using visible_address [of C "pr_address r"]
    by (auto simp: to_uri_parts visible_def)
qed

lemma length_uri:
  assumes C: "encoding_ok C" and ok: "request_ok C r"
  shows "length (to_uri C r) \<le> MAX_LEN"
proof -
  have u: "length (dec_string (unat d)) \<le> 20" for d :: u64
    by (rule length_dec_string) (use unat_below [of d] in simp_all)
  have t: "length (encode_component v) \<le> 768" if "text_fits 64 v" for v
    using that char_count_length [of v] length_encode [of v] by (simp add: text_fits_def)
  have "length (address_checksum C x) = 4" for x
    using C by (simp add: address_checksum_def hash_multi_def encoding_ok_def)
  then have a: "length (address_encode C (pr_address r)) = 139"
    using ok by (simp add: address_encode_def Let_def length_hex_encode request_ok_def)
  have n: "length (network_as_str (pr_network r)) \<le> 7" by (cases "pr_network r") simp_all
  have m: "length (encode_component (pr_memo r)) \<le> 768" "length (encode_component (pr_invoice r)) \<le> 768"
    using ok t by (simp_all add: request_ok_def params)
  have "length (case pr_amount r of None \<Rightarrow> [] | Some d \<Rightarrow> ''&amount='' @ dec_string (unat d)) \<le> 28"
    "length (case pr_expires r of None \<Rightarrow> [] | Some e \<Rightarrow> ''&expires='' @ dec_string (unat e)) \<le> 29"
    using u by (auto split: option.split)
  then show ?thesis
    using a n m by (simp add: to_uri_def SCHEME_def params)
qed

lemma parse_uri:
  assumes C: "encoding_ok C" and ok: "request_ok C r"
  shows "(case split_scheme (to_uri C r) of None \<Rightarrow> False
      | Some rest \<Rightarrow> split_once ''?'' rest = Some (address_encode C (pr_address r), query_of r))"
proof -
  have "CHR '':'' \<notin> set ''nightfall''" by simp
  then have s: "split_once '':'' (to_uri C r)
      = Some (''nightfall'', address_encode C (pr_address r) @ CHR ''?'' # query_of r)"
    unfolding to_uri_parts by (rule split_once_char)
  have "CHR ''?'' \<notin> set (hex_encode bs)" for bs
    using hex_encode_chars [of "CHR ''?''" bs] by auto
  then have "CHR ''?'' \<notin> set (address_encode C (pr_address r))"
    by (simp add: address_encode_def Let_def)
  then show ?thesis
    by (simp add: split_scheme_def s SCHEME_def split_once_char)
qed

lemma parse_unwrapped:
  assumes C: "encoding_ok C" and ok: "request_ok C r" and u: "unwrap_share (trim text) = Inr (to_uri C r)"
  shows "parse_request C text = Inr r"
proof -
  obtain rest where rest: "split_scheme (to_uri C r) = Some rest"
    "split_once ''?'' rest = Some (address_encode C (pr_address r), query_of r)"
    using parse_uri [OF C ok] by (auto split: option.splits)
  have "address_decode C (trim (address_encode C (pr_address r))) = Inr (pr_address r)"
    using address_roundtrip [OF C] ok by (simp add: request_ok_def visible_trim [OF visible_address])
  then show ?thesis
    using u rest length_uri [OF C ok] fields_read [OF ok]
    by (cases r) (simp add: parse_request_def query_split not_less)
qed

text \<open>A link written for a request within the limits is read back as that request.\<close>

lemma uri_roundtrip:
  assumes C: "encoding_ok C" and ok: "request_ok C r"
  shows "parse_request C (to_uri C r) = Inr r"
proof (rule parse_unwrapped [OF C ok])
  have "strip_prefix SHARE_PREFIX (to_uri C r) = None"
    by (simp add: strip_prefix_def to_uri_parts SHARE_PREFIX_def)
  then show "unwrap_share (trim (to_uri C r)) = Inr (to_uri C r)"
    by (simp add: unwrap_share_def visible_trim [OF visible_uri])
qed

text \<open>The same through the web link that wraps it.\<close>

lemma share_roundtrip:
  assumes C: "encoding_ok C" and ok: "request_ok C r"
  shows "parse_request C (to_share_link C r) = Inr r"
proof (rule parse_unwrapped [OF C ok])
  have v: "visible (to_share_link C r)"
    using visible_encoded by (simp add: to_share_link_def) (simp add: SHARE_PREFIX_def visible_def)
  have "length (encode_component (to_uri C r)) \<le> 3 * MAX_LEN"
    using length_encode [of "to_uri C r"] length_uri [OF C ok] by linarith
  then have "length (to_share_link C r) \<le> MAX_SHARE_LEN"
    by (simp add: to_share_link_def MAX_SHARE_LEN_def)
  moreover have "decode_component (encode_component (to_uri C r)) = Inr (to_uri C r)"
    by (rule decode_encoded) (rule utf8_ascii_text [OF visible_ascii [OF visible_uri]])
  ultimately show "unwrap_share (trim (to_share_link C r)) = Inr (to_uri C r)"
    by (simp add: unwrap_share_def visible_trim [OF v]) (simp add: to_share_link_def not_less)
qed

text \<open>What a request that was read can be.\<close>

lemma parsed_request_limits:
  assumes "parse_request C text = Inr r"
  shows "(\<forall>d. pr_amount r = Some d \<longrightarrow> d \<le> MAX_SUPPLY_DARKS)
    \<and> char_count (pr_memo r) \<le> MAX_MEMO \<and> char_count (pr_invoice r) \<le> MAX_INVOICE"
proof -
  let ?I = "\<lambda>f. (\<forall>d. rf_amount f = Some d \<longrightarrow> d \<le> MAX_SUPPLY_DARKS)
    \<and> (\<forall>m. rf_memo f = Some m \<longrightarrow> char_count m \<le> MAX_MEMO)
    \<and> (\<forall>m. rf_invoice f = Some m \<longrightarrow> char_count m \<le> MAX_INVOICE)"
  have step: "?I g" if i: "?I f" and a: "add_param f p = Inr g" for f g p
  proof -
    obtain k v where kv: "set_field f k v = Inr g"
      using a by (auto simp: add_param_def res_bind_Inr_iff split: prod.splits)
    then show ?thesis
      using i
      by (auto simp: set_field_def res_bind_Inr_iff parse_darks_def not_less not_le
          split: if_splits option.splits)
  qed
  have run: "?I f \<Longrightarrow> res_fold add_param f ps = Inr g \<Longrightarrow> ?I g" for f g ps
  proof (induction ps arbitrary: f)
    case (Cons p ps)
    from Cons.prems(2) obtain h where h: "add_param f p = Inr h" "res_fold add_param h ps = Inr g"
      by (auto simp: res_bind_Inr_iff)
    show ?case by (rule Cons.IH [OF step [OF Cons.prems(1) h(1)] h(2)])
  qed simp
  have start: "?I no_fields" by (simp add: no_fields_def)
  from assms obtain whole rest where t: "unwrap_share (trim text) = Inr whole" "split_scheme whole = Some rest"
    by (auto simp: parse_request_def res_bind_Inr_iff split: if_splits option.splits)
  obtain ap q where q: "(case split_once ''?'' rest of None \<Rightarrow> (rest, []) | Some aq \<Rightarrow> aq) = (ap, q)"
    by fastforce
  let ?ps = "filter (\<lambda>p. p \<noteq> []) (split_all (CHR ''&'') q)"
  from assms t q obtain f n where f: "res_fold add_param no_fields ?ps = Inr f"
    and r: "\<exists>a. r = \<lparr>pr_address = a, pr_network = n, pr_amount = rf_amount f,
      pr_memo = (case rf_memo f of None \<Rightarrow> [] | Some m \<Rightarrow> m),
      pr_invoice = (case rf_invoice f of None \<Rightarrow> [] | Some i \<Rightarrow> i), pr_expires = rf_expires f\<rparr>"
    by (simp add: parse_request_def) (auto simp: res_bind_Inr_iff split: if_splits option.split_asm)
  have "char_count [] = 0" by (simp add: char_count_def)
  then show ?thesis using run [OF start f] r by (auto split: option.splits)
qed

end
