(* ===== verification/Counter.thy ===== *)
theory Counter
  imports Payment_Request "HOL-Library.Multiset"
begin


text \<open>
  \<open>crates/nightfall-wallet/src/counter.rs\<close> and the till of \<open>lib.rs\<close>: invoices, where they
  stand given the payments a view key sees, and when a payment is deep enough.  The state of
  an invoice depends only on the payments that quote its reference, in any order, and no
  payment settles two invoices of one till.
\<close>

definition MAX_REFERENCE :: nat where [params]: "MAX_REFERENCE = 64"
definition MAX_DESCRIPTION :: nat where [params]: "MAX_DESCRIPTION = 64"
definition MAX_INVOICES :: nat where [params]: "MAX_INVOICES = 2000"
definition DEFAULT_CONFIRMATIONS :: u64 where [params]: "DEFAULT_CONFIRMATIONS = 10"

record invoice =
  inv_reference :: string
  inv_amount :: "u64 option"
  inv_description :: string
  inv_created :: u64
  inv_expires :: "u64 option"
  inv_closed :: "string option"

record incoming =
  ic_amount :: u64
  ic_memo :: string
  ic_height :: "u64 option"
  ic_time :: u64
  ic_id :: string

datatype invoice_state =
    Open
  | Expired
  | Paid (is_late: bool)
  | Underpaid (short_darks: u64) (is_late: bool)
  | Overpaid (extra_darks: u64) (is_late: bool)
  | Closed

record invoice_status =
  is_state :: invoice_state
  is_matched :: "incoming list"
  is_candidates :: "incoming list"
  is_received :: u64

section \<open>Invoices\<close>

datatype invoice_error =
    NoReference | ReferenceTooLong | DescriptionTooLong | ZeroInvoice | MoreThanSupply
  | ReferenceTaken | TillFull | NoClosingNote | NoSuchInvoice

definition invoice_check :: "invoice \<Rightarrow> invoice_error + unit" where
  "invoice_check i =
     (let reference = trim (inv_reference i) in
      if reference = [] then Inl NoReference
      else if MAX_REFERENCE < char_count reference then Inl ReferenceTooLong
      else if MAX_DESCRIPTION < char_count (inv_description i) then Inl DescriptionTooLong
      else
        (case inv_amount i of
           Some d \<Rightarrow> if d = 0 then Inl ZeroInvoice
                     else if MAX_SUPPLY_DARKS < d then Inl MoreThanSupply else Inr ()
         | None \<Rightarrow> Inr ()))"

definition looks_like_another_reference :: "string \<Rightarrow> bool" where
  "looks_like_another_reference memo \<longleftrightarrow>
     (let m = trim memo in m \<noteq> [] \<and> CHR '' '' \<notin> set m \<and> char_count m \<le> MAX_REFERENCE)"

definition quotes :: "invoice \<Rightarrow> incoming \<Rightarrow> bool" where
  "quotes i p \<longleftrightarrow> trim (ic_memo p) = trim (inv_reference i)"

definition is_candidate_for :: "invoice \<Rightarrow> incoming \<Rightarrow> bool" where
  "is_candidate_for i p \<longleftrightarrow>
     (case inv_amount i of
        None \<Rightarrow> False
      | Some asked \<Rightarrow> \<not> looks_like_another_reference (ic_memo p) \<and> ic_amount p = asked
          \<and> inv_created i \<le> ic_time p)"

definition sat_sum :: "u64 list \<Rightarrow> u64" where
  "sat_sum xs = foldl sat_add 0 xs"

definition after_deadline :: "u64 option \<Rightarrow> u64 \<Rightarrow> bool" where
  "after_deadline expires t \<longleftrightarrow> (case expires of None \<Rightarrow> False | Some deadline \<Rightarrow> deadline < t)"

definition state_of :: "invoice \<Rightarrow> incoming list \<Rightarrow> u64 \<Rightarrow> u64 \<Rightarrow> invoice_state" where
  "state_of i matched received now =
     (let late = (\<exists>p \<in> set matched. after_deadline (inv_expires i) (ic_time p)) in
      if inv_closed i \<noteq> None then Closed
      else if matched = [] then (if after_deadline (inv_expires i) now then Expired else Open)
      else
        (case inv_amount i of
           None \<Rightarrow> Paid late
         | Some asked \<Rightarrow>
             if received = asked then Paid late
             else if received < asked then Underpaid (asked - received) late
             else Overpaid (received - asked) late))"

definition state_settled :: "invoice_state \<Rightarrow> bool" where
  "state_settled s \<longleftrightarrow> (case s of Paid _ \<Rightarrow> True | Overpaid _ _ \<Rightarrow> True | Closed \<Rightarrow> True | _ \<Rightarrow> False)"

definition invoice_status_of :: "invoice \<Rightarrow> incoming list \<Rightarrow> u64 \<Rightarrow> invoice_status" where
  "invoice_status_of i ps now =
     (let matched = filter (quotes i) ps;
          candidates = filter (\<lambda>p. \<not> quotes i p \<and> is_candidate_for i p) ps;
          received = sat_sum (map ic_amount matched);
          state = state_of i matched received now
      in \<lparr>is_state = state, is_matched = matched,
          is_candidates = (if state_settled state then [] else candidates),
          is_received = received\<rparr>)"

definition is_settled :: "invoice_status \<Rightarrow> bool" where
  "is_settled s \<longleftrightarrow> state_settled (is_state s)"

section \<open>Depth\<close>

datatype settlement = NotPaid | Unconfirmed | Confirming u64 u64 | Confirmed | ClosedByHand

text \<open>The shallowest of the payments, unless one of them is in no block up to the tip.\<close>

fun shallowest :: "u64 \<Rightarrow> u64 option \<Rightarrow> incoming list \<Rightarrow> u64 option option" where
  "shallowest tip acc [] = Some acc"
| "shallowest tip acc (p # ps) =
     (case ic_height p of
        None \<Rightarrow> None
      | Some h \<Rightarrow>
          if tip < h then None
          else
            (let confs = tip - h + 1
             in shallowest tip (Some (case acc of None \<Rightarrow> confs | Some s \<Rightarrow> min s confs)) ps))"

definition settlement_of :: "invoice_status \<Rightarrow> u64 \<Rightarrow> u64 \<Rightarrow> settlement" where
  "settlement_of st tip need0 =
     (let need = max need0 1 in
      case is_state st of
        Closed \<Rightarrow> ClosedByHand
      | Open \<Rightarrow> NotPaid
      | Expired \<Rightarrow> NotPaid
      | Underpaid _ _ \<Rightarrow> NotPaid
      | _ \<Rightarrow>
          (case shallowest tip None (is_matched st) of
             None \<Rightarrow> Unconfirmed
           | Some None \<Rightarrow> Unconfirmed
           | Some (Some have') \<Rightarrow> if need \<le> have' then Confirmed else Confirming have' need))"

section \<open>Takings\<close>

definition confirmed_takings :: "invoice_status list \<Rightarrow> u64 \<Rightarrow> u64 \<Rightarrow> u64" where
  "confirmed_takings sts tip need =
     sat_sum (map is_received (filter (\<lambda>s. settlement_of s tip need = Confirmed) sts))"

definition takings :: "invoice_status list \<Rightarrow> u64" where
  "takings sts =
     sat_sum (map is_received
       (filter (\<lambda>s. case is_state s of Paid _ \<Rightarrow> True | Overpaid _ _ \<Rightarrow> True | _ \<Rightarrow> False) sts))"

definition request_for :: "invoice \<Rightarrow> address \<Rightarrow> network_id \<Rightarrow> payment_request" where
  "request_for i a n =
     \<lparr>pr_address = a, pr_network = n, pr_amount = inv_amount i, pr_memo = trim (inv_reference i),
      pr_invoice = trim (inv_reference i), pr_expires = inv_expires i\<rparr>"

definition round_night :: "u64 \<Rightarrow> string" where
  "round_night d =
     dec_string (unat d div unat DARKS_PER_NIGHT) @ ''.''
       @ zero_pad 2 (dec_string (unat d mod unat DARKS_PER_NIGHT div 1000000))"

section \<open>The till\<close>

type_synonym till = "invoice list"

definition add_invoice :: "till \<Rightarrow> invoice \<Rightarrow> invoice_error + till" where
  "add_invoice t i0 =
     (let i = i0\<lparr>inv_reference := trim (inv_reference i0), inv_description := trim (inv_description i0)\<rparr> in
      res_bind (invoice_check i) (\<lambda>_.
      res_bind (ensure ReferenceTaken (inv_reference i \<notin> inv_reference ` set t)) (\<lambda>_.
      res_bind (ensure TillFull (length t < MAX_INVOICES)) (\<lambda>_. Inr (t @ [i])))))"

fun close_first :: "string \<Rightarrow> string \<Rightarrow> till \<Rightarrow> till option" where
  "close_first ref note [] = None"
| "close_first ref note (i # t) =
     (if inv_reference i = ref then Some (i\<lparr>inv_closed := Some note\<rparr> # t)
      else map_option ((#) i) (close_first ref note t))"

definition close_invoice :: "till \<Rightarrow> string \<Rightarrow> string \<Rightarrow> invoice_error + till" where
  "close_invoice t ref note0 =
     (let note = trim note0 in
      if note = [] then Inl NoClosingNote
      else (case close_first (trim ref) note t of None \<Rightarrow> Inl NoSuchInvoice | Some t' \<Rightarrow> Inr t'))"

definition remove_invoice :: "till \<Rightarrow> string \<Rightarrow> invoice_error + till" where
  "remove_invoice t ref =
     (let t' = filter (\<lambda>i. inv_reference i \<noteq> trim ref) t in
      if length t' < length t then Inr t' else Inl NoSuchInvoice)"

definition till_status :: "till \<Rightarrow> incoming list \<Rightarrow> u64 \<Rightarrow> (invoice \<times> invoice_status) list" where
  "till_status t ps now = map (\<lambda>i. (i, invoice_status_of i ps now)) t"

text \<open>
  What the till says about an invoice: which payments count, when it is settled, when a
  payment is deep enough, and that no payment settles two invoices.
\<close>

section \<open>Sums\<close>

lemma unat_sat_sum: "unat (sat_sum xs) = min (2 ^ 64 - 1) (sum_list (map unat xs))"
proof -
  have "unat (foldl sat_add a xs) = min (2 ^ 64 - 1) (unat a + sum_list (map unat xs))" for a :: u64
  proof (induction xs arbitrary: a)
    case Nil
    then show ?case using unsigned_less [of a, where ?'a = nat] by simp
  next
    case (Cons x xs)
    then show ?case by (simp add: unat_sat_add)
  qed
  then show ?thesis by (simp add: sat_sum_def)
qed

section \<open>The state of an invoice\<close>

lemma status_matched: "is_matched (invoice_status_of i ps now) = filter (quotes i) ps"
  and status_state: "is_state (invoice_status_of i ps now)
    = state_of i (filter (quotes i) ps) (sat_sum (map ic_amount (filter (quotes i) ps))) now"
  and status_received: "is_received (invoice_status_of i ps now)
    = sat_sum (map ic_amount (filter (quotes i) ps))"
  by (simp_all add: invoice_status_of_def Let_def)

text \<open>Payments that do not quote the reference change nothing, and neither does the order.\<close>

lemma status_ignores_others:
  assumes "mset (filter (quotes i) ps) = mset (filter (quotes i) qs)"
  shows "is_state (invoice_status_of i ps now) = is_state (invoice_status_of i qs now)
    \<and> is_received (invoice_status_of i ps now) = is_received (invoice_status_of i qs now)"
proof -
  let ?m = "\<lambda>ps. filter (quotes i) ps"
  have "sum_list (map (unat \<circ> ic_amount) (?m ps)) = sum_list (map (unat \<circ> ic_amount) (?m qs))"
    using assms by (metis mset_map sum_mset_sum_list)
  then have r: "sat_sum (map ic_amount (?m ps)) = sat_sum (map ic_amount (?m qs))"
    by (simp add: word_unat_eq_iff unat_sat_sum comp_def)
  have s: "set (?m ps) = set (?m qs)" using assms by (metis set_mset_mset)
  have e: "(?m ps = []) = (?m qs = [])" using s by (metis set_empty)
  show ?thesis by (simp only: status_state status_received state_of_def r s e simp_thms)
qed

text \<open>When the merchant may hand over the goods.\<close>

lemma settled_iff:
  assumes "\<forall>a. inv_amount i = Some a \<longrightarrow> a \<noteq> 0"
  shows "is_settled (invoice_status_of i ps now) \<longleftrightarrow>
    inv_closed i \<noteq> None
    \<or> ((\<exists>p \<in> set ps. quotes i p)
       \<and> (case inv_amount i of None \<Rightarrow> True
          | Some a \<Rightarrow> unat a \<le> (\<Sum>p \<leftarrow> filter (quotes i) ps. unat (ic_amount p))))"
proof -
  let ?r = "sat_sum (map ic_amount (filter (quotes i) ps))"
  have le: "a \<le> ?r \<longleftrightarrow> unat a \<le> (\<Sum>p \<leftarrow> filter (quotes i) ps. unat (ic_amount p))" for a :: u64
    using unsigned_less [of a, where ?'a = nat]
    by (simp add: word_le_nat_alt unat_sat_sum comp_def)
  have e: "filter (quotes i) ps = [] \<longleftrightarrow> \<not> (\<exists>p \<in> set ps. quotes i p)" by (auto simp: filter_empty_conv)
  show ?thesis
  proof (cases "inv_amount i")
    case None
    then show ?thesis using e by (auto simp: is_settled_def status_state state_of_def state_settled_def Let_def)
  next
    case (Some a)
    have "a \<le> ?r \<longleftrightarrow> ?r = a \<or> \<not> ?r < a" by auto
    then show ?thesis
      using Some e le [of a]
      by (auto simp: is_settled_def status_state state_of_def state_settled_def Let_def)
  qed
qed

section \<open>Depth\<close>

definition deep :: "u64 \<Rightarrow> u64 \<Rightarrow> incoming \<Rightarrow> bool" where
  "deep tip need p \<longleftrightarrow> (\<exists>h. ic_height p = Some h \<and> h \<le> tip \<and> need \<le> tip - h + 1)"

lemma shallowest_spec:
  "(case shallowest tip acc ps of None \<Rightarrow> False
    | Some r \<Rightarrow> (case r of None \<Rightarrow> False | Some m \<Rightarrow> need \<le> m))
   \<longleftrightarrow> (acc \<noteq> None \<or> ps \<noteq> []) \<and> (\<forall>m. acc = Some m \<longrightarrow> need \<le> m) \<and> (\<forall>p \<in> set ps. deep tip need p)"
proof (induction ps arbitrary: acc)
  case Nil
  then show ?case by (cases acc) simp_all
next
  case (Cons p ps)
  show ?case
  proof (cases "ic_height p")
    case None
    then show ?thesis by (simp add: deep_def)
  next
    case (Some h)
    show ?thesis
    proof (cases "tip < h")
      case True
      then have "\<not> deep tip need p" using Some by (auto simp: deep_def)
      then show ?thesis using True Some by simp
    next
      case False
      then have d: "deep tip need p \<longleftrightarrow> need \<le> tip - h + 1" using Some by (simp add: deep_def not_less)
      show ?thesis
        using Cons.IH [of "Some (case acc of None \<Rightarrow> tip - h + 1 | Some s \<Rightarrow> min s (tip - h + 1))"]
          Some False d
        by (cases acc) (auto simp: Let_def)
    qed
  qed
qed

text \<open>An invoice is confirmed when it is paid and every payment that counts is deep enough.\<close>

lemma confirmed_iff:
  "settlement_of (invoice_status_of i ps now) tip need = Confirmed \<longleftrightarrow>
     inv_closed i = None \<and> is_settled (invoice_status_of i ps now)
     \<and> (\<forall>p \<in> set ps. quotes i p \<longrightarrow> deep tip (max need 1) p)"
proof -
  let ?st = "invoice_status_of i ps now" and ?need = "max need 1"
  have m: "is_matched ?st = filter (quotes i) ps" by (rule status_matched)
  have c: "is_state ?st = Closed \<longleftrightarrow> inv_closed i \<noteq> None"
    by (auto simp: status_state state_of_def Let_def split: option.splits)
  have ne: "filter (quotes i) ps \<noteq> []" if "inv_closed i = None" "is_settled ?st"
    using that by (auto simp: is_settled_def status_state state_of_def state_settled_def split: if_splits)
  have *: "(case shallowest tip None (filter (quotes i) ps) of None \<Rightarrow> Unconfirmed
      | Some None \<Rightarrow> Unconfirmed
      | Some (Some h) \<Rightarrow> if ?need \<le> h then Confirmed else Confirming h ?need) = Confirmed
    \<longleftrightarrow> filter (quotes i) ps \<noteq> [] \<and> (\<forall>p \<in> set ps. quotes i p \<longrightarrow> deep tip ?need p)"
    using shallowest_spec [where tip = tip and acc = None and ps = "filter (quotes i) ps" and need = ?need]
    by (auto split: option.splits)
  show ?thesis
  proof (cases "is_state ?st")
    case (Paid l)
    then show ?thesis using c * ne
      by (simp add: settlement_of_def Let_def m is_settled_def state_settled_def)
  next
    case (Overpaid x l)
    then show ?thesis using c * ne
      by (simp add: settlement_of_def Let_def m is_settled_def state_settled_def)
  qed (use c in \<open>simp_all add: settlement_of_def is_settled_def state_settled_def\<close>)
qed

section \<open>The till\<close>

definition till_ok :: "till \<Rightarrow> bool" where
  "till_ok t \<longleftrightarrow> distinct (map inv_reference t) \<and> length t \<le> MAX_INVOICES
     \<and> (\<forall>i \<in> set t. trim (inv_reference i) = inv_reference i \<and> invoice_check i = Inr ())"

lemma till_empty: "till_ok []"
  by (simp add: till_ok_def)

lemma add_invoice_ok:
  assumes "till_ok t" "add_invoice t i = Inr t'"
  shows "till_ok t'"
proof -
  let ?i = "i\<lparr>inv_reference := trim (inv_reference i), inv_description := trim (inv_description i)\<rparr>"
  from assms(2) have "invoice_check ?i = Inr ()" "inv_reference ?i \<notin> inv_reference ` set t"
    "length t < MAX_INVOICES" "t' = t @ [?i]"
    by (auto simp: add_invoice_def Let_def res_simps)
  then show ?thesis using assms(1) by (auto simp: till_ok_def trim_idem)
qed

lemma close_first_refs:
  "close_first ref note t = Some t' \<Longrightarrow> map inv_reference t' = map inv_reference t
     \<and> (\<forall>i \<in> set t'. \<exists>j \<in> set t. i = j \<or> i = j\<lparr>inv_closed := Some note\<rparr>)"
proof (induction t arbitrary: t')
  case (Cons i t)
  then show ?case by (cases "inv_reference i = ref") fastforce+
qed simp

lemma close_invoice_ok:
  assumes "till_ok t" "close_invoice t ref note = Inr t'"
  shows "till_ok t'"
proof -
  from assms(2) have c: "close_first (trim ref) (trim note) t = Some t'"
    by (auto simp: close_invoice_def Let_def split: if_splits option.splits)
  note r = close_first_refs [OF c]
  have "length t' = length t" using r by (metis length_map)
  moreover have "invoice_check (i\<lparr>inv_closed := x\<rparr>) = invoice_check i" for i x
    by (simp add: invoice_check_def Let_def)
  ultimately show ?thesis using assms(1) r unfolding till_ok_def by fastforce
qed

lemma remove_invoice_ok:
  assumes "till_ok t" "remove_invoice t ref = Inr t'"
  shows "till_ok t'"
proof -
  from assms(2) have "t' = filter (\<lambda>i. inv_reference i \<noteq> trim ref) t"
    by (auto simp: remove_invoice_def Let_def split: if_splits)
  then show ?thesis
    using assms(1) by (auto simp: till_ok_def distinct_map_filter intro: order_trans [OF length_filter_le])
qed

text \<open>Any history of the till's operations.\<close>

datatype till_op = AddInvoice invoice | CloseInvoice string string | RemoveInvoice string

fun till_step :: "till_op \<Rightarrow> till \<Rightarrow> till" where
  "till_step (AddInvoice i) t = (case add_invoice t i of Inl _ \<Rightarrow> t | Inr t' \<Rightarrow> t')"
| "till_step (CloseInvoice ref note) t = (case close_invoice t ref note of Inl _ \<Rightarrow> t | Inr t' \<Rightarrow> t')"
| "till_step (RemoveInvoice ref) t = (case remove_invoice t ref of Inl _ \<Rightarrow> t | Inr t' \<Rightarrow> t')"

lemma till_step_ok: "till_ok t \<Longrightarrow> till_ok (till_step x t)"
  by (cases x)
     (simp_all split: sum.split, blast intro: add_invoice_ok, blast intro: close_invoice_ok,
      blast intro: remove_invoice_ok)

lemma till_run_ok: "till_ok (fold till_step ops [])"
  by (rule fold_invariant [where Q = "\<lambda>_. True"]) (simp_all add: till_empty till_step_ok)

text \<open>A payment counts for at most one invoice of a till.\<close>

lemma one_invoice_per_payment:
  assumes "till_ok t" "i \<in> set t" "j \<in> set t" "quotes i p" "quotes j p"
  shows "i = j"
proof -
  have t: "trim (inv_reference i) = inv_reference i" "trim (inv_reference j) = inv_reference j"
    using assms(1-3) by (simp_all add: till_ok_def)
  have inj: "inj_on inv_reference (set t)"
    using assms(1) by (simp add: till_ok_def distinct_map)
  have "inv_reference i = inv_reference j"
    using assms(4,5) t by (simp add: quotes_def)
  then show ?thesis by (rule inj_onD [OF inj]) (rule assms(2), rule assms(3))
qed

end
