(* ===== verification/Air.thy ===== *)
theory Air
  imports Payment_Request Ordered_Map "HOL-Library.Char_ord"
begin

text \<open>
  \<open>crates/nightfall-wallet/src/air.rs\<close>: paying from a wallet that is never on a network.
  The two packages that cross the gap (\<open>intent\<close>, \<open>signed_package\<close>), the log of used nonces,
  and the frames a payload is cut into with the reassembler that collects them.  Texts are
  lists of bytes, \<open>usize\<close> is \<open>nat\<close> read at 64 bits.
\<close>

definition AIR_SCHEME :: string where "AIR_SCHEME = ''nightfall-air''"
definition AIR_VERSION :: nat where [params]: "AIR_VERSION = 1"
definition MAX_PAYLOAD :: nat where [params]: "MAX_PAYLOAD = 32000"
definition MAX_FRAME_PAYLOAD :: nat where [params]: "MAX_FRAME_PAYLOAD = 500"
definition MAX_FRAMES :: nat where [params]: "MAX_FRAMES = 64"
definition MAX_FRAME_LEN :: nat where [params]: "MAX_FRAME_LEN = 2 * MAX_FRAME_PAYLOAD + 128"
definition NONCE_MEMORY :: nat where [params]: "NONCE_MEMORY = 512"

datatype air_error =
    NotAnAirPackage | UnknownVersion nat | UnknownKind string | MissingField string
  | UnknownField string | RepeatedField string | BadAirAddress | BadNumber string
  | AirAmountTooLarge | AirWrongNetwork network_id network_id | AirExpired u64 u64
  | ReplayedNonce | NonceMismatch | PayloadTooLarge nat | PayloadEmpty | BadFrame
  | FrameFromAnotherTransfer | TooManyFrames nat | IncompleteTransfer nat nat | DigestMismatch

record intent =
  it_network :: network_id
  it_to :: address
  it_amount :: u64
  it_fee :: u64
  it_tip :: u64
  it_nonce :: string
  it_expires :: u64

record signed_package =
  sg_network :: network_id
  sg_nonce :: string
  sg_payload :: bytes

section \<open>Fields of a package\<close>

definition add_field :: "(string, string) omap \<Rightarrow> string \<Rightarrow> air_error + (string, string) omap" where
  "add_field m pair =
     (case split_once ''='' pair of
        None \<Rightarrow> Inl NotAnAirPackage
      | Some (key, v) \<Rightarrow>
          if map_of m key \<noteq> None then Inl (RepeatedField key) else Inr (om_insert key v m))"

definition split_package :: "string \<Rightarrow> string \<Rightarrow> air_error + (string, string) omap" where
  "split_package text kind =
     res_bind (ok_or NotAnAirPackage (strip_prefix (AIR_SCHEME @ '':'') (trim text))) (\<lambda>rest.
     res_bind (ok_or NotAnAirPackage (split_once '':'' rest)) (\<lambda>(found_kind, rest).
     if found_kind \<noteq> kind then Inl (UnknownKind found_kind)
     else
       res_bind (ok_or NotAnAirPackage (split_once ''|'' rest)) (\<lambda>(version, rest).
       res_bind (ok_or NotAnAirPackage (parse_unsigned 32 version)) (\<lambda>version.
       if version \<noteq> AIR_VERSION then Inl (UnknownVersion version)
       else res_fold add_field [] (filter (\<lambda>p. p \<noteq> []) (split_all (CHR ''|'') rest))))))"

definition take_field :: "(string, string) omap \<Rightarrow> string \<Rightarrow> air_error + string" where
  "take_field m key = ok_or (MissingField key) (map_of m key)"

definition refuse_unknown :: "(string, string) omap \<Rightarrow> string list \<Rightarrow> air_error + unit" where
  "refuse_unknown m known =
     for_each (\<lambda>key. ensure (UnknownField key) (key \<in> set known)) (map fst m)"

definition network_from :: "string \<Rightarrow> air_error + network_id" where
  "network_from v =
     (if v = ''mainnet'' then Inr Mainnet
      else if v = ''testnet'' then Inr Testnet
      else if v = ''devnet'' then Inr Devnet
      else Inl (MissingField ''network''))"

definition one_spelling :: "string \<Rightarrow> nat option" where
  "one_spelling v =
     (if v = [] \<or> \<not> all_digits v then None
      else if 1 < length v \<and> hd v = CHR ''0'' then None
      else parse_unsigned 64 v)"

definition air_number :: "string \<Rightarrow> string \<Rightarrow> air_error + u64" where
  "air_number v field = ok_or (BadNumber field) (map_option of_nat (one_spelling v))"

definition parse_index :: "string \<Rightarrow> air_error + nat" where
  "parse_index v = ok_or BadFrame (one_spelling v)"

definition is_hex_digit :: "char \<Rightarrow> bool" where
  "is_hex_digit c \<longleftrightarrow> hex_value c \<noteq> None"

definition nonce_from :: "string \<Rightarrow> air_error + string" where
  "nonce_from v =
     (if length v \<noteq> 64 \<or> \<not> list_all is_hex_digit v then Inl (BadNumber ''nonce'')
      else Inr (to_ascii_lowercase v))"

section \<open>Intents\<close>

definition intent_check :: "intent \<Rightarrow> network_id \<Rightarrow> u64 \<Rightarrow> air_error + unit" where
  "intent_check i wallet now =
     (if it_network i \<noteq> wallet then Inl (AirWrongNetwork (it_network i) wallet)
      else if it_expires i < now then Inl (AirExpired (it_expires i) now)
      else Inr ())"

definition intent_text :: "('p, 's) crypto \<Rightarrow> intent \<Rightarrow> string" where
  "intent_text C i =
     AIR_SCHEME @ '':intent:'' @ dec_string AIR_VERSION
     @ ''|network='' @ network_as_str (it_network i)
     @ ''|to='' @ address_encode C (it_to i)
     @ ''|amount='' @ dec_string (unat (it_amount i))
     @ ''|fee='' @ dec_string (unat (it_fee i))
     @ ''|tip='' @ dec_string (unat (it_tip i))
     @ ''|nonce='' @ it_nonce i
     @ ''|expires='' @ dec_string (unat (it_expires i))"

definition intent_keys :: "string list" where
  "intent_keys = [''network'', ''to'', ''amount'', ''fee'', ''tip'', ''nonce'', ''expires'']"

definition field_number :: "(string, string) omap \<Rightarrow> string \<Rightarrow> air_error + u64" where
  "field_number m key = res_bind (take_field m key) (\<lambda>v. air_number v key)"

definition intent_of_fields ::
  "('p, 's) crypto \<Rightarrow> (string, string) omap \<Rightarrow> air_error + intent" where
  "intent_of_fields C m =
     res_bind (res_bind (take_field m ''network'') network_from) (\<lambda>n.
     res_bind (res_bind (take_field m ''to'')
       (\<lambda>v. map_err (\<lambda>_. BadAirAddress) (address_decode C v))) (\<lambda>to.
     res_bind (field_number m ''amount'') (\<lambda>amount.
     res_bind (field_number m ''fee'') (\<lambda>fee.
     res_bind (field_number m ''tip'') (\<lambda>tip.
     res_bind (res_bind (take_field m ''nonce'') nonce_from) (\<lambda>nonce.
     res_bind (field_number m ''expires'') (\<lambda>expires.
       Inr \<lparr>it_network = n, it_to = to, it_amount = amount, it_fee = fee, it_tip = tip,
            it_nonce = nonce, it_expires = expires\<rparr>)))))))"

definition intent_parse :: "('p, 's) crypto \<Rightarrow> string \<Rightarrow> air_error + intent" where
  "intent_parse C text =
     res_bind (split_package text ''intent'') (\<lambda>m.
     res_bind (intent_of_fields C m) (\<lambda>i.
     res_bind (ensure AirAmountTooLarge
       (\<not> (MAX_SUPPLY_DARKS < it_amount i \<or> MAX_SUPPLY_DARKS < it_fee i))) (\<lambda>_.
     res_bind (refuse_unknown m intent_keys) (\<lambda>_. Inr i))))"

section \<open>Signed packages and the nonce log\<close>

definition signed_text :: "signed_package \<Rightarrow> string" where
  "signed_text s =
     AIR_SCHEME @ '':signed:'' @ dec_string AIR_VERSION
     @ ''|network='' @ network_as_str (sg_network s)
     @ ''|nonce='' @ sg_nonce s
     @ ''|tx='' @ hex_encode (sg_payload s)"

definition signed_parse :: "string \<Rightarrow> air_error + signed_package" where
  "signed_parse text =
     res_bind (split_package text ''signed'') (\<lambda>m.
     res_bind (take_field m ''tx'') (\<lambda>tx.
     res_bind (ok_or BadFrame (hex_decode tx)) (\<lambda>payload.
     if payload = [] then Inl PayloadEmpty
     else if MAX_PAYLOAD < length payload then Inl (PayloadTooLarge (length payload))
     else
       res_bind (refuse_unknown m [''network'', ''nonce'', ''tx'']) (\<lambda>_.
       res_bind (res_bind (take_field m ''network'') network_from) (\<lambda>n.
       res_bind (res_bind (take_field m ''nonce'') nonce_from) (\<lambda>nonce.
         Inr \<lparr>sg_network = n, sg_nonce = nonce, sg_payload = payload\<rparr>))))))"

type_synonym nonce_log = "string list"

definition remember :: "string \<Rightarrow> nonce_log \<Rightarrow> nonce_log \<times> bool" where
  "remember nonce seen =
     (if nonce \<in> set seen then (seen, False)
      else ((if NONCE_MEMORY \<le> length seen then tl seen else seen) @ [nonce], True))"

definition signed_accept ::
  "signed_package \<Rightarrow> intent \<Rightarrow> network_id \<Rightarrow> nonce_log \<Rightarrow> nonce_log \<times> (air_error + unit)" where
  "signed_accept s i wallet seen =
     (if sg_network s \<noteq> wallet then (seen, Inl (AirWrongNetwork (sg_network s) wallet))
      else if sg_nonce s \<noteq> it_nonce i then (seen, Inl NonceMismatch)
      else (case remember (sg_nonce s) seen of
              (seen', fresh) \<Rightarrow> (seen', if fresh then Inr () else Inl ReplayedNonce)))"

section \<open>Frames\<close>

definition digest_of :: "('p, 's) crypto \<Rightarrow> bytes \<Rightarrow> string" where
  "digest_of C payload = hex_encode (take 6 (hash_multi C (str_bytes ''nightfall:air:v1'') [payload]))"

text \<open>\<open>slice::chunks\<close>.\<close>

function chunks :: "nat \<Rightarrow> 'a list \<Rightarrow> 'a list list" where
  "chunks n xs = (if xs = [] \<or> n = 0 then [] else take n xs # chunks n (drop n xs))"
  by pat_completeness auto
termination by (relation "measure (length \<circ> snd)") auto

declare chunks.simps [simp del]

definition frame_text :: "string \<Rightarrow> nat \<Rightarrow> nat \<Rightarrow> bytes \<Rightarrow> string" where
  "frame_text digest n seq chunk =
     AIR_SCHEME @ '':frame:'' @ dec_string AIR_VERSION @ ''|'' @ digest @ ''|'' @ dec_string seq
     @ ''|'' @ dec_string n @ ''|'' @ hex_encode chunk"

definition frames :: "('p, 's) crypto \<Rightarrow> bytes \<Rightarrow> air_error + string list" where
  "frames C payload =
     (if payload = [] then Inl PayloadEmpty
      else if MAX_PAYLOAD < length payload then Inl (PayloadTooLarge (length payload))
      else
        (let cs = chunks MAX_FRAME_PAYLOAD payload; n = length cs in
         if MAX_FRAMES < n then Inl (TooManyFrames n)
         else Inr (map (\<lambda>(k, c). frame_text (digest_of C payload) n (k + 1) c)
                    (enumerate 0 cs))))"

record reassembler =
  ra_digest :: "string option"
  ra_total :: nat
  ra_parts :: "(nat, bytes) omap"

definition reassembler_new :: reassembler where
  "reassembler_new = \<lparr>ra_digest = None, ra_total = 0, ra_parts = []\<rparr>"

text \<open>What a frame says: digest, number, total, body.\<close>

definition frame_fields :: "string list \<Rightarrow> air_error + (string \<times> nat \<times> nat \<times> bytes)" where
  "frame_fields parts =
     (case parts of
        digest # seq # rest \<Rightarrow>
          res_bind (parse_index seq) (\<lambda>seq.
          (case rest of
             [] \<Rightarrow> Inl BadFrame
           | n # rest \<Rightarrow>
               res_bind (parse_index n) (\<lambda>n.
               (case rest of
                  [] \<Rightarrow> Inl BadFrame
                | body # extra \<Rightarrow>
                    res_bind (ok_or BadFrame (hex_decode body)) (\<lambda>body.
                    if extra \<noteq> [] \<or> body = [] \<or> MAX_FRAME_PAYLOAD < length body then Inl BadFrame
                    else if n = 0 \<or> MAX_FRAMES < n \<or> seq = 0 \<or> n < seq then Inl BadFrame
                    else Inr (digest, seq, n, body))))))
      | _ \<Rightarrow> Inl BadFrame)"

definition read_frame :: "string \<Rightarrow> air_error + (string \<times> nat \<times> nat \<times> bytes)" where
  "read_frame frame =
     (if MAX_FRAME_LEN < length frame then Inl BadFrame
      else
        res_bind (ok_or NotAnAirPackage (strip_prefix (AIR_SCHEME @ '':frame:'') (trim frame))) (\<lambda>rest.
        (case split_all (CHR ''|'') rest of
           [] \<Rightarrow> Inl BadFrame
         | version # parts \<Rightarrow>
             res_bind (ok_or BadFrame (parse_unsigned 32 version)) (\<lambda>version.
             if version \<noteq> AIR_VERSION then Inl (UnknownVersion version) else frame_fields parts))))"

definition ra_insert :: "nat \<Rightarrow> bytes \<Rightarrow> reassembler \<Rightarrow> reassembler" where
  "ra_insert seq body r =
     r\<lparr>ra_parts := (if map_of (ra_parts r) seq = None then om_insert seq body (ra_parts r)
                    else ra_parts r)\<rparr>"

definition ra_accept :: "string \<Rightarrow> reassembler \<Rightarrow> reassembler \<times> (air_error + unit)" where
  "ra_accept frame r =
     (case read_frame frame of
        Inl e \<Rightarrow> (r, Inl e)
      | Inr (digest, seq, n, body) \<Rightarrow>
          (case ra_digest r of
             None \<Rightarrow> (ra_insert seq body (r\<lparr>ra_digest := Some digest, ra_total := n\<rparr>), Inr ())
           | Some known \<Rightarrow>
               if known \<noteq> digest \<or> ra_total r \<noteq> n then (r, Inl FrameFromAnotherTransfer)
               else (ra_insert seq body r, Inr ())))"

definition ra_missing :: "reassembler \<Rightarrow> nat list" where
  "ra_missing r = filter (\<lambda>seq. map_of (ra_parts r) seq = None) [1..<ra_total r + 1]"

definition ra_complete :: "reassembler \<Rightarrow> bool" where
  "ra_complete r \<longleftrightarrow> 0 < ra_total r \<and> length (ra_parts r) = ra_total r"

definition ra_finish :: "('p, 's) crypto \<Rightarrow> reassembler \<Rightarrow> air_error + bytes" where
  "ra_finish C r =
     (if \<not> ra_complete r then Inl (IncompleteTransfer (length (ra_parts r)) (ra_total r))
      else
        (let payload = concat (map snd (ra_parts r)) in
         if Some (digest_of C payload) \<noteq> ra_digest r then Inl DigestMismatch else Inr payload))"

end
