(* ===== verification/Air_Facts.thy ===== *)
theory Air_Facts
  imports Air
begin

text \<open>
  What crosses the gap arrives whole or not at all: frames read back as they were written, a
  reassembler that has seen every frame of a transfer, in any order and with repeats, gives
  back the payload, and whatever it is fed it never gives back anything whose digest is not
  the one it was promised.  Packages are read back as they were written, and a nonce is
  accepted once.
\<close>

section \<open>Chunks\<close>

lemma concat_chunks: "0 < n \<Longrightarrow> concat (chunks n xs) = xs"
proof (induction n xs rule: chunks.induct)
  case (1 n xs)
  then show ?case by (subst chunks.simps) auto
qed

lemma chunk_bounds: "c \<in> set (chunks n xs) \<Longrightarrow> c \<noteq> [] \<and> length c \<le> n"
proof (induction n xs rule: chunks.induct)
  case (1 n xs)
  show ?case
  proof (cases "xs = [] \<or> n = 0")
    case False
    then show ?thesis using 1 by (subst (asm) (2) chunks.simps) auto
  qed (use 1(2) in \<open>subst (asm) chunks.simps, auto\<close>)
qed

lemma length_chunks: "length xs \<le> n * k \<Longrightarrow> length (chunks n xs) \<le> k"
proof (induction n xs arbitrary: k rule: chunks.induct)
  case (1 n xs)
  show ?case
  proof (cases "xs = [] \<or> n = 0")
    case False
    then obtain j where k: "k = Suc j" using 1(2) by (cases k) auto
    then have "length (chunks n (drop n xs)) \<le> j" using 1(1) [OF False, of j] 1(2) by simp
    then show ?thesis using k by (subst chunks.simps) simp
  qed (subst chunks.simps, simp)
qed

lemma chunks_nonempty: "xs \<noteq> [] \<Longrightarrow> 0 < n \<Longrightarrow> chunks n xs \<noteq> []"
  by (subst chunks.simps) simp

section \<open>Plain text\<close>

definition plain :: "string \<Rightarrow> bool" where
  "plain s \<longleftrightarrow> (\<forall>c \<in> set s. unreserved c)"

lemma plain_append [simp]: "plain (a @ b) \<longleftrightarrow> plain a \<and> plain b"
  by (auto simp: plain_def)

lemma plain_dec [simp]: "plain (dec_string n)"
  by (auto simp: plain_def dest: digits_plain)

lemma plain_network [simp]: "plain (network_as_str n)"
  by (auto simp: plain_def dest: network_plain)

lemma hex_plain: "c \<in> set (hex_encode bs) \<Longrightarrow> unreserved c"
proof -
  have "list_all unreserved ''0123456789abcdef''" by code_simp
  then show "c \<in> set (hex_encode bs) \<Longrightarrow> unreserved c"
    using hex_encode_chars by (fastforce simp: list_all_iff)
qed

lemma plain_hex [simp]: "plain (hex_encode bs)"
  by (auto simp: plain_def dest: hex_plain)

lemma plain_address [simp]: "plain (address_encode C a)"
proof -
  have "plain ''nf1''" by (simp add: plain_def unreserved_def is_ascii_alphanumeric_def
      is_digit_def is_ascii_lower_def)
  then show ?thesis using plain_append [of "''nf1''"]
    by (simp only: address_encode_def Let_def plain_append plain_hex simp_thms)
qed

lemma plain_bar: "plain s \<Longrightarrow> CHR ''|'' \<notin> set s"
  by (auto simp: plain_def unreserved_def is_ascii_alphanumeric_def is_digit_def is_ascii_lower_def
      is_ascii_upper_def)

lemma plain_visible: "plain s \<Longrightarrow> visible s"
  by (simp add: plain_def visible_plain)

lemma visible_Cons: "visible (c # s) \<longleftrightarrow> 32 < (of_char c :: nat) \<and> (of_char c :: nat) < 128 \<and> visible s"
  by (simp add: visible_def)

lemma one_spelling_string: "n < 2 ^ 64 \<Longrightarrow> one_spelling (dec_string n) = Some n"
proof -
  assume n: "n < 2 ^ 64"
  have "\<not> (1 < length (dec_string n) \<and> hd (dec_string n) = CHR ''0'')"
  proof (cases "n = 0")
    case True
    then show ?thesis by (subst dec_string.simps) simp
  qed (use dec_string_lead [of n] in simp)
  then show ?thesis
    using n parse_unsigned_string [of n 64] all_digits_dec dec_string_nonempty
    by (simp add: one_spelling_def)
qed

lemma split_bar: "plain a \<Longrightarrow> split_all (CHR ''|'') (a @ CHR ''|'' # b) = a # split_all (CHR ''|'') b"
  by (simp add: split_all_sep plain_bar)

section \<open>One frame\<close>

lemma frame_text_form:
  "frame_text d n k c = (AIR_SCHEME @ '':frame:'') @ dec_string 1 @ CHR ''|'' # d @ CHR ''|''
     # dec_string k @ CHR ''|'' # dec_string n @ CHR ''|'' # hex_encode c"
  by (simp add: frame_text_def AIR_VERSION_def)

lemma read_frame_text:
  assumes d: "plain d" "length d \<le> 12"
    and k: "0 < k" "k \<le> n" "n \<le> MAX_FRAMES"
    and c: "c \<noteq> []" "length c \<le> MAX_FRAME_PAYLOAD"
  shows "read_frame (frame_text d n k c) = Inr (d, k, n, c)"
proof -
  define rest where "rest = dec_string 1 @ CHR ''|'' # d @ CHR ''|'' # dec_string k @ CHR ''|'' # dec_string n
    @ CHR ''|'' # hex_encode c"
  have small: "n < 2 ^ 64" "k < 2 ^ 64" using k by (simp_all add: params)
  have len: "length (dec_string m) \<le> 2" if "m \<le> 64" for m
    by (rule length_dec_string) (use that in simp_all)
  have "length (dec_string 1) = 1" by (subst dec_string.simps) simp
  then have len_ok: "length (frame_text d n k c) \<le> MAX_FRAME_LEN"
    using d(2) len [of n] len [of k] k c(2)
    by (simp add: frame_text_form length_hex_encode AIR_SCHEME_def params)
  have "visible AIR_SCHEME" by (simp add: visible_def AIR_SCHEME_def)
  then have "visible (frame_text d n k c)"
    by (simp add: frame_text_form visible_Cons plain_visible d(1))
  then have "trim (frame_text d n k c) = frame_text d n k c" by (rule visible_trim)
  then have strip: "strip_prefix (AIR_SCHEME @ '':frame:'') (trim (frame_text d n k c)) = Some rest"
    by (simp only: frame_text_form rest_def strip_prefix_append)
  have "split_all (CHR ''|'') (hex_encode c) = [hex_encode c]"
    by (rule split_all_part) (simp add: plain_bar)
  then have parts: "split_all (CHR ''|'') rest
      = [dec_string 1, d, dec_string k, dec_string n, hex_encode c]"
    by (simp add: rest_def split_bar d(1))
  have "parse_unsigned 32 (dec_string 1) = Some AIR_VERSION"
    using parse_unsigned_string [of 1 32] by (simp add: AIR_VERSION_def)
  moreover have "frame_fields [d, dec_string k, dec_string n, hex_encode c] = Inr (d, k, n, c)"
    using k c small
    by (simp add: frame_fields_def parse_index_def one_spelling_string hex_decode_encode not_less ok_or_def)
  ultimately show ?thesis using len_ok by (simp add: read_frame_def strip parts ok_or_def)
qed

section \<open>The reassembler\<close>

text \<open>What every reassembler satisfies, whatever it was fed.\<close>

definition ra_ok :: "reassembler \<Rightarrow> bool" where
  "ra_ok r \<longleftrightarrow> om_ok (ra_parts r) \<and> fst ` set (ra_parts r) \<subseteq> {1..ra_total r} \<and> ra_total r \<le> MAX_FRAMES
     \<and> (\<forall>c \<in> snd ` set (ra_parts r). c \<noteq> [] \<and> length c \<le> MAX_FRAME_PAYLOAD)
     \<and> (ra_digest r = None \<longrightarrow> ra_total r = 0)"

lemma ra_new_ok: "ra_ok reassembler_new"
  by (simp add: ra_ok_def reassembler_new_def)

lemma frame_fields_bounds:
  assumes "frame_fields ps = Inr (d, k, n, c)"
  shows "0 < k \<and> k \<le> n \<and> n \<le> MAX_FRAMES \<and> c \<noteq> [] \<and> length c \<le> MAX_FRAME_PAYLOAD"
  using assms
  by (cases ps; cases "tl ps"; cases "tl (tl ps)"; cases "tl (tl (tl ps))")
     (auto simp: frame_fields_def res_simps not_less split: if_splits)

lemma read_frame_bounds:
  assumes "read_frame f = Inr (d, k, n, c)"
  shows "0 < k \<and> k \<le> n \<and> n \<le> MAX_FRAMES \<and> c \<noteq> [] \<and> length c \<le> MAX_FRAME_PAYLOAD"
proof -
  obtain rest where "(case split_all (CHR ''|'') rest of [] \<Rightarrow> Inl BadFrame
         | version # parts \<Rightarrow>
             res_bind (ok_or BadFrame (parse_unsigned 32 version)) (\<lambda>version.
             if version \<noteq> AIR_VERSION then Inl (UnknownVersion version) else frame_fields parts))
        = Inr (d, k, n, c)"
    using assms by (auto simp: read_frame_def res_simps split: if_splits)
  then obtain ps where "frame_fields ps = Inr (d, k, n, c)"
    by (auto simp: res_simps split: list.splits if_splits)
  then show ?thesis by (rule frame_fields_bounds)
qed

lemma ra_insert_ok:
  assumes "ra_ok r" "0 < k" "k \<le> ra_total r" "c \<noteq> []" "length c \<le> MAX_FRAME_PAYLOAD"
  shows "ra_ok (ra_insert k c r)"
proof -
  have "om_ok (ra_parts r)" using assms(1) by (simp add: ra_ok_def)
  then show ?thesis
    using assms by (auto simp: ra_ok_def ra_insert_def set_om_insert)
qed

lemma ra_accept_ok: "ra_ok r \<Longrightarrow> ra_ok (fst (ra_accept f r))"
proof -
  assume r: "ra_ok r"
  show ?thesis
  proof (cases "read_frame f")
    case (Inr q)
    obtain d k n c where q: "q = (d, k, n, c)" by (metis prod.exhaust)
    note b = read_frame_bounds [OF Inr [unfolded q]]
    show ?thesis
    proof (cases "ra_digest r")
      case None
      then have "ra_ok (r\<lparr>ra_digest := Some d, ra_total := n\<rparr>)"
        using r b by (auto simp: ra_ok_def)
      then show ?thesis using b None Inr q by (auto simp: ra_accept_def intro: ra_insert_ok)
    next
      case (Some known)
      then show ?thesis using r b Inr q by (auto simp: ra_accept_def intro!: ra_insert_ok)
    qed
  qed (simp add: ra_accept_def r)
qed

definition ra_run :: "string list \<Rightarrow> reassembler" where
  "ra_run qs = fold (\<lambda>f r. fst (ra_accept f r)) qs reassembler_new"

lemma ra_run_ok: "ra_ok (ra_run qs)"
  unfolding ra_run_def
  by (rule fold_invariant [where Q = "\<lambda>_. True"]) (simp_all add: ra_new_ok ra_accept_ok)

lemma ra_complete_iff:
  assumes "ra_ok r"
  shows "ra_complete r \<longleftrightarrow> 0 < ra_total r \<and> ra_missing r = []"
proof -
  let ?K = "fst ` set (ra_parts r)"
  have ok: "om_ok (ra_parts r)" and sub: "?K \<subseteq> {1..ra_total r}"
    using assms by (simp_all add: ra_ok_def)
  have "length (ra_parts r) = card ?K"
    using length_om [OF ok] by (simp add: dom_map_of_conv_image_fst)
  moreover have "card ?K = ra_total r \<longleftrightarrow> ?K = {1..ra_total r}"
  proof
    assume "card ?K = ra_total r"
    then show "?K = {1..ra_total r}"
      using card_subset_eq [OF finite_atLeastAtMost sub] by simp
  qed simp
  moreover have "ra_missing r = [] \<longleftrightarrow> {1..ra_total r} \<subseteq> ?K"
    by (auto simp: ra_missing_def filter_empty_conv map_of_eq_None_iff)
  ultimately show ?thesis using sub by (metis ra_complete_def subset_antisym order_refl)
qed

lemma length_concat_le: "\<forall>c \<in> set cs. length c \<le> n \<Longrightarrow> length (concat cs) \<le> length cs * n"
  by (induction cs) auto

text \<open>Whatever was scanned, what comes out has the digest of the transfer and fits a payload.\<close>

lemma ra_finish_sound:
  assumes "ra_finish C (ra_run qs) = Inr p"
  shows "ra_digest (ra_run qs) = Some (digest_of C p) \<and> ra_missing (ra_run qs) = []
    \<and> p \<noteq> [] \<and> length p \<le> MAX_PAYLOAD"
proof -
  let ?r = "ra_run qs"
  have ok: "ra_ok ?r" by (rule ra_run_ok)
  have c: "ra_complete ?r" and p: "p = concat (map snd (ra_parts ?r))"
    and d: "ra_digest ?r = Some (digest_of C p)"
    using assms by (auto simp: ra_finish_def Let_def split: if_splits)
  have parts: "\<forall>x \<in> set (map snd (ra_parts ?r)). x \<noteq> [] \<and> length x \<le> MAX_FRAME_PAYLOAD"
    using ok by (auto simp: ra_ok_def)
  have n: "length (ra_parts ?r) \<le> MAX_FRAMES" "ra_parts ?r \<noteq> []"
    using c ok by (auto simp: ra_complete_def ra_ok_def)
  have "length p \<le> length (ra_parts ?r) * MAX_FRAME_PAYLOAD"
    using length_concat_le [of "map snd (ra_parts ?r)" MAX_FRAME_PAYLOAD] parts by (simp add: p)
  also have "\<dots> \<le> MAX_PAYLOAD" using n(1) by (simp add: params)
  finally have "length p \<le> MAX_PAYLOAD" .
  moreover have "p \<noteq> []" using parts n(2) by (cases "ra_parts ?r") (auto simp: p)
  ultimately show ?thesis using c d ra_complete_iff [OF ok] by blast
qed

section \<open>A transfer\<close>

text \<open>The reassembler holds exactly the numbered pieces \<open>K\<close> of \<open>cs\<close>.\<close>

definition ra_holds :: "string \<Rightarrow> bytes list \<Rightarrow> nat set \<Rightarrow> reassembler \<Rightarrow> bool" where
  "ra_holds d cs K r \<longleftrightarrow>
     om_ok (ra_parts r) \<and> map_of (ra_parts r) = (\<lambda>k. if k \<in> K then Some (cs ! (k - 1)) else None)
     \<and> ra_digest r = (if K = {} then None else Some d) \<and> ra_total r = (if K = {} then 0 else length cs)"

definition piece :: "string \<Rightarrow> bytes list \<Rightarrow> nat \<Rightarrow> string" where
  "piece d cs k = frame_text d (length cs) k (cs ! (k - 1))"

definition pieces_ok :: "string \<Rightarrow> bytes list \<Rightarrow> bool" where
  "pieces_ok d cs \<longleftrightarrow> plain d \<and> length d \<le> 12 \<and> length cs \<le> MAX_FRAMES
     \<and> (\<forall>c \<in> set cs. c \<noteq> [] \<and> length c \<le> MAX_FRAME_PAYLOAD)"

lemma read_piece:
  assumes "pieces_ok d cs" "k \<in> {1..length cs}"
  shows "read_frame (piece d cs k) = Inr (d, k, length cs, cs ! (k - 1))"
proof -
  have "cs ! (k - 1) \<in> set cs" using assms(2) by (auto intro!: nth_mem)
  then show ?thesis
    using assms unfolding piece_def pieces_ok_def by (intro read_frame_text) auto
qed

lemma holds_accept:
  assumes ok: "pieces_ok d cs" and k: "k \<in> {1..length cs}" and h: "ra_holds d cs K r"
  shows "snd (ra_accept (piece d cs k) r) = Inr ()
    \<and> ra_holds d cs (insert k K) (fst (ra_accept (piece d cs k) r))"
proof -
  have om: "om_ok (ra_parts r)"
    and parts: "map_of (ra_parts r) = (\<lambda>k. if k \<in> K then Some (cs ! (k - 1)) else None)"
    using h by (simp_all add: ra_holds_def)
  have ins: "map_of (ra_parts (ra_insert k (cs ! (k - 1)) r'))
      = (\<lambda>j. if j \<in> insert k K then Some (cs ! (j - 1)) else None)"
    if "ra_parts r' = ra_parts r" for r' :: reassembler
    using that om parts by (auto simp: ra_insert_def map_of_om_insert fun_eq_iff)
  have dig: "ra_digest r = (if K = {} then None else Some d)"
    "ra_total r = (if K = {} then 0 else length cs)"
    using h by (simp_all add: ra_holds_def)
  show ?thesis
  proof (cases "K = {}")
    case True
    then show ?thesis using om dig ins [of "r\<lparr>ra_digest := Some d, ra_total := length cs\<rparr>"]
      by (simp add: ra_accept_def read_piece [OF ok k] ra_holds_def) (simp add: ra_insert_def)
  next
    case False
    then show ?thesis using om dig ins [of r]
      by (simp add: ra_accept_def read_piece [OF ok k] ra_holds_def) (simp add: ra_insert_def)
  qed
qed

lemma holds_run:
  assumes "pieces_ok d cs" "set ks \<subseteq> {1..length cs}"
  shows "ra_holds d cs (set ks) (ra_run (map (piece d cs) ks))"
  using assms(2)
proof (induction ks rule: rev_induct)
  case Nil
  then show ?case by (simp add: ra_run_def ra_holds_def reassembler_new_def fun_eq_iff)
next
  case (snoc k ks)
  then have "ra_holds d cs (insert k (set ks)) (fst (ra_accept (piece d cs k) (ra_run (map (piece d cs) ks))))"
    using holds_accept [OF assms(1)] by auto
  then show ?case by (simp add: ra_run_def)
qed

lemma holds_complete:
  assumes h: "ra_holds d cs {1..length cs} r"
  shows "map snd (ra_parts r) = cs"
proof -
  have len: "map fst (zip [1..<length cs + 1] cs) = [1..<length cs + 1]" by simp
  have ok: "om_ok (zip [1..<length cs + 1] cs)" unfolding om_ok_def len by (rule sorted_wrt_upt)
  have "map_of (zip [1..<length cs + 1] cs) k = (if k \<in> {1..length cs} then Some (cs ! (k - 1)) else None)" for k
  proof (cases "k \<in> {1..length cs}")
    case True
    then have "map_of (zip [1..<length cs + 1] cs) ([1..<length cs + 1] ! (k - 1)) = Some (cs ! (k - 1))"
      by (intro map_of_zip_nth) auto
    then show ?thesis using True by (simp del: upt_Suc)
  next
    case False
    then show ?thesis by (auto simp: map_of_eq_None_iff dest: set_zip_leftD)
  qed
  then have "ra_parts r = zip [1..<length cs + 1] cs"
    using h ok by (intro om_ext) (auto simp: ra_holds_def)
  then show ?thesis by (simp del: upt_Suc)
qed

lemma digest_plain: "plain (digest_of C p) \<and> length (digest_of C p) \<le> 12"
  by (simp add: digest_of_def length_hex_encode)

lemma frames_pieces:
  assumes "frames C p = Inr fs"
  obtains cs where "pieces_ok (digest_of C p) cs" "concat cs = p" "cs \<noteq> []"
    "fs = map (piece (digest_of C p) cs) [1..<length cs + 1]"
proof
  let ?cs = "chunks MAX_FRAME_PAYLOAD p"
  have p: "p \<noteq> []" "length p \<le> MAX_PAYLOAD" "length ?cs \<le> MAX_FRAMES"
    and fs: "fs = map (\<lambda>(k, c). frame_text (digest_of C p) (length ?cs) (k + 1) c) (enumerate 0 ?cs)"
    using assms by (auto simp: frames_def Let_def split: if_splits)
  show "pieces_ok (digest_of C p) ?cs"
    using digest_plain p(3) by (simp add: pieces_ok_def chunk_bounds)
  show "concat ?cs = p" by (rule concat_chunks) (simp add: params)
  show "?cs \<noteq> []" by (rule chunks_nonempty [OF p(1)]) (simp add: params)
  show "fs = map (piece (digest_of C p) ?cs) [1..<length ?cs + 1]"
    unfolding fs by (rule nth_equalityI) (simp_all add: piece_def nth_enumerate_eq del: upt_Suc)
qed

text \<open>A payload within the limit always has frames.\<close>

lemma frames_total: "p \<noteq> [] \<Longrightarrow> length p \<le> MAX_PAYLOAD \<Longrightarrow> \<exists>fs. frames C p = Inr fs"
  using length_chunks [of p MAX_FRAME_PAYLOAD MAX_FRAMES] by (simp add: frames_def Let_def params)

lemma piece_inject:
  assumes "pieces_ok d cs" "j \<in> {1..length cs}" "k \<in> {1..length cs}" "piece d cs j = piece d cs k"
  shows "j = k"
proof -
  have "read_frame (piece d cs j) = Inr (d, k, length cs, cs ! (k - 1))"
    unfolding assms(4) by (rule read_piece [OF assms(1,3)])
  then show ?thesis unfolding read_piece [OF assms(1,2)] by simp
qed

lemma transfer:
  assumes fs: "frames C p = Inr fs" and qs: "set qs \<subseteq> set fs"
  shows "ra_finish C (ra_run qs)
    = (if set qs = set fs then Inr p
       else Inl (IncompleteTransfer (card (set qs)) (if qs = [] then 0 else length fs)))"
proof -
  let ?d = "digest_of C p"
  obtain cs where ok: "pieces_ok ?d cs" and p: "concat cs = p" and ne: "cs \<noteq> []"
    and f: "fs = map (piece ?d cs) [1..<length cs + 1]"
    by (rule frames_pieces [OF fs])
  have fset: "set fs = piece ?d cs ` {1..length cs}" by (auto simp: f simp del: upt_Suc)
  have inj: "inj_on (piece ?d cs) {1..length cs}" by (rule inj_onI) (rule piece_inject [OF ok])
  have "\<exists>ks. qs = map (piece ?d cs) ks \<and> set ks \<subseteq> {1..length cs}"
    using qs
  proof (induction qs)
    case (Cons q qs)
    then obtain k ks where "q = piece ?d cs k" "k \<in> {1..length cs}" "qs = map (piece ?d cs) ks"
      "set ks \<subseteq> {1..length cs}" by (auto simp: fset)
    then show ?case by (intro exI [of _ "k # ks"]) simp
  qed simp
  then obtain ks where ks: "qs = map (piece ?d cs) ks" "set ks \<subseteq> {1..length cs}" by blast
  have h: "ra_holds ?d cs (set ks) (ra_run qs)" unfolding ks(1) by (rule holds_run [OF ok ks(2)])
  have card: "card (set qs) = card (set ks)"
    using card_image [OF inj_on_subset [OF inj ks(2)]] by (simp add: ks(1))
  have whole: "set qs = set fs \<longleftrightarrow> set ks = {1..length cs}"
    using inj_on_image_eq_iff [OF inj ks(2) order_refl] by (simp add: ks(1) fset)
  have len: "length (ra_parts (ra_run qs)) = card (set ks)"
    using h length_om [of "ra_parts (ra_run qs)"] by (simp add: ra_holds_def dom_def)
  have tot: "ra_total (ra_run qs) = (if qs = [] then 0 else length cs)"
    using h by (simp add: ra_holds_def ks(1))
  have cK: "card (set ks) = length cs \<longleftrightarrow> set ks = {1..length cs}"
    using card_subset_eq [OF _ ks(2)] by auto
  show ?thesis
  proof (cases "set ks = {1..length cs}")
    case True
    have "1 \<le> length cs" using ne by (cases cs) simp_all
    then have "qs \<noteq> []" using True by (auto simp: ks(1))
    moreover have "map snd (ra_parts (ra_run qs)) = cs"
      by (rule holds_complete) (use h True in simp)
    moreover have "ra_digest (ra_run qs) = Some ?d"
      using h True \<open>1 \<le> length cs\<close> by (simp add: ra_holds_def)
    ultimately show ?thesis
      using True len tot ne p whole by (simp add: ra_finish_def ra_complete_def)
  next
    case False
    then have "\<not> ra_complete (ra_run qs)" using len tot cK by (auto simp: ra_complete_def)
    moreover have "length fs = length cs" by (simp add: f del: upt_Suc)
    ultimately show ?thesis using False len tot whole card by (simp add: ra_finish_def)
  qed
qed

section \<open>Nonces\<close>

definition log_ok :: "nonce_log \<Rightarrow> bool" where
  "log_ok seen \<longleftrightarrow> distinct seen \<and> length seen \<le> NONCE_MEMORY"

lemma remember_ok: "log_ok seen \<Longrightarrow> log_ok (fst (remember n seen))"
  by (cases seen) (auto simp: log_ok_def remember_def params)

text \<open>A nonce stays in the log while fewer than \<open>NONCE_MEMORY\<close> others come after it.\<close>

lemma remembered_stays:
  "seen = a @ n # b \<Longrightarrow> length b + length ns < NONCE_MEMORY
     \<Longrightarrow> n \<in> set (fold (\<lambda>m s. fst (remember m s)) ns seen)"
proof (induction ns arbitrary: seen a b)
  case (Cons m ns)
  show ?case
  proof (cases "m \<in> set seen")
    case True
    then show ?thesis using Cons.IH [OF Cons.prems(1)] Cons.prems(2) by (simp add: remember_def)
  next
    case False
    have "\<exists>a'. fst (remember m seen) = a' @ n # (b @ [m])"
    proof (cases "NONCE_MEMORY \<le> length seen")
      case True
      then have "a \<noteq> []" using Cons.prems by auto
      then show ?thesis using True False Cons.prems(1)
        by (intro exI [of _ "tl a"]) (simp add: remember_def)
    qed (use False Cons.prems(1) in \<open>simp add: remember_def\<close>)
    then obtain a' where "fst (remember m seen) = a' @ n # (b @ [m])" by blast
    then show ?thesis using Cons.IH Cons.prems(2) by simp
  qed
qed simp

lemma signed_accept_once:
  assumes "signed_accept s i w seen = (seen', Inr ())" "length ns < NONCE_MEMORY"
  shows "snd (signed_accept s i w (fold (\<lambda>m l. fst (remember m l)) ns seen')) = Inl ReplayedNonce"
proof -
  have s: "sg_network s = w" "sg_nonce s = it_nonce i" "\<exists>a. seen' = a @ [sg_nonce s]"
    using assms(1) by (auto simp: signed_accept_def remember_def split: if_splits)
  then have "sg_nonce s \<in> set (fold (\<lambda>m l. fst (remember m l)) ns seen')"
    using remembered_stays [of seen' _ "sg_nonce s" "[]" ns] assms(2) by auto
  then show ?thesis using s by (simp add: signed_accept_def remember_def)
qed

text \<open>A refused package leaves the log as it was.\<close>

lemma refused_keeps_log: "signed_accept s i w seen = (seen', Inl e) \<Longrightarrow> seen' = seen"
  by (auto simp: signed_accept_def remember_def split: if_splits)

section \<open>Packages read back\<close>

definition field :: "string \<times> string \<Rightarrow> string" where
  "field kv = fst kv @ CHR ''='' # snd kv"

lemma fields_added:
  assumes "distinct (map fst kvs)" "\<forall>k \<in> fst ` set kvs. CHR ''='' \<notin> set k"
    and "om_ok m" "\<forall>k \<in> fst ` set kvs. map_of m k = None"
  shows "\<exists>m'. res_fold add_field m (map field kvs) = Inr m' \<and> om_ok m'
    \<and> map_of m' = map_of m ++ map_of kvs"
  using assms
proof (induction kvs arbitrary: m)
  case (Cons kv kvs)
  obtain k v where kv: "kv = (k, v)" by fastforce
  let ?m = "om_insert k v m"
  have one: "add_field m (field kv) = Inr ?m"
    using Cons.prems(2,4) by (simp add: kv add_field_def field_def split_once_char)
  have upd: "map_of ?m = (map_of m)(k \<mapsto> v)" by (rule map_of_om_insert [OF Cons.prems(3)])
  have "\<exists>m'. res_fold add_field ?m (map field kvs) = Inr m' \<and> om_ok m'
      \<and> map_of m' = map_of ?m ++ map_of kvs"
  proof (rule Cons.IH)
    show "\<forall>k \<in> fst ` set kvs. map_of ?m k = None"
      using Cons.prems(1,4) by (auto simp: upd kv)
  qed (use Cons.prems in auto)
  moreover have "map_of ?m ++ map_of kvs = map_of m ++ map_of (kv # kvs)"
    using Cons.prems(1) by (simp add: upd kv map_add_upd_left dom_map_of_conv_image_fst)
  ultimately show ?case using one by (simp del: map_of.simps)
qed simp

text \<open>A package of the given kind with the given fields.\<close>

definition package_text :: "string \<Rightarrow> (string \<times> string) list \<Rightarrow> string" where
  "package_text kind kvs =
     AIR_SCHEME @ '':'' @ kind @ '':'' @ dec_string AIR_VERSION @ concat (map (\<lambda>kv. CHR ''|'' # field kv) kvs)"

lemma package_read:
  assumes kind: "plain kind" and kvs: "kvs \<noteq> []"
    and fields: "\<forall>kv \<in> set kvs. plain (fst kv) \<and> plain (snd kv)" and d: "distinct (map fst kvs)"
  shows "\<exists>m. split_package (package_text kind kvs) kind = Inr m \<and> om_ok m \<and> map_of m = map_of kvs"
proof -
  have clean: "CHR '':'' \<notin> set s" "CHR ''='' \<notin> set s" if "plain s" for s
    using that by (auto simp: plain_def unreserved_def is_ascii_alphanumeric_def is_digit_def
        is_ascii_lower_def is_ascii_upper_def)
  have fv: "visible (field kv)" "CHR ''|'' \<notin> set (field kv)" if "kv \<in> set kvs" for kv
    using fields that by (auto simp: field_def visible_Cons plain_visible dest: plain_bar)
  obtain kv ps where k: "kvs = kv # ps" using kvs by (cases kvs) auto
  define body where "body = field kv @ concat (map ((#) (CHR ''|'')) (map field ps))"
  have form: "package_text kind kvs = (AIR_SCHEME @ '':'') @ kind @ CHR '':'' # dec_string AIR_VERSION @ CHR ''|'' # body"
    by (simp add: package_text_def k body_def comp_def)
  have "visible (concat (map (\<lambda>kv. CHR ''|'' # field kv) kvs))"
    using fv(1) by (auto simp: visible_def)
  then have "visible (package_text kind kvs)"
    using plain_visible [OF kind] plain_visible [OF plain_dec]
    by (simp add: package_text_def visible_Cons) (simp add: visible_def AIR_SCHEME_def)
  then have t: "trim (package_text kind kvs) = package_text kind kvs" by (rule visible_trim)
  have strip: "strip_prefix (AIR_SCHEME @ '':'') (trim (package_text kind kvs))
      = Some (kind @ CHR '':'' # dec_string AIR_VERSION @ CHR ''|'' # body)"
    by (subst t, subst form) (rule strip_prefix_append)
  have bar: "CHR ''|'' \<notin> set (dec_string AIR_VERSION)" by (rule plain_bar) simp
  have "split_all (CHR ''|'') body = map field kvs"
    unfolding body_def k list.map by (rule split_all_join) (use fv(2) k in auto)
  moreover have "filter (\<lambda>p. p \<noteq> []) (map field kvs) = map field kvs"
    by (rule filter_True) (auto simp: field_def)
  moreover have "\<exists>m. res_fold add_field [] (map field kvs) = Inr m \<and> om_ok m \<and> map_of m = map_of kvs"
    using fields_added [OF d, of "[]"] fields clean(2) by auto
  moreover have "parse_unsigned 32 (dec_string AIR_VERSION) = Some AIR_VERSION"
    by (rule parse_unsigned_string) (simp add: params)
  ultimately show ?thesis
    by (simp add: split_package_def strip ok_or_def split_once_char clean(1) [OF kind] bar)
qed

lemma taken: "map_of m k = Some v \<Longrightarrow> take_field m k = Inr v"
  by (simp add: take_field_def ok_or_def)

lemma known_only: "dom (map_of m) \<subseteq> set ks \<Longrightarrow> refuse_unknown m ks = Inr ()"
  by (auto simp: refuse_unknown_def res_simps dom_map_of_conv_image_fst)

lemma network_back: "network_from (network_as_str n) = Inr n"
  by (cases n) (simp_all add: network_from_def)

definition nonce_ok :: "string \<Rightarrow> bool" where
  "nonce_ok n \<longleftrightarrow> length n = 64 \<and> list_all is_hex_digit n \<and> to_ascii_lowercase n = n"

lemma nonce_back: "nonce_ok n \<Longrightarrow> nonce_from n = Inr n"
  by (simp add: nonce_ok_def nonce_from_def)

lemma nonce_plain: "nonce_ok n \<Longrightarrow> plain n"
  by (auto simp: nonce_ok_def list_all_iff plain_def is_hex_digit_def hex_value_def Let_def
      unreserved_def is_ascii_alphanumeric_def is_digit_def is_ascii_lower_def is_ascii_upper_def
      split: if_splits)

definition intent_ok :: "('p, 's) crypto \<Rightarrow> intent \<Rightarrow> bool" where
  "intent_ok C i \<longleftrightarrow>
     length (scan_pk (it_to i)) = 32 \<and> length (spend_pk (it_to i)) = 32
     \<and> scan_point C (it_to i) \<noteq> None \<and> spend_point C (it_to i) \<noteq> None
     \<and> it_amount i \<le> MAX_SUPPLY_DARKS \<and> it_fee i \<le> MAX_SUPPLY_DARKS \<and> nonce_ok (it_nonce i)"

definition intent_fields :: "('p, 's) crypto \<Rightarrow> intent \<Rightarrow> (string \<times> string) list" where
  "intent_fields C i =
     [(''network'', network_as_str (it_network i)), (''to'', address_encode C (it_to i)),
      (''amount'', dec_string (unat (it_amount i))), (''fee'', dec_string (unat (it_fee i))),
      (''tip'', dec_string (unat (it_tip i))), (''nonce'', it_nonce i),
      (''expires'', dec_string (unat (it_expires i)))]"

lemma key_plain: "list_all unreserved k \<Longrightarrow> plain k"
  by (simp add: plain_def list_all_iff)

lemma keys_plain: "\<forall>k \<in> set (''intent'' # ''signed'' # ''tx'' # intent_keys). plain k"
proof -
  have "list_all (list_all unreserved) (''intent'' # ''signed'' # ''tx'' # intent_keys)" by code_simp
  then show ?thesis unfolding list_all_iff plain_def .
qed

lemma number_back: "map_of m k = Some (dec_string (unat (w :: u64))) \<Longrightarrow> field_number m k = Inr w"
  using one_spelling_string [OF unat_below [of w]]
  by (simp add: field_number_def taken air_number_def ok_or_def)

lemma intent_text_fields: "intent_text C i = package_text ''intent'' (intent_fields C i)"
  by (simp add: intent_text_def package_text_def intent_fields_def field_def)

lemma intent_roundtrip:
  assumes C: "encoding_ok C" and ok: "intent_ok C i"
  shows "intent_parse C (intent_text C i) = Inr i"
proof -
  have "\<exists>m. split_package (intent_text C i) ''intent'' = Inr m \<and> om_ok m
      \<and> map_of m = map_of (intent_fields C i)"
    unfolding intent_text_fields
  proof (rule package_read)
    show "\<forall>kv \<in> set (intent_fields C i). plain (fst kv) \<and> plain (snd kv)"
      using keys_plain nonce_plain ok
      by (simp add: intent_fields_def intent_keys_def intent_ok_def)
  qed (simp_all add: keys_plain, simp_all add: intent_fields_def)
  then obtain m where m: "split_package (intent_text C i) ''intent'' = Inr m"
    and lookup: "map_of m = map_of (intent_fields C i)" by blast
  have a: "address_decode C (address_encode C (it_to i)) = Inr (it_to i)"
    using ok by (intro address_roundtrip [OF C]) (simp_all add: intent_ok_def)
  have n: "map_of m ''network'' = Some (network_as_str (it_network i))"
    "map_of m ''to'' = Some (address_encode C (it_to i))"
    "map_of m ''amount'' = Some (dec_string (unat (it_amount i)))"
    "map_of m ''fee'' = Some (dec_string (unat (it_fee i)))"
    "map_of m ''tip'' = Some (dec_string (unat (it_tip i)))"
    "map_of m ''nonce'' = Some (it_nonce i)"
    "map_of m ''expires'' = Some (dec_string (unat (it_expires i)))"
    unfolding lookup by (simp_all add: intent_fields_def)
  have "dom (map_of m) \<subseteq> set intent_keys"
    unfolding lookup dom_map_of_conv_image_fst by (simp add: intent_fields_def intent_keys_def)
  then have "refuse_unknown m intent_keys = Inr ()" by (rule known_only)
  moreover have "intent_of_fields C m = Inr i"
    using ok by (simp add: intent_of_fields_def taken n number_back network_back nonce_back a intent_ok_def)
  ultimately show ?thesis
    using ok by (simp add: intent_parse_def m intent_ok_def ensure_def not_less)
qed

definition signed_fields :: "signed_package \<Rightarrow> (string \<times> string) list" where
  "signed_fields s =
     [(''network'', network_as_str (sg_network s)), (''nonce'', sg_nonce s),
      (''tx'', hex_encode (sg_payload s))]"

lemma signed_roundtrip:
  assumes ok: "nonce_ok (sg_nonce s)" "sg_payload s \<noteq> []" "length (sg_payload s) \<le> MAX_PAYLOAD"
  shows "signed_parse (signed_text s) = Inr s"
proof -
  have t: "signed_text s = package_text ''signed'' (signed_fields s)"
    by (simp add: signed_text_def package_text_def signed_fields_def field_def)
  have "\<exists>m. split_package (signed_text s) ''signed'' = Inr m \<and> om_ok m
      \<and> map_of m = map_of (signed_fields s)"
    unfolding t
  proof (rule package_read)
    show "\<forall>kv \<in> set (signed_fields s). plain (fst kv) \<and> plain (snd kv)"
      using keys_plain nonce_plain ok by (simp add: signed_fields_def intent_keys_def)
  qed (simp_all add: keys_plain, simp_all add: signed_fields_def)
  then obtain m where m: "split_package (signed_text s) ''signed'' = Inr m"
    and lookup: "map_of m = map_of (signed_fields s)" by blast
  have n: "map_of m ''network'' = Some (network_as_str (sg_network s))"
    "map_of m ''nonce'' = Some (sg_nonce s)" "map_of m ''tx'' = Some (hex_encode (sg_payload s))"
    unfolding lookup by (simp_all add: signed_fields_def)
  have "dom (map_of m) \<subseteq> set [''network'', ''nonce'', ''tx'']"
    unfolding lookup dom_map_of_conv_image_fst by (simp add: signed_fields_def)
  then have "refuse_unknown m [''network'', ''nonce'', ''tx''] = Inr ()" by (rule known_only)
  then show ?thesis
    using ok by (simp add: signed_parse_def m taken n network_back nonce_back hex_decode_encode ok_or_def not_less)
qed

end
