(* ===== verification/Swap_Journal.thy ===== *)
theory Swap_Journal
  imports Rust_Parse
begin

text \<open>
  \<open>crates/nightfall-wallet/src/swap_journal.rs\<close>: the recovery records of swaps, one revision
  each, written by compare-and-swap.  Every admitted record has room for a payload of the
  largest size, whatever the others grow to (\<open>reserved_growth\<close>), and a stale revision neither
  writes nor removes anything.  \<open>persist\<close> is the wallet's flag for plaintext storage.
\<close>

definition MAX_JOURNAL_RECORD :: nat where [params]: "MAX_JOURNAL_RECORD = 2 * 1024 * 1024"
definition MAX_JOURNAL_BYTES :: nat where [params]: "MAX_JOURNAL_BYTES = 8 * 1024 * 1024"
definition MAX_RECORDS :: nat where [params]: "MAX_RECORDS = 64"
definition MAX_RESERVED_RECORDS :: nat where
  [params]: "MAX_RESERVED_RECORDS = MAX_JOURNAL_BYTES div MAX_JOURNAL_RECORD"

record swap_record =
  sr_id :: string
  sr_revision :: u64
  sr_payload :: string

record journal =
  j_version :: u32
  j_records :: "swap_record list"

datatype journal_error =
    JournalVersion | TooManyRecords | BadRecordId | BadRevision | BadPayloadSize | JournalTooLarge
  | PlaintextRefused | StaleRevision | RevisionExhausted | CapacityReserved | NoSuchRecord

definition journal_default :: journal where
  "journal_default = \<lparr>j_version = 1, j_records = []\<rparr>"

definition journal_empty :: "journal \<Rightarrow> bool" where
  "journal_empty j \<longleftrightarrow> j_records j = []"

definition valid_id :: "string \<Rightarrow> bool" where
  "valid_id s \<longleftrightarrow> length s = 36 \<and>
     (\<forall>(i, c) \<in> set (enumerate 0 s).
        if i \<in> {8, 13, 18, 23} then c = CHR ''-''
        else is_digit c \<or> c \<in> set ''abcdef'')"

text \<open>The checks of one record, given the identifiers before it and the size so far.\<close>

fun check_records :: "swap_record list \<Rightarrow> string list \<Rightarrow> nat \<Rightarrow> journal_error + nat" where
  "check_records [] ids sz = Inr sz"
| "check_records (r # rs) ids sz =
     res_bind (ensure BadRecordId (valid_id (sr_id r) \<and> sr_id r \<notin> set ids)) (\<lambda>_.
     res_bind (ensure BadRevision (0 < sr_revision r)) (\<lambda>_.
     res_bind (ensure BadPayloadSize
       (sr_payload r \<noteq> [] \<and> length (sr_payload r) \<le> MAX_JOURNAL_RECORD)) (\<lambda>_.
       check_records rs (sr_id r # ids) (sz + length (sr_payload r)))))"

definition journal_validate :: "journal \<Rightarrow> journal_error + unit" where
  "journal_validate j =
     res_bind (ensure JournalVersion (j_version j = 1)) (\<lambda>_.
     res_bind (ensure TooManyRecords (length (j_records j) \<le> MAX_RECORDS)) (\<lambda>_.
     res_bind (check_records (j_records j) [] 0) (\<lambda>sz.
       ensure JournalTooLarge (sz \<le> MAX_JOURNAL_BYTES))))"

definition recovery_ids :: "journal \<Rightarrow> string list" where
  "recovery_ids j = map sr_id (j_records j)"

definition swap_checkpoint :: "journal \<Rightarrow> string \<Rightarrow> (u64 \<times> string) option" where
  "swap_checkpoint j i =
     map_option (\<lambda>r. (sr_revision r, sr_payload r)) (List.find (\<lambda>r. sr_id r = i) (j_records j))"

text \<open>\<open>Iterator::position\<close>.\<close>

fun first_index :: "('a \<Rightarrow> bool) \<Rightarrow> 'a list \<Rightarrow> nat option" where
  "first_index P [] = None"
| "first_index P (x # xs) = (if P x then Some 0 else map_option Suc (first_index P xs))"

definition record_position :: "journal \<Rightarrow> string \<Rightarrow> nat option" where
  "record_position j i = first_index (\<lambda>r. sr_id r = i) (j_records j)"

definition others_size :: "journal \<Rightarrow> string \<Rightarrow> nat" where
  "others_size j i = (\<Sum>r \<leftarrow> filter (\<lambda>r. sr_id r \<noteq> i) (j_records j). length (sr_payload r))"

definition put_swap_checkpoint ::
  "bool \<Rightarrow> journal \<Rightarrow> string \<Rightarrow> u64 \<Rightarrow> string \<Rightarrow> journal_error + (journal \<times> u64)" where
  "put_swap_checkpoint persist j i expected payload =
     res_bind (ensure PlaintextRefused (\<not> persist)) (\<lambda>_.
     res_bind (ensure BadRecordId (valid_id i)) (\<lambda>_.
     res_bind (ensure BadPayloadSize (payload \<noteq> [] \<and> length payload \<le> MAX_JOURNAL_RECORD)) (\<lambda>_.
     res_bind (journal_validate j) (\<lambda>_.
     (let index = record_position j i;
          current = (case index of None \<Rightarrow> 0 | Some n \<Rightarrow> sr_revision (j_records j ! n)) in
      res_bind (ensure StaleRevision (current = expected)) (\<lambda>_.
      res_bind (ok_or RevisionExhausted (checked_add current 1)) (\<lambda>revision.
      res_bind (ensure CapacityReserved
        (index \<noteq> None \<or> length (j_records j) < MAX_RESERVED_RECORDS)) (\<lambda>_.
      res_bind (ensure JournalTooLarge (others_size j i + length payload \<le> MAX_JOURNAL_BYTES)) (\<lambda>_.
        (let r = \<lparr>sr_id = i, sr_revision = revision, sr_payload = payload\<rparr>;
             rs = (case index of None \<Rightarrow> j_records j @ [r] | Some n \<Rightarrow> (j_records j)[n := r])
         in Inr (j\<lparr>j_records := rs\<rparr>, revision)))))))))))"

definition retire_swap_checkpoint ::
  "bool \<Rightarrow> journal \<Rightarrow> string \<Rightarrow> u64 \<Rightarrow> journal_error + journal" where
  "retire_swap_checkpoint persist j i expected =
     res_bind (ensure PlaintextRefused (\<not> persist)) (\<lambda>_.
     res_bind (ensure BadRecordId (valid_id i)) (\<lambda>_.
     res_bind (ok_or NoSuchRecord (record_position j i)) (\<lambda>n.
     res_bind (ensure StaleRevision (sr_revision (j_records j ! n) = expected)) (\<lambda>_.
       Inr (j\<lparr>j_records := take n (j_records j) @ drop (n + 1) (j_records j)\<rparr>)))))"

section \<open>Valid journals\<close>

definition journal_ok :: "journal \<Rightarrow> bool" where
  "journal_ok j \<longleftrightarrow> journal_validate j = Inr ()"

definition payload_total :: "journal \<Rightarrow> nat" where
  "payload_total j = (\<Sum>r \<leftarrow> j_records j. length (sr_payload r))"

definition record_ok :: "swap_record \<Rightarrow> bool" where
  "record_ok r \<longleftrightarrow> valid_id (sr_id r) \<and> 0 < sr_revision r \<and> sr_payload r \<noteq> []
     \<and> length (sr_payload r) \<le> MAX_JOURNAL_RECORD"

lemma check_records_Inr_iff:
  "check_records rs ids sz = Inr n \<longleftrightarrow>
     (\<forall>r \<in> set rs. record_ok r) \<and> distinct (map sr_id rs) \<and> set (map sr_id rs) \<inter> set ids = {}
     \<and> n = sz + (\<Sum>r \<leftarrow> rs. length (sr_payload r))"
  by (induction rs arbitrary: ids sz) (auto simp: res_simps record_ok_def)

lemma journal_ok_iff:
  "journal_ok j \<longleftrightarrow> j_version j = 1 \<and> length (j_records j) \<le> MAX_RECORDS
     \<and> (\<forall>r \<in> set (j_records j). record_ok r) \<and> distinct (map sr_id (j_records j))
     \<and> payload_total j \<le> MAX_JOURNAL_BYTES"
  by (auto simp: journal_ok_def journal_validate_def res_simps check_records_Inr_iff payload_total_def)

lemma first_index_Some:
  "first_index P xs = Some n \<Longrightarrow> \<exists>a x b. xs = a @ x # b \<and> length a = n \<and> P x \<and> (\<forall>y \<in> set a. \<not> P y)"
proof (induction xs arbitrary: n)
  case (Cons y ys)
  show ?case
  proof (cases "P y")
    case True
    then show ?thesis using Cons.prems by (intro exI [of _ "[]"]) simp
  next
    case False
    then obtain m where m: "first_index P ys = Some m" "n = Suc m" using Cons.prems by auto
    then obtain a x b where "ys = a @ x # b" "length a = m" "P x" "\<forall>y \<in> set a. \<not> P y"
      using Cons.IH by blast
    then show ?thesis using False m(2) by (intro exI [of _ "y # a"] exI [of _ x] exI [of _ b]) simp
  qed
qed simp

lemma first_index_None: "first_index P xs = None \<longleftrightarrow> (\<forall>x \<in> set xs. \<not> P x)"
  by (induction xs) auto

lemma find_append_first: "\<forall>y \<in> set a. \<not> P y \<Longrightarrow> List.find P (a @ b) = List.find P b"
  by (induction a) auto

lemma find_append: "List.find P (a @ b) = (case List.find P a of None \<Rightarrow> List.find P b | Some x \<Rightarrow> Some x)"
  by (induction a) auto

lemma find_id: "sr_id x = i \<Longrightarrow> i \<notin> sr_id ` set a \<Longrightarrow> List.find (\<lambda>r. sr_id r = i) (a @ x # b) = Some x"
  by (induction a) auto

lemma find_same: "\<not> P x \<Longrightarrow> \<not> P y \<Longrightarrow> List.find P (a @ x # b) = List.find P (a @ y # b)"
  by (induction a) auto

text \<open>The three shapes of a successful write: a new record at the end, or one replaced.\<close>

lemma put_shape:
  assumes "put_swap_checkpoint p j i e payload = Inr (j', w)"
  defines "r \<equiv> \<lparr>sr_id = i, sr_revision = w, sr_payload = payload\<rparr>"
  shows "\<not> p \<and> journal_ok j \<and> record_ok r \<and> unat w = unat e + 1 \<and> j_version j' = j_version j
    \<and> others_size j i + length payload \<le> MAX_JOURNAL_BYTES
    \<and> (e = 0 \<and> i \<notin> sr_id ` set (j_records j) \<and> length (j_records j) < MAX_RESERVED_RECORDS
         \<and> j_records j' = j_records j @ [r]
       \<or> (\<exists>a x b. j_records j = a @ x # b \<and> sr_id x = i \<and> sr_revision x = e \<and> i \<notin> sr_id ` set a
           \<and> j_records j' = a @ r # b))"
proof -
  let ?cur = "case record_position j i of None \<Rightarrow> 0 | Some n \<Rightarrow> sr_revision (j_records j ! n)"
  have basic: "\<not> p" "valid_id i" "payload \<noteq> []" "length payload \<le> MAX_JOURNAL_RECORD" "journal_ok j"
    "?cur = e" "checked_add ?cur 1 = Some w"
    "record_position j i \<noteq> None \<or> length (j_records j) < MAX_RESERVED_RECORDS"
    "others_size j i + length payload \<le> MAX_JOURNAL_BYTES"
    "j' = j\<lparr>j_records := (case record_position j i of None \<Rightarrow> j_records j @ [r]
       | Some n \<Rightarrow> (j_records j)[n := r])\<rparr>"
    using assms(1) unfolding r_def
    by (auto simp: put_swap_checkpoint_def Let_def res_simps journal_ok_def)
  have rv: "unat w = unat e + 1" using basic(6,7) by (simp add: checked_add_Some_iff)
  then have "0 < w" by (simp add: word_gt_0) (metis Suc_eq_plus1 nat.simps(3) unat_0)
  then have r: "record_ok r" using basic(2-4) by (simp add: record_ok_def r_def)
  show ?thesis
  proof (cases "record_position j i")
    case None
    then have "i \<notin> sr_id ` set (j_records j)"
      by (auto simp: record_position_def first_index_None)
    then show ?thesis using None basic r rv by auto
  next
    case (Some n)
    then obtain a x b where "j_records j = a @ x # b" "length a = n" "sr_id x = i"
      "\<forall>y \<in> set a. sr_id y \<noteq> i"
      using first_index_Some [OF Some [unfolded record_position_def]] by blast
    moreover from this have "i \<notin> sr_id ` set a" by auto
    ultimately show ?thesis using Some basic r rv
      by (intro conjI disjI2 exI [of _ a] exI [of _ x] exI [of _ b]) (auto simp: nth_append)
  qed
qed

lemma put_keeps_ok:
  assumes "put_swap_checkpoint p j i e payload = Inr (j', w)"
  shows "journal_ok j'"
proof -
  let ?r = "\<lparr>sr_id = i, sr_revision = w, sr_payload = payload\<rparr>"
  note s = put_shape [OF assms]
  have ok: "journal_ok j" and r: "record_ok ?r" and v: "j_version j' = j_version j"
    and size: "others_size j i + length payload \<le> MAX_JOURNAL_BYTES" using s by blast+
  have all: "filter (\<lambda>r. sr_id r \<noteq> i) xs = xs" if "i \<notin> sr_id ` set xs" for xs
    using that by (auto intro!: filter_True)
  from s consider
      (new) "i \<notin> sr_id ` set (j_records j)" "length (j_records j) < MAX_RESERVED_RECORDS"
        "j_records j' = j_records j @ [?r]"
    | (old) a x b where "j_records j = a @ x # b" "sr_id x = i" "i \<notin> sr_id ` set a"
        "j_records j' = a @ ?r # b" by blast
  then show ?thesis
  proof cases
    case new
    then show ?thesis using ok r v size all [OF new(1)]
      by (auto simp: journal_ok_iff others_size_def payload_total_def params)
  next
    case (old a x b)
    have "distinct (map sr_id (a @ x # b))" using ok old by (simp add: journal_ok_iff)
    then have "i \<notin> sr_id ` set b" using old(2) by auto
    then show ?thesis using ok r v size all [OF old(3)] all [of b] old
      by (auto simp: journal_ok_iff others_size_def payload_total_def)
  qed
qed

lemma put_is_read:
  assumes "put_swap_checkpoint p j i e payload = Inr (j', w)"
  shows "swap_checkpoint j' k = (if k = i then Some (w, payload) else swap_checkpoint j k)"
proof -
  let ?r = "\<lparr>sr_id = i, sr_revision = w, sr_payload = payload\<rparr>"
  from put_shape [OF assms] consider
      (new) "i \<notin> sr_id ` set (j_records j)" "j_records j' = j_records j @ [?r]"
    | (old) a x b where "j_records j = a @ x # b" "sr_id x = i" "i \<notin> sr_id ` set a"
        "j_records j' = a @ ?r # b" by blast
  then show ?thesis
  proof cases
    case new
    then have "List.find (\<lambda>r. sr_id r = i) (j_records j) = None" by (auto simp: find_None_iff)
    then show ?thesis using new
      by (auto simp: swap_checkpoint_def find_append split: option.split)
  next
    case (old a x b)
    show ?thesis
    proof (cases "k = i")
      case True
      then show ?thesis using old find_id [of ?r i a b] by (simp add: swap_checkpoint_def)
    next
      case False
      then have "List.find (\<lambda>r. sr_id r = k) (a @ ?r # b) = List.find (\<lambda>r. sr_id r = k) (a @ x # b)"
        using old(2) by (intro find_same) auto
      then show ?thesis using False old by (simp add: swap_checkpoint_def)
    qed
  qed
qed

lemma put_revision:
  assumes "put_swap_checkpoint p j i e payload = Inr (j', w)"
  shows "map_option fst (swap_checkpoint j i) = (if e = 0 then None else Some e) \<and> unat w = unat e + 1"
proof -
  have "map_option fst (swap_checkpoint j i) = (if e = 0 then None else Some e)"
    using put_shape [OF assms]
  proof (elim conjE disjE exE)
    assume n: "e = 0" "i \<notin> sr_id ` set (j_records j)"
    then have "List.find (\<lambda>r. sr_id r = i) (j_records j) = None" by (auto simp: find_None_iff)
    then show ?thesis using n by (simp add: swap_checkpoint_def)
  next
    fix a x b
    assume x: "j_records j = a @ x # b" "sr_id x = i" "sr_revision x = e" "i \<notin> sr_id ` set a"
    assume "journal_ok j"
    then have "0 < sr_revision x" using x(1) by (simp add: journal_ok_iff record_ok_def)
    then show ?thesis using x find_id [of x i a b] by (auto simp: swap_checkpoint_def)
  qed
  then show ?thesis using put_shape [OF assms] by blast
qed

text \<open>
  Every record admitted can be rewritten with a payload of the largest size, whatever the
  others hold, until its revision is exhausted.
\<close>

lemma reserved_growth:
  assumes ok: "journal_ok j" and few: "length (j_records j) \<le> MAX_RESERVED_RECORDS"
    and now: "swap_checkpoint j i = Some (e, old)" "e \<noteq> - 1"
    and p: "payload \<noteq> []" "length payload \<le> MAX_JOURNAL_RECORD"
  shows "\<exists>j' w. put_swap_checkpoint False j i e payload = Inr (j', w)"
proof -
  obtain r where f: "List.find (\<lambda>r. sr_id r = i) (j_records j) = Some r" "sr_revision r = e"
    using now(1) by (auto simp: swap_checkpoint_def)
  then have mem: "r \<in> set (j_records j)" "sr_id r = i" by (auto simp: find_Some_iff)
  then obtain n where n: "record_position j i = Some n"
    by (cases "record_position j i") (auto simp: record_position_def first_index_None)
  then obtain a x b where x: "j_records j = a @ x # b" "length a = n" "sr_id x = i"
    "\<forall>y \<in> set a. sr_id y \<noteq> i"
    using first_index_Some [OF n [unfolded record_position_def]] by blast
  then have "x = r" using f(1) by (simp add: find_append_first)
  then have cur: "sr_revision (j_records j ! n) = e" using x f(2) by (auto simp: nth_append)
  have "valid_id i" using ok mem by (auto simp: journal_ok_iff record_ok_def)
  moreover have "checked_add e 1 \<noteq> None"
  proof -
    have "unat e \<noteq> unat (- 1 :: u64)" using now(2) by (metis word_unat_eq_iff)
    then have "unat e \<noteq> 2 ^ 64 - 1" by (simp add: unsigned_minus_1_eq_mask mask_eq_exp_minus_1)
    moreover have "unat e < 2 ^ 64" using unsigned_less [of e, where ?'a = nat] by simp
    ultimately show ?thesis by (simp add: checked_add_None_iff)
  qed
  moreover have "others_size j i + length payload \<le> MAX_JOURNAL_BYTES"
  proof -
    let ?o = "filter (\<lambda>r. sr_id r \<noteq> i) (j_records j)"
    have "length ?o < length (j_records j)" using mem by (intro length_filter_less [of r]) auto
    then have l: "length ?o \<le> 3" using few by (simp add: params)
    have "(\<Sum>r \<leftarrow> ?o. length (sr_payload r)) \<le> (\<Sum>r \<leftarrow> ?o. MAX_JOURNAL_RECORD)"
      using ok by (intro sum_list_mono) (auto simp: journal_ok_iff record_ok_def)
    also have "\<dots> = length ?o * MAX_JOURNAL_RECORD" by (simp add: sum_list_triv)
    also have "\<dots> \<le> 3 * MAX_JOURNAL_RECORD" using l by (rule mult_le_mono1)
    finally show ?thesis using p(2) by (simp add: others_size_def params)
  qed
  ultimately show ?thesis
    using ok p n cur
    by (auto simp: put_swap_checkpoint_def Let_def ensure_def journal_ok_def ok_or_def split: option.split)
qed

lemma retire_keeps_ok:
  assumes ok: "journal_ok j" and r: "retire_swap_checkpoint p j i e = Inr j'"
  shows "journal_ok j' \<and> swap_checkpoint j' i = None \<and> map_option fst (swap_checkpoint j i) = Some e
    \<and> (\<forall>k. k \<noteq> i \<longrightarrow> swap_checkpoint j' k = swap_checkpoint j k)"
proof -
  obtain n where n: "record_position j i = Some n" "sr_revision (j_records j ! n) = e"
    and j': "j' = j\<lparr>j_records := take n (j_records j) @ drop (n + 1) (j_records j)\<rparr>"
    using r by (auto simp: retire_swap_checkpoint_def res_simps)
  then obtain a x b where x: "j_records j = a @ x # b" "length a = n" "sr_id x = i"
    "\<forall>y \<in> set a. sr_id y \<noteq> i"
    using first_index_Some [OF n(1) [unfolded record_position_def]] by blast
  have xe: "sr_revision x = e" using n(2) x by (auto simp: nth_append)
  have rs: "j_records j' = a @ b" using x j' by auto
  have "distinct (map sr_id (a @ x # b))" using ok x(1) by (simp add: journal_ok_iff)
  then have fresh: "i \<notin> sr_id ` set (a @ b)" using x(3) by auto
  have "journal_ok j'" using ok x(1) rs j' by (auto simp: journal_ok_iff payload_total_def)
  moreover have "List.find (\<lambda>r. sr_id r = i) (a @ b) = None" using fresh by (auto simp: find_None_iff)
  moreover have "List.find (\<lambda>r. sr_id r = k) (a @ b) = List.find (\<lambda>r. sr_id r = k) (a @ x # b)"
    if "k \<noteq> i" for k using that x(3) by (simp add: find_append split: option.split)
  ultimately show ?thesis
    using x xe rs by (auto simp: swap_checkpoint_def find_append_first)
qed

section \<open>The interface of a store written by compare-and-swap\<close>

text \<open>
  A revision per key, zero when there is none; a write names the revision it has read.  Of two
  writers that read the same revision at most one succeeds, and a revision is never used twice.
\<close>

locale cas_store =
  fixes revision :: "'s \<Rightarrow> 'k \<Rightarrow> nat"
    and cas :: "'s \<Rightarrow> 'k \<Rightarrow> nat \<Rightarrow> 'v \<Rightarrow> 's option"
  assumes cas_read: "cas s k e v = Some s' \<Longrightarrow> revision s k = e"
    and cas_bumps: "cas s k e v = Some s' \<Longrightarrow> revision s' l = (if l = k then e + 1 else revision s l)"
begin

lemma no_lost_update: "cas s k e v = Some s' \<Longrightarrow> cas s' k e v' = None"
  using cas_bumps [of s k e v s' k] cas_read [of s' k e v'] by (cases "cas s' k e v'") auto

text \<open>A history of attempts; those that fail change nothing.\<close>

fun attempts :: "('k \<times> nat \<times> 'v) list \<Rightarrow> 's \<Rightarrow> 's" where
  "attempts [] s = s"
| "attempts ((k, e, v) # xs) s = attempts xs (case cas s k e v of None \<Rightarrow> s | Some s' \<Rightarrow> s')"

lemma revision_grows: "revision s l \<le> revision (attempts xs s) l"
proof (induction xs s rule: attempts.induct)
  case (2 k e v xs s)
  have "revision s l \<le> revision (case cas s k e v of None \<Rightarrow> s | Some s' \<Rightarrow> s') l"
    using cas_bumps [of s k e v] cas_read [of s k e v] by (auto split: option.split)
  then show ?case using 2 by simp
qed simp

lemma stale_forever:
  assumes "cas s k e v = Some s'"
  shows "cas (attempts xs s') k e v' = None"
proof -
  have "e < revision s' k" using cas_bumps [OF assms] by simp
  then have "revision (attempts xs s') k \<noteq> e" using revision_grows [of s' k xs] by simp
  then show ?thesis using cas_read by (cases "cas (attempts xs s') k e v'") auto
qed

end

definition journal_revision :: "journal \<Rightarrow> string \<Rightarrow> nat" where
  "journal_revision j i = (case swap_checkpoint j i of None \<Rightarrow> 0 | Some rp \<Rightarrow> unat (fst rp))"

definition journal_write :: "journal \<Rightarrow> string \<Rightarrow> nat \<Rightarrow> string \<Rightarrow> journal option" where
  "journal_write j i e payload =
     (if 2 ^ 64 \<le> e then None
      else (case put_swap_checkpoint False j i (of_nat e) payload of
              Inl _ \<Rightarrow> None | Inr (j', _) \<Rightarrow> Some j'))"

lemma journal_writeD:
  assumes "journal_write j i e payload = Some j'"
  obtains w where "e < 2 ^ 64" "put_swap_checkpoint False j i (of_nat e) payload = Inr (j', w)"
  using assms by (auto simp: journal_write_def split: if_splits sum.splits)

interpretation journal_cas: cas_store journal_revision journal_write
proof
  fix j i e payload j'
  assume "journal_write j i e payload = Some j'"
  then obtain w where e: "e < 2 ^ 64" and put: "put_swap_checkpoint False j i (of_nat e) payload = Inr (j', w)"
    by (rule journal_writeD)
  have u: "unat (of_nat e :: u64) = e" by (rule unat_of_nat_64 [OF e])
  note r = put_revision [OF put, unfolded u]
  show "journal_revision j i = e"
    using r u by (auto simp: journal_revision_def split: option.splits if_splits)
  show "journal_revision j' l = (if l = i then e + 1 else journal_revision j l)" for l
    using r by (simp add: journal_revision_def put_is_read [OF put])
qed

text \<open>The same over the code's own operation: attempts that fail change nothing.\<close>

fun journal_writes :: "(string \<times> u64 \<times> string) list \<Rightarrow> journal \<Rightarrow> journal" where
  "journal_writes [] j = j"
| "journal_writes ((i, e, p) # xs) j =
     journal_writes xs (case put_swap_checkpoint False j i e p of Inl _ \<Rightarrow> j | Inr (j', _) \<Rightarrow> j')"

lemma journal_write_put: "journal_write j i (unat e) p
    = (case put_swap_checkpoint False j i e p of Inl _ \<Rightarrow> None | Inr (j', _) \<Rightarrow> Some j')"
  using unsigned_less [of e, where ?'a = nat] by (simp add: journal_write_def not_le)

lemma journal_writes_attempts:
  "journal_writes xs j = journal_cas.attempts (map (\<lambda>(i, e, p). (i, unat e, p)) xs) j"
  by (induction xs j rule: journal_writes.induct)
     (simp_all add: journal_write_put split: sum.split prod.split)

lemma stale_write_refused:
  assumes "put_swap_checkpoint False j i e p = Inr (j', r)"
  shows "\<exists>err. put_swap_checkpoint False (journal_writes xs j') i e q = Inl err"
proof -
  have "journal_write j i (unat e) p = Some j'" by (simp add: journal_write_put assms)
  then have "journal_write (journal_writes xs j') i (unat e) q = None"
    unfolding journal_writes_attempts by (rule journal_cas.stale_forever)
  then show ?thesis by (auto simp: journal_write_put split: sum.splits)
qed

end
