(* ===== verification/Wallet_State.thy ===== *)
theory Wallet_State
  imports Counter Air_Facts Swap_Journal Builder Blocks
begin

text \<open>
  \<open>crates/nightfall-wallet/src/lib.rs\<close>: the wallet's file, its owned outputs and history, and
  what is read from them.  Scalars and hashes are kept as the hexadecimal text the file holds;
  memos are text.  Saving is a question to the file system, the argument \<open>sv\<close>: whether the
  wallet was taken.  JSON of a transaction and of the exported state are the parameters of
  \<open>wallet_json\<close>.
\<close>

record owned_output =
  oo_commit :: bytes
  oo_value :: u64
  oo_blind_hex :: string
  oo_offset_hex :: string
  oo_memo :: string
  oo_height :: u64
  oo_spent :: bool
  oo_coinbase :: bool

datatype direction = Received | Sent | Mined

record history_entry =
  he_direction :: direction
  he_amount :: u64
  he_fee :: u64
  he_memo :: string
  he_height :: "u64 option"
  he_txid :: string
  he_timestamp :: u64
  he_spent :: "bytes list"
  he_raw :: "string option"
  he_quarantined :: bool
  he_failed :: bool

record air_signature =
  as_intent :: string
  as_raw :: string

record wallet_file =
  wf_outputs :: "owned_output list"
  wf_scanned_to :: u64
  wf_history :: "history_entry list"
  wf_birth :: u64
  wf_reserved :: "string list"
  wf_scanned_tip :: string
  wf_invoices :: till
  wf_air_signed :: "(string, air_signature) omap"
  wf_journal :: journal

record 's wallet =
  w_keys :: "'s wallet_keys"
  w_network :: network_id
  w_db :: wallet_file
  w_persist :: bool

datatype wallet_error =
    BadScalarHex | BadScalarLength | NonCanonicalScalar | SaveFailed | DifferentWallet
  | NoAnchorBlock u64 | NoAnchor | ChainChanged | RebuildFirst | NotInMemory | BadStartHash
  | BadEndHash | PageDoesNotContinue | PageTooLong | SingleBlockPage | NotAtBirth
  | OutputOutsidePage | MalformedOutput | DuplicateOutput | BadPayloadLength | BadPoint
  | MalformedSpent | SwapRecovery | NoBlocks | RebaseNotFromBirth | ChainGap u64 | NotShorter
  | TooManyCoins | NotEnough u64 u64 | AmountOverflowed | ImmatureReserved
  | ReservedTooSmall u64 u64 | Build build_error | InvoiceProblem invoice_error | AirProblem air_error
  | NonceReused | AirHistoryFull | OwnAddress | StateTooLarge | BadState | BadJournal journal_error
  | UnsupportedVersion | UnknownWalletNetwork | BadSeed | BadRaw

definition wallet_file_default :: wallet_file where
  "wallet_file_default =
     \<lparr>wf_outputs = [], wf_scanned_to = 0, wf_history = [], wf_birth = 0, wf_reserved = [],
      wf_scanned_tip = [], wf_invoices = [], wf_air_signed = [], wf_journal = journal_default\<rparr>"

definition in_memory :: "network_id \<Rightarrow> 's wallet_keys \<Rightarrow> u64 \<Rightarrow> 's wallet" where
  "in_memory n keys birth =
     \<lparr>w_keys = keys, w_network = n,
      w_db = wallet_file_default\<lparr>wf_birth := birth, wf_scanned_to := birth\<rparr>, w_persist = False\<rparr>"

text \<open>\<open>Wallet::save\<close>: nothing to do in memory, otherwise what the file system says.\<close>

type_synonym 's saver = "'s wallet \<Rightarrow> bool"

definition wallet_save :: "'s saver \<Rightarrow> 's wallet \<Rightarrow> wallet_error + unit" where
  "wallet_save sv w = (if w_persist w \<and> \<not> sv w then Inl SaveFailed else Inr ())"

text \<open>An operation that edits the database and saves it, keeping the edit if the save fails.\<close>

definition save_as :: "'s saver \<Rightarrow> 's wallet \<Rightarrow> 'a \<Rightarrow> 's wallet \<times> (wallet_error + 'a)" where
  "save_as sv w x = (w, res_bind (wallet_save sv w) (\<lambda>_. Inr x))"

text \<open>An operation that takes the edit back if the save fails.\<close>

definition save_or_restore ::
  "'s saver \<Rightarrow> 's wallet \<Rightarrow> 's wallet \<Rightarrow> 'a \<Rightarrow> 's wallet \<times> (wallet_error + 'a)" where
  "save_or_restore sv old new x =
     (case wallet_save sv new of Inl e \<Rightarrow> (old, Inl e) | Inr _ \<Rightarrow> (new, Inr x))"

definition set_db :: "(wallet_file \<Rightarrow> wallet_file) \<Rightarrow> 's wallet \<Rightarrow> 's wallet" where
  "set_db f w = w\<lparr>w_db := f (w_db w)\<rparr>"

lemma set_db_sel [simp]:
  "w_db (set_db f w) = f (w_db w)" "w_keys (set_db f w) = w_keys w"
  "w_network (set_db f w) = w_network w" "w_persist (set_db f w) = w_persist w"
  by (simp_all add: set_db_def)

section \<open>Outputs and history\<close>

definition hex_scalar :: "('p, 's) crypto \<Rightarrow> string \<Rightarrow> wallet_error + 's" where
  "hex_scalar C s =
     res_bind (ok_or BadScalarHex (hex_decode s)) (\<lambda>raw.
     if length raw \<noteq> 32 then Inl BadScalarLength
     else ok_or NonCanonicalScalar (from_canonical_bytes C raw))"

definition to_spendable ::
  "('p, 's::comm_ring_1) crypto \<Rightarrow> 's wallet_keys \<Rightarrow> owned_output \<Rightarrow> wallet_error + 's spendable" where
  "to_spendable C keys oo =
     res_bind (hex_scalar C (oo_blind_hex oo)) (\<lambda>blind.
     res_bind (hex_scalar C (oo_offset_hex oo)) (\<lambda>offset.
       Inr \<lparr>sp_commit = oo_commit oo, sp_value = oo_value oo, sp_blind = blind,
            sp_secret = spend_sk keys + offset\<rparr>))"

definition is_pending :: "history_entry \<Rightarrow> bool" where
  "is_pending e \<longleftrightarrow> he_height e = None \<and> \<not> he_failed e"

definition needs_owner_decision :: "history_entry \<Rightarrow> bool" where
  "needs_owner_decision e \<longleftrightarrow> he_quarantined e \<and> is_pending e"

definition pending_send :: "history_entry \<Rightarrow> bool" where
  "pending_send e \<longleftrightarrow> he_direction e = Sent \<and> is_pending e"

definition pending_input_commits :: "wallet_file \<Rightarrow> bytes set" where
  "pending_input_commits db = (\<Union>e \<in> set (filter pending_send (wf_history db)). set (he_spent e))"

definition is_reserved :: "wallet_file \<Rightarrow> bytes \<Rightarrow> bool" where
  "is_reserved db c \<longleftrightarrow> hex_encode c \<in> set (wf_reserved db)"

definition has_reservations :: "wallet_file \<Rightarrow> bool" where
  "has_reservations db \<longleftrightarrow> wf_reserved db \<noteq> []"

definition has_swap_recovery :: "wallet_file \<Rightarrow> bool" where
  "has_swap_recovery db \<longleftrightarrow> \<not> journal_empty (wf_journal db)"

definition matured :: "owned_output \<Rightarrow> u64 \<Rightarrow> u64 \<Rightarrow> bool" where
  "matured oo tip maturity \<longleftrightarrow> \<not> oo_coinbase oo \<or> sat_add (oo_height oo) maturity \<le> tip"

section \<open>Balances\<close>

text \<open>\<open>Iterator::sum\<close> of \<open>u64\<close> wraps in a release build.\<close>

definition wallet_balance :: "wallet_file \<Rightarrow> amount" where
  "wallet_balance db =
     Amount (\<Sum>oo \<leftarrow> filter (\<lambda>oo. \<not> oo_spent oo \<and> oo_commit oo \<notin> pending_input_commits db)
        (wf_outputs db). oo_value oo)"

definition spendable_count :: "wallet_file \<Rightarrow> nat" where
  "spendable_count db =
     length (filter (\<lambda>oo. \<not> oo_spent oo \<and> oo_commit oo \<notin> pending_input_commits db) (wf_outputs db))"

record balances =
  ba_available :: u64
  ba_immature :: u64
  ba_pending_out :: u64

definition balances_total :: "balances \<Rightarrow> u64" where
  "balances_total b = sat_add (ba_available b) (ba_immature b)"

definition add_balance :: "wallet_file \<Rightarrow> u64 \<Rightarrow> u64 \<Rightarrow> owned_output \<Rightarrow> balances \<Rightarrow> balances" where
  "add_balance db tip maturity oo b =
     (if is_reserved db (oo_commit oo) \<or> oo_commit oo \<in> pending_input_commits db then b
      else if oo_coinbase oo \<and> tip < sat_add (oo_height oo) maturity
      then b\<lparr>ba_immature := sat_add (ba_immature b) (oo_value oo)\<rparr>
      else b\<lparr>ba_available := sat_add (ba_available b) (oo_value oo)\<rparr>)"

definition wallet_balances :: "wallet_file \<Rightarrow> u64 \<Rightarrow> u64 \<Rightarrow> balances" where
  "wallet_balances db tip maturity =
     (fold (add_balance db tip maturity) (filter (\<lambda>oo. \<not> oo_spent oo) (wf_outputs db))
        \<lparr>ba_available = 0, ba_immature = 0, ba_pending_out = 0\<rparr>)
     \<lparr>ba_pending_out :=
        (\<Sum>e \<leftarrow> filter pending_send (wf_history db). sat_add (he_amount e) (he_fee e))\<rparr>"

definition blocks_until_mature :: "owned_output \<Rightarrow> u64 \<Rightarrow> u64 \<Rightarrow> u64 option" where
  "blocks_until_mature oo tip maturity =
     (if \<not> oo_coinbase oo then None
      else (let ready = sat_add (oo_height oo) maturity in if tip < ready then Some (ready - tip) else None))"

definition spendable_outputs :: "wallet_file \<Rightarrow> u64 \<Rightarrow> u64 \<Rightarrow> owned_output list" where
  "spendable_outputs db tip maturity =
     filter (\<lambda>oo. \<not> oo_spent oo \<and> oo_commit oo \<notin> pending_input_commits db \<and> matured oo tip maturity)
       (wf_outputs db)"

section \<open>The state of the scan\<close>

definition has_scanned_history :: "wallet_file \<Rightarrow> bool" where
  "has_scanned_history db \<longleftrightarrow>
     wf_birth db < wf_scanned_to db \<or> wf_scanned_tip db \<noteq> [] \<or> wf_outputs db \<noteq> []
     \<or> wf_history db \<noteq> [] \<or> wf_reserved db \<noteq> []"

definition needs_light_rebuild :: "wallet_file \<Rightarrow> bool" where
  "needs_light_rebuild db \<longleftrightarrow>
     wf_scanned_tip db = [] \<and> has_scanned_history db
     \<and> \<not> (wf_scanned_to db = wf_birth db \<and> wf_outputs db = [] \<and> wf_reserved db = []
          \<and> (\<forall>e \<in> set (wf_history db). pending_send e \<and> he_quarantined e))"

definition needs_canonical_pass :: "wallet_file \<Rightarrow> bool" where
  "needs_canonical_pass db \<longleftrightarrow> wf_scanned_tip db = [] \<and> has_scanned_history db"

definition scan_from :: "wallet_file \<Rightarrow> u64" where
  "scan_from db = max (wf_scanned_to db) (wf_birth db)"

definition block_height :: "block \<Rightarrow> u64" where "block_height b = h_height (blk_header b)"

text \<open>The hash the wallet writes down for a block.\<close>

definition anchor_of :: "('p, 's) crypto \<Rightarrow> block \<Rightarrow> string" where
  "anchor_of C b = hash_to_hex (block_hash C b)"

definition check_scan_anchor :: "('p, 's) crypto \<Rightarrow> wallet_file \<Rightarrow> block \<Rightarrow> wallet_error + unit" where
  "check_scan_anchor C db b =
     res_bind (ensure (NoAnchorBlock (wf_scanned_to db)) (block_height b = wf_scanned_to db)) (\<lambda>_.
     if wf_scanned_tip db = [] then ensure NoAnchor (\<not> has_scanned_history db)
     else ensure ChainChanged (anchor_of C b = wf_scanned_tip db))"

definition consecutive_from :: "u64 \<Rightarrow> block list \<Rightarrow> bool" where
  "consecutive_from start bs \<longleftrightarrow>
     (\<forall>(i, b) \<in> set (enumerate 0 bs). block_height b = start + of_nat i)"

definition covers_canonical_history ::
  "block list \<Rightarrow> u64 \<Rightarrow> u64 \<Rightarrow> owned_output list \<Rightarrow> bool" where
  "covers_canonical_history bs birth scanned_to outs \<longleftrightarrow>
     (case bs of
        [] \<Rightarrow> False
      | first # _ \<Rightarrow>
          (let start = block_height first; latest = block_height (last bs) in
           (start = 0 \<or> start = birth) \<and> consecutive_from start bs
           \<and> scanned_to \<le> latest \<and> (\<forall>oo \<in> set outs. oo_height oo \<le> latest)))"

definition check_chain_continuity ::
  "('p, 's) crypto \<Rightarrow> wallet_file \<Rightarrow> block list \<Rightarrow> wallet_error + unit" where
  "check_chain_continuity C db bs =
     (if wf_scanned_tip db = []
      then ensure NoAnchor (\<not> has_scanned_history db
             \<or> covers_canonical_history bs (wf_birth db) (wf_scanned_to db) (wf_outputs db))
      else (case bs of
              [] \<Rightarrow> Inr ()
            | first # _ \<Rightarrow>
                if block_height first \<noteq> wf_scanned_to db then Inr () else check_scan_anchor C db first))"

end
