(* ===== verification/Wallet_Scan.thy ===== *)
theory Wallet_Scan
  imports Wallet_State
begin

text \<open>
  The scans of \<open>crates/nightfall-wallet/src/lib.rs\<close>: a page of blocks (\<open>scan_blocks\<close>,
  \<open>rebase_on_shorter_chain\<close>) and a page of the light feed (\<open>ingest_scan_page\<close> and its
  anchored form), with the reconciliation that a scan of the whole history performs.
\<close>

section \<open>What a page of blocks contains\<close>

definition block_inputs :: "block \<Rightarrow> bytes list" where
  "block_inputs b = map in_commit (b_inputs (blk_body b))"

definition pending_sends :: "wallet_file \<Rightarrow> (string \<times> bytes list) list" where
  "pending_sends db = map (\<lambda>e. (he_txid e, he_spent e)) (filter pending_send (wf_history db))"

text \<open>The output of the chain as the wallet keeps it, and the line of its history.\<close>

definition owned_from ::
  "('p, 's) crypto \<Rightarrow> 's discovered_output \<Rightarrow> u64 \<Rightarrow> bool \<Rightarrow> owned_output" where
  "owned_from C d height coinbase =
     \<lparr>oo_commit = d_commit d, oo_value = d_value d,
      oo_blind_hex = hex_encode (scalar_bytes C (d_blind d)),
      oo_offset_hex = hex_encode (scalar_bytes C (d_key_offset d)),
      oo_memo = text_of (d_memo d), oo_height = height, oo_spent = False, oo_coinbase = coinbase\<rparr>"

definition received_entry :: "'s discovered_output \<Rightarrow> u64 \<Rightarrow> u64 \<Rightarrow> bool \<Rightarrow> history_entry" where
  "received_entry d height time coinbase =
     \<lparr>he_direction = (if coinbase then Mined else Received), he_amount = d_value d, he_fee = 0,
      he_memo = text_of (d_memo d), he_height = Some height, he_txid = hex_encode (d_commit d),
      he_timestamp = time, he_spent = [], he_raw = None, he_quarantined = False, he_failed = False\<rparr>"

record scan_state =
  ss_spent :: "bytes set"
  ss_owned :: "owned_output list"
  ss_new :: "history_entry list"
  ss_confirmed :: "(string \<times> u64 \<times> u64) list"
  ss_highest :: u64
  ss_found :: u32

definition confirm_send ::
  "u64 \<Rightarrow> u64 \<Rightarrow> bytes set \<Rightarrow> string \<times> bytes list \<Rightarrow> (string \<times> u64 \<times> u64) list \<Rightarrow> (string \<times> u64 \<times> u64) list" where
  "confirm_send height time spent send confirmed =
     (if snd send \<noteq> [] \<and> set (snd send) \<subseteq> spent \<and> fst send \<notin> fst ` set confirmed
      then confirmed @ [(fst send, height, time)] else confirmed)"

definition scan_tx_output ::
  "('p::ab_group_add, 's::comm_ring_1) crypto \<Rightarrow> 's view_key \<Rightarrow> bytes set \<Rightarrow> block \<Rightarrow> tx_output
     \<Rightarrow> scan_state \<Rightarrow> scan_state" where
  "scan_tx_output C view known b out st =
     (if out_commit out \<in> known then st
      else
        (case scan_output C view out of
           None \<Rightarrow> st
         | Some d \<Rightarrow>
             (let coinbase = (features out = CoinbaseOutput);
                  spent_ours = (\<exists>c \<in> set (block_inputs b). c \<in> known)
              in st\<lparr>ss_owned := ss_owned st @ [owned_from C d (block_height b) coinbase],
                    ss_new := (if coinbase \<or> \<not> spent_ours
                               then ss_new st @ [received_entry d (block_height b)
                                      (h_timestamp (blk_header b)) coinbase]
                               else ss_new st),
                    ss_found := ss_found st + 1\<rparr>)))"

definition scan_one_block ::
  "('p::ab_group_add, 's::comm_ring_1) crypto \<Rightarrow> 's view_key \<Rightarrow> bytes set \<Rightarrow> (string \<times> bytes list) list
     \<Rightarrow> block \<Rightarrow> scan_state \<Rightarrow> scan_state" where
  "scan_one_block C view known pending b st =
     (let spent = ss_spent st \<union> set (block_inputs b);
          confirmed = fold (confirm_send (block_height b) (h_timestamp (blk_header b)) spent) pending
                        (ss_confirmed st)
      in fold (scan_tx_output C view known b) (b_outputs (blk_body b))
           (st\<lparr>ss_spent := spent, ss_confirmed := confirmed,
               ss_highest := max (ss_highest st) (block_height b)\<rparr>))"

section \<open>Updating the file\<close>

definition mark_spent :: "bytes set \<Rightarrow> owned_output list \<Rightarrow> owned_output list" where
  "mark_spent spent = map (\<lambda>oo. if oo_commit oo \<in> spent then oo\<lparr>oo_spent := True\<rparr> else oo)"

text \<open>The first entry with the identifier that is in no block.\<close>

fun confirm_entry :: "string \<times> u64 \<times> u64 \<Rightarrow> history_entry list \<Rightarrow> history_entry list" where
  "confirm_entry c [] = []"
| "confirm_entry c (e # es) =
     (if he_txid e = fst c \<and> he_height e = None
      then e\<lparr>he_height := Some (fst (snd c)), he_timestamp := snd (snd c)\<rparr> # es
      else e # confirm_entry c es)"

definition append_new ::
  "(history_entry \<Rightarrow> history_entry \<Rightarrow> bool) \<Rightarrow> history_entry \<Rightarrow> history_entry list \<Rightarrow> history_entry list" where
  "append_new same e es = (if \<exists>x \<in> set es. same x e then es else es @ [e])"

definition same_discovery :: "history_entry \<Rightarrow> history_entry \<Rightarrow> bool" where
  "same_discovery x e \<longleftrightarrow> he_txid x = he_txid e \<and> he_direction x = he_direction e \<and> he_amount x = he_amount e"

definition same_light_discovery :: "history_entry \<Rightarrow> history_entry \<Rightarrow> bool" where
  "same_light_discovery x e \<longleftrightarrow> he_txid x = he_txid e \<and> he_direction x = he_direction e"

definition entry_height :: "history_entry \<Rightarrow> u64" where
  "entry_height e = (case he_height e of None \<Rightarrow> - 1 | Some h \<Rightarrow> h)"

text \<open>The stable sort, newest first, entries in no block before all others.\<close>

definition sort_history :: "history_entry list \<Rightarrow> history_entry list" where
  "sort_history = sort_key (\<lambda>e. - int (unat (entry_height e)))"

definition hex_commit :: "string \<Rightarrow> bytes option" where
  "hex_commit s = (case hex_decode s of None \<Rightarrow> None | Some c \<Rightarrow> if length c = 32 then Some c else None)"

definition kept_entry :: "bytes set \<Rightarrow> history_entry \<Rightarrow> bool" where
  "kept_entry dropped e \<longleftrightarrow>
     (case he_direction e of
        Sent \<Rightarrow> True
      | _ \<Rightarrow> (case hex_commit (he_txid e) of None \<Rightarrow> True | Some c \<Rightarrow> c \<notin> dropped))"

definition unconfirm :: "bytes set \<Rightarrow> history_entry \<Rightarrow> history_entry" where
  "unconfirm spent e =
     (if he_direction e = Sent \<and> he_height e \<noteq> None
         \<and> \<not> (he_spent e \<noteq> [] \<and> set (he_spent e) \<subseteq> spent)
      then e\<lparr>he_height := None, he_quarantined := True\<rparr> else e)"

definition blocks_outputs :: "block list \<Rightarrow> bytes set" where
  "blocks_outputs bs = (\<Union>b \<in> set bs. out_commit ` set (b_outputs (blk_body b)))"

definition last_height :: "block list \<Rightarrow> u64" where
  "last_height bs = (if bs = [] then 0 else block_height (last bs))"

definition reconcile_with :: "block list \<Rightarrow> bytes set \<Rightarrow> wallet_file \<Rightarrow> wallet_file" where
  "reconcile_with bs spent db =
     (let on_chain = blocks_outputs bs;
          dropped = {c \<in> oo_commit ` set (wf_outputs db). c \<notin> on_chain};
          kept = filter (\<lambda>oo. oo_commit oo \<in> on_chain) (wf_outputs db)
      in db\<lparr>wf_outputs := map (\<lambda>oo. oo\<lparr>oo_spent := (oo_commit oo \<in> spent)\<rparr>) kept,
            wf_history := map (unconfirm spent) (filter (kept_entry dropped) (wf_history db)),
            wf_scanned_to := (if length kept \<noteq> length (wf_outputs db) then last_height bs
                              else wf_scanned_to db)\<rparr>)"

section \<open>Scanning blocks\<close>

definition scan_start :: "bool \<Rightarrow> wallet_file \<Rightarrow> block list \<Rightarrow> u64" where
  "scan_start force db bs =
     (if force then (case bs of [] \<Rightarrow> 0 | b # _ \<Rightarrow> block_height b) else scan_from db)"

definition scan_page ::
  "('p::ab_group_add, 's::comm_ring_1) crypto \<Rightarrow> 's view_key \<Rightarrow> bool \<Rightarrow> wallet_file \<Rightarrow> block list
     \<Rightarrow> scan_state" where
  "scan_page C view force db bs =
     fold (scan_one_block C view (oo_commit ` set (wf_outputs db)) (pending_sends db)) bs
       \<lparr>ss_spent = {}, ss_owned = [], ss_new = [], ss_confirmed = [],
        ss_highest = scan_start force db bs, ss_found = 0\<rparr>"

text \<open>The file after a page whose findings are \<open>st\<close>.\<close>

definition scanned_file ::
  "('p, 's) crypto \<Rightarrow> bool \<Rightarrow> block list \<Rightarrow> scan_state \<Rightarrow> wallet_file \<Rightarrow> wallet_file" where
  "scanned_file C force bs st db0 =
     (let db1 = db0\<lparr>wf_outputs := mark_spent (ss_spent st) (wf_outputs db0 @ ss_owned st)\<rparr>;
          db2 = (if force \<or> covers_canonical_history bs (wf_birth db1) (wf_scanned_to db1) (wf_outputs db1)
                 then reconcile_with bs (ss_spent st) db1 else db1);
          hist = sort_history (fold (append_new same_discovery) (ss_new st)
                   (fold confirm_entry (ss_confirmed st) (wf_history db2)))
      in db2\<lparr>wf_history := hist, wf_scanned_to := ss_highest st,
             wf_scanned_tip := (case List.find (\<lambda>b. block_height b = ss_highest st) bs of
                                  None \<Rightarrow> wf_scanned_tip db2 | Some b \<Rightarrow> anchor_of C b)\<rparr>)"

definition scan_blocks_inner ::
  "('p::ab_group_add, 's::comm_ring_1) crypto \<Rightarrow> 's saver \<Rightarrow> bool \<Rightarrow> block list \<Rightarrow> 's wallet
     \<Rightarrow> 's wallet \<times> (wallet_error + u32)" where
  "scan_blocks_inner C sv force bs w =
     (let st = scan_page C (keys_view_key C (w_keys w)) force (w_db w) bs
      in save_as sv (set_db (scanned_file C force bs st) w) (ss_found st))"

definition scan_blocks ::
  "('p::ab_group_add, 's::comm_ring_1) crypto \<Rightarrow> 's saver \<Rightarrow> block list \<Rightarrow> 's wallet
     \<Rightarrow> 's wallet \<times> (wallet_error + u32)" where
  "scan_blocks C sv bs w =
     (case check_chain_continuity C (w_db w) bs of
        Inl e \<Rightarrow> (w, Inl e) | Inr _ \<Rightarrow> scan_blocks_inner C sv False bs w)"

text \<open>The first height at which the blocks are not consecutive.\<close>

fun check_consecutive :: "u64 \<Rightarrow> block list \<Rightarrow> wallet_error + unit" where
  "check_consecutive h [] = Inr ()"
| "check_consecutive h (b # bs) =
     (if block_height b = h then check_consecutive (h + 1) bs else Inl (ChainGap h))"

definition rebase_check :: "wallet_file \<Rightarrow> block list \<Rightarrow> wallet_error + unit" where
  "rebase_check db bs =
     (case bs of
        [] \<Rightarrow> Inl NoBlocks
      | first # _ \<Rightarrow>
          (let start = block_height first in
           res_bind (ensure RebaseNotFromBirth (start = 0 \<or> start = wf_birth db)) (\<lambda>_.
           res_bind (check_consecutive start bs) (\<lambda>_.
             ensure NotShorter (last_height bs < wf_scanned_to db)))))"

definition rebase_on_shorter_chain ::
  "('p::ab_group_add, 's::comm_ring_1) crypto \<Rightarrow> 's saver \<Rightarrow> block list \<Rightarrow> 's wallet
     \<Rightarrow> 's wallet \<times> (wallet_error + u32)" where
  "rebase_on_shorter_chain C sv bs w =
     (case rebase_check (w_db w) bs of
        Inl e \<Rightarrow> (w, Inl e) | Inr _ \<Rightarrow> scan_blocks_inner C sv True bs w)"

end
