(* ===== verification/Wallet_Send.thy ===== *)
theory Wallet_Send
  imports Wallet_Scan
begin

text \<open>
  Spending from \<open>crates/nightfall-wallet/src/lib.rs\<close>: choosing coins, building payments,
  recording sends, releasing and withholding them, reservations for swaps, the till's edits,
  and the answer to an offline request.
\<close>

section \<open>Choosing coins\<close>

definition available_coins :: "wallet_file \<Rightarrow> u64 \<Rightarrow> u64 \<Rightarrow> owned_output list" where
  "available_coins db tip maturity =
     filter (\<lambda>oo. \<not> oo_spent oo \<and> oo_commit oo \<notin> pending_input_commits db
                 \<and> \<not> is_reserved db (oo_commit oo) \<and> (maturity = 0 \<or> matured oo tip maturity))
       (wf_outputs db)"

definition largest_first :: "owned_output list \<Rightarrow> owned_output list" where
  "largest_first = sort_key (\<lambda>oo. - int (unat (oo_value oo)))"

fun choose_coins ::
  "('p, 's::comm_ring_1) crypto \<Rightarrow> 's wallet_keys \<Rightarrow> u64 \<Rightarrow> owned_output list
     \<Rightarrow> u64 \<Rightarrow> 's spendable list \<Rightarrow> wallet_error + ('s spendable list \<times> u64)" where
  "choose_coins C keys target [] amt_sum chosen = Inr (chosen, amt_sum)"
| "choose_coins C keys target (oo # oos) amt_sum chosen =
     (if target \<le> amt_sum then Inr (chosen, amt_sum)
      else
        res_bind (to_spendable C keys oo) (\<lambda>s.
          choose_coins C keys target oos (sat_add amt_sum (oo_value oo)) (chosen @ [s])))"

definition select_coins_at ::
  "('p, 's::comm_ring_1) crypto \<Rightarrow> 's wallet \<Rightarrow> u64 \<Rightarrow> u64 \<Rightarrow> u64 \<Rightarrow> wallet_error + 's spendable list" where
  "select_coins_at C w target tip maturity =
     (let coins = largest_first (available_coins (w_db w) tip maturity);
          available_total = sat_sum (map oo_value coins) in
      res_bind (choose_coins C (w_keys w) target (take MAX_INPUTS coins) 0 []) (\<lambda>(chosen, amt_sum).
        if amt_sum < target then
          (if target \<le> available_total then Inl TooManyCoins else Inl (NotEnough available_total target))
        else Inr chosen))"

definition pick_commit_hexes_at ::
  "('p, 's::comm_ring_1) crypto \<Rightarrow> 's wallet \<Rightarrow> u64 \<Rightarrow> u64 \<Rightarrow> u64 \<Rightarrow> wallet_error + string list" where
  "pick_commit_hexes_at C w target tip maturity =
     res_bind (select_coins_at C w target tip maturity) (\<lambda>ss. Inr (map (\<lambda>s. hex_encode (sp_commit s)) ss))"

section \<open>Building payments\<close>

definition wallet_rules :: "network_id \<Rightarrow> u64 \<Rightarrow> build_rules" where
  "wallet_rules n tip = (if tip = 0 then build_rules_default else rules_for_height n (sat_add tip 1))"

definition build_payment ::
  "('p::ab_group_add, 's::comm_ring_1) crypto \<Rightarrow> 's draws \<Rightarrow> 's wallet \<Rightarrow> 's spendable list \<Rightarrow> address
     \<Rightarrow> u64 \<Rightarrow> u64 \<Rightarrow> string \<Rightarrow> u64 \<Rightarrow> wallet_error + transaction" where
  "build_payment C dr w inputs to amount fee memo tip =
     map_err Build (build_transfer_with C dr inputs
       [\<lparr>pay_to = to, pay_amount = amount, pay_memo = str_bytes memo\<rparr>] fee
       (keys_address C (w_keys w)) 0 (proof_context (w_network w)) (wallet_rules (w_network w) tip))"

definition create_payment_at ::
  "('p::ab_group_add, 's::comm_ring_1) crypto \<Rightarrow> 's draws \<Rightarrow> 's wallet \<Rightarrow> address \<Rightarrow> u64 \<Rightarrow> u64 \<Rightarrow> string
     \<Rightarrow> u64 \<Rightarrow> u64 \<Rightarrow> wallet_error + transaction" where
  "create_payment_at C dr w to amount fee memo tip maturity =
     res_bind (ok_or AmountOverflowed (checked_add amount fee)) (\<lambda>target.
     res_bind (select_coins_at C w target tip maturity) (\<lambda>inputs.
       build_payment C dr w inputs to amount fee memo tip))"

fun gather_commits ::
  "('p, 's::comm_ring_1) crypto \<Rightarrow> 's wallet \<Rightarrow> string list \<Rightarrow> u64 \<Rightarrow> u64 \<Rightarrow> owned_output list
     \<Rightarrow> u64 \<Rightarrow> 's spendable list \<Rightarrow> wallet_error + ('s spendable list \<times> u64)" where
  "gather_commits C w wanted tip maturity [] amt_sum chosen = Inr (chosen, amt_sum)"
| "gather_commits C w wanted tip maturity (oo # oos) amt_sum chosen =
     (if oo_spent oo \<or> oo_commit oo \<in> pending_input_commits (w_db w)
         \<or> hex_encode (oo_commit oo) \<notin> set wanted
      then gather_commits C w wanted tip maturity oos amt_sum chosen
      else if maturity \<noteq> 0 \<and> \<not> matured oo tip maturity then Inl ImmatureReserved
      else
        res_bind (to_spendable C (w_keys w) oo) (\<lambda>s.
          gather_commits C w wanted tip maturity oos (sat_add amt_sum (oo_value oo)) (chosen @ [s])))"

definition create_payment_from_commits_at ::
  "('p::ab_group_add, 's::comm_ring_1) crypto \<Rightarrow> 's draws \<Rightarrow> 's wallet \<Rightarrow> string list \<Rightarrow> address
     \<Rightarrow> u64 \<Rightarrow> u64 \<Rightarrow> string \<Rightarrow> u64 \<Rightarrow> u64 \<Rightarrow> wallet_error + transaction" where
  "create_payment_from_commits_at C dr w commits to amount fee memo tip maturity =
     res_bind (gather_commits C w commits tip maturity (wf_outputs (w_db w)) 0 []) (\<lambda>(inputs, amt_sum).
     res_bind (ok_or AmountOverflowed (checked_add amount fee)) (\<lambda>target.
       if amt_sum < target then Inl (ReservedTooSmall amt_sum target)
       else build_payment C dr w inputs to amount fee memo tip))"

section \<open>Recording sends\<close>

text \<open>JSON of a transaction: \<open>serde_json::to_string\<close> and \<open>from_str\<close>.\<close>

record wallet_json =
  tx_to_json :: "transaction \<Rightarrow> string option"
  tx_of_json :: "string \<Rightarrow> transaction option"
  export_json :: "u32 \<times> string \<times> string \<times> wallet_file \<Rightarrow> string option"
  import_json :: "string \<Rightarrow> (u32 \<times> string \<times> string \<times> wallet_file) option"

definition sent_entry ::
  "('p, 's) crypto \<Rightarrow> wallet_json \<Rightarrow> transaction \<Rightarrow> u64 \<Rightarrow> string \<Rightarrow> u64 \<Rightarrow> history_entry" where
  "sent_entry C J tx amount memo time =
     \<lparr>he_direction = Sent, he_amount = amount, he_fee = total_fee tx, he_memo = memo, he_height = None,
      he_txid = hash_to_hex (txid C tx), he_timestamp = time,
      he_spent = map in_commit (tx_inputs tx), he_raw = tx_to_json J tx,
      he_quarantined = False, he_failed = False\<rparr>"

definition sent_file ::
  "('p, 's) crypto \<Rightarrow> wallet_json \<Rightarrow> transaction \<Rightarrow> u64 \<Rightarrow> string \<Rightarrow> u64 \<Rightarrow> wallet_file \<Rightarrow> wallet_file" where
  "sent_file C J tx amount memo time db =
     db\<lparr>wf_outputs := mark_spent (in_commit ` set (tx_inputs tx)) (wf_outputs db),
        wf_history := (if hash_to_hex (txid C tx) \<in> he_txid ` set (wf_history db) then wf_history db
                       else sent_entry C J tx amount memo time # wf_history db)\<rparr>"

definition record_send_at ::
  "('p, 's) crypto \<Rightarrow> wallet_json \<Rightarrow> 's saver \<Rightarrow> transaction \<Rightarrow> u64 \<Rightarrow> string \<Rightarrow> u64 \<Rightarrow> 's wallet
     \<Rightarrow> 's wallet \<times> (wallet_error + unit)" where
  "record_send_at C J sv tx amount memo time w =
     save_as sv (set_db (sent_file C J tx amount memo time) w) ()"

definition mark_pending_spend ::
  "('p, 's) crypto \<Rightarrow> wallet_json \<Rightarrow> 's saver \<Rightarrow> transaction \<Rightarrow> u64 \<Rightarrow> 's wallet
     \<Rightarrow> 's wallet \<times> (wallet_error + unit)" where
  "mark_pending_spend C J sv tx now w = record_send_at C J sv tx 0 [] now w"

section \<open>Releasing and withholding sends\<close>

definition fail_send :: "string list \<Rightarrow> history_entry \<Rightarrow> history_entry" where
  "fail_send txids e =
     (if pending_send e \<and> he_txid e \<in> set txids then e\<lparr>he_failed := True, he_quarantined := True\<rparr> else e)"

definition released_file :: "string list \<Rightarrow> bytes set \<Rightarrow> wallet_file \<Rightarrow> wallet_file" where
  "released_file txids unspend db =
     (let db1 = db\<lparr>wf_history := map (fail_send txids) (wf_history db)\<rparr>;
          claimed = pending_input_commits db1
      in db1\<lparr>wf_outputs := map (\<lambda>oo. if oo_commit oo \<in> unspend \<and> oo_commit oo \<notin> claimed
                                 then oo\<lparr>oo_spent := False\<rparr> else oo) (wf_outputs db1)\<rparr>)"

definition release_sends ::
  "'s saver \<Rightarrow> string list \<Rightarrow> bytes set \<Rightarrow> 's wallet \<Rightarrow> 's wallet \<times> (wallet_error + nat)" where
  "release_sends sv txids unspend w =
     (let removed = length (filter (\<lambda>e. pending_send e \<and> he_txid e \<in> set txids) (wf_history (w_db w))) in
      if removed = 0 then (w, Inr 0)
      else save_or_restore sv w (set_db (released_file txids unspend) w) removed)"

definition unconfirmed_sends :: "wallet_file \<Rightarrow> history_entry list" where
  "unconfirmed_sends db = filter pending_send (wf_history db)"

definition resendable :: "wallet_json \<Rightarrow> wallet_file \<Rightarrow> (string \<times> transaction) list" where
  "resendable J db =
     List.map_filter (\<lambda>e. Option.bind (he_raw e) (\<lambda>raw. map_option (Pair (he_txid e)) (tx_of_json J raw)))
       (filter (\<lambda>e. \<not> he_quarantined e \<and> pending_send e) (wf_history db))"

definition quarantined :: "wallet_file \<Rightarrow> history_entry list" where
  "quarantined db = filter needs_owner_decision (wf_history db)"

definition withhold :: "(history_entry \<Rightarrow> bool) \<Rightarrow> wallet_file \<Rightarrow> wallet_file" where
  "withhold P db = db\<lparr>wf_history := map (\<lambda>e. if P e then e\<lparr>he_quarantined := True\<rparr> else e) (wf_history db)\<rparr>"

definition quarantine_pending_sends ::
  "'s saver \<Rightarrow> 's wallet \<Rightarrow> 's wallet \<times> (wallet_error + nat)" where
  "quarantine_pending_sends sv w =
     (let P = (\<lambda>e. pending_send e \<and> \<not> he_quarantined e);
          marked = length (filter P (wf_history (w_db w))) in
      if marked = 0 then (w, Inr 0) else save_as sv (set_db (withhold P) w) marked)"

definition quarantine_imported_sends ::
  "'s saver \<Rightarrow> 's wallet \<Rightarrow> 's wallet \<times> (wallet_error + nat)" where
  "quarantine_imported_sends sv w =
     (let P = (\<lambda>e. he_direction e = Sent \<and> \<not> he_quarantined e);
          w' = set_db (withhold P) w in
      if \<not> (\<exists>e \<in> set (wf_history (w_db w)). P e) then (w, Inr (length (quarantined (w_db w))))
      else save_as sv w' (length (quarantined (w_db w'))))"

section \<open>Reservations, invoices, resetting\<close>

definition add_missing :: "string list \<Rightarrow> string list \<Rightarrow> string list" where
  "add_missing hexes reserved = fold (\<lambda>h rs. if h \<in> set rs then rs else rs @ [h]) hexes reserved"

definition reserve_commits ::
  "'s saver \<Rightarrow> string list \<Rightarrow> 's wallet \<Rightarrow> 's wallet \<times> (wallet_error + unit)" where
  "reserve_commits sv hexes w =
     save_or_restore sv w (set_db (wf_reserved_update (add_missing hexes)) w) ()"

definition release_commits ::
  "'s saver \<Rightarrow> string list \<Rightarrow> 's wallet \<Rightarrow> 's wallet \<times> (wallet_error + unit)" where
  "release_commits sv hexes w =
     save_or_restore sv w (set_db (wf_reserved_update (filter (\<lambda>r. r \<notin> set hexes))) w) ()"

definition edit_till ::
  "'s saver \<Rightarrow> (till \<Rightarrow> invoice_error + till) \<Rightarrow> 's wallet \<Rightarrow> 's wallet \<times> (wallet_error + unit)" where
  "edit_till sv f w =
     (case f (wf_invoices (w_db w)) of
        Inl e \<Rightarrow> (w, Inl (InvoiceProblem e))
      | Inr t \<Rightarrow> save_as sv (set_db (wf_invoices_update (\<lambda>_. t)) w) ())"

definition wallet_incoming :: "wallet_file \<Rightarrow> incoming list" where
  "wallet_incoming db =
     map (\<lambda>e. \<lparr>ic_amount = he_amount e, ic_memo = he_memo e, ic_height = he_height e,
              ic_time = he_timestamp e, ic_id = he_txid e\<rparr>)
       (filter (\<lambda>e. he_direction e = Received) (wf_history db))"

definition wallet_till :: "wallet_file \<Rightarrow> u64 \<Rightarrow> (invoice \<times> invoice_status) list" where
  "wallet_till db now = till_status (wf_invoices db) (wallet_incoming db) now"

definition reset_file :: "wallet_file \<Rightarrow> wallet_file" where
  "reset_file db =
     wallet_file_default\<lparr>wf_birth := wf_birth db, wf_scanned_to := wf_birth db,
       wf_invoices := wf_invoices db, wf_air_signed := wf_air_signed db\<rparr>"

definition reset_scan :: "'s saver \<Rightarrow> 's wallet \<Rightarrow> 's wallet \<times> (wallet_error + unit)" where
  "reset_scan sv w =
     (if has_swap_recovery (w_db w) then (w, Inl SwapRecovery) else save_as sv (set_db reset_file w) ())"

section \<open>Copies of a wallet\<close>

definition MAX_PLAINTEXT_BYTES :: nat where [params]: "MAX_PLAINTEXT_BYTES = 256 * 1024 * 1024"

definition export_state :: "wallet_json \<Rightarrow> 's wallet \<Rightarrow> wallet_error + string" where
  "export_state J w =
     ok_or BadState
       (export_json J (1, network_as_str (w_network w), hex_encode (seed (w_keys w)), w_db w))"

definition import_own_state ::
  "('p, 's) crypto \<Rightarrow> wallet_json \<Rightarrow> string \<Rightarrow> wallet_error + 's wallet" where
  "import_own_state C J blob =
     res_bind (ok_or BadState (import_json J blob)) (\<lambda>(v, network, seed_hex, db).
     res_bind (map_err BadJournal (journal_validate (wf_journal db))) (\<lambda>_.
     if v \<noteq> 1 then Inl UnsupportedVersion
     else
       res_bind (map_err (\<lambda>_. UnknownWalletNetwork) (network_from network)) (\<lambda>n.
       res_bind (ok_or BadSeed (hex_commit seed_hex)) (\<lambda>sd.
         Inr \<lparr>w_keys = keys_from_seed C sd, w_network = n, w_db = db, w_persist = False\<rparr>))))"

definition import_state ::
  "('p, 's) crypto \<Rightarrow> wallet_json \<Rightarrow> string \<Rightarrow> wallet_error + 's wallet" where
  "import_state C J blob =
     (if MAX_PLAINTEXT_BYTES < length blob then Inl StateTooLarge else import_own_state C J blob)"

definition adopt_scan_state ::
  "('p, 's) crypto \<Rightarrow> 's saver \<Rightarrow> 's wallet \<Rightarrow> 's wallet \<Rightarrow> 's wallet \<times> (wallet_error + unit)" where
  "adopt_scan_state C sv candidate w =
     (if \<not> w_persist candidate \<and> w_network candidate = w_network w
         \<and> seed (w_keys candidate) = seed (w_keys w)
         \<and> keys_address C (w_keys candidate) = keys_address C (w_keys w)
      then save_or_restore sv w (set_db (\<lambda>_. w_db candidate) w) ()
      else (w, Inl DifferentWallet))"

section \<open>Answering an offline request\<close>

definition air_answer :: "wallet_json \<Rightarrow> air_signature \<Rightarrow> string \<Rightarrow> wallet_error + transaction" where
  "air_answer J saved text =
     (if as_intent saved = text then ok_or BadRaw (tx_of_json J (as_raw saved)) else Inl NonceReused)"

text \<open>The copy that signs: the payment and its answer recorded together.\<close>

definition air_candidate ::
  "('p::ab_group_add, 's::comm_ring_1) crypto \<Rightarrow> wallet_json \<Rightarrow> 's draws \<Rightarrow> 's saver \<Rightarrow> intent \<Rightarrow> u64 \<Rightarrow> u64
     \<Rightarrow> 's wallet \<Rightarrow> wallet_error + ('s wallet \<times> transaction)" where
  "air_candidate C J dr sv i maturity clock w =
     res_bind (export_state J w) (\<lambda>plain.
     res_bind (import_state C J plain) (\<lambda>cand.
     res_bind (create_payment_at C dr cand (it_to i) (it_amount i) (it_fee i) [] (it_tip i) maturity)
       (\<lambda>tx.
     (case record_send_at C J sv tx (it_amount i) [] clock cand of
        (_, Inl e) \<Rightarrow> Inl e
      | (cand', Inr _) \<Rightarrow>
          res_bind (ok_or BadRaw (tx_to_json J tx)) (\<lambda>raw.
            Inr (set_db (wf_air_signed_update
                   (om_insert (it_nonce i) \<lparr>as_intent = intent_text C i, as_raw = raw\<rparr>)) cand', tx))))))"

definition prepare_air_payment ::
  "('p::ab_group_add, 's::comm_ring_1) crypto \<Rightarrow> wallet_json \<Rightarrow> 's draws \<Rightarrow> 's saver \<Rightarrow> intent \<Rightarrow> u64 \<Rightarrow> u64
     \<Rightarrow> u64 \<Rightarrow> 's wallet \<Rightarrow> 's wallet \<times> (wallet_error + transaction)" where
  "prepare_air_payment C J dr sv i0 maturity now clock w =
     (case res_bind (map_err AirProblem (intent_parse C (intent_text C i0))) (\<lambda>i.
             res_bind (map_err AirProblem (intent_check i (w_network w) now)) (\<lambda>_. Inr i)) of
        Inl e \<Rightarrow> (w, Inl e)
      | Inr i \<Rightarrow>
          (case map_of (wf_air_signed (w_db w)) (it_nonce i) of
             Some saved \<Rightarrow> (w, air_answer J saved (intent_text C i))
           | None \<Rightarrow>
               if \<not> length (wf_air_signed (w_db w)) < 4096 then (w, Inl AirHistoryFull)
               else if it_to i = keys_address C (w_keys w) then (w, Inl OwnAddress)
               else
                 (case air_candidate C J dr sv i maturity clock w of
                    Inl e \<Rightarrow> (w, Inl e)
                  | Inr (cand, tx) \<Rightarrow>
                      (case adopt_scan_state C sv cand w of
                         (w', Inl e) \<Rightarrow> (w', Inl e) | (w', Inr _) \<Rightarrow> (w', Inr tx)))))"

end
