(* ===== verification/Wallet_Coins.thy ===== *)
theory Wallet_Coins
  imports Wallet_Send
begin

text \<open>
  Coin selection: the coins chosen are free to be spent, cover the target, and no set of
  available coins that covers it is smaller; selection fails only when the largest coins that
  fit one transaction do not cover the target.
\<close>

section \<open>The largest values\<close>

lemma take_Cons_ge:
  "sorted (rev (x # xs)) \<Longrightarrow> sum_list (take n xs) \<le> sum_list (take n (x # xs))" for x :: nat
proof (induction xs arbitrary: n x)
  case (Cons y ys)
  show ?case
  proof (cases n)
    case (Suc m)
    have "sorted (rev (y # ys))" "y \<le> x"
      using Cons.prems by (auto simp: sorted_append)
    then show ?thesis using Cons.IH [of y m] Suc by simp
  qed simp
qed simp

lemma top_sum:
  "sorted (rev xs) \<Longrightarrow> mset ys \<subseteq># mset xs \<Longrightarrow> sum_list ys \<le> sum_list (take (length ys) xs)"
  for xs ys :: "nat list"
proof (induction xs arbitrary: ys)
  case (Cons x xs)
  have sorted: "sorted (rev xs)" using Cons.prems(1) by (simp add: sorted_append)
  show ?case
  proof (cases "x \<in> set ys")
    case True
    have sub: "mset (remove1 x ys) \<subseteq># mset xs"
      using Cons.prems(2) by (simp add: subset_eq_diff_conv)
    have "sum_list (remove1 x ys) \<le> sum_list (take (length ys - 1) xs)"
      using Cons.IH [OF sorted sub] True by (simp add: length_remove1)
    moreover have "sum_list ys = x + sum_list (remove1 x ys)"
      using True by (simp add: sum_list_map_remove1 [of x ys "\<lambda>x. x", simplified])
    moreover have "0 < length ys" using True by (cases ys) auto
    then obtain m where "length ys = Suc m" by (cases ys) auto
    ultimately show ?thesis by simp
  next
    case False
    have "mset ys \<subseteq># mset xs"
    proof (rule mset_subset_eqI)
      fix a
      show "count (mset ys) a \<le> count (mset xs) a"
        using mset_subset_eq_count [OF Cons.prems(2), of a] False
        by (cases "a = x") (auto simp: count_eq_zero_iff [THEN iffD2])
    qed
    then show ?thesis
      using Cons.IH [OF sorted] take_Cons_ge [OF Cons.prems(1)] by (meson le_trans)
  qed
qed simp

section \<open>The loop\<close>

definition coin_value :: "owned_output \<Rightarrow> nat" where "coin_value oo = unat (oo_value oo)"

definition coins_value :: "owned_output list \<Rightarrow> nat" where
  "coins_value oos = (\<Sum>oo \<leftarrow> oos. coin_value oo)"

lemma coins_value_simps [simp]:
  "coins_value [] = 0" "coins_value (oo # oos) = coin_value oo + coins_value oos"
  "coins_value (as @ bs) = coins_value as + coins_value bs"
  by (simp_all add: coins_value_def)

lemma target_le_sat: "target \<le> t \<longleftrightarrow> unat target \<le> n" if "unat t = min (2 ^ 64 - 1) n" for t target :: u64
proof -
  have "unat target < 2 ^ 64" using unsigned_less [of target, where ?'a = nat] by simp
  then show ?thesis using that by (auto simp: word_le_nat_alt)
qed

lemma sat_step:
  "unat tot = min (2 ^ 64 - 1) n \<Longrightarrow> unat (sat_add tot v) = min (2 ^ 64 - 1) (n + unat v)" for v tot :: u64
  by (auto simp: unat_sat_add)

lemma choose_coins_spec:
  assumes "choose_coins C keys target xs tot ch = Inr (chosen, t)" "unat tot = min (2 ^ 64 - 1) n"
  shows "\<exists>k ss. k \<le> length xs \<and> chosen = ch @ ss \<and> list_all2 (\<lambda>oo s. to_spendable C keys oo = Inr s) (take k xs) ss
    \<and> unat t = min (2 ^ 64 - 1) (n + coins_value (take k xs))
    \<and> (\<forall>j < k. n + coins_value (take j xs) < unat target)
    \<and> (k = length xs \<or> unat target \<le> n + coins_value (take k xs))"
  using assms
proof (induction C keys target xs tot ch arbitrary: n rule: choose_coins.induct)
  case (2 C keys target oo oos tot ch)
  show ?case
  proof (cases "target \<le> tot")
    case True
    then show ?thesis
      using 2(2,3) target_le_sat [OF 2(3), of target] by (intro exI [of _ 0] exI [of _ "[]"]) auto
  next
    case False
    then obtain s where s: "to_spendable C keys oo = Inr s"
      and rest: "choose_coins C keys target oos (sat_add tot (oo_value oo)) (ch @ [s]) = Inr (chosen, t)"
      using 2(2) by (auto simp: res_simps)
    obtain k ss where k: "k \<le> length oos" "chosen = (ch @ [s]) @ ss"
      "list_all2 (\<lambda>oo s. to_spendable C keys oo = Inr s) (take k oos) ss"
      "unat t = min (2 ^ 64 - 1) (n + coin_value oo + coins_value (take k oos))"
      "\<forall>j < k. n + coin_value oo + coins_value (take j oos) < unat target"
      "k = length oos \<or> unat target \<le> n + coin_value oo + coins_value (take k oos)"
      using 2(1) [OF False rest sat_step [OF 2(3)]] unfolding coin_value_def by blast
    have "n + coins_value (take j (oo # oos)) < unat target" if "j < Suc k" for j
    proof (cases j)
      case 0
      then show ?thesis using False target_le_sat [OF 2(3), of target] by auto
    next
      case (Suc i)
      then show ?thesis using k(5) that by auto
    qed
    then show ?thesis using k s
      by (intro exI [of _ "Suc k"] exI [of _ "s # ss"]) auto
  qed
qed auto

lemma choose_coins_fails:
  assumes "choose_coins C keys target xs tot ch = Inl e"
  shows "\<exists>oo \<in> set xs. to_spendable C keys oo = Inl e"
  using assms
  by (induction C keys target xs tot ch rule: choose_coins.induct)
     (auto simp: res_simps split: if_splits)

section \<open>Selection\<close>

lemma sorted_largest: "sorted (rev (map coin_value (largest_first xs)))"
proof -
  have "sorted (map (\<lambda>oo. - int (coin_value oo)) (largest_first xs))"
    unfolding largest_first_def coin_value_def by (rule sorted_sort_key)
  then have "sorted_wrt (\<lambda>a b. coin_value b \<le> coin_value a) (largest_first xs)"
    by (simp add: sorted_wrt_map)
  then show ?thesis by (simp add: sorted_wrt_rev sorted_wrt_map)
qed

lemma mset_largest [simp]: "mset (largest_first xs) = mset xs"
  by (simp add: largest_first_def)

lemma coins_value_mset: "mset xs = mset ys \<Longrightarrow> coins_value xs = coins_value ys"
  unfolding coins_value_def by (metis mset_map sum_mset_sum_list)

lemma largest_are_most:
  assumes "mset ys \<subseteq># mset xs" "length ys \<le> k"
  shows "coins_value ys \<le> coins_value (take k (largest_first xs))"
proof -
  let ?zs = "largest_first xs"
  have "mset (map coin_value ys) \<subseteq># mset (map coin_value ?zs)"
    using assms(1) by (simp add: image_mset_subseteq_mono)
  then have "coins_value ys \<le> sum_list (take (length ys) (map coin_value ?zs))"
    using top_sum [OF sorted_largest, of "map coin_value ys" xs] by (simp only: coins_value_def length_map)
  also have "\<dots> = coins_value (take (length ys) ?zs)" by (simp add: coins_value_def take_map)
  also have "\<dots> \<le> coins_value (take k ?zs)"
  proof -
    have "take k ?zs = take (length ys) ?zs @ take (k - length ys) (drop (length ys) ?zs)"
      using assms(2) by (metis le_add_diff_inverse take_add)
    then show ?thesis by simp
  qed
  finally show ?thesis .
qed

lemma selection:
  assumes "select_coins_at C w target tip maturity = Inr ss"
  defines "coins \<equiv> largest_first (available_coins (w_db w) tip maturity)"
  shows "\<exists>k \<le> min MAX_INPUTS (length coins).
      list_all2 (\<lambda>oo s. to_spendable C (w_keys w) oo = Inr s) (take k coins) ss
      \<and> unat target \<le> coins_value (take k coins)
      \<and> (\<forall>ys. mset ys \<subseteq># mset (available_coins (w_db w) tip maturity) \<longrightarrow> unat target \<le> coins_value ys
           \<longrightarrow> k \<le> length ys)"
proof -
  obtain tot where ch: "choose_coins C (w_keys w) target (take MAX_INPUTS coins) 0 [] = Inr (ss, tot)"
    and enough: "target \<le> tot"
    using assms(1) by (auto simp: select_coins_at_def Let_def res_simps coins_def not_less split: if_splits)
  have zero: "unat (0 :: u64) = min (2 ^ 64 - 1) 0" by simp
  obtain k where k: "k \<le> length (take MAX_INPUTS coins)"
    "list_all2 (\<lambda>oo s. to_spendable C (w_keys w) oo = Inr s) (take k (take MAX_INPUTS coins)) ss"
    "unat tot = min (2 ^ 64 - 1) (coins_value (take k (take MAX_INPUTS coins)))"
    "\<forall>j < k. coins_value (take j (take MAX_INPUTS coins)) < unat target"
    using choose_coins_spec [OF ch zero] by (simp only: append_Nil add_0) blast
  have kk: "take j (take MAX_INPUTS coins) = take j coins" if "j \<le> k" for j
  proof -
    have "k \<le> MAX_INPUTS" using k(1) by simp
    then show ?thesis using that by (simp add: min_absorb1)
  qed
  have cov: "unat target \<le> coins_value (take k coins)"
    using enough target_le_sat [OF k(3)] kk by simp
  have "k \<le> length ys"
    if "mset ys \<subseteq># mset (available_coins (w_db w) tip maturity)" "unat target \<le> coins_value ys" for ys
  proof (rule ccontr)
    assume "\<not> k \<le> length ys"
    then have "coins_value (take (length ys) coins) < unat target" using k(4) kk by auto
    moreover have "coins_value ys \<le> coins_value (take (length ys) coins)"
      unfolding coins_def by (rule largest_are_most [OF that(1) order_refl])
    ultimately show False using that(2) by simp
  qed
  then show ?thesis using k kk [of k] cov by (intro exI [of _ k]) (auto simp: min_def split: if_splits)
qed

text \<open>When every coin's secrets are readable, only the amounts decide.\<close>

lemma selection_outcome:
  fixes tip maturity target :: u64
  assumes readable: "\<forall>oo \<in> set (wf_outputs (w_db w)). \<exists>s. to_spendable C (w_keys w) oo = Inr s"
  defines "coins \<equiv> largest_first (available_coins (w_db w) tip maturity)"
  shows "(\<exists>ss. select_coins_at C w target tip maturity = Inr ss)
      \<longleftrightarrow> unat target \<le> coins_value (take MAX_INPUTS coins)"
    and "unat target \<le> coins_value coins \<Longrightarrow> coins_value (take MAX_INPUTS coins) < unat target \<Longrightarrow>
      select_coins_at C w target tip maturity = Inl TooManyCoins"
    and "coins_value coins < unat target \<Longrightarrow>
      \<exists>have'. select_coins_at C w target tip maturity = Inl (NotEnough have' target)
        \<and> unat have' = coins_value coins"
proof -
  have "set (take MAX_INPUTS coins) \<subseteq> set (available_coins (w_db w) tip maturity)"
    using set_take_subset [of MAX_INPUTS coins] mset_largest [of "available_coins (w_db w) tip maturity"]
    unfolding coins_def by (metis set_mset_mset)
  then have "\<forall>oo \<in> set (take MAX_INPUTS coins). \<exists>s. to_spendable C (w_keys w) oo = Inr s"
    using readable by (auto simp: available_coins_def)
  then obtain ss tot where ch: "choose_coins C (w_keys w) target (take MAX_INPUTS coins) 0 [] = Inr (ss, tot)"
    using choose_coins_fails [of C "w_keys w" target "take MAX_INPUTS coins" 0 "[]"]
    by (cases "choose_coins C (w_keys w) target (take MAX_INPUTS coins) 0 []") fastforce+
  have zero: "unat (0 :: u64) = min (2 ^ 64 - 1) 0" by simp
  define ys where "ys = take MAX_INPUTS coins"
  obtain k where k: "k \<le> length ys" "unat tot = min (2 ^ 64 - 1) (coins_value (take k ys))"
    "k = length ys \<or> unat target \<le> coins_value (take k ys)"
    using choose_coins_spec [OF ch zero] unfolding ys_def by (simp only: append_Nil add_0) blast
  have part: "coins_value (take j zs) \<le> coins_value zs" for j zs
    by (metis append_take_drop_id coins_value_simps(3) le_add1)
  have enough: "target \<le> tot \<longleftrightarrow> unat target \<le> coins_value ys"
    using target_le_sat [OF k(2), of target] k(3) part [of k ys] by auto
  have avail: "unat (sat_sum (map oo_value coins)) = min (2 ^ 64 - 1) (coins_value coins)"
    by (simp add: unat_sat_sum coins_value_def coin_value_def comp_def)
  note reaches = target_le_sat [OF avail, of target]
  have sel: "select_coins_at C w target tip maturity
      = (if tot < target then
          (if target \<le> sat_sum (map oo_value coins) then Inl TooManyCoins
           else Inl (NotEnough (sat_sum (map oo_value coins)) target))
         else Inr ss)"
    using ch by (simp add: select_coins_at_def Let_def coins_def)
  show "(\<exists>ss. select_coins_at C w target tip maturity = Inr ss)
      \<longleftrightarrow> unat target \<le> coins_value (take MAX_INPUTS coins)"
    using sel enough by (auto simp: ys_def not_less)
  show "unat target \<le> coins_value coins \<Longrightarrow> coins_value (take MAX_INPUTS coins) < unat target \<Longrightarrow>
      select_coins_at C w target tip maturity = Inl TooManyCoins"
    using sel enough reaches by (auto simp: ys_def not_less)
  show "coins_value coins < unat target \<Longrightarrow>
      \<exists>have'. select_coins_at C w target tip maturity = Inl (NotEnough have' target)
        \<and> unat have' = coins_value coins"
  proof -
    assume less: "coins_value coins < unat target"
    moreover have "unat target < 2 ^ 64" using unsigned_less [of target, where ?'a = nat] by simp
    moreover have "coins_value ys \<le> coins_value coins" unfolding ys_def by (rule part)
    ultimately show ?thesis
      using sel enough reaches avail by (auto simp: not_less not_le)
  qed
qed

end
