(* ===== verification/Wallet_Light.thy ===== *)
theory Wallet_Light
  imports Wallet_Scan
begin

text \<open>
  The light scans of \<open>crates/nightfall-wallet/src/lib.rs\<close>: pages of the scan feed of a node,
  plain and anchored by the hashes of the page's ends, and the rescan that starts them anew.
\<close>

record light_output =
  lo_height :: u64
  lo_timestamp :: u64
  lo_commit :: string
  lo_ephemeral_pk :: string
  lo_output_pk :: string
  lo_view_tag :: u8
  lo_payload :: string
  lo_coinbase :: bool

definition as_candidate :: "light_output \<Rightarrow> scan_candidate option" where
  "as_candidate lo =
     Option.bind (hex_commit (lo_commit lo)) (\<lambda>commit.
     Option.bind (hex_commit (lo_ephemeral_pk lo)) (\<lambda>epk.
     Option.bind (hex_commit (lo_output_pk lo)) (\<lambda>opk.
     Option.bind (hex_decode (lo_payload lo)) (\<lambda>payload.
       Some \<lparr>sc_commit = commit, sc_ephemeral_pk = epk, sc_output_pk = opk,
             sc_view_tag = lo_view_tag lo, sc_payload = payload\<rparr>))))"

definition spent_of :: "string list \<Rightarrow> bytes set" where
  "spent_of hexes = set (List.map_filter hex_commit hexes)"

record light_state =
  ls_owned :: "owned_output list"
  ls_new :: "history_entry list"
  ls_found :: u32

definition ingest_output ::
  "('p::ab_group_add, 's::comm_ring_1) crypto \<Rightarrow> 's view_key \<Rightarrow> bytes set \<Rightarrow> bytes set \<Rightarrow> light_output
     \<Rightarrow> light_state \<Rightarrow> light_state" where
  "ingest_output C view known spent lo st =
     (case as_candidate lo of
        None \<Rightarrow> st
      | Some cand \<Rightarrow>
          if sc_commit cand \<in> known then st
          else
            (case scan_candidate_with C view cand of
               None \<Rightarrow> st
             | Some d \<Rightarrow>
                 st\<lparr>ls_owned := ls_owned st @ [owned_from C d (lo_height lo) (lo_coinbase lo)],
                    ls_new := (if lo_coinbase lo \<or> spent \<inter> known = {}
                               then ls_new st @ [received_entry d (lo_height lo) (lo_timestamp lo)
                                      (lo_coinbase lo)]
                               else ls_new st),
                    ls_found := ls_found st + 1\<rparr>))"

definition list_max :: "u64 \<Rightarrow> u64 list \<Rightarrow> u64" where
  "list_max d xs = (if xs = [] then d else Max (set xs))"

definition confirmed_light ::
  "wallet_file \<Rightarrow> bytes set \<Rightarrow> light_output list \<Rightarrow> u64 \<Rightarrow> (string \<times> u64 \<times> u64) list" where
  "confirmed_light db spent outs scanned_to =
     map (\<lambda>p. (fst p, list_max scanned_to (map lo_height outs), list_max 0 (map lo_timestamp outs)))
       (filter (\<lambda>p. snd p \<noteq> [] \<and> set (snd p) \<subseteq> spent) (pending_sends db))"

definition ingested_file ::
  "('p::ab_group_add, 's::comm_ring_1) crypto \<Rightarrow> 's view_key \<Rightarrow> light_output list \<Rightarrow> string list \<Rightarrow> u64
     \<Rightarrow> wallet_file \<Rightarrow> wallet_file \<times> u32" where
  "ingested_file C view outs spent_hex scanned_to db =
     (let spent = spent_of spent_hex;
          st = fold (ingest_output C view (oo_commit ` set (wf_outputs db)) spent) outs
                 \<lparr>ls_owned = [], ls_new = [], ls_found = 0\<rparr>
      in (db\<lparr>wf_outputs := mark_spent spent (wf_outputs db @ ls_owned st),
             wf_history := sort_history (fold (append_new same_light_discovery) (ls_new st)
               (fold confirm_entry (confirmed_light db spent outs scanned_to) (wf_history db))),
             wf_scanned_to := max (wf_scanned_to db) scanned_to\<rparr>, ls_found st))"

definition ingest_scan_page ::
  "('p::ab_group_add, 's::comm_ring_1) crypto \<Rightarrow> 's saver \<Rightarrow> light_output list \<Rightarrow> string list \<Rightarrow> u64
     \<Rightarrow> 's wallet \<Rightarrow> 's wallet \<times> (wallet_error + u32)" where
  "ingest_scan_page C sv outs spent_hex scanned_to w =
     (case ingested_file C (keys_view_key C (w_keys w)) outs spent_hex scanned_to (w_db w) of
        (db, found) \<Rightarrow> save_as sv (set_db (\<lambda>_. db) w) found)"

section \<open>Anchored pages\<close>

definition check_light_output ::
  "('p, 's) crypto \<Rightarrow> u64 \<Rightarrow> u64 \<Rightarrow> bytes list \<Rightarrow> light_output \<Rightarrow> wallet_error + bytes list" where
  "check_light_output C from scanned_to seen lo =
     res_bind (ensure OutputOutsidePage (from \<le> lo_height lo \<and> lo_height lo \<le> scanned_to)) (\<lambda>_.
     res_bind (ok_or MalformedOutput (as_candidate lo)) (\<lambda>cand.
     res_bind (ensure DuplicateOutput (sc_commit cand \<notin> set seen)) (\<lambda>_.
     res_bind (ensure BadPayloadLength (length (sc_payload cand) = 120)) (\<lambda>_.
     res_bind (ensure BadPoint
       (\<forall>pt \<in> {sc_commit cand, sc_ephemeral_pk cand, sc_output_pk cand}. decompress C pt \<noteq> None)) (\<lambda>_.
       Inr (sc_commit cand # seen))))))"

definition check_anchored_page ::
  "('p, 's) crypto \<Rightarrow> 's wallet \<Rightarrow> light_output list \<Rightarrow> string list \<Rightarrow> u64 \<Rightarrow> u64 \<Rightarrow> string \<Rightarrow> string
     \<Rightarrow> wallet_error + bytes" where
  "check_anchored_page C w outs spent_hex from scanned_to from_hash scanned_hash =
     (let db = w_db w in
      res_bind (ensure NotInMemory (\<not> w_persist w)) (\<lambda>_.
      res_bind (ok_or BadStartHash (hex_commit from_hash)) (\<lambda>first_hash.
      res_bind (ok_or BadEndHash (hex_commit scanned_hash)) (\<lambda>last_hash.
      res_bind (ensure PageDoesNotContinue (from = scan_from db \<and> from \<le> scanned_to)) (\<lambda>_.
      res_bind (ensure PageTooLong (scanned_to - from < 1024)) (\<lambda>_.
      res_bind (ensure SingleBlockPage (from \<noteq> scanned_to \<or> first_hash = last_hash)) (\<lambda>_.
      res_bind (ensure RebuildFirst (\<not> needs_light_rebuild db)) (\<lambda>_.
      res_bind (if wf_scanned_tip db = [] then ensure NotAtBirth (from = wf_birth db)
                else ensure ChainChanged (hex_commit (wf_scanned_tip db) = Some first_hash)) (\<lambda>_.
      res_bind (res_fold (check_light_output C from scanned_to) [] outs) (\<lambda>_.
      res_bind (ensure MalformedSpent (\<forall>h \<in> set spent_hex. hex_commit h \<noteq> None)) (\<lambda>_.
        Inr last_hash)))))))))))"

definition ingest_anchored_scan_page ::
  "('p::ab_group_add, 's::comm_ring_1) crypto \<Rightarrow> 's saver \<Rightarrow> light_output list \<Rightarrow> string list \<Rightarrow> u64 \<Rightarrow> u64
     \<Rightarrow> string \<Rightarrow> string \<Rightarrow> 's wallet \<Rightarrow> 's wallet \<times> (wallet_error + u32)" where
  "ingest_anchored_scan_page C sv outs spent_hex from scanned_to from_hash scanned_hash w =
     (case check_anchored_page C w outs spent_hex from scanned_to from_hash scanned_hash of
        Inl e \<Rightarrow> (w, Inl e)
      | Inr last_hash \<Rightarrow>
          (case ingest_scan_page C sv outs spent_hex scanned_to w of
             (w1, Inl e) \<Rightarrow> (w1, Inl e)
           | (w1, Inr found) \<Rightarrow>
               save_as sv (set_db (wf_scanned_tip_update (\<lambda>_. hex_encode last_hash)) w1) found))"

text \<open>The rescan keeps invoices and signed sends, and withholds every send.\<close>

definition rescan_file :: "wallet_file \<Rightarrow> wallet_file" where
  "rescan_file db =
     db\<lparr>wf_outputs := [],
        wf_history := map (\<lambda>e. e\<lparr>he_height := None, he_quarantined := True\<rparr>)
          (filter (\<lambda>e. he_direction e = Sent) (wf_history db)),
        wf_scanned_to := wf_birth db, wf_scanned_tip := []\<rparr>"

definition begin_light_rescan ::
  "'s saver \<Rightarrow> 's wallet \<Rightarrow> 's wallet \<times> (wallet_error + unit)" where
  "begin_light_rescan sv w =
     (if w_persist w then (w, Inl NotInMemory)
      else if has_swap_recovery (w_db w) \<or> has_reservations (w_db w) then (w, Inl SwapRecovery)
      else save_as sv (set_db rescan_file w) ())"

end
