(* ===== verification/Wallet_Run.thy ===== *)
theory Wallet_Run
  imports Wallet_Coins Wallet_Light
begin

text \<open>
  The operations of a wallet as steps, and the interface under which a property of the wallet's
  file holds after any history of them: \<open>file_property\<close> names what each edit of the file has
  to keep, its lemma \<open>run\<close> is the property of every history.
\<close>

datatype 's wallet_op =
    ScanBlocks "block list"
  | Rebase "block list"
  | IngestPage "light_output list" "string list" u64
  | IngestAnchored "light_output list" "string list" u64 u64 string string
  | LightRescan
  | RecordSend transaction u64 string u64
  | ReleaseSends "string list" "bytes set"
  | QuarantinePending
  | QuarantineImported
  | ReserveCommits "string list"
  | ReleaseCommits "string list"
  | TillAdd invoice
  | TillClose string string
  | TillRemove string
  | ResetScan
  | AirPayment "'s draws" intent u64 u64 u64

fun wallet_step ::
  "('p::ab_group_add, 's::comm_ring_1) crypto \<Rightarrow> wallet_json \<Rightarrow> 's saver \<Rightarrow> 's wallet_op \<Rightarrow> 's wallet \<Rightarrow> 's wallet" where
  "wallet_step C J sv (ScanBlocks bs) w = fst (scan_blocks C sv bs w)"
| "wallet_step C J sv (Rebase bs) w = fst (rebase_on_shorter_chain C sv bs w)"
| "wallet_step C J sv (IngestPage outs spent to) w = fst (ingest_scan_page C sv outs spent to w)"
| "wallet_step C J sv (IngestAnchored outs spent from to h1 h2) w =
     fst (ingest_anchored_scan_page C sv outs spent from to h1 h2 w)"
| "wallet_step C J sv LightRescan w = fst (begin_light_rescan sv w)"
| "wallet_step C J sv (RecordSend tx amount memo time) w = fst (record_send_at C J sv tx amount memo time w)"
| "wallet_step C J sv (ReleaseSends txids unspend) w = fst (release_sends sv txids unspend w)"
| "wallet_step C J sv QuarantinePending w = fst (quarantine_pending_sends sv w)"
| "wallet_step C J sv QuarantineImported w = fst (quarantine_imported_sends sv w)"
| "wallet_step C J sv (ReserveCommits hexes) w = fst (reserve_commits sv hexes w)"
| "wallet_step C J sv (ReleaseCommits hexes) w = fst (release_commits sv hexes w)"
| "wallet_step C J sv (TillAdd i) w = fst (edit_till sv (\<lambda>t. add_invoice t i) w)"
| "wallet_step C J sv (TillClose ref note) w = fst (edit_till sv (\<lambda>t. close_invoice t ref note) w)"
| "wallet_step C J sv (TillRemove ref) w = fst (edit_till sv (\<lambda>t. remove_invoice t ref) w)"
| "wallet_step C J sv ResetScan w = fst (reset_scan sv w)"
| "wallet_step C J sv (AirPayment dr i maturity now clock) w =
     fst (prepare_air_payment C J dr sv i maturity now clock w)"

definition wallet_run ::
  "('p::ab_group_add, 's::comm_ring_1) crypto \<Rightarrow> wallet_json \<Rightarrow> 's saver \<Rightarrow> 's wallet_op list \<Rightarrow> 's wallet \<Rightarrow> 's wallet" where
  "wallet_run C J sv = fold (wallet_step C J sv)"

section \<open>What the operations do to the file\<close>

lemma fst_save_as [simp]: "fst (save_as sv w x) = w"
  by (simp add: save_as_def)

lemma fst_save_or_restore: "fst (save_or_restore sv w w' x) \<in> {w, w'}"
  by (auto simp: save_or_restore_def split: sum.split)

text \<open>The JSON of a transaction and of the exported state is read back.\<close>

definition json_ok :: "wallet_json \<Rightarrow> bool" where
  "json_ok J \<longleftrightarrow> (\<forall>tx raw. tx_to_json J tx = Some raw \<longrightarrow> tx_of_json J raw = Some tx)
     \<and> (\<forall>x s. export_json J x = Some s \<longrightarrow> import_json J s = Some x)"

lemma hex_commit_encode: "length c = 32 \<Longrightarrow> hex_commit (hex_encode c) = Some c"
  by (simp add: hex_commit_def hex_decode_encode)

lemma own_copy:
  assumes J: "json_ok J" and e: "export_state J w = Inr s" and i: "import_state C J s = Inr cand"
    and k: "length (seed (w_keys w)) = 32" "keys_from_seed C (seed (w_keys w)) = w_keys w"
  shows "w_db cand = w_db w \<and> w_keys cand = w_keys w \<and> w_network cand = w_network w \<and> \<not> w_persist cand"
proof -
  have "import_json J s = Some (1, network_as_str (w_network w), hex_encode (seed (w_keys w)), w_db w)"
    using e J by (auto simp: export_state_def res_simps json_ok_def)
  then show ?thesis
    using i k by (auto simp: import_state_def import_own_state_def res_simps network_back hex_commit_encode
        split: if_splits)
qed

definition keys_ok :: "('p, 's) crypto \<Rightarrow> 's wallet_keys \<Rightarrow> bool" where
  "keys_ok C k \<longleftrightarrow> length (seed k) = 32 \<and> keys_from_seed C (seed k) = k"

lemma air_candidate_file:
  assumes J: "json_ok J" and k: "keys_ok C (w_keys w)"
    and a: "air_candidate C J dr sv i maturity clock w = Inr (cand, tx)"
  obtains raw where "tx_to_json J tx = Some raw"
    "w_db cand = wf_air_signed_update (om_insert (it_nonce i) \<lparr>as_intent = intent_text C i, as_raw = raw\<rparr>)
       (sent_file C J tx (it_amount i) [] clock (w_db w))"
proof -
  obtain s cand0 tx0 where s: "export_state J w = Inr s" "import_state C J s = Inr cand0"
    and rest: "(case record_send_at C J sv tx0 (it_amount i) [] clock cand0 of
        (_, Inl e) \<Rightarrow> Inl e
      | (cand', Inr _) \<Rightarrow>
          res_bind (ok_or BadRaw (tx_to_json J tx0)) (\<lambda>raw.
            Inr (set_db (wf_air_signed_update
                   (om_insert (it_nonce i) \<lparr>as_intent = intent_text C i, as_raw = raw\<rparr>)) cand', tx0)))
      = Inr (cand, tx)"
    using a unfolding air_candidate_def res_bind_Inr_iff by blast
  have same: "w_db cand0 = w_db w"
    using own_copy [OF J s] k by (simp add: keys_ok_def)
  obtain cand1 r where r: "record_send_at C J sv tx0 (it_amount i) [] clock cand0 = (cand1, r)"
    by fastforce
  then have "cand1 = set_db (sent_file C J tx0 (it_amount i) [] clock) cand0"
    by (simp add: record_send_at_def save_as_def)
  moreover obtain raw where "tx_to_json J tx0 = Some raw" "tx0 = tx"
    "cand = set_db (wf_air_signed_update (om_insert (it_nonce i) \<lparr>as_intent = intent_text C i, as_raw = raw\<rparr>)) cand1"
    using rest r by (cases r) (auto simp: res_simps)
  ultimately show ?thesis using that same by simp
qed

lemma prepare_air_file:
  assumes J: "json_ok J" and k: "keys_ok C (w_keys w)"
  shows "w_db (fst (prepare_air_payment C J dr sv i0 maturity now clock w)) = w_db w
    \<or> (\<exists>i tx raw. map_of (wf_air_signed (w_db w)) (it_nonce i) = None \<and> tx_to_json J tx = Some raw
         \<and> w_db (fst (prepare_air_payment C J dr sv i0 maturity now clock w))
           = wf_air_signed_update (om_insert (it_nonce i) \<lparr>as_intent = intent_text C i, as_raw = raw\<rparr>)
               (sent_file C J tx (it_amount i) [] clock (w_db w)))"
proof (cases "w_db (fst (prepare_air_payment C J dr sv i0 maturity now clock w)) = w_db w")
  case False
  then obtain i cand tx where "map_of (wf_air_signed (w_db w)) (it_nonce i) = None"
    and a: "air_candidate C J dr sv i maturity clock w = Inr (cand, tx)"
    and d: "fst (prepare_air_payment C J dr sv i0 maturity now clock w)
      = fst (adopt_scan_state C sv cand w)"
    by (auto simp: prepare_air_payment_def split: sum.splits option.splits if_splits prod.splits)
  moreover obtain raw where "tx_to_json J tx = Some raw"
    "w_db cand = wf_air_signed_update (om_insert (it_nonce i) \<lparr>as_intent = intent_text C i, as_raw = raw\<rparr>)
       (sent_file C J tx (it_amount i) [] clock (w_db w))"
    by (rule air_candidate_file [OF J k a])
  moreover have "w_db (fst (adopt_scan_state C sv cand w)) \<in> {w_db w, w_db cand}"
    by (auto simp: adopt_scan_state_def save_or_restore_def split: sum.splits)
  ultimately show ?thesis using False by auto
qed simp

lemma adopt_keys: "w_keys (fst (adopt_scan_state C sv cand w)) = w_keys w"
  by (auto simp: adopt_scan_state_def save_or_restore_def split: sum.splits)

lemma prepare_air_keys: "w_keys (fst (prepare_air_payment C J dr sv i maturity now clock w)) = w_keys w"
proof -
  have "fst (prepare_air_payment C J dr sv i maturity now clock w) = w
      \<or> (\<exists>cand. fst (prepare_air_payment C J dr sv i maturity now clock w) = fst (adopt_scan_state C sv cand w))"
    by (auto simp: prepare_air_payment_def split: sum.splits option.splits prod.splits) (metis fst_conv)+
  then show ?thesis using adopt_keys by metis
qed

lemma ingest_fst:
  "fst (ingest_scan_page C sv outs spent to w)
    = set_db (\<lambda>_. fst (ingested_file C (keys_view_key C (w_keys w)) outs spent to (w_db w))) w"
  by (simp add: ingest_scan_page_def split: prod.split)

lemma anchored_fst:
  "fst (ingest_anchored_scan_page C sv outs spent from to h1 h2 w) \<in>
     {w, fst (ingest_scan_page C sv outs spent to w)}
   \<union> {set_db (wf_scanned_tip_update (\<lambda>_. h)) (fst (ingest_scan_page C sv outs spent to w)) | h. True}"
  by (cases "ingest_scan_page C sv outs spent to w")
     (auto simp: ingest_anchored_scan_page_def split: sum.splits)

lemma till_fst:
  "w_db (wallet_step C J sv (TillAdd i) w)
    = w_db w\<lparr>wf_invoices := till_step (AddInvoice i) (wf_invoices (w_db w))\<rparr>"
  "w_db (wallet_step C J sv (TillClose ref note) w)
    = w_db w\<lparr>wf_invoices := till_step (CloseInvoice ref note) (wf_invoices (w_db w))\<rparr>"
  "w_db (wallet_step C J sv (TillRemove ref) w)
    = w_db w\<lparr>wf_invoices := till_step (RemoveInvoice ref) (wf_invoices (w_db w))\<rparr>"
  by (auto simp: edit_till_def split: sum.split)

lemma step_keys: "w_keys (wallet_step C J sv op w) = w_keys w"
proof (cases op)
  case (IngestAnchored outs spent a b h1 h2)
  then show ?thesis using anchored_fst [of C sv outs spent a b h1 h2 w] by (auto simp: ingest_fst)
qed (auto simp: scan_blocks_def scan_blocks_inner_def rebase_on_shorter_chain_def ingest_fst Let_def
    begin_light_rescan_def record_send_at_def release_sends_def save_or_restore_def prepare_air_keys
    quarantine_pending_sends_def quarantine_imported_sends_def reserve_commits_def release_commits_def
    edit_till_def reset_scan_def split: sum.split)

section \<open>Properties of the file that every history keeps\<close>

definition allowed :: "bool \<Rightarrow> 's wallet_op \<Rightarrow> bool" where
  "allowed sends op \<longleftrightarrow> sends \<or> (case op of RecordSend _ _ _ _ \<Rightarrow> False | AirPayment _ _ _ _ _ \<Rightarrow> False | _ \<Rightarrow> True)"

locale file_property =
  fixes C :: "('p::ab_group_add, 's::comm_ring_1) crypto" and J :: wallet_json
    and K :: "'s wallet_keys" and sends :: bool and P :: "wallet_file \<Rightarrow> bool"
  assumes scanned: "P db \<Longrightarrow> P (scanned_file C force bs (scan_page C (keys_view_key C K) force db bs) db)"
    and ingested: "P db \<Longrightarrow> P (fst (ingested_file C (keys_view_key C K) outs spent to db))"
    and anchored: "P db \<Longrightarrow> P (wf_scanned_tip_update g db)"
    and rescanned: "P db \<Longrightarrow> P (rescan_file db)"
    and sent: "P db \<Longrightarrow> sends \<Longrightarrow> P (sent_file C J tx amount memo time db)"
    and answered: "P db \<Longrightarrow> sends \<Longrightarrow> map_of (wf_air_signed db) n = None \<Longrightarrow> tx_to_json J tx = Some raw \<Longrightarrow>
      P (wf_air_signed_update (om_insert n \<lparr>as_intent = text, as_raw = raw\<rparr>)
           (sent_file C J tx amount [] time db))"
    and released: "P db \<Longrightarrow> P (released_file txids unspend db)"
    and withheld: "P db \<Longrightarrow> P (withhold Q db)"
    and reserved: "P db \<Longrightarrow> P (wf_reserved_update f db)"
    and till: "P db \<Longrightarrow> P (db\<lparr>wf_invoices := till_step x (wf_invoices db)\<rparr>)"
    and reset: "P db \<Longrightarrow> P (reset_file db)"
begin

lemma step:
  assumes json: "json_ok J" and keys: "keys_ok C K"
    and P: "P (w_db w)" and k: "w_keys w = K" and a: "allowed sends op"
  shows "P (w_db (wallet_step C J sv op w))"
proof (cases op)
  case (ScanBlocks bs)
  then show ?thesis using P k scanned by (auto simp: scan_blocks_def scan_blocks_inner_def Let_def split: sum.split)
next
  case (Rebase bs)
  then show ?thesis using P k scanned
    by (auto simp: rebase_on_shorter_chain_def scan_blocks_inner_def Let_def split: sum.split)
next
  case (IngestPage outs spent to)
  then show ?thesis using P k ingested by (simp add: ingest_fst)
next
  case (IngestAnchored outs spent a to h1 h2)
  let ?v = "fst (ingest_scan_page C sv outs spent to w)"
  have i: "P (w_db ?v)" using P k ingested by (simp add: ingest_fst)
  have "P (w_db x)" if "x \<in> {w, ?v} \<union> {set_db (wf_scanned_tip_update (\<lambda>_. h)) ?v | h. True}" for x
    using that
  proof (elim UnE insertE emptyE CollectE exE conjE)
    fix h
    assume "x = set_db (wf_scanned_tip_update (\<lambda>_. h)) ?v"
    then show ?thesis using anchored [OF i, of "\<lambda>_. h"] by simp
  qed (simp_all add: P i)
  then show ?thesis using IngestAnchored anchored_fst [of C sv outs spent a to h1 h2 w] by simp
next
  case LightRescan
  then show ?thesis using P rescanned by (simp add: begin_light_rescan_def)
next
  case (RecordSend tx amount memo time)
  then show ?thesis using P a sent by (simp add: record_send_at_def allowed_def)
next
  case (ReleaseSends txids unspend)
  then show ?thesis using P released
    by (auto simp: release_sends_def Let_def save_or_restore_def split: sum.split)
next
  case QuarantinePending
  then show ?thesis using P withheld by (simp add: quarantine_pending_sends_def Let_def)
next
  case QuarantineImported
  then show ?thesis using P withheld by (simp add: quarantine_imported_sends_def Let_def)
next
  case (ReserveCommits hexes)
  then show ?thesis using P reserved by (auto simp: reserve_commits_def save_or_restore_def split: sum.split)
next
  case (ReleaseCommits hexes)
  then show ?thesis using P reserved by (auto simp: release_commits_def save_or_restore_def split: sum.split)
next
  case (TillAdd i)
  then show ?thesis using P till by (simp only: till_fst)
next
  case (TillClose ref txt0)
  then show ?thesis using P till by (simp only: till_fst)
next
  case (TillRemove ref)
  then show ?thesis using P till by (simp only: till_fst)
next
  case ResetScan
  then show ?thesis using P reset by (simp add: reset_scan_def)
next
  case (AirPayment dr i maturity now clock)
  have k': "keys_ok C (w_keys w)" using keys k by simp
  have s: "sends" using a AirPayment by (simp add: allowed_def)
  show ?thesis
    using prepare_air_file [OF json k', of dr sv i maturity now clock] P answered [OF P s] AirPayment by auto
qed

lemma run:
  assumes laws: "json_ok J" "keys_ok C K"
    and "P (w_db w)" "w_keys w = K" "\<forall>op \<in> set ops. allowed sends op"
  shows "P (w_db (wallet_run C J sv ops w)) \<and> w_keys (wallet_run C J sv ops w) = K"
  using assms(3-)
proof (induction ops arbitrary: w)
  case (Cons op ops)
  then show ?case using step [OF laws, of w op sv] step_keys [of C J sv op w] by (simp add: wallet_run_def)
qed (simp add: wallet_run_def)

end

end
