(* ===== verification/Wallet_Facts.thy ===== *)
theory Wallet_Facts
  imports Wallet_Run
begin

text \<open>
  What every history of operations keeps of a wallet's file: its outputs open their
  commitments, its history is well formed, its till and its answers are; a withheld payment is
  never sent again by the wallet, and an offline request has one answer.
\<close>

section \<open>Later states of an entry\<close>

definition later :: "history_entry \<Rightarrow> history_entry \<Rightarrow> bool" where
  "later a b \<longleftrightarrow>
     he_direction b = he_direction a \<and> he_amount b = he_amount a \<and> he_fee b = he_fee a
     \<and> he_memo b = he_memo a \<and> he_txid b = he_txid a \<and> he_spent b = he_spent a \<and> he_raw b = he_raw a
     \<and> (he_quarantined a \<longrightarrow> he_quarantined b)
     \<and> (he_failed b \<longrightarrow> he_failed a \<or> he_direction b = Sent \<and> he_quarantined b)
     \<and> (he_direction a \<noteq> Sent \<longrightarrow> he_height a \<noteq> None \<longrightarrow> he_height b \<noteq> None)"

lemma later_refl [simp]: "later a a" by (simp add: later_def)

lemma later_trans: "later a b \<Longrightarrow> later b c \<Longrightarrow> later a c"
  by (auto simp: later_def)

lemma later_confirmed: "later a (a\<lparr>he_height := Some h, he_timestamp := t\<rparr>)"
  by (simp add: later_def)

lemma later_unconfirm: "later a (unconfirm spent a)"
  by (auto simp: later_def unconfirm_def)

lemma later_fail: "later a (fail_send txids a)"
  by (auto simp: later_def fail_send_def pending_send_def)

lemma later_withheld: "later a (if Q a then a\<lparr>he_quarantined := True\<rparr> else a)"
  by (simp add: later_def)

text \<open>Every entry of \<open>es'\<close> is a later state of one of \<open>es\<close>.\<close>

definition from_entries :: "history_entry list \<Rightarrow> history_entry list \<Rightarrow> bool" where
  "from_entries es es' \<longleftrightarrow> (\<forall>e' \<in> set es'. \<exists>e \<in> set es. later e e')"

lemma from_refl: "set es' \<subseteq> set es \<Longrightarrow> from_entries es es'"
  by (auto simp: from_entries_def intro: later_refl)

lemma from_trans: "from_entries a b \<Longrightarrow> from_entries b c \<Longrightarrow> from_entries a c"
  by (meson from_entries_def later_trans)

lemma from_map: "(\<And>e. later e (f e)) \<Longrightarrow> from_entries es (map f es)"
  by (auto simp: from_entries_def)

lemma from_confirm: "from_entries es (confirm_entry c es)"
proof (induction c es rule: confirm_entry.induct)
  case (2 c e es)
  have "\<exists>x \<in> set (e # es). later x e'" if e': "e' \<in> set (confirm_entry c (e # es))" for e'
  proof (cases "he_txid e = fst c \<and> he_height e = None")
    case True
    then have "e' = e\<lparr>he_height := Some (fst (snd c)), he_timestamp := snd (snd c)\<rparr> \<or> e' \<in> set es"
      using e' by simp
    then show ?thesis using later_confirmed later_refl by (metis list.set_intros)
  next
    case False
    then have "e' = e \<or> e' \<in> set (confirm_entry c es)" using e' by auto
    then show ?thesis using 2 [OF False] later_refl by (metis from_entries_def list.set_intros)
  qed
  then show ?case by (simp add: from_entries_def)
qed (simp add: from_entries_def)

lemma from_confirms: "from_entries es (fold confirm_entry cs es)"
proof (induction cs arbitrary: es)
  case (Cons c cs)
  show ?case unfolding fold_simps by (rule from_trans [OF from_confirm Cons])
qed (simp add: from_refl)

lemma set_append_new: "set (fold (append_new same) new es) \<subseteq> set es \<union> set new"
proof (induction new arbitrary: es)
  case (Cons n new)
  have "set (append_new same n es) \<subseteq> insert n (set es)" by (auto simp: append_new_def)
  then show ?case using Cons [of "append_new same n es"] by auto
qed simp

lemma set_sort_history [simp]: "set (sort_history es) = set es"
  by (simp add: sort_history_def)

section \<open>Histories after each edit\<close>

lemma reconciled_history: "from_entries (wf_history db) (wf_history (reconcile_with bs spent db))"
proof -
  have "from_entries (wf_history db) (filter Q (wf_history db))" for Q by (rule from_refl) auto
  then show ?thesis
    using from_trans from_map [of "unconfirm spent", OF later_unconfirm]
    by (simp add: reconcile_with_def Let_def) blast
qed

lemma scanned_history:
  "from_entries (wf_history db @ ss_new st) (wf_history (scanned_file C force bs st db))"
proof -
  let ?db1 = "db\<lparr>wf_outputs := mark_spent (ss_spent st) (wf_outputs db @ ss_owned st)\<rparr>"
  let ?db2 = "if force \<or> covers_canonical_history bs (wf_birth ?db1) (wf_scanned_to ?db1) (wf_outputs ?db1)
    then reconcile_with bs (ss_spent st) ?db1 else ?db1"
  have "from_entries (wf_history db) (wf_history ?db2)"
    using reconciled_history [of ?db1] from_refl by auto
  then have "from_entries (wf_history db) (fold confirm_entry (ss_confirmed st) (wf_history ?db2))"
    using from_trans from_confirms by blast
  then have h: "\<forall>e' \<in> set (fold confirm_entry (ss_confirmed st) (wf_history ?db2)). \<exists>e \<in> set (wf_history db). later e e'"
    by (simp add: from_entries_def)
  show ?thesis
    unfolding from_entries_def
  proof
    fix e'
    assume "e' \<in> set (wf_history (scanned_file C force bs st db))"
    then have "e' \<in> set (fold (append_new same_discovery) (ss_new st)
        (fold confirm_entry (ss_confirmed st) (wf_history ?db2)))"
      by (simp add: scanned_file_def Let_def)
    then have "e' \<in> set (fold confirm_entry (ss_confirmed st) (wf_history ?db2)) \<union> set (ss_new st)"
      using set_append_new by blast
    then show "\<exists>e \<in> set (wf_history db @ ss_new st). later e e'"
      using h later_refl [of e'] unfolding set_append by blast
  qed
qed

lemma fold_collect:
  assumes "\<And>x st. x \<in> set xs \<Longrightarrow> set (g (f x st)) \<subseteq> set (g st) \<union> A"
  shows "set (g (fold f xs st)) \<subseteq> set (g st) \<union> A"
  using assms
proof (induction xs arbitrary: st)
  case (Cons x xs)
  then have "set (g (fold f xs (f x st))) \<subseteq> set (g (f x st)) \<union> A" by simp
  then show ?case using Cons.prems [of x st] by auto
qed simp

text \<open>What a page of blocks adds.\<close>

definition found_owned :: "('p::ab_group_add, 's::comm_ring_1) crypto \<Rightarrow> 's view_key \<Rightarrow> owned_output set" where
  "found_owned C view = {owned_from C d h cb | d h cb cand. scan_candidate_with C view cand = Some d}"

definition found_entries :: "('p::ab_group_add, 's::comm_ring_1) crypto \<Rightarrow> 's view_key \<Rightarrow> history_entry set" where
  "found_entries C view = {received_entry d h t cb | d h t cb cand. scan_candidate_with C view cand = Some d}"

lemma found_intros:
  assumes "scan_candidate_with C view cand = Some d"
  shows "owned_from C d h cb \<in> found_owned C view" "received_entry d h t cb \<in> found_entries C view"
  unfolding found_owned_def found_entries_def using assms by blast+

lemma scan_tx_output_adds:
  "set (ss_owned (scan_tx_output C view known b out st)) \<subseteq> set (ss_owned st) \<union> found_owned C view
   \<and> set (ss_new (scan_tx_output C view known b out st)) \<subseteq> set (ss_new st) \<union> found_entries C view"
  by (auto simp: scan_tx_output_def scan_output_def Let_def intro: found_intros split: option.splits)

lemma scan_one_block_adds:
  "set (ss_owned (scan_one_block C view known ps b st)) \<subseteq> set (ss_owned st) \<union> found_owned C view
   \<and> set (ss_new (scan_one_block C view known ps b st)) \<subseteq> set (ss_new st) \<union> found_entries C view"
  using fold_collect [of "b_outputs (blk_body b)" ss_owned, OF conjunct1 [OF scan_tx_output_adds]]
    fold_collect [of "b_outputs (blk_body b)" ss_new, OF conjunct2 [OF scan_tx_output_adds]]
  by (simp add: scan_one_block_def Let_def) fastforce

lemma scan_page_adds:
  "set (ss_owned (scan_page C view force db bs)) \<subseteq> found_owned C view"
  "set (ss_new (scan_page C view force db bs)) \<subseteq> found_entries C view"
  using fold_collect [of bs ss_owned, OF conjunct1 [OF scan_one_block_adds]]
    fold_collect [of bs ss_new, OF conjunct2 [OF scan_one_block_adds]]
  by (fastforce simp: scan_page_def)+

lemma ingest_output_adds:
  "set (ls_owned (ingest_output C view known spent lo st)) \<subseteq> set (ls_owned st) \<union> found_owned C view
   \<and> set (ls_new (ingest_output C view known spent lo st)) \<subseteq> set (ls_new st) \<union> found_entries C view"
  by (auto simp: ingest_output_def intro: found_intros split: option.splits)

lemma ingested_adds:
  fixes C :: "('p::ab_group_add, 's::comm_ring_1) crypto" and view known spent outs
  defines "st \<equiv> fold (ingest_output C view known spent) outs \<lparr>ls_owned = [], ls_new = [], ls_found = 0\<rparr>"
  shows "set (ls_owned st) \<subseteq> found_owned C view" "set (ls_new st) \<subseteq> found_entries C view"
  using fold_collect [of outs ls_owned, OF conjunct1 [OF ingest_output_adds]]
    fold_collect [of outs ls_new, OF conjunct2 [OF ingest_output_adds]]
  unfolding st_def by fastforce+

lemma ingested_history:
  assumes "e' \<in> set (wf_history (fst (ingested_file C view outs spent hi db)))"
  shows "(\<exists>e \<in> set (wf_history db). later e e') \<or> e' \<in> found_entries C view"
proof -
  let ?st = "fold (ingest_output C view (oo_commit ` set (wf_outputs db)) (spent_of spent)) outs
    \<lparr>ls_owned = [], ls_new = [], ls_found = 0\<rparr>"
  let ?h = "fold confirm_entry (confirmed_light db (spent_of spent) outs hi) (wf_history db)"
  have "e' \<in> set (fold (append_new same_light_discovery) (ls_new ?st) ?h)"
    using assms by (simp add: ingested_file_def Let_def)
  then have "e' \<in> set ?h \<union> set (ls_new ?st)" using set_append_new by blast
  then show ?thesis
    using ingested_adds(2) [of C view "oo_commit ` set (wf_outputs db)" "spent_of spent" outs]
      from_confirms [of "wf_history db" "confirmed_light db (spent_of spent) outs hi"]
    unfolding from_entries_def by blast
qed

lemma page_history:
  assumes "e' \<in> set (wf_history (scanned_file C force bs (scan_page C view force db bs) db))"
  shows "(\<exists>e \<in> set (wf_history db). later e e')
    \<or> (\<exists>e \<in> found_entries C view. later e e')"
  using scanned_history [of db "scan_page C view force db bs" C force bs] assms scan_page_adds(2)
  unfolding from_entries_def set_append by (meson UnE subset_eq)

section \<open>Entries\<close>

definition entry_ok :: "history_entry \<Rightarrow> bool" where
  "entry_ok e \<longleftrightarrow> (he_direction e \<noteq> Sent \<longrightarrow> he_height e \<noteq> None \<and> he_spent e = [] \<and> he_raw e = None)
     \<and> (he_failed e \<longrightarrow> he_direction e = Sent \<and> he_quarantined e)"

lemma entry_ok_later: "entry_ok a \<Longrightarrow> later a b \<Longrightarrow> entry_ok b"
  by (auto simp: entry_ok_def later_def)

lemma entry_ok_found: "e \<in> found_entries C view \<Longrightarrow> entry_ok e"
  by (auto simp: found_entries_def entry_ok_def received_entry_def)

lemma found_not_sent: "e \<in> found_entries C view \<Longrightarrow> he_direction e \<noteq> Sent"
  by (auto simp: found_entries_def received_entry_def split: if_splits)

lemma entry_ok_sent: "entry_ok (sent_entry C J tx amount memo time)"
  by (simp add: entry_ok_def sent_entry_def)

section \<open>Outputs\<close>

definition owned_ok :: "('p::ab_group_add, 's::comm_ring_1) crypto \<Rightarrow> owned_output \<Rightarrow> bool" where
  "owned_ok C oo \<longleftrightarrow> (\<exists>blind offset. hex_scalar C (oo_blind_hex oo) = Inr blind
     \<and> hex_scalar C (oo_offset_hex oo) = Inr offset \<and> oo_commit oo = commitment_new C (oo_value oo) blind)"

lemma owned_ok_spent [simp]: "owned_ok C (oo\<lparr>oo_spent := b\<rparr>) = owned_ok C oo"
  by (simp add: owned_ok_def)

lemma hex_scalar_back: "encoding_ok C \<Longrightarrow> hex_scalar C (hex_encode (scalar_bytes C x)) = Inr x"
  by (simp add: hex_scalar_def hex_decode_encode ok_or_def encoding_ok_def canonical_scalar)

lemma scan_opens: "scan_candidate_with C view cand = Some d \<Longrightarrow>
    d_commit d = commitment_new C (d_value d) (d_blind d) \<and> d_commit d = sc_commit cand"
  by (auto simp: scan_candidate_with_def Let_def split: option.splits if_splits)

lemma found_ok: "encoding_ok C \<Longrightarrow> oo \<in> found_owned C view \<Longrightarrow> owned_ok C oo"
  using scan_opens by (fastforce simp: found_owned_def owned_ok_def owned_from_def hex_scalar_back)

lemma mark_spent_ok: "(\<forall>oo \<in> set (mark_spent spent oos). owned_ok C oo) \<longleftrightarrow> (\<forall>oo \<in> set oos. owned_ok C oo)"
  unfolding mark_spent_def list.set_map ball_simps by (simp split: if_split)

lemma reconcile_outputs_ok:
  "\<forall>oo \<in> set (wf_outputs db). owned_ok C oo \<Longrightarrow> \<forall>oo \<in> set (wf_outputs (reconcile_with bs spent db)). owned_ok C oo"
  by (auto simp: reconcile_with_def Let_def)

lemma scanned_outputs_ok:
  assumes "encoding_ok C" "\<forall>oo \<in> set (wf_outputs db). owned_ok C oo"
  shows "\<forall>oo \<in> set (wf_outputs (scanned_file C force bs (scan_page C view force db bs) db)). owned_ok C oo"
proof -
  let ?st = "scan_page C view force db bs"
  have "\<forall>oo \<in> set (wf_outputs db @ ss_owned ?st). owned_ok C oo"
  proof
    fix oo
    assume "oo \<in> set (wf_outputs db @ ss_owned ?st)"
    then consider "oo \<in> set (wf_outputs db)" | "oo \<in> found_owned C view"
      using scan_page_adds(1) [of C view force db bs] by auto
    then show "owned_ok C oo" using assms found_ok by cases blast+
  qed
  then have "\<forall>oo \<in> set (mark_spent (ss_spent ?st) (wf_outputs db @ ss_owned ?st)). owned_ok C oo"
    by (simp only: mark_spent_ok)
  then show ?thesis
    using reconcile_outputs_ok [of "db\<lparr>wf_outputs := mark_spent (ss_spent ?st) (wf_outputs db @ ss_owned ?st)\<rparr>" C]
    by (simp add: scanned_file_def Let_def)
qed

lemma ingested_outputs_ok:
  assumes "encoding_ok C" "\<forall>oo \<in> set (wf_outputs db). owned_ok C oo"
  shows "\<forall>oo \<in> set (wf_outputs (fst (ingested_file C view outs spent hi db))). owned_ok C oo"
proof -
  let ?st = "fold (ingest_output C view (oo_commit ` set (wf_outputs db)) (spent_of spent)) outs
    \<lparr>ls_owned = [], ls_new = [], ls_found = 0\<rparr>"
  have "\<forall>oo \<in> set (wf_outputs db @ ls_owned ?st). owned_ok C oo"
  proof
    fix oo
    assume "oo \<in> set (wf_outputs db @ ls_owned ?st)"
    then consider "oo \<in> set (wf_outputs db)" | "oo \<in> found_owned C view"
      using ingested_adds(1) [of C view "oo_commit ` set (wf_outputs db)" "spent_of spent" outs] by auto
    then show "owned_ok C oo" using assms found_ok by cases blast+
  qed
  then have "\<forall>oo \<in> set (mark_spent (spent_of spent) (wf_outputs db @ ls_owned ?st)). owned_ok C oo"
    by (simp only: mark_spent_ok)
  then show ?thesis by (simp add: ingested_file_def Let_def)
qed

section \<open>The file\<close>

definition file_ok :: "('p::ab_group_add, 's::comm_ring_1) crypto \<Rightarrow> wallet_file \<Rightarrow> bool" where
  "file_ok C db \<longleftrightarrow> (\<forall>oo \<in> set (wf_outputs db). owned_ok C oo) \<and> (\<forall>e \<in> set (wf_history db). entry_ok e)
     \<and> till_ok (wf_invoices db) \<and> om_ok (wf_air_signed db)"

lemma file_ok_new: "file_ok C (w_db (in_memory n k birth))"
  by (simp add: file_ok_def in_memory_def wallet_file_default_def till_empty)

lemma entries_ok_map:
  "(\<And>e. later e (f e)) \<Longrightarrow> \<forall>e \<in> set es. entry_ok e \<Longrightarrow> \<forall>e \<in> set (map f es). entry_ok e"
  by (auto intro: entry_ok_later)

lemma sent_file_ok:
  assumes "file_ok C db"
  shows "file_ok C (sent_file C J tx amount memo time db)"
  using assms entry_ok_sent by (auto simp: file_ok_def sent_file_def mark_spent_def)

lemma answered_file_ok:
  assumes "file_ok C db"
  shows "file_ok C (wf_air_signed_update (om_insert n a) (sent_file C J tx amount memo time db))"
  using sent_file_ok [OF assms, of J tx amount memo time] by (simp add: file_ok_def)

interpretation typed: file_property C J K True "\<lambda>db. encoding_ok C \<longrightarrow> file_ok C db"
  for C :: "('p::ab_group_add, 's::comm_ring_1) crypto"
proof
  fix db :: wallet_file
  assume P: "encoding_ok C \<longrightarrow> file_ok C db"
  show "encoding_ok C \<longrightarrow> file_ok C (scanned_file C force bs (scan_page C (keys_view_key C K) force db bs) db)" for force bs
  proof
    let ?db = "scanned_file C force bs (scan_page C (keys_view_key C K) force db bs) db"
    assume C: "encoding_ok C"
    then have ok: "file_ok C db" using P by blast
    have "\<forall>e \<in> set (wf_history ?db). entry_ok e"
      using page_history entry_ok_later entry_ok_found ok unfolding file_ok_def by metis
    moreover have "wf_invoices ?db = wf_invoices db" "wf_air_signed ?db = wf_air_signed db"
      by (simp_all add: scanned_file_def reconcile_with_def Let_def)
    moreover have "\<forall>oo \<in> set (wf_outputs ?db). owned_ok C oo"
      by (rule scanned_outputs_ok [OF C]) (use ok in \<open>simp add: file_ok_def\<close>)
    ultimately show "file_ok C ?db" using ok by (simp add: file_ok_def)
  qed
  show "encoding_ok C \<longrightarrow> file_ok C (fst (ingested_file C (keys_view_key C K) outs spent hi db))" for outs spent hi
  proof
    let ?db = "fst (ingested_file C (keys_view_key C K) outs spent hi db)"
    assume C: "encoding_ok C"
    then have ok: "file_ok C db" using P by blast
    have "\<forall>e \<in> set (wf_history ?db). entry_ok e"
      using ingested_history entry_ok_later entry_ok_found ok unfolding file_ok_def by metis
    moreover have "wf_invoices ?db = wf_invoices db" "wf_air_signed ?db = wf_air_signed db"
      by (simp_all add: ingested_file_def Let_def)
    moreover have "\<forall>oo \<in> set (wf_outputs ?db). owned_ok C oo"
      by (rule ingested_outputs_ok [OF C]) (use ok in \<open>simp add: file_ok_def\<close>)
    ultimately show "file_ok C ?db" using ok by (simp add: file_ok_def)
  qed
  show "encoding_ok C \<longrightarrow> file_ok C (rescan_file db)"
    using P by (auto simp: file_ok_def rescan_file_def entry_ok_def)
  show "encoding_ok C \<longrightarrow> file_ok C (released_file txids unspend db)" for txids unspend
    using P entries_ok_map [of "fail_send txids", OF later_fail]
    by (auto simp: file_ok_def released_file_def Let_def)
  show "encoding_ok C \<longrightarrow> file_ok C (withhold Q db)" for Q
    using P by (auto simp: file_ok_def withhold_def entry_ok_def)
  show "encoding_ok C \<longrightarrow> file_ok C (db\<lparr>wf_invoices := till_step x (wf_invoices db)\<rparr>)" for x
    using P by (simp add: file_ok_def till_step_ok)
  show "encoding_ok C \<longrightarrow> file_ok C (reset_file db)"
    using P by (simp add: file_ok_def reset_file_def wallet_file_default_def)
  show "encoding_ok C \<longrightarrow> file_ok C (sent_file C J tx amount memo time db)" for tx amount memo time
    using P sent_file_ok by blast
  show "encoding_ok C \<longrightarrow> file_ok C (wf_air_signed_update (om_insert n \<lparr>as_intent = it, as_raw = raw\<rparr>)
      (sent_file C J tx amount [] time db))" for n it raw tx amount time
    using P answered_file_ok by blast
qed (simp_all add: file_ok_def)

section \<open>Withheld sends\<close>

text \<open>
  Every send of the file is withheld from automatic re-sending.  Without a new payment no
  operation gives permission to send one of them again, whatever the chain does.
\<close>

definition all_withheld :: "wallet_file \<Rightarrow> bool" where
  "all_withheld db \<longleftrightarrow> (\<forall>e \<in> set (wf_history db). he_direction e = Sent \<longrightarrow> he_quarantined e)"

lemma withheld_not_resent: "all_withheld db \<Longrightarrow> resendable J db = []"
proof -
  assume w: "all_withheld db"
  have "filter (\<lambda>e. \<not> he_quarantined e \<and> pending_send e) (wf_history db) = []"
    using w by (auto simp: all_withheld_def pending_send_def filter_empty_conv)
  then show ?thesis by (simp add: resendable_def List.map_filter_def)
qed

lemma withheld_page:
  assumes "all_withheld db" "e' \<in> set (wf_history (scanned_file C force bs (scan_page C view force db bs) db))"
  shows "he_direction e' = Sent \<longrightarrow> he_quarantined e'"
  using page_history [OF assms(2)]
proof (elim disjE bexE)
  fix e
  assume "e \<in> set (wf_history db)" "later e e'"
  then show ?thesis using assms(1) by (auto simp: all_withheld_def later_def)
next
  fix e
  assume "e \<in> found_entries C view" "later e e'"
  then show ?thesis using found_not_sent [of e C view] by (auto simp: later_def)
qed

lemma withheld_ingest:
  assumes "all_withheld db" "e' \<in> set (wf_history (fst (ingested_file C view outs spent hi db)))"
  shows "he_direction e' = Sent \<longrightarrow> he_quarantined e'"
  using ingested_history [OF assms(2)]
proof (elim disjE bexE)
  fix e
  assume "e \<in> set (wf_history db)" "later e e'"
  then show ?thesis using assms(1) by (auto simp: all_withheld_def later_def)
qed (use found_not_sent in blast)

interpretation withheld: file_property C J K False all_withheld
  for C :: "('p::ab_group_add, 's::comm_ring_1) crypto"
proof
  fix db :: wallet_file
  assume w: "all_withheld db"
  show "all_withheld (scanned_file C force bs (scan_page C (keys_view_key C K) force db bs) db)" for force bs
    unfolding all_withheld_def using withheld_page [OF w] by blast
  show "all_withheld (fst (ingested_file C (keys_view_key C K) outs spent hi db))" for outs spent hi
    unfolding all_withheld_def using withheld_ingest [OF w] by blast
  show "all_withheld (rescan_file db)" by (simp add: all_withheld_def rescan_file_def)
  show "all_withheld (released_file txids unspend db)" for txids unspend
    using w by (auto simp: all_withheld_def released_file_def Let_def fail_send_def)
  show "all_withheld (withhold Q db)" for Q
    using w by (auto simp: all_withheld_def withhold_def)
  show "all_withheld (reset_file db)" by (simp add: all_withheld_def reset_file_def wallet_file_default_def)
qed (simp_all add: all_withheld_def)

lemma imported_all_withheld:
  assumes "quarantine_imported_sends sv w = (w', Inr n)"
  shows "all_withheld (w_db w') \<and> w_keys w' = w_keys w"
  using assms
  by (auto simp: quarantine_imported_sends_def Let_def save_as_def all_withheld_def withhold_def split: if_splits)

section \<open>One answer per request\<close>

definition answered_with :: "string \<Rightarrow> air_signature \<Rightarrow> wallet_file \<Rightarrow> bool" where
  "answered_with n a db \<longleftrightarrow> om_ok (wf_air_signed db) \<and> map_of (wf_air_signed db) n = Some a"

lemma same_answers:
  "wf_air_signed (scanned_file C force bs st db) = wf_air_signed db"
  "wf_air_signed (fst (ingested_file C view outs spent hi db)) = wf_air_signed db"
  "wf_air_signed (rescan_file db) = wf_air_signed db"
  "wf_air_signed (sent_file C J tx amount memo time db) = wf_air_signed db"
  "wf_air_signed (released_file txids unspend db) = wf_air_signed db"
  "wf_air_signed (withhold Q db) = wf_air_signed db"
  "wf_air_signed (reset_file db) = wf_air_signed db"
  by (simp_all add: scanned_file_def reconcile_with_def ingested_file_def rescan_file_def sent_file_def
      released_file_def withhold_def reset_file_def Let_def)

interpretation answered: file_property C J K True "answered_with n a"
  for C :: "('p::ab_group_add, 's::comm_ring_1) crypto"
  by unfold_locales (auto simp: answered_with_def same_answers map_of_om_insert)

end
