(* ===== verification/Wallet_Safety.thy ===== *)
theory Wallet_Safety
  imports Wallet_Facts
begin

text \<open>
  What the wallet promises about coins and requests: a payment it makes verifies, it never
  spends a coin of an unresolved payment again, whatever a scan finds, and a request signed
  offline is answered with one transaction.
\<close>

section \<open>Identifiers of sends are distinct\<close>

definition send_ids :: "history_entry list \<Rightarrow> string list" where
  "send_ids es = map he_txid (filter (\<lambda>e. he_direction e = Sent) es)"

lemma send_ids_append [simp]: "send_ids (a @ b) = send_ids a @ send_ids b"
  by (simp add: send_ids_def)

lemma send_ids_Cons: "send_ids (e # es) = (if he_direction e = Sent then he_txid e # send_ids es else send_ids es)"
  by (simp add: send_ids_def)

lemma send_ids_map:
  "(\<And>e. he_direction (f e) = he_direction e \<and> he_txid (f e) = he_txid e) \<Longrightarrow> send_ids (map f es) = send_ids es"
  by (induction es) (simp_all add: send_ids_Cons send_ids_def)

lemma send_ids_confirm: "send_ids (confirm_entry c es) = send_ids es"
  by (induction c es rule: confirm_entry.induct) (simp_all add: send_ids_Cons)

lemma send_ids_confirms: "send_ids (fold confirm_entry cs es) = send_ids es"
  by (induction cs arbitrary: es) (simp_all add: send_ids_confirm)

lemma send_ids_new:
  "\<forall>e \<in> set new. he_direction e \<noteq> Sent \<Longrightarrow> send_ids (fold (append_new same) new es) = send_ids es"
  by (induction new arbitrary: es) (simp_all add: append_new_def send_ids_def)

lemma send_ids_sort: "mset (send_ids (sort_history es)) = mset (send_ids es)"
  by (simp add: send_ids_def sort_history_def mset_map mset_filter)

lemma send_ids_kept: "send_ids (filter (kept_entry dropped) es) = send_ids es"
  by (induction es) (auto simp: send_ids_Cons kept_entry_def send_ids_def split: direction.splits)

lemma send_ids_reconciled: "send_ids (wf_history (reconcile_with bs spent db)) = send_ids (wf_history db)"
proof -
  have "send_ids (map (unconfirm spent) es) = send_ids es" for es
    by (rule send_ids_map) (simp add: unconfirm_def)
  then show ?thesis by (simp add: reconcile_with_def Let_def send_ids_kept)
qed

lemma send_ids_scanned:
  "mset (send_ids (wf_history (scanned_file C force bs (scan_page C view force db bs) db)))
    = mset (send_ids (wf_history db))"
proof -
  have new: "\<forall>e \<in> set (ss_new (scan_page C view force db bs)). he_direction e \<noteq> Sent"
    using scan_page_adds(2) [of C view force db bs] found_not_sent by blast
  show ?thesis
    by (simp add: scanned_file_def Let_def send_ids_sort send_ids_new [OF new] send_ids_confirms
        send_ids_reconciled)
qed

lemma send_ids_ingested:
  "mset (send_ids (wf_history (fst (ingested_file C view outs spent hi db)))) = mset (send_ids (wf_history db))"
proof -
  have new: "\<forall>e \<in> set (ls_new (fold (ingest_output C view (oo_commit ` set (wf_outputs db)) (spent_of spent)) outs
      \<lparr>ls_owned = [], ls_new = [], ls_found = 0\<rparr>)). he_direction e \<noteq> Sent"
    using ingested_adds(2) [of C view "oo_commit ` set (wf_outputs db)" "spent_of spent" outs] found_not_sent
    by blast
  show ?thesis
    by (simp add: ingested_file_def Let_def send_ids_sort send_ids_new [OF new] send_ids_confirms)
qed

definition sends_distinct :: "wallet_file \<Rightarrow> bool" where
  "sends_distinct db \<longleftrightarrow> distinct (send_ids (wf_history db))"

lemma distinct_mset: "mset xs = mset ys \<Longrightarrow> distinct xs = distinct ys"
  by (metis mset_eq_imp_distinct_iff)

lemma sends_distinct_sent: "sends_distinct db \<Longrightarrow> sends_distinct (sent_file C J tx amount memo time db)"
  by (auto simp: sends_distinct_def sent_file_def send_ids_Cons sent_entry_def) (auto simp: send_ids_def)

interpretation distinct_sends: file_property C J K True sends_distinct
  for C :: "('p::ab_group_add, 's::comm_ring_1) crypto"
proof
  fix db :: wallet_file
  assume d: "sends_distinct db"
  show "sends_distinct (scanned_file C force bs (scan_page C (keys_view_key C K) force db bs) db)" for force bs
    using d by (simp add: sends_distinct_def distinct_mset [OF send_ids_scanned])
  show "sends_distinct (fst (ingested_file C (keys_view_key C K) outs spent hi db))" for outs spent hi
    using d by (simp add: sends_distinct_def distinct_mset [OF send_ids_ingested])
  show "sends_distinct (rescan_file db)"
  proof -
    have "send_ids (map (\<lambda>e. e\<lparr>he_height := None, he_quarantined := True\<rparr>) es) = send_ids es" for es
      by (rule send_ids_map) simp
    then show ?thesis using d by (simp add: sends_distinct_def rescan_file_def) (simp add: send_ids_def)
  qed
  show "sends_distinct (sent_file C J tx amount memo time db)" for tx amount memo time
    by (rule sends_distinct_sent [OF d])
  show "sends_distinct (wf_air_signed_update (om_insert n \<lparr>as_intent = it, as_raw = raw\<rparr>)
      (sent_file C J tx amount [] time db))" for n it raw tx amount time
    using sends_distinct_sent [OF d] by (simp add: sends_distinct_def)
  show "sends_distinct (released_file txids unspend db)" for txids unspend
  proof -
    have "send_ids (map (fail_send txids) es) = send_ids es" for es
      by (rule send_ids_map) (simp add: fail_send_def)
    then show ?thesis using d by (simp add: sends_distinct_def released_file_def Let_def)
  qed
  show "sends_distinct (withhold Q db)" for Q
  proof -
    have "send_ids (map (\<lambda>e. if Q e then e\<lparr>he_quarantined := True\<rparr> else e) es) = send_ids es" for es
      by (rule send_ids_map) simp
    then show ?thesis using d by (simp add: sends_distinct_def withhold_def)
  qed
  show "sends_distinct (reset_file db)"
    by (simp add: sends_distinct_def reset_file_def wallet_file_default_def send_ids_def)
qed (simp_all add: sends_distinct_def)

section \<open>Payments\<close>

lemma inputs_of_build: "map in_commit (map fst (build_inputs C dr n ss)) = map sp_commit ss"
  by (induction C dr n ss rule: build_inputs.induct) simp_all

lemma spendable_commit: "to_spendable C keys oo = Inr s \<Longrightarrow> sp_commit s = oo_commit oo \<and> sp_value s = oo_value oo"
  by (auto simp: to_spendable_def res_simps)

lemma spendable_opens: "owned_ok C oo \<Longrightarrow> to_spendable C keys oo = Inr s \<Longrightarrow> opens C s"
  by (auto simp: to_spendable_def res_simps owned_ok_def opens_def)

lemma spendables:
  "list_all2 (\<lambda>oo s. to_spendable C keys oo = Inr s) oos ss \<Longrightarrow>
     map sp_commit ss = map oo_commit oos \<and> map sp_value ss = map oo_value oos
     \<and> (\<forall>s \<in> set ss. \<exists>oo \<in> set oos. to_spendable C keys oo = Inr s)"
  by (induction rule: list_all2_induct) (auto simp: spendable_commit)

text \<open>What a payment spends: available coins, as few as possible.\<close>

lemma payment_inputs:
  assumes "create_payment_at C dr w a amount fee memo tip maturity = Inr tx"
  obtains k ss target where
    "checked_add amount fee = Some target" "select_coins_at C w target tip maturity = Inr ss"
    "build_payment C dr w ss a amount fee memo tip = Inr tx"
    "list_all2 (\<lambda>oo s. to_spendable C (w_keys w) oo = Inr s)
       (take k (largest_first (available_coins (w_db w) tip maturity))) ss"
    "map in_commit (tx_inputs tx)
      = map oo_commit (take k (largest_first (available_coins (w_db w) tip maturity)))"
    "set (take k (largest_first (available_coins (w_db w) tip maturity)))
      \<subseteq> set (available_coins (w_db w) tip maturity)"
proof -
  let ?coins = "largest_first (available_coins (w_db w) tip maturity)"
  obtain target ss where t: "checked_add amount fee = Some target"
    and s: "select_coins_at C w target tip maturity = Inr ss"
    and b: "build_payment C dr w ss a amount fee memo tip = Inr tx"
    using assms by (auto simp: create_payment_at_def res_simps)
  obtain k where k: "list_all2 (\<lambda>oo s. to_spendable C (w_keys w) oo = Inr s) (take k ?coins) ss"
    using selection [OF s] by blast
  then have m: "map oo_commit (take k ?coins) = map sp_commit ss"
    using spendables by metis
  have "tx_inputs tx = map fst (build_inputs C dr 0 ss)"
    using b unfolding build_payment_def map_err_Inr_iff by (elim build_transfer_with_OkD) simp
  then have "map in_commit (tx_inputs tx) = map oo_commit (take k ?coins)"
    using inputs_of_build [of C dr 0 ss] m by simp
  moreover have "set (take k ?coins) \<subseteq> set (available_coins (w_db w) tip maturity)"
    using set_take_subset [of k ?coins] mset_largest by (metis set_mset_mset)
  ultimately show ?thesis using that t s b k by blast
qed

lemma available_unlocked:
  "oo \<in> set (available_coins db tip maturity) \<Longrightarrow> \<not> oo_spent oo \<and> oo_commit oo \<notin> pending_input_commits db
     \<and> \<not> is_reserved db (oo_commit oo)"
  by (simp add: available_coins_def)

lemma payment_spends_free_coins:
  assumes "create_payment_at C dr w a amount fee memo tip maturity = Inr tx"
    and "i \<in> set (tx_inputs tx)"
  shows "in_commit i \<notin> pending_input_commits (w_db w) \<and> \<not> is_reserved (w_db w) (in_commit i)
    \<and> (\<exists>oo \<in> set (wf_outputs (w_db w)). oo_commit oo = in_commit i \<and> \<not> oo_spent oo)"
proof -
  obtain k where m: "map in_commit (tx_inputs tx)
      = map oo_commit (take k (largest_first (available_coins (w_db w) tip maturity)))"
    and sub: "set (take k (largest_first (available_coins (w_db w) tip maturity)))
      \<subseteq> set (available_coins (w_db w) tip maturity)"
    by (rule payment_inputs [OF assms(1)])
  have "in_commit i \<in> set (map in_commit (tx_inputs tx))" using assms(2) by simp
  then obtain oo where oo: "oo \<in> set (available_coins (w_db w) tip maturity)" "oo_commit oo = in_commit i"
    unfolding m using sub by auto
  then show ?thesis using available_unlocked [OF oo(1)] by (auto simp: available_coins_def)
qed

lemma payment_verifies:
  assumes laws: "group_ok C" "encoding_ok C" "range_ok C" and ok: "file_ok C (w_db w)"
    and made: "create_payment_at C dr w a amount fee memo tip maturity = Inr tx"
    and room: "(\<Sum>oo \<leftarrow> wf_outputs (w_db w). unat (oo_value oo)) < 2 ^ 64"
    and fee: "fee \<le> MAX_KERNEL_FEE_DARKS"
    and nz: "\<And>k. k \<in> set (tx_kernels tx) \<Longrightarrow> commit_point C (excess k) \<noteq> Some 0"
    and off: "r_kernel_offset (wallet_rules (w_network w) tip) \<Longrightarrow> binding"
  shows "verify_stateless_rules C (proof_context (w_network w)) binding tx = Inr ()"
proof -
  let ?coins = "largest_first (available_coins (w_db w) tip maturity)"
  obtain k ss where b: "build_payment C dr w ss a amount fee memo tip = Inr tx"
    and l: "list_all2 (\<lambda>oo s. to_spendable C (w_keys w) oo = Inr s) (take k ?coins) ss"
    and sub: "set (take k ?coins) \<subseteq> set (available_coins (w_db w) tip maturity)"
    by (rule payment_inputs [OF made])
  have own: "set (take k ?coins) \<subseteq> set (wf_outputs (w_db w))"
    using sub by (auto simp: available_coins_def)
  have "\<forall>s \<in> set ss. opens C s"
  proof
    fix s
    assume "s \<in> set ss"
    then obtain oo where oo: "oo \<in> set (take k ?coins)" "to_spendable C (w_keys w) oo = Inr s"
      using spendables [OF l] by blast
    then have "owned_ok C oo" using own ok by (auto simp: file_ok_def)
    then show "opens C s" by (rule spendable_opens) (rule oo(2))
  qed
  moreover have "(\<Sum>s \<leftarrow> ss. unat (sp_value s)) < 2 ^ 64"
  proof -
    have "map (\<lambda>s. unat (sp_value s)) ss = map (\<lambda>oo. unat (oo_value oo)) (take k ?coins)"
    proof -
      have "map sp_value ss = map oo_value (take k ?coins)" using spendables [OF l] by blast
      then have "map unat (map sp_value ss) = map unat (map oo_value (take k ?coins))" by (rule arg_cong)
      then show ?thesis by (simp add: comp_def)
    qed
    then have "(\<Sum>s \<leftarrow> ss. unat (sp_value s)) = coins_value (take k ?coins)"
      by (simp add: coins_value_def coin_value_def)
    also have "\<dots> \<le> coins_value ?coins"
      by (metis append_take_drop_id coins_value_simps(3) le_add1)
    also have "\<dots> = coins_value (available_coins (w_db w) tip maturity)"
      by (rule coins_value_mset) simp
    also have "\<dots> \<le> (\<Sum>oo \<leftarrow> wf_outputs (w_db w). unat (oo_value oo))"
      unfolding available_coins_def coins_value_def coin_value_def by (rule sum_list_filter_le_nat)
    finally show ?thesis using room by simp
  qed
  moreover have "(\<Sum>p \<leftarrow> [\<lparr>pay_to = a, pay_amount = amount, pay_memo = str_bytes memo\<rparr>]. unat (pay_amount p)) < 2 ^ 64"
    using unsigned_less [of amount, where ?'a = nat] by simp
  ultimately show ?thesis
    using b unfolding build_payment_def map_err_Inr_iff
    by (intro build_transfer_balances [OF laws _ _ _ _ fee nz off]) blast+
qed

section \<open>An unresolved payment keeps its coins\<close>

text \<open>A send is confirmed by a page only when the page consumed its inputs.\<close>

definition sound_confirmed :: "(string \<times> bytes list) list \<Rightarrow> bytes set \<Rightarrow> (string \<times> u64 \<times> u64) list \<Rightarrow> bool" where
  "sound_confirmed ps spent cs \<longleftrightarrow> (\<forall>c \<in> set cs. \<exists>p \<in> set ps. fst p = fst c \<and> set (snd p) \<subseteq> spent)"

lemma confirm_send_sound:
  assumes "sound_confirmed ps spent cs" "set qs \<subseteq> set ps"
  shows "sound_confirmed ps spent (fold (confirm_send h t spent) qs cs)"
  using assms
proof (induction qs arbitrary: cs)
  case (Cons q qs)
  have "sound_confirmed ps spent (confirm_send h t spent q cs)"
    using Cons.prems by (auto simp: sound_confirmed_def confirm_send_def)
  then show ?case using Cons by simp
qed simp

lemma sound_confirmed_mono: "sound_confirmed ps spent cs \<Longrightarrow> spent \<subseteq> spent' \<Longrightarrow> sound_confirmed ps spent' cs"
  unfolding sound_confirmed_def by blast

lemma scan_tx_output_same:
  "ss_spent (scan_tx_output C view known b out st) = ss_spent st
   \<and> ss_confirmed (scan_tx_output C view known b out st) = ss_confirmed st
   \<and> ss_highest (scan_tx_output C view known b out st) = ss_highest st"
  by (auto simp: scan_tx_output_def Let_def split: option.split)

lemma scan_outputs_same:
  "ss_spent (fold (scan_tx_output C view known b) outs st) = ss_spent st
   \<and> ss_confirmed (fold (scan_tx_output C view known b) outs st) = ss_confirmed st
   \<and> ss_highest (fold (scan_tx_output C view known b) outs st) = ss_highest st"
  by (induction outs arbitrary: st) (simp_all add: scan_tx_output_same)

lemma scan_one_block_spent:
  "ss_spent (scan_one_block C view known ps b st) = ss_spent st \<union> set (block_inputs b)"
  by (simp add: scan_one_block_def Let_def scan_outputs_same)

definition page_inputs :: "block list \<Rightarrow> bytes set" where
  "page_inputs bs = (\<Union>b \<in> set bs. set (block_inputs b))"

lemma scan_page_spent: "ss_spent (scan_page C view force db bs) = page_inputs bs"
proof -
  have "ss_spent (fold (scan_one_block C view known ps) bs st) = ss_spent st \<union> page_inputs bs" for known ps st
    by (induction bs arbitrary: st) (simp_all add: scan_one_block_spent page_inputs_def Un_assoc)
  then show ?thesis by (simp add: scan_page_def)
qed

lemma scan_blocks_sound:
  "sound_confirmed ps (ss_spent st) (ss_confirmed st) \<Longrightarrow>
   sound_confirmed ps (ss_spent (fold (scan_one_block C view known ps) bs st))
     (ss_confirmed (fold (scan_one_block C view known ps) bs st))"
proof (induction bs arbitrary: st)
  case (Cons b bs)
  have "sound_confirmed ps (ss_spent (scan_one_block C view known ps b st))
      (ss_confirmed (scan_one_block C view known ps b st))"
    using confirm_send_sound [OF sound_confirmed_mono [OF Cons.prems Un_upper1] order_refl,
        of "set (block_inputs b)" "block_height b" "h_timestamp (blk_header b)"]
    by (simp add: scan_one_block_def Let_def scan_outputs_same)
  then show ?case using Cons.IH by simp
qed simp

lemma sound_nothing: "ss_confirmed st = [] \<Longrightarrow> sound_confirmed ps (ss_spent st) (ss_confirmed st)"
  by (simp add: sound_confirmed_def)

lemma scan_page_sound:
  "sound_confirmed (pending_sends db) (page_inputs bs) (ss_confirmed (scan_page C view force db bs))"
  by (subst scan_page_spent [of C view force db bs, symmetric], simp only: scan_page_def)
     (rule scan_blocks_sound, rule sound_nothing, simp only: scan_state.select_convs)

text \<open>An entry in no block survives the confirmations, or one of them names it.\<close>

lemma confirm_entry_keeps:
  assumes "e \<in> set es" "he_height e = None"
  shows "e \<in> set (confirm_entry c es) \<or> fst c = he_txid e"
  using assms by (induction c es rule: confirm_entry.induct) auto

lemma confirm_entries_keep:
  assumes "e \<in> set es" "he_height e = None" "he_txid e \<notin> fst ` set cs"
  shows "e \<in> set (fold confirm_entry cs es)"
  using assms
proof (induction cs arbitrary: es)
  case (Cons c cs)
  have "fst c \<noteq> he_txid e" "he_txid e \<notin> fst ` set cs" using Cons.prems(3) by auto
  then have "e \<in> set (confirm_entry c es)" using confirm_entry_keeps [OF Cons.prems(1,2)] by blast
  then show ?case
    unfolding fold_simps by (rule Cons.IH) (rule Cons.prems(2), rule \<open>he_txid e \<notin> fst ` set cs\<close>)
qed simp

lemma append_new_keeps: "set es \<subseteq> set (fold (append_new same) new es)"
proof (induction new arbitrary: es)
  case (Cons n new)
  have "set es \<subseteq> set (append_new same n es)" by (auto simp: append_new_def)
  then show ?case using Cons [of "append_new same n es"] by auto
qed simp

lemma reconcile_keeps_pending:
  "e \<in> set (wf_history db) \<Longrightarrow> pending_send e \<Longrightarrow> e \<in> set (wf_history (reconcile_with bs spent db))"
  by (force simp: reconcile_with_def Let_def kept_entry_def unconfirm_def pending_send_def is_pending_def
      image_iff)

text \<open>Identifiers of sends decide their inputs.\<close>

lemma send_of_id:
  assumes "sends_distinct db" "e \<in> set (wf_history db)" "pending_send e"
    and "p \<in> set (pending_sends db)" "fst p = he_txid e"
  shows "snd p = he_spent e"
proof -
  obtain f where f: "f \<in> set (wf_history db)" "pending_send f" "p = (he_txid f, he_spent f)"
    using assms(4) by (auto simp: pending_sends_def)
  have "inj_on he_txid {e \<in> set (wf_history db). he_direction e = Sent}"
    using assms(1) by (simp add: sends_distinct_def send_ids_def distinct_map)
  then have "f = e"
    using f assms(2,3,5) by (auto simp: inj_on_def pending_send_def)
  then show ?thesis using f(3) by simp
qed

lemma scan_keeps_locked:
  fixes C :: "('p::ab_group_add, 's::comm_ring_1) crypto" and view force bs
  assumes d: "sends_distinct db" and e: "e \<in> set (wf_history db)" "pending_send e" and c: "c \<in> set (he_spent e)"
  defines "db' \<equiv> scanned_file C force bs (scan_page C view force db bs) db"
  shows "c \<in> pending_input_commits db' \<or> (\<forall>oo \<in> set (wf_outputs db'). oo_commit oo = c \<longrightarrow> oo_spent oo)"
proof -
  let ?st = "scan_page C view force db bs"
  let ?db1 = "db\<lparr>wf_outputs := mark_spent (ss_spent ?st) (wf_outputs db @ ss_owned ?st)\<rparr>"
  let ?db2 = "if force \<or> covers_canonical_history bs (wf_birth ?db1) (wf_scanned_to ?db1) (wf_outputs ?db1)
    then reconcile_with bs (ss_spent ?st) ?db1 else ?db1"
  have outs: "wf_outputs db' = wf_outputs ?db2"
    and hist: "set (wf_history db') = set (fold (append_new same_discovery) (ss_new ?st)
        (fold confirm_entry (ss_confirmed ?st) (wf_history ?db2)))"
    by (simp_all add: db'_def scanned_file_def Let_def)
  show ?thesis
  proof (cases "he_txid e \<in> fst ` set (ss_confirmed ?st)")
    case True
    then obtain p where p: "p \<in> set (pending_sends db)" "fst p = he_txid e" "set (snd p) \<subseteq> page_inputs bs"
      using scan_page_sound [of db bs C view force] by (fastforce simp: sound_confirmed_def)
    then have "c \<in> ss_spent ?st"
      using send_of_id [OF d e p(1,2)] c scan_page_spent [of C view force db bs] by auto
    then have "\<forall>oo \<in> set (wf_outputs ?db2). oo_commit oo = c \<longrightarrow> oo_spent oo"
      by (auto simp: reconcile_with_def Let_def mark_spent_def)
    then show ?thesis using outs by simp
  next
    case False
    have "e \<in> set (wf_history ?db2)" using e reconcile_keeps_pending [of e ?db1] by auto
    then have "e \<in> set (fold confirm_entry (ss_confirmed ?st) (wf_history ?db2))"
      using False e(2) by (intro confirm_entries_keep) (auto simp: pending_send_def is_pending_def)
    then have "e \<in> set (wf_history db')" using hist append_new_keeps by blast
    then show ?thesis using e(2) c by (auto simp: pending_input_commits_def)
  qed
qed

lemma ingest_keeps_locked:
  fixes C :: "('p::ab_group_add, 's::comm_ring_1) crypto" and view outs spent hi
  assumes d: "sends_distinct db" and e: "e \<in> set (wf_history db)" "pending_send e" and c: "c \<in> set (he_spent e)"
  defines "db' \<equiv> fst (ingested_file C view outs spent hi db)"
  shows "c \<in> pending_input_commits db' \<or> (\<forall>oo \<in> set (wf_outputs db'). oo_commit oo = c \<longrightarrow> oo_spent oo)"
proof -
  let ?st = "fold (ingest_output C view (oo_commit ` set (wf_outputs db)) (spent_of spent)) outs
    \<lparr>ls_owned = [], ls_new = [], ls_found = 0\<rparr>"
  let ?cs = "confirmed_light db (spent_of spent) outs hi"
  have outs: "wf_outputs db' = mark_spent (spent_of spent) (wf_outputs db @ ls_owned ?st)"
    and hist: "set (wf_history db') = set (fold (append_new same_light_discovery) (ls_new ?st)
        (fold confirm_entry ?cs (wf_history db)))"
    by (simp_all add: db'_def ingested_file_def Let_def)
  show ?thesis
  proof (cases "he_txid e \<in> fst ` set ?cs")
    case True
    then obtain p where p: "p \<in> set (pending_sends db)" "fst p = he_txid e" "set (snd p) \<subseteq> spent_of spent"
      by (auto simp: confirmed_light_def)
    then have "c \<in> spent_of spent" using send_of_id [OF d e p(1,2)] c by auto
    then have "\<forall>oo \<in> set (wf_outputs db'). oo_commit oo = c \<longrightarrow> oo_spent oo"
      unfolding outs by (auto simp: mark_spent_def)
    then show ?thesis by blast
  next
    case False
    have "e \<in> set (fold confirm_entry ?cs (wf_history db))"
      by (rule confirm_entries_keep) (use e False in \<open>auto simp: pending_send_def is_pending_def\<close>)
    then have "e \<in> set (wf_history db')" using hist append_new_keeps by blast
    then show ?thesis using e(2) c by (auto simp: pending_input_commits_def)
  qed
qed

text \<open>A coin no payment can take: of an unresolved send, or spent.\<close>

definition locked_coin :: "bytes \<Rightarrow> wallet_file \<Rightarrow> bool" where
  "locked_coin c db \<longleftrightarrow> c \<in> pending_input_commits db
     \<or> (\<forall>oo \<in> set (wf_outputs db). oo_commit oo = c \<longrightarrow> oo_spent oo)"

lemma locked_unavailable: "locked_coin c db \<Longrightarrow> oo \<in> set (available_coins db tip maturity) \<Longrightarrow> oo_commit oo \<noteq> c"
  by (auto simp: locked_coin_def available_coins_def)

lemma pending_mono:
  "(\<And>e. e \<in> set (wf_history db) \<Longrightarrow> pending_send e \<Longrightarrow>
      \<exists>f \<in> set (wf_history db'). pending_send f \<and> he_spent f = he_spent e)
   \<Longrightarrow> pending_input_commits db \<subseteq> pending_input_commits db'"
  by (auto simp: pending_input_commits_def) metis

lemma pending_same_history:
  "wf_history db' = wf_history db \<Longrightarrow> pending_input_commits db' = pending_input_commits db"
  by (simp add: pending_input_commits_def)

lemma pending_sent: "pending_input_commits db \<subseteq> pending_input_commits (sent_file C J tx amount memo time db)"
  by (rule pending_mono) (auto simp: sent_file_def)

lemma pending_rescan: "pending_input_commits db \<subseteq> pending_input_commits (rescan_file db)"
proof (rule pending_mono)
  fix e
  assume "e \<in> set (wf_history db)" "pending_send e"
  then show "\<exists>f \<in> set (wf_history (rescan_file db)). pending_send f \<and> he_spent f = he_spent e"
    by (intro bexI [of _ "e\<lparr>he_height := None, he_quarantined := True\<rparr>"])
       (auto simp: rescan_file_def pending_send_def is_pending_def)
qed

lemma pending_withheld: "pending_input_commits db \<subseteq> pending_input_commits (withhold Q db)"
proof (rule pending_mono)
  fix e
  assume "e \<in> set (wf_history db)" "pending_send e"
  then show "\<exists>f \<in> set (wf_history (withhold Q db)). pending_send f \<and> he_spent f = he_spent e"
    by (intro bexI [of _ "if Q e then e\<lparr>he_quarantined := True\<rparr> else e"])
       (auto simp: withhold_def pending_send_def is_pending_def)
qed

definition gives_up_sends :: "'s wallet_op \<Rightarrow> bool" where
  "gives_up_sends op \<longleftrightarrow> (case op of ReleaseSends _ _ \<Rightarrow> True | ResetScan \<Rightarrow> True | _ \<Rightarrow> False)"

lemma locked_after_step:
  assumes J: "json_ok J" and K: "keys_ok C (w_keys w)" and d: "sends_distinct (w_db w)"
    and c: "c \<in> pending_input_commits (w_db w)" and op: "\<not> gives_up_sends op"
  shows "locked_coin c (w_db (wallet_step C J sv op w))"
proof -
  obtain e where e: "e \<in> set (wf_history (w_db w))" "pending_send e" "c \<in> set (he_spent e)"
    using c by (auto simp: pending_input_commits_def)
  have here: "locked_coin c (w_db w)" using c by (simp add: locked_coin_def)
  have more: "locked_coin c db'" if "pending_input_commits (w_db w) \<subseteq> pending_input_commits db'" for db'
    using that c by (auto simp: locked_coin_def)
  have scan: "locked_coin c (w_db (fst (scan_blocks_inner C sv force bs w)))" for force bs
    using scan_keeps_locked [OF d e] by (simp add: scan_blocks_inner_def Let_def locked_coin_def)
  have ingest: "locked_coin c (w_db (fst (ingest_scan_page C sv outs spent hi w)))" for outs spent hi
    using ingest_keeps_locked [OF d e] by (simp add: ingest_fst locked_coin_def)
  show ?thesis
  proof (cases op)
    case (ScanBlocks bs)
    then show ?thesis using scan here by (simp add: scan_blocks_def split: sum.split)
  next
    case (Rebase bs)
    then show ?thesis using scan here by (simp add: rebase_on_shorter_chain_def split: sum.split)
  next
    case (IngestPage outs spent to)
    then show ?thesis using ingest by simp
  next
    case (IngestAnchored outs spent lo hi h1 h2)
    let ?v = "fst (ingest_scan_page C sv outs spent hi w)"
    have "locked_coin c (w_db x)" if "x \<in> {w, ?v} \<union> {set_db (wf_scanned_tip_update (\<lambda>_. h)) ?v | h. True}" for x
      using that here ingest [of outs spent hi] by (auto simp: locked_coin_def pending_input_commits_def)
    then show ?thesis using IngestAnchored anchored_fst [of C sv outs spent lo hi h1 h2 w] by simp
  next
    case LightRescan
    then show ?thesis using here more [OF pending_rescan] by (simp add: begin_light_rescan_def)
  next
    case (RecordSend tx amount memo time)
    then show ?thesis using more [OF pending_sent] by (simp add: record_send_at_def)
  next
    case QuarantinePending
    then show ?thesis using here more [OF pending_withheld] by (simp add: quarantine_pending_sends_def Let_def)
  next
    case QuarantineImported
    then show ?thesis using here more [OF pending_withheld] by (simp add: quarantine_imported_sends_def Let_def)
  next
    case (AirPayment dr i maturity now clock)
    have "pending_input_commits (w_db w) \<subseteq> pending_input_commits
        (wf_air_signed_update f (sent_file C J tx amount memo time (w_db w)))" for f tx amount memo time
      using pending_sent by (simp add: pending_input_commits_def)
    then show ?thesis
      using prepare_air_file [OF J K, of dr sv i maturity now clock] here more AirPayment by auto
  qed (use op here in \<open>auto simp: gives_up_sends_def reserve_commits_def release_commits_def save_or_restore_def
        edit_till_def locked_coin_def pending_input_commits_def split: sum.split\<close>)
qed

section \<open>One transaction per request\<close>

lemma air_success:
  assumes J: "json_ok J" and k: "keys_ok C (w_keys w)" and om: "om_ok (wf_air_signed (w_db w))"
    and r: "prepare_air_payment C J dr sv i0 maturity now clock w = (w', Inr tx)"
  obtains i raw where "intent_parse C (intent_text C i0) = Inr i" "tx_of_json J raw = Some tx"
    "answered_with (it_nonce i) \<lparr>as_intent = intent_text C i, as_raw = raw\<rparr> (w_db w')"
proof -
  obtain i where i: "intent_parse C (intent_text C i0) = Inr i" "intent_check i (w_network w) now = Inr ()"
    using r by (auto simp: prepare_air_payment_def res_simps split: sum.splits)
  show ?thesis
  proof (cases "map_of (wf_air_signed (w_db w)) (it_nonce i)")
    case (Some saved)
    then have "w' = w" "as_intent saved = intent_text C i" "tx_of_json J (as_raw saved) = Some tx"
      using r i by (auto simp: prepare_air_payment_def air_answer_def res_simps split: if_splits)
    then show ?thesis using that [OF i(1), of "as_raw saved"] Some om
      by (cases saved) (simp add: answered_with_def)
  next
    case None
    then obtain cand where a: "air_candidate C J dr sv i maturity clock w = Inr (cand, tx)"
      and ad: "adopt_scan_state C sv cand w = (w', Inr ())"
      using r i by (auto simp: prepare_air_payment_def split: if_splits sum.splits prod.splits)
    obtain raw where raw: "tx_to_json J tx = Some raw"
      "w_db cand = wf_air_signed_update (om_insert (it_nonce i) \<lparr>as_intent = intent_text C i, as_raw = raw\<rparr>)
        (sent_file C J tx (it_amount i) [] clock (w_db w))"
      by (rule air_candidate_file [OF J k a])
    have "w_db w' = w_db cand"
      using ad by (auto simp: adopt_scan_state_def save_or_restore_def split: if_splits sum.splits)
    then have "answered_with (it_nonce i) \<lparr>as_intent = intent_text C i, as_raw = raw\<rparr> (w_db w')"
      using raw(2) om by (simp add: answered_with_def same_answers map_of_om_insert)
    moreover have "tx_of_json J raw = Some tx" using J raw(1) by (simp add: json_ok_def)
    ultimately show ?thesis using that i(1) by blast
  qed
qed

lemma air_answered_once:
  assumes J: "json_ok J" and k: "keys_ok C (w_keys w)" and om: "om_ok (wf_air_signed (w_db w))"
    and first: "prepare_air_payment C J dr sv i0 maturity now clock w = (w', Inr tx)"
    and again: "prepare_air_payment C J dr2 sv j0 maturity2 now2 clock2 (wallet_run C J sv ops w') = (w2, Inr tx2)"
    and same: "intent_parse C (intent_text C i0) = Inr i" "intent_parse C (intent_text C j0) = Inr j"
      "it_nonce j = it_nonce i"
  shows "tx2 = tx \<and> intent_text C j = intent_text C i \<and> w2 = wallet_run C J sv ops w'"
proof -
  obtain raw where raw: "tx_of_json J raw = Some tx"
    and ans: "answered_with (it_nonce i) \<lparr>as_intent = intent_text C i, as_raw = raw\<rparr> (w_db w')"
    using air_success [OF J k om first] same(1) by (metis sum.inject(2))
  have kw: "w_keys w' = w_keys w"
    using prepare_air_keys [of C J dr sv i0 maturity now clock w] first by simp
  have "answered_with (it_nonce i) \<lparr>as_intent = intent_text C i, as_raw = raw\<rparr> (w_db (wallet_run C J sv ops w'))"
    using answered.run [OF J k ans kw, of ops sv] by (simp add: allowed_def)
  then have m: "map_of (wf_air_signed (w_db (wallet_run C J sv ops w'))) (it_nonce j)
      = Some \<lparr>as_intent = intent_text C i, as_raw = raw\<rparr>"
    by (simp add: answered_with_def same(3))
  show ?thesis
    using again same(2) m raw
    by (auto simp: prepare_air_payment_def air_answer_def res_simps split: sum.splits if_splits)
qed

end
