(* ===== verification/Receipt.thy ===== *)
theory Receipt
  imports Wallet_Safety
begin

text \<open>
  \<open>crates/nightfall-wallet/src/receipt.rs\<close>: payment receipts.  A receipt opens one output, or
  names a payment sent, and is signed by the wallet's spend key.  Strings are UTF-8 text;
  the entropy of a signature is an argument.
\<close>

section \<open>Receipts and their messages\<close>

definition RECEIPT_DOMAIN :: bytes where "RECEIPT_DOMAIN = str_bytes ''nightfall:receipt:v1''"
definition RECEIPT_DOMAIN_V2 :: bytes where "RECEIPT_DOMAIN_V2 = str_bytes ''nightfall:receipt:v2''"
definition RECEIPT_VERSION :: u32 where "RECEIPT_VERSION = 2"
definition V1_UNSIGNED :: "string list" where "V1_UNSIGNED = [''kind'', ''timestamp'']"

record payment_receipt =
  rc_v :: u32
  rc_kind :: string
  rc_address :: string
  rc_amount :: u64
  rc_memo :: string
  rc_commit :: string
  rc_blind :: string
  rc_height :: u64
  rc_timestamp :: u64
  rc_sig_r :: string
  rc_sig_s :: string

text \<open>What each version signs, before it is hashed.\<close>

definition receipt_parts :: "payment_receipt \<Rightarrow> bytes list" where
  "receipt_parts r =
     [str_bytes (rc_address r), u64_le (rc_amount r), str_bytes (rc_commit r), str_bytes (rc_blind r),
      str_bytes (rc_memo r), u64_le (rc_height r)]"

definition receipt_parts_v2 :: "payment_receipt \<Rightarrow> bytes list" where
  "receipt_parts_v2 r =
     [str_bytes (rc_kind r), str_bytes (rc_address r), u64_le (rc_amount r), str_bytes (rc_commit r),
      str_bytes (rc_blind r), str_bytes (rc_memo r), u64_le (rc_height r), u64_le (rc_timestamp r)]"

definition receipt_msg :: "('p, 's) crypto \<Rightarrow> payment_receipt \<Rightarrow> bytes" where
  "receipt_msg C r = hash_multi C RECEIPT_DOMAIN (receipt_parts r)"

definition receipt_msg_v2 :: "('p, 's) crypto \<Rightarrow> payment_receipt \<Rightarrow> bytes" where
  "receipt_msg_v2 C r = hash_multi C RECEIPT_DOMAIN_V2 (receipt_parts_v2 r)"

definition sign_receipt ::
  "('p::ab_group_add, 's::comm_ring_1) crypto \<Rightarrow> bytes \<Rightarrow> 's wallet_keys \<Rightarrow> payment_receipt \<Rightarrow> payment_receipt" where
  "sign_receipt C entropy keys r =
     (let r1 = r\<lparr>rc_v := RECEIPT_VERSION\<rparr>;
          sg = schnorr_sign C entropy (spend_sk keys) (generator_g C) (receipt_msg_v2 C r1)
      in r1\<lparr>rc_sig_r := hex_encode (sig_r sg), rc_sig_s := hex_encode (sig_s sg)\<rparr>)"

section \<open>Making a receipt\<close>

datatype receipt_error =
    NoOwnedOutput | NoHistoryEntry | UnknownReceiptVersion u32 | BadReceiptAddress crypto_error
  | BadCommitHex | BadCommitLength | BadBlindHex | BadBlindLength | NonCanonicalBlind
  | AmountMismatch | BadSigR | BadSigS | BadSigLength | BadSpendKey | BadReceiptSignature

definition needle_of :: "string \<Rightarrow> string" where
  "needle_of s = to_ascii_lowercase (trim s)"

definition matches_needle :: "string \<Rightarrow> string \<Rightarrow> bool" where
  "matches_needle needle x \<longleftrightarrow> x = needle \<or> strip_prefix needle x \<noteq> None"

definition wallet_address_string :: "('p, 's::comm_ring_1) crypto \<Rightarrow> 's wallet \<Rightarrow> string" where
  "wallet_address_string C w = address_encode C (keys_address C (w_keys w))"

definition receipt_from_output ::
  "('p::ab_group_add, 's::comm_ring_1) crypto \<Rightarrow> bytes \<Rightarrow> 's wallet \<Rightarrow> owned_output \<Rightarrow> history_entry option
     \<Rightarrow> payment_receipt" where
  "receipt_from_output C entropy w oo hist =
     sign_receipt C entropy (w_keys w)
       \<lparr>rc_v = 1, rc_kind = (if oo_coinbase oo then ''mined'' else ''received''),
        rc_address = wallet_address_string C w, rc_amount = oo_value oo, rc_memo = oo_memo oo,
        rc_commit = hex_encode (oo_commit oo), rc_blind = oo_blind_hex oo, rc_height = oo_height oo,
        rc_timestamp = (case hist of None \<Rightarrow> 0 | Some h \<Rightarrow> he_timestamp h),
        rc_sig_r = [], rc_sig_s = []\<rparr>"

definition prove_output ::
  "('p::ab_group_add, 's::comm_ring_1) crypto \<Rightarrow> bytes \<Rightarrow> 's wallet \<Rightarrow> string \<Rightarrow> receipt_error + payment_receipt" where
  "prove_output C entropy w commit_hex =
     res_bind (ok_or NoOwnedOutput (List.find (\<lambda>oo. matches_needle (needle_of commit_hex) (hex_encode (oo_commit oo)))
         (wf_outputs (w_db w)))) (\<lambda>oo.
       Inr (receipt_from_output C entropy w oo
         (List.find (\<lambda>e. he_txid e = hex_encode (oo_commit oo)) (wf_history (w_db w)))))"

definition sent_receipt ::
  "('p::ab_group_add, 's::comm_ring_1) crypto \<Rightarrow> bytes \<Rightarrow> 's wallet \<Rightarrow> history_entry \<Rightarrow> payment_receipt" where
  "sent_receipt C entropy w e =
     sign_receipt C entropy (w_keys w)
       \<lparr>rc_v = 1, rc_kind = ''sent'', rc_address = wallet_address_string C w, rc_amount = he_amount e,
        rc_memo = he_memo e, rc_commit = he_txid e, rc_blind = [],
        rc_height = (case he_height e of None \<Rightarrow> 0 | Some h \<Rightarrow> h), rc_timestamp = he_timestamp e,
        rc_sig_r = [], rc_sig_s = []\<rparr>"

definition prove_history ::
  "('p::ab_group_add, 's::comm_ring_1) crypto \<Rightarrow> bytes \<Rightarrow> 's wallet \<Rightarrow> string \<Rightarrow> receipt_error + payment_receipt" where
  "prove_history C entropy w tx =
     res_bind (ok_or NoHistoryEntry (List.find (\<lambda>e. matches_needle (needle_of tx) (he_txid e))
         (wf_history (w_db w)))) (\<lambda>e.
       (case he_direction e of
          Sent \<Rightarrow> Inr (sent_receipt C entropy w e)
        | _ \<Rightarrow> prove_output C entropy w (he_txid e)))"

section \<open>Verifying a receipt\<close>

datatype receipt_kind = RkReceived | RkMined | RkSent | RkOther

definition receipt_kind_parse :: "string \<Rightarrow> receipt_kind" where
  "receipt_kind_parse s =
     (if s = ''received'' then RkReceived else if s = ''mined'' then RkMined
      else if s = ''sent'' then RkSent else RkOther)"

definition receipt_kind_str :: "receipt_kind \<Rightarrow> string" where
  "receipt_kind_str k =
     (case k of RkReceived \<Rightarrow> ''received'' | RkMined \<Rightarrow> ''mined'' | RkSent \<Rightarrow> ''sent'' | RkOther \<Rightarrow> ''unrecognised'')"

record receipt_proof =
  rp_version :: u32
  rp_kind :: receipt_kind
  rp_address :: string
  rp_amount :: u64
  rp_memo :: string
  rp_height :: u64
  rp_timestamp :: u64
  rp_reference :: string
  rp_amount_proven :: bool
  rp_unsigned :: "string list"

definition unsigned_fields_of :: "u32 \<Rightarrow> receipt_error + string list" where
  "unsigned_fields_of v =
     (if v = 1 then Inr V1_UNSIGNED else if v = 2 then Inr [] else Inl (UnknownReceiptVersion v))"

text \<open>The opening: whether a blinding factor proves the amount.\<close>

definition check_opening :: "('p::ab_group_add, 's::comm_ring_1) crypto \<Rightarrow> payment_receipt \<Rightarrow> receipt_error + bool" where
  "check_opening C r =
     (if rc_blind r = [] then Inr False
      else
        res_bind (ok_or BadCommitHex (hex_decode (rc_commit r))) (\<lambda>c.
        res_bind (ensure BadCommitLength (length c = 32)) (\<lambda>_.
        res_bind (ok_or BadBlindHex (hex_decode (rc_blind r))) (\<lambda>b.
        res_bind (ensure BadBlindLength (length b = 32)) (\<lambda>_.
        res_bind (ok_or NonCanonicalBlind (from_canonical_bytes C b)) (\<lambda>blind.
        res_bind (ensure AmountMismatch (commitment_new C (rc_amount r) blind = c)) (\<lambda>_. Inr True)))))))"

definition receipt_sig :: "payment_receipt \<Rightarrow> receipt_error + schnorr_sig" where
  "receipt_sig r =
     res_bind (ok_or BadSigR (hex_decode (rc_sig_r r))) (\<lambda>sr.
     res_bind (ok_or BadSigS (hex_decode (rc_sig_s r))) (\<lambda>ss.
     res_bind (ensure BadSigLength (length sr = 32 \<and> length ss = 32)) (\<lambda>_.
       Inr \<lparr>sig_r = sr, sig_s = ss\<rparr>)))"

definition receipt_digest :: "('p, 's) crypto \<Rightarrow> payment_receipt \<Rightarrow> bytes" where
  "receipt_digest C r = (if rc_v r = 1 then receipt_msg C r else receipt_msg_v2 C r)"

definition verify_receipt ::
  "('p::ab_group_add, 's::comm_ring_1) crypto \<Rightarrow> payment_receipt \<Rightarrow> receipt_error + receipt_proof" where
  "verify_receipt C r =
     res_bind (unsigned_fields_of (rc_v r)) (\<lambda>unsigned.
     res_bind (map_err BadReceiptAddress (address_decode C (rc_address r))) (\<lambda>addr.
     res_bind (check_opening C r) (\<lambda>proven.
     res_bind (receipt_sig r) (\<lambda>sg.
     res_bind (ok_or BadSpendKey (decompress C (spend_pk addr))) (\<lambda>pk.
     res_bind (ensure BadReceiptSignature
       (schnorr_verify C pk (generator_g C) (receipt_digest C r) sg)) (\<lambda>_.
       Inr \<lparr>rp_version = rc_v r, rp_kind = receipt_kind_parse (rc_kind r), rp_address = rc_address r,
            rp_amount = rc_amount r, rp_memo = rc_memo r, rp_height = rc_height r,
            rp_timestamp = rc_timestamp r, rp_reference = rc_commit r,
            rp_amount_proven = proven, rp_unsigned = unsigned\<rparr>))))))"

section \<open>What the report says\<close>

definition receipt_summary :: "receipt_proof \<Rightarrow> string" where
  "receipt_summary p =
     ''The holder of '' @ rp_address p @
     (if rp_amount_proven p
      then (CHR 0x27 # ''s spend key signed this, and the commitment opens to exactly the amount shown.'')
      else (CHR 0x27 # ''s spend key signed this. The amount is their own statement: this kind of receipt carries no commitment to open, so nothing here confirms the figure.''))"

fun join_words :: "string list \<Rightarrow> string" where
  "join_words [] = []"
| "join_words [x] = x"
| "join_words (x # y # xs) = x @ '' and '' @ join_words (y # xs)"

definition not_established :: "receipt_proof \<Rightarrow> string list" where
  "not_established p =
     [''That this payment is in the chain. Verification never contacts a node, so inclusion and confirmation depth are a separate question.'']
     @ (if rp_amount_proven p then []
        else [''That the amount is what the receipt says. There is no commitment here to check it against.''])
     @ (if rp_unsigned p = [] then []
        else
          (let one = length (rp_unsigned p) = 1 in
           [''That '' @ join_words (rp_unsigned p) @ '' '' @ (if one then ''is'' else ''are'') @
            '' what the signer wrote. This is an older receipt whose signature does not cover '' @
            (if one then ''it'' else ''them'') @ '', so '' @ (if one then ''it'' else ''they'') @
            '' can be changed without breaking it. Ask for a new receipt if that matters.'']))"

section \<open>Made receipts verify\<close>

lemma sign_receipt_sel [simp]:
  "rc_v (sign_receipt C ent k r) = 2" "rc_kind (sign_receipt C ent k r) = rc_kind r"
  "rc_address (sign_receipt C ent k r) = rc_address r" "rc_amount (sign_receipt C ent k r) = rc_amount r"
  "rc_memo (sign_receipt C ent k r) = rc_memo r" "rc_commit (sign_receipt C ent k r) = rc_commit r"
  "rc_blind (sign_receipt C ent k r) = rc_blind r" "rc_height (sign_receipt C ent k r) = rc_height r"
  "rc_timestamp (sign_receipt C ent k r) = rc_timestamp r"
  by (simp_all add: sign_receipt_def Let_def RECEIPT_VERSION_def)

lemma encoded_lengths:
  assumes "encoding_ok C"
  shows "length (compress C p) = 32" and "length (scalar_bytes C s) = 32"
  using assms unfolding encoding_ok_def by blast+

lemma own_address_decodes:
  assumes "encoding_ok C"
  shows "address_decode C (address_encode C (keys_address C k)) = Inr (keys_address C k)"
  by (rule address_roundtrip [OF assms])
     (simp_all add: keys_address_def scan_point_def spend_point_def alg encoded_lengths assms)

lemma signed_receipt_verifies:
  fixes C :: "('p::ab_group_add, 's::comm_ring_1) crypto"
  assumes ok: "group_ok C" "encoding_ok C"
    and addr: "rc_address r = address_encode C (keys_address C k)"
    and opens: "check_opening C r = Inr proven"
  shows "verify_receipt C (sign_receipt C ent k r) =
     Inr \<lparr>rp_version = 2, rp_kind = receipt_kind_parse (rc_kind r), rp_address = rc_address r,
          rp_amount = rc_amount r, rp_memo = rc_memo r, rp_height = rc_height r,
          rp_timestamp = rc_timestamp r, rp_reference = rc_commit r,
          rp_amount_proven = proven, rp_unsigned = []\<rparr>"
proof -
  let ?r = "sign_receipt C ent k r"
  let ?msg = "receipt_msg_v2 C (r\<lparr>rc_v := RECEIPT_VERSION\<rparr>)"
  let ?sg = "schnorr_sign C ent (spend_sk k) (generator_g C) ?msg"
  have sig: "receipt_sig ?r = Inr ?sg"
    by (simp add: receipt_sig_def sign_receipt_def Let_def hex_decode_encode ok_or_def ensure_def
        schnorr_sign_def encoded_lengths ok)
  have digest: "receipt_digest C ?r = ?msg"
    by (simp add: receipt_digest_def receipt_msg_v2_def receipt_parts_v2_def)
  have spend: "spend_pk (keys_address C k) = compress C (spend_public C k)" by (simp add: keys_address_def)
  have "check_opening C ?r = Inr proven" using opens unfolding check_opening_def sign_receipt_sel .
  moreover have "schnorr_verify C (spend_public C k) (generator_g C) ?msg ?sg"
    unfolding spend_public_def by (rule schnorr_sign_verifies [OF ok])
  ultimately show ?thesis
    unfolding verify_receipt_def
    by (simp add: unsigned_fields_of_def addr own_address_decodes sig digest spend alg ok ok_or_def ensure_def)
qed

lemma check_opening_Inr:
  "check_opening C r = Inr proven \<longleftrightarrow>
     (if rc_blind r = [] then \<not> proven
      else proven \<and> (\<exists>c b s. hex_decode (rc_commit r) = Some c \<and> length c = 32
             \<and> hex_decode (rc_blind r) = Some b \<and> length b = 32 \<and> from_canonical_bytes C b = Some s
             \<and> commitment_new C (rc_amount r) s = c))"
  by (auto simp: check_opening_def res_simps)

lemma check_opening_owned:
  assumes "encoding_ok C" and "owned_ok C oo"
    and "rc_commit r = hex_encode (oo_commit oo)" "rc_blind r = oo_blind_hex oo" "rc_amount r = oo_value oo"
  shows "check_opening C r = Inr True"
proof -
  obtain blind where b: "hex_scalar C (oo_blind_hex oo) = Inr blind"
    and c: "oo_commit oo = commitment_new C (oo_value oo) blind"
    using assms(2) by (auto simp: owned_ok_def)
  obtain raw where raw: "hex_decode (oo_blind_hex oo) = Some raw" "length raw = 32"
      "from_canonical_bytes C raw = Some blind"
    using b by (auto simp: hex_scalar_def res_simps split: if_splits)
  then have "oo_blind_hex oo \<noteq> []" by auto
  moreover have "length (oo_commit oo) = 32"
    unfolding c commitment_new_def by (rule encoded_lengths(1) [OF assms(1)])
  ultimately show ?thesis
    unfolding check_opening_Inr assms(3-) using raw c by (auto simp: hex_decode_encode)
qed

text \<open>The receipt of any output of a wallet whose outputs open.\<close>

lemma prove_output_found:
  assumes "prove_output C ent w s = Inr r"
  shows "\<exists>oo \<in> set (wf_outputs (w_db w)). r = receipt_from_output C ent w oo
     (List.find (\<lambda>e. he_txid e = hex_encode (oo_commit oo)) (wf_history (w_db w)))"
  using assms by (auto simp: prove_output_def res_simps find_Some_iff)

lemma output_receipt_verifies:
  fixes C :: "('p::ab_group_add, 's::comm_ring_1) crypto"
  assumes ok: "group_ok C" "encoding_ok C" and db: "file_ok C (w_db w)"
    and r: "prove_output C ent w s = Inr r"
  shows "\<exists>p oo. verify_receipt C r = Inr p \<and> oo \<in> set (wf_outputs (w_db w)) \<and> rp_amount_proven p
     \<and> rp_unsigned p = [] \<and> rp_amount p = oo_value oo \<and> rp_reference p = hex_encode (oo_commit oo)
     \<and> rp_kind p = (if oo_coinbase oo then RkMined else RkReceived)"
proof -
  obtain oo h where oo: "oo \<in> set (wf_outputs (w_db w))" and r: "r = receipt_from_output C ent w oo h"
    using prove_output_found [OF r] by blast
  let ?r = "\<lparr>rc_v = 1, rc_kind = (if oo_coinbase oo then ''mined'' else ''received''),
        rc_address = wallet_address_string C w, rc_amount = oo_value oo, rc_memo = oo_memo oo,
        rc_commit = hex_encode (oo_commit oo), rc_blind = oo_blind_hex oo, rc_height = oo_height oo,
        rc_timestamp = (case h of None \<Rightarrow> 0 | Some h \<Rightarrow> he_timestamp h), rc_sig_r = [], rc_sig_s = []\<rparr>"
  have "check_opening C ?r = Inr True"
    by (rule check_opening_owned [OF ok(2), of oo]) (use db oo in \<open>simp_all add: file_ok_def\<close>)
  from signed_receipt_verifies [OF ok _ this, of "w_keys w" ent] oo show ?thesis
    by (auto simp: r receipt_from_output_def wallet_address_string_def receipt_kind_parse_def)
qed

lemma sent_receipt_verifies:
  fixes C :: "('p::ab_group_add, 's::comm_ring_1) crypto"
  assumes ok: "group_ok C" "encoding_ok C"
  shows "\<exists>p. verify_receipt C (sent_receipt C ent w e) = Inr p \<and> \<not> rp_amount_proven p
     \<and> rp_unsigned p = [] \<and> rp_amount p = he_amount e \<and> rp_kind p = RkSent \<and> rp_reference p = he_txid e"
  unfolding sent_receipt_def
  by (subst signed_receipt_verifies [OF ok, where proven = False])
     (simp_all add: wallet_address_string_def check_opening_def receipt_kind_parse_def)

section \<open>What a verified receipt proves\<close>

lemma verify_receipt_sound:
  assumes "verify_receipt C r = Inr p"
  shows "rc_v r \<in> {1, 2}"
    and "rp_amount_proven p \<longleftrightarrow> rc_blind r \<noteq> []"
    and "rp_amount_proven p \<Longrightarrow> \<exists>s. hex_decode (rp_reference p) = Some (commitment_new C (rp_amount p) s)"
    and "rp_unsigned p = [] \<longleftrightarrow> rc_v r = 2"
    and "\<exists>a pk sg. address_decode C (rp_address p) = Inr a \<and> spend_point C a = Some pk
           \<and> receipt_sig r = Inr sg \<and> schnorr_verify C pk (generator_g C) (receipt_digest C r) sg"
proof -
  obtain u a proven sg pk where steps: "unsigned_fields_of (rc_v r) = Inr u" "address_decode C (rc_address r) = Inr a"
      "check_opening C r = Inr proven" "receipt_sig r = Inr sg" "decompress C (spend_pk a) = Some pk"
      "schnorr_verify C pk (generator_g C) (receipt_digest C r) sg"
    and p: "p = \<lparr>rp_version = rc_v r, rp_kind = receipt_kind_parse (rc_kind r), rp_address = rc_address r,
            rp_amount = rc_amount r, rp_memo = rc_memo r, rp_height = rc_height r,
            rp_timestamp = rc_timestamp r, rp_reference = rc_commit r,
            rp_amount_proven = proven, rp_unsigned = u\<rparr>"
    using assms by (auto simp: verify_receipt_def res_simps)
  show "rc_v r \<in> {1, 2}" using steps(1) by (auto simp: unsigned_fields_of_def split: if_splits)
  show "rp_amount_proven p \<longleftrightarrow> rc_blind r \<noteq> []"
    using steps(3) by (auto simp: p check_opening_Inr split: if_splits)
  show "rp_amount_proven p \<Longrightarrow> \<exists>s. hex_decode (rp_reference p) = Some (commitment_new C (rp_amount p) s)"
    using steps(3) by (auto simp: p check_opening_Inr split: if_splits)
  show "rp_unsigned p = [] \<longleftrightarrow> rc_v r = 2"
    using steps(1) by (auto simp: p unsigned_fields_of_def V1_UNSIGNED_def split: if_splits)
  show "\<exists>a pk sg. address_decode C (rp_address p) = Inr a \<and> spend_point C a = Some pk
           \<and> receipt_sig r = Inr sg \<and> schnorr_verify C pk (generator_g C) (receipt_digest C r) sg"
    using steps by (auto simp: p spend_point_def)
qed

section \<open>What the signatures cover\<close>

text \<open>
  Version 1 leaves the kind and the time out: they can be replaced at will.
\<close>

lemma res_bind_assoc: "res_bind (res_bind x f) g = res_bind x (\<lambda>y. res_bind (f y) g)"
  by (cases x) simp_all

lemma v1_fields_not_covered:
  assumes "rc_v r = 1"
  shows "verify_receipt C (r\<lparr>rc_kind := k, rc_timestamp := t\<rparr>)
     = res_bind (verify_receipt C r) (\<lambda>p. Inr (p\<lparr>rp_kind := receipt_kind_parse k, rp_timestamp := t\<rparr>))"
proof -
  have opens: "check_opening C (r\<lparr>rc_kind := k, rc_timestamp := t\<rparr>) = check_opening C r"
    by (simp add: check_opening_def)
  show ?thesis
    unfolding verify_receipt_def opens
    by (simp add: assms receipt_sig_def receipt_digest_def receipt_msg_def receipt_parts_def res_bind_assoc)
qed

text \<open>
  Version 2 covers everything shown: what is hashed determines every field, and nothing hashed
  for one version is hashed for the other.
\<close>

definition receipt_small :: "payment_receipt \<Rightarrow> bool" where
  "receipt_small r \<longleftrightarrow> length (rc_kind r) < 2 ^ 64 \<and> length (rc_address r) < 2 ^ 64 \<and> length (rc_commit r) < 2 ^ 64
     \<and> length (rc_blind r) < 2 ^ 64 \<and> length (rc_memo r) < 2 ^ 64"

lemma receipt_domains:
  "length RECEIPT_DOMAIN < 2 ^ 64" "length RECEIPT_DOMAIN_V2 < 2 ^ 64" "RECEIPT_DOMAIN \<noteq> RECEIPT_DOMAIN_V2"
  by (simp_all add: RECEIPT_DOMAIN_def RECEIPT_DOMAIN_V2_def str_bytes_def)

lemma str_bytes_inject: "str_bytes a = str_bytes b \<longleftrightarrow> a = b"
  by (metis text_of_bytes)

lemma receipt_parts_small:
  assumes "receipt_small r"
  shows "length (receipt_parts r) < 2 ^ 64" "length (receipt_parts_v2 r) < 2 ^ 64"
    "\<forall>p \<in> set (receipt_parts r). length p < 2 ^ 64" "\<forall>p \<in> set (receipt_parts_v2 r). length p < 2 ^ 64"
  using assms by (simp_all add: receipt_parts_def receipt_parts_v2_def receipt_small_def str_bytes_def)

lemma v2_covers_every_field:
  assumes "hash_preimage RECEIPT_DOMAIN_V2 (receipt_parts_v2 r) = hash_preimage RECEIPT_DOMAIN_V2 (receipt_parts_v2 r')"
    and "receipt_small r" "receipt_small r'"
  shows "r' = r\<lparr>rc_v := rc_v r', rc_sig_r := rc_sig_r r', rc_sig_s := rc_sig_s r'\<rparr>"
proof -
  have "receipt_parts_v2 r = receipt_parts_v2 r'"
    using hash_preimage_inject [OF assms(1)] receipt_domains receipt_parts_small [OF assms(2)]
      receipt_parts_small [OF assms(3)] by blast
  then show ?thesis
    by (cases r; cases r') (simp add: receipt_parts_v2_def str_bytes_inject)
qed

lemma versions_never_share_a_message:
  assumes "receipt_small r" "receipt_small r'"
  shows "hash_preimage RECEIPT_DOMAIN (receipt_parts r) \<noteq> hash_preimage RECEIPT_DOMAIN_V2 (receipt_parts_v2 r')"
proof
  assume eq: "hash_preimage RECEIPT_DOMAIN (receipt_parts r) = hash_preimage RECEIPT_DOMAIN_V2 (receipt_parts_v2 r')"
  have "RECEIPT_DOMAIN = RECEIPT_DOMAIN_V2"
    using hash_preimage_inject [OF eq] receipt_domains receipt_parts_small [OF assms(1)]
      receipt_parts_small [OF assms(2)] by blast
  then show False using receipt_domains(3) by blast
qed

text \<open>What is hashed for the signature of a receipt; for a version 2 receipt it fixes everything shown.\<close>

definition signed_message :: "payment_receipt \<Rightarrow> bytes" where
  "signed_message r =
     (if rc_v r = 1 then hash_preimage RECEIPT_DOMAIN (receipt_parts r)
      else hash_preimage RECEIPT_DOMAIN_V2 (receipt_parts_v2 r))"

lemma digest_of_message: "receipt_digest C r = blake3 C (signed_message r)"
  by (simp add: receipt_digest_def receipt_msg_def receipt_msg_v2_def signed_message_def hash_multi_def)

lemma message_fixes_receipt:
  assumes "rc_v r \<noteq> 1" "receipt_small r" "receipt_small r'" "signed_message r' = signed_message r"
  shows "r' = r\<lparr>rc_v := rc_v r', rc_sig_r := rc_sig_r r', rc_sig_s := rc_sig_s r'\<rparr>"
proof (cases "rc_v r' = 1")
  case True
  then show ?thesis using assms versions_never_share_a_message [of r' r] by (simp add: signed_message_def)
next
  case False
  then show ?thesis using assms v2_covers_every_field [of r r'] by (simp add: signed_message_def)
qed

lemma prove_output_version: "prove_output C ent w s = Inr r \<Longrightarrow> rc_v r = 2"
  by (auto dest!: prove_output_found simp: receipt_from_output_def)

text \<open>Whatever was verified, the report lists something that was not.\<close>

lemma something_is_open: "not_established p \<noteq> []"
  by (simp add: not_established_def)

end
