(* ===== verification/Wallet_Pages.thy ===== *)
theory Wallet_Pages
  imports Wallet_Safety
begin


text \<open>
  What a scan finds: scanning a chain page by page, with or without overlap, gives the wallet
  exactly the outputs that scanning it at once gives, and after a scan of the whole history the
  wallet holds exactly the outputs of the chain it knows or can open, spent where the chain
  consumes them.  The position and the anchor after a scan name the last block read.
\<close>

lemma mset_take_part: "mset (take k xs) \<subseteq># mset xs"
  by (metis append_take_drop_id mset_append mset_subset_eq_add_left)

section \<open>The outputs of a chain that a view key opens\<close>

definition discovered ::
  "('p::ab_group_add, 's::comm_ring_1) crypto \<Rightarrow> 's view_key \<Rightarrow> bytes set \<Rightarrow> block \<Rightarrow> owned_output list" where
  "discovered C view known b =
     List.map_filter (\<lambda>out. if out_commit out \<in> known then None
         else map_option (\<lambda>d. owned_from C d (block_height b) (features out = CoinbaseOutput))
                (scan_output C view out))
       (b_outputs (blk_body b))"

definition discover ::
  "('p::ab_group_add, 's::comm_ring_1) crypto \<Rightarrow> 's view_key \<Rightarrow> bytes set \<Rightarrow> block list \<Rightarrow> owned_output list" where
  "discover C view known bs = concat (map (discovered C view known) bs)"

lemma discover_simps [simp]:
  "discover C view known [] = []"
  "discover C view known (b # bs) = discovered C view known b @ discover C view known bs"
  "discover C view known (as @ bs) = discover C view known as @ discover C view known bs"
  by (simp_all add: discover_def)

lemma scan_outputs_owned:
  "ss_owned (fold (scan_tx_output C view known b) outs st) = ss_owned st
    @ List.map_filter (\<lambda>out. if out_commit out \<in> known then None
         else map_option (\<lambda>d. owned_from C d (block_height b) (features out = CoinbaseOutput))
                (scan_output C view out)) outs"
  by (induction outs arbitrary: st)
     (auto simp: scan_tx_output_def Let_def map_filter_simps split: option.split)

lemma scan_page_owned:
  "ss_owned (scan_page C view force db bs) = discover C view (oo_commit ` set (wf_outputs db)) bs"
proof -
  have "ss_owned (fold (scan_one_block C view known ps) bs st) = ss_owned st @ discover C view known bs" for known ps st
    by (induction bs arbitrary: st)
       (simp_all add: scan_one_block_def Let_def scan_outputs_owned discovered_def)
  then show ?thesis by (simp add: scan_page_def)
qed

lemma owned_from_commit: "scan_output C view out = Some d \<Longrightarrow> oo_commit (owned_from C d h cb) = out_commit out"
  by (auto simp: owned_from_def scan_output_def candidate_of_def dest: scan_opens)

lemma set_discovered:
  "set (discovered C view known b) = {owned_from C d (block_height b) (features out = CoinbaseOutput) | d out.
     out \<in> set (b_outputs (blk_body b)) \<and> out_commit out \<notin> known \<and> scan_output C view out = Some d}"
  by (auto simp: discovered_def map_filter_def image_iff split: if_splits) force+

lemma discovered_commits: "oo \<in> set (discovered C view known b) \<Longrightarrow>
    oo_commit oo \<in> out_commit ` set (b_outputs (blk_body b)) \<and> oo_commit oo \<notin> known"
  by (auto simp: set_discovered owned_from_commit)

lemma discover_commits: "oo \<in> set (discover C view known bs) \<Longrightarrow> oo_commit oo \<in> blocks_outputs bs \<and> oo_commit oo \<notin> known"
  by (induction bs) (auto simp: blocks_outputs_def dest: discovered_commits)

lemma discover_known_only:
  assumes "known \<inter> blocks_outputs bs = known' \<inter> blocks_outputs bs"
  shows "discover C view known bs = discover C view known' bs"
  using assms
proof (induction bs)
  case (Cons b bs)
  have b: "out \<in> set (b_outputs (blk_body b)) \<Longrightarrow> out_commit out \<in> known \<longleftrightarrow> out_commit out \<in> known'" for out
    using Cons.prems by (auto simp: blocks_outputs_def)
  have "discovered C view known b = discovered C view known' b"
    unfolding discovered_def using b
    by (simp add: map_filter_def cong: filter_cong map_cong)
  moreover have "known \<inter> blocks_outputs bs = known' \<inter> blocks_outputs bs"
    using Cons.prems by (auto simp: blocks_outputs_def)
  ultimately show ?case using Cons.IH by simp
qed simp

text \<open>Everything of these blocks that can be opened is known already.\<close>

lemma discover_all_known:
  assumes "oo_commit ` set (discover C view {} bs) \<subseteq> known"
  shows "discover C view known bs = []"
proof (rule ccontr)
  assume "discover C view known bs \<noteq> []"
  then obtain oo where oo: "oo \<in> set (discover C view known bs)" by (cases "discover C view known bs") auto
  have "oo \<in> set (discover C view {} bs)"
    using oo by (induction bs) (auto simp: set_discovered)
  then show False using assms discover_commits [OF oo] by blast
qed

section \<open>Exact wallets\<close>

text \<open>
  A chain as the node has it: no commitment twice, and nothing consumed before it is created.
\<close>

definition chain_of :: "block list \<Rightarrow> bool" where
  "chain_of bs \<longleftrightarrow> distinct (concat (map (\<lambda>b. map out_commit (b_outputs (blk_body b))) bs))
     \<and> sorted_wrt (\<lambda>a b. set (block_inputs a) \<inter> out_commit ` set (b_outputs (blk_body b)) = {}) bs"

definition set_spent :: "bytes set \<Rightarrow> owned_output list \<Rightarrow> owned_output list" where
  "set_spent spent = map (\<lambda>oo. oo\<lparr>oo_spent := (oo_commit oo \<in> spent)\<rparr>)"

definition exact ::
  "('p::ab_group_add, 's::comm_ring_1) crypto \<Rightarrow> 's view_key \<Rightarrow> block list \<Rightarrow> wallet_file \<Rightarrow> bool" where
  "exact C view bs db \<longleftrightarrow> wf_outputs db = set_spent (page_inputs bs) (discover C view {} bs)"

lemma set_spent_commits [simp]: "oo_commit ` set (set_spent spent oos) = oo_commit ` set oos"
  by (auto simp: set_spent_def image_iff)

lemma discover_unspent: "oo \<in> set (discover C view known bs) \<Longrightarrow> \<not> oo_spent oo"
  by (induction bs) (auto simp: set_discovered owned_from_def)

lemma mark_discovered: "mark_spent spent (discover C view known bs) = set_spent spent (discover C view known bs)"
  unfolding mark_spent_def set_spent_def by (rule map_cong [OF refl]) (auto dest: discover_unspent)

lemma mark_set_spent: "mark_spent s (set_spent t oos) = set_spent (s \<union> t) oos"
  by (simp add: mark_spent_def set_spent_def)

lemma set_spent_cong: "(\<And>oo. oo \<in> set oos \<Longrightarrow> oo_commit oo \<in> s \<longleftrightarrow> oo_commit oo \<in> t) \<Longrightarrow> set_spent s oos = set_spent t oos"
  by (simp add: set_spent_def)

lemma mark_spent_append [simp]: "mark_spent s (as @ bs) = mark_spent s as @ mark_spent s bs"
  by (simp add: mark_spent_def)

lemma page_inputs_append [simp]: "page_inputs (as @ bs) = page_inputs as \<union> page_inputs bs"
  by (auto simp: page_inputs_def)

lemma blocks_outputs_append [simp]: "blocks_outputs (as @ bs) = blocks_outputs as \<union> blocks_outputs bs"
  by (auto simp: blocks_outputs_def)

lemma outputs_set: "set (concat (map (\<lambda>b. map out_commit (b_outputs (blk_body b))) bs)) = blocks_outputs bs"
  by (auto simp: blocks_outputs_def)

lemma chain_of_append:
  "chain_of (as @ bs) \<Longrightarrow> blocks_outputs as \<inter> blocks_outputs bs = {} \<and> page_inputs as \<inter> blocks_outputs bs = {}"
proof -
  assume c: "chain_of (as @ bs)"
  have "distinct (concat (map (\<lambda>b. map out_commit (b_outputs (blk_body b))) as)
      @ concat (map (\<lambda>b. map out_commit (b_outputs (blk_body b))) bs))"
    using c by (simp only: chain_of_def map_append concat_append)
  then have "blocks_outputs as \<inter> blocks_outputs bs = {}"
    unfolding distinct_append outputs_set by blast
  moreover have "page_inputs as \<inter> blocks_outputs bs = {}"
    using c by (fastforce simp: chain_of_def sorted_wrt_append page_inputs_def blocks_outputs_def)
  ultimately show ?thesis by blast
qed

lemma chain_of_take: "chain_of bs \<Longrightarrow> chain_of (take n bs)"
proof -
  assume "chain_of bs"
  then have "chain_of (take n bs @ drop n bs)" by simp
  then show ?thesis by (simp only: chain_of_def map_append concat_append distinct_append sorted_wrt_append)
qed

text \<open>Reconciling with blocks that contain everything the wallet owns changes no output.\<close>

lemma reconcile_exact:
  assumes "\<forall>oo \<in> set (wf_outputs db). oo_commit oo \<in> blocks_outputs bs"
  shows "wf_outputs (reconcile_with bs spent db) = set_spent spent (wf_outputs db)"
proof -
  have "filter (\<lambda>oo. oo_commit oo \<in> blocks_outputs bs) (wf_outputs db) = wf_outputs db"
    using assms by (simp add: filter_id_conv)
  then show ?thesis by (simp add: reconcile_with_def Let_def set_spent_def)
qed

lemma scanned_file_outputs:
  "wf_outputs (scanned_file C force bs st db) =
     (let outs = mark_spent (ss_spent st) (wf_outputs db @ ss_owned st)
      in if force \<or> covers_canonical_history bs (wf_birth db) (wf_scanned_to db) outs
         then wf_outputs (reconcile_with bs (ss_spent st) (db\<lparr>wf_outputs := outs\<rparr>)) else outs)"
  by (simp add: scanned_file_def Let_def del: mark_spent_append)

lemma page_exact:
  fixes C :: "('p::ab_group_add, 's::comm_ring_1) crypto"
  assumes ex: "exact C view (xs @ ov) db" and ch: "chain_of (xs @ ov @ ys)"
    and page: "xs = [] \<or> \<not> force \<and> (case ov @ ys of [] \<Rightarrow> True | b # _ \<Rightarrow> block_height b \<noteq> 0 \<and> block_height b \<noteq> wf_birth db)"
  shows "exact C view (xs @ ov @ ys) (scanned_file C force (ov @ ys) (scan_page C view force db (ov @ ys)) db)"
proof -
  let ?p = "ov @ ys" and ?known = "oo_commit ` set (wf_outputs db)"
  let ?st = "scan_page C view force db ?p"
  have known: "?known = oo_commit ` set (discover C view {} (xs @ ov))"
    using ex by (simp add: exact_def)
  have "discover C view ?known ov = []" by (rule discover_all_known) (auto simp: known)
  moreover have "discover C view ?known ys = discover C view {} ys"
  proof (rule discover_known_only)
    have "?known \<subseteq> blocks_outputs (xs @ ov)" using discover_commits unfolding known by blast
    then show "?known \<inter> blocks_outputs ys = {} \<inter> blocks_outputs ys"
      using chain_of_append [of "xs @ ov" ys] ch by auto
  qed
  ultimately have owned: "ss_owned ?st = discover C view {} ys" by (simp add: scan_page_owned)
  have spent: "ss_spent ?st = page_inputs ?p" by (rule scan_page_spent)
  have old: "mark_spent (page_inputs ?p) (wf_outputs db) = set_spent (page_inputs (xs @ ov @ ys)) (discover C view {} (xs @ ov))"
    using ex unfolding exact_def by (simp add: mark_set_spent Un_ac)
  have new: "mark_spent (page_inputs ?p) (discover C view {} ys)
      = set_spent (page_inputs (xs @ ov @ ys)) (discover C view {} ys)"
    unfolding mark_discovered
  proof (rule set_spent_cong)
    fix oo
    assume "oo \<in> set (discover C view {} ys)"
    then have "oo_commit oo \<in> blocks_outputs ys" by (rule discover_commits [THEN conjunct1])
    then show "oo_commit oo \<in> page_inputs ?p \<longleftrightarrow> oo_commit oo \<in> page_inputs (xs @ ov @ ys)"
      using chain_of_append [of "xs @ ov" ys] ch by auto
  qed
  let ?outs = "mark_spent (page_inputs ?p) (wf_outputs db @ discover C view {} ys)"
  have outs: "?outs = set_spent (page_inputs (xs @ ov @ ys)) (discover C view {} (xs @ ov @ ys))"
    using old new by (simp add: set_spent_def)
  show ?thesis
  proof (cases "force \<or> covers_canonical_history ?p (wf_birth db) (wf_scanned_to db) ?outs")
    case True
    have xs: "xs = []"
    proof (rule ccontr)
      assume "xs \<noteq> []"
      then have "\<not> covers_canonical_history ?p (wf_birth db) (wf_scanned_to db) ?outs" "\<not> force"
        using page by (auto simp: covers_canonical_history_def Let_def split: list.splits)
      then show False using True by blast
    qed
    have all: "\<forall>oo \<in> set ?outs. oo_commit oo \<in> blocks_outputs ?p"
    proof -
      have "oo_commit ` set ?outs = oo_commit ` set (discover C view {} ?p)" unfolding outs xs by simp
      moreover have "oo_commit ` set (discover C view {} ?p) \<subseteq> blocks_outputs ?p"
        by (auto dest: discover_commits)
      ultimately have "oo_commit ` set ?outs \<subseteq> blocks_outputs ?p" by (rule ord_eq_le_trans)
      then show ?thesis unfolding image_subset_iff .
    qed
    have "wf_outputs (reconcile_with ?p (page_inputs ?p) (db\<lparr>wf_outputs := ?outs\<rparr>))
        = set_spent (page_inputs ?p) ?outs"
      by (subst reconcile_exact) (use all in simp_all)
    also have "\<dots> = ?outs" unfolding outs xs by (simp add: set_spent_def)
    finally have rec: "wf_outputs (reconcile_with ?p (page_inputs ?p) (db\<lparr>wf_outputs := ?outs\<rparr>)) = ?outs" .
    show ?thesis
      unfolding exact_def scanned_file_outputs owned spent Let_def if_P [OF True]
      using rec outs by (rule trans)
  next
    case False
    show ?thesis
      unfolding exact_def scanned_file_outputs owned spent Let_def if_not_P [OF False] by (rule outs)
  qed
qed

section \<open>Scanning page by page\<close>

text \<open>
  The pages a fetcher hands over, as positions of a chain: each begins anywhere at or before the
  end of what was read already, and reads at least to there.
\<close>

definition page_of :: "'b list \<Rightarrow> nat \<times> nat \<Rightarrow> 'b list" where
  "page_of bs p = take (snd p - fst p) (drop (fst p) bs)"

fun pages_from :: "nat \<Rightarrow> (nat \<times> nat) list \<Rightarrow> bool" where
  "pages_from n [] = True"
| "pages_from n (p # ps) = (fst p \<le> n \<and> fst p < snd p \<and> n \<le> snd p \<and> pages_from (snd p) ps)"

fun pages_end :: "nat \<Rightarrow> (nat \<times> nat) list \<Rightarrow> nat" where
  "pages_end n [] = n"
| "pages_end n (p # ps) = pages_end (snd p) ps"

fun scan_pages ::
  "('p::ab_group_add, 's::comm_ring_1) crypto \<Rightarrow> 's saver \<Rightarrow> block list list \<Rightarrow> 's wallet
     \<Rightarrow> 's wallet \<times> (wallet_error + unit)" where
  "scan_pages C sv [] w = (w, Inr ())"
| "scan_pages C sv (p # ps) w =
     (case scan_blocks C sv p w of (w', Inl e) \<Rightarrow> (w', Inl e) | (w', Inr _) \<Rightarrow> scan_pages C sv ps w')"

lemma pages_end_le: "pages_from n ps \<Longrightarrow> n \<le> pages_end n ps"
  by (induction n ps rule: pages_from.induct) (auto dest: le_trans)

text \<open>The heights of a chain that begins at \<open>birth\<close>.\<close>

definition chain_heights :: "u64 \<Rightarrow> block list \<Rightarrow> bool" where
  "chain_heights birth bs \<longleftrightarrow> unat birth + length bs < 2 ^ 64
     \<and> (\<forall>i < length bs. unat (block_height (bs ! i)) = unat birth + i)"

lemma scan_page_highest:
  "ss_highest (scan_page C view force db bs) = fold max (map block_height bs) (scan_start force db bs)"
proof -
  have outs: "ss_highest (fold (scan_tx_output C view known b) outs st) = ss_highest st" for known b outs st
    by (induction outs arbitrary: st) (auto simp: scan_tx_output_def Let_def split: option.split)
  have "ss_highest (fold (scan_one_block C view known ps) bs st) = fold max (map block_height bs) (ss_highest st)"
    for known ps st
    by (induction bs arbitrary: st) (simp_all add: scan_one_block_def Let_def outs max.commute)
  then show ?thesis by (simp add: scan_page_def)
qed

lemma fold_max_le: "fold max hs s \<le> m \<longleftrightarrow> s \<le> m \<and> (\<forall>h \<in> set hs. h \<le> m)" for m :: "'a::linorder"
  by (induction hs arbitrary: s) auto

lemma fold_max_last:
  fixes hs :: "'a::linorder list"
  assumes "hs \<noteq> []" and "sorted hs" and "s \<le> last hs"
  shows "fold max hs s = last hs"
  using assms by (cases hs rule: rev_cases) (auto simp: sorted_append fold_max_le intro!: max.absorb1)

lemma page_last_found:
  assumes "bs \<noteq> []" and "distinct (map f bs)"
  shows "List.find (\<lambda>b. f b = f (last bs)) bs = Some (last bs)"
  using assms by (induction bs) (auto simp: image_iff)

lemma page_of_nth:
  assumes "fst p < snd p" and "snd p \<le> length bs"
  shows "length (page_of bs p) = snd p - fst p" and "k < snd p - fst p \<Longrightarrow> page_of bs p ! k = bs ! (fst p + k)"
    and "page_of bs p \<noteq> []" and "last (page_of bs p) = bs ! (snd p - 1)" and "hd (page_of bs p) = bs ! fst p"
proof -
  show len: "length (page_of bs p) = snd p - fst p" using assms by (simp add: page_of_def)
  show nth: "k < snd p - fst p \<Longrightarrow> page_of bs p ! k = bs ! (fst p + k)" for k
    using assms by (simp add: page_of_def)
  show ne: "page_of bs p \<noteq> []" using len assms(1) by auto
  have "page_of bs p ! (snd p - fst p - 1) = bs ! (snd p - 1)" using nth assms(1) by simp
  then show "last (page_of bs p) = bs ! (snd p - 1)" using last_conv_nth [OF ne] len by simp
  show "hd (page_of bs p) = bs ! fst p" using hd_conv_nth [OF ne] nth [of 0] assms(1) by simp
qed

lemma page_heights:
  assumes "chain_heights birth bs" and "fst p < snd p" and "snd p \<le> length bs"
  shows "sorted (map block_height (page_of bs p))" and "distinct (map block_height (page_of bs p))"
proof -
  let ?hs = "map block_height (page_of bs p)"
  have nth: "unat (?hs ! k) = unat birth + fst p + k" if "k < length ?hs" for k
    using that assms page_of_nth(1,2) [OF assms(2,3)] by (simp add: chain_heights_def)
  show "sorted ?hs" unfolding sorted_iff_nth_mono using nth by (simp add: word_le_nat_alt)
  show "distinct ?hs" unfolding distinct_conv_nth using nth by (metis add_left_cancel)
qed

section \<open>Where the scan stands\<close>

definition read_upto ::
  "('p::ab_group_add, 's::comm_ring_1) crypto \<Rightarrow> 's wallet_keys \<Rightarrow> u64 \<Rightarrow> block list \<Rightarrow> nat \<Rightarrow> 's wallet \<Rightarrow> bool" where
  "read_upto C k birth bs n w \<longleftrightarrow>
     w_keys w = k \<and> wf_birth (w_db w) = birth \<and> exact C (keys_view_key C k) (take n bs) (w_db w)
     \<and> (if n = 0 then \<not> has_scanned_history (w_db w) \<and> wf_scanned_to (w_db w) = birth
        else wf_scanned_to (w_db w) = block_height (bs ! (n - 1))
             \<and> wf_scanned_tip (w_db w) = anchor_of C (bs ! (n - 1)))"

lemma read_nothing: "read_upto C k birth bs 0 (in_memory net k birth)"
  by (simp add: read_upto_def in_memory_def wallet_file_default_def exact_def set_spent_def
                has_scanned_history_def)

lemma anchor_written: "encoding_ok C \<Longrightarrow> anchor_of C b \<noteq> []"
proof -
  assume enc: "encoding_ok C"
  have "length (block_hash C b) = 32"
    using enc by (simp add: block_hash_def header_hash_def hash_multi_def encoding_ok_def)
  then show ?thesis by (cases "block_hash C b") (auto simp: anchor_of_def hash_to_hex_def hex_encode_def hex_byte_def)
qed

lemma page_continues:
  assumes enc: "encoding_ok C" and hs: "chain_heights birth bs" and at: "read_upto C k birth bs n w"
    and p: "fst p \<le> n" "fst p < snd p" "snd p \<le> length bs" "n \<le> snd p"
  shows "check_chain_continuity C (w_db w) (page_of bs p) = Inr ()"
proof (cases "n = 0")
  case True
  then show ?thesis
    using at by (simp add: read_upto_def check_chain_continuity_def has_scanned_history_def ensure_def)
next
  case False
  then have tip: "wf_scanned_tip (w_db w) = anchor_of C (bs ! (n - 1))"
    and to: "wf_scanned_to (w_db w) = block_height (bs ! (n - 1))"
    using at by (simp_all add: read_upto_def)
  obtain b rest where page: "page_of bs p = b # rest" using page_of_nth(3) [OF p(2,3)] by (cases "page_of bs p") auto
  have b: "b = bs ! fst p" using page_of_nth(5) [OF p(2,3)] page by simp
  have "b = bs ! (n - 1)" if "block_height b = block_height (bs ! (n - 1))"
  proof -
    have "unat birth + fst p = unat birth + (n - 1)"
      using that hs p False unfolding b chain_heights_def by (metis diff_less le_less_trans less_le_trans
          less_one not_gr0 order_less_le_trans)
    then show ?thesis by (simp add: b)
  qed
  then show ?thesis
    using anchor_written [OF enc, of "bs ! (n - 1)"] page tip to
    by (auto simp: check_chain_continuity_def check_scan_anchor_def ensure_def)
qed

lemma page_read:
  fixes C :: "('p::ab_group_add, 's::comm_ring_1) crypto"
  assumes enc: "encoding_ok C" and hs: "chain_heights birth bs" and ch: "chain_of bs"
    and at: "read_upto C k birth bs n w" and p: "fst p \<le> n" "fst p < snd p" "snd p \<le> length bs" "n \<le> snd p"
    and sv: "\<forall>v. sv v"
  shows "\<exists>w' m. scan_blocks C sv (page_of bs p) w = (w', Inr m) \<and> read_upto C k birth bs (snd p) w'"
proof -
  let ?pg = "page_of bs p" and ?view = "keys_view_key C k" and ?db = "w_db w" and ?j = "snd p"
  let ?st = "scan_page C ?view False ?db ?pg"
  let ?db' = "scanned_file C False ?pg ?st ?db" and ?ov = "take (n - fst p) (drop (fst p) bs)"
  have keys: "w_keys w = k" and birth: "wf_birth ?db = birth" and ex: "exact C ?view (take n bs) ?db"
    using at by (simp_all add: read_upto_def)
  have ran: "scan_blocks C sv ?pg w = (set_db (\<lambda>_. ?db') w, Inr (ss_found ?st))"
    using page_continues [OF enc hs at p] sv keys
    by (simp add: scan_blocks_def scan_blocks_inner_def save_as_def wallet_save_def set_db_def Let_def)
  have split: "take n bs = take (fst p) bs @ ?ov" "?pg = ?ov @ take (?j - n) (drop n bs)"
    "take ?j bs = take (fst p) bs @ ?ov @ take (?j - n) (drop n bs)"
    using p take_add [of "fst p" "n - fst p" bs] take_add [of "n - fst p" "?j - n" "drop (fst p) bs"]
      take_add [of n "?j - n" bs] by (simp_all add: page_of_def)
  have later: "block_height b \<noteq> 0 \<and> block_height b \<noteq> birth" if "fst p \<noteq> 0" and "b = bs ! fst p" for b
  proof -
    have "unat (block_height b) = unat birth + fst p" using hs p that(2) by (simp add: chain_heights_def)
    then show ?thesis using that(1) by auto
  qed
  have "exact C ?view (take ?j bs) ?db'"
    unfolding split(3) unfolding split(2)
  proof (rule page_exact)
    show "exact C ?view (take (fst p) bs @ ?ov) ?db" using ex split(1) by simp
    show "chain_of (take (fst p) bs @ ?ov @ take (?j - n) (drop n bs))"
      unfolding split(3) [symmetric] by (rule chain_of_take [OF ch])
    show "take (fst p) bs = [] \<or> \<not> False \<and> (case ?ov @ take (?j - n) (drop n bs) of [] \<Rightarrow> True
        | b # _ \<Rightarrow> block_height b \<noteq> 0 \<and> block_height b \<noteq> wf_birth ?db)"
      unfolding split(2) [symmetric] birth
      using later page_of_nth(3,5) [OF p(2,3)] by (cases ?pg) auto
  qed
  moreover have top: "ss_highest ?st = block_height (bs ! (?j - 1))"
  proof -
    have "scan_from ?db \<le> block_height (bs ! (?j - 1))"
      using at hs p by (auto simp: scan_from_def read_upto_def chain_heights_def word_le_nat_alt split: if_splits)
    then show ?thesis
      using fold_max_last [OF _ page_heights(1) [OF hs p(2,3)], of "scan_from ?db"] page_of_nth(3,4) [OF p(2,3)]
      by (simp add: scan_page_highest scan_start_def last_map)
  qed
  moreover have "List.find (\<lambda>b. block_height b = ss_highest ?st) ?pg = Some (bs ! (?j - 1))"
    using page_last_found [OF page_of_nth(3) [OF p(2,3)] page_heights(2) [OF hs p(2,3)]]
    by (simp add: top page_of_nth(4) [OF p(2,3)])
  ultimately have "read_upto C k birth bs ?j (set_db (\<lambda>_. ?db') w)"
    using p(2) keys birth by (simp add: read_upto_def scanned_file_def reconcile_with_def Let_def)
  then show ?thesis using ran by blast
qed

text \<open>
  From a new wallet, however the pages are cut and overlap: every page is accepted, and the
  wallet holds what one scan of the whole stretch finds.
\<close>

lemma pages_read:
  fixes C :: "('p::ab_group_add, 's::comm_ring_1) crypto"
  assumes "encoding_ok C" and "chain_heights birth bs" and "chain_of bs" and "\<forall>v. sv v"
    and "read_upto C k birth bs n w" and "pages_from n ps" and "pages_end n ps \<le> length bs"
  shows "\<exists>w'. scan_pages C sv (map (page_of bs) ps) w = (w', Inr ()) \<and> read_upto C k birth bs (pages_end n ps) w'"
  using assms(5-)
proof (induction ps arbitrary: n w)
  case (Cons p ps)
  have p: "fst p \<le> n" "fst p < snd p" "n \<le> snd p" "snd p \<le> length bs"
    using Cons.prems pages_end_le [of "snd p" ps] by auto
  obtain w' m where "scan_blocks C sv (page_of bs p) w = (w', Inr m)" "read_upto C k birth bs (snd p) w'"
    using page_read [OF assms(1-3) Cons.prems(1) p(1,2,4,3) assms(4)] by blast
  then show ?case using Cons.IH [of "snd p" w'] Cons.prems by simp
qed simp

text \<open>
  A sale from the invoice to its settlement: the invoice of a till (\<open>counter.rs\<close>) becomes a link
  (\<open>payment_request.rs\<close>), the payer's wallet reads the link and creates an output
  (\<open>stealth.rs\<close>), the till's wallet scans the output (\<open>lib.rs\<close>) and the invoice is settled.
  What carries the reference from end to end is the memo on the chain, of 64 bytes.
\<close>

section \<open>The payment as the till sees it\<close>

definition incoming_of :: "history_entry \<Rightarrow> incoming" where
  "incoming_of e = \<lparr>ic_amount = he_amount e, ic_memo = he_memo e, ic_height = he_height e,
     ic_time = he_timestamp e, ic_id = he_txid e\<rparr>"

lemma wallet_incoming_map:
  "wallet_incoming db = map incoming_of (filter (\<lambda>e. he_direction e = Received) (wf_history db))"
  by (simp add: wallet_incoming_def incoming_of_def)

text \<open>A reference that the memo of an output holds whole.\<close>

definition carried :: "string \<Rightarrow> bool" where
  "carried ref \<longleftrightarrow> utf8_valid (str_bytes (trim ref)) \<and> length (trim ref) \<le> MEMO_LEN
     \<and> (trim ref = [] \<or> last (trim ref) \<noteq> CHR 0x00)"

text \<open>Who pays what a link asks for.\<close>

definition pay_request ::
  "('p::ab_group_add, 's::comm_ring_1) crypto \<Rightarrow> bytes option \<Rightarrow> bytes \<Rightarrow> string \<Rightarrow> bytes
     \<Rightarrow> (tx_output \<times> 's sender_secrets) option" where
  "pay_request C r_bytes entropy link ctx =
     (case parse_request C link of
        Inl _ \<Rightarrow> None
      | Inr r \<Rightarrow>
          (case pr_amount r of
             None \<Rightarrow> None
           | Some a \<Rightarrow>
               (case create_output C r_bytes entropy (pr_address r) a (str_bytes (pr_memo r)) ctx of
                  Inl _ \<Rightarrow> None | Inr made \<Rightarrow> Some made)))"

lemma invoice_check_Inr:
  "invoice_check i = Inr () \<longleftrightarrow> trim (inv_reference i) \<noteq> [] \<and> char_count (trim (inv_reference i)) \<le> MAX_REFERENCE
     \<and> char_count (inv_description i) \<le> MAX_DESCRIPTION
     \<and> (\<forall>d. inv_amount i = Some d \<longrightarrow> d \<noteq> 0 \<and> d \<le> MAX_SUPPLY_DARKS)"
  by (auto simp: invoice_check_def Let_def not_less split: option.splits)

lemma keys_address_usable:
  assumes "encoding_ok C"
  shows "length (scan_pk (keys_address C k)) = 32 \<and> length (spend_pk (keys_address C k)) = 32
     \<and> scan_point C (keys_address C k) \<noteq> None \<and> spend_point C (keys_address C k) \<noteq> None"
  using assms unfolding encoding_ok_def by (simp add: keys_address_def scan_point_def spend_point_def)

lemma link_reads_back:
  assumes enc: "encoding_ok C" and i: "invoice_check i = Inr ()" and c: "carried (inv_reference i)"
  shows "parse_request C (to_uri C (request_for i (keys_address C k) n)) = Inr (request_for i (keys_address C k) n)"
proof (rule uri_roundtrip [OF enc])
  have "text_fits 64 (trim (inv_reference i))"
    using i c by (simp add: text_fits_def carried_def invoice_check_Inr params)
  then show "request_ok C (request_for i (keys_address C k) n)"
    using keys_address_usable [OF enc] i by (simp add: request_ok_def request_for_def params invoice_check_Inr)
qed

lemma last_of_bytes: "s \<noteq> [] \<Longrightarrow> last s = char_of (unat (last (str_bytes s)))"
proof -
  assume s: "s \<noteq> []"
  have "last (text_of (str_bytes s)) = char_of (unat (last (str_bytes s)))"
    unfolding text_of_def by (rule last_map) (use s in \<open>simp add: str_bytes_def\<close>)
  then show ?thesis unfolding text_of_bytes .
qed

section \<open>Settlement\<close>

lemma paid_exactly:
  assumes "quotes i p" and "ic_amount p = a" and "inv_amount i = Some a" and "inv_closed i = None"
    and "\<forall>q \<in> set ps. \<not> quotes i q"
  shows "is_state (invoice_status_of i (ps @ [p]) now) = Paid (after_deadline (inv_expires i) (ic_time p))"
proof -
  have f: "filter (quotes i) (ps @ [p]) = [p]" using assms(1,5) by (simp add: filter_empty_conv)
  have "sat_sum [a] = a" using unsigned_less [of a, where ?'a = nat] by (simp add: sat_sum_def sat_add_def checked_add_def)
  then show ?thesis using assms(2-4) by (simp only: status_state f) (simp add: state_of_def)
qed

lemma sale_settles:
  fixes C :: "('p::ab_group_add, 's::comm_ring_1) crypto"
  assumes laws: "group_ok C" "encoding_ok C" "range_ok C" "aead_ok C"
    and i: "invoice_check i = Inr ()" "carried (inv_reference i)" "inv_amount i = Some a" "inv_closed i = None"
    and paid: "pay_request C rb en (to_uri C (request_for i (keys_address C k) n)) ctx = Some (o', sec)"
    and others: "\<forall>q \<in> set ps. \<not> quotes i q"
  shows "\<exists>d. scan_output C (keys_view_key C k) o' = Some d
     \<and> is_state (invoice_status_of i (ps @ [incoming_of (received_entry d h t False)]) now)
         = Paid (after_deadline (inv_expires i) t)"
proof -
  let ?ref = "trim (inv_reference i)"
  have "create_output_with_features C rb en (keys_address C k) a (str_bytes ?ref) ctx PlainOutput = Inr (o', sec)"
    using paid link_reads_back [OF laws(2) i(1,2), of k n] i(3)
    by (auto simp: pay_request_def create_output_def request_for_def split: sum.splits)
  moreover have "str_bytes ?ref = [] \<or> last (str_bytes ?ref) \<noteq> 0"
    using i(2) last_of_bytes [of ?ref] by (auto simp: carried_def str_bytes_def char_of_def)
  moreover have "length (str_bytes ?ref) \<le> MEMO_LEN" "utf8_valid (str_bytes ?ref)"
    using i(2) by (simp_all add: carried_def str_bytes_def)
  ultimately obtain d where d: "scan_output C (keys_view_key C k) o' = Some d" "d_value d = a"
      "d_memo d = str_bytes ?ref"
    using scan_created_output [OF laws] by blast
  let ?p = "incoming_of (received_entry d h t False)"
  have "quotes i ?p" "ic_amount ?p = a" "ic_time ?p = t"
    by (simp_all add: incoming_of_def received_entry_def quotes_def d text_of_bytes trim_idem)
  then show ?thesis using paid_exactly [of i ?p a ps now] i(3,4) others d(1) by auto
qed

text \<open>
  A reference longer than the memo: the till and the link count 64 characters, the chain holds
  64 bytes, so what arrives is cut and quotes nothing.
\<close>

lemma output_payload_cut: "output_payload C v b memo = output_payload C v b (take MEMO_LEN memo)"
  by (simp add: output_payload_def Let_def min_def)

lemma create_output_cut:
  "create_output_with_features C rb en to v memo ctx feat
     = create_output_with_features C rb en to v (take MEMO_LEN memo) ctx feat"
  unfolding create_output_with_features_def by (subst output_payload_cut) (rule refl)

lemma cut_reference_lost:
  fixes C :: "('p::ab_group_add, 's::comm_ring_1) crypto"
  assumes laws: "group_ok C" "encoding_ok C" "range_ok C" "aead_ok C"
    and long: "MEMO_LEN < length (trim (inv_reference i))"
    and cut: "utf8_valid (take MEMO_LEN (str_bytes (trim (inv_reference i))))"
      "last (take MEMO_LEN (str_bytes (trim (inv_reference i)))) \<noteq> 0"
    and made: "create_output C rb en (keys_address C k) a (str_bytes (trim (inv_reference i))) ctx = Inr (o', sec)"
  shows "\<exists>d. scan_output C (keys_view_key C k) o' = Some d
     \<and> \<not> quotes i (incoming_of (received_entry d h t False))"
proof -
  let ?m = "take MEMO_LEN (str_bytes (trim (inv_reference i)))"
  have "create_output_with_features C rb en (keys_address C k) a ?m ctx PlainOutput = Inr (o', sec)"
    using made by (simp add: create_output_def create_output_cut [symmetric])
  then obtain d where d: "scan_output C (keys_view_key C k) o' = Some d" "d_memo d = ?m"
    using scan_created_output [OF laws, of rb en k a ?m ctx PlainOutput o' sec] cut by auto
  have "length (trim (text_of ?m)) \<le> length ?m" using length_trim [of "text_of ?m"] by (simp add: text_of_def)
  then have "trim (text_of ?m) \<noteq> trim (inv_reference i)" using long by (auto simp: str_bytes_def)
  then show ?thesis using d by (auto simp: quotes_def incoming_of_def received_entry_def)
qed

end
