(* ===== verification/Example_Wallet.thy ===== *)
theory Example_Wallet
  imports Example Receipt Wallet_Pages
begin

text \<open>
  A wallet of the instance \<open>toy\<close> with two coins, a payment from it, and a JSON that writes and
  reads exactly what the examples need.
\<close>

definition toy_owned :: "u64 \<Rightarrow> u64 \<Rightarrow> owned_output" where
  "toy_owned v b =
     \<lparr>oo_commit = commitment_new toy v b, oo_value = v, oo_blind_hex = hex_encode (scalar_bytes toy b),
      oo_offset_hex = hex_encode (scalar_bytes toy 4), oo_memo = [], oo_height = 0, oo_spent = False,
      oo_coinbase = False\<rparr>"

definition toy_wallet :: "u64 wallet" where
  "toy_wallet = set_db (\<lambda>db. db\<lparr>wf_outputs := [toy_owned 1001 3, toy_owned 1001 7]\<rparr>)
     (in_memory Devnet toy_keys 0)"

text \<open>Another address to pay.\<close>

definition toy_other :: "u64 wallet_keys" where "toy_other = toy_keys\<lparr>scan_sk := scan_sk toy_keys + 1\<rparr>"

definition toy_pay :: "u64 wallet \<Rightarrow> wallet_error + transaction" where
  "toy_pay w = create_payment_at toy toy_draws w (keys_address toy toy_other) 500 100 [] 0 0"

definition toy_paid :: transaction where
  "toy_paid = (case toy_pay toy_wallet of Inr t \<Rightarrow> t)"

lemma toy_owned_sel [simp]:
  "oo_commit (toy_owned v b) = commitment_new toy v b" "oo_value (toy_owned v b) = v"
  "oo_spent (toy_owned v b) = False" "oo_coinbase (toy_owned v b) = False" "oo_height (toy_owned v b) = 0"
  by (simp_all add: toy_owned_def)

lemma toy_keys_ok: "keys_ok toy toy_keys"
  by (simp add: keys_ok_def toy_keys_def keys_from_seed_def)

lemma toy_owned_ok: "owned_ok toy (toy_owned v b)"
  by (simp add: owned_ok_def toy_owned_def hex_scalar_back)

lemma toy_wallet_sel [simp]:
  "w_keys toy_wallet = toy_keys" "w_network toy_wallet = Devnet" "w_persist toy_wallet = False"
  "wf_outputs (w_db toy_wallet) = [toy_owned 1001 3, toy_owned 1001 7]" "wf_history (w_db toy_wallet) = []"
  "wf_reserved (w_db toy_wallet) = []" "wf_air_signed (w_db toy_wallet) = []" "wf_invoices (w_db toy_wallet) = []"
  by (simp_all add: toy_wallet_def in_memory_def wallet_file_default_def)

lemma toy_wallet_ok: "file_ok toy (w_db toy_wallet)"
  by (simp add: file_ok_def toy_owned_ok till_empty om_ok_def)

lemma toy_available: "largest_first (available_coins (w_db toy_wallet) 0 0) = [toy_owned 1001 3, toy_owned 1001 7]"
  by (simp add: available_coins_def pending_input_commits_def is_reserved_def largest_first_def)

lemma toy_to_spendable:
  "to_spendable toy toy_keys (toy_owned v b)
     = Inr \<lparr>sp_commit = commitment_new toy v b, sp_value = v, sp_blind = b, sp_secret = spend_sk toy_keys + 4\<rparr>"
  by (simp add: to_spendable_def toy_owned_def hex_scalar_back)

lemma toy_selection:
  "select_coins_at toy toy_wallet 600 0 0
     = Inr [\<lparr>sp_commit = commitment_new toy 1001 3, sp_value = 1001, sp_blind = 3, sp_secret = spend_sk toy_keys + 4\<rparr>]"
  unfolding select_coins_at_def toy_available
  by (simp add: toy_to_spendable MAX_INPUTS_def sat_add_def checked_add_def sat_sum_def Let_def)

lemma toy_transfer_succeeds:
  assumes "sp_value s = 1001" and "r_kernel_offset rules = False"
  shows "\<exists>t. build_transfer_with toy toy_draws [s]
     [\<lparr>pay_to = keys_address toy ks, pay_amount = 500, pay_memo = m\<rparr>] 100 (keys_address toy toy_keys) 0 ctx rules = Inr t"
proof -
  obtain rb en rb' en' where d: "dr_output toy_draws 0 = (Some rb, en)" "dr_output toy_draws (Suc 0) = (Some rb', en')"
    by (simp add: toy_draws_def)
  obtain o1 s1 where p: "create_output toy (Some rb) en (keys_address toy ks) 500 m ctx = Inr (o1, s1)"
    using toy_makes_output [of rb en ks 500 m ctx PlainOutput] by (auto simp: create_output_def)
  obtain o2 s2 where c: "create_output toy (Some rb') en' (keys_address toy toy_keys) 401 [] ctx = Inr (o2, s2)"
    using toy_makes_output [of rb' en' toy_keys 401 "[]" ctx PlainOutput] by (auto simp: create_output_def)
  note w = create_output_wf [OF toy_group toy_encoding toy_range p [unfolded create_output_def]]
    create_output_wf [OF toy_group toy_encoding toy_range c [unfolded create_output_def]]
  have ds: "commitment_new toy 401 (ss_blind s2) \<noteq> commitment_new toy 500 (ss_blind s1)"
  proof
    assume "commitment_new toy 401 (ss_blind s2) = commitment_new toy 500 (ss_blind s1)"
    then have "pedersen toy 401 (ss_blind s2) = pedersen toy 500 (ss_blind s1)"
      unfolding commitment_new_def by (metis option.inject decompress_compress toy_encoding)
    then have "401 + ss_blind s2 * 3 = 500 + ss_blind s1 * 3" by (simp add: pedersen_def) (simp add: toy_def)
    moreover have "odd (ss_blind s1)" "odd (ss_blind s2)"
      using p c by (auto simp: create_output_def elim!: create_output_OkD simp: toy_blind_odd)
    ultimately show False by (metis even_add even_mult_iff even_numeral odd_numeral)
  qed
  have k: "kernel_check_shape toy (build_kernel toy e PlainKernel 100 0 0 x) = Inr ()" for e x
    by (rule build_kernel_shape) simp_all
  have i: "build_inputs toy toy_draws 0 [s] = [build_input toy (dr_input toy_draws 0) s]" by simp
  show ?thesis
    using d p c w ds
    by (simp add: build_transfer_with_def Let_def params checked_add_def assms i check_shape_def
        check_output_points_def coinbase_kernel_count_def is_coinbase_feature_def k)
qed

lemma toy_pay_eq: "toy_pay toy_wallet = Inr toy_paid"
proof -
  have "\<exists>t. toy_pay toy_wallet = Inr t"
    using toy_transfer_succeeds [of "\<lparr>sp_commit = commitment_new toy 1001 3, sp_value = 1001, sp_blind = 3,
        sp_secret = spend_sk toy_keys + 4\<rparr>" build_rules_default toy_other "str_bytes []" "proof_context Devnet"]
    by (auto simp: toy_pay_def create_payment_at_def checked_add_def ok_or_def toy_selection build_payment_def
        wallet_rules_def build_rules_default_def)
  then show ?thesis unfolding toy_paid_def by (metis sum.simps(6))
qed

lemma toy_paid_inputs: "map in_commit (tx_inputs toy_paid) = [commitment_new toy 1001 3]"
proof -
  obtain k ss target where t: "checked_add 500 100 = Some target" and s: "select_coins_at toy toy_wallet target 0 0 = Inr ss"
    and b: "build_payment toy toy_draws toy_wallet ss (keys_address toy toy_other) 500 100 [] 0 = Inr toy_paid"
    by (rule payment_inputs [OF toy_pay_eq [unfolded toy_pay_def]])
  have "target = 600" using t by (simp add: checked_add_def)
  then have ss: "ss = [\<lparr>sp_commit = commitment_new toy 1001 3, sp_value = 1001, sp_blind = 3, sp_secret = spend_sk toy_keys + 4\<rparr>]"
    using s toy_selection by simp
  show ?thesis
    using b unfolding build_payment_def map_err_Inr_iff
    by (elim build_transfer_with_OkD) (simp add: inputs_of_build ss)
qed

lemma toy_paid_excess:
  assumes "k \<in> set (tx_kernels toy_paid)"
  shows "commit_point toy (excess k) \<noteq> Some 0"
proof -
  let ?s = "\<lparr>sp_commit = commitment_new toy 1001 3, sp_value = 1001, sp_blind = 3, sp_secret = spend_sk toy_keys + 4\<rparr>"
  have "build_transfer_with toy toy_draws [?s] [\<lparr>pay_to = keys_address toy toy_other, pay_amount = 500,
      pay_memo = str_bytes []\<rparr>] 100 (keys_address toy toy_keys) 0 (proof_context Devnet) build_rules_default
    = Inr toy_paid"
    using toy_pay_eq
    by (simp add: toy_pay_def create_payment_at_def checked_add_def ok_or_def toy_selection build_payment_def
        wallet_rules_def map_err_Inr_iff)
  then show ?thesis
  proof (rule build_transfer_with_OkD)
    fix needed outs b e co cs k_off so
    assume b: "build_outputs toy toy_draws (proof_context Devnet) 0 [\<lparr>pay_to = keys_address toy toy_other,
        pay_amount = 500, pay_memo = str_bytes []\<rparr>] ([], 0, 0) = Inr (outs, b, e)"
      and c: "create_output toy (fst (dr_output toy_draws (length [\<lparr>pay_to = keys_address toy toy_other,
          pay_amount = 500, pay_memo = str_bytes []\<rparr>])))
        (snd (dr_output toy_draws (length [\<lparr>pay_to = keys_address toy toy_other, pay_amount = 500,
          pay_memo = str_bytes []\<rparr>]))) (keys_address toy toy_keys)
        ((\<Sum>s \<leftarrow> [?s]. sp_value s) - needed) [] (proof_context Devnet) = Inr (co, cs)"
      and o: "k_off = (if r_kernel_offset build_rules_default then dr_kernel_offset toy_draws else 0)"
      and ks: "tx_kernels toy_paid = [attach_stealth toy (dr_stealth_sig toy_draws)
         ((\<Sum>x \<leftarrow> build_inputs toy toy_draws 0 [?s]. snd x) - (e + ss_ephemeral cs) - so)
         (build_kernel toy (dr_kernel_sig toy_draws) PlainKernel 100 0 0
            (b + ss_blind cs - (\<Sum>s \<leftarrow> [?s]. sp_blind s) - k_off))]"
    have "odd (ss_blind cs)" using c by (auto simp: create_output_def elim!: create_output_OkD simp: toy_blind_odd)
    moreover have "odd b"
      using b by (auto simp: create_output_def split: sum.splits elim!: create_output_OkD simp: toy_blind_odd)
    ultimately have "odd ((b + ss_blind cs - 3) * 3)" by simp
    then have "(b + ss_blind cs - 3) * 3 \<noteq> 0" by (metis even_zero)
    with assms ks o show ?thesis
      by (auto simp: commit_point_def alg build_rules_default_def) (auto simp: toy_def)
  qed
qed

definition toy_export :: "u32 \<times> string \<times> string \<times> wallet_file" where
  "toy_export = (1, ''devnet'', hex_encode (replicate 32 1), w_db toy_wallet)"

definition toy_wallet_json :: wallet_json where
  "toy_wallet_json =
     \<lparr>tx_to_json = \<lambda>t. if t = toy_paid then Some ''paid'' else None,
      tx_of_json = \<lambda>s. if s = ''paid'' then Some toy_paid else None,
      export_json = \<lambda>x. if x = toy_export then Some ''wallet'' else None,
      import_json = \<lambda>s. if s = ''wallet'' then Some toy_export else None\<rparr>"

lemma toy_wallet_json_ok: "json_ok toy_wallet_json"
  by (simp add: json_ok_def toy_wallet_json_def)

definition toy_intent :: intent where
  "toy_intent = \<lparr>it_network = Devnet, it_to = keys_address toy toy_other, it_amount = 500, it_fee = 100, it_tip = 0,
     it_nonce = replicate 64 (CHR ''0''), it_expires = 10\<rparr>"

lemma toy_intent_parsed: "intent_parse toy (intent_text toy toy_intent) = Inr toy_intent"
proof (rule intent_roundtrip [OF toy_encoding])
  have "nonce_ok (replicate 64 (CHR ''0''))" by code_simp
  then show "intent_ok toy toy_intent"
    using keys_address_usable [OF toy_encoding, of toy_other] by (simp add: intent_ok_def toy_intent_def params)
qed

lemma toy_not_own: "keys_address toy toy_other \<noteq> keys_address toy toy_keys"
proof
  assume "keys_address toy toy_other = keys_address toy toy_keys"
  then have "compress toy (scan_public toy toy_other) = compress toy (scan_public toy toy_keys)"
    by (simp add: keys_address_def)
  then have "scan_public toy toy_other = scan_public toy toy_keys" by (metis option.inject decompress_compress toy_encoding)
  then show False by (simp add: scan_public_def toy_other_def) (simp add: toy_def)
qed

lemma toy_exported: "export_state toy_wallet_json toy_wallet = Inr ''wallet''"
  by (simp add: export_state_def toy_wallet_json_def toy_export_def toy_keys_def keys_from_seed_def ok_or_def)

lemma toy_imported: "import_state toy toy_wallet_json ''wallet'' = Inr toy_wallet"
  by (simp add: import_state_def import_own_state_def toy_wallet_json_def toy_export_def ok_or_def
      hex_commit_encode network_back [of Devnet, simplified] MAX_PLAINTEXT_BYTES_def)
    (simp add: toy_wallet_def in_memory_def wallet_file_default_def journal_default_def journal_validate_def
      ensure_def toy_keys_def set_db_def)

definition toy_saver :: "u64 saver" where "toy_saver = (\<lambda>_. True)"

definition toy_answer :: air_signature where
  "toy_answer = \<lparr>as_intent = intent_text toy toy_intent, as_raw = ''paid''\<rparr>"

definition toy_answered :: "u64 wallet" where
  "toy_answered = set_db (\<lambda>_. wf_air_signed_update (om_insert (it_nonce toy_intent) toy_answer)
     (sent_file toy toy_wallet_json toy_paid 500 [] 9 (w_db toy_wallet))) toy_wallet"

lemma toy_air_first:
  "prepare_air_payment toy toy_wallet_json toy_draws toy_saver toy_intent 0 5 9 toy_wallet = (toy_answered, Inr toy_paid)"
proof -
  have pay: "create_payment_at toy toy_draws toy_wallet (keys_address toy toy_other) 500 100 [] 0 0 = Inr toy_paid"
    using toy_pay_eq by (simp add: toy_pay_def)
  have raw: "tx_to_json toy_wallet_json toy_paid = Some ''paid''" by (simp add: toy_wallet_json_def)
  have rec: "record_send_at toy toy_wallet_json toy_saver toy_paid 500 [] 9 toy_wallet
      = (set_db (sent_file toy toy_wallet_json toy_paid 500 [] 9) toy_wallet, Inr ())"
    by (simp add: record_send_at_def save_as_def wallet_save_def)
  have cand: "air_candidate toy toy_wallet_json toy_draws toy_saver toy_intent 0 9 toy_wallet
      = Inr (set_db (wf_air_signed_update (om_insert (it_nonce toy_intent) toy_answer))
          (set_db (sent_file toy toy_wallet_json toy_paid 500 [] 9) toy_wallet), toy_paid)"
    unfolding air_candidate_def toy_exported
    by (simp add: toy_imported toy_intent_def pay rec raw ok_or_def toy_answer_def)
  have check: "intent_check toy_intent Devnet 5 = Inr ()" by (simp add: intent_check_def toy_intent_def)
  have to: "it_to toy_intent \<noteq> keys_address toy toy_keys" using toy_not_own by (simp add: toy_intent_def)
  show ?thesis
    unfolding prepare_air_payment_def toy_intent_parsed
    by (simp add: check to cand adopt_scan_state_def save_or_restore_def wallet_save_def toy_answered_def set_db_def)
qed

lemma toy_air_again:
  "prepare_air_payment toy toy_wallet_json toy_draws toy_saver toy_intent 0 5 9 toy_answered = (toy_answered, Inr toy_paid)"
proof -
  have m: "map_of (wf_air_signed (w_db toy_answered)) (it_nonce toy_intent) = Some toy_answer"
    by (simp add: toy_answered_def sent_file_def)
  have n: "w_network toy_answered = Devnet" by (simp add: toy_answered_def)
  have check: "intent_check toy_intent Devnet 5 = Inr ()" by (simp add: intent_check_def toy_intent_def)
  show ?thesis
    unfolding prepare_air_payment_def toy_intent_parsed
    by (simp add: check n m air_answer_def toy_answer_def toy_wallet_json_def ok_or_def)
qed

section \<open>Blocks to scan and an invoice to settle\<close>

definition toy_page :: "u64 \<Rightarrow> tx_output list \<Rightarrow> block" where
  "toy_page h outs =
     \<lparr>blk_header = \<lparr>h_version = 2, h_height = h, h_prev_hash = [], h_utxo_root = [], h_kernel_sum = [],
        h_body_root = [], h_timestamp = 50 + h, h_difficulty = 1, h_nonce = 0, h_reward = 0\<rparr>,
      blk_body = body_default\<lparr>b_outputs := outs\<rparr>\<rparr>"

definition toy_pages :: "block list" where
  "toy_pages = [toy_page 0 [], toy_page 1 (tx_outputs toy_transfer), toy_page 2 []]"

lemma toy_heights: "chain_heights 0 toy_pages"
  by (simp add: chain_heights_def toy_pages_def toy_page_def block_height_def less_Suc_eq numeral_3_eq_3 nth_Cons')

lemma toy_pages_chain: "chain_of toy_pages"
proof -
  obtain o' where "tx_outputs toy_transfer = [o']"
    by (rule build_transfer_with_OkD [OF toy_transfer_eq]) simp
  then show ?thesis
    by (simp add: chain_of_def toy_pages_def toy_page_def body_default_def block_inputs_def)
qed

definition toy_invoice :: invoice where
  "toy_invoice = \<lparr>inv_reference = ''A1'', inv_amount = Some 500, inv_description = [], inv_created = 1,
     inv_expires = Some 90, inv_closed = None\<rparr>"

lemma toy_reference: "trim ''A1'' = ''A1''" "utf8_valid (str_bytes ''A1'')" "char_count ''A1'' = 2" "char_count [] = 0"
  by (auto simp: trim_solid solid_ascii utf8_ascii_text ascii_def char_count_def cont_def)

lemma toy_invoice_ok: "invoice_check toy_invoice = Inr ()" "carried (inv_reference toy_invoice)"
  by (simp_all add: invoice_check_Inr toy_invoice_def toy_reference carried_def params)

lemma toy_sale:
  obtains o' sec where "pay_request toy (Some rb) en (to_uri toy (request_for toy_invoice (keys_address toy toy_keys) Devnet))
    toy_ctx = Some (o', sec)"
proof -
  obtain o' sec where "create_output toy (Some rb) en (keys_address toy toy_keys) 500 (str_bytes ''A1'') toy_ctx = Inr (o', sec)"
    using toy_makes_output [of rb en toy_keys 500 "str_bytes ''A1''" toy_ctx PlainOutput]
    by (auto simp: create_output_def)
  then show ?thesis
    using that link_reads_back [OF toy_encoding toy_invoice_ok, of toy_keys Devnet]
    by (simp add: pay_request_def request_for_def toy_invoice_def toy_reference)
qed

section \<open>The same wallet after the payment\<close>

definition toy_later :: "u64 wallet" where
  "toy_later = wallet_step toy toy_wallet_json toy_saver (TillAdd toy_invoice)
     (wallet_run toy toy_wallet_json toy_saver [RecordSend toy_paid 500 [] 9] toy_wallet)"

lemma toy_commits_differ: "commitment_new toy 1001 7 \<noteq> commitment_new toy 1001 3"
proof
  assume "commitment_new toy 1001 7 = commitment_new toy 1001 3"
  then have "pedersen toy 1001 7 = pedersen toy 1001 3"
    unfolding commitment_new_def by (metis option.inject decompress_compress toy_encoding)
  then show False by (simp add: pedersen_def) (simp add: toy_def)
qed

lemma toy_sent_file:
  "w_db (wallet_run toy toy_wallet_json toy_saver [RecordSend toy_paid 500 [] 9] toy_wallet)
     = sent_file toy toy_wallet_json toy_paid 500 [] 9 (w_db toy_wallet)"
  by (simp add: wallet_run_def record_send_at_def)

lemma toy_claimed: "pending_input_commits (sent_file toy toy_wallet_json toy_paid 500 [] 9 (w_db toy_wallet)) = {commitment_new toy 1001 3}"
  using arg_cong [OF toy_paid_inputs, of set]
  by (simp add: pending_input_commits_def sent_file_def sent_entry_def pending_send_def is_pending_def)

lemma toy_later_sel:
  "w_keys toy_later = toy_keys" "w_network toy_later = Devnet"
  "available_coins (w_db toy_later) 0 0 = [toy_owned 1001 7]"
proof -
  have db: "w_db toy_later = (sent_file toy toy_wallet_json toy_paid 500 [] 9 (w_db toy_wallet))
      \<lparr>wf_invoices := wf_invoices (w_db toy_later)\<rparr>"
    by (simp only: toy_later_def till_fst toy_sent_file) simp
  show "w_keys toy_later = toy_keys" "w_network toy_later = Devnet"
    by (auto simp: toy_later_def edit_till_def wallet_run_def record_send_at_def split: sum.split)
  have p: "pending_input_commits (w_db toy_later) = {commitment_new toy 1001 3}"
    by (subst db, subst pending_same_history [of _ "sent_file toy toy_wallet_json toy_paid 500 [] 9 (w_db toy_wallet)"]) (simp_all add: toy_claimed)
  have o: "wf_outputs (w_db toy_later) = mark_spent {commitment_new toy 1001 3} [toy_owned 1001 3, toy_owned 1001 7]"
    using arg_cong [OF toy_paid_inputs, of set] by (subst db) (simp add: sent_file_def)
  have r: "wf_reserved (w_db toy_later) = []" by (subst db) (simp add: sent_file_def)
  show "available_coins (w_db toy_later) 0 0 = [toy_owned 1001 7]"
    using toy_commits_differ by (simp add: available_coins_def p o r is_reserved_def mark_spent_def)
qed

lemma toy_second_payment:
  obtains tx where "create_payment_at toy toy_draws toy_later (keys_address toy toy_other) 500 100 [] 0 0 = Inr tx"
proof -
  have s: "select_coins_at toy toy_later 600 0 0
     = Inr [\<lparr>sp_commit = commitment_new toy 1001 7, sp_value = 1001, sp_blind = 7, sp_secret = spend_sk toy_keys + 4\<rparr>]"
    unfolding select_coins_at_def toy_later_sel
    by (simp add: largest_first_def toy_to_spendable MAX_INPUTS_def sat_add_def checked_add_def sat_sum_def Let_def)
  obtain tx where "build_transfer_with toy toy_draws [\<lparr>sp_commit = commitment_new toy 1001 7, sp_value = 1001, sp_blind = 7,
        sp_secret = spend_sk toy_keys + 4\<rparr>] [\<lparr>pay_to = keys_address toy toy_other, pay_amount = 500,
        pay_memo = str_bytes []\<rparr>] 100 (keys_address toy toy_keys) 0 (proof_context Devnet) build_rules_default = Inr tx"
    using toy_transfer_succeeds [of "\<lparr>sp_commit = commitment_new toy 1001 7, sp_value = 1001, sp_blind = 7,
        sp_secret = spend_sk toy_keys + 4\<rparr>" build_rules_default toy_other "str_bytes []" "proof_context Devnet"]
    by (auto simp: build_rules_default_def)
  then have "create_payment_at toy toy_draws toy_later (keys_address toy toy_other) 500 100 [] 0 0 = Inr tx"
    by (simp add: create_payment_at_def checked_add_def ok_or_def s build_payment_def wallet_rules_def toy_later_sel)
  then show ?thesis by (rule that)
qed

section \<open>A receipt\<close>

lemma toy_keys_ok_wallet: "keys_ok toy (w_keys toy_wallet)"
  by (simp add: toy_keys_ok)

lemma toy_receipt_small:
  "receipt_small (receipt_from_output toy [9] toy_wallet (toy_owned 1001 3) None)"
  "receipt_small (receipt_from_output toy [9] toy_wallet (toy_owned 1001 3) None
     \<lparr>rc_timestamp := rc_timestamp (receipt_from_output toy [9] toy_wallet (toy_owned 1001 3) None) + 1\<rparr>)"
proof -
  let ?r = "receipt_from_output toy [9] toy_wallet (toy_owned 1001 3) None"
  have a: "length (address_encode toy (keys_address toy toy_keys)) < 2 ^ 64"
  proof -
    have "length (address_checksum toy pay) \<le> 4" for pay by (simp add: address_checksum_def)
    from this [of "scan_pk (keys_address toy toy_keys) @ spend_pk (keys_address toy toy_keys)"] show ?thesis
      using keys_address_valid [OF toy_encoding, of toy_keys] by (simp add: address_encode_def Let_def length_hex_encode)
  qed
  show "receipt_small ?r" using a
    by (simp add: receipt_small_def receipt_from_output_def toy_owned_def wallet_address_string_def length_hex_encode
        commitment_new_def encoded_lengths [OF toy_encoding])
  then show "receipt_small (?r\<lparr>rc_timestamp := rc_timestamp ?r + 1\<rparr>)" by (simp add: receipt_small_def)
qed

end
