(* ===== verification/Vault.thy ===== *)
theory Vault
  imports Wallet_Safety
begin

text \<open>
  \<open>crates/nightfall-wallet/src/vault.rs\<close>: a wallet sealed under a password.  Argon2id and
  XChaCha20-Poly1305 are the parameters of \<open>vault_lib\<close>; a draw of the system generator is an
  argument, \<open>None\<close> when the generator is unavailable.  The native size limit is modelled.
\<close>

section \<open>The envelope\<close>

definition MAGIC :: bytes where "MAGIC = str_bytes ''NFVAULT'' @ [0]"
definition FORMAT :: u8 where [params]: "FORMAT = 1"
definition PROFILE :: u8 where [params]: "PROFILE = 1"
definition PREFIX_LEN :: nat where [params]: "PREFIX_LEN = 31"
definition HEADER_LEN :: nat where [params]: "HEADER_LEN = PREFIX_LEN + 24"
definition TAG_LEN :: nat where [params]: "TAG_LEN = 16"
definition MAX_VAULT_BYTES :: nat where [params]: "MAX_VAULT_BYTES = MAX_PLAINTEXT_BYTES + HEADER_LEN + TAG_LEN"

datatype vault_error =
    InvalidEnvelope | UnsupportedFormat | VaultWrongNetwork | Authentication | InvalidWallet
  | PasswordPolicy | SizeLimit | Locked | AlreadyUnlocked | RandomUnavailable | KeyDerivation | Encryption

record vault_lib =
  vl_kdf :: "bytes \<Rightarrow> bytes \<Rightarrow> bytes option"
  vl_seal :: "bytes \<Rightarrow> bytes \<Rightarrow> bytes \<Rightarrow> bytes \<Rightarrow> bytes option"
  vl_open :: "bytes \<Rightarrow> bytes \<Rightarrow> bytes \<Rightarrow> bytes \<Rightarrow> bytes option"

text \<open>The two arguments of a session: what is sealed under which key.\<close>

record 's unlocked =
  ul_key :: bytes
  ul_prefix :: bytes
  ul_wallet :: "'s wallet"

record 's vault =
  va_sealed :: bytes
  va_unlocked :: "'s unlocked option"

fun network_byte :: "network_id \<Rightarrow> u8" where
  "network_byte Mainnet = 0" | "network_byte Testnet = 1" | "network_byte Devnet = 2"

definition parse_vault_header :: "bytes \<Rightarrow> vault_error + network_id" where
  "parse_vault_header blob =
     (if MAX_VAULT_BYTES < length blob then Inl SizeLimit
      else if length blob < HEADER_LEN + TAG_LEN \<or> take 8 blob \<noteq> MAGIC then Inl InvalidEnvelope
      else if blob ! 8 \<noteq> FORMAT \<or> blob ! 9 \<noteq> PROFILE \<or> take 4 (drop 11 blob) \<noteq> u32_le PROTOCOL_VERSION
      then Inl UnsupportedFormat
      else if blob ! 10 = 0 then Inr Mainnet
      else if blob ! 10 = 1 then Inr Testnet
      else if blob ! 10 = 2 then Inr Devnet
      else Inl InvalidEnvelope)"

definition password_policy :: "string \<Rightarrow> vault_error + unit" where
  "password_policy password =
     ensure PasswordPolicy (\<not> (1024 < length password \<or> char_count password < 12 \<or> trim password = []))"

definition new_prefix :: "bytes option \<Rightarrow> network_id \<Rightarrow> vault_error + bytes" where
  "new_prefix salt n =
     res_bind (ok_or RandomUnavailable salt) (\<lambda>s.
       Inr (MAGIC @ [FORMAT, PROFILE, network_byte n] @ u32_le PROTOCOL_VERSION @ s))"

definition prefix_salt :: "bytes \<Rightarrow> bytes" where
  "prefix_salt prf = take 16 (drop 15 prf)"

definition derive_key :: "vault_lib \<Rightarrow> string \<Rightarrow> bytes \<Rightarrow> vault_error + bytes" where
  "derive_key L password salt =
     res_bind (password_policy password) (\<lambda>_.
       ok_or KeyDerivation (vl_kdf L (str_bytes password) salt))"

definition exported :: "wallet_json \<Rightarrow> 's wallet \<Rightarrow> vault_error + string" where
  "exported J w = map_err (\<lambda>_. InvalidWallet) (export_state J w)"

definition imported :: "('p, 's) crypto \<Rightarrow> wallet_json \<Rightarrow> string \<Rightarrow> vault_error + 's wallet" where
  "imported C J s = map_err (\<lambda>_. InvalidWallet) (import_state C J s)"

definition encrypt :: "vault_lib \<Rightarrow> wallet_json \<Rightarrow> bytes option \<Rightarrow> 's unlocked \<Rightarrow> vault_error + bytes" where
  "encrypt L J nonce u =
     (if ul_prefix u ! 10 \<noteq> network_byte (w_network (ul_wallet u)) then Inl VaultWrongNetwork
      else
        res_bind (exported J (ul_wallet u)) (\<lambda>plain.
        if MAX_PLAINTEXT_BYTES < length plain then Inl SizeLimit
        else
          res_bind (ok_or RandomUnavailable nonce) (\<lambda>n.
          (let header = ul_prefix u @ n in
           res_bind (ok_or Encryption (vl_seal L (ul_key u) n header (str_bytes plain))) (\<lambda>c.
             Inr (header @ c))))))"

section \<open>Sessions\<close>

definition copy_session :: "('p, 's) crypto \<Rightarrow> wallet_json \<Rightarrow> 's vault \<Rightarrow> vault_error + 's vault" where
  "copy_session C J v =
     res_bind (ok_or Locked (va_unlocked v)) (\<lambda>u.
     res_bind (exported J (ul_wallet u)) (\<lambda>plain.
     res_bind (imported C J plain) (\<lambda>w.
       Inr (v\<lparr>va_unlocked := Some (u\<lparr>ul_wallet := w\<rparr>)\<rparr>))))"

definition begin_edit :: "('p, 's) crypto \<Rightarrow> wallet_json \<Rightarrow> 's vault \<Rightarrow> vault_error + 's vault" where
  "begin_edit C J v = copy_session C J v"

definition vault_adopt :: "('p, 's::comm_ring_1) crypto \<Rightarrow> 's vault \<Rightarrow> 's vault \<Rightarrow> 's vault \<times> (vault_error + unit)" where
  "vault_adopt C candidate v =
     (case va_unlocked v of
        None \<Rightarrow> (v, Inl Locked)
      | Some cur \<Rightarrow>
          (case va_unlocked candidate of
             None \<Rightarrow> (v, Inl Locked)
           | Some nxt \<Rightarrow>
               if w_network (ul_wallet nxt) \<noteq> w_network (ul_wallet cur) then (v, Inl VaultWrongNetwork)
               else if seed (w_keys (ul_wallet nxt)) \<noteq> seed (w_keys (ul_wallet cur))
                 \<or> keys_address C (w_keys (ul_wallet nxt)) \<noteq> keys_address C (w_keys (ul_wallet cur))
               then (v, Inl InvalidWallet)
               else (candidate, Inr ())))"

definition forget_unlocked :: "'s vault \<Rightarrow> 's vault" where
  "forget_unlocked v = v\<lparr>va_unlocked := None\<rparr>"

definition vault_create ::
  "('p, 's) crypto \<Rightarrow> vault_lib \<Rightarrow> wallet_json \<Rightarrow> bytes option \<Rightarrow> bytes option \<Rightarrow> 's wallet \<Rightarrow> string
     \<Rightarrow> vault_error + 's vault" where
  "vault_create C L J salt nonce w0 password =
     res_bind (password_policy password) (\<lambda>_.
     res_bind (exported J w0) (\<lambda>plain.
     if MAX_PLAINTEXT_BYTES < length plain then Inl SizeLimit
     else
       res_bind (imported C J plain) (\<lambda>w.
       res_bind (new_prefix salt (w_network w)) (\<lambda>prf.
       res_bind (derive_key L password (prefix_salt prf)) (\<lambda>key.
       (let u = \<lparr>ul_key = key, ul_prefix = prf, ul_wallet = w\<rparr> in
        res_bind (encrypt L J nonce u) (\<lambda>sealed.
          Inr \<lparr>va_sealed = sealed, va_unlocked = Some u\<rparr>)))))))"

definition vault_from_bytes :: "bytes \<Rightarrow> vault_error + 's vault" where
  "vault_from_bytes bs = res_bind (parse_vault_header bs) (\<lambda>_. Inr \<lparr>va_sealed = bs, va_unlocked = None\<rparr>)"

definition vault_is_locked :: "'s vault \<Rightarrow> bool" where
  "vault_is_locked v \<longleftrightarrow> va_unlocked v = None"

definition vault_wallet :: "'s vault \<Rightarrow> vault_error + 's wallet" where
  "vault_wallet v = res_bind (ok_or Locked (va_unlocked v)) (\<lambda>u. Inr (ul_wallet u))"

text \<open>What is done through \<open>wallet_mut\<close>.\<close>

definition vault_edit :: "('s wallet \<Rightarrow> 's wallet) \<Rightarrow> 's vault \<Rightarrow> 's vault \<times> (vault_error + unit)" where
  "vault_edit f v =
     (case va_unlocked v of
        None \<Rightarrow> (v, Inl Locked)
      | Some u \<Rightarrow> (v\<lparr>va_unlocked := Some (u\<lparr>ul_wallet := f (ul_wallet u)\<rparr>)\<rparr>, Inr ()))"

text \<open>What \<open>unlock\<close> reads out of sealed bytes.\<close>

definition open_sealed ::
  "('p, 's) crypto \<Rightarrow> vault_lib \<Rightarrow> wallet_json \<Rightarrow> bytes \<Rightarrow> string \<Rightarrow> network_id \<Rightarrow> vault_error + 's unlocked" where
  "open_sealed C L J sealed password expected =
     res_bind (parse_vault_header sealed) (\<lambda>n.
     if n \<noteq> expected then Inl VaultWrongNetwork
     else
       (let prf = take PREFIX_LEN sealed in
        res_bind (derive_key L password (prefix_salt prf)) (\<lambda>key.
        res_bind (ok_or Authentication (vl_open L key (take 24 (drop PREFIX_LEN sealed))
            (take HEADER_LEN sealed) (drop HEADER_LEN sealed))) (\<lambda>plain.
        res_bind (ensure InvalidWallet (utf8_valid plain)) (\<lambda>_.
        res_bind (imported C J (text_of plain)) (\<lambda>w.
          if w_network w \<noteq> expected then Inl VaultWrongNetwork
          else Inr \<lparr>ul_key = key, ul_prefix = prf, ul_wallet = w\<rparr>))))))"

definition vault_unlock ::
  "('p, 's) crypto \<Rightarrow> vault_lib \<Rightarrow> wallet_json \<Rightarrow> string \<Rightarrow> network_id \<Rightarrow> 's vault \<Rightarrow> 's vault \<times> (vault_error + unit)" where
  "vault_unlock C L J password expected v =
     (if va_unlocked v \<noteq> None then (v, Inl AlreadyUnlocked)
      else
        (case open_sealed C L J (va_sealed v) password expected of
           Inl e \<Rightarrow> (v, Inl e) | Inr u \<Rightarrow> (v\<lparr>va_unlocked := Some u\<rparr>, Inr ())))"

definition vault_snapshot ::
  "vault_lib \<Rightarrow> wallet_json \<Rightarrow> bytes option \<Rightarrow> 's vault \<Rightarrow> 's vault \<times> (vault_error + bytes)" where
  "vault_snapshot L J nonce v =
     (case va_unlocked v of
        None \<Rightarrow> (v, Inr (va_sealed v))
      | Some u \<Rightarrow>
          (case encrypt L J nonce u of
             Inl e \<Rightarrow> (v, Inl e) | Inr bs \<Rightarrow> (v\<lparr>va_sealed := bs\<rparr>, Inr bs)))"

definition vault_lock ::
  "vault_lib \<Rightarrow> wallet_json \<Rightarrow> bytes option \<Rightarrow> 's vault \<Rightarrow> 's vault \<times> (vault_error + unit)" where
  "vault_lock L J nonce v =
     (case vault_snapshot L J nonce v of
        (v', Inl e) \<Rightarrow> (v', Inl e) | (v', Inr _) \<Rightarrow> (forget_unlocked v', Inr ()))"

definition replacement_session ::
  "('p, 's) crypto \<Rightarrow> vault_lib \<Rightarrow> wallet_json \<Rightarrow> bytes option \<Rightarrow> 's unlocked \<Rightarrow> string \<Rightarrow> vault_error + 's unlocked" where
  "replacement_session C L J salt cur password =
     (if ul_prefix cur ! 10 \<noteq> network_byte (w_network (ul_wallet cur)) then Inl VaultWrongNetwork
      else
        res_bind (password_policy password) (\<lambda>_.
        res_bind (exported J (ul_wallet cur)) (\<lambda>plain.
        res_bind (imported C J plain) (\<lambda>w.
        res_bind (new_prefix salt (w_network w)) (\<lambda>prf.
        res_bind (derive_key L password (prefix_salt prf)) (\<lambda>key.
          Inr \<lparr>ul_key = key, ul_prefix = prf, ul_wallet = w\<rparr>))))))"

definition vault_change_password ::
  "('p, 's) crypto \<Rightarrow> vault_lib \<Rightarrow> wallet_json \<Rightarrow> bytes option \<Rightarrow> bytes option \<Rightarrow> string \<Rightarrow> 's vault
     \<Rightarrow> 's vault \<times> (vault_error + unit)" where
  "vault_change_password C L J salt nonce password v =
     (case res_bind (ok_or Locked (va_unlocked v)) (\<lambda>cur.
             res_bind (replacement_session C L J salt cur password) (\<lambda>u.
             res_bind (encrypt L J nonce u) (\<lambda>bs. Inr (u, bs)))) of
        Inl e \<Rightarrow> (v, Inl e)
      | Inr (u, bs) \<Rightarrow> (\<lparr>va_sealed = bs, va_unlocked = Some u\<rparr>, Inr ()))"

end
