(* ===== verification/Vault_Facts.thy ===== *)
theory Vault_Facts
  imports Vault
begin

text \<open>
  A vault never loses what it sealed: whatever is done to it, its sealed bytes open with the
  current password and give the wallet of the last snapshot, an operation that fails changes
  nothing, and a candidate of an edit is adopted only by the vault of the same wallet.
\<close>

section \<open>Laws of the imported code\<close>

text \<open>What is sealed is opened under the same key, nonce and header; the tag has 16 bytes.\<close>

definition vault_lib_ok :: "vault_lib \<Rightarrow> bool" where
  "vault_lib_ok L \<longleftrightarrow> (\<forall>k n a m c. vl_seal L k n a m = Some c \<longrightarrow> vl_open L k n a c = Some m \<and> length c = length m + TAG_LEN)"

definition json_text_ok :: "wallet_json \<Rightarrow> bool" where
  "json_text_ok J \<longleftrightarrow> (\<forall>x s. export_json J x = Some s \<longrightarrow> utf8_valid (str_bytes s))"

definition draw_ok :: "nat \<Rightarrow> bytes option \<Rightarrow> bool" where
  "draw_ok n d \<longleftrightarrow> (case d of None \<Rightarrow> True | Some bs \<Rightarrow> length bs = n)"

text \<open>A wallet as a vault holds it: in memory, with the keys of its seed and a valid journal.\<close>

definition vaultable :: "('p, 's) crypto \<Rightarrow> 's wallet \<Rightarrow> bool" where
  "vaultable C w \<longleftrightarrow> keys_ok C (w_keys w) \<and> \<not> w_persist w \<and> journal_ok (wf_journal (w_db w))"

lemma export_imports:
  assumes "json_ok J" and "vaultable C w" and "export_state J w = Inr s" and "length s \<le> MAX_PLAINTEXT_BYTES"
  shows "import_state C J s = Inr w"
proof -
  have "import_json J s = Some (1, network_as_str (w_network w), hex_encode (seed (w_keys w)), w_db w)"
    using assms(1,3) by (auto simp: export_state_def res_simps json_ok_def)
  then show ?thesis
    using assms(2,4)
    by (simp add: import_state_def import_own_state_def ok_or_def network_back hex_commit_encode
        vaultable_def keys_ok_def journal_ok_def)
qed

lemma imported_vaultable:
  assumes "imported C J s = Inr w"
  shows "vaultable C w"
proof -
  obtain v network seed_hex db n sd where i: "import_json J s = Some (v, network, seed_hex, db)"
    and j: "journal_validate (wf_journal db) = Inr ()" and sd: "hex_commit seed_hex = Some sd"
    and w: "w = \<lparr>w_keys = keys_from_seed C sd, w_network = n, w_db = db, w_persist = False\<rparr>"
    using assms by (auto simp: imported_def import_state_def import_own_state_def res_simps split: if_splits)
  have "length sd = 32" using sd by (auto simp: hex_commit_def split: option.splits if_splits)
  then show ?thesis using j by (simp add: w vaultable_def keys_ok_def journal_ok_def keys_from_seed_def)
qed

section \<open>What is sealed\<close>

definition header_prefix :: "network_id \<Rightarrow> bytes \<Rightarrow> bytes" where
  "header_prefix n salt = MAGIC @ [FORMAT, PROFILE, network_byte n] @ u32_le PROTOCOL_VERSION @ salt"

definition session_ok :: "vault_lib \<Rightarrow> string \<Rightarrow> 's unlocked \<Rightarrow> bool" where
  "session_ok L pw u \<longleftrightarrow> (\<exists>salt. length salt = 16 \<and> ul_prefix u = header_prefix (w_network (ul_wallet u)) salt
     \<and> derive_key L pw salt = Inr (ul_key u))"

lemma length_version: "length (u32_le w) = 4"
  by (simp add: u32_le_def)

lemma length_magic: "length MAGIC = 8"
  by (simp add: MAGIC_def str_bytes_def)

lemma header_prefix_parts:
  assumes "length salt = 16"
  shows "length (header_prefix n salt) = PREFIX_LEN" "take 8 (header_prefix n salt @ r) = MAGIC"
    "(header_prefix n salt @ r) ! 8 = FORMAT" "(header_prefix n salt @ r) ! 9 = PROFILE"
    "(header_prefix n salt @ r) ! 10 = network_byte n" "header_prefix n salt ! 10 = network_byte n"
    "take 4 (drop 11 (header_prefix n salt @ r)) = u32_le PROTOCOL_VERSION"
    "prefix_salt (header_prefix n salt) = salt"
  using assms by (simp_all add: header_prefix_def length_magic length_version params nth_append prefix_salt_def)

lemma parse_prefix:
  assumes "length salt = 16" and "length (header_prefix n salt @ r) \<le> MAX_VAULT_BYTES" and "24 + TAG_LEN \<le> length r"
  shows "parse_vault_header (header_prefix n salt @ r) = Inr n"
  using assms header_prefix_parts(1,6,8) [OF assms(1), of n] header_prefix_parts(2-5,7) [OF assms(1), of n r]
  by (cases n) (simp_all add: parse_vault_header_def not_less HEADER_LEN_def)

text \<open>The session that sealed the bytes is the session that opening them gives back.\<close>

lemma encrypt_opens:
  assumes L: "vault_lib_ok L" and J: "json_ok J" "json_text_ok J" and u: "session_ok L pw u" "vaultable C (ul_wallet u)"
    and e: "encrypt L J nonce u = Inr bs" and d: "draw_ok 24 nonce"
  shows "open_sealed C L J bs pw (w_network (ul_wallet u)) = Inr u"
proof -
  let ?n = "w_network (ul_wallet u)"
  obtain salt where salt: "length salt = 16" and pre: "ul_prefix u = header_prefix ?n salt"
    and key: "derive_key L pw salt = Inr (ul_key u)"
    using u(1) by (auto simp: session_ok_def)
  obtain plain nn c where x: "export_state J (ul_wallet u) = Inr plain" "length plain \<le> MAX_PLAINTEXT_BYTES"
      "nonce = Some nn" "vl_seal L (ul_key u) nn (ul_prefix u @ nn) (str_bytes plain) = Some c"
    and bs: "bs = ul_prefix u @ nn @ c"
    using e by (auto simp: encrypt_def exported_def res_simps Let_def not_less split: if_splits)
  have nn: "length nn = 24" using d x(3) by (simp add: draw_ok_def)
  have c: "vl_open L (ul_key u) nn (ul_prefix u @ nn) c = Some (str_bytes plain)" "length c = length plain + TAG_LEN"
    using L x(4) by (auto simp: vault_lib_ok_def str_bytes_def)
  note parts = header_prefix_parts(1,6,8) [OF salt, of ?n]
  have parse: "parse_vault_header bs = Inr ?n"
    unfolding bs pre using parts(1) x(2) nn c(2)
    by (intro parse_prefix [OF salt]) (simp_all add: MAX_VAULT_BYTES_def HEADER_LEN_def)
  have cut: "take PREFIX_LEN bs = ul_prefix u" "take 24 (drop PREFIX_LEN bs) = nn"
      "take HEADER_LEN bs = ul_prefix u @ nn" "drop HEADER_LEN bs = c"
    using parts(1) nn by (simp_all add: bs pre HEADER_LEN_def)
  have "utf8_valid (str_bytes plain)" using J(2) x(1) by (auto simp: export_state_def res_simps json_text_ok_def)
  moreover have "imported C J plain = Inr (ul_wallet u)"
    using export_imports [OF J(1) u(2) x(1,2)] by (simp add: imported_def)
  ultimately show ?thesis
    unfolding open_sealed_def parse
    by (simp add: cut pre parts(3) key c(1) [unfolded pre] ok_or_def ensure_def text_of_bytes)
qed

lemma prefix_split:
  assumes "15 + 16 \<le> length bs"
  shows "take 31 bs = take 8 bs @ [bs ! 8, bs ! 9, bs ! 10] @ take 4 (drop 11 bs) @ take 16 (drop 15 bs)"
proof -
  have "take 3 (drop 8 bs) = [bs ! 8, bs ! 9, bs ! 10]"
    using assms by (intro nth_equalityI) (auto simp: less_Suc_eq numeral_3_eq_3 nth_Cons')
  moreover have "take 31 bs = take 8 bs @ take 3 (drop 8 bs) @ take 4 (drop 11 bs) @ take 16 (drop 15 bs)"
    using take_add [of 8 23 bs] take_add [of 3 20 "drop 8 bs"] take_add [of 4 16 "drop 11 bs"] by simp
  ultimately show ?thesis by simp
qed

lemma parse_vault_header_Inr:
  assumes "parse_vault_header bs = Inr n"
  shows "HEADER_LEN + TAG_LEN \<le> length bs" "take PREFIX_LEN bs = header_prefix n (take 16 (drop 15 bs))"
proof -
  have l: "HEADER_LEN + TAG_LEN \<le> length bs" "take 8 bs = MAGIC" "bs ! 8 = FORMAT" "bs ! 9 = PROFILE"
      "take 4 (drop 11 bs) = u32_le PROTOCOL_VERSION" "bs ! 10 = network_byte n"
    using assms by (auto simp: parse_vault_header_def not_less split: if_splits)
  then show "HEADER_LEN + TAG_LEN \<le> length bs" "take PREFIX_LEN bs = header_prefix n (take 16 (drop 15 bs))"
    using prefix_split [of bs] by (simp_all add: header_prefix_def PREFIX_LEN_def HEADER_LEN_def TAG_LEN_def)
qed

lemma opened_session:
  assumes "open_sealed C L J bs pw n = Inr u"
  shows "session_ok L pw u" "vaultable C (ul_wallet u)" "w_network (ul_wallet u) = n"
proof -
  obtain key plain w where parse: "parse_vault_header bs = Inr n"
    and k: "derive_key L pw (prefix_salt (take PREFIX_LEN bs)) = Inr key"
    and i: "imported C J (text_of plain) = Inr w" "w_network w = n"
    and u: "u = \<lparr>ul_key = key, ul_prefix = take PREFIX_LEN bs, ul_wallet = w\<rparr>"
    using assms by (auto simp: open_sealed_def res_simps Let_def split: if_splits)
  have len: "length (take 16 (drop 15 bs)) = 16"
    using parse_vault_header_Inr(1) [OF parse] by (simp add: HEADER_LEN_def PREFIX_LEN_def TAG_LEN_def)
  show "session_ok L pw u"
    unfolding session_ok_def
    by (intro exI [of _ "take 16 (drop 15 bs)"])
       (use k len i in \<open>simp add: u parse_vault_header_Inr(2) [OF parse] header_prefix_parts(8) [OF len]\<close>)
  show "vaultable C (ul_wallet u)" "w_network (ul_wallet u) = n"
    using imported_vaultable [OF i(1)] i(2) by (simp_all add: u)
qed

section \<open>Histories\<close>

text \<open>
  What may happen to a vault: \<open>vault_history C L J pw saved v\<close> says that \<open>v\<close> came about by
  operations that succeeded, that \<open>pw\<close> is its password, and that \<open>saved\<close> was its wallet at the
  last snapshot.  An edit is any change of the wallet that keeps its network, its keys, and the
  validity of its journal.
\<close>

definition fair_edit :: "('s wallet \<Rightarrow> 's wallet) \<Rightarrow> bool" where
  "fair_edit f \<longleftrightarrow> (\<forall>w. w_network (f w) = w_network w \<and> w_keys (f w) = w_keys w \<and> w_persist (f w) = w_persist w
     \<and> (journal_ok (wf_journal (w_db w)) \<longrightarrow> journal_ok (wf_journal (w_db (f w)))))"

inductive vault_history ::
  "('p, 's) crypto \<Rightarrow> vault_lib \<Rightarrow> wallet_json \<Rightarrow> string \<Rightarrow> 's wallet \<Rightarrow> 's vault \<Rightarrow> bool" for C L J where
  vh_create: "vault_create C L J salt nonce w0 pw = Inr v \<Longrightarrow> draw_ok 16 salt \<Longrightarrow> draw_ok 24 nonce \<Longrightarrow>
    vault_wallet v = Inr w \<Longrightarrow> vault_history C L J pw w v"
| vh_edit: "vault_history C L J pw w v \<Longrightarrow> fair_edit f \<Longrightarrow> vault_edit f v = (v', Inr ()) \<Longrightarrow> vault_history C L J pw w v'"
| vh_snapshot: "vault_history C L J pw w v \<Longrightarrow> draw_ok 24 nonce \<Longrightarrow> vault_snapshot L J nonce v = (v', Inr bs) \<Longrightarrow>
    vault_history C L J pw (case va_unlocked v of None \<Rightarrow> w | Some u \<Rightarrow> ul_wallet u) v'"
| vh_lock: "vault_history C L J pw w v \<Longrightarrow> draw_ok 24 nonce \<Longrightarrow> vault_lock L J nonce v = (v', Inr ()) \<Longrightarrow>
    vault_history C L J pw (case va_unlocked v of None \<Rightarrow> w | Some u \<Rightarrow> ul_wallet u) v'"
| vh_forget: "vault_history C L J pw w v \<Longrightarrow> vault_history C L J pw w (forget_unlocked v)"
| vh_unlock: "vault_history C L J pw w v \<Longrightarrow> vault_unlock C L J pw n v = (v', Inr ()) \<Longrightarrow> vault_history C L J pw w v'"
| vh_password: "vault_history C L J pw w v \<Longrightarrow> draw_ok 16 salt \<Longrightarrow> draw_ok 24 nonce \<Longrightarrow>
    vault_change_password C L J salt nonce pw' v = (v', Inr ()) \<Longrightarrow> vault_wallet v' = Inr w' \<Longrightarrow> vault_history C L J pw' w' v'"
| vh_reopen: "vault_history C L J pw w v \<Longrightarrow> vault_from_bytes (va_sealed v) = Inr v' \<Longrightarrow> vault_history C L J pw w v'"

definition vault_inv ::
  "('p, 's) crypto \<Rightarrow> vault_lib \<Rightarrow> wallet_json \<Rightarrow> string \<Rightarrow> 's wallet \<Rightarrow> 's vault \<Rightarrow> bool" where
  "vault_inv C L J pw w v \<longleftrightarrow>
     (\<exists>u. open_sealed C L J (va_sealed v) pw (w_network w) = Inr u \<and> ul_wallet u = w)
     \<and> (case va_unlocked v of None \<Rightarrow> True
        | Some u \<Rightarrow> session_ok L pw u \<and> vaultable C (ul_wallet u) \<and> w_network (ul_wallet u) = w_network w)"

lemma new_session_ok:
  assumes "draw_ok 16 salt" and "new_prefix salt (w_network w) = Inr pre" and "derive_key L pw (prefix_salt pre) = Inr key"
  shows "session_ok L pw \<lparr>ul_key = key, ul_prefix = pre, ul_wallet = w\<rparr>"
proof -
  obtain s where s: "salt = Some s" and pre: "pre = header_prefix (w_network w) s"
    using assms(2) by (auto simp: new_prefix_def res_simps header_prefix_def)
  have "length s = 16" using assms(1) s by (simp add: draw_ok_def)
  then show ?thesis using assms(3) by (auto simp: session_ok_def pre header_prefix_parts)
qed

lemma session_edit: "session_ok L pw u \<Longrightarrow> w_network w = w_network (ul_wallet u) \<Longrightarrow> session_ok L pw (u\<lparr>ul_wallet := w\<rparr>)"
  by (simp add: session_ok_def)

lemma vaultable_edit: "fair_edit f \<Longrightarrow> vaultable C w \<Longrightarrow> vaultable C (f w) \<and> w_network (f w) = w_network w"
  by (simp add: fair_edit_def vaultable_def)

lemma snapshot_inv:
  assumes laws: "vault_lib_ok L" "json_ok J" "json_text_ok J"
    and v: "vault_inv C L J pw w v" and d: "draw_ok 24 nonce" and s: "vault_snapshot L J nonce v = (v', Inr bs)"
  shows "vault_inv C L J pw (case va_unlocked v of None \<Rightarrow> w | Some u \<Rightarrow> ul_wallet u) v'"
proof (cases "va_unlocked v")
  case (Some u)
  then have u: "session_ok L pw u" "vaultable C (ul_wallet u)" using v by (simp_all add: vault_inv_def)
  have "encrypt L J nonce u = Inr bs" "v' = v\<lparr>va_sealed := bs\<rparr>"
    using s Some by (auto simp: vault_snapshot_def split: sum.splits)
  then show ?thesis using encrypt_opens [OF laws u _ d] u Some by (simp add: vault_inv_def)
qed (use v s in \<open>simp add: vault_snapshot_def\<close>)

lemma history_inv:
  assumes laws: "vault_lib_ok L" "json_ok J" "json_text_ok J" and h: "vault_history C L J pw w v"
  shows "vault_inv C L J pw w v"
  using h
proof (induction rule: vault_history.induct)
  case (vh_create salt nonce w0 pw v w)
  obtain plain pre key sealed where i: "imported C J plain = Inr w" and p: "new_prefix salt (w_network w) = Inr pre"
    and k: "derive_key L pw (prefix_salt pre) = Inr key"
    and e: "encrypt L J nonce \<lparr>ul_key = key, ul_prefix = pre, ul_wallet = w\<rparr> = Inr sealed"
    and v: "v = \<lparr>va_sealed = sealed, va_unlocked = Some \<lparr>ul_key = key, ul_prefix = pre, ul_wallet = w\<rparr>\<rparr>"
    using vh_create by (auto simp: vault_create_def vault_wallet_def res_simps Let_def split: if_splits)
  note s = new_session_ok [OF vh_create(2) p k]
  show ?case
    using encrypt_opens [OF laws s _ e vh_create(3), of C] imported_vaultable [OF i] s by (simp add: vault_inv_def v)
next
  case (vh_edit pw w v f v')
  then obtain u where u: "va_unlocked v = Some u" and v': "v' = v\<lparr>va_unlocked := Some (u\<lparr>ul_wallet := f (ul_wallet u)\<rparr>)\<rparr>"
    by (auto simp: vault_edit_def split: option.splits)
  have s: "session_ok L pw u" "vaultable C (ul_wallet u)" "w_network (ul_wallet u) = w_network w"
    using vh_edit(4) u by (simp_all add: vault_inv_def)
  note f = vaultable_edit [OF vh_edit(2) s(2)]
  show ?case using vh_edit(4) f session_edit [OF s(1) f [THEN conjunct2]] s(3) by (simp add: vault_inv_def v')
next
  case (vh_snapshot pw w v nonce v' bs)
  show ?case by (rule snapshot_inv [OF laws vh_snapshot(4,2,3)])
next
  case (vh_lock pw w v nonce v')
  obtain v1 bs where "vault_snapshot L J nonce v = (v1, Inr bs)" "v' = forget_unlocked v1"
    using vh_lock(3) by (auto simp: vault_lock_def split: prod.splits sum.splits)
  then show ?case using snapshot_inv [OF laws vh_lock(4,2)] by (simp add: vault_inv_def forget_unlocked_def)
next
  case (vh_forget pw w v)
  then show ?case by (simp add: vault_inv_def forget_unlocked_def)
next
  case (vh_unlock pw w v n v')
  obtain u where u: "open_sealed C L J (va_sealed v) pw n = Inr u" and v': "v' = v\<lparr>va_unlocked := Some u\<rparr>"
    using vh_unlock(2) by (auto simp: vault_unlock_def split: if_splits sum.splits)
  obtain u0 where u0: "open_sealed C L J (va_sealed v) pw (w_network w) = Inr u0" "ul_wallet u0 = w"
    using vh_unlock(3) by (auto simp: vault_inv_def)
  have "n = w_network w"
    using u u0(1) by (auto simp: open_sealed_def res_simps split: if_splits)
  then show ?case using u u0 opened_session [OF u] by (simp add: vault_inv_def v')
next
  case (vh_password pw w v salt nonce pw' v' w')
  obtain cur plain pre key bs where i: "imported C J plain = Inr w'" and p: "new_prefix salt (w_network w') = Inr pre"
    and k: "derive_key L pw' (prefix_salt pre) = Inr key"
    and e: "encrypt L J nonce \<lparr>ul_key = key, ul_prefix = pre, ul_wallet = w'\<rparr> = Inr bs"
    and v: "v' = \<lparr>va_sealed = bs, va_unlocked = Some \<lparr>ul_key = key, ul_prefix = pre, ul_wallet = w'\<rparr>\<rparr>"
    using vh_password(4,5)
    by (auto simp: vault_change_password_def replacement_session_def vault_wallet_def res_simps split: if_splits sum.splits)
  note s = new_session_ok [OF vh_password(2) p k]
  show ?case
    using encrypt_opens [OF laws s _ e vh_password(3), of C] imported_vaultable [OF i] s by (simp add: vault_inv_def v)
next
  case (vh_reopen pw w v v')
  then show ?case by (auto simp: vault_from_bytes_def res_simps vault_inv_def)
qed

text \<open>The sealed bytes of a vault are the wallet of the last snapshot, for who has the password.\<close>

lemma sealed_opens:
  assumes "vault_lib_ok L" "json_ok J" "json_text_ok J" and "vault_history C L J pw w v"
  shows "\<exists>v0 v1. vault_from_bytes (va_sealed v) = Inr v0 \<and> vault_unlock C L J pw (w_network w) v0 = (v1, Inr ())
    \<and> vault_wallet v1 = Inr w"
proof -
  obtain u where u: "open_sealed C L J (va_sealed v) pw (w_network w) = Inr u" "ul_wallet u = w"
    using history_inv [OF assms] by (auto simp: vault_inv_def)
  then have "parse_vault_header (va_sealed v) = Inr (w_network w)"
    by (auto simp: open_sealed_def res_simps split: if_splits)
  then show ?thesis using u by (auto simp: vault_from_bytes_def vault_unlock_def vault_wallet_def ok_or_def)
qed

section \<open>Failures\<close>

lemma failures_change_nothing:
  "vault_unlock C L J pw n v = (v', Inl e) \<Longrightarrow> v' = v"
  "vault_snapshot L J nonce v = (v', Inl e) \<Longrightarrow> v' = v"
  "vault_lock L J nonce v = (v', Inl e) \<Longrightarrow> v' = v"
  "vault_change_password C L J salt nonce pw v = (v', Inl e) \<Longrightarrow> v' = v"
  "vault_adopt C0 cand v = (v', Inl e) \<Longrightarrow> v' = v"
  by (auto simp: vault_unlock_def vault_snapshot_def vault_lock_def vault_change_password_def vault_adopt_def
      split: option.splits sum.splits if_splits prod.splits)

end
