(* ===== verification/Vault_Store.thy ===== *)
theory Vault_Store
  imports Vault_Facts Prelude
begin

text \<open>
  \<open>crates/nightfall-wallet/src/vault_store.rs\<close>: a vault on disk.  The files are those the code
  names; what is not a plain file with one link is \<open>Odd\<close>.  Every call to the operating
  system asks the world whether it fails; a write that fails leaves a prefix of what was to be
  written.  The world keeps every state the files went through, so a crash of the process
  leaves any of them.  \<open>vw_held\<close> says whether a live process holds the lock of the wallet
  (\<open>storage/src/dirlock.rs\<close>).  Permissions and the canonical form of paths are not modelled.
\<close>

section \<open>Files\<close>

datatype vpath =
    VaultDir | LockFile | SnapshotFile | Pending string
  | SeedFile | DatabaseFile | DatabaseTmp | Marker string | Backup string

datatype fnode = Regular bytes | Folder | Odd

type_synonym vfiles = "vpath \<rightharpoonup> fnode"

record vworld =
  vw_files :: vfiles
  vw_past :: "vfiles list"
  vw_fails :: "nat \<Rightarrow> bool"
  vw_cut :: "nat \<Rightarrow> nat"
  vw_random :: "nat \<Rightarrow> bytes"
  vw_time :: nat
  vw_pid :: string
  vw_held :: bool

datatype vs_error =
    VaultErr vault_error | WalletErr wallet_error | Io | FileMissing | FileExists | NotRegular | FileTooLarge
  | UncertainCommit | RetirementIncomplete | SnapshotExists | LegacyFound | MarkerWithoutVault
  | OtherNetwork | NotInitialized | ChangedOnDisk | UnfinishedSave | BadLegacySeed | BadLegacyDatabase
  | SeedDiffers | DatabaseDiffers | VerificationFailed | NetworkEdited | IdentityEdited | EditRefused
  | NotAbsolute | MissingDirectory | InsideDataDirectory | MissingName | NoCommittedSnapshot
  | BackupDiffers | OtherWallet | SwapSecrets | BadWalletName | VaultDirNotReal | Busy | StateDiffers

type_synonym 'a vio = "(vworld, vs_error, 'a) sr"

text \<open>One call to the operating system.\<close>

definition vio_call :: "unit vio" where
  "vio_call w = (w\<lparr>vw_time := vw_time w + 1\<rparr>, if vw_fails w (vw_time w) then Inl Io else Inr ())"

definition vio_set :: "vfiles list \<Rightarrow> vfiles \<Rightarrow> unit vio" where
  "vio_set between fs w = (w\<lparr>vw_files := fs, vw_past := vw_past w @ vw_files w # between\<rparr>, Inr ())"

definition vio_metadata :: "vpath \<Rightarrow> fnode option vio" where
  "vio_metadata p = sr_bind vio_call (\<lambda>_. sr_get (\<lambda>w. vw_files w p))"

definition read_required :: "vpath \<Rightarrow> nat \<Rightarrow> bytes vio" where
  "read_required p most =
     sr_bind vio_call (\<lambda>_.
     sr_bind (sr_get (\<lambda>w. vw_files w p)) (\<lambda>n.
       (case n of
          None \<Rightarrow> sr_fail FileMissing
        | Some (Regular bs) \<Rightarrow> if most < length bs then sr_fail FileTooLarge else sr_return bs
        | _ \<Rightarrow> sr_fail NotRegular)))"

definition read_optional :: "vpath \<Rightarrow> nat \<Rightarrow> bytes option vio" where
  "read_optional p most =
     sr_bind (vio_metadata p) (\<lambda>m.
       if m = None then sr_return None
       else sr_bind (read_required p most) (\<lambda>bs. sr_return (Some bs)))"

definition create_private_new :: "vpath \<Rightarrow> unit vio" where
  "create_private_new p =
     sr_bind vio_call (\<lambda>_.
     sr_bind (sr_get vw_files) (\<lambda>fs.
       if fs p \<noteq> None then sr_fail FileExists else vio_set [] (fs(p \<mapsto> Regular []))))"

definition file_bytes :: "vfiles \<Rightarrow> vpath \<Rightarrow> bytes" where
  "file_bytes fs p = (case fs p of Some (Regular bs) \<Rightarrow> bs | _ \<Rightarrow> [])"

text \<open>\<open>file_write_all\<close> at the end of an open file.\<close>

definition file_write_all :: "vpath \<Rightarrow> bytes \<Rightarrow> unit vio" where
  "file_write_all p bs w =
     (let old = file_bytes (vw_files w) p;
          fails = vw_fails w (vw_time w);
          n = (if fails then min (vw_cut w (vw_time w)) (length bs) else length bs);
          at = (\<lambda>k. (vw_files w)(p \<mapsto> Regular (old @ take k bs)))
      in (w\<lparr>vw_files := at n, vw_past := vw_past w @ vw_files w # map at [0..<n], vw_time := vw_time w + 1\<rparr>,
          if fails then Inl Io else Inr ()))"

definition commit_rename :: "vpath \<Rightarrow> vpath \<Rightarrow> unit vio" where
  "commit_rename p q =
     sr_bind vio_call (\<lambda>_.
     sr_bind (sr_get vw_files) (\<lambda>fs.
       (case fs p of None \<Rightarrow> sr_fail FileMissing | Some n \<Rightarrow> vio_set [] (fs(p := None, q \<mapsto> n)))))"

definition remove_file :: "vpath \<Rightarrow> unit vio" where
  "remove_file p =
     sr_bind vio_call (\<lambda>_.
     sr_bind (sr_get vw_files) (\<lambda>fs.
       if fs p = None then sr_fail FileMissing else vio_set [] (fs(p := None))))"

definition create_private_dir :: "vpath \<Rightarrow> unit vio" where
  "create_private_dir p =
     sr_bind vio_call (\<lambda>_.
     sr_bind (sr_get vw_files) (\<lambda>fs.
       if fs p \<noteq> None then sr_fail FileExists else vio_set [] (fs(p \<mapsto> Folder))))"

definition ensure_regular :: "vpath \<Rightarrow> unit vio" where
  "ensure_regular p =
     sr_bind vio_call (\<lambda>_.
     sr_bind (sr_get (\<lambda>w. vw_files w p)) (\<lambda>n.
       (case n of None \<Rightarrow> sr_fail FileMissing | Some (Regular bs) \<Rightarrow> sr_return () | _ \<Rightarrow> sr_fail NotRegular)))"

text \<open>\<open>let _ = ...\<close>: whatever the call says, go on.\<close>

definition vio_ignore :: "unit vio \<Rightarrow> unit vio" where
  "vio_ignore m w = (fst (m w), Inr ())"

definition file_truncate :: "vpath \<Rightarrow> unit vio" where
  "file_truncate p =
     sr_bind vio_call (\<lambda>_. sr_bind (sr_get vw_files) (\<lambda>fs. vio_set [] (fs(p \<mapsto> Regular []))))"

section \<open>The lock of a directory\<close>

definition open_lock_file :: "vpath \<Rightarrow> unit vio" where
  "open_lock_file p =
     sr_bind vio_call (\<lambda>_.
     sr_bind (sr_get vw_files) (\<lambda>fs.
       (case fs p of
          None \<Rightarrow> vio_set [] (fs(p \<mapsto> Regular []))
        | Some (Regular bs) \<Rightarrow> sr_return ()
        | _ \<Rightarrow> sr_fail NotRegular)))"

definition try_lock :: "vworld \<Rightarrow> vworld \<times> bool" where
  "try_lock w = (w\<lparr>vw_held := True\<rparr>, \<not> vw_held w)"

definition dir_acquire :: "unit vio" where
  "dir_acquire =
     sr_bind vio_call (\<lambda>_.
     sr_bind (open_lock_file LockFile) (\<lambda>_.
     sr_bind (\<lambda>w. (fst (try_lock w), Inr (snd (try_lock w)))) (\<lambda>got.
     sr_bind (sr_require got Busy) (\<lambda>_.
     sr_bind (vio_ignore (file_truncate LockFile)) (\<lambda>_.
     sr_bind (sr_get vw_pid) (\<lambda>pid.
       vio_ignore (file_write_all LockFile (str_bytes (''pid '' @ pid) @ [10]))))))))"

text \<open>The lock goes with the process or with the value that holds it.\<close>

definition release_lock :: "vworld \<Rightarrow> vworld" where
  "release_lock w = w\<lparr>vw_held := False\<rparr>"

section \<open>Temporary files\<close>

text \<open>The name of a new temporary file; the destructor that removes it whatever happens.\<close>

definition random_name :: "string vio" where
  "random_name w =
     (w\<lparr>vw_time := vw_time w + 1\<rparr>,
      if vw_fails w (vw_time w) then Inl (VaultErr RandomUnavailable)
      else Inr (hex_encode (vw_random w (vw_time w))))"

definition or_cleanup :: "vpath \<Rightarrow> ('w \<Rightarrow> vworld) \<Rightarrow> ((vworld \<Rightarrow> vworld) \<Rightarrow> 'w \<Rightarrow> 'w) \<Rightarrow> ('w, vs_error, 'a) sr \<Rightarrow> ('w, vs_error, 'a) sr" where
  "or_cleanup p get put m s =
     (case m s of (s', r) \<Rightarrow> (put (\<lambda>w. fst (remove_file p w)) s', r))"

section \<open>The store\<close>

record 's vault_store =
  vs_network :: network_id
  vs_session :: "'s vault option"
  vs_disk :: "bytes option"
  vs_unusable :: bool
  vs_world :: vworld

type_synonym ('s, 'a) vs = "('s vault_store, vs_error, 'a) sr"

definition on_world :: "'a vio \<Rightarrow> ('s, 'a) vs" where
  "on_world m s = (case m (vs_world s) of (w, r) \<Rightarrow> (s\<lparr>vs_world := w\<rparr>, r))"

definition vs_set :: "('s vault_store \<Rightarrow> 's vault_store) \<Rightarrow> ('s, unit) vs" where
  "vs_set f s = (f s, Inr ())"

definition vs_vault :: "vault_error + 'a \<Rightarrow> ('s, 'a) vs" where
  "vs_vault r = sr_lift (map_err VaultErr r)"

definition LEGACY_TOMBSTONE :: bytes where
  "LEGACY_TOMBSTONE = str_bytes ''NIGHTFALL ENCRYPTED VAULT v1'' @ [10]
     @ str_bytes ''This file is not a seed. Use a vault-compatible wallet. Do not delete this marker or the adjacent .vault directory.'' @ [10]"

definition has_snapshot :: "'s vault_store \<Rightarrow> bool" where
  "has_snapshot s \<longleftrightarrow> vs_disk s \<noteq> None"

definition requires_reopen :: "'s vault_store \<Rightarrow> bool" where
  "requires_reopen s \<longleftrightarrow> vs_unusable s"

definition store_is_locked :: "'s vault_store \<Rightarrow> bool" where
  "store_is_locked s \<longleftrightarrow> vs_unusable s \<or> (case vs_session s of None \<Rightarrow> True | Some v \<Rightarrow> vault_is_locked v)"

definition healthy :: "('s, unit) vs" where
  "healthy = sr_bind (sr_get vs_unusable) (\<lambda>u. sr_require (\<not> u) UncertainCommit)"

definition needs_legacy_retirement :: "('s, bool) vs" where
  "needs_legacy_retirement =
     sr_bind (on_world (vio_metadata DatabaseFile)) (\<lambda>d.
     if d \<noteq> None then sr_return True
     else
       sr_bind (on_world (vio_metadata DatabaseTmp)) (\<lambda>t.
       if t \<noteq> None then sr_return True
       else
         sr_bind (on_world (read_optional SeedFile 1024)) (\<lambda>sd.
           (case sd of
              Some bs \<Rightarrow> sr_return (bs \<noteq> LEGACY_TOMBSTONE)
            | None \<Rightarrow> sr_get has_snapshot))))"

definition ready :: "('s, unit) vs" where
  "ready = sr_bind healthy (\<lambda>_. sr_bind needs_legacy_retirement (\<lambda>n. sr_require (\<not> n) RetirementIncomplete))"

definition check_disk :: "('s, unit) vs" where
  "check_disk =
     sr_bind (on_world (read_optional SnapshotFile MAX_VAULT_BYTES)) (\<lambda>cur.
     sr_bind (sr_get vs_disk) (\<lambda>d. sr_require (cur = d) ChangedOnDisk))"

text \<open>Writing the snapshot: everything before the rename can be taken back, nothing after it.\<close>

definition commit_pending :: "vpath \<Rightarrow> bytes \<Rightarrow> ('s, unit) vs" where
  "commit_pending p bs =
     sr_bind (on_world (file_write_all p (take (length bs div 2) bs))) (\<lambda>_.
     sr_bind (on_world (file_write_all p (drop (length bs div 2) bs))) (\<lambda>_.
     sr_bind (on_world vio_call) (\<lambda>_.
     sr_bind check_disk (\<lambda>_.
     sr_bind (on_world (commit_rename p SnapshotFile)) (\<lambda>_.
     sr_bind (vs_set (\<lambda>s. s\<lparr>vs_unusable := True\<rparr>)) (\<lambda>_.
     sr_bind (on_world vio_call) (\<lambda>_.
       vs_set (\<lambda>s. s\<lparr>vs_disk := Some bs, vs_unusable := False\<rparr>))))))))"

definition persist :: "bytes \<Rightarrow> ('s, unit) vs" where
  "persist bs =
     sr_bind healthy (\<lambda>_.
     sr_bind (vs_vault (vault_from_bytes bs :: vault_error + 's vault)) (\<lambda>_.
     sr_bind check_disk (\<lambda>_.
     sr_bind (on_world random_name) (\<lambda>r.
     sr_bind (on_world (create_private_new (Pending r))) (\<lambda>_.
       or_cleanup (Pending r) vs_world vs_world_update (commit_pending (Pending r) bs))))))"

definition write_tombstone :: "('s, unit) vs" where
  "write_tombstone =
     sr_bind (on_world random_name) (\<lambda>r.
     sr_bind (on_world (create_private_new (Marker r))) (\<lambda>_.
       or_cleanup (Marker r) vs_world vs_world_update
         (sr_bind (on_world (file_write_all (Marker r) LEGACY_TOMBSTONE)) (\<lambda>_.
          sr_bind (on_world vio_call) (\<lambda>_.
          sr_bind (on_world (commit_rename (Marker r) SeedFile)) (\<lambda>_.
            on_world vio_call))))))"

section \<open>Sessions\<close>

definition current_session :: "('s, 's vault) vs" where
  "current_session = sr_bind (sr_get vs_session) (\<lambda>v. sr_lift (ok_or NotInitialized v))"

definition set_session :: "'s vault \<Rightarrow> ('s, unit) vs" where
  "set_session v = vs_set (\<lambda>s. s\<lparr>vs_session := Some v\<rparr>)"

definition store_unlock ::
  "('p, 's) crypto \<Rightarrow> vault_lib \<Rightarrow> wallet_json \<Rightarrow> string \<Rightarrow> ('s, unit) vs" where
  "store_unlock C L J password =
     sr_bind ready (\<lambda>_.
     sr_bind check_disk (\<lambda>_.
     sr_bind current_session (\<lambda>v.
     sr_bind (sr_get vs_network) (\<lambda>n.
       (case vault_unlock C L J password n v of
          (v', Inl e) \<Rightarrow> sr_bind (set_session v') (\<lambda>_. sr_fail (VaultErr e))
        | (v', Inr _) \<Rightarrow> set_session v')))))"

definition store_lock :: "'s vault_store \<Rightarrow> 's vault_store" where
  "store_lock s = s\<lparr>vs_session := map_option forget_unlocked (vs_session s)\<rparr>"

definition store_wallet :: "('s, 's wallet) vs" where
  "store_wallet =
     sr_bind ready (\<lambda>_. sr_bind current_session (\<lambda>v. vs_vault (vault_wallet v)))"

text \<open>An edit of the wallet, published after its ciphertext is on disk.\<close>

definition edit_candidate ::
  "('p, 's::comm_ring_1) crypto \<Rightarrow> network_id \<Rightarrow> 's wallet \<Rightarrow> ('s wallet \<Rightarrow> vs_error + 's wallet \<times> 'a)
     \<Rightarrow> 's wallet \<Rightarrow> vs_error + 's wallet \<times> 'a" where
  "edit_candidate C n current edit w =
     res_bind (edit w) (\<lambda>(w', x).
     res_bind (ensure NetworkEdited (w_network w' = n)) (\<lambda>_.
     res_bind (ensure IdentityEdited
       (seed (w_keys w') = seed (w_keys current)
        \<and> keys_address C (w_keys w') = keys_address C (w_keys current))) (\<lambda>_. Inr (w', x))))"

definition store_update ::
  "('p, 's::comm_ring_1) crypto \<Rightarrow> vault_lib \<Rightarrow> wallet_json \<Rightarrow> bytes option
     \<Rightarrow> ('s wallet \<Rightarrow> vs_error + 's wallet \<times> 'a) \<Rightarrow> ('s, 'a) vs" where
  "store_update C L J nonce edit =
     sr_bind ready (\<lambda>_.
     sr_bind current_session (\<lambda>v.
     sr_bind (vs_vault (copy_session C J v)) (\<lambda>cand.
     sr_bind (vs_vault (vault_wallet cand)) (\<lambda>w.
     sr_bind (vs_vault (vault_wallet v)) (\<lambda>cur.
     sr_bind (sr_get vs_network) (\<lambda>n.
     sr_bind (sr_lift (edit_candidate C n cur edit w)) (\<lambda>(w', x).
     (case vault_snapshot L J nonce (fst (vault_edit (\<lambda>_. w') cand)) of
        (_, Inl e) \<Rightarrow> sr_fail (VaultErr e)
      | (cand', Inr bs) \<Rightarrow>
          sr_bind (persist bs) (\<lambda>_. sr_bind (set_session cand') (\<lambda>_. sr_return x))))))))))"

definition store_change_password ::
  "('p, 's) crypto \<Rightarrow> vault_lib \<Rightarrow> wallet_json \<Rightarrow> bytes option \<Rightarrow> bytes option \<Rightarrow> string \<Rightarrow> ('s, unit) vs" where
  "store_change_password C L J salt nonce password =
     sr_bind ready (\<lambda>_.
     sr_bind current_session (\<lambda>v.
     sr_bind (vs_vault (copy_session C J v)) (\<lambda>cand.
     (case vault_change_password C L J salt nonce password cand of
        (_, Inl e) \<Rightarrow> sr_fail (VaultErr e)
      | (cand', Inr _) \<Rightarrow>
          sr_bind (persist (va_sealed cand')) (\<lambda>_. set_session cand')))))"

section \<open>Opening\<close>

definition seed_name_ok :: "string \<Rightarrow> bool" where
  "seed_name_ok name \<longleftrightarrow> name \<noteq> [] \<and> length name \<le> 80 \<and> name \<noteq> ''.'' \<and> name \<noteq> ''..''
     \<and> list_all (\<lambda>c. is_ascii_alphanumeric c \<or> c \<in> set ''._-'') name"

definition real_folder :: "fnode option \<Rightarrow> bool" where
  "real_folder m \<longleftrightarrow> m = Some Folder"

definition prepare_directory :: "string \<Rightarrow> unit vio" where
  "prepare_directory name =
     sr_bind (sr_require (seed_name_ok name) BadWalletName) (\<lambda>_.
     sr_bind vio_call (\<lambda>_.
     sr_bind (vio_metadata VaultDir) (\<lambda>m.
     sr_bind (if m \<noteq> None then sr_require (real_folder m) VaultDirNotReal else create_private_dir VaultDir) (\<lambda>_.
     sr_bind vio_call (\<lambda>_.
     sr_bind (vio_metadata LockFile) (\<lambda>l.
     sr_bind (if l \<noteq> None then ensure_regular LockFile else sr_return ()) (\<lambda>_. dir_acquire)))))))"

definition read_session :: "('s vault option \<times> bytes option) vio" where
  "read_session =
     sr_bind (read_optional SnapshotFile MAX_VAULT_BYTES) (\<lambda>disk.
       sr_lift (map_err VaultErr
         (case disk of None \<Rightarrow> Inr (None, None) | Some bs \<Rightarrow> res_bind (vault_from_bytes bs) (\<lambda>v. Inr (Some v, disk)))))"

definition open_session :: "network_id \<Rightarrow> 's vault_store vio" where
  "open_session network w =
     (case read_session w of
        (w', Inl e) \<Rightarrow> (release_lock w', Inl e)
      | (w', Inr (session, disk)) \<Rightarrow>
          (w', Inr \<lparr>vs_network = network, vs_session = session, vs_disk = disk, vs_unusable = False, vs_world = w'\<rparr>))"

definition store_open :: "string \<Rightarrow> network_id \<Rightarrow> 's vault_store vio" where
  "store_open name network = sr_bind (prepare_directory name) (\<lambda>_. open_session network)"

section \<open>Creating and migrating\<close>

text \<open>serde on the plaintext database: the fields of \<open>Database\<close>, defaults filled in, and \<open>to_vec\<close>.\<close>

record legacy_database =
  ld_outputs :: "owned_output list"
  ld_scanned_to :: u64
  ld_history :: "history_entry list"
  ld_birth_height :: u64
  ld_reserved :: "string list"
  ld_scanned_tip :: string
  ld_invoices :: till
  ld_air_signed :: "(string, air_signature) omap"

record legacy_json =
  lj_database :: "bytes \<Rightarrow> legacy_database option"
  lj_file_bytes :: "wallet_file \<Rightarrow> bytes option"

definition parse_seed :: "('p, 's) crypto \<Rightarrow> bytes \<Rightarrow> vs_error + 's wallet_keys" where
  "parse_seed C bs =
     res_bind (ensure BadLegacySeed (utf8_valid bs)) (\<lambda>_.
     res_bind (ok_or BadLegacySeed (hex_commit (trim (text_of bs)))) (\<lambda>sd. Inr (keys_from_seed C sd)))"

definition parse_database :: "legacy_json \<Rightarrow> bytes \<Rightarrow> vs_error + wallet_file" where
  "parse_database D bs =
     res_bind (ok_or BadLegacyDatabase (lj_database D bs)) (\<lambda>db.
       Inr \<lparr>wf_outputs = ld_outputs db, wf_scanned_to = ld_scanned_to db, wf_history = ld_history db,
            wf_birth = ld_birth_height db, wf_reserved = ld_reserved db, wf_scanned_tip = ld_scanned_tip db,
            wf_invoices = ld_invoices db, wf_air_signed = ld_air_signed db, wf_journal = journal_default\<rparr>)"

definition same_wallet :: "wallet_json \<Rightarrow> 's wallet \<Rightarrow> 's wallet \<Rightarrow> vs_error + bool" where
  "same_wallet J a b =
     res_bind (map_err WalletErr (export_state J a)) (\<lambda>x.
     res_bind (map_err WalletErr (export_state J b)) (\<lambda>y. Inr (x = y)))"

definition same_database :: "legacy_json \<Rightarrow> wallet_file \<Rightarrow> wallet_file \<Rightarrow> vs_error + bool" where
  "same_database D a b =
     res_bind (ok_or (WalletErr BadState) (lj_file_bytes D a)) (\<lambda>x.
     res_bind (ok_or (WalletErr BadState) (lj_file_bytes D b)) (\<lambda>y. Inr (x = y)))"

definition read_legacy :: "('p, 's) crypto \<Rightarrow> legacy_json \<Rightarrow> ('s, 's wallet) vs" where
  "read_legacy C D =
     sr_bind (on_world (vio_metadata DatabaseTmp)) (\<lambda>t.
     sr_bind (sr_require (t = None) UnfinishedSave) (\<lambda>_.
     sr_bind (on_world (read_required SeedFile 1024)) (\<lambda>sd.
     sr_bind (sr_lift (parse_seed C sd)) (\<lambda>keys.
     sr_bind (sr_get vs_network) (\<lambda>n.
     sr_bind (on_world (read_optional DatabaseFile MAX_PLAINTEXT_BYTES)) (\<lambda>db.
       (case db of
          None \<Rightarrow> sr_return (in_memory n keys 0)
        | Some bs \<Rightarrow>
            sr_bind (sr_lift (parse_database D bs)) (\<lambda>f. sr_return ((in_memory n keys 0)\<lparr>w_db := f\<rparr>)))))))))"

text \<open>A vault read back from a file with the password it was written under.\<close>

definition reopen_file ::
  "('p, 's) crypto \<Rightarrow> vault_lib \<Rightarrow> wallet_json \<Rightarrow> string \<Rightarrow> bytes \<Rightarrow> ('s, 's vault \<times> 's wallet) vs" where
  "reopen_file C L J password bs =
     sr_bind (vs_vault (vault_from_bytes bs)) (\<lambda>v.
     sr_bind (sr_get vs_network) (\<lambda>n.
     (case vault_unlock C L J password n v of
        (_, Inl e) \<Rightarrow> sr_fail (VaultErr e)
      | (v', Inr _) \<Rightarrow> sr_bind (vs_vault (vault_wallet v')) (\<lambda>w. sr_return (v', w)))))"

definition store_install ::
  "('p, 's) crypto \<Rightarrow> vault_lib \<Rightarrow> wallet_json \<Rightarrow> bytes option \<Rightarrow> bytes option \<Rightarrow> 's wallet \<Rightarrow> string \<Rightarrow> ('s, unit) vs" where
  "store_install C L J salt nonce w password =
     sr_bind (vs_vault (vault_create C L J salt nonce w password)) (\<lambda>cand.
     sr_bind (persist (va_sealed cand)) (\<lambda>_.
     sr_bind (on_world (read_required SnapshotFile MAX_VAULT_BYTES)) (\<lambda>bs.
     sr_bind (reopen_file C L J password bs) (\<lambda>(v, w').
     sr_bind (sr_lift (same_wallet J w w')) (\<lambda>same.
     sr_bind (sr_require same VerificationFailed) (\<lambda>_.
       set_session (forget_unlocked v)))))))"

definition store_initialize ::
  "('p, 's) crypto \<Rightarrow> vault_lib \<Rightarrow> wallet_json \<Rightarrow> bytes option \<Rightarrow> bytes option \<Rightarrow> 's wallet \<Rightarrow> string \<Rightarrow> ('s, unit) vs" where
  "store_initialize C L J salt nonce w password =
     sr_bind healthy (\<lambda>_.
     sr_bind (sr_get has_snapshot) (\<lambda>h.
     sr_bind (sr_require (\<not> h) SnapshotExists) (\<lambda>_.
     sr_bind needs_legacy_retirement (\<lambda>n.
     sr_bind (sr_require (\<not> n) LegacyFound) (\<lambda>_.
     sr_bind (on_world (vio_metadata SeedFile)) (\<lambda>m.
     sr_bind (sr_require (m = None) MarkerWithoutVault) (\<lambda>_.
     sr_bind (sr_get vs_network) (\<lambda>k.
     sr_bind (sr_require (w_network w = k) OtherNetwork) (\<lambda>_.
     sr_bind (store_install C L J salt nonce w password) (\<lambda>_.
     sr_bind (vs_set (\<lambda>s. s\<lparr>vs_unusable := True\<rparr>)) (\<lambda>_.
     sr_bind write_tombstone (\<lambda>_.
       vs_set (\<lambda>s. s\<lparr>vs_unusable := False\<rparr>)))))))))))))"

definition migrate_legacy ::
  "('p, 's) crypto \<Rightarrow> vault_lib \<Rightarrow> wallet_json \<Rightarrow> legacy_json \<Rightarrow> bytes option \<Rightarrow> bytes option \<Rightarrow> string \<Rightarrow> ('s, unit) vs" where
  "migrate_legacy C L J D salt nonce password =
     sr_bind healthy (\<lambda>_.
     sr_bind (sr_get has_snapshot) (\<lambda>h.
     sr_bind (sr_require (\<not> h) SnapshotExists) (\<lambda>_.
     sr_bind (read_legacy C D) (\<lambda>w.
       store_install C L J salt nonce w password))))"

section \<open>Retiring the plaintext\<close>

definition seed_matches :: "('p, 's) crypto \<Rightarrow> bytes option \<Rightarrow> 's wallet \<Rightarrow> vs_error + unit" where
  "seed_matches C sd w =
     (case sd of
        None \<Rightarrow> Inr ()
      | Some bs \<Rightarrow>
          if bs = LEGACY_TOMBSTONE then Inr ()
          else res_bind (parse_seed C bs) (\<lambda>k. ensure SeedDiffers (seed k = seed (w_keys w))))"

definition database_matches :: "legacy_json \<Rightarrow> bytes option \<Rightarrow> 's wallet \<Rightarrow> vs_error + unit" where
  "database_matches D db w =
     (case db of
        None \<Rightarrow> Inr ()
      | Some bs \<Rightarrow>
          res_bind (parse_database D bs) (\<lambda>f.
          res_bind (same_database D f (w_db w)) (\<lambda>same. ensure DatabaseDiffers same)))"

definition retire_files :: "bytes option \<Rightarrow> bytes option \<Rightarrow> ('s, unit) vs" where
  "retire_files sd db =
     sr_bind (if db \<noteq> None then sr_bind (on_world (remove_file DatabaseFile)) (\<lambda>_. on_world vio_call)
              else sr_return ()) (\<lambda>_.
     sr_bind (if sd = Some LEGACY_TOMBSTONE then sr_return () else write_tombstone) (\<lambda>_.
       on_world vio_call))"

definition finish_legacy_retirement ::
  "('p, 's) crypto \<Rightarrow> vault_lib \<Rightarrow> wallet_json \<Rightarrow> legacy_json \<Rightarrow> string \<Rightarrow> ('s, unit) vs" where
  "finish_legacy_retirement C L J D password =
     sr_bind healthy (\<lambda>_.
     sr_bind check_disk (\<lambda>_.
     sr_bind (on_world (vio_metadata DatabaseTmp)) (\<lambda>t.
     sr_bind (sr_require (t = None) UnfinishedSave) (\<lambda>_.
     sr_bind (on_world (read_required SnapshotFile MAX_VAULT_BYTES)) (\<lambda>bs.
     sr_bind (reopen_file C L J password bs) (\<lambda>(v, w).
     sr_bind (on_world (read_optional SeedFile 1024)) (\<lambda>sd.
     sr_bind (on_world (read_optional DatabaseFile MAX_PLAINTEXT_BYTES)) (\<lambda>db.
     sr_bind (sr_lift (seed_matches C sd w)) (\<lambda>_.
     sr_bind (sr_lift (database_matches D db w)) (\<lambda>_.
     sr_bind (vs_set (\<lambda>s. s\<lparr>vs_unusable := True\<rparr>)) (\<lambda>_.
     sr_bind (retire_files sd db) (\<lambda>_.
       vs_set (\<lambda>s. s\<lparr>vs_session := Some (forget_unlocked v), vs_unusable := False\<rparr>)))))))))))))"

section \<open>Backups\<close>

text \<open>What the code asks of the name of a backup.\<close>

record backup_target =
  bk_absolute :: bool
  bk_has_parent :: bool
  bk_inside :: bool
  bk_name :: "string option"

definition check_backup ::
  "('p, 's) crypto \<Rightarrow> vault_lib \<Rightarrow> wallet_json \<Rightarrow> string \<Rightarrow> 's wallet \<Rightarrow> bytes \<Rightarrow> vpath \<Rightarrow> ('s, unit) vs" where
  "check_backup C L J password current bs p =
     sr_bind (on_world (file_write_all p (take (length bs div 2) bs))) (\<lambda>_.
     sr_bind (on_world (file_write_all p (drop (length bs div 2) bs))) (\<lambda>_.
     sr_bind (on_world vio_call) (\<lambda>_.
     sr_bind (on_world vio_call) (\<lambda>_.
     sr_bind (on_world (read_required p MAX_VAULT_BYTES)) (\<lambda>saved.
     sr_bind (sr_require (saved = bs) BackupDiffers) (\<lambda>_.
     sr_bind (reopen_file C L J password saved) (\<lambda>(_, w).
     sr_bind (sr_lift (same_wallet J current w)) (\<lambda>same.
     sr_bind (sr_require same VerificationFailed) (\<lambda>_. check_disk)))))))))"

definition export_backup ::
  "('p, 's) crypto \<Rightarrow> vault_lib \<Rightarrow> wallet_json \<Rightarrow> backup_target \<Rightarrow> string \<Rightarrow> ('s, unit) vs" where
  "export_backup C L J target password =
     sr_bind ready (\<lambda>_.
     sr_bind store_wallet (\<lambda>current.
     sr_bind check_disk (\<lambda>_.
     sr_bind (sr_require (bk_absolute target) NotAbsolute) (\<lambda>_.
     sr_bind (sr_require (bk_has_parent target) MissingDirectory) (\<lambda>_.
     sr_bind (on_world vio_call) (\<lambda>_.
     sr_bind (sr_require (\<not> bk_inside target) InsideDataDirectory) (\<lambda>_.
     sr_bind (sr_lift (ok_or MissingName (bk_name target))) (\<lambda>name.
     sr_bind (sr_get vs_disk) (\<lambda>d.
     sr_bind (sr_lift (ok_or NoCommittedSnapshot d)) (\<lambda>bs.
     sr_bind (reopen_file C L J password bs) (\<lambda>(_, w).
     sr_bind (sr_lift (same_wallet J current w)) (\<lambda>same.
     sr_bind (sr_require same VerificationFailed) (\<lambda>_.
     sr_bind (on_world (create_private_new (Backup name))) (\<lambda>_.
       check_backup C L J password current bs (Backup name)))))))))))))))"

definition verify_backup ::
  "('p, 's::comm_ring_1) crypto \<Rightarrow> vault_lib \<Rightarrow> wallet_json \<Rightarrow> bool \<Rightarrow> vpath \<Rightarrow> string \<Rightarrow> ('s, bool) vs" where
  "verify_backup C L J absolute source password =
     sr_bind ready (\<lambda>_.
     sr_bind store_wallet (\<lambda>current.
     sr_bind check_disk (\<lambda>_.
     sr_bind (sr_require absolute NotAbsolute) (\<lambda>_.
     sr_bind (on_world (read_required source MAX_VAULT_BYTES)) (\<lambda>bs.
     sr_bind (reopen_file C L J password bs) (\<lambda>(_, w).
     sr_bind (sr_require (keys_address C (w_keys w) = keys_address C (w_keys current)) OtherWallet) (\<lambda>_.
     sr_bind (sr_lift (same_wallet J current w)) (\<lambda>same.
     sr_bind check_disk (\<lambda>_. sr_return same)))))))))"

section \<open>Recovering from a backup\<close>

record 's recovered_keys =
  rk_wallet :: "'s wallet"
  rk_scanned_to :: u64
  rk_history_entries :: nat
  rk_pending_sends :: nat
  rk_reservations :: nat

record 's recovered_state =
  rs_wallet :: "'s wallet"
  rs_quarantined_sends :: nat
  rs_scanned_to :: u64
  rs_history_entries :: nat
  rs_reservations :: nat

definition read_backup ::
  "('p, 's) crypto \<Rightarrow> vault_lib \<Rightarrow> wallet_json \<Rightarrow> bool \<Rightarrow> vpath \<Rightarrow> string \<Rightarrow> network_id \<Rightarrow> 's wallet vio" where
  "read_backup C L J absolute source password network =
     sr_bind (sr_require absolute NotAbsolute) (\<lambda>_.
     sr_bind (read_required source MAX_VAULT_BYTES) (\<lambda>bs.
     sr_bind (sr_lift (map_err VaultErr (vault_from_bytes bs))) (\<lambda>v.
     (case vault_unlock C L J password network v of
        (_, Inl e) \<Rightarrow> sr_fail (VaultErr e)
      | (v', Inr _) \<Rightarrow>
          sr_bind (sr_lift (map_err VaultErr (vault_wallet v'))) (\<lambda>w.
          sr_bind (sr_require (\<not> has_swap_recovery (w_db w)) SwapSecrets) (\<lambda>_. sr_return w))))))"

definition recover_backup_keys ::
  "('p, 's) crypto \<Rightarrow> vault_lib \<Rightarrow> wallet_json \<Rightarrow> bool \<Rightarrow> vpath \<Rightarrow> string \<Rightarrow> network_id \<Rightarrow> 's recovered_keys vio" where
  "recover_backup_keys C L J absolute source password network =
     sr_bind (read_backup C L J absolute source password network) (\<lambda>w.
       sr_return
         \<lparr>rk_wallet = in_memory network (keys_from_seed C (seed (w_keys w))) 0,
          rk_scanned_to = wf_scanned_to (w_db w), rk_history_entries = length (wf_history (w_db w)),
          rk_pending_sends = length (unconfirmed_sends (w_db w)),
          rk_reservations = length (wf_reserved (w_db w))\<rparr>)"

definition recover_backup_state ::
  "('p, 's::comm_ring_1) crypto \<Rightarrow> vault_lib \<Rightarrow> wallet_json \<Rightarrow> bool \<Rightarrow> vpath \<Rightarrow> string \<Rightarrow> network_id \<Rightarrow> 's recovered_state vio" where
  "recover_backup_state C L J absolute source password network =
     sr_bind (read_backup C L J absolute source password network) (\<lambda>orig.
     sr_bind (sr_lift (map_err WalletErr (export_state J orig))) (\<lambda>state.
     sr_bind (sr_lift (map_err WalletErr (import_state C J state))) (\<lambda>w.
     sr_bind (sr_require (w_network w = network) OtherNetwork) (\<lambda>_.
     sr_bind (sr_require (keys_address C (w_keys w) = keys_address C (w_keys orig)) StateDiffers) (\<lambda>_.
     (case quarantine_imported_sends (\<lambda>_. True) w of
        (_, Inl e) \<Rightarrow> sr_fail (WalletErr e)
      | (w', Inr n) \<Rightarrow>
          sr_return
            \<lparr>rs_wallet = w', rs_quarantined_sends = n, rs_scanned_to = wf_scanned_to (w_db w'),
             rs_history_entries = length (wf_history (w_db w')),
             rs_reservations = length (wf_reserved (w_db w'))\<rparr>))))))"

end
