(* ===== verification/Vault_Store_Facts.thy ===== *)
theory Vault_Store_Facts
  imports Vault_Store
begin


text \<open>
  Reasoning about the store of a vault: pre- and postconditions of computations that may fail,
  and what the files went through since a moment.
\<close>

section \<open>Triples\<close>

definition sr_triple ::
  "('s \<Rightarrow> bool) \<Rightarrow> ('s, 'e, 'a) sr \<Rightarrow> ('a \<Rightarrow> 's \<Rightarrow> bool) \<Rightarrow> ('e \<Rightarrow> 's \<Rightarrow> bool) \<Rightarrow> bool" where
  "sr_triple P m Q E \<longleftrightarrow> (\<forall>s. P s \<longrightarrow> (case m s of (s', Inl e) \<Rightarrow> E e s' | (s', Inr x) \<Rightarrow> Q x s'))"

lemma tripleI: "(\<And>s. P s \<Longrightarrow> case m s of (s', Inl e) \<Rightarrow> E e s' | (s', Inr x) \<Rightarrow> Q x s') \<Longrightarrow> sr_triple P m Q E"
  by (simp add: sr_triple_def)

lemma triple_ok: "sr_triple P m Q E \<Longrightarrow> P s \<Longrightarrow> m s = (s', Inr x) \<Longrightarrow> Q x s'"
  by (auto simp: sr_triple_def split: prod.splits sum.splits)

lemma triple_err: "sr_triple P m Q E \<Longrightarrow> P s \<Longrightarrow> m s = (s', Inl e) \<Longrightarrow> E e s'"
  by (auto simp: sr_triple_def split: prod.splits sum.splits)

lemma triple_bind:
  assumes "sr_triple P m R E" and "\<And>x. sr_triple (R x) (f x) Q E"
  shows "sr_triple P (sr_bind m f) Q E"
proof (rule tripleI)
  fix s
  assume P: "P s"
  obtain s1 r where m: "m s = (s1, r)" by (cases "m s")
  show "case sr_bind m f s of (s', Inl e) \<Rightarrow> E e s' | (s', Inr x) \<Rightarrow> Q x s'"
  proof (cases r)
    case (Inl e)
    then show ?thesis using triple_err [OF assms(1) P] m by (simp add: sr_bind_def)
  next
    case (Inr x)
    then have "R x s1" using triple_ok [OF assms(1) P] m by simp
    then show ?thesis using assms(2) [of x] m Inr by (simp add: sr_bind_def sr_triple_def)
  qed
qed

lemma triple_weaken:
  assumes "sr_triple P m Q E" and "\<And>s. P' s \<Longrightarrow> P s" and "\<And>x s. Q x s \<Longrightarrow> Q' x s" and "\<And>e s. E e s \<Longrightarrow> E' e s"
  shows "sr_triple P' m Q' E'"
  using assms by (fastforce simp: sr_triple_def split: prod.splits sum.splits)

lemma triple_return: "(\<And>s. P s \<Longrightarrow> Q x s) \<Longrightarrow> sr_triple P (sr_return x) Q E"
  by (simp add: sr_triple_def sr_return_def)

lemma triple_fail: "(\<And>s. P s \<Longrightarrow> E e s) \<Longrightarrow> sr_triple P (sr_fail e) Q E"
  by (simp add: sr_triple_def sr_fail_def)

lemma triple_get: "(\<And>x. sr_triple (\<lambda>s. P s \<and> x = g s) (f x) Q E) \<Longrightarrow> sr_triple P (sr_bind (sr_get g) f) Q E"
  by (simp add: sr_triple_def)

lemma triple_require:
  assumes "\<And>s. P s \<Longrightarrow> \<not> b \<Longrightarrow> E e s" and "b \<Longrightarrow> sr_triple P (f ()) Q E"
  shows "sr_triple P (sr_bind (sr_require b e) f) Q E"
  using assms by (cases b) (auto simp: sr_triple_def)

lemma triple_lift:
  assumes "\<And>s e. r = Inl e \<Longrightarrow> P s \<Longrightarrow> E e s" and "\<And>x. r = Inr x \<Longrightarrow> sr_triple P (f x) Q E"
  shows "sr_triple P (sr_bind (sr_lift r) f) Q E"
  using assms by (cases r) (auto simp: sr_triple_def)

section \<open>What the files went through\<close>

definition since :: "(vfiles \<Rightarrow> bool) \<Rightarrow> vworld \<Rightarrow> vworld \<Rightarrow> bool" where
  "since P w0 w \<longleftrightarrow> (\<exists>extra. vw_past w @ [vw_files w] = (vw_past w0 @ [vw_files w0]) @ extra \<and> list_all P extra)"

lemma since_refl [simp]: "since P w w"
  by (auto simp: since_def intro: exI [of _ "[]"])

lemma since_trans: "since P w0 w1 \<Longrightarrow> since P w1 w2 \<Longrightarrow> since P w0 w2"
  unfolding since_def by (elim exE conjE, rule exI, rule conjI, simp) (simp del: append_assoc)+

lemma since_mono: "since P w0 w \<Longrightarrow> (\<And>fs. P fs \<Longrightarrow> Q fs) \<Longrightarrow> since Q w0 w"
  unfolding since_def by (elim exE conjE, rule exI, rule conjI, assumption) (simp add: list_all_iff)

lemma since_more:
  assumes "since P w0 w1" and "vw_past w2 = vw_past w1 @ vw_files w1 # between"
    and "list_all P between" and "P (vw_files w2)"
  shows "since P w0 w2"
proof (rule since_trans [OF assms(1)])
  show "since P w1 w2"
    unfolding since_def using assms(2-4) by (intro exI [of _ "between @ [vw_files w2]"]) simp
qed

lemma since_same: "vw_past w1 = vw_past w \<Longrightarrow> vw_files w1 = vw_files w \<Longrightarrow> since P w0 w1 = since P w0 w"
  by (simp add: since_def)

section \<open>Calls that only look\<close>

definition looks :: "'a vio \<Rightarrow> bool" where
  "looks m \<longleftrightarrow> (\<forall>w. vw_files (fst (m w)) = vw_files w \<and> vw_past (fst (m w)) = vw_past w)"

lemma sr_bind_fst:
  "fst (sr_bind m f s) = (case snd (m s) of Inl e \<Rightarrow> fst (m s) | Inr x \<Rightarrow> fst (f x (fst (m s))))"
  by (simp add: sr_bind_def split: prod.split sum.split)

lemma looks_bind: "looks m \<Longrightarrow> (\<And>x. looks (f x)) \<Longrightarrow> looks (sr_bind m f)"
  unfolding looks_def sr_bind_fst by (simp split: sum.split)

lemma looks_basic [simp]:
  "looks (sr_return x)" "looks (sr_fail e)" "looks (sr_get g)" "looks (sr_require b e)" "looks (sr_lift q)"
  "looks vio_call" "looks random_name"
  by (auto simp: looks_def sr_return_def sr_fail_def sr_get_def sr_require_def sr_lift_def vio_call_def random_name_def
      split: sum.splits)

lemma looks_files [simp]:
  "looks (vio_metadata p)" "looks (read_required p n)" "looks (read_optional p n)"
proof -
  show r: "looks (read_required p n)"
    unfolding read_required_def by (intro looks_bind looks_basic) (simp split: option.split fnode.split)
  show m: "looks (vio_metadata p)" unfolding vio_metadata_def by (intro looks_bind looks_basic)
  show "looks (read_optional p n)"
    unfolding read_optional_def by (intro looks_bind m) (auto intro!: looks_bind r)
qed

text \<open>Nothing but the clock of the world changed.\<close>

definition unmoved :: "'s vault_store \<Rightarrow> 's vault_store \<Rightarrow> bool" where
  "unmoved s s' \<longleftrightarrow> vs_session s' = vs_session s \<and> vs_disk s' = vs_disk s \<and> vs_unusable s' = vs_unusable s
     \<and> vs_network s' = vs_network s \<and> vw_files (vs_world s') = vw_files (vs_world s)
     \<and> vw_past (vs_world s') = vw_past (vs_world s)"

lemma unmoved_refl [simp]: "unmoved s s"
  by (simp add: unmoved_def)

lemma unmoved_trans: "unmoved s0 s1 \<Longrightarrow> unmoved s1 s2 \<Longrightarrow> unmoved s0 s2"
  by (simp add: unmoved_def)

lemma unmoved_fields:
  assumes "unmoved s s'"
  shows "vs_session s' = vs_session s" "vs_disk s' = vs_disk s" "vs_unusable s' = vs_unusable s"
    "vs_network s' = vs_network s" "vw_files (vs_world s') = vw_files (vs_world s)"
    "since P w0 (vs_world s') = since P w0 (vs_world s)"
  using assms by (simp_all add: unmoved_def since_def)

text \<open>The steps of the store that only look, and where they stop.\<close>

definition peeks :: "('s, 'a) vs \<Rightarrow> bool" where
  "peeks m \<longleftrightarrow> (\<forall>s. unmoved s (fst (m s)))"

lemma peeksD: "peeks m \<Longrightarrow> m s = (s', r) \<Longrightarrow> unmoved s s'"
  by (metis peeks_def fst_conv)

lemma peeks_bind: "peeks m \<Longrightarrow> (\<And>x. peeks (f x)) \<Longrightarrow> peeks (sr_bind m f)"
  unfolding peeks_def sr_bind_fst by (auto split: sum.split intro: unmoved_trans)

lemma peeks_world [simp]: "looks m \<Longrightarrow> peeks (on_world m)"
  by (simp add: looks_def peeks_def on_world_def unmoved_def case_prod_unfold)

lemma peeks_basic [simp]:
  "peeks (sr_return x)" "peeks (sr_fail e)" "peeks (sr_get g)" "peeks (sr_require b e)" "peeks (sr_lift q)"
  "peeks (vs_vault v)"
  by (auto simp: peeks_def sr_return_def sr_fail_def sr_get_def sr_require_def sr_lift_def vs_vault_def split: sum.splits)

lemma peeks_guards [simp]:
  "peeks healthy" "peeks check_disk" "peeks needs_legacy_retirement" "peeks ready" "peeks current_session" "peeks store_wallet"
proof -
  show h: "peeks healthy" unfolding healthy_def by (intro peeks_bind peeks_basic)
  show "peeks check_disk" unfolding check_disk_def by (intro peeks_bind peeks_basic peeks_world looks_files)
  show n: "peeks needs_legacy_retirement"
    unfolding needs_legacy_retirement_def
    by (auto intro!: peeks_bind split: option.split)
  show r: "peeks ready" unfolding ready_def by (intro peeks_bind h n peeks_basic)
  show c: "peeks current_session" unfolding current_session_def by (intro peeks_bind peeks_basic)
  show "peeks store_wallet" unfolding store_wallet_def by (intro peeks_bind r c peeks_basic)
qed

lemma peeks_reopen [simp]: "peeks (reopen_file C L J pw bs)"
  unfolding reopen_file_def
  by (intro peeks_bind peeks_basic) (auto intro!: peeks_bind split: prod.split sum.split)

text \<open>What only looks can be put anywhere: every condition on the rest survives.\<close>

definition steady :: "('s vault_store \<Rightarrow> bool) \<Rightarrow> bool" where
  "steady P \<longleftrightarrow> (\<forall>s s'. unmoved s s' \<longrightarrow> P s \<longrightarrow> P s')"

lemma triple_peek: "peeks m \<Longrightarrow> steady P \<Longrightarrow> (\<And>e s. P s \<Longrightarrow> E e s) \<Longrightarrow> sr_triple P m (\<lambda>_. P) E"
  by (auto simp: sr_triple_def peeks_def steady_def split: prod.splits sum.splits) (metis fst_conv)+

lemma triple_peek_bind:
  assumes "peeks m" and "steady P" and "\<And>e s. P s \<Longrightarrow> E e s" and "\<And>x. sr_triple P (f x) Q E"
  shows "sr_triple P (sr_bind m f) Q E"
  by (rule triple_bind [OF triple_peek [OF assms(1-3)] assms(4)])

text \<open>
  What the store of a vault promises about its files, whatever fails: the snapshot is the old
  or the new one at every moment, an edit is on disk before its result is handed out, and no
  plaintext is retired before the snapshot is known to hold what it says.
\<close>

section \<open>Writing to files\<close>

lemma vio_set_eq: "vio_set between fs w = (w\<lparr>vw_files := fs, vw_past := vw_past w @ vw_files w # between\<rparr>, Inr ())"
  by (simp add: vio_set_def)

text \<open>What one primitive does to the world: the error cases leave the files alone.\<close>

lemma create_new_cases:
  assumes "create_private_new p w = (w', r)"
  shows "(r = Inr () \<and> vw_files w p = None \<and> vw_files w' = (vw_files w)(p \<mapsto> Regular [])
      \<and> vw_past w' = vw_past w @ [vw_files w])
    \<or> ((\<exists>e. r = Inl e) \<and> vw_files w' = vw_files w \<and> vw_past w' = vw_past w)"
  using assms
  by (auto simp: create_private_new_def sr_bind_def vio_call_def sr_get_def sr_fail_def vio_set_eq split: if_splits)

lemma rename_cases:
  assumes "commit_rename p q w = (w', r)"
  shows "(\<exists>n. r = Inr () \<and> vw_files w p = Some n \<and> vw_files w' = (vw_files w)(p := None, q \<mapsto> n)
      \<and> vw_past w' = vw_past w @ [vw_files w])
    \<or> ((\<exists>e. r = Inl e) \<and> vw_files w' = vw_files w \<and> vw_past w' = vw_past w)"
  using assms
  by (auto simp: commit_rename_def sr_bind_def vio_call_def sr_get_def sr_fail_def vio_set_eq
      split: if_splits option.splits)

lemma remove_cases:
  assumes "remove_file p w = (w', r)"
  shows "(r = Inr () \<and> vw_files w' = (vw_files w)(p := None) \<and> vw_past w' = vw_past w @ [vw_files w])
    \<or> ((\<exists>e. r = Inl e) \<and> vw_files w' = vw_files w \<and> vw_past w' = vw_past w)"
  using assms
  by (auto simp: remove_file_def sr_bind_def vio_call_def sr_get_def sr_fail_def vio_set_eq split: if_splits)

lemma write_cases:
  assumes "file_write_all p bs w = (w', r)"
  shows "\<exists>n between. vw_files w' = (vw_files w)(p \<mapsto> Regular (file_bytes (vw_files w) p @ take n bs))
      \<and> vw_past w' = vw_past w @ vw_files w # between
      \<and> list_all (\<lambda>fs. \<exists>c. fs = (vw_files w)(p \<mapsto> Regular c)) between
      \<and> (r = Inr () \<longrightarrow> take n bs = bs)"
proof -
  let ?n = "if vw_fails w (vw_time w) then min (vw_cut w (vw_time w)) (length bs) else length bs"
  show ?thesis
    using assms
    by (intro exI [of _ ?n] exI [of _ "map (\<lambda>k. (vw_files w)(p \<mapsto> Regular (file_bytes (vw_files w) p @ take k bs))) [0..<?n]"])
      (auto simp: file_write_all_def Let_def list_all_iff)
qed

section \<open>One file after another\<close>

text \<open>
  \<open>beside T P F fs\<close>: outside the temporary files \<open>T\<close> the files are those of \<open>F\<close>, but for
  the one \<open>p\<close>, which is what it was or what it is to be.
\<close>

definition beside :: "(vpath \<Rightarrow> bool) \<Rightarrow> vpath \<Rightarrow> bytes \<Rightarrow> vfiles \<Rightarrow> vfiles \<Rightarrow> bool" where
  "beside T p bs F fs \<longleftrightarrow> (\<forall>q. \<not> T q \<longrightarrow> fs q = F q \<or> (q = p \<and> fs q = Some (Regular bs)))"

lemma besideI: "(\<And>q. \<not> T q \<Longrightarrow> q \<noteq> p \<Longrightarrow> fs q = F q) \<Longrightarrow> \<not> T p \<Longrightarrow> fs p = F p \<or> fs p = Some (Regular bs) \<Longrightarrow> beside T p bs F fs"
  unfolding beside_def by metis

lemma beside_same: "(\<And>q. \<not> T q \<Longrightarrow> fs q = F q) \<Longrightarrow> beside T p bs F fs"
  by (simp add: beside_def)

lemma since_step:
  assumes "since P w0 w" and "vw_past w' = vw_past w @ [vw_files w]" and "P (vw_files w')"
  shows "since P w0 w'"
  using assms by (intro since_more [of P w0 w w' "[]"]) simp_all

text \<open>The state of the store but for its world.\<close>

definition same_store :: "'s vault_store \<Rightarrow> 's vault_store \<Rightarrow> bool" where
  "same_store s s' \<longleftrightarrow> vs_session s' = vs_session s \<and> vs_disk s' = vs_disk s \<and> vs_unusable s' = vs_unusable s
     \<and> vs_network s' = vs_network s"

lemma same_store_refl [simp]: "same_store s s"
  by (simp add: same_store_def)

lemma same_store_world [simp]: "same_store s (s'\<lparr>vs_world := w\<rparr>) = same_store s s'"
  by (simp add: same_store_def)

definition pending_path :: "vpath \<Rightarrow> bool" where
  "pending_path q \<longleftrightarrow> (\<exists>r. q = Pending r)"

definition marker_path :: "vpath \<Rightarrow> bool" where
  "marker_path q \<longleftrightarrow> (\<exists>r. q = Marker r)"

text \<open>
  While a temporary file \<open>t\<close> is being written: the files outside \<open>T\<close> are untouched.
\<close>

definition writing :: "(vpath \<Rightarrow> bool) \<Rightarrow> vpath \<Rightarrow> bytes \<Rightarrow> 's vault_store \<Rightarrow> vpath \<Rightarrow> bytes \<Rightarrow> 's vault_store \<Rightarrow> bool" where
  "writing T p bs s0 t c s \<longleftrightarrow>
     same_store s0 s \<and> since (beside T p bs (vw_files (vs_world s0))) (vs_world s0) (vs_world s)
     \<and> (\<forall>q. \<not> T q \<longrightarrow> vw_files (vs_world s) q = vw_files (vs_world s0) q)
     \<and> vw_files (vs_world s) t = Some (Regular c)"

definition untouched :: "(vpath \<Rightarrow> bool) \<Rightarrow> vpath \<Rightarrow> bytes \<Rightarrow> 's vault_store \<Rightarrow> 's vault_store \<Rightarrow> bool" where
  "untouched T p bs s0 s \<longleftrightarrow>
     same_store s0 s \<and> since (beside T p bs (vw_files (vs_world s0))) (vs_world s0) (vs_world s)
     \<and> (\<forall>q. \<not> T q \<longrightarrow> vw_files (vs_world s) q = vw_files (vs_world s0) q)"

lemma writing_untouched: "writing T p bs s0 t c s \<Longrightarrow> untouched T p bs s0 s"
  by (simp add: writing_def untouched_def)

lemma untouched_refl: "untouched T p bs s s"
  by (simp add: untouched_def)

lemma steady_writing [simp]: "steady (writing T p bs s0 t c)"
  by (auto simp: steady_def writing_def unmoved_fields same_store_def)

lemma steady_untouched [simp]: "steady (untouched T p bs s0)"
  by (auto simp: steady_def untouched_def unmoved_fields same_store_def)

lemma start_writing:
  fixes s0 :: "'s vault_store"
  assumes "T t"
  shows "sr_triple (untouched T p bs s0) (on_world (create_private_new t))
    (\<lambda>_. writing T p bs s0 t []) (\<lambda>_. untouched T p bs s0)"
proof (rule tripleI)
  fix s :: "'s vault_store"
  assume s: "untouched T p bs s0 s"
  obtain w' r where c: "create_private_new t (vs_world s) = (w', r)" by (cases "create_private_new t (vs_world s)")
  have ne: "q \<noteq> t" if "\<not> T q" for q using that assms by metis
  have files: "\<not> T q \<Longrightarrow> vw_files (vs_world s) q = vw_files (vs_world s0) q" for q
    using s by (simp add: untouched_def)
  show "case on_world (create_private_new t) s of
      (s', Inl e) \<Rightarrow> untouched T p bs s0 s' | (s', Inr x) \<Rightarrow> writing T p bs s0 t [] s'"
    using create_new_cases [OF c]
  proof (elim disjE conjE exE)
    assume r: "r = Inr ()" and f: "vw_files w' = (vw_files (vs_world s))(t \<mapsto> Regular [])"
      and past: "vw_past w' = vw_past (vs_world s) @ [vw_files (vs_world s)]"
    have same: "\<not> T q \<Longrightarrow> vw_files w' q = vw_files (vs_world s0) q" for q
      using ne [of q] files [of q] by (simp add: f)
    have "since (beside T p bs (vw_files (vs_world s0))) (vs_world s0) (vs_world s)" "same_store s0 s"
      using s by (simp_all add: untouched_def)
    note since_step [OF this(1) past beside_same [OF same]] this(2)
    then show ?thesis using same f by (simp add: on_world_def c r writing_def)
  next
    fix e
    assume "r = Inl e" "vw_files w' = vw_files (vs_world s)" "vw_past w' = vw_past (vs_world s)"
    then show ?thesis using s by (simp add: on_world_def c untouched_def since_def)
  qed
qed

lemma keep_writing:
  fixes s0 :: "'s vault_store"
  assumes "T t"
  shows "sr_triple (writing T p bs s0 t c) (on_world (file_write_all t d))
    (\<lambda>_. writing T p bs s0 t (c @ d)) (\<lambda>_. untouched T p bs s0)"
proof (rule tripleI)
  fix s :: "'s vault_store"
  assume s: "writing T p bs s0 t c s"
  obtain w' r where c: "file_write_all t d (vs_world s) = (w', r)" by (cases "file_write_all t d (vs_world s)")
  obtain n between where f: "vw_files w' = (vw_files (vs_world s))(t \<mapsto> Regular (file_bytes (vw_files (vs_world s)) t @ take n d))"
    and past: "vw_past w' = vw_past (vs_world s) @ vw_files (vs_world s) # between"
    and b: "list_all (\<lambda>fs. \<exists>c. fs = (vw_files (vs_world s))(t \<mapsto> Regular c)) between"
    and r: "r = Inr () \<longrightarrow> take n d = d"
    using write_cases [OF c] by blast
  have ne: "q \<noteq> t" if "\<not> T q" for q using that assms by metis
  have files: "\<not> T q \<Longrightarrow> vw_files (vs_world s) q = vw_files (vs_world s0) q" for q
    using s by (simp add: writing_def)
  have same: "\<not> T q \<Longrightarrow> ((vw_files (vs_world s))(t \<mapsto> n)) q = vw_files (vs_world s0) q" for n q
    using ne [of q] files [of q] by simp
  have mid: "list_all (beside T p bs (vw_files (vs_world s0))) between"
    using b unfolding list_all_iff by (metis beside_same same)
  have s1: "since (beside T p bs (vw_files (vs_world s0))) (vs_world s0) (vs_world s)" "same_store s0 s"
      "file_bytes (vw_files (vs_world s)) t = c"
    using s by (simp_all add: writing_def file_bytes_def)
  have f1: "\<not> T q \<Longrightarrow> vw_files w' q = vw_files (vs_world s0) q" for q
    unfolding f by (rule same)
  note since_more [OF s1(1) past mid beside_same [OF f1]]
  then show "case on_world (file_write_all t d) s of
      (s', Inl e) \<Rightarrow> untouched T p bs s0 s' | (s', Inr x) \<Rightarrow> writing T p bs s0 t (c @ d) s'"
    using s1(2,3) f f1 r by (cases r) (simp_all add: on_world_def c writing_def untouched_def)
qed

text \<open>After the rename: the file is the new one, nothing else outside \<open>T\<close> changed.\<close>

definition replaced :: "(vpath \<Rightarrow> bool) \<Rightarrow> vpath \<Rightarrow> bytes \<Rightarrow> 's vault_store \<Rightarrow> vworld \<Rightarrow> bool" where
  "replaced T p bs s0 w \<longleftrightarrow>
     since (beside T p bs (vw_files (vs_world s0))) (vs_world s0) w
     \<and> (\<forall>q. \<not> T q \<and> q \<noteq> p \<longrightarrow> vw_files w q = vw_files (vs_world s0) q)
     \<and> vw_files w p = Some (Regular bs)"

lemma rename_in:
  fixes s0 :: "'s vault_store"
  assumes "T t" and "\<not> T p"
  shows "sr_triple (writing T p bs s0 t bs) (on_world (commit_rename t p))
    (\<lambda>_ s. same_store s0 s \<and> replaced T p bs s0 (vs_world s)) (\<lambda>_. untouched T p bs s0)"
proof (rule tripleI)
  fix s :: "'s vault_store"
  assume s: "writing T p bs s0 t bs s"
  obtain w' r where c: "commit_rename t p (vs_world s) = (w', r)" by (cases "commit_rename t p (vs_world s)")
  have ne: "q \<noteq> t" if "\<not> T q" for q using that assms by metis
  have files: "\<not> T q \<Longrightarrow> vw_files (vs_world s) q = vw_files (vs_world s0) q" for q
    using s by (simp add: writing_def)
  show "case on_world (commit_rename t p) s of
      (s', Inl e) \<Rightarrow> untouched T p bs s0 s' | (s', Inr x) \<Rightarrow> same_store s0 s' \<and> replaced T p bs s0 (vs_world s')"
    using rename_cases [OF c]
  proof (elim disjE conjE exE)
    fix n
    assume r: "r = Inr ()" and n: "vw_files (vs_world s) t = Some n"
      and f: "vw_files w' = (vw_files (vs_world s))(t := None, p \<mapsto> n)"
      and past: "vw_past w' = vw_past (vs_world s) @ [vw_files (vs_world s)]"
    have n: "n = Regular bs" using s n by (simp add: writing_def)
    have same: "\<not> T q \<Longrightarrow> q \<noteq> p \<Longrightarrow> vw_files w' q = vw_files (vs_world s0) q" for q
      using ne [of q] files [of q] by (simp add: f)
    have new: "vw_files w' p = Some (Regular bs)" by (simp add: f n)
    have "since (beside T p bs (vw_files (vs_world s0))) (vs_world s0) (vs_world s)" "same_store s0 s"
      using s by (simp_all add: writing_def)
    moreover have "beside T p bs (vw_files (vs_world s0)) (vw_files w')"
      by (rule besideI) (use same assms(2) new in simp_all)
    ultimately have "since (beside T p bs (vw_files (vs_world s0))) (vs_world s0) w'" "same_store s0 s"
      using past by (auto intro: since_step)
    then show ?thesis using same new by (simp add: on_world_def c r replaced_def)
  next
    fix e
    assume "r = Inl e" "vw_files w' = vw_files (vs_world s)" "vw_past w' = vw_past (vs_world s)"
    then show ?thesis using s by (simp add: on_world_def c writing_def untouched_def since_def)
  qed
qed

text \<open>The destructor of the temporary file.\<close>

lemma cleanup_world:
  assumes "T t" and "\<not> T p"
  shows "since (beside T p bs (vw_files (vs_world s0))) (vs_world s0) w \<Longrightarrow>
      (\<forall>q. \<not> T q \<longrightarrow> vw_files w q = vw_files (vs_world s0) q \<or> (q = p \<and> vw_files w q = Some (Regular bs))) \<Longrightarrow>
      since (beside T p bs (vw_files (vs_world s0))) (vs_world s0) (fst (remove_file t w))
      \<and> (\<forall>q. \<not> T q \<longrightarrow> vw_files (fst (remove_file t w)) q = vw_files w q)"
proof -
  assume s: "since (beside T p bs (vw_files (vs_world s0))) (vs_world s0) w"
    and q: "\<forall>q. \<not> T q \<longrightarrow> vw_files w q = vw_files (vs_world s0) q \<or> (q = p \<and> vw_files w q = Some (Regular bs))"
  obtain w' r where c: "remove_file t w = (w', r)" by (cases "remove_file t w")
  have ne: "q \<noteq> t" if "\<not> T q" for q using that assms by metis
  show ?thesis
    using remove_cases [OF c]
  proof (elim disjE conjE)
    assume f: "vw_files w' = (vw_files w)(t := None)" and past: "vw_past w' = vw_past w @ [vw_files w]"
    have "beside T p bs (vw_files (vs_world s0)) (vw_files w')"
      unfolding beside_def f using q ne by auto
    then have "since (beside T p bs (vw_files (vs_world s0))) (vs_world s0) w'"
      using past by (intro since_more [OF s, of _ "[]"]) simp_all
    then show ?thesis using f ne by (simp add: c)
  next
    assume "vw_files w' = vw_files w" "vw_past w' = vw_past w"
    then show ?thesis using s by (simp add: c since_def)
  qed
qed

section \<open>Saving the snapshot\<close>

lemma check_disk_ok:
  assumes "check_disk s = (s', Inr ())"
  shows "vw_files (vs_world s) SnapshotFile = map_option Regular (vs_disk s)"
  using assms
  by (auto simp: check_disk_def on_world_def sr_bind_def read_optional_def read_required_def vio_metadata_def
      vio_call_def sr_get_def sr_fail_def sr_return_def sr_require_def
      split: if_splits option.splits fnode.splits sum.splits prod.splits dest: sym)

text \<open>How \<open>persist\<close> may end: not at all, fully, or with the store unusable.\<close>

definition saved :: "bytes \<Rightarrow> 's vault_store \<Rightarrow> 's vault_store \<Rightarrow> bool" where
  "saved bs s0 s \<longleftrightarrow> vs_session s = vs_session s0 \<and> vs_network s = vs_network s0 \<and> vs_disk s = Some bs
     \<and> \<not> vs_unusable s \<and> replaced pending_path SnapshotFile bs s0 (vs_world s)"

definition doubtful :: "bytes \<Rightarrow> 's vault_store \<Rightarrow> 's vault_store \<Rightarrow> bool" where
  "doubtful bs s0 s \<longleftrightarrow> vs_session s = vs_session s0 \<and> vs_network s = vs_network s0 \<and> vs_disk s = vs_disk s0
     \<and> vs_unusable s \<and> replaced pending_path SnapshotFile bs s0 (vs_world s)"

lemma steady_doubtful [simp]: "steady (doubtful bs s0)"
  by (auto simp: steady_def doubtful_def replaced_def unmoved_fields)

lemma pending_is [simp]: "pending_path (Pending r)" "\<not> pending_path SnapshotFile"
  by (auto simp: pending_path_def)

definition save_fails :: "bytes \<Rightarrow> 's vault_store \<Rightarrow> 's vault_store \<Rightarrow> bool" where
  "save_fails bs s0 s \<longleftrightarrow> untouched pending_path SnapshotFile bs s0 s \<or> doubtful bs s0 s"

lemma commit_triple:
  fixes s0 :: "'s vault_store"
  shows "sr_triple (writing pending_path SnapshotFile bs s0 (Pending r) []) (commit_pending (Pending r) bs)
    (\<lambda>_. saved bs s0) (\<lambda>_. save_fails bs s0)"
proof -
  let ?p = "Pending r"
  let ?T = pending_path
  let ?w = "writing ?T SnapshotFile bs s0 ?p"
  have u: "untouched ?T SnapshotFile bs s0 s \<Longrightarrow> save_fails bs s0 s" for s by (simp add: save_fails_def)
  have w: "?w c s \<Longrightarrow> save_fails bs s0 s" for c s by (simp add: u writing_untouched)
  have last: "sr_triple (doubtful bs s0)
      (sr_bind (on_world vio_call) (\<lambda>_. vs_set (\<lambda>s. s\<lparr>vs_disk := Some bs, vs_unusable := False\<rparr>)))
      (\<lambda>_. saved bs s0) (\<lambda>_. save_fails bs s0)"
    by (rule triple_peek_bind) (auto simp: save_fails_def sr_triple_def vs_set_def saved_def doubtful_def)
  have mark: "sr_triple (\<lambda>s. same_store s0 s \<and> replaced ?T SnapshotFile bs s0 (vs_world s))
      (vs_set (\<lambda>s. s\<lparr>vs_unusable := True\<rparr>)) (\<lambda>_. doubtful bs s0) (\<lambda>_. save_fails bs s0)"
    by (simp add: sr_triple_def vs_set_def doubtful_def same_store_def)
  have wr: "sr_triple (?w c) (on_world (file_write_all ?p d)) (\<lambda>_. ?w (c @ d)) (\<lambda>_. save_fails bs s0)" for c d
    by (rule triple_weaken [OF keep_writing]) (auto simp: u)
  have ren: "sr_triple (?w bs) (on_world (commit_rename ?p SnapshotFile))
      (\<lambda>_ s. same_store s0 s \<and> replaced ?T SnapshotFile bs s0 (vs_world s)) (\<lambda>_. save_fails bs s0)"
    by (rule triple_weaken [OF rename_in]) (auto simp: u)
  have whole: "[] @ take (length bs div 2) bs @ drop (length bs div 2) bs = bs" by simp
  show ?thesis
    unfolding commit_pending_def
  proof (rule triple_bind [OF wr], rule triple_bind [OF wr])
    show "sr_triple (?w (([] @ take (length bs div 2) bs) @ drop (length bs div 2) bs))
        (sr_bind (on_world vio_call) (\<lambda>_. sr_bind check_disk (\<lambda>_.
          sr_bind (on_world (commit_rename ?p SnapshotFile)) (\<lambda>_.
          sr_bind (vs_set (\<lambda>s. s\<lparr>vs_unusable := True\<rparr>)) (\<lambda>_.
          sr_bind (on_world vio_call) (\<lambda>_.
            vs_set (\<lambda>s. s\<lparr>vs_disk := Some bs, vs_unusable := False\<rparr>)))))))
        (\<lambda>_. saved bs s0) (\<lambda>_. save_fails bs s0)"
      unfolding append.assoc whole
      by (intro triple_peek_bind triple_bind [OF ren] triple_bind [OF mark] last)
        (auto dest: w)
  qed
qed

text \<open>The temporary file goes away whatever happened; nothing else is touched.\<close>

definition swept :: "string \<Rightarrow> 's vault_store \<Rightarrow> 's vault_store" where
  "swept r s = vs_world_update (\<lambda>w. fst (remove_file (Pending r) w)) s"

lemma swept_fields [simp]:
  "vs_session (swept r s) = vs_session s" "vs_disk (swept r s) = vs_disk s" "vs_unusable (swept r s) = vs_unusable s"
  "vs_network (swept r s) = vs_network s" "vs_world (swept r s) = fst (remove_file (Pending r) (vs_world s))"
  by (simp_all add: swept_def)

lemma sweep_replaced:
  assumes "replaced pending_path SnapshotFile bs s0 w"
  shows "replaced pending_path SnapshotFile bs s0 (fst (remove_file (Pending r) w))"
proof -
  have "\<forall>q. \<not> pending_path q \<longrightarrow> vw_files w q = vw_files (vs_world s0) q \<or> (q = SnapshotFile \<and> vw_files w q = Some (Regular bs))"
    using assms by (auto simp: replaced_def)
  then show ?thesis
    using assms cleanup_world [of pending_path "Pending r" SnapshotFile bs s0 w] pending_is by (simp add: replaced_def)
qed

lemma sweep_untouched:
  assumes "untouched pending_path SnapshotFile bs s0 s"
  shows "untouched pending_path SnapshotFile bs s0 (swept r s)"
  using assms cleanup_world [of pending_path "Pending r" SnapshotFile bs s0 "vs_world s"] pending_is
  by (simp add: untouched_def same_store_def)

lemma saved_cleanup: "saved bs s0 s \<Longrightarrow> saved bs s0 (swept r s)"
  by (simp add: saved_def sweep_replaced)

lemma save_fails_cleanup: "save_fails bs s0 s \<Longrightarrow> save_fails bs s0 (swept r s)"
  unfolding save_fails_def by (elim disjE) (simp_all add: sweep_untouched doubtful_def sweep_replaced)

lemma persist_triple:
  fixes s0 :: "'s vault_store"
  shows "sr_triple (untouched pending_path SnapshotFile bs s0) (persist bs) (\<lambda>_. saved bs s0) (\<lambda>_. save_fails bs s0)"
proof -
  have u: "untouched pending_path SnapshotFile bs s0 s \<Longrightarrow> save_fails bs s0 s" for s by (simp add: save_fails_def)
  have create: "sr_triple (untouched pending_path SnapshotFile bs s0) (on_world (create_private_new (Pending r)))
      (\<lambda>_. writing pending_path SnapshotFile bs s0 (Pending r) []) (\<lambda>_. save_fails bs s0)" for r
    by (rule triple_weaken [OF start_writing]) (auto simp: u)
  have commit: "sr_triple (writing pending_path SnapshotFile bs s0 (Pending r) [])
      (or_cleanup (Pending r) vs_world vs_world_update (commit_pending (Pending r) bs))
      (\<lambda>_. saved bs s0) (\<lambda>_. save_fails bs s0)" for r
    using commit_triple [of bs s0 r] saved_cleanup [of bs s0 _ r] save_fails_cleanup [of bs s0 _ r]
    unfolding sr_triple_def or_cleanup_def swept_def by (fastforce split: prod.splits sum.splits)
  show ?thesis
    unfolding persist_def
    by (intro triple_peek_bind triple_bind [OF create] commit) (auto dest: u)
qed

end
