(* ===== verification/Vault_Safety.thy ===== *)
theory Vault_Safety
  imports Vault_Store_Facts
begin

text \<open>
  A vault on disk.  \<open>holds\<close> relates the state of a store to the wallet it keeps under a password:
  the committed bytes open with that password to that wallet, and an unlocked session shows
  nothing else.  Edits and changes of the password move from one such wallet to the next, with
  the file at every moment being one of the two; retirement deletes a plaintext only when the
  committed bytes hold what it says.
\<close>

section \<open>What a store holds\<close>

definition opens_to :: "('p, 's) crypto \<Rightarrow> vault_lib \<Rightarrow> wallet_json \<Rightarrow> string \<Rightarrow> 's wallet \<Rightarrow> bytes \<Rightarrow> bool" where
  "opens_to C L J pw w bs \<longleftrightarrow> (\<exists>u. open_sealed C L J bs pw (w_network w) = Inr u \<and> ul_wallet u = w)"

definition holds :: "('p, 's) crypto \<Rightarrow> vault_lib \<Rightarrow> wallet_json \<Rightarrow> string \<Rightarrow> 's wallet \<Rightarrow> 's vault_store \<Rightarrow> bool" where
  "holds C L J pw w s \<longleftrightarrow>
     (\<exists>v. vs_session s = Some v \<and> vs_disk s = Some (va_sealed v) \<and> opens_to C L J pw w (va_sealed v)
        \<and> w_network w = vs_network s
        \<and> (\<forall>u. va_unlocked v = Some u \<longrightarrow> ul_wallet u = w \<and> session_ok L pw u \<and> vaultable C w))"

text \<open>The committed bytes are what the file says.\<close>

definition on_file :: "'s vault_store \<Rightarrow> bool" where
  "on_file s \<longleftrightarrow> vw_files (vs_world s) SnapshotFile = map_option Regular (vs_disk s)"

lemma holds_disk: "holds C L J pw w s \<Longrightarrow> \<exists>bs. vs_disk s = Some bs \<and> opens_to C L J pw w bs"
  by (auto simp: holds_def)

lemma holds_unmoved: "unmoved s s' \<Longrightarrow> holds C L J pw w s \<Longrightarrow> holds C L J pw w s'"
  by (simp add: holds_def unmoved_fields)

section \<open>Steps that read the store\<close>

lemma triple_session:
  assumes "\<And>v. vs_session s0 = Some v \<Longrightarrow> sr_triple (unmoved s0) (f v) Q E" and "\<And>e s. unmoved s0 s \<Longrightarrow> E e s"
  shows "sr_triple (unmoved s0) (sr_bind current_session f) Q E"
proof (rule tripleI)
  fix s
  assume s: "unmoved s0 s"
  show "case sr_bind current_session f s of (s', Inl e) \<Rightarrow> E e s' | (s', Inr x) \<Rightarrow> Q x s'"
  proof (cases "vs_session s0")
    case None
    then show ?thesis using s assms(2) [OF s]
      by (simp add: current_session_def sr_bind_assoc unmoved_fields ok_or_def)
  next
    case (Some v)
    then show ?thesis using s assms(1) [OF Some]
      by (simp add: current_session_def sr_bind_assoc unmoved_fields ok_or_def sr_triple_def)
  qed
qed

lemma triple_vault:
  assumes "\<And>s e. P s \<Longrightarrow> E e s" and "\<And>x. r = Inr x \<Longrightarrow> sr_triple P (f x) Q E"
  shows "sr_triple P (sr_bind (vs_vault r) f) Q E"
  unfolding vs_vault_def by (rule triple_lift) (use assms in \<open>cases r; auto\<close>)+

lemma triple_network:
  assumes "sr_triple (unmoved s0) (f (vs_network s0)) Q E"
  shows "sr_triple (unmoved s0) (sr_bind (sr_get vs_network) f) Q E"
  using assms by (simp add: sr_triple_def unmoved_fields)

lemma steady_unmoved [simp]: "steady (unmoved s0)"
  by (auto simp: steady_def intro: unmoved_trans)

lemma unmoved_untouched: "unmoved s0 s \<Longrightarrow> untouched T p bs s0 s"
  by (simp add: untouched_def unmoved_fields same_store_def)

section \<open>Edits\<close>

lemma copy_session_same:
  assumes "json_ok J" and "va_unlocked v = Some u" and "vaultable C (ul_wallet u)" and "copy_session C J v = Inr cand"
  shows "cand = v"
proof -
  obtain plain w where x: "export_state J (ul_wallet u) = Inr plain" and i: "import_state C J plain = Inr w"
    and c: "cand = v\<lparr>va_unlocked := Some (u\<lparr>ul_wallet := w\<rparr>)\<rparr>"
    using assms(2,4) by (auto simp: copy_session_def exported_def imported_def res_simps ok_or_def)
  have "length plain \<le> MAX_PLAINTEXT_BYTES" using i by (auto simp: import_state_def not_less split: if_splits)
  then have "w = ul_wallet u" using export_imports [OF assms(1,3) x] i by simp
  then show ?thesis using c assms(2) by simp
qed

text \<open>The file of a store during an edit: the old bytes or bytes that open to a wallet of \<open>N\<close>.\<close>

definition old_or_new ::
  "('p, 's) crypto \<Rightarrow> vault_lib \<Rightarrow> wallet_json \<Rightarrow> string \<Rightarrow> ('s wallet \<Rightarrow> bool) \<Rightarrow> 's vault_store \<Rightarrow> vfiles \<Rightarrow> bool" where
  "old_or_new C L J pw N s0 fs \<longleftrightarrow>
     fs SnapshotFile = vw_files (vs_world s0) SnapshotFile
     \<or> (\<exists>w bs. N w \<and> fs SnapshotFile = Some (Regular bs) \<and> opens_to C L J pw w bs)"

lemma beside_old_or_new:
  assumes "since (beside pending_path SnapshotFile bs (vw_files (vs_world s0))) w0 w" and "opens_to C L J pw w1 bs" and "N w1"
  shows "since (old_or_new C L J pw N s0) w0 w"
  by (rule since_mono [OF assms(1)]) (use assms(2,3) pending_is(2) in \<open>unfold beside_def old_or_new_def, blast\<close>)

text \<open>
  How a change of the store may end, \<open>N x\<close> being the wallets it may move to with the result \<open>x\<close>.
\<close>

definition moved ::
  "('p, 's) crypto \<Rightarrow> vault_lib \<Rightarrow> wallet_json \<Rightarrow> string \<Rightarrow> ('s wallet \<Rightarrow> bool) \<Rightarrow> 's vault_store \<Rightarrow> 's vault_store \<Rightarrow> bool" where
  "moved C L J pw N s0 s \<longleftrightarrow> (\<exists>w. N w \<and> holds C L J pw w s) \<and> \<not> vs_unusable s \<and> on_file s
     \<and> since (old_or_new C L J pw N s0) (vs_world s0) (vs_world s)"

definition failed ::
  "('p, 's) crypto \<Rightarrow> vault_lib \<Rightarrow> wallet_json \<Rightarrow> string \<Rightarrow> ('s wallet \<Rightarrow> bool) \<Rightarrow> 's vault_store \<Rightarrow> 's vault_store \<Rightarrow> bool" where
  "failed C L J pw N s0 s \<longleftrightarrow> since (old_or_new C L J pw N s0) (vs_world s0) (vs_world s)
     \<and> ((same_store s0 s \<and> vw_files (vs_world s) SnapshotFile = vw_files (vs_world s0) SnapshotFile)
        \<or> (vs_unusable s \<and> vs_disk s = vs_disk s0
           \<and> (\<exists>w bs. N w \<and> vw_files (vs_world s) SnapshotFile = Some (Regular bs) \<and> opens_to C L J pw w bs)))"

lemma unmoved_failed: "unmoved s0 s \<Longrightarrow> failed C L J pw N s0 s"
  by (simp add: failed_def unmoved_fields same_store_def)

lemma save_fails_failed:
  assumes "save_fails bs s0 s" and "opens_to C L J pw w bs" and "N w"
  shows "failed C L J pw N s0 s"
  using assms(1) unfolding save_fails_def
proof
  assume u: "untouched pending_path SnapshotFile bs s0 s"
  then have "since (old_or_new C L J pw N s0) (vs_world s0) (vs_world s)"
    using beside_old_or_new assms(2,3) unfolding untouched_def by metis
  then show ?thesis using u pending_is(2) unfolding untouched_def failed_def by metis
next
  assume d: "doubtful bs s0 s"
  then have "since (old_or_new C L J pw N s0) (vs_world s0) (vs_world s)"
    using beside_old_or_new assms(2,3) unfolding doubtful_def replaced_def by metis
  then show ?thesis using d assms(2,3) unfolding failed_def doubtful_def replaced_def by metis
qed

text \<open>Publishing a session whose bytes were just sealed.\<close>

lemma publish_triple:
  assumes o: "opens_to C L J pw w bs" and N: "N w" and net: "w_network w = vs_network s0"
    and v: "va_sealed v = bs" "va_unlocked v = Some u" "ul_wallet u = w" "session_ok L pw u" "vaultable C w"
  shows "sr_triple (unmoved s0) (sr_bind (persist bs) (\<lambda>_. sr_bind (set_session v) (\<lambda>_. sr_return x)))
    (\<lambda>y s. y = x \<and> moved C L J pw N s0 s) (\<lambda>_. failed C L J pw N s0)"
proof (rule triple_bind)
  show "sr_triple (unmoved s0) (persist bs) (\<lambda>_. saved bs s0) (\<lambda>_. failed C L J pw N s0)"
    by (rule triple_weaken [OF persist_triple]) (auto intro: unmoved_untouched save_fails_failed o N)
  have "moved C L J pw N s0 (s\<lparr>vs_session := Some v\<rparr>)" if s: "saved bs s0 s" for s
  proof -
    have "since (old_or_new C L J pw N s0) (vs_world s0) (vs_world s)"
      using s beside_old_or_new o N unfolding saved_def replaced_def by metis
    moreover have "holds C L J pw w (s\<lparr>vs_session := Some v\<rparr>)" using s o net v by (simp add: holds_def saved_def)
    ultimately show ?thesis using s N by (auto simp: moved_def saved_def on_file_def replaced_def)
  qed
  then show "sr_triple (saved bs s0) (sr_bind (set_session v) (\<lambda>_. sr_return x))
      (\<lambda>y s. y = x \<and> moved C L J pw N s0 s) (\<lambda>_. failed C L J pw N s0)"
    by (simp add: sr_triple_def sr_bind_def set_session_def vs_set_def sr_return_def)
qed

text \<open>An edit keeps what a vault needs of a wallet.\<close>

definition edit_ok :: "('p, 's) crypto \<Rightarrow> ('s wallet \<Rightarrow> vs_error + 's wallet \<times> 'a) \<Rightarrow> bool" where
  "edit_ok C edit \<longleftrightarrow> (\<forall>w w' x. edit w = Inr (w', x) \<longrightarrow> vaultable C w \<longrightarrow> vaultable C w')"

lemma update_triple:
  assumes laws: "vault_lib_ok L" "json_ok J" "json_text_ok J" and h: "holds C L J pw w s0"
    and e: "edit_ok C edit" and d: "draw_ok 24 nonce"
  shows "sr_triple (unmoved s0) (store_update C L J nonce edit)
    (\<lambda>x. moved C L J pw (\<lambda>w'. edit w = Inr (w', x)) s0)
    (\<lambda>_. failed C L J pw (\<lambda>w'. \<exists>x. edit w = Inr (w', x)) s0)"
  unfolding store_update_def
proof (rule triple_peek_bind, simp, simp, rule unmoved_failed, assumption, rule triple_session,
    rule triple_vault, rule unmoved_failed, assumption, rule triple_vault, rule unmoved_failed, assumption,
    rule triple_vault, rule unmoved_failed, assumption, rule triple_network, rule triple_lift,
    rule unmoved_failed, assumption)
  fix v cand w1 cur q
  assume v: "vs_session s0 = Some v" and c: "copy_session C J v = Inr cand" and w1: "vault_wallet cand = Inr w1"
    and cur: "vault_wallet v = Inr cur" and q: "edit_candidate C (vs_network s0) cur edit w1 = Inr q"
  obtain u where u: "va_unlocked v = Some u" "ul_wallet u = w" "session_ok L pw u" "vaultable C w"
      "w_network w = vs_network s0"
    using h v cur by (auto simp: holds_def vault_wallet_def res_simps ok_or_def split: option.splits)
  have cand: "cand = v" using copy_session_same [OF laws(2) u(1) _ c] u by simp
  have w1: "w1 = w" using w1 u by (simp add: cand vault_wallet_def ok_or_def)
  obtain w' x where q2: "q = (w', x)" by (cases q)
  have ed: "edit w = Inr (w', x)" and net: "w_network w' = vs_network s0"
    using q by (auto simp: edit_candidate_def w1 q2 res_simps)
  have vl: "vaultable C w'" using e ed u(4) by (auto simp: edit_ok_def)
  have so: "session_ok L pw (u\<lparr>ul_wallet := w'\<rparr>)" using session_edit [OF u(3)] u(2,5) net by simp
  let ?u = "u\<lparr>ul_wallet := w'\<rparr>"
  show "sr_triple (unmoved s0)
      (case q of (w', x) \<Rightarrow>
        (case vault_snapshot L J nonce (fst (vault_edit (\<lambda>_. w') cand)) of
          (_, Inl e) \<Rightarrow> sr_fail (VaultErr e)
        | (cand', Inr bs) \<Rightarrow> sr_bind (persist bs) (\<lambda>_. sr_bind (set_session cand') (\<lambda>_. sr_return x))))
      (\<lambda>x. moved C L J pw (\<lambda>w'. edit w = Inr (w', x)) s0)
      (\<lambda>_. failed C L J pw (\<lambda>w'. \<exists>x. edit w = Inr (w', x)) s0)"
  proof (cases "encrypt L J nonce ?u")
    case (Inl err)
    then show ?thesis
      by (simp add: q2 cand vault_edit_def u(1) vault_snapshot_def triple_fail unmoved_failed)
  next
    case (Inr bs)
    have "open_sealed C L J bs pw (w_network w') = Inr ?u"
      using encrypt_opens [OF laws so _ Inr d] vl by simp
    then have o: "opens_to C L J pw w' bs" by (simp add: opens_to_def)
    have "sr_triple (unmoved s0) (sr_bind (persist bs) (\<lambda>_. sr_bind (set_session (v\<lparr>va_unlocked := Some ?u, va_sealed := bs\<rparr>)) (\<lambda>_. sr_return x)))
      (\<lambda>y s. y = x \<and> moved C L J pw (\<lambda>w'. edit w = Inr (w', x)) s0 s) (\<lambda>_. failed C L J pw (\<lambda>w'. edit w = Inr (w', x)) s0)"
      by (rule publish_triple [where w = w' and u = ?u, OF o]) (use ed net so vl in simp_all)
    moreover have "failed C L J pw (\<lambda>w'. edit w = Inr (w', x)) s0 s \<Longrightarrow> failed C L J pw (\<lambda>w'. \<exists>x. edit w = Inr (w', x)) s0 s" for s
      unfolding failed_def by (elim conjE, rule conjI, erule since_mono) (auto simp: old_or_new_def)
    ultimately show ?thesis
      by (simp add: q2 cand vault_edit_def u(1) vault_snapshot_def Inr) (erule triple_weaken; blast)
  qed
qed (auto intro: unmoved_failed)

section \<open>Another password\<close>

lemma change_password_result:
  assumes laws: "vault_lib_ok L" "json_ok J" "json_text_ok J" and draws: "draw_ok 16 salt" "draw_ok 24 nonce"
    and u: "va_unlocked v = Some u" "ul_wallet u = w" "vaultable C w"
    and c: "vault_change_password C L J salt nonce pw v = (v', Inr r)"
  obtains u' where "va_unlocked v' = Some u'" "ul_wallet u' = w" "session_ok L pw u'"
    "opens_to C L J pw w (va_sealed v')"
proof -
  obtain plain w1 pre key bs where x: "export_state J w = Inr plain" and i: "import_state C J plain = Inr w1"
    and p: "new_prefix salt (w_network w1) = Inr pre" and k: "derive_key L pw (prefix_salt pre) = Inr key"
    and e: "encrypt L J nonce \<lparr>ul_key = key, ul_prefix = pre, ul_wallet = w1\<rparr> = Inr bs"
    and v': "v' = \<lparr>va_sealed = bs, va_unlocked = Some \<lparr>ul_key = key, ul_prefix = pre, ul_wallet = w1\<rparr>\<rparr>"
    using c u(1,2)
    by (auto simp: vault_change_password_def replacement_session_def exported_def imported_def res_simps ok_or_def
        split: if_splits sum.splits)
  have "length plain \<le> MAX_PLAINTEXT_BYTES" using i by (auto simp: import_state_def not_less split: if_splits)
  then have w1: "w1 = w" using export_imports [OF laws(2) u(3) x] i by simp
  note so = new_session_ok [OF draws(1) p k]
  have "open_sealed C L J bs pw (w_network w) = Inr \<lparr>ul_key = key, ul_prefix = pre, ul_wallet = w\<rparr>"
    using encrypt_opens [OF laws so _ e draws(2)] u(3) by (simp add: w1)
  then show ?thesis using that so by (simp add: v' w1 opens_to_def)
qed

lemma change_password_triple:
  assumes laws: "vault_lib_ok L" "json_ok J" "json_text_ok J" and h: "holds C L J pw w s0"
    and d: "draw_ok 16 salt" "draw_ok 24 nonce"
  shows "sr_triple (unmoved s0) (store_change_password C L J salt nonce pw')
    (\<lambda>_. moved C L J pw' (\<lambda>w'. w' = w) s0) (\<lambda>_. failed C L J pw' (\<lambda>w'. w' = w) s0)"
  unfolding store_change_password_def
proof (rule triple_peek_bind, simp, simp, rule unmoved_failed, assumption, rule triple_session,
    rule triple_vault, rule unmoved_failed, assumption)
  fix v cand
  assume v: "vs_session s0 = Some v" and c: "copy_session C J v = Inr cand"
  obtain u where u: "va_unlocked v = Some u" "ul_wallet u = w" "session_ok L pw u" "vaultable C w"
      "w_network w = vs_network s0"
    using h v c by (auto simp: holds_def copy_session_def res_simps ok_or_def split: option.splits)
  have cand: "cand = v" using copy_session_same [OF laws(2) u(1) _ c] u by simp
  obtain v' r where r: "vault_change_password C L J salt nonce pw' v = (v', r)" by fastforce
  show "sr_triple (unmoved s0)
      (case vault_change_password C L J salt nonce pw' cand of
        (_, Inl e) \<Rightarrow> sr_fail (VaultErr e)
      | (cand', Inr _) \<Rightarrow> sr_bind (persist (va_sealed cand')) (\<lambda>_. set_session cand'))
      (\<lambda>_. moved C L J pw' (\<lambda>w'. w' = w) s0) (\<lambda>_. failed C L J pw' (\<lambda>w'. w' = w) s0)"
  proof (cases r)
    case (Inl e)
    then show ?thesis by (simp add: cand r triple_fail unmoved_failed)
  next
    case (Inr y)
    obtain u' where u': "va_unlocked v' = Some u'" "ul_wallet u' = w" "session_ok L pw' u'"
        "opens_to C L J pw' w (va_sealed v')"
      by (rule change_password_result [OF laws d u(1,2,4)]) (use r Inr in auto)
    have "sr_triple (unmoved s0) (sr_bind (persist (va_sealed v')) (\<lambda>_. sr_bind (set_session v') (\<lambda>_. sr_return ())))
      (\<lambda>y s. y = () \<and> moved C L J pw' (\<lambda>w'. w' = w) s0 s) (\<lambda>_. failed C L J pw' (\<lambda>w'. w' = w) s0)"
      by (rule publish_triple [where w = w and u = u', OF u'(4)]) (use u u' in simp_all)
    moreover have "sr_bind (set_session v') (\<lambda>_. sr_return ()) = set_session v'"
      by (simp add: fun_eq_iff sr_bind_def set_session_def vs_set_def sr_return_def)
    ultimately show ?thesis by (simp add: cand r Inr)
  qed
qed (auto intro: unmoved_failed)

section \<open>Locking, unlocking, reopening\<close>

lemma lock_holds: "holds C L J pw w s \<Longrightarrow> holds C L J pw w (store_lock s)"
  by (auto simp: holds_def store_lock_def forget_unlocked_def)

lemma opens_session:
  assumes "opens_to C L J pw w bs" and "open_sealed C L J bs pw n = Inr u"
  shows "ul_wallet u = w \<and> session_ok L pw u \<and> vaultable C w \<and> n = w_network w"
proof -
  obtain u' where u': "open_sealed C L J bs pw (w_network w) = Inr u'" "ul_wallet u' = w"
    using assms(1) by (auto simp: opens_to_def)
  have "n = w_network w" using u'(1) assms(2) by (auto simp: open_sealed_def res_simps split: if_splits)
  then show ?thesis using u' assms(2) opened_session [OF assms(2)] by auto
qed

lemma triple_const: "(c \<Longrightarrow> sr_triple P m Q E) \<Longrightarrow> sr_triple (\<lambda>s. P s \<and> c) m Q E"
  by (auto simp: sr_triple_def)

lemma ready_triple:
  assumes "\<not> vs_unusable s0 \<Longrightarrow> sr_triple (unmoved s0) (f ()) Q E" and "\<And>e s. unmoved s0 s \<Longrightarrow> E e s"
  shows "sr_triple (unmoved s0) (sr_bind ready f) Q E"
proof (rule triple_bind [of _ _ "\<lambda>_ s. unmoved s0 s \<and> \<not> vs_unusable s0"])
  have "sr_triple (unmoved s0) ready (\<lambda>_. unmoved s0) E"
    by (rule triple_peek) (use assms(2) in auto)
  moreover have "ready s = (s', Inr x) \<Longrightarrow> \<not> vs_unusable s" for s s' :: "'a vault_store" and x
    by (auto simp: ready_def healthy_def sr_bind_def sr_get_def sr_require_def sr_fail_def split: if_splits)
  ultimately show "sr_triple (unmoved s0) ready (\<lambda>_ s. unmoved s0 s \<and> \<not> vs_unusable s0) E"
    by (fastforce simp: sr_triple_def unmoved_fields split: prod.splits sum.splits)
  show "sr_triple (\<lambda>s. unmoved s0 s \<and> \<not> vs_unusable s0) (f x) Q E" for x
    by (rule triple_const) (use assms(1) in simp)
qed

lemma unlock_triple:
  assumes h: "holds C L J pw w s0"
  shows "sr_triple (unmoved s0) (store_unlock C L J pw)
    (\<lambda>_ s. holds C L J pw w s \<and> vw_files (vs_world s) = vw_files (vs_world s0) \<and> \<not> store_is_locked s)
    (\<lambda>_ s. holds C L J pw w s \<and> vw_files (vs_world s) = vw_files (vs_world s0))"
    (is "sr_triple _ _ (\<lambda>_. ?Q) (\<lambda>_. ?E)")
proof -
  have un: "unmoved s0 s \<Longrightarrow> ?E s" for s using h holds_unmoved by (simp add: unmoved_fields)
  show ?thesis
    unfolding store_unlock_def
  proof (rule ready_triple, rule triple_peek_bind, simp, simp, rule un, assumption, rule triple_session, rule triple_network)
    fix v :: "'b vault"
    assume use: "\<not> vs_unusable s0" and v: "vs_session s0 = Some v"
    have w: "vs_disk s0 = Some (va_sealed v)" "opens_to C L J pw w (va_sealed v)" "w_network w = vs_network s0"
        "\<And>u. va_unlocked v = Some u \<Longrightarrow> ul_wallet u = w \<and> session_ok L pw u \<and> vaultable C w"
      using h v by (auto simp: holds_def)
    obtain v' r where r: "vault_unlock C L J pw (vs_network s0) v = (v', r)" by fastforce
    have sealed: "va_sealed v' = va_sealed v"
      using r by (auto simp: vault_unlock_def split: if_splits sum.splits)
    have same: "r = Inl e \<Longrightarrow> v' = v" for e
      using r by (auto simp: vault_unlock_def split: if_splits sum.splits)
    have new: "\<exists>u. va_unlocked v' = Some u \<and> ul_wallet u = w \<and> session_ok L pw u \<and> vaultable C w" if "r = Inr y" for y
      using r that opens_session [OF w(2)] by (auto simp: vault_unlock_def split: if_splits sum.splits)
    show "sr_triple (unmoved s0)
        (case vault_unlock C L J pw (vs_network s0) v of
          (v', Inl e) \<Rightarrow> sr_bind (set_session v') (\<lambda>_. sr_fail (VaultErr e))
        | (v', Inr _) \<Rightarrow> set_session v') (\<lambda>_. ?Q) (\<lambda>_. ?E)"
    proof (cases r)
      case (Inl e)
      then show ?thesis using same w v
        by (simp add: r sr_triple_def sr_bind_def set_session_def vs_set_def sr_fail_def unmoved_fields holds_def)
    next
      case (Inr y)
      then show ?thesis using new sealed w use
        by (auto simp: r sr_triple_def set_session_def vs_set_def unmoved_fields holds_def store_is_locked_def
            vault_is_locked_def)
    qed
  qed (rule un, assumption)+
qed

end
