(* ===== verification/Vault_Legacy.thy ===== *)
theory Vault_Legacy
  imports Vault_Safety
begin

text \<open>
  Enrolment of a wallet in a vault: a new vault holds the wallet it was made from, a migration
  writes no plaintext file, and what is retired afterwards is in the committed bytes.
\<close>

section \<open>Which files a call may touch\<close>

definition outside :: "vpath set \<Rightarrow> vfiles \<Rightarrow> vfiles \<Rightarrow> bool" where
  "outside A F fs \<longleftrightarrow> (\<forall>q. q \<notin> A \<longrightarrow> fs q = F q)"

definition touches :: "vpath set \<Rightarrow> ('s, 'a) vs \<Rightarrow> bool" where
  "touches A m \<longleftrightarrow> (\<forall>s. since (outside A (vw_files (vs_world s))) (vs_world s) (vs_world (fst (m s))))"

lemma since_now: "since P w0 w \<Longrightarrow> vw_files w = vw_files w0 \<or> P (vw_files w)"
  unfolding since_def by (elim exE conjE, rename_tac extra, case_tac extra rule: rev_cases) auto

lemma outside_refl [simp]: "outside A F F"
  by (simp add: outside_def)

lemma outside_trans: "outside A F G \<Longrightarrow> outside A G H \<Longrightarrow> outside A F H"
  by (simp add: outside_def)

lemma since_outside:
  assumes "since (outside A (vw_files w0)) w0 w1" and "since (outside A (vw_files w1)) w1 w2"
  shows "since (outside A (vw_files w0)) w0 w2"
proof (rule since_trans [OF assms(1)])
  have "outside A (vw_files w0) (vw_files w1)" using since_now [OF assms(1)] by auto
  then show "since (outside A (vw_files w0)) w1 w2" by (intro since_mono [OF assms(2)]) (rule outside_trans)
qed

lemma touches_bind: "touches A m \<Longrightarrow> (\<And>x. touches A (f x)) \<Longrightarrow> touches A (sr_bind m f)"
  unfolding touches_def sr_bind_fst by (auto split: sum.split intro: since_outside)

lemma touches_mono: "touches A m \<Longrightarrow> A \<subseteq> B \<Longrightarrow> touches B m"
  unfolding touches_def by (intro allI, drule spec, erule since_mono) (auto simp: outside_def)

lemma touches_peeks: "peeks m \<Longrightarrow> touches A m"
  unfolding touches_def peeks_def by (metis since_refl unmoved_fields(6))

lemma touches_if: "(b \<Longrightarrow> touches A m) \<Longrightarrow> (\<not> b \<Longrightarrow> touches A m') \<Longrightarrow> touches A (if b then m else m')"
  by simp

lemma touches_set: "(\<And>s. vs_world (f s) = vs_world s) \<Longrightarrow> touches A (vs_set f)"
  by (simp add: touches_def vs_set_def)

lemma touches_files:
  fixes A :: "vpath set"
  shows "p \<in> A \<Longrightarrow> touches A (on_world (create_private_new p))"
  "p \<in> A \<Longrightarrow> touches A (on_world (file_write_all p bs))"
  "p \<in> A \<Longrightarrow> q \<in> A \<Longrightarrow> touches A (on_world (commit_rename p q))"
  "p \<in> A \<Longrightarrow> touches A (on_world (remove_file p))"
proof -
  have one: "since (outside A (vw_files w)) w w'"
    if "vw_files w' = vw_files w \<and> vw_past w' = vw_past w
      \<or> vw_past w' = vw_past w @ [vw_files w] \<and> outside A (vw_files w) (vw_files w')" for w w'
    using that by (elim disjE conjE) (simp_all add: since_def [of _ w w] since_step since_def)
  show "touches A (on_world (create_private_new p))" if "p \<in> A"
    unfolding touches_def
  proof
    fix s :: "'x vault_store"
    obtain w' r where c: "create_private_new p (vs_world s) = (w', r)" by fastforce
    show "since (outside A (vw_files (vs_world s))) (vs_world s) (vs_world (fst (on_world (create_private_new p) s)))"
      using create_new_cases [OF c] that by (intro one) (auto simp: on_world_def c outside_def split: if_splits)
  qed
  show "touches A (on_world (commit_rename p q))" if "p \<in> A" "q \<in> A"
    unfolding touches_def
  proof
    fix s :: "'x vault_store"
    obtain w' r where c: "commit_rename p q (vs_world s) = (w', r)" by fastforce
    show "since (outside A (vw_files (vs_world s))) (vs_world s) (vs_world (fst (on_world (commit_rename p q) s)))"
      using rename_cases [OF c] that by (intro one) (auto simp: on_world_def c outside_def split: if_splits)
  qed
  show "touches A (on_world (remove_file p))" if "p \<in> A"
    unfolding touches_def
  proof
    fix s :: "'x vault_store"
    obtain w' r where c: "remove_file p (vs_world s) = (w', r)" by fastforce
    show "since (outside A (vw_files (vs_world s))) (vs_world s) (vs_world (fst (on_world (remove_file p) s)))"
      using remove_cases [OF c] that by (intro one) (auto simp: on_world_def c outside_def split: if_splits)
  qed
  show "touches A (on_world (file_write_all p bs))" if "p \<in> A"
    unfolding touches_def
  proof
    fix s :: "'x vault_store"
    obtain w' r where c: "file_write_all p bs (vs_world s) = (w', r)" by fastforce
    obtain n between where f: "vw_files w' = (vw_files (vs_world s))(p \<mapsto> Regular (file_bytes (vw_files (vs_world s)) p @ take n bs))"
      and past: "vw_past w' = vw_past (vs_world s) @ vw_files (vs_world s) # between"
      and b: "list_all (\<lambda>fs. \<exists>c. fs = (vw_files (vs_world s))(p \<mapsto> Regular c)) between"
      using write_cases [OF c] by blast
    have "list_all (outside A (vw_files (vs_world s))) between"
      using b that unfolding list_all_iff outside_def by (metis fun_upd_other)
    then show "since (outside A (vw_files (vs_world s))) (vs_world s) (vs_world (fst (on_world (file_write_all p bs) s)))"
      using since_more [OF since_refl past, of "outside A (vw_files (vs_world s))"] f that
      by (simp add: on_world_def c outside_def)
  qed
qed

lemma touches_cleanup:
  assumes "p \<in> A" and "touches A m"
  shows "touches A (or_cleanup p vs_world vs_world_update m)"
  unfolding touches_def
proof
  fix s
  have "touches A (on_world (remove_file p))" by (rule touches_files) (rule assms(1))
  then have "since (outside A (vw_files (vs_world s1))) (vs_world s1) (fst (remove_file p (vs_world s1)))" for s1 :: "'a vault_store"
    unfolding touches_def by (drule_tac x = s1 in spec) (simp add: on_world_def split: prod.splits)
  moreover have "since (outside A (vw_files (vs_world s))) (vs_world s) (vs_world (fst (m s)))"
    using assms(2) by (simp add: touches_def)
  ultimately show "since (outside A (vw_files (vs_world s))) (vs_world s)
      (vs_world (fst (or_cleanup p vs_world vs_world_update m s)))"
    by (simp add: or_cleanup_def case_prod_unfold since_outside)
qed

lemma touches_tombstone: "touches (insert SeedFile (Collect marker_path)) write_tombstone"
  unfolding write_tombstone_def
  by (intro touches_bind touches_cleanup touches_files touches_peeks peeks_world looks_basic) (auto simp: marker_path_def)

lemma touches_retire:
  "touches (insert SeedFile (insert DatabaseFile (Collect marker_path))) (retire_files sd db)"
  unfolding retire_files_def
  by (intro touches_bind touches_if touches_files(4) touches_mono [OF touches_tombstone])
    (auto intro: touches_peeks)

section \<open>Retiring the plaintext\<close>

text \<open>The committed bytes hold what the plaintext files say.\<close>

definition retirable ::
  "('p, 's) crypto \<Rightarrow> vault_lib \<Rightarrow> wallet_json \<Rightarrow> legacy_json \<Rightarrow> string \<Rightarrow> vfiles \<Rightarrow> bool" where
  "retirable C L J D pw F \<longleftrightarrow>
     (\<exists>bs w. F SnapshotFile = Some (Regular bs) \<and> opens_to C L J pw w bs
       \<and> (\<forall>sd. F SeedFile = Some (Regular sd) \<longrightarrow> sd = LEGACY_TOMBSTONE
            \<or> (\<exists>k. parse_seed C sd = Inr k \<and> seed k = seed (w_keys w)))
       \<and> (\<forall>db. F DatabaseFile = Some (Regular db) \<longrightarrow>
            (\<exists>f x. parse_database D db = Inr f \<and> lj_file_bytes D f = Some x \<and> lj_file_bytes D (w_db w) = Some x)))"

lemma read_required_ok:
  assumes "read_required p n w = (w', Inr bs)"
  shows "vw_files w p = Some (Regular bs) \<and> length bs \<le> n"
  using assms
  by (auto simp: read_required_def sr_bind_def vio_call_def sr_get_def sr_fail_def sr_return_def
      split: if_splits option.splits fnode.splits)

lemma read_optional_ok:
  assumes "read_optional p n w = (w', Inr r)"
  shows "vw_files w p = map_option Regular r"
  using assms
  by (auto simp: read_optional_def read_required_def vio_metadata_def sr_bind_def vio_call_def sr_get_def sr_fail_def sr_return_def
      split: if_splits option.splits fnode.splits)

lemma triple_read:
  assumes "\<And>bs. vw_files (vs_world s0) p = Some (Regular bs) \<Longrightarrow> sr_triple (unmoved s0) (f bs) Q E"
    and "\<And>e s. unmoved s0 s \<Longrightarrow> E e s"
  shows "sr_triple (unmoved s0) (sr_bind (on_world (read_required p n)) f) Q E"
proof (rule triple_bind [of _ _ "\<lambda>bs s. unmoved s0 s \<and> vw_files (vs_world s0) p = Some (Regular bs)"])
  have look: "peeks (on_world (read_required p n))" by simp
  have read_sound: "unmoved s0 s' \<and> (\<forall>bs. r = Inr bs \<longrightarrow> vw_files (vs_world s0) p = Some (Regular bs))"
    if "unmoved s0 s" and r: "on_world (read_required p n) s = (s', r)" for s s' r
    using unmoved_trans [OF that(1) peeksD [OF look r]] that(1) r read_required_ok [of p n "vs_world s"]
    by (auto simp: on_world_def unmoved_fields split: prod.splits)
  show "sr_triple (unmoved s0) (on_world (read_required p n))
      (\<lambda>bs s. unmoved s0 s \<and> vw_files (vs_world s0) p = Some (Regular bs)) E"
    using assms(2) by (intro tripleI) (use read_sound in \<open>auto split: prod.split sum.split\<close>)
  show "sr_triple (\<lambda>s. unmoved s0 s \<and> vw_files (vs_world s0) p = Some (Regular bs)) (f bs) Q E" for bs
    by (rule triple_const) (rule assms(1))
qed

lemma triple_optional:
  assumes "\<And>r. vw_files (vs_world s0) p = map_option Regular r \<Longrightarrow> sr_triple (unmoved s0) (f r) Q E"
    and "\<And>e s. unmoved s0 s \<Longrightarrow> E e s"
  shows "sr_triple (unmoved s0) (sr_bind (on_world (read_optional p n)) f) Q E"
proof (rule triple_bind [of _ _ "\<lambda>r s. unmoved s0 s \<and> vw_files (vs_world s0) p = map_option Regular r"])
  have look: "peeks (on_world (read_optional p n))" by simp
  have read_sound: "unmoved s0 s' \<and> (\<forall>x. r = Inr x \<longrightarrow> vw_files (vs_world s0) p = map_option Regular x)"
    if "unmoved s0 s" and r: "on_world (read_optional p n) s = (s', r)" for s s' r
    using unmoved_trans [OF that(1) peeksD [OF look r]] that(1) r read_optional_ok [of p n "vs_world s"]
    by (auto simp: on_world_def unmoved_fields split: prod.splits)
  show "sr_triple (unmoved s0) (on_world (read_optional p n))
      (\<lambda>r s. unmoved s0 s \<and> vw_files (vs_world s0) p = map_option Regular r) E"
    using assms(2) by (intro tripleI) (use read_sound in \<open>auto split: prod.split sum.split\<close>)
  show "sr_triple (\<lambda>s. unmoved s0 s \<and> vw_files (vs_world s0) p = map_option Regular r) (f r) Q E" for r
    by (rule triple_const) (rule assms(1))
qed

text \<open>A file that is reopened gives back the wallet it was written for.\<close>

lemma triple_reopen:
  assumes "\<And>v u. va_sealed v = bs \<Longrightarrow> va_unlocked v = Some u \<Longrightarrow> open_sealed C L J bs pw (vs_network s0) = Inr u \<Longrightarrow>
      sr_triple (unmoved s0) (f (v, ul_wallet u)) Q E"
    and "\<And>e s. unmoved s0 s \<Longrightarrow> E e s"
  shows "sr_triple (unmoved s0) (sr_bind (reopen_file C L J pw bs) f) Q E"
proof (rule triple_bind [of _ _ "\<lambda>x s. unmoved s0 s
    \<and> (\<exists>u. va_sealed (fst x) = bs \<and> va_unlocked (fst x) = Some u \<and> snd x = ul_wallet u
      \<and> open_sealed C L J bs pw (vs_network s0) = Inr u)"])
  show "sr_triple (unmoved s0) (reopen_file C L J pw bs) (\<lambda>x s. unmoved s0 s
    \<and> (\<exists>u. va_sealed (fst x) = bs \<and> va_unlocked (fst x) = Some u \<and> snd x = ul_wallet u
      \<and> open_sealed C L J bs pw (vs_network s0) = Inr u)) E"
    using assms(2)
    by (auto simp: sr_triple_def reopen_file_def vs_vault_def vault_from_bytes_def res_simps sr_bind_def sr_lift_def
        sr_get_def sr_fail_def sr_return_def vault_unlock_def vault_wallet_def ok_or_def unmoved_fields
        split: prod.splits sum.splits)
  show "sr_triple (\<lambda>s. unmoved s0 s \<and> (\<exists>u. va_sealed (fst x) = bs \<and> va_unlocked (fst x) = Some u \<and> snd x = ul_wallet u
      \<and> open_sealed C L J bs pw (vs_network s0) = Inr u)) (f x) Q E" for x
    by (cases x, rule triple_const) (use assms(1) in auto)
qed

text \<open>Whatever a retirement does to the plaintext files, the snapshot is untouched and holds them.\<close>

definition retiring ::
  "('p, 's) crypto \<Rightarrow> vault_lib \<Rightarrow> wallet_json \<Rightarrow> legacy_json \<Rightarrow> string \<Rightarrow> vfiles \<Rightarrow> vfiles \<Rightarrow> bool" where
  "retiring C L J D pw F fs \<longleftrightarrow> retirable C L J D pw F
     \<and> outside (insert SeedFile (insert DatabaseFile (Collect marker_path))) F fs"

lemma retirement_triple:
  fixes s0 :: "'s vault_store"
  shows "sr_triple (unmoved s0) (finish_legacy_retirement C L J D pw)
    (\<lambda>_ s. since (retiring C L J D pw (vw_files (vs_world s0))) (vs_world s0) (vs_world s))
    (\<lambda>_ s. since (retiring C L J D pw (vw_files (vs_world s0))) (vs_world s0) (vs_world s))"
  (is "sr_triple _ _ (\<lambda>_. ?Q) (\<lambda>_. ?Q)")
proof -
  let ?F = "vw_files (vs_world s0)"
  have un: "unmoved s0 s \<Longrightarrow> ?Q s" for s by (simp add: unmoved_fields)
  have run: "sr_triple (unmoved s0) m (\<lambda>_. ?Q) (\<lambda>_. ?Q)"
    if "touches (insert SeedFile (insert DatabaseFile (Collect marker_path))) m" and "retirable C L J D pw ?F" for m :: "('s, unit) vs"
  proof (rule tripleI)
    fix s
    assume s: "unmoved s0 s"
    have "since (outside (insert SeedFile (insert DatabaseFile (Collect marker_path))) (vw_files (vs_world s)))
        (vs_world s) (vs_world (fst (m s)))" using that(1) by (simp add: touches_def)
    then have "since (outside (insert SeedFile (insert DatabaseFile (Collect marker_path))) ?F) (vs_world s0) (vs_world (fst (m s)))"
      using s unfolding unmoved_def since_def by metis
    then have "?Q (fst (m s))" 
      by (rule since_mono) (simp add: retiring_def that(2))
    then show "case m s of (s', Inl e) \<Rightarrow> ?Q s' | (s', Inr x) \<Rightarrow> ?Q s'" by (auto split: prod.split sum.split)
  qed
  show ?thesis
    unfolding finish_legacy_retirement_def
  proof (rule triple_peek_bind, simp, simp, rule un, assumption, rule triple_peek_bind, simp, simp, rule un, assumption,
      rule triple_peek_bind, simp, simp, rule un, assumption, rule triple_require, rule un, assumption,
      rule triple_read)
    fix bs
    assume snap: "?F SnapshotFile = Some (Regular bs)"
    show "sr_triple (unmoved s0)
        (sr_bind (reopen_file C L J pw bs) (\<lambda>(v, w).
         sr_bind (on_world (read_optional SeedFile 1024)) (\<lambda>sd.
         sr_bind (on_world (read_optional DatabaseFile MAX_PLAINTEXT_BYTES)) (\<lambda>db.
         sr_bind (sr_lift (seed_matches C sd w)) (\<lambda>_.
         sr_bind (sr_lift (database_matches D db w)) (\<lambda>_.
         sr_bind (vs_set (\<lambda>s. s\<lparr>vs_unusable := True\<rparr>)) (\<lambda>_.
         sr_bind (retire_files sd db) (\<lambda>_.
           vs_set (\<lambda>s. s\<lparr>vs_session := Some (forget_unlocked v), vs_unusable := False\<rparr>)))))))))
        (\<lambda>_. ?Q) (\<lambda>_. ?Q)"
    proof (rule triple_reopen, unfold prod.case, rule triple_optional, rule triple_optional, rule triple_lift, rule un, assumption,
        rule triple_lift, rule un, assumption)
      fix v u sd db q1 q2
      assume u: "open_sealed C L J bs pw (vs_network s0) = Inr u"
        and sd: "?F SeedFile = map_option Regular sd" and db: "?F DatabaseFile = map_option Regular db"
        and m: "seed_matches C sd (ul_wallet u) = Inr q1" "database_matches D db (ul_wallet u) = Inr q2"
      have "opens_to C L J pw (ul_wallet u) bs"
        using u opened_session(3) [OF u] by (simp add: opens_to_def)
      then have "retirable C L J D pw ?F"
        using snap m
        by (auto simp: retirable_def sd db seed_matches_def database_matches_def same_database_def res_simps ok_or_def
            split: option.splits if_splits)
      then show "sr_triple (unmoved s0)
          (sr_bind (vs_set (\<lambda>s. s\<lparr>vs_unusable := True\<rparr>)) (\<lambda>_. sr_bind (retire_files sd db) (\<lambda>_.
           vs_set (\<lambda>s. s\<lparr>vs_session := Some (forget_unlocked v), vs_unusable := False\<rparr>))))
          (\<lambda>_. ?Q) (\<lambda>_. ?Q)"
        by (intro run touches_bind touches_retire touches_set) (simp_all)
    qed (rule un, assumption)+
  qed (rule un, assumption)+
qed

end
