(* ===== verification/Vault_Enrol.thy ===== *)
theory Vault_Enrol
  imports Vault_Legacy
begin

text \<open>
  New vaults: after \<open>initialize\<close> and \<open>migrate_legacy\<close> the store holds the wallet it was given
  under the password it was given, no plaintext file was written, and a store that is opened
  again on those files holds the same wallet.
\<close>

lemma create_result:
  assumes laws: "vault_lib_ok L" "json_ok J" "json_text_ok J" and draws: "draw_ok 16 salt" "draw_ok 24 nonce"
    and w: "vaultable C w" and c: "vault_create C L J salt nonce w pw = Inr cand"
  shows "opens_to C L J pw w (va_sealed cand)"
proof -
  obtain plain w1 pre key bs where x: "export_state J w = Inr plain" and len: "length plain \<le> MAX_PLAINTEXT_BYTES"
    and i: "import_state C J plain = Inr w1"
    and p: "new_prefix salt (w_network w1) = Inr pre" and k: "derive_key L pw (prefix_salt pre) = Inr key"
    and e: "encrypt L J nonce \<lparr>ul_key = key, ul_prefix = pre, ul_wallet = w1\<rparr> = Inr bs"
    and cand: "va_sealed cand = bs"
    using c by (auto simp: vault_create_def exported_def imported_def res_simps Let_def not_less split: if_splits)
  have w1: "w1 = w" using export_imports [OF laws(2) w x len] i by simp
  have "open_sealed C L J bs pw (w_network w) = Inr \<lparr>ul_key = key, ul_prefix = pre, ul_wallet = w\<rparr>"
    using encrypt_opens [OF laws new_session_ok [OF draws(1) p k] _ e draws(2)] w by (simp add: w1)
  then show ?thesis by (simp add: opens_to_def cand)
qed

text \<open>After a save, the store is that of \<open>s0\<close> with the new snapshot.\<close>

definition enrolled ::
  "('p, 's) crypto \<Rightarrow> vault_lib \<Rightarrow> wallet_json \<Rightarrow> string \<Rightarrow> 's wallet \<Rightarrow> 's vault_store \<Rightarrow> 's vault_store \<Rightarrow> bool" where
  "enrolled C L J pw w s0 s \<longleftrightarrow> holds C L J pw w s \<and> on_file s \<and> \<not> vs_unusable s
     \<and> since (outside (insert SnapshotFile (Collect pending_path)) (vw_files (vs_world s0))) (vs_world s0) (vs_world s)"

lemma touches_persist: "touches (insert SnapshotFile (Collect pending_path)) (persist bs)"
  unfolding persist_def commit_pending_def
  by (intro touches_bind touches_cleanup touches_files touches_peeks peeks_world looks_basic peeks_guards touches_set peeks_basic)
    auto

lemma touches_install: "touches (insert SnapshotFile (Collect pending_path)) (store_install C L J salt nonce w pw)"
  unfolding store_install_def set_session_def
  by (auto intro!: touches_bind touches_persist touches_set touches_peeks [OF peeks_world] touches_peeks [OF peeks_basic(4)]
      touches_peeks [OF peeks_basic(5)] touches_peeks [OF peeks_basic(6)] touches_peeks [OF peeks_reopen] split: prod.split)

lemma install_triple:
  fixes s0 :: "'s vault_store"
  assumes laws: "vault_lib_ok L" "json_ok J" "json_text_ok J" and draws: "draw_ok 16 salt" "draw_ok 24 nonce"
    and w: "vaultable C w" and net: "w_network w = vs_network s0"
  shows "sr_triple (unmoved s0) (store_install C L J salt nonce w pw)
    (\<lambda>_ s. holds C L J pw w s \<and> on_file s \<and> \<not> vs_unusable s) (\<lambda>_ _. True)"
  unfolding store_install_def
proof (rule triple_vault, simp)
  fix cand :: "'s vault"
  assume c: "vault_create C L J salt nonce w pw = Inr cand"
  note o = create_result [OF laws draws w c]
  let ?bs = "va_sealed cand"
  have rest: "sr_triple (unmoved s1)
      (sr_bind (on_world (read_required SnapshotFile MAX_VAULT_BYTES)) (\<lambda>bs.
       sr_bind (reopen_file C L J pw bs) (\<lambda>(v, w').
       sr_bind (sr_lift (same_wallet J w w')) (\<lambda>same.
       sr_bind (sr_require same VerificationFailed) (\<lambda>_. set_session (forget_unlocked v))))))
      (\<lambda>_ s. holds C L J pw w s \<and> on_file s \<and> \<not> vs_unusable s) (\<lambda>_ _. True)"
    if s1: "saved ?bs s0 s1" for s1
  proof (rule triple_read)
    fix bs
    assume "vw_files (vs_world s1) SnapshotFile = Some (Regular bs)"
    then have bs: "bs = ?bs" using s1 by (simp add: saved_def replaced_def)
    show "sr_triple (unmoved s1)
       (sr_bind (reopen_file C L J pw bs) (\<lambda>(v, w').
       sr_bind (sr_lift (same_wallet J w w')) (\<lambda>same.
       sr_bind (sr_require same VerificationFailed) (\<lambda>_. set_session (forget_unlocked v)))))
      (\<lambda>_ s. holds C L J pw w s \<and> on_file s \<and> \<not> vs_unusable s) (\<lambda>_ _. True)"
    proof (rule triple_reopen, unfold prod.case, rule triple_lift, simp, rule triple_require, simp)
      fix v :: "'s vault" and u :: "'s unlocked"
      assume v: "va_sealed v = bs"
      have "holds C L J pw w (s\<lparr>vs_session := Some (forget_unlocked v)\<rparr>)
          \<and> on_file (s\<lparr>vs_session := Some (forget_unlocked v)\<rparr>) \<and> \<not> vs_unusable s" if "unmoved s1 s" for s
        using that s1 o net by (simp add: unmoved_fields holds_def forget_unlocked_def v bs saved_def on_file_def replaced_def)
      then show "sr_triple (unmoved s1) (set_session (forget_unlocked v))
          (\<lambda>_ s. holds C L J pw w s \<and> on_file s \<and> \<not> vs_unusable s) (\<lambda>_ _. True)"
        by (simp add: sr_triple_def set_session_def vs_set_def)
    qed simp
  qed simp
  show "sr_triple (unmoved s0)
      (sr_bind (persist ?bs) (\<lambda>_.
       sr_bind (on_world (read_required SnapshotFile MAX_VAULT_BYTES)) (\<lambda>bs.
       sr_bind (reopen_file C L J pw bs) (\<lambda>(v, w').
       sr_bind (sr_lift (same_wallet J w w')) (\<lambda>same.
       sr_bind (sr_require same VerificationFailed) (\<lambda>_. set_session (forget_unlocked v)))))))
      (\<lambda>_ s. holds C L J pw w s \<and> on_file s \<and> \<not> vs_unusable s) (\<lambda>_ _. True)"
  proof (rule triple_bind [of _ _ "\<lambda>_. saved ?bs s0"])
    show "sr_triple (unmoved s0) (persist ?bs) (\<lambda>_. saved ?bs s0) (\<lambda>_ _. True)"
      by (rule triple_weaken [OF persist_triple]) (auto intro: unmoved_untouched)
    show "sr_triple (saved ?bs s0)
       (sr_bind (on_world (read_required SnapshotFile MAX_VAULT_BYTES)) (\<lambda>bs.
       sr_bind (reopen_file C L J pw bs) (\<lambda>(v, w').
       sr_bind (sr_lift (same_wallet J w w')) (\<lambda>same.
       sr_bind (sr_require same VerificationFailed) (\<lambda>_. set_session (forget_unlocked v))))))
      (\<lambda>_ s. holds C L J pw w s \<and> on_file s \<and> \<not> vs_unusable s) (\<lambda>_ _. True)" for x
      by (rule tripleI) (use rest in \<open>simp add: sr_triple_def\<close>)
  qed
qed

text \<open>A migration reads the plaintext files and writes neither.\<close>

definition legacy_wallet :: "('p, 's) crypto \<Rightarrow> legacy_json \<Rightarrow> network_id \<Rightarrow> vfiles \<Rightarrow> 's wallet \<Rightarrow> bool" where
  "legacy_wallet C D n F w \<longleftrightarrow>
     (\<exists>sd k. F SeedFile = Some (Regular sd) \<and> parse_seed C sd = Inr k \<and> w_keys w = k)
     \<and> w_network w = n \<and> \<not> w_persist w
     \<and> (case F DatabaseFile of
          Some (Regular db) \<Rightarrow> parse_database D db = Inr (w_db w) | _ \<Rightarrow> w_db w = w_db (in_memory n (w_keys w) 0))"

lemma legacy_vaultable:
  assumes "legacy_wallet C D n F w"
  shows "vaultable C w"
proof -
  obtain sd k where k: "parse_seed C sd = Inr k" "w_keys w = k" and F: "F SeedFile = Some (Regular sd)"
    using assms by (auto simp: legacy_wallet_def)
  then obtain x where x: "hex_commit (trim (text_of sd)) = Some x" "k = keys_from_seed C x"
    by (auto simp: parse_seed_def res_simps ok_or_def split: option.splits)
  have "length x = 32" using x(1) by (auto simp: hex_commit_def split: option.splits if_splits)
  moreover have "journal_ok journal_default" 
    by (simp add: journal_ok_def journal_validate_def journal_default_def res_simps ensure_def)
  moreover have "wf_journal (w_db w) = journal_default"
    using assms by (auto simp: legacy_wallet_def parse_database_def res_simps in_memory_def wallet_file_default_def
        split: option.splits fnode.splits dest!: sym [of _ "w_db w"])
  ultimately show ?thesis
    using assms k x by (auto simp: vaultable_def keys_ok_def keys_from_seed_def legacy_wallet_def)
qed

lemma read_legacy_triple:
  assumes "\<And>w. legacy_wallet C D (vs_network s0) (vw_files (vs_world s0)) w \<Longrightarrow> sr_triple (unmoved s0) (f w) Q E"
    and "\<And>e s. unmoved s0 s \<Longrightarrow> E e s"
  shows "sr_triple (unmoved s0) (sr_bind (read_legacy C D) f) Q E"
proof -
  let ?F = "vw_files (vs_world s0)"
  have "sr_triple (unmoved s0) (read_legacy C D) (\<lambda>w s. unmoved s0 s \<and> legacy_wallet C D (vs_network s0) ?F w) E"
    unfolding read_legacy_def
  proof (rule triple_peek_bind, simp, simp, rule assms(2), assumption, rule triple_require, rule assms(2), assumption,
      rule triple_read, rule triple_lift, rule assms(2), assumption, rule triple_network, rule triple_optional)
    fix sd k db
    assume sd: "?F SeedFile = Some (Regular sd)" "parse_seed C sd = Inr k" and db: "?F DatabaseFile = map_option Regular db"
    show "sr_triple (unmoved s0)
       (case db of
          None \<Rightarrow> sr_return (in_memory (vs_network s0) k 0)
        | Some bs \<Rightarrow> sr_bind (sr_lift (parse_database D bs)) (\<lambda>f. sr_return ((in_memory (vs_network s0) k 0)\<lparr>w_db := f\<rparr>)))
       (\<lambda>w s. unmoved s0 s \<and> legacy_wallet C D (vs_network s0) ?F w) E"
    proof (cases db)
      case None
      then show ?thesis using sd db by (auto intro!: triple_return simp: legacy_wallet_def in_memory_def)
    next
      case (Some bs)
      then show ?thesis using sd db assms(2)
        by (auto intro!: triple_lift triple_return simp: legacy_wallet_def in_memory_def)
    qed
  qed (rule assms(2), assumption)+
  then show ?thesis
    by (rule triple_bind) (intro triple_const assms(1))
qed

lemma migrate_triple:
  fixes s0 :: "'s vault_store"
  assumes laws: "vault_lib_ok L" "json_ok J" "json_text_ok J" and draws: "draw_ok 16 salt" "draw_ok 24 nonce"
  shows "sr_triple (unmoved s0) (migrate_legacy C L J D salt nonce pw)
    (\<lambda>_ s. \<exists>w. legacy_wallet C D (vs_network s0) (vw_files (vs_world s0)) w
        \<and> holds C L J pw w s \<and> on_file s \<and> \<not> vs_unusable s) (\<lambda>_ _. True)"
  unfolding migrate_legacy_def
proof (rule triple_peek_bind, simp, simp, simp, rule triple_get, rule triple_require, simp)
  fix h
  show "sr_triple (\<lambda>s. unmoved s0 s \<and> h = has_snapshot s)
      (sr_bind (read_legacy C D) (\<lambda>w. store_install C L J salt nonce w pw))
      (\<lambda>_ s. \<exists>w. legacy_wallet C D (vs_network s0) (vw_files (vs_world s0)) w
        \<and> holds C L J pw w s \<and> on_file s \<and> \<not> vs_unusable s) (\<lambda>_ _. True)"
  proof (rule triple_weaken [where P = "unmoved s0"], rule read_legacy_triple)
    fix w :: "'s wallet"
    assume w: "legacy_wallet C D (vs_network s0) (vw_files (vs_world s0)) w"
    then have "w_network w = vs_network s0" by (simp add: legacy_wallet_def)
    from install_triple [OF laws draws legacy_vaultable [OF w] this]
    show "sr_triple (unmoved s0) (store_install C L J salt nonce w pw)
        (\<lambda>_ s. \<exists>w. legacy_wallet C D (vs_network s0) (vw_files (vs_world s0)) w
          \<and> holds C L J pw w s \<and> on_file s \<and> \<not> vs_unusable s) (\<lambda>_ _. True)"
      by (rule triple_weaken) (use w in auto)
  qed auto
qed

lemma peeks_read_legacy: "peeks (read_legacy C D)"
  unfolding read_legacy_def by (auto intro!: peeks_bind split: option.split)

lemma touches_migrate: "touches (insert SnapshotFile (Collect pending_path)) (migrate_legacy C L J D salt nonce pw)"
  unfolding migrate_legacy_def
  by (intro touches_bind touches_install) (auto intro: touches_peeks peeks_read_legacy)

section \<open>Opening a store again\<close>

text \<open>Calls that leave a file alone.\<close>

definition spares :: "vpath \<Rightarrow> 'a vio \<Rightarrow> bool" where
  "spares p m \<longleftrightarrow> (\<forall>w. vw_files (fst (m w)) p = vw_files w p)"

lemma spares_bind: "spares p m \<Longrightarrow> (\<And>x. spares p (f x)) \<Longrightarrow> spares p (sr_bind m f)"
  unfolding spares_def sr_bind_fst by (simp split: sum.split)

lemma spares_looks: "looks m \<Longrightarrow> spares p m"
  by (simp add: looks_def spares_def)

lemma spares_set: "fs p = F p \<Longrightarrow> vw_files w = F \<Longrightarrow> vw_files (fst (vio_set between fs w)) p = vw_files w p"
  by (simp add: vio_set_def)

lemma spares_update:
  "p \<noteq> q \<Longrightarrow> spares p (create_private_dir q)" "p \<noteq> q \<Longrightarrow> spares p (open_lock_file q)"
  "p \<noteq> q \<Longrightarrow> spares p (vio_ignore (file_truncate q))" "p \<noteq> q \<Longrightarrow> spares p (vio_ignore (file_write_all q bs))"
  by (auto simp: spares_def create_private_dir_def open_lock_file_def vio_ignore_def file_truncate_def file_write_all_def
      Let_def sr_bind_fst vio_call_def sr_get_def sr_fail_def sr_return_def vio_set_def split: sum.split option.split fnode.split)

lemma spares_lock: "spares p (\<lambda>w. (fst (try_lock w), Inr (snd (try_lock w))))"
  by (simp add: spares_def try_lock_def)

lemma spares_if: "(b \<Longrightarrow> spares p m) \<Longrightarrow> (\<not> b \<Longrightarrow> spares p m') \<Longrightarrow> spares p (if b then m else m')"
  by simp

lemma spares_acquire: "spares SnapshotFile dir_acquire"
  unfolding dir_acquire_def
  by (intro spares_bind spares_update spares_lock) (auto intro: spares_looks)

lemma looks_ensure_regular: "looks (ensure_regular p)"
  unfolding ensure_regular_def by (intro looks_bind looks_basic) (simp split: option.split fnode.split)

lemma sr_bind_Inr:
  "sr_bind m f s = (s', Inr y) \<longleftrightarrow> (\<exists>x s1. m s = (s1, Inr x) \<and> f x s1 = (s', Inr y))"
  by (auto simp: sr_bind_def split: prod.splits sum.splits)

lemma spares_prepare: "spares SnapshotFile (prepare_directory name)"
  unfolding prepare_directory_def
  by (intro spares_bind spares_if spares_acquire spares_update) (auto intro: spares_looks looks_ensure_regular)

lemma read_session_ok:
  assumes "read_session w = (w', Inr (v, disk))"
  shows "vw_files w SnapshotFile = map_option Regular disk" "vw_files w' = vw_files w"
    "case disk of None \<Rightarrow> v = None | Some bs \<Rightarrow> \<exists>x. v = Some x \<and> vault_from_bytes bs = Inr x"
proof -
  obtain d w1 where d: "read_optional SnapshotFile MAX_VAULT_BYTES w = (w1, Inr d)"
    and r: "sr_lift (map_err VaultErr (case d of None \<Rightarrow> Inr (None, None)
        | Some bs \<Rightarrow> res_bind (vault_from_bytes bs) (\<lambda>v. Inr (Some v, d)))) w1 = (w', Inr (v, disk))"
    using assms by (auto simp: read_session_def sr_bind_Inr)
  have w': "w' = w1" and "d = disk \<and> (case disk of None \<Rightarrow> v = None | Some bs \<Rightarrow> \<exists>x. v = Some x \<and> vault_from_bytes bs = Inr x)"
    using r by (auto simp: sr_lift_def sr_return_def sr_fail_def res_simps split: option.splits sum.splits)
  then show "vw_files w SnapshotFile = map_option Regular disk"
    "case disk of None \<Rightarrow> v = None | Some bs \<Rightarrow> \<exists>x. v = Some x \<and> vault_from_bytes bs = Inr x"
    using read_optional_ok [OF d] by auto
  show "vw_files w' = vw_files w" using looks_files(3) d unfolding looks_def w' by (metis fst_conv)
qed

lemma open_reads:
  assumes "store_open name n W = (W', Inr s)"
  shows "vw_files W SnapshotFile = map_option Regular (vs_disk s)" "vs_network s = n" "\<not> vs_unusable s"
    "vw_files (vs_world s) SnapshotFile = vw_files W SnapshotFile"
    "case vs_disk s of None \<Rightarrow> vs_session s = None | Some bs \<Rightarrow> \<exists>x. vs_session s = Some x \<and> vault_from_bytes bs = Inr x"
proof -
  obtain W1 where b: "prepare_directory name W = (W1, Inr ())" and r: "open_session n W1 = (W', Inr s)"
    using assms by (auto simp: store_open_def sr_bind_Inr)
  have same: "vw_files W1 SnapshotFile = vw_files W SnapshotFile"
    using spares_prepare b unfolding spares_def by (metis fst_conv)
  obtain v disk W2 where q: "read_session W1 = (W2, Inr (v, disk))"
    and s: "s = \<lparr>vs_network = n, vs_session = v, vs_disk = disk, vs_unusable = False, vs_world = W2\<rparr>"
    using r by (auto simp: open_session_def split: prod.splits sum.splits)
  show "vw_files W SnapshotFile = map_option Regular (vs_disk s)" "vs_network s = n" "\<not> vs_unusable s"
    "vw_files (vs_world s) SnapshotFile = vw_files W SnapshotFile"
    using read_session_ok(1,2) [OF q] same by (simp_all add: s)
  show "case vs_disk s of None \<Rightarrow> vs_session s = None | Some bs \<Rightarrow> \<exists>x. vs_session s = Some x \<and> vault_from_bytes bs = Inr x"
    using read_session_ok(3) [OF q] by (cases disk) (simp_all add: s)
qed

lemma open_holds:
  assumes o: "store_open name (w_network w) W = (W', Inr s)" and bs: "vw_files W SnapshotFile = Some (Regular bs)"
    and w: "opens_to C L J pw w bs"
  shows "holds C L J pw w s \<and> on_file s \<and> \<not> vs_unusable s"
proof -
  have d: "vs_disk s = Some bs" using open_reads(1) [OF o] bs by (cases "vs_disk s") auto
  obtain x where x: "vs_session s = Some x" "vault_from_bytes bs = Inr x" using open_reads(5) [OF o] d by auto
  have "x = \<lparr>va_sealed = bs, va_unlocked = None\<rparr>" using x(2) by (auto simp: vault_from_bytes_def res_simps)
  then show ?thesis
    using d x w open_reads(2,3,4) [OF o] bs by (simp add: holds_def on_file_def)
qed

text \<open>
  At any moment of an edit the file opens to the wallet of before or to the edited one, so a
  store that is opened after a crash holds one of the two.
\<close>

definition opens_one_of ::
  "('p, 's) crypto \<Rightarrow> vault_lib \<Rightarrow> wallet_json \<Rightarrow> string \<Rightarrow> ('s wallet \<Rightarrow> bool) \<Rightarrow> vfiles \<Rightarrow> bool" where
  "opens_one_of C L J pw N fs \<longleftrightarrow> (\<exists>w bs. N w \<and> fs SnapshotFile = Some (Regular bs) \<and> opens_to C L J pw w bs)"

lemma old_or_new_opens:
  assumes "holds C L J pw w s0" and "on_file s0" and "since (old_or_new C L J pw N s0) (vs_world s0) s"
  shows "since (opens_one_of C L J pw (\<lambda>w'. w' = w \<or> N w')) (vs_world s0) s"
proof (rule since_mono [OF assms(3)])
  fix fs
  obtain bs where "vw_files (vs_world s0) SnapshotFile = Some (Regular bs)" "opens_to C L J pw w bs"
    using holds_disk [OF assms(1)] assms(2) by (auto simp: on_file_def)
  then show "old_or_new C L J pw N s0 fs \<Longrightarrow> opens_one_of C L J pw (\<lambda>w'. w' = w \<or> N w') fs"
    unfolding old_or_new_def opens_one_of_def by metis
qed

lemma update_outcome:
  assumes laws: "vault_lib_ok L" "json_ok J" "json_text_ok J" and h: "holds C L J pw w s" "on_file s"
    and e: "edit_ok C edit" "draw_ok 24 nonce" and u: "store_update C L J nonce edit s = (s', r)"
  shows "r = Inr x \<Longrightarrow> \<exists>w'. edit w = Inr (w', x) \<and> holds C L J pw w' s' \<and> on_file s'"
    "r = Inl err \<Longrightarrow> vs_unusable s' \<or> (holds C L J pw w s' \<and> on_file s')"
    "since (opens_one_of C L J pw (\<lambda>w'. w' = w \<or> (\<exists>x. edit w = Inr (w', x)))) (vs_world s) (vs_world s')"
proof -
  note t = update_triple [OF laws h(1) e]
  show "\<exists>w'. edit w = Inr (w', x) \<and> holds C L J pw w' s' \<and> on_file s'" if "r = Inr x"
    using triple_ok [OF t unmoved_refl] u that by (auto simp: moved_def)
  show "vs_unusable s' \<or> (holds C L J pw w s' \<and> on_file s')" if "r = Inl err"
    using triple_err [OF t unmoved_refl] u that h by (auto simp: failed_def same_store_def on_file_def holds_def)
  show "since (opens_one_of C L J pw (\<lambda>w'. w' = w \<or> (\<exists>x. edit w = Inr (w', x)))) (vs_world s) (vs_world s')"
  proof (rule old_or_new_opens [OF h], cases r)
    case (Inl e)
    then show "since (old_or_new C L J pw (\<lambda>w'. \<exists>x. edit w = Inr (w', x)) s) (vs_world s) (vs_world s')"
      using triple_err [OF t unmoved_refl] u by (auto simp: failed_def)
  next
    case (Inr y)
    then have "since (old_or_new C L J pw (\<lambda>w'. edit w = Inr (w', y)) s) (vs_world s) (vs_world s')"
      using triple_ok [OF t unmoved_refl] u by (auto simp: moved_def)
    then show "since (old_or_new C L J pw (\<lambda>w'. \<exists>x. edit w = Inr (w', x)) s) (vs_world s) (vs_world s')"
      by (rule since_mono) (auto simp: old_or_new_def)
  qed
qed

end
