(* ===== verification/Example_Vault.thy ===== *)
theory Example_Vault
  imports Example_Wallet Vault_Enrol
begin

text \<open>
  A vault of the wallet of the examples, under a cipher that appends a tag, in a world where no
  call fails.
\<close>

definition toy_cipher :: vault_lib where
  "toy_cipher =
     \<lparr>vl_kdf = \<lambda>pw salt. Some (pw @ salt), vl_seal = \<lambda>k n a m. Some (m @ replicate 16 0),
      vl_open = \<lambda>k n a c. Some (take (length c - 16) c)\<rparr>"

lemma toy_cipher_ok: "vault_lib_ok toy_cipher"
  by (simp add: vault_lib_ok_def toy_cipher_def TAG_LEN_def)

text \<open>The wallet with a coin set aside, and JSON for both.\<close>

definition toy_reserving :: "u64 wallet" where
  "toy_reserving = set_db (\<lambda>db. db\<lparr>wf_reserved := [''x'']\<rparr>) toy_wallet"

definition toy_reserving_export :: "u32 \<times> string \<times> string \<times> wallet_file" where
  "toy_reserving_export = (1, ''devnet'', hex_encode (replicate 32 1), w_db toy_reserving)"

definition toy_vault_json :: wallet_json where
  "toy_vault_json =
     \<lparr>tx_to_json = \<lambda>_. None, tx_of_json = \<lambda>_. None,
      export_json = \<lambda>x. if x = toy_export then Some ''wallet'' else if x = toy_reserving_export then Some ''held'' else None,
      import_json = \<lambda>s. if s = ''wallet'' then Some toy_export else if s = ''held'' then Some toy_reserving_export else None\<rparr>"

lemma toy_vault_json_ok: "json_ok toy_vault_json"
  by (auto simp: json_ok_def toy_vault_json_def)

lemma utf8_ascii_step: "b < 128 \<Longrightarrow> utf8_valid (b # bs) = utf8_valid bs"
  by (simp add: utf8_valid.simps)

lemma toy_vault_json_text: "json_text_ok toy_vault_json"
proof -
  have "utf8_valid []" by (subst utf8_valid.simps) simp
  then show ?thesis by (auto simp: json_text_ok_def toy_vault_json_def str_bytes_def utf8_ascii_step)
qed

lemma toy_vaultable: "vaultable toy toy_wallet" "vaultable toy toy_reserving"
  using toy_keys_ok by (simp_all add: vaultable_def toy_wallet_def toy_reserving_def in_memory_def set_db_def
      wallet_file_default_def journal_default_def journal_ok_def journal_validate_def ensure_def)

definition toy_password :: string where "toy_password = ''correct horse''"

definition toy_vault :: "u64 vault" where
  "toy_vault = \<lparr>va_sealed = header_prefix Devnet (replicate 16 7) @ replicate 24 9 @ str_bytes ''wallet'' @ replicate 16 0,
     va_unlocked = Some \<lparr>ul_key = str_bytes toy_password @ replicate 16 7, ul_prefix = header_prefix Devnet (replicate 16 7),
        ul_wallet = toy_wallet\<rparr>\<rparr>"

definition toy_world :: vworld where
  "toy_world = \<lparr>vw_files = [SnapshotFile \<mapsto> Regular (va_sealed toy_vault), SeedFile \<mapsto> Regular LEGACY_TOMBSTONE],
     vw_past = [], vw_fails = \<lambda>_. False, vw_cut = \<lambda>_. 0, vw_random = \<lambda>_. [1], vw_time = 0, vw_pid = ''1'', vw_held = True\<rparr>"

definition toy_store :: "u64 vault_store" where
  "toy_store = \<lparr>vs_network = Devnet, vs_session = Some toy_vault, vs_disk = Some (va_sealed toy_vault),
     vs_unusable = False, vs_world = toy_world\<rparr>"

definition toy_edit :: "u64 wallet \<Rightarrow> vs_error + u64 wallet \<times> nat" where
  "toy_edit w = (if w = toy_wallet then Inr (toy_reserving, 5) else Inl EditRefused)"

lemma toy_edit_ok: "edit_ok toy toy_edit"
  by (simp add: edit_ok_def toy_edit_def toy_vaultable)

lemma toy_policy: "password_policy toy_password = Inr ()"
proof -
  have "trim toy_password = toy_password"
    by (rule trim_solid) (simp add: toy_password_def solid_ascii)
  moreover have "char_count toy_password = 13"
    unfolding toy_password_def char_count_def by code_simp
  ultimately show ?thesis by (simp add: password_policy_def ensure_def) (simp add: toy_password_def)
qed

definition toy_key :: bytes where "toy_key = str_bytes toy_password @ replicate 16 7"

lemma toy_derives: "derive_key toy_cipher toy_password (replicate 16 7) = Inr toy_key"
  by (simp add: derive_key_def toy_policy toy_cipher_def ok_or_def toy_key_def)

lemma toy_session: "session_ok toy_cipher toy_password
    \<lparr>ul_key = toy_key, ul_prefix = header_prefix Devnet (replicate 16 7), ul_wallet = toy_wallet\<rparr>"
  unfolding session_ok_def
  by (intro exI [of _ "replicate 16 7"]) (simp add: toy_derives toy_wallet_def set_db_def in_memory_def)

lemma toy_vault_exports: "export_state toy_vault_json toy_wallet = Inr ''wallet''"
  by (simp add: export_state_def toy_vault_json_def toy_export_def toy_wallet_def set_db_def in_memory_def toy_keys_def
      keys_from_seed_def ok_or_def)

lemma toy_encrypts:
  "encrypt toy_cipher toy_vault_json (Some (replicate 24 9))
     \<lparr>ul_key = toy_key, ul_prefix = header_prefix Devnet (replicate 16 7), ul_wallet = toy_wallet\<rparr> = Inr (va_sealed toy_vault)"
  using header_prefix_parts(6) [of "replicate 16 7" Devnet] toy_vault_exports
  by (simp add: encrypt_def exported_def ok_or_def toy_cipher_def toy_vault_def toy_wallet_def set_db_def in_memory_def
      MAX_PLAINTEXT_BYTES_def)

lemma toy_opens: "opens_to toy toy_cipher toy_vault_json toy_password toy_wallet (va_sealed toy_vault)"
  using encrypt_opens [OF toy_cipher_ok toy_vault_json_ok toy_vault_json_text toy_session _ toy_encrypts, of toy] toy_vaultable
  by (simp add: opens_to_def draw_ok_def)

lemma toy_creates:
  "vault_create toy toy_cipher toy_vault_json (Some (replicate 16 7)) (Some (replicate 24 9)) toy_wallet toy_password = Inr toy_vault"
proof -
  have i: "imported toy toy_vault_json ''wallet'' = Inr toy_wallet"
    using export_imports [OF toy_vault_json_ok toy_vaultable(1) toy_vault_exports]
    by (simp add: imported_def MAX_PLAINTEXT_BYTES_def)
  have p: "new_prefix (Some (replicate 16 7)) Devnet = Inr (header_prefix Devnet (replicate 16 7))"
    by (simp add: new_prefix_def ok_or_def header_prefix_def toy_wallet_def set_db_def in_memory_def)
  show ?thesis
    using toy_encrypts header_prefix_parts(8) [of "replicate 16 7" Devnet] toy_vault_exports toy_derives
    by (simp add: vault_create_def toy_policy exported_def i p MAX_PLAINTEXT_BYTES_def Let_def)
      (simp add: toy_vault_def toy_key_def)
qed

lemma toy_holds: "holds toy toy_cipher toy_vault_json toy_password toy_wallet toy_store" "on_file toy_store"
  using toy_opens toy_session toy_vaultable
  by (auto simp: holds_def on_file_def toy_store_def toy_world_def toy_vault_def toy_key_def)

end
