(* ===== verification/Node_State.thy ===== *)
theory Node_State
  imports Wire "HOL-Library.AList" Peer_Address Mempool Store Reorg
begin

text \<open>
  \<open>crates/nightfall-node/src/session.rs\<close>, the pool of live sockets and who gets what, and
  \<open>runtime.rs\<close>: the state of a node and the operations that touch nothing but it (the address
  book, what is dialled and published, the height of the best peer, when mining waits, relay of
  transactions, saving).

  A hash map or set is a list without repeats; the list is the order in which this process
  iterates, which the hasher decides in the code.  What a function sends is returned as actions,
  draws of the random generator are arguments; a writer that fails ends its session and is not
  modelled.  What the node takes from outside is a \<open>node_env\<close>; \<open>ne_order\<close> is the order in which a
  fresh hash set is iterated.  Logging, wake-ups of waiting threads and statistics of the miner
  are not modelled.
\<close>

section \<open>Hash sets\<close>

definition hs_insert :: "'a \<Rightarrow> 'a list \<Rightarrow> 'a list" where
  "hs_insert x xs = (if x \<in> set xs then xs else xs @ [x])"

definition hs_remove :: "'a \<Rightarrow> 'a list \<Rightarrow> 'a list" where
  "hs_remove x xs = filter (\<lambda>y. y \<noteq> x) xs"

lemma hs_insert_set [simp]: "set (hs_insert x xs) = insert x (set xs)"
  by (auto simp: hs_insert_def)

lemma hs_insert_distinct [simp]: "distinct xs \<Longrightarrow> distinct (hs_insert x xs)"
  by (simp add: hs_insert_def)

lemma hs_remove_set [simp]: "set (hs_remove x xs) = set xs - {x}"
  by (auto simp: hs_remove_def)

lemma hs_remove_distinct [simp]: "distinct xs \<Longrightarrow> distinct (hs_remove x xs)"
  by (simp add: hs_remove_def)

section \<open>The pool\<close>

datatype action =
    Send string peer_msg | SendBlock string block | SendTx string transaction | Disconnect string
  | DialBlock string block | DialTx string transaction | ReorgFetch string

record session =
  ss_key :: string
  ss_outbound :: bool

type_synonym pool = "(string \<times> session) list"

definition outbound_key :: "string \<Rightarrow> string" where "outbound_key addr = ''out:'' @ addr"
definition inbound_key :: "string \<Rightarrow> string" where "inbound_key label = ''in:'' @ label"

definition pool_insert :: "string \<Rightarrow> bool \<Rightarrow> pool \<Rightarrow> pool \<times> session" where
  "pool_insert key outbound p =
     (let s = \<lparr>ss_key = key, ss_outbound = outbound\<rparr> in (AList.update key s p, s))"

definition pool_remove :: "string \<Rightarrow> pool \<Rightarrow> pool" where
  "pool_remove key p = AList.delete key p"

definition pool_contains :: "string \<Rightarrow> pool \<Rightarrow> bool" where
  "pool_contains key p \<longleftrightarrow> map_of p key \<noteq> None"

definition pool_get :: "string \<Rightarrow> pool \<Rightarrow> session option" where
  "pool_get key p = map_of p key"

definition pool_len :: "pool \<Rightarrow> nat" where "pool_len p = length p"
definition pool_is_empty :: "pool \<Rightarrow> bool" where "pool_is_empty p \<longleftrightarrow> pool_len p = 0"
definition pool_all :: "pool \<Rightarrow> session list" where "pool_all p = map snd p"

definition outbound_count :: "pool \<Rightarrow> nat" where
  "outbound_count p = length (filter (\<lambda>e. ss_outbound (snd e)) p)"

definition outbound_keys :: "pool \<Rightarrow> string list" where
  "outbound_keys p = map (ss_key \<circ> snd) (filter (\<lambda>e. ss_outbound (snd e)) p)"

definition has_outbound_to :: "string \<Rightarrow> pool \<Rightarrow> bool" where
  "has_outbound_to addr p \<longleftrightarrow> pool_contains (outbound_key addr) p"

definition pool_ok :: "pool \<Rightarrow> bool" where
  "pool_ok p \<longleftrightarrow> distinct (map fst p) \<and> (\<forall>e \<in> set p. ss_key (snd e) = fst e)"

lemma pool_ok_Nil [simp]: "pool_ok []"
  by (simp add: pool_ok_def)

lemma update_entries: "set (AList.update k v es) \<subseteq> insert (k, v) (set es)"
  by (induction es) auto

lemma length_update: "length (AList.update k v es) \<le> Suc (length es)"
  by (induction es) auto

lemma pool_insert_ok: "pool_ok p \<Longrightarrow> pool_ok (fst (pool_insert key ob p))"
  using update_entries [of key "\<lparr>ss_key = key, ss_outbound = ob\<rparr>" p]
  by (auto simp: pool_ok_def pool_insert_def Let_def AList.distinct_update)

lemma pool_remove_ok: "pool_ok p \<Longrightarrow> pool_ok (pool_remove key p)"
  by (auto simp: pool_ok_def pool_remove_def AList.delete_eq distinct_map_filter)

section \<open>Relay\<close>

definition fanout_block :: "session list \<Rightarrow> block \<Rightarrow> action list" where
  "fanout_block ss b = map (\<lambda>s. SendBlock (ss_key s) b) ss"

definition fluff_tx :: "session list \<Rightarrow> transaction \<Rightarrow> string option \<Rightarrow> action list" where
  "fluff_tx ss t exclude = map (\<lambda>s. SendTx (ss_key s) t) (filter (\<lambda>s. exclude \<noteq> Some (ss_key s)) ss)"

definition fanout_tx :: "session list \<Rightarrow> transaction \<Rightarrow> action list" where
  "fanout_tx ss t = fluff_tx ss t None"

definition pick_stem_peer :: "nat \<Rightarrow> session list \<Rightarrow> string option \<Rightarrow> session option" where
  "pick_stem_peer draw ss exclude =
     (let outbound = filter (\<lambda>s. ss_outbound s \<and> exclude \<noteq> Some (ss_key s)) ss;
          candidates = (if outbound = [] then filter (\<lambda>s. exclude \<noteq> Some (ss_key s)) ss else outbound)
      in if candidates = [] then None else Some (candidates ! (draw mod length candidates)))"

definition stem_tx :: "nat \<Rightarrow> session list \<Rightarrow> transaction \<Rightarrow> string option \<Rightarrow> action list option" where
  "stem_tx draw ss t exclude =
     (case pick_stem_peer draw ss exclude of None \<Rightarrow> None | Some s \<Rightarrow> Some [SendTx (ss_key s) t])"

text \<open>The stem hop is one live session other than the one the transaction came from, outbound if there is one.\<close>

lemma pick_stem_peer_Some:
  assumes "pick_stem_peer draw ss exclude = Some s"
  shows "s \<in> set ss" "exclude \<noteq> Some (ss_key s)"
    "(\<exists>s' \<in> set ss. ss_outbound s' \<and> exclude \<noteq> Some (ss_key s')) \<Longrightarrow> ss_outbound s"
proof -
  let ?ob = "filter (\<lambda>s. ss_outbound s \<and> exclude \<noteq> Some (ss_key s)) ss"
  let ?any = "filter (\<lambda>s. exclude \<noteq> Some (ss_key s)) ss"
  let ?c = "if ?ob = [] then ?any else ?ob"
  have ne: "?c \<noteq> []" and s: "s = ?c ! (draw mod length ?c)"
    using assms by (auto simp: pick_stem_peer_def Let_def split: if_splits)
  have mem: "s \<in> set ?c" unfolding s using ne by (intro nth_mem mod_less_divisor) simp
  then show "s \<in> set ss" "exclude \<noteq> Some (ss_key s)" by (auto split: if_splits)
  assume "\<exists>s' \<in> set ss. ss_outbound s' \<and> exclude \<noteq> Some (ss_key s')"
  then have "?ob \<noteq> []" by (auto simp: filter_empty_conv)
  then show "ss_outbound s" using mem by (auto split: if_splits)
qed

lemma pick_stem_peer_None: "pick_stem_peer draw ss exclude = None \<longleftrightarrow> (\<forall>s \<in> set ss. exclude = Some (ss_key s))"
  by (auto simp: pick_stem_peer_def Let_def filter_empty_conv)

section \<open>The state of a node\<close>

definition MAX_PEERS :: nat where [params]: "MAX_PEERS = 128"
definition MAX_PEERS_PER_MSG :: nat where [params]: "MAX_PEERS_PER_MSG = 32"
definition IBD_BEHIND :: u64 where [params]: "IBD_BEHIND = 8"
definition INTRO_GRACE_SECS :: u64 where [params]: "INTRO_GRACE_SECS = 30"
definition MAX_OUTBOUND_EXTRA :: nat where [params]: "MAX_OUTBOUND_EXTRA = 6"
definition PEER_HEIGHT_TTL_SECS :: u64 where [params]: "PEER_HEIGHT_TTL_SECS = 120"
definition MAX_CATCHUP_WAIT_SECS :: u64 where [params]: "MAX_CATCHUP_WAIT_SECS = 600"
definition SLEEP_GAP_SECS :: u64 where [params]: "SLEEP_GAP_SECS = 60"
definition DANDELION_EMBARGO_MIN :: u64 where [params]: "DANDELION_EMBARGO_MIN = 12"
definition DANDELION_EMBARGO_MAX :: u64 where [params]: "DANDELION_EMBARGO_MAX = 28"

record ('p, 's) node_env =
  ne_crypto :: "('p, 's) crypto"
  ne_genesis_json :: "genesis_config \<Rightarrow> bytes option"
  ne_wire :: json
  ne_version :: string
  ne_debug :: "peer_msg \<Rightarrow> string"
  ne_store :: store_lib
  ne_order :: "string list \<Rightarrow> string list"

record 'p node =
  nd_chain :: "'p chain"
  nd_mempool :: mempool
  nd_disk :: disk
  nd_network :: network_id
  nd_peer_addrs :: "string list"
  nd_bootstrap :: "string list"
  nd_listen_port :: u16
  nd_introducer :: bool
  nd_archive_peers :: "string list"
  nd_tip_epoch :: u64
  nd_branch :: "(bytes \<times> block) list"
  nd_best_peer_height :: u64
  nd_best_peer_seen :: u64
  nd_behind_since :: u64
  nd_peer_agents :: "(string \<times> string) list"
  nd_session_height :: "(string \<times> u64) list"
  nd_reachable_listen :: "string list"
  nd_loading :: bool
  nd_last_dial_error :: "string option"
  nd_ibd_from :: u64
  nd_ibd_buffer :: "(u64, block list) omap"
  nd_reorg_in_flight :: bool
  nd_last_reorg_fetch :: "(string \<times> u64) list"
  nd_last_wall_tick :: u64
  nd_sessions :: pool
  nd_tip_gen :: u64
  nd_stem_embargo :: "(string \<times> u64) list"
  nd_confirmed_peers :: "string list"
  nd_stalled_on_fork :: bool
  nd_fork_rewind :: u64
  nd_prune_keep :: "nat option"
  nd_proxy :: "string option"
  nd_miner :: "address option"
  nd_mining :: bool
  nd_blocks_found :: u64
  nd_idle_reason :: nat

section \<open>Heights\<close>

definition our_height :: "'p node \<Rightarrow> u64" where
  "our_height g = (case tip_height (nd_chain g) of Some h \<Rightarrow> h | None \<Rightarrow> 0)"

definition next_needed_height :: "'p node \<Rightarrow> u64" where
  "next_needed_height g = (case tip_height (nd_chain g) of Some h \<Rightarrow> sat_add h 1 | None \<Rightarrow> 0)"

definition behind_a_peer :: "'p node \<Rightarrow> bool" where
  "behind_a_peer g \<longleftrightarrow> our_height g < nd_best_peer_height g"

definition peer_covers_height :: "u64 \<Rightarrow> u64 \<Rightarrow> bool" where
  "peer_covers_height peer_height next \<longleftrightarrow> next \<le> peer_height"

definition note_peer_height :: "u64 \<Rightarrow> u64 \<Rightarrow> 'p node \<Rightarrow> 'p node" where
  "note_peer_height now height g0 =
     (let g = (if PEER_HEIGHT_TTL_SECS < sat_sub now (nd_best_peer_seen g0) then g0\<lparr>nd_best_peer_height := 0\<rparr> else g0);
          ours = our_height g;
          was_behind = ours < nd_best_peer_height g;
          g1 = (if nd_best_peer_height g < height then g\<lparr>nd_best_peer_height := height\<rparr> else g);
          g2 = (if nd_best_peer_height g1 \<le> height then g1\<lparr>nd_best_peer_seen := now\<rparr> else g1)
      in if ours < nd_best_peer_height g2 \<and> \<not> was_behind then g2\<lparr>nd_behind_since := now\<rparr> else g2)"

section \<open>When mining waits\<close>

definition mining_should_wait :: "u64 \<Rightarrow> u64 \<Rightarrow> u64 \<Rightarrow> u64 \<Rightarrow> u64 \<Rightarrow> u64 \<Rightarrow> u64 option" where
  "mining_should_wait nblocks height best seen behind_since now =
     (if \<not> (0 < seen \<and> sat_sub now seen \<le> PEER_HEIGHT_TTL_SECS) then
        (if nblocks = 0 then None
         else if MAX_CATCHUP_WAIT_SECS < sat_sub now behind_since then None
         else Some 1)
      else if best \<le> height then None
      else Some (best - height))"

definition catchup_behind :: "u64 \<Rightarrow> 'p node \<Rightarrow> u64 option" where
  "catchup_behind now g =
     (if nd_stalled_on_fork g \<or> nd_reorg_in_flight g then Some 1
      else if nd_network g = Devnet \<and> pool_is_empty (nd_sessions g) then None
      else mining_should_wait (block_count (nd_chain g)) (our_height g) (nd_best_peer_height g)
             (nd_best_peer_seen g) (nd_behind_since g) now)"

datatype sync_hold = Synced | CatchingUp u64 | CompetingTip bool | DeadBranch u64

definition classify_sync_hold :: "bool \<Rightarrow> bool \<Rightarrow> u64 \<Rightarrow> u64 \<Rightarrow> u64 \<Rightarrow> u64 option \<Rightarrow> sync_hold" where
  "classify_sync_hold stalled in_flight fork_rewind height best catchup =
     (if stalled \<or> in_flight then
        (if of_nat MAX_REORG_DEPTH < fork_rewind then DeadBranch fork_rewind else CompetingTip in_flight)
      else
        (case catchup of None \<Rightarrow> Synced | Some n \<Rightarrow> if 0 < n then CatchingUp n else Synced))"

definition wallet_chain_settled :: "u64 \<Rightarrow> 'p node \<Rightarrow> bool" where
  "wallet_chain_settled now g \<longleftrightarrow>
     \<not> (nd_loading g \<or> nd_reorg_in_flight g \<or> nd_stalled_on_fork g
        \<or> 0 < (case catchup_behind now g of Some n \<Rightarrow> n | None \<Rightarrow> 0))
     \<and> (if \<not> pool_is_empty (nd_sessions g)
        then 0 < nd_best_peer_height g \<and> nd_best_peer_height g \<le> our_height g
        else nd_network g = Devnet \<and> nd_best_peer_height g = 0)"

definition bump_tip :: "u64 \<Rightarrow> 'p node \<Rightarrow> 'p node" where
  "bump_tip now g = g\<lparr>nd_tip_epoch := nd_tip_epoch g + 1, nd_stalled_on_fork := False, nd_fork_rewind := 0,
     nd_behind_since := now, nd_tip_gen := nd_tip_gen g + 1\<rparr>"

definition apply_clock_jump :: "u64 \<Rightarrow> 'p node \<Rightarrow> 'p node" where
  "apply_clock_jump now g =
     (if block_count (nd_chain g) = 0 then g\<lparr>nd_last_wall_tick := now\<rparr>
      else g\<lparr>nd_tip_epoch := nd_tip_epoch g + 1, nd_best_peer_height := 0, nd_best_peer_seen := 0,
             nd_behind_since := now, nd_last_wall_tick := now\<rparr>)"

section \<open>The address book\<close>

fun take_new :: "nat \<Rightarrow> string list \<Rightarrow> string list \<Rightarrow> string list" where
  "take_new room out [] = out"
| "take_new room out (a # as) =
     (if room = 0 then out
      else if a \<in> set out then take_new room out as
      else take_new (room - 1) (out @ [a]) as)"

definition outbound_dial_list :: "string list \<Rightarrow> string list \<Rightarrow> string list \<Rightarrow> nat \<Rightarrow> string list" where
  "outbound_dial_list seeds confirmed gossip max_extra =
     take_new max_extra (fold hs_insert seeds []) (confirmed @ gossip)"

definition outbound_targets :: "'p node \<Rightarrow> string list" where
  "outbound_targets g =
     outbound_dial_list (seed_nodes (nd_network g) @ nd_bootstrap g) (nd_confirmed_peers g) (nd_peer_addrs g)
       MAX_OUTBOUND_EXTRA"

definition peers_to_remember :: "(string list \<Rightarrow> string list) \<Rightarrow> string list \<Rightarrow> string list \<Rightarrow> string list" where
  "peers_to_remember order seeds confirmed = take MAX_PEERS (order (fold hs_insert (seeds @ confirmed) []))"

fun merge_from :: "nat \<Rightarrow> string list \<Rightarrow> string list \<Rightarrow> string list" where
  "merge_from cap out [] = out"
| "merge_from cap out (a # as) =
     (if \<not> is_directory_addr a \<or> a \<in> set out then merge_from cap out as
      else if cap \<le> length out + 1 then out @ [a]
      else merge_from cap (out @ [a]) as)"

definition merge_directory_peers :: "string list \<Rightarrow> string list \<Rightarrow> nat \<Rightarrow> string list" where
  "merge_directory_peers seeds reachable cap = merge_from cap [] (seeds @ reachable)"

definition publishable_peers :: "'p node \<Rightarrow> string list" where
  "publishable_peers g = merge_directory_peers (seed_nodes (nd_network g)) (nd_reachable_listen g) MAX_PEERS_PER_MSG"

definition is_compiled_seed :: "'p node \<Rightarrow> string \<Rightarrow> bool" where
  "is_compiled_seed g addr \<longleftrightarrow> addr \<in> set (seed_nodes (nd_network g))"

definition dialable_peers :: "('p, 's) node_env \<Rightarrow> 'p node \<Rightarrow> string list" where
  "dialable_peers E g =
     (let every = ne_order E (fold hs_insert (seed_nodes (nd_network g) @ nd_bootstrap g @ nd_peer_addrs g) []);
          archive = (\<lambda>a. a \<in> set (nd_archive_peers g) \<or> is_compiled_seed g a)
      in take MAX_PEERS
           (if behind_a_peer g then filter archive every @ filter (\<lambda>a. \<not> archive a) every else every))"

definition forget_incompatible :: "string \<Rightarrow> 'p node \<Rightarrow> 'p node" where
  "forget_incompatible addr g =
     g\<lparr>nd_peer_addrs := hs_remove addr (nd_peer_addrs g),
       nd_confirmed_peers := hs_remove addr (nd_confirmed_peers g),
       nd_bootstrap := hs_remove addr (nd_bootstrap g),
       nd_sessions := pool_remove (inbound_key addr) (pool_remove (outbound_key addr) (pool_remove addr (nd_sessions g)))\<rparr>"

definition mark_confirmed :: "string \<Rightarrow> 'p node \<Rightarrow> 'p node" where
  "mark_confirmed addr g =
     g\<lparr>nd_confirmed_peers := hs_insert addr (nd_confirmed_peers g), nd_peer_addrs := hs_insert addr (nd_peer_addrs g)\<rparr>"

text \<open>Addresses a peer told us, as many as there is room for.\<close>

definition learn_addr :: "string \<Rightarrow> 'p node \<Rightarrow> 'p node" where
  "learn_addr a g =
     (if parse_socket_addr a \<noteq> None \<and> length (nd_peer_addrs g) < MAX_PEERS
      then g\<lparr>nd_peer_addrs := hs_insert a (nd_peer_addrs g)\<rparr> else g)"

definition learn_addrs :: "string list \<Rightarrow> 'p node \<Rightarrow> 'p node" where
  "learn_addrs addrs g = fold learn_addr (take MAX_PEERS_PER_MSG addrs) g"

section \<open>Seats\<close>

record eviction_candidate =
  ec_key :: string
  ec_height :: "u64 option"
  ec_outbound :: bool

definition evictable :: "u64 \<Rightarrow> string \<Rightarrow> eviction_candidate \<Rightarrow> bool" where
  "evictable tip protect c \<longleftrightarrow> \<not> ec_outbound c \<and> ec_key c \<noteq> protect
     \<and> (case ec_height c of Some h \<Rightarrow> tip \<le> sat_add h IBD_BEHIND | None \<Rightarrow> True)"

definition eviction_rank :: "eviction_candidate \<Rightarrow> int" where
  "eviction_rank c = - int (unat (case ec_height c of Some h \<Rightarrow> h | None \<Rightarrow> - 1))"

definition pick_eviction_victim :: "eviction_candidate list \<Rightarrow> u64 \<Rightarrow> string \<Rightarrow> string option" where
  "pick_eviction_victim cs tip protect =
     (case sort_key eviction_rank (filter (evictable tip protect) cs) of [] \<Rightarrow> None | c # _ \<Rightarrow> Some (ec_key c))"

definition eviction_candidates :: "'p node \<Rightarrow> eviction_candidate list" where
  "eviction_candidates g =
     map (\<lambda>s. \<lparr>ec_key = ss_key s, ec_height = map_of (nd_session_height g) (ss_key s), ec_outbound = ss_outbound s\<rparr>)
       (pool_all (nd_sessions g))"

definition evict_synced_inbound :: "string \<Rightarrow> 'p node \<Rightarrow> action list \<times> bool" where
  "evict_synced_inbound protect g =
     (case pick_eviction_victim (eviction_candidates g) (our_height g) protect of
        None \<Rightarrow> ([], False)
      | Some key \<Rightarrow> if pool_get key (nd_sessions g) = None then ([], False) else ([Disconnect key], True))"

section \<open>Throttling the fetches of other branches\<close>

definition REORG_FETCH_COOLDOWN_SECS :: u64 where [params]: "REORG_FETCH_COOLDOWN_SECS = 15"
definition REORG_FETCH_MAX_PEERS :: nat where [params]: "REORG_FETCH_MAX_PEERS = 256"

definition claim_reorg_fetch_slot :: "string \<Rightarrow> u64 \<Rightarrow> (string \<times> u64) list \<Rightarrow> (string \<times> u64) list \<times> bool" where
  "claim_reorg_fetch_slot addr now m0 =
     (let m = filter (\<lambda>e. sat_sub now (snd e) < REORG_FETCH_COOLDOWN_SECS) m0 in
      if map_of m addr \<noteq> None then (m, False)
      else if REORG_FETCH_MAX_PEERS \<le> length m then (m, False)
      else (AList.update addr now m, True))"

text \<open>\<open>str::strip_prefix\<close> of the key of an outbound session.\<close>

definition session_addr :: "session \<Rightarrow> string" where
  "session_addr s = (if take 4 (ss_key s) = ''out:'' then drop 4 (ss_key s) else ss_key s)"

definition kick_reorg_fetch :: "u64 \<Rightarrow> session \<Rightarrow> 'p node \<Rightarrow> 'p node \<times> action list" where
  "kick_reorg_fetch now s g =
     (if \<not> ss_outbound s then (g, [])
      else if take 3 (session_addr s) = ''in:'' then (g, [])
      else
        (case claim_reorg_fetch_slot (session_addr s) now (nd_last_reorg_fetch g) of
           (m, got) \<Rightarrow> (g\<lparr>nd_last_reorg_fetch := m\<rparr>, if got then [ReorgFetch (session_addr s)] else [])))"

section \<open>Relay\<close>

text \<open>The draws of one relay: the stem coin, the index of the hop, the length of the embargo.\<close>

record relay_draw =
  rd_stem :: bool
  rd_index :: nat
  rd_span :: u64

definition embargo_deadline :: "u64 \<Rightarrow> u64 \<Rightarrow> u64" where
  "embargo_deadline now draw =
     now + DANDELION_EMBARGO_MIN + draw mod (DANDELION_EMBARGO_MAX - DANDELION_EMBARGO_MIN + 1)"

definition fallback_dial_block :: "string list \<Rightarrow> block \<Rightarrow> action list" where
  "fallback_dial_block peers b = map (\<lambda>a. DialBlock a b) (take 4 peers)"

definition fallback_stem_tx :: "string list \<Rightarrow> transaction \<Rightarrow> action list" where
  "fallback_stem_tx peers t = (case peers of [] \<Rightarrow> [] | a # _ \<Rightarrow> [DialTx a t])"

definition propagate_from_inner ::
  "('p, 's) node_env \<Rightarrow> relay_draw \<Rightarrow> u64 \<Rightarrow> transaction \<Rightarrow> string option \<Rightarrow> bool \<Rightarrow> 'p node \<Rightarrow> 'p node \<times> action list" where
  "propagate_from_inner E d now t from_key origin g =
     (let live = pool_all (nd_sessions g); i = hash_to_hex (txid (ne_crypto E) t);
          fluff = (if live = [] then (g, fallback_stem_tx (dialable_peers E g) t)
                   else (g\<lparr>nd_stem_embargo := AList.delete i (nd_stem_embargo g)\<rparr>, fluff_tx live t from_key)) in
      if origin \<or> rd_stem d then
        (case stem_tx (rd_index d) live t from_key of
           Some acts \<Rightarrow>
             (g\<lparr>nd_stem_embargo := AList.update i (embargo_deadline now (rd_span d)) (nd_stem_embargo g)\<rparr>, acts)
         | None \<Rightarrow> fluff)
      else fluff)"

definition announce_block :: "('p, 's) node_env \<Rightarrow> block \<Rightarrow> 'p node \<Rightarrow> action list" where
  "announce_block E b g =
     (let live = pool_all (nd_sessions g) in
      if live = [] then fallback_dial_block (dialable_peers E g) b else fanout_block live b)"

text \<open>One round of the thread that ends embargoes.\<close>

definition fluff_due :: "u64 \<Rightarrow> 'p node \<Rightarrow> 'p node \<times> action list" where
  "fluff_due now g =
     (let ids = map fst (filter (\<lambda>e. snd e \<le> now) (nd_stem_embargo g));
          txs = List.map_filter (map_of (pool_txs (nd_mempool g))) ids
      in (g\<lparr>nd_stem_embargo := fold AList.delete ids (nd_stem_embargo g)\<rparr>,
          concat (map (\<lambda>t. fluff_tx (pool_all (nd_sessions g)) t None) txs)))"

definition submit_tx ::
  "('p::ab_group_add, 's::comm_ring_1) node_env \<Rightarrow> relay_draw \<Rightarrow> u64 \<Rightarrow> transaction \<Rightarrow> 'p node
     \<Rightarrow> 'p node \<times> action list \<times> (ledger_error option + string)" where
  "submit_tx E d now t g =
     (case precheck_tx_typed (ne_crypto E) (nd_chain g) t of
        Inl e \<Rightarrow> (g, [], Inl (Some e))
      | Inr _ \<Rightarrow>
          (let i = hash_to_hex (txid (ne_crypto E) t) in
           case insert_checked (ne_crypto E) t now (nd_mempool g) of (p, outcome) \<Rightarrow>
             (case outcome of
                Added \<Rightarrow>
                  (case propagate_from_inner E d now t None True (g\<lparr>nd_mempool := p\<rparr>) of
                     (g', acts) \<Rightarrow> (g', acts, Inr i))
              | Known \<Rightarrow> (g\<lparr>nd_mempool := p\<rparr>, [], Inr i)
              | Conflict \<Rightarrow> (g\<lparr>nd_mempool := p\<rparr>, [], Inl None)
              | Full \<Rightarrow> (g\<lparr>nd_mempool := p\<rparr>, [], Inr i))))"

section \<open>Saving\<close>

definition persist_chain ::
  "('p::ab_group_add, 's::comm_ring_1) node_env \<Rightarrow> 'p node \<Rightarrow> 'p node \<times> (store_error + unit)" where
  "persist_chain E g0 =
     (let g = (case nd_prune_keep g0 of
                 None \<Rightarrow> g0
               | Some keep \<Rightarrow> g0\<lparr>nd_chain := fst (prune_keep (ne_crypto E) (nd_chain g0) keep)\<rparr>) in
      case save (ne_crypto E) (ne_store E) (nd_chain g) (nd_disk g) of (d, r) \<Rightarrow> (g\<lparr>nd_disk := d\<rparr>, r))"

end
