(* ===== verification/Node_Sync.thy ===== *)
theory Node_Sync
  imports Node_State
begin

text \<open>
  \<open>crates/nightfall-node/src/runtime.rs\<close>: how a node gets the blocks it lacks.  Pages of the
  initial download (claimed in slices, buffered out of order), branches pushed block by block,
  and a whole round with one peer on a fresh stream.  The clock is read once per operation; the
  chain a search looks at is the one at its start.  \<open>consider_branch\<close> and \<open>sync_from_peer\<close>
  verify a suffix without the lock: they are a part before, a part after, and their composition.
\<close>

definition IBD_PAGE :: u64 where [params]: "IBD_PAGE = of_nat MAX_BLOCKS_PER_REQUEST"
definition IBD_MAX_AHEAD :: u64 where [params]: "IBD_MAX_AHEAD = IBD_PAGE * 4"
definition MAX_BRANCH_BLOCKS :: nat where [params]: "MAX_BRANCH_BLOCKS = 600"
definition PUSH_BATCH :: nat where [params]: "PUSH_BATCH = 256"
definition MAX_REORG_FETCH :: nat where [params]: "MAX_REORG_FETCH = 100000"

abbreviation b_height :: "block \<Rightarrow> u64" where "b_height b \<equiv> h_height (blk_header b)"

section \<open>Pages of the initial download\<close>

text \<open>The cursor after the claim, and the height to ask for.\<close>

definition next_ibd_claim :: "u64 \<Rightarrow> u64 \<Rightarrow> u64 \<times> u64" where
  "next_ibd_claim next_needed cursor0 =
     (let cursor = (if cursor0 < next_needed then next_needed else cursor0) in
      if sat_add next_needed IBD_MAX_AHEAD \<le> cursor then (cursor, next_needed)
      else (sat_add cursor IBD_PAGE, cursor))"

definition claim_ibd_from :: "'p node \<Rightarrow> 'p node \<times> u64" where
  "claim_ibd_from g =
     (case next_ibd_claim (next_needed_height g) (nd_ibd_from g) of
        (cursor, from_height) \<Rightarrow> (g\<lparr>nd_ibd_from := cursor\<rparr>, from_height))"

definition next_ibd_claim_after_short_page :: "u64 \<Rightarrow> u64 \<times> u64" where
  "next_ibd_claim_after_short_page next_needed = next_ibd_claim next_needed next_needed"

datatype ibd_page = Applied nat | Buffered | Duplicate | Rejected

definition chain_needs :: "'p chain \<Rightarrow> u64" where
  "chain_needs ch = (case tip_height ch of Some h \<Rightarrow> sat_add h 1 | None \<Rightarrow> 0)"

lemma next_needed_chain: "next_needed_height g = chain_needs (nd_chain g)"
  by (simp add: next_needed_height_def chain_needs_def)

lemma map_of_om_shrinks: "map_of m k = Some v \<Longrightarrow> length (om_remove k m) < length m"
  by (auto simp: om_remove_def dest: map_of_SomeD intro!: length_filter_less)

text \<open>Buffered pages that now connect.\<close>

function drain_buffer ::
    "('p::ab_group_add, 's::comm_ring_1) crypto \<Rightarrow> u64 \<Rightarrow> nat \<Rightarrow> 'p chain \<Rightarrow> (u64, block list) omap
       \<Rightarrow> 'p chain \<times> (u64, block list) omap \<times> nat" where
  "drain_buffer C now applied ch buf =
     (case map_of buf (chain_needs ch) of
        None \<Rightarrow> (ch, buf, applied)
      | Some page \<Rightarrow>
          (let buf' = om_remove (chain_needs ch) buf in
           case try_ingest_blocks C ch page now of
             (ch', Inr k) \<Rightarrow>
               if 0 < k then drain_buffer C now (applied + k) ch' buf' else (ch', buf', applied)
           | (ch', Inl _) \<Rightarrow> (ch', buf', applied)))"
  by pat_completeness auto
termination
  by (relation "measure (\<lambda>(_, _, _, _, buf). length buf)") (simp_all add: map_of_om_shrinks)

declare drain_buffer.simps [simp del]

text \<open>The largest start heights leave until eight pages remain; the map is sorted by them.\<close>

definition trim_pages :: "(u64, block list) omap \<Rightarrow> (u64, block list) omap" where
  "trim_pages m = take 8 m"

definition ingested :: "consensus_error + nat \<Rightarrow> nat" where
  "ingested r = (case r of Inr k \<Rightarrow> k | Inl _ \<Rightarrow> 0)"

definition apply_ibd_page ::
    "('p::ab_group_add, 's::comm_ring_1) node_env \<Rightarrow> block list \<Rightarrow> u64 \<Rightarrow> 'p node \<Rightarrow> 'p node \<times> ibd_page" where
  "apply_ibd_page E bs now g =
     (case bs of
        [] \<Rightarrow> (g, Duplicate)
      | b # _ \<Rightarrow>
          (let start = b_height b; next = next_needed_height g in
           if next < start then
             (g\<lparr>nd_ibd_buffer := trim_pages (om_insert start bs (nd_ibd_buffer g))\<rparr>, Buffered)
           else if b_height (last bs) < next then (g, Duplicate)
           else
             (case try_ingest_blocks (ne_crypto E) (nd_chain g) bs now of
                (ch1, r) \<Rightarrow>
                  (case drain_buffer (ne_crypto E) now (ingested r) ch1 (nd_ibd_buffer g) of
                     (ch2, buf, applied) \<Rightarrow>
                       (let now_next = chain_needs ch2;
                            g' = g\<lparr>nd_chain := ch2, nd_ibd_buffer := buf,
                                   nd_ibd_from := (if nd_ibd_from g < now_next then now_next else nd_ibd_from g)\<rparr>
                        in (g', if 0 < applied then Applied applied
                                else if next < now_next then Duplicate
                                else if start = next then Rejected
                                else Duplicate))))))"

section \<open>The last block in common\<close>

definition our_hash_at :: "('p, 's) crypto \<Rightarrow> 'p chain \<Rightarrow> u64 \<Rightarrow> string option" where
  "our_hash_at C ch h = map_option hash_to_hex (hash_at C ch h)"

definition same_at :: "('p, 's) crypto \<Rightarrow> 'p chain \<Rightarrow> u64 \<Rightarrow> block \<Rightarrow> bool" where
  "same_at C ch h b \<longleftrightarrow> our_hash_at C ch h = Some (hash_to_hex (block_hash C b))"

text \<open>
  Round \<open>k\<close> of the search back steps \<open>2 ^ k\<close> below the ceiling.  \<open>ask h\<close> requests the one block
  at height \<open>h\<close>.
\<close>

function probe_back ::
    "('p, 's) crypto \<Rightarrow> 'p chain \<Rightarrow> (u64 \<Rightarrow> ('c, io_error, block list) sr) \<Rightarrow> u64 \<Rightarrow> nat \<Rightarrow> 'c
       \<Rightarrow> 'c \<times> u64 option" where
  "probe_back C ch ask ceiling k c =
     (if MAX_REORG_DEPTH < 2 ^ k then (c, None)
      else
        (case checked_sub ceiling (of_nat (2 ^ k)) of
           None \<Rightarrow> (c, None)
         | Some probe \<Rightarrow>
             (case ask probe c of
                (c', Inl _) \<Rightarrow> (c', None)
              | (c', Inr []) \<Rightarrow> (c', None)
              | (c', Inr (b # _)) \<Rightarrow>
                  if same_at C ch probe b then (c', Some probe)
                  else probe_back C ch ask ceiling (Suc k) c')))"
  by pat_completeness auto
termination
  by (relation "measure (\<lambda>(_, _, _, _, k, _). MAX_REORG_DEPTH + 1 - 2 ^ k)")
    (auto simp: not_less intro!: diff_less_mono2)

declare probe_back.simps [simp del]

text \<open>\<open>div_ceil(2)\<close> adds the remainder, 0 or 1.\<close>

definition middle :: "u64 \<Rightarrow> u64 \<Rightarrow> u64" where
  "middle lo hi = lo + ((hi - lo) div 2 + (hi - lo) mod 2)"

lemma unat_add_small: "unat a + unat b < 2 ^ 64 \<Longrightarrow> unat (a + b) = unat a + unat b" for a b :: u64
  by (simp add: unat_add_lem [THEN iffD1])

lemma unat_middle:
  assumes "lo < hi"
  shows "unat (middle lo hi) = unat lo + (unat hi - unat lo + 1) div 2"
proof -
  let ?d = "hi - lo"
  let ?e = "?d mod 2"
  have d: "unat ?d = unat hi - unat lo" using assms by (simp add: unat_sub order_less_imp_le)
  have le: "unat lo < unat hi" using assms by (simp add: word_less_nat_alt)
  have hi: "unat hi < 18446744073709551616" using unsigned_less [of hi] by simp
  have e: "unat ?e = unat ?d mod 2" using unat_mod [of ?d 2] by simp
  have h: "unat (?d div 2 + ?e) = (unat ?d + 1) div 2"
  proof -
    have "unat (?d div 2) + unat ?e = (unat ?d + 1) div 2" 
    proof -
      have "unat (?d div 2) = unat ?d div 2" using unat_div [of ?d 2] by simp
      moreover have "x div 2 + x mod 2 = (x + 1) div 2" for x :: nat by presburger
      ultimately show ?thesis unfolding e by simp
    qed
    moreover have "(unat ?d + 1) div 2 < 2 ^ 64" using d hi by simp
    ultimately show ?thesis using unat_add_small [of "?d div 2" ?e] by simp
  qed
  have "unat lo + (unat ?d + 1) div 2 < 2 ^ 64" using d hi le by simp
  then show ?thesis using unat_add_small [of lo "?d div 2 + ?e"] unfolding middle_def h d by simp
qed

text \<open>The search between a height held in common and the ceiling.\<close>

function narrow ::
    "('p, 's) crypto \<Rightarrow> 'p chain \<Rightarrow> (u64 \<Rightarrow> ('c, io_error, block list) sr) \<Rightarrow> u64 \<Rightarrow> u64 \<Rightarrow> 'c \<Rightarrow> 'c \<times> u64" where
  "narrow C ch ask lo hi c =
     (if lo < hi then
        (let mid = middle lo hi in
         case ask mid c of
           (c', Inl _) \<Rightarrow> (c', lo)
         | (c', Inr []) \<Rightarrow> (c', lo)
         | (c', Inr (b # _)) \<Rightarrow>
             if same_at C ch mid b then narrow C ch ask mid hi c'
             else if mid = 0 then (c', lo)
             else narrow C ch ask lo (mid - 1) c')
      else (c, lo))"
  by pat_completeness auto
termination
proof (relation "measure (\<lambda>(_, _, _, lo, hi, _). unat hi - unat lo)", goal_cases)
  case (2 C ch ask lo hi c mid)
  then show ?case using unat_middle [of lo hi] by (simp add: word_less_nat_alt)
next
  case (3 C ch ask lo hi c mid)
  then have "unat (mid - 1) = unat mid - 1" by (simp add: unat_minus_one)
  with 3 show ?case using unat_middle [of lo hi] by (simp add: word_less_nat_alt)
qed simp

declare narrow.simps [simp del]

definition common_ancestor ::
    "('p, 's) crypto \<Rightarrow> 'p chain \<Rightarrow> (u64 \<Rightarrow> ('c, io_error, block list) sr) \<Rightarrow> u64 \<Rightarrow> string \<Rightarrow> 'c \<Rightarrow> 'c \<times> u64" where
  "common_ancestor C ch ask peer_h peer_tip c =
     (if our_hash_at C ch peer_h = Some peer_tip then (c, peer_h)
      else
        (let ceiling = min (case tip_height ch of Some h \<Rightarrow> h | None \<Rightarrow> 0) peer_h;
             (c1, at_ceiling) =
               (if our_hash_at C ch ceiling = None then (c, False)
                else
                  (case ask ceiling c of
                     (c', Inr (b # _)) \<Rightarrow> (c', same_at C ch ceiling b)
                   | (c', _) \<Rightarrow> (c', False))) in
         if at_ceiling then (c1, ceiling)
         else
           (case probe_back C ch ask ceiling 0 c1 of
              (c2, None) \<Rightarrow> (c2, sat_sub ceiling (of_nat MAX_REORG_DEPTH + 1))
            | (c2, Some lo) \<Rightarrow> narrow C ch ask lo ceiling c2)))"

section \<open>Fetching and pushing\<close>

definition reorg_fetch_cap :: "u64 \<Rightarrow> u64 \<Rightarrow> nat" where
  "reorg_fetch_cap peer_height from_height =
     (if peer_height < from_height then 0
      else unat (min (sat_add (sat_sub peer_height from_height) 1) (of_nat MAX_REORG_FETCH)))"

definition next_fetch_height :: "u64 \<Rightarrow> u64 option" where
  "next_fetch_height h = checked_add h 1"

definition continue_fetch_after_page :: "nat \<Rightarrow> u64 \<Rightarrow> u64 \<Rightarrow> bool" where
  "continue_fetch_after_page received following peer_height \<longleftrightarrow> 0 < received \<and> following \<le> peer_height"

function fetch_loop :: "json \<Rightarrow> nat \<Rightarrow> u64 \<Rightarrow> block list \<Rightarrow> u64 \<Rightarrow> block list io" where
  "fetch_loop J cap peer_height every start c =
     (if length every < cap then
        (case request_blocks J start MAX_BLOCKS_PER_REQUEST c of
           (c', Inl e) \<Rightarrow> (c', Inl e)
         | (c', Inr batch) \<Rightarrow>
             if batch = [] then (c', Inr every)
             else
               (case next_fetch_height (b_height (last batch)) of
                  None \<Rightarrow> (c', Inr (every @ batch))
                | Some h \<Rightarrow>
                    if continue_fetch_after_page (length batch) h peer_height
                    then fetch_loop J cap peer_height (every @ batch) h c'
                    else (c', Inr (every @ batch))))
      else (c, Inr every))"
  by pat_completeness auto
termination
  by (relation "measure (\<lambda>(_, cap, _, every, _). cap - length every)")
    (auto simp: continue_fetch_after_page_def simp flip: length_greater_0_conv)

declare fetch_loop.simps [simp del]

definition fetch_blocks_from :: "json \<Rightarrow> u64 \<Rightarrow> u64 \<Rightarrow> block list io" where
  "fetch_blocks_from J from_height peer_height c =
     (case fetch_loop J (reorg_fetch_cap peer_height from_height) peer_height [] from_height c of
        (c', Inl e) \<Rightarrow> (c', Inl e)
      | (c', Inr every) \<Rightarrow> (c', Inr (take (reorg_fetch_cap peer_height from_height) every)))"

text \<open>The blocks a lagging peer is sent, in order.\<close>

function push_plan :: "'p chain \<Rightarrow> u64 \<Rightarrow> nat \<Rightarrow> block list" where
  "push_plan ch start sent =
     (if sent < PUSH_BATCH then
        (let batch = blocks_from ch start (min (PUSH_BATCH - sent) MAX_BLOCKS_PER_REQUEST) in
         if batch = [] then []
         else batch @ push_plan ch (b_height (last batch) + 1) (sent + length batch))
      else [])"
  by pat_completeness auto
termination
  by (relation "measure (\<lambda>(_, _, sent). PUSH_BATCH - sent)") (auto simp flip: length_greater_0_conv)

declare push_plan.simps [simp del]

fun push_each :: "('p, 's) crypto \<Rightarrow> json \<Rightarrow> block list \<Rightarrow> conn \<Rightarrow> conn" where
  "push_each C J [] c = c"
| "push_each C J (b # bs) c =
     (case broadcast_block C J b c of
        (c', Inl _) \<Rightarrow> c'
      | (c', Inr _) \<Rightarrow> push_each C J bs c')"

definition push_blocks_to :: "('p, 's) crypto \<Rightarrow> json \<Rightarrow> 'p chain \<Rightarrow> u64 \<Rightarrow> conn \<Rightarrow> conn" where
  "push_blocks_to C J ch from_height c = push_each C J (push_plan ch from_height 0) c"

definition push_blocks_via_session :: "session \<Rightarrow> u64 \<Rightarrow> 'p node \<Rightarrow> action list" where
  "push_blocks_via_session s from_height g =
     map (SendBlock (ss_key s)) (push_plan (nd_chain g) from_height 0)"

section \<open>Leaving a fork\<close>

text \<open>The mark that a suffix is being verified; at most one verification runs.\<close>

definition begin_flight :: "'p node \<Rightarrow> 'p node option" where
  "begin_flight g = (if nd_reorg_in_flight g then None else Some (g\<lparr>nd_reorg_in_flight := True\<rparr>))"

definition end_flight :: "'p node \<Rightarrow> 'p node" where
  "end_flight g = g\<lparr>nd_reorg_in_flight := False\<rparr>"

definition persist_quietly :: "('p::ab_group_add, 's::comm_ring_1) node_env \<Rightarrow> 'p node \<Rightarrow> 'p node" where
  "persist_quietly E g = fst (persist_chain E g)"

text \<open>Transactions the new branch made unacceptable leave the mempool.\<close>

definition reconcile_mempool :: "('p::ab_group_add, 's::comm_ring_1) node_env \<Rightarrow> 'p node \<Rightarrow> 'p node" where
  "reconcile_mempool E g =
     g\<lparr>nd_mempool := fst (drop_ids
          (unacceptable_ids (\<lambda>t. is_ok (precheck_tx_typed (ne_crypto E) (nd_chain g) t)) (nd_mempool g))
          (nd_mempool g))\<rparr>"

definition adopt_verdict ::
    "('p::ab_group_add, 's::comm_ring_1) node_env \<Rightarrow> u64 \<Rightarrow> bool
       \<Rightarrow> consensus_error + 'p suffix_reorg option \<Rightarrow> 'p node \<Rightarrow> 'p node" where
  "adopt_verdict E now clear_branch verdict g =
     (case verdict of
        Inl _ \<Rightarrow> g
      | Inr None \<Rightarrow> g
      | Inr (Some r) \<Rightarrow>
          (case splice_suffix (ne_crypto E) (nd_chain g) r of
             (ch, False) \<Rightarrow> g\<lparr>nd_chain := ch\<rparr>
           | (ch, True) \<Rightarrow>
               (let g1 = reconcile_mempool E
                           (g\<lparr>nd_chain := ch, nd_stalled_on_fork := False, nd_fork_rewind := 0\<rparr>);
                    g2 = (if clear_branch then g1\<lparr>nd_branch := []\<rparr> else g1)
                in persist_quietly E (bump_tip now g2))))"

section \<open>A branch pushed block by block\<close>

definition remember_branch :: "block \<Rightarrow> 'p node \<Rightarrow> 'p node" where
  "remember_branch b g =
     g\<lparr>nd_branch := AList.update (h_prev_hash (blk_header b)) b
         (if MAX_BRANCH_BLOCKS \<le> length (nd_branch g) then [] else nd_branch g)\<rparr>"

fun walk_branch :: "('p, 's) crypto \<Rightarrow> (bytes \<times> block) list \<Rightarrow> nat \<Rightarrow> bytes \<Rightarrow> block list" where
  "walk_branch C m 0 cursor = []"
| "walk_branch C m (Suc n) cursor =
     (case map_of m cursor of
        None \<Rightarrow> []
      | Some b \<Rightarrow> b # walk_branch C m n (block_hash C b))"

definition fork_root :: "('p, 's) crypto \<Rightarrow> 'p node \<Rightarrow> block option" where
  "fork_root C g = List.find (\<lambda>b. map_of (nd_branch g) (block_hash C b) \<noteq> None) (rev (blocks (nd_chain g)))"

text \<open>Up to where the lock is given back: what is to be verified, if anything.\<close>

definition consider_prepare ::
    "('p::ab_group_add, 's::comm_ring_1) node_env \<Rightarrow> block \<Rightarrow> 'p node \<Rightarrow> 'p node \<times> ('p suffix_trial \<times> block list) option" where
  "consider_prepare E b g0 =
     (let C = ne_crypto E; g = remember_branch b g0; ch = nd_chain g in
      case fork_root C g of
        None \<Rightarrow> (g, None)
      | Some root \<Rightarrow>
          (let ancestor = b_height root;
               sfx = walk_branch C (nd_branch g) (MAX_BRANCH_BLOCKS + 1) (block_hash C root);
               rewind = unat (sat_sub (our_height g) ancestor) in
           if sfx = [] then (g, None)
           else if MAX_REORG_DEPTH < rewind
             then (g\<lparr>nd_stalled_on_fork := True, nd_fork_rewind := of_nat rewind\<rparr>, None)
           else
             (case rewound_work ch rewind of
                None \<Rightarrow> (g, None)
              | Some w \<Rightarrow>
                  if sat_add (sat_sub (total_work ch) w) (\<Sum>x \<leftarrow> sfx. blk_work x) \<le> total_work ch
                  then (g, None)
                  else
                    (case prepare_suffix_trial C (ne_genesis_json E) ch ancestor of
                       Inl _ \<Rightarrow> (g, None)
                     | Inr t \<Rightarrow> (g, Some (t, sfx))))))"

definition consider_branch ::
    "('p::ab_group_add, 's::comm_ring_1) node_env \<Rightarrow> u64 \<Rightarrow> block \<Rightarrow> 'p node \<Rightarrow> 'p node" where
  "consider_branch E now b g0 =
     (case consider_prepare E b g0 of
        (g, None) \<Rightarrow> g
      | (g, Some (t, sfx)) \<Rightarrow>
          (case begin_flight g of
             None \<Rightarrow> g
           | Some g' \<Rightarrow> end_flight (adopt_verdict E now True (finish_suffix (ne_crypto E) t sfx now) g')))"

section \<open>A round with one peer\<close>

definition ask_peer :: "('p, 's) node_env \<Rightarrow> u64 \<Rightarrow> block list io" where
  "ask_peer E h = request_blocks (ne_wire E) h 1"

definition prepare_reorg ::
    "('p::ab_group_add, 's::comm_ring_1) node_env \<Rightarrow> u64 \<Rightarrow> 'p node \<Rightarrow> 'p node \<times> 'p suffix_trial option" where
  "prepare_reorg E ancestor g =
     (let our_tip = our_height g in
      if our_tip < ancestor then (g\<lparr>nd_stalled_on_fork := True\<rparr>, None)
      else
        (let rewind = our_tip - ancestor; g1 = g\<lparr>nd_fork_rewind := rewind\<rparr> in
         if MAX_REORG_DEPTH < unat rewind then (g1\<lparr>nd_stalled_on_fork := True\<rparr>, None)
         else if is_pruned (nd_chain g) \<and> ancestor < first_height (nd_chain g)
           then (g1\<lparr>nd_stalled_on_fork := True\<rparr>, None)
         else
           (case prepare_suffix_trial (ne_crypto E) (ne_genesis_json E) (nd_chain g) ancestor of
              Inl _ \<Rightarrow> (g1\<lparr>nd_stalled_on_fork := True\<rparr>, None)
            | Inr t \<Rightarrow> (g1, Some t))))"

definition reorg_from_peer ::
    "('p::ab_group_add, 's::comm_ring_1) node_env \<Rightarrow> u64 \<Rightarrow> u64 \<Rightarrow> string
       \<Rightarrow> ('p node \<times> conn, io_error, unit) sr" where
  "reorg_from_peer E now peer_h peer_tip = (\<lambda>(g, c).
     case common_ancestor (ne_crypto E) (nd_chain g) (ask_peer E) peer_h peer_tip c of
       (c1, ancestor) \<Rightarrow>
         (case prepare_reorg E ancestor g of
            (g1, None) \<Rightarrow> ((g1, c1), Inr ())
          | (g1, Some t) \<Rightarrow>
              (case begin_flight g1 of
                 None \<Rightarrow> ((g1, c1), Inr ())
               | Some g2 \<Rightarrow>
                   (case fetch_blocks_from (ne_wire E) (sat_add ancestor 1) peer_h c1 of
                      (c2, Inl e) \<Rightarrow> ((end_flight g2, c2), Inl e)
                    | (c2, Inr sfx) \<Rightarrow>
                        if sfx = [] then ((end_flight g2, c2), Inr ())
                        else ((end_flight (adopt_verdict E now False
                                 (finish_suffix (ne_crypto E) t sfx now) g2), c2), Inr ())))))"

fun sync_rounds ::
    "('p::ab_group_add, 's::comm_ring_1) node_env \<Rightarrow> u64 \<Rightarrow> u64 \<Rightarrow> string \<Rightarrow> nat \<Rightarrow> u64
       \<Rightarrow> ('p node \<times> conn, io_error, unit) sr" where
  "sync_rounds E now peer_h peer_tip 0 start s = (s, Inr ())"
| "sync_rounds E now peer_h peer_tip (Suc n) start s =
     (case request_blocks (ne_wire E) start MAX_BLOCKS_PER_REQUEST (snd s) of
        (c, Inl e) \<Rightarrow> ((fst s, c), Inl e)
      | (c, Inr batch) \<Rightarrow>
          if batch = [] then ((fst s, c), Inr ())
          else
            (case try_ingest_blocks (ne_crypto E) (nd_chain (fst s)) batch now of
               (ch, r) \<Rightarrow>
                 (let g = (fst s)\<lparr>nd_chain := ch\<rparr> in
                  if 0 < ingested r then
                    (let g' = persist_quietly E (bump_tip now g) in
                     case checked_add (b_height (last batch)) 1 of
                       None \<Rightarrow> ((g', c), Inr ())
                     | Some h \<Rightarrow> sync_rounds E now peer_h peer_tip n h (g', c))
                  else if peer_tip = hash_to_hex (tip_hash (ne_crypto E) ch) then ((g, c), Inr ())
                  else reorg_from_peer E now peer_h peer_tip (g, c))))"

definition note_archive :: "string \<Rightarrow> peer_intro \<Rightarrow> 'p node \<Rightarrow> 'p node" where
  "note_archive addr intro g =
     g\<lparr>nd_archive_peers := (if intro_is_archive intro then hs_insert addr (nd_archive_peers g)
                            else hs_remove addr (nd_archive_peers g))\<rparr>"

definition greet :: "('p, 's) node_env \<Rightarrow> 'p node \<Rightarrow> peer_intro io" where
  "greet E g =
     handshake (ne_wire E) (ne_version E) (nd_network g) (genesis_hash (nd_chain g)) (our_height g)
       (tip_hash (ne_crypto E) (nd_chain g)) (nd_listen_port g) (is_pruned (nd_chain g))
       (first_height (nd_chain g))"

definition learn_from_peer :: "('p, 's) node_env \<Rightarrow> 'p node \<Rightarrow> conn \<Rightarrow> 'p node \<times> conn" where
  "learn_from_peer E g c =
     (case write_msg (ne_wire E) GetPeers c of
        (c', Inl _) \<Rightarrow> (g, c')
      | (c', Inr _) \<Rightarrow>
          (case read_msg (ne_wire E) c' of
             (c'', Inr (Peers addrs)) \<Rightarrow> (learn_addrs addrs g, c'')
           | (c'', _) \<Rightarrow> (g, c'')))"

text \<open>\<open>c\<close> is the stream \<open>connect_peer_via\<close> opened.\<close>

definition sync_from_peer ::
    "('p::ab_group_add, 's::comm_ring_1) node_env \<Rightarrow> u64 \<Rightarrow> string \<Rightarrow> ('p node \<times> conn, io_error, unit) sr" where
  "sync_from_peer E now addr = (\<lambda>(g, c).
     case greet E g c of
       (c1, Inl e) \<Rightarrow>
         (((if contains ''genesis mismatch'' (io_text e) then forget_incompatible addr g else g), c1), Inl e)
     | (c1, Inr intro) \<Rightarrow>
         (case learn_from_peer E
                 (note_peer_height now (pi_height intro) (note_archive addr intro (mark_confirmed addr g))) c1 of
            (g1, c2) \<Rightarrow>
              if pi_tip intro = hash_to_hex (tip_hash (ne_crypto E) (nd_chain g)) then ((g1, c2), Inr ())
              else if pi_height intro < our_height g then
                (case common_ancestor (ne_crypto E) (nd_chain g1) (ask_peer E) (pi_height intro) (pi_tip intro) c2 of
                   (c3, start) \<Rightarrow> ((g1, push_blocks_to (ne_crypto E) (ne_wire E) (nd_chain g1) start c3), Inr ()))
              else sync_rounds E now (pi_height intro) (pi_tip intro) 64 (next_needed_height g1) (g1, c2)))"

end
