(* ===== verification/Node_Peer.thy ===== *)
theory Node_Peer
  imports Node_Sync
begin

text \<open>
  \<open>crates/nightfall-node/src/runtime.rs\<close>: what a node does with a peer.  The answer to the
  first message of a stranger, the seat it gets, the opening of an outbound session, and one
  round of the read loop.  What is written is returned as actions; a socket that cannot be
  written ends its session and is not modelled.  \<open>ne_debug\<close> is the debug text of a message.
\<close>

section \<open>Greeting a stranger\<close>

definition wire_refusal :: "u32 \<Rightarrow> string" where
  "wire_refusal wire =
     ''wire version mismatch '' @ em_dash @ '' you speak v'' @ dec_string (unat wire)
       @ '', this network speaks v'' @ dec_string (unat WIRE_VERSION)
       @ ''. Update from https://nightfallcoin.org; your coins are unaffected.''"

definition forget_dialable :: "string \<Rightarrow> u16 \<Rightarrow> 'p node \<Rightarrow> 'p node" where
  "forget_dialable peer_label port g =
     (case dialable_addr peer_label port of None \<Rightarrow> g | Some addr \<Rightarrow> forget_incompatible addr g)"

definition learn_dialable :: "string \<Rightarrow> u16 \<Rightarrow> string \<Rightarrow> 'p node \<Rightarrow> 'p node" where
  "learn_dialable peer_label port agent g =
     (case dialable_addr peer_label port of
        None \<Rightarrow> g
      | Some addr \<Rightarrow>
          (let g1 = (if length (nd_peer_addrs g) < MAX_PEERS then mark_confirmed addr g else g) in
           if length (nd_peer_agents g1) < MAX_PEERS * 2
           then g1\<lparr>nd_peer_agents := AList.update addr agent (nd_peer_agents g1)\<rparr> else g1))"

definition set_session_height :: "string \<Rightarrow> u64 \<Rightarrow> 'p node \<Rightarrow> 'p node" where
  "set_session_height key h g = g\<lparr>nd_session_height := AList.update key h (nd_session_height g)\<rparr>"

text \<open>The reply, and the session key and height of a peer that may stay.\<close>

definition answer_hello ::
    "('p, 's) node_env \<Rightarrow> u64 \<Rightarrow> string \<Rightarrow> peer_msg \<Rightarrow> 'p node \<Rightarrow> 'p node \<times> peer_msg \<times> (string \<times> u64) option" where
  "answer_hello E now peer_label m g =
     (case m of
        Hello wire net gen peer_height _ agent listen_port _ _ \<Rightarrow>
          if wire \<noteq> WIRE_VERSION
            then (forget_dialable peer_label listen_port g, ErrorMsg (wire_refusal wire), None)
          else if net \<noteq> nd_network g then (g, ErrorMsg ''network mismatch'', None)
          else if gen \<noteq> hash_to_hex (genesis_hash (nd_chain g))
            then (forget_dialable peer_label listen_port g, ErrorMsg ''genesis mismatch'', None)
          else
            (let key = inbound_key peer_label;
                 g' = set_session_height key peer_height
                        (note_peer_height now peer_height (learn_dialable peer_label listen_port agent g))
             in (g',
                 HelloOk WIRE_VERSION (nd_network g) (hash_to_hex (genesis_hash (nd_chain g))) (our_height g')
                   (hash_to_hex (tip_hash (ne_crypto E) (nd_chain g'))) (nd_listen_port g')
                   (is_pruned (nd_chain g')) (first_height (nd_chain g')),
                 Some (key, peer_height)))
      | other \<Rightarrow> (g, ErrorMsg (''expected hello, got '' @ ne_debug E other), None))"

text \<open>An introducer hands over the address book and hangs up; anyone else gives the peer a seat.\<close>

definition admit_peer :: "string \<Rightarrow> 'p node \<Rightarrow> 'p node \<times> action list \<times> session option" where
  "admit_peer key g =
     (if nd_introducer g then (g, [Send key (Peers (publishable_peers g))], None)
      else
        (let evicted = (if MAX_PEERS \<le> pool_len (nd_sessions g) then fst (evict_synced_inbound key g) else []);
             (p, s) = pool_insert key False (nd_sessions g);
             g' = g\<lparr>nd_sessions := p\<rparr>
         in (g', evicted @ [Send key (Peers (publishable_peers g'))], Some s)))"

definition leave_session :: "string \<Rightarrow> 'p node \<Rightarrow> 'p node" where
  "leave_session key g =
     g\<lparr>nd_sessions := pool_remove key (nd_sessions g),
       nd_session_height := AList.delete key (nd_session_height g)\<rparr>"

text \<open>\<open>IBD_ACCEPT_BURST\<close> seats exist beyond the soft cap; past them a connection is dropped.\<close>

definition IBD_ACCEPT_BURST :: nat where [params]: "IBD_ACCEPT_BURST = 32"

definition accepts_connection :: "'p node \<Rightarrow> bool" where
  "accepts_connection g \<longleftrightarrow> \<not> MAX_PEERS + IBD_ACCEPT_BURST \<le> pool_len (nd_sessions g)"

section \<open>Opening an outbound session\<close>

text \<open>
  \<open>self\<close> is \<open>is_self_connection\<close> of the socket.  The result is the session and the peer's
  height with which the read loop starts.
\<close>

definition open_outbound_session ::
    "('p, 's) node_env \<Rightarrow> u64 \<Rightarrow> bool \<Rightarrow> string \<Rightarrow> 'p node \<times> conn
       \<Rightarrow> ('p node \<times> conn) \<times> action list \<times> (io_error + session \<times> u64)" where
  "open_outbound_session E now self addr = (\<lambda>(g, c).
     if self then ((g, c), [], Inl (io_err OtherKind ''self-dial''))
     else
       (case greet E g c of
          (c1, Inl e) \<Rightarrow> ((g, c1), [], Inl e)
        | (c1, Inr intro) \<Rightarrow>
            (let peer_h = pi_height intro;
                 g1 = mark_confirmed addr (note_archive addr intro (note_peer_height now peer_h g));
                 g2 = (if is_directory_addr addr
                       then g1\<lparr>nd_reachable_listen := hs_insert addr (nd_reachable_listen g1)\<rparr> else g1);
                 key = outbound_key addr;
                 (p, s) = pool_insert key True (nd_sessions g2);
                 g3 = (set_session_height key peer_h g2)\<lparr>nd_sessions := p\<rparr>
             in if peer_covers_height peer_h (next_needed_height g)
                   \<or> pi_tip intro \<noteq> hash_to_hex (tip_hash (ne_crypto E) (nd_chain g))
                then (case claim_ibd_from g3 of
                        (g4, from_height) \<Rightarrow>
                          ((g4, c1), [Send key (GetBlocks from_height MAX_BLOCKS_PER_REQUEST)], Inr (s, peer_h)))
                else if peer_h < our_height g
                then ((g3, c1), push_blocks_via_session s peer_h g3, Inr (s, peer_h))
                else ((g3, c1), [], Inr (s, peer_h)))))"

definition DIAL_GIVE_UP :: nat where [params]: "DIAL_GIVE_UP = 5"

text \<open>
  What \<open>stay_connected\<close> makes of the end of a session: the node, the failures in a row, and
  whether it dials again.
\<close>

definition after_dial :: "string \<Rightarrow> bool \<Rightarrow> nat \<Rightarrow> string + unit \<Rightarrow> 'p node \<Rightarrow> 'p node \<times> nat \<times> bool" where
  "after_dial addr is_seed fails r g =
     (case r of
        Inr _ \<Rightarrow> (g\<lparr>nd_last_dial_error := None\<rparr>, 0, True)
      | Inl msg \<Rightarrow>
          (let g1 = (if contains ''self-dial'' msg then g
                     else g\<lparr>nd_last_dial_error := Some (addr @ '': '' @ msg)\<rparr>) in
           if contains ''genesis mismatch'' msg \<or> contains ''network mismatch'' msg \<or> contains ''self-dial'' msg
           then (if contains ''genesis'' msg \<or> contains ''network'' msg then forget_incompatible addr g1 else g1,
                 fails, False)
           else if \<not> is_seed \<and> DIAL_GIVE_UP \<le> fails + 1
           then (g1\<lparr>nd_peer_addrs := hs_remove addr (nd_peer_addrs g1)\<rparr>, fails + 1, False)
           else (g1, fails + 1, True)))"

definition is_seed_addr :: "string \<Rightarrow> 'p node \<Rightarrow> bool" where
  "is_seed_addr addr g \<longleftrightarrow> addr \<in> set (seed_nodes (nd_network g)) \<or> addr \<in> set (nd_bootstrap g)"

section \<open>Messages\<close>

text \<open>
  A handler takes the node and the last height the peer claimed, and gives them back with what
  it sends; \<open>Inl\<close> ends the session.
\<close>

type_synonym 'p handled = "('p node \<times> u64) \<times> action list \<times> (io_error + unit)"

definition ask_for :: "session \<Rightarrow> u64 \<Rightarrow> action" where
  "ask_for s from_height = Send (ss_key s) (GetBlocks from_height MAX_BLOCKS_PER_REQUEST)"

definition on_status ::
    "('p, 's) node_env \<Rightarrow> u64 \<Rightarrow> session \<Rightarrow> u64 \<Rightarrow> string \<Rightarrow> 'p node \<Rightarrow> 'p handled" where
  "on_status E now s h tip g0 =
     (let g = set_session_height (ss_key s) h (note_peer_height now h g0);
          our_tip = hash_to_hex (tip_hash (ne_crypto E) (nd_chain g)) in
      if peer_covers_height h (next_needed_height g) then
        (case claim_ibd_from g of (g', from_height) \<Rightarrow> ((g', h), [ask_for s from_height], Inr ()))
      else if tip \<noteq> our_tip \<and> ss_outbound s then
        (case kick_reorg_fetch now s g of (g', acts) \<Rightarrow> ((g', h), acts, Inr ()))
      else ((g, h), [], Inr ()))"

text \<open>A block that extends the tip: the mempool, the tip, the disk and the branch buffer follow.\<close>

definition settle_block ::
    "('p::ab_group_add, 's::comm_ring_1) node_env \<Rightarrow> u64 \<Rightarrow> block \<Rightarrow> 'p chain \<Rightarrow> 'p node \<Rightarrow> 'p node" where
  "settle_block E now b ch g =
     persist_quietly E (bump_tip now
       (g\<lparr>nd_chain := ch, nd_mempool := fst (expire now (remove_included b (nd_mempool g)))\<rparr>))"

definition accept_block ::
    "('p::ab_group_add, 's::comm_ring_1) node_env \<Rightarrow> u64 \<Rightarrow> block \<Rightarrow> 'p node \<Rightarrow> 'p node \<times> bool" where
  "accept_block E now b g =
     (case chain_apply_block (ne_crypto E) (nd_chain g) b now of
        (ch, Inr _) \<Rightarrow> ((settle_block E now b ch g)\<lparr>nd_branch := []\<rparr>, True)
      | (ch, Inl _) \<Rightarrow> (g\<lparr>nd_chain := ch\<rparr>, False))"

definition on_block ::
    "('p::ab_group_add, 's::comm_ring_1) node_env \<Rightarrow> u64 \<Rightarrow> block \<Rightarrow> 'p node \<times> u64 \<Rightarrow> 'p handled" where
  "on_block E now b = (\<lambda>(g, last_h).
     case accept_block E now b g of
       (g', True) \<Rightarrow> ((g', last_h), announce_block E b g', Inr ())
     | (g', False) \<Rightarrow> ((consider_branch E now b g', last_h), [], Inr ()))"

definition on_tx ::
    "('p::ab_group_add, 's::comm_ring_1) node_env \<Rightarrow> relay_draw \<Rightarrow> u64 \<Rightarrow> session \<Rightarrow> transaction
       \<Rightarrow> 'p node \<times> u64 \<Rightarrow> 'p handled" where
  "on_tx E d now s t = (\<lambda>(g, last_h).
     case precheck_tx_typed (ne_crypto E) (nd_chain g) t of
       Inl _ \<Rightarrow> ((g, last_h), [], Inr ())
     | Inr _ \<Rightarrow>
         (case mempool_insert (ne_crypto E) t now (nd_mempool g) of
            (p, newly) \<Rightarrow>
              if newly then
                (case propagate_from_inner E d now t (Some (ss_key s)) False (g\<lparr>nd_mempool := p\<rparr>) of
                   (g', acts) \<Rightarrow> ((g', last_h), acts, Inr ()))
              else ((g\<lparr>nd_mempool := p\<rparr>, last_h), [], Inr ())))"

definition on_inv_block :: "u64 \<Rightarrow> session \<Rightarrow> u64 \<Rightarrow> 'p node \<times> u64 \<Rightarrow> 'p handled" where
  "on_inv_block now s h = (\<lambda>(g0, last_h).
     let g = note_peer_height now h g0; last_h' = max last_h h in
     if peer_covers_height h (next_needed_height g) then
       (case claim_ibd_from g of (g', from_height) \<Rightarrow> ((g', last_h'), [ask_for s from_height], Inr ()))
     else ((g, last_h'), [], Inr ()))"

definition settle_page ::
    "('p::ab_group_add, 's::comm_ring_1) node_env \<Rightarrow> u64 \<Rightarrow> 'p node \<times> ibd_page \<Rightarrow> 'p node" where
  "settle_page E now = (\<lambda>(g, outcome).
     case outcome of
       Applied n \<Rightarrow> persist_quietly E (bump_tip now (g\<lparr>nd_stalled_on_fork := False\<rparr>))
     | _ \<Rightarrow> g)"

text \<open>Where to ask on after a page: the cursor and the height, or nothing.\<close>

definition next_page :: "ibd_page \<Rightarrow> bool \<Rightarrow> bool \<Rightarrow> 'p node \<Rightarrow> ('p node \<times> u64) option" where
  "next_page outcome behind short g =
     (case outcome of
        Applied _ \<Rightarrow>
          if behind \<and> short then
            (case next_ibd_claim_after_short_page (next_needed_height g) of
               (cursor, from_height) \<Rightarrow> Some (g\<lparr>nd_ibd_from := cursor\<rparr>, from_height))
          else if behind then Some (claim_ibd_from g) else None
      | Buffered \<Rightarrow> if behind then Some (claim_ibd_from g) else None
      | _ \<Rightarrow> None)"

definition on_blocks ::
    "('p::ab_group_add, 's::comm_ring_1) node_env \<Rightarrow> u64 \<Rightarrow> session \<Rightarrow> block list
       \<Rightarrow> 'p node \<times> u64 \<Rightarrow> 'p handled" where
  "on_blocks E now s bs = (\<lambda>(g0, last_h).
     if MAX_BLOCKS_PER_REQUEST < length bs
       then ((g0, last_h), [], Inl (io_err OtherKind ''peer sent an oversized block batch''))
     else
       (let page = apply_ibd_page E bs now g0;
            g = settle_page E now page;
            behind = peer_covers_height last_h (next_needed_height g) in
        case next_page (snd page) behind (length bs < MAX_BLOCKS_PER_REQUEST) g of
          Some (g', from_height) \<Rightarrow> ((g', last_h), [ask_for s from_height], Inr ())
        | None \<Rightarrow>
            if snd page = Rejected \<and> behind then
              (case kick_reorg_fetch now s (g\<lparr>nd_stalled_on_fork := True\<rparr>) of
                 (g', acts) \<Rightarrow> ((g', last_h), acts, Inr ()))
            else ((g, last_h), [], Inr ())))"

definition serve_blocks :: "('p, 's) node_env \<Rightarrow> u64 \<Rightarrow> nat \<Rightarrow> 'p node \<Rightarrow> io_error + block list" where
  "serve_blocks E from_height limit g =
     fit_blocks_response (ne_wire E)
       (if from_height < first_height (nd_chain g) then []
        else blocks_from (nd_chain g) from_height (min limit MAX_BLOCKS_PER_REQUEST))"

definition our_status :: "('p, 's) node_env \<Rightarrow> 'p node \<Rightarrow> peer_msg" where
  "our_status E g =
     StatusMsg (our_height g) (hash_to_hex (tip_hash (ne_crypto E) (nd_chain g)))
       (ucast (chain_next_difficulty (nd_chain g))) (pool_len (nd_sessions g)) (length (pool_txs (nd_mempool g)))"

definition handle_msg ::
    "('p::ab_group_add, 's::comm_ring_1) node_env \<Rightarrow> relay_draw \<Rightarrow> u64 \<Rightarrow> session \<Rightarrow> peer_msg
       \<Rightarrow> 'p node \<times> u64 \<Rightarrow> 'p handled" where
  "handle_msg E d now s m st =
     (case m of
        Ping nonce \<Rightarrow> (st, [Send (ss_key s) (Pong nonce)], Inr ())
      | GetPeers \<Rightarrow> (st, [Send (ss_key s) (Peers (publishable_peers (fst st)))], Inr ())
      | Peers addrs \<Rightarrow> ((learn_addrs addrs (fst st), snd st), [], Inr ())
      | GetBlocks from_height limit \<Rightarrow>
          (case serve_blocks E from_height limit (fst st) of
             Inl e \<Rightarrow> (st, [], Inl e)
           | Inr bs \<Rightarrow> (st, [Send (ss_key s) (BlocksMsg bs)], Inr ()))
      | GetStatus \<Rightarrow> (st, [Send (ss_key s) (our_status E (fst st))], Inr ())
      | StatusMsg h tip _ _ _ \<Rightarrow> on_status E now s h tip (fst st)
      | BlockMsg b \<Rightarrow> on_block E now b st
      | TxMsg t \<Rightarrow> on_tx E d now s t st
      | InvBlock _ h \<Rightarrow> on_inv_block now s h st
      | BlocksMsg bs \<Rightarrow> on_blocks E now s bs st
      | _ \<Rightarrow> (st, [], Inr ()))"

section \<open>The read loop\<close>

definition finish_introduction :: "u64 \<Rightarrow> session \<Rightarrow> u64 \<Rightarrow> 'p node \<Rightarrow> action list option" where
  "finish_introduction elapsed s peer_height g =
     (if sat_add peer_height IBD_BEHIND < our_height g then None
      else if elapsed < INTRO_GRACE_SECS then None
      else Some [Send (ss_key s) (Peers (publishable_peers g))])"

datatype heard = Got peer_msg | Quiet | Broken io_error
datatype after_round = Stay | Hangup | Failed io_error

definition peer_round ::
    "('p::ab_group_add, 's::comm_ring_1) node_env \<Rightarrow> relay_draw \<Rightarrow> u64 \<Rightarrow> u64 \<Rightarrow> session \<Rightarrow> heard
       \<Rightarrow> 'p node \<times> u64 \<Rightarrow> ('p node \<times> u64) \<times> action list \<times> after_round" where
  "peer_round E d now elapsed s ev st =
     (case (if ss_outbound s then None else finish_introduction elapsed s (snd st) (fst st)) of
        Some acts \<Rightarrow> (st, acts, Hangup)
      | None \<Rightarrow>
          (case ev of
             Quiet \<Rightarrow> (st, [Send (ss_key s) (Ping now)], Stay)
           | Broken e \<Rightarrow> (st, [], Failed e)
           | Got m \<Rightarrow>
               (case handle_msg E d now s m st of
                  (st', acts, Inl e) \<Rightarrow> (st', acts, Failed e)
                | (st', acts, Inr _) \<Rightarrow> (st', acts, Stay))))"

end
