(* ===== verification/Node_Control.thy ===== *)
theory Node_Control
  imports Node_Peer Mempool
begin

text \<open>
  \<open>crates/nightfall-node/src/runtime.rs\<close>: what the miner and the owner of a node do to it.
  The miner's loop is its three parts under the lock, in order: whether to mine, the template,
  the sealed block; the nonce comes from the search between them.  The handle's operations are
  those the wallet and the RPC call.  Hash rate and thread counts are not modelled.
\<close>

section \<open>The clock\<close>

definition clock_check :: "u64 \<Rightarrow> 'p node \<Rightarrow> 'p node" where
  "clock_check now g =
     (if SLEEP_GAP_SECS < sat_sub now (nd_last_wall_tick g) then apply_clock_jump now g else g)"

definition heartbeat :: "u64 \<Rightarrow> 'p node \<Rightarrow> 'p node" where
  "heartbeat now g =
     (if SLEEP_GAP_SECS < sat_sub now (nd_last_wall_tick g) then apply_clock_jump now g
      else g\<lparr>nd_last_wall_tick := now\<rparr>)"

section \<open>Mining\<close>

text \<open>The template to hash on, if this node may mine; unusable transactions leave the mempool.\<close>

definition mining_template ::
    "('p::ab_group_add, 's::comm_ring_1) node_env \<Rightarrow> 's draws \<times> 's draws \<times> 's draws \<Rightarrow> u64 \<Rightarrow> 'p node
       \<Rightarrow> 'p node \<times> block_template option" where
  "mining_template E drs now g0 =
     (let g = clock_check now g0 in
      if \<not> nd_mining g then (g, None)
      else if catchup_behind now g \<noteq> None then (g\<lparr>nd_idle_reason := 1\<rparr>, None)
      else
        (case nd_miner g of
           None \<Rightarrow> (g\<lparr>nd_idle_reason := 2\<rparr>, None)
         | Some miner \<Rightarrow>
             (case build_template_filtering (ne_crypto E) drs (nd_chain g) miner
                     (select_for_block (ne_crypto E) (nd_mempool g) (MAX_TXS_PER_BLOCK - 1)) now of
                Inl _ \<Rightarrow> (g\<lparr>nd_idle_reason := 2\<rparr>, None)
              | Inr (t, dropped) \<Rightarrow>
                  (g\<lparr>nd_mempool := fst (drop_ids dropped (nd_mempool g)), nd_idle_reason := 0\<rparr>, Some t))))"

definition mining_submit ::
    "('p::ab_group_add, 's::comm_ring_1) node_env \<Rightarrow> u64 \<Rightarrow> block_template \<Rightarrow> u64 \<Rightarrow> 'p node
       \<Rightarrow> 'p node \<times> action list" where
  "mining_submit E now t nonce g =
     (if SLEEP_GAP_SECS < sat_sub now (nd_last_wall_tick g) then (apply_clock_jump now g, [])
      else if catchup_behind now g \<noteq> None then (g, [])
      else if tip_hash (ne_crypto E) (nd_chain g) \<noteq> t_built_on t then (g, [])
      else
        (case chain_apply_block (ne_crypto E) (nd_chain g) (seal t nonce) now of
           (ch, Inl _) \<Rightarrow> (g\<lparr>nd_chain := ch\<rparr>, [])
         | (ch, Inr _) \<Rightarrow>
             (let g' = (settle_block E now (seal t nonce) ch g)\<lparr>nd_blocks_found := nd_blocks_found g + 1\<rparr>
              in (g', announce_block E (seal t nonce) g'))))"

section \<open>The owner\<close>

definition set_mining :: "bool \<Rightarrow> 'p node \<Rightarrow> 'p node" where
  "set_mining on g = g\<lparr>nd_mining := on\<rparr>"

text \<open>
  \<open>proxied\<close>, \<open>lockdown\<close> and \<open>resolves\<close> are the proxy setting, the privacy policy and the
  answer of the resolver.
\<close>

definition add_peer :: "bool \<Rightarrow> (string \<Rightarrow> string + unit) \<Rightarrow> string \<Rightarrow> 'p node \<Rightarrow> 'p node \<times> (string + unit)" where
  "add_peer lockdown resolves raw g =
     (let addr = trim raw; proxied = (nd_proxy g \<noteq> None) in
      if \<not> looks_like_dial_target addr then (g, Inl ''enter an address as host:port'')
      else if \<not> proxied \<and> lockdown
        then (g, Inl ''privacy lockdown: configure SOCKS5 before adding a peer'')
      else
        (case (if proxied then Inr () else resolves addr) of
           Inl e \<Rightarrow> (g, Inl e)
         | Inr _ \<Rightarrow>
             if MAX_PEERS \<le> length (nd_peer_addrs g) then (g, Inl ''peer limit reached'')
             else (g\<lparr>nd_peer_addrs := hs_insert addr (nd_peer_addrs g), nd_bootstrap := nd_bootstrap g @ [addr]\<rparr>,
                   Inr ())))"

definition DEFAULT_TOR_PROXY :: string where "DEFAULT_TOR_PROXY = ''127.0.0.1:9050''"

definition parse_proxy_cfg :: "string option \<Rightarrow> io_error + string option" where
  "parse_proxy_cfg raw =
     (case map_option trim raw of
        None \<Rightarrow> res_bind (proxy_parse DEFAULT_TOR_PROXY) (\<lambda>p. Inr (Some p))
      | Some s \<Rightarrow>
          if s = [] then res_bind (proxy_parse DEFAULT_TOR_PROXY) (\<lambda>p. Inr (Some p))
          else if s \<in> {''off'', ''none'', ''clearnet''} then Inr None
          else res_bind (proxy_parse s) (\<lambda>p. Inr (Some p)))"

definition set_proxy :: "string option \<Rightarrow> 'p node \<Rightarrow> 'p node \<times> (io_error + unit)" where
  "set_proxy raw g =
     (case parse_proxy_cfg raw of Inl e \<Rightarrow> (g, Inl e) | Inr p \<Rightarrow> (g\<lparr>nd_proxy := p\<rparr>, Inr ()))"

definition set_prune ::
    "('p::ab_group_add, 's::comm_ring_1) node_env \<Rightarrow> bool \<Rightarrow> 'p node \<Rightarrow> 'p node \<times> (store_error option + unit)" where
  "set_prune E on g =
     (if \<not> on \<and> is_pruned (nd_chain g) then (g, Inl None)
      else
        (let g' = g\<lparr>nd_prune_keep := (if on \<or> is_pruned (nd_chain g) then Some PRUNE_KEEP_BLOCKS else None)\<rparr> in
         if on then (case persist_chain E g' of (g'', r) \<Rightarrow> (g'', map_err Some r)) else (g', Inr ())))"

text \<open>The files of an abandoned chain move into a directory of their own.\<close>

definition set_aside :: "string \<Rightarrow> unit store" where
  "set_aside backup =
     sr_bind (sr_get (\<lambda>s. (dir_now s, blocks_path (dir_now s), format_file_name (format_of (dir_now s)))))
       (\<lambda>(d, bodies, name).
     sr_bind (if d bodies \<noteq> None
              then sr_bind (file_rename bodies (backup @ ''/'' @ name)) (\<lambda>_. file_write bodies [])
              else sr_return ()) (\<lambda>_.
       if d META_FILE \<noteq> None then file_rename META_FILE (backup @ ''/'' @ META_FILE) else sr_return ()))"

definition blank_progress :: "u64 \<Rightarrow> 'p node \<Rightarrow> 'p node" where
  "blank_progress now g =
     bump_tip now (g\<lparr>nd_branch := [], nd_ibd_buffer := [], nd_ibd_from := 0, nd_stalled_on_fork := False,
       nd_fork_rewind := 0, nd_best_peer_height := 0, nd_best_peer_seen := 0, nd_behind_since := now,
       nd_mempool := mempool_default\<rparr>)"

definition resync_chain ::
    "('p::ab_group_add, 's::comm_ring_1) node_env \<Rightarrow> u64 \<Rightarrow> 'p node
       \<Rightarrow> 'p node \<times> action list \<times> (store_error option + string)" where
  "resync_chain E now g0 =
     (let g = set_mining False g0; backup = ''chain-backup-'' @ dec_string (unat now) in
      if nd_loading g then (g, [], Inl None)
      else
        (case set_aside backup (nd_disk g) of
           (d, Inl e) \<Rightarrow> (g\<lparr>nd_disk := d\<rparr>, [], Inl (Some e))
         | (d, Inr _) \<Rightarrow>
             (case new_fair (ne_crypto E) (ne_genesis_json E) (nd_network g) of
                Inl e \<Rightarrow> (g\<lparr>nd_disk := d\<rparr>, [], Inl (Some (ChainErr e)))
              | Inr ch \<Rightarrow>
                  (case save (ne_crypto E) (ne_store E) ch d of
                     (d', Inl e) \<Rightarrow> (g\<lparr>nd_disk := d', nd_chain := ch\<rparr>, [], Inl (Some e))
                   | (d', Inr _) \<Rightarrow>
                       (blank_progress now (g\<lparr>nd_disk := d', nd_chain := ch\<rparr>),
                        map (\<lambda>s. Send (ss_key s) (GetBlocks 0 MAX_BLOCKS_PER_REQUEST)) (pool_all (nd_sessions g)),
                        Inr backup)))))"

text \<open>The public directory of listening nodes: whether and where it is asked, and what is kept of its answer.\<close>

definition DEFAULT_PEERS_DIRECTORY :: string where
  "DEFAULT_PEERS_DIRECTORY = ''https://nightfallcoin.org/peers''"

definition directory_url :: "bool \<Rightarrow> network_id \<Rightarrow> string option \<Rightarrow> string option" where
  "directory_url lockdown net configured =
     (if lockdown then None
      else
        (case map_option trim configured of
           Some s \<Rightarrow>
             if s \<in> {''off'', ''none'', ''false''} then None
             else if s \<noteq> [] then Some s
             else if net = Mainnet then Some DEFAULT_PEERS_DIRECTORY else None
         | None \<Rightarrow> if net = Mainnet then Some DEFAULT_PEERS_DIRECTORY else None))"

definition learn_listed :: "string \<Rightarrow> 'p node \<Rightarrow> 'p node" where
  "learn_listed addr g =
     (if \<not> looks_like_dial_target addr \<or> \<not> is_directory_addr addr then g
      else if addr \<in> set (nd_peer_addrs g) then g
      else g\<lparr>nd_peer_addrs := hs_insert addr (nd_peer_addrs g), nd_bootstrap := nd_bootstrap g @ [addr]\<rparr>)"

definition learn_directory :: "string list \<Rightarrow> 'p node \<Rightarrow> 'p node" where
  "learn_directory addrs g = fold learn_listed addrs g"

section \<open>Status\<close>

record status_snap =
  sn_blocks :: u64
  sn_tip_height :: u64
  sn_peers :: nat
  sn_mempool :: nat
  sn_mining :: bool
  sn_minted :: u64
  sn_burned :: u64
  sn_difficulty :: u64
  sn_total_work :: u128
  sn_utxos :: nat
  sn_supply_ok :: bool
  sn_blocks_behind :: u64
  sn_live_peers :: nat
  sn_dial_error :: "string option"
  sn_loading :: bool
  sn_tip_time :: u64
  sn_stalled :: bool
  sn_reorging :: bool
  sn_best_peer_height :: u64
  sn_fork_rewind :: u64
  sn_mining_idle :: string
  sn_sync_hold :: sync_hold
  sn_pruned :: bool
  sn_prune_height :: u64

text \<open>\<open>preview\<close> is the number of blocks read so far while the chain is loading.\<close>

definition status_snapshot ::
    "('p::ab_group_add, 's::comm_ring_1) node_env \<Rightarrow> u64 \<Rightarrow> u64 \<Rightarrow> 'p node \<Rightarrow> status_snap" where
  "status_snapshot E now preview g =
     (let ch = nd_chain g; loading = nd_loading g;
          height = (if loading then sat_sub preview 1 else our_height g);
          catchup = (if loading then None else catchup_behind now g) in
      \<lparr>sn_blocks = (if loading then preview else block_count ch), sn_tip_height = height,
       sn_peers = length (nd_peer_addrs g), sn_mempool = length (pool_txs (nd_mempool g)),
       sn_mining = nd_mining g, sn_minted = total_minted_darks (l_supply (ledger ch)),
       sn_burned = total_burned_darks (l_supply (ledger ch)), sn_difficulty = chain_next_difficulty ch,
       sn_total_work = total_work ch, sn_utxos = length (entries (l_utxos (ledger ch))),
       sn_supply_ok = (\<not> loading \<and> is_ok (chain_verify_supply (ne_crypto E) ch)),
       sn_blocks_behind = (case catchup of Some n \<Rightarrow> n | None \<Rightarrow> 0),
       sn_live_peers = pool_len (nd_sessions g), sn_dial_error = nd_last_dial_error g, sn_loading = loading,
       sn_tip_time = (if loading then 0 else
          (case last_opt (headers ch) of
             Some h \<Rightarrow> c_timestamp h
           | None \<Rightarrow> (case last_opt (blocks ch) of Some b \<Rightarrow> h_timestamp (blk_header b) | None \<Rightarrow> 0))),
       sn_stalled = nd_stalled_on_fork g, sn_reorging = nd_reorg_in_flight g,
       sn_best_peer_height = nd_best_peer_height g, sn_fork_rewind = nd_fork_rewind g,
       sn_mining_idle =
         (if \<not> nd_mining g then []
          else if nd_idle_reason g = 1 then ''waiting to catch up with the network''
          else if nd_idle_reason g = 2 then ''the chain will not give this node a block template''
          else []),
       sn_sync_hold =
         (if loading then Synced
          else classify_sync_hold (nd_stalled_on_fork g) (nd_reorg_in_flight g) (nd_fork_rewind g) height
                 (nd_best_peer_height g) catchup),
       sn_pruned = is_pruned ch, sn_prune_height = first_height ch\<rparr>)"

end
