(* ===== verification/Sync_Facts.thy ===== *)
theory Sync_Facts
  imports Node_Control
begin

text \<open>
  What the synchronisation of a node achieves: the search for the last block in common with an
  honest peer, the slices that parallel sessions claim, and pages that arrive out of order.
\<close>

section \<open>The search for the fork\<close>

text \<open>
  An honest peer answers a request with its block at that height; its chain leaves ours after
  height \<open>A\<close>.
\<close>

definition answers :: "(u64 \<Rightarrow> ('c, io_error, block list) sr) \<Rightarrow> (u64 \<Rightarrow> block) \<Rightarrow> u64 \<Rightarrow> bool" where
  "answers ask theirs roof \<longleftrightarrow> (\<forall>h \<le> roof. \<forall>c. \<exists>c'. ask h c = (c', Inr [theirs h]))"

definition forks_after :: "('p, 's) crypto \<Rightarrow> 'p chain \<Rightarrow> (u64 \<Rightarrow> block) \<Rightarrow> u64 \<Rightarrow> u64 \<Rightarrow> bool" where
  "forks_after C ch theirs A roof \<longleftrightarrow> A \<le> roof \<and> (\<forall>h \<le> roof. same_at C ch h (theirs h) \<longleftrightarrow> h \<le> A)"

lemma answersD: "answers ask theirs roof \<Longrightarrow> h \<le> roof \<Longrightarrow> \<exists>c'. ask h c = (c', Inr [theirs h])"
  by (simp add: answers_def)

lemma forks_afterD: "forks_after C ch theirs A roof \<Longrightarrow> h \<le> roof \<Longrightarrow> same_at C ch h (theirs h) \<longleftrightarrow> h \<le> A"
  by (simp add: forks_after_def)

lemma narrow_finds:
  assumes a: "answers ask theirs roof" and f: "forks_after C ch theirs A roof"
  shows "lo \<le> A \<Longrightarrow> A \<le> hi \<Longrightarrow> hi \<le> roof \<Longrightarrow> snd (narrow C ch ask lo hi c) = A"
  using a f
proof (induction C ch ask lo hi c rule: narrow.induct)
  case (1 C ch ask lo hi c)
  show ?case
  proof (cases "lo < hi")
    case False
    with 1(3-5) show ?thesis by (simp add: narrow.simps [of C ch ask lo hi c])
  next
    case True
    let ?m = "middle lo hi"
    note m = unat_middle [OF True]
    have lt: "lo < ?m" "?m \<le> hi"
      using m True by (auto simp: word_less_nat_alt word_le_nat_alt)
    then have roof: "?m \<le> roof" using 1(5) by simp
    then obtain c' where c': "ask ?m c = (c', Inr [theirs ?m])"
      using answersD [OF 1(6)] by blast
    have ne: "?m \<noteq> 0" using lt(1) by (metis word_not_simps(1))
    show ?thesis
    proof (cases "?m \<le> A")
      case True
      then have "same_at C ch ?m (theirs ?m)" using forks_afterD [OF 1(7) roof] by simp
      then show ?thesis
        using 1(1) [OF \<open>lo < hi\<close> refl c'[symmetric] refl refl] True 1(4-7) c' \<open>lo < hi\<close>
        by (simp add: narrow.simps [of C ch ask lo hi c])
    next
      case False
      then have n: "\<not> same_at C ch ?m (theirs ?m)" using forks_afterD [OF 1(7) roof] by simp
      have "unat (?m - 1) = unat ?m - 1" using ne by (simp add: unat_minus_one)
      then have b: "A \<le> ?m - 1" "?m - 1 \<le> roof"
        using False roof ne unat_gt_0 [of ?m] by (auto simp: word_le_nat_alt word_less_nat_alt not_le)
      show ?thesis
        using 1(2) [OF \<open>lo < hi\<close> refl c'[symmetric] refl refl n ne] 1(3,6,7) b c' n ne \<open>lo < hi\<close>
        by (simp add: narrow.simps [of C ch ask lo hi c])
    qed
  qed
qed

text \<open>\<open>probe_back\<close> steps at most 256 below the ceiling.\<close>

lemma pow_le_256: "(2::nat) ^ k \<le> MAX_REORG_DEPTH \<longleftrightarrow> k \<le> 8"
proof
  assume "k \<le> 8"
  then have "(2::nat) ^ k \<le> 2 ^ 8" by (intro power_increasing) auto
  then show "(2::nat) ^ k \<le> MAX_REORG_DEPTH" by (simp add: params)
next
  assume "(2::nat) ^ k \<le> MAX_REORG_DEPTH"
  then have "(2::nat) ^ k < 2 ^ 9" by (simp add: params)
  then show "k \<le> 8" using power_less_imp_less_exp [of "2::nat" k 9] by simp
qed

lemma step_word: "k \<le> 8 \<Longrightarrow> unat (of_nat (2 ^ k) :: u64) = 2 ^ k"
  using pow_le_256 [of k] by (simp add: unsigned_of_nat params take_bit_nat_eq_self del: of_nat_power)

lemma probe_at:
  fixes ceiling :: u64
  assumes "k \<le> 8" "2 ^ k \<le> unat ceiling"
  obtains h where "checked_sub ceiling (of_nat (2 ^ k)) = Some h" "unat h = unat ceiling - 2 ^ k" "h \<le> ceiling"
proof -
  have le: "(of_nat (2 ^ k) :: u64) \<le> ceiling" using assms step_word [OF assms(1)] by (simp add: word_le_nat_alt)
  let ?h = "ceiling - of_nat (2 ^ k)"
  have "unat ?h = unat ceiling - 2 ^ k" using unat_sub [OF le] step_word [OF assms(1)] by simp
  with le show thesis by (intro that [of ?h]) (auto simp: checked_sub_def word_le_nat_alt)
qed

lemma probe_back_step:
  assumes a: "answers ask theirs roof" and f: "forks_after C ch theirs A roof" and k: "k \<le> 8" "2 ^ k \<le> unat ceiling"
    and r: "ceiling \<le> roof"
  obtains h c' where "unat h = unat ceiling - 2 ^ k"
    "probe_back C ch ask ceiling k c = (if h \<le> A then (c', Some h) else probe_back C ch ask ceiling (Suc k) c')"
proof -
  obtain h where h: "checked_sub ceiling (of_nat (2 ^ k)) = Some h" "unat h = unat ceiling - 2 ^ k" "h \<le> ceiling"
    by (rule probe_at [OF k])
  have roof: "h \<le> roof" using h(3) r by simp
  then obtain c' where c': "ask h c = (c', Inr [theirs h])" using answersD [OF a] by blast
  have "\<not> MAX_REORG_DEPTH < 2 ^ k" using k pow_le_256 [of k] by simp
  then have "probe_back C ch ask ceiling k c = (if h \<le> A then (c', Some h) else probe_back C ch ask ceiling (Suc k) c')"
    using h(1) c' forks_afterD [OF f roof] by (simp add: probe_back.simps [of C ch ask ceiling k c] split del: if_split)
  with h(2) show thesis by (rule that)
qed

lemma probe_back_finds:
  assumes a: "answers ask theirs roof" and f: "forks_after C ch theirs A roof" and r: "ceiling \<le> roof"
    and k: "k \<le> 8" "2 ^ k \<le> unat ceiling" "unat ceiling - unat A \<le> 2 ^ k"
  shows "j \<le> k \<Longrightarrow> \<exists>c' h. probe_back C ch ask ceiling j c = (c', Some h) \<and> h \<le> A"
proof (induction "k - j" arbitrary: j c)
  case 0
  then have j: "j = k" by simp
  obtain h c' where "unat h = unat ceiling - 2 ^ k"
    "probe_back C ch ask ceiling k c = (if h \<le> A then (c', Some h) else probe_back C ch ask ceiling (Suc k) c')"
    by (rule probe_back_step [OF a f k(1,2) r])
  moreover from this(1) k have "h \<le> A" by (simp add: word_le_nat_alt)
  ultimately show ?case by (simp add: j)
next
  case (Suc n)
  then have j: "j \<le> 8" "Suc j \<le> k" "n = k - Suc j" using k(1) by linarith+
  have "(2::nat) ^ j \<le> 2 ^ k" using Suc.prems by (intro power_increasing) auto
  then have p: "2 ^ j \<le> unat ceiling" using k(2) by linarith
  obtain h c' where "probe_back C ch ask ceiling j c = (if h \<le> A then (c', Some h) else probe_back C ch ask ceiling (Suc j) c')"
    by (rule probe_back_step [OF a f j(1) p r])
  with Suc.hyps(1) [OF j(3,2)] show ?case by auto
qed

lemma probe_back_misses:
  assumes a: "answers ask theirs roof" and f: "forks_after C ch theirs A roof" and r: "ceiling \<le> roof"
    and deep: "256 < unat ceiling - unat A"
  shows "snd (probe_back C ch ask ceiling k c) = None"
proof (induction "9 - k" arbitrary: k c)
  case 0
  then have "MAX_REORG_DEPTH < 2 ^ k" using pow_le_256 [of k] by linarith
  then show ?case by (simp add: probe_back.simps [of C ch ask ceiling k c])
next
  case (Suc n)
  then have k: "k \<le> 8" "n = 9 - Suc k" by linarith+
  have p256: "(2::nat) ^ k \<le> 2 ^ 8" using k(1) by (intro power_increasing) auto
  then have p: "2 ^ k \<le> unat ceiling" using deep by simp
  obtain h c' where h: "unat h = unat ceiling - 2 ^ k"
    "probe_back C ch ask ceiling k c = (if h \<le> A then (c', Some h) else probe_back C ch ask ceiling (Suc k) c')"
    by (rule probe_back_step [OF a f k(1) p r])
  have "\<not> h \<le> A" using h(1) p256 deep p by (simp add: word_le_nat_alt)
  with h(2) Suc.hyps(1) [OF k(2)] show ?case by simp
qed

text \<open>
  A fork at most 256 blocks below the lower tip is found exactly; a deeper one is missed, and
  the answer lies below every height the node may rewind to.
\<close>

lemma common_ancestor_exact:
  assumes a: "answers ask theirs peer_h" and f: "forks_after C ch theirs A peer_h"
    and t: "our_hash_at C ch peer_h \<noteq> Some peer_tip"
    and ceiling: "ceiling = min (case tip_height ch of Some h \<Rightarrow> h | None \<Rightarrow> 0) peer_h"
    and long: "500 < unat ceiling" and A: "A \<le> ceiling"
  shows "snd (common_ancestor C ch ask peer_h peer_tip c) = (if unat ceiling - unat A \<le> 256 then A else ceiling - 501)"
proof -
  have r: "ceiling \<le> peer_h" by (simp add: ceiling)
  obtain c' where c': "ask ceiling c = (c', Inr [theirs ceiling])" using answersD [OF a r] by blast
  have s: "same_at C ch ceiling (theirs ceiling) \<longleftrightarrow> A = ceiling" using forks_afterD [OF f r] A by auto
  show ?thesis
  proof (cases "A = ceiling")
    case True
    then obtain y where "our_hash_at C ch ceiling = Some y" using s by (auto simp: same_at_def)
    with True s c' t show ?thesis by (simp add: common_ancestor_def ceiling [symmetric] Let_def)
  next
    case False
    define c1 where "c1 = (if our_hash_at C ch ceiling = None then c else c')"
    have run: "common_ancestor C ch ask peer_h peer_tip c
        = (case probe_back C ch ask ceiling 0 c1 of
             (c2, None) \<Rightarrow> (c2, sat_sub ceiling (of_nat MAX_REORG_DEPTH + 1))
           | (c2, Some lo) \<Rightarrow> narrow C ch ask lo ceiling c2)"
      using False s c' t by (simp add: common_ancestor_def ceiling [symmetric] Let_def c1_def)
    show ?thesis
    proof (cases "unat ceiling - unat A \<le> 256")
      case True
      obtain c2 h where h: "probe_back C ch ask ceiling 0 c1 = (c2, Some h)" "h \<le> A"
        using probe_back_finds [OF a f r, of 8 0 c1] True long by auto
      have "snd (narrow C ch ask h ceiling c2) = A" by (rule narrow_finds [OF a f h(2) A r])
      with True show ?thesis by (simp add: run h(1))
    next
      case False
      then have "snd (probe_back C ch ask ceiling 0 c1) = None"
        by (intro probe_back_misses [OF a f r]) simp
      then obtain c2 where "probe_back C ch ask ceiling 0 c1 = (c2, None)" by (metis prod.collapse)
      moreover have "sat_sub ceiling (of_nat MAX_REORG_DEPTH + 1) = ceiling - 501"
        using long by (simp add: sat_sub_def params word_le_nat_alt)
      ultimately show ?thesis using False by (simp add: run)
    qed
  qed
qed

text \<open>A miss is reported as a branch past the depth a node may rewind.\<close>

lemma deep_fork_refused:
  assumes "ceiling \<le> our_height g" and long: "500 < unat ceiling"
  shows "\<exists>n. prepare_reorg E (ceiling - 501) g = (g\<lparr>nd_fork_rewind := n, nd_stalled_on_fork := True\<rparr>, None)
    \<and> classify_sync_hold True False n height best catchup = DeadBranch n"
proof -
  let ?r = "our_height g - (ceiling - 501)"
  have u: "unat (ceiling - 501) = unat ceiling - 501" using long by (simp add: unat_sub word_le_nat_alt)
  then have le: "ceiling - 501 \<le> our_height g" using assms(1) by (simp add: word_le_nat_alt)
  then have nl: "\<not> our_height g < ceiling - 501" by simp
  have r: "500 < unat ?r" using unat_sub [OF le] u assms(1) long by (simp add: word_le_nat_alt)
  have "MAX_REORG_DEPTH < unat ?r" "of_nat MAX_REORG_DEPTH < ?r"
    using r by (simp_all add: params word_less_nat_alt)
  with nl show ?thesis
    by (intro exI [of _ ?r]) (simp add: prepare_reorg_def Let_def classify_sync_hold_def)
qed

section \<open>Slices\<close>

text \<open>Claims made while the tip does not move: four slices ahead, then the first again.\<close>

fun claims :: "nat \<Rightarrow> 'p node \<Rightarrow> u64 list" where
  "claims 0 g = []"
| "claims (Suc n) g = (case claim_ibd_from g of (g', h) \<Rightarrow> h # claims n g')"

lemma claim_keeps_tip: "claim_ibd_from g = (g', h) \<Longrightarrow> next_needed_height g' = next_needed_height g"
  by (auto simp: claim_ibd_from_def next_needed_height_def split: prod.splits)

lemma unat_plus_small: "unat n < 2 ^ 63 \<Longrightarrow> k \<le> 1024 \<Longrightarrow> unat (n + of_nat k) = unat n + k" for n :: u64
  by (subst unat_add_small) (simp_all add: unsigned_of_nat take_bit_nat_eq_self)

lemma sat_add_small: "unat n < 2 ^ 63 \<Longrightarrow> k \<le> 1024 \<Longrightarrow> sat_add n (of_nat k) = n + of_nat k" for n :: u64
  by (simp add: sat_add_def checked_add_def unsigned_of_nat take_bit_nat_eq_self)

lemma claim_slot:
  assumes n: "unat n < 2 ^ 63" and i: "i \<le> 4"
  shows "next_ibd_claim n (n + of_nat (128 * i)) = (n + of_nat (128 * min 4 (Suc i)), if i = 4 then n else n + of_nat (128 * i))"
proof -
  have c: "unat (n + of_nat (128 * i)) = unat n + 128 * i" using i by (intro unat_plus_small [OF n]) simp
  have nl: "\<not> n + of_nat (128 * i) < n" using c by (simp add: word_less_nat_alt)
  have m: "sat_add n IBD_MAX_AHEAD = n + of_nat 512" using sat_add_small [OF n, of 512] by (simp add: params)
  have le: "n + of_nat 512 \<le> n + of_nat (128 * i) \<longleftrightarrow> i = 4"
    using c unat_plus_small [OF n, of 512] i by (auto simp: word_le_nat_alt)
  have s: "sat_add (n + of_nat (128 * i)) IBD_PAGE = n + of_nat (128 * Suc i)" if "i < 4"
  proof -
    have "sat_add (n + of_nat (128 * i)) (of_nat 128) = n + of_nat (128 * i) + of_nat 128"
      using c n i by (simp add: sat_add_def checked_add_def)
    then show ?thesis by (simp add: params algebra_simps)
  qed
  show ?thesis unfolding next_ibd_claim_def Let_def m using nl le s i by auto
qed

lemma five_claims:
  assumes "next_needed_height g = n" "nd_ibd_from g = n" "unat n < 2 ^ 63"
  shows "claims 5 g = [n, n + 128, n + 256, n + 384, n]"
proof -
  have step: "claim_ibd_from g' = (g'\<lparr>nd_ibd_from := n + of_nat (128 * min 4 (Suc i))\<rparr>, if i = 4 then n else n + of_nat (128 * i))"
    if "next_needed_height g' = n" "nd_ibd_from g' = n + of_nat (128 * i)" "i \<le> 4" for g' :: "'a node" and i
    using claim_slot [OF assms(3) that(3)] that by (simp add: claim_ibd_from_def)
  have nn: "next_needed_height (g\<lparr>nd_ibd_from := x\<rparr>) = n" for x using assms(1) by (simp add: next_needed_height_def)
  have all: "claim_ibd_from (g\<lparr>nd_ibd_from := n + of_nat (128 * i)\<rparr>)
      = (g\<lparr>nd_ibd_from := n + of_nat (128 * min 4 (Suc i))\<rparr>, if i = 4 then n else n + of_nat (128 * i))"
    if "i \<le> 4" for i using step [OF nn, of "n + of_nat (128 * i)" i] that by simp
  have g: "g = g\<lparr>nd_ibd_from := n + of_nat (128 * 0)\<rparr>" using assms(2) by simp
  have five: "(5::nat) = Suc (Suc (Suc (Suc (Suc 0))))" by simp
  show ?thesis
    unfolding five by (subst g) (use all [of 0] all [of 1] all [of 2] all [of 3] all [of 4] in simp)
qed

section \<open>Pages in any order\<close>

text \<open>Consecutive pages: page \<open>i\<close> starts where chain \<open>i\<close> ends and extends it to chain \<open>i + 1\<close>.\<close>

definition page_chain ::
    "('p::ab_group_add, 's::comm_ring_1) crypto \<Rightarrow> u64 \<Rightarrow> (nat \<Rightarrow> 'p chain) \<Rightarrow> (nat \<Rightarrow> block list) \<Rightarrow> nat \<Rightarrow> bool" where
  "page_chain C now chs ps k \<longleftrightarrow>
     (\<forall>i < k. ps i \<noteq> [] \<and> b_height (hd (ps i)) = chain_needs (chs i)
        \<and> chain_needs (chs i) \<le> b_height (last (ps i))
        \<and> try_ingest_blocks C (chs i) (ps i) now = (chs (Suc i), Inr (length (ps i)))
        \<and> chain_needs (chs i) < chain_needs (chs (Suc i)))"

abbreviation starts :: "(nat \<Rightarrow> 'p chain) \<Rightarrow> nat \<Rightarrow> u64" where "starts chs i \<equiv> chain_needs (chs i)"

text \<open>The buffer holds exactly the pages of \<open>B\<close>.\<close>

definition buffers :: "(nat \<Rightarrow> 'p chain) \<Rightarrow> (nat \<Rightarrow> block list) \<Rightarrow> nat set \<Rightarrow> (u64, block list) omap \<Rightarrow> bool" where
  "buffers chs ps B buf \<longleftrightarrow> om_ok buf \<and> (\<forall>i \<in> B. map_of buf (starts chs i) = Some (ps i))
     \<and> (\<forall>h. h \<notin> starts chs ` B \<longrightarrow> map_of buf h = None)"

lemma page_chainD:
  assumes "page_chain C now chs ps k" "i < k"
  shows "ps i \<noteq> []" "b_height (hd (ps i)) = starts chs i" "starts chs i \<le> b_height (last (ps i))"
    "try_ingest_blocks C (chs i) (ps i) now = (chs (Suc i), Inr (length (ps i)))"
    "starts chs i < starts chs (Suc i)"
  using assms by (auto simp: page_chain_def)

lemma starts_mono:
  assumes p: "page_chain C now chs ps k"
  shows "i < j \<Longrightarrow> j \<le> k \<Longrightarrow> starts chs i < starts chs j"
proof (induction j)
  case (Suc j)
  have "starts chs j < starts chs (Suc j)" using page_chainD(5) [OF p, of j] Suc.prems by simp
  with Suc show ?case by (cases "i = j") (auto intro: order_less_trans)
qed simp

lemma starts_eq: "page_chain C now chs ps k \<Longrightarrow> i \<le> k \<Longrightarrow> j \<le> k \<Longrightarrow> starts chs i = starts chs j \<longleftrightarrow> i = j"
  using starts_mono [of C now chs ps k i j] starts_mono [of C now chs ps k j i]
  by (metis linorder_neqE_nat order_less_irrefl)

lemma buffers_remove:
  assumes b: "buffers chs ps B buf" and inj: "\<And>i. i \<in> B \<Longrightarrow> starts chs i = starts chs j \<Longrightarrow> i = j"
  shows "buffers chs ps (B - {j}) (om_remove (starts chs j) buf)"
  using b inj unfolding buffers_def by (auto simp: map_of_om_remove)

lemma buffers_insert:
  assumes b: "buffers chs ps B buf" and inj: "\<And>i. i \<in> B \<Longrightarrow> starts chs i = starts chs j \<Longrightarrow> i = j"
  shows "buffers chs ps (insert j B) (om_insert (starts chs j) (ps j) buf)"
  using b inj unfolding buffers_def by (auto simp: map_of_om_insert)

lemma buffers_length:
  assumes "buffers chs ps B buf" "finite B"
  shows "length buf \<le> card B"
proof -
  have "dom (map_of buf) \<subseteq> starts chs ` B" using assms(1) unfolding buffers_def by (metis domD option.simps(3) subsetI)
  then have "card (dom (map_of buf)) \<le> card B"
    using assms(2) by (metis card_image_le card_mono finite_imageI order_trans)
  then show ?thesis using assms(1) by (simp add: buffers_def length_om)
qed

lemma drain_runs:
  assumes p: "page_chain C now chs ps k"
  shows "j \<le> k \<Longrightarrow> B \<subseteq> {j..<k} \<Longrightarrow> buffers chs ps B buf \<Longrightarrow>
    \<exists>j' buf' n. drain_buffer C now n0 (chs j) buf = (chs j', buf', n) \<and> n0 \<le> n \<and> j \<le> j' \<and> j' \<le> k \<and> j' \<notin> B
      \<and> {j..<j'} \<subseteq> B \<and> buffers chs ps (B - {j..<j'}) buf'"
proof (induction "k - j" arbitrary: j B buf n0)
  case 0
  then have "B = {}" "j = k" by auto
  with 0 have "map_of buf (starts chs j) = None" by (simp add: buffers_def)
  with 0 \<open>B = {}\<close> show ?case by (auto simp: drain_buffer.simps [of C now n0 "chs j" buf])
next
  case (Suc d)
  have j: "j < k" using Suc.hyps(2) by simp
  note pj = page_chainD [OF p j]
  show ?case
  proof (cases "j \<in> B")
    case False
    have "starts chs j \<notin> starts chs ` B"
    proof
      assume "starts chs j \<in> starts chs ` B"
      then obtain i where "i \<in> B" "starts chs j = starts chs i" by blast
      then have "j = i" using starts_eq [OF p, of j i] Suc.prems(2) j by fastforce
      with \<open>i \<in> B\<close> False show False by simp
    qed
    then have "map_of buf (starts chs j) = None" using Suc.prems(3) by (simp add: buffers_def)
    with False j Suc.prems show ?thesis
      by (intro exI [of _ j] exI [of _ buf] exI [of _ n0]) (simp add: drain_buffer.simps [of C now n0 "chs j" buf])
  next
    case True
    let ?buf = "om_remove (starts chs j) buf"
    have m: "map_of buf (starts chs j) = Some (ps j)" using True Suc.prems(3) by (simp add: buffers_def)
    have b: "buffers chs ps (B - {j}) ?buf"
      using Suc.prems(2) j by (intro buffers_remove [OF Suc.prems(3)]) (use starts_eq [OF p] in fastforce)
    have run: "drain_buffer C now n0 (chs j) buf = drain_buffer C now (n0 + length (ps j)) (chs (Suc j)) ?buf"
      using m pj(1,4) by (simp add: drain_buffer.simps [of C now n0 "chs j" buf] Let_def)
    have "d = k - Suc j" "Suc j \<le> k" "B - {j} \<subseteq> {Suc j..<k}" using Suc.hyps(2) Suc.prems(2) j by auto
    from Suc.hyps(1) [OF this b, of "n0 + length (ps j)"]
    obtain j' buf' n where r: "drain_buffer C now (n0 + length (ps j)) (chs (Suc j)) ?buf = (chs j', buf', n)"
      "n0 + length (ps j) \<le> n" "Suc j \<le> j'" "j' \<le> k" "j' \<notin> B - {j}" "{Suc j..<j'} \<subseteq> B - {j}"
      "buffers chs ps (B - {j} - {Suc j..<j'}) buf'" by blast
    have e: "{j..<j'} = insert j {Suc j..<j'}" using r(3) by auto
    have "B - {j} - {Suc j..<j'} = B - {j..<j'}" unfolding e by blast
    moreover have "{j..<j'} \<subseteq> B" unfolding e using True r(6) by blast
    moreover have "j \<le> j'" "n0 \<le> n" "j' \<notin> B" using r(2,3,5) by auto
    ultimately show ?thesis
      unfolding run r(1) using r(4,7)
      by - (rule exI [of _ j'], rule exI [of _ buf'], rule exI [of _ n], simp)
  qed
qed

text \<open>After the pages of \<open>D\<close>: all before the first missing one are applied, the others wait.\<close>

definition caught_up :: "(nat \<Rightarrow> 'p chain) \<Rightarrow> (nat \<Rightarrow> block list) \<Rightarrow> nat \<Rightarrow> nat set \<Rightarrow> 'p node \<Rightarrow> bool" where
  "caught_up chs ps k D g \<longleftrightarrow>
     (\<exists>j \<le> k. {..<j} \<subseteq> D \<and> j \<notin> D \<and> nd_chain g = chs j \<and> buffers chs ps (D - {..<j}) (nd_ibd_buffer g))"

lemma deliver_page:
  assumes p: "page_chain C now chs ps k" and C: "ne_crypto E = C" and k: "k \<le> 9"
    and D: "D \<subseteq> {..<k}" and i: "i < k" "i \<notin> D" and g: "caught_up chs ps k D g"
  shows "caught_up chs ps k (insert i D) (fst (apply_ibd_page E (ps i) now g))"
proof -
  obtain j where j: "j \<le> k" "{..<j} \<subseteq> D" "j \<notin> D" and ch: "nd_chain g = chs j"
    and buf: "buffers chs ps (D - {..<j}) (nd_ibd_buffer g)"
    using g unfolding caught_up_def by blast
  have jk: "j < k" and ji: "j \<le> i" using j i by (metis lessThan_iff not_le subsetD order_le_less_trans)+
  note pi = page_chainD [OF p i(1)] and pj = page_chainD [OF p jk]
  have needs: "next_needed_height g = starts chs j" by (simp add: next_needed_chain ch)
  obtain b bs where pb: "ps i = b # bs" using pi(1) by (cases "ps i") auto
  have start: "b_height b = starts chs i" using pi(2) pb by simp
  have fin: "finite D" using D finite_subset by blast
  show ?thesis
  proof (cases "i = j")
    case False
    then have lt: "starts chs j < starts chs i" using starts_mono [OF p, of j i] ji i by simp
    let ?buf = "om_insert (starts chs i) (ps i) (nd_ibd_buffer g)"
    have b: "buffers chs ps (insert i (D - {..<j})) ?buf"
      using i D by (intro buffers_insert [OF buf]) (use starts_eq [OF p] in fastforce)
    have "length ?buf \<le> card (insert i (D - {..<j}))" using fin by (intro buffers_length [OF b]) simp
    also have "\<dots> \<le> card ({..<k} - {j})" using D i j jk False by (intro card_mono) auto
    also have "\<dots> \<le> 8" using k jk by simp
    finally have t: "trim_pages ?buf = ?buf" by (simp add: trim_pages_def)
    have "insert i D - {..<j} = insert i (D - {..<j})" using ji by auto
    with b j ch False lt pb start needs t show ?thesis
      unfolding caught_up_def apply_ibd_page_def by (intro exI [of _ j]) auto
  next
    case True
    let ?B = "D - {..<j}"
    have B: "?B \<subseteq> {Suc j..<k}"
    proof
      fix x assume x: "x \<in> ?B"
      then have "x \<noteq> j" using j(3) by auto
      with x D show "x \<in> {Suc j..<k}" by auto
    qed
    obtain j' buf' n where r: "drain_buffer C now (length (ps j)) (chs (Suc j)) (nd_ibd_buffer g) = (chs j', buf', n)"
      "Suc j \<le> j'" "j' \<le> k" "j' \<notin> ?B" "{Suc j..<j'} \<subseteq> ?B" "buffers chs ps (?B - {Suc j..<j'}) buf'"
      using drain_runs [OF p _ B buf, of "length (ps j)"] jk by auto
    have "x \<in> ?B - {Suc j..<j'} \<longleftrightarrow> x \<in> insert i D - {..<j'}" for x
      using r(2) True j(3) by (cases "x = j") (auto simp: not_le not_less)
    then have "?B - {Suc j..<j'} = insert i D - {..<j'}" by blast
    moreover have "x \<in> insert i D" if "x < j'" for x
    proof (cases "x < j")
      case False
      then have "x = j \<or> x \<in> {Suc j..<j'}" using that by auto
      then show ?thesis using r(5) True by blast
    qed (use j(2) in auto)
    then have "{..<j'} \<subseteq> insert i D" by blast
    moreover have "j' \<notin> insert i D" using r(2,4) True by auto
    ultimately have ok: "\<exists>j \<le> k. {..<j} \<subseteq> insert i D \<and> j \<notin> insert i D \<and> chs j' = chs j
        \<and> buffers chs ps (insert i D - {..<j}) buf'"
      using r(3,6) by (intro exI [of _ j']) simp
    have "\<not> b_height (last (ps i)) < starts chs j" using pj(3) True by simp
    then have "fst (apply_ibd_page E (ps i) now g) = g\<lparr>nd_chain := chs j', nd_ibd_buffer := buf',
        nd_ibd_from := (if nd_ibd_from g < chain_needs (chs j') then chain_needs (chs j') else nd_ibd_from g)\<rparr>"
      using pb start needs True pj(4) r(1) C ch
      by (simp add: apply_ibd_page_def Let_def ingested_def)
    with ok show ?thesis by (simp add: caught_up_def)
  qed
qed

lemma deliver_all:
  assumes p: "page_chain C now chs ps k" and C: "ne_crypto E = C" and k: "k \<le> 9"
  shows "caught_up chs ps k D g \<Longrightarrow> distinct order \<Longrightarrow> set order \<inter> D = {} \<Longrightarrow> D \<union> set order \<subseteq> {..<k}
    \<Longrightarrow> caught_up chs ps k (D \<union> set order) (fold (\<lambda>i g. fst (apply_ibd_page E (ps i) now g)) order g)"
proof (induction order arbitrary: D g)
  case (Cons i order)
  have "caught_up chs ps k (insert i D) (fst (apply_ibd_page E (ps i) now g))"
    using Cons.prems by (intro deliver_page [OF p C k]) auto
  from Cons.IH [OF this] Cons.prems show ?case by auto
qed simp

lemma pages_in_any_order:
  assumes p: "page_chain (ne_crypto E) now chs ps k" and k: "k \<le> 9"
    and g: "nd_chain g = chs 0" "nd_ibd_buffer g = []"
    and order: "distinct order" "set order = {..<k}"
  shows "nd_chain (fold (\<lambda>i g. fst (apply_ibd_page E (ps i) now g)) order g) = chs k"
    "nd_ibd_buffer (fold (\<lambda>i g. fst (apply_ibd_page E (ps i) now g)) order g) = []"
proof -
  let ?g = "fold (\<lambda>i g. fst (apply_ibd_page E (ps i) now g)) order g"
  have "caught_up chs ps k {} g" using g unfolding caught_up_def by (intro exI [of _ 0]) (simp add: buffers_def)
  then have "caught_up chs ps k {..<k} ?g" using deliver_all [OF p refl k, of "{}" g order] order by simp
  then obtain j where "j \<le> k" "j \<notin> {..<k}" "nd_chain ?g = chs j" "buffers chs ps ({..<k} - {..<j}) (nd_ibd_buffer ?g)"
    unfolding caught_up_def by blast
  moreover from this have "j = k" by simp
  ultimately have c: "nd_chain ?g = chs k" and b: "buffers chs ps {} (nd_ibd_buffer ?g)" by simp_all
  show "nd_chain ?g = chs k" by (rule c)
  show "nd_ibd_buffer ?g = []" using buffers_length [OF b] by simp
qed

section \<open>One fetch per peer and window\<close>

fun fetch_claims :: "(string \<times> u64) list \<Rightarrow> (string \<times> u64) list \<Rightarrow> (string \<times> u64) list" where
  "fetch_claims [] m = m"
| "fetch_claims ((a, t) # es) m = fetch_claims es (fst (claim_reorg_fetch_slot a t m))"

lemma map_of_filter_key:
  "distinct (map fst m) \<Longrightarrow> map_of (filter (\<lambda>e. P (snd e)) m) k
     = (case map_of m k of Some v \<Rightarrow> if P v then Some v else None | None \<Rightarrow> None)"
proof (induction m)
  case (Cons e m)
  then have "map_of m (fst e) = None" by (simp add: map_of_eq_None_iff)
  with Cons show ?case by (cases e) auto
qed simp

lemma claim_keeps_entry:
  assumes d: "distinct (map fst m)" and e: "map_of m a = Some t0" and t: "sat_sub t t0 < REORG_FETCH_COOLDOWN_SECS"
    and c: "claim_reorg_fetch_slot b t m = (m', got)"
  shows "distinct (map fst m')" "map_of m' a = Some t0" "a = b \<Longrightarrow> \<not> got"
proof -
  define f where "f = filter (\<lambda>e. sat_sub t (snd e) < REORG_FETCH_COOLDOWN_SECS) m"
  have df: "distinct (map fst f)" unfolding f_def using d by (rule distinct_map_filter)
  have ef: "map_of f a = Some t0" unfolding f_def using map_of_filter_key [OF d, of "\<lambda>u. sat_sub t u < REORG_FETCH_COOLDOWN_SECS" a] e t by simp
  note c' = c [unfolded claim_reorg_fetch_slot_def Let_def, folded f_def]
  show "distinct (map fst m')" using c' df by (auto simp: AList.distinct_update split: if_splits)
  show "map_of m' a = Some t0" using c' ef by (auto simp: AList.update_conv' split: if_splits)
  show "a = b \<Longrightarrow> \<not> got" using c' ef by (auto split: if_splits)
qed

text \<open>Whatever other peers ask in between, the same peer is refused until the window is over.\<close>

lemma one_fetch_per_window:
  assumes d: "distinct (map fst m0)" and got: "claim_reorg_fetch_slot a t0 m0 = (m1, True)"
    and between: "\<And>e. e \<in> set es \<Longrightarrow> sat_sub (snd e) t0 < 15" and t: "sat_sub t t0 < 15"
  shows "\<not> snd (claim_reorg_fetch_slot a t (fetch_claims es m1))"
proof -
  define f where "f = filter (\<lambda>e. sat_sub t0 (snd e) < REORG_FETCH_COOLDOWN_SECS) m0"
  have "distinct (map fst f)" unfolding f_def using d by (rule distinct_map_filter)
  then have m1: "distinct (map fst m1)" "map_of m1 a = Some t0"
    using got [unfolded claim_reorg_fetch_slot_def Let_def, folded f_def]
    by (auto simp: AList.distinct_update AList.update_conv' split: if_splits)
  have keep: "distinct (map fst (fetch_claims es m)) \<and> map_of (fetch_claims es m) a = Some t0"
    if "distinct (map fst m)" "map_of m a = Some t0" "\<And>e. e \<in> set es \<Longrightarrow> sat_sub (snd e) t0 < 15" for es m
    using that
  proof (induction es arbitrary: m)
    case (Cons e es)
    obtain b u where e: "e = (b, u)" by fastforce
    obtain m' g where c: "claim_reorg_fetch_slot b u m = (m', g)" by fastforce
    have "sat_sub u t0 < REORG_FETCH_COOLDOWN_SECS" using Cons.prems(3) [of e] by (simp add: e params)
    from claim_keeps_entry [OF Cons.prems(1,2) this c] show ?case
      using Cons.IH Cons.prems(3) by (simp add: e c)
  qed simp
  obtain m' g where c: "claim_reorg_fetch_slot a t (fetch_claims es m1) = (m', g)" by fastforce
  have "sat_sub t t0 < REORG_FETCH_COOLDOWN_SECS" using t by (simp add: params)
  from claim_keeps_entry(3) [OF _ _ this c] keep [OF m1 between] show ?thesis by (simp add: c)
qed

section \<open>A node that is behind does not mine\<close>

definition hears_of_more :: "u64 \<Rightarrow> 'p node \<Rightarrow> bool" where
  "hears_of_more now g \<longleftrightarrow> our_height g < nd_best_peer_height g \<and> 0 < nd_best_peer_seen g
     \<and> sat_sub now (nd_best_peer_seen g) \<le> PEER_HEIGHT_TTL_SECS \<and> \<not> pool_is_empty (nd_sessions g)"

lemma behind_waits: "hears_of_more now g \<Longrightarrow> catchup_behind now g \<noteq> None"
  by (auto simp: hears_of_more_def catchup_behind_def mining_should_wait_def)

lemma jumped_waits:
  assumes "block_count (nd_chain g) \<noteq> 0" "nd_network g \<noteq> Devnet \<or> \<not> pool_is_empty (nd_sessions g)"
  shows "catchup_behind now (apply_clock_jump now g) \<noteq> None"
  using assms by (auto simp: catchup_behind_def apply_clock_jump_def mining_should_wait_def sat_sub_def params)

lemma behind_no_template:
  assumes "hears_of_more now g"
  shows "snd (mining_template E drs now g) = None"
proof -
  have "catchup_behind now (clock_check now g) \<noteq> None"
  proof (cases "SLEEP_GAP_SECS < sat_sub now (nd_last_wall_tick g) \<and> block_count (nd_chain g) \<noteq> 0")
    case True
    then show ?thesis using jumped_waits [of g now] assms by (simp add: clock_check_def hears_of_more_def)
  next
    case False
    then have "hears_of_more now (clock_check now g)"
      using assms by (auto simp: clock_check_def apply_clock_jump_def hears_of_more_def our_height_def)
    then show ?thesis by (rule behind_waits)
  qed
  then show ?thesis by (simp add: mining_template_def Let_def)
qed

lemma behind_no_block:
  assumes "hears_of_more now g"
  shows "nd_chain (fst (mining_submit E now t nonce g)) = nd_chain g \<and> snd (mining_submit E now t nonce g) = []"
  using behind_waits [OF assms] by (simp add: mining_submit_def apply_clock_jump_def)

text \<open>A status message of a peer that is ahead makes a node hear of more for two minutes.\<close>

lemma told_of_more:
  assumes "our_height g < h" "nd_best_peer_height g \<le> h" "0 < t" "sat_sub now t \<le> 120" "\<not> pool_is_empty (nd_sessions g)"
  shows "hears_of_more now (note_peer_height t h g)"
proof -
  have "0 < h" using assms(1) by (rule order_le_less_trans [OF word_zero_le])
  with assms show ?thesis by (auto simp: hears_of_more_def note_peer_height_def Let_def our_height_def params)
qed

section \<open>One hop\<close>

lemma own_transaction_one_hop:
  assumes "submit_tx E d now t g = (g', acts, r)"
  shows "acts = [] \<or> (\<exists>s \<in> set (pool_all (nd_sessions g)). acts = [SendTx (ss_key s) t])
    \<or> (nd_sessions g = [] \<and> (\<exists>a. acts = [DialTx a t]))"
proof -
  define g1 where "g1 p = g\<lparr>nd_mempool := p\<rparr>" for p
  have s: "nd_sessions (g1 p) = nd_sessions g" for p by (simp add: g1_def)
  obtain p x where i: "insert_checked (ne_crypto E) t now (nd_mempool g) = (p, x)" by fastforce
  obtain h as where pr: "propagate_from_inner E d now t None True (g1 p) = (h, as)" by fastforce
  have "acts = [] \<or> acts = snd (propagate_from_inner E d now t None True (g1 p))"
    using assms i pr [unfolded g1_def] unfolding pr snd_conv
    by (auto simp: submit_tx_def Let_def split: sum.splits insert_outcome.splits)
  moreover have "(\<exists>x \<in> set (pool_all (nd_sessions g)). snd (propagate_from_inner E d now t None True (g1 p)) = [SendTx (ss_key x) t])
      \<or> (nd_sessions g = [] \<and> (snd (propagate_from_inner E d now t None True (g1 p)) = []
           \<or> (\<exists>a. snd (propagate_from_inner E d now t None True (g1 p)) = [DialTx a t])))"
  proof (cases "pick_stem_peer (rd_index d) (pool_all (nd_sessions g)) None")
    case None
    then have "pool_all (nd_sessions g) = []" by (simp add: pick_stem_peer_None)
    then show ?thesis using None s [of p]
      by (auto simp: propagate_from_inner_def Let_def stem_tx_def pool_all_def fallback_stem_tx_def split: list.split)
  next
    case (Some x)
    from pick_stem_peer_Some(1) [OF this] Some s [of p] show ?thesis
      by (auto simp: propagate_from_inner_def Let_def stem_tx_def)
  qed
  ultimately show ?thesis by (metis (no_types, lifting))
qed

text \<open>The embargo on a transaction: until then the thread that ends embargoes does not send it.\<close>

definition withheld_until :: "('p, 's) node_env \<Rightarrow> transaction \<Rightarrow> u64 \<Rightarrow> 'p node \<Rightarrow> bool" where
  "withheld_until E t dl g \<longleftrightarrow> map_of (nd_stem_embargo g) (hash_to_hex (txid (ne_crypto E) t)) = Some dl"

text \<open>What the node keeps of relayed transactions: a pool in order, one embargo per transaction.\<close>

definition relays_ok :: "('p, 's) node_env \<Rightarrow> 'p node \<Rightarrow> bool" where
  "relays_ok E g \<longleftrightarrow> mempool_ok (ne_crypto E) (nd_mempool g) \<and> distinct (map fst (nd_stem_embargo g))"

lemma fold_delete_other: "i \<notin> set ids \<Longrightarrow> map_of (fold AList.delete ids m) i = map_of m i"
  by (induction ids arbitrary: m) (simp_all add: AList.delete_conv)

definition ended_ids :: "u64 \<Rightarrow> 'p node \<Rightarrow> string list" where
  "ended_ids now g = map fst (filter (\<lambda>e. snd e \<le> now) (nd_stem_embargo g))"

lemma ended_ids_iff: "i \<in> set (ended_ids now g) \<longleftrightarrow> (\<exists>b. (i, b) \<in> set (nd_stem_embargo g) \<and> b \<le> now)"
  by (force simp: ended_ids_def)

lemma fluff_due_eq:
  "fluff_due now g = (g\<lparr>nd_stem_embargo := fold AList.delete (ended_ids now g) (nd_stem_embargo g)\<rparr>,
     concat (map (\<lambda>t. fluff_tx (pool_all (nd_sessions g)) t None) (List.map_filter (map_of (pool_txs (nd_mempool g))) (ended_ids now g))))"
  by (simp add: fluff_due_def ended_ids_def Let_def)

lemma ended_embargoes:
  assumes "withheld_until E t dl g" "relays_ok E g"
  shows "hash_to_hex (txid (ne_crypto E) t) \<in> set (ended_ids now g) \<longleftrightarrow> dl \<le> now"
proof -
  have "(hash_to_hex (txid (ne_crypto E) t), b) \<in> set (nd_stem_embargo g) \<longleftrightarrow> b = dl" for b
    using assms map_of_eq_Some_iff [of "nd_stem_embargo g" "hash_to_hex (txid (ne_crypto E) t)" b]
    by (auto simp: withheld_until_def relays_ok_def)
  then show ?thesis by (auto simp: ended_ids_iff)
qed

lemma fluff_due_sends:
  assumes "SendTx k t \<in> set (snd (fluff_due now g))" "relays_ok E g"
  shows "hash_to_hex (txid (ne_crypto E) t) \<in> set (ended_ids now g)"
proof -
  from assms(1) obtain i where i: "i \<in> set (ended_ids now g)"
    "map_of (pool_txs (nd_mempool g)) i = Some t"
    by (auto simp: fluff_due_eq fluff_tx_def List.map_filter_def)
  then have "i = hash_to_hex (txid (ne_crypto E) t)"
    using assms(2) by (force simp: relays_ok_def mempool_ok_def dest: map_of_SomeD)
  with i show ?thesis by simp
qed

lemma embargo_holds:
  assumes "withheld_until E t dl g" "relays_ok E g" "now < dl"
  shows "SendTx k t \<notin> set (snd (fluff_due now g))" "withheld_until E t dl (fst (fluff_due now g))"
proof -
  have out: "hash_to_hex (txid (ne_crypto E) t) \<notin> set (ended_ids now g)"
    using ended_embargoes [OF assms(1,2)] assms(3) by simp
  then show "SendTx k t \<notin> set (snd (fluff_due now g))" using fluff_due_sends [OF _ assms(2)] by blast
  show "withheld_until E t dl (fst (fluff_due now g))"
    using fold_delete_other [OF out, of "nd_stem_embargo g"] assms(1) by (simp add: withheld_until_def fluff_due_eq)
qed

lemma embargo_ends:
  assumes "withheld_until E t dl g" "relays_ok E g" "dl \<le> now"
    and "map_of (pool_txs (nd_mempool g)) (hash_to_hex (txid (ne_crypto E) t)) = Some t" "s \<in> set (pool_all (nd_sessions g))"
  shows "SendTx (ss_key s) t \<in> set (snd (fluff_due now g))"
  using ended_embargoes [OF assms(1,2), of now] assms(3-5)
  by (force simp: fluff_due_eq fluff_tx_def List.map_filter_def)

lemma embargo_bounds:
  assumes "unat now + 28 < 2 ^ 64"
  shows "unat now + 12 \<le> unat (embargo_deadline now d)" "unat (embargo_deadline now d) \<le> unat now + 28"
proof -
  have m: "unat (d mod 17) < 17" by (simp add: unat_mod)
  have "unat (embargo_deadline now d) = unat now + 12 + unat (d mod 17)"
    using assms m by (simp add: embargo_deadline_def params unat_word_ariths)
  then show "unat now + 12 \<le> unat (embargo_deadline now d)" "unat (embargo_deadline now d) \<le> unat now + 28"
    using m by simp_all
qed

text \<open>A session that is sent one's own transaction is sent it under an embargo.\<close>

lemma own_transaction_withheld:
  assumes "submit_tx E d now t g = (g', [SendTx k t], r)"
  shows "withheld_until E t (embargo_deadline now (rd_span d)) g'"
proof -
  obtain p x where i: "insert_checked (ne_crypto E) t now (nd_mempool g) = (p, x)" by fastforce
  have "propagate_from_inner E d now t None True (g\<lparr>nd_mempool := p\<rparr>) = (g', [SendTx k t])"
    using assms i by (auto simp: submit_tx_def Let_def split: sum.splits insert_outcome.splits prod.splits)
  then show ?thesis
    by (auto simp: propagate_from_inner_def Let_def withheld_until_def AList.update_conv' fallback_stem_tx_def stem_tx_def
        pick_stem_peer_None pool_all_def split: option.splits if_splits list.splits)
qed

section \<open>Who is let in\<close>

lemma hello_gate:
  "snd (snd (answer_hello E now l m g)) \<noteq> None \<longleftrightarrow>
     (case m of
        Hello wire net gen _ _ _ _ _ _ \<Rightarrow>
          wire = WIRE_VERSION \<and> net = nd_network g \<and> gen = hash_to_hex (genesis_hash (nd_chain g))
      | _ \<Rightarrow> False)"
  by (cases m) (simp_all add: answer_hello_def Let_def)

lemma hello_chain: "nd_chain (fst (answer_hello E now l m g)) = nd_chain g"
proof -
  have f: "nd_chain (forget_dialable l p g) = nd_chain g" for p
    by (simp add: forget_dialable_def forget_incompatible_def split: option.split)
  have s: "nd_chain (set_session_height k h (note_peer_height now h (learn_dialable l p a g))) = nd_chain g" for k h p a
    by (simp add: set_session_height_def note_peer_height_def Let_def learn_dialable_def mark_confirmed_def
        split: option.split)
  show ?thesis by (cases m) (simp_all add: answer_hello_def Let_def f s)
qed

text \<open>
  A peer whose tip differs is asked for blocks, never pushed to, whatever its height; the branch
  that pushes runs only for a peer that claims the tip and a lower height.
\<close>

lemma outbound_asks:
  assumes "greet E g c = (c1, Inr intro)" "pi_tip intro \<noteq> hash_to_hex (tip_hash (ne_crypto E) (nd_chain g))"
  shows "\<exists>h. fst (snd (open_outbound_session E now False addr (g, c))) = [Send (outbound_key addr) (GetBlocks h MAX_BLOCKS_PER_REQUEST)]"
  using assms by (auto simp: open_outbound_session_def Let_def split: prod.split)

text \<open>An empty proxy setting selects the Tor default.\<close>

lemma empty_proxy_is_tor: "parse_proxy_cfg (Some []) = parse_proxy_cfg (Some DEFAULT_TOR_PROXY)"
proof -
  have "solid (CHR ''1'')" "solid (CHR ''0'')" by (rule solid_ascii, simp_all)+
  then have "trim DEFAULT_TOR_PROXY = DEFAULT_TOR_PROXY" by (intro trim_solid) (simp add: DEFAULT_TOR_PROXY_def)
  moreover have "trim [] = []" by (rule trim_solid) simp
  ultimately show ?thesis by (simp add: parse_proxy_cfg_def DEFAULT_TOR_PROXY_def)
qed

end
