(* ===== verification/Node_Facts.thy ===== *)
theory Node_Facts
  imports Sync_Facts Rebuild_Facts
begin

text \<open>
  The node as a machine: which states it reaches when the parts that hold its lock interleave in
  any order, and what holds in all of them.  Between the two parts of a reorganisation anything
  may happen; the suffix is spliced only onto the chain it was verified for.
\<close>

section \<open>Chains\<close>

lemma sat_work_ge: "a \<le> sat_work a b"
proof -
  have "unat a < 340282366920938463463374607431768211456" using unsigned_less [of a] by simp
  then have "unat a \<le> U128_MAX" by (simp add: U128_MAX_def)
  then show ?thesis by (simp add: word_le_nat_alt sat_work_nat)
qed

lemma apply_grows:
  assumes C: "encoding_ok C" "group_ok C" and core: "chain_core C ch"
    and a: "chain_apply_block C ch b now = (ch', r)"
  shows "length (headers ch) \<le> length (headers ch') \<and> chain_core C ch' \<and> total_work ch \<le> total_work ch'"
proof -
  have u: "utxo_ok C (l_utxos (ledger ch))" using core by (simp add: chain_core_def ledger_ok_def)
  note a' = a [unfolded chain_apply_block_def]
  show ?thesis
  proof (cases r)
    case (Inl e)
    then have "ch' = ch" using apply_inner_Err [OF u] a' by blast
    then show ?thesis using core by simp
  next
    case (Inr x)
    with a' have a'': "apply_block_inner C ch b now True = (ch', Inr ())" by simp
    then have "length (headers ch) \<le> length (headers ch') \<and> total_work ch \<le> total_work ch'"
      by (rule apply_inner_OkD [OF u]) (simp add: sat_work_ge)
    with apply_inner_core [OF core C a''] show ?thesis by simp
  qed
qed

lemma apply_deep:
  assumes C: "encoding_ok C" "group_ok C" and deep: "deep_ok C ch"
    and a: "chain_apply_block C ch b now = (ch', r)" and len: "length (headers ch') \<le> 2 ^ 64"
  shows "deep_ok C ch'"
  by (rule deep_extend [OF C deep a [unfolded chain_apply_block_def] len])

lemma deep_core: "deep_ok C ch \<Longrightarrow> chain_core C ch"
  using deep_okD [of C ch] by (simp add: chain_ok_def)

lemma ingest_grows:
  assumes C: "encoding_ok C" "group_ok C"
  shows "chain_core C ch \<Longrightarrow> ingest_from C n ch bs now = (ch', r)
    \<Longrightarrow> length (headers ch) \<le> length (headers ch') \<and> chain_core C ch' \<and> total_work ch \<le> total_work ch'"
proof (induction bs arbitrary: n ch)
  case (Cons b bs)
  obtain c x where a: "chain_apply_block C ch b now = (c, x)" by fastforce
  note g = apply_grows [OF C Cons.prems(1) a]
  show ?case
  proof (cases x)
    case (Inl e)
    with a Cons.prems(2) have "ch' = c" by (auto split: if_splits)
    with g show ?thesis by simp
  next
    case (Inr y)
    with a Cons.prems(2) have "ingest_from C (n + 1) c bs now = (ch', r)" by simp
    from Cons.IH [OF _ this] g show ?thesis by auto
  qed
qed simp

lemma ingest_deep:
  assumes C: "encoding_ok C" "group_ok C" and len: "length (headers ch') \<le> 2 ^ 64"
  shows "deep_ok C ch \<Longrightarrow> ingest_from C n ch bs now = (ch', r) \<Longrightarrow> deep_ok C ch'"
proof (induction bs arbitrary: n ch)
  case (Cons b bs)
  obtain c x where a: "chain_apply_block C ch b now = (c, x)" by fastforce
  note g = apply_grows [OF C deep_core [OF Cons.prems(1)] a]
  show ?case
  proof (cases x)
    case (Inl e)
    with a Cons.prems(2) have "ch' = c" by (auto split: if_splits)
    with apply_deep [OF C Cons.prems(1) a] len show ?thesis by simp
  next
    case (Inr y)
    with a Cons.prems(2) have i: "ingest_from C (n + 1) c bs now = (ch', r)" by simp
    have "length (headers c) \<le> 2 ^ 64" using ingest_grows [OF C _ i] g len by auto
    from Cons.IH [OF apply_deep [OF C Cons.prems(1) a this] i] show ?thesis .
  qed
qed simp

lemma try_ingest_deep:
  assumes "encoding_ok C" "group_ok C" "deep_ok C ch" "try_ingest_blocks C ch bs now = (ch', r)"
    "length (headers ch') \<le> 2 ^ 64"
  shows "deep_ok C ch'"
  using assms ingest_deep unfolding try_ingest_blocks_def by blast

lemma drain_grows:
  assumes C: "encoding_ok C" "group_ok C"
  shows "chain_core C ch \<Longrightarrow> drain_buffer C now n ch buf = (ch', buf', n')
    \<Longrightarrow> length (headers ch) \<le> length (headers ch') \<and> total_work ch \<le> total_work ch'"
  using C
proof (induction C now n ch buf rule: drain_buffer.induct)
  case (1 C now n ch buf)
  show ?case
  proof (cases "map_of buf (chain_needs ch)")
    case None
    with 1(3) show ?thesis by (simp add: drain_buffer.simps [of C now n ch buf])
  next
    case (Some page)
    obtain c x where t: "try_ingest_blocks C ch page now = (c, x)" by fastforce
    note g = ingest_grows [OF 1(4,5,2) t [unfolded try_ingest_blocks_def]]
    show ?thesis
    proof (cases "\<exists>k. x = Inr k \<and> 0 < k")
      case True
      then obtain k where k: "x = Inr k" "0 < k" by blast
      from 1(1) [OF Some refl t [symmetric] k(1,2) _ _ 1(4,5)] g 1(3) Some t k show ?thesis
        by (auto simp: drain_buffer.simps [of C now n ch buf] Let_def)
    next
      case False
      with 1(3) Some t g show ?thesis
        by (auto simp: drain_buffer.simps [of C now n ch buf] Let_def split: sum.splits if_splits)
    qed
  qed
qed

lemma drain_deep:
  assumes "encoding_ok C" "group_ok C" "length (headers ch') \<le> 2 ^ 64"
  shows "deep_ok C ch \<Longrightarrow> drain_buffer C now n ch buf = (ch', buf', n') \<Longrightarrow> deep_ok C ch'"
  using assms
proof (induction C now n ch buf rule: drain_buffer.induct)
  case (1 C now n ch buf)
  show ?case
  proof (cases "map_of buf (chain_needs ch)")
    case None
    with 1(2,3) show ?thesis by (simp add: drain_buffer.simps [of C now n ch buf])
  next
    case (Some page)
    obtain c x where t: "try_ingest_blocks C ch page now = (c, x)" by fastforce
    let ?buf = "om_remove (chain_needs ch) buf"
    show ?thesis
    proof (cases "\<exists>k. x = Inr k \<and> 0 < k")
      case True
      then obtain k where k: "x = Inr k" "0 < k" by blast
      have run: "drain_buffer C now (n + k) c ?buf = (ch', buf', n')"
        using 1(3) Some t k by (simp add: drain_buffer.simps [of C now n ch buf] Let_def)
      have core: "chain_core C c"
        using ingest_grows [OF 1(4,5) deep_core [OF 1(2)] t [unfolded try_ingest_blocks_def]] by simp
      have "length (headers c) \<le> 2 ^ 64" using drain_grows [OF 1(4,5) core run] 1(6) by simp
      from 1(1) [OF Some refl t [symmetric] k(1,2) try_ingest_deep [OF 1(4,5,2) t this] run 1(4,5,6)] show ?thesis .
    next
      case False
      with 1(3) Some t have "ch' = c"
        by (auto simp: drain_buffer.simps [of C now n ch buf] Let_def split: sum.splits if_splits)
      with try_ingest_deep [OF 1(4,5,2) t] 1(6) show ?thesis by simp
    qed
  qed
qed

lemma drain_buffer_ok:
  "om_ok buf \<Longrightarrow> drain_buffer C now n ch buf = (ch', buf', n') \<Longrightarrow> om_ok buf' \<and> length buf' \<le> length buf"
proof (induction C now n ch buf rule: drain_buffer.induct)
  case (1 C now n ch buf)
  have l: "length (om_remove (chain_needs ch) buf) \<le> length buf" by (simp add: om_remove_def)
  show ?case
  proof (cases "map_of buf (chain_needs ch)")
    case None
    with 1(2,3) show ?thesis by (simp add: drain_buffer.simps [of C now n ch buf])
  next
    case (Some page)
    obtain c x where t: "try_ingest_blocks C ch page now = (c, x)" by fastforce
    show ?thesis
    proof (cases "\<exists>k. x = Inr k \<and> 0 < k")
      case True
      then obtain k where k: "x = Inr k" "0 < k" by blast
      from 1(1) [OF Some refl t [symmetric] k(1,2)] 1(2,3) Some t k l show ?thesis
        by (auto simp: drain_buffer.simps [of C now n ch buf] Let_def)
    next
      case False
      with 1(2,3) Some t l show ?thesis
        by (auto simp: drain_buffer.simps [of C now n ch buf] Let_def split: sum.splits if_splits)
    qed
  qed
qed

section \<open>The invariant\<close>

text \<open>The chain, the mempool and the bounded books; everything else is free.\<close>

definition books_ok :: "'p node \<Rightarrow> bool" where
  "books_ok g \<longleftrightarrow> length (nd_branch g) \<le> MAX_BRANCH_BLOCKS
     \<and> om_ok (nd_ibd_buffer g) \<and> length (nd_ibd_buffer g) \<le> 8
     \<and> distinct (map fst (nd_last_reorg_fetch g)) \<and> length (nd_last_reorg_fetch g) \<le> REORG_FETCH_MAX_PEERS
     \<and> pool_ok (nd_sessions g)"

definition node_ok :: "('p::ab_group_add, 's::comm_ring_1) node_env \<Rightarrow> 'p node \<Rightarrow> bool" where
  "node_ok E g \<longleftrightarrow> deep_ok (ne_crypto E) (nd_chain g) \<and> mempool_ok (ne_crypto E) (nd_mempool g) \<and> books_ok g"

definition core_of where
  "core_of g = (nd_chain g, nd_mempool g, nd_branch g, nd_ibd_buffer g, nd_last_reorg_fetch g, nd_sessions g,
     nd_reorg_in_flight g)"

lemma node_ok_core: "core_of g' = core_of g \<Longrightarrow> node_ok E g' \<longleftrightarrow> node_ok E g"
  by (simp add: node_ok_def books_ok_def core_of_def)

lemma core_of_D:
  "core_of g' = core_of g \<Longrightarrow> nd_chain g' = nd_chain g"
  "core_of g' = core_of g \<Longrightarrow> nd_reorg_in_flight g' = nd_reorg_in_flight g"
  by (simp_all add: core_of_def)

text \<open>Operations that leave the core alone.\<close>

lemma core_note_peer_height [simp]: "core_of (note_peer_height now h g) = core_of g"
  by (simp add: note_peer_height_def Let_def core_of_def)

lemma core_small [simp]:
  "core_of (bump_tip now g) = core_of g" "core_of (apply_clock_jump now g) = core_of g"
  "core_of (mark_confirmed a g) = core_of g" "core_of (set_session_height k h g) = core_of g"
  "core_of (note_archive a i g) = core_of g" "core_of (learn_addr a g) = core_of g"
  "core_of (set_mining on g) = core_of g" "core_of (clock_check now g) = core_of g"
  "core_of (heartbeat now g) = core_of g" "core_of (learn_listed a g) = core_of g"
  by (simp_all add: bump_tip_def apply_clock_jump_def mark_confirmed_def set_session_height_def note_archive_def
      learn_addr_def set_mining_def clock_check_def heartbeat_def learn_listed_def core_of_def)

lemma core_learn [simp]: "core_of (learn_addrs as g) = core_of g" "core_of (learn_directory as g) = core_of g"
proof -
  have "core_of (fold learn_addr xs h) = core_of h" for xs and h :: "'a node"
    by (induction xs arbitrary: h) simp_all
  then show "core_of (learn_addrs as g) = core_of g" by (simp add: learn_addrs_def)
  have "core_of (fold learn_listed xs h) = core_of h" for xs and h :: "'a node"
    by (induction xs arbitrary: h) simp_all
  then show "core_of (learn_directory as g) = core_of g" by (simp add: learn_directory_def)
qed

lemma core_learn_dialable [simp]: "core_of (learn_dialable l p a g) = core_of g"
  by (simp add: learn_dialable_def Let_def core_of_def mark_confirmed_def split: option.split)

lemma core_claim: "claim_ibd_from g = (g', h) \<Longrightarrow> core_of g' = core_of g"
  by (auto simp: claim_ibd_from_def core_of_def split: prod.splits)

lemma core_propagate: "propagate_from_inner E d now t k ob g = (g', acts) \<Longrightarrow> core_of g' = core_of g"
  by (auto simp: propagate_from_inner_def Let_def core_of_def split: option.splits if_splits)

lemma core_add_peer: "add_peer l r raw g = (g', x) \<Longrightarrow> core_of g' = core_of g"
  by (auto simp: add_peer_def Let_def core_of_def split: sum.splits if_splits)

lemma core_set_proxy: "set_proxy raw g = (g', x) \<Longrightarrow> core_of g' = core_of g"
  by (auto simp: set_proxy_def core_of_def split: sum.splits)

section \<open>Operations that keep it\<close>

lemma ok_chain:
  "node_ok E g \<Longrightarrow> deep_ok (ne_crypto E) ch \<Longrightarrow> node_ok E (g\<lparr>nd_chain := ch\<rparr>)"
  by (simp add: node_ok_def books_ok_def)

lemma ok_mempool:
  "node_ok E g \<Longrightarrow> mempool_ok (ne_crypto E) p \<Longrightarrow> node_ok E (g\<lparr>nd_mempool := p\<rparr>)"
  by (simp add: node_ok_def books_ok_def)

lemma ok_sessions: "node_ok E g \<Longrightarrow> pool_ok p \<Longrightarrow> node_ok E (g\<lparr>nd_sessions := p\<rparr>)"
  by (simp add: node_ok_def books_ok_def)

lemma ok_D:
  assumes "node_ok E g"
  shows "deep_ok (ne_crypto E) (nd_chain g)" "mempool_ok (ne_crypto E) (nd_mempool g)" "pool_ok (nd_sessions g)"
    "books_ok g"
  using assms by (simp_all add: node_ok_def books_ok_def)

lemma persist_effect:
  assumes "node_ok E g"
  shows "node_ok E (fst (persist_chain E g))"
    "headers (nd_chain (fst (persist_chain E g))) = headers (nd_chain g)"
    "nd_reorg_in_flight (fst (persist_chain E g)) = nd_reorg_in_flight g"
proof -
  have "node_ok E (fst (persist_chain E g)) \<and> headers (nd_chain (fst (persist_chain E g))) = headers (nd_chain g)
    \<and> nd_reorg_in_flight (fst (persist_chain E g)) = nd_reorg_in_flight g"
  proof (cases "nd_prune_keep g")
    case None
    have "core_of (fst (persist_chain E g)) = core_of g"
      by (simp add: persist_chain_def None core_of_def split: prod.split)
    with assms node_ok_core core_of_D show ?thesis by metis
  next
    case (Some k)
    obtain ch' r where p: "prune_keep (ne_crypto E) (nd_chain g) k = (ch', r)" by fastforce
    note d = ok_D [OF assms]
    have c: "core_of (fst (persist_chain E g)) = core_of (g\<lparr>nd_chain := ch'\<rparr>)"
      by (simp add: persist_chain_def Some p core_of_def Let_def split: prod.split)
    have h: "headers ch' = headers (nd_chain g)" using prune_keep_effect [OF deep_okD [OF d(1)] p] by simp
    have "node_ok E (g\<lparr>nd_chain := ch'\<rparr>)" by (rule ok_chain [OF assms deep_prune [OF d(1) p]])
    with c h node_ok_core [OF c, of E] core_of_D [OF c] show ?thesis by simp
  qed
  then show "node_ok E (fst (persist_chain E g))"
    "headers (nd_chain (fst (persist_chain E g))) = headers (nd_chain g)"
    "nd_reorg_in_flight (fst (persist_chain E g)) = nd_reorg_in_flight g" by simp_all
qed

lemmas persist_quietly_effect = persist_effect [folded persist_quietly_def]

lemma claim_slot_ok:
  assumes "claim_reorg_fetch_slot a now m = (m', got)" "distinct (map fst m)" "length m \<le> REORG_FETCH_MAX_PEERS"
  shows "distinct (map fst m') \<and> length m' \<le> REORG_FETCH_MAX_PEERS"
proof -
  define f where "f = filter (\<lambda>e. sat_sub now (snd e) < REORG_FETCH_COOLDOWN_SECS) m"
  have d: "distinct (map fst f)" unfolding f_def using assms(2) by (rule distinct_map_filter)
  have l: "length f \<le> REORG_FETCH_MAX_PEERS"
    using assms(3) length_filter_le [of "\<lambda>e. sat_sub now (snd e) < REORG_FETCH_COOLDOWN_SECS" m]
    unfolding f_def by linarith
  show ?thesis
    using assms(1) d l length_update [of a now f]
    by (auto simp: claim_reorg_fetch_slot_def f_def [symmetric] Let_def AList.distinct_update split: if_splits)
qed

lemma kick_ok:
  assumes "kick_reorg_fetch now s g = (g', acts)" "node_ok E g"
  shows "node_ok E g' \<and> nd_chain g' = nd_chain g \<and> nd_reorg_in_flight g' = nd_reorg_in_flight g"
proof -
  obtain m got where c: "claim_reorg_fetch_slot (session_addr s) now (nd_last_reorg_fetch g) = (m, got)" by fastforce
  have "distinct (map fst m) \<and> length m \<le> REORG_FETCH_MAX_PEERS"
    using claim_slot_ok [OF c] assms(2) by (simp add: node_ok_def books_ok_def)
  with assms c show ?thesis
    by (auto simp: kick_reorg_fetch_def node_ok_def books_ok_def split: if_splits)
qed

text \<open>Heights are \<open>u64\<close>: a chain has at most \<open>2 ^ 64\<close> headers.\<close>

abbreviation fits :: "'p node \<Rightarrow> bool" where "fits g \<equiv> length (headers (nd_chain g)) \<le> 2 ^ 64"

text \<open>
  What a step has to show: the invariant, and that it leaves the mark of a verification alone;
  but for a resync also that the chain does not get lighter.
\<close>

definition safe :: "('p::ab_group_add, 's::comm_ring_1) node_env \<Rightarrow> 'p node \<Rightarrow> 'p node \<Rightarrow> bool" where
  "safe E g g' \<longleftrightarrow> node_ok E g' \<and> nd_reorg_in_flight g' = nd_reorg_in_flight g"

definition keeps :: "('p::ab_group_add, 's::comm_ring_1) node_env \<Rightarrow> 'p node \<Rightarrow> 'p node \<Rightarrow> bool" where
  "keeps E g g' \<longleftrightarrow> node_ok E g' \<and> nd_reorg_in_flight g' = nd_reorg_in_flight g
     \<and> total_work (nd_chain g) \<le> total_work (nd_chain g')"

lemma keeps_safe: "keeps E g g' \<Longrightarrow> safe E g g'"
  by (simp add: keeps_def safe_def)

lemma prune_headers [simp]: "headers (fst (prune_keep C ch k)) = headers ch"
  by (simp add: prune_keep_def Let_def split: prod.split sum.split option.split)

lemma prune_work [simp]: "total_work (fst (prune_keep C ch k)) = total_work ch"
  by (simp add: prune_keep_def Let_def split: prod.split sum.split option.split)

lemma persist_headers [simp]: "headers (nd_chain (persist_quietly E g)) = headers (nd_chain g)"
  "total_work (nd_chain (persist_quietly E g)) = total_work (nd_chain g)"
  by (simp_all add: persist_quietly_def persist_chain_def Let_def split: prod.split option.split)

lemma keeps_core: "node_ok E g \<Longrightarrow> core_of g' = core_of g \<Longrightarrow> keeps E g g'"
  using node_ok_core [of g' g E] core_of_D [of g' g] by (simp add: keeps_def)

lemma keeps_persist: "keeps E g g' \<Longrightarrow> keeps E g (persist_quietly E g')"
  by (simp add: keeps_def persist_quietly_effect)

lemma keeps_core_after: "keeps E g g' \<Longrightarrow> core_of g'' = core_of g' \<Longrightarrow> keeps E g g''"
  using node_ok_core [of g'' g' E] core_of_D [of g'' g'] by (simp add: keeps_def)

lemma page_keeps:
  assumes C: "encoding_ok (ne_crypto E)" "group_ok (ne_crypto E)" and g: "node_ok E g"
    and a: "apply_ibd_page E bs now g = (g', r)" and len: "fits g'"
  shows "keeps E g g'"
proof (cases bs)
  case Nil
  with a g show ?thesis by (simp add: apply_ibd_page_def keeps_def)
next
  case (Cons b rest)
  let ?next = "next_needed_height g"
  note d = ok_D [OF g]
  consider (ahead) "?next < b_height b" | (old) "\<not> ?next < b_height b" "b_height (last bs) < ?next"
    | (run) "\<not> ?next < b_height b" "\<not> b_height (last bs) < ?next" by blast
  then show ?thesis
  proof cases
    case ahead
    let ?m = "om_insert (b_height b) bs (nd_ibd_buffer g)"
    have "om_ok ?m" using d(4) by (simp add: books_ok_def)
    then have "om_ok (take 8 ?m)" by (simp add: om_ok_def sorted_wrt_take flip: take_map)
    with a ahead Cons g show ?thesis
      by (auto simp: apply_ibd_page_def trim_pages_def keeps_def node_ok_def books_ok_def)
  next
    case old
    with a Cons g show ?thesis by (simp add: apply_ibd_page_def keeps_def)
  next
    case run
    obtain ch1 x where t: "try_ingest_blocks (ne_crypto E) (nd_chain g) bs now = (ch1, x)" by fastforce
    obtain ch2 buf n where dr: "drain_buffer (ne_crypto E) now (ingested x) ch1 (nd_ibd_buffer g) = (ch2, buf, n)"
      by (metis prod_cases3)
    obtain h where g': "g' = g\<lparr>nd_chain := ch2, nd_ibd_buffer := buf, nd_ibd_from := h\<rparr>"
      using a run Cons t dr by (auto simp: apply_ibd_page_def Let_def)
    have core: "chain_core (ne_crypto E) ch1"
      using ingest_grows [OF C deep_core [OF d(1)] t [unfolded try_ingest_blocks_def]] by simp
    have len1: "length (headers ch1) \<le> 2 ^ 64" using drain_grows [OF C core dr] len g' by simp
    have "deep_ok (ne_crypto E) ch2"
      by (rule drain_deep [OF C _ try_ingest_deep [OF C d(1) t len1] dr]) (use len g' in simp)
    moreover have "om_ok buf \<and> length buf \<le> length (nd_ibd_buffer g)"
      by (rule drain_buffer_ok [OF _ dr]) (use d(4) in \<open>simp add: books_ok_def\<close>)
    moreover have "total_work (nd_chain g) \<le> total_work ch2"
      using ingest_grows [OF C deep_core [OF d(1)] t [unfolded try_ingest_blocks_def]] drain_grows [OF C core dr]
      by auto
    ultimately show ?thesis using g unfolding g' by (simp add: keeps_def node_ok_def books_ok_def)
  qed
qed

lemma bump_stalled [simp]: "core_of (g\<lparr>nd_stalled_on_fork := b\<rparr>) = core_of g"
  "core_of (g\<lparr>nd_ibd_from := i\<rparr>) = core_of g" "core_of (g\<lparr>nd_fork_rewind := n\<rparr>) = core_of g"
  "core_of (g\<lparr>nd_idle_reason := k\<rparr>) = core_of g" "core_of (g\<lparr>nd_blocks_found := n\<rparr>) = core_of g"
  "core_of (g\<lparr>nd_last_dial_error := e\<rparr>) = core_of g" "core_of (g\<lparr>nd_peer_addrs := as\<rparr>) = core_of g"
  "core_of (g\<lparr>nd_reachable_listen := as\<rparr>) = core_of g" "core_of (g\<lparr>nd_disk := dk\<rparr>) = core_of g"
  "core_of (g\<lparr>nd_prune_keep := pk\<rparr>) = core_of g"
  by (simp_all add: core_of_def)

lemma settle_page_keeps:
  assumes "keeps E g g'" shows "keeps E g (settle_page E now (g', r))"
proof -
  have k: "keeps E g (bump_tip now (g'\<lparr>nd_stalled_on_fork := False\<rparr>))"
    by (rule keeps_core_after [OF assms]) simp
  show ?thesis
    using assms keeps_persist [OF k] by (cases r) (simp_all add: settle_page_def)
qed

lemma settle_page_headers [simp]: "headers (nd_chain (settle_page E now (g', r))) = headers (nd_chain g')"
  by (cases r) (simp_all add: settle_page_def bump_tip_def)

lemma next_page_core: "next_page r b s g = Some (g', h) \<Longrightarrow> core_of g' = core_of g"
  by (auto simp: next_page_def core_claim split: ibd_page.splits if_splits prod.splits)

lemma kick_keeps: "keeps E g g' \<Longrightarrow> kick_reorg_fetch now s g' = (g'', acts) \<Longrightarrow> keeps E g g'' \<and> nd_chain g'' = nd_chain g'"
  using kick_ok [of now s g' g'' acts E] by (simp add: keeps_def)

lemma blocks_keeps:
  assumes C: "encoding_ok (ne_crypto E)" "group_ok (ne_crypto E)" and g: "node_ok E g"
    and a: "on_blocks E now s bs (g, h) = ((g', h'), acts, r)" and len: "fits g'"
  shows "keeps E g g'"
proof (cases "MAX_BLOCKS_PER_REQUEST < length bs")
  case True
  with a g show ?thesis by (simp add: on_blocks_def keeps_def)
next
  case False
  obtain g1 o' where p: "apply_ibd_page E bs now g = (g1, o')" by fastforce
  define g2 where "g2 = settle_page E now (g1, o')"
  define behind where "behind = peer_covers_height h (next_needed_height g2)"
  have run: "((g', h'), acts, r) =
      (case next_page o' behind (length bs < MAX_BLOCKS_PER_REQUEST) g2 of
         Some (g', from_height) \<Rightarrow> ((g', h), [ask_for s from_height], Inr ())
       | None \<Rightarrow>
           if o' = Rejected \<and> behind then
             (case kick_reorg_fetch now s (g2\<lparr>nd_stalled_on_fork := True\<rparr>) of (g', acts) \<Rightarrow> ((g', h), acts, Inr ()))
           else ((g2, h), [], Inr ()))"
    using a [unfolded on_blocks_def Let_def prod.case p snd_conv, folded g2_def, folded behind_def] False
    by simp
  have "nd_chain g' = nd_chain g2 \<and> (keeps E g g2 \<longrightarrow> keeps E g g')"
  proof (cases "next_page o' behind (length bs < MAX_BLOCKS_PER_REQUEST) g2")
    case (Some x)
    obtain g3 i where x: "x = (g3, i)" by fastforce
    have "g' = g3" using run Some x by simp
    then show ?thesis using next_page_core [OF Some [unfolded x]] core_of_D(1) keeps_core_after by blast
  next
    case None
    obtain g3 ks where k: "kick_reorg_fetch now s (g2\<lparr>nd_stalled_on_fork := True\<rparr>) = (g3, ks)" by fastforce
    have "nd_chain g3 = nd_chain g2"
      using k by (auto simp: kick_reorg_fetch_def split: if_splits prod.splits)
    moreover have "keeps E g g3" if "keeps E g g2"
      using kick_keeps [OF keeps_core_after [OF that] k] by simp
    moreover have "g' = g3 \<or> g' = g2" using run None k by (simp split: if_splits)
    ultimately show ?thesis by auto
  qed
  then have chain: "nd_chain g' = nd_chain g2" and ok: "keeps E g g2 \<Longrightarrow> keeps E g g'" by auto
  have "fits g1" using len chain by (simp add: g2_def)
  then have "keeps E g g1" by (rule page_keeps [OF C g p])
  then show ?thesis by (intro ok) (simp add: g2_def settle_page_keeps)
qed

lemma status_keeps:
  assumes g: "node_ok E g" and a: "on_status E now s h tip g = ((g', h'), acts, r)"
  shows "keeps E g g'"
proof -
  define g1 where "g1 = set_session_height (ss_key s) h (note_peer_height now h g)"
  have k: "keeps E g g1" by (rule keeps_core [OF g]) (simp add: g1_def)
  obtain g2 i where c: "claim_ibd_from g1 = (g2, i)" by fastforce
  obtain g3 ks where r: "kick_reorg_fetch now s g1 = (g3, ks)" by fastforce
  have "g' = g1 \<or> g' = g2 \<or> g' = g3"
    using a [unfolded on_status_def Let_def, folded g1_def] c r by (auto split: if_splits)
  then show ?thesis using k keeps_core_after [OF k core_claim [OF c]] kick_keeps [OF k r] by auto
qed

lemma inv_block_keeps:
  assumes g: "node_ok E g" and a: "on_inv_block now s h (g, l) = ((g', h'), acts, r)"
  shows "keeps E g g'"
proof -
  define g1 where "g1 = note_peer_height now h g"
  have k: "keeps E g g1" by (rule keeps_core [OF g]) (simp add: g1_def)
  obtain g2 i where c: "claim_ibd_from g1 = (g2, i)" by fastforce
  have "g' = g1 \<or> g' = g2"
    using a [unfolded on_inv_block_def Let_def prod.case, folded g1_def] c by (auto split: if_splits)
  then show ?thesis using k keeps_core_after [OF k core_claim [OF c]] by auto
qed

lemma tx_keeps:
  assumes g: "node_ok E g" and a: "on_tx E d now s t (g, l) = ((g', h'), acts, r)"
  shows "keeps E g g'"
proof -
  obtain p b where i: "mempool_insert (ne_crypto E) t now (nd_mempool g) = (p, b)" by fastforce
  then have "p = fst (insert_checked (ne_crypto E) t now (nd_mempool g))"
    by (auto simp: mempool_insert_def split: prod.splits)
  then have m: "mempool_ok (ne_crypto E) p" using insert_checked_ok [OF ok_D(2) [OF g]] by simp
  have k: "keeps E g (g\<lparr>nd_mempool := p\<rparr>)" using ok_mempool [OF g m] by (simp add: keeps_def)
  obtain g1 as where pr: "propagate_from_inner E d now t (Some (ss_key s)) False (g\<lparr>nd_mempool := p\<rparr>) = (g1, as)"
    by fastforce
  have "g' = g \<or> g' = g1 \<or> g' = g\<lparr>nd_mempool := p\<rparr>"
    using a i pr by (auto simp: on_tx_def split: sum.splits if_splits)
  then show ?thesis
    using k keeps_core_after [OF k core_propagate [OF pr]] keeps_core [OF g refl] by auto
qed

lemma message_keeps:
  assumes C: "encoding_ok (ne_crypto E)" "group_ok (ne_crypto E)" and g: "node_ok E g"
    and a: "handle_msg E d now s m (g, h) = ((g', h'), acts, r)" and m: "\<And>b. m \<noteq> BlockMsg b" and len: "fits g'"
  shows "keeps E g g'"
proof -
  have same: "keeps E g g'" if "core_of g' = core_of g" using keeps_core [OF g that] .
  show ?thesis
  proof (cases m)
    case (StatusMsg ht tip x y z)
    with a have "on_status E now s ht tip g = ((g', h'), acts, r)" by (simp add: handle_msg_def)
    then show ?thesis by (rule status_keeps [OF g])
  next
    case (TxMsg t)
    with a have "on_tx E d now s t (g, h) = ((g', h'), acts, r)" by (simp add: handle_msg_def)
    then show ?thesis by (rule tx_keeps [OF g])
  next
    case (InvBlock x ht)
    with a have "on_inv_block now s ht (g, h) = ((g', h'), acts, r)" by (simp add: handle_msg_def)
    then show ?thesis by (rule inv_block_keeps [OF g])
  next
    case (BlocksMsg bs)
    with a have "on_blocks E now s bs (g, h) = ((g', h'), acts, r)" by (simp add: handle_msg_def)
    then show ?thesis by (rule blocks_keeps [OF C g _ len])
  next
    case (GetBlocks x y)
    with a show ?thesis by (intro same) (simp add: handle_msg_def split: sum.splits)
  qed (use a m g in \<open>auto simp: handle_msg_def intro: keeps_core\<close>)
qed

section \<open>Blocks\<close>

lemma settle_block_keeps:
  assumes g: "node_ok E g" and ch: "deep_ok (ne_crypto E) ch" "total_work (nd_chain g) \<le> total_work ch"
  shows "keeps E g (settle_block E now b ch g)"
proof -
  have "node_ok E (g\<lparr>nd_chain := ch, nd_mempool := fst (expire now (remove_included b (nd_mempool g)))\<rparr>)"
    using g ch expire_ok [OF remove_included_ok [OF ok_D(2) [OF g]]] by (simp add: node_ok_def books_ok_def)
  then have "keeps E g (g\<lparr>nd_chain := ch, nd_mempool := fst (expire now (remove_included b (nd_mempool g)))\<rparr>)"
    using ch(2) by (simp add: keeps_def)
  then show ?thesis unfolding settle_block_def by (intro keeps_persist) (rule keeps_core_after, simp_all)
qed

lemma settle_block_headers [simp]: "headers (nd_chain (settle_block E now b ch g)) = headers ch"
  by (simp add: settle_block_def bump_tip_def)

lemma branch_keeps: "keeps E g g' \<Longrightarrow> length m \<le> MAX_BRANCH_BLOCKS \<Longrightarrow> keeps E g (g'\<lparr>nd_branch := m\<rparr>)"
  by (simp add: keeps_def node_ok_def books_ok_def)

lemma accept_keeps:
  assumes C: "encoding_ok (ne_crypto E)" "group_ok (ne_crypto E)" and g: "node_ok E g"
    and a: "accept_block E now b g = (g', ok)" and len: "fits g'"
  shows "keeps E g g'"
proof -
  obtain ch r where ap: "chain_apply_block (ne_crypto E) (nd_chain g) b now = (ch, r)" by fastforce
  have g': "g' = (case r of Inr _ \<Rightarrow> (settle_block E now b ch g)\<lparr>nd_branch := []\<rparr> | Inl _ \<Rightarrow> g\<lparr>nd_chain := ch\<rparr>)"
    using a ap by (cases r) (simp_all add: accept_block_def)
  have "length (headers ch) \<le> 2 ^ 64" using len by (cases r) (simp_all add: g')
  then have d: "deep_ok (ne_crypto E) ch" by (rule apply_deep [OF C ok_D(1) [OF g] ap])
  have w: "total_work (nd_chain g) \<le> total_work ch"
    using apply_grows [OF C deep_core [OF ok_D(1) [OF g]] ap] by simp
  show ?thesis
    using branch_keeps [OF settle_block_keeps [OF g d w], of "[]"] ok_chain [OF g d] w
    by (cases r) (simp_all add: g' keeps_def)
qed

section \<open>Reorganisations\<close>

lemma remember_keeps: "node_ok E g \<Longrightarrow> keeps E g (remember_branch b g) \<and> nd_chain (remember_branch b g) = nd_chain g"
proof -
  assume g: "node_ok E g"
  let ?m = "if MAX_BRANCH_BLOCKS \<le> length (nd_branch g) then [] else nd_branch g"
  have "length ?m < MAX_BRANCH_BLOCKS" by (simp add: params)
  then have "length (AList.update (h_prev_hash (blk_header b)) b ?m) \<le> MAX_BRANCH_BLOCKS"
    using length_update [of "h_prev_hash (blk_header b)" b ?m] by linarith
  with g show ?thesis by (simp add: remember_branch_def keeps_def node_ok_def books_ok_def)
qed

lemma consider_keeps:
  assumes g: "node_ok E g" and a: "consider_prepare E b g = (g', job)"
  shows "keeps E g g' \<and> nd_chain g' = nd_chain g
    \<and> (\<forall>t sfx. job = Some (t, sfx) \<longrightarrow> (\<exists>anc. prepare_suffix_trial (ne_crypto E) (ne_genesis_json E) (nd_chain g) anc = Inr t))"
proof -
  define g1 where "g1 = remember_branch b g"
  have k: "keeps E g g1" "nd_chain g1 = nd_chain g" unfolding g1_def using remember_keeps [OF g] by blast+
  note a' = a [unfolded consider_prepare_def Let_def, folded g1_def]
  have "core_of g' = core_of g1" using a' by (auto simp: core_of_def split: option.splits if_splits sum.splits)
  moreover have "\<exists>anc. prepare_suffix_trial (ne_crypto E) (ne_genesis_json E) (nd_chain g1) anc = Inr t"
    if "job = Some (t, sfx)" for t sfx
    using a' that by (auto split: option.splits if_splits sum.splits)
  ultimately show ?thesis using k keeps_core_after [OF k(1)] core_of_D(1) by metis
qed

lemma prepare_reorg_keeps:
  assumes g: "node_ok E g" and a: "prepare_reorg E anc g = (g', job)"
  shows "keeps E g g' \<and> nd_chain g' = nd_chain g
    \<and> (\<forall>t. job = Some t \<longrightarrow> prepare_suffix_trial (ne_crypto E) (ne_genesis_json E) (nd_chain g) anc = Inr t)"
proof -
  have c: "core_of g' = core_of g"
    using a by (auto simp: prepare_reorg_def core_of_def Let_def split: if_splits sum.splits)
  moreover have "prepare_suffix_trial (ne_crypto E) (ne_genesis_json E) (nd_chain g) anc = Inr t" if "job = Some t" for t
    using a that by (auto simp: prepare_reorg_def Let_def split: if_splits sum.splits)
  ultimately show ?thesis using keeps_core [OF g c] core_of_D(1) [OF c] by blast
qed

lemma mempool_keeps: "keeps E g g' \<Longrightarrow> mempool_ok (ne_crypto E) p \<Longrightarrow> keeps E g (g'\<lparr>nd_mempool := p\<rparr>)"
  by (simp add: keeps_def ok_mempool)

lemma chain_keeps: "node_ok E g \<Longrightarrow> deep_ok (ne_crypto E) ch \<Longrightarrow> total_work (nd_chain g) \<le> total_work ch \<Longrightarrow> keeps E g (g\<lparr>nd_chain := ch\<rparr>)"
  by (simp add: keeps_def ok_chain)

lemma reconcile_keeps: "keeps E g g' \<Longrightarrow> keeps E g (reconcile_mempool E g')"
  unfolding reconcile_mempool_def by (intro mempool_keeps drop_ids_ok) (auto simp: keeps_def node_ok_def)

lemma verdict_keeps:
  assumes C: "encoding_ok (ne_crypto E)" "group_ok (ne_crypto E)" and g: "node_ok E g"
    and base: "deep_ok (ne_crypto E) base" "prepare_suffix_trial (ne_crypto E) (ne_genesis_json E) base anc = Inr t"
    and tip: "tip_hash (ne_crypto E) (nd_chain g) = st_based_on t \<Longrightarrow> pruned_view base (nd_chain g)"
    and len: "fits (adopt_verdict E now cb (finish_suffix (ne_crypto E) t sfx now) g)"
  shows "keeps E g (adopt_verdict E now cb (finish_suffix (ne_crypto E) t sfx now) g)"
proof (cases "\<exists>r. finish_suffix (ne_crypto E) t sfx now = Inr (Some r)")
  case False
  then show ?thesis using g
    by (auto simp: adopt_verdict_def keeps_def split: sum.split option.split)
next
  case True
  then obtain r where f: "finish_suffix (ne_crypto E) t sfx now = Inr (Some r)" by blast
  obtain ch ok where s: "splice_suffix (ne_crypto E) (nd_chain g) r = (ch, ok)" by fastforce
  show ?thesis
  proof (cases ok)
    case False
    then have "splice_suffix (ne_crypto E) (nd_chain g) r = (ch, False)" using s by simp
    then have "ch = nd_chain g" by (rule splice_False)
    with False f s g show ?thesis by (simp add: adopt_verdict_def keeps_def)
  next
    case True
    have h: "headers (nd_chain (adopt_verdict E now cb (finish_suffix (ne_crypto E) t sfx now) g)) = headers ch"
      using f s True by (simp add: adopt_verdict_def Let_def bump_tip_def reconcile_mempool_def)
    have "sr_based_on r = st_based_on t" using f by (auto simp: finish_suffix_def res_simps split: if_splits)
    then have "tip_hash (ne_crypto E) (nd_chain g) = st_based_on t"
      using s True by (auto simp: splice_suffix_def split: if_splits)
    then have view: "pruned_view base (nd_chain g)" by (rule tip)
    have s': "splice_suffix (ne_crypto E) (nd_chain g) r = (ch, True)" using s True by simp
    have d: "deep_ok (ne_crypto E) ch"
      using len h by (intro splice_keeps_deep [OF C base(1) ok_D(1) [OF g] view base(2) f s']) simp
    have w: "total_work (nd_chain g) \<le> total_work ch"
      using splice_rewinds_view(2) [OF C base(1) ok_D(1) [OF g] view base(2) f s'] by simp
    define g1 where "g1 = reconcile_mempool E (g\<lparr>nd_chain := ch, nd_stalled_on_fork := False, nd_fork_rewind := 0\<rparr>)"
    have "keeps E g (g\<lparr>nd_chain := ch, nd_stalled_on_fork := False, nd_fork_rewind := 0\<rparr>)"
      by (rule keeps_core_after [OF chain_keeps [OF g d w]]) (simp add: core_of_def)
    then have k1: "keeps E g g1" unfolding g1_def by (rule reconcile_keeps)
    have k2: "keeps E g (if cb then g1\<lparr>nd_branch := []\<rparr> else g1)"
      using branch_keeps [OF k1, of "[]"] k1 by simp
    have "adopt_verdict E now cb (finish_suffix (ne_crypto E) t sfx now) g
        = persist_quietly E (bump_tip now (if cb then g1\<lparr>nd_branch := []\<rparr> else g1))"
      using f s True by (simp add: adopt_verdict_def Let_def g1_def)
    then show ?thesis using keeps_persist [OF keeps_core_after [OF k2]] by simp
  qed
qed

section \<open>Mining and the owner\<close>

lemma template_keeps:
  assumes g: "node_ok E g" and a: "mining_template E drs now g = (g', t)"
  shows "keeps E g g'"
proof -
  define g1 where "g1 = clock_check now g"
  have k: "keeps E g g1" by (rule keeps_core [OF g]) (simp add: g1_def)
  have "core_of g' = core_of g1 \<or> (\<exists>ids n. g' = g1\<lparr>nd_mempool := fst (drop_ids ids (nd_mempool g1)), nd_idle_reason := n\<rparr>)"
    using a [unfolded mining_template_def Let_def, folded g1_def]
    by (auto split: if_splits option.splits sum.splits)
  then show ?thesis
  proof
    assume "\<exists>ids n. g' = g1\<lparr>nd_mempool := fst (drop_ids ids (nd_mempool g1)), nd_idle_reason := n\<rparr>"
    then obtain ids n where g': "g' = g1\<lparr>nd_mempool := fst (drop_ids ids (nd_mempool g1)), nd_idle_reason := n\<rparr>" by blast
    have "keeps E g (g1\<lparr>nd_mempool := fst (drop_ids ids (nd_mempool g1))\<rparr>)"
      by (intro mempool_keeps [OF k] drop_ids_ok) (use k in \<open>simp add: keeps_def node_ok_def\<close>)
    then show ?thesis unfolding g' by (rule keeps_core_after) simp
  qed (rule keeps_core_after [OF k])
qed

lemma submit_block_keeps:
  assumes C: "encoding_ok (ne_crypto E)" "group_ok (ne_crypto E)" and g: "node_ok E g"
    and a: "mining_submit E now t nonce g = (g', acts)" and len: "fits g'"
  shows "keeps E g g'"
proof -
  obtain ch r where ap: "chain_apply_block (ne_crypto E) (nd_chain g) (seal t nonce) now = (ch, r)" by fastforce
  have w: "total_work (nd_chain g) \<le> total_work ch"
    using apply_grows [OF C deep_core [OF ok_D(1) [OF g]] ap] by simp
  let ?s = "(settle_block E now (seal t nonce) ch g)\<lparr>nd_blocks_found := nd_blocks_found g + 1\<rparr>"
  have "core_of g' = core_of g \<or> (r \<noteq> Inr () \<and> g' = g\<lparr>nd_chain := ch\<rparr>) \<or> g' = ?s"
    using a ap by (auto simp: mining_submit_def Let_def split: if_splits sum.splits)
  then show ?thesis
  proof (elim disjE)
    assume "r \<noteq> Inr () \<and> g' = g\<lparr>nd_chain := ch\<rparr>"
    with apply_deep [OF C ok_D(1) [OF g] ap] len w show ?thesis by (simp add: chain_keeps [OF g])
  next
    assume g': "g' = ?s"
    then have "deep_ok (ne_crypto E) ch" using apply_deep [OF C ok_D(1) [OF g] ap] len by simp
    then show ?thesis unfolding g' by (intro keeps_core_after [OF settle_block_keeps [OF g _ w]]) simp_all
  qed (rule keeps_core [OF g])
qed

lemma submit_tx_keeps:
  assumes g: "node_ok E g" and a: "submit_tx E d now t g = (g', acts, r)"
  shows "keeps E g g'"
proof -
  obtain p b where i: "insert_checked (ne_crypto E) t now (nd_mempool g) = (p, b)" by fastforce
  then have m: "mempool_ok (ne_crypto E) p" using insert_checked_ok [OF ok_D(2) [OF g], of t now] by simp
  have k: "keeps E g (g\<lparr>nd_mempool := p\<rparr>)" by (rule mempool_keeps [OF keeps_core [OF g refl] m])
  obtain g1 as where pr: "propagate_from_inner E d now t None True (g\<lparr>nd_mempool := p\<rparr>) = (g1, as)" by fastforce
  have "g' = g \<or> g' = g1 \<or> g' = g\<lparr>nd_mempool := p\<rparr>"
    using a i pr by (auto simp: submit_tx_def Let_def split: sum.splits insert_outcome.splits)
  then show ?thesis
    using k keeps_core_after [OF k core_propagate [OF pr]] keeps_core [OF g refl] by auto
qed

lemma set_prune_keeps:
  assumes g: "node_ok E g" and a: "set_prune E on g = (g', r)"
  shows "keeps E g g'"
proof -
  define g1 where "g1 = g\<lparr>nd_prune_keep := (if on \<or> is_pruned (nd_chain g) then Some PRUNE_KEEP_BLOCKS else None)\<rparr>"
  have k: "keeps E g g1" by (rule keeps_core [OF g]) (simp add: g1_def)
  have "g' = g \<or> g' = fst (persist_chain E g1) \<or> g' = g1"
    using a [unfolded set_prune_def Let_def, folded g1_def] by (auto split: if_splits prod.splits)
  then show ?thesis
    using k keeps_persist [OF k] keeps_core [OF g refl] by (auto simp: persist_quietly_def)
qed

lemma resync_safe:
  assumes C: "encoding_ok (ne_crypto E)" "group_ok (ne_crypto E)" and g: "node_ok E g"
    and a: "resync_chain E now g = (g', acts, r)"
  shows "safe E g g'"
proof -
  have fresh: "deep_ok (ne_crypto E) ch" if "new_fair (ne_crypto E) (ne_genesis_json E) (nd_network g) = Inr ch" for ch
    using reachable_deep [OF C reachable.Start [OF that]] .
  have net: "nd_network (set_mining False g) = nd_network g" by (simp add: set_mining_def)
  consider "core_of g' = core_of g"
    | ch where "new_fair (ne_crypto E) (ne_genesis_json E) (nd_network g) = Inr ch" "core_of g' = core_of (g\<lparr>nd_chain := ch\<rparr>)"
    | ch dk where "new_fair (ne_crypto E) (ne_genesis_json E) (nd_network g) = Inr ch"
        "g' = blank_progress now ((set_mining False g)\<lparr>nd_disk := dk, nd_chain := ch\<rparr>)"
    using a by (auto simp: resync_chain_def Let_def net core_of_def set_mining_def split: if_splits prod.splits sum.splits)
  then show ?thesis
  proof cases
    case 1
    with g show ?thesis by (intro keeps_safe keeps_core)
  next
    case 2
    from ok_chain [OF g fresh [OF 2(1)]] node_ok_core [OF 2(2), of E] core_of_D(2) [OF 2(2)] show ?thesis
      by (simp add: safe_def)
  next
    case 3
    then show ?thesis using fresh [OF 3(1)] g mempool_ok_default [of "ne_crypto E"]
      by (simp add: safe_def node_ok_def books_ok_def blank_progress_def bump_tip_def set_mining_def)
  qed
qed

section \<open>Peers come and go\<close>

lemma sessions_keeps: "keeps E g g' \<Longrightarrow> pool_ok p \<Longrightarrow> keeps E g (g'\<lparr>nd_sessions := p\<rparr>)"
  by (simp add: keeps_def ok_sessions)

lemma keeps_pool: "keeps E g g' \<Longrightarrow> pool_ok (nd_sessions g')"
  by (simp add: keeps_def node_ok_def books_ok_def)

lemma forget_keeps: "keeps E g g' \<Longrightarrow> keeps E g (forget_incompatible a g')"
proof -
  assume k: "keeps E g g'"
  then have "keeps E g (g'\<lparr>nd_sessions :=
      pool_remove (inbound_key a) (pool_remove (outbound_key a) (pool_remove a (nd_sessions g')))\<rparr>)"
    by (intro sessions_keeps pool_remove_ok keeps_pool)
  then show ?thesis by (rule keeps_core_after) (simp add: forget_incompatible_def core_of_def)
qed

lemma hello_keeps:
  assumes g: "node_ok E g" and a: "answer_hello E now l m g = (g', reply, s)"
  shows "keeps E g g'"
proof -
  have k: "keeps E g g" by (rule keeps_core [OF g refl])
  have f: "keeps E g (forget_dialable l p g)" for p
    using k forget_keeps [OF k] by (simp add: forget_dialable_def split: option.split)
  have "core_of g' = core_of g \<or> (\<exists>p. g' = forget_dialable l p g)"
    using a by (cases m) (auto simp: answer_hello_def Let_def split: if_splits)
  then show ?thesis using keeps_core [OF g] f by auto
qed

lemma admit_keeps:
  assumes g: "node_ok E g" and a: "admit_peer key g = (g', acts, s)"
  shows "keeps E g g'"
proof -
  have k: "keeps E g g" by (rule keeps_core [OF g refl])
  have "pool_ok (fst (pool_insert key False (nd_sessions g)))" by (rule pool_insert_ok [OF ok_D(3) [OF g]])
  then show ?thesis using a k sessions_keeps [OF k]
    by (auto simp: admit_peer_def Let_def split: if_splits prod.splits)
qed

lemma leave_keeps: "node_ok E g \<Longrightarrow> keeps E g (leave_session key g)"
proof -
  assume g: "node_ok E g"
  have "keeps E g (g\<lparr>nd_sessions := pool_remove key (nd_sessions g)\<rparr>)"
    by (intro sessions_keeps pool_remove_ok ok_D(3) [OF g] keeps_core [OF g refl])
  then show ?thesis by (rule keeps_core_after) (simp add: leave_session_def core_of_def)
qed

lemma outbound_keeps:
  assumes g: "node_ok E g" and a: "open_outbound_session E now self addr (g, c) = ((g', c'), acts, r)"
  shows "keeps E g g'"
proof (cases "g' = g")
  case True
  then show ?thesis using keeps_core [OF g refl] by simp
next
  case False
  then obtain c1 intro where gr: "greet E g c = (c1, Inr intro)"
    using a by (auto simp: open_outbound_session_def split: if_splits prod.splits sum.splits)
  define g1 where "g1 = mark_confirmed addr (note_archive addr intro (note_peer_height now (pi_height intro) g))"
  define g2 where "g2 = (if is_directory_addr addr
      then g1\<lparr>nd_reachable_listen := hs_insert addr (nd_reachable_listen g1)\<rparr> else g1)"
  have c2: "core_of g2 = core_of g" by (simp add: g2_def g1_def)
  obtain p s where p: "pool_insert (outbound_key addr) True (nd_sessions g2) = (p, s)" by fastforce
  define g3 where "g3 = (set_session_height (outbound_key addr) (pi_height intro) g2)\<lparr>nd_sessions := p\<rparr>"
  have "pool_ok p" using pool_insert_ok [of "nd_sessions g2" "outbound_key addr" True] ok_D(3) [OF g] c2 p
    by (simp add: core_of_def)
  moreover have "keeps E g (set_session_height (outbound_key addr) (pi_height intro) g2)"
    by (rule keeps_core [OF g]) (simp add: c2)
  ultimately have k3: "keeps E g g3" unfolding g3_def by (intro sessions_keeps)
  obtain g4 i where c: "claim_ibd_from g3 = (g4, i)" by fastforce
  have "g' = g3 \<or> g' = g4"
    using a [unfolded open_outbound_session_def Let_def prod.case gr sum.case, folded g1_def, folded g2_def,
        unfolded p prod.case, folded g3_def, unfolded c prod.case] False
    by (auto split: if_splits)
  then show ?thesis using k3 keeps_core_after [OF k3 core_claim [OF c]] by auto
qed

lemma after_dial_keeps:
  assumes g: "node_ok E g" and a: "after_dial addr sd n r g = (g', x)"
  shows "keeps E g g'"
proof -
  have k: "keeps E g (g\<lparr>nd_last_dial_error := e\<rparr>)" for e by (rule keeps_core [OF g]) simp
  have k0: "keeps E g g" by (rule keeps_core [OF g refl])
  have p: "keeps E g (g1\<lparr>nd_peer_addrs := as\<rparr>)" if "keeps E g g1" for g1 as
    by (rule keeps_core_after [OF that]) simp
  show ?thesis
    using a g by (cases r) (auto simp: after_dial_def Let_def k k0 p forget_keeps split: if_splits intro: keeps_core)
qed

section \<open>The node as a machine\<close>

text \<open>
  A state is the node with the suffix being verified, if there is one: the chain the trial was
  prepared on, the trial and the blocks.  Each rule is what one thread does while it holds the
  lock; the clock, draws, messages and streams are arbitrary.  A verdict is applied under the
  assumption that the hash of the tip names the chain: if the tip is still the one the trial was
  based on, at most bodies were pruned meanwhile.
\<close>

type_synonym 'p machine = "'p node \<times> ('p chain \<times> 'p suffix_trial \<times> block list) option"

inductive node_step ::
    "('p::ab_group_add, 's::comm_ring_1) node_env \<Rightarrow> 'p machine \<Rightarrow> 'p machine \<Rightarrow> bool" for E where
  Message: "handle_msg E d now s m (g, h) = ((g', h'), acts, r) \<Longrightarrow> (\<And>b. m \<noteq> BlockMsg b)
    \<Longrightarrow> node_step E (g, j) (g', j)"
| Extend: "accept_block E now b g = (g', ok) \<Longrightarrow> node_step E (g, j) (g', j)"
| Weigh: "consider_prepare E b g = (g', None) \<Longrightarrow> node_step E (g, j) (g', j)"
| Busy: "consider_prepare E b g = (g', Some tr) \<Longrightarrow> begin_flight g' = None \<Longrightarrow> node_step E (g, j) (g', j)"
| Verify: "consider_prepare E b g = (g', Some (t, sfx)) \<Longrightarrow> begin_flight g' = Some g''
    \<Longrightarrow> node_step E (g, j) (g'', Some (nd_chain g', t, sfx))"
| Diverge: "prepare_reorg E anc g = (g', t) \<Longrightarrow> t = None \<or> begin_flight g' = None \<Longrightarrow> node_step E (g, j) (g', j)"
| Fetch: "prepare_reorg E anc g = (g', Some t) \<Longrightarrow> begin_flight g' = Some g''
    \<Longrightarrow> node_step E (g, j) (g'', Some (nd_chain g', t, sfx))"
| Verdict: "(tip_hash (ne_crypto E) (nd_chain g) = st_based_on t \<Longrightarrow> pruned_view base (nd_chain g))
    \<Longrightarrow> node_step E (g, Some (base, t, sfx))
          (end_flight (adopt_verdict E now cb (finish_suffix (ne_crypto E) t sfx now) g), None)"
| Abandon: "node_step E (g, Some job) (end_flight g, None)"
| Ingest: "try_ingest_blocks (ne_crypto E) (nd_chain g) bs now = (ch, r)
    \<Longrightarrow> node_step E (g, j)
          (if 0 < ingested r then persist_quietly E (bump_tip now (g\<lparr>nd_chain := ch\<rparr>)) else g\<lparr>nd_chain := ch\<rparr>, j)"
| Template: "mining_template E drs now g = (g', tpl) \<Longrightarrow> node_step E (g, j) (g', j)"
| Mined: "mining_submit E now tpl nonce g = (g', acts) \<Longrightarrow> node_step E (g, j) (g', j)"
| Submit: "submit_tx E d now t g = (g', acts, r) \<Longrightarrow> node_step E (g, j) (g', j)"
| Persist: "node_step E (g, j) (persist_quietly E g, j)"
| Beat: "node_step E (g, j) (heartbeat now g, j)"
| Hello: "answer_hello E now l m g = (g', reply, s) \<Longrightarrow> node_step E (g, j) (g', j)"
| Admit: "admit_peer key g = (g', acts, s) \<Longrightarrow> node_step E (g, j) (g', j)"
| Leave: "node_step E (g, j) (leave_session key g, j)"
| Dial: "open_outbound_session E now self addr (g, c) = ((g', c'), acts, r) \<Longrightarrow> node_step E (g, j) (g', j)"
| Dialled: "after_dial addr sd n r g = (g', x) \<Longrightarrow> node_step E (g, j) (g', j)"
| Prune: "set_prune E on g = (g', r) \<Longrightarrow> node_step E (g, j) (g', j)"
| Mining: "node_step E (g, j) (set_mining on g, j)"
| Add_peer: "add_peer lockdown resolves raw g = (g', r) \<Longrightarrow> node_step E (g, j) (g', j)"
| Directory: "node_step E (g, j) (learn_directory addrs g, j)"

text \<open>A node that has just started on a chain it loaded.\<close>

definition starts_on :: "'p chain \<Rightarrow> 'p node \<Rightarrow> bool" where
  "starts_on ch g \<longleftrightarrow> nd_chain g = ch \<and> nd_mempool g = mempool_default \<and> nd_branch g = [] \<and> nd_ibd_buffer g = []
     \<and> nd_last_reorg_fetch g = [] \<and> nd_sessions g = [] \<and> \<not> nd_reorg_in_flight g"

inductive node_reach ::
    "('p::ab_group_add, 's::comm_ring_1) node_env \<Rightarrow> 'p machine \<Rightarrow> bool" for E where
  Boot: "reachable (ne_crypto E) (ne_genesis_json E) ch \<Longrightarrow> starts_on ch g \<Longrightarrow> node_reach E (g, None)"
| Step: "node_reach E w \<Longrightarrow> node_step E w w' \<Longrightarrow> length (headers (nd_chain (fst w'))) \<le> 2 ^ 64 \<Longrightarrow> node_reach E w'"
| Resync: "node_reach E (g, j) \<Longrightarrow> resync_chain E now g = (g', acts, r) \<Longrightarrow> node_reach E (g', j)"

text \<open>The job, if there is one, belongs to a sound chain, and the mark is up exactly then.\<close>

definition machine_ok :: "('p::ab_group_add, 's::comm_ring_1) node_env \<Rightarrow> 'p machine \<Rightarrow> bool" where
  "machine_ok E w \<longleftrightarrow> node_ok E (fst w) \<and> (nd_reorg_in_flight (fst w) \<longleftrightarrow> snd w \<noteq> None)
     \<and> (\<forall>base t sfx. snd w = Some (base, t, sfx) \<longrightarrow> deep_ok (ne_crypto E) base
          \<and> (\<exists>anc. prepare_suffix_trial (ne_crypto E) (ne_genesis_json E) base anc = Inr t))"

lemma machine_keeps: "machine_ok E (g, j) \<Longrightarrow> keeps E g g'
    \<Longrightarrow> machine_ok E (g', j) \<and> total_work (nd_chain (fst (g, j))) \<le> total_work (nd_chain (fst (g', j)))"
  by (auto simp: machine_ok_def keeps_def)

lemma machine_keepsI: "machine_ok E (g, j) \<Longrightarrow> (node_ok E g \<Longrightarrow> keeps E g g')
    \<Longrightarrow> machine_ok E (g', j) \<and> total_work (nd_chain (fst (g, j'))) \<le> total_work (nd_chain (fst (g', j'')))"
  using machine_keeps [of E g j g'] by (simp add: machine_ok_def)

lemma flight_ok:
  assumes "node_ok E g" "begin_flight g = Some g'" "prepare_suffix_trial (ne_crypto E) (ne_genesis_json E) (nd_chain g) anc = Inr t"
  shows "machine_ok E (g', Some (nd_chain g, t, sfx)) \<and> nd_chain g' = nd_chain g"
  using assms by (auto simp: begin_flight_def machine_ok_def node_ok_def books_ok_def split: if_splits)

lemma landed_ok: "keeps E g g'
    \<Longrightarrow> machine_ok E (end_flight g', None) \<and> total_work (nd_chain (fst (g, j))) \<le> total_work (nd_chain (fst (end_flight g', j')))"
  by (simp add: keeps_def machine_ok_def end_flight_def node_ok_def books_ok_def)

lemma step_keeps:
  assumes C: "encoding_ok (ne_crypto E)" "group_ok (ne_crypto E)"
  shows "node_step E w w' \<Longrightarrow> machine_ok E w \<Longrightarrow> fits (fst w')
    \<Longrightarrow> machine_ok E w' \<and> total_work (nd_chain (fst w)) \<le> total_work (nd_chain (fst w'))"
proof (induction rule: node_step.induct)
  case (Message d now s m g h g' h' acts r j)
  show ?case
    by (rule machine_keepsI [OF Message.prems(1)], rule message_keeps [OF C _ Message.hyps(1)]) (use Message in simp_all)
next
  case (Extend now b g g' ok j)
  show ?case
    by (rule machine_keepsI [OF Extend.prems(1)], rule accept_keeps [OF C _ Extend.hyps(1)]) (use Extend in simp_all)
next
  case (Weigh b g g' j)
  show ?case
    by (rule machine_keepsI [OF Weigh.prems(1)], use consider_keeps [OF _ Weigh.hyps(1)] in blast)
next
  case (Busy b g g' tr j)
  show ?case
    by (rule machine_keepsI [OF Busy.prems(1)], use consider_keeps [OF _ Busy.hyps(1)] in blast)
next
  case (Verify b g g' t sfx g'' j)
  then have g: "node_ok E g" by (simp add: machine_ok_def)
  from consider_keeps [OF g Verify.hyps(1)] obtain anc where "node_ok E g'" "nd_chain g' = nd_chain g"
    "prepare_suffix_trial (ne_crypto E) (ne_genesis_json E) (nd_chain g) anc = Inr t"
    by (auto simp: keeps_def)
  then show ?case using flight_ok [OF _ Verify.hyps(2)] by (metis fst_conv order_refl)
next
  case (Diverge anc g g' t j)
  show ?case
    by (rule machine_keepsI [OF Diverge.prems(1)], use prepare_reorg_keeps [OF _ Diverge.hyps(1)] in blast)
next
  case (Fetch anc g g' t g'' j sfx)
  then have g: "node_ok E g" by (simp add: machine_ok_def)
  from prepare_reorg_keeps [OF g Fetch.hyps(1)] have "node_ok E g'" "nd_chain g' = nd_chain g"
    "prepare_suffix_trial (ne_crypto E) (ne_genesis_json E) (nd_chain g) anc = Inr t"
    by (auto simp: keeps_def)
  then show ?case using flight_ok [OF _ Fetch.hyps(2)] by (metis fst_conv order_refl)
next
  case (Verdict g t base sfx now cb)
  from Verdict.prems(1) obtain anc where g: "node_ok E g" and base: "deep_ok (ne_crypto E) base"
    "prepare_suffix_trial (ne_crypto E) (ne_genesis_json E) base anc = Inr t"
    by (auto simp: machine_ok_def)
  have "fits (adopt_verdict E now cb (finish_suffix (ne_crypto E) t sfx now) g)"
    using Verdict.prems(2) by (simp add: end_flight_def)
  from verdict_keeps [OF C g base Verdict.hyps this] show ?case by (rule landed_ok)
next
  case (Abandon g job)
  then have "node_ok E g" by (simp add: machine_ok_def)
  then have "keeps E g g" by (rule keeps_core) simp
  then show ?case by (rule landed_ok)
next
  case (Ingest g bs now ch r j)
  have g: "node_ok E g" using Ingest.prems(1) by (simp add: machine_ok_def)
  have "length (headers ch) \<le> 2 ^ 64" using Ingest.prems(2) by (simp add: bump_tip_def split: if_splits)
  then have d: "deep_ok (ne_crypto E) ch" by (rule try_ingest_deep [OF C ok_D(1) [OF g] Ingest.hyps])
  have "total_work (nd_chain g) \<le> total_work ch"
    using ingest_grows [OF C deep_core [OF ok_D(1) [OF g]] Ingest.hyps [unfolded try_ingest_blocks_def]] by simp
  then have k: "keeps E g (g\<lparr>nd_chain := ch\<rparr>)" by (rule chain_keeps [OF g d])
  have "keeps E g (persist_quietly E (bump_tip now (g\<lparr>nd_chain := ch\<rparr>)))"
    by (rule keeps_persist [OF keeps_core_after [OF k]]) simp
  with k show ?case by (intro machine_keepsI [OF Ingest.prems(1)]) simp
next
  case (Template drs now g g' tpl j)
  show ?case
    by (rule machine_keepsI [OF Template.prems(1)], rule template_keeps [OF _ Template.hyps(1)])
next
  case (Mined now tpl nonce g g' acts j)
  show ?case
    by (rule machine_keepsI [OF Mined.prems(1)], rule submit_block_keeps [OF C _ Mined.hyps(1)]) (use Mined in simp_all)
next
  case (Submit d now t g g' acts r j)
  show ?case
    by (rule machine_keepsI [OF Submit.prems(1)], rule submit_tx_keeps [OF _ Submit.hyps(1)])
next
  case (Persist g j)
  show ?case
    by (rule machine_keepsI [OF Persist.prems(1)], intro keeps_persist keeps_core refl)
next
  case (Beat g j now)
  show ?case
    by (rule machine_keepsI [OF Beat.prems(1)], rule keeps_core) (simp_all)
next
  case (Hello now l m g g' reply s j)
  show ?case
    by (rule machine_keepsI [OF Hello.prems(1)], rule hello_keeps [OF _ Hello.hyps(1)])
next
  case (Admit key g g' acts s j)
  show ?case
    by (rule machine_keepsI [OF Admit.prems(1)], rule admit_keeps [OF _ Admit.hyps(1)])
next
  case (Leave g j key)
  show ?case
    by (rule machine_keepsI [OF Leave.prems(1)], rule leave_keeps)
next
  case (Dial now self addr g c g' c' acts r j)
  show ?case
    by (rule machine_keepsI [OF Dial.prems(1)], rule outbound_keeps [OF _ Dial.hyps(1)])
next
  case (Dialled addr sd n r g g' x j)
  show ?case
    by (rule machine_keepsI [OF Dialled.prems(1)], rule after_dial_keeps [OF _ Dialled.hyps(1)])
next
  case (Prune on g g' r j)
  show ?case
    by (rule machine_keepsI [OF Prune.prems(1)], rule set_prune_keeps [OF _ Prune.hyps(1)])
next
  case (Mining g j on)
  show ?case
    by (rule machine_keepsI [OF Mining.prems(1)], rule keeps_core) (simp_all)
next
  case (Add_peer lockdown resolves raw g g' r j)
  show ?case
    by (rule machine_keepsI [OF Add_peer.prems(1)], rule keeps_core [OF _ core_add_peer [OF Add_peer.hyps(1)]])
next
  case (Directory g j addrs)
  show ?case
    by (rule machine_keepsI [OF Directory.prems(1)], rule keeps_core) (simp_all)
qed

lemma reached_node_ok:
  assumes C: "encoding_ok (ne_crypto E)" "group_ok (ne_crypto E)"
  shows "node_reach E w \<Longrightarrow> machine_ok E w"
proof (induction rule: node_reach.induct)
  case (Boot ch g)
  then show ?case using reachable_deep [OF C Boot(1)] mempool_ok_default [of "ne_crypto E"]
    by (simp add: starts_on_def machine_ok_def node_ok_def books_ok_def)
next
  case (Step w w')
  then show ?case using step_keeps [OF C] by blast
next
  case (Resync g j now g' acts r)
  then have "node_ok E g" by (simp add: machine_ok_def)
  from resync_safe [OF C this Resync.hyps(2)] Resync.IH show ?case by (auto simp: machine_ok_def safe_def)
qed

text \<open>Runs of steps: the owner does not resync in between.\<close>

definition node_runs ::
    "('p::ab_group_add, 's::comm_ring_1) node_env \<Rightarrow> 'p machine \<Rightarrow> 'p machine \<Rightarrow> bool" where
  "node_runs E = (\<lambda>w w'. node_step E w w' \<and> length (headers (nd_chain (fst w'))) \<le> 2 ^ 64)\<^sup>*\<^sup>*"

lemma run_keeps_work:
  assumes C: "encoding_ok (ne_crypto E)" "group_ok (ne_crypto E)" and w: "machine_ok E w"
    and r: "node_runs E w w'"
  shows "machine_ok E w' \<and> total_work (nd_chain (fst w)) \<le> total_work (nd_chain (fst w'))"
  using r unfolding node_runs_def
proof (induction rule: rtranclp_induct)
  case (step y z)
  then show ?case using step_keeps [OF C, of y z] by auto
qed (use w in simp)

lemma machine_chain:
  assumes "machine_ok E (g, j)"
  shows "chain_ok (ne_crypto E) (nd_chain g)" "chain_verify_supply (ne_crypto E) (nd_chain g) = Inr ()"
proof -
  have "deep_ok (ne_crypto E) (nd_chain g)" using assms by (simp add: machine_ok_def node_ok_def)
  then show c: "chain_ok (ne_crypto E) (nd_chain g)" by (rule deep_okD)
  then show "chain_verify_supply (ne_crypto E) (nd_chain g) = Inr ()"
    by (simp add: chain_ok_def chain_core_def ledger_ok_def chain_verify_supply_def)
qed

end
