(* ===== verification/Example_Node.thy ===== *)
theory Example_Node
  imports Node_Facts Example_Store Wire_Facts
begin

text \<open>
  Concrete nodes of the instance \<open>toy\<close>: one that has just started, one whose peer is ahead, and
  a chain that leaves a peer's chain after a given height.
\<close>

definition toy_env :: "(u64, u64) node_env" where
  "toy_env = \<lparr>ne_crypto = toy, ne_genesis_json = toy_json, ne_wire = tiny_json GetPeers, ne_version = ''1'',
     ne_debug = \<lambda>_. [], ne_store = toy_lib, ne_order = \<lambda>xs. xs\<rparr>"

definition toy_node :: "u64 chain \<Rightarrow> u64 node" where
  "toy_node ch = \<lparr>nd_chain = ch, nd_mempool = mempool_default, nd_disk = \<lparr>dir_now = (\<lambda>_. None), dir_past = []\<rparr>,
     nd_network = Devnet, nd_peer_addrs = [], nd_bootstrap = [], nd_listen_port = 1, nd_introducer = False,
     nd_archive_peers = [], nd_tip_epoch = 0, nd_branch = [], nd_best_peer_height = 0, nd_best_peer_seen = 0,
     nd_behind_since = 0, nd_peer_agents = [], nd_session_height = [], nd_reachable_listen = [],
     nd_loading = False, nd_last_dial_error = None, nd_ibd_from = 0, nd_ibd_buffer = [],
     nd_reorg_in_flight = False, nd_last_reorg_fetch = [], nd_last_wall_tick = 0, nd_sessions = [],
     nd_tip_gen = 0, nd_stem_embargo = [], nd_confirmed_peers = [], nd_stalled_on_fork = False,
     nd_fork_rewind = 0, nd_prune_keep = None, nd_proxy = None, nd_miner = Some toy_miner,
     nd_mining = True, nd_blocks_found = 0, nd_idle_reason = 0\<rparr>"

lemma toy_env_simps [simp]: "ne_crypto toy_env = toy" "ne_genesis_json toy_env = toy_json"
  by (simp_all add: toy_env_def)

lemma toy_boot: "node_reach toy_env (toy_node toy_chain, None)"
  by (rule node_reach.Boot) (simp_all add: reachable.Start [OF toy_new] starts_on_def toy_node_def)

definition toy_grown :: "u64 node" where
  "toy_grown = fst (accept_block toy_env 10 (toy_next toy_chain) (toy_node toy_chain))"

lemma toy_no_headers: "headers toy_chain = []" "blocks toy_chain = []"
  by (simp_all add: toy_chain_def)

lemma toy_next_height: "next_height toy_chain = 0" "b_height (toy_next toy_chain) = 0"
proof -
  show n: "next_height toy_chain = 0" by (simp add: next_height_def tip_height_def toy_chain_def)
  obtain t where "build_template toy toy_draws toy_chain toy_miner [] 1 = Inr t" "toy_next toy_chain = seal t 0"
    by (rule toy_next_eq [OF toy_chain_ready])
  then show "b_height (toy_next toy_chain) = 0" by (auto simp: seal_def n elim!: build_template_InrD)
qed

lemma toy_chain_height: "length (headers (toy_after toy_chain)) = 1" "block_count (toy_after toy_chain) = 1"
  "tip_height (toy_after toy_chain) = Some (next_height toy_chain)"
proof -
  obtain S' u where e: "toy_after toy_chain
      = applied toy toy_chain (shape_block toy_chain (toy_next toy_chain)) S' u"
    by (rule apply_inner_ledger [OF toy_core toy_encoding toy_group
          toy_accepted [OF toy_chain_ready, unfolded chain_apply_block_def]])
  then show l: "length (headers (toy_after toy_chain)) = 1" by (simp add: toy_chain_def)
  then show "block_count (toy_after toy_chain) = 1" by (auto simp: block_count_def)
  have h: "headers (toy_after toy_chain)
      = [compact_of toy (shape_block toy_chain (toy_next toy_chain))]"
    using toy_no_headers by (simp add: e)
  have c: "c_height (compact_of toy (shape_block toy_chain (toy_next toy_chain))) = next_height toy_chain"
    by (simp add: shape_block_def block_strip_binding_def compact_of_def toy_next_height)
  show "tip_height (toy_after toy_chain) = Some (next_height toy_chain)"
    using c by (simp add: tip_height_def h)
qed

lemma toy_node_simps [simp]: "nd_chain (toy_node ch) = ch" "nd_prune_keep (toy_node ch) = None"
  "nd_ibd_buffer (toy_node ch) = []" "nd_ibd_from (toy_node ch) = 0" "nd_sessions (toy_node ch) = []"
  by (simp_all add: toy_node_def)

lemma toy_accept: "accept_block toy_env 10 (toy_next toy_chain) (toy_node toy_chain) = (toy_grown, True)"
  by (simp add: toy_grown_def accept_block_def toy_accepted [OF toy_chain_ready])

lemma toy_grown_chain: "nd_chain toy_grown = toy_after toy_chain" "length (headers (nd_chain toy_grown)) \<le> 2 ^ 64"
proof -
  have "nd_chain (persist_quietly toy_env g) = nd_chain g" if "nd_prune_keep g = None" for g
    using that by (simp add: persist_quietly_def persist_chain_def split: prod.split)
  note [simp] = this
  show c: "nd_chain toy_grown = toy_after toy_chain"
    by (simp add: toy_grown_def accept_block_def toy_accepted [OF toy_chain_ready] settle_block_def bump_tip_def)
  show "length (headers (nd_chain toy_grown)) \<le> 2 ^ 64"
    unfolding c toy_chain_height by simp
qed

lemma toy_extend: "node_step toy_env (toy_node toy_chain, None) (toy_grown, None)"
  by (rule node_step.Extend [OF toy_accept])

lemma toy_reached: "node_reach toy_env (toy_grown, None)"
  by (rule node_reach.Step [OF toy_boot toy_extend]) (use toy_grown_chain in simp)

lemma toy_run: "node_runs toy_env (toy_node toy_chain, None) (toy_grown, None)"
  unfolding node_runs_def by (rule r_into_rtranclp) (use toy_extend toy_grown_chain in simp)

section \<open>A page\<close>

lemma toy_page: "page_chain toy 10 (\<lambda>i. if i = 0 then toy_chain else toy_after toy_chain) (\<lambda>_. [toy_next toy_chain]) 1"
proof -
  have c: "chain_needs toy_chain = 0" by (simp add: chain_needs_def tip_height_def toy_chain_def)
  have d: "chain_needs (toy_after toy_chain) = 1"
    by (simp add: chain_needs_def toy_chain_height toy_next_height sat_add_def checked_add_def)
  show ?thesis
    by (simp add: page_chain_def toy_next_height c d try_ingest_blocks_def toy_accepted [OF toy_chain_ready])
qed

section \<open>A fork\<close>

definition toy_peer_block :: block where "toy_peer_block = toy_wrong"

text \<open>701 headers, of which those up to height \<open>a\<close> have the hash of the peer's blocks.\<close>

definition toy_forked :: "nat \<Rightarrow> u64 chain" where
  "toy_forked a = toy_chain\<lparr>headers :=
     replicate (Suc a) (toy_header\<lparr>c_height := 700, c_hash := block_hash toy toy_peer_block\<rparr>)
     @ replicate (700 - a) (toy_header\<lparr>c_height := 700, c_hash := block_hash toy toy_peer_block @ [0]\<rparr>)\<rparr>"

definition toy_ask :: "u64 \<Rightarrow> (unit, io_error, block list) sr" where
  "toy_ask h = sr_return [toy_peer_block]"

lemma toy_answers: "answers toy_ask (\<lambda>_. toy_peer_block) 700"
  by (simp add: answers_def toy_ask_def sr_return_def)

lemma hex_longer: "hash_to_hex (h @ [0]) \<noteq> hash_to_hex h"
  by (simp add: hash_to_hex_def hex_encode_def hex_byte_def)

lemma toy_hash_at:
  assumes "a < 700" "h \<le> 700"
  shows "our_hash_at toy (toy_forked a) h
    = Some (hash_to_hex (if unat h \<le> a then block_hash toy toy_peer_block else block_hash toy toy_peer_block @ [0]))"
proof -
  have "unat h \<le> 700" using assms(2) by (simp add: word_le_nat_alt)
  then show ?thesis using assms(1)
    by (simp add: our_hash_at_def hash_at_def toy_forked_def nth_append nth_Cons' del: replicate_Suc)
qed

lemma toy_forks: "a < 700 \<Longrightarrow> forks_after toy (toy_forked a) (\<lambda>_. toy_peer_block) (of_nat a) 700"
proof -
  assume a: "a < 700"
  have u: "unat (of_nat a :: u64) = a" using a by (simp add: unsigned_of_nat take_bit_nat_eq_self)
  have "same_at toy (toy_forked a) h toy_peer_block \<longleftrightarrow> h \<le> of_nat a" if "h \<le> 700" for h
    using toy_hash_at [OF a that] u by (simp add: same_at_def hex_longer word_le_nat_alt)
  with a u show ?thesis by (simp add: forks_after_def word_le_nat_alt)
qed

lemma toy_forked_tip: "tip_height (toy_forked a) = Some 700"
  by (cases "700 - a") (simp_all add: tip_height_def toy_forked_def replicate_append_same last_append)

lemma length_hash_to_hex: "length (hash_to_hex h) = 2 * length h"
  by (induction h) (simp_all add: hash_to_hex_def hex_encode_def hex_byte_def)

lemma toy_no_tip:
  assumes "a < 700"
  shows "our_hash_at toy (toy_forked a) 700 \<noteq> Some ''x''"
proof -
  have "hash_to_hex h \<noteq> ''x''" for h
  proof
    assume "hash_to_hex h = ''x''"
    then have "2 * length h = 1" using length_hash_to_hex [of h] by simp
    then show False by presburger
  qed
  then show ?thesis by (simp add: toy_hash_at [OF assms])
qed

section \<open>Behind\<close>

text \<open>A node with one session that heard at 100 of a chain of height 5.\<close>

definition toy_behind :: "u64 node" where
  "toy_behind = (toy_node toy_chain)\<lparr>nd_best_peer_height := 5, nd_best_peer_seen := 100,
     nd_sessions := [(''out:a'', \<lparr>ss_key = ''out:a'', ss_outbound = True\<rparr>)]\<rparr>"

lemma toy_hears: "hears_of_more 150 toy_behind"
  by (simp add: hears_of_more_def toy_behind_def our_height_def tip_height_def toy_chain_def sat_sub_def params
      pool_is_empty_def pool_len_def word_less_nat_alt)

section \<open>A payment of one's own\<close>

text \<open>A node with an inbound and an outbound session, on the ledger that holds the coin of \<open>toy_transfer\<close>.\<close>

definition toy_relay :: "u64 node" where
  "toy_relay = (toy_node (toy_chain\<lparr>ledger := toy_funded\<rparr>))\<lparr>nd_sessions :=
     [(''a'', \<lparr>ss_key = ''a'', ss_outbound = False\<rparr>), (''b'', \<lparr>ss_key = ''b'', ss_outbound = True\<rparr>)]\<rparr>"

definition toy_relayed :: "relay_draw \<Rightarrow> u64 node" where
  "toy_relayed d = (let i = hash_to_hex (txid toy toy_transfer) in
     toy_relay\<lparr>nd_mempool := \<lparr>pool_txs = [(i, toy_transfer)], pool_seen = [(i, 100)]\<rparr>,
       nd_stem_embargo := [(i, embargo_deadline 100 (rd_span d))]\<rparr>)"

lemma toy_submits:
  "submit_tx toy_env d 100 toy_transfer toy_relay
    = (toy_relayed d, [SendTx ''b'' toy_transfer], Inr (hash_to_hex (txid toy toy_transfer)))"
proof -
  have "network toy_chain = Devnet" by (simp add: toy_chain_def)
  then have "precheck_tx_typed toy (toy_chain\<lparr>ledger := toy_funded\<rparr>) toy_transfer = Inr ()"
    using toy_transfer_acceptable by (simp add: precheck_tx_typed_def proof_ctx_def toy_ctx_def)
  then show ?thesis
    by (simp add: submit_tx_def toy_relay_def toy_relayed_def toy_node_def insert_checked_def insert_room_def mempool_default_def
        propagate_from_inner_def stem_tx_def pick_stem_peer_def pool_all_def Let_def params)
qed

lemma toy_relayed_ok: "relays_ok toy_env (toy_relayed d)"
  by (simp add: relays_ok_def toy_relayed_def toy_relay_def Let_def mempool_ok_def apart_def params)

end
