(* ===== verification/Store_Saved.thy ===== *)
theory Store_Saved
  imports Store_Crash Rust_Url
begin

text \<open>
  What a save that reports success leaves: a directory committed for the chain it was given,
  whether it appended, wrote the file anew after a reorganisation, or wrote the first one.
\<close>

section \<open>The identifier and the metadata\<close>

text \<open>The identifier a directory has once metadata were written to it.\<close>

definition own_id :: "store_lib \<Rightarrow> dir \<Rightarrow> string" where
  "own_id L d = (case stored_id d of Some i \<Rightarrow> i | None \<Rightarrow> fresh_id L)"

lemma utf8_hex: "utf8_valid (str_bytes (hex_encode bs))"
  by (rule utf8_ascii_text) (auto simp: ascii_def dest!: hex_encode_chars)

lemma fresh_id_stored: "stored_id (d(INSTALL_ID \<mapsto> str_bytes (fresh_id L))) = Some (fresh_id L)"
proof -
  have "length (spread_seed n x) = n" for n x by (induction n arbitrary: x) (simp_all add: Let_def)
  then have "length (fresh_id L) = 32" by (simp add: fresh_id_def length_hex_encode)
  then have ne: "fresh_id L \<noteq> []" by auto
  have "trim (fresh_id L) = fresh_id L"
    using solid_hex_encode hd_in_set last_in_set ne unfolding fresh_id_def by (intro trim_solid) blast
  then show ?thesis using ne by (simp add: stored_id_def read_text_def utf8_hex text_of_bytes fresh_id_def)
qed

lemma install_other [simp]:
  "format_of (d(INSTALL_ID := x)) = format_of d" "blocks_path (d(INSTALL_ID := x)) = blocks_path d"
  "meta_of C (d(INSTALL_ID := x)) ch i = meta_of C d ch i"
proof -
  have n: "INSTALL_ID \<noteq> BLOCKS_BIN" "INSTALL_ID \<noteq> BLOCKS_JSONL" "HORIZON_FILE \<noteq> INSTALL_ID" "HEADERS_FILE \<noteq> INSTALL_ID"
    by (simp_all add: file_names)
  show f: "format_of (d(INSTALL_ID := x)) = format_of d" using n by (simp add: format_of_def detect_def)
  then show "blocks_path (d(INSTALL_ID := x)) = blocks_path d" by (simp add: blocks_path_def)
  with f show "meta_of C (d(INSTALL_ID := x)) ch i = meta_of C d ch i" using n by (simp add: meta_of_def)
qed

text \<open>Metadata written beside the records of the chain commit it.\<close>

lemma write_meta_commits:
  assumes d: "d = dir_now st" "d RECOVERY_JOURNAL = None" "d (blocks_path d) = Some t"
    and w: "write_all_blocks (lib_codec L) (format_of d) (blocks ch) = Inr t" "codec_for (lib_codec L) (blocks ch)"
      "format_of d = Binary \<longrightarrow> \<not> looks_json t" "length t < 2 ^ 64"
    and meta: "meta_reads L (meta_of C d ch (own_id L d))"
  shows "\<exists>st'. write_meta C L ch st = (st', Inr ()) \<and> committed C L (dir_now st') (own_id L d) ch t"
proof (cases "stored_id d")
  case (Some i)
  then obtain st' where st': "write_meta C L ch st = (st', Inr ())"
    "dir_now st' = d(META_TMP := None, META_FILE \<mapsto> meta_ser L (meta_of C d ch i))"
    using write_meta_run [of st i C L ch] d(1) by auto
  have "holds_blocks L d i (blocks ch) t" using d w Some by (simp add: holds_blocks_def)
  then have "committed C L (dir_now st') i ch t"
    using meta Some unfolding st'(2) by (simp add: committed_def records_def own_id_def)
  then show ?thesis using st'(1) Some by (simp add: own_id_def)
next
  case None
  let ?i = "fresh_id L"
  let ?d1 = "d(INSTALL_ID \<mapsto> str_bytes ?i)"
  let ?b = "meta_ser L (meta_of C d ch ?i)"
  have "RECOVERY_JOURNAL \<noteq> INSTALL_ID" by (simp add: file_names)
  then have hold: "holds_blocks L ?d1 ?i (blocks ch) t"
    using d w by (simp add: holds_blocks_def fresh_id_stored)
  have "?d1(META_TMP \<mapsto> ?b, META_TMP := None, META_FILE \<mapsto> ?b) = ?d1(META_TMP := None, META_FILE \<mapsto> ?b)" by simp
  then have "\<exists>st'. write_meta C L ch st = (st', Inr ()) \<and> dir_now st' = ?d1(META_TMP := None, META_FILE \<mapsto> ?b)"
    using None d(1)
    by (auto simp: write_meta_def publish_meta_def install_id_def sr_bind_def sr_get_def sr_return_def file_write_def touch_def
        file_rename_def meta_of_def)
  moreover have "committed C L (?d1(META_TMP := None, META_FILE \<mapsto> ?b)) ?i ch t"
    using hold meta None by (simp add: committed_def records_def own_id_def)
  ultimately show ?thesis using None by (auto simp: own_id_def)
qed


section \<open>Whole files\<close>

lemma format_written: "format_of (d(blocks_path d \<mapsto> s)) = format_of d" "blocks_path (d(blocks_path d \<mapsto> s)) = blocks_path d"
proof -
  show f: "format_of (d(blocks_path d \<mapsto> s)) = format_of d"
    by (cases "format_of d") (auto simp: format_of_def detect_def blocks_path_def file_names split: if_splits)
  then show "blocks_path (d(blocks_path d \<mapsto> s)) = blocks_path d" by (simp add: blocks_path_def)
qed

lemma tmp_differs:
  "tmp_of fmt \<noteq> BLOCKS_BIN" "tmp_of fmt \<noteq> BLOCKS_JSONL" "tmp_of fmt \<noteq> INSTALL_ID" "tmp_of fmt \<noteq> RECOVERY_JOURNAL"
  "tmp_of fmt \<noteq> HORIZON_FILE" "tmp_of fmt \<noteq> HEADERS_FILE"
  by (cases fmt; simp add: tmp_of_def file_names)+

lemma tmp_other [simp]:
  "format_of (d(tmp_of fmt := x)) = format_of d" "blocks_path (d(tmp_of fmt := x)) = blocks_path d"
  "stored_id (d(tmp_of fmt := x)) = stored_id d" "meta_of C (d(tmp_of fmt := x)) ch i = meta_of C d ch i"
proof -
  note n = tmp_differs [of fmt] tmp_differs [of fmt, symmetric]
  show f: "format_of (d(tmp_of fmt := x)) = format_of d" using n by (simp add: format_of_def detect_def)
  then show p: "blocks_path (d(tmp_of fmt := x)) = blocks_path d" by (simp add: blocks_path_def)
  show "stored_id (d(tmp_of fmt := x)) = stored_id d" using n by (simp add: stored_id_def read_text_def)
  have "blocks_path d \<noteq> tmp_of fmt" using blocks_path_cases [of d] n by auto
  then show "meta_of C (d(tmp_of fmt := x)) ch i = meta_of C d ch i" using n p by (simp add: meta_of_def)
qed

lemma written_split:
  "write_all_blocks K fmt (xs @ ys) = Inr t
    \<Longrightarrow> \<exists>u v. write_all_blocks K fmt xs = Inr u \<and> written K fmt ys = (v, Inr ()) \<and> t = u @ v"
proof (induction xs arbitrary: t)
  case Nil
  have "written K fmt ys = (t, Inr ())" using Nil by (induction ys arbitrary: t) (auto simp: write_all_Cons, simp add: write_all_blocks_def)
  then show ?case by (simp add: write_all_blocks_def)
next
  case (Cons x xs)
  then show ?case by (fastforce simp: write_all_Cons)
qed

lemma rewrite_all_commits:
  assumes C: "encoding_ok C" "group_ok C" and g: "grown C json now ch"
    and d: "d RECOVERY_JOURNAL = None"
    and w: "write_all_blocks (lib_codec L) (format_of d) (blocks ch) = Inr t" "codec_for (lib_codec L) (blocks ch)"
      "format_of d = Binary \<longrightarrow> \<not> looks_json t" "length t < 2 ^ 64"
    and meta: "meta_reads L (meta_of C (d(blocks_path d \<mapsto> t)) ch (own_id L d))"
  shows "\<exists>st'. rewrite_all C L ch \<lparr>dir_now = d, dir_past = p\<rparr> = (st', Inr ())
    \<and> committed C L (dir_now st') (own_id L d) ch t"
proof -
  let ?f = "tmp_of (format_of d)" and ?p = "blocks_path d"
  let ?d = "(d(?p \<mapsto> t))(?f := None)"
  note n = tmp_differs [of "format_of d"]
  have np: "?p \<noteq> ?f" using blocks_path_cases [of d] n by auto
  have "written (lib_codec L) (format_of d) (blocks ch) = (t, Inr ())"
    using written_split [of "lib_codec L" "format_of d" "[]" "blocks ch" t] w(1) by (simp add: write_all_blocks_def)
  moreover have "d(?f \<mapsto> t, ?f := None, ?p \<mapsto> t) = ?d" using np by (simp add: fun_upd_twist)
  ultimately have "\<exists>q. rewrite_bodies L ch \<lparr>dir_now = d, dir_past = p\<rparr> = (\<lparr>dir_now = ?d, dir_past = q\<rparr>, Inr ())"
    by (simp add: rewrite_bodies_def write_blocks_def sr_bind_def sr_get_def sr_lift_def sr_return_def file_write_def touch_def
        file_rename_def)
  then obtain q where q: "rewrite_bodies L ch \<lparr>dir_now = d, dir_past = p\<rparr> = (\<lparr>dir_now = ?d, dir_past = q\<rparr>, Inr ())" ..
  have j: "?d RECOVERY_JOURNAL = None" "?d (blocks_path ?d) = Some t" "format_of ?d = format_of d" "own_id L ?d = own_id L d"
    "meta_of C ?d ch i = meta_of C (d(?p \<mapsto> t)) ch i" for i
    using d n np by (simp_all add: format_written own_id_def)
  obtain st' where "write_meta C L ch \<lparr>dir_now = ?d, dir_past = q\<rparr> = (st', Inr ())" "committed C L (dir_now st') (own_id L d) ch t"
    using write_meta_commits [of ?d "\<lparr>dir_now = ?d, dir_past = q\<rparr>" t L ch C] j w meta by auto
  moreover have "\<not> is_pruned ch" using grown_facts(4) [OF C g] by (simp add: is_pruned_def)
  ultimately show ?thesis using q by (simp add: rewrite_all_def sr_bind_def)
qed


text \<open>
  A directory a save of \<open>ch\<close> may find: with no chain file, or committed for some chain of the
  network, whose tip is a block of \<open>ch\<close> only if \<open>ch\<close> continues it (block hashes do not collide).
\<close>

definition archive_before ::
    "('p::ab_group_add, 's::comm_ring_1) crypto \<Rightarrow> (genesis_config \<Rightarrow> bytes option) \<Rightarrow> store_lib \<Rightarrow> u64
       \<Rightarrow> dir \<Rightarrow> 'p chain \<Rightarrow> bool" where
  "archive_before C json L now d ch \<longleftrightarrow>
     d RECOVERY_JOURNAL = None \<and>
     (d (blocks_path d) = None
      \<or> (\<exists>old i s. grown C json now old \<and> network old = network ch \<and> committed C L d i old s
           \<and> length (blocks old) < 2 ^ 64
           \<and> (hash_at C ch (block_count old - 1) = Some (tip_hash C old)
                \<longrightarrow> (\<exists>new. apply_suffix C old new now = Inr ch))))"

lemma save_commits:
  assumes C: "encoding_ok C" "group_ok C" and g: "grown C json now ch" and before: "archive_before C json L now d ch"
    and w: "write_all_blocks (lib_codec L) (format_of d) (blocks ch) = Inr t" "codec_for (lib_codec L) (blocks ch)"
      "format_of d = Binary \<longrightarrow> \<not> looks_json t" "length t < 2 ^ 64" "length (blocks ch) < 2 ^ 64"
    and meta: "meta_reads L (meta_of C (d(blocks_path d \<mapsto> t)) ch (own_id L d))"
    and run: "save C L ch \<lparr>dir_now = d, dir_past = []\<rparr> = (st', Inr ())"
  shows "committed C L (dir_now st') (own_id L d) ch t"
proof -
  let ?st = "\<lparr>dir_now = d, dir_past = []\<rparr>"
  have j: "d RECOVERY_JOURNAL = None" using before by (simp add: archive_before_def)
  note h = grown_facts [OF C g]
  have np: "\<not> is_pruned ch" using h(4) by (simp add: is_pruned_def)
  have rewritten: ?thesis if "save C L ch ?st = rewrite_all C L ch ?st"
    using rewrite_all_commits [OF C g j w(1-4) meta, of "[]"] run that by auto
  show ?thesis
  proof (cases "d (blocks_path d) = None")
    case True
    then have "save C L ch ?st = rewrite_all C L ch ?st" using np by (simp add: save_def Let_def)
    then show ?thesis by (rule rewritten)
  next
    case False
    then obtain old i s where o: "grown C json now old" "network old = network ch" and com: "committed C L d i old s"
      and small: "length (blocks old) < 2 ^ 64"
      and ext: "hash_at C ch (block_count old - 1) = Some (tip_hash C old) \<Longrightarrow> \<exists>new. apply_suffix C old new now = Inr ch"
      using before by (auto simp: archive_before_def)
    have d: "d (blocks_path d) = Some s" "stored_id d = Some i" "own_id L d = i"
      and ws: "write_all_blocks (lib_codec L) (format_of d) (blocks old) = Inr s"
      using com by (simp_all add: committed_def holds_blocks_def own_id_def)
    have "read_meta L d = Some (meta_of C d old i)"
      using com by (intro read_meta_records) (simp add: committed_def)
    then have count: "stored_block_count L d = block_count old"
      and tip: "stored_tip L d = Some (hash_to_hex (tip_hash C old))"
      using tip_text [OF C o(1)] by (simp_all add: stored_block_count_def stored_tip_def meta_of_def)
    show ?thesis
    proof (cases "blocks old = []")
      case empty: True
      have s: "s = []" and zero: "block_count old = 0"
        using ws grown_facts(6) [OF C o(1)] by (simp_all add: empty write_all_blocks_def)
      have wr: "written (lib_codec L) (format_of d) (blocks ch) = (t, Inr ())"
        using written_split [of "lib_codec L" "format_of d" "[]" "blocks ch" t] w(1) by (simp add: write_all_blocks_def)
      have dt: "stored_id (d(blocks_path d \<mapsto> t)) = Some i" using d(2) by simp
      have commits: "committed C L (dir_now st1) i ch t"
        if "write_meta C L ch \<lparr>dir_now = d(blocks_path d \<mapsto> t), dir_past = q\<rparr> = (st1, Inr ())" for st1 q
        using write_meta_commits [of "d(blocks_path d \<mapsto> t)" "\<lparr>dir_now = d(blocks_path d \<mapsto> t), dir_past = q\<rparr>" t L ch C]
          that j w meta d(2,3) dt by (auto simp: format_written own_id_def)
      show ?thesis
      proof (cases "blocks ch = []")
        case True
        then have "t = []" "block_count ch = 0" using w(1) h(6) by (simp_all add: write_all_blocks_def)
        then have "save C L ch ?st = write_meta C L ch ?st" "d(blocks_path d \<mapsto> t) = d"
          using np False count zero d(1) s by (simp_all add: save_def Let_def fun_upd_idem)
        then show ?thesis using commits [of "[]" st'] run d(3) by simp
      next
        case more: False
        then have "block_count ch \<noteq> 0" unfolding h(6) using w(5) by (simp add: unat_eq_zero [symmetric] unat_of_nat_64)
        then have "save C L ch ?st = sr_bind (write_blocks (file_append (blocks_path d)) (lib_codec L) (format_of d) (blocks ch))
            (\<lambda>_. write_meta C L ch) ?st"
          using np d(1) count zero by (simp add: save_def Let_def)
        then show ?thesis
          using commits run d(3) write_blocks_run [of d ?st "blocks_path d" s, OF _ d(1) wr] by (simp add: s sr_bind_def)
      qed
    next
      case ne: False
      show ?thesis
      proof (cases "hash_at C ch (block_count old - 1) = Some (tip_hash C old)")
        case True
        then obtain new where new: "apply_suffix C old new now = Inr ch" using ext by blast
        obtain own where own: "blocks ch = blocks old @ own" using continued(3) [OF C o(1) new] by blast
        obtain v where v: "written (lib_codec L) (format_of d) (drop (length (blocks old)) (blocks ch)) = (v, Inr ())" "t = s @ v"
          using written_split [OF w(1) [unfolded own]] ws by (auto simp: own)
        show ?thesis
          using append_states(2) [OF C o(1) ne com new v(1) w(5) w(4) [unfolded v(2)] w(2) meta [unfolded v(2) d(3)] run disjI1 [OF refl] refl]
          by (simp add: v(2) d(3))
      next
        case no: False
        have "0 < block_count old" unfolding word_gt_0
          unfolding grown_facts(6) [OF C o(1)] using ne small by (simp add: unat_eq_zero [symmetric] unat_of_nat_64)
        then have "save C L ch ?st = rewrite_all C L ch ?st"
          using np d(1) count tip no by (auto simp: save_def Let_def hash_to_hex_def hex_encode_inject split: option.split)
        then show ?thesis by (rule rewritten)
      qed
    qed
  qed
qed

end
