(* ===== verification/Example_Append.thy ===== *)
theory Example_Append
  imports Example_Store Store_Saved
begin

text \<open>
  A second block on the chain of \<open>toy\<close>, and a directory that holds both: the appends and the
  rewrites of the archive, and a crash in the middle of a record.
\<close>

section \<open>Two blinding factors\<close>

definition byte_sum :: "bytes \<Rightarrow> u64" where "byte_sum bs = sum_list (map ucast bs)"

lemma byte_sum_simps [simp]:
  "byte_sum [] = 0" "byte_sum (b # bs) = ucast b + byte_sum bs" "byte_sum (as @ bs) = byte_sum as + byte_sum bs"
  "byte_sum (replicate n 0) = 0"
  by (simp_all add: byte_sum_def sum_list_replicate)

lemma toy_hash_sum: "toy_hash bs = toy_encode (7 + byte_sum bs)"
proof -
  have "fold (\<lambda>b acc. acc + ucast b) bs a = a + byte_sum bs" for a :: u64
    by (induction bs arbitrary: a) (simp_all add: byte_sum_def add.assoc)
  then show ?thesis by (simp add: toy_hash_def toy_encode_def)
qed

lemma toy_wide: "from_wide toy (toy_encode w @ bs) = 2 * w + 1"
  by (simp add: toy_def toy_encode_def u64_le_roundtrip)

lemma toy_multi: "hash_multi toy dm parts = toy_encode (7 + byte_sum (hash_preimage dm parts))"
  by (simp add: hash_multi_def) (simp add: toy_def toy_hash_sum)

lemma u64_le_small: "n < 65536 \<Longrightarrow> u64_le (of_nat n) = of_nat (n mod 256) # of_nat (n div 256) # replicate 6 0"
proof -
  assume n: "n < 65536"
  have z: "le_bytes k 0 = replicate k 0" for k by (induction k) simp_all
  have "n div 256 < 256" using n by (simp add: less_mult_imp_div_less)
  then have "le_bytes 8 n = of_nat (n mod 256) # of_nat (n div 256) # replicate 6 0"
    using z [of 6] le_bytes.simps(2) [of 7 n] le_bytes.simps(2) [of 6 "n div 256"] by simp
  moreover have "unat (of_nat n :: u64) = n" using n by (simp add: unat_of_nat_64)
  ultimately show ?thesis by (simp add: u64_le_def)
qed

lemmas small_lengths = u64_le_small [of 1, simplified] u64_le_small [of 2, simplified]
  u64_le_small [of 24, simplified] u64_le_small [of 25, simplified] u64_le_small [of 26, simplified]
  u64_le_small [of 27, simplified] u64_le_small [of 32, simplified]

lemmas evaluated = toy_multi hash_preimage_def len_prefixed_def str_bytes_def small_lengths

lemma toy_blind: "length t = 32 \<Longrightarrow> derive_blind toy t = 2 * (byte_sum t + 2689) + 1"
  unfolding derive_blind_def blind_from_bytes_def wide_scalar_def toy_multi toy_wide
  by (simp add: evaluated)

lemma toy_scan: "scan_public toy toy_keys = 5003"
proof -
  have s: "byte_sum (replicate 32 1) = 32" by (simp add: byte_sum_def sum_list_replicate)
  have "scan_sk toy_keys = 5003"
    by (simp add: toy_keys_def keys_from_seed_def scalar_from_seed_def wide_scalar_def toy_multi toy_wide)
      (simp add: evaluated s)
  then show ?thesis by (simp add: scan_public_def) (simp add: toy_def)
qed

lemma toy_compress: "compress toy p = toy_encode p" "length (toy_encode w) = 32"
  by (simp_all add: toy_def) (simp add: toy_encode_def)

lemma toy_shared: "shared_secret toy p = toy_encode (2750 + byte_sum (toy_encode p))"
  by (simp add: shared_secret_def toy_compress evaluated)

lemma encoded_sum: "n < 65536 \<Longrightarrow> byte_sum (toy_encode (of_nat n)) = ucast (of_nat (n mod 256) :: u8) + ucast (of_nat (n div 256) :: u8)"
  by (simp add: toy_encode_def u64_le_small)

lemma toy_blinds:
  "derive_blind toy (shared_secret toy 5003) = 5585" "derive_blind toy (shared_secret toy 35021) = 5441"
  using encoded_sum [of 5003] encoded_sum [of 2908] encoded_sum [of 35021] encoded_sum [of 3091]
  by (simp_all add: toy_shared toy_blind toy_compress)

section \<open>A second block\<close>

text \<open>Draws with another ephemeral key, and with them another output.\<close>

definition other_draws :: "u64 draws" where
  "other_draws = toy_draws\<lparr>dr_output := \<lambda>i. (Some (3 # replicate 63 0), [1])\<rparr>"

lemma toy_output_commit:
  assumes "create_output_with_features toy (Some rb) en toy_miner v memo ctx feat = Inr (o', sec)"
  shows "out_commit o' = toy_encode (v + derive_blind toy (shared_secret toy (5003 * from_wide toy rb)) * 3)"
proof -
  have w: "out_commit o' = commitment_new toy v (ss_blind sec)"
    by (rule create_output_wf [OF toy_group toy_encoding toy_range assms])
  have "ss_blind sec = derive_blind toy (shared_secret toy (pt_mul toy (from_wide toy rb) (scan_public toy toy_keys)))"
    using assms by (auto elim!: create_output_OkD simp: toy_miner_def toy_address)
  then show ?thesis
    unfolding w toy_scan by (simp add: commitment_new_def pedersen_def) (simp add: toy_def mult.commute)
qed

lemma toy_ephemeral:
  "from_wide toy (replicate 63 0 @ [5]) = 1" "from_wide toy (3 # replicate 63 0) = 7"
proof -
  have z: "le_nat (replicate n 0) = 0" for n by (induction n) simp_all
  have "take 8 (replicate 63 0 @ [5]) = (replicate 8 0 :: bytes)" "take 8 (3 # replicate 63 0) = 3 # (replicate 7 0 :: bytes)"
    by simp_all
  then show "from_wide toy (replicate 63 0 @ [5]) = 1" "from_wide toy (3 # replicate 63 0) = 7"
    using z [of 8] z [of 7] by (simp_all only: toy_def crypto.simps) (simp_all add: le_nat.simps(2))
qed

lemma toy_rewards:
  assumes "build_coinbase toy dr toy_miner 600000000 h ctx = Inr cb" "o' \<in> set (tx_outputs cb)"
  shows "dr = toy_draws \<Longrightarrow> out_commit o' = toy_encode 600016755"
    and "dr = other_draws \<Longrightarrow> out_commit o' = toy_encode 600016323"
proof -
  obtain o'' sec where "create_output_with_features toy (fst (dr_output dr 0)) (snd (dr_output dr 0)) toy_miner
      600000000 [] ctx CoinbaseOutput = Inr (o'', sec)" "tx_outputs cb = [o'']"
    using assms(1) by (auto elim!: build_coinbase_OkD)
  then have mk: "create_output_with_features toy (fst (dr_output dr 0)) (snd (dr_output dr 0)) toy_miner
      600000000 [] ctx CoinbaseOutput = Inr (o', sec)" using assms(2) by simp
  show "out_commit o' = toy_encode 600016755" if "dr = toy_draws"
  proof -
    have "fst (dr_output dr 0) = Some (replicate 63 0 @ [5])" using that by (simp add: toy_draws_def)
    from toy_output_commit [OF mk [unfolded this]] show ?thesis by (simp only: toy_ephemeral) (simp add: toy_blinds)
  qed
  show "out_commit o' = toy_encode 600016323" if "dr = other_draws"
  proof -
    have "fst (dr_output dr 0) = Some (3 # replicate 63 0)" using that by (simp add: other_draws_def)
    from toy_output_commit [OF mk [unfolded this]] show ?thesis by (simp only: toy_ephemeral) (simp add: toy_blinds)
  qed
qed


lemma toy_first:
  obtains b B S' undo where "blk_body b = B" "toy_after toy_chain = applied toy toy_chain b S' undo"
    "apply_block toy toy_state B 0 600000000 (proof_ctx toy_chain) = (S', Inr ())"
    "h_height (blk_header b) = 0" "h_timestamp (blk_header b) = 1" "b_inputs B = []" "body_total_fee (body_at toy_state 0 B) = 0"
    "\<forall>o' \<in> set (b_outputs B). out_commit o' = toy_encode 600016755"
proof -
  have h: "next_height toy_chain = 0" "ledger toy_chain = toy_state" "chain_median_time_past toy_chain = 0"
    by (simp_all add: next_height_def tip_height_def toy_chain_def chain_median_time_past_def median_time_past_def)
  note s = toy_subsidy [OF toy_chain_ready, unfolded h]
  obtain t where t: "build_template toy toy_draws toy_chain toy_miner [] 1 = Inr t" "toy_next toy_chain = seal t 0"
    by (rule toy_next_eq [OF toy_chain_ready])
  obtain fees due cb0 cb where d:
    "due = (if 0 < chain_subsidy toy_chain 0 then chain_subsidy toy_chain 0 else fees)"
    "build_coinbase toy toy_draws toy_miner due 0 (proof_ctx toy_chain) = Inr cb0"
    "cb = (if binding_active_at toy_chain 0 then cb0 else strip_binding cb0)"
    "h_timestamp (t_header t) = max 1 (sat_add 0 1)" "h_height (t_header t) = 0"
    "t_body t = aggregate toy (cb # template_txs toy_chain 0 [])"
  proof (rule build_template_InrD [OF t(1), unfolded h])
    fix fees due cb0 cb trial
    assume 1: "due = (if 0 < chain_subsidy toy_chain 0 then chain_subsidy toy_chain 0 else fees)"
      "build_coinbase toy toy_draws toy_miner due 0 (proof_ctx toy_chain) = Inr cb0"
      "cb = (if binding_active_at toy_chain 0 then cb0 else strip_binding cb0)"
    assume "t = \<lparr>t_header = \<lparr>h_version = PROTOCOL_VERSION, h_height = 0, h_prev_hash = tip_hash toy toy_chain,
        h_utxo_root = ledger_utxo_root toy trial, h_kernel_sum = acc_sum (l_kernels trial),
        h_body_root = body_hash toy (aggregate toy (cb # template_txs toy_chain 0 [])),
        h_timestamp = max 1 (sat_add 0 1), h_difficulty = chain_next_difficulty toy_chain, h_nonce = 0, h_reward = due\<rparr>,
      t_body = aggregate toy (cb # template_txs toy_chain 0 []), t_built_on = tip_hash toy toy_chain\<rparr>"
    with that [OF 1] show thesis by simp
  qed
  have due: "due = 600000000" and none: "template_txs toy_chain 0 [] = []"
    using d(1) by (simp_all add: s template_txs_def)
  let ?b = "shape_block toy_chain (seal t 0)" and ?B = "blk_body (shape_block toy_chain (seal t 0))"
  obtain S' undo where a: "apply_block toy (ledger toy_chain) ?B (h_height (blk_header (seal t 0)))
       (chain_subsidy toy_chain (h_height (blk_header (seal t 0)))) (proof_ctx toy_chain) = (S', Inr ())"
    "toy_after toy_chain = applied toy toy_chain ?b S' undo"
    by (rule apply_inner_OkD [OF _ toy_accepted [OF toy_chain_ready, unfolded chain_apply_block_def t(2)]]) (simp add: h)
  obtain k o' where cb0: "tx_inputs cb0 = []" "tx_outputs cb0 = [o']" "tx_kernels cb0 = [k]" "fee_darks k = 0"
    by (rule build_coinbase_fields [OF d(2)])
  have cb: "tx_inputs cb = []" "tx_outputs cb = [o']" "\<exists>k'. tx_kernels cb = [k'] \<and> fee_darks k' = 0"
    using cb0 by (simp_all add: d(3))
  have B: "?B = t_body t \<or> ?B = body_strip_binding (t_body t)"
    by (simp add: shape_block_def block_strip_binding_def seal_def)
  have agg: "b_inputs (t_body t) = []" "b_outputs (t_body t) = [o']" "\<exists>k'. b_kernels (t_body t) = [k'] \<and> fee_darks k' = 0"
    using cb by (auto simp: d(6) none aggregate_simps)
  have in_out: "b_inputs ?B = []" "b_outputs ?B = [o']" and ker: "\<exists>k'. b_kernels ?B = [k'] \<and> fee_darks k' = 0"
    using B agg by auto
  have fee: "body_total_fee (body_at toy_state 0 ?B) = 0"
    using ker by (auto simp: body_at_def body_total_fee_def wrapping_fees_def)
  have o': "out_commit o' = toy_encode 600016755"
    using toy_rewards(1) [OF d(2) [unfolded due]] cb0(2) by simp
  show thesis
    by (rule that [of ?b ?B S' undo]) (use a d(4,5) in_out fee o' s in \<open>simp_all add: seal_def h sat_add_def checked_add_def\<close>)
qed

lemma toy_one:
  "next_height (toy_after toy_chain) = 1" "network (toy_after toy_chain) = Devnet" "chain_median_time_past (toy_after toy_chain) = 1"
  "emission (toy_after toy_chain) = locked_mainnet"
  "l_supply (ledger (toy_after toy_chain)) = \<lparr>total_minted_darks = 600000000, total_burned_darks = 0\<rparr>"
  "c \<noteq> toy_encode 600016755 \<Longrightarrow> utxo_get (l_utxos (ledger (toy_after toy_chain))) c = None"
proof -
  obtain b B S' undo where f: "blk_body b = B" "toy_after toy_chain = applied toy toy_chain b S' undo"
    "apply_block toy toy_state B 0 600000000 (proof_ctx toy_chain) = (S', Inr ())"
    "h_height (blk_header b) = 0" "h_timestamp (blk_header b) = 1" "b_inputs B = []" "body_total_fee (body_at toy_state 0 B) = 0"
    and o': "\<forall>o' \<in> set (b_outputs B). out_commit o' = toy_encode 600016755"
    by (rule toy_first)
  have hs: "headers (toy_after toy_chain) = [compact_of toy b]" by (simp add: f(2)) (simp add: toy_chain_def)
  show "next_height (toy_after toy_chain) = 1" "chain_median_time_past (toy_after toy_chain) = 1"
    by (simp_all add: next_height_def tip_height_def hs f(4,5) height_next_def sat_add_def checked_add_def params
        chain_median_time_past_def median_time_past_def Let_def)
  show "network (toy_after toy_chain) = Devnet" "emission (toy_after toy_chain) = locked_mainnet"
    by (simp_all add: f(2)) (simp_all add: toy_chain_def)
  have l: "ledger (toy_after toy_chain) = S'" by (simp add: f(2))
  obtain nk ns u where v: "validate_block toy toy_state (body_at toy_state 0 B) 0 600000000 (proof_ctx toy_chain) = Inr (nk, ns, u)"
    and S': "S' = commit_block toy (body_at toy_state 0 B) 0 nk ns toy_state"
    by (rule apply_block_OkD [OF toy_utxos_ok f(3)])
  have "next_supply (l_supply toy_state) 600000000 0 = Inr ns"
    using v by (auto elim!: validate_block_OkD simp: f(7))
  then show "l_supply (ledger (toy_after toy_chain)) = \<lparr>total_minted_darks = 600000000, total_burned_darks = 0\<rparr>"
    unfolding l S' by (simp add: next_supply_def checked_add_def toy_state_def state_for_network_def genesis_state_def)
  show "utxo_get (l_utxos (ledger (toy_after toy_chain))) c = None" if "c \<noteq> toy_encode 600016755"
  proof -
    have "c \<notin> out_commit ` set (b_outputs B)" using o' that by auto
    then have "utxo_get (l_utxos S') c = utxo_get (l_utxos toy_state) c"
      using apply_block_effect [OF toy_utxos_ok f(3)] by (simp add: f(6))
    then show ?thesis
      unfolding l by (simp add: toy_state_def state_for_network_def genesis_state_def utxo_new_def utxo_get_def)
  qed
qed

definition toy_then :: block where
  "toy_then = (case build_template toy other_draws (toy_after toy_chain) toy_miner [] 2 of Inr t \<Rightarrow> seal t 0)"

definition toy_two :: "u64 chain" where
  "toy_two = fst (chain_apply_block toy (toy_after toy_chain) toy_then 10)"

lemma toy_second: "chain_apply_block toy (toy_after toy_chain) toy_then 10 = (toy_two, Inr ())"
proof -
  let ?one = "toy_after toy_chain"
  have core: "chain_core toy ?one" by (rule toy_after_core [OF toy_chain_ready])
  have s: "chain_subsidy ?one 1 = 600000000"
    by (simp add: chain_subsidy_def toy_one reward_at_def theoretical_reward_at_def locked_mainnet_def params)
  have "fst (dr_output other_draws 0) \<noteq> None" by (simp add: other_draws_def)
  then obtain cb where cb: "build_coinbase toy other_draws toy_miner 600000000 1 (proof_ctx ?one) = Inr cb"
    using toy_coinbase_made unfolding toy_miner_def by blast
  obtain k o' where f: "tx_inputs cb = []" "tx_outputs cb = [o']" "tx_kernels cb = [k]" "fee_darks k = 0"
    by (rule build_coinbase_fields [OF cb])
  have "out_commit o' = toy_encode 600016323" using toy_rewards(2) [OF cb] f(2) by simp
  moreover have "toy_encode 600016323 \<noteq> toy_encode 600016755" by (simp add: toy_encode_inject)
  ultimately have new: "utxo_get (l_utxos (ledger ?one)) (out_commit o') = None" by (simp add: toy_one(6))
  have "checked_fee_sum [k] = Some 0" by (simp add: checked_fee_sum_Some_iff f(4))
  then have asm: "assembled toy (ledger ?one) 1 (chain_subsidy ?one 1) (proof_ctx ?one) cb []"
    by (simp add: assembled_def f params new)
  have "\<exists>t. build_template toy other_draws ?one toy_miner [] 2 = Inr t"
  proof (rule template_builds [OF toy_group toy_encoding toy_range core, unfolded toy_one(1), OF _ asm refl refl])
    show "build_coinbase toy other_draws toy_miner
        (if 0 < chain_subsidy ?one 1 then chain_subsidy ?one 1
         else wrapping_fees (concat (map tx_kernels []))) 1 (proof_ctx ?one) = Inr cb"
      by (simp add: s cb)
    show "commit_point toy (excess k) \<noteq> Some 0" if "k \<in> set (tx_kernels cb)" for k
      by (rule toy_excess_nonzero [OF cb that])
  qed (simp_all add: params toy_one wrapping_fees_def)
  then obtain t where t: "build_template toy other_draws ?one toy_miner [] 2 = Inr t" by blast
  have "h_timestamp (t_header t) = 2"
    using t by (auto elim!: build_template_InrD simp: toy_one sat_add_def checked_add_def)
  moreover have "(1 :: u64) \<noteq> - 1" by simp
  moreover have "checkpoint_at 1 = None" by (simp add: checkpoint_at_def CHECKPOINTS_def)
  ultimately have "\<exists>ch'. chain_apply_block toy ?one (seal t 0) 10 = (ch', Inr ())"
    by (intro template_accepted [OF toy_encoding toy_group core t toy_pow])
      (simp_all add: toy_one params word_le_nat_alt unat_sat_add)
  then show ?thesis by (auto simp: toy_two_def toy_then_def t)
qed


section \<open>An archive of one block and of two\<close>

lemma toy_grows: "apply_suffix toy (toy_after toy_chain) [toy_then] 10 = Inr toy_two"
  by (simp add: toy_second state_result_def)

lemma toy_two_grown: "grown toy toy_json 10 toy_two" "network toy_two = Devnet"
  using continued(1,2) [OF toy_encoding toy_group toy_grown toy_grows] toy_blocks(2) by simp_all

definition toy_block_two :: block where "toy_block_two = last (blocks toy_two)"

lemma toy_two_blocks: "blocks toy_two = [toy_block, toy_block_two]"
proof -
  obtain own where "blocks toy_two = blocks (toy_after toy_chain) @ own" "length own = 1"
    using continued(3) [OF toy_encoding toy_group toy_grown toy_grows] by auto
  then show ?thesis by (auto simp: toy_blocks toy_block_two_def length_Suc_conv)
qed

lemma toy_two_counts: "block_count toy_two = 2" "block_count (toy_after toy_chain) = 1"
  by (simp_all add: grown_facts(6) [OF toy_encoding toy_group toy_two_grown(1)]
      grown_facts(6) [OF toy_encoding toy_group toy_grown] toy_two_blocks toy_blocks)

definition pair_codec :: codec where
  "pair_codec =
     \<lparr>bin_ser = \<lambda>b. if b = toy_block then [] else [1],
      bin_de = \<lambda>bs. Inr (if bs = [] then toy_block else toy_block_two),
      leg_ser = \<lambda>b. u32_le PROTOCOL_VERSION @ (if b = legacy_from_current toy_block then [] else [1]),
      leg_de = \<lambda>bs. Inr (legacy_from_current (if bs = u32_le PROTOCOL_VERSION then toy_block else toy_block_two)),
      json_ser = \<lambda>b. if b = toy_block then [88] else [89],
      json_de = \<lambda>s. Inr (if s = ''X'' then toy_block else toy_block_two)\<rparr>"

lemma text_Y: "text_of [89] = ''Y''" "trim ''Y'' = ''Y''"
  by (simp add: text_of_def char_of_def bit_Suc_0_iff) (rule trim_solid, simp add: solid_ascii)

lemma pair_codec_simps:
  "bin_de pair_codec (bin_ser pair_codec toy_block) = Inr toy_block" "bin_de pair_codec (bin_ser pair_codec toy_block_two) = Inr toy_block_two"
  "leg_de pair_codec (leg_ser pair_codec (legacy_from_current toy_block)) = Inr (legacy_from_current toy_block)"
  "leg_de pair_codec (leg_ser pair_codec (legacy_from_current toy_block_two)) = Inr (legacy_from_current toy_block_two)"
  "take 4 (leg_ser pair_codec l) = u32_le PROTOCOL_VERSION"
  "json_ser pair_codec toy_block = [88]" "json_de pair_codec ''X'' = Inr toy_block" "json_de pair_codec ''Y'' = Inr toy_block_two"
  "toy_block_two \<noteq> toy_block \<Longrightarrow> json_ser pair_codec toy_block_two = [89]"
  by (simp_all add: pair_codec_def length_u32_le)

lemma toy_blocks_differ: "toy_block_two \<noteq> toy_block"
proof -
  have "chain_core toy toy_two" "headers toy_two = map (compact_of toy) [toy_block, toy_block_two]"
    using grown_facts(3,5) [OF toy_encoding toy_group toy_two_grown(1)] by (simp_all add: toy_two_blocks)
  then have "unat (h_height (blk_header toy_block)) = 0" "unat (h_height (blk_header toy_block_two)) = 1"
    by (auto simp: chain_core_def heights_ok_def nth_Cons split: nat.splits)
  then show ?thesis by auto
qed

lemma pair_codec_for: "set bs \<subseteq> {toy_block, toy_block_two} \<Longrightarrow> codec_for pair_codec bs"
proof -
  have v: "h_version (blk_header toy_block_two) = PROTOCOL_VERSION"
    using grown_facts(1) [OF toy_encoding toy_group toy_two_grown(1)] by (simp add: current_version_def toy_two_blocks)
  have "codec_for pair_codec [toy_block]" "codec_for pair_codec [toy_block_two]"
    unfolding codec_for_def
    by (simp_all only: list.set ball_simps pair_codec_simps pair_codec_simps(9) [OF toy_blocks_differ])
      (simp_all add: text_ascii text_Y utf8_ascii trim_ascii v toy_blocks pair_codec_simps(7,8))
  then show "set bs \<subseteq> {toy_block, toy_block_two} \<Longrightarrow> codec_for pair_codec bs"
    unfolding codec_for_def by (simp add: subset_iff) blast
qed

definition toy_dir_two :: dir where
  "toy_dir_two = toy_dir(BLOCKS_JSONL \<mapsto> [88, 10, 89, 10], META_FILE \<mapsto> [78])"

definition pair_lib :: store_lib where
  "pair_lib = toy_lib\<lparr>lib_codec := pair_codec,
     meta_ser := \<lambda>m. if m_block_count m = 1 then [77] else [78],
     meta_de := \<lambda>s. Some (if s = ''M'' then meta_of toy toy_dir (toy_after toy_chain) ''i''
                     else meta_of toy toy_dir_two toy_two ''i'')\<rparr>"

lemma text_N: "text_of [78] = ''N''"
  by (simp add: text_of_def char_of_def bit_Suc_0_iff)

lemma pair_reads:
  "meta_reads pair_lib (meta_of toy toy_dir (toy_after toy_chain) ''i'')" "meta_reads pair_lib (meta_of toy toy_dir_two toy_two ''i'')"
  by (simp_all add: meta_reads_def pair_lib_def utf8_ascii text_ascii text_N)
    (simp_all add: meta_of_def toy_two_counts)


lemma pair_writes:
  "write_all_blocks pair_codec Json [toy_block] = Inr [88, 10]"
  "write_all_blocks pair_codec Json [toy_block, toy_block_two] = Inr [88, 10, 89, 10]"
  "written pair_codec Json [toy_block_two] = ([89, 10], Inr ())"
  by (simp_all add: write_all_Cons write_block_def pair_codec_simps toy_blocks_differ)
    (simp_all add: write_all_blocks_def)

lemma pair_lib_codec: "lib_codec pair_lib = pair_codec"
  by (simp add: pair_lib_def)

lemma toy_dir_two_files: "toy_dir_two BLOCKS_JSONL = Some [88, 10, 89, 10]" "toy_dir_two META_FILE = Some [78]"
  "toy_dir_two RECOVERY_JOURNAL = None" "format_of toy_dir_two = Json" "blocks_path toy_dir_two = BLOCKS_JSONL"
  "stored_id toy_dir_two = Some ''i''"
proof -
  show "toy_dir_two BLOCKS_JSONL = Some [88, 10, 89, 10]" "toy_dir_two META_FILE = Some [78]" "toy_dir_two RECOVERY_JOURNAL = None"
    "format_of toy_dir_two = Json" "blocks_path toy_dir_two = BLOCKS_JSONL"
    by (simp_all add: toy_dir_two_def toy_dir_def file_names format_of_def detect_def blocks_path_def)
  have "toy_dir_two INSTALL_ID = toy_dir INSTALL_ID" by (simp add: toy_dir_two_def file_names)
  then show "stored_id toy_dir_two = Some ''i''" using toy_id by (simp add: stored_id_def read_text_def)
qed

lemma pair_committed:
  "committed toy pair_lib toy_dir ''i'' (toy_after toy_chain) [88, 10]"
  "committed toy pair_lib toy_dir_two ''i'' toy_two [88, 10, 89, 10]"
proof -
  have m: "meta_ser pair_lib (meta_of toy d (toy_after toy_chain) i) = [77]" "meta_ser pair_lib (meta_of toy d toy_two i) = [78]" for d i
    by (simp_all add: pair_lib_def) (simp_all add: meta_of_def toy_two_counts)
  show "committed toy pair_lib toy_dir ''i'' (toy_after toy_chain) [88, 10]"
    by (simp add: committed_def holds_blocks_def records_def toy_files toy_id toy_path pair_lib_codec toy_blocks pair_writes
        pair_codec_for pair_reads m)
  show "committed toy pair_lib toy_dir_two ''i'' toy_two [88, 10, 89, 10]"
    by (simp add: committed_def holds_blocks_def records_def toy_dir_two_files pair_lib_codec toy_two_blocks pair_writes
        pair_codec_for pair_reads m)
qed

text \<open>What the metadata will say after each of the two saves.\<close>

lemma pair_metas:
  "meta_of toy (toy_dir(BLOCKS_JSONL \<mapsto> [88, 10, 89, 10])) toy_two ''i'' = meta_of toy toy_dir_two toy_two ''i''"
  "meta_of toy (toy_dir_two(BLOCKS_JSONL \<mapsto> [88, 10])) (toy_after toy_chain) ''i'' = meta_of toy toy_dir (toy_after toy_chain) ''i''"
proof -
  have p: "blocks_path (toy_dir(BLOCKS_JSONL \<mapsto> s)) = BLOCKS_JSONL" "blocks_path (toy_dir_two(BLOCKS_JSONL \<mapsto> s)) = BLOCKS_JSONL" for s
    using format_written(2) [of toy_dir s] format_written(2) [of toy_dir_two s] toy_path toy_dir_two_files by simp_all
  have f: "file_len toy_dir_two HORIZON_FILE = file_len toy_dir HORIZON_FILE" "file_len toy_dir_two HEADERS_FILE = file_len toy_dir HEADERS_FILE"
    "HORIZON_FILE \<noteq> BLOCKS_JSONL" "HEADERS_FILE \<noteq> BLOCKS_JSONL"
    by (simp_all add: file_len_def toy_dir_two_def file_names)
  show "meta_of toy (toy_dir(BLOCKS_JSONL \<mapsto> [88, 10, 89, 10])) toy_two ''i'' = meta_of toy toy_dir_two toy_two ''i''"
    "meta_of toy (toy_dir_two(BLOCKS_JSONL \<mapsto> [88, 10])) (toy_after toy_chain) ''i'' = meta_of toy toy_dir (toy_after toy_chain) ''i''"
    using f toy_files toy_dir_two_files by (simp_all add: meta_of_def p toy_path) (simp_all add: file_len_def)
qed

text \<open>The second block is appended: half of its record is one of the states on the way.\<close>

definition toy_torn :: dir where "toy_torn = toy_dir(BLOCKS_JSONL \<mapsto> [88, 10, 89])"

lemma write_meta_past: "set (dir_past st) \<subseteq> set (dir_past (fst (write_meta C L ch st)))"
  by (auto simp: write_meta_def publish_meta_def install_id_def sr_bind_def sr_get_def sr_return_def file_write_def touch_def
      file_rename_def split: option.splits)

lemma toy_appends:
  "snd (save toy pair_lib toy_two \<lparr>dir_now = toy_dir, dir_past = []\<rparr>) = Inr ()"
  "toy_torn \<in> set (dir_past (fst (save toy pair_lib toy_two \<lparr>dir_now = toy_dir, dir_past = []\<rparr>)))"
proof -
  let ?st = "\<lparr>dir_now = toy_dir, dir_past = []\<rparr>"
  let ?st1 = "\<lparr>dir_now = toy_dir(BLOCKS_JSONL \<mapsto> [88, 10, 89, 10]),
      dir_past = [toy_dir, toy_dir(BLOCKS_JSONL \<mapsto> [88, 10]), toy_dir(BLOCKS_JSONL \<mapsto> [88, 10, 89])]\<rparr>"
  have "save toy pair_lib toy_two ?st
      = sr_bind (write_blocks (file_append BLOCKS_JSONL) pair_codec Json [toy_block_two]) (\<lambda>_. write_meta toy pair_lib toy_two) ?st"
    using save_appends [OF toy_encoding toy_group toy_grown _ pair_committed(1) toy_grows]
    by (simp add: toy_blocks toy_two_blocks toy_path pair_lib_codec)
  also have "\<dots> = write_meta toy pair_lib toy_two ?st1"
    using write_blocks_run [of toy_dir ?st BLOCKS_JSONL "[88, 10]" pair_codec Json "[toy_block_two]" "[89, 10]" "Inr ()"]
      toy_files pair_writes(3) by (simp add: sr_bind_def)
  finally have run: "save toy pair_lib toy_two ?st = write_meta toy pair_lib toy_two ?st1" .
  have "stored_id (toy_dir(BLOCKS_JSONL \<mapsto> s)) = Some ''i''" for s
    using toy_id stored_id_other(3) [of toy_dir toy_dir] by (simp add: toy_path)
  then have "stored_id (dir_now ?st1) = Some ''i''" by simp
  from write_meta_run [OF this, of toy pair_lib toy_two] show "snd (save toy pair_lib toy_two ?st) = Inr ()"
    unfolding run by (metis snd_conv)
  have "toy_torn \<in> set (dir_past ?st1)" by (simp add: toy_torn_def)
  then show "toy_torn \<in> set (dir_past (fst (save toy pair_lib toy_two ?st)))"
    unfolding run using write_meta_past [of ?st1] by blast
qed

text \<open>The chain of one block over the archive of two: the file is written anew.\<close>

lemma toy_rewrites: "snd (save toy pair_lib (toy_after toy_chain) \<lparr>dir_now = toy_dir_two, dir_past = []\<rparr>) = Inr ()"
proof -
  have "read_meta pair_lib toy_dir_two = Some (meta_of toy toy_dir_two toy_two ''i'')"
    using pair_committed(2) by (intro read_meta_records) (simp add: committed_def)
  then have "stored_block_count pair_lib toy_dir_two = 2"
    by (simp add: stored_block_count_def) (simp add: meta_of_def toy_two_counts)
  moreover have "\<not> is_pruned (toy_after toy_chain)"
    using grown_facts(4) [OF toy_encoding toy_group toy_grown] by (simp add: is_pruned_def)
  ultimately have "save toy pair_lib (toy_after toy_chain) \<lparr>dir_now = toy_dir_two, dir_past = []\<rparr>
      = rewrite_all toy pair_lib (toy_after toy_chain) \<lparr>dir_now = toy_dir_two, dir_past = []\<rparr>"
    by (simp add: save_def Let_def toy_two_counts)
  moreover obtain st' where "rewrite_all toy pair_lib (toy_after toy_chain) \<lparr>dir_now = toy_dir_two, dir_past = []\<rparr> = (st', Inr ())"
    using rewrite_all_commits [OF toy_encoding toy_group toy_grown, of toy_dir_two pair_lib "[88, 10]" "[]"]
    by (auto simp: toy_dir_two_files pair_lib_codec toy_blocks pair_writes pair_codec_for own_id_def pair_metas pair_reads)
  ultimately show ?thesis by simp
qed

lemma toy_archives:
  "archive_before toy toy_json pair_lib 10 toy_dir toy_two" "archive_before toy toy_json pair_lib 10 toy_dir_two (toy_after toy_chain)"
proof -
  have "d RECOVERY_JOURNAL = None \<Longrightarrow> grown toy toy_json 10 old \<Longrightarrow> network old = network ch
      \<Longrightarrow> committed toy pair_lib d i old s \<Longrightarrow> length (blocks old) < 2 ^ 64
      \<Longrightarrow> (hash_at toy ch (block_count old - 1) = Some (tip_hash toy old) \<Longrightarrow> \<exists>new. apply_suffix toy old new 10 = Inr ch)
      \<Longrightarrow> archive_before toy toy_json pair_lib 10 d ch" for d old ch i s
    unfolding archive_before_def by blast
  note saved = this
  show "archive_before toy toy_json pair_lib 10 toy_dir toy_two"
  proof (rule saved [OF toy_files(4) toy_grown _ pair_committed(1)])
    show "\<exists>new. apply_suffix toy (toy_after toy_chain) new 10 = Inr toy_two" using toy_grows by blast
  qed (simp_all add: toy_two_grown toy_blocks)
  have "hash_at toy (toy_after toy_chain) 1 = None"
    using grown_facts(4,5) [OF toy_encoding toy_group toy_grown]
    by (simp add: hash_at_def toy_blocks block_by_height_def checked_sub_def)
  then show "archive_before toy toy_json pair_lib 10 toy_dir_two (toy_after toy_chain)"
    by (intro saved [OF _ toy_two_grown(1) _ pair_committed(2)])
      (simp_all add: toy_dir_two_files toy_two_grown toy_blocks toy_two_blocks toy_two_counts)
qed

end
