(* ===== verification/Spec2Isabelle.thy ===== *)
theory Spec2Isabelle
  imports Difficulty Utxo Mempool_Facts Keys Example_Chain Wire_Facts Example_Store Example_Wallet Example_Vault Example_Node Example_Append
begin

text \<open>
  Nightfall, a Rust implementation of a coin with hidden amounts: a verification library of its
  protocol, its node and its wallet.  The library follows the crates under \<open>src/crates\<close>; a
  definition has the name of the function it models where HOL allows it, and reads like it.

  The program.  \<open>nightfall-types\<close> holds constants and networks.  \<open>nightfall-crypto\<close> builds
  commitments, kernels, one-sided outputs, addresses and the proof of work on BLAKE3,
  Ristretto, Bulletproofs and a memory-hard hash.  \<open>nightfall-ledger\<close> keeps the unspent outputs
  and applies block bodies; \<open>nightfall-consensus\<close> keeps the chain on top of it, retargets,
  reorganises, assembles templates and keeps the mempool.  \<open>nightfall-storage\<close> writes the chain to
  a directory.  \<open>nightfall-p2p\<close> frames messages and dials; \<open>nightfall-node\<close> holds all of this
  under one lock and talks to peers.  \<open>nightfall-wallet\<close> finds and spends outputs, runs a till,
  answers requests of offline devices, writes receipts and seals its file in a vault.

  What stands for what.  A machine integer is a word of its width; \<open>+\<close> wraps as in the release
  build, checked and saturating operations are those of \<open>Prelude\<close>.  A byte array is a list of
  bytes, a string the list of its UTF-8 bytes.  A \<open>BTreeMap\<close> is a sorted association list
  (\<open>Ordered_Map\<close>), a \<open>HashMap\<close> or \<open>HashSet\<close> a list without repeats; where the order of its
  iteration matters it is an argument.  A \<open>Result\<close> is a sum with the error left, a method on
  \<open>&mut self\<close> a function that returns the new state, also when it fails; a computation over
  files or a connection is the state monad with errors of \<open>Prelude\<close>.  Random draws and the clock
  are arguments; one operation reads the clock once.  Code outside the repository is a record of
  functions: \<open>crypto\<close> the group, hash and proof primitives, \<open>json\<close> and \<open>lib_codec\<close> the
  serialisation packages, \<open>node_env\<close> all of them for a node.  What is relied on is named:
  \<open>group_ok\<close> (scalar action and generators), \<open>encoding_ok\<close> (encodings are injective and of their
  length), \<open>range_ok\<close> (proofs made for a value in range verify), and the round trips of the
  packages.  No property assumes that a hash has no collisions, but for the one clause of
  \<open>archive_before\<close> that C29 names.

  Theories and sources, by component.

  \<^item> Vocabulary: \<open>Prelude\<close>, \<open>Ordered_Map\<close>, and Rust's text, parsing, addresses and percent
    encoding in \<open>Rust_Text\<close>, \<open>Rust_Parse\<close>, \<open>Rust_Net\<close>, \<open>Rust_Url\<close>.
  \<^item> Protocol and cryptography: \<open>Types\<close> (types/lib.rs), \<open>Crypto\<close> (crypto: lib, commit, schnorr,
    binding, rangeproof), \<open>Kernel\<close>, \<open>Keys\<close>, \<open>Stealth\<close>, \<open>Pow\<close> (crypto: kernel, keys, stealth, pow).
  \<^item> Ledger: \<open>Utxo\<close>, \<open>Tx\<close>, \<open>Aggregate\<close>, \<open>Builder\<close>, \<open>Ledger\<close> (the files of the same names, lib.rs
    for the last).  \<open>Ledger_Facts\<close> shows what a block changes and that a rewind is exact,
    \<open>Ledger_Accept\<close> that a balanced block cannot break the supply equation.
  \<^item> Consensus (consensus/lib.rs and difficulty.rs): \<open>Difficulty\<close>, \<open>Blocks\<close> (emission, headers),
    \<open>Chain\<close>, \<open>Reorg\<close>, \<open>Mempool\<close> (templates and pool).  \<open>Chain_Facts\<close> has the invariant of a chain,
    \<open>Reorg_Facts\<close>, \<open>Splice\<close> and \<open>Rewind_Facts\<close> the reorganisations, \<open>Rebuild_Facts\<close> the trusted
    prefix, \<open>Template_Facts\<close> and \<open>Mempool_Facts\<close> what miners assemble.
  \<^item> Network: \<open>Socks\<close> (p2p/socks.rs), \<open>Peer_Address\<close> and \<open>Wire\<close> (p2p/lib.rs), \<open>Wire_Facts\<close>.
  \<^item> Node (node/session.rs, node/runtime.rs): \<open>Node_State\<close> has the sessions, the state under the lock
    and the helpers on it; \<open>Node_Sync\<close> block download in slices, the search for a common block,
    branches pushed or fetched, and \<open>sync_from_peer\<close>; \<open>Node_Peer\<close> greeting, seats and every
    message; \<open>Node_Control\<close> the miner's steps and the owner's operations.  \<open>Sync_Facts\<close> shows what
    synchronisation achieves; \<open>Node_Facts\<close> has the invariant of a node, one lemma per operation,
    and the node as a step relation, in which a branch is verified between steps.
  \<^item> Storage: \<open>Codec\<close> (codec.rs), \<open>Store\<close> and \<open>Store_Load\<close> (lib.rs); \<open>Store_Facts\<close> and
    \<open>Store_Crash\<close> have the round trip and the crashes, \<open>Store_Saved\<close> the first save and the rewrites.
  \<^item> Reset of a stalled chain: \<open>Node_Recovery\<close> (node/recovery.rs), with the directories a reset goes
    through.
  \<^item> Wallet: \<open>Amount_Input\<close>, \<open>Payment_Request\<close>, \<open>Counter\<close>, \<open>Air\<close>, \<open>Swap_Journal\<close>, \<open>Receipt\<close> (the
    files of these names, with their facts); \<open>Wallet_State\<close>, \<open>Wallet_Scan\<close>, \<open>Wallet_Send\<close>,
    \<open>Wallet_Light\<close> (wallet/lib.rs); \<open>Wallet_Coins\<close> on selection, \<open>Wallet_Run\<close> the operations as
    steps, \<open>Wallet_Facts\<close>, \<open>Wallet_Safety\<close> and \<open>Wallet_Pages\<close> (with the sale from an invoice to its
    settlement) what holds after any history of them.
  \<^item> Vault: \<open>Vault\<close> (vault.rs), \<open>Vault_Store\<close> (vault_store.rs, vault_fs.rs, storage/dirlock.rs);
    \<open>Vault_Facts\<close>, \<open>Vault_Store_Facts\<close> (triples over the file operations, with every state in between), \<open>Vault_Safety\<close>, \<open>Vault_Legacy\<close>, \<open>Vault_Enrol\<close>.
  \<^item> \<open>Example\<close> and \<open>Example_Chain\<close>, \<open>_Store\<close>, \<open>_Append\<close>, \<open>_Wallet\<close>, \<open>_Vault\<close>, \<open>_Node\<close>: an instance
    of every parameter, on which the witnesses evaluate the model.

  Interfaces.  \<open>undo_store\<close> is a store whose insertions and removals can be undone (sorted maps
  and the unspent set), \<open>undo_log\<close> a sequence of steps with their undos (ledger and chain),
  \<open>cas_store\<close> a store with compare-and-swap revisions (the swap journal), \<open>file_property\<close> what the
  edits of a wallet's file have to keep for a property to hold after any history (typing,
  withheld sends, one answer per request, distinct sends).

  Termination and fuel.  Loops that count are structural or have a measure.  The mining loop
  is a partial function and its property says that it returns.  The loops with a bound in the
  code keep that bound: 64 rounds with a peer, 601 blocks of a branch (the code stops past
  600).  Draining the page buffer, the doubling search, the bisection and the download of a
  branch decrease a measure, so no fuel is needed.

  Concurrency.  The node does everything under one lock except the verification of a branch, so
  a step of \<open>node_step\<close> is what happens between taking the lock and giving it back; a branch is
  checked between a step that puts up \<open>reorg_in_flight\<close> and the step of its verdict, while the
  chain may move on.  That step asks that the tip it was based on, if it is still the tip,
  belongs to the same chain, up to pruning.  The search for a common block reads the chain as it is
  at its start.  The parallel miner is a step relation of its workers.

  Not modelled, and why.  Threads, timers, condition variables and the start of a node: what
  they call is modelled, when they call it is the step relation's choice.  Sockets that fail to
  be written to: what is sent is a list of actions.  What a buffered reader read ahead
  when it is dropped after the handshake.  Permissions, \<open>fsync\<close>, canonical paths and the Windows
  variants of the file functions: a crash leaves a prefix of the file operations, so a reordering
  by a loss of power is outside.  The directory and files around \<open>Wallet::open_at\<close>, except
  in the vault.  The word list of \<open>mnemonic.rs\<close> and the rehearsal around it.  Sentences shown to
  people.  The HTTP handlers of \<open>rpc.rs\<close> and the mobile entry points, which turn
  JSON into calls of the modelled operations.  The graphical wallet, the web pages and the
  scripts, which present.
\<close>

section \<open>The ledger\<close>

text \<open>
  C1.  \<open>LedgerState::apply_block\<close> keeps the ledger's invariant whatever it returns: the
  running sum describes the unspent set, and the sum of the unspent commitments less the sum
  of the kernel excesses is the circulating supply times \<open>G\<close>, minted within the cap.
\<close>

theorem apply_block_keeps_supply:
  assumes "ledger_ok C S" and "apply_block C S body height reward ctx = (S', r)"
  shows "utxo_ok C (l_utxos S') \<and> verify_supply C S' = Inr ()"
  using apply_block_ledger_ok [OF assms] by (simp add: ledger_ok_def)

theorem apply_block_keeps_supply_witness:
  "utxo_ok toy (l_utxos (fst (apply_block toy toy_state toy_body 1 toy_reward toy_ctx)))
   \<and> verify_supply toy (fst (apply_block toy toy_state toy_body 1 toy_reward toy_ctx)) = Inr ()"
  by (rule apply_block_keeps_supply [OF toy_state_ok]) (rule toy_apply_pair)

text \<open>
  C2.  After \<open>apply_block\<close> accepted a block, \<open>rewind\<close> with the undo that
  \<open>capture_undo\<close> took before it gives back exactly the state before the block.
\<close>

theorem rewind_after_apply:
  assumes "utxo_ok C (l_utxos S)"
    and "apply_block C S body height reward ctx = (S', Inr ())"
  shows "\<exists>u. capture_undo S body = Inr u \<and> rewind C u S' = S"
  by (rule apply_block_rewind [OF assms])

theorem rewind_after_apply_witness:
  "\<exists>u. capture_undo toy_state toy_body = Inr u
     \<and> rewind toy u (fst (apply_block toy toy_state toy_body 1 toy_reward toy_ctx)) = toy_state"
  by (rule rewind_after_apply [OF toy_utxos_ok]) (rule toy_apply)

text \<open>
  C3.  What an accepted block did to the unspent set: every input was unspent and is spent
  once, every output is new and created once, and nothing else changed.
\<close>

theorem accepted_block_moves_coins:
  assumes "utxo_ok C (l_utxos S)"
    and "apply_block C S body height reward ctx = (S', Inr ())"
  shows "distinct (map in_commit (b_inputs body)) \<and> distinct (map out_commit (b_outputs body))
    \<and> (\<forall>i \<in> set (b_inputs body). utxo_get (l_utxos S) (in_commit i) \<noteq> None)
    \<and> (\<forall>o' \<in> set (b_outputs body). utxo_get (l_utxos S) (out_commit o') = None
         \<and> utxo_get (l_utxos S') (out_commit o') = Some (utxo_entry_of height o'))
    \<and> (\<forall>c. c \<notin> out_commit ` set (b_outputs body) \<longrightarrow>
         utxo_get (l_utxos S') c
         = (if c \<in> in_commit ` set (b_inputs body) then None else utxo_get (l_utxos S) c))"
  by (rule apply_block_effect [OF assms])

theorem accepted_block_moves_coins_witness:
  "utxo_get (l_utxos (fst (apply_block toy toy_state toy_body 1 toy_reward toy_ctx)))
       (out_commit (hd (b_outputs toy_body)))
     = Some (utxo_entry_of 1 (hd (b_outputs toy_body)))"
proof -
  obtain k o' where "tx_outputs toy_coinbase = [o']"
    by (rule build_coinbase_fields [OF toy_coinbase_eq])
  then have "hd (b_outputs toy_body) \<in> set (b_outputs toy_body)"
    by (simp add: toy_body_def aggregate_simps)
  then show ?thesis
    using accepted_block_moves_coins [OF toy_utxos_ok toy_apply] by blast
qed

text \<open>
  C4.  The value balance of a block implies the supply equation after it: with the balance
  checked, the due amount claimed and the cap kept, adding the kernels and the offset to the
  accumulator and the outputs to the running sum satisfies the equation again.  The ledger
  must not have burned more than it minted, neither before nor after the block: below zero
  the circulating supply stays at zero and the equation says something else.  On such ledgers
  the check of the equation in \<open>validate_block\<close> never refuses a balanced block.
\<close>

theorem balance_implies_supply_equation:
  assumes "group_ok C" "encoding_ok C" "ledger_ok C S"
    and "total_burned_darks (l_supply S) \<le> total_minted_darks (l_supply S)"
    and "check_block_balance C body = Inr off" "distinct (map in_commit (b_inputs body))"
    and "body_total_reward body = (if 0 < reward then reward else body_total_fee body)"
    and "\<not> would_exceed_cap (l_supply S) reward"
    and "next_supply (l_supply S) reward (body_total_fee body) = Inr ns"
    and "total_burned_darks ns \<le> total_minted_darks ns"
  shows "\<exists>ks nk projected. add_kernels C (b_kernels body) (l_kernels S) = Inr ks
    \<and> add_offset C ks off = Some nk
    \<and> sum_after C (l_utxos S) (spent_set body) (map out_commit (b_outputs body)) = Some projected
    \<and> supply_equation_holds C projected nk ns = Inr ()"
  by (rule balance_projects [OF assms])

theorem balance_implies_supply_equation_witness:
  "\<exists>off ks nk projected. check_block_balance toy toy_spending = Inr off
    \<and> map in_commit (b_inputs toy_spending) = [toy_encode 1006] \<and> body_total_fee toy_spending = 100
    \<and> add_kernels toy (b_kernels toy_spending) (l_kernels toy_funded) = Inr ks
    \<and> add_offset toy ks off = Some nk
    \<and> sum_after toy (l_utxos toy_funded) (spent_set toy_spending) (map out_commit (b_outputs toy_spending)) = Some projected
    \<and> supply_equation_holds toy projected nk \<lparr>total_minted_darks = 600001000, total_burned_darks = 100\<rparr> = Inr ()"
proof -
  obtain off where off: "check_block_balance toy toy_spending = Inr off"
    by (rule toy_spending_valid) (auto elim: validate_block_OkD)
  have ns: "next_supply (l_supply toy_funded) toy_reward (body_total_fee toy_spending)
      = Inr \<lparr>total_minted_darks = 600001000, total_burned_darks = 100\<rparr>"
    by (simp add: next_supply_def toy_funded_supply toy_spending_sums toy_reward_def checked_add_def)
  from balance_implies_supply_equation [OF toy_group toy_encoding toy_funded_ok(1) _ off _ _ _ ns]
  show ?thesis
    using off by (simp add: toy_spending_sums toy_funded_supply toy_reward_def would_exceed_cap_iff)
qed

text \<open>
  C5.  A block assembled from a coinbase for the due amount and transactions the ledger
  admits, none of which conflict, is accepted by the ledger.
\<close>

theorem assembled_block_is_accepted:
  assumes "group_ok C" "encoding_ok C" "range_ok C" "ledger_ok C S"
    and "total_burned_darks (l_supply S) \<le> total_minted_darks (l_supply S)"
    and "assembled C S height reward ctx cb ts"
    and "build_coinbase C dr miner due height ctx = Inr cb"
    and "\<And>k. k \<in> set (tx_kernels cb) \<Longrightarrow> commit_point C (excess k) \<noteq> Some 0"
    and "fees = wrapping_fees (concat (map tx_kernels ts))"
    and "due = (if 0 < reward then reward else fees)"
    and "\<not> would_exceed_cap (l_supply S) reward"
    and "unat (total_burned_darks (l_supply S)) + unat fees
      \<le> unat (total_minted_darks (l_supply S)) + unat reward"
  shows "\<exists>S'. apply_block C S (aggregate C (cb # ts)) height reward ctx = (S', Inr ())"
  by (rule assembled_block_accepted [OF assms])

theorem assembled_block_is_accepted_witness:
  "\<exists>S'. apply_block toy toy_funded (aggregate toy [toy_coinbase, toy_transfer]) 1 toy_reward toy_ctx = (S', Inr ())"
proof (rule assembled_block_is_accepted [OF toy_group toy_encoding toy_range toy_funded_ok(1) _
      toy_funded_assembled toy_coinbase_eq toy_excess_nonzero [OF toy_coinbase_eq] toy_funded_fees [symmetric]])
qed (simp_all add: toy_funded_supply toy_reward_def would_exceed_cap_iff)

section \<open>The chain\<close>

text \<open>
  C6.  Every chain a node reaches, by starting, applying blocks, pruning and splicing in any
  order, is well formed (heights, links, pins, work, bodies that replay to the ledger) and
  its supply verifies.
\<close>

theorem reachable_chain_verifies:
  assumes "encoding_ok C" "group_ok C" "reachable C json ch"
  shows "chain_ok C ch \<and> chain_verify_supply C ch = Inr ()"
  using reachable_ok [OF assms] reachable_supply [OF assms] by blast

theorem reachable_chain_verifies_witness:
  "chain_ok toy (toy_after toy_chain) \<and> chain_verify_supply toy (toy_after toy_chain) = Inr ()"
  by (rule reachable_chain_verifies [OF toy_encoding toy_group toy_after_reachable])

text \<open>
  C7.  A block that the chain refuses, for whatever reason, leaves it exactly as it was.
\<close>

theorem rejected_block_changes_nothing:
  assumes "utxo_ok C (l_utxos (ledger ch))"
    and "apply_block_inner C ch b now v = (ch', Inl e)"
  shows "ch' = ch"
  by (rule apply_inner_Err [OF assms])

theorem rejected_block_changes_nothing_witness:
  "fst (apply_block_inner toy toy_chain toy_wrong 10 True) = toy_chain"
proof (rule rejected_block_changes_nothing)
  show "utxo_ok toy (l_utxos (ledger toy_chain))" by (simp add: toy_chain_def)
  show "apply_block_inner toy toy_chain toy_wrong 10 True
      = (fst (apply_block_inner toy toy_chain toy_wrong 10 True), Inl BadTxCount)"
    by (simp add: toy_wrong_refused)
qed

text \<open>
  C8.  A pinned height is enforced on every network: whatever the network of the chain, a
  block at a height with a checkpoint whose hash is not the pinned one is refused.
\<close>

theorem pin_holds_on_every_network:
  assumes "utxo_ok C (l_utxos (ledger ch))"
    and "checkpoint_at (h_height (blk_header b)) = Some pinned"
    and "hash_to_hex (block_hash C b) \<noteq> pinned"
  shows "\<exists>e. apply_block_inner C ch b now v = (ch, Inl e)"
  by (rule pinned_block [OF assms])

theorem pin_holds_on_every_network_witness:
  "network toy_chain = Devnet \<and> (\<exists>e. apply_block_inner toy toy_chain toy_wrong 10 True = (toy_chain, Inl e))"
proof
  let ?pin = "''71c8b97b1e8a20f9f29d9e873110e41223b0c96aa9ce773feaee78c97bdd247e''"
  have "last (hash_to_hex (block_hash toy toy_wrong)) \<noteq> last ?pin"
    by (simp add: toy_wrong_hash)
  then have "hash_to_hex (block_hash toy toy_wrong) \<noteq> ?pin" by metis
  then show "\<exists>e. apply_block_inner toy toy_chain toy_wrong 10 True = (toy_chain, Inl e)"
    by (intro pin_holds_on_every_network [of _ _ _ ?pin])
      (simp_all add: toy_chain_def toy_wrong_def checkpoint_at_def CHECKPOINTS_def)
qed (simp add: toy_chain_def)

text \<open>
  C9.  \<open>rebuild_from_blocks_trusted_prefix\<close> agrees with full validation: blocks that a fresh
  chain accepts one by one are rebuilt to the same chain, whatever prefix is trusted.
\<close>

theorem rebuild_is_validation:
  assumes "encoding_ok C" "group_ok C" "new_fair C json n = Inr ch0"
    and "apply_suffix C ch0 bs now = Inr ch"
  shows "rebuild_from_blocks_trusted_prefix C json no_assume n bs k now = Inr ch"
  by (rule rebuild_agrees [OF assms])

theorem rebuild_is_validation_witness:
  "rebuild_from_blocks_trusted_prefix toy toy_json False Devnet [toy_next toy_chain] 1 10
    = Inr (toy_after toy_chain)"
  by (rule rebuild_is_validation [OF toy_encoding toy_group toy_new toy_suffix [OF toy_chain_ready]])

text \<open>
  Pruning never fails on a well-formed chain, keeps \<open>max keep 1\<close> bodies or all of them,
  and changes neither tip, ledger, headers, work nor undos; the pruned chain is well formed.
\<close>

theorem prune_keeps_the_chain:
  assumes "chain_ok C ch" and "prune_keep C ch keep = (ch', r)"
  shows "r = Inr (length (blocks ch) - max keep 1) \<and> chain_ok C ch'
    \<and> blocks ch' = drop (length (blocks ch) - max keep 1) (blocks ch)
    \<and> ledger ch' = ledger ch \<and> headers ch' = headers ch \<and> total_work ch' = total_work ch
    \<and> undos ch' = undos ch"
  by (rule prune_keep_effect [OF assms])

theorem prune_keeps_the_chain_witness:
  "snd (prune_keep toy (toy_after toy_chain) 0) = Inr (length (blocks (toy_after toy_chain)) - 1)"
  using prune_keeps_the_chain [OF _ surjective_pairing, of toy "toy_after toy_chain" 0]
    reachable_ok [OF toy_encoding toy_group toy_after_reachable] by simp

section \<open>Reorganisations\<close>

text \<open>
  C10.  A splice that succeeds is honest: whatever was pruned between preparing the trial and
  splicing, the result is the chain rewound to the ancestor with every block of the new
  branch applied to it under full validation, and it is strictly heavier than the chain left.
\<close>

theorem splice_is_full_validation:
  assumes "encoding_ok C" "group_ok C" "deep_ok C ch"
    and "prepare_suffix_trial C json ch anc = Inr t"
    and "finish_suffix C t sfx now = Inr (Some r)"
    and "prune_keep C ch k = (ch1, pr)"
    and "splice_suffix C ch1 r = (ch', True)"
  shows "apply_suffix C (rewound C ch1 (st_rewind t)) sfx now = Inr ch'
    \<and> total_work ch1 < total_work ch'"
  using splice_rewinds [OF assms] by blast

theorem splice_is_full_validation_witness:
  "\<exists>t r ch'. prepare_suffix_trial toy toy_json toy_fork 0 = Inr t
    \<and> splice_suffix toy toy_fork r = (ch', True)
    \<and> apply_suffix toy (rewound toy toy_fork (st_rewind t)) [toy_next toy_fork] 10 = Inr ch'"
proof -
  obtain t r ch' where t: "prepare_suffix_trial toy toy_json toy_fork 0 = Inr t"
    and r: "finish_suffix toy t [toy_next toy_fork] 10 = Inr (Some r)"
    and s: "splice_suffix toy toy_fork r = (ch', True)"
    by (rule toy_splice)
  from splice_is_full_validation [OF toy_encoding toy_group toy_fork_deep t r toy_prune_fork s] t s
  show ?thesis by blast
qed

text \<open>
  C11.  A heavier branch is adopted: if two runs of blocks from one ancestor are both valid
  and the second has more work, then preparing, verifying and splicing the second on the
  chain of the first succeeds and gives the chain of the second, up to the oldest undos.
\<close>

theorem heavier_branch_is_adopted:
  assumes "encoding_ok C" "group_ok C" "chain_core C ch0" "headers ch0 \<noteq> []"
    and "apply_suffix C ch0 ours now = Inr ch" "apply_suffix C ch0 theirs now' = Inr ch2"
    and "length ours \<le> MAX_REORG_DEPTH" "length (headers ch) \<le> 2 ^ 64"
      "length (headers ch2) \<le> 2 ^ 64"
    and "total_work ch < total_work ch2" "new_fair C json (network ch0) = Inr fresh"
      "tip_height ch0 = Some anc"
  shows "\<exists>t r ch'. prepare_suffix_trial C json ch anc = Inr t
    \<and> finish_suffix C t theirs now' = Inr (Some r) \<and> splice_suffix C ch r = (ch', True)
    \<and> ch'\<lparr>undos := undos ch2\<rparr> = ch2 \<and> (\<exists>k. undos ch' = drop k (undos ch2))"
  by (rule splice_is_rebuild [OF assms]) blast

theorem heavier_branch_is_adopted_witness:
  "\<exists>t r ch'. prepare_suffix_trial toy toy_json toy_fork 0 = Inr t
    \<and> finish_suffix toy t [toy_next toy_fork] 10 = Inr (Some r)
    \<and> splice_suffix toy toy_fork r = (ch', True)
    \<and> ch'\<lparr>undos := undos (toy_after toy_fork)\<rparr> = toy_after toy_fork"
proof -
  have ours: "apply_suffix toy toy_fork [] 10 = Inr toy_fork" by simp
  show ?thesis
    using heavier_branch_is_adopted [OF toy_encoding toy_group toy_fork_core toy_fork_sizes(2) ours
        toy_suffix [OF toy_fork_ready] _ toy_fork_sizes(1,3) toy_fork_grows(2) toy_fork_new
        toy_fork_tip]
    by auto
qed

section \<open>Templates and ingestion\<close>

text \<open>
  C18.  A node accepts the block it mines: a template built on a chain and sealed with a
  nonce that meets the target is applied to that chain.
\<close>

theorem mined_template_is_accepted:
  assumes "encoding_ok C" "group_ok C" "chain_core C ch"
    and "build_template C dr ch miner extra ts = Inr t"
    and "pow_is_valid C (seal t nonce) (chain_pow_params ch)"
    and "h_timestamp (t_header t) \<le> sat_add now MAX_FUTURE_DRIFT_SECS"
    and "checkpoint_at (next_height ch) = None"
    and "chain_median_time_past ch \<noteq> - 1"
  shows "\<exists>ch'. chain_apply_block C ch (seal t nonce) now = (ch', Inr ())"
  by (rule template_accepted [OF assms])

theorem mined_template_is_accepted_witness:
  "\<exists>t ch'. build_template toy toy_draws toy_chain toy_miner [] 1 = Inr t
    \<and> chain_apply_block toy toy_chain (seal t 0) 10 = (ch', Inr ())"
proof -
  obtain t where t: "build_template toy toy_draws toy_chain toy_miner [] 1 = Inr t"
    by (rule toy_next_eq [OF toy_chain_ready])
  from mined_template_is_accepted [OF toy_encoding toy_group toy_core t toy_pow
      toy_conditions [OF toy_chain_ready t], of 0] t
  show ?thesis by blast
qed

text \<open>
  \<open>try_ingest_blocks\<close> applies a prefix of what a peer sent: the chain it leaves is the
  one after the first \<open>m\<close> blocks, the number returned is \<open>m\<close>, and an error is returned only
  when nothing was applied.
\<close>

theorem ingest_applies_a_prefix:
  assumes "encoding_ok C" "group_ok C" "chain_core C ch"
    and "try_ingest_blocks C ch bs now = (ch', r)"
  shows "\<exists>m \<le> length bs. apply_suffix C ch (take m bs) now = Inr ch'
    \<and> (\<forall>j. r = Inr j \<longrightarrow> j = m) \<and> (\<forall>e. r = Inl e \<longrightarrow> m = 0)"
  using ingest_prefix [OF assms(1,2,3), of 0 bs now ch' r] assms(4)
  by (auto simp: try_ingest_blocks_def)

theorem ingest_applies_a_prefix_witness:
  "\<exists>m \<le> 1. apply_suffix toy toy_chain (take m [toy_next toy_chain]) 10
    = Inr (fst (try_ingest_blocks toy toy_chain [toy_next toy_chain] 10))"
  using ingest_applies_a_prefix [OF toy_encoding toy_group toy_core surjective_pairing,
      of "[toy_next toy_chain]" 10] by auto

section \<open>Difficulty and emission\<close>

text \<open>
  C19.  One retarget moves the difficulty by at most a factor of two around the average of
  the window, except that the network's floor always wins.
\<close>

theorem retarget_is_bounded:
  fixes floor :: u64
  assumes "91 \<le> length history" "\<forall>e \<in> set history. 1 \<le> unat (snd e)"
  shows "max (window_average history div 2) (unat floor) \<le> unat (next_difficulty history initial floor)
    \<and> unat (next_difficulty history initial floor) \<le> max (2 * window_average history) (unat floor)"
  using next_difficulty_bounds [OF assms] by blast

theorem retarget_is_bounded_witness:
  "5 \<le> unat (next_difficulty (paced_history 0 10 91) 1 1)"
proof -
  have l: "length (paced_history 0 10 91) = 91" by (simp add: paced_history_def)
  have p: "\<forall>e \<in> set (paced_history 0 10 91). 1 \<le> unat (snd e)" by (simp add: paced_history_def)
  have "window_average (paced_history 0 10 91) = 10" by code_simp
  with retarget_is_bounded [OF _ p, of 1 1] l show ?thesis by simp
qed

text \<open>
  A chain on pace keeps its difficulty: blocks of one difficulty found exactly every
  15 seconds give the same difficulty again, whatever the length of the history.
\<close>

theorem steady_pace_keeps_difficulty:
  fixes floor :: u64
  assumes "91 \<le> n" "1 \<le> d"
  shows "next_difficulty (paced_history t0 d n) initial floor = max d floor"
  by (rule paced_next [OF assms])

theorem steady_pace_keeps_difficulty_witness:
  "next_difficulty (paced_history 1000 77 200) 5 1 = 77"
  using steady_pace_keeps_difficulty [of 200 77 1000 5 1] by simp

text \<open>
  The median time past is a median: it is one of the last eleven timestamps, at most
  five of them are smaller and at most five are larger.
\<close>

theorem median_time_past_is_a_median:
  assumes "ts \<noteq> []"
  shows "median_time_past ts \<in> set (drop (length ts - MTP_WINDOW) ts)
    \<and> length (filter (\<lambda>x. x < median_time_past ts) (drop (length ts - MTP_WINDOW) ts)) \<le> 5
    \<and> length (filter (\<lambda>x. median_time_past ts < x) (drop (length ts - MTP_WINDOW) ts)) \<le> 5"
  using median_splits [OF assms] by (simp add: params)

theorem median_time_past_is_a_median_witness:
  "median_time_past [5, 3, 9] \<in> {5, 3, 9}"
  using median_time_past_is_a_median [of "[5, 3, 9]"] by (simp add: params)

text \<open>
  The reward payable at any height never takes the minted total past the cap, so the
  ledger's cap check never refuses an honest subsidy.
\<close>

theorem subsidy_respects_the_cap:
  assumes "total_minted_darks s \<le> MAX_SUPPLY_DARKS"
  shows "\<not> would_exceed_cap s (darks (reward_at locked_mainnet height (total_minted_darks s)))"
  by (rule reward_at_not_exceed [OF assms])

theorem subsidy_respects_the_cap_witness:
  "\<not> would_exceed_cap \<lparr>total_minted_darks = 8999999999999999, total_burned_darks = 0\<rparr>
     (darks (reward_at locked_mainnet 3 8999999999999999))"
  using subsidy_respects_the_cap [of "\<lparr>total_minted_darks = 8999999999999999,
      total_burned_darks = 0\<rparr>" 3] by (simp add: params)

section \<open>Proof of work\<close>

text \<open>
  C20.  \<open>meets_difficulty\<close>, which multiplies limb by limb and looks at the final carry, is the
  256-bit comparison it stands for: the hash as a big-endian number times the difficulty is
  below two to the 256.
\<close>

theorem difficulty_check_is_the_comparison:
  assumes "length h = 32"
  shows "meets_difficulty h d \<longleftrightarrow> be_nat h * unat d < 2 ^ 256"
  by (rule meets_difficulty_iff [OF assms])

theorem difficulty_check_is_the_comparison_witness:
  "meets_difficulty (1 # replicate 31 0) 255 \<and> \<not> meets_difficulty (1 # replicate 31 0) 256"
proof -
  have "le_nat (replicate n 0) = 0" for n by (induction n) simp_all
  then have z: "be_nat (replicate n 0) = 0" for n by (simp add: be_nat_def)
  have "be_nat ([1] @ replicate 31 0) = 256 ^ 31"
    by (simp only: be_nat_append z length_replicate) (simp add: be_nat_def)
  then show ?thesis
    using difficulty_check_is_the_comparison [of "1 # replicate 31 0"] by simp
qed

text \<open>
  C21.  The mining loop returns the first nonce that meets the target, the number of tries it
  took, and nothing earlier: with \<open>k\<close> misses during which the caller did not ask to stop at
  a polled attempt, the loop returns nonce \<open>start + k\<close> after \<open>k + 1\<close> tries.
\<close>

theorem mining_returns_the_first_hit:
  assumes "quiet_until (\<lambda>n. nighthash C pre n ps) d stop start k"
    and "meets_difficulty (nighthash C pre (start + of_nat k) ps) d"
  shows "mine_counted C pre d start ps stop =
    Some (Some (start + of_nat k, nighthash C pre (start + of_nat k) ps), Suc k)"
  by (rule mine_counted_hit [OF assms])

theorem mining_returns_the_first_hit_witness:
  "map_option snd (mine_counted
     (toy\<lparr>argon2id := \<lambda>_ m _. if m = u64_le 7 then replicate 32 0 else replicate 32 255\<rparr>)
     [] 2 5 (network_pow_params Devnet) (\<lambda>_. True)) = Some 3"
proof -
  let ?C = "toy\<lparr>argon2id := \<lambda>_ m _. if m = u64_le 7 then replicate 32 0 else replicate 32 255\<rparr>"
  have n: "nighthash ?C [] n ps = (if n = 7 then replicate 32 0 else replicate 32 255)" for n ps
    by (auto simp: nighthash_def)
  have "le_nat (replicate n 0) = 0" for n by (induction n) simp_all
  then have m: "meets_difficulty (replicate 32 0) 2"
    by (simp add: meets_difficulty_iff be_nat_def)
  have "replicate 32 255 = [255] @ replicate 31 (255 :: u8)" by (simp add: numeral_eq_Suc)
  then have "be_nat (replicate 32 255) = 255 * 256 ^ 31 + be_nat (replicate 31 255)"
    by (simp only: be_nat_append length_replicate) (simp add: be_nat_def)
  then have m': "\<not> meets_difficulty (replicate 32 255) 2"
    by (simp add: meets_difficulty_iff)
  have q: "quiet_until (\<lambda>n. nighthash ?C [] n (network_pow_params Devnet)) 2 (\<lambda>_. True) 5 2"
    by (auto simp: quiet_until_def n m m' less_2_cases_iff)
  have h: "meets_difficulty (nighthash ?C [] (5 + of_nat 2) (network_pow_params Devnet)) 2"
    by (simp add: n m)
  show ?thesis
    by (simp only: mining_returns_the_first_hit [OF q h]) simp
qed

text \<open>
  C22.  The parallel miner under every interleaving of its workers: what is recorded is a
  nonce with its hash that meets the target, a record is never replaced, and once every
  worker has returned and the caller never asked to stop, something is recorded.
\<close>

theorem parallel_miner_is_sound:
  assumes "par_reach hash d threads may_stop start s"
  shows "(\<forall>n h. p_slot s = Some (n, h) \<longrightarrow> h = hash n \<and> meets_difficulty h d)
    \<and> (\<forall>t r. par_step hash d threads may_stop s t \<longrightarrow> p_slot s = Some r \<longrightarrow> p_slot t = Some r)
    \<and> (\<not> may_stop \<longrightarrow> 0 < threads \<longrightarrow> (\<forall>w \<in> set (p_workers s). w_pc w = Returned)
         \<longrightarrow> p_slot s \<noteq> None)"
  by (rule par_reach_sound [OF assms])

theorem parallel_miner_is_sound_witness:
  "\<exists>s. par_reach (\<lambda>_. replicate 32 0) 3 1 False 7 s \<and> p_slot s = Some (7, replicate 32 0)
    \<and> meets_difficulty (replicate 32 0) 3"
proof -
  obtain s where s: "par_reach (\<lambda>_. replicate 32 0) 3 1 False 7 s"
    "p_slot s = Some (7, replicate 32 0)"
    by (rule par_example)
  with parallel_miner_is_sound [OF s(1)] show ?thesis by blast
qed

section \<open>Encodings, outputs and transactions\<close>

text \<open>
  The preimages of the domain-separated hash are unambiguous: two calls feed the same
  bytes to BLAKE3 only if domain and parts are the same.
\<close>

theorem hashed_parts_are_unambiguous:
  assumes "hash_preimage d ps = hash_preimage e qs"
    and "length d < 2 ^ 64" "length e < 2 ^ 64" "length ps < 2 ^ 64" "length qs < 2 ^ 64"
    and "\<forall>p \<in> set ps. length p < 2 ^ 64" "\<forall>q \<in> set qs. length q < 2 ^ 64"
  shows "d = e \<and> ps = qs"
  by (rule hash_preimage_inject [OF assms])

theorem hashed_parts_are_unambiguous_witness:
  "hash_preimage [1] [[2, 3], [4]] \<noteq> hash_preimage [1] [[2], [3, 4]]"
  using hashed_parts_are_unambiguous [of "[1]" "[[2, 3], [4]]" "[1]" "[[2], [3, 4]]"] by auto

text \<open>
  C23.  The receiver finds what was sent: an output created for an address is found by the
  view key behind that address, with the value, blind and memo the sender put in, and the
  one-time key it yields together with the spend secret opens the output.
\<close>

theorem receiver_finds_the_output:
  assumes "group_ok C" "encoding_ok C" "range_ok C" "aead_ok C"
    and "create_output_with_features C r_bytes entropy (keys_address C keys) v memo ctx feat
      = Inr (o', sec)"
    and "utf8_valid memo" "length memo \<le> MEMO_LEN" "memo = [] \<or> last memo \<noteq> 0"
  shows "\<exists>d. scan_output C (keys_view_key C keys) o' = Some d
      \<and> d_value d = v \<and> d_blind d = ss_blind sec \<and> d_memo d = memo
      \<and> d_commit d = out_commit o' \<and> d_output_pk d = output_pk o'
      \<and> output_point C o' = Some (pt_mul C (d_spend_secret d keys) (generator_g C))"
  by (rule scan_created_output [OF assms])

theorem receiver_finds_the_output_witness:
  "\<exists>o' d. scan_output toy (keys_view_key toy toy_keys) o' = Some d \<and> d_value d = 900"
proof -
  obtain rb en o' sec where
    "create_output toy (Some rb) en (keys_address toy toy_keys) 900 [] toy_ctx = Inr (o', sec)"
    by (rule toy_change)
  from receiver_finds_the_output [OF toy_group toy_encoding toy_range toy_aead
      this [unfolded create_output_def]]
  show ?thesis by (auto simp: utf8_valid.simps)
qed

text \<open>Decoding an encoded address gives the address back.\<close>

theorem address_text_roundtrip:
  assumes "encoding_ok C" and "length (scan_pk a) = 32" "length (spend_pk a) = 32"
    and "scan_point C a \<noteq> None" "spend_point C a \<noteq> None"
  shows "address_decode C (address_encode C a) = Inr a"
  by (rule address_roundtrip [OF assms])

theorem address_text_roundtrip_witness:
  "address_decode toy (address_encode toy toy_miner) = Inr toy_miner"
  using keys_address_valid [OF toy_encoding, of toy_keys]
  by (intro address_text_roundtrip) (simp_all add: toy_miner_def)

text \<open>
  C24.  A transfer that the builder returns passes every stateless rule the network applies
  to it, before and after the binding height, when the coins open their commitments and the
  sums of values and payments fit in 64 bits.
\<close>

theorem built_transfer_verifies:
  assumes "group_ok C" "encoding_ok C" "range_ok C"
    and "build_transfer_with C dr ss ps fee change_to lock ctx rules = Inr t"
    and "\<forall>s \<in> set ss. opens C s"
    and "(\<Sum>s \<leftarrow> ss. unat (sp_value s)) < 2 ^ 64" "(\<Sum>p \<leftarrow> ps. unat (pay_amount p)) < 2 ^ 64"
    and "fee \<le> MAX_KERNEL_FEE_DARKS"
    and "\<And>k. k \<in> set (tx_kernels t) \<Longrightarrow> commit_point C (excess k) \<noteq> Some 0"
    and "r_kernel_offset rules \<Longrightarrow> binding"
  shows "verify_stateless_rules C ctx binding t = Inr ()"
  by (rule build_transfer_balances [OF assms])

theorem built_transfer_verifies_witness:
  "verify_stateless_rules toy toy_ctx True toy_transfer = Inr ()"
proof (rule built_transfer_verifies [OF toy_group toy_encoding toy_range toy_transfer_eq _ _ _ _
      toy_transfer_excess])
qed (simp_all add: toy_coin_opens toy_coin_value params build_rules_default_def)

text \<open>
  After any history of insertions, removals and rebuilds the constant-time sum of the
  unspent set is the sum obtained by walking its entries, and the entries are those of a
  plain map under the same history.
\<close>

theorem running_sum_is_the_walking_sum:
  "utxo_commitment_sum C (fold (change_set C) xs utxo_new)
     = commitment_sum_by_walking C (fold (change_set C) xs utxo_new)
   \<and> utxo_get (fold (change_set C) xs utxo_new) = fold change_map xs Map.empty"
  using change_history [OF utxo_new_ok, of C xs] by (simp add: utxo_commitment_sum_eq)

text \<open>
  Aggregation does not depend on the order of the transactions, as long as inputs,
  outputs and kernels are distinct: a miner cannot encode anything in the order.
\<close>

theorem aggregation_ignores_order:
  assumes "encoding_ok C" "mset ts = mset us"
    and "distinct (map in_commit (concat (map tx_inputs ts)))"
    and "distinct (map out_commit (concat (map tx_outputs ts)))"
    and "distinct (map (kernel_id C) (concat (map tx_kernels ts)))"
  shows "aggregate C ts = aggregate C us"
  by (rule aggregate_mset_cong [OF assms])

theorem aggregation_ignores_order_witness:
  "aggregate toy [toy_coinbase\<lparr>tx_inputs := [], tx_outputs := [], tx_kernels := []\<rparr>, toy_coinbase]
    = aggregate toy [toy_coinbase, toy_coinbase\<lparr>tx_inputs := [], tx_outputs := [], tx_kernels := []\<rparr>]"
proof -
  obtain k o' where cb: "tx_inputs toy_coinbase = []" "tx_outputs toy_coinbase = [o']"
    "tx_kernels toy_coinbase = [k]"
    by (rule build_coinbase_fields [OF toy_coinbase_eq])
  show ?thesis by (rule aggregation_ignores_order) (simp_all add: cb add_mset_commute)
qed

section \<open>The mempool\<close>

text \<open>
  Whatever sequence of insertions, expiries, inclusions and drops it went through, the
  pool is well formed: identifiers match transactions, every entry has its timestamp, no two
  entries spend the same output, and the capacity is kept.
\<close>

theorem mempool_stays_well_formed:
  "mempool_ok C (fold (pool_step C) xs mempool_default)"
  by (rule pool_run_ok)

text \<open>
  C25.  Selection for a block is the prefix of the ranking by fee: the greedy loop that skips
  conflicting transactions never has to skip one.
\<close>

theorem selection_is_the_best_prefix:
  "select_for_block C (fold (pool_step C) xs mempool_default) n
    = take n (sort_key (pool_rank C) (map snd (pool_txs (fold (pool_step C) xs mempool_default))))"
  by (rule select_is_prefix [OF pool_run_ok])

text \<open>
  Output commitments are not part of that conflict check: if two of the transactions
  chosen for a block create the same commitment, no template can be built from them.
\<close>

theorem shared_output_blocks_the_template:
  assumes "chain_core C ch" and "length extra < MAX_TXS_PER_BLOCK"
    and "\<not> distinct (map out_commit (concat (map tx_outputs extra)))"
  shows "\<exists>e. build_template C dr ch miner extra ts = Inl e"
  by (rule shared_output_no_template [OF assms])

theorem shared_output_blocks_the_template_witness:
  "\<exists>e. build_template toy toy_draws toy_chain toy_miner [toy_coinbase, toy_coinbase] 1 = Inl e"
proof -
  obtain k o' where "tx_outputs toy_coinbase = [o']"
    by (rule build_coinbase_fields [OF toy_coinbase_eq])
  then show ?thesis
    by (intro shared_output_blocks_the_template [OF toy_core]) (simp_all add: params)
qed

section \<open>The peer-to-peer layer\<close>

text \<open>
  C26.  Whatever sequence of messages one side managed to send, reading that many messages
  on the other side gives exactly them, and leaves the bytes behind them in the stream.
\<close>

theorem wire_stream_roundtrip:
  assumes "send_all J ms \<lparr>c_in = i, c_out = []\<rparr> = (d, Inr ())" and "\<forall>m \<in> set ms. framed J m"
  shows "receive J (length ms) \<lparr>c_in = c_out d @ rest, c_out = o'\<rparr>
    = (\<lparr>c_in = rest, c_out = o'\<rparr>, Inr ms)"
  by (rule stream_roundtrip [OF assms])

theorem wire_stream_roundtrip_witness:
  "receive (tiny_json GetPeers) 2 \<lparr>c_in = [88, 10, 88, 10, 7], c_out = []\<rparr>
    = (\<lparr>c_in = [7], c_out = []\<rparr>, Inr [GetPeers, GetPeers])"
  using wire_stream_roundtrip [OF tiny_sent [of GetPeers], where rest = "[7]" and o' = "[]"] tiny_framed
  by (simp add: numeral_2_eq_2)

text \<open>
  A block request that returns gives at most as many blocks as were asked for and as one
  request may ask for, at consecutive heights from the one asked for, whatever the peer sent.
\<close>

theorem requested_blocks_are_in_order:
  assumes "request_blocks J from_height limit c = (d, Inr out)"
  shows "length out \<le> limit \<and> length out \<le> MAX_BLOCKS_PER_REQUEST
    \<and> (\<forall>i < length out. unat (h_height (blk_header (out ! i))) = unat from_height + i)"
  using request_blocks_spec [OF assms] by (simp add: consecutive_def)

theorem requested_blocks_are_in_order_witness:
  "length [tiny_block] \<le> MAX_BLOCKS_PER_REQUEST
    \<and> unat (h_height (blk_header ([tiny_block] ! 0))) = unat (5 :: u64)"
  using requested_blocks_are_in_order [OF tiny_request] by simp

text \<open>
  The blocks sent in answer to a request are the longest prefix the size limit allows,
  if the sizes grow with the number of blocks: it fits and one block more does not.
\<close>

theorem block_answers_fill_the_message:
  assumes "fit_blocks_response J bs = Inr out" and "bs \<noteq> []"
  shows "\<exists>k. 0 < k \<and> k \<le> length bs \<and> out = take k bs \<and> fits_wire J (BlocksMsg out)
    \<and> (k = length bs \<or> \<not> fits_wire J (BlocksMsg (take (k + 1) bs)))"
  using fit_blocks_spec [OF assms(1)] assms(2) by auto

theorem block_answers_fill_the_message_witness:
  "\<exists>k. 0 < k \<and> k \<le> length [tiny_block] \<and> [tiny_block] = take k [tiny_block]
    \<and> fits_wire (tiny_json GetPeers) (BlocksMsg [tiny_block])
    \<and> (k = length [tiny_block] \<or> \<not> fits_wire (tiny_json GetPeers) (BlocksMsg (take (k + 1) [tiny_block])))"
proof (rule block_answers_fill_the_message)
  have "largest_fitting_prefix 1 (\<lambda>n. fits_wire (tiny_json GetPeers) (BlocksMsg (take n [tiny_block]))) = 1"
    using largest_fitting_prefix_spec [OF refl, of 1] tiny_fits by (metis le_antisym not_less_eq_eq zero_le One_nat_def)
  then show "fit_blocks_response (tiny_json GetPeers) [tiny_block] = Inr [tiny_block]"
    by (simp add: fit_blocks_response_def)
qed simp

text \<open>
  A connect through a SOCKS5 proxy succeeds exactly when the proxy answers with the
  messages of the protocol; what was sent is the greeting and the request for the target, and
  what the proxy sends behind its reply is left in the stream.
\<close>

theorem socks5_exchange:
  "socks5_connect dest c = (d, Inr ()) \<longleftrightarrow>
     (\<exists>host port address atyp bs rest.
        split_host_port dest = Inr (host, port) \<and> socks_address host = Inr address
      \<and> bind_reply atyp bs \<and> c_in c = [5, 0, 5, 0, 0, atyp] @ bs @ rest
      \<and> d = \<lparr>c_in = rest, c_out = c_out c @ [5, 1, 0] @ [5, 1, 0] @ address @ be_u16 port\<rparr>)"
  by (rule socks5_success)

text \<open>
  C27.  Under the privacy lockdown, and for onion names always, a connection that is made
  goes through the proxy.
\<close>

theorem lockdown_never_connects_directly:
  assumes "connect_peer_via_policy via direct addr proxy lockdown = Inr (s, used)"
    and "lockdown \<or> contains ''.onion'' addr"
  shows "used \<and> (\<exists>p. proxy = Some p \<and> via p = Inr s)"
  using no_clearnet_leak [OF assms] by blast

theorem lockdown_never_connects_directly_witness:
  "(\<exists>s used. connect_peer_via_policy (\<lambda>p. Inr (p + 1)) (Inr 3) ''192.0.2.1:9333'' (Some (9050 :: nat)) True = Inr (s, used)
     \<and> used \<and> s = 9051)
   \<and> (\<exists>s used. connect_peer_via_policy (\<lambda>p. Inr (p + 1)) (Inr 3) ''a.onion:1'' (Some (9050 :: nat)) False = Inr (s, used)
     \<and> used \<and> s = 9051)"
proof
  have made: "\<exists>s used. connect_peer_via_policy (\<lambda>p. Inr (p + 1)) (Inr 3) a (Some (9050 :: nat)) l = Inr (s, used) \<and> used \<and> s = 9051"
    if "connect_peer_via_policy (\<lambda>p. Inr (p + 1)) (Inr 3) a (Some (9050 :: nat)) l = Inr (s, used)" "l \<or> contains ''.onion'' a"
    for a l s used
    using lockdown_never_connects_directly [OF that] that(1) by auto
  show "\<exists>s used. connect_peer_via_policy (\<lambda>p. Inr (p + 1)) (Inr 3) ''192.0.2.1:9333'' (Some (9050 :: nat)) True = Inr (s, used)
     \<and> used \<and> s = 9051"
    by (rule made [of _ _ 9051 True]) (simp_all add: connect_peer_via_policy_def)
  show "\<exists>s used. connect_peer_via_policy (\<lambda>p. Inr (p + 1)) (Inr 3) ''a.onion:1'' (Some (9050 :: nat)) False = Inr (s, used)
     \<and> used \<and> s = 9051"
    by (rule made [of _ _ 9051 True]) (simp_all add: connect_peer_via_policy_def contains_def)
qed

section \<open>The data directory\<close>

text \<open>
  The blocks written to a chain file are read back from it, in either format; only a
  binary file that happens to begin like a JSON object is excluded.
\<close>

theorem chain_file_roundtrip:
  assumes "codec_for K bs" and "current_version bs" and "write_all_blocks K fmt bs = Inr s"
    and "fmt = Json \<or> \<not> looks_json s"
  shows "read_blocks K fmt s = Inr bs"
  by (rule file_roundtrip [OF assms(1-3)]) (use assms(4) in auto)

theorem chain_file_roundtrip_witness:
  "read_blocks toy_codec Json [88, 10] = Inr [toy_block]"
  by (rule chain_file_roundtrip [OF toy_codec_for])
    (simp_all add: current_version_def toy_blocks write_all_blocks_def write_block_def toy_codec_def)

text \<open>
  C28.  A crash at any moment while new blocks are appended to a committed, non-empty archive
  leaves a directory that loads, as the chain that was stored or as the chain being saved.
\<close>

theorem append_survives_a_crash:
  assumes "encoding_ok C" "group_ok C" and "grown C json now ch" and "blocks ch \<noteq> []"
    and "committed C L d i ch s" and "apply_suffix C ch new now = Inr ch'"
    and "written (lib_codec L) (format_of d) (drop (length (blocks ch)) (blocks ch')) = (t, r)"
    and "length (blocks ch') < 2 ^ 64" "length (s @ t) < 2 ^ 64"
    and "codec_for (lib_codec L) (blocks ch')"
    and "meta_reads L (meta_of C (d(blocks_path d \<mapsto> s @ t)) ch' i)"
    and "save C L ch' \<lparr>dir_now = d, dir_past = []\<rparr> = (st', r')"
    and "e = dir_now st' \<or> e \<in> set (dir_past st')"
  shows "snd (load_or_new C json L (network ch) now \<lparr>dir_now = e, dir_past = []\<rparr>) \<in> {Inr ch, Inr ch'}"
  by (rule load_after_crash [OF assms(1-4) continued(1,2) [OF assms(1-3,6)] append_states(1) [OF assms]])

theorem append_survives_a_crash_witness:
  "toy_torn \<in> set (dir_past (fst (save toy pair_lib toy_two \<lparr>dir_now = toy_dir, dir_past = []\<rparr>)))
   \<and> toy_torn BLOCKS_JSONL = Some [88, 10, 89]
   \<and> snd (load_or_new toy toy_json pair_lib Devnet 10 \<lparr>dir_now = toy_torn, dir_past = []\<rparr>)
       \<in> {Inr (toy_after toy_chain), Inr toy_two}"
proof (intro conjI)
  show past: "toy_torn \<in> set (dir_past (fst (save toy pair_lib toy_two \<lparr>dir_now = toy_dir, dir_past = []\<rparr>)))"
    by (rule toy_appends(2))
  show "toy_torn BLOCKS_JSONL = Some [88, 10, 89]" by (simp add: toy_torn_def)
  show "snd (load_or_new toy toy_json pair_lib Devnet 10 \<lparr>dir_now = toy_torn, dir_past = []\<rparr>)
      \<in> {Inr (toy_after toy_chain), Inr toy_two}"
  proof (rule append_survives_a_crash [OF toy_encoding toy_group toy_grown _ pair_committed(1) toy_grows,
        unfolded toy_blocks(2), OF _ _ _ _ _ _ prod.collapse [symmetric] disjI2 [OF past]])
    show "written (lib_codec pair_lib) (format_of toy_dir) (drop (length (blocks (toy_after toy_chain))) (blocks toy_two)) = ([89, 10], Inr ())"
      using pair_writes(3) by (simp add: pair_lib_codec toy_path toy_two_blocks toy_blocks del: written.simps)
  qed (simp_all add: toy_blocks toy_two_blocks pair_lib_codec pair_codec_for toy_path pair_metas pair_reads del: fun_upd_apply)
qed

text \<open>
  C29.  After a save that reports success the directory loads as the chain that was saved: the first
  save of a chain, a save that appends to the archive, and a save that writes it anew because the
  chain was reorganised (\<open>archive_before\<close> says what the directory held; a chain that has at the
  height of the old tip the hash of the old tip is taken to continue the old one).  The chain keeps
  the bodies of all its blocks; saves of pruned chains are outside.
\<close>

theorem saved_chain_is_loaded:
  assumes "encoding_ok C" "group_ok C" and "grown C json now ch" and "archive_before C json L now d ch"
    and "write_all_blocks (lib_codec L) (format_of d) (blocks ch) = Inr t" and "codec_for (lib_codec L) (blocks ch)"
    and "format_of d = Binary \<longrightarrow> \<not> looks_json t" and "length t < 2 ^ 64" "length (blocks ch) < 2 ^ 64"
    and "meta_reads L (meta_of C (d(blocks_path d \<mapsto> t)) ch (own_id L d))"
    and "save C L ch \<lparr>dir_now = d, dir_past = []\<rparr> = (st', Inr ())"
  shows "load_or_new C json L (network ch) now \<lparr>dir_now = dir_now st', dir_past = []\<rparr>
    = (\<lparr>dir_now = dir_now st', dir_past = []\<rparr>, Inr ch)"
  by (rule committed_loads [OF assms(1-3) save_commits [OF assms]])

theorem saved_chain_is_loaded_witness:
  "snd (load_or_new toy toy_json pair_lib Devnet 10
      \<lparr>dir_now = dir_now (fst (save toy pair_lib toy_two \<lparr>dir_now = toy_dir, dir_past = []\<rparr>)),
       dir_past = []\<rparr>) = Inr toy_two
   \<and> snd (load_or_new toy toy_json pair_lib Devnet 10
      \<lparr>dir_now = dir_now (fst (save toy pair_lib (toy_after toy_chain) \<lparr>dir_now = toy_dir_two, dir_past = []\<rparr>)),
       dir_past = []\<rparr>) = Inr (toy_after toy_chain)"
proof
  have s: "s = (fst s, Inr ())" if "snd s = Inr ()" for s :: "disk \<times> (store_error + unit)"
    using that by (simp add: prod_eq_iff)
  note at = saved_chain_is_loaded [OF toy_encoding toy_group]
  have "own_id pair_lib toy_dir = ''i''" "own_id pair_lib toy_dir_two = ''i''"
    by (simp_all add: own_id_def toy_id toy_dir_two_files)
  note facts = this toy_blocks toy_path toy_dir_two_files toy_two_blocks pair_lib_codec pair_writes pair_codec_for pair_metas pair_reads
  have "load_or_new toy toy_json pair_lib (network toy_two) 10
      \<lparr>dir_now = dir_now (fst (save toy pair_lib toy_two \<lparr>dir_now = toy_dir, dir_past = []\<rparr>)), dir_past = []\<rparr>
    = (\<lparr>dir_now = dir_now (fst (save toy pair_lib toy_two \<lparr>dir_now = toy_dir, dir_past = []\<rparr>)), dir_past = []\<rparr>, Inr toy_two)"
    by (rule at [OF toy_two_grown(1) toy_archives(1) _ _ _ _ _ _ s [OF toy_appends(1)], where t = "[88, 10, 89, 10]"])
      (simp_all add: facts del: fun_upd_apply)
  then show "snd (load_or_new toy toy_json pair_lib Devnet 10
      \<lparr>dir_now = dir_now (fst (save toy pair_lib toy_two \<lparr>dir_now = toy_dir, dir_past = []\<rparr>)), dir_past = []\<rparr>) = Inr toy_two"
    by (simp add: toy_two_grown)
  have "load_or_new toy toy_json pair_lib (network (toy_after toy_chain)) 10
      \<lparr>dir_now = dir_now (fst (save toy pair_lib (toy_after toy_chain) \<lparr>dir_now = toy_dir_two, dir_past = []\<rparr>)), dir_past = []\<rparr>
    = (\<lparr>dir_now = dir_now (fst (save toy pair_lib (toy_after toy_chain) \<lparr>dir_now = toy_dir_two, dir_past = []\<rparr>)), dir_past = []\<rparr>,
       Inr (toy_after toy_chain))"
    by (rule at [OF toy_grown toy_archives(2) _ _ _ _ _ _ s [OF toy_rewrites], where t = "[88, 10]"])
      (simp_all add: facts del: fun_upd_apply)
  then show "snd (load_or_new toy toy_json pair_lib Devnet 10
      \<lparr>dir_now = dir_now (fst (save toy pair_lib (toy_after toy_chain) \<lparr>dir_now = toy_dir_two, dir_past = []\<rparr>)), dir_past = []\<rparr>)
      = Inr (toy_after toy_chain)"
    by (simp add: toy_blocks)
qed

text \<open>
  A reset of a stalled chain never loses it.  In every directory it goes through, wherever it stops,
  each chain file is where it was or in the backup, and the directory holds the old chain, or is
  refused by the next start, or holds the fresh chain; nothing but chain files, the journal, the
  backup and the staging directory changes.
\<close>

theorem recovery_never_loses_the_chain:
  assumes "recover_stalled_fork C json L idents journal special taken clock counter n force now
      \<lparr>dir_now = d0, dir_past = []\<rparr> = (s', r)"
    and "d = dir_now s' \<or> d \<in> set (dir_past s')"
  shows "\<exists>x y expected. (\<forall>f \<in> set CHAIN_FILES. d0 f \<noteq> None \<longrightarrow> d f = d0 f \<or> d (below (BACKUP_PREFIX @ x) f) = d0 f)
    \<and> ((\<forall>f \<in> set CHAIN_FILES. d f = d0 f)
       \<or> snd (load_or_new C json L n now \<lparr>dir_now = d, dir_past = []\<rparr>) = Inl InterruptedRecovery
       \<or> verified_fresh L expected (format_of d0) d)
    \<and> elsewhere d0 (BACKUP_PREFIX @ x) (STAGING_PREFIX @ y) d"
proof -
  obtain x y expected where "recovering L expected (format_of d0) d0 (BACKUP_PREFIX @ x) (STAGING_PREFIX @ y) d"
    using recovery_states [OF assms(1)] assms(2) by auto
  from recovering_safe [OF this, where C = C and json = json and n = n and now = now] show ?thesis by blast
qed

theorem recovery_never_loses_the_chain_witness:
  "\<exists>s' v d. recover_stalled_fork toy toy_json toy_reset_lib toy_identity (\<lambda>_ _ _. []) (\<lambda>_. False) (\<lambda>_. False) (\<lambda>_. 0) 0
      Devnet True 5 \<lparr>dir_now = toy_dir, dir_past = []\<rparr> = (s', Inr v) \<and> d = dir_now s'
    \<and> (\<exists>x. d META_FILE = Some [77] \<or> d (below (BACKUP_PREFIX @ x) META_FILE) = Some [77])"
proof -
  obtain s' v where run: "recover_stalled_fork toy toy_json toy_reset_lib toy_identity (\<lambda>_ _ _. []) (\<lambda>_. False) (\<lambda>_. False)
      (\<lambda>_. 0) 0 Devnet True 5 \<lparr>dir_now = toy_dir, dir_past = []\<rparr> = (s', Inr v)"
    using toy_reset [of "[]"] by (metis prod.collapse)
  obtain x where "\<forall>f \<in> set CHAIN_FILES. toy_dir f \<noteq> None \<longrightarrow> dir_now s' f = toy_dir f \<or> dir_now s' (below (BACKUP_PREFIX @ x) f) = toy_dir f"
    using recovery_never_loses_the_chain [OF run disjI1 [OF refl]] by blast
  moreover have "META_FILE \<in> set CHAIN_FILES" by (simp add: CHAIN_FILES_def)
  ultimately show ?thesis using run toy_files(3) by fastforce
qed

section \<open>The wallet\<close>

text \<open>
  C35.  The file of a wallet stays well formed through every history of operations: each owned
  output's blinding factor and offset parse and open its commitment to its value, the history
  says of no incoming payment that it was sent, the till and the answered requests are in order.
\<close>

theorem wallet_file_stays_typed:
  assumes "encoding_ok C" and "json_ok J" and "keys_ok C (w_keys w)" and "file_ok C (w_db w)"
  shows "file_ok C (w_db (wallet_run C J sv ops w))"
  using typed.run [OF assms(2,3), where w = w and sv = sv and ops = ops] assms(1,4)
  by (simp add: allowed_def)

theorem wallet_file_stays_typed_witness:
  "file_ok toy (w_db (wallet_run toy toy_wallet_json toy_saver
     [ScanBlocks toy_pages, RecordSend toy_paid 500 [] 9, TillAdd toy_invoice, Rebase toy_pages] toy_wallet))"
  by (rule wallet_file_stays_typed) (simp_all add: toy_wallet_json_ok toy_keys_ok toy_wallet_ok)

text \<open>
  C30.  After any history a payment the wallet makes passes the stateless rules of its network
  and spends only coins that are neither reserved nor claimed by an unresolved send.
\<close>

theorem payment_after_any_history_verifies:
  assumes "group_ok C" "encoding_ok C" "range_ok C" and "json_ok J" "keys_ok C (w_keys w0)" "file_ok C (w_db w0)"
    and "w = wallet_run C J sv ops w0"
    and "create_payment_at C dr w a amount fee memo tip maturity = Inr tx"
    and "(\<Sum>oo \<leftarrow> wf_outputs (w_db w). unat (oo_value oo)) < 2 ^ 64" and "fee \<le> MAX_KERNEL_FEE_DARKS"
    and "\<And>k. k \<in> set (tx_kernels tx) \<Longrightarrow> commit_point C (excess k) \<noteq> Some 0"
    and "r_kernel_offset (wallet_rules (w_network w) tip) \<Longrightarrow> binding"
  shows "verify_stateless_rules C (proof_context (w_network w)) binding tx = Inr ()
    \<and> (\<forall>i \<in> set (tx_inputs tx). in_commit i \<notin> pending_input_commits (w_db w) \<and> \<not> is_reserved (w_db w) (in_commit i))"
proof -
  have "file_ok C (w_db w)"
    using typed.run [OF assms(4,5), where w = w0 and sv = sv and ops = ops] assms(2,6,7)
    by (simp add: allowed_def)
  then show ?thesis
    using payment_verifies [OF assms(1-3) _ assms(8-12)] payment_spends_free_coins [OF assms(8)] by blast
qed

theorem payment_after_any_history_verifies_witness:
  "verify_stateless_rules toy (proof_context Devnet) True toy_paid = Inr ()"
  using payment_after_any_history_verifies [where C = toy and J = toy_wallet_json and ?w0.0 = toy_wallet and w = toy_wallet
      and ops = "[]" and sv = toy_saver and binding = True and fee = 100 and tx = toy_paid,
      OF toy_group toy_encoding toy_range toy_wallet_json_ok _ toy_wallet_ok _ toy_pay_eq [unfolded toy_pay_def]
         _ _ toy_paid_excess]
  by (simp add: toy_keys_ok wallet_run_def params)

text \<open>
  Coin selection covers the target with available coins, within the number of inputs a
  transaction may have, and with the least number of coins any choice could do it with.
\<close>

theorem selection_is_minimal:
  assumes "select_coins_at C w target tip maturity = Inr ss"
  shows "unat target \<le> (\<Sum>s \<leftarrow> ss. unat (sp_value s)) \<and> length ss \<le> MAX_INPUTS
    \<and> mset (map sp_commit ss) \<subseteq># mset (map oo_commit (available_coins (w_db w) tip maturity))
    \<and> (\<forall>ys. mset ys \<subseteq># mset (available_coins (w_db w) tip maturity) \<longrightarrow> unat target \<le> coins_value ys
         \<longrightarrow> length ss \<le> length ys)"
proof -
  let ?coins = "largest_first (available_coins (w_db w) tip maturity)"
  obtain k where k: "k \<le> min MAX_INPUTS (length ?coins)"
    and l: "list_all2 (\<lambda>oo s. to_spendable C (w_keys w) oo = Inr s) (take k ?coins) ss"
    and v: "unat target \<le> coins_value (take k ?coins)"
    and m: "\<forall>ys. mset ys \<subseteq># mset (available_coins (w_db w) tip maturity) \<longrightarrow> unat target \<le> coins_value ys
           \<longrightarrow> k \<le> length ys"
    using selection [OF assms] by blast
  have "length ss = k" using list_all2_lengthD [OF l] k by simp
  moreover have "map sp_commit ss = map oo_commit (take k ?coins)" "map sp_value ss = map oo_value (take k ?coins)"
    using spendables [OF l] by simp_all
  moreover have "(\<Sum>s \<leftarrow> ss. unat (sp_value s)) = coins_value (take k ?coins)"
    using arg_cong [OF spendables [OF l, THEN conjunct2, THEN conjunct1], of "\<lambda>vs. sum_list (map unat vs)"]
    by (simp add: coins_value_def coin_value_def [abs_def] comp_def)
  moreover have "mset (map oo_commit (take k ?coins)) \<subseteq># mset (map oo_commit (available_coins (w_db w) tip maturity))"
    using image_mset_subseteq_mono [OF mset_take_part [of k ?coins]] by simp
  ultimately show ?thesis using k v m by simp
qed

theorem selection_is_minimal_witness:
  "\<exists>ss. select_coins_at toy toy_wallet 600 0 0 = Inr ss \<and> 600 \<le> (\<Sum>s \<leftarrow> ss. unat (sp_value s)) \<and> length ss \<le> 1"
proof -
  have "mset [toy_owned 1001 3] \<subseteq># mset (available_coins (w_db toy_wallet) 0 0)"
    by (simp add: available_coins_def pending_input_commits_def is_reserved_def)
  moreover have "unat (600 :: u64) \<le> coins_value [toy_owned 1001 3]"
    by (simp add: coins_value_def coin_value_def toy_owned_def)
  ultimately show ?thesis
    using selection_is_minimal [OF toy_selection] toy_selection by fastforce
qed

text \<open>
  C31.  A coin that an unresolved send claims is not spent again: whatever the wallet is asked to
  do next, short of giving the send up or forgetting its history, no payment made after it
  spends that coin.
\<close>

theorem unresolved_send_keeps_its_coins:
  assumes "json_ok J" and "keys_ok C (w_keys w0)" and "sends_distinct (w_db w0)" and "w = wallet_run C J sv ops w0"
    and "c \<in> pending_input_commits (w_db w)" and "\<not> gives_up_sends op"
    and "create_payment_at C dr (wallet_step C J sv op w) a amount fee memo tip maturity = Inr tx"
  shows "c \<notin> in_commit ` set (tx_inputs tx)"
proof -
  have "sends_distinct (w_db w) \<and> w_keys w = w_keys w0"
    unfolding assms(4) by (rule distinct_sends.run [OF assms(1,2,3) refl]) (simp add: allowed_def)
  then have "locked_coin c (w_db (wallet_step C J sv op w))"
    using locked_after_step [OF assms(1) _ _ assms(5,6)] assms(2) by simp
  note free = locked_unavailable [OF this]
  obtain k where m: "map in_commit (tx_inputs tx) = map oo_commit
      (take k (largest_first (available_coins (w_db (wallet_step C J sv op w)) tip maturity)))"
    and sub: "set (take k (largest_first (available_coins (w_db (wallet_step C J sv op w)) tip maturity)))
      \<subseteq> set (available_coins (w_db (wallet_step C J sv op w)) tip maturity)"
    by (rule payment_inputs [OF assms(7)])
  have "set (map in_commit (tx_inputs tx)) \<subseteq> oo_commit ` set (available_coins (w_db (wallet_step C J sv op w)) tip maturity)"
    unfolding m set_map by (rule image_mono [OF sub])
  moreover have "c \<notin> oo_commit ` set (available_coins (w_db (wallet_step C J sv op w)) tip maturity)"
    using free by blast
  ultimately show ?thesis unfolding set_map by blast
qed


theorem unresolved_send_keeps_its_coins_witness:
  "\<exists>tx. create_payment_at toy toy_draws toy_later (keys_address toy toy_other) 500 100 [] 0 0 = Inr tx
     \<and> commitment_new toy 1001 3 \<notin> in_commit ` set (tx_inputs tx)"
proof -
  obtain tx where tx: "create_payment_at toy toy_draws toy_later (keys_address toy toy_other) 500 100 [] 0 0 = Inr tx"
    by (rule toy_second_payment)
  have "commitment_new toy 1001 3 \<notin> in_commit ` set (tx_inputs tx)"
    by (rule unresolved_send_keeps_its_coins [OF toy_wallet_json_ok _ _ refl _ _ tx [unfolded toy_later_def]])
       (simp_all add: toy_keys_ok sends_distinct_def send_ids_def toy_sent_file toy_claimed gives_up_sends_def)
  then show ?thesis using tx by blast
qed

text \<open>
  C32.  A new wallet that reads a chain in pages, however they are cut and overlap, has every page
  accepted and ends with the outputs, the position and the anchor that one scan of the same
  stretch gives: the outputs its view key opens, spent where the chain consumes them.
\<close>

theorem paged_scan_is_one_scan:
  fixes C :: "('p::ab_group_add, 's::comm_ring_1) crypto"
  assumes "encoding_ok C" and "chain_heights birth bs" and "chain_of bs" and "\<forall>v. sv v"
    and "pages_from 0 ps" and "pages_end 0 ps \<le> length bs" and "ps \<noteq> []"
  shows "\<exists>w v n. scan_pages C sv (map (page_of bs) ps) (in_memory net k birth) = (w, Inr ())
    \<and> scan_blocks C sv (take (pages_end 0 ps) bs) (in_memory net k birth) = (v, Inr n)
    \<and> wf_outputs (w_db w) = wf_outputs (w_db v)
    \<and> wf_scanned_to (w_db w) = wf_scanned_to (w_db v) \<and> wf_scanned_tip (w_db w) = wf_scanned_tip (w_db v)
    \<and> wf_outputs (w_db v) = set_spent (page_inputs (take (pages_end 0 ps) bs))
        (discover C (keys_view_key C k) {} (take (pages_end 0 ps) bs))"
proof -
  let ?w0 = "in_memory net k birth" and ?n = "pages_end 0 ps"
  have pos: "0 < ?n" using assms(5,7) pages_end_le [of "snd (hd ps)" "tl ps"] by (cases ps) auto
  obtain w where w: "scan_pages C sv (map (page_of bs) ps) ?w0 = (w, Inr ())" "read_upto C k birth bs ?n w"
    using pages_read [OF assms(1-4) read_nothing assms(5,6)] by blast
  obtain v where v: "scan_pages C sv (map (page_of bs) [(0, ?n)]) ?w0 = (v, Inr ())" "read_upto C k birth bs ?n v"
    using pages_read [OF assms(1-4) read_nothing, of "[(0, ?n)]"] pos assms(6) by auto
  then obtain n where n: "scan_blocks C sv (take ?n bs) ?w0 = (v, Inr n)"
    by (auto simp: page_of_def split: prod.splits sum.splits)
  show ?thesis using w v n pos by (auto simp: read_upto_def exact_def)
qed

theorem paged_scan_is_one_scan_witness:
  "\<exists>w v n. scan_pages toy toy_saver (map (page_of toy_pages) [(0, 2), (1, 3)]) (in_memory Devnet toy_keys 0) = (w, Inr ())
    \<and> scan_blocks toy toy_saver toy_pages (in_memory Devnet toy_keys 0) = (v, Inr n)
    \<and> wf_outputs (w_db w) = wf_outputs (w_db v)"
proof -
  have "take (pages_end 0 [(0, 2), (1, 3)]) toy_pages = toy_pages" by (simp add: toy_pages_def)
  then show ?thesis
    using paged_scan_is_one_scan [OF toy_encoding toy_heights toy_pages_chain, of toy_saver "[(0, 2), (1, 3)]" Devnet toy_keys]
    by (auto simp: toy_saver_def toy_pages_def)
qed

text \<open>
  C34.  An offline request is answered once: whatever happened in between, a second answer under
  the same nonce is the same transaction for the same request, and it changes nothing.
\<close>

theorem one_answer_per_request:
  assumes "json_ok J" and "keys_ok C (w_keys w)" and "om_ok (wf_air_signed (w_db w))"
    and "prepare_air_payment C J dr sv i0 maturity now clock w = (w', Inr tx)"
    and "prepare_air_payment C J dr2 sv j0 maturity2 now2 clock2 (wallet_run C J sv ops w') = (w2, Inr tx2)"
    and "intent_parse C (intent_text C i0) = Inr i" "intent_parse C (intent_text C j0) = Inr j"
    and "it_nonce j = it_nonce i"
  shows "tx2 = tx \<and> intent_text C j = intent_text C i \<and> w2 = wallet_run C J sv ops w'"
  by (rule air_answered_once [OF assms])

theorem one_answer_per_request_witness:
  "prepare_air_payment toy toy_wallet_json toy_draws toy_saver toy_intent 0 5 9 toy_wallet = (toy_answered, Inr toy_paid)
   \<and> (\<exists>tx2. prepare_air_payment toy toy_wallet_json toy_draws toy_saver toy_intent 0 5 9
        (wallet_run toy toy_wallet_json toy_saver [] toy_answered) = (toy_answered, Inr tx2) \<and> tx2 = toy_paid)"
proof -
  have again: "prepare_air_payment toy toy_wallet_json toy_draws toy_saver toy_intent 0 5 9
      (wallet_run toy toy_wallet_json toy_saver [] toy_answered) = (toy_answered, Inr toy_paid)"
    by (simp add: toy_air_again wallet_run_def)
  from one_answer_per_request [OF toy_wallet_json_ok _ _ toy_air_first this toy_intent_parsed toy_intent_parsed refl]
  show ?thesis using again by (simp add: toy_keys_ok om_ok_def toy_air_first)
qed

text \<open>
  What is sent in frames arrives whole: when every frame of a transfer was read, in any
  order and with repeats, the payload comes back; before that the transfer is reported as
  incomplete with the number of frames seen.
\<close>

theorem transfer_arrives_whole:
  assumes "frames C p = Inr fs" and "set qs \<subseteq> set fs"
  shows "ra_finish C (ra_run qs)
    = (if set qs = set fs then Inr p
       else Inl (IncompleteTransfer (card (set qs)) (if qs = [] then 0 else length fs)))"
  by (rule transfer [OF assms])

theorem transfer_arrives_whole_witness:
  "\<exists>fs. frames toy [1, 2, 3] = Inr fs \<and> ra_finish toy (ra_run (rev fs @ fs)) = Inr [1, 2, 3]"
proof -
  obtain fs where fs: "frames toy [1, 2, 3] = Inr fs"
    using frames_total [of "[1, 2, 3]" toy] by (auto simp: params)
  have "set (rev fs @ fs) \<subseteq> set fs" by auto
  from transfer_arrives_whole [OF fs this] fs show ?thesis by auto
qed

text \<open>
  C33.  A sale settles: the link made from an invoice is read back by the payer, the output it
  makes is found by the till's view key, and with it the invoice is paid, late exactly when the
  payment came after the deadline.  The reference has to fit the 64 bytes of a memo.
\<close>

theorem sale_is_settled:
  fixes C :: "('p::ab_group_add, 's::comm_ring_1) crypto"
  assumes "group_ok C" "encoding_ok C" "range_ok C" "aead_ok C"
    and "invoice_check i = Inr ()" "carried (inv_reference i)" "inv_amount i = Some a" "inv_closed i = None"
    and "pay_request C rb en (to_uri C (request_for i (keys_address C k) n)) ctx = Some (o', sec)"
    and "\<forall>q \<in> set ps. \<not> quotes i q"
  shows "\<exists>d. scan_output C (keys_view_key C k) o' = Some d
     \<and> is_state (invoice_status_of i (ps @ [incoming_of (received_entry d h t False)]) now)
         = Paid (after_deadline (inv_expires i) t)"
  by (rule sale_settles [OF assms])

theorem sale_is_settled_witness:
  "\<exists>o' d. scan_output toy (keys_view_key toy toy_keys) o' = Some d
     \<and> is_state (invoice_status_of toy_invoice [incoming_of (received_entry d 7 91 False)] 100) = Paid True"
proof -
  obtain o' sec where s: "pay_request toy (Some [1]) [2] (to_uri toy (request_for toy_invoice (keys_address toy toy_keys) Devnet))
    toy_ctx = Some (o', sec)"
    by (rule toy_sale)
  have "inv_amount toy_invoice = Some 500" "inv_closed toy_invoice = None" by (simp_all add: toy_invoice_def)
  from sale_is_settled [OF toy_group toy_encoding toy_range toy_aead toy_invoice_ok this s, of "[]" 7 91 100]
  show ?thesis by (auto simp: toy_invoice_def after_deadline_def)
qed

text \<open>
  C36.  The sends of an imported wallet are withheld, and no operation but a new payment lets
  the wallet send one of them again by itself.
\<close>

theorem imported_sends_stay_withheld:
  assumes "json_ok J" and "keys_ok C (w_keys w)" and "quarantine_imported_sends sv w = (w', Inr n)"
    and "\<forall>op \<in> set ops. allowed False op"
  shows "resendable J (w_db (wallet_run C J sv ops w')) = []"
proof -
  have w': "all_withheld (w_db w')" "w_keys w' = w_keys w" using imported_all_withheld [OF assms(3)] by simp_all
  have "all_withheld (w_db (wallet_run C J sv ops w'))"
    using withheld.run [OF assms(1,2) w'(1,2) assms(4)] by blast
  then show ?thesis by (rule withheld_not_resent)
qed

theorem imported_sends_stay_withheld_witness:
  "resendable toy_wallet_json (w_db (wallet_run toy toy_wallet_json toy_saver [ScanBlocks toy_pages, LightRescan]
     (fst (quarantine_imported_sends toy_saver toy_later)))) = []"
proof -
  have "save_as toy_saver v x = (v, Inr x)" for v and x :: nat
    by (simp add: save_as_def wallet_save_def toy_saver_def)
  then have "\<exists>w n. quarantine_imported_sends toy_saver toy_later = (w, Inr n)"
    by (simp add: quarantine_imported_sends_def Let_def)
  then obtain w n where q: "quarantine_imported_sends toy_saver toy_later = (w, Inr n)" by blast
  show ?thesis unfolding q fst_conv
    by (rule imported_sends_stay_withheld [OF toy_wallet_json_ok _ q]) (simp_all add: toy_later_sel toy_keys_ok allowed_def)
qed

text \<open>
  A checkpoint of a swap is never overwritten from a stale copy: once a write at a revision
  was accepted, no write at that revision is accepted again, whatever was written in between.
\<close>

theorem stale_checkpoint_is_refused:
  assumes "put_swap_checkpoint False j i e p = Inr (j', r)"
  shows "\<exists>err. put_swap_checkpoint False (journal_writes xs j') i e q = Inl err"
  by (rule stale_write_refused [OF assms])

theorem stale_checkpoint_is_refused_witness:
  "\<exists>j. put_swap_checkpoint False journal_default ''00000000-0000-4000-8000-000000000001'' 0 ''a'' = Inr (j, 1)
     \<and> (\<exists>err. put_swap_checkpoint False (journal_writes [(''00000000-0000-4000-8000-000000000001'', 1, ''b'')] j)
           ''00000000-0000-4000-8000-000000000001'' 0 ''c'' = Inl err)"
proof -
  have v: "valid_id ''00000000-0000-4000-8000-000000000001''" by code_simp
  obtain j where j: "put_swap_checkpoint False journal_default ''00000000-0000-4000-8000-000000000001'' 0 ''a'' = Inr (j, 1)"
    by (simp add: put_swap_checkpoint_def v ensure_def journal_default_def journal_validate_def ok_or_def
        checked_add_def record_position_def others_size_def params Let_def)
  from stale_checkpoint_is_refused [OF j] show ?thesis using j by blast
qed

text \<open>
  C37.  The receipt of an owned output, at any time in the wallet's life, verifies and proves the
  amount, and its signature covers every field: what is signed is the hash of a message that no
  other receipt has, whatever its kind, address, amount, commitment, blinding factor, memo, height
  or time (fields shorter than \<open>2\<^sup>64\<close> bytes; two messages with one hash are outside).
\<close>

theorem output_receipt_is_proof:
  assumes "group_ok C" "encoding_ok C" and "json_ok J" "keys_ok C (w_keys w0)" "file_ok C (w_db w0)"
    and "prove_output C ent (wallet_run C J sv ops w0) s = Inr r"
  shows "(\<exists>p oo. verify_receipt C r = Inr p \<and> oo \<in> set (wf_outputs (w_db (wallet_run C J sv ops w0)))
     \<and> rp_amount_proven p \<and> rp_unsigned p = [] \<and> rp_amount p = oo_value oo
     \<and> rp_reference p = hex_encode (oo_commit oo) \<and> rp_kind p = (if oo_coinbase oo then RkMined else RkReceived))
   \<and> receipt_digest C r = blake3 C (signed_message r)
   \<and> (receipt_small r \<longrightarrow> (\<forall>r'. receipt_small r' \<and> signed_message r' = signed_message r
        \<longrightarrow> r' = r\<lparr>rc_v := rc_v r', rc_sig_r := rc_sig_r r', rc_sig_s := rc_sig_s r'\<rparr>))"
proof (intro conjI impI allI)
  have "file_ok C (w_db (wallet_run C J sv ops w0))"
    using typed.run [OF assms(3,4), where w = w0 and sv = sv and ops = ops] assms(2,5) by (simp add: allowed_def)
  then show "\<exists>p oo. verify_receipt C r = Inr p \<and> oo \<in> set (wf_outputs (w_db (wallet_run C J sv ops w0)))
     \<and> rp_amount_proven p \<and> rp_unsigned p = [] \<and> rp_amount p = oo_value oo
     \<and> rp_reference p = hex_encode (oo_commit oo) \<and> rp_kind p = (if oo_coinbase oo then RkMined else RkReceived)"
    by (rule output_receipt_verifies [OF assms(1,2) _ assms(6)])
  show "receipt_digest C r = blake3 C (signed_message r)" by (rule digest_of_message)
  have "rc_v r \<noteq> 1" using prove_output_version [OF assms(6)] by simp
  then show "r' = r\<lparr>rc_v := rc_v r', rc_sig_r := rc_sig_r r', rc_sig_s := rc_sig_s r'\<rparr>"
    if "receipt_small r" "receipt_small r' \<and> signed_message r' = signed_message r" for r'
    using that by (intro message_fixes_receipt) auto
qed

theorem output_receipt_is_proof_witness:
  "\<exists>r p. prove_output toy [9] toy_wallet [] = Inr r \<and> verify_receipt toy r = Inr p \<and> rp_amount p = 1001
     \<and> receipt_digest toy r = blake3 toy (signed_message r)
     \<and> signed_message (r\<lparr>rc_timestamp := rc_timestamp r + 1\<rparr>) \<noteq> signed_message r"
proof -
  have t: "trim [] = []" by (simp add: trim_solid)
  let ?r = "receipt_from_output toy [9] toy_wallet (toy_owned 1001 3) None"
  have r: "prove_output toy [9] toy_wallet [] = Inr ?r"
    by (simp add: prove_output_def needle_of_def t to_ascii_lowercase_def matches_needle_def strip_prefix_def ok_or_def)
  have "wallet_run toy toy_wallet_json toy_saver [] toy_wallet = toy_wallet" by (simp add: wallet_run_def)
  note claim = output_receipt_is_proof [OF toy_group toy_encoding toy_wallet_json_ok _ toy_wallet_ok, of "[9]" toy_saver "[]" "[]" ?r,
      unfolded this, OF toy_keys_ok_wallet r]
  obtain p oo where p: "verify_receipt toy ?r = Inr p" "oo \<in> {toy_owned 1001 3, toy_owned 1001 7}" "rp_amount p = oo_value oo"
    using claim [THEN conjunct1] by auto
  have "rp_amount p = 1001" using p(2,3) by auto
  moreover have "signed_message (?r\<lparr>rc_timestamp := rc_timestamp ?r + 1\<rparr>) \<noteq> signed_message ?r"
  proof
    assume "signed_message (?r\<lparr>rc_timestamp := rc_timestamp ?r + 1\<rparr>) = signed_message ?r"
    with claim toy_receipt_small have
      "?r\<lparr>rc_timestamp := rc_timestamp ?r + 1\<rparr> = ?r\<lparr>rc_v := rc_v (?r\<lparr>rc_timestamp := rc_timestamp ?r + 1\<rparr>),
         rc_sig_r := rc_sig_r (?r\<lparr>rc_timestamp := rc_timestamp ?r + 1\<rparr>), rc_sig_s := rc_sig_s (?r\<lparr>rc_timestamp := rc_timestamp ?r + 1\<rparr>)\<rparr>"
      by blast
    from arg_cong [OF this, of rc_timestamp] show False by simp
  qed
  ultimately show ?thesis using r p(1) claim [THEN conjunct2, THEN conjunct1] by blast
qed

section \<open>The vault\<close>

text \<open>
  C38.  Whatever was done to a vault, its sealed bytes open with its current password and give
  the wallet of the last snapshot.
\<close>

theorem sealed_wallet_opens:
  assumes "vault_lib_ok L" "json_ok J" "json_text_ok J" and "vault_history C L J pw w v"
  shows "\<exists>v0 v1. vault_from_bytes (va_sealed v) = Inr v0 \<and> vault_unlock C L J pw (w_network w) v0 = (v1, Inr ())
    \<and> vault_wallet v1 = Inr w"
  by (rule sealed_opens [OF assms])

theorem sealed_wallet_opens_witness:
  "\<exists>v0 v1. vault_from_bytes (va_sealed (forget_unlocked toy_vault)) = Inr v0
    \<and> vault_unlock toy toy_cipher toy_vault_json toy_password (w_network toy_wallet) v0 = (v1, Inr ())
    \<and> vault_wallet v1 = Inr toy_wallet"
proof (rule sealed_wallet_opens [OF toy_cipher_ok toy_vault_json_ok toy_vault_json_text vh_forget], rule vh_create [OF toy_creates])
  show "vault_wallet toy_vault = Inr toy_wallet" by (simp add: vault_wallet_def toy_vault_def ok_or_def)
qed (simp_all add: draw_ok_def)

text \<open>
  C39.  An edit of a stored vault is committed before its result is handed out: a result means
  that the store and its file hold the edited wallet, an error leaves the wallet of before or an
  unusable store, and at every moment the file opens to one of the two.
\<close>

theorem edit_is_on_disk_before_its_result:
  assumes "vault_lib_ok L" "json_ok J" "json_text_ok J" and "holds C L J pw w s" and "on_file s"
    and "edit_ok C edit" and "draw_ok 24 nonce" and "store_update C L J nonce edit s = (s', r)"
  shows "(case r of
      Inr x \<Rightarrow> \<exists>w'. edit w = Inr (w', x) \<and> holds C L J pw w' s' \<and> on_file s'
    | Inl e \<Rightarrow> vs_unusable s' \<or> (holds C L J pw w s' \<and> on_file s'))
    \<and> since (opens_one_of C L J pw (\<lambda>w'. w' = w \<or> (\<exists>x. edit w = Inr (w', x)))) (vs_world s) (vs_world s')"
  using update_outcome [OF assms] by (simp split: sum.split)

theorem edit_is_on_disk_before_its_result_witness:
  "since (opens_one_of toy toy_cipher toy_vault_json toy_password (\<lambda>w'. w' = toy_wallet \<or> (\<exists>x. toy_edit toy_wallet = Inr (w', x))))
     toy_world (vs_world (fst (store_update toy toy_cipher toy_vault_json (Some (replicate 24 9)) toy_edit toy_store)))"
  using edit_is_on_disk_before_its_result [OF toy_cipher_ok toy_vault_json_ok toy_vault_json_text toy_holds toy_edit_ok _
      surjective_pairing, of "Some (replicate 24 9)"]
  by (simp add: draw_ok_def toy_store_def)

text \<open>
  C40.  Retiring the plaintext of a migrated wallet, whatever fails on the way: at every moment
  only the two plaintext files and temporary markers differ from the start, and if anything
  differs then the snapshot opens with the password to a wallet that has the seed and the
  database of those files.
\<close>

theorem retired_plaintext_is_in_the_vault:
  "since (retiring C L J D pw (vw_files (vs_world s))) (vs_world s)
     (vs_world (fst (finish_legacy_retirement C L J D pw s)))"
  using retirement_triple [of s C L J D pw] unmoved_refl [of s]
  unfolding sr_triple_def
  by (cases "finish_legacy_retirement C L J D pw s"; cases "snd (finish_legacy_retirement C L J D pw s)") fastforce+

section \<open>The node\<close>

text \<open>
  C12.  Whatever a node was asked, told, offered or fed, in any order, with a branch verified on the side
  and spliced in later: its chain is well formed and its supply verifies, its pool is in order, what
  it keeps for peers is bounded, and its mark for a branch in flight is up exactly while one is.
\<close>

theorem node_machine_is_sound:
  assumes "encoding_ok (ne_crypto E)" and "group_ok (ne_crypto E)" and "node_reach E (g, job)"
  shows "chain_ok (ne_crypto E) (nd_chain g) \<and> chain_verify_supply (ne_crypto E) (nd_chain g) = Inr ()
    \<and> mempool_ok (ne_crypto E) (nd_mempool g) \<and> length (nd_branch g) \<le> 600 \<and> length (nd_ibd_buffer g) \<le> 8
    \<and> length (nd_last_reorg_fetch g) \<le> 256 \<and> (nd_reorg_in_flight g \<longleftrightarrow> job \<noteq> None)"
proof -
  have m: "machine_ok E (g, job)" by (rule reached_node_ok [OF assms])
  then show ?thesis using machine_chain [OF m] by (simp add: machine_ok_def node_ok_def books_ok_def params)
qed

theorem node_machine_is_sound_witness:
  "chain_verify_supply toy (nd_chain toy_grown) = Inr () \<and> \<not> nd_reorg_in_flight toy_grown"
  using node_machine_is_sound [OF _ _ toy_reached] toy_encoding toy_group by simp

text \<open>
  C13.  The chain of a node never gets lighter: between two moments of its life, with no resync asked for
  in between, its total work does not fall, whatever branches were adopted.
\<close>

theorem chain_never_gets_lighter:
  assumes "encoding_ok (ne_crypto E)" and "group_ok (ne_crypto E)" and "node_reach E w" and "node_runs E w w'"
  shows "total_work (nd_chain (fst w)) \<le> total_work (nd_chain (fst w'))"
  using run_keeps_work [OF assms(1,2) reached_node_ok [OF assms(1,2,3)] assms(4)] by simp

theorem chain_never_gets_lighter_witness:
  "total_work toy_chain \<le> total_work (toy_after toy_chain)"
  using chain_never_gets_lighter [OF _ _ toy_boot toy_run] toy_encoding toy_group
  by (simp add: toy_grown_chain)

text \<open>
  C14.  What the search for the last common block with an honest peer finds, when the lower of the two
  tips is above 500: the exact height if the chains parted at most 256 blocks below that tip; a
  height 501 below it otherwise, which the node then refuses as too deep, although a branch may
  part from the chain 500 blocks below its tip.
\<close>

theorem fork_search_result:
  assumes "answers ask theirs peer_h" and "forks_after (ne_crypto E) (nd_chain g) theirs A peer_h"
    and "our_hash_at (ne_crypto E) (nd_chain g) peer_h \<noteq> Some peer_tip"
    and ceiling: "ceiling = min (our_height g) peer_h" and "500 < unat ceiling" and "A \<le> ceiling"
  shows "snd (common_ancestor (ne_crypto E) (nd_chain g) ask peer_h peer_tip c)
      = (if unat ceiling - unat A \<le> 256 then A else ceiling - 501)
    \<and> (\<exists>n. prepare_reorg E (ceiling - 501) g = (g\<lparr>nd_fork_rewind := n, nd_stalled_on_fork := True\<rparr>, None))"
proof -
  have "ceiling = min (case tip_height (nd_chain g) of Some h \<Rightarrow> h | None \<Rightarrow> 0) peer_h"
    by (simp add: ceiling our_height_def option.case_eq_if)
  moreover have "ceiling \<le> our_height g" by (simp add: ceiling)
  ultimately show ?thesis
    using common_ancestor_exact [OF assms(1-3) _ assms(5,6)] deep_fork_refused [OF _ assms(5), of g] by blast
qed

theorem fork_search_result_witness:
  "snd (common_ancestor toy (toy_forked 500) toy_ask 700 ''x'' ()) = 500
   \<and> snd (common_ancestor toy (toy_forked 300) toy_ask 700 ''x'' ()) = 199"
proof -
  have "snd (common_ancestor toy (toy_forked a) toy_ask 700 ''x'' ()) = (if 700 - a \<le> 256 then of_nat a else 199)"
    if a: "a < 700" for a
    using fork_search_result [of toy_ask "\<lambda>_. toy_peer_block" 700 toy_env "toy_node (toy_forked a)" "of_nat a" "''x''" 700 "()"]
      toy_answers toy_forks [OF a] toy_no_tip [OF a] toy_forked_tip [of a] a
    by (simp add: our_height_def word_le_nat_alt unsigned_of_nat take_bit_nat_eq_self)
  from this [of 500] this [of 300] show ?thesis by simp
qed

text \<open>
  C15.  Pages of blocks that sessions fetched ahead may arrive in any order: up to nine consecutive pages,
  each valid on the chain the ones before it lead to, lead to the chain of the last one, and
  nothing is left in the buffer.
\<close>

theorem pages_in_any_order_arrive:
  assumes "page_chain (ne_crypto E) now chs ps k" and "k \<le> 9"
    and "nd_chain g = chs 0" and "nd_ibd_buffer g = []" and "distinct order" and "set order = {..<k}"
  shows "nd_chain (fold (\<lambda>i g. fst (apply_ibd_page E (ps i) now g)) order g) = chs k
    \<and> nd_ibd_buffer (fold (\<lambda>i g. fst (apply_ibd_page E (ps i) now g)) order g) = []"
  using pages_in_any_order [OF assms] by blast

theorem pages_in_any_order_arrive_witness:
  "nd_chain (fst (apply_ibd_page toy_env [toy_next toy_chain] 10 (toy_node toy_chain))) = toy_after toy_chain"
  using pages_in_any_order_arrive [of toy_env 10 "\<lambda>i. if i = 0 then toy_chain else toy_after toy_chain"
      "\<lambda>_. [toy_next toy_chain]" 1 "toy_node toy_chain" "[0]"] toy_page
  by (simp add: lessThan_Suc)

text \<open>
  C16.  A node that heard of a higher chain within the last two minutes and has a peer does not mine,
  however long it has made no progress: it hands out no template, and a block found on one handed
  out before is neither applied nor announced.  The comments on \<open>behind_since\<close>, \<open>bump_tip\<close> and
  \<open>MAX_CATCHUP_WAIT_SECS\<close> say that mining resumes after ten minutes without progress although a peer
  claims more; \<open>mining_should_wait\<close> resumes only when no peer confirmed a greater height lately.
\<close>

theorem behind_node_does_not_mine:
  assumes "hears_of_more now g"
  shows "snd (mining_template E drs now g) = None
    \<and> nd_chain (fst (mining_submit E now t nonce g)) = nd_chain g \<and> snd (mining_submit E now t nonce g) = []"
  by (intro conjI behind_no_template [OF assms] behind_no_block [OF assms, THEN conjunct1]
      behind_no_block [OF assms, THEN conjunct2])

theorem behind_node_does_not_mine_witness:
  "\<forall>drs. snd (mining_template toy_env drs 150 toy_behind) = None"
  by (intro allI behind_node_does_not_mine [OF toy_hears, THEN conjunct1])

text \<open>
  Within fifteen seconds of a fetch that was started for a peer no second one is started for it,
  whatever was asked for other peers in between, the bound on the number of entries included.
\<close>

theorem one_reorg_fetch_per_window:
  assumes "distinct (map fst m0)" and "claim_reorg_fetch_slot a t0 m0 = (m1, True)"
    and "\<And>e. e \<in> set es \<Longrightarrow> sat_sub (snd e) t0 < 15" and "sat_sub t t0 < 15"
  shows "\<not> snd (claim_reorg_fetch_slot a t (fetch_claims es m1))"
  by (rule one_fetch_per_window [OF assms])

theorem one_reorg_fetch_per_window_witness:
  "\<not> snd (claim_reorg_fetch_slot ''a'' 114 (fetch_claims [(''b'', 103), (''c'', 108)]
       (fst (claim_reorg_fetch_slot ''a'' 100 []))))"
  by (rule one_reorg_fetch_per_window [where ?t0.0 = 100 and ?m0.0 = "[]"])
    (auto simp: claim_reorg_fetch_slot_def sat_sub_def params)

text \<open>
  C17.  Submitting a transaction sends it to one peer at most: to one session, or, if there is none, by
  one connection made for it.  A session is sent it under an embargo that ends 12 to 28 seconds
  later.  While that embargo stands, in whatever later state of the node, no round of the thread
  that ends embargoes sends the transaction or lifts the embargo; the first round after its end
  sends it to every session, if it is still in the pool.
\<close>

theorem own_transaction_goes_to_one_peer:
  assumes "submit_tx E d now t g = (g', acts, r)" and "unat now + 28 < 2 ^ 64"
  shows "(acts = [] \<or> (\<exists>s \<in> set (pool_all (nd_sessions g)). acts = [SendTx (ss_key s) t])
      \<or> (nd_sessions g = [] \<and> (\<exists>a. acts = [DialTx a t])))
   \<and> (\<forall>k. acts = [SendTx k t] \<longrightarrow> (\<exists>dl. unat now + 12 \<le> unat dl \<and> unat dl \<le> unat now + 28 \<and> withheld_until E t dl g'))
   \<and> (\<forall>dl h now'. withheld_until E t dl h \<and> relays_ok E h \<longrightarrow>
        (now' < dl \<longrightarrow> (\<forall>k. SendTx k t \<notin> set (snd (fluff_due now' h))) \<and> withheld_until E t dl (fst (fluff_due now' h)))
      \<and> (dl \<le> now' \<and> map_of (pool_txs (nd_mempool h)) (hash_to_hex (txid (ne_crypto E) t)) = Some t \<longrightarrow>
           (\<forall>s \<in> set (pool_all (nd_sessions h)). SendTx (ss_key s) t \<in> set (snd (fluff_due now' h)))))"
proof (intro conjI allI impI)
  show "acts = [] \<or> (\<exists>s \<in> set (pool_all (nd_sessions g)). acts = [SendTx (ss_key s) t])
      \<or> (nd_sessions g = [] \<and> (\<exists>a. acts = [DialTx a t]))"
    by (rule own_transaction_one_hop [OF assms(1)])
  show "\<exists>dl. unat now + 12 \<le> unat dl \<and> unat dl \<le> unat now + 28 \<and> withheld_until E t dl g'" if "acts = [SendTx k t]" for k
    using own_transaction_withheld [OF assms(1) [unfolded that]] embargo_bounds [OF assms(2)] by blast
qed (use embargo_holds embargo_ends in blast)+

theorem own_transaction_goes_to_one_peer_witness:
  "\<exists>g'. submit_tx toy_env \<lparr>rd_stem = False, rd_index = 5, rd_span = 20\<rparr> 100 toy_transfer toy_relay
       = (g', [SendTx ''b'' toy_transfer], Inr (hash_to_hex (txid toy toy_transfer)))
     \<and> SendTx ''a'' toy_transfer \<notin> set (snd (fluff_due 111 g')) \<and> SendTx ''b'' toy_transfer \<notin> set (snd (fluff_due 111 g'))
     \<and> SendTx ''a'' toy_transfer \<in> set (snd (fluff_due 128 g')) \<and> SendTx ''b'' toy_transfer \<in> set (snd (fluff_due 128 g'))"
proof -
  define d where "d = \<lparr>rd_stem = False, rd_index = 5, rd_span = 20 :: u64\<rparr>"
  note run = toy_submits [of d] and ok = toy_relayed_ok [of d]
  have small: "unat (100 :: u64) + 28 < 2 ^ 64" by simp
  note claim = own_transaction_goes_to_one_peer [OF run small]
  obtain dl where dl: "unat dl \<le> 128" "112 \<le> unat dl" "withheld_until toy_env toy_transfer dl (toy_relayed d)"
    using claim [THEN conjunct2, THEN conjunct1] by auto
  have at: "111 < dl" "dl \<le> 128" using dl(1,2) by (simp_all add: word_less_nat_alt word_le_nat_alt)
  have pooled: "map_of (pool_txs (nd_mempool (toy_relayed d))) (hash_to_hex (txid (ne_crypto toy_env) toy_transfer)) = Some toy_transfer"
    "pool_all (nd_sessions (toy_relayed d)) = [\<lparr>ss_key = ''a'', ss_outbound = False\<rparr>, \<lparr>ss_key = ''b'', ss_outbound = True\<rparr>]"
    by (simp_all add: toy_relayed_def toy_relay_def pool_all_def Let_def)
  note rounds = claim [THEN conjunct2, THEN conjunct2, rule_format, OF conjI [OF dl(3) ok]]
  have "SendTx k toy_transfer \<notin> set (snd (fluff_due 111 (toy_relayed d)))" for k
    using rounds [of 111] at(1) by blast
  moreover have "SendTx (ss_key s) toy_transfer \<in> set (snd (fluff_due 128 (toy_relayed d)))"
    if "s \<in> set (pool_all (nd_sessions (toy_relayed d)))" for s
    using rounds [of 128] at(2) pooled(1) that by blast
  ultimately show ?thesis using run unfolding d_def [symmetric] pooled(2) by fastforce
qed

end
